(* ===== verification/Kefir_Prelude.thy ===== *)
theory Kefir_Prelude
  imports Main "HOL-Library.Word"
begin

text \<open>
  Shared vocabulary of the development: the result codes every operation of the compiler
  returns, sequencing of fallible steps, and the generic facts on lists that the components
  use. A fallible computation that yields a value has type \<open>'a result\<close>, with \<open>Inl\<close> for the
  result code of a failed \<^verbatim>\<open>REQUIRE\<close>; an operation that mutates an object returns its result code
  together with the object, because several operations of the code leave a changed object
  behind when they fail.
\<close>

section \<open>Result codes\<close>

datatype kefir_result =
    KEFIR_OK | KEFIR_YIELD | KEFIR_INTERRUPT
  | KEFIR_ITERATOR_END | KEFIR_NO_MATCH | KEFIR_NOT_FOUND | KEFIR_ALREADY_EXISTS
  | KEFIR_OUT_OF_SPACE
  | KEFIR_UNKNOWN_ERROR | KEFIR_INTERNAL_ERROR | KEFIR_OS_ERROR | KEFIR_INVALID_PARAMETER
  | KEFIR_INVALID_CHANGE | KEFIR_INVALID_REQUEST | KEFIR_INVALID_STATE | KEFIR_OUT_OF_BOUNDS
  | KEFIR_OBJALLOC_FAILURE | KEFIR_MEMALLOC_FAILURE | KEFIR_NOT_SUPPORTED
  | KEFIR_NOT_IMPLEMENTED | KEFIR_UI_ERROR | KEFIR_SUBPROCESS_ERROR | KEFIR_ENVIRONMENT_ERROR
  | KEFIR_LEXER_ERROR | KEFIR_SYNTAX_ERROR | KEFIR_ANALYSIS_ERROR | KEFIR_NOT_CONSTANT
  | KEFIR_STATIC_ASSERT | KEFIR_PREPROCESSOR_ERROR_DIRECTIVE

type_synonym 'a result = "kefir_result + 'a"

text \<open>\<^verbatim>\<open>REQUIRE_OK\<close> on a step that yields a value: the first failure is the result.\<close>

primrec bindE :: "'e + 'a \<Rightarrow> ('a \<Rightarrow> 'e + 'b) \<Rightarrow> 'e + 'b" where
  "bindE (Inl e) f = Inl e"
| "bindE (Inr x) f = f x"

lemma bindE_cong [fundef_cong]:
  "m = m' \<Longrightarrow> (\<And>x. m' = Inr x \<Longrightarrow> f x = f' x) \<Longrightarrow> bindE m f = bindE m' f'"
  by (cases m') auto

lemma bindE_eq_Inr_iff: "bindE m f = Inr y \<longleftrightarrow> (\<exists>x. m = Inr x \<and> f x = Inr y)"
  by (cases m) auto

lemma bindE_eq_Inl_iff: "bindE m f = Inl e \<longleftrightarrow> m = Inl e \<or> (\<exists>x. m = Inr x \<and> f x = Inl e)"
  by (cases m) auto

lemmas bindE_iffs = bindE_eq_Inr_iff bindE_eq_Inl_iff

text \<open>\<^verbatim>\<open>REQUIRE\<close> on a condition.\<close>

definition requireE :: "bool \<Rightarrow> 'e \<Rightarrow> 'e + unit" where
  "requireE c e = (if c then Inr () else Inl e)"

lemma requireE_simps [simp]:
  "requireE True e = Inr ()"
  "requireE False e = Inl e"
  "requireE c e = Inr u \<longleftrightarrow> c"
  "requireE c e = Inl e' \<longleftrightarrow> \<not> c \<and> e' = e"
  by (auto simp: requireE_def)

section \<open>Lists\<close>

lemma list_update_split:
  "i < length xs \<Longrightarrow> xs[i := x] = take i xs @ x # drop (Suc i) xs"
  by (rule upd_conv_take_nth_drop)

lemma sorted_wrt_appendD:
  assumes "sorted_wrt P (xs @ x # ys)"
  shows "sorted_wrt P xs" "sorted_wrt P ys" "\<And>a. a \<in> set xs \<Longrightarrow> P a x" "\<And>b. b \<in> set ys \<Longrightarrow> P x b"
  using assms by (auto simp: sorted_wrt_append)

lemma sorted_wrt_insert_mid:
  assumes "sorted_wrt P (xs @ ys)" and "\<And>a. a \<in> set xs \<Longrightarrow> P a x" and "\<And>b. b \<in> set ys \<Longrightarrow> P x b"
  shows "sorted_wrt P (xs @ x # ys)"
  using assms by (auto simp: sorted_wrt_append)

lemma map_of_append_mid:
  assumes "k \<notin> fst ` set xs"
  shows "map_of (xs @ (k, v) # ys) = (map_of (xs @ ys))(k \<mapsto> v)"
proof -
  have "map_of xs k = None" using assms by (simp add: map_of_eq_None_iff)
  then show ?thesis by (auto simp: fun_eq_iff map_add_def split: option.splits)
qed

lemma map_of_mid_at: "k \<notin> fst ` set xs \<Longrightarrow> map_of (xs @ (k, v) # ys) k = Some v"
  using map_of_append_mid [of k xs v ys] by (simp del: map_of_append)

lemma map_of_remove_mid:
  assumes "distinct (map fst (xs @ (k, v) # ys))"
  shows "map_of (xs @ ys) = (map_of (xs @ (k, v) # ys))(k := None)"
proof -
  have "map_of xs k = None" "map_of ys k = None"
    using assms by (auto simp: map_of_eq_None_iff)
  then show ?thesis by (auto simp: fun_eq_iff map_add_def split: option.splits)
qed

section \<open>Words\<close>

lemma unat_of_nat_64: "m < 2 ^ 64 \<Longrightarrow> unat (of_nat m :: 64 word) = m"
  by (simp add: unsigned_of_nat take_bit_nat_eq_self_iff)

end
