(* ===== verification/Kefir_Map.thy ===== *)
theory Kefir_Map
  imports Kefir_Prelude
begin

text \<open>
  The contract of an associative container: what a lookup returns after an insertion or a
  deletion, with which result code each operation answers, and that every operation keeps the
  container's invariant. The balanced tree (\<^verbatim>\<open>source/core/hashtree.c\<close>) and the open-addressing
  table (\<^verbatim>\<open>source/core/hashtable.c\<close>) both provide it; what their clients need is proved here once.
\<close>

section \<open>The abstract specification: finite maps driven by a sequence of operations\<close>

datatype ('k, 'v) map_op = MInsert 'k 'v | MDelete 'k

fun spec_map_step :: "('k \<rightharpoonup> 'v) \<Rightarrow> ('k, 'v) map_op \<Rightarrow> kefir_result \<times> ('k \<rightharpoonup> 'v)" where
  "spec_map_step m (MInsert k v) =
     (if m k = None then (KEFIR_OK, m(k \<mapsto> v)) else (KEFIR_ALREADY_EXISTS, m))"
| "spec_map_step m (MDelete k) =
     (if m k = None then (KEFIR_NOT_FOUND, m) else (KEFIR_OK, m(k := None)))"

fun spec_map_run :: "('k \<rightharpoonup> 'v) \<Rightarrow> ('k, 'v) map_op list \<Rightarrow> kefir_result list \<times> ('k \<rightharpoonup> 'v)" where
  "spec_map_run m [] = ([], m)"
| "spec_map_run m (x # xs) =
     (let (r, m') = spec_map_step m x; (rs, m'') = spec_map_run m' xs in (r # rs, m''))"

text \<open>The same sequence run on a container that offers an insertion and a deletion.\<close>

fun map_step :: "('t \<Rightarrow> 'k \<Rightarrow> 'v \<Rightarrow> kefir_result \<times> 't) \<Rightarrow> ('t \<Rightarrow> 'k \<Rightarrow> kefir_result \<times> 't) \<Rightarrow>
    't \<Rightarrow> ('k, 'v) map_op \<Rightarrow> kefir_result \<times> 't" where
  "map_step ins del t (MInsert k v) = ins t k v"
| "map_step ins del t (MDelete k) = del t k"

fun map_run :: "('t \<Rightarrow> 'k \<Rightarrow> 'v \<Rightarrow> kefir_result \<times> 't) \<Rightarrow> ('t \<Rightarrow> 'k \<Rightarrow> kefir_result \<times> 't) \<Rightarrow>
    't \<Rightarrow> ('k, 'v) map_op list \<Rightarrow> kefir_result list \<times> 't" where
  "map_run ins del t [] = ([], t)"
| "map_run ins del t (x # xs) =
     (let (r, t') = map_step ins del t x; (rs, t'') = map_run ins del t' xs in (r # rs, t''))"

section \<open>The contract\<close>

locale kefir_map =
  fixes inv :: "'t \<Rightarrow> bool"
    and abs :: "'t \<Rightarrow> 'k \<Rightarrow> 'v option"
    and at :: "'t \<Rightarrow> 'k \<Rightarrow> 'v result"
    and ins :: "'t \<Rightarrow> 'k \<Rightarrow> 'v \<Rightarrow> kefir_result \<times> 't"
    and del :: "'t \<Rightarrow> 'k \<Rightarrow> kefir_result \<times> 't"
  assumes at_present: "inv t \<Longrightarrow> abs t k = Some v \<Longrightarrow> at t k = Inr v"
    and at_absent: "inv t \<Longrightarrow> abs t k = None \<Longrightarrow> at t k = Inl KEFIR_NOT_FOUND"
    and ins_absent: "inv t \<Longrightarrow> abs t k = None \<Longrightarrow>
          \<exists>t'. ins t k v = (KEFIR_OK, t') \<and> inv t' \<and> abs t' = (abs t)(k \<mapsto> v)"
    and ins_present: "inv t \<Longrightarrow> abs t k = Some w \<Longrightarrow>
          \<exists>t'. ins t k v = (KEFIR_ALREADY_EXISTS, t') \<and> inv t' \<and> abs t' = abs t"
    and del_present: "inv t \<Longrightarrow> abs t k = Some w \<Longrightarrow>
          \<exists>t'. del t k = (KEFIR_OK, t') \<and> inv t' \<and> abs t' = (abs t)(k := None)"
    and del_absent: "inv t \<Longrightarrow> abs t k = None \<Longrightarrow>
          \<exists>t'. del t k = (KEFIR_NOT_FOUND, t') \<and> inv t' \<and> abs t' = abs t"
begin

lemma at_iff: "inv t \<Longrightarrow> at t k = Inr v \<longleftrightarrow> abs t k = Some v"
  by (cases "abs t k") (auto dest: at_present at_absent)

lemma ins_result:
  assumes "inv t"
  shows "fst (ins t k v) = (if abs t k = None then KEFIR_OK else KEFIR_ALREADY_EXISTS)"
    and "inv (snd (ins t k v))"
    and "abs (snd (ins t k v)) = (if abs t k = None then (abs t)(k \<mapsto> v) else abs t)"
  using assms ins_absent [of t k v] ins_present [of t k _ v] by (cases "abs t k"; force)+

lemma del_result:
  assumes "inv t"
  shows "fst (del t k) = (if abs t k = None then KEFIR_NOT_FOUND else KEFIR_OK)"
    and "inv (snd (del t k))"
    and "abs (snd (del t k)) = (abs t)(k := None)"
  using assms del_absent [of t k] del_present [of t k] by (cases "abs t k"; force simp: fun_eq_iff)+

lemma step_simulates:
  assumes "inv t"
  shows "spec_map_step (abs t) x =
      (fst (map_step ins del t x), abs (snd (map_step ins del t x))) \<and> inv (snd (map_step ins del t x))"
  using assms by (cases x) (auto simp: ins_result del_result fun_eq_iff)

text \<open>A whole run answers with the codes of the specification and ends in the same map.\<close>

lemma run_simulates:
  "inv t \<Longrightarrow> spec_map_run (abs t) xs =
     (fst (map_run ins del t xs), abs (snd (map_run ins del t xs))) \<and> inv (snd (map_run ins del t xs))"
proof (induction xs arbitrary: t)
  case Nil
  then show ?case by simp
next
  case (Cons x xs)
  obtain r t' where s: "map_step ins del t x = (r, t')" by fastforce
  have st: "spec_map_step (abs t) x = (r, abs t')" "inv t'"
    using step_simulates [OF Cons.prems, of x] s by auto
  show ?case
    using Cons.IH [OF st(2)] s st by (auto split: prod.splits)
qed

lemma at_after_ins: "inv t \<Longrightarrow> abs t k = None \<Longrightarrow>
    at (snd (ins t k v)) k' = (if k' = k then Inr v else at t k')"
  by (cases "abs t k'") (auto simp: ins_result at_present at_absent)

lemma at_after_del: "inv t \<Longrightarrow>
    at (snd (del t k)) k' = (if k' = k then Inl KEFIR_NOT_FOUND else at t k')"
  by (cases "abs t k'") (auto simp: del_result at_present at_absent)

end

end
