(* ===== verification/Kefir_Hashtree.thy ===== *)
theory Kefir_Hashtree
  imports Kefir_Map
begin

text \<open>
  The balanced search tree of \<^verbatim>\<open>source/core/hashtree.c\<close>: an AVL tree whose nodes store the hash of
  their key and the height of their subtree, ordered by hash first and by the tree's comparison
  function second. A node pointer of the code is a \<^emph>\<open>location\<close> here: the subtree hanging at the
  node together with the chain of its \<^verbatim>\<open>parent\<close> pointers up to the root, so that the code's
  pointer surgery in the deletion and its walk along parents in the iterator are translated
  step by step. Trees are those without a \<^verbatim>\<open>node_link_modify\<close> callback, the state in which
  \<^verbatim>\<open>kefir_hashtree_init\<close> leaves them; the \<^verbatim>\<open>node_remove\<close> callback is a function of the removed
  key and value that yields a result code. The outcome of the node allocation is a parameter.
\<close>

section \<open>Data\<close>

record 'k hashtree_ops =
  op_hash :: "'k \<Rightarrow> 64 word"
  op_compare :: "'k \<Rightarrow> 'k \<Rightarrow> int"

datatype ('k, 'v) hashtree_node =
    HNil
  | HNode (left_child: "('k, 'v) hashtree_node") (node_hash: "64 word") (node_key: 'k)
      (node_value: 'v) (node_height: nat) (right_child: "('k, 'v) hashtree_node")

record ('k, 'v) hashtree =
  tree_ops :: "'k hashtree_ops"
  tree_root :: "('k, 'v) hashtree_node"
  tree_node_remove :: "('k \<Rightarrow> 'v \<Rightarrow> kefir_result) option"

text \<open>
  One step of a \<^verbatim>\<open>parent\<close> chain: the parent's fields and its other child. \<open>AtLeft\<close> is a parent
  whose \<^verbatim>\<open>left_child\<close> is the node in focus.
\<close>

datatype ('k, 'v) crumb =
    AtLeft "64 word" 'k 'v nat "('k, 'v) hashtree_node"
  | AtRight "('k, 'v) hashtree_node" "64 word" 'k 'v nat

type_synonym ('k, 'v) parents = "('k, 'v) crumb list"
type_synonym ('k, 'v) node_ptr = "('k, 'v) parents \<times> ('k, 'v) hashtree_node"

fun plug :: "('k, 'v) crumb \<Rightarrow> ('k, 'v) hashtree_node \<Rightarrow> ('k, 'v) hashtree_node" where
  "plug (AtLeft h k v ht r) t = HNode t h k v ht r"
| "plug (AtRight l h k v ht) t = HNode l h k v ht t"

section \<open>Heights, rotations and rebalancing\<close>

fun NODE_HEIGHT :: "('k, 'v) hashtree_node \<Rightarrow> nat" where
  "NODE_HEIGHT HNil = 0"
| "NODE_HEIGHT (HNode l h k v ht r) = ht + 1"

definition NODE_EVAL_HEIGHT :: "('k, 'v) hashtree_node \<Rightarrow> ('k, 'v) hashtree_node \<Rightarrow> nat" where
  "NODE_EVAL_HEIGHT l r = max (NODE_HEIGHT l) (NODE_HEIGHT r)"

fun NODE_BF :: "('k, 'v) hashtree_node \<Rightarrow> int" where
  "NODE_BF HNil = 0"
| "NODE_BF (HNode l h k v ht r) = int (NODE_HEIGHT r) - int (NODE_HEIGHT l)"

fun NODE_UPDATE_HEIGHT :: "('k, 'v) hashtree_node \<Rightarrow> ('k, 'v) hashtree_node" where
  "NODE_UPDATE_HEIGHT HNil = HNil"
| "NODE_UPDATE_HEIGHT (HNode l h k v ht r) = HNode l h k v (NODE_EVAL_HEIGHT l r) r"

definition node_alloc :: "64 word \<Rightarrow> 'k \<Rightarrow> 'v \<Rightarrow> ('k, 'v) hashtree_node" where
  "node_alloc h k v = HNode HNil h k v 0 HNil"

text \<open>The rotations need the child they rotate up; \<^verbatim>\<open>assert\<close> guards the other shapes.\<close>

fun right_rotate :: "('k, 'v) hashtree_node \<Rightarrow> ('k, 'v) hashtree_node" where
  "right_rotate (HNode (HNode a h1 k1 v1 ht1 b) h k v ht c) =
     NODE_UPDATE_HEIGHT (HNode a h1 k1 v1 ht1 (NODE_UPDATE_HEIGHT (HNode b h k v ht c)))"
| "right_rotate t = t"

fun left_rotate :: "('k, 'v) hashtree_node \<Rightarrow> ('k, 'v) hashtree_node" where
  "left_rotate (HNode a h k v ht (HNode b h1 k1 v1 ht1 c)) =
     NODE_UPDATE_HEIGHT (HNode (NODE_UPDATE_HEIGHT (HNode a h k v ht b)) h1 k1 v1 ht1 c)"
| "left_rotate t = t"

fun left_right_rotate :: "('k, 'v) hashtree_node \<Rightarrow> ('k, 'v) hashtree_node" where
  "left_right_rotate (HNode l h k v ht r) = right_rotate (HNode (left_rotate l) h k v ht r)"
| "left_right_rotate HNil = HNil"

fun right_left_rotate :: "('k, 'v) hashtree_node \<Rightarrow> ('k, 'v) hashtree_node" where
  "right_left_rotate (HNode l h k v ht r) = left_rotate (HNode l h k v ht (right_rotate r))"
| "right_left_rotate HNil = HNil"

fun balance_node :: "('k, 'v) hashtree_node \<Rightarrow> ('k, 'v) hashtree_node" where
  "balance_node HNil = HNil"
| "balance_node (HNode l h k v ht r) =
     NODE_UPDATE_HEIGHT
       (if NODE_HEIGHT l > NODE_HEIGHT r + 1 then
          (if NODE_HEIGHT (left_child l) \<ge> NODE_HEIGHT (right_child l)
           then right_rotate (HNode l h k v ht r)
           else left_right_rotate (HNode l h k v ht r))
        else if NODE_HEIGHT r > NODE_HEIGHT l + 1 then
          (if NODE_HEIGHT (right_child r) \<ge> NODE_HEIGHT (left_child r)
           then left_rotate (HNode l h k v ht r)
           else right_left_rotate (HNode l h k v ht r))
        else HNode l h k v ht r)"

section \<open>Insertion\<close>

definition key_below :: "'k hashtree_ops \<Rightarrow> 64 word \<Rightarrow> 'k \<Rightarrow> 64 word \<Rightarrow> 'k \<Rightarrow> bool" where
  "key_below ops h k h' k' \<longleftrightarrow> h < h' \<or> (h = h' \<and> op_compare ops k k' < 0)"

definition key_above :: "'k hashtree_ops \<Rightarrow> 64 word \<Rightarrow> 'k \<Rightarrow> 64 word \<Rightarrow> 'k \<Rightarrow> bool" where
  "key_above ops h k h' k' \<longleftrightarrow> h > h' \<or> (h = h' \<and> op_compare ops k k' > 0)"

text \<open>
  \<^verbatim>\<open>node_insert\<close> descends to the missing child it has to create (the equation for \<^const>\<open>HNil\<close>)
  and rebalances every node it returns through. It yields the new subtree and the replaced value.
\<close>

fun node_insert :: "'k hashtree_ops \<Rightarrow> bool \<Rightarrow> 64 word \<Rightarrow> 'k \<Rightarrow> 'v \<Rightarrow> bool \<Rightarrow>
    ('k, 'v) hashtree_node \<Rightarrow> (('k, 'v) hashtree_node \<times> 'v option) result" where
  "node_insert ops alloc h k v rep HNil =
     (if alloc then Inr (node_alloc h k v, None) else Inl KEFIR_MEMALLOC_FAILURE)"
| "node_insert ops alloc h k v rep (HNode l h' k' v' ht r) =
     (if key_below ops h k h' k' then
        bindE (node_insert ops alloc h k v rep l)
          (\<lambda>(l', old). Inr (balance_node (HNode l' h' k' v' ht r), old))
      else if key_above ops h k h' k' then
        bindE (node_insert ops alloc h k v rep r)
          (\<lambda>(r', old). Inr (balance_node (HNode l h' k' v' ht r'), old))
      else if rep then Inr (HNode l h' k' v ht r, Some v')
      else Inl KEFIR_ALREADY_EXISTS)"

definition kefir_hashtree_init :: "'k hashtree_ops \<Rightarrow> ('k, 'v) hashtree" where
  "kefir_hashtree_init ops = \<lparr>tree_ops = ops, tree_root = HNil, tree_node_remove = None\<rparr>"

definition kefir_hashtree_on_removal ::
    "('k, 'v) hashtree \<Rightarrow> ('k \<Rightarrow> 'v \<Rightarrow> kefir_result) option \<Rightarrow> ('k, 'v) hashtree" where
  "kefir_hashtree_on_removal t cb = t\<lparr>tree_node_remove := cb\<rparr>"

text \<open>An empty tree takes the result of the allocation as its root without a check.\<close>

definition kefir_hashtree_insert ::
    "bool \<Rightarrow> ('k, 'v) hashtree \<Rightarrow> 'k \<Rightarrow> 'v \<Rightarrow> kefir_result \<times> ('k, 'v) hashtree" where
  "kefir_hashtree_insert alloc t k v =
     (let ops = tree_ops t; h = op_hash ops k in
      case tree_root t of
        HNil \<Rightarrow> (KEFIR_OK, t\<lparr>tree_root := (if alloc then node_alloc h k v else HNil)\<rparr>)
      | root \<Rightarrow> (case node_insert ops alloc h k v False root of
                   Inl e \<Rightarrow> (e, t)
                 | Inr (root', _) \<Rightarrow> (KEFIR_OK, t\<lparr>tree_root := root'\<rparr>)))"

section \<open>Lookup\<close>

fun node_find :: "'k hashtree_ops \<Rightarrow> 64 word \<Rightarrow> 'k \<Rightarrow> ('k, 'v) parents \<Rightarrow>
    ('k, 'v) hashtree_node \<Rightarrow> ('k, 'v) node_ptr result" where
  "node_find ops h k p HNil = Inl KEFIR_NOT_FOUND"
| "node_find ops h k p (HNode l h' k' v' ht r) =
     (if key_below ops h k h' k' then node_find ops h k (AtLeft h' k' v' ht r # p) l
      else if key_above ops h k h' k' then node_find ops h k (AtRight l h' k' v' ht # p) r
      else Inr (p, HNode l h' k' v' ht r))"

definition kefir_hashtree_at :: "('k, 'v) hashtree \<Rightarrow> 'k \<Rightarrow> ('k, 'v) node_ptr result" where
  "kefir_hashtree_at t k =
     (case node_find (tree_ops t) (op_hash (tree_ops t) k) k [] (tree_root t) of
        Inl _ \<Rightarrow> Inl KEFIR_NOT_FOUND
      | Inr n \<Rightarrow> Inr n)"

definition kefir_hashtree_has :: "('k, 'v) hashtree \<Rightarrow> 'k \<Rightarrow> bool" where
  "kefir_hashtree_has t k =
     (case node_find (tree_ops t) (op_hash (tree_ops t) k) k [] (tree_root t) of
        Inl _ \<Rightarrow> False
      | Inr _ \<Rightarrow> True)"

definition kefir_hashtree_empty :: "('k, 'v) hashtree \<Rightarrow> bool" where
  "kefir_hashtree_empty t \<longleftrightarrow> tree_root t = HNil"

text \<open>The bound searches keep the best node seen so far; \<^const>\<open>None\<close> is a null pointer.\<close>

fun node_find_lower_bound :: "'k hashtree_ops \<Rightarrow> 64 word \<Rightarrow> 'k \<Rightarrow> ('k, 'v) parents \<Rightarrow>
    ('k, 'v) hashtree_node \<Rightarrow> ('k, 'v) node_ptr option \<Rightarrow> ('k, 'v) node_ptr option" where
  "node_find_lower_bound ops h k p HNil best = best"
| "node_find_lower_bound ops h k p (HNode l h' k' v' ht r) best =
     (if key_below ops h k h' k'
      then node_find_lower_bound ops h k (AtLeft h' k' v' ht r # p) l best
      else if key_above ops h k h' k'
      then node_find_lower_bound ops h k (AtRight l h' k' v' ht # p) r
             (Some (p, HNode l h' k' v' ht r))
      else Some (p, HNode l h' k' v' ht r))"

fun node_find_upper_bound :: "'k hashtree_ops \<Rightarrow> 64 word \<Rightarrow> 'k \<Rightarrow> ('k, 'v) parents \<Rightarrow>
    ('k, 'v) hashtree_node \<Rightarrow> ('k, 'v) node_ptr option \<Rightarrow> ('k, 'v) node_ptr option" where
  "node_find_upper_bound ops h k p HNil best = best"
| "node_find_upper_bound ops h k p (HNode l h' k' v' ht r) best =
     (if key_below ops h k h' k'
      then node_find_upper_bound ops h k (AtLeft h' k' v' ht r # p) l
             (Some (p, HNode l h' k' v' ht r))
      else if key_above ops h k h' k'
      then node_find_upper_bound ops h k (AtRight l h' k' v' ht # p) r best
      else Some (p, HNode l h' k' v' ht r))"

definition kefir_hashtree_lower_bound :: "('k, 'v) hashtree \<Rightarrow> 'k \<Rightarrow> ('k, 'v) node_ptr result" where
  "kefir_hashtree_lower_bound t k =
     (case node_find_lower_bound (tree_ops t) (op_hash (tree_ops t) k) k [] (tree_root t) None of
        None \<Rightarrow> Inl KEFIR_NOT_FOUND
      | Some n \<Rightarrow> Inr n)"

definition kefir_hashtree_upper_bound :: "('k, 'v) hashtree \<Rightarrow> 'k \<Rightarrow> ('k, 'v) node_ptr result" where
  "kefir_hashtree_upper_bound t k =
     (case node_find_upper_bound (tree_ops t) (op_hash (tree_ops t) k) k [] (tree_root t) None of
        None \<Rightarrow> Inl KEFIR_NOT_FOUND
      | Some n \<Rightarrow> Inr n)"

section \<open>Extremal nodes and iteration\<close>

text \<open>\<^verbatim>\<open>min_node\<close> and \<^verbatim>\<open>node_minimum\<close> of the code return the same node; so do both translations.\<close>

fun min_node :: "('k, 'v) parents \<Rightarrow> ('k, 'v) hashtree_node \<Rightarrow> ('k, 'v) node_ptr option" where
  "min_node p HNil = None"
| "min_node p (HNode l h k v ht r) =
     (case min_node (AtLeft h k v ht r # p) l of
        Some child \<Rightarrow> Some child
      | None \<Rightarrow> Some (p, HNode l h k v ht r))"

fun max_node :: "('k, 'v) parents \<Rightarrow> ('k, 'v) hashtree_node \<Rightarrow> ('k, 'v) node_ptr option" where
  "max_node p HNil = None"
| "max_node p (HNode l h k v ht r) =
     (case max_node (AtRight l h k v ht # p) r of
        Some child \<Rightarrow> Some child
      | None \<Rightarrow> Some (p, HNode l h k v ht r))"

fun node_minimum :: "('k, 'v) parents \<Rightarrow> ('k, 'v) hashtree_node \<Rightarrow> ('k, 'v) node_ptr" where
  "node_minimum p HNil = (p, HNil)"
| "node_minimum p (HNode l h k v ht r) =
     (if l = HNil then (p, HNode l h k v ht r) else node_minimum (AtLeft h k v ht r # p) l)"

definition kefir_hashtree_min :: "('k, 'v) hashtree \<Rightarrow> ('k, 'v) node_ptr option" where
  "kefir_hashtree_min t = min_node [] (tree_root t)"

definition kefir_hashtree_max :: "('k, 'v) hashtree \<Rightarrow> ('k, 'v) node_ptr option" where
  "kefir_hashtree_max t = max_node [] (tree_root t)"

text \<open>The loop of \<^verbatim>\<open>kefir_hashtree_next_node\<close> along the parents, up to one above the given key.\<close>

fun next_parent :: "'k hashtree_ops \<Rightarrow> 64 word \<Rightarrow> 'k \<Rightarrow> ('k, 'v) parents \<Rightarrow>
    ('k, 'v) hashtree_node \<Rightarrow> ('k, 'v) node_ptr option" where
  "next_parent ops h k [] t = None"
| "next_parent ops h k (c # p) t =
     (let n = plug c t in
      if key_above ops (node_hash n) (node_key n) h k then Some (p, n)
      else next_parent ops h k p n)"

fun kefir_hashtree_next_node ::
    "'k hashtree_ops \<Rightarrow> ('k, 'v) node_ptr \<Rightarrow> ('k, 'v) node_ptr option" where
  "kefir_hashtree_next_node ops (p, HNil) = None"
| "kefir_hashtree_next_node ops (p, HNode l h k v ht r) =
     (if r \<noteq> HNil then min_node (AtRight l h k v ht # p) r
      else next_parent ops h k p (HNode l h k v ht r))"

definition kefir_hashtree_iter :: "('k, 'v) hashtree \<Rightarrow> ('k, 'v) node_ptr option" where
  "kefir_hashtree_iter t = min_node [] (tree_root t)"

definition kefir_hashtree_next ::
    "'k hashtree_ops \<Rightarrow> ('k, 'v) node_ptr option \<Rightarrow> ('k, 'v) node_ptr option" where
  "kefir_hashtree_next ops it = (case it of None \<Rightarrow> None | Some n \<Rightarrow> kefir_hashtree_next_node ops n)"

section \<open>Deletion\<close>

text \<open>The rebalancing loop: every ancestor is rebalanced, from the given parent chain to the root.\<close>

fun rebalance_parents ::
    "('k, 'v) parents \<Rightarrow> ('k, 'v) hashtree_node \<Rightarrow> ('k, 'v) hashtree_node" where
  "rebalance_parents [] t = t"
| "rebalance_parents (c # p) t = rebalance_parents p (balance_node (plug c t))"

text \<open>
  The node at the end of chain \<open>p\<close> is unlinked. A node with two children is replaced by the least
  node of its right subtree: when that is the right child itself, it is the lowest modified node;
  otherwise its own right child takes its place and its former parent is the lowest modified one.
\<close>

fun unlink_node :: "('k, 'v) parents \<Rightarrow> ('k, 'v) hashtree_node \<Rightarrow> ('k, 'v) hashtree_node" where
  "unlink_node p HNil = rebalance_parents p HNil"
| "unlink_node p (HNode l h k v ht r) =
     (if l = HNil \<and> r = HNil then rebalance_parents p HNil
      else if r = HNil then rebalance_parents p l
      else if l = HNil then rebalance_parents p r
      else (case node_minimum [] r of
              (q, HNode _ mh mk mv _ mr) \<Rightarrow>
                (if q = []
                 then rebalance_parents p (balance_node (HNode l mh mk mv (NODE_EVAL_HEIGHT l mr) mr))
                 else rebalance_parents (q @ AtRight l mh mk mv (NODE_EVAL_HEIGHT l r) # p) mr)
            | (q, HNil) \<Rightarrow> HNode l h k v ht r))"

definition kefir_hashtree_delete ::
    "('k, 'v) hashtree \<Rightarrow> 'k \<Rightarrow> kefir_result \<times> ('k, 'v) hashtree" where
  "kefir_hashtree_delete t k =
     (let ops = tree_ops t in
      case node_find ops (op_hash ops k) k [] (tree_root t) of
        Inl e \<Rightarrow> (e, t)
      | Inr (p, n) \<Rightarrow>
          ((case tree_node_remove t of
              None \<Rightarrow> KEFIR_OK
            | Some callback \<Rightarrow> callback (node_key n) (node_value n)),
           t\<lparr>tree_root := unlink_node p n\<rparr>))"

text \<open>
  \<^verbatim>\<open>node_free\<close> reports the removal of every entry, children first, and stops at the first failure.
  It yields the result code and the entries whose removal was reported.
\<close>

fun node_free :: "('k \<Rightarrow> 'v \<Rightarrow> kefir_result) option \<Rightarrow> ('k, 'v) hashtree_node \<Rightarrow>
    kefir_result \<times> ('k \<times> 'v) list" where
  "node_free cb HNil = (KEFIR_OK, [])"
| "node_free cb (HNode l h k v ht r) =
     (case node_free cb l of (res1, log1) \<Rightarrow>
        if res1 \<noteq> KEFIR_OK then (res1, log1)
        else (case node_free cb r of (res2, log2) \<Rightarrow>
          if res2 \<noteq> KEFIR_OK then (res2, log1 @ log2)
          else (case cb of
                  None \<Rightarrow> (KEFIR_OK, log1 @ log2)
                | Some f \<Rightarrow> (f k v, log1 @ log2 @ [(k, v)]))))"

definition kefir_hashtree_clean ::
    "('k, 'v) hashtree \<Rightarrow> kefir_result \<times> ('k \<times> 'v) list \<times> ('k, 'v) hashtree" where
  "kefir_hashtree_clean t =
     (case node_free (tree_node_remove t) (tree_root t) of (res, log) \<Rightarrow>
        if res \<noteq> KEFIR_OK then (res, log, t) else (KEFIR_OK, log, t\<lparr>tree_root := HNil\<rparr>))"

section \<open>Key operations\<close>

definition uint_compare :: "64 word \<Rightarrow> 64 word \<Rightarrow> int" where
  "uint_compare a b = (if a = b then 0 else if a < b then -1 else 1)"

definition kefir_hashtree_uint_ops :: "64 word hashtree_ops" where
  "kefir_hashtree_uint_ops = \<lparr>op_hash = (\<lambda>k. k), op_compare = uint_compare\<rparr>"

text \<open>
  A C string is the list of its bytes before the terminator. \<^verbatim>\<open>char\<close> is signed on the target, so a
  byte enters the hash sign-extended; \<^verbatim>\<open>strcmp\<close> compares bytes as unsigned, and only the sign of its
  result is specified.
\<close>

definition char_value :: "char \<Rightarrow> 64 word" where
  "char_value c = scast (of_char c :: 8 word)"

definition str_hash :: "string option \<Rightarrow> 64 word" where
  "str_hash s = (case s of None \<Rightarrow> 0 | Some cs \<Rightarrow> foldl (\<lambda>hash c. hash * 31 + char_value c) 7 cs)"

fun strcmp :: "string \<Rightarrow> string \<Rightarrow> int" where
  "strcmp [] [] = 0"
| "strcmp [] (y # ys) = -1"
| "strcmp (x # xs) [] = 1"
| "strcmp (x # xs) (y # ys) =
     (if x = y then strcmp xs ys else if (of_char x :: nat) < of_char y then -1 else 1)"

definition str_compare :: "string option \<Rightarrow> string option \<Rightarrow> int" where
  "str_compare a b =
     (case (a, b) of
        (None, None) \<Rightarrow> 0
      | (None, Some _) \<Rightarrow> -1
      | (Some _, None) \<Rightarrow> 1
      | (Some s1, Some s2) \<Rightarrow>
          (let cmp = strcmp s1 s2 in if cmp = 0 then 0 else if cmp < 0 then -1 else 1))"

definition kefir_hashtree_str_ops :: "string option hashtree_ops" where
  "kefir_hashtree_str_ops = \<lparr>op_hash = str_hash, op_compare = str_compare\<rparr>"

end
