(* ===== verification/Kefir_Hashtable.thy ===== *)
theory Kefir_Hashtable
  imports Kefir_Map Kefir_Hashtree
begin

text \<open>
  The open-addressing table of \<^verbatim>\<open>source/core/hashtable.c\<close> with the probing macros of
  \<^verbatim>\<open>headers/kefir/core/hashtable.h\<close> and the hash mixing of \<^verbatim>\<open>source/core/hash.c\<close>. The code keeps
  two parallel arrays, \<^verbatim>\<open>entry_states\<close> and \<^verbatim>\<open>entries\<close>, and never reads the entry of a slot that is
  not occupied; the model keeps one list of slots, the key and the value being part of the state
  \<open>KEFIR_HASHTABLE_ENTRY_OCCUPIED\<close>. Slot numbers and counters are natural numbers (a table
  that fits into memory has far less than \<open>2 ^ 58\<close> slots, so that no counter wraps); hashes are
  64-bit words, and \<open>wraparound_word\<close> shows that the probe index computed with 64-bit
  wrap-around is the one computed here. The allocator is a function that tells for a number of
  bytes whether a request for them succeeds.
\<close>

section \<open>Hash functions\<close>

unbundle bit_operations_syntax

definition KEFIR_SPLITMIX64_MAGIC1 :: "64 word" where
  "KEFIR_SPLITMIX64_MAGIC1 = 0x9e3779b97f4a7c15"

definition KEFIR_SPLITMIX64_MAGIC2 :: "64 word" where
  "KEFIR_SPLITMIX64_MAGIC2 = 0xbf58476d1ce4e5b9"

definition KEFIR_SPLITMIX64_MAGIC3 :: "64 word" where
  "KEFIR_SPLITMIX64_MAGIC3 = 0x94d049bb133111eb"

definition kefir_splitmix64 :: "64 word \<Rightarrow> 64 word" where
  "kefir_splitmix64 v0 =
     (let v1 = v0 + KEFIR_SPLITMIX64_MAGIC1;
          v2 = (v1 XOR drop_bit 30 v1) * KEFIR_SPLITMIX64_MAGIC2;
          v3 = (v2 XOR drop_bit 27 v2) * KEFIR_SPLITMIX64_MAGIC3
      in v3 XOR drop_bit 31 v3)"

record 'k hashtable_ops =
  tbl_hash :: "'k \<Rightarrow> 64 word"
  tbl_equal :: "'k \<Rightarrow> 'k \<Rightarrow> bool"

definition kefir_hashtable_uint_hash :: "64 word \<Rightarrow> 64 word" where
  "kefir_hashtable_uint_hash key = kefir_splitmix64 key"

definition kefir_hashtable_uint_equal :: "64 word \<Rightarrow> 64 word \<Rightarrow> bool" where
  "kefir_hashtable_uint_equal key1 key2 \<longleftrightarrow> key1 = key2"

text \<open>Strings and the signed \<^verbatim>\<open>char\<close> are those of the tree's string keys.\<close>

definition kefir_hashtable_str_hash :: "string option \<Rightarrow> 64 word" where
  "kefir_hashtable_str_hash s =
     (case s of None \<Rightarrow> 0 | Some cs \<Rightarrow> foldl (\<lambda>hash c. hash * 31 + char_value c) 7 cs)"

definition kefir_hashtable_str_equal :: "string option \<Rightarrow> string option \<Rightarrow> bool" where
  "kefir_hashtable_str_equal s1 s2 =
     (case (s1, s2) of
        (None, None) \<Rightarrow> True
      | (None, Some _) \<Rightarrow> False
      | (Some _, None) \<Rightarrow> False
      | (Some str1, Some str2) \<Rightarrow> strcmp str1 str2 = 0)"

definition kefir_hashtable_uint_ops :: "64 word hashtable_ops" where
  "kefir_hashtable_uint_ops =
     \<lparr>tbl_hash = kefir_hashtable_uint_hash, tbl_equal = kefir_hashtable_uint_equal\<rparr>"

definition kefir_hashtable_str_ops :: "string option hashtable_ops" where
  "kefir_hashtable_str_ops =
     \<lparr>tbl_hash = kefir_hashtable_str_hash, tbl_equal = kefir_hashtable_str_equal\<rparr>"

section \<open>Data\<close>

datatype ('k, 'v) slot =
    KEFIR_HASHTABLE_ENTRY_EMPTY
  | KEFIR_HASHTABLE_ENTRY_OCCUPIED 'k 'v
  | KEFIR_HASHTABLE_ENTRY_DELETED

fun is_occupied :: "('k, 'v) slot \<Rightarrow> bool" where
  "is_occupied (KEFIR_HASHTABLE_ENTRY_OCCUPIED k v) = True"
| "is_occupied _ = False"

record ('k, 'v) hashtable =
  tbl_slots :: "('k, 'v) slot list"
  tbl_capacity :: nat
  tbl_occupied :: nat
  tbl_ops :: "'k hashtable_ops"
  tbl_cleanup :: "('k \<Rightarrow> 'v \<Rightarrow> kefir_result) option"

type_synonym mem = "nat \<Rightarrow> bool"

definition KEFIR_REHASH_OCCUPATION_THRESHOLD_PCT :: nat where
  "KEFIR_REHASH_OCCUPATION_THRESHOLD_PCT = 80"

definition KEFIR_REHASH_COLLISION_THRESHOLD :: nat where
  "KEFIR_REHASH_COLLISION_THRESHOLD = 32"

definition KEFIR_REHASH_TRIM_THRESHOLD_PCT :: nat where
  "KEFIR_REHASH_TRIM_THRESHOLD_PCT = 15"

definition KEFIR_HASHTABLE_CAPACITY_GROW :: "nat \<Rightarrow> nat" where
  "KEFIR_HASHTABLE_CAPACITY_GROW capacity = (if capacity = 0 then 4 else capacity * 2)"

definition KEFIR_HASHTABLE_CAPACITY_TRIM :: "nat \<Rightarrow> nat" where
  "KEFIR_HASHTABLE_CAPACITY_TRIM occupied = max 4 (occupied * 4)"

definition KEFIR_HASHTABLE_WRAPAROUND :: "nat \<Rightarrow> nat \<Rightarrow> nat" where
  "KEFIR_HASHTABLE_WRAPAROUND index capacity = index AND (capacity - 1)"

section \<open>Probing\<close>

text \<open>\<^verbatim>\<open>upper_part\<close> and \<^verbatim>\<open>lower_part\<close> of the macros; the step is made odd.\<close>

definition upper_part :: "64 word \<Rightarrow> nat" where
  "upper_part hash = unat (drop_bit 32 hash)"

definition lower_part :: "64 word \<Rightarrow> nat" where
  "lower_part hash = unat ((hash AND (push_bit 32 1 - 1)) OR 1)"

definition probe_index :: "64 word \<Rightarrow> nat \<Rightarrow> nat \<Rightarrow> nat" where
  "probe_index hash capacity i =
     KEFIR_HASHTABLE_WRAPAROUND
       (KEFIR_HASHTABLE_WRAPAROUND (upper_part hash) capacity + i * lower_part hash) capacity"

text \<open>
  The loop of \<^verbatim>\<open>KEFIR_HASHTABLE_FIND_POSITION_FOR_INSERT\<close> with \<open>n\<close> iterations left, the current
  one being number \<open>i\<close>; \<open>deleted\<close> is the first deleted slot met (\<^const>\<open>None\<close> for \<^verbatim>\<open>~0ull\<close>). It yields
  the position and the number of collisions.
\<close>

primrec find_position_loop :: "'k hashtable_ops \<Rightarrow> ('k, 'v) slot list \<Rightarrow> nat \<Rightarrow> 'k \<Rightarrow>
    nat \<Rightarrow> nat \<Rightarrow> nat option \<Rightarrow> nat \<Rightarrow> (nat \<times> nat) result" where
  "find_position_loop ops slots capacity key 0 i deleted collisions =
     (case deleted of
        Some d \<Rightarrow> Inr (d, collisions)
      | None \<Rightarrow> Inl KEFIR_INTERNAL_ERROR)"
| "find_position_loop ops slots capacity key (Suc n) i deleted collisions =
     (let index = probe_index (tbl_hash ops key) capacity i; collisions = collisions + 1 in
      case slots ! index of
        KEFIR_HASHTABLE_ENTRY_EMPTY \<Rightarrow>
          (case deleted of None \<Rightarrow> Inr (index, collisions) | Some d \<Rightarrow> Inr (d, collisions))
      | KEFIR_HASHTABLE_ENTRY_DELETED \<Rightarrow>
          find_position_loop ops slots capacity key n (i + 1)
            (if deleted = None then Some index else deleted) collisions
      | KEFIR_HASHTABLE_ENTRY_OCCUPIED k v \<Rightarrow>
          (if key = k \<or> tbl_equal ops key k then Inr (index, collisions)
           else find_position_loop ops slots capacity key n (i + 1) deleted collisions))"

definition find_position_for_insert :: "'k hashtable_ops \<Rightarrow> ('k, 'v) slot list \<Rightarrow> nat \<Rightarrow> 'k \<Rightarrow>
    (nat \<times> nat) result" where
  "find_position_for_insert ops slots capacity key =
     (let index = KEFIR_HASHTABLE_WRAPAROUND (upper_part (tbl_hash ops key)) capacity in
      case slots ! index of
        KEFIR_HASHTABLE_ENTRY_EMPTY \<Rightarrow> Inr (index, 0)
      | KEFIR_HASHTABLE_ENTRY_OCCUPIED k v \<Rightarrow>
          (if key = k \<or> tbl_equal ops key k then Inr (index, 0)
           else find_position_loop ops slots capacity key capacity 0 None 0)
      | KEFIR_HASHTABLE_ENTRY_DELETED \<Rightarrow>
          find_position_loop ops slots capacity key capacity 0 None 0)"

text \<open>The search of \<^verbatim>\<open>KEFIR_HASHTABLE_HAS\<close>: the index handed to \<^verbatim>\<open>on_found\<close>.\<close>

primrec has_loop :: "'k hashtable_ops \<Rightarrow> ('k, 'v) slot list \<Rightarrow> nat \<Rightarrow> 'k \<Rightarrow>
    nat \<Rightarrow> nat \<Rightarrow> nat option" where
  "has_loop ops slots capacity key 0 i = None"
| "has_loop ops slots capacity key (Suc n) i =
     (let index = probe_index (tbl_hash ops key) capacity i in
      case slots ! index of
        KEFIR_HASHTABLE_ENTRY_EMPTY \<Rightarrow> None
      | KEFIR_HASHTABLE_ENTRY_OCCUPIED k v \<Rightarrow>
          (if key = k \<or> tbl_equal ops key k then Some index
           else has_loop ops slots capacity key n (i + 1))
      | KEFIR_HASHTABLE_ENTRY_DELETED \<Rightarrow> has_loop ops slots capacity key n (i + 1))"

definition KEFIR_HASHTABLE_HAS :: "('k, 'v) hashtable \<Rightarrow> 'k \<Rightarrow> nat option" where
  "KEFIR_HASHTABLE_HAS t key =
     (if tbl_occupied t > 0
      then has_loop (tbl_ops t) (tbl_slots t) (tbl_capacity t) key (tbl_capacity t) 0
      else None)"

section \<open>Insertion and rehashing\<close>

definition kefir_hashtable_init :: "'k hashtable_ops \<Rightarrow> ('k, 'v) hashtable" where
  "kefir_hashtable_init ops =
     \<lparr>tbl_slots = [], tbl_capacity = 0, tbl_occupied = 0, tbl_ops = ops, tbl_cleanup = None\<rparr>"

definition kefir_hashtable_on_removal :: "('k, 'v) hashtable \<Rightarrow>
    ('k \<Rightarrow> 'v \<Rightarrow> kefir_result) option \<Rightarrow> ('k, 'v) hashtable" where
  "kefir_hashtable_on_removal t callback = t\<lparr>tbl_cleanup := callback\<rparr>"

text \<open>
  \<^verbatim>\<open>insert_entry\<close> with \<^verbatim>\<open>do_rehash\<close> false, on arrays and an occupation counter; this is the form
  in which \<^verbatim>\<open>rehash\<close> and the retry after a rehash call it.
\<close>

definition insert_entry_no_rehash :: "'k hashtable_ops \<Rightarrow> nat \<Rightarrow> 'k \<Rightarrow> 'v \<Rightarrow>
    ('k, 'v) slot list \<times> nat \<Rightarrow> (('k, 'v) slot list \<times> nat) result" where
  "insert_entry_no_rehash ops capacity key value = (\<lambda>(slots, occupied).
     bindE (find_position_for_insert ops slots capacity key) (\<lambda>(index, _).
       if is_occupied (slots ! index) then Inl KEFIR_ALREADY_EXISTS
       else Inr (slots[index := KEFIR_HASHTABLE_ENTRY_OCCUPIED key value], occupied + 1)))"

primrec rehash_loop :: "'k hashtable_ops \<Rightarrow> nat \<Rightarrow> ('k, 'v) slot list \<Rightarrow>
    ('k, 'v) slot list \<times> nat \<Rightarrow> (('k, 'v) slot list \<times> nat) result" where
  "rehash_loop ops new_capacity [] acc = Inr acc"
| "rehash_loop ops new_capacity (s # slots) acc =
     (case s of
        KEFIR_HASHTABLE_ENTRY_OCCUPIED k v \<Rightarrow>
          bindE (insert_entry_no_rehash ops new_capacity k v acc)
            (\<lambda>acc'. rehash_loop ops new_capacity slots acc')
      | _ \<Rightarrow> rehash_loop ops new_capacity slots acc)"

definition rehash :: "mem \<Rightarrow> ('k, 'v) hashtable \<Rightarrow> nat \<Rightarrow> ('k, 'v) hashtable result" where
  "rehash mem t new_capacity =
     bindE (requireE (mem (1 * new_capacity)) KEFIR_MEMALLOC_FAILURE) (\<lambda>_.
     bindE (requireE (mem (16 * new_capacity)) KEFIR_MEMALLOC_FAILURE) (\<lambda>_.
     bindE (rehash_loop (tbl_ops t) new_capacity (tbl_slots t)
              (replicate new_capacity KEFIR_HASHTABLE_ENTRY_EMPTY, 0))
       (\<lambda>(new_slots, new_occupied).
          Inr (t\<lparr>tbl_slots := new_slots, tbl_capacity := new_capacity,
                 tbl_occupied := new_occupied\<rparr>))))"

text \<open>The same call on the arrays of the table itself.\<close>

definition place_entry :: "('k, 'v) hashtable \<Rightarrow> 'k \<Rightarrow> 'v \<Rightarrow> kefir_result \<times> ('k, 'v) hashtable" where
  "place_entry t key value =
     (case insert_entry_no_rehash (tbl_ops t) (tbl_capacity t) key value (tbl_slots t, tbl_occupied t) of
        Inl e \<Rightarrow> (e, t)
      | Inr (slots, occupied) \<Rightarrow> (KEFIR_OK, t\<lparr>tbl_slots := slots, tbl_occupied := occupied\<rparr>))"

definition insert_entry :: "mem \<Rightarrow> ('k, 'v) hashtable \<Rightarrow> 'k \<Rightarrow> 'v \<Rightarrow> bool \<Rightarrow>
    kefir_result \<times> ('k, 'v) hashtable" where
  "insert_entry mem t key value do_rehash =
     (case find_position_for_insert (tbl_ops t) (tbl_slots t) (tbl_capacity t) key of
        Inl e \<Rightarrow> (e, t)
      | Inr (index, found_collisions) \<Rightarrow>
          if do_rehash \<and> \<not> is_occupied (tbl_slots t ! index)
             \<and> found_collisions \<ge> KEFIR_REHASH_COLLISION_THRESHOLD
          then (case rehash mem t (KEFIR_HASHTABLE_CAPACITY_GROW (tbl_capacity t)) of
                  Inl e \<Rightarrow> (e, t)
                | Inr t' \<Rightarrow> place_entry t' key value)
          else place_entry t key value)"

definition kefir_hashtable_insert :: "mem \<Rightarrow> ('k, 'v) hashtable \<Rightarrow> 'k \<Rightarrow> 'v \<Rightarrow>
    kefir_result \<times> ('k, 'v) hashtable" where
  "kefir_hashtable_insert mem t key value =
     (if tbl_capacity t = 0 \<or>
         tbl_occupied t \<ge> KEFIR_REHASH_OCCUPATION_THRESHOLD_PCT * tbl_capacity t div 100
      then (case rehash mem t (KEFIR_HASHTABLE_CAPACITY_GROW (tbl_capacity t)) of
              Inl e \<Rightarrow> (e, t)
            | Inr t' \<Rightarrow> insert_entry mem t' key value False)
      else insert_entry mem t key value True)"

section \<open>Deletion, clearing and resizing\<close>

definition kefir_hashtable_delete :: "('k, 'v) hashtable \<Rightarrow> 'k \<Rightarrow>
    kefir_result \<times> ('k, 'v) hashtable" where
  "kefir_hashtable_delete t key =
     (case KEFIR_HASHTABLE_HAS t key of
        None \<Rightarrow> (KEFIR_NOT_FOUND, t)
      | Some index \<Rightarrow>
          (let res = (case (tbl_cleanup t, tbl_slots t ! index) of
                        (Some callback, KEFIR_HASHTABLE_ENTRY_OCCUPIED k v) \<Rightarrow> callback k v
                      | _ \<Rightarrow> KEFIR_OK) in
           if res \<noteq> KEFIR_OK then (res, t)
           else (KEFIR_OK,
                 t\<lparr>tbl_slots := (tbl_slots t)[index := KEFIR_HASHTABLE_ENTRY_DELETED],
                   tbl_occupied := tbl_occupied t - 1\<rparr>)))"

text \<open>
  The callback loop of \<^verbatim>\<open>kefir_hashtable_clear\<close> empties the slots one after the other and stops at
  the first failing callback; it yields the entries it reported.
\<close>

fun clear_loop :: "('k \<Rightarrow> 'v \<Rightarrow> kefir_result) \<Rightarrow> ('k, 'v) slot list \<Rightarrow>
    kefir_result \<times> ('k \<times> 'v) list \<times> ('k, 'v) slot list" where
  "clear_loop callback [] = (KEFIR_OK, [], [])"
| "clear_loop callback (KEFIR_HASHTABLE_ENTRY_OCCUPIED k v # slots) =
     (if callback k v \<noteq> KEFIR_OK
      then (callback k v, [(k, v)], KEFIR_HASHTABLE_ENTRY_OCCUPIED k v # slots)
      else (case clear_loop callback slots of
              (res, log, slots') \<Rightarrow> (res, (k, v) # log, KEFIR_HASHTABLE_ENTRY_EMPTY # slots')))"
| "clear_loop callback (s # slots) =
     (case clear_loop callback slots of
        (res, log, slots') \<Rightarrow> (res, log, KEFIR_HASHTABLE_ENTRY_EMPTY # slots'))"

definition kefir_hashtable_clear :: "('k, 'v) hashtable \<Rightarrow>
    kefir_result \<times> ('k \<times> 'v) list \<times> ('k, 'v) hashtable" where
  "kefir_hashtable_clear t =
     (case tbl_cleanup t of
        Some callback \<Rightarrow>
          (case clear_loop callback (tbl_slots t) of
             (res, log, slots) \<Rightarrow>
               (res, log, if res = KEFIR_OK then t\<lparr>tbl_slots := slots, tbl_occupied := 0\<rparr>
                          else t\<lparr>tbl_slots := slots\<rparr>))
      | None \<Rightarrow>
          (KEFIR_OK, [], t\<lparr>tbl_slots := replicate (tbl_capacity t) KEFIR_HASHTABLE_ENTRY_EMPTY,
                           tbl_occupied := 0\<rparr>))"

text \<open>\<^verbatim>\<open>kefir_hashtable_free\<close> reports the entries in slot order; the table is gone afterwards.\<close>

fun free_loop :: "('k \<Rightarrow> 'v \<Rightarrow> kefir_result) \<Rightarrow> ('k, 'v) slot list \<Rightarrow>
    kefir_result \<times> ('k \<times> 'v) list" where
  "free_loop callback [] = (KEFIR_OK, [])"
| "free_loop callback (KEFIR_HASHTABLE_ENTRY_OCCUPIED k v # slots) =
     (if callback k v \<noteq> KEFIR_OK then (callback k v, [(k, v)])
      else (case free_loop callback slots of (res, log) \<Rightarrow> (res, (k, v) # log)))"
| "free_loop callback (s # slots) = free_loop callback slots"

definition kefir_hashtable_free :: "('k, 'v) hashtable \<Rightarrow> kefir_result \<times> ('k \<times> 'v) list" where
  "kefir_hashtable_free t =
     (case tbl_cleanup t of
        Some callback \<Rightarrow> free_loop callback (tbl_slots t)
      | None \<Rightarrow> (KEFIR_OK, []))"

definition next_power_of_2 :: "64 word \<Rightarrow> 64 word" where
  "next_power_of_2 x =
     (if x = 0 then 1
      else (let x = x OR drop_bit 1 x;
                x = x OR drop_bit 2 x;
                x = x OR drop_bit 4 x;
                x = x OR drop_bit 8 x;
                x = x OR drop_bit 16 x;
                x = x OR drop_bit 32 x
            in x + 1))"

definition kefir_hashtable_trim :: "mem \<Rightarrow> ('k, 'v) hashtable \<Rightarrow>
    kefir_result \<times> ('k, 'v) hashtable" where
  "kefir_hashtable_trim mem t =
     (if tbl_capacity t * KEFIR_REHASH_TRIM_THRESHOLD_PCT div 100 > tbl_occupied t
      then (let trimmed_capacity =
                  unat (next_power_of_2 (of_nat (KEFIR_HASHTABLE_CAPACITY_TRIM (tbl_occupied t)))) in
            if trimmed_capacity < tbl_capacity t
            then (case rehash mem t trimmed_capacity of Inl e \<Rightarrow> (e, t) | Inr t' \<Rightarrow> (KEFIR_OK, t'))
            else (KEFIR_OK, t))
      else (KEFIR_OK, t))"

definition kefir_hashtable_ensure :: "mem \<Rightarrow> ('k, 'v) hashtable \<Rightarrow> 64 word \<Rightarrow>
    kefir_result \<times> ('k, 'v) hashtable" where
  "kefir_hashtable_ensure mem t capacity =
     (let capacity' = unat (next_power_of_2 capacity) in
      if tbl_capacity t < capacity'
      then (case rehash mem t capacity' of Inl e \<Rightarrow> (e, t) | Inr t' \<Rightarrow> (KEFIR_OK, t'))
      else (KEFIR_OK, t))"

section \<open>Lookup and iteration\<close>

text \<open>A pointer to a value is the number of the slot that holds it.\<close>

definition kefir_hashtable_at_mut :: "('k, 'v) hashtable \<Rightarrow> 'k \<Rightarrow> nat result" where
  "kefir_hashtable_at_mut t key =
     (case KEFIR_HASHTABLE_HAS t key of None \<Rightarrow> Inl KEFIR_NOT_FOUND | Some index \<Rightarrow> Inr index)"

definition slot_entry :: "('k, 'v) slot \<Rightarrow> ('k \<times> 'v) result" where
  "slot_entry s =
     (case s of KEFIR_HASHTABLE_ENTRY_OCCUPIED k v \<Rightarrow> Inr (k, v) | _ \<Rightarrow> Inl KEFIR_NOT_FOUND)"

definition kefir_hashtable_at2 :: "('k, 'v) hashtable \<Rightarrow> 'k \<Rightarrow> ('k \<times> 'v) result" where
  "kefir_hashtable_at2 t key =
     (case KEFIR_HASHTABLE_HAS t key of
        None \<Rightarrow> Inl KEFIR_NOT_FOUND
      | Some index \<Rightarrow> slot_entry (tbl_slots t ! index))"

definition kefir_hashtable_at :: "('k, 'v) hashtable \<Rightarrow> 'k \<Rightarrow> 'v result" where
  "kefir_hashtable_at t key =
     (case KEFIR_HASHTABLE_HAS t key of
        None \<Rightarrow> Inl KEFIR_NOT_FOUND
      | Some index \<Rightarrow> bindE (slot_entry (tbl_slots t ! index)) (\<lambda>(k, v). Inr v))"

definition kefir_hashtable_has :: "('k, 'v) hashtable \<Rightarrow> 'k \<Rightarrow> bool" where
  "kefir_hashtable_has t key \<longleftrightarrow> KEFIR_HASHTABLE_HAS t key \<noteq> None"

text \<open>The scan for the next occupied slot that both iterator operations share, \<open>n\<close> slots being left.\<close>

primrec iter_scan :: "('k, 'v) slot list \<Rightarrow> nat \<Rightarrow> nat \<Rightarrow> (nat \<times> 'k \<times> 'v) option" where
  "iter_scan slots 0 index = None"
| "iter_scan slots (Suc n) index =
     (case slots ! index of
        KEFIR_HASHTABLE_ENTRY_OCCUPIED k v \<Rightarrow> Some (index, k, v)
      | _ \<Rightarrow> iter_scan slots n (index + 1))"

definition kefir_hashtable_iter :: "('k, 'v) hashtable \<Rightarrow> (nat \<times> 'k \<times> 'v) result" where
  "kefir_hashtable_iter t =
     (case iter_scan (tbl_slots t) (tbl_capacity t) 0 of
        None \<Rightarrow> Inl KEFIR_ITERATOR_END
      | Some r \<Rightarrow> Inr r)"

definition kefir_hashtable_next :: "('k, 'v) hashtable \<Rightarrow> nat \<Rightarrow> (nat \<times> 'k \<times> 'v) result" where
  "kefir_hashtable_next t index =
     (case iter_scan (tbl_slots t) (tbl_capacity t - (index + 1)) (index + 1) of
        None \<Rightarrow> Inl KEFIR_ITERATOR_END
      | Some r \<Rightarrow> Inr r)"

end
