(* ===== verification/Kefir_Hashtree_Correct.thy ===== *)
theory Kefir_Hashtree_Correct
  imports Kefir_Hashtree "HOL-Library.Multiset"
begin

text \<open>
  Correctness of the balanced tree: the balance invariant and its logarithmic height bound, the
  refinement of finite maps by insertion, deletion and lookup, and the iterator.
\<close>

section \<open>Abstraction and invariants\<close>

fun entries :: "('k, 'v) hashtree_node \<Rightarrow> ('k \<times> 'v) list" where
  "entries HNil = []"
| "entries (HNode l h k v ht r) = entries l @ (k, v) # entries r"

text \<open>Heights are exact and the two subtrees of every node differ in height by at most one.\<close>

fun avl :: "('k, 'v) hashtree_node \<Rightarrow> bool" where
  "avl HNil \<longleftrightarrow> True"
| "avl (HNode l h k v ht r) \<longleftrightarrow> avl l \<and> avl r \<and> ht = max (NODE_HEIGHT l) (NODE_HEIGHT r)
     \<and> NODE_HEIGHT l \<le> NODE_HEIGHT r + 1 \<and> NODE_HEIGHT r \<le> NODE_HEIGHT l + 1"

fun hashes_ok :: "'k hashtree_ops \<Rightarrow> ('k, 'v) hashtree_node \<Rightarrow> bool" where
  "hashes_ok ops HNil \<longleftrightarrow> True"
| "hashes_ok ops (HNode l h k v ht r) \<longleftrightarrow> hashes_ok ops l \<and> h = op_hash ops k \<and> hashes_ok ops r"

definition key_lt :: "'k hashtree_ops \<Rightarrow> 'k \<Rightarrow> 'k \<Rightarrow> bool" where
  "key_lt ops a b \<longleftrightarrow> key_below ops (op_hash ops a) a (op_hash ops b) b"

definition keys_sorted :: "'k hashtree_ops \<Rightarrow> ('k \<times> 'v) list \<Rightarrow> bool" where
  "keys_sorted ops xs \<longleftrightarrow> sorted_wrt (key_lt ops) (map fst xs)"

definition tree_inv :: "'k hashtree_ops \<Rightarrow> ('k, 'v) hashtree_node \<Rightarrow> bool" where
  "tree_inv ops t \<longleftrightarrow> avl t \<and> hashes_ok ops t \<and> keys_sorted ops (entries t)"

definition hashtree_inv :: "('k, 'v) hashtree \<Rightarrow> bool" where
  "hashtree_inv t \<longleftrightarrow> tree_inv (tree_ops t) (tree_root t)"

definition hashtree_abs :: "('k, 'v) hashtree \<Rightarrow> 'k \<Rightarrow> 'v option" where
  "hashtree_abs t = map_of (entries (tree_root t))"

text \<open>The trees of a client: fixed key operations and a removal callback that succeeds, if any.\<close>

definition hashtree_ok :: "'k hashtree_ops \<Rightarrow> ('k, 'v) hashtree \<Rightarrow> bool" where
  "hashtree_ok ops t \<longleftrightarrow> tree_ops t = ops \<and> hashtree_inv t \<and>
     (\<forall>cb. tree_node_remove t = Some cb \<longrightarrow> (\<forall>k v. cb k v = KEFIR_OK))"

text \<open>The value behind a lookup, \<^verbatim>\<open>node->value\<close> after a successful \<^verbatim>\<open>kefir_hashtree_at\<close>.\<close>

definition hashtree_value_at :: "('k, 'v) hashtree \<Rightarrow> 'k \<Rightarrow> 'v result" where
  "hashtree_value_at t k = bindE (kefir_hashtree_at t k) (\<lambda>(p, n). Inr (node_value n))"

section \<open>Rebalancing keeps the entries\<close>

lemma entries_update_height [simp]: "entries (NODE_UPDATE_HEIGHT t) = entries t"
  by (cases t) auto

lemma entries_right_rotate [simp]: "entries (right_rotate t) = entries t"
  by (cases t rule: right_rotate.cases) auto

lemma entries_left_rotate [simp]: "entries (left_rotate t) = entries t"
  by (cases t rule: left_rotate.cases) auto

lemma entries_balance_node [simp]: "entries (balance_node t) = entries t"
  by (cases t) auto

lemma hashes_ok_update_height [simp]: "hashes_ok ops (NODE_UPDATE_HEIGHT t) = hashes_ok ops t"
  by (cases t) auto

lemma hashes_ok_right_rotate [simp]: "hashes_ok ops (right_rotate t) = hashes_ok ops t"
  by (cases t rule: right_rotate.cases) auto

lemma hashes_ok_left_rotate [simp]: "hashes_ok ops (left_rotate t) = hashes_ok ops t"
  by (cases t rule: left_rotate.cases) auto

lemma hashes_ok_balance_node [simp]: "hashes_ok ops (balance_node t) = hashes_ok ops t"
  by (cases t) auto

section \<open>Rebalancing restores the balance\<close>

lemma NODE_HEIGHT_pos: "0 < NODE_HEIGHT t \<longleftrightarrow> t \<noteq> HNil"
  by (cases t) auto

lemma NODE_HEIGHT_0 [simp]: "NODE_HEIGHT t = 0 \<longleftrightarrow> t = HNil"
  by (cases t) auto

lemma avl_balance_left:
  assumes "avl l" "avl r" "NODE_HEIGHT l = NODE_HEIGHT r + 2"
  shows "avl (balance_node (HNode l h k v ht r)) \<and>
    NODE_HEIGHT (balance_node (HNode l h k v ht r)) \<in> {NODE_HEIGHT l, NODE_HEIGHT l + 1}"
proof (cases l)
  case HNil
  with assms show ?thesis by simp
next
  case l: (HNode a h1 k1 v1 ht1 b)
  show ?thesis
  proof (cases b)
    case HNil
    with assms l show ?thesis by (auto simp: NODE_EVAL_HEIGHT_def max_def split: if_splits)
  next
    case (HNode b1 h2 k2 v2 ht2 b2)
    with assms l show ?thesis by (auto simp: NODE_EVAL_HEIGHT_def max_def split: if_splits)
  qed
qed

lemma avl_balance_right:
  assumes "avl l" "avl r" "NODE_HEIGHT r = NODE_HEIGHT l + 2"
  shows "avl (balance_node (HNode l h k v ht r)) \<and>
    NODE_HEIGHT (balance_node (HNode l h k v ht r)) \<in> {NODE_HEIGHT r, NODE_HEIGHT r + 1}"
proof (cases r)
  case HNil
  with assms show ?thesis by simp
next
  case r: (HNode b h1 k1 v1 ht1 c)
  show ?thesis
  proof (cases b)
    case HNil
    with assms r show ?thesis by (auto simp: NODE_EVAL_HEIGHT_def max_def split: if_splits)
  next
    case (HNode b1 h2 k2 v2 ht2 b2)
    with assms r show ?thesis by (auto simp: NODE_EVAL_HEIGHT_def max_def split: if_splits)
  qed
qed

lemma avl_balance_even:
  assumes "avl l" "avl r" "NODE_HEIGHT l \<le> NODE_HEIGHT r + 1" "NODE_HEIGHT r \<le> NODE_HEIGHT l + 1"
  shows "avl (balance_node (HNode l h k v ht r)) \<and>
    NODE_HEIGHT (balance_node (HNode l h k v ht r)) = max (NODE_HEIGHT l) (NODE_HEIGHT r) + 1"
  using assms by (auto simp: NODE_EVAL_HEIGHT_def)

text \<open>
  A node whose subtrees are balanced and differ by at most two is balanced afterwards; its height
  is that of a node over the same subtrees, or one less when a rotation took place.
\<close>

lemma avl_balance_node:
  assumes "avl l" "avl r" "NODE_HEIGHT l \<le> NODE_HEIGHT r + 2" "NODE_HEIGHT r \<le> NODE_HEIGHT l + 2"
  defines "m \<equiv> max (NODE_HEIGHT l) (NODE_HEIGHT r)"
  shows "avl (balance_node (HNode l h k v ht r))"
    and "NODE_HEIGHT (balance_node (HNode l h k v ht r)) \<le> m + 1"
    and "m \<le> NODE_HEIGHT (balance_node (HNode l h k v ht r))"
    and "NODE_HEIGHT l \<le> NODE_HEIGHT r + 1 \<Longrightarrow> NODE_HEIGHT r \<le> NODE_HEIGHT l + 1 \<Longrightarrow>
           NODE_HEIGHT (balance_node (HNode l h k v ht r)) = m + 1"
proof -
  consider "NODE_HEIGHT l = NODE_HEIGHT r + 2" | "NODE_HEIGHT r = NODE_HEIGHT l + 2"
    | "NODE_HEIGHT l \<le> NODE_HEIGHT r + 1" "NODE_HEIGHT r \<le> NODE_HEIGHT l + 1"
    using assms(3,4) by linarith
  then have "avl (balance_node (HNode l h k v ht r)) \<and>
      NODE_HEIGHT (balance_node (HNode l h k v ht r)) \<le> m + 1 \<and>
      m \<le> NODE_HEIGHT (balance_node (HNode l h k v ht r)) \<and>
      (NODE_HEIGHT l \<le> NODE_HEIGHT r + 1 \<longrightarrow> NODE_HEIGHT r \<le> NODE_HEIGHT l + 1 \<longrightarrow>
         NODE_HEIGHT (balance_node (HNode l h k v ht r)) = m + 1)"
  proof cases
    case 1
    with avl_balance_left [OF assms(1,2) 1, of h k v ht] show ?thesis unfolding m_def by auto
  next
    case 2
    with avl_balance_right [OF assms(1,2) 2, of h k v ht] show ?thesis unfolding m_def by auto
  next
    case 3
    with avl_balance_even [OF assms(1,2) 3, of h k v ht] show ?thesis unfolding m_def by auto
  qed
  then show "avl (balance_node (HNode l h k v ht r))"
    "NODE_HEIGHT (balance_node (HNode l h k v ht r)) \<le> m + 1"
    "m \<le> NODE_HEIGHT (balance_node (HNode l h k v ht r))"
    "NODE_HEIGHT l \<le> NODE_HEIGHT r + 1 \<Longrightarrow> NODE_HEIGHT r \<le> NODE_HEIGHT l + 1 \<Longrightarrow>
       NODE_HEIGHT (balance_node (HNode l h k v ht r)) = m + 1"
    by auto
qed

declare balance_node.simps(2) [simp del]

text \<open>Replacing one subtree by a balanced one whose height differs by at most one.\<close>

lemma avl_balance_left_child:
  fixes h :: "64 word" and k :: 'k and v :: 'v and ht :: nat
  assumes "avl (HNode l h0 k0 v0 ht0 r)" "avl l'"
    and "NODE_HEIGHT l' \<le> NODE_HEIGHT l + 1" "NODE_HEIGHT l \<le> NODE_HEIGHT l' + 1"
  defines "n \<equiv> max (NODE_HEIGHT l) (NODE_HEIGHT r) + 1"
    and "t' \<equiv> balance_node (HNode l' h k v ht r)"
  shows "avl t'" "NODE_HEIGHT l \<le> NODE_HEIGHT l' \<Longrightarrow> n \<le> NODE_HEIGHT t' \<and> NODE_HEIGHT t' \<le> n + 1"
    "NODE_HEIGHT l' \<le> NODE_HEIGHT l \<Longrightarrow> NODE_HEIGHT t' \<le> n \<and> n \<le> NODE_HEIGHT t' + 1"
proof -
  have "NODE_HEIGHT l' \<le> NODE_HEIGHT r + 2" "NODE_HEIGHT r \<le> NODE_HEIGHT l' + 2" "avl r"
    using assms(1,3,4) by auto
  note bal = avl_balance_node [OF assms(2) this(3,1,2), of h k v ht, folded t'_def]
  show "avl t'" by (rule bal)
  show "NODE_HEIGHT l \<le> NODE_HEIGHT l' \<Longrightarrow> n \<le> NODE_HEIGHT t' \<and> NODE_HEIGHT t' \<le> n + 1"
    using bal(2,3) bal(4) assms(1,3) unfolding n_def
    by (cases "NODE_HEIGHT l' \<le> NODE_HEIGHT r + 1") auto
  show "NODE_HEIGHT l' \<le> NODE_HEIGHT l \<Longrightarrow> NODE_HEIGHT t' \<le> n \<and> n \<le> NODE_HEIGHT t' + 1"
    using bal(2,3) bal(4) assms(1,4) unfolding n_def
    by (cases "NODE_HEIGHT r \<le> NODE_HEIGHT l' + 1") auto
qed

lemma avl_balance_right_child:
  fixes h :: "64 word" and k :: 'k and v :: 'v and ht :: nat
  assumes "avl (HNode l h0 k0 v0 ht0 r)" "avl r'"
    and "NODE_HEIGHT r' \<le> NODE_HEIGHT r + 1" "NODE_HEIGHT r \<le> NODE_HEIGHT r' + 1"
  defines "n \<equiv> max (NODE_HEIGHT l) (NODE_HEIGHT r) + 1"
    and "t' \<equiv> balance_node (HNode l h k v ht r')"
  shows "avl t'" "NODE_HEIGHT r \<le> NODE_HEIGHT r' \<Longrightarrow> n \<le> NODE_HEIGHT t' \<and> NODE_HEIGHT t' \<le> n + 1"
    "NODE_HEIGHT r' \<le> NODE_HEIGHT r \<Longrightarrow> NODE_HEIGHT t' \<le> n \<and> n \<le> NODE_HEIGHT t' + 1"
proof -
  have "NODE_HEIGHT l \<le> NODE_HEIGHT r' + 2" "NODE_HEIGHT r' \<le> NODE_HEIGHT l + 2" "avl l"
    using assms(1,3,4) by auto
  note bal = avl_balance_node [OF this(3) assms(2) this(1,2), of h k v ht, folded t'_def]
  show "avl t'" by (rule bal)
  show "NODE_HEIGHT r \<le> NODE_HEIGHT r' \<Longrightarrow> n \<le> NODE_HEIGHT t' \<and> NODE_HEIGHT t' \<le> n + 1"
    using bal(2,3) bal(4) assms(1,3) unfolding n_def
    by (cases "NODE_HEIGHT r' \<le> NODE_HEIGHT l + 1") auto
  show "NODE_HEIGHT r' \<le> NODE_HEIGHT r \<Longrightarrow> NODE_HEIGHT t' \<le> n \<and> n \<le> NODE_HEIGHT t' + 1"
    using bal(2,3) bal(4) assms(1,4) unfolding n_def
    by (cases "NODE_HEIGHT l \<le> NODE_HEIGHT r' + 1") auto
qed

lemma avl_node_insert:
  "node_insert ops alloc h k v rep t = Inr (t', old) \<Longrightarrow> avl t \<Longrightarrow>
     avl t' \<and> NODE_HEIGHT t \<le> NODE_HEIGHT t' \<and> NODE_HEIGHT t' \<le> NODE_HEIGHT t + 1"
proof (induction t arbitrary: t' old)
  case HNil
  then show ?case by (auto simp: node_alloc_def split: if_splits)
next
  case (HNode l h' k' v' ht r)
  consider (below) "key_below ops h k h' k'" | (above) "\<not> key_below ops h k h' k'" "key_above ops h k h' k'"
    | (equal) "\<not> key_below ops h k h' k'" "\<not> key_above ops h k h' k'" by blast
  then show ?case
  proof cases
    case below
    then obtain l' where l': "node_insert ops alloc h k v rep l = Inr (l', old)"
      and t': "t' = balance_node (HNode l' h' k' v' ht r)"
      using HNode.prems by (auto simp: bindE_iffs)
    then have "avl l'" "NODE_HEIGHT l \<le> NODE_HEIGHT l'" "NODE_HEIGHT l' \<le> NODE_HEIGHT l + 1"
      using HNode.IH(1) [OF l'] HNode.prems by auto
    with avl_balance_left_child [OF HNode.prems(2), of l' h' k' v' ht] HNode.prems(2)
    show ?thesis unfolding t' by auto
  next
    case above
    then obtain r' where r': "node_insert ops alloc h k v rep r = Inr (r', old)"
      and t': "t' = balance_node (HNode l h' k' v' ht r')"
      using HNode.prems by (auto simp: bindE_iffs)
    then have "avl r'" "NODE_HEIGHT r \<le> NODE_HEIGHT r'" "NODE_HEIGHT r' \<le> NODE_HEIGHT r + 1"
      using HNode.IH(2) [OF r'] HNode.prems by auto
    with avl_balance_right_child [OF HNode.prems(2), of r' h' k' v' ht] HNode.prems(2)
    show ?thesis unfolding t' by auto
  next
    case equal
    with HNode.prems show ?thesis by (auto split: if_splits)
  qed
qed

section \<open>Parent chains\<close>

text \<open>The entries to the left and to the right of a position, and what a chain expects there.\<close>

fun before :: "('k, 'v) parents \<Rightarrow> ('k \<times> 'v) list" where
  "before [] = []"
| "before (AtLeft h k v ht r # p) = before p"
| "before (AtRight l h k v ht # p) = before p @ entries l @ [(k, v)]"

fun after :: "('k, 'v) parents \<Rightarrow> ('k \<times> 'v) list" where
  "after [] = []"
| "after (AtLeft h k v ht r # p) = (k, v) # entries r @ after p"
| "after (AtRight l h k v ht # p) = after p"

fun parents_hashes_ok :: "'k hashtree_ops \<Rightarrow> ('k, 'v) parents \<Rightarrow> bool" where
  "parents_hashes_ok ops [] \<longleftrightarrow> True"
| "parents_hashes_ok ops (AtLeft h k v ht r # p) \<longleftrightarrow>
     h = op_hash ops k \<and> hashes_ok ops r \<and> parents_hashes_ok ops p"
| "parents_hashes_ok ops (AtRight l h k v ht # p) \<longleftrightarrow>
     h = op_hash ops k \<and> hashes_ok ops l \<and> parents_hashes_ok ops p"

text \<open>The chain is balanced around a subtree of height \<open>n\<close>.\<close>

fun parents_avl :: "('k, 'v) parents \<Rightarrow> nat \<Rightarrow> bool" where
  "parents_avl [] n \<longleftrightarrow> True"
| "parents_avl (AtLeft h k v ht r # p) n \<longleftrightarrow> avl r \<and> n \<le> NODE_HEIGHT r + 1 \<and> NODE_HEIGHT r \<le> n + 1
     \<and> parents_avl p (max n (NODE_HEIGHT r) + 1)"
| "parents_avl (AtRight l h k v ht # p) n \<longleftrightarrow> avl l \<and> n \<le> NODE_HEIGHT l + 1 \<and> NODE_HEIGHT l \<le> n + 1
     \<and> parents_avl p (max (NODE_HEIGHT l) n + 1)"

lemma entries_rebalance_parents [simp]:
  "entries (rebalance_parents p t) = before p @ entries t @ after p"
proof (induction p arbitrary: t)
  case (Cons c p)
  then show ?case by (cases c) auto
qed simp

lemma hashes_ok_rebalance_parents [simp]:
  "hashes_ok ops (rebalance_parents p t) \<longleftrightarrow> parents_hashes_ok ops p \<and> hashes_ok ops t"
proof (induction p arbitrary: t)
  case (Cons c p)
  then show ?case by (cases c) auto
qed simp

text \<open>After a removal below, the rebalancing loop leaves a balanced tree behind.\<close>

lemma avl_rebalance_parents:
  "parents_avl p n \<Longrightarrow> avl t \<Longrightarrow> NODE_HEIGHT t \<le> n \<Longrightarrow> n \<le> NODE_HEIGHT t + 1 \<Longrightarrow>
     avl (rebalance_parents p t)"
proof (induction p arbitrary: n t)
  case (Cons c p)
  show ?case
  proof (cases c)
    case (AtLeft h k v ht r)
    have "avl (balance_node (HNode t h k v ht r))"
      "NODE_HEIGHT (balance_node (HNode t h k v ht r)) \<le> max n (NODE_HEIGHT r) + 1"
      "max n (NODE_HEIGHT r) + 1 \<le> NODE_HEIGHT (balance_node (HNode t h k v ht r)) + 1"
      using avl_balance_node [of t r h k v ht] Cons.prems AtLeft
      by (auto simp: max_def split: if_splits)
    with Cons AtLeft show ?thesis by auto
  next
    case (AtRight l h k v ht)
    have "avl (balance_node (HNode l h k v ht t))"
      "NODE_HEIGHT (balance_node (HNode l h k v ht t)) \<le> max (NODE_HEIGHT l) n + 1"
      "max (NODE_HEIGHT l) n + 1 \<le> NODE_HEIGHT (balance_node (HNode l h k v ht t)) + 1"
      using avl_balance_node [of l t h k v ht] Cons.prems AtRight
      by (auto simp: max_def split: if_splits)
    with Cons AtRight show ?thesis by auto
  qed
qed simp

text \<open>What a search keeps of the chain it descends through.\<close>

definition chain_ok :: "'k hashtree_ops \<Rightarrow> ('k, 'v) parents \<Rightarrow> ('k, 'v) hashtree_node \<Rightarrow> bool" where
  "chain_ok ops p t \<longleftrightarrow> parents_avl p (NODE_HEIGHT t) \<and> avl t \<and> parents_hashes_ok ops p \<and> hashes_ok ops t"

lemma chain_ok_Nil [simp]: "chain_ok ops [] t \<longleftrightarrow> avl t \<and> hashes_ok ops t"
  by (auto simp: chain_ok_def)

lemma chain_ok_AtLeft:
  "chain_ok ops p (HNode l h k v ht r) \<Longrightarrow> chain_ok ops (AtLeft h k v ht r # p) l"
  by (auto simp: chain_ok_def)

lemma chain_ok_AtRight:
  "chain_ok ops p (HNode l h k v ht r) \<Longrightarrow> chain_ok ops (AtRight l h k v ht # p) r"
  by (auto simp: chain_ok_def max.commute)

lemmas chain_ok_intros = chain_ok_AtLeft chain_ok_AtRight

text \<open>Appending chains, for the surgery inside the right subtree.\<close>

lemma before_append [simp]: "before (q @ p) = before p @ before q"
proof (induction q)
  case (Cons c q)
  then show ?case by (cases c) auto
qed simp

lemma after_append [simp]: "after (q @ p) = after q @ after p"
proof (induction q)
  case (Cons c q)
  then show ?case by (cases c) auto
qed simp

lemma parents_hashes_ok_append [simp]:
  "parents_hashes_ok ops (q @ p) \<longleftrightarrow> parents_hashes_ok ops q \<and> parents_hashes_ok ops p"
proof (induction q)
  case (Cons c q)
  then show ?case by (cases c) auto
qed simp

lemma node_minimum_chain:
  "node_minimum p t = (q, n) \<Longrightarrow> t \<noteq> HNil \<Longrightarrow> chain_ok ops p t \<Longrightarrow>
     \<exists>h k v ht r c. n = HNode HNil h k v ht r \<and> q = c @ p \<and> before c = [] \<and>
       before p @ (k, v) # entries r @ after q = before p @ entries t @ after p \<and> chain_ok ops q n"
proof (induction p t arbitrary: q n rule: node_minimum.induct)
  case (2 p l h k v ht r)
  show ?case
  proof (cases "l = HNil")
    case True
    with 2 show ?thesis by auto
  next
    case False
    with 2(1) [OF False, of q n] 2(2,4) chain_ok_AtLeft [OF 2(4)] show ?thesis by fastforce
  qed
qed simp

lemma node_minimum_shift:
  "node_minimum p t = (fst (node_minimum [] t) @ p, snd (node_minimum [] t))"
proof (induction t arbitrary: p)
  case (HNode l h k v ht r)
  show ?case
    using HNode(1) [of "AtLeft h k v ht r # p"] HNode(1) [of "[AtLeft h k v ht r]"] by auto
qed simp

lemma parents_avl_relabel:
  "parents_avl (q @ AtRight l h k v ht # p) n \<longleftrightarrow> parents_avl (q @ AtRight l h' k' v' ht' # p) n"
proof (induction q arbitrary: n)
  case (Cons c q)
  then show ?case by (cases c) auto
qed simp

text \<open>Unlinking a node keeps all other entries in order, the hashes and the balance.\<close>

lemma unlink_node_correct:
  assumes "chain_ok ops p (HNode l h k v ht r)"
  shows "entries (unlink_node p (HNode l h k v ht r)) = before p @ entries l @ entries r @ after p"
    and "hashes_ok ops (unlink_node p (HNode l h k v ht r))"
    and "avl (unlink_node p (HNode l h k v ht r))"
proof -
  let ?n = "HNode l h k v ht r"
  have inv: "parents_avl p (NODE_HEIGHT ?n)" "avl ?n" "parents_hashes_ok ops p" "hashes_ok ops ?n"
    using assms by (auto simp: chain_ok_def)
  have "entries (unlink_node p ?n) = before p @ entries l @ entries r @ after p \<and>
      hashes_ok ops (unlink_node p ?n) \<and> avl (unlink_node p ?n)"
  proof (cases "l = HNil \<or> r = HNil")
    case True
    then show ?thesis using inv avl_rebalance_parents [OF inv(1)] by auto
  next
    case False
    obtain q m where min: "node_minimum [] r = (q, m)" by fastforce
    have rok: "chain_ok ops [] r" and ne: "r \<noteq> HNil" using inv False by auto
    from node_minimum_chain [OF min ne rok] obtain mh mk mv mt mr where m: "m = HNode HNil mh mk mv mt mr"
      and q: "before q = []" "(mk, mv) # entries mr @ after q = entries r" "chain_ok ops q m" by auto
    have shift: "node_minimum (AtRight l h k v ht # p) r = (q @ AtRight l h k v ht # p, m)"
      using node_minimum_shift [of "AtRight l h k v ht # p" r] min by simp
    have chain: "chain_ok ops (q @ AtRight l h k v ht # p) m"
      using node_minimum_chain [OF shift ne chain_ok_AtRight [OF assms]] by blast
    have mavl: "NODE_HEIGHT m = NODE_HEIGHT mr + 1" "avl mr" "hashes_ok ops mr" "mh = op_hash ops mk"
      "parents_hashes_ok ops q"
      using q(3) m by (auto simp: chain_ok_def)
    show ?thesis
    proof (cases "q = []")
      case True
      have r: "r = m"
        using min True by (cases r) (auto simp: node_minimum_shift [where p = "[c]" for c] split: if_splits)
      have "avl (balance_node (HNode l mh mk mv (NODE_EVAL_HEIGHT l mr) mr))"
        "NODE_HEIGHT (balance_node (HNode l mh mk mv (NODE_EVAL_HEIGHT l mr) mr)) \<le> NODE_HEIGHT ?n"
        "NODE_HEIGHT ?n \<le> NODE_HEIGHT (balance_node (HNode l mh mk mv (NODE_EVAL_HEIGHT l mr) mr)) + 1"
        using avl_balance_right_child [OF inv(2), of mr mh mk mv "NODE_EVAL_HEIGHT l mr"]
          mavl inv(2) r by auto
      then show ?thesis
        using avl_rebalance_parents [OF inv(1)] False True min m q inv mavl by auto
    next
      case nonempty: False
      have "parents_avl (q @ AtRight l mh mk mv (NODE_EVAL_HEIGHT l r) # p) (NODE_HEIGHT m)"
        using chain unfolding chain_ok_def
        by (rule parents_avl_relabel [THEN iffD1, OF conjunct1])
      from avl_rebalance_parents [OF this mavl(2)] show ?thesis
        using False nonempty min m q inv mavl by auto
    qed
  qed
  then show "entries (unlink_node p ?n) = before p @ entries l @ entries r @ after p"
    "hashes_ok ops (unlink_node p ?n)" "avl (unlink_node p ?n)" by auto
qed

declare unlink_node.simps(2) [simp del]

section \<open>The ordering contract of the key operations\<close>

locale hashtree_order =
  fixes ops :: "'k hashtree_ops"
  assumes compare_zero: "op_compare ops a b = 0 \<longleftrightarrow> a = b"
    and compare_flip: "op_compare ops a b < 0 \<longleftrightarrow> op_compare ops b a > 0"
    and compare_trans: "op_compare ops a b < 0 \<Longrightarrow> op_compare ops b c < 0 \<Longrightarrow> op_compare ops a c < 0"
begin

lemma key_above_flip: "key_above ops h k h' k' \<longleftrightarrow> key_below ops h' k' h k"
  by (auto simp: key_above_def key_below_def compare_flip)

lemma key_lt_irrefl [simp]: "\<not> key_lt ops a a"
  by (simp add: key_lt_def key_below_def compare_zero [THEN iffD2])

lemma key_lt_trans: "key_lt ops a b \<Longrightarrow> key_lt ops b c \<Longrightarrow> key_lt ops a c"
  by (auto simp: key_lt_def key_below_def intro: compare_trans)

lemma key_lt_asym: "key_lt ops a b \<Longrightarrow> \<not> key_lt ops b a"
  using key_lt_trans key_lt_irrefl by blast

lemma key_lt_total: "key_lt ops a b \<or> a = b \<or> key_lt ops b a"
proof (cases "op_hash ops a = op_hash ops b")
  case True
  consider "op_compare ops a b < 0" | "op_compare ops a b = 0" | "op_compare ops a b > 0" by linarith
  then show ?thesis
    using True by cases (auto simp: key_lt_def key_below_def compare_zero compare_flip)
qed (auto simp: key_lt_def key_below_def)

lemma key_cases:
  obtains (lt) "key_lt ops a b" | (gt) "\<not> key_lt ops a b" "key_lt ops b a" | (eq) "a = b"
  using key_lt_total [of a b] by blast

lemma below_iff: "key_below ops (op_hash ops a) a (op_hash ops b) b \<longleftrightarrow> key_lt ops a b"
  by (simp add: key_lt_def)

lemma above_iff: "key_above ops (op_hash ops a) a (op_hash ops b) b \<longleftrightarrow> key_lt ops b a"
  by (simp add: key_lt_def key_above_flip)

lemmas order_iffs = below_iff above_iff

lemma keys_sorted_append:
  "keys_sorted ops (xs @ ys) \<longleftrightarrow> keys_sorted ops xs \<and> keys_sorted ops ys \<and>
     (\<forall>a\<in>fst ` set xs. \<forall>b\<in>fst ` set ys. key_lt ops a b)"
  by (auto simp: keys_sorted_def sorted_wrt_append)

lemma keys_sorted_Cons:
  "keys_sorted ops ((k, v) # ys) \<longleftrightarrow> keys_sorted ops ys \<and> (\<forall>b\<in>fst ` set ys. key_lt ops k b)"
  by (auto simp: keys_sorted_def)

lemmas keys_sorted_simps = keys_sorted_append keys_sorted_Cons

lemma keys_sorted_distinct: "keys_sorted ops xs \<Longrightarrow> distinct (map fst xs)"
proof (induction xs)
  case (Cons x xs)
  then show ?case by (cases x) (auto simp: keys_sorted_Cons)
qed simp


text \<open>A search ends at the node with the key, or in a position where the key is missing.\<close>

lemma node_find_Inr:
  assumes "node_find ops (op_hash ops k) k p t = Inr (q, n)" "chain_ok ops p t"
  shows "\<exists>l h v ht r. n = HNode l h k v ht r \<and> chain_ok ops q n \<and>
     before q @ entries n @ after q = before p @ entries t @ after p"
  using assms
proof (induction t arbitrary: p)
  case (HNode l h k' v ht r)
  have h: "h = op_hash ops k'" using HNode.prems by (simp add: chain_ok_def)
  show ?case
  proof (cases rule: key_cases [of k k'])
    case lt
    with HNode.prems HNode.IH(1) [of "AtLeft h k' v ht r # p"] chain_ok_AtLeft [OF HNode.prems(2)]
    show ?thesis by (auto simp: h order_iffs)
  next
    case gt
    with HNode.prems HNode.IH(2) [of "AtRight l h k' v ht # p"] chain_ok_AtRight [OF HNode.prems(2)]
    show ?thesis by (auto simp: h order_iffs dest: key_lt_asym)
  next
    case eq
    with HNode.prems show ?thesis by (auto simp: h order_iffs)
  qed
qed simp

lemma node_find_Inl:
  assumes "hashes_ok ops t" "keys_sorted ops (entries t)"
  shows "node_find ops (op_hash ops k) k p t = Inl e \<longleftrightarrow> k \<notin> fst ` set (entries t) \<and> e = KEFIR_NOT_FOUND"
  using assms
proof (induction t arbitrary: p)
  case (HNode l h k' v ht r)
  have h: "h = op_hash ops k'" using HNode.prems by simp
  show ?case
  proof (cases rule: key_cases [of k k'])
    case lt
    with HNode show ?thesis
      by (auto simp: h order_iffs keys_sorted_simps dest: key_lt_asym key_lt_trans)
  next
    case gt
    with HNode show ?thesis
      by (auto simp: h order_iffs keys_sorted_simps dest: key_lt_asym key_lt_trans)
  next
    case eq
    then show ?thesis by (auto simp: h order_iffs)
  qed
qed auto

lemma node_insert_absent:
  assumes "hashes_ok ops t" "keys_sorted ops (entries t)" "k \<notin> fst ` set (entries t)"
  shows "\<exists>t' xs ys. node_insert ops True (op_hash ops k) k v rep t = Inr (t', None) \<and> hashes_ok ops t' \<and>
     entries t = xs @ ys \<and> entries t' = xs @ (k, v) # ys \<and>
     (\<forall>a\<in>fst ` set xs. key_lt ops a k) \<and> (\<forall>b\<in>fst ` set ys. key_lt ops k b)"
  using assms
proof (induction t)
  case HNil
  then show ?case by (auto simp: node_alloc_def)
next
  case (HNode l h k' v' ht r)
  have h: "h = op_hash ops k'" using HNode.prems by simp
  show ?case
  proof (cases rule: key_cases [of k k'])
    case lt
    have "hashes_ok ops l" "keys_sorted ops (entries l)" "k \<notin> fst ` set (entries l)"
      using HNode.prems by (auto simp: keys_sorted_simps)
    from HNode.IH(1) [OF this] obtain l' xs ys where "node_insert ops True (op_hash ops k) k v rep l = Inr (l', None)"
      "hashes_ok ops l'" "entries l = xs @ ys" "entries l' = xs @ (k, v) # ys"
      "\<forall>a\<in>fst ` set xs. key_lt ops a k" "\<forall>b\<in>fst ` set ys. key_lt ops k b"
      by blast
    with lt HNode.prems show ?thesis
      by (intro exI [of _ "balance_node (HNode l' h k' v' ht r)"] exI [of _ xs]
          exI [of _ "ys @ (k', v') # entries r"])
        (auto simp: h order_iffs keys_sorted_simps intro: key_lt_trans)
  next
    case gt
    have "hashes_ok ops r" "keys_sorted ops (entries r)" "k \<notin> fst ` set (entries r)"
      using HNode.prems by (auto simp: keys_sorted_simps)
    from HNode.IH(2) [OF this] obtain r' xs ys where "node_insert ops True (op_hash ops k) k v rep r = Inr (r', None)"
      "hashes_ok ops r'" "entries r = xs @ ys" "entries r' = xs @ (k, v) # ys"
      "\<forall>a\<in>fst ` set xs. key_lt ops a k" "\<forall>b\<in>fst ` set ys. key_lt ops k b"
      by blast
    with gt HNode.prems show ?thesis
      by (intro exI [of _ "balance_node (HNode l h k' v' ht r')"] exI [of _ "entries l @ (k', v') # xs"]
          exI [of _ ys])
        (auto simp: h order_iffs keys_sorted_simps intro: key_lt_trans)
  next
    case eq
    with HNode.prems show ?thesis by simp
  qed
qed

lemma node_insert_present:
  assumes "hashes_ok ops t" "keys_sorted ops (entries t)" "k \<in> fst ` set (entries t)"
  shows "node_insert ops alloc (op_hash ops k) k v False t = Inl KEFIR_ALREADY_EXISTS"
  using assms
proof (induction t)
  case (HNode l h k' v' ht r)
  have h: "h = op_hash ops k'" using HNode.prems by simp
  show ?case
  proof (cases rule: key_cases [of k k'])
    case lt
    with HNode.prems have "k \<in> fst ` set (entries l)"
      by (auto simp: keys_sorted_simps dest: key_lt_asym)
    with lt HNode show ?thesis by (auto simp: h order_iffs keys_sorted_simps)
  next
    case gt
    with HNode.prems have "k \<in> fst ` set (entries r)"
      by (auto simp: keys_sorted_simps dest: key_lt_asym)
    with gt HNode show ?thesis by (auto simp: h order_iffs keys_sorted_simps dest: key_lt_asym)
  next
    case eq
    then show ?thesis by (simp add: h order_iffs)
  qed
qed simp

text \<open>Without memory for the node, the descent to the missing child fails wherever it ends.\<close>

lemma node_insert_refused:
  assumes "hashes_ok ops t" "keys_sorted ops (entries t)" "k \<notin> fst ` set (entries t)"
  shows "node_insert ops False (op_hash ops k) k v rep t = Inl KEFIR_MEMALLOC_FAILURE"
  using assms
proof (induction t)
  case (HNode l h k' v' ht r)
  have h: "h = op_hash ops k'" using HNode.prems by simp
  show ?case
  proof (cases rule: key_cases [of k k'])
    case lt
    with HNode show ?thesis by (auto simp: h order_iffs keys_sorted_simps image_Un)
  next
    case gt
    with HNode show ?thesis by (auto simp: h order_iffs keys_sorted_simps image_Un dest: key_lt_asym)
  next
    case eq
    with HNode.prems show ?thesis by simp
  qed
qed simp

text \<open>The three operations on a tree object that meets its invariant.\<close>

lemma hashtree_inv_iff:
  "hashtree_ok ops t \<Longrightarrow> avl (tree_root t) \<and> hashes_ok ops (tree_root t) \<and>
     keys_sorted ops (entries (tree_root t)) \<and> tree_ops t = ops"
  by (auto simp: hashtree_ok_def hashtree_inv_def tree_inv_def)

lemma abs_iff: "hashtree_ok ops t \<Longrightarrow> hashtree_abs t k = None \<longleftrightarrow> k \<notin> fst ` set (entries (tree_root t))"
  by (simp add: hashtree_abs_def map_of_eq_None_iff)

lemma find_located:
  assumes "hashtree_ok ops t" "node_find ops (op_hash ops k) k [] (tree_root t) = Inr (p, n)"
  shows "\<exists>l h v ht r. n = HNode l h k v ht r \<and> chain_ok ops p n \<and> hashtree_abs t k = Some v \<and>
    entries (tree_root t) = (before p @ entries l) @ (k, v) # (entries r @ after p)"
proof -
  have root: "chain_ok ops [] (tree_root t)" using hashtree_inv_iff [OF assms(1)] by simp
  from node_find_Inr [OF assms(2) root] obtain l h v ht r where n: "n = HNode l h k v ht r"
    and c: "chain_ok ops p n" and e: "entries (tree_root t) = (before p @ entries l) @ (k, v) # (entries r @ after p)"
    by auto
  have "distinct (map fst (entries (tree_root t)))"
    using hashtree_inv_iff [OF assms(1)] keys_sorted_distinct by blast
  then have "k \<notin> fst ` set (before p @ entries l)" unfolding e by auto
  then have "hashtree_abs t k = Some v"
    unfolding hashtree_abs_def e by (rule map_of_mid_at)
  with n c e show ?thesis by blast
qed

lemma find_result:
  assumes "hashtree_ok ops t"
  shows "node_find ops (op_hash ops k) k [] (tree_root t) = Inl e \<longleftrightarrow>
    hashtree_abs t k = None \<and> e = KEFIR_NOT_FOUND"
  using node_find_Inl [of "tree_root t" k] hashtree_inv_iff [OF assms] abs_iff [OF assms] by auto

lemma value_at:
  assumes "hashtree_ok ops t"
  shows "hashtree_value_at t k = (case hashtree_abs t k of None \<Rightarrow> Inl KEFIR_NOT_FOUND | Some v \<Rightarrow> Inr v)"
proof (cases "node_find ops (op_hash ops k) k [] (tree_root t)")
  case (Inl e)
  with find_result [OF assms, of k e] hashtree_inv_iff [OF assms] show ?thesis
    by (simp add: hashtree_value_at_def kefir_hashtree_at_def)
next
  case (Inr pn)
  obtain p n where pn: "pn = (p, n)" by fastforce
  with find_located [OF assms Inr [unfolded pn]] Inr hashtree_inv_iff [OF assms] show ?thesis
    by (auto simp: hashtree_value_at_def kefir_hashtree_at_def)
qed

lemma has_iff:
  assumes "hashtree_ok ops t"
  shows "kefir_hashtree_has t k \<longleftrightarrow> hashtree_abs t k \<noteq> None"
  using find_result [OF assms, of k] find_located [OF assms, of k] hashtree_inv_iff [OF assms]
  by (cases "node_find ops (op_hash ops k) k [] (tree_root t)") (auto simp: kefir_hashtree_has_def)

lemma insert_absent:
  assumes "hashtree_ok ops t" "hashtree_abs t k = None"
  shows "\<exists>t'. kefir_hashtree_insert True t k v = (KEFIR_OK, t') \<and> hashtree_ok ops t' \<and>
    hashtree_abs t' = (hashtree_abs t)(k \<mapsto> v)"
proof -
  note inv = hashtree_inv_iff [OF assms(1)]
  obtain root' xs ys where ins: "node_insert ops True (op_hash ops k) k v False (tree_root t) = Inr (root', None)"
    and h: "hashes_ok ops root'" and e: "entries (tree_root t) = xs @ ys" "entries root' = xs @ (k, v) # ys"
    and lt: "\<forall>a\<in>fst ` set xs. key_lt ops a k" "\<forall>b\<in>fst ` set ys. key_lt ops k b"
    using node_insert_absent [of "tree_root t" k v False] inv assms abs_iff [OF assms(1)] by blast
  let ?t = "t\<lparr>tree_root := root'\<rparr>"
  have "kefir_hashtree_insert True t k v = (KEFIR_OK, ?t)"
    using ins inv by (cases "tree_root t") (auto simp: kefir_hashtree_insert_def)
  moreover have "keys_sorted ops (entries root')"
    using inv e lt by (auto simp: keys_sorted_simps)
  then have "hashtree_ok ops ?t"
    using avl_node_insert [OF ins] inv h assms(1)
    by (auto simp: hashtree_ok_def hashtree_inv_def tree_inv_def)
  moreover have "k \<notin> fst ` set xs" using lt(1) key_lt_irrefl by blast
  then have "hashtree_abs ?t = (hashtree_abs t)(k \<mapsto> v)"
    using map_of_append_mid [of k xs v ys] by (simp add: hashtree_abs_def e)
  ultimately show ?thesis by blast
qed

lemma insert_present:
  assumes "hashtree_ok ops t" "hashtree_abs t k = Some w"
  shows "kefir_hashtree_insert alloc t k v = (KEFIR_ALREADY_EXISTS, t)"
  using node_insert_present [of "tree_root t" k alloc v] hashtree_inv_iff [OF assms(1)] assms abs_iff [OF assms(1), of k]
  by (cases "tree_root t") (auto simp: kefir_hashtree_insert_def)

lemma insert_refused:
  assumes "hashtree_ok ops t"
  shows "kefir_hashtree_insert False t k v =
    (if kefir_hashtree_empty t then KEFIR_OK else if hashtree_abs t k = None then KEFIR_MEMALLOC_FAILURE
     else KEFIR_ALREADY_EXISTS, t)"
proof (cases "hashtree_abs t k")
  case None
  then show ?thesis
    using node_insert_refused [of "tree_root t" k v False] hashtree_inv_iff [OF assms] abs_iff [OF assms, of k]
    by (cases "tree_root t") (auto simp: kefir_hashtree_insert_def kefir_hashtree_empty_def)
next
  case (Some w)
  then have "tree_root t \<noteq> HNil" by (auto simp: hashtree_abs_def)
  then show ?thesis using insert_present [OF assms Some] Some by (simp add: kefir_hashtree_empty_def)
qed

lemma delete_absent:
  assumes "hashtree_ok ops t" "hashtree_abs t k = None"
  shows "kefir_hashtree_delete t k = (KEFIR_NOT_FOUND, t)"
  using find_result [OF assms(1), of k KEFIR_NOT_FOUND] assms hashtree_inv_iff [OF assms(1)]
  by (simp add: kefir_hashtree_delete_def Let_def)

lemma delete_present:
  assumes "hashtree_ok ops t" "hashtree_abs t k = Some w"
  shows "\<exists>t'. kefir_hashtree_delete t k = (KEFIR_OK, t') \<and> hashtree_ok ops t' \<and>
    hashtree_abs t' = (hashtree_abs t)(k := None)"
proof -
  note inv = hashtree_inv_iff [OF assms(1)]
  obtain p n where f: "node_find ops (op_hash ops k) k [] (tree_root t) = Inr (p, n)"
    using find_result [OF assms(1)] assms(2)
    by (cases "node_find ops (op_hash ops k) k [] (tree_root t)") auto
  from find_located [OF assms(1) f] obtain l h v ht r where n: "n = HNode l h k v ht r"
    and c: "chain_ok ops p n" and e: "entries (tree_root t) = (before p @ entries l) @ (k, v) # (entries r @ after p)"
    by blast
  let ?t = "t\<lparr>tree_root := unlink_node p n\<rparr>"
  note u = unlink_node_correct [OF c [unfolded n], folded n]
  have "kefir_hashtree_delete t k = (KEFIR_OK, ?t)"
    using f inv assms(1) by (auto simp: kefir_hashtree_delete_def Let_def hashtree_ok_def split: option.splits)
  moreover have "keys_sorted ops (entries (unlink_node p n))"
    using inv unfolding u e by (auto simp: keys_sorted_simps)
  then have "hashtree_ok ops ?t"
    using u assms(1) inv by (auto simp: hashtree_ok_def hashtree_inv_def tree_inv_def)
  moreover have "distinct (map fst (entries (tree_root t)))"
    using inv keys_sorted_distinct by blast
  then have "hashtree_abs ?t = (hashtree_abs t)(k := None)"
    using map_of_remove_mid [of "before p @ entries l" k v "entries r @ after p"]
    by (simp add: hashtree_abs_def u e)
  ultimately show ?thesis by blast
qed

end

sublocale hashtree_order \<subseteq> map: kefir_map "hashtree_ok ops" hashtree_abs hashtree_value_at
  "kefir_hashtree_insert True" kefir_hashtree_delete
proof unfold_locales
qed (auto simp: value_at insert_absent insert_present delete_present delete_absent)

section \<open>Iteration\<close>

text \<open>
  The loop every client writes, \<^verbatim>\<open>for (node = iter(); node != NULL; node = next())\<close>, cut off after
  a number of rounds: the entries it visits.
\<close>

fun iterate :: "'k hashtree_ops \<Rightarrow> nat \<Rightarrow> ('k, 'v) node_ptr option \<Rightarrow> ('k \<times> 'v) list" where
  "iterate ops 0 it = []"
| "iterate ops (Suc n) None = []"
| "iterate ops (Suc n) (Some (p, t)) =
     (node_key t, node_value t) # iterate ops n (kefir_hashtree_next ops (Some (p, t)))"

definition hashtree_loop :: "('k, 'v) hashtree \<Rightarrow> nat \<Rightarrow> ('k \<times> 'v) list" where
  "hashtree_loop t n = iterate (tree_ops t) n (kefir_hashtree_iter t)"

lemma min_node_position:
  "t \<noteq> HNil \<Longrightarrow> parents_hashes_ok ops p \<Longrightarrow> hashes_ok ops t \<Longrightarrow>
    \<exists>q h k v ht r. min_node p t = Some (q, HNode HNil h k v ht r) \<and> before q = before p \<and>
      (k, v) # entries r @ after q = entries t @ after p \<and>
      parents_hashes_ok ops q \<and> h = op_hash ops k \<and> hashes_ok ops r"
proof (induction t arbitrary: p)
  case (HNode l h k v ht r)
  show ?case
  proof (cases "l = HNil")
    case True
    with HNode.prems show ?thesis by auto
  next
    case False
    with HNode.IH(1) [of "AtLeft h k v ht r # p"] HNode.prems show ?thesis by fastforce
  qed
qed simp

context hashtree_order
begin

lemma next_parent_position:
  assumes "parents_hashes_ok ops p" "hashes_ok ops t"
    and "\<forall>a\<in>fst ` set (before p). key_lt ops a k" "\<forall>b\<in>fst ` set (after p). key_lt ops k b"
  shows "case after p of
      [] \<Rightarrow> next_parent ops (op_hash ops k) k p t = None
    | (k', v') # rest \<Rightarrow> \<exists>q l h ht r. next_parent ops (op_hash ops k) k p t = Some (q, HNode l h k' v' ht r) \<and>
        entries r @ after q = rest \<and> before q @ entries l = before p @ entries t \<and>
        parents_hashes_ok ops q \<and> hashes_ok ops (HNode l h k' v' ht r)"
  using assms
proof (induction p arbitrary: t)
  case (Cons c p)
  show ?case
  proof (cases c)
    case (AtLeft h k' v ht r)
    with Cons.prems show ?thesis by (auto simp: order_iffs)
  next
    case (AtRight l h k' v ht)
    then have "\<not> key_above ops h k' (op_hash ops k) k"
      using Cons.prems by (auto simp: order_iffs dest: key_lt_asym)
    with AtRight Cons.IH [of "HNode l h k' v ht t"] Cons.prems show ?thesis
      by (auto split: list.splits)
  qed
qed simp

text \<open>One step of the iterator moves to the next entry in key order.\<close>

lemma next_node_position:
  assumes "parents_hashes_ok ops p" "hashes_ok ops (HNode l h k v ht r)"
    and "keys_sorted ops (before p @ entries (HNode l h k v ht r) @ after p)"
  shows "case entries r @ after p of
      [] \<Rightarrow> kefir_hashtree_next_node ops (p, HNode l h k v ht r) = None
    | (k', v') # rest \<Rightarrow> \<exists>q l' h' ht' r'.
        kefir_hashtree_next_node ops (p, HNode l h k v ht r) = Some (q, HNode l' h' k' v' ht' r') \<and>
        entries r' @ after q = rest \<and> before q @ entries l' = before p @ entries l @ [(k, v)] \<and>
        parents_hashes_ok ops q \<and> hashes_ok ops (HNode l' h' k' v' ht' r')"
proof (cases "r = HNil")
  case True
  have "\<forall>a\<in>fst ` set (before p). key_lt ops a k" "\<forall>b\<in>fst ` set (after p). key_lt ops k b"
    using assms(3) by (auto simp: keys_sorted_simps)
  with next_parent_position [OF assms(1,2), of k] True assms(2) show ?thesis
    by (auto split: list.splits)
next
  case False
  have "parents_hashes_ok ops (AtRight l h k v ht # p)" "hashes_ok ops r" using assms by auto
  from min_node_position [OF False this] obtain q h' k' v' ht' r' where
    "min_node (AtRight l h k v ht # p) r = Some (q, HNode HNil h' k' v' ht' r')"
    "before q = before p @ entries l @ [(k, v)]" "entries r @ after p = (k', v') # entries r' @ after q"
    "parents_hashes_ok ops q" "h' = op_hash ops k'" "hashes_ok ops r'" by auto
  with False show ?thesis by auto
qed

lemma iterate_position:
  assumes "parents_hashes_ok ops p" "hashes_ok ops (HNode l h k v ht r)"
    and "keys_sorted ops (before p @ entries (HNode l h k v ht r) @ after p)"
  shows "iterate ops n (Some (p, HNode l h k v ht r)) = take n ((k, v) # entries r @ after p)"
  using assms
proof (induction n arbitrary: p l h k v ht r)
  case (Suc n)
  note step = next_node_position [OF Suc.prems]
  show ?case
  proof (cases "entries r @ after p")
    case Nil
    with step show ?thesis by (cases n) (auto simp: kefir_hashtree_next_def)
  next
    case (Cons x rest)
    obtain k' v' where x: "x = (k', v')" by fastforce
    from step Cons x obtain q l' h' ht' r' where
      nx: "kefir_hashtree_next_node ops (p, HNode l h k v ht r) = Some (q, HNode l' h' k' v' ht' r')"
      and rest: "entries r' @ after q = rest" "before q @ entries l' = before p @ entries l @ [(k, v)]"
      and ok: "parents_hashes_ok ops q" "hashes_ok ops (HNode l' h' k' v' ht' r')" by auto
    have "before q @ entries (HNode l' h' k' v' ht' r') @ after q =
        before p @ entries (HNode l h k v ht r) @ after p"
      using rest Cons x by (metis append.assoc append_Cons append_Nil entries.simps(2))
    with Suc.IH [OF ok] Suc.prems(3) have "iterate ops n (Some (q, HNode l' h' k' v' ht' r')) = take n ((k', v') # rest)"
      by (simp add: rest)
    with nx Cons x show ?thesis by (simp add: kefir_hashtree_next_def)
  qed
qed simp

lemma loop_visits:
  assumes "hashtree_ok ops t"
  shows "hashtree_loop t n = take n (entries (tree_root t))"
proof (cases "tree_root t = HNil")
  case True
  then show ?thesis by (cases n) (auto simp: hashtree_loop_def kefir_hashtree_iter_def)
next
  case False
  note inv = hashtree_inv_iff [OF assms]
  from min_node_position [OF False, of ops "[]"] inv obtain q h k v ht r where
    m: "min_node [] (tree_root t) = Some (q, HNode HNil h k v ht r)" "before q = []"
      "(k, v) # entries r @ after q = entries (tree_root t)" "parents_hashes_ok ops q"
      "h = op_hash ops k" "hashes_ok ops r" by auto
  then show ?thesis
    using iterate_position [of q HNil h k v ht r n] inv
    by (simp add: hashtree_loop_def kefir_hashtree_iter_def)
qed

end

section \<open>Bound searches and extremal nodes\<close>

definition ptr_entry :: "('k, 'v) node_ptr \<Rightarrow> 'k \<times> 'v" where
  "ptr_entry n = (node_key (snd n), node_value (snd n))"

definition last_or :: "'a option \<Rightarrow> 'a list \<Rightarrow> 'a option" where
  "last_or d xs = (if xs = [] then d else Some (last xs))"

definition first_or :: "'a option \<Rightarrow> 'a list \<Rightarrow> 'a option" where
  "first_or d xs = (if xs = [] then d else Some (hd xs))"

lemma last_or_append [simp]: "last_or d (xs @ ys) = last_or (last_or d xs) ys"
  by (auto simp: last_or_def)

lemma first_or_append [simp]: "first_or d (xs @ ys) = first_or (first_or d ys) xs"
  by (auto simp: first_or_def)

lemma last_or_Cons [simp]: "last_or d (x # xs) = last_or (Some x) xs" "last_or d [] = d"
  by (auto simp: last_or_def)

lemma first_or_Cons [simp]: "first_or d (x # xs) = Some x" "first_or d [] = d"
  by (auto simp: first_or_def)

lemma min_node_first: "map_option ptr_entry (min_node p t) = first_or None (entries t)"
proof (induction t arbitrary: p)
  case (HNode l h k v ht r)
  show ?case
    using HNode(1) [of "AtLeft h k v ht r # p"]
    by (cases "entries l") (auto simp: ptr_entry_def first_or_def split: option.splits)
qed simp

lemma max_node_last: "map_option ptr_entry (max_node p t) = last_or None (entries t)"
proof (induction t arbitrary: p)
  case (HNode l h k v ht r)
  show ?case
    using HNode(2) [of "AtRight l h k v ht # p"]
    by (cases "entries r") (auto simp: ptr_entry_def last_or_def split: option.splits)
qed simp

context hashtree_order
begin

lemma filter_all_below:
  "\<forall>a\<in>fst ` set xs. key_lt ops a k \<Longrightarrow> filter (\<lambda>e. \<not> key_lt ops k (fst e)) xs = xs"
  "\<forall>b\<in>fst ` set xs. key_lt ops k b \<Longrightarrow> filter (\<lambda>e. \<not> key_lt ops k (fst e)) xs = []"
  "\<forall>b\<in>fst ` set xs. key_lt ops k b \<Longrightarrow> filter (\<lambda>e. \<not> key_lt ops (fst e) k) xs = xs"
  "\<forall>a\<in>fst ` set xs. key_lt ops a k \<Longrightarrow> filter (\<lambda>e. \<not> key_lt ops (fst e) k) xs = []"
  using key_lt_asym by (auto simp: filter_id_conv filter_empty_conv)

text \<open>The lower bound is the last entry not above the key, the upper bound the first not below it.\<close>

lemma lower_bound_last:
  assumes "hashes_ok ops t" "keys_sorted ops (entries t)"
  shows "map_option ptr_entry (node_find_lower_bound ops (op_hash ops k) k p t best) =
     last_or (map_option ptr_entry best) (filter (\<lambda>e. \<not> key_lt ops k (fst e)) (entries t))"
  using assms
proof (induction t arbitrary: p best)
  case (HNode l h k' v ht r)
  have h: "h = op_hash ops k'" using HNode.prems by simp
  have s: "keys_sorted ops (entries l)" "keys_sorted ops (entries r)"
    "\<forall>a\<in>fst ` set (entries l). key_lt ops a k'" "\<forall>b\<in>fst ` set (entries r). key_lt ops k' b"
    using HNode.prems by (auto simp: keys_sorted_simps)
  show ?case
  proof (cases rule: key_cases [of k k'])
    case lt
    then have "\<forall>b\<in>fst ` set (entries r). key_lt ops k b" using s key_lt_trans by blast
    with lt HNode s show ?thesis by (simp add: h order_iffs filter_all_below)
  next
    case gt
    with HNode s show ?thesis by (simp add: h order_iffs ptr_entry_def)
  next
    case eq
    then show ?thesis using s by (simp add: h order_iffs filter_all_below ptr_entry_def)
  qed
qed simp

lemma upper_bound_first:
  assumes "hashes_ok ops t" "keys_sorted ops (entries t)"
  shows "map_option ptr_entry (node_find_upper_bound ops (op_hash ops k) k p t best) =
     first_or (map_option ptr_entry best) (filter (\<lambda>e. \<not> key_lt ops (fst e) k) (entries t))"
  using assms
proof (induction t arbitrary: p best)
  case (HNode l h k' v ht r)
  have h: "h = op_hash ops k'" using HNode.prems by simp
  have s: "keys_sorted ops (entries l)" "keys_sorted ops (entries r)"
    "\<forall>a\<in>fst ` set (entries l). key_lt ops a k'" "\<forall>b\<in>fst ` set (entries r). key_lt ops k' b"
    using HNode.prems by (auto simp: keys_sorted_simps)
  show ?case
  proof (cases rule: key_cases [of k k'])
    case lt
    then have "\<not> key_lt ops k' k" using key_lt_asym by blast
    with lt HNode s show ?thesis by (simp add: h order_iffs ptr_entry_def)
  next
    case gt
    then have "\<forall>a\<in>fst ` set (entries l). key_lt ops a k" using s key_lt_trans by blast
    with gt HNode s show ?thesis by (simp add: h order_iffs filter_all_below)
  next
    case eq
    then show ?thesis using s by (simp add: h order_iffs filter_all_below ptr_entry_def)
  qed
qed simp

end

section \<open>Height and removal of all entries\<close>

text \<open>
  The number of nodes on the longest path down from a node, which no field of the tree stores, and the
  trees in which every node stores its height rightly and has subtrees of nearly the same depth.
\<close>

fun node_depth :: "('k, 'v) hashtree_node \<Rightarrow> nat" where
  "node_depth HNil = 0"
| "node_depth (HNode l h k v ht r) = Suc (max (node_depth l) (node_depth r))"

fun depth_balanced :: "('k, 'v) hashtree_node \<Rightarrow> bool" where
  "depth_balanced HNil \<longleftrightarrow> True"
| "depth_balanced (HNode l h k v ht r) \<longleftrightarrow> depth_balanced l \<and> depth_balanced r \<and>
     ht = max (node_depth l) (node_depth r) \<and> \<bar>int (node_depth r) - int (node_depth l)\<bar> \<le> 1"

lemma avl_depth: "avl t \<Longrightarrow> NODE_HEIGHT t = node_depth t \<and> depth_balanced t"
  by (induction t) auto

text \<open>The height is logarithmic in the number of entries.\<close>

lemma avl_height_bound: "avl t \<Longrightarrow> 2 ^ (NODE_HEIGHT t div 2) \<le> length (entries t) + 1"
proof (induction t)
  case (HNode l h k v ht r)
  define n where "n = NODE_HEIGHT (HNode l h k v ht r)"
  have "NODE_HEIGHT l \<ge> n - 2" "NODE_HEIGHT r \<ge> n - 2" using HNode.prems by (auto simp: n_def)
  then have "(2::nat) ^ ((n - 2) div 2) \<le> 2 ^ (NODE_HEIGHT l div 2)"
    "(2::nat) ^ ((n - 2) div 2) \<le> 2 ^ (NODE_HEIGHT r div 2)"
    by (auto intro!: power_increasing div_le_mono)
  moreover have "2 ^ (NODE_HEIGHT l div 2) \<le> length (entries l) + 1"
    "2 ^ (NODE_HEIGHT r div 2) \<le> length (entries r) + 1"
    using HNode by auto
  ultimately have sum: "2 * 2 ^ ((n - 2) div 2) \<le> length (entries l) + 1 + (length (entries r) + 1)"
    by linarith
  show ?case
  proof (cases "n < 2")
    case True
    then have "n div 2 = 0" by simp
    then show ?thesis by (simp add: n_def)
  next
    case False
    then have "2 ^ (n div 2) = (2::nat) * 2 ^ ((n - 2) div 2)"
      by (simp add: div_if flip: power_Suc)
    with sum show ?thesis by (simp add: n_def)
  qed
qed simp

lemma node_free_all:
  "\<forall>k v. f k v = KEFIR_OK \<Longrightarrow>
     fst (node_free (Some f) t) = KEFIR_OK \<and> mset (snd (node_free (Some f) t)) = mset (entries t)"
  by (induction t) (auto split: prod.splits)

section \<open>The key operations of the code meet the ordering contract\<close>

interpretation uint_tree: hashtree_order kefir_hashtree_uint_ops
  by unfold_locales (auto simp: kefir_hashtree_uint_ops_def uint_compare_def split: if_splits)

lemma strcmp_zero: "strcmp a b = 0 \<longleftrightarrow> a = b"
  by (induction a b rule: strcmp.induct) auto

lemma strcmp_flip: "strcmp a b < 0 \<longleftrightarrow> strcmp b a > 0"
  by (induction a b rule: strcmp.induct) (auto simp: neq_iff [symmetric])

lemma strcmp_trans: "strcmp a b < 0 \<Longrightarrow> strcmp b c < 0 \<Longrightarrow> strcmp a c < 0"
proof (induction a b arbitrary: c rule: strcmp.induct)
  case (2 y ys)
  then show ?case by (cases c) auto
next
  case (4 x xs y ys)
  then show ?case by (cases c) (auto split: if_splits)
qed auto

interpretation str_tree: hashtree_order kefir_hashtree_str_ops
proof unfold_locales
  fix a b c :: "string option"
  show "op_compare kefir_hashtree_str_ops a b = 0 \<longleftrightarrow> a = b"
    by (auto simp: kefir_hashtree_str_ops_def str_compare_def strcmp_zero Let_def split: option.splits)
  show "op_compare kefir_hashtree_str_ops a b < 0 \<longleftrightarrow> op_compare kefir_hashtree_str_ops b a > 0"
    using strcmp_flip [of "the a" "the b"] strcmp_flip [of "the b" "the a"]
      strcmp_zero [of "the a" "the b"] strcmp_zero [of "the b" "the a"]
    by (auto simp: kefir_hashtree_str_ops_def str_compare_def Let_def split: option.splits)
  show "op_compare kefir_hashtree_str_ops a b < 0 \<Longrightarrow> op_compare kefir_hashtree_str_ops b c < 0 \<Longrightarrow>
      op_compare kefir_hashtree_str_ops a c < 0"
    by (auto simp: kefir_hashtree_str_ops_def str_compare_def Let_def dest: strcmp_trans
        split: option.splits if_splits)
qed

section \<open>Trees built by any sequence of insertions and deletions\<close>

definition hashtree_run ::
    "'k hashtree_ops \<Rightarrow> ('k, 'v) map_op list \<Rightarrow> kefir_result list \<times> ('k, 'v) hashtree" where
  "hashtree_run ops = map_run (kefir_hashtree_insert True) kefir_hashtree_delete (kefir_hashtree_init ops)"

definition hashtree_after :: "'k hashtree_ops \<Rightarrow> ('k, 'v) map_op list \<Rightarrow> ('k, 'v) hashtree" where
  "hashtree_after ops xs = snd (hashtree_run ops xs)"

lemma hashtree_init_ok [simp]: "hashtree_ok ops (kefir_hashtree_init ops)"
  by (simp add: hashtree_ok_def hashtree_inv_def tree_inv_def kefir_hashtree_init_def keys_sorted_def)

lemma hashtree_init_abs [simp]: "hashtree_abs (kefir_hashtree_init ops) = Map.empty"
  by (simp add: hashtree_abs_def kefir_hashtree_init_def)

context hashtree_order
begin

lemma hashtree_run_spec:
  fixes xs :: "('k, 'v) map_op list"
  shows "spec_map_run Map.empty xs = (fst (hashtree_run ops xs), hashtree_abs (hashtree_after ops xs))"
    and "hashtree_ok ops (hashtree_after ops xs)"
  using map.run_simulates [of "kefir_hashtree_init ops" xs]
  by (auto simp: hashtree_run_def hashtree_after_def)

lemma hashtree_after_inv:
  fixes xs :: "('k, 'v) map_op list"
  defines "root \<equiv> tree_root (hashtree_after ops xs)"
  shows "avl root" "hashes_ok ops root" "keys_sorted ops (entries root)"
    "tree_ops (hashtree_after ops xs) = ops"
  using hashtree_inv_iff [OF hashtree_run_spec(2), of xs] by (auto simp: root_def)

end

section \<open>Properties\<close>

text \<open>
  C1. Any sequence of insertions and deletions on a tree keyed by integers answers with exactly the
  result codes of a finite map, ends in the same map, and leaves a tree that is balanced, sorted
  and carries the right hashes.
\<close>

theorem hashtree_refines_map:
  "spec_map_run Map.empty xs =
     (fst (hashtree_run kefir_hashtree_uint_ops xs), hashtree_abs (hashtree_after kefir_hashtree_uint_ops xs)) \<and>
   hashtree_inv (hashtree_after kefir_hashtree_uint_ops xs)"
  using uint_tree.hashtree_run_spec [of xs] by (simp add: hashtree_ok_def)

text \<open>
  In a tree keyed by strings, built by any sequence of insertions and deletions, a lookup
  returns the value the specification's map holds for the key and \<^verbatim>\<open>KEFIR_NOT_FOUND\<close> otherwise,
  and the membership test agrees with it.
\<close>

theorem hashtree_str_lookup:
  "hashtree_value_at (hashtree_after kefir_hashtree_str_ops xs) k =
     (case snd (spec_map_run Map.empty xs) k of None \<Rightarrow> Inl KEFIR_NOT_FOUND | Some v \<Rightarrow> Inr v) \<and>
   kefir_hashtree_has (hashtree_after kefir_hashtree_str_ops xs) k =
     (snd (spec_map_run Map.empty xs) k \<noteq> None)"
  using str_tree.value_at [OF str_tree.hashtree_run_spec(2), of xs k]
    str_tree.has_iff [OF str_tree.hashtree_run_spec(2), of xs k] str_tree.hashtree_run_spec(1) [of xs]
  by simp

text \<open>
  C2. In a tree built by any sequence of insertions and deletions the longest path from the root has a length that is
  logarithmic in the number of entries. At every node the stored height is the length of the longest path below it,
  and the longest paths in the two subtrees differ in length by at most one.
\<close>

theorem hashtree_height_logarithmic:
  "2 ^ (node_depth (tree_root (hashtree_after kefir_hashtree_uint_ops xs)) div 2)
     \<le> length (entries (tree_root (hashtree_after kefir_hashtree_uint_ops xs))) + 1 \<and>
   NODE_HEIGHT (tree_root (hashtree_after kefir_hashtree_uint_ops xs)) =
     node_depth (tree_root (hashtree_after kefir_hashtree_uint_ops xs)) \<and>
   depth_balanced (tree_root (hashtree_after kefir_hashtree_uint_ops xs))"
proof -
  let ?root = "tree_root (hashtree_after kefir_hashtree_uint_ops xs)"
  have avl: "avl ?root" by (rule uint_tree.hashtree_after_inv)
  show ?thesis using avl_height_bound [OF avl] avl_depth [OF avl] by simp
qed

text \<open>
  C3. Iterating over a tree built by any sequence of insertions and deletions visits every entry
  exactly once, in strictly increasing key order, and then stops.
\<close>

theorem hashtree_iteration:
  "(\<forall>n. hashtree_loop (hashtree_after kefir_hashtree_uint_ops xs) n =
      take n (entries (tree_root (hashtree_after kefir_hashtree_uint_ops xs)))) \<and>
   map_of (entries (tree_root (hashtree_after kefir_hashtree_uint_ops xs))) = snd (spec_map_run Map.empty xs) \<and>
   sorted_wrt (<) (map fst (entries (tree_root (hashtree_after kefir_hashtree_uint_ops xs))))"
proof -
  have "key_lt kefir_hashtree_uint_ops = (<)"
    by (auto simp: key_lt_def key_below_def kefir_hashtree_uint_ops_def uint_compare_def fun_eq_iff)
  then show ?thesis
    using uint_tree.loop_visits [OF uint_tree.hashtree_run_spec(2), of xs]
      uint_tree.hashtree_run_spec(1) [of xs] uint_tree.hashtree_after_inv(3) [of xs]
    by (simp add: hashtree_abs_def keys_sorted_def)
qed

text \<open>
  C4. The bound searches on a tree built by any sequence of insertions and deletions return the
  last entry whose key is not above the given one and the first entry whose key is not below it.
\<close>

theorem hashtree_bounds:
  "(case kefir_hashtree_lower_bound (hashtree_after kefir_hashtree_str_ops xs) k of
      Inl _ \<Rightarrow> None | Inr n \<Rightarrow> Some (ptr_entry n)) =
     last_or None (filter (\<lambda>e. \<not> key_lt kefir_hashtree_str_ops k (fst e))
       (entries (tree_root (hashtree_after kefir_hashtree_str_ops xs)))) \<and>
   (case kefir_hashtree_upper_bound (hashtree_after kefir_hashtree_str_ops xs) k of
      Inl _ \<Rightarrow> None | Inr n \<Rightarrow> Some (ptr_entry n)) =
     first_or None (filter (\<lambda>e. \<not> key_lt kefir_hashtree_str_ops (fst e) k)
       (entries (tree_root (hashtree_after kefir_hashtree_str_ops xs))))"
  using str_tree.lower_bound_last [OF str_tree.hashtree_after_inv(2,3), where k = k and p = "[]" and best = None, of xs]
    str_tree.upper_bound_first [OF str_tree.hashtree_after_inv(2,3), where k = k and p = "[]" and best = None, of xs]
  by (auto simp: kefir_hashtree_lower_bound_def kefir_hashtree_upper_bound_def
      str_tree.hashtree_after_inv(4) split: option.splits)

text \<open>
  C5. Removing all entries reports each of them to the removal callback exactly once, children
  before their parent, and empties the tree when every report succeeds.
\<close>

theorem hashtree_clean_reports_all:
  assumes "\<forall>k v. f k v = KEFIR_OK"
  shows "\<exists>log. kefir_hashtree_clean (t\<lparr>tree_node_remove := Some f\<rparr>) =
     (KEFIR_OK, log, t\<lparr>tree_node_remove := Some f, tree_root := HNil\<rparr>) \<and>
   mset log = mset (entries (tree_root t))"
  using node_free_all [OF assms, of "tree_root t"]
  by (cases "node_free (Some f) (tree_root t)") (auto simp: kefir_hashtree_clean_def)

theorem hashtree_clean_reports_all_witness:
  "\<exists>log. kefir_hashtree_clean
     (hashtree_after kefir_hashtree_uint_ops [MInsert 2 True, MInsert 1 False]
        \<lparr>tree_node_remove := Some (\<lambda>k v. KEFIR_OK)\<rparr>) =
     (KEFIR_OK, log, hashtree_after kefir_hashtree_uint_ops [MInsert 2 True, MInsert 1 False]
        \<lparr>tree_node_remove := Some (\<lambda>k v. KEFIR_OK), tree_root := HNil\<rparr>) \<and>
   mset log = mset (entries (tree_root
     (hashtree_after kefir_hashtree_uint_ops [MInsert 2 True, MInsert 1 False])))"
  by (rule hashtree_clean_reports_all) simp

text \<open>
  C6. What an insertion does when the node cannot be allocated, in a tree built by any sequence of insertions and
  deletions: the tree is left as it was. A tree that is not empty answers that the key exists when it does, and reports the
  failed allocation otherwise, wherever in the tree the node would have been placed; an empty tree answers with success although
  nothing is inserted.
\<close>

theorem hashtree_insert_alloc_failure:
  "kefir_hashtree_insert False (hashtree_after kefir_hashtree_uint_ops xs) k v =
     (if kefir_hashtree_empty (hashtree_after kefir_hashtree_uint_ops xs) then KEFIR_OK
      else if snd (spec_map_run Map.empty xs) k = None then KEFIR_MEMALLOC_FAILURE
      else KEFIR_ALREADY_EXISTS, hashtree_after kefir_hashtree_uint_ops xs)"
  using uint_tree.insert_refused [OF uint_tree.hashtree_run_spec(2), of xs k v] uint_tree.hashtree_run_spec(1) [of xs] by simp

end
