(* ===== verification/Kefir_Hashtable_Correct.thy ===== *)
theory Kefir_Hashtable_Correct
  imports Kefir_Hashtable Kefir_Hashtree_Correct
begin

text \<open>
  Correctness of the open-addressing table: the odd step makes every probe sequence visit every
  slot, every occupied slot is reachable over non-empty slots from the start of its key's probe
  sequence, and with this the table provides the contract of an associative container, across
  all rehashes that insertions trigger.
\<close>

section \<open>Probe sequences\<close>

lemma wraparound_mod:
  assumes "capacity = 2 ^ n"
  shows "KEFIR_HASHTABLE_WRAPAROUND index capacity = index mod capacity"
proof -
  have "capacity - 1 = mask n" using assms by (simp add: mask_eq_exp_minus_1)
  then show ?thesis
    using assms by (simp add: KEFIR_HASHTABLE_WRAPAROUND_def take_bit_eq_mask [symmetric] take_bit_eq_mod)
qed

text \<open>The same index computed on 64-bit words, where the sum and the product wrap around.\<close>

lemma wraparound_word:
  assumes "n < 64"
  shows "unat (of_nat index AND (of_nat (2 ^ n) - 1) :: 64 word) = KEFIR_HASHTABLE_WRAPAROUND index (2 ^ n)"
proof -
  have "of_nat (2 ^ n) - 1 = (mask n :: 64 word)" by (simp add: mask_eq_exp_minus_1)
  then have "unat (of_nat index AND (of_nat (2 ^ n) - 1) :: 64 word) = take_bit n (take_bit 64 index)"
    by (simp add: take_bit_eq_mask [symmetric] unsigned_take_bit_eq unsigned_of_nat)
  also have "\<dots> = index mod 2 ^ n" using assms by (simp add: take_bit_eq_mod min_def flip: take_bit_eq_mod)
  finally show ?thesis using wraparound_mod [OF refl] by simp
qed

lemma lower_part_odd: "odd (lower_part h)"
proof -
  have "bit (lower_part h) 0"
    unfolding lower_part_def bit_unsigned_iff by (simp add: bit_or_iff)
  then show ?thesis by (simp add: bit_0)
qed

lemma probe_index_mod:
  assumes "capacity = 2 ^ n"
  shows "probe_index h capacity i = (upper_part h + i * lower_part h) mod capacity"
  unfolding probe_index_def wraparound_mod [OF assms] by (simp add: mod_add_left_eq)

lemma probe_index_less: "capacity = 2 ^ n \<Longrightarrow> probe_index h capacity i < capacity"
  by (simp add: probe_index_mod)

lemma probe_index_inj:
  assumes cap: "capacity = 2 ^ n"
  shows "inj_on (probe_index h capacity) {..<capacity}"
proof (rule inj_onI)
  have less: "i = j" if "i \<le> j" "j < capacity" "probe_index h capacity i = probe_index h capacity j" for i j
  proof -
    have "capacity dvd (j - i) * lower_part h"
      using that mod_eq_dvd_iff_nat [of "upper_part h + i * lower_part h" "upper_part h + j * lower_part h" capacity]
      by (simp add: probe_index_mod [OF cap] diff_mult_distrib)
    moreover have "coprime capacity (lower_part h)"
      using cap lower_part_odd [of h] by simp
    ultimately have "capacity dvd j - i" by (simp add: coprime_dvd_mult_left_iff)
    then show "i = j" using that by (auto dest: dvd_imp_le)
  qed
  fix i j assume "i \<in> {..<capacity}" "j \<in> {..<capacity}" "probe_index h capacity i = probe_index h capacity j"
  then show "i = j" using less [of i j] less [of j i] by (cases "i \<le> j") auto
qed

text \<open>Every slot is on every probe sequence.\<close>

lemma probe_index_surj:
  assumes "capacity = 2 ^ n" and "p < capacity"
  obtains i where "i < capacity" "probe_index h capacity i = p"
proof -
  have "probe_index h capacity ` {..<capacity} = {..<capacity}"
    by (rule endo_inj_surj) (use assms probe_index_inj probe_index_less in auto)
  then show thesis using that assms(2) by (metis image_iff lessThan_iff)
qed

section \<open>Entries and the invariant\<close>

fun slot_entries :: "('k, 'v) slot list \<Rightarrow> ('k \<times> 'v) list" where
  "slot_entries [] = []"
| "slot_entries (KEFIR_HASHTABLE_ENTRY_OCCUPIED k v # slots) = (k, v) # slot_entries slots"
| "slot_entries (_ # slots) = slot_entries slots"

lemma slot_entries_append [simp]: "slot_entries (xs @ ys) = slot_entries xs @ slot_entries ys"
  by (induction xs rule: slot_entries.induct) auto

lemma slot_entries_empty [simp]: "slot_entries (replicate n KEFIR_HASHTABLE_ENTRY_EMPTY) = []"
  by (induction n) auto

lemma slot_entries_iff:
  "(k, v) \<in> set (slot_entries slots) \<longleftrightarrow> (\<exists>p<length slots. slots ! p = KEFIR_HASHTABLE_ENTRY_OCCUPIED k v)"
proof -
  have "(k, v) \<in> set (slot_entries slots) \<longleftrightarrow> KEFIR_HASHTABLE_ENTRY_OCCUPIED k v \<in> set slots"
    by (induction slots rule: slot_entries.induct) auto
  then show ?thesis by (auto simp: in_set_conv_nth)
qed

lemma slot_entriesI:
  "p < length slots \<Longrightarrow> slots ! p = KEFIR_HASHTABLE_ENTRY_OCCUPIED k v \<Longrightarrow> (k, v) \<in> set (slot_entries slots)"
  by (auto simp: slot_entries_iff)

lemma slot_entries_length_le: "length (slot_entries slots) \<le> length slots"
  by (induction slots rule: slot_entries.induct) auto

lemma slot_entries_full: "(\<And>p. p < length slots \<Longrightarrow> is_occupied (slots ! p)) \<Longrightarrow>
    length (slot_entries slots) = length slots"
proof (induction slots)
  case (Cons s slots)
  have "length (slot_entries slots) = length slots" using Cons.prems [of "Suc _"] by (intro Cons.IH) auto
  moreover have "is_occupied s" using Cons.prems [of 0] by simp
  ultimately show ?case by (cases s) auto
qed simp

text \<open>The entries around one slot, before and after it is overwritten.\<close>

lemma slot_entries_split:
  assumes "p < length slots"
  shows "slot_entries slots = slot_entries (take p slots) @ slot_entries [slots ! p] @ slot_entries (drop (Suc p) slots)"
    and "slot_entries (slots[p := s]) = slot_entries (take p slots) @ slot_entries [s] @ slot_entries (drop (Suc p) slots)"
proof -
  have "slots = take p slots @ [slots ! p] @ drop (Suc p) slots"
    using assms by (simp add: id_take_nth_drop [symmetric])
  then show "slot_entries slots = slot_entries (take p slots) @ slot_entries [slots ! p] @ slot_entries (drop (Suc p) slots)"
    by (metis slot_entries_append)
  have "slots[p := s] = take p slots @ [s] @ drop (Suc p) slots"
    using assms by (simp add: list_update_split)
  then show "slot_entries (slots[p := s]) = slot_entries (take p slots) @ slot_entries [s] @ slot_entries (drop (Suc p) slots)"
    by (metis slot_entries_append)
qed

lemma slot_entries_not_occupied: "\<not> is_occupied s \<Longrightarrow> slot_entries [s] = []"
  by (cases s) auto

definition reachable_at :: "'k hashtable_ops \<Rightarrow> ('k, 'v) slot list \<Rightarrow> nat \<Rightarrow> 'k \<Rightarrow> nat \<Rightarrow> bool" where
  "reachable_at ops slots capacity k m \<longleftrightarrow>
     (\<forall>j<m. slots ! probe_index (tbl_hash ops k) capacity j \<noteq> KEFIR_HASHTABLE_ENTRY_EMPTY)"

definition probes_ok :: "'k hashtable_ops \<Rightarrow> ('k, 'v) slot list \<Rightarrow> nat \<Rightarrow> bool" where
  "probes_ok ops slots capacity \<longleftrightarrow>
     (\<forall>p<capacity. \<forall>k v. slots ! p = KEFIR_HASHTABLE_ENTRY_OCCUPIED k v \<longrightarrow>
        (\<exists>m<capacity. p = probe_index (tbl_hash ops k) capacity m \<and> reachable_at ops slots capacity k m))"

definition slots_inv :: "'k hashtable_ops \<Rightarrow> nat \<Rightarrow> ('k, 'v) slot list \<times> nat \<Rightarrow> bool" where
  "slots_inv ops capacity = (\<lambda>(slots, occupied).
     (\<exists>n. capacity = 2 ^ n) \<and> length slots = capacity \<and>
     distinct (map fst (slot_entries slots)) \<and> occupied = length (slot_entries slots) \<and>
     probes_ok ops slots capacity)"

definition hashtable_ok :: "'k hashtable_ops \<Rightarrow> ('k, 'v) hashtable \<Rightarrow> bool" where
  "hashtable_ok ops t \<longleftrightarrow>
     tbl_ops t = ops \<and>
     (tbl_capacity t = 0 \<and> tbl_slots t = [] \<and> tbl_occupied t = 0 \<or>
      slots_inv ops (tbl_capacity t) (tbl_slots t, tbl_occupied t)) \<and>
     (case tbl_cleanup t of None \<Rightarrow> True | Some f \<Rightarrow> \<forall>k v. f k v = KEFIR_OK)"

definition hashtable_abs :: "('k, 'v) hashtable \<Rightarrow> 'k \<Rightarrow> 'v option" where
  "hashtable_abs t = map_of (slot_entries (tbl_slots t))"

lemma reachable_at_update:
  assumes "reachable_at ops slots capacity k m" and "s \<noteq> KEFIR_HASHTABLE_ENTRY_EMPTY"
  shows "reachable_at ops (slots[p := s]) capacity k m"
proof (unfold reachable_at_def, intro allI impI)
  fix j assume "j < m"
  then show "slots[p := s] ! probe_index (tbl_hash ops k) capacity j \<noteq> KEFIR_HASHTABLE_ENTRY_EMPTY"
    using assms by (cases "p < length slots"; cases "p = probe_index (tbl_hash ops k) capacity j")
      (auto simp: reachable_at_def list_update_beyond)
qed

text \<open>Overwriting a slot with a deleted mark or with a reachable entry keeps all entries reachable.\<close>

lemma probes_ok_delete:
  assumes ok: "probes_ok ops slots capacity" and len: "length slots = capacity"
  shows "probes_ok ops (slots[p := KEFIR_HASHTABLE_ENTRY_DELETED]) capacity"
proof (unfold probes_ok_def, intro allI impI)
  let ?slots = "slots[p := KEFIR_HASHTABLE_ENTRY_DELETED]"
  fix q k v assume q: "q < capacity" "?slots ! q = KEFIR_HASHTABLE_ENTRY_OCCUPIED k v"
  then have "p \<noteq> q" using len by auto
  then have "\<exists>m<capacity. q = probe_index (tbl_hash ops k) capacity m \<and> reachable_at ops slots capacity k m"
    using q ok by (auto simp: probes_ok_def)
  then show "\<exists>m<capacity. q = probe_index (tbl_hash ops k) capacity m \<and> reachable_at ops ?slots capacity k m"
    using reachable_at_update [of ops slots capacity k _ KEFIR_HASHTABLE_ENTRY_DELETED p] by blast
qed

lemma probes_ok_insert:
  assumes ok: "probes_ok ops slots capacity" and len: "length slots = capacity"
    and m: "m < capacity" "p = probe_index (tbl_hash ops k) capacity m" "reachable_at ops slots capacity k m"
  shows "probes_ok ops (slots[p := KEFIR_HASHTABLE_ENTRY_OCCUPIED k v]) capacity"
proof (unfold probes_ok_def, intro allI impI)
  let ?slots = "slots[p := KEFIR_HASHTABLE_ENTRY_OCCUPIED k v]"
  fix q k' v' assume q: "q < capacity" "?slots ! q = KEFIR_HASHTABLE_ENTRY_OCCUPIED k' v'"
  have "\<exists>m<capacity. q = probe_index (tbl_hash ops k') capacity m \<and> reachable_at ops slots capacity k' m"
    using q ok len m by (cases "p = q") (auto simp: probes_ok_def)
  then show "\<exists>m<capacity. q = probe_index (tbl_hash ops k') capacity m \<and> reachable_at ops ?slots capacity k' m"
    using reachable_at_update [of ops slots capacity k' _ "KEFIR_HASHTABLE_ENTRY_OCCUPIED k v" p] by blast
qed

section \<open>The contract\<close>

text \<open>Key operations whose equality is equality of keys, as for integers and for strings.\<close>

locale hashtable_keys =
  fixes ops :: "'k hashtable_ops"
  assumes equal_iff: "tbl_equal ops a b \<longleftrightarrow> a = b"
begin

lemma has_loop_Some:
  "has_loop ops slots capacity k n i = Some p \<Longrightarrow>
     \<exists>v m. p = probe_index (tbl_hash ops k) capacity m \<and> slots ! p = KEFIR_HASHTABLE_ENTRY_OCCUPIED k v"
  by (induction n arbitrary: i) (auto simp: Let_def equal_iff split: slot.splits if_splits)

lemma has_loop_None:
  "has_loop ops slots capacity k n i = None \<Longrightarrow> i \<le> m \<Longrightarrow> m < i + n \<Longrightarrow>
     reachable_at ops slots capacity k m \<Longrightarrow>
     slots ! probe_index (tbl_hash ops k) capacity m \<noteq> KEFIR_HASHTABLE_ENTRY_OCCUPIED k v"
proof (induction n arbitrary: i)
  case (Suc n)
  show ?case
  proof (cases "i = m")
    case True
    then show ?thesis using Suc.prems(1) by (auto simp: Let_def split: slot.splits if_splits)
  next
    case False
    then have "slots ! probe_index (tbl_hash ops k) capacity i \<noteq> KEFIR_HASHTABLE_ENTRY_EMPTY"
      using Suc.prems by (auto simp: reachable_at_def)
    then have "has_loop ops slots capacity k n (i + 1) = None"
      using Suc.prems(1) by (auto simp: Let_def split: slot.splits if_splits)
    then show ?thesis by (rule Suc.IH) (use Suc.prems False in auto)
  qed
qed simp

text \<open>
  What the search for an insertion position finds: the key itself, or else a free slot (the first
  deleted one met, or the empty one at the end) and then the key is on no reachable probe.
\<close>

definition free_probe :: "('k, 'v) slot list \<Rightarrow> nat \<Rightarrow> 'k \<Rightarrow> nat \<Rightarrow> bool" where
  "free_probe slots capacity k p \<longleftrightarrow>
     (\<exists>m<capacity. p = probe_index (tbl_hash ops k) capacity m \<and> reachable_at ops slots capacity k m) \<and>
     \<not> is_occupied (slots ! p)"

definition holds_key :: "('k, 'v) slot list \<Rightarrow> nat \<Rightarrow> 'k \<Rightarrow> nat \<Rightarrow> bool" where
  "holds_key slots capacity k p \<longleftrightarrow>
     (\<exists>m<capacity. p = probe_index (tbl_hash ops k) capacity m) \<and>
     (\<exists>v. slots ! p = KEFIR_HASHTABLE_ENTRY_OCCUPIED k v)"

definition absent_from :: "('k, 'v) slot list \<Rightarrow> nat \<Rightarrow> 'k \<Rightarrow> nat \<Rightarrow> bool" where
  "absent_from slots capacity k i \<longleftrightarrow>
     (\<forall>m. i \<le> m \<longrightarrow> m < capacity \<longrightarrow> reachable_at ops slots capacity k m \<longrightarrow>
        \<not> holds_key slots capacity k (probe_index (tbl_hash ops k) capacity m))"

lemma absent_from_step:
  assumes "absent_from slots capacity k (Suc i)"
    and "\<not> holds_key slots capacity k (probe_index (tbl_hash ops k) capacity i)"
  shows "absent_from slots capacity k i"
  using assms unfolding absent_from_def by (metis Suc_leI le_neq_implies_less)

lemma absent_from_empty:
  assumes "slots ! probe_index (tbl_hash ops k) capacity i = KEFIR_HASHTABLE_ENTRY_EMPTY"
  shows "absent_from slots capacity k i"
  using assms unfolding absent_from_def holds_key_def reachable_at_def
  by (metis le_neq_implies_less slot.distinct(1))

lemma reachable_at_Suc:
  "reachable_at ops slots capacity k i \<Longrightarrow>
     slots ! probe_index (tbl_hash ops k) capacity i \<noteq> KEFIR_HASHTABLE_ENTRY_EMPTY \<Longrightarrow>
     reachable_at ops slots capacity k (Suc i)"
  by (auto simp: reachable_at_def less_Suc_eq)

lemma find_loop_Inr:
  "find_position_loop ops slots capacity k n i deleted c = Inr (p, c') \<Longrightarrow> i + n = capacity \<Longrightarrow>
     (\<forall>d. deleted = Some d \<longrightarrow> free_probe slots capacity k d) \<Longrightarrow> reachable_at ops slots capacity k i \<Longrightarrow>
     holds_key slots capacity k p \<or> free_probe slots capacity k p \<and> absent_from slots capacity k i"
proof (induction n arbitrary: i deleted c)
  case 0
  then show ?case by (auto simp: absent_from_def split: option.splits)
next
  case (Suc n)
  let ?p = "probe_index (tbl_hash ops k) capacity i"
  have here: "free_probe slots capacity k ?p" if "\<not> is_occupied (slots ! ?p)"
    unfolding free_probe_def using that Suc.prems(2,4) by (intro conjI exI [of _ i]) auto
  have next_n: "holds_key slots capacity k p \<or> free_probe slots capacity k p \<and> absent_from slots capacity k i"
    if "find_position_loop ops slots capacity k n (Suc i) d c2 = Inr (p, c')"
      "\<forall>x. d = Some x \<longrightarrow> free_probe slots capacity k x"
      "slots ! ?p \<noteq> KEFIR_HASHTABLE_ENTRY_EMPTY" "\<not> holds_key slots capacity k ?p" for d c2
    using Suc.IH [OF that(1) _ that(2) reachable_at_Suc [OF Suc.prems(4) that(3)]] Suc.prems(2)
      absent_from_step [OF _ that(4)] by auto
  show ?case
  proof (cases "slots ! ?p")
    case KEFIR_HASHTABLE_ENTRY_EMPTY
    then have "free_probe slots capacity k p"
      using Suc.prems(1,3) here by (auto simp: Let_def split: option.splits)
    then show ?thesis using absent_from_empty [OF KEFIR_HASHTABLE_ENTRY_EMPTY] by blast
  next
    case occ: (KEFIR_HASHTABLE_ENTRY_OCCUPIED k' v')
    show ?thesis
    proof (cases "k' = k")
      case True
      then have "p = ?p" "i < capacity" using Suc.prems(1,2) occ by (auto simp: Let_def)
      then show ?thesis using occ True by (auto simp: holds_key_def)
    next
      case False
      then show ?thesis using occ Suc.prems(1,3)
        by (intro next_n [of deleted "c + 1"]) (auto simp: Let_def equal_iff holds_key_def)
    qed
  next
    case KEFIR_HASHTABLE_ENTRY_DELETED
    then show ?thesis using Suc.prems(1,3) here
      by (intro next_n [of "if deleted = None then Some ?p else deleted" "c + 1"])
        (auto simp: Let_def holds_key_def)
  qed
qed

lemma find_loop_deleted: "find_position_loop ops slots capacity k n i (Some d) c \<noteq> Inl e"
  by (induction n arbitrary: i c) (auto simp: Let_def split: slot.splits)

lemma find_loop_Inl:
  "find_position_loop ops slots capacity k n i None c = Inl e \<Longrightarrow> i \<le> m \<Longrightarrow> m < i + n \<Longrightarrow>
     \<exists>k' v. slots ! probe_index (tbl_hash ops k) capacity m = KEFIR_HASHTABLE_ENTRY_OCCUPIED k' v \<and> k' \<noteq> k"
proof (induction n arbitrary: i c)
  case (Suc n)
  let ?p = "probe_index (tbl_hash ops k) capacity i"
  from Suc.prems(1) have occ: "\<exists>k' v. slots ! ?p = KEFIR_HASHTABLE_ENTRY_OCCUPIED k' v \<and> k' \<noteq> k"
    and rest: "find_position_loop ops slots capacity k n (Suc i) None (c + 1) = Inl e"
    by (auto simp: Let_def find_loop_deleted split: slot.splits if_splits)
  show ?case
    using occ Suc.IH [OF rest] Suc.prems(2,3) by (cases "m = i") auto
qed simp

text \<open>Both outcomes under the invariant: the key's slot, or a free reachable slot.\<close>

lemma find_position_Inr:
  assumes "find_position_for_insert ops slots capacity k = Inr (p, c)" and "capacity = 2 ^ n"
  shows "holds_key slots capacity k p \<or> free_probe slots capacity k p \<and> absent_from slots capacity k 0"
proof -
  let ?p = "KEFIR_HASHTABLE_WRAPAROUND (upper_part (tbl_hash ops k)) capacity"
  have first: "?p = probe_index (tbl_hash ops k) capacity 0"
    by (simp add: probe_index_def wraparound_mod [OF assms(2)])
  have pos: "0 < capacity" using assms(2) by simp
  have r0: "reachable_at ops slots capacity k 0" by (simp add: reachable_at_def)
  have loop: ?thesis if "find_position_loop ops slots capacity k capacity 0 None 0 = Inr (p, c)"
    using find_loop_Inr [OF that _ _ r0] by simp
  show ?thesis
  proof (cases "slots ! ?p")
    case KEFIR_HASHTABLE_ENTRY_EMPTY
    then have "p = ?p" using assms(1) by (simp add: find_position_for_insert_def Let_def)
    then show ?thesis using KEFIR_HASHTABLE_ENTRY_EMPTY first pos r0 absent_from_empty [of slots k capacity 0]
      by (auto simp: free_probe_def)
  next
    case (KEFIR_HASHTABLE_ENTRY_OCCUPIED k' v')
    then show ?thesis using assms(1) first pos loop
      by (auto simp: find_position_for_insert_def Let_def equal_iff holds_key_def split: if_splits)
  next
    case KEFIR_HASHTABLE_ENTRY_DELETED
    then show ?thesis using assms(1) loop by (simp add: find_position_for_insert_def Let_def)
  qed
qed

lemma find_position_Inl:
  assumes "find_position_for_insert ops slots capacity k = Inl e" and "capacity = 2 ^ n"
    and "p < capacity"
  shows "\<exists>k' v. slots ! p = KEFIR_HASHTABLE_ENTRY_OCCUPIED k' v \<and> k' \<noteq> k"
proof -
  have "find_position_loop ops slots capacity k capacity 0 None 0 = Inl e"
    using assms(1) by (auto simp: find_position_for_insert_def Let_def split: slot.splits if_splits)
  moreover obtain i where "i < capacity" "probe_index (tbl_hash ops k) capacity i = p"
    using probe_index_surj [OF assms(2,3)] by blast
  ultimately show ?thesis using find_loop_Inl by fastforce
qed

lemma absent_from_0:
  assumes "slots_inv ops capacity (slots, occupied)"
  shows "absent_from slots capacity k 0 \<longleftrightarrow> k \<notin> fst ` set (slot_entries slots)"
proof -
  obtain n where n: "capacity = 2 ^ n" using assms by (auto simp: slots_inv_def)
  have len: "length slots = capacity" and ok: "probes_ok ops slots capacity"
    using assms by (auto simp: slots_inv_def)
  show ?thesis
  proof
    assume "absent_from slots capacity k 0"
    then have "slots ! p \<noteq> KEFIR_HASHTABLE_ENTRY_OCCUPIED k v" if "p < capacity" for p v
      using that ok unfolding probes_ok_def absent_from_def holds_key_def by blast
    then show "k \<notin> fst ` set (slot_entries slots)" using len by (auto simp: slot_entries_iff)
  next
    assume "k \<notin> fst ` set (slot_entries slots)"
    then have "slots ! p \<noteq> KEFIR_HASHTABLE_ENTRY_OCCUPIED k v" if "p < capacity" for p v
      using that len slot_entries_iff [of k v slots] by (metis fst_conv image_eqI)
    then show "absent_from slots capacity k 0"
      using probe_index_less [OF n] by (auto simp: absent_from_def holds_key_def)
  qed
qed

lemma find_position_present:
  assumes inv: "slots_inv ops capacity (slots, occupied)" and k: "k \<in> fst ` set (slot_entries slots)"
  obtains p c where "find_position_for_insert ops slots capacity k = Inr (p, c)" "is_occupied (slots ! p)"
proof -
  obtain n where n: "capacity = 2 ^ n" using inv by (auto simp: slots_inv_def)
  obtain q w where q: "q < capacity" "slots ! q = KEFIR_HASHTABLE_ENTRY_OCCUPIED k w"
    using k inv by (auto simp: slot_entries_iff slots_inv_def)
  obtain p c where pc: "find_position_for_insert ops slots capacity k = Inr (p, c)"
    using find_position_Inl [OF _ n q(1), of slots k] q(2)
    by (cases "find_position_for_insert ops slots capacity k") auto
  show thesis
    using that [OF pc] find_position_Inr [OF pc n] absent_from_0 [OF inv, of k] k
    by (auto simp: holds_key_def)
qed

lemma find_position_absent:
  assumes inv: "slots_inv ops capacity (slots, occupied)" and k: "k \<notin> fst ` set (slot_entries slots)"
    and room: "occupied < capacity"
  obtains p c where "find_position_for_insert ops slots capacity k = Inr (p, c)" "p < capacity"
    "free_probe slots capacity k p"
proof -
  obtain n where n: "capacity = 2 ^ n" using inv by (auto simp: slots_inv_def)
  have len: "length slots = capacity" using inv by (auto simp: slots_inv_def)
  have "\<exists>p<length slots. \<not> is_occupied (slots ! p)"
    using slot_entries_full [of slots] room inv by (auto simp: slots_inv_def)
  then obtain p c where pc: "find_position_for_insert ops slots capacity k = Inr (p, c)"
    using find_position_Inl [OF _ n] len by (cases "find_position_for_insert ops slots capacity k") fastforce+
  have "\<not> holds_key slots capacity k p"
    using k len slot_entries_iff [of k _ slots] probe_index_less [OF n] unfolding holds_key_def
    by (metis fst_conv image_eqI)
  then have "free_probe slots capacity k p" using find_position_Inr [OF pc n] by simp
  then show thesis using that [OF pc] probe_index_less [OF n] by (auto simp: free_probe_def)
qed

lemma insert_no_rehash_present:
  assumes "slots_inv ops capacity (slots, occupied)" and "k \<in> fst ` set (slot_entries slots)"
  shows "insert_entry_no_rehash ops capacity k v (slots, occupied) = Inl KEFIR_ALREADY_EXISTS"
  by (rule find_position_present [OF assms]) (simp add: insert_entry_no_rehash_def)

lemma insert_no_rehash_absent:
  assumes inv: "slots_inv ops capacity (slots, occupied)" and k: "k \<notin> fst ` set (slot_entries slots)"
    and room: "occupied < capacity"
  obtains slots' where "insert_entry_no_rehash ops capacity k v (slots, occupied) = Inr (slots', occupied + 1)"
    "slots_inv ops capacity (slots', occupied + 1)"
    "map_of (slot_entries slots') = (map_of (slot_entries slots))(k \<mapsto> v)"
    "fst ` set (slot_entries slots') = insert k (fst ` set (slot_entries slots))"
proof -
  obtain p c where p: "find_position_for_insert ops slots capacity k = Inr (p, c)" "p < capacity"
      "free_probe slots capacity k p"
    using find_position_absent [OF assms] .
  let ?slots = "slots[p := KEFIR_HASHTABLE_ENTRY_OCCUPIED k v]"
  have free: "\<not> is_occupied (slots ! p)" using p(3) by (simp add: free_probe_def)
  have len: "p < length slots" using p(2) inv by (simp add: slots_inv_def)
  obtain m where m: "m < capacity" "p = probe_index (tbl_hash ops k) capacity m" "reachable_at ops slots capacity k m"
    using p(3) by (auto simp: free_probe_def)
  let ?xs = "slot_entries (take p slots)" and ?ys = "slot_entries (drop (Suc p) slots)"
  have old: "slot_entries slots = ?xs @ ?ys"
    using slot_entries_split(1) [OF len] slot_entries_not_occupied [OF free] by simp
  have new: "slot_entries ?slots = ?xs @ (k, v) # ?ys"
    using slot_entries_split(2) [OF len] by simp
  have "insert_entry_no_rehash ops capacity k v (slots, occupied) = Inr (?slots, occupied + 1)"
    using p(1) free by (simp add: insert_entry_no_rehash_def)
  moreover have "slots_inv ops capacity (?slots, occupied + 1)"
    using inv k probes_ok_insert [OF _ _ m] by (auto simp: slots_inv_def new old)
  moreover have "map_of (slot_entries ?slots) = (map_of (slot_entries slots))(k \<mapsto> v)"
    unfolding new old by (rule map_of_append_mid) (use k old in auto)
  moreover have "fst ` set (slot_entries ?slots) = insert k (fst ` set (slot_entries slots))"
    unfolding new old by auto
  ultimately show thesis by (rule that)
qed

text \<open>Rehashing moves every entry and fails only when there are more entries than slots.\<close>

lemma rehash_loop_correct:
  assumes "slots_inv ops capacity (acc, occupied)"
    and "distinct (map fst (slot_entries slots))"
    and "fst ` set (slot_entries slots) \<inter> fst ` set (slot_entries acc) = {}"
    and "occupied + length (slot_entries slots) \<le> capacity"
  shows "\<exists>slots'. rehash_loop ops capacity slots (acc, occupied) = Inr (slots', occupied + length (slot_entries slots)) \<and>
     slots_inv ops capacity (slots', occupied + length (slot_entries slots)) \<and>
     map_of (slot_entries slots') = map_of (slot_entries acc) ++ map_of (slot_entries slots)"
  using assms
proof (induction slots arbitrary: acc occupied rule: slot_entries.induct)
  case (2 k v slots)
  have "k \<notin> fst ` set (slot_entries acc)" "occupied < capacity" using 2 by auto
  then obtain acc' where acc': "insert_entry_no_rehash ops capacity k v (acc, occupied) = Inr (acc', occupied + 1)"
      "slots_inv ops capacity (acc', occupied + 1)"
      "map_of (slot_entries acc') = (map_of (slot_entries acc))(k \<mapsto> v)"
      "fst ` set (slot_entries acc') = insert k (fst ` set (slot_entries acc))"
    using insert_no_rehash_absent [OF "2.prems"(1)] by metis
  have "fst ` set (slot_entries slots) \<inter> fst ` set (slot_entries acc') = {}"
    unfolding acc'(4) using "2.prems"(2,3) by auto
  from "2.IH" [OF acc'(2) _ this] "2.prems"(2,4) obtain slots' where
    IH: "rehash_loop ops capacity slots (acc', occupied + 1) = Inr (slots', occupied + 1 + length (slot_entries slots))"
      "slots_inv ops capacity (slots', occupied + 1 + length (slot_entries slots))"
      "map_of (slot_entries slots') = map_of (slot_entries acc') ++ map_of (slot_entries slots)"
    by auto
  have "map_of (slot_entries slots) k = None" using "2.prems"(2) by (simp add: map_of_eq_None_iff)
  then have moved: "map_of (slot_entries slots') =
      map_of (slot_entries acc) ++ map_of (slot_entries (KEFIR_HASHTABLE_ENTRY_OCCUPIED k v # slots))"
    unfolding IH(3) acc'(3) by (auto simp: fun_eq_iff map_add_def split: option.splits)
  show ?case
    by (intro exI [of _ slots'] conjI) (use acc'(1) IH(1,2) in simp, use IH(2) in simp, rule moved)
qed auto

lemma slots_inv_empty: "capacity = 2 ^ n \<Longrightarrow>
    slots_inv ops capacity (replicate capacity KEFIR_HASHTABLE_ENTRY_EMPTY, 0)"
  by (auto simp: slots_inv_def probes_ok_def)

lemma hashtable_distinct: "hashtable_ok ops t \<Longrightarrow> distinct (map fst (slot_entries (tbl_slots t)))"
  by (auto simp: hashtable_ok_def slots_inv_def)

lemma hashtable_occupied: "hashtable_ok ops t \<Longrightarrow> tbl_occupied t = length (slot_entries (tbl_slots t))"
  by (auto simp: hashtable_ok_def slots_inv_def)

lemma hashtable_capacity: "hashtable_ok ops t \<Longrightarrow> tbl_capacity t = length (tbl_slots t)"
  by (auto simp: hashtable_ok_def slots_inv_def)

lemma hashtable_slots: "hashtable_ok ops t \<Longrightarrow> tbl_capacity t \<noteq> 0 \<Longrightarrow>
    slots_inv ops (tbl_capacity t) (tbl_slots t, tbl_occupied t)"
  by (auto simp: hashtable_ok_def)

lemma rehash_ok:
  assumes ok: "hashtable_ok ops t" and cap: "capacity = 2 ^ n" "tbl_occupied t \<le> capacity"
    and mem: "mem capacity" "mem (16 * capacity)"
  obtains t' where "rehash mem t capacity = Inr t'" "hashtable_ok ops t'" "hashtable_abs t' = hashtable_abs t"
    "tbl_capacity t' = capacity" "tbl_occupied t' = tbl_occupied t"
proof -
  obtain slots' where slots': "rehash_loop ops capacity (tbl_slots t)
         (replicate capacity KEFIR_HASHTABLE_ENTRY_EMPTY, 0) = Inr (slots', tbl_occupied t)"
      "slots_inv ops capacity (slots', tbl_occupied t)"
      "map_of (slot_entries slots') = map_of (slot_entries (tbl_slots t))"
    using rehash_loop_correct [OF slots_inv_empty [OF cap(1)], of "tbl_slots t"]
      hashtable_distinct [OF ok] hashtable_occupied [OF ok] cap(2) by auto
  show thesis
    using that slots' ok mem by (auto simp: rehash_def hashtable_ok_def hashtable_abs_def)
qed

lemma grow_power:
  assumes "hashtable_ok ops t"
  obtains n where "KEFIR_HASHTABLE_CAPACITY_GROW (tbl_capacity t) = 2 ^ n"
    "tbl_occupied t < KEFIR_HASHTABLE_CAPACITY_GROW (tbl_capacity t)"
proof (cases "tbl_capacity t = 0")
  case True
  then have "KEFIR_HASHTABLE_CAPACITY_GROW (tbl_capacity t) = 2 ^ 2" "tbl_occupied t = 0"
    using hashtable_capacity [OF assms] hashtable_occupied [OF assms] by (auto simp: KEFIR_HASHTABLE_CAPACITY_GROW_def)
  then show thesis using that [of 2] by simp
next
  case False
  then obtain n where n: "tbl_capacity t = 2 ^ n" using assms by (auto simp: hashtable_ok_def slots_inv_def)
  have "tbl_occupied t \<le> tbl_capacity t"
    using slot_entries_length_le [of "tbl_slots t"] hashtable_capacity [OF assms] hashtable_occupied [OF assms] by simp
  then show thesis using that [of "Suc n"] n False by (simp add: KEFIR_HASHTABLE_CAPACITY_GROW_def)
qed

text \<open>
  What an insertion into a table must yield. Placing an entry into a table with room for it,
  without and with the collision rehash, yields it.
\<close>

definition inserted :: "('k, 'v) hashtable \<Rightarrow> 'k \<Rightarrow> 'v \<Rightarrow> kefir_result \<times> ('k, 'v) hashtable \<Rightarrow> bool" where
  "inserted t k v r \<longleftrightarrow> hashtable_ok ops (snd r) \<and>
     (if hashtable_abs t k = None
      then fst r = KEFIR_OK \<and> hashtable_abs (snd r) = (hashtable_abs t)(k \<mapsto> v)
      else fst r = KEFIR_ALREADY_EXISTS \<and> hashtable_abs (snd r) = hashtable_abs t)"

lemma place_entry_ok:
  assumes s: "hashtable_ok ops s" "tbl_occupied s < tbl_capacity s"
  shows "inserted s k v (place_entry s k v)"
proof (cases "k \<in> fst ` set (slot_entries (tbl_slots s))")
  case True
  then have "hashtable_abs s k \<noteq> None" by (simp add: hashtable_abs_def map_of_eq_None_iff)
  then show ?thesis
    using insert_no_rehash_present [OF hashtable_slots [OF s(1)] True, of v] s
    by (simp add: place_entry_def hashtable_ok_def inserted_def)
next
  case False
  then have "hashtable_abs s k = None" by (simp add: hashtable_abs_def map_of_eq_None_iff)
  moreover obtain slots' where
    "insert_entry_no_rehash ops (tbl_capacity s) k v (tbl_slots s, tbl_occupied s) = Inr (slots', tbl_occupied s + 1)"
    "slots_inv ops (tbl_capacity s) (slots', tbl_occupied s + 1)"
    "map_of (slot_entries slots') = (map_of (slot_entries (tbl_slots s)))(k \<mapsto> v)"
    using insert_no_rehash_absent [OF hashtable_slots [OF s(1)] False s(2)] s(2) by (metis not_less_zero)
  ultimately show ?thesis
    using s by (simp add: place_entry_def hashtable_ok_def hashtable_abs_def inserted_def)
qed

lemma inserted_moved: "hashtable_abs t' = hashtable_abs t \<Longrightarrow> inserted t' k v r \<Longrightarrow> inserted t k v r"
  by (simp add: inserted_def)

text \<open>
  Any allocator: an insertion never fails for want of a slot, and a refused allocation leaves the
  table as it was.
\<close>

lemma rehash_cases:
  assumes ok: "hashtable_ok ops t" and cap: "capacity = 2 ^ n" "tbl_occupied t \<le> capacity"
  obtains (refused) n where "rehash mem t capacity = Inl KEFIR_MEMALLOC_FAILURE" "\<not> mem n"
    | (moved) t' where "rehash mem t capacity = Inr t'" "hashtable_ok ops t'"
        "hashtable_abs t' = hashtable_abs t" "tbl_capacity t' = capacity" "tbl_occupied t' = tbl_occupied t"
proof (cases "mem capacity \<and> mem (16 * capacity)")
  case True
  then show thesis using rehash_ok [OF ok cap, of mem] moved by blast
next
  case False
  then have "rehash mem t capacity = Inl KEFIR_MEMALLOC_FAILURE" by (auto simp: rehash_def requireE_def)
  then show thesis using False refused by blast
qed

lemma grow_cases:
  assumes ok: "hashtable_ok ops t"
  obtains (refused) n where "rehash mem t (KEFIR_HASHTABLE_CAPACITY_GROW (tbl_capacity t)) = Inl KEFIR_MEMALLOC_FAILURE"
        "\<not> mem n"
    | (moved) t' where "rehash mem t (KEFIR_HASHTABLE_CAPACITY_GROW (tbl_capacity t)) = Inr t'"
        "hashtable_ok ops t'" "tbl_occupied t' < tbl_capacity t'" "hashtable_abs t' = hashtable_abs t"
proof -
  obtain n where n: "KEFIR_HASHTABLE_CAPACITY_GROW (tbl_capacity t) = 2 ^ n"
    "tbl_occupied t < KEFIR_HASHTABLE_CAPACITY_GROW (tbl_capacity t)" using grow_power [OF ok] .
  show thesis
    by (rule rehash_cases [OF ok n(1) less_imp_le [OF n(2)], of mem]) (use n(2) refused moved in auto)
qed

lemma insert_entry_any_mem:
  assumes ok: "hashtable_ok ops t" and room: "tbl_occupied t < tbl_capacity t"
  shows "inserted t k v (insert_entry mem t k v re) \<or> 
      insert_entry mem t k v re = (KEFIR_MEMALLOC_FAILURE, t) \<and> re \<and> (\<exists>n. \<not> mem n)"
proof -
  have ops: "tbl_ops t = ops" using ok by (simp add: hashtable_ok_def)
  have inv: "slots_inv ops (tbl_capacity t) (tbl_slots t, tbl_occupied t)"
    using hashtable_slots [OF ok] room by auto
  obtain p c where pc: "find_position_for_insert ops (tbl_slots t) (tbl_capacity t) k = Inr (p, c)"
    using find_position_present [OF inv, of k] find_position_absent [OF inv _ room, of k] by metis
  show ?thesis
  proof (rule grow_cases [OF ok, of mem])
    fix n assume "rehash mem t (KEFIR_HASHTABLE_CAPACITY_GROW (tbl_capacity t)) = Inl KEFIR_MEMALLOC_FAILURE"
      "\<not> mem n"
    then show ?thesis using pc ops place_entry_ok [OF ok room, of k v] by (auto simp: insert_entry_def)
  next
    fix t' assume moved: "rehash mem t (KEFIR_HASHTABLE_CAPACITY_GROW (tbl_capacity t)) = Inr t'"
        "hashtable_ok ops t'" "tbl_occupied t' < tbl_capacity t'" "hashtable_abs t' = hashtable_abs t"
    show ?thesis
      using moved(1) pc ops place_entry_ok [OF ok room, of k v] inserted_moved [OF moved(4) place_entry_ok [OF moved(2,3)], of k v]
      by (simp add: insert_entry_def)
  qed
qed

lemma insert_any_mem:
  assumes ok: "hashtable_ok ops t"
  shows "inserted t k v (kefir_hashtable_insert mem t k v) \<or>
         kefir_hashtable_insert mem t k v = (KEFIR_MEMALLOC_FAILURE, t) \<and> (\<exists>n. \<not> mem n)"
proof (cases "tbl_capacity t = 0 \<or> tbl_occupied t \<ge> 80 * tbl_capacity t div 100")
  case full: True
  show ?thesis
  proof (rule grow_cases [OF ok, of mem])
    fix n assume "rehash mem t (KEFIR_HASHTABLE_CAPACITY_GROW (tbl_capacity t)) = Inl KEFIR_MEMALLOC_FAILURE"
      "\<not> mem n"
    then show ?thesis using full
      by (auto simp: kefir_hashtable_insert_def KEFIR_REHASH_OCCUPATION_THRESHOLD_PCT_def)
  next
    fix t' assume moved: "rehash mem t (KEFIR_HASHTABLE_CAPACITY_GROW (tbl_capacity t)) = Inr t'"
        "hashtable_ok ops t'" "tbl_occupied t' < tbl_capacity t'" "hashtable_abs t' = hashtable_abs t"
    have "inserted t' k v (insert_entry mem t' k v False)"
      using insert_entry_any_mem [OF moved(2,3), of k v mem False] by simp
    then show ?thesis using full moved(1) inserted_moved [OF moved(4)]
      by (simp add: kefir_hashtable_insert_def KEFIR_REHASH_OCCUPATION_THRESHOLD_PCT_def)
  qed
next
  case False
  then have "tbl_occupied t < tbl_capacity t" by linarith
  from insert_entry_any_mem [OF ok this, of k v mem True] show ?thesis using False
    by (simp add: kefir_hashtable_insert_def KEFIR_REHASH_OCCUPATION_THRESHOLD_PCT_def)
qed

lemma insert_ok:
  assumes "hashtable_ok ops t" and "\<And>n. mem n"
  shows "inserted t k v (kefir_hashtable_insert mem t k v)"
  using insert_any_mem [OF assms(1), of k v mem] assms(2) by simp

section \<open>Lookup and deletion\<close>

lemma probe_in_range:
  assumes "slots_inv ops capacity (slots, occupied)"
  shows "probe_index h capacity j < length slots"
proof -
  obtain n where "capacity = 2 ^ n" using assms by (auto simp: slots_inv_def)
  moreover have "length slots = capacity" using assms by (simp add: slots_inv_def)
  ultimately show ?thesis using probe_index_less by metis
qed

lemma HAS_Some:
  assumes ok: "hashtable_ok ops t" and k: "hashtable_abs t k = Some v"
  obtains p where "KEFIR_HASHTABLE_HAS t k = Some p" "p < length (tbl_slots t)"
    "tbl_slots t ! p = KEFIR_HASHTABLE_ENTRY_OCCUPIED k v"
proof -
  let ?slots = "tbl_slots t" and ?cap = "tbl_capacity t"
  have "(k, v) \<in> set (slot_entries ?slots)" using k by (auto simp: hashtable_abs_def dest: map_of_SomeD)
  then obtain q where q: "q < length ?slots" "?slots ! q = KEFIR_HASHTABLE_ENTRY_OCCUPIED k v"
    by (auto simp: slot_entries_iff)
  have ne: "slot_entries ?slots \<noteq> []" using \<open>(k, v) \<in> set (slot_entries ?slots)\<close> by auto
  have inv: "slots_inv ops ?cap (?slots, tbl_occupied t)" "tbl_ops t = ops" "0 < tbl_occupied t"
    using ok ne by (auto simp: hashtable_ok_def slots_inv_def)
  obtain m where m: "m < ?cap" "q = probe_index (tbl_hash ops k) ?cap m" "reachable_at ops ?slots ?cap k m"
    using inv(1) q unfolding slots_inv_def probes_ok_def by auto
  have "has_loop ops ?slots ?cap k ?cap 0 \<noteq> None"
    using has_loop_None [of ?slots ?cap k ?cap 0 m v] m q by auto
  then obtain p where p: "has_loop ops ?slots ?cap k ?cap 0 = Some p" by auto
  obtain w j where w: "?slots ! p = KEFIR_HASHTABLE_ENTRY_OCCUPIED k w" "p = probe_index (tbl_hash ops k) ?cap j"
    using has_loop_Some [OF p] by blast
  have len: "p < length ?slots" unfolding w(2) by (rule probe_in_range [OF inv(1)])
  have "(k, w) \<in> set (slot_entries ?slots)" by (rule slot_entriesI [OF len w(1)])
  then have "hashtable_abs t k = Some w" using hashtable_distinct [OF ok] by (simp add: hashtable_abs_def)
  then show thesis using that p w len k inv by (simp add: KEFIR_HASHTABLE_HAS_def)
qed

lemma HAS_None:
  assumes ok: "hashtable_ok ops t" and k: "hashtable_abs t k = None"
  shows "KEFIR_HASHTABLE_HAS t k = None"
proof (rule ccontr)
  let ?slots = "tbl_slots t" and ?cap = "tbl_capacity t"
  assume "KEFIR_HASHTABLE_HAS t k \<noteq> None"
  then obtain p where p: "has_loop (tbl_ops t) ?slots ?cap k ?cap 0 = Some p" "0 < tbl_occupied t"
    by (auto simp: KEFIR_HASHTABLE_HAS_def split: if_splits)
  have ops: "tbl_ops t = ops" using ok by (simp add: hashtable_ok_def)
  have inv: "slots_inv ops ?cap (?slots, tbl_occupied t)"
    using ok p(2) by (auto simp: hashtable_ok_def)
  obtain w j where w: "?slots ! p = KEFIR_HASHTABLE_ENTRY_OCCUPIED k w" "p = probe_index (tbl_hash ops k) ?cap j"
    using has_loop_Some [OF p(1) [unfolded ops]] by blast
  have "p < length ?slots" unfolding w(2) by (rule probe_in_range [OF inv])
  then have "(k, w) \<in> set (slot_entries ?slots)" by (rule slot_entriesI [OF _ w(1)])
  then show False using k by (force simp: hashtable_abs_def map_of_eq_None_iff)
qed

lemma delete_present:
  assumes ok: "hashtable_ok ops t" and k: "hashtable_abs t k = Some v"
  shows "\<exists>t'. kefir_hashtable_delete t k = (KEFIR_OK, t') \<and> hashtable_ok ops t' \<and>
           hashtable_abs t' = (hashtable_abs t)(k := None)"
proof -
  let ?slots = "tbl_slots t"
  obtain p where p: "KEFIR_HASHTABLE_HAS t k = Some p" "p < length ?slots"
    "?slots ! p = KEFIR_HASHTABLE_ENTRY_OCCUPIED k v" using HAS_Some [OF ok k] .
  let ?new = "?slots[p := KEFIR_HASHTABLE_ENTRY_DELETED]"
  let ?xs = "slot_entries (take p ?slots)" and ?ys = "slot_entries (drop (Suc p) ?slots)"
  have old: "slot_entries ?slots = ?xs @ (k, v) # ?ys" and new: "slot_entries ?new = ?xs @ ?ys"
    using slot_entries_split [OF p(2)] p(3) by auto
  have inv: "slots_inv ops (tbl_capacity t) (?slots, tbl_occupied t)"
    using ok p(2) by (auto simp: hashtable_ok_def)
  have "slots_inv ops (tbl_capacity t) (?new, tbl_occupied t - 1)"
    using inv probes_ok_delete [of ops ?slots "tbl_capacity t" p] by (auto simp: slots_inv_def new old)
  moreover have "map_of (slot_entries ?new) = (map_of (slot_entries ?slots))(k := None)"
    using hashtable_distinct [OF ok] unfolding new old by (rule map_of_remove_mid)
  ultimately show ?thesis
    using ok p by (auto simp: kefir_hashtable_delete_def hashtable_ok_def hashtable_abs_def Let_def split: option.splits)
qed

end

sublocale hashtable_keys \<subseteq> map: kefir_map "hashtable_ok ops" hashtable_abs kefir_hashtable_at
  "kefir_hashtable_insert (\<lambda>_. True)" kefir_hashtable_delete
proof unfold_locales
  fix t :: "('k, 'v) hashtable" and k v w
  assume ok: "hashtable_ok ops t"
  show "kefir_hashtable_at t k = Inr v" if "hashtable_abs t k = Some v"
    by (rule HAS_Some [OF ok that]) (simp add: kefir_hashtable_at_def slot_entry_def)
  show "kefir_hashtable_at t k = Inl KEFIR_NOT_FOUND" if "hashtable_abs t k = None"
    using HAS_None [OF ok that] by (simp add: kefir_hashtable_at_def)
  show "\<exists>t'. kefir_hashtable_insert (\<lambda>_. True) t k v = (KEFIR_OK, t') \<and> hashtable_ok ops t' \<and>
      hashtable_abs t' = (hashtable_abs t)(k \<mapsto> v)" if "hashtable_abs t k = None"
    using insert_ok [OF ok, of "\<lambda>_. True" k v] that
    by (cases "kefir_hashtable_insert (\<lambda>_. True) t k v") (simp add: inserted_def)
  show "\<exists>t'. kefir_hashtable_insert (\<lambda>_. True) t k v = (KEFIR_ALREADY_EXISTS, t') \<and> hashtable_ok ops t' \<and>
      hashtable_abs t' = hashtable_abs t" if "hashtable_abs t k = Some w"
    using insert_ok [OF ok, of "\<lambda>_. True" k v] that
    by (cases "kefir_hashtable_insert (\<lambda>_. True) t k v") (simp add: inserted_def)
  show "\<exists>t'. kefir_hashtable_delete t k = (KEFIR_OK, t') \<and> hashtable_ok ops t' \<and>
      hashtable_abs t' = (hashtable_abs t)(k := None)" if "hashtable_abs t k = Some w"
    using delete_present [OF ok that] .
  show "\<exists>t'. kefir_hashtable_delete t k = (KEFIR_NOT_FOUND, t') \<and> hashtable_ok ops t' \<and>
      hashtable_abs t' = hashtable_abs t" if "hashtable_abs t k = None"
    using HAS_None [OF ok that] ok by (simp add: kefir_hashtable_delete_def)
qed

section \<open>Resizing\<close>

text \<open>Smearing the highest bit downwards: after the shift by \<open>s\<close> a bit covers twice as many bits.\<close>

definition smeared :: "64 word \<Rightarrow> nat \<Rightarrow> 64 word \<Rightarrow> bool" where
  "smeared x s y \<longleftrightarrow> (\<forall>n. bit y n \<longleftrightarrow> (\<exists>m\<ge>n. m < n + s \<and> bit x m))"

lemma smeared_start: "smeared x 1 x"
  by (auto simp: smeared_def less_Suc_eq_le intro: le_antisym)

lemma smeared_step:
  assumes "smeared x s y" and "s' = s + s"
  shows "smeared x s' (y OR drop_bit s y)"
  unfolding smeared_def assms(2)
proof
  fix n
  have y: "bit y j \<longleftrightarrow> (\<exists>m\<ge>j. m < j + s \<and> bit x m)" for j using assms(1) by (simp add: smeared_def)
  have "bit (y OR drop_bit s y) n \<longleftrightarrow> bit y n \<or> bit y (s + n)"
    by (simp add: bit_or_iff bit_drop_bit_eq)
  also have "\<dots> \<longleftrightarrow> (\<exists>m\<ge>n. m < n + (s + s) \<and> bit x m)"
  proof
    assume "bit y n \<or> bit y (s + n)"
    then obtain j m where "j = n \<or> j = s + n" "j \<le> m" "m < j + s" "bit x m" unfolding y by blast
    then show "\<exists>m\<ge>n. m < n + (s + s) \<and> bit x m" by (intro exI [of _ m]) auto
  next
    assume "\<exists>m\<ge>n. m < n + (s + s) \<and> bit x m"
    then obtain m where m: "m \<ge> n" "m < n + (s + s)" "bit x m" by blast
    then show "bit y n \<or> bit y (s + n)"
      unfolding y [of n] y [of "s + n"] by (cases "m < n + s") (auto intro: exI [of _ m])
  qed
  finally show "bit (y OR drop_bit s y) n \<longleftrightarrow> (\<exists>m\<ge>n. m < n + (s + s) \<and> bit x m)" .
qed

lemma smeared_64:
  assumes "smeared x 64 y" and "bit x h" and "\<And>m. bit x m \<Longrightarrow> m \<le> h"
  shows "y = mask (Suc h)"
proof (rule bit_word_eqI)
  fix n assume "n < LENGTH(64)"
  have "h < 64" using assms(2) by (auto dest: bit_imp_le_length)
  then show "bit y n \<longleftrightarrow> bit (mask (Suc h) :: 64 word) n"
    using assms \<open>n < LENGTH(64)\<close> by (auto simp: smeared_def bit_mask_iff less_Suc_eq_le intro: exI [of _ h] order_trans [OF _ assms(3)])
qed

lemma highest_bit:
  assumes "x \<noteq> (0 :: 64 word)"
  obtains h where "bit x h" "\<And>m. bit x m \<Longrightarrow> m \<le> h" "h < 64" "2 ^ h \<le> unat x" "unat x < 2 ^ Suc h"
proof -
  define h where "h = Max {m. bit x m}"
  have fin: "finite {m. bit x m}"
    by (rule finite_subset [of _ "{..<64}"]) (auto dest: bit_imp_le_length)
  have "{m. bit x m} \<noteq> {}" using assms bit_word_eqI [of x 0] by auto
  then have h: "bit x h" "\<And>m. bit x m \<Longrightarrow> m \<le> h"
    using Max_in [OF fin] Max_ge [OF fin] by (auto simp: h_def)
  have "bit (unat x) h" using h(1) by (simp add: bit_unsigned_iff)
  then have "unat x div 2 ^ h \<noteq> 0" by (metis bit_iff_odd dvd_0_right)
  then have low: "2 ^ h \<le> unat x" by (simp add: div_eq_0_iff not_less)
  have "take_bit (Suc h) x = x"
    by (rule bit_word_eqI) (auto simp: bit_take_bit_iff dest: h(2))
  then have "take_bit (Suc h) (unat x) = unat x" by (metis unsigned_take_bit_eq)
  then have "unat x < 2 ^ Suc h" by (simp only: take_bit_nat_eq_self_iff)
  moreover have "h < 64" using bit_imp_le_length [OF h(1)] by simp
  ultimately show thesis using that h low by blast
qed

text \<open>The result is the next greater power of two, which wraps to 0 when the highest bit is set.\<close>

lemma next_power_of_2_cases:
  obtains (wraps) "2 ^ 63 \<le> unat x" "next_power_of_2 x = 0"
    | (power) h where "unat (next_power_of_2 x) = 2 ^ h" "unat x < 2 ^ h" "2 ^ h \<le> 2 * unat x \<or> h = 0"
proof (cases "x = 0")
  case True
  then show thesis using power [of 0] by (simp add: next_power_of_2_def)
next
  case False
  obtain h where h: "bit x h" "\<And>m. bit x m \<Longrightarrow> m \<le> h" "h < 64" "2 ^ h \<le> unat x" "unat x < 2 ^ Suc h"
    using highest_bit [OF False] by blast
  define a where "a = x OR drop_bit 1 x"
  define b where "b = a OR drop_bit 2 a"
  define c where "c = b OR drop_bit 4 b"
  define d where "d = c OR drop_bit 8 c"
  define e where "e = d OR drop_bit 16 d"
  define y where "y = e OR drop_bit 32 e"
  have "smeared x 2 a" unfolding a_def by (rule smeared_step [OF smeared_start]) simp
  then have "smeared x 4 b" unfolding b_def by (rule smeared_step) simp
  then have "smeared x 8 c" unfolding c_def by (rule smeared_step) simp
  then have "smeared x 16 d" unfolding d_def by (rule smeared_step) simp
  then have "smeared x 32 e" unfolding e_def by (rule smeared_step) simp
  then have y: "smeared x 64 y" unfolding y_def by (rule smeared_step) simp
  have "next_power_of_2 x = y + 1"
    using False by (simp add: next_power_of_2_def Let_def a_def b_def c_def d_def e_def y_def)
  then have np: "next_power_of_2 x = 2 ^ Suc h"
    using smeared_64 [OF y h(1,2)] by (simp add: mask_eq_exp_minus_1)
  show thesis
  proof (cases "h = 63")
    case True
    have "next_power_of_2 x = 0" unfolding np True by simp
    then show thesis using wraps h(4) True by simp
  next
    case False
    then have "(2 :: nat) ^ Suc h < 2 ^ 64" using h(3) by (intro power_strict_increasing) auto
    moreover have "next_power_of_2 x = of_nat (2 ^ Suc h)" unfolding np by simp
    ultimately have "unat (next_power_of_2 x) = 2 ^ Suc h" by (simp only: unat_of_nat_64)
    then show thesis using power [of "Suc h"] h(4,5) by simp
  qed
qed

context hashtable_keys
begin

text \<open>
  A request for another capacity: it is met, or refused with the table as it was. Either way the table is
  well-formed and holds the same entries.
\<close>

definition resized :: "mem \<Rightarrow> ('k, 'v) hashtable \<Rightarrow> nat \<Rightarrow> kefir_result \<times> ('k, 'v) hashtable \<Rightarrow> bool" where
  "resized mem t capacity r \<longleftrightarrow> hashtable_ok ops (snd r) \<and> hashtable_abs (snd r) = hashtable_abs t \<and>
     tbl_occupied (snd r) = tbl_occupied t \<and>
     (fst r = KEFIR_OK \<and> tbl_capacity (snd r) = capacity \<or>
      fst r = KEFIR_MEMALLOC_FAILURE \<and> snd r = t \<and> (\<exists>n. mem n = False))"

lemma rehash_resized:
  assumes "hashtable_ok ops t" and "capacity = 2 ^ n" and "tbl_occupied t \<le> capacity"
  shows "resized mem t capacity (case rehash mem t capacity of Inl e \<Rightarrow> (e, t) | Inr t' \<Rightarrow> (KEFIR_OK, t'))"
  by (rule rehash_cases [OF assms, of mem]) (use assms(1) in \<open>auto simp: resized_def\<close>)

lemma unchanged_resized: "hashtable_ok ops t \<Longrightarrow> resized mem t (tbl_capacity t) (KEFIR_OK, t)"
  by (simp add: resized_def)

lemma occupied_le: "hashtable_ok ops t \<Longrightarrow> tbl_occupied t \<le> tbl_capacity t"
  using slot_entries_length_le [of "tbl_slots t"] by (simp add: hashtable_occupied hashtable_capacity)

lemma ensure_ok:
  assumes ok: "hashtable_ok ops t"
  shows "resized mem t (max (tbl_capacity t) (unat (next_power_of_2 c))) (kefir_hashtable_ensure mem t c)"
proof (cases "tbl_capacity t < unat (next_power_of_2 c)")
  case True
  obtain n where n: "unat (next_power_of_2 c) = 2 ^ n"
    by (rule next_power_of_2_cases [of c]) (use True in auto)
  show ?thesis
    using rehash_resized [OF ok n, of mem] True occupied_le [OF ok] by (simp add: kefir_hashtable_ensure_def max_def)
next
  case False
  then show ?thesis using unchanged_resized [OF ok] by (simp add: kefir_hashtable_ensure_def max_def)
qed

text \<open>The power of two that a trimmed table is given: more than four times its entries, at most eight times.\<close>

lemma trim_power:
  assumes "occupied < (2 ^ 61 :: nat)"
  obtains n where "unat (next_power_of_2 (of_nat (KEFIR_HASHTABLE_CAPACITY_TRIM occupied))) = 2 ^ n"
    "max 4 (4 * occupied) < 2 ^ n" "2 ^ n \<le> 2 * max 4 (4 * occupied)"
proof -
  let ?x = "of_nat (KEFIR_HASHTABLE_CAPACITY_TRIM occupied) :: 64 word"
  have less: "max 4 (occupied * 4) < 2 ^ 63" using assms by simp
  then have x: "unat ?x = max 4 (4 * occupied)"
    by (simp add: KEFIR_HASHTABLE_CAPACITY_TRIM_def unat_of_nat_64 mult.commute)
  show thesis
  proof (rule next_power_of_2_cases [of ?x])
    fix h assume h: "unat (next_power_of_2 ?x) = 2 ^ h" "unat ?x < 2 ^ h" "2 ^ h \<le> 2 * unat ?x \<or> h = 0"
    then have "h \<noteq> 0" using x by (cases h) auto
    then show thesis using that h unfolding x by blast
  qed (use less x in \<open>simp add: mult.commute\<close>)
qed

lemma trim_ok:
  assumes ok: "hashtable_ok ops t" and small: "tbl_occupied t < 2 ^ 61"
    and trims: "tbl_occupied t < tbl_capacity t * 15 div 100"
  shows "\<exists>n. max 4 (4 * tbl_occupied t) < 2 ^ n \<and> 2 ^ n \<le> 2 * max 4 (4 * tbl_occupied t) \<and>
    resized mem t (min (tbl_capacity t) (2 ^ n)) (kefir_hashtable_trim mem t)"
proof -
  obtain n where n: "unat (next_power_of_2 (of_nat (KEFIR_HASHTABLE_CAPACITY_TRIM (tbl_occupied t)))) = 2 ^ n"
      "max 4 (4 * tbl_occupied t) < 2 ^ n" "2 ^ n \<le> 2 * max 4 (4 * tbl_occupied t)"
    using trim_power [OF small] .
  have "tbl_occupied t \<le> 2 ^ n" using n(2) by simp
  from rehash_resized [OF ok refl this, of mem] have "resized mem t (min (tbl_capacity t) (2 ^ n)) (kefir_hashtable_trim mem t)"
    using unchanged_resized [OF ok, of mem] trims
    by (simp add: kefir_hashtable_trim_def Let_def n(1) KEFIR_REHASH_TRIM_THRESHOLD_PCT_def min_def)
  then show ?thesis using n by blast
qed

lemma trim_keeps: "\<not> tbl_occupied t < tbl_capacity t * 15 div 100 \<Longrightarrow> kefir_hashtable_trim mem t = (KEFIR_OK, t)"
  by (simp add: kefir_hashtable_trim_def KEFIR_REHASH_TRIM_THRESHOLD_PCT_def)

text \<open>Lookups in well-formed tables with the same contents agree.\<close>

lemma at_abs:
  assumes "hashtable_ok ops t"
  shows "kefir_hashtable_at t k = (case hashtable_abs t k of None \<Rightarrow> Inl KEFIR_NOT_FOUND | Some v \<Rightarrow> Inr v)"
  using map.at_present [OF assms, of k] map.at_absent [OF assms, of k] by (auto split: option.splits)

lemma resized_outcome:
  assumes "hashtable_ok ops t" "resized mem t capacity (res, t')"
  shows "hashtable_ok ops t'" "hashtable_abs t' = hashtable_abs t" "tbl_occupied t' = tbl_occupied t"
    "kefir_hashtable_at t' k = kefir_hashtable_at t k"
    "res = KEFIR_OK \<and> tbl_capacity t' = capacity \<or> res = KEFIR_MEMALLOC_FAILURE \<and> t' = t \<and> (\<exists>n. mem n = False)"
proof -
  show ok: "hashtable_ok ops t'" and abs: "hashtable_abs t' = hashtable_abs t" and "tbl_occupied t' = tbl_occupied t"
    and "res = KEFIR_OK \<and> tbl_capacity t' = capacity \<or> res = KEFIR_MEMALLOC_FAILURE \<and> t' = t \<and> (\<exists>n. mem n = False)"
    using assms by (auto simp: resized_def)
  show "kefir_hashtable_at t' k = kefir_hashtable_at t k" by (simp add: at_abs [OF ok] at_abs [OF assms(1)] abs)
qed

end

interpretation uint_table: hashtable_keys kefir_hashtable_uint_ops
  by unfold_locales (simp add: kefir_hashtable_uint_ops_def kefir_hashtable_uint_equal_def)

interpretation str_table: hashtable_keys kefir_hashtable_str_ops
  by unfold_locales
    (auto simp: kefir_hashtable_str_ops_def kefir_hashtable_str_equal_def strcmp_zero split: option.splits)

section \<open>Iteration\<close>

text \<open>
  The loop \<^verbatim>\<open>for (res = kefir_hashtable_iter(...); res == KEFIR_OK; res = kefir_hashtable_next(...))\<close>
  of the clients, with a bound on the number of its iterations, yields the visited entries.
\<close>

fun table_loop :: "('k, 'v) hashtable \<Rightarrow> nat \<Rightarrow> (nat \<times> 'k \<times> 'v) result \<Rightarrow> ('k \<times> 'v) list" where
  "table_loop t 0 r = []"
| "table_loop t (Suc n) (Inl e) = []"
| "table_loop t (Suc n) (Inr (i, k, v)) = (k, v) # table_loop t n (kefir_hashtable_next t i)"

lemma iter_scan_None: "i + n = length slots \<Longrightarrow> iter_scan slots n i = None \<Longrightarrow> slot_entries (drop i slots) = []"
proof (induction n arbitrary: i)
  case (Suc n)
  then have "drop i slots = slots ! i # drop (Suc i) slots" by (simp add: Cons_nth_drop_Suc)
  then show ?case using Suc by (auto split: slot.splits)
qed simp

lemma iter_scan_Some:
  "i + n = length slots \<Longrightarrow> iter_scan slots n i = Some (j, k, v) \<Longrightarrow>
     j < length slots \<and> slot_entries (drop i slots) = (k, v) # slot_entries (drop (Suc j) slots)"
proof (induction n arbitrary: i)
  case (Suc n)
  then have "drop i slots = slots ! i # drop (Suc i) slots" by (simp add: Cons_nth_drop_Suc)
  then show ?case using Suc.prems Suc.IH [of "Suc i"] by (auto split: slot.splits)
qed simp

lemma table_loop_from:
  assumes "tbl_capacity t = length (tbl_slots t)"
  shows "i \<le> tbl_capacity t \<Longrightarrow> length (slot_entries (drop i (tbl_slots t))) \<le> n \<Longrightarrow>
     table_loop t n (case iter_scan (tbl_slots t) (tbl_capacity t - i) i of
                       None \<Rightarrow> Inl KEFIR_ITERATOR_END | Some r \<Rightarrow> Inr r) = slot_entries (drop i (tbl_slots t))"
proof (induction n arbitrary: i)
  case 0
  then show ?case by simp
next
  case (Suc n)
  show ?case
  proof (cases "iter_scan (tbl_slots t) (tbl_capacity t - i) i")
    case None
    then show ?thesis using iter_scan_None [OF _ None] Suc.prems(1) assms by simp
  next
    case (Some r)
    obtain j k v where r: "r = (j, k, v)" by (cases r) auto
    have j: "j < tbl_capacity t"
      "slot_entries (drop i (tbl_slots t)) = (k, v) # slot_entries (drop (Suc j) (tbl_slots t))"
      using iter_scan_Some [OF _ Some [unfolded r]] Suc.prems(1) assms by auto
    then show ?thesis
      using Suc.IH [of "Suc j"] Suc.prems(2) Some r by (simp add: kefir_hashtable_next_def)
  qed
qed

lemma clear_loop_all:
  assumes "\<And>k v. callback k v = KEFIR_OK"
  shows "clear_loop callback slots =
           (KEFIR_OK, slot_entries slots, replicate (length slots) KEFIR_HASHTABLE_ENTRY_EMPTY)"
  using assms by (induction callback slots rule: clear_loop.induct) auto

lemma clear_ok:
  assumes "hashtable_ok ops t"
  shows "hashtable_ok ops (snd (snd (kefir_hashtable_clear t)))"
    and "hashtable_abs (snd (snd (kefir_hashtable_clear t))) = Map.empty"
proof -
  let ?t = "snd (snd (kefir_hashtable_clear t))"
  have cap: "tbl_capacity t = length (tbl_slots t)" using assms by (auto simp: hashtable_ok_def slots_inv_def)
  have t: "?t = t\<lparr>tbl_slots := replicate (tbl_capacity t) KEFIR_HASHTABLE_ENTRY_EMPTY, tbl_occupied := 0\<rparr>"
  proof (cases "tbl_cleanup t")
    case (Some callback)
    then show ?thesis using assms cap clear_loop_all [of callback "tbl_slots t"]
      by (simp add: kefir_hashtable_clear_def hashtable_ok_def)
  qed (simp add: kefir_hashtable_clear_def)
  show "hashtable_abs ?t = Map.empty" unfolding t by (simp add: hashtable_abs_def)
  show "hashtable_ok ops ?t"
    unfolding t using assms by (auto simp: hashtable_ok_def slots_inv_def probes_ok_def)
qed

section \<open>Properties\<close>

definition hashtable_run :: "('k, 'v) hashtable \<Rightarrow> ('k, 'v) map_op list \<Rightarrow>
    kefir_result list \<times> ('k, 'v) hashtable" where
  "hashtable_run = map_run (kefir_hashtable_insert (\<lambda>_. True)) kefir_hashtable_delete"

definition hashtable_after :: "'k hashtable_ops \<Rightarrow> ('k, 'v) map_op list \<Rightarrow> ('k, 'v) hashtable" where
  "hashtable_after ops xs = snd (hashtable_run (kefir_hashtable_init ops) xs)"

lemma hashtable_init_ok [simp]: "hashtable_ok ops (kefir_hashtable_init ops)"
  by (simp add: kefir_hashtable_init_def hashtable_ok_def)

lemma hashtable_init_abs [simp]: "hashtable_abs (kefir_hashtable_init ops) = Map.empty"
  by (simp add: kefir_hashtable_init_def hashtable_abs_def)

context hashtable_keys
begin

lemma occupied_card:
  assumes "hashtable_ok ops t"
  shows "tbl_occupied t = card (dom (hashtable_abs t))"
  using distinct_card [OF hashtable_distinct [OF assms]]
  by (simp add: hashtable_occupied [OF assms] hashtable_abs_def dom_map_of_conv_image_fst)

lemma table_run_spec:
  "spec_map_run Map.empty xs =
     (fst (hashtable_run (kefir_hashtable_init ops) xs), hashtable_abs (hashtable_after ops xs)) \<and>
   hashtable_ok ops (hashtable_after ops xs)"
  using map.run_simulates [OF hashtable_init_ok, of xs] by (simp add: hashtable_run_def hashtable_after_def)

lemma table_after_ok: "hashtable_ok ops (hashtable_after ops xs)"
  using table_run_spec by blast

lemma table_after_abs: "hashtable_abs (hashtable_after ops xs) = snd (spec_map_run Map.empty xs)"
  using table_run_spec [of xs] by simp

lemma table_loop_all:
  assumes "hashtable_ok ops t"
  shows "table_loop t (tbl_capacity t) (kefir_hashtable_iter t) = slot_entries (tbl_slots t)"
  using table_loop_from [OF hashtable_capacity [OF assms], of 0 "tbl_capacity t"] slot_entries_length_le [of "tbl_slots t"]
  by (simp add: kefir_hashtable_iter_def hashtable_capacity [OF assms])

end

lemma hashtable_abs_on_removal [simp]: "hashtable_abs (kefir_hashtable_on_removal t f) = hashtable_abs t"
  by (simp add: hashtable_abs_def kefir_hashtable_on_removal_def)

text \<open>
  C7. Refinement of the open-addressing table: any sequence of insertions and deletions on an
  integer-keyed table, with all the rehashes it triggers on load and on collisions, answers with
  the result codes of a finite map, ends in the same map, and every later lookup returns what the
  map holds for the key.
\<close>

theorem hashtable_refines_map:
  "spec_map_run Map.empty xs =
     (fst (hashtable_run (kefir_hashtable_init kefir_hashtable_uint_ops) xs),
      hashtable_abs (hashtable_after kefir_hashtable_uint_ops xs)) \<and>
   kefir_hashtable_at (hashtable_after kefir_hashtable_uint_ops xs) k =
     (case snd (spec_map_run Map.empty xs) k of None \<Rightarrow> Inl KEFIR_NOT_FOUND | Some v \<Rightarrow> Inr v)"
  using uint_table.table_run_spec [of xs] uint_table.map.at_present [of _ k]
    uint_table.map.at_absent [of _ k]
  by (auto split: option.splits)

text \<open>
  C8. Insertion into a string-keyed table under any allocator: it never runs out of slots (the
  internal error of the probing loop is unreachable), it fails only when the allocator refuses
  a request and then leaves the table untouched, and otherwise it adds the entry or reports a key
  that is present.
\<close>

theorem hashtable_insert_total:
  fixes mem xs k v
  defines "t \<equiv> hashtable_after kefir_hashtable_str_ops xs"
  shows "let (res, t') = kefir_hashtable_insert mem t k v in
    hashtable_ok kefir_hashtable_str_ops t' \<and>
    (res = KEFIR_OK \<and> hashtable_abs t k = None \<and> hashtable_abs t' = (hashtable_abs t)(k \<mapsto> v) \<or>
     res = KEFIR_ALREADY_EXISTS \<and> hashtable_abs t k \<noteq> None \<and> hashtable_abs t' = hashtable_abs t \<or>
     res = KEFIR_MEMALLOC_FAILURE \<and> t' = t \<and> (\<exists>n. mem n = False))"
proof -
  have ok: "hashtable_ok kefir_hashtable_str_ops t" unfolding t_def by (rule str_table.table_after_ok)
  show ?thesis
    using str_table.insert_any_mem [OF ok, of k v mem] ok
    by (cases "kefir_hashtable_insert mem t k v") (auto simp: str_table.inserted_def split: if_splits)
qed

text \<open>
  C9. Growing a table on request, trimming it and clearing it. The first two leave a well-formed table with the
  same entries, in which every lookup answers as before, whatever the allocator grants; they either succeed or report a refused
  allocation and leave the table as it was. A successful request for less than 2^63 slots leaves a capacity that is more than
  requested, namely the old one or at most twice the request. A successful trim of a table that is filled below the threshold of
  15 per cent leaves the old capacity or a power of two between four and eight times the entries (at least eight slots), and no
  larger one; other tables are not changed. Clearing empties the table, keeps its capacity and reports every
  entry to the removal callback exactly once.
\<close>

theorem hashtable_resize:
  fixes t :: "(64 word, 'v) hashtable"
  assumes "hashtable_ok kefir_hashtable_uint_ops t" and "tbl_occupied t < 2 ^ 61"
    and "tbl_cleanup t = Some callback"
    and "kefir_hashtable_ensure mem t capacity = (res1, t1)" and "kefir_hashtable_trim mem t = (res2, t2)"
    and "kefir_hashtable_clear t = (res3, log, t3)"
  shows "(hashtable_ok kefir_hashtable_uint_ops t1 \<and> hashtable_abs t1 = hashtable_abs t \<and>
       kefir_hashtable_at t1 k = kefir_hashtable_at t k \<and>
       (res1 = KEFIR_OK \<and> tbl_capacity t \<le> tbl_capacity t1 \<and>
          (unat capacity < 2 ^ 63 \<longrightarrow> unat capacity < tbl_capacity t1 \<and>
             tbl_capacity t1 \<le> max (tbl_capacity t) (2 * max 1 (unat capacity))) \<or>
        res1 = KEFIR_MEMALLOC_FAILURE \<and> t1 = t \<and> (\<exists>n. mem n = False))) \<and>
    (hashtable_ok kefir_hashtable_uint_ops t2 \<and> hashtable_abs t2 = hashtable_abs t \<and>
       kefir_hashtable_at t2 k = kefir_hashtable_at t k \<and>
       (if tbl_occupied t < tbl_capacity t * 15 div 100
        then res2 = KEFIR_OK \<and> (\<exists>n. tbl_capacity t2 = min (tbl_capacity t) (2 ^ n) \<and>
               max 4 (4 * tbl_occupied t) < 2 ^ n \<and> 2 ^ n \<le> 2 * max 4 (4 * tbl_occupied t)) \<or>
             res2 = KEFIR_MEMALLOC_FAILURE \<and> t2 = t \<and> (\<exists>n. mem n = False)
        else res2 = KEFIR_OK \<and> t2 = t)) \<and>
    (res3 = KEFIR_OK \<and> hashtable_ok kefir_hashtable_uint_ops t3 \<and> hashtable_abs t3 = Map.empty \<and>
       tbl_capacity t3 = tbl_capacity t \<and> map_of log = hashtable_abs t \<and> distinct (map fst log))"
proof (intro conjI)
  note ensured = uint_table.resized_outcome [OF assms(1) uint_table.ensure_ok [OF assms(1), of mem capacity, unfolded assms(4)]]
  show "hashtable_ok kefir_hashtable_uint_ops t1" "hashtable_abs t1 = hashtable_abs t"
      "kefir_hashtable_at t1 k = kefir_hashtable_at t k"
    using ensured by blast+
  show "res1 = KEFIR_OK \<and> tbl_capacity t \<le> tbl_capacity t1 \<and>
        (unat capacity < 2 ^ 63 \<longrightarrow> unat capacity < tbl_capacity t1 \<and>
           tbl_capacity t1 \<le> max (tbl_capacity t) (2 * max 1 (unat capacity))) \<or>
      res1 = KEFIR_MEMALLOC_FAILURE \<and> t1 = t \<and> (\<exists>n. mem n = False)"
    by (rule next_power_of_2_cases [of capacity]) (use ensured(5) in auto)
  have trimmed: "hashtable_ok kefir_hashtable_uint_ops t2 \<and> hashtable_abs t2 = hashtable_abs t \<and>
      kefir_hashtable_at t2 k = kefir_hashtable_at t k \<and>
      (if tbl_occupied t < tbl_capacity t * 15 div 100
       then res2 = KEFIR_OK \<and> (\<exists>n. tbl_capacity t2 = min (tbl_capacity t) (2 ^ n) \<and>
              max 4 (4 * tbl_occupied t) < 2 ^ n \<and> 2 ^ n \<le> 2 * max 4 (4 * tbl_occupied t)) \<or>
            res2 = KEFIR_MEMALLOC_FAILURE \<and> t2 = t \<and> (\<exists>n. mem n = False)
       else res2 = KEFIR_OK \<and> t2 = t)"
  proof (cases "tbl_occupied t < tbl_capacity t * 15 div 100")
    case True
    obtain n where n: "max 4 (4 * tbl_occupied t) < 2 ^ n" "2 ^ n \<le> 2 * max 4 (4 * tbl_occupied t)"
        "uint_table.resized mem t (min (tbl_capacity t) (2 ^ n)) (res2, t2)"
      using uint_table.trim_ok [OF assms(1,2) True, of mem] assms(5) by auto
    show ?thesis unfolding if_P [OF True] using uint_table.resized_outcome [OF assms(1) n(3)] n(1,2) by blast
  next
    case False
    then show ?thesis using uint_table.trim_keeps [OF False, of mem] assms(1,5) by simp
  qed
  then show "hashtable_ok kefir_hashtable_uint_ops t2" "hashtable_abs t2 = hashtable_abs t"
      "kefir_hashtable_at t2 k = kefir_hashtable_at t k"
      "if tbl_occupied t < tbl_capacity t * 15 div 100
       then res2 = KEFIR_OK \<and> (\<exists>n. tbl_capacity t2 = min (tbl_capacity t) (2 ^ n) \<and>
              max 4 (4 * tbl_occupied t) < 2 ^ n \<and> 2 ^ n \<le> 2 * max 4 (4 * tbl_occupied t)) \<or>
            res2 = KEFIR_MEMALLOC_FAILURE \<and> t2 = t \<and> (\<exists>n. mem n = False)
       else res2 = KEFIR_OK \<and> t2 = t"
    by blast+
  have cleared: "res3 = KEFIR_OK" "log = slot_entries (tbl_slots t)" "tbl_capacity t3 = tbl_capacity t"
    using clear_loop_all [of callback "tbl_slots t"] assms(1,3,6)
    by (auto simp: kefir_hashtable_clear_def hashtable_ok_def)
  show "res3 = KEFIR_OK" "tbl_capacity t3 = tbl_capacity t" by (fact cleared)+
  show "hashtable_ok kefir_hashtable_uint_ops t3" "hashtable_abs t3 = Map.empty" using clear_ok [OF assms(1)] assms(6) by simp_all
  show "map_of log = hashtable_abs t" unfolding cleared(2) by (simp add: hashtable_abs_def)
  show "distinct (map fst log)" unfolding cleared(2) by (rule uint_table.hashtable_distinct [OF assms(1)])
qed

text \<open>A table with two entries is grown to 128 slots; the grown table is trimmed to 16.\<close>

definition two_entries :: "(64 word, string) hashtable" where
  "two_entries = kefir_hashtable_on_removal (hashtable_after kefir_hashtable_uint_ops [MInsert 5 ''a'', MInsert 6 ''b''])
     (Some (\<lambda>k v. KEFIR_OK))"

theorem hashtable_resize_witness:
  "let t = two_entries; (res1, t1) = kefir_hashtable_ensure (\<lambda>_. True) t 100;
       (res2, t2) = kefir_hashtable_trim (\<lambda>_. True) t1; (res3, log, t3) = kefir_hashtable_clear t1
   in res1 = KEFIR_OK \<and> 100 < tbl_capacity t1 \<and> kefir_hashtable_at t1 6 = kefir_hashtable_at t 6 \<and>
      res2 = KEFIR_OK \<and> tbl_capacity t2 = 16 \<and> kefir_hashtable_at t2 6 = kefir_hashtable_at t 6 \<and>
      hashtable_abs t3 = Map.empty \<and> map_of log = [5 \<mapsto> ''a'', 6 \<mapsto> ''b'']"
proof -
  let ?mem = "\<lambda>_. True"
  have ok: "hashtable_ok kefir_hashtable_uint_ops two_entries" and cb: "tbl_cleanup two_entries = Some (\<lambda>k v. KEFIR_OK)"
    using uint_table.table_after_ok unfolding two_entries_def by (auto simp: hashtable_ok_def kefir_hashtable_on_removal_def)
  have abs: "hashtable_abs two_entries = [5 \<mapsto> ''a'', 6 \<mapsto> ''b'']"
    by (simp add: two_entries_def uint_table.table_after_abs)
  have two: "tbl_occupied t = 2" if "hashtable_ok kefir_hashtable_uint_ops t" "hashtable_abs t = [5 \<mapsto> ''a'', 6 \<mapsto> ''b'']"
    for t :: "(64 word, string) hashtable"
    using that by (simp add: uint_table.occupied_card)
  obtain res1 t1 where 1: "kefir_hashtable_ensure ?mem two_entries 100 = (res1, t1)" by fastforce
  obtain res2 t2 where 2: "kefir_hashtable_trim ?mem t1 = (res2, t2)" by fastforce
  obtain res3 log t3 where 3: "kefir_hashtable_clear t1 = (res3, log, t3)" by (cases "kefir_hashtable_clear t1") auto
  obtain res4 t4 where 4: "kefir_hashtable_ensure ?mem t1 100 = (res4, t4)" by fastforce
  obtain res5 t5 where 5: "kefir_hashtable_trim ?mem two_entries = (res5, t5)" by fastforce
  obtain res6 log6 t6 where 6: "kefir_hashtable_clear two_entries = (res6, log6, t6)" by (cases "kefir_hashtable_clear two_entries") auto
  have small: "tbl_occupied two_entries < 2 ^ 61" using two [OF ok abs] by simp
  note grown = hashtable_resize [OF ok small cb 1 5 6, of 6]
  have ok1: "hashtable_ok kefir_hashtable_uint_ops t1" and abs1: "hashtable_abs t1 = [5 \<mapsto> ''a'', 6 \<mapsto> ''b'']"
    and at1: "res1 = KEFIR_OK" "100 < tbl_capacity t1" "kefir_hashtable_at t1 6 = kefir_hashtable_at two_entries 6"
    using grown abs by auto
  have cb1: "tbl_cleanup t1 = Some (\<lambda>k v. KEFIR_OK)"
    using 1 cb by (auto simp: kefir_hashtable_ensure_def rehash_def Let_def bindE_iffs split: if_splits sum.splits prod.splits)
  have small1: "tbl_occupied t1 < 2 ^ 61" and fill: "tbl_occupied t1 < tbl_capacity t1 * 15 div 100"
    using two [OF ok1 abs1] at1(2) by auto
  note trimmed = hashtable_resize [OF ok1 small1 cb1 4 2 3, of 6]
  obtain n :: nat where n: "res2 = KEFIR_OK" "tbl_capacity t2 = min (tbl_capacity t1) (2 ^ n)" "8 < (2 :: nat) ^ n" "2 ^ n \<le> (16 :: nat)"
    using trimmed fill two [OF ok1 abs1] by auto
  have "2 ^ 3 < (2 :: nat) ^ n" "2 ^ n \<le> (2 :: nat) ^ 4" using n(3,4) by simp_all
  then have "n = 4" using power_less_imp_less_exp [of "2 :: nat" 3 n] power_le_imp_le_exp [of "2 :: nat" n 4] by simp
  then have "tbl_capacity t2 = 16" using n(2) at1(2) by simp
  then show ?thesis using 1 2 3 at1 n(1) trimmed abs1 by (simp add: Let_def)
qed

text \<open>
  C10. Iteration over a table: the loop over the iterator ends after at most as many steps as the
  table has slots and visits every entry of the map exactly once.
\<close>

theorem hashtable_iteration:
  fixes xs :: "(64 word, 'v) map_op list"
  defines "t \<equiv> hashtable_after kefir_hashtable_uint_ops xs"
  defines "visited \<equiv> table_loop t (tbl_capacity t) (kefir_hashtable_iter t)"
  shows "distinct (map fst visited) \<and> map_of visited = snd (spec_map_run Map.empty xs) \<and>
         length visited = tbl_occupied t"
proof -
  have ok: "hashtable_ok kefir_hashtable_uint_ops t" unfolding t_def by (rule uint_table.table_after_ok)
  have v: "visited = slot_entries (tbl_slots t)" unfolding visited_def by (rule uint_table.table_loop_all [OF ok])
  have "map_of visited = hashtable_abs t" unfolding v by (simp add: hashtable_abs_def)
  then show ?thesis
    using uint_table.hashtable_distinct [OF ok] uint_table.hashtable_occupied [OF ok] uint_table.table_after_abs [of xs]
    by (simp add: v t_def)
qed

end
