(* ===== verification/Kefir_Sets.thy ===== *)
theory Kefir_Sets
  imports Kefir_Hashtable_Correct
begin

text \<open>
  The two set containers of the compiler: \<^verbatim>\<open>source/core/hashset.c\<close>, an open-addressing table without
  values that expands the same probing macros as the table, and \<^verbatim>\<open>source/core/hashtreeset.c\<close>, a
  client of the balanced tree. Both provide the contract of a set, from which the effect of the
  bulk operations (merging, subtracting) follows once.
\<close>

section \<open>The contract of a set\<close>

locale kefir_set =
  fixes inv :: "'t \<Rightarrow> bool"
    and abs :: "'t \<Rightarrow> 'k set"
    and has :: "'t \<Rightarrow> 'k \<Rightarrow> bool"
    and add :: "'t \<Rightarrow> 'k \<Rightarrow> kefir_result \<times> 't"
    and del :: "'t \<Rightarrow> 'k \<Rightarrow> kefir_result \<times> 't"
  assumes has_iff: "inv t \<Longrightarrow> has t k \<longleftrightarrow> k \<in> abs t"
    and add_ok: "inv t \<Longrightarrow> fst (add t k) = KEFIR_OK \<and> inv (snd (add t k)) \<and> abs (snd (add t k)) = insert k (abs t)"
    and del_ok: "inv t \<Longrightarrow> fst (del t k) = KEFIR_OK \<and> inv (snd (del t k)) \<and> abs (snd (del t k)) = abs t - {k}"

text \<open>A loop that applies a fallible operation to each element of a list and stops at the first failure.\<close>

fun each :: "('t \<Rightarrow> 'k \<Rightarrow> kefir_result \<times> 't) \<Rightarrow> 't \<Rightarrow> 'k list \<Rightarrow> kefir_result \<times> 't" where
  "each f t [] = (KEFIR_OK, t)"
| "each f t (k # ks) = (case f t k of (res, t') \<Rightarrow> if res \<noteq> KEFIR_OK then (res, t') else each f t' ks)"

context kefir_set
begin

lemma each_add:
  "inv t \<Longrightarrow> fst (each add t ks) = KEFIR_OK \<and> inv (snd (each add t ks)) \<and> abs (snd (each add t ks)) = abs t \<union> set ks"
proof (induction ks arbitrary: t)
  case (Cons k ks)
  obtain t' where t': "add t k = (KEFIR_OK, t')" "inv t'" "abs t' = insert k (abs t)"
    using add_ok [OF Cons.prems, of k] by (cases "add t k") auto
  then show ?case using Cons.IH [of t'] by simp
qed simp

lemma each_del:
  "inv t \<Longrightarrow> fst (each del t ks) = KEFIR_OK \<and> inv (snd (each del t ks)) \<and> abs (snd (each del t ks)) = abs t - set ks"
proof (induction ks arbitrary: t)
  case (Cons k ks)
  obtain t' where t': "del t k = (KEFIR_OK, t')" "inv t'" "abs t' = abs t - {k}"
    using del_ok [OF Cons.prems, of k] by (cases "del t k") auto
  then show ?case using Cons.IH [of t'] by auto
qed simp

end

section \<open>The hash set\<close>

record 'k hashset =
  set_slots :: "('k, unit) slot list"
  set_capacity :: nat
  set_occupied :: nat
  set_ops :: "'k hashtable_ops"

definition kefir_hashset_init :: "'k hashtable_ops \<Rightarrow> 'k hashset" where
  "kefir_hashset_init ops = \<lparr>set_slots = [], set_capacity = 0, set_occupied = 0, set_ops = ops\<rparr>"

text \<open>
  \<^verbatim>\<open>insert_entry\<close> of the set with \<^verbatim>\<open>do_rehash\<close> false: a key that is present is not an error. The
  position search is the macro the table expands.
\<close>

definition hashset_insert_no_rehash :: "'k hashtable_ops \<Rightarrow> nat \<Rightarrow> 'k \<Rightarrow>
    ('k, unit) slot list \<times> nat \<Rightarrow> (('k, unit) slot list \<times> nat) result" where
  "hashset_insert_no_rehash ops capacity key = (\<lambda>(slots, occupied).
     bindE (find_position_for_insert ops slots capacity key) (\<lambda>(index, _).
       if \<not> is_occupied (slots ! index)
       then Inr (slots[index := KEFIR_HASHTABLE_ENTRY_OCCUPIED key ()], occupied + 1)
       else Inr (slots, occupied)))"

primrec hashset_rehash_loop :: "'k hashtable_ops \<Rightarrow> nat \<Rightarrow> ('k, unit) slot list \<Rightarrow>
    ('k, unit) slot list \<times> nat \<Rightarrow> (('k, unit) slot list \<times> nat) result" where
  "hashset_rehash_loop ops new_capacity [] acc = Inr acc"
| "hashset_rehash_loop ops new_capacity (s # slots) acc =
     (case s of
        KEFIR_HASHTABLE_ENTRY_OCCUPIED k v \<Rightarrow>
          bindE (hashset_insert_no_rehash ops new_capacity k acc)
            (\<lambda>acc'. hashset_rehash_loop ops new_capacity slots acc')
      | _ \<Rightarrow> hashset_rehash_loop ops new_capacity slots acc)"

definition hashset_rehash :: "mem \<Rightarrow> 'k hashset \<Rightarrow> nat \<Rightarrow> 'k hashset result" where
  "hashset_rehash mem s new_capacity =
     bindE (requireE (mem (1 * new_capacity)) KEFIR_MEMALLOC_FAILURE) (\<lambda>_.
     bindE (requireE (mem (8 * new_capacity)) KEFIR_MEMALLOC_FAILURE) (\<lambda>_.
     bindE (hashset_rehash_loop (set_ops s) new_capacity (set_slots s)
              (replicate new_capacity KEFIR_HASHTABLE_ENTRY_EMPTY, 0))
       (\<lambda>(new_slots, new_occupied).
          Inr (s\<lparr>set_slots := new_slots, set_capacity := new_capacity,
                 set_occupied := new_occupied\<rparr>))))"

definition hashset_place_entry :: "'k hashset \<Rightarrow> 'k \<Rightarrow> kefir_result \<times> 'k hashset" where
  "hashset_place_entry s key =
     (case hashset_insert_no_rehash (set_ops s) (set_capacity s) key (set_slots s, set_occupied s) of
        Inl e \<Rightarrow> (e, s)
      | Inr (slots, occupied) \<Rightarrow> (KEFIR_OK, s\<lparr>set_slots := slots, set_occupied := occupied\<rparr>))"

definition hashset_insert_entry :: "mem \<Rightarrow> 'k hashset \<Rightarrow> 'k \<Rightarrow> bool \<Rightarrow> kefir_result \<times> 'k hashset" where
  "hashset_insert_entry mem s key do_rehash =
     (case find_position_for_insert (set_ops s) (set_slots s) (set_capacity s) key of
        Inl e \<Rightarrow> (e, s)
      | Inr (index, found_collisions) \<Rightarrow>
          if do_rehash \<and> \<not> is_occupied (set_slots s ! index)
             \<and> found_collisions \<ge> KEFIR_REHASH_COLLISION_THRESHOLD
          then (case hashset_rehash mem s (KEFIR_HASHTABLE_CAPACITY_GROW (set_capacity s)) of
                  Inl e \<Rightarrow> (e, s)
                | Inr s' \<Rightarrow> hashset_place_entry s' key)
          else hashset_place_entry s key)"

definition kefir_hashset_size :: "'k hashset \<Rightarrow> nat" where
  "kefir_hashset_size s = set_occupied s"

definition kefir_hashset_clear :: "'k hashset \<Rightarrow> 'k hashset" where
  "kefir_hashset_clear s =
     s\<lparr>set_slots := (if set_capacity s > 0 then replicate (set_capacity s) KEFIR_HASHTABLE_ENTRY_EMPTY
                     else set_slots s),
       set_occupied := 0\<rparr>"

definition kefir_hashset_add :: "mem \<Rightarrow> 'k hashset \<Rightarrow> 'k \<Rightarrow> kefir_result \<times> 'k hashset" where
  "kefir_hashset_add mem s key =
     (if set_capacity s = 0 \<or>
         set_occupied s \<ge> KEFIR_REHASH_OCCUPATION_THRESHOLD_PCT * set_capacity s div 100
      then (case hashset_rehash mem s (KEFIR_HASHTABLE_CAPACITY_GROW (set_capacity s)) of
              Inl e \<Rightarrow> (e, s)
            | Inr s' \<Rightarrow> hashset_insert_entry mem s' key False)
      else hashset_insert_entry mem s key True)"

definition kefir_hashset_trim :: "mem \<Rightarrow> 'k hashset \<Rightarrow> kefir_result \<times> 'k hashset" where
  "kefir_hashset_trim mem s =
     (if set_capacity s * KEFIR_REHASH_TRIM_THRESHOLD_PCT div 100 > set_occupied s
      then (let trimmed_capacity =
                  unat (next_power_of_2 (of_nat (KEFIR_HASHTABLE_CAPACITY_TRIM (set_occupied s)))) in
            if trimmed_capacity < set_capacity s
            then (case hashset_rehash mem s trimmed_capacity of Inl e \<Rightarrow> (e, s) | Inr s' \<Rightarrow> (KEFIR_OK, s'))
            else (KEFIR_OK, s))
      else (KEFIR_OK, s))"

definition kefir_hashset_ensure :: "mem \<Rightarrow> 'k hashset \<Rightarrow> 64 word \<Rightarrow> kefir_result \<times> 'k hashset" where
  "kefir_hashset_ensure mem s min_capacity =
     (let capacity' = unat (next_power_of_2 min_capacity) in
      if set_capacity s < capacity'
      then (case hashset_rehash mem s capacity' of Inl e \<Rightarrow> (e, s) | Inr s' \<Rightarrow> (KEFIR_OK, s'))
      else (KEFIR_OK, s))"

text \<open>\<^verbatim>\<open>KEFIR_HASHTABLE_HAS\<close> expanded on a set; a missing key is no error for the deletion.\<close>

definition hashset_find :: "'k hashset \<Rightarrow> 'k \<Rightarrow> nat option" where
  "hashset_find s key =
     (if set_occupied s > 0
      then has_loop (set_ops s) (set_slots s) (set_capacity s) key (set_capacity s) 0
      else None)"

definition kefir_hashset_delete :: "'k hashset \<Rightarrow> 'k \<Rightarrow> kefir_result \<times> 'k hashset" where
  "kefir_hashset_delete s key =
     (case hashset_find s key of
        Some index \<Rightarrow>
          (KEFIR_OK, s\<lparr>set_slots := (set_slots s)[index := KEFIR_HASHTABLE_ENTRY_DELETED],
                       set_occupied := set_occupied s - 1\<rparr>)
      | None \<Rightarrow> (KEFIR_OK, s))"

definition kefir_hashset_has :: "'k hashset \<Rightarrow> 'k \<Rightarrow> bool" where
  "kefir_hashset_has s key \<longleftrightarrow> hashset_find s key \<noteq> None"

text \<open>The slot loops of the bulk operations visit the keys of the occupied slots in slot order.\<close>

definition occupied_keys :: "'k hashset \<Rightarrow> 'k list" where
  "occupied_keys s = map fst (slot_entries (set_slots s))"

definition kefir_hashset_merge :: "mem \<Rightarrow> 'k hashset \<Rightarrow> 'k hashset \<Rightarrow> kefir_result \<times> 'k hashset" where
  "kefir_hashset_merge mem dst src =
     (if set_occupied src > 0 then each (kefir_hashset_add mem) dst (occupied_keys src)
      else (KEFIR_OK, dst))"

definition kefir_hashset_subtract :: "'k hashset \<Rightarrow> 'k hashset \<Rightarrow> kefir_result \<times> 'k hashset" where
  "kefir_hashset_subtract dst src =
     (if set_occupied src > 0 then each kefir_hashset_delete dst (occupied_keys src)
      else (KEFIR_OK, dst))"

definition kefir_hashset_has_difference :: "'k hashset \<Rightarrow> 'k hashset \<Rightarrow> bool" where
  "kefir_hashset_has_difference s1 s2 \<longleftrightarrow>
     set_occupied s1 > 0 \<and> list_ex (\<lambda>k. \<not> kefir_hashset_has s2 k) (occupied_keys s1) \<or>
     set_occupied s2 > 0 \<and> list_ex (\<lambda>k. \<not> kefir_hashset_has s1 k) (occupied_keys s2)"

definition kefir_hashset_iter :: "'k hashset \<Rightarrow> (nat \<times> 'k) result" where
  "kefir_hashset_iter s =
     (case iter_scan (set_slots s) (set_capacity s) 0 of
        None \<Rightarrow> Inl KEFIR_ITERATOR_END
      | Some (index, key, _) \<Rightarrow> Inr (index, key))"

definition kefir_hashset_next :: "'k hashset \<Rightarrow> nat \<Rightarrow> (nat \<times> 'k) result" where
  "kefir_hashset_next s index =
     (case iter_scan (set_slots s) (set_capacity s - (index + 1)) (index + 1) of
        None \<Rightarrow> Inl KEFIR_ITERATOR_END
      | Some (index', key, _) \<Rightarrow> Inr (index', key))"

section \<open>The hash set is a table without values\<close>

definition as_table :: "'k hashset \<Rightarrow> ('k, unit) hashtable" where
  "as_table s = \<lparr>tbl_slots = set_slots s, tbl_capacity = set_capacity s, tbl_occupied = set_occupied s,
                 tbl_ops = set_ops s, tbl_cleanup = None\<rparr>"

definition hashset_ok :: "'k hashtable_ops \<Rightarrow> 'k hashset \<Rightarrow> bool" where
  "hashset_ok ops s \<longleftrightarrow> hashtable_ok ops (as_table s)"

definition hashset_abs :: "'k hashset \<Rightarrow> 'k set" where
  "hashset_abs s = set (occupied_keys s)"

lemma as_table_sel [simp]:
  "tbl_slots (as_table s) = set_slots s" "tbl_capacity (as_table s) = set_capacity s"
  "tbl_occupied (as_table s) = set_occupied s" "tbl_ops (as_table s) = set_ops s"
  "tbl_cleanup (as_table s) = None"
  by (simp_all add: as_table_def)

lemma hashset_abs_dom: "hashset_abs s = dom (hashtable_abs (as_table s))"
  by (simp add: hashset_abs_def occupied_keys_def hashtable_abs_def dom_map_of_conv_image_fst)

lemma hashset_find_table: "hashset_find s k = KEFIR_HASHTABLE_HAS (as_table s) k"
  by (simp add: hashset_find_def KEFIR_HASHTABLE_HAS_def)

lemma hashset_rehash_loop_table:
  "rehash_loop ops cap slots acc = Inr r \<Longrightarrow> hashset_rehash_loop ops cap slots acc = Inr r"
proof (induction slots arbitrary: acc)
  case (Cons s slots)
  have "hashset_insert_no_rehash ops cap k acc = Inr acc'" if "insert_entry_no_rehash ops cap k () acc = Inr acc'" for k acc'
    using that by (auto simp: insert_entry_no_rehash_def hashset_insert_no_rehash_def bindE_iffs split: prod.splits if_splits)
  then show ?case using Cons by (cases s) (auto simp: bindE_iffs)
qed simp

lemma hashset_delete_table:
  "as_table (snd (kefir_hashset_delete s k)) = snd (kefir_hashtable_delete (as_table s) k)"
  by (auto simp: kefir_hashset_delete_def kefir_hashtable_delete_def hashset_find_table as_table_def
      split: option.splits)

text \<open>A set operation answers like the table operation, except that a present key is no error.\<close>

definition like :: "kefir_result \<times> 'k hashset \<Rightarrow> kefir_result \<times> ('k, unit) hashtable \<Rightarrow> bool" where
  "like r1 r2 \<longleftrightarrow> as_table (snd r1) = snd r2 \<and>
     fst r1 = (if fst r2 = KEFIR_ALREADY_EXISTS then KEFIR_OK else fst r2)"

lemma hashset_place_like:
  assumes "find_position_for_insert (set_ops s) (set_slots s) (set_capacity s) k = Inr (p, c)"
  shows "like (hashset_place_entry s k) (place_entry (as_table s) k ())"
  using assms
  by (simp add: like_def hashset_place_entry_def place_entry_def hashset_insert_no_rehash_def
      insert_entry_no_rehash_def as_table_def)

context hashtable_keys
begin

lemma hashset_rehash_like:
  assumes "hashset_ok ops s" and "capacity = 2 ^ n" and "set_occupied s \<le> capacity" and "\<And>n. mem n"
  obtains s' where "hashset_rehash mem s capacity = Inr s'" "rehash mem (as_table s) capacity = Inr (as_table s')"
    "hashset_ok ops s'" "set_capacity s' = capacity" "set_occupied s' = set_occupied s"
proof -
  obtain t' where t': "rehash mem (as_table s) capacity = Inr t'" "hashtable_ok ops t'"
      "tbl_capacity t' = capacity" "tbl_occupied t' = tbl_occupied (as_table s)"
    using rehash_ok [of "as_table s" capacity n mem] assms unfolding hashset_ok_def by auto
  then obtain slots occupied where loop: "rehash_loop (set_ops s) capacity (set_slots s)
      (replicate capacity KEFIR_HASHTABLE_ENTRY_EMPTY, 0) = Inr (slots, occupied)"
      and "t' = (as_table s)\<lparr>tbl_slots := slots, tbl_capacity := capacity, tbl_occupied := occupied\<rparr>"
    by (auto simp: rehash_def bindE_iffs)
  then have eq: "t' = as_table (s\<lparr>set_slots := slots, set_capacity := capacity, set_occupied := occupied\<rparr>)"
    by (simp add: as_table_def)
  show thesis
  proof
    show "hashset_rehash mem s capacity = Inr (s\<lparr>set_slots := slots, set_capacity := capacity, set_occupied := occupied\<rparr>)"
      using hashset_rehash_loop_table [OF loop] assms(4) by (simp add: hashset_rehash_def)
  qed (use t' eq in \<open>auto simp: hashset_ok_def\<close>)
qed

lemma hashset_grow_like:
  assumes ok: "hashset_ok ops s" and mem: "\<And>n. mem n"
  obtains s' where "hashset_rehash mem s (KEFIR_HASHTABLE_CAPACITY_GROW (set_capacity s)) = Inr s'"
      "rehash mem (as_table s) (KEFIR_HASHTABLE_CAPACITY_GROW (set_capacity s)) = Inr (as_table s')"
      "hashset_ok ops s'" "set_occupied s' < set_capacity s'"
proof -
  obtain n where n: "KEFIR_HASHTABLE_CAPACITY_GROW (set_capacity s) = 2 ^ n"
    "set_occupied s < KEFIR_HASHTABLE_CAPACITY_GROW (set_capacity s)"
    using grow_power [of "as_table s"] ok by (auto simp: hashset_ok_def)
  show thesis
    by (rule hashset_rehash_like [where mem = mem, OF ok n(1) less_imp_le [OF n(2)] mem])
      (use n(2) in \<open>auto intro: that\<close>)
qed

lemma find_position_total:
  assumes "hashset_ok ops s" and "set_occupied s < set_capacity s"
  obtains p c where "find_position_for_insert (set_ops s) (set_slots s) (set_capacity s) k = Inr (p, c)"
proof -
  have inv: "slots_inv ops (set_capacity s) (set_slots s, set_occupied s)" "set_ops s = ops"
    using assms hashtable_slots [of "as_table s"] by (auto simp: hashset_ok_def hashtable_ok_def)
  show thesis
    using find_position_present [OF inv(1), of k] find_position_absent [OF inv(1) _ assms(2), of k] inv(2) that by metis
qed

lemma hashset_insert_entry_like:
  assumes ok: "hashset_ok ops s" and room: "set_occupied s < set_capacity s" and mem: "\<And>n. mem n"
  shows "like (hashset_insert_entry mem s k re) (insert_entry mem (as_table s) k () re)"
proof -
  obtain p c where pc: "find_position_for_insert (set_ops s) (set_slots s) (set_capacity s) k = Inr (p, c)"
    using find_position_total [OF ok room] .
  obtain s' where s': "hashset_rehash mem s (KEFIR_HASHTABLE_CAPACITY_GROW (set_capacity s)) = Inr s'"
      "rehash mem (as_table s) (KEFIR_HASHTABLE_CAPACITY_GROW (set_capacity s)) = Inr (as_table s')"
      "hashset_ok ops s'" "set_occupied s' < set_capacity s'"
    using hashset_grow_like [where mem = mem, OF ok] mem by blast
  obtain p' c' where "find_position_for_insert (set_ops s') (set_slots s') (set_capacity s') k = Inr (p', c')"
    using find_position_total [OF s'(3,4)] .
  from hashset_place_like [OF this] hashset_place_like [OF pc] pc s'(1,2) show ?thesis
    by (simp add: hashset_insert_entry_def insert_entry_def)
qed

lemma hashset_add_like:
  assumes ok: "hashset_ok ops s" and mem: "\<And>n. mem n"
  shows "like (kefir_hashset_add mem s k) (kefir_hashtable_insert mem (as_table s) k ())"
proof (cases "set_capacity s = 0 \<or> set_occupied s \<ge> 80 * set_capacity s div 100")
  case True
  obtain s' where s': "hashset_rehash mem s (KEFIR_HASHTABLE_CAPACITY_GROW (set_capacity s)) = Inr s'"
      "rehash mem (as_table s) (KEFIR_HASHTABLE_CAPACITY_GROW (set_capacity s)) = Inr (as_table s')"
      "hashset_ok ops s'" "set_occupied s' < set_capacity s'"
    using hashset_grow_like [where mem = mem, OF ok] mem by blast
  then show ?thesis using True hashset_insert_entry_like [OF s'(3,4) mem]
    by (simp add: kefir_hashset_add_def kefir_hashtable_insert_def KEFIR_REHASH_OCCUPATION_THRESHOLD_PCT_def)
next
  case False
  then have "set_occupied s < set_capacity s" by linarith
  from hashset_insert_entry_like [OF ok this, of mem k True] mem False show ?thesis
    by (simp add: kefir_hashset_add_def kefir_hashtable_insert_def KEFIR_REHASH_OCCUPATION_THRESHOLD_PCT_def)
qed

lemma hashset_has_iff: "hashset_ok ops s \<Longrightarrow> kefir_hashset_has s k \<longleftrightarrow> k \<in> hashset_abs s"
  using HAS_None [of "as_table s" k] HAS_Some [of "as_table s" k]
  by (cases "hashtable_abs (as_table s) k")
    (auto simp: kefir_hashset_has_def hashset_find_table hashset_ok_def hashset_abs_dom)

lemma hashset_delete_ok:
  assumes "hashset_ok ops s"
  shows "fst (kefir_hashset_delete s k) = KEFIR_OK" "hashset_ok ops (snd (kefir_hashset_delete s k))"
    "hashset_abs (snd (kefir_hashset_delete s k)) = hashset_abs s - {k}"
proof -
  show "fst (kefir_hashset_delete s k) = KEFIR_OK" by (simp add: kefir_hashset_delete_def split: option.splits)
  show "hashset_ok ops (snd (kefir_hashset_delete s k))"
    "hashset_abs (snd (kefir_hashset_delete s k)) = hashset_abs s - {k}"
    using map.del_result [of "as_table s" k] assms
    by (simp_all add: hashset_ok_def hashset_abs_dom hashset_delete_table)
qed

lemma hashset_add_ok:
  assumes "hashset_ok ops s"
  shows "fst (kefir_hashset_add (\<lambda>_. True) s k) = KEFIR_OK" "hashset_ok ops (snd (kefir_hashset_add (\<lambda>_. True) s k))"
    "hashset_abs (snd (kefir_hashset_add (\<lambda>_. True) s k)) = insert k (hashset_abs s)"
  using map.ins_result [of "as_table s" k "()"] assms hashset_add_like [OF assms, of "\<lambda>_. True" k]
  by (auto simp: hashset_ok_def hashset_abs_dom like_def split: if_splits)

end

sublocale hashtable_keys \<subseteq> hset: kefir_set "hashset_ok ops" hashset_abs kefir_hashset_has
  "kefir_hashset_add (\<lambda>_. True)" kefir_hashset_delete
  by unfold_locales (simp_all add: hashset_has_iff hashset_add_ok hashset_delete_ok)

context hashtable_keys
begin

lemma hashset_occupied_iff: "hashset_ok ops s \<Longrightarrow> 0 < set_occupied s \<longleftrightarrow> hashset_abs s \<noteq> {}"
  using hashtable_occupied [of "as_table s"] by (auto simp: hashset_ok_def hashset_abs_def occupied_keys_def)

lemma hashset_size: "hashset_ok ops s \<Longrightarrow> kefir_hashset_size s = card (hashset_abs s)"
  using occupied_card [of "as_table s"] by (simp add: kefir_hashset_size_def hashset_ok_def hashset_abs_dom)

lemma hashset_merge:
  "hashset_ok ops a \<Longrightarrow> hashset_ok ops b \<Longrightarrow>
     fst (kefir_hashset_merge (\<lambda>_. True) a b) = KEFIR_OK \<and> hashset_ok ops (snd (kefir_hashset_merge (\<lambda>_. True) a b)) \<and>
     hashset_abs (snd (kefir_hashset_merge (\<lambda>_. True) a b)) = hashset_abs a \<union> hashset_abs b"
  using hset.each_add [of a "occupied_keys b"] hashset_occupied_iff [of b]
  by (auto simp: kefir_hashset_merge_def hashset_abs_def)

lemma hashset_subtract:
  "hashset_ok ops a \<Longrightarrow> hashset_ok ops b \<Longrightarrow>
     fst (kefir_hashset_subtract a b) = KEFIR_OK \<and> hashset_ok ops (snd (kefir_hashset_subtract a b)) \<and>
     hashset_abs (snd (kefir_hashset_subtract a b)) = hashset_abs a - hashset_abs b"
  using hset.each_del [of a "occupied_keys b"] hashset_occupied_iff [of b]
  by (auto simp: kefir_hashset_subtract_def hashset_abs_def)

lemma hashset_difference:
  assumes "hashset_ok ops a" "hashset_ok ops b"
  shows "kefir_hashset_has_difference a b \<longleftrightarrow> hashset_abs a \<noteq> hashset_abs b"
proof -
  have "kefir_hashset_has_difference a b \<longleftrightarrow>
      (\<exists>k\<in>hashset_abs a. k \<notin> hashset_abs b) \<or> (\<exists>k\<in>hashset_abs b. k \<notin> hashset_abs a)"
    using hashset_occupied_iff [OF assms(1)] hashset_occupied_iff [OF assms(2)]
    by (auto simp: kefir_hashset_has_difference_def list_ex_iff hashset_has_iff assms hashset_abs_def [symmetric])
  then show ?thesis by blast
qed

end

section \<open>The tree set\<close>

text \<open>
  The set's tree stores value 0 for every entry. The removal callback of the set is called for a
  removed entry through the tree's callback, and directly when an entry is added that is there
  already.
\<close>

record 'k hashtreeset =
  hts_tree :: "('k, 64 word) hashtree"
  hts_on_removal :: "('k \<Rightarrow> kefir_result) option"

definition kefir_hashtreeset_init :: "'k hashtree_ops \<Rightarrow> 'k hashtreeset" where
  "kefir_hashtreeset_init ops = \<lparr>hts_tree = kefir_hashtree_init ops, hts_on_removal = None\<rparr>"

definition hts_tree_callback :: "('k \<Rightarrow> kefir_result) option \<Rightarrow> 'k \<Rightarrow> 64 word \<Rightarrow> kefir_result" where
  "hts_tree_callback callback key value = (case callback of None \<Rightarrow> KEFIR_OK | Some f \<Rightarrow> f key)"

definition kefir_hashtreeset_on_remove ::
    "'k hashtreeset \<Rightarrow> ('k \<Rightarrow> kefir_result) option \<Rightarrow> 'k hashtreeset" where
  "kefir_hashtreeset_on_remove s callback =
     \<lparr>hts_tree = kefir_hashtree_on_removal (hts_tree s) (Some (hts_tree_callback callback)),
      hts_on_removal = callback\<rparr>"

definition kefir_hashtreeset_add :: "bool \<Rightarrow> 'k hashtreeset \<Rightarrow> 'k \<Rightarrow> kefir_result \<times> 'k hashtreeset" where
  "kefir_hashtreeset_add alloc s entry =
     (case kefir_hashtree_insert alloc (hts_tree s) entry 0 of (res, tree) \<Rightarrow>
        (if res = KEFIR_ALREADY_EXISTS
         then (case hts_on_removal s of None \<Rightarrow> KEFIR_OK | Some f \<Rightarrow> f entry)
         else res,
         s\<lparr>hts_tree := tree\<rparr>))"

definition kefir_hashtreeset_delete :: "'k hashtreeset \<Rightarrow> 'k \<Rightarrow> kefir_result \<times> 'k hashtreeset" where
  "kefir_hashtreeset_delete s entry =
     (case kefir_hashtree_delete (hts_tree s) entry of (res, tree) \<Rightarrow>
        (if res \<noteq> KEFIR_NOT_FOUND then res else KEFIR_OK, s\<lparr>hts_tree := tree\<rparr>))"

definition kefir_hashtreeset_has :: "'k hashtreeset \<Rightarrow> 'k \<Rightarrow> bool" where
  "kefir_hashtreeset_has s entry = kefir_hashtree_has (hts_tree s) entry"

definition kefir_hashtreeset_empty :: "'k hashtreeset \<Rightarrow> bool" where
  "kefir_hashtreeset_empty s = kefir_hashtree_empty (hts_tree s)"

definition kefir_hashtreeset_clean :: "'k hashtreeset \<Rightarrow> kefir_result \<times> 'k hashtreeset" where
  "kefir_hashtreeset_clean s =
     (case kefir_hashtree_clean (hts_tree s) of (res, _, tree) \<Rightarrow> (res, s\<lparr>hts_tree := tree\<rparr>))"

type_synonym 'k treeset_iter = "('k, 64 word) node_ptr"

definition kefir_hashtreeset_iter :: "'k hashtreeset \<Rightarrow> ('k treeset_iter \<times> 'k) result" where
  "kefir_hashtreeset_iter s =
     (case kefir_hashtree_iter (hts_tree s) of
        None \<Rightarrow> Inl KEFIR_ITERATOR_END
      | Some node \<Rightarrow> Inr (node, node_key (snd node)))"

definition kefir_hashtreeset_next ::
    "'k hashtree_ops \<Rightarrow> 'k treeset_iter \<Rightarrow> ('k treeset_iter \<times> 'k) result" where
  "kefir_hashtreeset_next ops it =
     (case kefir_hashtree_next ops (Some it) of
        None \<Rightarrow> Inl KEFIR_ITERATOR_END
      | Some node \<Rightarrow> Inr (node, node_key (snd node)))"

text \<open>
  The merge loop with a bound on its rounds (\<^const>\<open>None\<close> when the bound is reached); \<open>treeset_merge_correct\<close>
  shows that it ends within one round more than the source has entries.
\<close>

fun hashtreeset_merge_loop :: "bool \<Rightarrow> 'k hashtree_ops \<Rightarrow> ('k \<Rightarrow> 'k result) option \<Rightarrow> nat \<Rightarrow>
    'k hashtreeset \<Rightarrow> ('k treeset_iter \<times> 'k) result \<Rightarrow> (kefir_result \<times> 'k hashtreeset) option" where
  "hashtreeset_merge_loop alloc ops clone_fn 0 target res = None"
| "hashtreeset_merge_loop alloc ops clone_fn (Suc n) target (Inl e) =
     Some (if e \<noteq> KEFIR_ITERATOR_END then e else KEFIR_OK, target)"
| "hashtreeset_merge_loop alloc ops clone_fn (Suc n) target (Inr (it, entry)) =
     (case (case clone_fn of None \<Rightarrow> Inr entry | Some clone \<Rightarrow> clone entry) of
        Inl e \<Rightarrow> Some (e, target)
      | Inr new_entry \<Rightarrow>
          (case kefir_hashtreeset_add alloc target new_entry of (res, target') \<Rightarrow>
             if res \<noteq> KEFIR_OK then Some (res, target')
             else hashtreeset_merge_loop alloc ops clone_fn n target' (kefir_hashtreeset_next ops it)))"

definition kefir_hashtreeset_merge :: "bool \<Rightarrow> nat \<Rightarrow> 'k hashtreeset \<Rightarrow> 'k hashtreeset \<Rightarrow>
    ('k \<Rightarrow> 'k result) option \<Rightarrow> (kefir_result \<times> 'k hashtreeset) option" where
  "kefir_hashtreeset_merge alloc n target source clone_fn =
     hashtreeset_merge_loop alloc (tree_ops (hts_tree source)) clone_fn n target (kefir_hashtreeset_iter source)"

definition treeset_ok :: "'k hashtree_ops \<Rightarrow> 'k hashtreeset \<Rightarrow> bool" where
  "treeset_ok ops s \<longleftrightarrow> hashtree_ok ops (hts_tree s) \<and>
     (case hts_on_removal s of None \<Rightarrow> True | Some f \<Rightarrow> \<forall>k. f k = KEFIR_OK)"

definition treeset_abs :: "'k hashtreeset \<Rightarrow> 'k set" where
  "treeset_abs s = dom (hashtree_abs (hts_tree s))"

sublocale hashtree_order \<subseteq> tset: kefir_set "treeset_ok ops" treeset_abs kefir_hashtreeset_has
  "kefir_hashtreeset_add True" kefir_hashtreeset_delete
proof unfold_locales
  fix s k assume ok: "treeset_ok ops s"
  then have tree: "hashtree_ok ops (hts_tree s)" by (simp add: treeset_ok_def)
  show "kefir_hashtreeset_has s k \<longleftrightarrow> k \<in> treeset_abs s"
    using has_iff [OF tree] by (auto simp: kefir_hashtreeset_has_def treeset_abs_def)
  show "fst (kefir_hashtreeset_add True s k) = KEFIR_OK \<and> treeset_ok ops (snd (kefir_hashtreeset_add True s k)) \<and>
      treeset_abs (snd (kefir_hashtreeset_add True s k)) = insert k (treeset_abs s)"
    using map.ins_result [OF tree, of k 0] ok
    by (cases "kefir_hashtree_insert True (hts_tree s) k 0")
      (auto simp: kefir_hashtreeset_add_def treeset_ok_def treeset_abs_def split: if_splits option.splits)
  show "fst (kefir_hashtreeset_delete s k) = KEFIR_OK \<and> treeset_ok ops (snd (kefir_hashtreeset_delete s k)) \<and>
      treeset_abs (snd (kefir_hashtreeset_delete s k)) = treeset_abs s - {k}"
    using map.del_result [OF tree, of k] ok
    by (cases "kefir_hashtree_delete (hts_tree s) k")
      (auto simp: kefir_hashtreeset_delete_def treeset_ok_def treeset_abs_def split: if_splits option.splits)
qed

lemma merge_loop_each:
  "length (iterate ops n it) < n \<Longrightarrow>
   hashtreeset_merge_loop alloc ops None n target
     (case it of None \<Rightarrow> Inl KEFIR_ITERATOR_END | Some node \<Rightarrow> Inr (node, node_key (snd node))) =
   Some (each (kefir_hashtreeset_add alloc) target (map fst (iterate ops n it)))"
proof (induction ops n it arbitrary: target rule: iterate.induct)
  case (3 ops n p t)
  then show ?case
    by (auto simp: kefir_hashtreeset_next_def split: prod.splits)
qed auto

context hashtree_order
begin

lemma treeset_merge_correct:
  assumes "treeset_ok ops target" and "treeset_ok ops source"
    and "n > card (treeset_abs source)"
  obtains s where "kefir_hashtreeset_merge True n target source None = Some (KEFIR_OK, s)"
    "treeset_ok ops s" "treeset_abs s = treeset_abs target \<union> treeset_abs source"
proof -
  let ?tree = "hts_tree source" and ?es = "entries (tree_root (hts_tree source))"
  have tree: "hashtree_ok ops ?tree" using assms(2) by (simp add: treeset_ok_def)
  have src: "treeset_abs source = set (map fst ?es)"
    by (simp add: treeset_abs_def hashtree_abs_def dom_map_of_conv_image_fst)
  have "distinct (map fst ?es)" using hashtree_inv_iff [OF tree] keys_sorted_distinct by blast
  then have len: "length ?es < n" using assms(3) distinct_card [of "map fst ?es"] src by simp
  then have it: "iterate ops n (kefir_hashtree_iter ?tree) = ?es"
    using loop_visits [OF tree, of n] hashtree_inv_iff [OF tree] by (simp add: hashtree_loop_def)
  have "kefir_hashtreeset_merge True n target source None = Some (each (kefir_hashtreeset_add True) target (map fst ?es))"
    using merge_loop_each [of ops n "kefir_hashtree_iter ?tree" True target] it len hashtree_inv_iff [OF tree]
    by (simp add: kefir_hashtreeset_merge_def kefir_hashtreeset_iter_def)
  then show thesis
    using that tset.each_add [OF assms(1), of "map fst ?es"] src
    by (cases "each (kefir_hashtreeset_add True) target (map fst ?es)") auto
qed

end

section \<open>Properties\<close>

text \<open>
  C11. The hash set is a set: on any two well-formed sets of integers, merging yields the union,
  subtracting yields the difference, a difference is reported exactly when the sets differ, the
  size is the number of elements, and the membership test decides membership.
\<close>

theorem hashset_set_algebra:
  assumes "hashset_ok kefir_hashtable_uint_ops a" and "hashset_ok kefir_hashtable_uint_ops b"
  shows "hashset_abs (snd (kefir_hashset_merge (\<lambda>_. True) a b)) = hashset_abs a \<union> hashset_abs b \<and>
    hashset_abs (snd (kefir_hashset_subtract a b)) = hashset_abs a - hashset_abs b \<and>
    (kefir_hashset_has_difference a b \<longleftrightarrow> hashset_abs a \<noteq> hashset_abs b) \<and>
    kefir_hashset_size a = card (hashset_abs a) \<and>
    (kefir_hashset_has (snd (kefir_hashset_merge (\<lambda>_. True) a b)) k \<longleftrightarrow>
       kefir_hashset_has a k \<or> kefir_hashset_has b k)"
  using uint_table.hashset_merge [OF assms] uint_table.hashset_subtract [OF assms]
    uint_table.hashset_difference [OF assms] uint_table.hashset_size [OF assms(1)]
    uint_table.hset.has_iff assms
  by simp

lemma hashset_init_ok [simp]: "hashset_ok ops (kefir_hashset_init ops)"
  by (simp add: hashset_ok_def hashtable_ok_def kefir_hashset_init_def)

theorem hashset_set_algebra_witness:
  "let a = snd (each (kefir_hashset_add (\<lambda>_. True)) (kefir_hashset_init kefir_hashtable_uint_ops) [1, 2]);
       b = snd (each (kefir_hashset_add (\<lambda>_. True)) (kefir_hashset_init kefir_hashtable_uint_ops) [2, 3])
   in hashset_abs (snd (kefir_hashset_merge (\<lambda>_. True) a b)) = {1, 2, 3} \<and> kefir_hashset_has_difference a b"
proof -
  define a where "a = snd (each (kefir_hashset_add (\<lambda>_. True)) (kefir_hashset_init kefir_hashtable_uint_ops) [1, 2])"
  define b where "b = snd (each (kefir_hashset_add (\<lambda>_. True)) (kefir_hashset_init kefir_hashtable_uint_ops) [2, 3])"
  have init: "hashset_abs (kefir_hashset_init kefir_hashtable_uint_ops) = {}"
    by (simp add: hashset_abs_def occupied_keys_def kefir_hashset_init_def)
  have "hashset_ok kefir_hashtable_uint_ops a" "hashset_abs a = {1, 2}"
    using uint_table.hset.each_add [OF hashset_init_ok, of "[1, 2]"] init unfolding a_def by auto
  moreover have "hashset_ok kefir_hashtable_uint_ops b" "hashset_abs b = {2, 3}"
    using uint_table.hset.each_add [OF hashset_init_ok, of "[2, 3]"] init unfolding b_def by auto
  moreover have "{1, 2} \<noteq> {2, 3 :: 64 word}" by (simp add: doubleton_eq_iff)
  ultimately show ?thesis using hashset_set_algebra [of a b] unfolding a_def [symmetric] b_def [symmetric] Let_def
    by auto
qed

text \<open>
  C12. Merging tree sets of strings terminates after at most one round more than the source has
  elements and yields the union, and afterwards the membership test answers for the union.
\<close>

theorem hashtreeset_merge_union:
  assumes "treeset_ok kefir_hashtree_str_ops target" and "treeset_ok kefir_hashtree_str_ops source"
    and "card (treeset_abs source) < rounds"
  shows "\<exists>s. kefir_hashtreeset_merge True rounds target source None = Some (KEFIR_OK, s) \<and>
    treeset_abs s = treeset_abs target \<union> treeset_abs source \<and>
    (kefir_hashtreeset_has s k \<longleftrightarrow> kefir_hashtreeset_has target k \<or> kefir_hashtreeset_has source k)"
proof -
  obtain s where "kefir_hashtreeset_merge True rounds target source None = Some (KEFIR_OK, s)"
    "treeset_ok kefir_hashtree_str_ops s" "treeset_abs s = treeset_abs target \<union> treeset_abs source"
    using str_tree.treeset_merge_correct [OF assms] .
  then show ?thesis using str_tree.tset.has_iff assms by auto
qed

lemma treeset_init_ok [simp]: "treeset_ok ops (kefir_hashtreeset_init ops)"
  by (simp add: treeset_ok_def kefir_hashtreeset_init_def)

lemma treeset_init_abs [simp]: "treeset_abs (kefir_hashtreeset_init ops) = {}"
  by (simp add: treeset_abs_def kefir_hashtreeset_init_def)

theorem hashtreeset_merge_union_witness:
  "\<exists>s. kefir_hashtreeset_merge True 2 (kefir_hashtreeset_init kefir_hashtree_str_ops)
          (snd (kefir_hashtreeset_add True (kefir_hashtreeset_init kefir_hashtree_str_ops) (Some ''x''))) None
        = Some (KEFIR_OK, s) \<and> kefir_hashtreeset_has s (Some ''x'')"
proof -
  let ?empty = "kefir_hashtreeset_init kefir_hashtree_str_ops"
  let ?src = "snd (kefir_hashtreeset_add True ?empty (Some ''x''))"
  have src: "treeset_ok kefir_hashtree_str_ops ?src" "treeset_abs ?src = {Some ''x''}"
    using str_tree.tset.add_ok [OF treeset_init_ok, of "Some ''x''"] by auto
  have "kefir_hashtreeset_has ?src (Some ''x'')" using str_tree.tset.has_iff [OF src(1)] src(2) by simp
  then show ?thesis
    using hashtreeset_merge_union [OF treeset_init_ok src(1), of 2 "Some ''x''"] src(2) by auto
qed

end
