(* ===== verification/Kefir_Bitset.thy ===== *)
theory Kefir_Bitset
  imports Kefir_Prelude
begin

text \<open>
  The bit vector of \<^verbatim>\<open>source/core/bitset.c\<close>, over an array of 64-bit words. A bit vector without
  content has the empty list; freshly allocated memory holds arbitrary words, which the allocator
  parameter provides (\<^const>\<open>None\<close> when it refuses the request), so that the theorems hold whatever a new
  array contains. The operations are shown to be those of a list of booleans.

  Lengths and indices are natural numbers. The one sum that can leave the range of \<^verbatim>\<open>kefir_size_t\<close> for arguments that
  are in it, the end of a run in \<^verbatim>\<open>kefir_bitset_find_consecutive\<close>, is taken modulo \<open>2 ^ 64\<close>; the index of
  \<^verbatim>\<open>kefir_bitset_set_consecutive\<close> passes the length of the vector, where the loop stops, before it could wrap.
\<close>

unbundle bit_operations_syntax

section \<open>Model\<close>

record bitset =
  bs_content :: "64 word list"
  bs_length :: nat
  bs_capacity :: nat
  bs_static :: bool

type_synonym bitset_mem = "nat \<Rightarrow> (nat \<Rightarrow> 64 word) option"

definition BITS_PER_ENTRY :: nat where
  "BITS_PER_ENTRY = 8 * 8"

definition kefir_bitset_init :: bitset where
  "kefir_bitset_init = \<lparr>bs_content = [], bs_length = 0, bs_capacity = 0, bs_static = False\<rparr>"

definition kefir_bitset_init_static :: "nat \<Rightarrow> nat \<Rightarrow> bitset result" where
  "kefir_bitset_init_static capacity len =
     (if capacity > 0
      then Inr \<lparr>bs_content = replicate capacity 0, bs_length = len, bs_capacity = capacity, bs_static = True\<rparr>
      else Inl KEFIR_INVALID_PARAMETER)"

definition kefir_bitset_get :: "bitset \<Rightarrow> nat \<Rightarrow> bool result" where
  "kefir_bitset_get b index =
     (if index < bs_length b
      then let position = index div BITS_PER_ENTRY; offset = index mod BITS_PER_ENTRY;
               value = drop_bit offset (bs_content b ! position) AND 1
           in Inr (value = 1)
      else Inl KEFIR_OUT_OF_BOUNDS)"

definition kefir_bitset_set :: "bitset \<Rightarrow> nat \<Rightarrow> bool \<Rightarrow> kefir_result \<times> bitset" where
  "kefir_bitset_set b index bit_value =
     (if index < bs_length b
      then let position = index div BITS_PER_ENTRY; offset = index mod BITS_PER_ENTRY;
               msk = NOT (push_bit offset 1);
               update = push_bit offset (if bit_value then 1 else 0);
               value = bs_content b ! position
           in (KEFIR_OK, b\<lparr>bs_content := (bs_content b)[position := (value AND msk) OR update]\<rparr>)
      else (KEFIR_OUT_OF_BOUNDS, b))"

text \<open>The loop of \<^verbatim>\<open>kefir_bitset_find\<close>, with \<open>n\<close> bits left to inspect.\<close>

primrec bitset_find_loop :: "bitset \<Rightarrow> bool \<Rightarrow> nat \<Rightarrow> nat \<Rightarrow> nat result" where
  "bitset_find_loop b value 0 i = Inl KEFIR_NOT_FOUND"
| "bitset_find_loop b value (Suc n) i =
     bindE (kefir_bitset_get b i) (\<lambda>bv.
       if bv = value then Inr i else bitset_find_loop b value n (i + 1))"

definition kefir_bitset_find :: "bitset \<Rightarrow> bool \<Rightarrow> nat \<Rightarrow> nat result" where
  "kefir_bitset_find b value begin = bitset_find_loop b value (bs_length b - begin) begin"

fun kefir_bitset_set_consecutive :: "bitset \<Rightarrow> nat \<Rightarrow> nat \<Rightarrow> bool \<Rightarrow> kefir_result \<times> bitset" where
  "kefir_bitset_set_consecutive b index 0 value = (KEFIR_OK, b)"
| "kefir_bitset_set_consecutive b index (Suc n) value =
     (case kefir_bitset_set b index value of (res, b') \<Rightarrow>
        if res \<noteq> KEFIR_OK then (res, b') else kefir_bitset_set_consecutive b' (index + 1) n value)"

text \<open>
  The inner loop of \<^verbatim>\<open>kefir_bitset_find_consecutive\<close>: do the bits from \<open>i\<close> up to \<open>end_index\<close>, which is
  \<^verbatim>\<open>index + length\<close> in \<^verbatim>\<open>kefir_size_t\<close>, have the value?
\<close>

function bitset_run_matches :: "bitset \<Rightarrow> bool \<Rightarrow> nat \<Rightarrow> nat \<Rightarrow> bool result" where
  "bitset_run_matches b value end_index i =
     (if i < end_index then
        if i \<ge> bs_length b then Inr False
        else bindE (kefir_bitset_get b i) (\<lambda>bv.
               if bv \<noteq> value then Inr False else bitset_run_matches b value end_index (i + 1))
      else Inr True)"
  by pat_completeness auto
termination by (relation "measure (\<lambda>(b, value, end_index, i). end_index - i)") auto

declare bitset_run_matches.simps [simp del]

definition size_add :: "nat \<Rightarrow> nat \<Rightarrow> nat" where
  "size_add m n = (m + n) mod 2 ^ 64"

lemma bitset_find_loop_ge: "bitset_find_loop b value n i = Inr j \<Longrightarrow> i \<le> j"
  by (induction n arbitrary: i) (auto simp: bindE_iffs split: if_splits dest: Suc_leD)

lemma kefir_bitset_find_ge: "kefir_bitset_find b value i = Inr j \<Longrightarrow> i \<le> j"
  by (simp add: kefir_bitset_find_def bitset_find_loop_ge)

function kefir_bitset_find_consecutive :: "bitset \<Rightarrow> bool \<Rightarrow> nat \<Rightarrow> nat \<Rightarrow> nat result" where
  "kefir_bitset_find_consecutive b value len index =
     (if index < bs_length b
      then bindE (kefir_bitset_find b value index) (\<lambda>index'.
           bindE (bitset_run_matches b value (size_add index' len) index') (\<lambda>found.
             if found then Inr index'
             else kefir_bitset_find_consecutive b value len (index' + 1)))
      else Inl KEFIR_NOT_FOUND)"
  by pat_completeness auto
termination
  by (relation "measure (\<lambda>(b, value, len, index). bs_length b - index)")
    (auto dest!: kefir_bitset_find_ge)

declare kefir_bitset_find_consecutive.simps [simp del]

definition kefir_bitset_clear :: "bitset \<Rightarrow> bitset" where
  "kefir_bitset_clear b = b\<lparr>bs_content := replicate (length (bs_content b)) 0\<rparr>"

definition kefir_bitset_length :: "bitset \<Rightarrow> nat" where
  "kefir_bitset_length b = bs_length b"

text \<open>The new words of a grown array keep their arbitrary content until bits are set.\<close>

definition kefir_bitset_resize :: "bitset_mem \<Rightarrow> bitset \<Rightarrow> nat \<Rightarrow> kefir_result \<times> bitset" where
  "kefir_bitset_resize mem b new_length =
     (if bs_static b then (KEFIR_INVALID_REQUEST, b)
      else if new_length = bs_length b then (KEFIR_OK, b)
      else if new_length < bs_length b then (KEFIR_OK, b\<lparr>bs_length := new_length\<rparr>)
      else
        (let zero_new = (\<lambda>b. kefir_bitset_set_consecutive (b\<lparr>bs_length := new_length\<rparr>) (bs_length b)
                                (new_length - bs_length b) False) in
         if new_length \<ge> bs_capacity b * BITS_PER_ENTRY
         then (let new_capacity = new_length div BITS_PER_ENTRY + 8 in
               case mem (8 * new_capacity) of
                 None \<Rightarrow> (KEFIR_MEMALLOC_FAILURE, b)
               | Some garbage \<Rightarrow>
                   zero_new (b\<lparr>bs_content := take (bs_capacity b) (bs_content b) @
                                             map garbage [bs_capacity b..<new_capacity],
                              bs_capacity := new_capacity\<rparr>))
         else zero_new b))"

definition kefir_bitset_ensure :: "bitset_mem \<Rightarrow> bitset \<Rightarrow> nat \<Rightarrow> kefir_result \<times> bitset" where
  "kefir_bitset_ensure mem b new_length =
     (if bs_static b then (KEFIR_INVALID_REQUEST, b)
      else if new_length > bs_length b then kefir_bitset_resize mem b new_length
      else (KEFIR_OK, b))"


section \<open>The bits as a list\<close>

definition bitset_inv :: "bitset \<Rightarrow> bool" where
  "bitset_inv b \<longleftrightarrow> length (bs_content b) = bs_capacity b \<and> bs_length b \<le> bs_capacity b * BITS_PER_ENTRY"

definition stored_bit :: "bitset \<Rightarrow> nat \<Rightarrow> bool" where
  "stored_bit b i = bit (bs_content b ! (i div BITS_PER_ENTRY)) (i mod BITS_PER_ENTRY)"

definition bits :: "bitset \<Rightarrow> bool list" where
  "bits b = map (stored_bit b) [0..<bs_length b]"

lemma length_bits [simp]: "length (bits b) = bs_length b"
  by (simp add: bits_def)

lemma nth_bits [simp]: "i < bs_length b \<Longrightarrow> bits b ! i = stored_bit b i"
  by (simp add: bits_def)

lemma get_bits: "kefir_bitset_get b i = (if i < bs_length b then Inr (bits b ! i) else Inl KEFIR_OUT_OF_BOUNDS)"
proof -
  have "(drop_bit n w AND 1 = (1 :: 64 word)) \<longleftrightarrow> bit w n" for n and w :: "64 word"
    by (simp add: and_one_eq bit_iff_odd_drop_bit odd_iff_mod_2_eq_one)
  then show ?thesis by (simp add: kefir_bitset_get_def stored_bit_def Let_def)
qed

lemma set_word:
  assumes "n < 64" "m < 64"
  shows "bit ((w AND NOT (push_bit n 1)) OR push_bit n (if v then 1 else 0) :: 64 word) m = (if m = n then v else bit w m)"
  using assms by (auto simp: bit_or_iff bit_and_iff bit_not_iff bit_push_bit_iff bit_exp_iff bit_1_iff)

lemma position_in_range: "bitset_inv b \<Longrightarrow> i < bs_length b \<Longrightarrow> i div BITS_PER_ENTRY < length (bs_content b)"
  by (auto simp: bitset_inv_def BITS_PER_ENTRY_def)

lemma set_bits:
  assumes inv: "bitset_inv b" and i: "i < bs_length b"
  shows "fst (kefir_bitset_set b i v) = KEFIR_OK" "bitset_inv (snd (kefir_bitset_set b i v))"
    "bits (snd (kefir_bitset_set b i v)) = (bits b)[i := v]"
    "bs_capacity (snd (kefir_bitset_set b i v)) = bs_capacity b"
    "bs_length (snd (kefir_bitset_set b i v)) = bs_length b"
    "bs_static (snd (kefir_bitset_set b i v)) = bs_static b"
    "j \<noteq> i \<Longrightarrow> stored_bit (snd (kefir_bitset_set b i v)) j = stored_bit b j"
proof -
  let ?b = "snd (kefir_bitset_set b i v)"
  show "fst (kefir_bitset_set b i v) = KEFIR_OK" "bitset_inv ?b" "bs_length ?b = bs_length b"
    "bs_capacity ?b = bs_capacity b" "bs_static ?b = bs_static b"
    using assms by (auto simp: kefir_bitset_set_def bitset_inv_def Let_def)
  have bit: "stored_bit ?b j = (if j = i then v else stored_bit b j)" for j
  proof (cases "j div BITS_PER_ENTRY = i div BITS_PER_ENTRY")
    case True
    then have "j mod BITS_PER_ENTRY = i mod BITS_PER_ENTRY \<longleftrightarrow> j = i"
      by (metis div_mult_mod_eq)
    then show ?thesis
      using True i position_in_range [OF inv i] set_word [of "i mod 64" "j mod 64"]
      by (simp add: kefir_bitset_set_def stored_bit_def Let_def BITS_PER_ENTRY_def)
  next
    case False
    then show ?thesis using i by (auto simp: kefir_bitset_set_def stored_bit_def Let_def)
  qed
  show "bits ?b = (bits b)[i := v]"
    by (rule nth_equalityI) (auto simp: \<open>bs_length ?b = bs_length b\<close> bit nth_list_update)
  show "stored_bit ?b j = stored_bit b j" if "j \<noteq> i" using bit that by simp
qed

lemma set_out_of_bounds: "\<not> i < bs_length b \<Longrightarrow> kefir_bitset_set b i v = (KEFIR_OUT_OF_BOUNDS, b)"
  by (simp add: kefir_bitset_set_def)

text \<open>Setting a run of bits, and the prefix that is set when the run leaves the vector.\<close>

definition run_set :: "bool list \<Rightarrow> nat \<Rightarrow> nat \<Rightarrow> bool \<Rightarrow> bool list" where
  "run_set bs index n v = map (\<lambda>i. if index \<le> i \<and> i < index + n then v else bs ! i) [0..<length bs]"

lemma run_set_0: "run_set bs index 0 v = bs"
  by (rule nth_equalityI) (auto simp: run_set_def)

lemma run_set_outside: "length bs \<le> index \<Longrightarrow> run_set bs index n v = bs"
  by (rule nth_equalityI) (auto simp: run_set_def)

lemma run_set_step: "run_set (bs[index := v]) (Suc index) n v = run_set bs index (Suc n) v"
  by (rule nth_equalityI) (auto simp: run_set_def nth_list_update)

lemma set_consecutive_bits:
  "bitset_inv b \<Longrightarrow>
     (case kefir_bitset_set_consecutive b index n v of (res, b') \<Rightarrow>
        bitset_inv b' \<and> bits b' = run_set (bits b) index n v \<and> bs_length b' = bs_length b \<and>
        bs_capacity b' = bs_capacity b \<and> bs_static b' = bs_static b \<and>
        res = (if n = 0 \<or> index + n \<le> bs_length b then KEFIR_OK else KEFIR_OUT_OF_BOUNDS))"
proof (induction n arbitrary: b index)
  case 0
  then show ?case by (simp add: run_set_0)
next
  case (Suc n)
  show ?case
  proof (cases "index < bs_length b")
    case True
    obtain b1 where b1: "kefir_bitset_set b index v = (KEFIR_OK, b1)"
      using set_bits(1) [OF Suc.prems True, of v] by (cases "kefir_bitset_set b index v") auto
    have s: "bitset_inv b1" "bits b1 = (bits b)[index := v]" "bs_length b1 = bs_length b"
      "bs_capacity b1 = bs_capacity b" "bs_static b1 = bs_static b"
      using set_bits(2-6) [OF Suc.prems True, of v] b1 by auto
    show ?thesis using Suc.IH [OF s(1), of "index + 1"] True b1 s(2-)
      by (auto simp: run_set_step split: prod.splits)
  next
    case False
    then show ?thesis using Suc.prems by (auto simp: set_out_of_bounds run_set_outside)
  qed
qed

lemma find_loop_bits:
  "i + n = bs_length b \<Longrightarrow>
     (case bitset_find_loop b v n i of
        Inr j \<Rightarrow> i \<le> j \<and> j < bs_length b \<and> bits b ! j = v \<and> (\<forall>k. i \<le> k \<and> k < j \<longrightarrow> bits b ! k \<noteq> v)
      | Inl e \<Rightarrow> e = KEFIR_NOT_FOUND \<and> (\<forall>k. i \<le> k \<and> k < bs_length b \<longrightarrow> bits b ! k \<noteq> v))"
proof (induction n arbitrary: i)
  case (Suc n)
  have get: "kefir_bitset_get b i = Inr (bits b ! i)" using Suc.prems by (simp add: get_bits)
  show ?case
  proof (cases "bits b ! i = v")
    case True
    then show ?thesis using get Suc.prems by auto
  next
    case False
    have "\<And>k. i \<le> k \<longleftrightarrow> k = i \<or> Suc i \<le> k" by auto
    then show ?thesis using False get Suc.IH [of "Suc i"] Suc.prems
      by (auto split: sum.splits)
  qed
qed auto

lemma find_bits:
  "case kefir_bitset_find b v i of
     Inr j \<Rightarrow> i \<le> j \<and> j < bs_length b \<and> bits b ! j = v \<and> (\<forall>k. i \<le> k \<and> k < j \<longrightarrow> bits b ! k \<noteq> v)
   | Inl e \<Rightarrow> e = KEFIR_NOT_FOUND \<and> (\<forall>k. i \<le> k \<and> k < bs_length b \<longrightarrow> bits b ! k \<noteq> v)"
proof (cases "i \<le> bs_length b")
  case True
  then show ?thesis using find_loop_bits [where i = i and n = "bs_length b - i" and b = b and v = v] by (simp add: kefir_bitset_find_def)
qed (auto simp: kefir_bitset_find_def)

definition run_at :: "bitset \<Rightarrow> bool \<Rightarrow> nat \<Rightarrow> nat \<Rightarrow> bool" where
  "run_at b v n i \<longleftrightarrow> i + n \<le> bs_length b \<and> (\<forall>k. i \<le> k \<and> k < i + n \<longrightarrow> bits b ! k = v)"

lemma run_at_Suc: "run_at b v (Suc n) i \<longleftrightarrow> i < bs_length b \<and> bits b ! i = v \<and> run_at b v n (Suc i)"
proof -
  have "\<And>k. i \<le> k \<longleftrightarrow> k = i \<or> Suc i \<le> k" by auto
  then show ?thesis by (auto simp: run_at_def)
qed

lemma run_matches_bits: "i \<le> bs_length b \<Longrightarrow> bitset_run_matches b v (i + n) i = Inr (run_at b v n i)"
proof (induction n arbitrary: i)
  case 0
  then show ?case by (auto simp: run_at_def bitset_run_matches.simps)
next
  case (Suc n)
  show ?case
    using Suc.prems Suc.IH [of "Suc i"] by (subst bitset_run_matches.simps) (auto simp: run_at_Suc get_bits)
qed

lemma size_add_small: "m + n < 2 ^ 64 \<Longrightarrow> size_add m n = m + n"
  by (simp add: size_add_def)

lemma find_consecutive_bits:
  assumes "n > 0" "bs_length b + n \<le> 2 ^ 64"
  shows "case kefir_bitset_find_consecutive b v n i of
     Inr j \<Rightarrow> i \<le> j \<and> run_at b v n j \<and> (\<forall>k. i \<le> k \<and> k < j \<longrightarrow> \<not> run_at b v n k)
   | Inl e \<Rightarrow> e = KEFIR_NOT_FOUND \<and> (\<forall>k\<ge>i. \<not> run_at b v n k)"
  using assms
proof (induction b v n i rule: kefir_bitset_find_consecutive.induct)
  case (1 b v n i)
  have head: "bits b ! k = v" "k < bs_length b" if "run_at b v n k" for k
    using that \<open>n > 0\<close> by (auto simp: run_at_def)
  show ?case
  proof (cases "i < bs_length b")
    case False
    then show ?thesis using head(2) by (fastforce simp: not_less kefir_bitset_find_consecutive.simps)
  next
    case True
    show ?thesis
    proof (cases "kefir_bitset_find b v i")
      case (Inl e)
      then show ?thesis using True head find_bits [where b = b and v = v and i = i]
        by (auto simp: kefir_bitset_find_consecutive.simps)
    next
      case (Inr j)
      have j: "i \<le> j" "j < bs_length b" "\<And>k. i \<le> k \<Longrightarrow> k < j \<Longrightarrow> bits b ! k \<noteq> v"
        using find_bits [where b = b and v = v and i = i] Inr by auto
      have before: "\<not> run_at b v n k" if "i \<le> k" "k < j" for k using j(3) that head by blast
      have m: "bitset_run_matches b v (size_add j n) j = Inr (run_at b v n j)"
        using run_matches_bits [of j b v n] j(2) 1(3) size_add_small [of j n] by simp
      show ?thesis
      proof (cases "run_at b v n j")
        case found: True
        then have "kefir_bitset_find_consecutive b v n i = Inr j" using True Inr m by (simp add: kefir_bitset_find_consecutive.simps)
        then show ?thesis using j(1) found before by simp
      next
        case no: False
        have eq: "kefir_bitset_find_consecutive b v n i = kefir_bitset_find_consecutive b v n (j + 1)"
          using True Inr m no by (simp add: kefir_bitset_find_consecutive.simps [of b v n i])
        have all: "\<not> run_at b v n k" if "i \<le> k" "k < j + 1" for k
          using that before no by (metis less_Suc_eq Suc_eq_plus1)
        note IH = "1.IH" [OF True Inr m no 1(2,3)]
        show ?thesis
        proof (cases "kefir_bitset_find_consecutive b v n (j + 1)")
          case (Inl e)
          have "\<not> run_at b v n k" if "i \<le> k" for k
            using all [OF that] IH Inl by (cases "k < j + 1") auto
          then show ?thesis using eq IH Inl by simp
        next
          case (Inr q)
          have "\<not> run_at b v n k" if "i \<le> k" "k < q" for k
            using all [OF that(1)] that(2) IH Inr by (cases "k < j + 1") auto
          then show ?thesis using eq IH Inr j(1) by auto
        qed
      qed
    qed
  qed
qed

section \<open>Resizing and copying\<close>

definition resized_bits :: "bool list \<Rightarrow> nat \<Rightarrow> bool list" where
  "resized_bits bs n = take n bs @ replicate (n - length bs) False"

text \<open>Zeroing the new bits of a vector whose array is large enough.\<close>

lemma zero_new_bits:
  assumes "length (bs_content b) = bs_capacity b" and "bs_length b \<le> new_length"
    and "new_length \<le> bs_capacity b * BITS_PER_ENTRY"
  shows "case kefir_bitset_set_consecutive (b\<lparr>bs_length := new_length\<rparr>) (bs_length b) (new_length - bs_length b) False of
     (res, b') \<Rightarrow> res = KEFIR_OK \<and> bitset_inv b' \<and> bs_length b' = new_length \<and> bs_static b' = bs_static b \<and>
       bits b' = resized_bits (bits b) new_length"
proof -
  let ?b = "b\<lparr>bs_length := new_length\<rparr>"
  have inv: "bitset_inv ?b" using assms by (simp add: bitset_inv_def)
  have old: "stored_bit ?b i = stored_bit b i" for i by (simp add: stored_bit_def)
  have "run_set (bits ?b) (bs_length b) (new_length - bs_length b) False = resized_bits (bits b) new_length"
    by (rule nth_equalityI)
      (use assms(2) in \<open>auto simp: run_set_def resized_bits_def nth_append old\<close>)
  then show ?thesis
    using set_consecutive_bits [OF inv, where index = "bs_length b" and n = "new_length - bs_length b" and v = False] assms(2)
    by (auto split: prod.splits)
qed

lemma bits_grown_content:
  assumes "bitset_inv b"
  shows "bits (b\<lparr>bs_content := take (bs_capacity b) (bs_content b) @ xs, bs_capacity := c\<rparr>) = bits b"
proof (rule nth_equalityI)
  fix i assume "i < length (bits (b\<lparr>bs_content := take (bs_capacity b) (bs_content b) @ xs, bs_capacity := c\<rparr>))"
  then have "i < bs_length b" by simp
  then show "bits (b\<lparr>bs_content := take (bs_capacity b) (bs_content b) @ xs, bs_capacity := c\<rparr>) ! i = bits b ! i"
    using position_in_range [OF assms] assms by (simp add: stored_bit_def bitset_inv_def nth_append)
qed simp

lemma resize_bits:
  assumes inv: "bitset_inv b" and dyn: "\<not> bs_static b"
  shows "case kefir_bitset_resize mem b n of (res, b') \<Rightarrow>
     bitset_inv b' \<and> bs_static b' = bs_static b \<and>
     (res = KEFIR_OK \<and> bs_length b' = n \<and> bits b' = resized_bits (bits b) n \<or>
      res = KEFIR_MEMALLOC_FAILURE \<and> b' = b \<and> (\<exists>bytes. mem bytes = None))"
proof -
  consider (same) "n = bs_length b" | (shrink) "n < bs_length b"
    | (fits) "n > bs_length b" "n < bs_capacity b * BITS_PER_ENTRY"
    | (grow) "n > bs_length b" "n \<ge> bs_capacity b * BITS_PER_ENTRY" by linarith
  then show ?thesis
  proof cases
    case same
    then show ?thesis using inv dyn by (simp add: kefir_bitset_resize_def resized_bits_def)
  next
    case shrink
    have "bits (b\<lparr>bs_length := n\<rparr>) = take n (bits b)"
      by (rule nth_equalityI) (use shrink in \<open>auto simp: stored_bit_def\<close>)
    then show ?thesis using shrink inv dyn
      by (simp add: kefir_bitset_resize_def resized_bits_def bitset_inv_def)
  next
    case fits
    then show ?thesis using inv dyn zero_new_bits [of b n]
      by (auto simp: kefir_bitset_resize_def bitset_inv_def split: prod.splits)
  next
    case grow
    let ?cap = "n div BITS_PER_ENTRY + 8"
    have cap: "bs_capacity b \<le> ?cap" "n \<le> ?cap * BITS_PER_ENTRY"
      using grow(2) by (auto simp: BITS_PER_ENTRY_def)
    show ?thesis
    proof (cases "mem (8 * ?cap)")
      case None
      then have "kefir_bitset_resize mem b n = (KEFIR_MEMALLOC_FAILURE, b)"
        using grow dyn by (simp add: kefir_bitset_resize_def Let_def)
      then show ?thesis using None inv by auto
    next
      case (Some garbage)
      let ?b = "b\<lparr>bs_content := take (bs_capacity b) (bs_content b) @ map garbage [bs_capacity b..<?cap],
                  bs_capacity := ?cap\<rparr>"
      have r: "kefir_bitset_resize mem b n =
          kefir_bitset_set_consecutive (?b\<lparr>bs_length := n\<rparr>) (bs_length ?b) (n - bs_length ?b) False"
        using grow dyn Some by (simp add: kefir_bitset_resize_def Let_def)
      have "length (bs_content ?b) = bs_capacity ?b" using inv cap by (simp add: bitset_inv_def)
      from zero_new_bits [OF this, of n] grow cap bits_grown_content [OF inv] show ?thesis
        unfolding r by (auto split: prod.splits)
    qed
  qed
qed


section \<open>Properties\<close>



text \<open>
  C14. Bit vectors as an allocator of runs, when the length of the vector and the length of the run add up to at most
  \<open>2 ^ 64\<close>, so that the end of a run does not wrap around in \<^verbatim>\<open>kefir_size_t\<close>: searching for \<open>n\<close> clear bits
  yields the first position at or after the start where such a run lies inside the vector (and reports its absence only
  when there is none); setting the found run succeeds and changes exactly its bits.
\<close>

theorem bitset_run_allocation:
  assumes "bitset_inv b" and "n > 0" and "bs_length b + n \<le> 2 ^ 64"
  shows "case kefir_bitset_find_consecutive b False n start of
     Inl e \<Rightarrow> e = KEFIR_NOT_FOUND \<and> (\<forall>k\<ge>start. \<not> run_at b False n k)
   | Inr j \<Rightarrow> start \<le> j \<and> run_at b False n j \<and> (\<forall>k. start \<le> k \<and> k < j \<longrightarrow> \<not> run_at b False n k) \<and>
       (case kefir_bitset_set_consecutive b j n True of (res, b') \<Rightarrow>
          res = KEFIR_OK \<and> run_at b' True n j \<and> bs_length b' = bs_length b \<and>
          (\<forall>i. i < bs_length b \<and> \<not> (j \<le> i \<and> i < j + n) \<longrightarrow> bits b' ! i = bits b ! i))"
proof (cases "kefir_bitset_find_consecutive b False n start")
  case (Inl e)
  then show ?thesis using find_consecutive_bits [OF assms(2,3), where v = False and i = start] by simp
next
  case (Inr j)
  have j: "start \<le> j" "run_at b False n j" "\<forall>k. start \<le> k \<and> k < j \<longrightarrow> \<not> run_at b False n k"
    using find_consecutive_bits [OF assms(2,3), where v = False and i = start] Inr by auto
  obtain res b' where r: "kefir_bitset_set_consecutive b j n True = (res, b')" by fastforce
  have s: "bits b' = run_set (bits b) j n True" "bs_length b' = bs_length b" "res = KEFIR_OK"
    using set_consecutive_bits [OF assms(1), where index = j and n = n and v = True] r j(2) by (auto simp: run_at_def)
  have nth: "bits b' ! i = (if j \<le> i \<and> i < j + n then True else bits b ! i)" if "i < bs_length b" for i
    unfolding s(1) using that by (simp add: run_set_def)
  have "run_at b' True n j" unfolding run_at_def s(2) using j(2) nth by (auto simp: run_at_def)
  then show ?thesis using Inr j r s(2,3) nth by auto
qed

theorem bitset_run_allocation_witness:
  "let b = snd (kefir_bitset_resize (\<lambda>_. Some (\<lambda>_. 0)) kefir_bitset_init 4) in
   case kefir_bitset_find_consecutive b False 2 1 of Inl e \<Rightarrow> False | Inr j \<Rightarrow> j = 1"
proof -
  let ?b = "snd (kefir_bitset_resize (\<lambda>_. Some (\<lambda>_. 0)) kefir_bitset_init 4)"
  have init: "bitset_inv kefir_bitset_init" "\<not> bs_static kefir_bitset_init" "bits kefir_bitset_init = []"
    by (auto simp: bitset_inv_def kefir_bitset_init_def bits_def)
  have b: "bitset_inv ?b" "bits ?b = [False, False, False, False]" "bs_length ?b = 4"
    using resize_bits [OF init(1,2), where mem = "\<lambda>_. Some (\<lambda>_. 0)" and n = 4] init(3)
    by (auto simp: resized_bits_def eval_nat_numeral split: prod.splits)
  have "run_at ?b False 2 1"
    unfolding run_at_def b(2,3) by (auto simp: less_Suc_eq numeral_2_eq_2)
  then show ?thesis
    using bitset_run_allocation [OF b(1), where n = 2 and start = 1] b(3) by (auto split: sum.splits)
qed

text \<open>
  Beyond that bound the search is wrong: from the index 1 on, \<open>2 ^ 64 - 1\<close> bits end at the index 0, and the empty
  inner loop takes any clear bit for a run of them.
\<close>

lemma find_consecutive_wraps:
  "kefir_bitset_find_consecutive \<lparr>bs_content = [0], bs_length = 2, bs_capacity = 1, bs_static = False\<rparr> False (2 ^ 64 - 1) 1 = Inr 1"
  by (simp add: kefir_bitset_find_consecutive.simps bitset_run_matches.simps size_add_def kefir_bitset_find_def kefir_bitset_get_def
      BITS_PER_ENTRY_def)

end
