(* ===== verification/Kefir_Sort.thy ===== *)
theory Kefir_Sort
  imports Kefir_Prelude "HOL-Library.Multiset"
begin

text \<open>
  The merge sort of \<^verbatim>\<open>source/core/sort.c\<close>. An array is the list of its elements; the comparator may
  fail, and the allocator is a predicate on the number of bytes asked for. A failed sort leaves
  the array as it was when the halves or the memory fail, and overwritten in part when the
  comparator fails while merging, so the result code comes with the array.
\<close>

section \<open>The sort\<close>

type_synonym 'a comparator_fn = "'a \<Rightarrow> 'a \<Rightarrow> int result"

text \<open>\<^verbatim>\<open>memcpy\<close> of a list of elements to the position \<open>k\<close>.\<close>

definition overwrite :: "'a list \<Rightarrow> nat \<Rightarrow> 'a list \<Rightarrow> 'a list" where
  "overwrite a k zs = take k a @ zs @ drop (k + length zs) a"

function mergesort_merge ::
    "'a comparator_fn \<Rightarrow> 'a list \<Rightarrow> 'a list \<Rightarrow> nat \<Rightarrow> nat \<Rightarrow> nat \<Rightarrow> 'a list \<Rightarrow> kefir_result \<times> nat \<times> 'a list" where
  "mergesort_merge cmp xs ys i j k a =
     (if k < length a then
        if i = length xs then (KEFIR_OK, k + (length ys - j), overwrite a k (drop j ys))
        else if j = length ys then (KEFIR_OK, k + (length xs - i), overwrite a k (drop i xs))
        else case cmp (xs ! i) (ys ! j) of
               Inl e \<Rightarrow> (e, k, a)
             | Inr c \<Rightarrow>
                 if c \<le> 0 then mergesort_merge cmp xs ys (i + 1) j (k + 1) (a[k := xs ! i])
                 else mergesort_merge cmp xs ys i (j + 1) (k + 1) (a[k := ys ! j])
      else (KEFIR_OK, k, a))"
  by pat_completeness auto
termination by (relation "measure (\<lambda>(cmp, xs, ys, i, j, k, a). length a - k)") auto

declare mergesort_merge.simps [simp del]

function kefir_mergesort :: "(nat \<Rightarrow> bool) \<Rightarrow> nat \<Rightarrow> 'a comparator_fn \<Rightarrow> 'a list \<Rightarrow> kefir_result \<times> 'a list" where
  "kefir_mergesort alloc element_size cmp xs =
     (if element_size = 0 then (KEFIR_INVALID_PARAMETER, xs)
      else if length xs \<le> 1 then (KEFIR_OK, xs)
      else if length xs = 2 then
        (case cmp (xs ! 0) (xs ! 1) of
           Inl e \<Rightarrow> (e, xs)
         | Inr c \<Rightarrow>
             if c > 0 then
               if alloc element_size then (KEFIR_OK, [xs ! 1, xs ! 0]) else (KEFIR_MEMALLOC_FAILURE, xs)
             else (KEFIR_OK, xs))
      else if \<not> alloc (element_size * length xs) then (KEFIR_MEMALLOC_FAILURE, xs)
      else
        let n = length xs div 2;
            (res1, first_half) = kefir_mergesort alloc element_size cmp (take n xs)
        in if res1 \<noteq> KEFIR_OK then (res1, xs)
           else let (res2, second_half) = kefir_mergesort alloc element_size cmp (drop n xs)
                in if res2 \<noteq> KEFIR_OK then (res2, xs)
                   else let (res, k, a) = mergesort_merge cmp first_half second_half 0 0 0 xs
                        in if res \<noteq> KEFIR_OK then (res, a)
                           else if k = length xs then (KEFIR_OK, a) else (KEFIR_INTERNAL_ERROR, a))"
  by pat_completeness auto
termination by (relation "measure (\<lambda>(alloc, element_size, cmp, xs). length xs)") auto

declare kefir_mergesort.simps [simp del]

section \<open>Merging two lists\<close>

fun merge_spec :: "('a \<Rightarrow> 'a \<Rightarrow> bool) \<Rightarrow> 'a list \<Rightarrow> 'a list \<Rightarrow> 'a list" where
  "merge_spec le [] ys = ys"
| "merge_spec le (x # xs) [] = x # xs"
| "merge_spec le (x # xs) (y # ys) =
     (if le x y then x # merge_spec le xs (y # ys) else y # merge_spec le (x # xs) ys)"

lemma mset_merge_spec [simp]: "mset (merge_spec le xs ys) = mset xs + mset ys"
  by (induction le xs ys rule: merge_spec.induct) auto

lemma set_merge_spec [simp]: "set (merge_spec le xs ys) = set xs \<union> set ys"
  by (metis mset_merge_spec set_mset_mset set_mset_union)

lemma length_merge_spec [simp]: "length (merge_spec le xs ys) = length xs + length ys"
  by (metis mset_merge_spec size_mset size_union)

text \<open>A total preorder, as a comparator decides it.\<close>

definition total_preorder :: "('a \<Rightarrow> 'a \<Rightarrow> bool) \<Rightarrow> bool" where
  "total_preorder le \<longleftrightarrow> (\<forall>x y. le x y \<or> le y x) \<and> (\<forall>x y z. le x y \<longrightarrow> le y z \<longrightarrow> le x z)"

lemma total_preorderD:
  assumes "total_preorder le"
  shows "le x y \<or> le y x" "le x y \<Longrightarrow> le y z \<Longrightarrow> le x z"
  using assms unfolding total_preorder_def by blast+

lemma sorted_merge_spec:
  assumes "total_preorder le" "sorted_wrt le xs" "sorted_wrt le ys"
  shows "sorted_wrt le (merge_spec le xs ys)"
  using assms
proof (induction le xs ys rule: merge_spec.induct)
  case (3 le x xs y ys)
  note tot = total_preorderD(1) [OF 3(3), of x y] and trans = total_preorderD(2) [OF 3(3)]
  show ?case
  proof (cases "le x y")
    case True
    then have "\<forall>z \<in> set ys. le x z" using 3(5) trans [of x y] by auto
    then show ?thesis using True 3 by auto
  next
    case False
    then have "le y x" using tot by simp
    then have "\<forall>z \<in> set xs. le y z" using 3(4) trans [of y x] by auto
    then show ?thesis using False \<open>le y x\<close> 3 by auto
  qed
qed simp_all

text \<open>Elements that compare equal to \<open>z\<close> keep their order, those of the first list before those of the second.\<close>

definition same_rank :: "('a \<Rightarrow> 'a \<Rightarrow> bool) \<Rightarrow> 'a \<Rightarrow> 'a \<Rightarrow> bool" where
  "same_rank le z x \<longleftrightarrow> le x z \<and> le z x"

lemma stable_merge_spec:
  assumes "total_preorder le" "sorted_wrt le xs" "sorted_wrt le ys"
  shows "filter (same_rank le z) (merge_spec le xs ys) = filter (same_rank le z) xs @ filter (same_rank le z) ys"
  using assms
proof (induction le xs ys rule: merge_spec.induct)
  case (3 le x xs y ys)
  show ?case
  proof (cases "le x y")
    case True
    then show ?thesis using 3 by simp
  next
    case False
    have "\<not> same_rank le z w" if "same_rank le z y" "w \<in> set (x # xs)" for w
    proof
      assume "same_rank le z w"
      then have "le w y" using that(1) total_preorderD(2) [OF 3(3)] unfolding same_rank_def by blast
      moreover have "le x w" using that(2) 3(4) total_preorderD(1) [OF 3(3), of x x] by auto
      ultimately show False using False total_preorderD(2) [OF 3(3)] by blast
    qed
    then have "same_rank le z y \<Longrightarrow> filter (same_rank le z) (x # xs) = []" by (simp only: filter_empty_conv) blast
    then show ?thesis using False 3 by auto
  qed
qed simp_all

section \<open>The loop merges\<close>

lemma overwrite_append: "length zs = length a - k \<Longrightarrow> k \<le> length a \<Longrightarrow> overwrite a k zs = take k a @ zs"
  by (simp add: overwrite_def)

text \<open>
  The loop with a comparator that decides \<open>le\<close>: what is left of both halves fills the rest of the array.
\<close>

lemma merge_spec_Nil2 [simp]: "merge_spec le xs [] = xs"
  by (cases xs) auto

lemma take_update_Suc: "k < length a \<Longrightarrow> take (Suc k) (a[k := x]) = take k a @ [x]"
  by (simp add: take_Suc_conv_app_nth)

definition decides :: "'a comparator_fn \<Rightarrow> ('a \<Rightarrow> 'a \<Rightarrow> bool) \<Rightarrow> bool" where
  "decides cmp le \<longleftrightarrow> (\<forall>x y. \<exists>c. cmp x y = Inr c \<and> (c \<le> 0 \<longleftrightarrow> le x y))"

lemma mergesort_merge_eq:
  assumes "decides cmp le" "i \<le> length xs" "j \<le> length ys" "length a = k + (length xs - i) + (length ys - j)"
  shows "mergesort_merge cmp xs ys i j k a = (KEFIR_OK, length a, take k a @ merge_spec le (drop i xs) (drop j ys))"
  using assms
proof (induction cmp xs ys i j k a rule: mergesort_merge.induct)
  case (1 cmp xs ys i j k a)
  consider (finished) "\<not> k < length a" | (first) "k < length a" "i = length xs" | (second) "k < length a" "i \<noteq> length xs" "j = length ys"
    | (both) "k < length a" "i < length xs" "j < length ys"
    using 1(4,5) by linarith
  then show ?case
  proof cases
    case finished
    then show ?thesis using 1(4-6) by (simp add: mergesort_merge.simps)
  next
    case first
    then show ?thesis using 1(4-6) unfolding mergesort_merge.simps [of cmp xs ys i j k a] by (simp add: overwrite_append)
  next
    case second
    then show ?thesis using 1(4-6) unfolding mergesort_merge.simps [of cmp xs ys i j k a] by (simp add: overwrite_append)
  next
    case both
    obtain c where c: "cmp (xs ! i) (ys ! j) = Inr c" "c \<le> 0 \<longleftrightarrow> le (xs ! i) (ys ! j)"
      using 1(3) unfolding decides_def by blast
    have d: "drop i xs = xs ! i # drop (Suc i) xs" "drop j ys = ys ! j # drop (Suc j) ys"
      using both by (simp_all add: Cons_nth_drop_Suc)
    show ?thesis
    proof (cases "c \<le> 0")
      case True
      have "mergesort_merge cmp xs ys (i + 1) j (k + 1) (a[k := xs ! i]) =
          (KEFIR_OK, length a, take k a @ xs ! i # merge_spec le (drop (Suc i) xs) (drop j ys))"
        using 1(1) [OF both(1) _ _ c(1) True 1(3)] both 1(6) by (simp add: take_update_Suc)
      then show ?thesis
        using both c True d by (simp add: mergesort_merge.simps [of cmp xs ys i j k a])
    next
      case False
      have "mergesort_merge cmp xs ys i (j + 1) (k + 1) (a[k := ys ! j]) =
          (KEFIR_OK, length a, take k a @ ys ! j # merge_spec le (drop i xs) (drop (Suc j) ys))"
        using 1(2) [OF both(1) _ _ c(1) False 1(3)] both 1(6) by (simp add: take_update_Suc)
      then show ?thesis
        using both c False d by (simp add: mergesort_merge.simps [of cmp xs ys i j k a])
    qed
  qed
qed

section \<open>The sort is right\<close>

lemma kefir_mergesort_ok:
  assumes "decides cmp le" "total_preorder le" "element_size \<noteq> 0" "\<And>n. alloc n"
  shows "\<exists>ys. kefir_mergesort alloc element_size cmp xs = (KEFIR_OK, ys) \<and> sorted_wrt le ys \<and> mset ys = mset xs \<and>
    (\<forall>z. filter (same_rank le z) ys = filter (same_rank le z) xs)"
  using assms
proof (induction alloc element_size cmp xs rule: kefir_mergesort.induct)
  case (1 alloc element_size cmp xs)
  note unfold = kefir_mergesort.simps [of alloc element_size cmp xs]
  consider (short) "length xs \<le> 1" | (two) "length xs = 2" | (long) "length xs > 2" by linarith
  then show ?case
  proof cases
    case short
    then have "sorted_wrt le xs" by (cases xs) auto
    then show ?thesis using short 1(5) by (simp add: unfold)
  next
    case two
    then obtain x y where xs: "xs = [x, y]" by (auto simp: length_Suc_conv numeral_2_eq_2)
    obtain c where c: "cmp x y = Inr c" "c \<le> 0 \<longleftrightarrow> le x y" using 1(3) unfolding decides_def by blast
    show ?thesis
    proof (cases "c \<le> 0")
      case True
      then have "kefir_mergesort alloc element_size cmp xs = (KEFIR_OK, xs)" using c 1(5) by (subst unfold) (simp add: xs)
      moreover have "sorted_wrt le xs" using c True xs by simp
      ultimately show ?thesis by blast
    next
      case False
      then have "kefir_mergesort alloc element_size cmp xs = (KEFIR_OK, [y, x])" using c 1(5,6) by (subst unfold) (simp add: xs)
      moreover have "le y x" "\<not> le x y" using False c total_preorderD(1) [OF 1(4), of x y] by auto
      moreover have "\<not> (same_rank le z x \<and> same_rank le z y)" for z
        using \<open>\<not> le x y\<close> total_preorderD(2) [OF 1(4)] unfolding same_rank_def by blast
      ultimately show ?thesis using xs by (intro exI [of _ "[y, x]"]) auto
    qed
  next
    case long
    let ?n = "length xs div 2"
    have pre: "\<not> length xs \<le> 1" "length xs \<noteq> 2" "alloc (element_size * length xs)" using long 1(6) by auto
    obtain ys where ys: "kefir_mergesort alloc element_size cmp (take ?n xs) = (KEFIR_OK, ys)" "sorted_wrt le ys"
        "mset ys = mset (take ?n xs)" "\<And>z. filter (same_rank le z) ys = filter (same_rank le z) (take ?n xs)"
      using 1(1) [OF 1(5) pre(1,2) _ refl 1(3-6)] pre(3) by auto
    obtain zs where zs: "kefir_mergesort alloc element_size cmp (drop ?n xs) = (KEFIR_OK, zs)" "sorted_wrt le zs"
        "mset zs = mset (drop ?n xs)" "\<And>z. filter (same_rank le z) zs = filter (same_rank le z) (drop ?n xs)"
      using 1(2) [OF 1(5) pre(1,2) _ refl ys(1) [symmetric] refl _ 1(3-6)] pre(3) by auto
    have len: "length xs = length ys + length zs"
      using arg_cong [OF ys(3), of size] arg_cong [OF zs(3), of size] by simp
    have "mergesort_merge cmp ys zs 0 0 0 xs = (KEFIR_OK, length xs, merge_spec le ys zs)"
      using mergesort_merge_eq [OF 1(3), of 0 ys 0 zs xs 0] len by simp
    then have "kefir_mergesort alloc element_size cmp xs = (KEFIR_OK, merge_spec le ys zs)"
      using ys(1) zs(1) pre 1(5) by (simp add: unfold Let_def)
    moreover have "mset (merge_spec le ys zs) = mset xs"
      using ys(3) zs(3) by (metis append_take_drop_id mset_append mset_merge_spec)
    moreover have "filter (same_rank le z) (merge_spec le ys zs) = filter (same_rank le z) xs" for z
      using stable_merge_spec [OF 1(4) ys(2) zs(2), of z] ys(4) zs(4) by (metis append_take_drop_id filter_append)
    ultimately show ?thesis using sorted_merge_spec [OF 1(4) ys(2) zs(2)] by blast
  qed
qed

section \<open>Failures\<close>

text \<open>With any comparator: a merge that ends has moved every element, and only the comparator can stop it.\<close>

lemma mset_prefix:
  "\<exists>m. b = p @ v # m \<and> mset m = mset xs + mset ys \<Longrightarrow> \<exists>m. b = p @ m \<and> mset m = mset (v # xs) + mset ys"
  "\<exists>m. b = p @ v # m \<and> mset m = mset xs + mset ys \<Longrightarrow> \<exists>m. b = p @ m \<and> mset m = mset xs + mset (v # ys)"
  by (metis mset.simps(2) union_mset_add_mset_left, metis mset.simps(2) union_mset_add_mset_right)

lemma mergesort_merge_any:
  assumes "\<And>x y. cmp x y \<noteq> Inl KEFIR_OK" "i \<le> length xs" "j \<le> length ys" "length a = k + (length xs - i) + (length ys - j)"
    "mergesort_merge cmp xs ys i j k a = (r, n, b)"
  shows "length b = length a \<and> (r = KEFIR_OK \<longrightarrow> n = length a \<and> (\<exists>m. b = take k a @ m \<and> mset m = mset (drop i xs) + mset (drop j ys))) \<and>
    (r \<noteq> KEFIR_OK \<longrightarrow> (\<exists>x \<in> set xs. \<exists>y \<in> set ys. cmp x y = Inl r))"
  using assms
proof (induction cmp xs ys i j k a rule: mergesort_merge.induct)
  case (1 cmp xs ys i j k a)
  note unfold = mergesort_merge.simps [of cmp xs ys i j k a]
  consider (finished) "\<not> k < length a" | (first) "k < length a" "i = length xs" | (second) "k < length a" "i \<noteq> length xs" "j = length ys"
    | (both) "k < length a" "i < length xs" "j < length ys"
    using 1(4,5) by linarith
  then show ?case
  proof cases
    case finished
    then show ?thesis using 1(4-7) by (simp add: unfold)
  next
    case first
    then have "(r, n, b) = (KEFIR_OK, k + (length ys - j), overwrite a k (drop j ys))" using 1(7) unfolding unfold by simp
    then show ?thesis using first 1(5,6) by (simp add: overwrite_append)
  next
    case second
    then have "(r, n, b) = (KEFIR_OK, k + (length xs - i), overwrite a k (drop i xs))" using 1(7) unfolding unfold by simp
    then show ?thesis using second 1(4,6) by (simp add: overwrite_append)
  next
    case both
    have d: "drop i xs = xs ! i # drop (Suc i) xs" "drop j ys = ys ! j # drop (Suc j) ys"
      using both by (simp_all add: Cons_nth_drop_Suc)
    show ?thesis
    proof (cases "cmp (xs ! i) (ys ! j)")
      case (Inl e)
      then have "(r, n, b) = (e, k, a)" "e \<noteq> KEFIR_OK" using both 1(3) [of "xs ! i" "ys ! j"] 1(7) unfolding unfold by auto
      moreover have "\<exists>x \<in> set xs. \<exists>y \<in> set ys. cmp x y = Inl e" using Inl nth_mem both by blast
      ultimately show ?thesis by simp
    next
      case (Inr c)
      show ?thesis
      proof (cases "c \<le> 0")
        case True
        then have run: "mergesort_merge cmp xs ys (i + 1) j (k + 1) (a[k := xs ! i]) = (r, n, b)"
          using both Inr 1(7) unfolding unfold by simp
        have "length b = length a \<and> (r = KEFIR_OK \<longrightarrow> n = length a \<and>
            (\<exists>m. b = take k a @ xs ! i # m \<and> mset m = mset (drop (Suc i) xs) + mset (drop j ys))) \<and>
            (r \<noteq> KEFIR_OK \<longrightarrow> (\<exists>x \<in> set xs. \<exists>y \<in> set ys. cmp x y = Inl r))"
        proof -
          have l: "length (a[k := xs ! i]) = k + 1 + (length xs - (i + 1)) + (length ys - j)" "i + 1 \<le> length xs"
            using both 1(6) by simp_all
          show ?thesis
            using 1(1) [OF both(1) _ _ Inr True 1(3) l(2) 1(5) l(1) run] both by (simp add: take_update_Suc)
        qed
        then show ?thesis using mset_prefix(1) [of b "take k a" "xs ! i" "drop (Suc i) xs" "drop j ys"] unfolding d(1) by argo
      next
        case False
        then have run: "mergesort_merge cmp xs ys i (j + 1) (k + 1) (a[k := ys ! j]) = (r, n, b)"
          using both Inr 1(7) unfolding unfold by simp
        have "length b = length a \<and> (r = KEFIR_OK \<longrightarrow> n = length a \<and>
            (\<exists>m. b = take k a @ ys ! j # m \<and> mset m = mset (drop i xs) + mset (drop (Suc j) ys))) \<and>
            (r \<noteq> KEFIR_OK \<longrightarrow> (\<exists>x \<in> set xs. \<exists>y \<in> set ys. cmp x y = Inl r))"
        proof -
          have l: "length (a[k := ys ! j]) = k + 1 + (length xs - i) + (length ys - (j + 1))" "j + 1 \<le> length ys"
            using both 1(6) by simp_all
          show ?thesis
            using 1(2) [OF both(1) _ _ Inr False 1(3) 1(4) l(2) l(1) run] both by (simp add: take_update_Suc)
        qed
        then show ?thesis using mset_prefix(2) [of b "take k a" "ys ! j" "drop i xs" "drop (Suc j) ys"] unfolding d(2) by argo
      qed
    qed
  qed
qed

definition sort_failure :: "(nat \<Rightarrow> bool) \<Rightarrow> nat \<Rightarrow> 'a comparator_fn \<Rightarrow> 'a list \<Rightarrow> kefir_result \<Rightarrow> bool" where
  "sort_failure alloc element_size cmp xs r \<longleftrightarrow> r = KEFIR_INVALID_PARAMETER \<and> element_size = 0 \<or>
     r = KEFIR_MEMALLOC_FAILURE \<and> (\<exists>n. \<not> alloc n) \<or> (\<exists>x \<in> set xs. \<exists>y \<in> set xs. cmp x y = Inl r)"

lemma sort_failure_mono: "sort_failure alloc n cmp xs r \<Longrightarrow> set xs \<subseteq> set ys \<Longrightarrow> sort_failure alloc n cmp ys r"
  unfolding sort_failure_def by blast

lemma kefir_mergesort_any:
  assumes "\<And>x y. cmp x y \<noteq> Inl KEFIR_OK" "kefir_mergesort alloc element_size cmp xs = (r, ys)"
  shows "length ys = length xs \<and> (r = KEFIR_OK \<longrightarrow> mset ys = mset xs) \<and>
    (r \<noteq> KEFIR_OK \<longrightarrow> sort_failure alloc element_size cmp xs r)"
  using assms
proof (induction alloc element_size cmp xs arbitrary: r ys rule: kefir_mergesort.induct)
  case (1 alloc element_size cmp xs)
  note unfold = kefir_mergesort.simps [of alloc element_size cmp xs]
  consider (zero) "element_size = 0" | (short) "element_size \<noteq> 0" "length xs \<le> 1" | (two) "element_size \<noteq> 0" "length xs = 2"
    | (refused) "element_size \<noteq> 0" "length xs > 2" "\<not> alloc (element_size * length xs)"
    | (long) "element_size \<noteq> 0" "length xs > 2" "alloc (element_size * length xs)" by linarith
  then show ?case
  proof cases
    case zero
    then have "(r, ys) = (KEFIR_INVALID_PARAMETER, xs)" using 1(4) by (subst (asm) unfold) simp
    then show ?thesis using zero by (simp add: sort_failure_def)
  next
    case short
    then show ?thesis using 1(4) by (auto simp: unfold)
  next
    case two
    then obtain x y where xs: "xs = [x, y]" by (auto simp: length_Suc_conv numeral_2_eq_2)
    have "kefir_mergesort alloc element_size cmp xs = (case cmp x y of Inl e \<Rightarrow> (e, xs) | Inr c \<Rightarrow>
        if c > 0 then if alloc element_size then (KEFIR_OK, [y, x]) else (KEFIR_MEMALLOC_FAILURE, xs) else (KEFIR_OK, xs))"
      using two(1) by (subst unfold) (auto simp: xs split: sum.split)
    then show ?thesis using 1(4) xs by (auto simp: sort_failure_def split: sum.splits if_splits)
  next
    case refused
    then show ?thesis using 1(4) by (auto simp: unfold sort_failure_def)
  next
    case long
    let ?n = "length xs div 2"
    have pre: "\<not> length xs \<le> 1" "length xs \<noteq> 2" "\<not> \<not> alloc (element_size * length xs)" using long by auto
    obtain r1 fs where f: "kefir_mergesort alloc element_size cmp (take ?n xs) = (r1, fs)" by fastforce
    obtain r2 gs where g: "kefir_mergesort alloc element_size cmp (drop ?n xs) = (r2, gs)" by fastforce
    obtain r3 k a where m: "mergesort_merge cmp fs gs 0 0 0 xs = (r3, k, a)" by (cases "mergesort_merge cmp fs gs 0 0 0 xs") auto
    note ihf = 1(1) [OF long(1) pre refl 1(3) f]
    have "kefir_mergesort alloc element_size cmp xs = (if r1 \<noteq> KEFIR_OK then (r1, xs) else if r2 \<noteq> KEFIR_OK then (r2, xs)
        else if r3 \<noteq> KEFIR_OK then (r3, a) else if k = length xs then (KEFIR_OK, a) else (KEFIR_INTERNAL_ERROR, a))"
      using long f g m by (subst unfold) (simp add: Let_def)
    note run = trans [OF 1(4) [symmetric] this]
    show ?thesis
    proof (cases "r1 = KEFIR_OK")
      case False
      then show ?thesis using run ihf sort_failure_mono [OF _ set_take_subset] by auto
    next
      case r1: True
      note ihg = 1(2) [OF long(1) pre refl f [symmetric] refl _ 1(3) g]
      show ?thesis
      proof (cases "r2 = KEFIR_OK")
        case False
        then show ?thesis using run r1 ihg sort_failure_mono [OF _ set_drop_subset] by auto
      next
        case r2: True
        have ms: "mset fs = mset (take ?n xs)" "mset gs = mset (drop ?n xs)" using ihf ihg r1 r2 by auto
        then have sub: "set fs \<subseteq> set xs" "set gs \<subseteq> set xs"
          using mset_eq_setD [OF ms(1)] mset_eq_setD [OF ms(2)] set_take_subset [of ?n xs] set_drop_subset [of ?n xs] by auto
        have len: "length xs = length fs + length gs"
          using mset_eq_length [OF ms(1)] mset_eq_length [OF ms(2)] by simp
        have mm: "length a = length xs" "r3 = KEFIR_OK \<Longrightarrow> k = length xs \<and> mset a = mset fs + mset gs"
            "r3 \<noteq> KEFIR_OK \<Longrightarrow> \<exists>x \<in> set fs. \<exists>y \<in> set gs. cmp x y = Inl r3"
          using mergesort_merge_any [OF 1(3) _ _ _ m] len by auto
        have "mset fs + mset gs = mset xs" using ms by (metis append_take_drop_id mset_append)
        moreover have "r3 \<noteq> KEFIR_OK \<Longrightarrow> sort_failure alloc element_size cmp xs r3"
          using mm(3) sub unfolding sort_failure_def by blast
        ultimately show ?thesis using run r1 r2 mm by (auto split: if_splits)
      qed
    qed
  qed
qed

section \<open>Properties\<close>

text \<open>
  C15. With a comparator that decides a total preorder and an allocator that grants every request, the sort succeeds
  and yields the elements of the array in ascending order, those that compare equal in the order they had.
\<close>

theorem mergesort_sorts_stably:
  assumes "decides cmp le" "total_preorder le" "element_size \<noteq> 0" "\<And>n. alloc n"
  shows "\<exists>ys. kefir_mergesort alloc element_size cmp xs = (KEFIR_OK, ys) \<and> sorted_wrt le ys \<and> mset ys = mset xs \<and>
    (\<forall>z. filter (same_rank le z) ys = filter (same_rank le z) xs)"
  using assms by (rule kefir_mergesort_ok)

definition first_cmp :: "(int \<times> int) comparator_fn" where
  "first_cmp x y = Inr (fst x - fst y)"

theorem mergesort_sorts_stably_witness:
  "\<exists>ys. kefir_mergesort (\<lambda>_. True) 8 first_cmp [(3, 1), (1, 2), (3, 0), (0, 5), (1, 1)] = (KEFIR_OK, ys) \<and>
     ys = [(0, 5), (1, 2), (1, 1), (3, 1), (3, 0)] \<and> sorted_wrt (\<lambda>x y. fst x \<le> fst y) ys"
proof -
  have d: "decides first_cmp (\<lambda>x y. fst x \<le> fst y)" "total_preorder (\<lambda>(x :: int \<times> int) y. fst x \<le> fst y)"
    by (auto simp: decides_def first_cmp_def total_preorder_def)
  have "kefir_mergesort (\<lambda>_. True) 8 first_cmp [(3, 1), (1, 2), (3, 0), (0, 5), (1, 1)] =
      (KEFIR_OK, [(0, 5), (1, 2), (1, 1), (3, 1), (3, 0)])" by code_simp
  then show ?thesis
    using mergesort_sorts_stably [OF d, of 8 "\<lambda>_. True" "[(3, 1), (1, 2), (3, 0), (0, 5), (1, 1)]"] by auto
qed

text \<open>
  C16. Whatever the comparator and the allocator do, the sort returns an array of the same length; when it succeeds the array is a
  permutation of the elements, and it fails only because the element size is zero, the allocator refuses a request, or
  the comparator fails on two elements, whose code it returns.
\<close>

theorem mergesort_outcome:
  assumes "\<And>x y. cmp x y \<noteq> Inl KEFIR_OK" "kefir_mergesort alloc element_size cmp xs = (r, ys)"
  shows "length ys = length xs \<and> (if r = KEFIR_OK then mset ys = mset xs
    else r = KEFIR_INVALID_PARAMETER \<and> element_size = 0 \<or> r = KEFIR_MEMALLOC_FAILURE \<and> (\<exists>n. \<not> alloc n) \<or>
      (\<exists>x \<in> set xs. \<exists>y \<in> set xs. cmp x y = Inl r))"
  using kefir_mergesort_any [OF assms] unfolding sort_failure_def by auto

definition partial_cmp :: "int comparator_fn" where
  "partial_cmp x y = (if x = 7 \<and> y = 9 then Inl KEFIR_NOT_SUPPORTED else Inr (x - y))"

theorem mergesort_outcome_witness:
  "kefir_mergesort (\<lambda>_. True) 8 partial_cmp [7, 3, 9] = (KEFIR_NOT_SUPPORTED, [3, 3, 9]) \<and>
     (\<exists>x \<in> {7, 3, 9}. \<exists>y \<in> {7, 3, 9}. partial_cmp x y = Inl KEFIR_NOT_SUPPORTED)"
proof -
  have run: "kefir_mergesort (\<lambda>_. True) 8 partial_cmp [7, 3, 9] = (KEFIR_NOT_SUPPORTED, [3, 3, 9])" by code_simp
  then show ?thesis
    using mergesort_outcome [OF _ run] by (auto simp: partial_cmp_def)
qed

end
