(* ===== verification/Kefir_Ast_Type.thy ===== *)
theory Kefir_Ast_Type
  imports Kefir_Prelude
begin

text \<open>
  The C types of the front end: the data of \<^verbatim>\<open>headers/kefir/ast/type.h\<close> and
  \<^verbatim>\<open>headers/kefir/ast/type/*.h\<close>, the classification macros, the basic types
  (\<^verbatim>\<open>source/ast/type/basic.c\<close>), qualified types (\<^verbatim>\<open>source/ast/type/qualified.c\<close>), pointer and array
  constructors, and the classifications of \<^verbatim>\<open>source/ast/type.c\<close>. A pointer to a type object is the
  type it points to: the code builds a type from types that exist already and refers to a
  structure that is still being defined through a separate incomplete type, so that types are
  finite trees. The bundle that owns the objects and the allocation of a new object are left
  out; a null result of an operation on valid types is \<^const>\<open>None\<close>. Messages of attributes, which no
  operation here looks at, are left out as well.
\<close>

unbundle bit_operations_syntax

section \<open>Data\<close>

datatype basic_tag =
    KEFIR_AST_TYPE_VOID | KEFIR_AST_TYPE_SCALAR_BOOL
  | KEFIR_AST_TYPE_SCALAR_CHAR | KEFIR_AST_TYPE_SCALAR_UNSIGNED_CHAR | KEFIR_AST_TYPE_SCALAR_SIGNED_CHAR
  | KEFIR_AST_TYPE_SCALAR_UNSIGNED_SHORT | KEFIR_AST_TYPE_SCALAR_SIGNED_SHORT
  | KEFIR_AST_TYPE_SCALAR_UNSIGNED_INT | KEFIR_AST_TYPE_SCALAR_SIGNED_INT
  | KEFIR_AST_TYPE_SCALAR_UNSIGNED_LONG | KEFIR_AST_TYPE_SCALAR_SIGNED_LONG
  | KEFIR_AST_TYPE_SCALAR_UNSIGNED_LONG_LONG | KEFIR_AST_TYPE_SCALAR_SIGNED_LONG_LONG
  | KEFIR_AST_TYPE_SCALAR_UNSIGNED_INT128 | KEFIR_AST_TYPE_SCALAR_SIGNED_INT128
  | KEFIR_AST_TYPE_SCALAR_FLOAT | KEFIR_AST_TYPE_SCALAR_DOUBLE | KEFIR_AST_TYPE_SCALAR_LONG_DOUBLE
  | KEFIR_AST_TYPE_SCALAR_INTERCHANGE_FLOAT32 | KEFIR_AST_TYPE_SCALAR_INTERCHANGE_FLOAT64
  | KEFIR_AST_TYPE_SCALAR_INTERCHANGE_FLOAT80
  | KEFIR_AST_TYPE_SCALAR_EXTENDED_FLOAT32 | KEFIR_AST_TYPE_SCALAR_EXTENDED_FLOAT64
  | KEFIR_AST_TYPE_SCALAR_NULL_POINTER
  | KEFIR_AST_TYPE_SCALAR_DECIMAL32 | KEFIR_AST_TYPE_SCALAR_DECIMAL64 | KEFIR_AST_TYPE_SCALAR_DECIMAL128
  | KEFIR_AST_TYPE_SCALAR_EXTENDED_DECIMAL64 | KEFIR_AST_TYPE_AUTO

record type_qualification =
  q_constant :: bool
  q_restricted :: bool
  q_volatile_type :: bool
  q_atomic_type :: bool

text \<open>An expression that gives the length of a variable-length array is known by its number.\<close>

datatype array_boundary =
    KEFIR_AST_ARRAY_UNBOUNDED
  | KEFIR_AST_ARRAY_BOUNDED nat
  | KEFIR_AST_ARRAY_BOUNDED_STATIC nat
  | KEFIR_AST_ARRAY_VLA "nat option"
  | KEFIR_AST_ARRAY_VLA_STATIC "nat option"

datatype struct_pack_type = KEFIR_AST_STRUCT_NOPACK | KEFIR_AST_STRUCT_PACK | KEFIR_AST_STRUCT_PACK_FORCE

record struct_head =
  st_complete :: bool
  st_identifier :: "string option"
  st_packed :: struct_pack_type
  st_packed_member_alignment :: nat
  st_aggregate_alignment :: nat
  st_no_discard :: bool
  st_deprecated :: bool

record enum_head =
  en_complete :: bool
  en_identifier :: "string option"
  en_alignment :: nat
  en_no_discard :: bool
  en_deprecated :: bool

datatype function_type_mode =
    KEFIR_AST_FUNCTION_TYPE_PARAMETERS
  | KEFIR_AST_FUNCTION_TYPE_PARAM_IDENTIFIERS
  | KEFIR_AST_FUNCTION_TYPE_PARAM_EMPTY

record function_head =
  fn_mode :: function_type_mode
  fn_ellipsis :: bool
  fn_returns_twice :: bool
  fn_no_return :: bool
  fn_no_discard :: bool

datatype 't struct_field =
  StructField (field_identifier: "string option") (field_type: 't) (field_alignment: nat)
    (field_bitfield: bool) (field_bitwidth: nat) (field_deprecated: bool)

text \<open>
  A function parameter with its declared type (\<^const>\<open>None\<close> in an identifier list) and its storage. The
  code stores the adjusted type next to the declared one; it is computed from it here.
\<close>

datatype 't function_param = FunctionParam (param_type: "'t option") (param_storage: "nat option")

type_synonym enumerators = "(string \<times> int option) list"

datatype ast_type =
    Scalar basic_tag
  | SignedBitPrecise nat
  | UnsignedBitPrecise nat
  | ComplexFP ast_type
  | ImaginaryFP ast_type
  | Pointer ast_type
  | Enumeration enum_head ast_type enumerators
  | Structure struct_head "ast_type struct_field list"
  | UnionType struct_head "ast_type struct_field list"
  | Array ast_type array_boundary type_qualification
  | Function function_head ast_type "ast_type function_param list"
  | Qualified type_qualification ast_type

section \<open>Classification macros\<close>

definition KEFIR_AST_TYPE_IS_CHARACTER :: "ast_type \<Rightarrow> bool" where
  "KEFIR_AST_TYPE_IS_CHARACTER t \<longleftrightarrow>
     t = Scalar KEFIR_AST_TYPE_SCALAR_CHAR \<or> t = Scalar KEFIR_AST_TYPE_SCALAR_SIGNED_CHAR \<or>
     t = Scalar KEFIR_AST_TYPE_SCALAR_UNSIGNED_CHAR"

fun is_signed_bitprecise :: "ast_type \<Rightarrow> bool" where
  "is_signed_bitprecise (SignedBitPrecise w) = True"
| "is_signed_bitprecise _ = False"

fun is_unsigned_bitprecise :: "ast_type \<Rightarrow> bool" where
  "is_unsigned_bitprecise (UnsignedBitPrecise w) = True"
| "is_unsigned_bitprecise _ = False"

definition KEFIR_INTERNAL_AST_TYPE_IS_SIGNED_INTEGER :: "ast_type \<Rightarrow> bool" where
  "KEFIR_INTERNAL_AST_TYPE_IS_SIGNED_INTEGER t \<longleftrightarrow>
     t = Scalar KEFIR_AST_TYPE_SCALAR_SIGNED_CHAR \<or> t = Scalar KEFIR_AST_TYPE_SCALAR_SIGNED_SHORT \<or>
     t = Scalar KEFIR_AST_TYPE_SCALAR_SIGNED_INT \<or> t = Scalar KEFIR_AST_TYPE_SCALAR_SIGNED_LONG \<or>
     t = Scalar KEFIR_AST_TYPE_SCALAR_SIGNED_LONG_LONG \<or> is_signed_bitprecise t \<or>
     t = Scalar KEFIR_AST_TYPE_SCALAR_SIGNED_INT128"

definition KEFIR_INTERNAL_AST_TYPE_IS_UNSIGNED_INTEGER :: "ast_type \<Rightarrow> bool" where
  "KEFIR_INTERNAL_AST_TYPE_IS_UNSIGNED_INTEGER t \<longleftrightarrow>
     t = Scalar KEFIR_AST_TYPE_SCALAR_BOOL \<or> t = Scalar KEFIR_AST_TYPE_SCALAR_UNSIGNED_CHAR \<or>
     t = Scalar KEFIR_AST_TYPE_SCALAR_UNSIGNED_SHORT \<or> t = Scalar KEFIR_AST_TYPE_SCALAR_UNSIGNED_INT \<or>
     t = Scalar KEFIR_AST_TYPE_SCALAR_UNSIGNED_LONG \<or> t = Scalar KEFIR_AST_TYPE_SCALAR_UNSIGNED_LONG_LONG \<or>
     is_unsigned_bitprecise t \<or> t = Scalar KEFIR_AST_TYPE_SCALAR_UNSIGNED_INT128"

definition KEFIR_AST_TYPE_IS_BIT_PRECISE_INTEGRAL_TYPE :: "ast_type \<Rightarrow> bool" where
  "KEFIR_AST_TYPE_IS_BIT_PRECISE_INTEGRAL_TYPE t \<longleftrightarrow> is_signed_bitprecise t \<or> is_unsigned_bitprecise t"

definition KEFIR_AST_TYPE_IS_NONENUM_INTEGRAL_TYPE :: "ast_type \<Rightarrow> bool" where
  "KEFIR_AST_TYPE_IS_NONENUM_INTEGRAL_TYPE t \<longleftrightarrow>
     KEFIR_AST_TYPE_IS_CHARACTER t \<or> KEFIR_INTERNAL_AST_TYPE_IS_SIGNED_INTEGER t \<or>
     KEFIR_INTERNAL_AST_TYPE_IS_UNSIGNED_INTEGER t"

fun is_enumeration :: "ast_type \<Rightarrow> bool" where
  "is_enumeration (Enumeration h u es) = True"
| "is_enumeration _ = False"

definition KEFIR_AST_TYPE_IS_INTEGRAL_TYPE :: "ast_type \<Rightarrow> bool" where
  "KEFIR_AST_TYPE_IS_INTEGRAL_TYPE t \<longleftrightarrow> KEFIR_AST_TYPE_IS_NONENUM_INTEGRAL_TYPE t \<or> is_enumeration t"

definition KEFIR_AST_TYPE_IS_STANDARD_FLOATING_POINT :: "ast_type \<Rightarrow> bool" where
  "KEFIR_AST_TYPE_IS_STANDARD_FLOATING_POINT t \<longleftrightarrow>
     t = Scalar KEFIR_AST_TYPE_SCALAR_FLOAT \<or> t = Scalar KEFIR_AST_TYPE_SCALAR_DOUBLE \<or>
     t = Scalar KEFIR_AST_TYPE_SCALAR_LONG_DOUBLE"

definition KEFIR_AST_TYPE_IS_DECIMAL_FLOATING_POINT :: "ast_type \<Rightarrow> bool" where
  "KEFIR_AST_TYPE_IS_DECIMAL_FLOATING_POINT t \<longleftrightarrow>
     t = Scalar KEFIR_AST_TYPE_SCALAR_DECIMAL32 \<or> t = Scalar KEFIR_AST_TYPE_SCALAR_DECIMAL64 \<or>
     t = Scalar KEFIR_AST_TYPE_SCALAR_DECIMAL128 \<or> t = Scalar KEFIR_AST_TYPE_SCALAR_EXTENDED_DECIMAL64"

definition KEFIR_AST_TYPE_IS_BINARY_FLOATING_POINT :: "ast_type \<Rightarrow> bool" where
  "KEFIR_AST_TYPE_IS_BINARY_FLOATING_POINT t \<longleftrightarrow>
     t = Scalar KEFIR_AST_TYPE_SCALAR_INTERCHANGE_FLOAT32 \<or> t = Scalar KEFIR_AST_TYPE_SCALAR_INTERCHANGE_FLOAT64 \<or>
     t = Scalar KEFIR_AST_TYPE_SCALAR_INTERCHANGE_FLOAT80 \<or>
     t = Scalar KEFIR_AST_TYPE_SCALAR_EXTENDED_FLOAT32 \<or> t = Scalar KEFIR_AST_TYPE_SCALAR_EXTENDED_FLOAT64"

definition KEFIR_AST_TYPE_IS_REAL_FLOATING_POINT :: "ast_type \<Rightarrow> bool" where
  "KEFIR_AST_TYPE_IS_REAL_FLOATING_POINT t \<longleftrightarrow>
     KEFIR_AST_TYPE_IS_STANDARD_FLOATING_POINT t \<or> KEFIR_AST_TYPE_IS_DECIMAL_FLOATING_POINT t \<or>
     KEFIR_AST_TYPE_IS_BINARY_FLOATING_POINT t"

definition KEFIR_AST_TYPE_IS_REAL_TYPE :: "ast_type \<Rightarrow> bool" where
  "KEFIR_AST_TYPE_IS_REAL_TYPE t \<longleftrightarrow> KEFIR_AST_TYPE_IS_INTEGRAL_TYPE t \<or> KEFIR_AST_TYPE_IS_REAL_FLOATING_POINT t"

fun KEFIR_AST_TYPE_IS_COMPLEX_TYPE :: "ast_type \<Rightarrow> bool" where
  "KEFIR_AST_TYPE_IS_COMPLEX_TYPE (ComplexFP t) = True"
| "KEFIR_AST_TYPE_IS_COMPLEX_TYPE _ = False"

fun KEFIR_AST_TYPE_IS_IMAGINARY_TYPE :: "ast_type \<Rightarrow> bool" where
  "KEFIR_AST_TYPE_IS_IMAGINARY_TYPE (ImaginaryFP t) = True"
| "KEFIR_AST_TYPE_IS_IMAGINARY_TYPE _ = False"

definition KEFIR_AST_TYPE_IS_FLOATING_POINT :: "ast_type \<Rightarrow> bool" where
  "KEFIR_AST_TYPE_IS_FLOATING_POINT t \<longleftrightarrow>
     KEFIR_AST_TYPE_IS_REAL_FLOATING_POINT t \<or> KEFIR_AST_TYPE_IS_COMPLEX_TYPE t \<or>
     KEFIR_AST_TYPE_IS_IMAGINARY_TYPE t"

definition KEFIR_AST_TYPE_IS_ARITHMETIC_TYPE :: "ast_type \<Rightarrow> bool" where
  "KEFIR_AST_TYPE_IS_ARITHMETIC_TYPE t \<longleftrightarrow>
     KEFIR_AST_TYPE_IS_INTEGRAL_TYPE t \<or> KEFIR_AST_TYPE_IS_FLOATING_POINT t"

fun is_pointer :: "ast_type \<Rightarrow> bool" where
  "is_pointer (Pointer t) = True"
| "is_pointer _ = False"

definition KEFIR_AST_TYPE_IS_SCALAR_TYPE :: "ast_type \<Rightarrow> bool" where
  "KEFIR_AST_TYPE_IS_SCALAR_TYPE t \<longleftrightarrow>
     KEFIR_AST_TYPE_IS_ARITHMETIC_TYPE t \<or> is_pointer t \<or> t = Scalar KEFIR_AST_TYPE_SCALAR_NULL_POINTER"

lemmas type_macros =
  KEFIR_AST_TYPE_IS_CHARACTER_def KEFIR_INTERNAL_AST_TYPE_IS_SIGNED_INTEGER_def
  KEFIR_INTERNAL_AST_TYPE_IS_UNSIGNED_INTEGER_def KEFIR_AST_TYPE_IS_BIT_PRECISE_INTEGRAL_TYPE_def
  KEFIR_AST_TYPE_IS_NONENUM_INTEGRAL_TYPE_def KEFIR_AST_TYPE_IS_INTEGRAL_TYPE_def
  KEFIR_AST_TYPE_IS_STANDARD_FLOATING_POINT_def KEFIR_AST_TYPE_IS_DECIMAL_FLOATING_POINT_def
  KEFIR_AST_TYPE_IS_BINARY_FLOATING_POINT_def KEFIR_AST_TYPE_IS_REAL_FLOATING_POINT_def
  KEFIR_AST_TYPE_IS_REAL_TYPE_def KEFIR_AST_TYPE_IS_FLOATING_POINT_def
  KEFIR_AST_TYPE_IS_ARITHMETIC_TYPE_def KEFIR_AST_TYPE_IS_SCALAR_TYPE_def

section \<open>Qualified types\<close>

definition no_qualification :: type_qualification where
  "no_qualification = \<lparr>q_constant = False, q_restricted = False, q_volatile_type = False, q_atomic_type = False\<rparr>"

definition KEFIR_AST_TYPE_IS_ZERO_QUALIFICATION :: "type_qualification \<Rightarrow> bool" where
  "KEFIR_AST_TYPE_IS_ZERO_QUALIFICATION q \<longleftrightarrow>
     \<not> q_constant q \<and> \<not> q_restricted q \<and> \<not> q_volatile_type q \<and> \<not> q_atomic_type q"

definition kefir_ast_type_merge_qualifications ::
    "type_qualification \<Rightarrow> type_qualification \<Rightarrow> type_qualification" where
  "kefir_ast_type_merge_qualifications src1 src2 =
     \<lparr>q_constant = (q_constant src1 \<or> q_constant src2), q_restricted = (q_restricted src1 \<or> q_restricted src2),
      q_volatile_type = (q_volatile_type src1 \<or> q_volatile_type src2),
      q_atomic_type = (q_atomic_type src1 \<or> q_atomic_type src2)\<rparr>"

fun kefir_ast_type_qualified :: "ast_type \<Rightarrow> type_qualification \<Rightarrow> ast_type" where
  "kefir_ast_type_qualified (Qualified q base) qualification =
     Qualified \<lparr>q_constant = (q_constant qualification \<or> q_constant q),
                q_restricted = (q_restricted qualification \<or> q_restricted q),
                q_volatile_type = (q_volatile_type qualification \<or> q_volatile_type q),
                q_atomic_type = (q_atomic_type qualification \<or> q_atomic_type q)\<rparr> base"
| "kefir_ast_type_qualified base qualification = Qualified qualification base"

fun kefir_ast_unqualified_type :: "ast_type \<Rightarrow> ast_type" where
  "kefir_ast_unqualified_type (Qualified q t) = t"
| "kefir_ast_unqualified_type t = t"

fun kefir_ast_zero_unqualified_type :: "ast_type \<Rightarrow> ast_type" where
  "kefir_ast_zero_unqualified_type (Qualified q t) =
     (if KEFIR_AST_TYPE_IS_ZERO_QUALIFICATION q then t else Qualified q t)"
| "kefir_ast_zero_unqualified_type t = t"

fun kefir_ast_type_retrieve_qualifications :: "ast_type \<Rightarrow> type_qualification" where
  "kefir_ast_type_retrieve_qualifications (Qualified q t) = q"
| "kefir_ast_type_retrieve_qualifications t = no_qualification"

section \<open>Array constructors\<close>

definition kefir_ast_type_array :: "ast_type \<Rightarrow> nat \<Rightarrow> type_qualification option \<Rightarrow> ast_type" where
  "kefir_ast_type_array element_type const_length q =
     Array element_type (KEFIR_AST_ARRAY_BOUNDED const_length)
       (case q of Some q \<Rightarrow> q | None \<Rightarrow> no_qualification)"

definition kefir_ast_type_unbounded_array :: "ast_type \<Rightarrow> type_qualification option \<Rightarrow> ast_type" where
  "kefir_ast_type_unbounded_array element_type q =
     Array element_type KEFIR_AST_ARRAY_UNBOUNDED (case q of Some q \<Rightarrow> q | None \<Rightarrow> no_qualification)"

definition kefir_ast_type_vlen_array :: "ast_type \<Rightarrow> nat option \<Rightarrow> type_qualification option \<Rightarrow> ast_type" where
  "kefir_ast_type_vlen_array element_type len q =
     Array element_type (KEFIR_AST_ARRAY_VLA len) (case q of Some q \<Rightarrow> q | None \<Rightarrow> no_qualification)"

definition kefir_ast_type_array_static :: "ast_type \<Rightarrow> nat \<Rightarrow> type_qualification option \<Rightarrow> ast_type" where
  "kefir_ast_type_array_static element_type const_length q =
     Array element_type (KEFIR_AST_ARRAY_BOUNDED_STATIC const_length)
       (case q of Some q \<Rightarrow> q | None \<Rightarrow> no_qualification)"

definition kefir_ast_type_vlen_array_static :: "ast_type \<Rightarrow> nat option \<Rightarrow> type_qualification option \<Rightarrow> ast_type" where
  "kefir_ast_type_vlen_array_static element_type len q =
     Array element_type (KEFIR_AST_ARRAY_VLA_STATIC len) (case q of Some q \<Rightarrow> q | None \<Rightarrow> no_qualification)"

fun kefir_ast_type_array_const_length :: "array_boundary \<Rightarrow> nat" where
  "kefir_ast_type_array_const_length (KEFIR_AST_ARRAY_BOUNDED n) = n"
| "kefir_ast_type_array_const_length (KEFIR_AST_ARRAY_BOUNDED_STATIC n) = n"
| "kefir_ast_type_array_const_length _ = 0"

section \<open>Data model and traits\<close>

datatype data_model_tag =
    KEFIR_DATA_MODEL_UNKNOWN | KEFIR_DATA_MODEL_ILP32 | KEFIR_DATA_MODEL_LLP64
  | KEFIR_DATA_MODEL_LP64 | KEFIR_DATA_MODEL_ILP64 | KEFIR_DATA_MODEL_SILP64

record data_model_descriptor =
  dm_model :: data_model_tag
  bool_bits :: nat
  char_bits :: nat
  short_bits :: nat
  int_bits :: nat
  long_bits :: nat
  long_long_bits :: nat
  int128_bits :: nat

definition AMD64_SYSV_DATA_MODEL_DESCRIPTOR :: data_model_descriptor where
  "AMD64_SYSV_DATA_MODEL_DESCRIPTOR =
     \<lparr>dm_model = KEFIR_DATA_MODEL_LP64, bool_bits = 8, char_bits = 8, short_bits = 16, int_bits = 32,
      long_bits = 64, long_long_bits = 64, int128_bits = 128\<rparr>"

text \<open>
  The traits hold pointers to the functions \<^verbatim>\<open>default_*\<close>, the only ones the code ever installs;
  their callers use these functions directly here.
\<close>

record type_traits =
  underlying_enumeration_type :: ast_type
  size_type :: ast_type
  uintptr_type :: ast_type
  ptrdiff_type :: ast_type
  wide_char_type :: ast_type
  unicode8_char_type :: ast_type
  unicode16_char_type :: ast_type
  unicode32_char_type :: ast_type
  incomplete_type_substitute :: ast_type
  character_type_signedness :: bool
  data_model :: data_model_descriptor

definition kefir_ast_type_traits_init :: "data_model_descriptor \<Rightarrow> type_traits result" where
  "kefir_ast_type_traits_init dm =
     (case dm_model dm of
        KEFIR_DATA_MODEL_LP64 \<Rightarrow>
          Inr \<lparr>underlying_enumeration_type = Scalar KEFIR_AST_TYPE_SCALAR_SIGNED_INT,
               size_type = Scalar KEFIR_AST_TYPE_SCALAR_UNSIGNED_LONG,
               uintptr_type = Scalar KEFIR_AST_TYPE_SCALAR_UNSIGNED_LONG,
               ptrdiff_type = Scalar KEFIR_AST_TYPE_SCALAR_SIGNED_LONG,
               wide_char_type = Scalar KEFIR_AST_TYPE_SCALAR_SIGNED_INT,
               unicode8_char_type = Scalar KEFIR_AST_TYPE_SCALAR_CHAR,
               unicode16_char_type = Scalar KEFIR_AST_TYPE_SCALAR_UNSIGNED_SHORT,
               unicode32_char_type = Scalar KEFIR_AST_TYPE_SCALAR_UNSIGNED_INT,
               incomplete_type_substitute = Scalar KEFIR_AST_TYPE_SCALAR_CHAR,
               character_type_signedness = True,
               data_model = dm\<rparr>
      | _ \<Rightarrow> Inl KEFIR_NOT_SUPPORTED)"

section \<open>Signedness and corresponding types\<close>

fun kefir_ast_type_is_signed :: "type_traits \<Rightarrow> ast_type \<Rightarrow> bool result" where
  "kefir_ast_type_is_signed tr (Scalar tag) =
     (case tag of
        KEFIR_AST_TYPE_SCALAR_BOOL \<Rightarrow> Inr False
      | KEFIR_AST_TYPE_SCALAR_UNSIGNED_CHAR \<Rightarrow> Inr False
      | KEFIR_AST_TYPE_SCALAR_UNSIGNED_SHORT \<Rightarrow> Inr False
      | KEFIR_AST_TYPE_SCALAR_UNSIGNED_INT \<Rightarrow> Inr False
      | KEFIR_AST_TYPE_SCALAR_UNSIGNED_LONG \<Rightarrow> Inr False
      | KEFIR_AST_TYPE_SCALAR_UNSIGNED_LONG_LONG \<Rightarrow> Inr False
      | KEFIR_AST_TYPE_SCALAR_UNSIGNED_INT128 \<Rightarrow> Inr False
      | KEFIR_AST_TYPE_SCALAR_NULL_POINTER \<Rightarrow> Inr False
      | KEFIR_AST_TYPE_SCALAR_SIGNED_CHAR \<Rightarrow> Inr True
      | KEFIR_AST_TYPE_SCALAR_SIGNED_SHORT \<Rightarrow> Inr True
      | KEFIR_AST_TYPE_SCALAR_SIGNED_INT \<Rightarrow> Inr True
      | KEFIR_AST_TYPE_SCALAR_SIGNED_LONG \<Rightarrow> Inr True
      | KEFIR_AST_TYPE_SCALAR_SIGNED_LONG_LONG \<Rightarrow> Inr True
      | KEFIR_AST_TYPE_SCALAR_SIGNED_INT128 \<Rightarrow> Inr True
      | KEFIR_AST_TYPE_SCALAR_CHAR \<Rightarrow> Inr (character_type_signedness tr)
      | _ \<Rightarrow> Inl KEFIR_INVALID_REQUEST)"
| "kefir_ast_type_is_signed tr (UnsignedBitPrecise w) = Inr False"
| "kefir_ast_type_is_signed tr (SignedBitPrecise w) = Inr True"
| "kefir_ast_type_is_signed tr (Pointer t) = Inr False"
| "kefir_ast_type_is_signed tr (Enumeration h u es) = kefir_ast_type_is_signed tr u"
| "kefir_ast_type_is_signed tr (Qualified q t) = kefir_ast_type_is_signed tr t"
| "kefir_ast_type_is_signed tr t = Inl KEFIR_INVALID_REQUEST"

text \<open>The opposite-sign type of a bit-precise type is the one allocated together with it.\<close>

definition kefir_ast_type_flip_integer_singedness :: "type_traits \<Rightarrow> ast_type \<Rightarrow> ast_type option" where
  "kefir_ast_type_flip_integer_singedness tr t =
     (case t of
        Scalar tag \<Rightarrow>
          (case tag of
             KEFIR_AST_TYPE_SCALAR_BOOL \<Rightarrow> Some t
           | KEFIR_AST_TYPE_SCALAR_CHAR \<Rightarrow>
               Some (Scalar (if character_type_signedness tr then KEFIR_AST_TYPE_SCALAR_UNSIGNED_CHAR
                             else KEFIR_AST_TYPE_SCALAR_SIGNED_CHAR))
           | KEFIR_AST_TYPE_SCALAR_UNSIGNED_CHAR \<Rightarrow> Some (Scalar KEFIR_AST_TYPE_SCALAR_SIGNED_CHAR)
           | KEFIR_AST_TYPE_SCALAR_SIGNED_CHAR \<Rightarrow> Some (Scalar KEFIR_AST_TYPE_SCALAR_UNSIGNED_CHAR)
           | KEFIR_AST_TYPE_SCALAR_UNSIGNED_SHORT \<Rightarrow> Some (Scalar KEFIR_AST_TYPE_SCALAR_SIGNED_SHORT)
           | KEFIR_AST_TYPE_SCALAR_SIGNED_SHORT \<Rightarrow> Some (Scalar KEFIR_AST_TYPE_SCALAR_UNSIGNED_SHORT)
           | KEFIR_AST_TYPE_SCALAR_UNSIGNED_INT \<Rightarrow> Some (Scalar KEFIR_AST_TYPE_SCALAR_SIGNED_INT)
           | KEFIR_AST_TYPE_SCALAR_SIGNED_INT \<Rightarrow> Some (Scalar KEFIR_AST_TYPE_SCALAR_UNSIGNED_INT)
           | KEFIR_AST_TYPE_SCALAR_UNSIGNED_LONG \<Rightarrow> Some (Scalar KEFIR_AST_TYPE_SCALAR_SIGNED_LONG)
           | KEFIR_AST_TYPE_SCALAR_SIGNED_LONG \<Rightarrow> Some (Scalar KEFIR_AST_TYPE_SCALAR_UNSIGNED_LONG)
           | KEFIR_AST_TYPE_SCALAR_UNSIGNED_LONG_LONG \<Rightarrow> Some (Scalar KEFIR_AST_TYPE_SCALAR_SIGNED_LONG_LONG)
           | KEFIR_AST_TYPE_SCALAR_SIGNED_LONG_LONG \<Rightarrow> Some (Scalar KEFIR_AST_TYPE_SCALAR_UNSIGNED_LONG_LONG)
           | KEFIR_AST_TYPE_SCALAR_UNSIGNED_INT128 \<Rightarrow> Some (Scalar KEFIR_AST_TYPE_SCALAR_SIGNED_INT128)
           | KEFIR_AST_TYPE_SCALAR_SIGNED_INT128 \<Rightarrow> Some (Scalar KEFIR_AST_TYPE_SCALAR_UNSIGNED_INT128)
           | _ \<Rightarrow> None)
      | SignedBitPrecise w \<Rightarrow> Some (UnsignedBitPrecise w)
      | UnsignedBitPrecise w \<Rightarrow> Some (SignedBitPrecise w)
      | _ \<Rightarrow> None)"

definition kefir_ast_type_corresponding_real_type :: "ast_type \<Rightarrow> ast_type option" where
  "kefir_ast_type_corresponding_real_type t =
     (if KEFIR_AST_TYPE_IS_REAL_TYPE t then Some t
      else (case t of ComplexFP r \<Rightarrow> Some r | ImaginaryFP r \<Rightarrow> Some r | _ \<Rightarrow> None))"

definition has_complex_type :: "basic_tag \<Rightarrow> bool" where
  "has_complex_type tag \<longleftrightarrow>
     tag = KEFIR_AST_TYPE_SCALAR_FLOAT \<or> tag = KEFIR_AST_TYPE_SCALAR_DOUBLE \<or> tag = KEFIR_AST_TYPE_SCALAR_LONG_DOUBLE \<or>
     tag = KEFIR_AST_TYPE_SCALAR_INTERCHANGE_FLOAT32 \<or> tag = KEFIR_AST_TYPE_SCALAR_INTERCHANGE_FLOAT64 \<or>
     tag = KEFIR_AST_TYPE_SCALAR_INTERCHANGE_FLOAT80 \<or> tag = KEFIR_AST_TYPE_SCALAR_EXTENDED_FLOAT32 \<or>
     tag = KEFIR_AST_TYPE_SCALAR_EXTENDED_FLOAT64"

definition kefir_ast_type_corresponding_complex_type :: "ast_type \<Rightarrow> ast_type option" where
  "kefir_ast_type_corresponding_complex_type t =
     (case t of
        Scalar tag \<Rightarrow> if has_complex_type tag then Some (ComplexFP t) else None
      | ComplexFP r \<Rightarrow> Some t
      | _ \<Rightarrow> None)"

definition kefir_ast_type_corresponding_imaginary_type :: "ast_type \<Rightarrow> ast_type option" where
  "kefir_ast_type_corresponding_imaginary_type t =
     (case t of
        Scalar tag \<Rightarrow> if has_complex_type tag then Some (ImaginaryFP t) else None
      | ImaginaryFP r \<Rightarrow> Some t
      | _ \<Rightarrow> None)"

end
