(* ===== verification/Kefir_Type_Same.thy ===== *)
theory Kefir_Type_Same
  imports Kefir_Ast_Type
begin

text \<open>
  Identity of types: the \<^verbatim>\<open>same\<close> operation of every kind of type
  (\<^verbatim>\<open>source/ast/type/{basic,pointer,enum,struct,array,function,qualified}.c\<close>). The code reaches the
  operation of a component through the function pointer in its type object; here each operation
  takes the comparison of components as a parameter, and \<open>KEFIR_AST_TYPE_SAME\<close> ties the knot. The
  macro's test for equal pointers is left out: \<open>same_refl\<close> shows that it does not change the
  answer.
\<close>

section \<open>Sizes of components\<close>

lemma size_field: "f \<in> set fs \<Longrightarrow> size (field_type f) < size_list (size_struct_field size) fs"
proof (induction fs)
  case (Cons a fs)
  then show ?case by (cases a) auto
qed simp

lemma size_param: "p \<in> set ps \<Longrightarrow> param_type p = Some t \<Longrightarrow>
    Suc (size t) < size_list (size_function_param size) ps"
proof (induction ps)
  case (Cons a ps)
  show ?case using Cons by (cases a) (auto simp: dest: less_trans_Suc)
qed simp

lemma size_struct_fields [simp]:
  "f \<in> set fs \<Longrightarrow> size (field_type f) < size (Structure h fs)"
  "f \<in> set fs \<Longrightarrow> size (field_type f) < size (UnionType h fs)"
  using size_field [of f fs] by auto

lemma size_function_params [simp]:
  "p \<in> set ps \<Longrightarrow> param_type p = Some t \<Longrightarrow> Suc (size t) < size (Function h r ps)"
  using size_param [of p ps t] by auto

section \<open>The operations\<close>

type_synonym type_relation = "ast_type \<Rightarrow> ast_type \<Rightarrow> bool"

definition same_basic_type :: "type_relation \<Rightarrow> type_relation" where
  "same_basic_type same t1 t2 =
     (case t1 of
        Scalar tag1 \<Rightarrow> t2 = Scalar tag1
      | SignedBitPrecise w1 \<Rightarrow> t2 = SignedBitPrecise w1
      | UnsignedBitPrecise w1 \<Rightarrow> t2 = UnsignedBitPrecise w1
      | ComplexFP r1 \<Rightarrow> (case t2 of ComplexFP r2 \<Rightarrow> same r1 r2 | _ \<Rightarrow> False)
      | ImaginaryFP r1 \<Rightarrow> (case t2 of ImaginaryFP r2 \<Rightarrow> same r1 r2 | _ \<Rightarrow> False)
      | _ \<Rightarrow> False)"

definition same_pointer_type :: "type_relation \<Rightarrow> type_relation" where
  "same_pointer_type same t1 t2 =
     (case (t1, t2) of (Pointer r1, Pointer r2) \<Rightarrow> same r1 r2 | _ \<Rightarrow> False)"

text \<open>The loop over both lists of enumerators compares names, presence of values and values.\<close>

definition same_enumerators :: "enumerators \<Rightarrow> enumerators \<Rightarrow> bool" where
  "same_enumerators es1 es2 \<longleftrightarrow>
     length es1 = length es2 \<and>
     list_all (\<lambda>((n1, v1), (n2, v2)). n1 = n2 \<and>
         (case (v1, v2) of (Some x, Some y) \<Rightarrow> x = y | _ \<Rightarrow> v1 = None \<and> v2 = None)) (zip es1 es2)"

definition same_enumeration_type :: "type_relation \<Rightarrow> type_relation" where
  "same_enumeration_type same t1 t2 =
     (case (t1, t2) of
        (Enumeration h1 u1 es1, Enumeration h2 u2 es2) \<Rightarrow>
          en_complete h1 = en_complete h2 \<and> en_identifier h1 = en_identifier h2 \<and>
          en_no_discard h1 = en_no_discard h2 \<and> en_deprecated h1 = en_deprecated h2 \<and>
          (en_complete h1 \<longrightarrow>
             same u1 u2 \<and> en_alignment h1 = en_alignment h2 \<and> same_enumerators es1 es2)
      | _ \<Rightarrow> False)"

definition same_bitfield :: "ast_type struct_field \<Rightarrow> ast_type struct_field \<Rightarrow> bool" where
  "same_bitfield f1 f2 \<longleftrightarrow>
     (\<not> field_bitfield f1 \<and> \<not> field_bitfield f2) \<or> field_bitwidth f1 = field_bitwidth f2"

text \<open>The guards on the heads that structures and unions share.\<close>

definition same_struct_head :: "struct_head \<Rightarrow> struct_head \<Rightarrow> bool" where
  "same_struct_head h1 h2 \<longleftrightarrow>
     st_complete h1 = st_complete h2 \<and> st_packed h1 = st_packed h2 \<and>
     (st_packed h1 = KEFIR_AST_STRUCT_NOPACK \<or> st_packed_member_alignment h1 = st_packed_member_alignment h2) \<and>
     st_aggregate_alignment h1 = st_aggregate_alignment h2 \<and> st_no_discard h1 = st_no_discard h2 \<and>
     st_deprecated h1 = st_deprecated h2 \<and> st_identifier h1 = st_identifier h2"

definition same_structure_type :: "type_relation \<Rightarrow> type_relation" where
  "same_structure_type same t1 t2 =
     (case (t1, t2) of
        (Structure h1 fs1, Structure h2 fs2) \<Rightarrow>
          same_struct_head h1 h2 \<and>
          (st_complete h1 \<longrightarrow>
             length fs1 = length fs2 \<and>
             list_all (\<lambda>(f1, f2).
                 field_identifier f1 = field_identifier f2 \<and> field_alignment f1 = field_alignment f2 \<and>
                 same_bitfield f1 f2 \<and> same (field_type f1) (field_type f2) \<and>
                 field_deprecated f1 = field_deprecated f2) (zip fs1 fs2))
      | _ \<Rightarrow> False)"

text \<open>
  The index of a structure or union maps the identifiers of its named members to the members;
  unnamed members are not in it.
\<close>

definition field_index :: "ast_type struct_field list \<Rightarrow> (string \<times> ast_type struct_field) list" where
  "field_index fs = concat (map (\<lambda>f. case field_identifier f of None \<Rightarrow> [] | Some n \<Rightarrow> [(n, f)]) fs)"

definition same_union_type :: "type_relation \<Rightarrow> type_relation" where
  "same_union_type same t1 t2 =
     (case (t1, t2) of
        (UnionType h1 fs1, UnionType h2 fs2) \<Rightarrow>
          same_struct_head h1 h2 \<and>
          (st_complete h1 \<longrightarrow>
             list_all (\<lambda>(n, f1).
                 case map_of (field_index fs2) n of
                   None \<Rightarrow> False
                 | Some f2 \<Rightarrow> field_identifier f1 = field_identifier f2 \<and> same_bitfield f1 f2 \<and>
                     same (field_type f1) (field_type f2)) (field_index fs1) \<and>
             length (field_index fs1) = length (field_index fs2))
      | _ \<Rightarrow> False)"

definition same_array_type :: "type_relation \<Rightarrow> type_relation" where
  "same_array_type same t1 t2 =
     (case (t1, t2) of
        (Array e1 b1 q1, Array e2 b2 q2) \<Rightarrow>
          (case (b1, b2) of
             (KEFIR_AST_ARRAY_UNBOUNDED, KEFIR_AST_ARRAY_UNBOUNDED) \<Rightarrow> True
           | (KEFIR_AST_ARRAY_VLA v1, KEFIR_AST_ARRAY_VLA v2) \<Rightarrow> (v1 = None) = (v2 = None)
           | (KEFIR_AST_ARRAY_VLA_STATIC v1, KEFIR_AST_ARRAY_VLA_STATIC v2) \<Rightarrow> (v1 = None) = (v2 = None)
           | (KEFIR_AST_ARRAY_BOUNDED n1, KEFIR_AST_ARRAY_BOUNDED n2) \<Rightarrow> n1 = n2
           | (KEFIR_AST_ARRAY_BOUNDED_STATIC n1, KEFIR_AST_ARRAY_BOUNDED_STATIC n2) \<Rightarrow> n1 = n2
           | _ \<Rightarrow> False) \<and>
          same e1 e2
      | _ \<Rightarrow> False)"

definition same_function_type :: "type_relation \<Rightarrow> type_relation" where
  "same_function_type same t1 t2 =
     (case (t1, t2) of
        (Function h1 r1 ps1, Function h2 r2 ps2) \<Rightarrow>
          same r1 r2 \<and> fn_mode h1 = fn_mode h2 \<and> length ps1 = length ps2 \<and>
          list_all (\<lambda>(p1, p2).
              (case (param_type p1, param_type p2) of
                 (None, None) \<Rightarrow> True
               | (Some x, Some y) \<Rightarrow> same x y
               | _ \<Rightarrow> False) \<and> param_storage p1 = param_storage p2) (zip ps1 ps2) \<and>
          fn_ellipsis h1 = fn_ellipsis h2 \<and> fn_returns_twice h1 = fn_returns_twice h2 \<and>
          fn_no_return h1 = fn_no_return h2 \<and> fn_no_discard h1 = fn_no_discard h2
      | _ \<Rightarrow> False)"

definition same_qualified_type :: "type_relation \<Rightarrow> type_relation" where
  "same_qualified_type same t1 t2 =
     (case (t1, t2) of
        (Qualified q1 u1, Qualified q2 u2) \<Rightarrow>
          q_constant q1 = q_constant q2 \<and> q_restricted q1 = q_restricted q2 \<and>
          q_volatile_type q1 = q_volatile_type q2 \<and> q_atomic_type q1 = q_atomic_type q2 \<and> same u1 u2
      | _ \<Rightarrow> False)"

text \<open>The operation installed in a type object.\<close>

definition ops_same :: "type_relation \<Rightarrow> type_relation" where
  "ops_same same t1 t2 =
     (case t1 of
        Pointer _ \<Rightarrow> same_pointer_type same t1 t2
      | Enumeration _ _ _ \<Rightarrow> same_enumeration_type same t1 t2
      | Structure _ _ \<Rightarrow> same_structure_type same t1 t2
      | UnionType _ _ \<Rightarrow> same_union_type same t1 t2
      | Array _ _ _ \<Rightarrow> same_array_type same t1 t2
      | Function _ _ _ \<Rightarrow> same_function_type same t1 t2
      | Qualified _ _ \<Rightarrow> same_qualified_type same t1 t2
      | _ \<Rightarrow> same_basic_type same t1 t2)"

lemma in_field_index: "(n, f) \<in> set (field_index fs) \<longleftrightarrow> f \<in> set fs \<and> field_identifier f = Some n"
  by (auto simp: field_index_def split: option.splits)

lemma list_all_zip_cong:
  assumes "\<And>x y. x \<in> set xs \<Longrightarrow> P x y = Q x y"
  shows "list_all (\<lambda>(x, y). P x y) (zip xs ys) = list_all (\<lambda>(x, y). Q x y) (zip xs ys)"
  by (rule list.pred_cong [OF refl]) (auto dest: set_zip_leftD simp: assms)

text \<open>The operation of a type consults the comparison only on components of the type.\<close>

lemma same_structure_type_cong:
  assumes "\<And>f b. f \<in> set fs \<Longrightarrow> same (field_type f) b = same' (field_type f) b"
  shows "same_structure_type same (Structure h fs) t2 = same_structure_type same' (Structure h fs) t2"
proof (cases t2)
  case (Structure h2 fs2)
  have "list_all (\<lambda>(f1, f2). field_identifier f1 = field_identifier f2 \<and> field_alignment f1 = field_alignment f2 \<and>
        same_bitfield f1 f2 \<and> same (field_type f1) (field_type f2) \<and> field_deprecated f1 = field_deprecated f2) (zip fs fs2) =
      list_all (\<lambda>(f1, f2). field_identifier f1 = field_identifier f2 \<and> field_alignment f1 = field_alignment f2 \<and>
        same_bitfield f1 f2 \<and> same' (field_type f1) (field_type f2) \<and> field_deprecated f1 = field_deprecated f2) (zip fs fs2)"
    by (rule list_all_zip_cong) (simp add: assms)
  then show ?thesis using Structure by (simp add: same_structure_type_def)
qed (simp_all add: same_structure_type_def)

lemma same_union_type_cong:
  assumes "\<And>f b. f \<in> set fs \<Longrightarrow> same (field_type f) b = same' (field_type f) b"
  shows "same_union_type same (UnionType h fs) t2 = same_union_type same' (UnionType h fs) t2"
proof (cases t2)
  case (UnionType h2 fs2)
  have "list_all (\<lambda>(n, f1). case map_of (field_index fs2) n of None \<Rightarrow> False
          | Some f2 \<Rightarrow> field_identifier f1 = field_identifier f2 \<and> same_bitfield f1 f2 \<and> same (field_type f1) (field_type f2))
        (field_index fs) =
      list_all (\<lambda>(n, f1). case map_of (field_index fs2) n of None \<Rightarrow> False
          | Some f2 \<Rightarrow> field_identifier f1 = field_identifier f2 \<and> same_bitfield f1 f2 \<and> same' (field_type f1) (field_type f2))
        (field_index fs)"
    by (rule list.pred_cong [OF refl]) (auto simp: in_field_index assms split: option.splits)
  then show ?thesis using UnionType by (simp add: same_union_type_def)
qed (simp_all add: same_union_type_def)

lemma same_function_type_cong:
  assumes "\<And>b. same r b = same' r b"
    and "\<And>p x b. p \<in> set ps \<Longrightarrow> param_type p = Some x \<Longrightarrow> same x b = same' x b"
  shows "same_function_type same (Function h r ps) t2 = same_function_type same' (Function h r ps) t2"
proof (cases t2)
  case (Function h2 r2 ps2)
  have "list_all (\<lambda>(p1, p2). (case (param_type p1, param_type p2) of (None, None) \<Rightarrow> True | (Some x, Some y) \<Rightarrow> same x y
          | _ \<Rightarrow> False) \<and> param_storage p1 = param_storage p2) (zip ps ps2) =
      list_all (\<lambda>(p1, p2). (case (param_type p1, param_type p2) of (None, None) \<Rightarrow> True | (Some x, Some y) \<Rightarrow> same' x y
          | _ \<Rightarrow> False) \<and> param_storage p1 = param_storage p2) (zip ps ps2)"
    by (rule list_all_zip_cong) (auto simp: assms split: option.splits)
  then show ?thesis using Function assms(1) by (simp add: same_function_type_def)
qed (simp_all add: same_function_type_def)

lemma ops_same_cong [fundef_cong]:
  assumes "t1 = t1'" and "t2 = t2'" and IH: "\<And>a b. size a < size t1' \<Longrightarrow> same a b = same' a b"
  shows "ops_same same t1 t2 = ops_same same' t1' t2'"
  unfolding assms(1,2)
proof (cases t1')
  case (Structure h fs)
  have "same (field_type f) b = same' (field_type f) b" if "f \<in> set fs" for f b
    using IH [of "field_type f" b] size_struct_fields(1) [OF that, of h] Structure by simp
  then show "ops_same same t1' t2' = ops_same same' t1' t2'"
    using same_structure_type_cong [of fs same same' h t2'] Structure by (simp add: ops_same_def)
next
  case (UnionType h fs)
  have "same (field_type f) b = same' (field_type f) b" if "f \<in> set fs" for f b
    using IH [of "field_type f" b] size_struct_fields(2) [OF that, of h] UnionType by simp
  then show "ops_same same t1' t2' = ops_same same' t1' t2'"
    using same_union_type_cong [of fs same same' h t2'] UnionType by (simp add: ops_same_def)
next
  case (Function h r ps)
  have "same_function_type same (Function h r ps) t2' = same_function_type same' (Function h r ps) t2'"
  proof (rule same_function_type_cong)
    show "same r b = same' r b" for b using IH [of r b] Function by simp
    show "same x b = same' x b" if "p \<in> set ps" "param_type p = Some x" for p x b
      using IH [of x b] size_function_params [OF that, of h r] Function by simp
  qed
  then show "ops_same same t1' t2' = ops_same same' t1' t2'"
    using Function by (simp add: ops_same_def)
next
  case (Enumeration h u es)
  then show "ops_same same t1' t2' = ops_same same' t1' t2'"
    using IH by (cases t2') (simp_all add: ops_same_def same_enumeration_type_def)
next
  case (Array e b q)
  then show "ops_same same t1' t2' = ops_same same' t1' t2'"
    using IH by (cases t2') (simp_all add: ops_same_def same_array_type_def)
next
  case (Qualified q u)
  then show "ops_same same t1' t2' = ops_same same' t1' t2'"
    using IH by (cases t2') (simp_all add: ops_same_def same_qualified_type_def)
next
  case (Pointer r)
  then show "ops_same same t1' t2' = ops_same same' t1' t2'"
    using IH by (cases t2') (simp_all add: ops_same_def same_pointer_type_def)
next
  case (ComplexFP r)
  then show "ops_same same t1' t2' = ops_same same' t1' t2'"
    using IH by (cases t2') (simp_all add: ops_same_def same_basic_type_def)
next
  case (ImaginaryFP r)
  then show "ops_same same t1' t2' = ops_same same' t1' t2'"
    using IH by (cases t2') (simp_all add: ops_same_def same_basic_type_def)
qed (simp_all add: ops_same_def same_basic_type_def)

function KEFIR_AST_TYPE_SAME :: type_relation where
  "KEFIR_AST_TYPE_SAME t1 t2 = ops_same KEFIR_AST_TYPE_SAME t1 t2"
  by pat_completeness auto
termination by (relation "measure (\<lambda>(t1, t2). size t1)") auto

declare KEFIR_AST_TYPE_SAME.simps [simp del]

section \<open>Characterisation\<close>

definition same_field :: "type_relation \<Rightarrow> ast_type struct_field \<Rightarrow> ast_type struct_field \<Rightarrow> bool" where
  "same_field same f1 f2 \<longleftrightarrow>
     field_identifier f1 = field_identifier f2 \<and> field_alignment f1 = field_alignment f2 \<and>
     same_bitfield f1 f2 \<and> same (field_type f1) (field_type f2) \<and> field_deprecated f1 = field_deprecated f2"

definition same_param :: "type_relation \<Rightarrow> ast_type function_param \<Rightarrow> ast_type function_param \<Rightarrow> bool" where
  "same_param same p1 p2 \<longleftrightarrow> rel_option same (param_type p1) (param_type p2) \<and> param_storage p1 = param_storage p2"

definition same_member :: "type_relation \<Rightarrow> ast_type struct_field \<Rightarrow> ast_type struct_field \<Rightarrow> bool" where
  "same_member same f1 f2 \<longleftrightarrow> same_bitfield f1 f2 \<and> same (field_type f1) (field_type f2)"

definition same_index :: "type_relation \<Rightarrow> ast_type struct_field list \<Rightarrow> ast_type struct_field list \<Rightarrow> bool" where
  "same_index same fs1 fs2 \<longleftrightarrow>
     length (field_index fs1) = length (field_index fs2) \<and>
     (\<forall>n f1. (n, f1) \<in> set (field_index fs1) \<longrightarrow>
        (\<exists>f2. map_of (field_index fs2) n = Some f2 \<and> same_member same f1 f2))"

fun same_boundary :: "array_boundary \<Rightarrow> array_boundary \<Rightarrow> bool" where
  "same_boundary KEFIR_AST_ARRAY_UNBOUNDED b2 \<longleftrightarrow> b2 = KEFIR_AST_ARRAY_UNBOUNDED"
| "same_boundary (KEFIR_AST_ARRAY_VLA v1) b2 \<longleftrightarrow> (\<exists>v2. b2 = KEFIR_AST_ARRAY_VLA v2 \<and> (v1 = None) = (v2 = None))"
| "same_boundary (KEFIR_AST_ARRAY_VLA_STATIC v1) b2 \<longleftrightarrow>
     (\<exists>v2. b2 = KEFIR_AST_ARRAY_VLA_STATIC v2 \<and> (v1 = None) = (v2 = None))"
| "same_boundary (KEFIR_AST_ARRAY_BOUNDED n) b2 \<longleftrightarrow> b2 = KEFIR_AST_ARRAY_BOUNDED n"
| "same_boundary (KEFIR_AST_ARRAY_BOUNDED_STATIC n) b2 \<longleftrightarrow> b2 = KEFIR_AST_ARRAY_BOUNDED_STATIC n"

definition same_function_head :: "function_head \<Rightarrow> function_head \<Rightarrow> bool" where
  "same_function_head h1 h2 \<longleftrightarrow> fn_mode h1 = fn_mode h2 \<and> fn_ellipsis h1 = fn_ellipsis h2 \<and>
     fn_returns_twice h1 = fn_returns_twice h2 \<and> fn_no_return h1 = fn_no_return h2 \<and> fn_no_discard h1 = fn_no_discard h2"

lemma list_all_zip_iff: "length xs = length ys \<and> list_all (\<lambda>(x, y). P x y) (zip xs ys) \<longleftrightarrow> list_all2 P xs ys"
  by (auto simp: list_all2_iff list_all_iff)

lemma same_enumerators_iff: "same_enumerators es1 es2 \<longleftrightarrow> es1 = es2"
proof -
  have "same_enumerators es1 es2 \<longleftrightarrow>
      list_all2 (\<lambda>(n1, v1) (n2, v2). n1 = n2 \<and> (case (v1, v2) of (Some x, Some y) \<Rightarrow> x = y | _ \<Rightarrow> v1 = None \<and> v2 = None)) es1 es2"
    unfolding same_enumerators_def list_all_zip_iff [symmetric] by (simp add: case_prod_unfold)
  also have "(\<lambda>(n1 :: string, v1 :: int option) (n2, v2). n1 = n2 \<and>
      (case (v1, v2) of (Some x, Some y) \<Rightarrow> x = y | _ \<Rightarrow> v1 = None \<and> v2 = None)) = (=)"
    by (auto simp: fun_eq_iff split: option.splits)
  finally show ?thesis by (simp add: list.rel_eq)
qed

lemma same_scalars [simp]:
  "KEFIR_AST_TYPE_SAME (Scalar a) t2 \<longleftrightarrow> t2 = Scalar a"
  "KEFIR_AST_TYPE_SAME (SignedBitPrecise w) t2 \<longleftrightarrow> t2 = SignedBitPrecise w"
  "KEFIR_AST_TYPE_SAME (UnsignedBitPrecise w) t2 \<longleftrightarrow> t2 = UnsignedBitPrecise w"
  by (auto simp: KEFIR_AST_TYPE_SAME.simps [of "Scalar a" for a] KEFIR_AST_TYPE_SAME.simps [of "SignedBitPrecise w"]
      KEFIR_AST_TYPE_SAME.simps [of "UnsignedBitPrecise w"] ops_same_def same_basic_type_def)

lemma same_derived [simp]:
  "KEFIR_AST_TYPE_SAME (ComplexFP r) t2 \<longleftrightarrow> (\<exists>r2. t2 = ComplexFP r2 \<and> KEFIR_AST_TYPE_SAME r r2)"
  "KEFIR_AST_TYPE_SAME (ImaginaryFP r) t2 \<longleftrightarrow> (\<exists>r2. t2 = ImaginaryFP r2 \<and> KEFIR_AST_TYPE_SAME r r2)"
  "KEFIR_AST_TYPE_SAME (Pointer r) t2 \<longleftrightarrow> (\<exists>r2. t2 = Pointer r2 \<and> KEFIR_AST_TYPE_SAME r r2)"
  "KEFIR_AST_TYPE_SAME (Qualified q u) t2 \<longleftrightarrow> (\<exists>q2 u2. t2 = Qualified q2 u2 \<and> q = q2 \<and> KEFIR_AST_TYPE_SAME u u2)"
  "KEFIR_AST_TYPE_SAME (Array e b q) t2 \<longleftrightarrow>
     (\<exists>e2 b2 q2. t2 = Array e2 b2 q2 \<and> same_boundary b b2 \<and> KEFIR_AST_TYPE_SAME e e2)"
  "KEFIR_AST_TYPE_SAME (Enumeration h u es) t2 \<longleftrightarrow>
     (\<exists>h2 u2 es2. t2 = Enumeration h2 u2 es2 \<and> en_complete h = en_complete h2 \<and> en_identifier h = en_identifier h2 \<and>
        en_no_discard h = en_no_discard h2 \<and> en_deprecated h = en_deprecated h2 \<and>
        (en_complete h \<longrightarrow> KEFIR_AST_TYPE_SAME u u2 \<and> en_alignment h = en_alignment h2 \<and> es = es2))"
proof -
  show "KEFIR_AST_TYPE_SAME (ComplexFP r) t2 \<longleftrightarrow> (\<exists>r2. t2 = ComplexFP r2 \<and> KEFIR_AST_TYPE_SAME r r2)"
    by (subst KEFIR_AST_TYPE_SAME.simps) (cases t2; simp add: ops_same_def same_basic_type_def)
  show "KEFIR_AST_TYPE_SAME (ImaginaryFP r) t2 \<longleftrightarrow> (\<exists>r2. t2 = ImaginaryFP r2 \<and> KEFIR_AST_TYPE_SAME r r2)"
    by (subst KEFIR_AST_TYPE_SAME.simps) (cases t2; simp add: ops_same_def same_basic_type_def)
  show "KEFIR_AST_TYPE_SAME (Pointer r) t2 \<longleftrightarrow> (\<exists>r2. t2 = Pointer r2 \<and> KEFIR_AST_TYPE_SAME r r2)"
    by (subst KEFIR_AST_TYPE_SAME.simps) (cases t2; simp add: ops_same_def same_pointer_type_def)
  show "KEFIR_AST_TYPE_SAME (Qualified q u) t2 \<longleftrightarrow> (\<exists>q2 u2. t2 = Qualified q2 u2 \<and> q = q2 \<and> KEFIR_AST_TYPE_SAME u u2)"
    by (subst KEFIR_AST_TYPE_SAME.simps) (cases t2; auto simp: ops_same_def same_qualified_type_def)
  show "KEFIR_AST_TYPE_SAME (Array e b q) t2 \<longleftrightarrow>
     (\<exists>e2 b2 q2. t2 = Array e2 b2 q2 \<and> same_boundary b b2 \<and> KEFIR_AST_TYPE_SAME e e2)"
    by (subst KEFIR_AST_TYPE_SAME.simps)
      (cases t2; cases b; auto simp: ops_same_def same_array_type_def split: array_boundary.splits)
  show "KEFIR_AST_TYPE_SAME (Enumeration h u es) t2 \<longleftrightarrow>
     (\<exists>h2 u2 es2. t2 = Enumeration h2 u2 es2 \<and> en_complete h = en_complete h2 \<and> en_identifier h = en_identifier h2 \<and>
        en_no_discard h = en_no_discard h2 \<and> en_deprecated h = en_deprecated h2 \<and>
        (en_complete h \<longrightarrow> KEFIR_AST_TYPE_SAME u u2 \<and> en_alignment h = en_alignment h2 \<and> es = es2))"
    by (subst KEFIR_AST_TYPE_SAME.simps)
      (cases t2; simp add: ops_same_def same_enumeration_type_def same_enumerators_iff)
qed

lemma same_structure [simp]:
  "KEFIR_AST_TYPE_SAME (Structure h fs) t2 \<longleftrightarrow>
     (\<exists>h2 fs2. t2 = Structure h2 fs2 \<and> same_struct_head h h2 \<and>
        (st_complete h \<longrightarrow> list_all2 (same_field KEFIR_AST_TYPE_SAME) fs fs2))"
proof (cases t2)
  case (Structure h2 fs2)
  then show ?thesis
    by (subst KEFIR_AST_TYPE_SAME.simps)
      (simp add: ops_same_def same_structure_type_def same_field_def [abs_def] list_all_zip_iff [symmetric])
qed (simp_all add: KEFIR_AST_TYPE_SAME.simps [of "Structure h fs"] ops_same_def same_structure_type_def)

lemma same_function [simp]:
  "KEFIR_AST_TYPE_SAME (Function h r ps) t2 \<longleftrightarrow>
     (\<exists>h2 r2 ps2. t2 = Function h2 r2 ps2 \<and> same_function_head h h2 \<and> KEFIR_AST_TYPE_SAME r r2 \<and>
        list_all2 (same_param KEFIR_AST_TYPE_SAME) ps ps2)"
proof (cases t2)
  case (Function h2 r2 ps2)
  have "same_param KEFIR_AST_TYPE_SAME = (\<lambda>p1 p2. (case (param_type p1, param_type p2) of (None, None) \<Rightarrow> True
      | (Some x, Some y) \<Rightarrow> KEFIR_AST_TYPE_SAME x y | _ \<Rightarrow> False) \<and> param_storage p1 = param_storage p2)"
    by (auto simp: fun_eq_iff same_param_def split: option.splits)
  then show ?thesis using Function
    by (subst KEFIR_AST_TYPE_SAME.simps)
      (auto simp add: ops_same_def same_function_type_def same_function_head_def list_all_zip_iff [symmetric])
qed (simp_all add: KEFIR_AST_TYPE_SAME.simps [of "Function h r ps"] ops_same_def same_function_type_def)

lemma same_union [simp]:
  "KEFIR_AST_TYPE_SAME (UnionType h fs) t2 \<longleftrightarrow>
     (\<exists>h2 fs2. t2 = UnionType h2 fs2 \<and> same_struct_head h h2 \<and>
        (st_complete h \<longrightarrow> same_index KEFIR_AST_TYPE_SAME fs fs2))"
proof (cases t2)
  case (UnionType h2 fs2)
  have "(case map_of (field_index fs2) n of None \<Rightarrow> False
          | Some f2 \<Rightarrow> field_identifier f1 = field_identifier f2 \<and> same_bitfield f1 f2 \<and>
              KEFIR_AST_TYPE_SAME (field_type f1) (field_type f2)) \<longleftrightarrow>
        (\<exists>f2. map_of (field_index fs2) n = Some f2 \<and> same_member KEFIR_AST_TYPE_SAME f1 f2)"
    if "(n, f1) \<in> set (field_index fs)" for n f1
    using that map_of_SomeD [of "field_index fs2" n]
    by (auto simp: same_member_def in_field_index split: option.splits)
  then show ?thesis using UnionType
    by (subst KEFIR_AST_TYPE_SAME.simps)
      (auto simp add: ops_same_def same_union_type_def same_index_def list_all_iff)
qed (simp_all add: KEFIR_AST_TYPE_SAME.simps [of "UnionType h fs"] ops_same_def same_union_type_def)

section \<open>Identity is an equivalence on the types the front end builds\<close>

text \<open>
  The front end gives a member that is no bit-field the width 0
  (\<^verbatim>\<open>kefir_ast_struct_type_field\<close>) and refuses a second member of the same name.
\<close>

definition field_ok :: "ast_type struct_field \<Rightarrow> bool" where
  "field_ok f \<longleftrightarrow> (\<not> field_bitfield f \<longrightarrow> field_bitwidth f = 0)"

definition fields_ok :: "ast_type struct_field list \<Rightarrow> bool" where
  "fields_ok fs \<longleftrightarrow> distinct (map fst (field_index fs)) \<and> list_all field_ok fs"

function (sequential) wf_type :: "ast_type \<Rightarrow> bool" where
  "wf_type (ComplexFP t) = wf_type t"
| "wf_type (ImaginaryFP t) = wf_type t"
| "wf_type (Pointer t) = wf_type t"
| "wf_type (Enumeration h u es) = wf_type u"
| "wf_type (Structure h fs) = (fields_ok fs \<and> list_all (\<lambda>f. wf_type (field_type f)) fs)"
| "wf_type (UnionType h fs) = (fields_ok fs \<and> list_all (\<lambda>f. wf_type (field_type f)) fs)"
| "wf_type (Array e b q) = wf_type e"
| "wf_type (Function h r ps) =
     (wf_type r \<and> list_all (\<lambda>p. case param_type p of None \<Rightarrow> True | Some t \<Rightarrow> wf_type t) ps)"
| "wf_type (Qualified q t) = wf_type t"
| "wf_type t = True"
  by pat_completeness auto
termination by (relation "measure size") (auto dest: size_field size_param)

lemma same_bitfield_iff: "field_ok f1 \<Longrightarrow> field_ok f2 \<Longrightarrow> same_bitfield f1 f2 \<longleftrightarrow> field_bitwidth f1 = field_bitwidth f2"
  by (auto simp: same_bitfield_def field_ok_def)

lemma same_struct_head_equiv:
  "same_struct_head h h"
  "same_struct_head h1 h2 \<Longrightarrow> same_struct_head h2 h1"
  "same_struct_head h1 h2 \<Longrightarrow> same_struct_head h2 h3 \<Longrightarrow> same_struct_head h1 h3"
  by (auto simp: same_struct_head_def)

lemma same_struct_head_complete: "same_struct_head h1 h2 \<Longrightarrow> st_complete h1 = st_complete h2"
  by (simp add: same_struct_head_def)

lemma same_function_head_equiv:
  "same_function_head h h"
  "same_function_head h1 h2 \<Longrightarrow> same_function_head h2 h1"
  "same_function_head h1 h2 \<Longrightarrow> same_function_head h2 h3 \<Longrightarrow> same_function_head h1 h3"
  by (auto simp: same_function_head_def)

lemma same_boundary_equiv:
  "same_boundary b b"
  "same_boundary b1 b2 \<Longrightarrow> same_boundary b2 b1"
  "same_boundary b1 b2 \<Longrightarrow> same_boundary b2 b3 \<Longrightarrow> same_boundary b1 b3"
proof -
  show "same_boundary b b" by (cases b) auto
  show "same_boundary b1 b2 \<Longrightarrow> same_boundary b2 b1" by (cases b1) auto
  show "same_boundary b1 b2 \<Longrightarrow> same_boundary b2 b3 \<Longrightarrow> same_boundary b1 b3" by (cases b1) auto
qed

lemma field_index_lookup:
  assumes "fields_ok fs"
  shows "map_of (field_index fs) n = Some f \<longleftrightarrow> f \<in> set fs \<and> field_identifier f = Some n"
  using assms by (simp add: fields_ok_def in_field_index [symmetric])

lemma wf_fields:
  "wf_type (Structure h fs) \<Longrightarrow> f \<in> set fs \<Longrightarrow> wf_type (field_type f)"
  "wf_type (UnionType h fs) \<Longrightarrow> f \<in> set fs \<Longrightarrow> wf_type (field_type f)"
  by (simp_all add: list_all_iff)

lemma wf_params:
  "wf_type (Function h r ps) \<Longrightarrow> p \<in> set ps \<Longrightarrow> param_type p = Some t \<Longrightarrow> wf_type t"
  by (fastforce simp: list_all_iff)

lemma wf_fields_ok:
  "wf_type (Structure h fs) \<Longrightarrow> fields_ok fs"
  "wf_type (UnionType h fs) \<Longrightarrow> fields_ok fs"
  by simp_all

lemma fields_ok_field: "fields_ok fs \<Longrightarrow> f \<in> set fs \<Longrightarrow> field_ok f"
  by (simp add: fields_ok_def list_all_iff)

text \<open>An equality of components lifts to the members, the parameters and the indices.\<close>

lemma same_param_simps:
  "same_param same p q \<longleftrightarrow> param_storage p = param_storage q \<and>
     (param_type p = None \<and> param_type q = None \<or>
      (\<exists>x y. param_type p = Some x \<and> param_type q = Some y \<and> same x y))"
  by (cases "param_type p"; cases "param_type q") (auto simp: same_param_def)

lemma same_refl: "wf_type t \<Longrightarrow> KEFIR_AST_TYPE_SAME t t"
proof (induction t rule: wf_type.induct)
  case (5 h fs)
  have "same_field KEFIR_AST_TYPE_SAME f f" if "f \<in> set fs" for f
    using "5.IH" [OF that wf_fields(1) [OF "5.prems" that]] by (simp add: same_field_def same_bitfield_def)
  then show ?case by (simp add: same_struct_head_equiv(1) list.rel_refl_strong)
next
  case (6 h fs)
  have "same_member KEFIR_AST_TYPE_SAME f f" if "f \<in> set fs" for f
    using "6.IH" [OF that wf_fields(2) [OF "6.prems" that]] by (simp add: same_member_def same_bitfield_def)
  then have "same_index KEFIR_AST_TYPE_SAME fs fs"
    using wf_fields_ok(2) [OF "6.prems"] by (auto simp: same_index_def in_field_index field_index_lookup)
  then show ?case by (simp add: same_struct_head_equiv(1))
next
  case (8 h r ps)
  have "same_param KEFIR_AST_TYPE_SAME p p" if "p \<in> set ps" for p
  proof (cases "param_type p")
    case (Some t)
    then show ?thesis using "8.IH"(2) [OF that Some wf_params [OF "8.prems" that Some]]
      by (simp add: same_param_def)
  qed (simp add: same_param_def)
  moreover have "KEFIR_AST_TYPE_SAME r r" using "8.IH"(1) "8.prems" by simp
  ultimately show ?case by (simp add: same_function_head_equiv(1) list.rel_refl_strong)
qed (auto simp: same_boundary_equiv(1))

lemma same_index_member:
  assumes "same_index same fs1 fs2" "(n, f1) \<in> set (field_index fs1)"
  obtains f2 where "map_of (field_index fs2) n = Some f2" "same_member same f1 f2"
  using assms unfolding same_index_def by blast

lemma same_index_names:
  assumes "fields_ok fs1" "fields_ok fs2" "same_index same fs1 fs2"
  shows "fst ` set (field_index fs2) = fst ` set (field_index fs1)"
proof -
  have sub: "fst ` set (field_index fs1) \<subseteq> fst ` set (field_index fs2)"
  proof (rule image_subsetI)
    fix x assume "x \<in> set (field_index fs1)"
    then have "(fst x, snd x) \<in> set (field_index fs1)" by simp
    then obtain f2 where "map_of (field_index fs2) (fst x) = Some f2"
      by (rule same_index_member [OF assms(3)])
    then show "fst x \<in> fst ` set (field_index fs2)" using map_of_SomeD [of "field_index fs2"] by (metis fst_conv image_eqI)
  qed
  have "card (fst ` set (field_index fs1)) = card (fst ` set (field_index fs2))"
    using assms distinct_card [of "map fst (field_index fs1)"] distinct_card [of "map fst (field_index fs2)"]
    by (simp add: same_index_def fields_ok_def)
  then show ?thesis using card_subset_eq [OF _ sub] by simp
qed

lemma same_index_sym:
  assumes ok: "fields_ok fs1" "fields_ok fs2" and s: "same_index same fs1 fs2"
    and IH: "\<And>f g. f \<in> set fs1 \<Longrightarrow> g \<in> set fs2 \<Longrightarrow> same (field_type f) (field_type g) \<Longrightarrow> same' (field_type g) (field_type f)"
  shows "same_index same' fs2 fs1"
  unfolding same_index_def
proof (intro conjI allI impI)
  show "length (field_index fs2) = length (field_index fs1)" using s by (simp add: same_index_def)
  fix n g assume g: "(n, g) \<in> set (field_index fs2)"
  then have "n \<in> fst ` set (field_index fs1)" using same_index_names [OF ok s] by force
  then obtain f where f: "(n, f) \<in> set (field_index fs1)" by auto
  obtain g' where g': "map_of (field_index fs2) n = Some g'" "same_member same f g'"
    using same_index_member [OF s f] .
  moreover have "g' = g"
    using g' g ok(2) by (simp add: field_index_lookup in_field_index [symmetric] fields_ok_def)
  ultimately have "same_member same' g f"
    using IH [of f g] f g by (auto simp: same_member_def same_bitfield_def in_field_index)
  then show "\<exists>f. map_of (field_index fs1) n = Some f \<and> same_member same' g f"
    using f ok(1) by (auto simp: field_index_lookup in_field_index)
qed

lemma same_sym: "KEFIR_AST_TYPE_SAME t1 t2 \<Longrightarrow> wf_type t1 \<Longrightarrow> wf_type t2 \<Longrightarrow> KEFIR_AST_TYPE_SAME t2 t1"
proof (induction t1 arbitrary: t2 rule: wf_type.induct)
  case (5 h fs)
  obtain h2 fs2 where t2: "t2 = Structure h2 fs2" "same_struct_head h h2"
      "st_complete h \<longrightarrow> list_all2 (same_field KEFIR_AST_TYPE_SAME) fs fs2" using "5.prems"(1) by auto
  have "same_field KEFIR_AST_TYPE_SAME g f" if "f \<in> set fs" "g \<in> set fs2" "same_field KEFIR_AST_TYPE_SAME f g" for f g
  proof -
    have "KEFIR_AST_TYPE_SAME (field_type f) (field_type g)" using that(3) by (simp add: same_field_def)
    from "5.IH" [OF that(1) this wf_fields(1) [OF "5.prems"(2) that(1)] wf_fields(1) [OF "5.prems"(3) [unfolded t2] that(2)]]
    show ?thesis using that(3) by (auto simp: same_field_def same_bitfield_def)
  qed
  then have "list_all2 (same_field KEFIR_AST_TYPE_SAME) fs2 fs" if "list_all2 (same_field KEFIR_AST_TYPE_SAME) fs fs2"
    using that by (auto simp: list_all2_conv_all_nth)
  then show ?case using t2 same_struct_head_equiv(2) [OF t2(2)] same_struct_head_complete [OF t2(2)] by simp
next
  case (6 h fs)
  obtain h2 fs2 where t2: "t2 = UnionType h2 fs2" "same_struct_head h h2"
      "st_complete h \<longrightarrow> same_index KEFIR_AST_TYPE_SAME fs fs2" using "6.prems"(1) by auto
  have IH: "KEFIR_AST_TYPE_SAME (field_type g) (field_type f)"
    if "f \<in> set fs" "g \<in> set fs2" "KEFIR_AST_TYPE_SAME (field_type f) (field_type g)" for f g
    by (rule "6.IH" [OF that(1,3) wf_fields(2) [OF "6.prems"(2) that(1)] wf_fields(2) [OF "6.prems"(3) [unfolded t2] that(2)]])
  have "fields_ok fs" "fields_ok fs2" using wf_fields_ok(2) "6.prems"(2,3) t2(1) by blast+
  then have "same_index KEFIR_AST_TYPE_SAME fs2 fs" if "same_index KEFIR_AST_TYPE_SAME fs fs2"
    using that by (rule same_index_sym) (rule IH)
  then show ?case using t2 same_struct_head_equiv(2) [OF t2(2)] same_struct_head_complete [OF t2(2)] by simp
next
  case (8 h r ps)
  obtain h2 r2 ps2 where t2: "t2 = Function h2 r2 ps2" "same_function_head h h2" "KEFIR_AST_TYPE_SAME r r2"
      "list_all2 (same_param KEFIR_AST_TYPE_SAME) ps ps2" using "8.prems"(1) by auto
  have "same_param KEFIR_AST_TYPE_SAME q p" if "p \<in> set ps" "q \<in> set ps2" "same_param KEFIR_AST_TYPE_SAME p q" for p q
    using that(3) "8.IH"(2) [OF that(1)] wf_params [OF "8.prems"(2) that(1)] wf_params [OF "8.prems"(3) [unfolded t2] that(2)]
    unfolding same_param_simps by metis
  then have "list_all2 (same_param KEFIR_AST_TYPE_SAME) ps2 ps"
    using t2(4) by (auto simp: list_all2_conv_all_nth)
  moreover have "KEFIR_AST_TYPE_SAME r2 r" using "8.IH"(1) [OF t2(3)] "8.prems"(2,3) t2(1) by simp
  ultimately show ?case using t2(1) same_function_head_equiv(2) [OF t2(2)] by simp
qed (auto intro: same_boundary_equiv(2))

lemma same_index_trans:
  assumes ok: "fields_ok fs2" "fields_ok fs3" and s: "same_index same fs1 fs2" "same_index same' fs2 fs3"
    and bits: "list_all field_ok fs1"
    and IH: "\<And>f g h. f \<in> set fs1 \<Longrightarrow> g \<in> set fs2 \<Longrightarrow> h \<in> set fs3 \<Longrightarrow> same (field_type f) (field_type g) \<Longrightarrow>
        same' (field_type g) (field_type h) \<Longrightarrow> same'' (field_type f) (field_type h)"
  shows "same_index same'' fs1 fs3"
  unfolding same_index_def
proof (intro conjI allI impI)
  show "length (field_index fs1) = length (field_index fs3)" using s by (simp add: same_index_def)
  fix n f assume f: "(n, f) \<in> set (field_index fs1)"
  obtain g where g: "map_of (field_index fs2) n = Some g" "same_member same f g"
    using same_index_member [OF s(1) f] .
  obtain h where h: "map_of (field_index fs3) n = Some h" "same_member same' g h"
    using same_index_member [OF s(2) map_of_SomeD [OF g(1)]] .
  have mem: "f \<in> set fs1" "g \<in> set fs2" "h \<in> set fs3"
    using f g(1) h(1) ok by (simp_all add: in_field_index field_index_lookup)
  have "field_ok f" "field_ok g" "field_ok h"
    using bits fields_ok_field [OF ok(1) mem(2)] fields_ok_field [OF ok(2) mem(3)] mem by (simp_all add: list_all_iff)
  then have "same_member same'' f h"
    using IH [OF mem] g(2) h(2) by (simp add: same_member_def same_bitfield_iff)
  then show "\<exists>h. map_of (field_index fs3) n = Some h \<and> same_member same'' f h" using h(1) by blast
qed

lemma list_all2_trans_strong:
  assumes "list_all2 P xs ys" "list_all2 Q ys zs"
    and "\<And>x y z. x \<in> set xs \<Longrightarrow> y \<in> set ys \<Longrightarrow> z \<in> set zs \<Longrightarrow> P x y \<Longrightarrow> Q y z \<Longrightarrow> R x z"
  shows "list_all2 R xs zs"
proof -
  have "length xs = length ys" "length ys = length zs" using assms(1,2) list_all2_lengthD by blast+
  moreover have "R (xs ! i) (zs ! i)" if "i < length xs" for i
    using assms(3) [of "xs ! i" "ys ! i" "zs ! i"] list_all2_nthD [OF assms(1) that] list_all2_nthD [OF assms(2)]
      that calculation by simp
  ultimately show ?thesis by (simp add: list_all2_conv_all_nth)
qed

lemma same_trans:
  "KEFIR_AST_TYPE_SAME t1 t2 \<Longrightarrow> KEFIR_AST_TYPE_SAME t2 t3 \<Longrightarrow> wf_type t1 \<Longrightarrow> wf_type t2 \<Longrightarrow> wf_type t3 \<Longrightarrow>
     KEFIR_AST_TYPE_SAME t1 t3"
proof (induction t1 arbitrary: t2 t3 rule: wf_type.induct)
  case (5 h fs)
  obtain h2 fs2 where t2: "t2 = Structure h2 fs2" "same_struct_head h h2"
      "st_complete h \<longrightarrow> list_all2 (same_field KEFIR_AST_TYPE_SAME) fs fs2" using "5.prems"(1) by auto
  obtain h3 fs3 where t3: "t3 = Structure h3 fs3" "same_struct_head h2 h3"
      "st_complete h2 \<longrightarrow> list_all2 (same_field KEFIR_AST_TYPE_SAME) fs2 fs3" using "5.prems"(2) t2(1) by auto
  note wf = "5.prems"(3) "5.prems"(4) [unfolded t2] "5.prems"(5) [unfolded t3]
  have "same_field KEFIR_AST_TYPE_SAME f k" if "f \<in> set fs" "g \<in> set fs2" "k \<in> set fs3"
      "same_field KEFIR_AST_TYPE_SAME f g" "same_field KEFIR_AST_TYPE_SAME g k" for f g k
  proof -
    have "KEFIR_AST_TYPE_SAME (field_type f) (field_type k)"
      using "5.IH" [OF that(1) _ _ wf_fields(1) [OF wf(1) that(1)] wf_fields(1) [OF wf(2) that(2)] wf_fields(1) [OF wf(3) that(3)]]
        that(4,5) by (simp add: same_field_def)
    moreover have "field_ok f" "field_ok g" "field_ok k"
      using wf that(1-3) wf_fields_ok(1) fields_ok_field by blast+
    ultimately show ?thesis using that(4,5) by (simp add: same_field_def same_bitfield_iff)
  qed
  then have "list_all2 (same_field KEFIR_AST_TYPE_SAME) fs fs3"
    if "list_all2 (same_field KEFIR_AST_TYPE_SAME) fs fs2" "list_all2 (same_field KEFIR_AST_TYPE_SAME) fs2 fs3"
    using list_all2_trans_strong [OF that] by blast
  then show ?case using t2 t3 same_struct_head_equiv(3) [OF t2(2) t3(2)] same_struct_head_complete [OF t2(2)] by simp
next
  case (6 h fs)
  obtain h2 fs2 where t2: "t2 = UnionType h2 fs2" "same_struct_head h h2"
      "st_complete h \<longrightarrow> same_index KEFIR_AST_TYPE_SAME fs fs2" using "6.prems"(1) by auto
  obtain h3 fs3 where t3: "t3 = UnionType h3 fs3" "same_struct_head h2 h3"
      "st_complete h2 \<longrightarrow> same_index KEFIR_AST_TYPE_SAME fs2 fs3" using "6.prems"(2) t2(1) by auto
  note wf = "6.prems"(3) "6.prems"(4) [unfolded t2] "6.prems"(5) [unfolded t3]
  have IH: "KEFIR_AST_TYPE_SAME (field_type f) (field_type k)" if "f \<in> set fs" "g \<in> set fs2" "k \<in> set fs3"
      "KEFIR_AST_TYPE_SAME (field_type f) (field_type g)" "KEFIR_AST_TYPE_SAME (field_type g) (field_type k)" for f g k
    by (rule "6.IH" [OF that(1,4,5) wf_fields(2) [OF wf(1) that(1)] wf_fields(2) [OF wf(2) that(2)] wf_fields(2) [OF wf(3) that(3)]])
  have "list_all field_ok fs" using wf_fields_ok(2) [OF wf(1)] by (simp add: fields_ok_def)
  note bits = this
  have "same_index KEFIR_AST_TYPE_SAME fs fs3"
    if "same_index KEFIR_AST_TYPE_SAME fs fs2" "same_index KEFIR_AST_TYPE_SAME fs2 fs3"
    by (rule same_index_trans [OF wf_fields_ok(2) [OF wf(2)] wf_fields_ok(2) [OF wf(3)] that bits]) (rule IH)
  then show ?case using t2 t3 same_struct_head_equiv(3) [OF t2(2) t3(2)] same_struct_head_complete [OF t2(2)] by simp
next
  case (8 h r ps)
  obtain h2 r2 ps2 where t2: "t2 = Function h2 r2 ps2" "same_function_head h h2" "KEFIR_AST_TYPE_SAME r r2"
      "list_all2 (same_param KEFIR_AST_TYPE_SAME) ps ps2" using "8.prems"(1) by auto
  obtain h3 r3 ps3 where t3: "t3 = Function h3 r3 ps3" "same_function_head h2 h3" "KEFIR_AST_TYPE_SAME r2 r3"
      "list_all2 (same_param KEFIR_AST_TYPE_SAME) ps2 ps3" using "8.prems"(2) t2(1) by auto
  note wf = "8.prems"(3) "8.prems"(4) [unfolded t2] "8.prems"(5) [unfolded t3]
  have "same_param KEFIR_AST_TYPE_SAME p s" if "p \<in> set ps" "q \<in> set ps2" "s \<in> set ps3"
      "same_param KEFIR_AST_TYPE_SAME p q" "same_param KEFIR_AST_TYPE_SAME q s" for p q s
    using that(4,5) "8.IH"(2) [OF that(1)] wf_params [OF wf(1) that(1)] wf_params [OF wf(2) that(2)] wf_params [OF wf(3) that(3)]
    unfolding same_param_simps by (metis option.sel option.distinct(1))
  then have "list_all2 (same_param KEFIR_AST_TYPE_SAME) ps ps3"
    using list_all2_trans_strong [OF t2(4) t3(4)] by blast
  moreover have "KEFIR_AST_TYPE_SAME r r3" using "8.IH"(1) [OF t2(3) t3(3)] wf by simp
  ultimately show ?case using t3(1) same_function_head_equiv(3) [OF t2(2) t3(2)] by simp
next
  case (7 e b q)
  obtain e2 b2 q2 where t2: "t2 = Array e2 b2 q2" "same_boundary b b2" "KEFIR_AST_TYPE_SAME e e2"
    using "7.prems"(1) by auto
  obtain e3 b3 q3 where t3: "t3 = Array e3 b3 q3" "same_boundary b2 b3" "KEFIR_AST_TYPE_SAME e2 e3"
    using "7.prems"(2) t2(1) by auto
  show ?case using "7.IH" [OF t2(3) t3(3)] same_boundary_equiv(3) [OF t2(2) t3(2)] "7.prems"(3-5) t2(1) t3(1) by simp
qed auto

text \<open>
  C21. Identity of types is an equivalence relation on the types the front end builds: every type
  is identical to itself, the answer does not depend on the order of the arguments, and two types
  identical to a third one are identical to each other. This covers structures compared member by
  member, unions compared through their member index, and functions compared with their parameters.\<close>

theorem type_same_equivalence:
  assumes "wf_type t1" "wf_type t2" "wf_type t3"
  shows "KEFIR_AST_TYPE_SAME t1 t1 \<and>
    (KEFIR_AST_TYPE_SAME t1 t2 \<longleftrightarrow> KEFIR_AST_TYPE_SAME t2 t1) \<and>
    (KEFIR_AST_TYPE_SAME t1 t2 \<longrightarrow> KEFIR_AST_TYPE_SAME t2 t3 \<longrightarrow> KEFIR_AST_TYPE_SAME t1 t3)"
  using same_refl same_sym same_trans assms by blast

definition example_head :: struct_head where
  "example_head = \<lparr>st_complete = True, st_identifier = Some ''S'', st_packed = KEFIR_AST_STRUCT_NOPACK,
     st_packed_member_alignment = 0, st_aggregate_alignment = 0, st_no_discard = False, st_deprecated = False\<rparr>"

definition example_field :: "string option \<Rightarrow> basic_tag \<Rightarrow> ast_type struct_field" where
  "example_field n tag = StructField n (Scalar tag) 0 False 0 False"

lemma type_same_equivalence_witness:
  "let t1 = UnionType example_head [example_field (Some ''a'') KEFIR_AST_TYPE_SCALAR_SIGNED_INT,
                                    example_field (Some ''b'') KEFIR_AST_TYPE_SCALAR_FLOAT];
       t2 = UnionType example_head [example_field (Some ''b'') KEFIR_AST_TYPE_SCALAR_FLOAT,
                                    example_field (Some ''a'') KEFIR_AST_TYPE_SCALAR_SIGNED_INT]
   in wf_type t1 \<and> wf_type t2 \<and> KEFIR_AST_TYPE_SAME t1 t2 \<and> KEFIR_AST_TYPE_SAME t2 t1"
proof -
  let ?t1 = "UnionType example_head [example_field (Some ''a'') KEFIR_AST_TYPE_SCALAR_SIGNED_INT,
                                     example_field (Some ''b'') KEFIR_AST_TYPE_SCALAR_FLOAT]"
  let ?t2 = "UnionType example_head [example_field (Some ''b'') KEFIR_AST_TYPE_SCALAR_FLOAT,
                                     example_field (Some ''a'') KEFIR_AST_TYPE_SCALAR_SIGNED_INT]"
  have wf: "wf_type ?t1" "wf_type ?t2"
    by (simp_all add: example_field_def fields_ok_def field_index_def field_ok_def)
  have "KEFIR_AST_TYPE_SAME ?t1 ?t2"
    by (simp add: same_index_def field_index_def example_field_def same_struct_head_def same_member_def same_bitfield_def)
  then show ?thesis using type_same_equivalence [OF wf(1) wf(2) wf(1)] wf by (simp only: Let_def)
qed

text \<open>
  Two complete unions with the same head are identical as soon as their named members agree:
  the comparison walks the member index, which holds no unnamed member, so that a member that is an
  anonymous structure or union (or an unnamed bit-field) is not compared at all.\<close>

theorem same_union_ignores_unnamed_members:
  assumes "wf_type (UnionType h fs)" "fields_ok gs" "list_all (\<lambda>f. field_identifier f = None) gs"
  shows "KEFIR_AST_TYPE_SAME (UnionType h fs) (UnionType h (fs @ gs))"
proof -
  have "field_index gs = []" using assms(3) by (auto simp: field_index_def list_all_iff)
  then have "field_index (fs @ gs) = field_index fs" by (simp add: field_index_def)
  then show ?thesis using same_refl [OF assms(1)] by (simp add: same_index_def)
qed

lemma same_union_ignores_unnamed_members_witness:
  "KEFIR_AST_TYPE_SAME
     (UnionType example_head [example_field (Some ''a'') KEFIR_AST_TYPE_SCALAR_SIGNED_INT])
     (UnionType example_head ([example_field (Some ''a'') KEFIR_AST_TYPE_SCALAR_SIGNED_INT] @
        [StructField None (Structure example_head [example_field (Some ''c'') KEFIR_AST_TYPE_SCALAR_DOUBLE]) 0 False 0 False]))"
  by (rule same_union_ignores_unnamed_members)
    (simp_all add: example_field_def fields_ok_def field_index_def field_ok_def)

end
