(* ===== verification/Kefir_Type_Conv.thy ===== *)
theory Kefir_Type_Conv
  imports Kefir_Type_Same
begin

text \<open>
  Conversion ranks, integer promotions, the usual arithmetic conversions and the decay
  conversions: the functions \<^verbatim>\<open>default_*\<close> that \<^verbatim>\<open>source/ast/type.c\<close> installs in the type traits, the
  other classifications of that file, and \<^verbatim>\<open>source/ast/type_conv.c\<close>. A null result is \<^const>\<open>None\<close>.
\<close>

unbundle bit_operations_syntax

section \<open>Ranks, widths and fitting\<close>

record bitfield_properties =
  bf_bitfield :: bool
  bf_width :: nat

definition KEFIR_AST_BITFIELD_PROPERTIES_NONE :: bitfield_properties where
  "KEFIR_AST_BITFIELD_PROPERTIES_NONE = \<lparr>bf_bitfield = False, bf_width = 0\<rparr>"

text \<open>
  A rank packs a base rank, the width and a flag into 64 bits; the doubled width is truncated to
  32 bits.
\<close>

definition MAKE_RANK :: "nat \<Rightarrow> nat \<Rightarrow> bool \<Rightarrow> 64 word" where
  "MAKE_RANK base width bit_precise =
     push_bit 32 (of_nat base) OR (ucast (of_nat (width * 2) :: 32 word)) OR (if bit_precise then 0 else 1)"

definition bit_precise_rank :: "data_model_descriptor \<Rightarrow> nat \<Rightarrow> 64 word" where
  "bit_precise_rank dm width =
     (if width \<le> char_bits dm then MAKE_RANK 1 width True
      else if width \<le> short_bits dm then MAKE_RANK 2 width True
      else if width \<le> int_bits dm then MAKE_RANK 3 width True
      else if width \<le> long_bits dm then MAKE_RANK 4 width True
      else if width \<le> long_long_bits dm then MAKE_RANK 5 width True
      else if width \<le> int128_bits dm then MAKE_RANK 6 width True
      else MAKE_RANK 7 width True)"

definition default_integral_type_rank :: "type_traits \<Rightarrow> ast_type \<Rightarrow> 64 word result" where
  "default_integral_type_rank tr t =
     (let dm = data_model tr in
      if \<not> KEFIR_AST_TYPE_IS_NONENUM_INTEGRAL_TYPE t then Inl KEFIR_INVALID_PARAMETER
      else case t of
        Scalar tag \<Rightarrow>
          (case tag of
             KEFIR_AST_TYPE_SCALAR_BOOL \<Rightarrow> Inr (MAKE_RANK 0 (bool_bits dm) False)
           | KEFIR_AST_TYPE_SCALAR_CHAR \<Rightarrow> Inr (MAKE_RANK 1 (char_bits dm) False)
           | KEFIR_AST_TYPE_SCALAR_UNSIGNED_CHAR \<Rightarrow> Inr (MAKE_RANK 1 (char_bits dm) False)
           | KEFIR_AST_TYPE_SCALAR_SIGNED_CHAR \<Rightarrow> Inr (MAKE_RANK 1 (char_bits dm) False)
           | KEFIR_AST_TYPE_SCALAR_UNSIGNED_SHORT \<Rightarrow> Inr (MAKE_RANK 2 (short_bits dm) False)
           | KEFIR_AST_TYPE_SCALAR_SIGNED_SHORT \<Rightarrow> Inr (MAKE_RANK 2 (short_bits dm) False)
           | KEFIR_AST_TYPE_SCALAR_UNSIGNED_INT \<Rightarrow> Inr (MAKE_RANK 3 (int_bits dm) False)
           | KEFIR_AST_TYPE_SCALAR_SIGNED_INT \<Rightarrow> Inr (MAKE_RANK 3 (int_bits dm) False)
           | KEFIR_AST_TYPE_SCALAR_UNSIGNED_LONG \<Rightarrow> Inr (MAKE_RANK 4 (long_bits dm) False)
           | KEFIR_AST_TYPE_SCALAR_SIGNED_LONG \<Rightarrow> Inr (MAKE_RANK 4 (long_bits dm) False)
           | KEFIR_AST_TYPE_SCALAR_UNSIGNED_LONG_LONG \<Rightarrow> Inr (MAKE_RANK 5 (long_long_bits dm) False)
           | KEFIR_AST_TYPE_SCALAR_SIGNED_LONG_LONG \<Rightarrow> Inr (MAKE_RANK 5 (long_long_bits dm) False)
           | KEFIR_AST_TYPE_SCALAR_UNSIGNED_INT128 \<Rightarrow> Inr (MAKE_RANK 6 (int128_bits dm) False)
           | KEFIR_AST_TYPE_SCALAR_SIGNED_INT128 \<Rightarrow> Inr (MAKE_RANK 6 (int128_bits dm) False)
           | _ \<Rightarrow> Inl KEFIR_INVALID_REQUEST)
      | SignedBitPrecise width \<Rightarrow> Inr (bit_precise_rank dm width)
      | UnsignedBitPrecise width \<Rightarrow> Inr (bit_precise_rank dm width)
      | _ \<Rightarrow> Inl KEFIR_INVALID_REQUEST)"

definition default_integral_type_width :: "type_traits \<Rightarrow> ast_type \<Rightarrow> nat result" where
  "default_integral_type_width tr t =
     (let dm = data_model tr in
      case t of
        Scalar tag \<Rightarrow>
          (case tag of
             KEFIR_AST_TYPE_SCALAR_BOOL \<Rightarrow> Inr (bool_bits dm)
           | KEFIR_AST_TYPE_SCALAR_CHAR \<Rightarrow> Inr (char_bits dm)
           | KEFIR_AST_TYPE_SCALAR_UNSIGNED_CHAR \<Rightarrow> Inr (char_bits dm)
           | KEFIR_AST_TYPE_SCALAR_SIGNED_CHAR \<Rightarrow> Inr (char_bits dm)
           | KEFIR_AST_TYPE_SCALAR_UNSIGNED_SHORT \<Rightarrow> Inr (short_bits dm)
           | KEFIR_AST_TYPE_SCALAR_SIGNED_SHORT \<Rightarrow> Inr (short_bits dm)
           | KEFIR_AST_TYPE_SCALAR_UNSIGNED_INT \<Rightarrow> Inr (int_bits dm)
           | KEFIR_AST_TYPE_SCALAR_SIGNED_INT \<Rightarrow> Inr (int_bits dm)
           | KEFIR_AST_TYPE_SCALAR_UNSIGNED_LONG \<Rightarrow> Inr (long_bits dm)
           | KEFIR_AST_TYPE_SCALAR_SIGNED_LONG \<Rightarrow> Inr (long_bits dm)
           | KEFIR_AST_TYPE_SCALAR_UNSIGNED_LONG_LONG \<Rightarrow> Inr (long_long_bits dm)
           | KEFIR_AST_TYPE_SCALAR_SIGNED_LONG_LONG \<Rightarrow> Inr (long_long_bits dm)
           | KEFIR_AST_TYPE_SCALAR_UNSIGNED_INT128 \<Rightarrow> Inr (int128_bits dm)
           | KEFIR_AST_TYPE_SCALAR_SIGNED_INT128 \<Rightarrow> Inr (int128_bits dm)
           | _ \<Rightarrow> Inl KEFIR_INVALID_REQUEST)
      | SignedBitPrecise width \<Rightarrow> Inr width
      | UnsignedBitPrecise width \<Rightarrow> Inr width
      | _ \<Rightarrow> Inl KEFIR_INVALID_REQUEST)"

definition default_integral_type_fits :: "type_traits \<Rightarrow> ast_type \<Rightarrow> ast_type \<Rightarrow> bool result" where
  "default_integral_type_fits tr source dest =
     bindE (requireE ((KEFIR_AST_TYPE_IS_INTEGRAL_TYPE source \<or> source = Scalar KEFIR_AST_TYPE_SCALAR_BOOL) \<and>
                      (KEFIR_AST_TYPE_IS_INTEGRAL_TYPE dest \<or> dest = Scalar KEFIR_AST_TYPE_SCALAR_BOOL))
              KEFIR_INVALID_PARAMETER) (\<lambda>_.
     bindE (default_integral_type_width tr source) (\<lambda>source_width.
     bindE (default_integral_type_width tr dest) (\<lambda>destination_width.
     bindE (kefir_ast_type_is_signed tr source) (\<lambda>src_sign.
     bindE (kefir_ast_type_is_signed tr dest) (\<lambda>dst_sign.
       Inr (if src_sign = dst_sign \<or> (src_sign \<and> \<not> dst_sign) then source_width \<le> destination_width
            else if \<not> src_sign \<and> dst_sign then source_width < destination_width
            else False))))))"

definition default_pointer_type_fits :: "type_traits \<Rightarrow> ast_type \<Rightarrow> bool result" where
  "default_pointer_type_fits tr t =
     (let dm = data_model tr in
      if \<not> (KEFIR_AST_TYPE_IS_INTEGRAL_TYPE t \<or> t = Scalar KEFIR_AST_TYPE_SCALAR_BOOL \<or> is_pointer t \<or>
             t = Scalar KEFIR_AST_TYPE_SCALAR_NULL_POINTER) then Inl KEFIR_INVALID_PARAMETER
      else case t of
        Scalar tag \<Rightarrow>
          if tag = KEFIR_AST_TYPE_SCALAR_BOOL \<or> tag = KEFIR_AST_TYPE_SCALAR_CHAR \<or>
             tag = KEFIR_AST_TYPE_SCALAR_UNSIGNED_CHAR \<or> tag = KEFIR_AST_TYPE_SCALAR_SIGNED_CHAR \<or>
             tag = KEFIR_AST_TYPE_SCALAR_UNSIGNED_SHORT \<or> tag = KEFIR_AST_TYPE_SCALAR_SIGNED_SHORT then Inr False
          else if tag = KEFIR_AST_TYPE_SCALAR_UNSIGNED_INT \<or> tag = KEFIR_AST_TYPE_SCALAR_SIGNED_INT then
            Inr (dm_model dm = KEFIR_DATA_MODEL_SILP64 \<or> dm_model dm = KEFIR_DATA_MODEL_ILP64 \<or>
                 dm_model dm = KEFIR_DATA_MODEL_ILP32)
          else if tag = KEFIR_AST_TYPE_SCALAR_UNSIGNED_LONG \<or> tag = KEFIR_AST_TYPE_SCALAR_SIGNED_LONG then
            Inr (dm_model dm \<noteq> KEFIR_DATA_MODEL_LLP64)
          else if tag = KEFIR_AST_TYPE_SCALAR_UNSIGNED_LONG_LONG \<or> tag = KEFIR_AST_TYPE_SCALAR_SIGNED_LONG_LONG \<or>
                  tag = KEFIR_AST_TYPE_SCALAR_UNSIGNED_INT128 \<or> tag = KEFIR_AST_TYPE_SCALAR_SIGNED_INT128 then Inr True
          else Inl KEFIR_INVALID_PARAMETER
      | UnsignedBitPrecise width \<Rightarrow> Inr (long_long_bits dm \<le> width)
      | SignedBitPrecise width \<Rightarrow> Inr (long_long_bits dm \<le> width)
      | _ \<Rightarrow> Inl KEFIR_INVALID_PARAMETER)"

definition default_bitfield_promotion :: "type_traits \<Rightarrow> ast_type \<Rightarrow> nat \<Rightarrow> ast_type" where
  "default_bitfield_promotion tr t width =
     (if KEFIR_AST_TYPE_IS_BIT_PRECISE_INTEGRAL_TYPE t then t
      else if width = int_bits (data_model tr) \<and> KEFIR_INTERNAL_AST_TYPE_IS_SIGNED_INTEGER t then
        Scalar KEFIR_AST_TYPE_SCALAR_SIGNED_INT
      else if int_bits (data_model tr) \<le> width then t
      else Scalar KEFIR_AST_TYPE_SCALAR_SIGNED_INT)"

section \<open>Arithmetic conversions\<close>

fun kefir_ast_enumeration_underlying_type :: "ast_type \<Rightarrow> ast_type" where
  "kefir_ast_enumeration_underlying_type (Enumeration h u es) = u"
| "kefir_ast_enumeration_underlying_type t = t"

text \<open>The test \<^verbatim>\<open>res == KEFIR_OK && fits\<close>.\<close>

definition type_fits :: "type_traits \<Rightarrow> ast_type \<Rightarrow> ast_type \<Rightarrow> bool" where
  "type_fits tr source dest \<longleftrightarrow> default_integral_type_fits tr source dest = Inr True"

definition kefir_ast_type_int_promotion :: "type_traits \<Rightarrow> ast_type \<Rightarrow> bitfield_properties \<Rightarrow> ast_type option" where
  "kefir_ast_type_int_promotion tr t0 bitfield_props =
     (if \<not> KEFIR_AST_TYPE_IS_INTEGRAL_TYPE t0 then None
      else let t1 = kefir_ast_enumeration_underlying_type t0 in
        if KEFIR_AST_TYPE_IS_BIT_PRECISE_INTEGRAL_TYPE t1 then Some t1
        else
          let SIGNED_INT = Scalar KEFIR_AST_TYPE_SCALAR_SIGNED_INT;
              UNSIGNED_INT = Scalar KEFIR_AST_TYPE_SCALAR_UNSIGNED_INT;
              t = (if bf_bitfield bitfield_props then default_bitfield_promotion tr t1 (bf_width bitfield_props) else t1)
          in case (default_integral_type_rank tr t, default_integral_type_rank tr SIGNED_INT) of
               (Inr type_rank, Inr signed_int_rank) \<Rightarrow>
                 if type_rank < signed_int_rank then
                   if type_fits tr t SIGNED_INT then Some SIGNED_INT
                   else if type_fits tr t UNSIGNED_INT then Some UNSIGNED_INT
                   else if bf_bitfield bitfield_props then Some t
                   else None
                 else Some t
             | _ \<Rightarrow> None)"

definition ANY_OF :: "ast_type \<Rightarrow> ast_type \<Rightarrow> ast_type \<Rightarrow> bool" where
  "ANY_OF x y z \<longleftrightarrow> KEFIR_AST_TYPE_SAME x z \<or> KEFIR_AST_TYPE_SAME y z"

text \<open>The two \<^verbatim>\<open>REQUIRE\<close>s of every decimal case.\<close>

definition allows_decimal :: "ast_type \<Rightarrow> bool" where
  "allows_decimal t \<longleftrightarrow> \<not> KEFIR_AST_TYPE_IS_STANDARD_FLOATING_POINT t \<and>
     \<not> KEFIR_AST_TYPE_IS_BINARY_FLOATING_POINT t \<and> \<not> KEFIR_AST_TYPE_IS_COMPLEX_TYPE t"

definition in_domain :: "bool \<Rightarrow> bool \<Rightarrow> basic_tag \<Rightarrow> ast_type" where
  "in_domain complex_type imaginary_type tag =
     (if complex_type then ComplexFP (Scalar tag)
      else if imaginary_type then ImaginaryFP (Scalar tag)
      else Scalar tag)"

definition common_integer :: "type_traits \<Rightarrow> ast_type \<Rightarrow> bitfield_properties \<Rightarrow> ast_type \<Rightarrow> bitfield_properties \<Rightarrow>
    ast_type option" where
  "common_integer tr t1 bitfield1 t2 bitfield2 =
     (case (kefir_ast_type_int_promotion tr t1 bitfield1, kefir_ast_type_int_promotion tr t2 bitfield2) of
        (Some type1, Some type2) \<Rightarrow>
          if KEFIR_AST_TYPE_SAME type1 type2 then Some type1
          else (case (kefir_ast_type_is_signed tr type1, kefir_ast_type_is_signed tr type2,
                      default_integral_type_rank tr type1, default_integral_type_rank tr type2) of
             (Inr type1_sign, Inr type2_sign, Inr type1_rank, Inr type2_rank) \<Rightarrow>
               if type1_sign = type2_sign then Some (if type1_rank > type2_rank then type1 else type2)
               else if \<not> type1_sign \<and> type1_rank \<ge> type2_rank then Some type1
               else if type1_sign \<and> type2_rank \<ge> type1_rank then Some type2
               else if type1_sign \<and> type_fits tr type2 type1 then Some type1
               else if \<not> type1_sign \<and> type_fits tr type1 type2 then Some type2
               else if type1_sign then kefir_ast_type_flip_integer_singedness tr type1
               else kefir_ast_type_flip_integer_singedness tr type2
           | _ \<Rightarrow> None)
      | _ \<Rightarrow> None)"

definition common_binary :: "type_traits \<Rightarrow> ast_type \<Rightarrow> bitfield_properties \<Rightarrow> ast_type \<Rightarrow> bitfield_properties \<Rightarrow>
    bool \<Rightarrow> bool \<Rightarrow> ast_type option" where
  "common_binary tr type1 bitfield1 type2 bitfield2 complex_type imaginary_type =
     (let pick = in_domain complex_type imaginary_type in
      if ANY_OF type1 type2 (Scalar KEFIR_AST_TYPE_SCALAR_INTERCHANGE_FLOAT80) then
        Some (pick KEFIR_AST_TYPE_SCALAR_INTERCHANGE_FLOAT80)
      else if ANY_OF type1 type2 (Scalar KEFIR_AST_TYPE_SCALAR_LONG_DOUBLE) then
        Some (pick KEFIR_AST_TYPE_SCALAR_LONG_DOUBLE)
      else if ANY_OF type1 type2 (Scalar KEFIR_AST_TYPE_SCALAR_EXTENDED_FLOAT64) then
        Some (pick KEFIR_AST_TYPE_SCALAR_EXTENDED_FLOAT64)
      else if ANY_OF type1 type2 (Scalar KEFIR_AST_TYPE_SCALAR_INTERCHANGE_FLOAT64) then
        Some (pick KEFIR_AST_TYPE_SCALAR_INTERCHANGE_FLOAT64)
      else if ANY_OF type1 type2 (Scalar KEFIR_AST_TYPE_SCALAR_DOUBLE) then
        Some (pick KEFIR_AST_TYPE_SCALAR_DOUBLE)
      else if ANY_OF type1 type2 (Scalar KEFIR_AST_TYPE_SCALAR_EXTENDED_FLOAT32) then
        Some (pick KEFIR_AST_TYPE_SCALAR_EXTENDED_FLOAT32)
      else if ANY_OF type1 type2 (Scalar KEFIR_AST_TYPE_SCALAR_INTERCHANGE_FLOAT32) then
        Some (pick KEFIR_AST_TYPE_SCALAR_INTERCHANGE_FLOAT32)
      else if ANY_OF type1 type2 (Scalar KEFIR_AST_TYPE_SCALAR_FLOAT) then
        Some (pick KEFIR_AST_TYPE_SCALAR_FLOAT)
      else if complex_type \<or> imaginary_type then None
      else common_integer tr type1 bitfield1 type2 bitfield2)"

definition kefir_ast_type_common_arithmetic ::
    "type_traits \<Rightarrow> ast_type \<Rightarrow> bitfield_properties \<Rightarrow> ast_type \<Rightarrow> bitfield_properties \<Rightarrow> ast_type option" where
  "kefir_ast_type_common_arithmetic tr t1 bitfield1 t2 bitfield2 =
     (if \<not> (KEFIR_AST_TYPE_IS_ARITHMETIC_TYPE t1 \<and> KEFIR_AST_TYPE_IS_ARITHMETIC_TYPE t2) then None
      else
        let type1 = kefir_ast_enumeration_underlying_type t1;
            type2 = kefir_ast_enumeration_underlying_type t2;
            decimal = (\<lambda>tag. if allows_decimal type1 \<and> allows_decimal type2 then Some (Scalar tag) else None)
        in
        if ANY_OF type1 type2 (Scalar KEFIR_AST_TYPE_SCALAR_DECIMAL128) then decimal KEFIR_AST_TYPE_SCALAR_DECIMAL128
        else if ANY_OF type1 type2 (Scalar KEFIR_AST_TYPE_SCALAR_EXTENDED_DECIMAL64) then
          decimal KEFIR_AST_TYPE_SCALAR_EXTENDED_DECIMAL64
        else if ANY_OF type1 type2 (Scalar KEFIR_AST_TYPE_SCALAR_DECIMAL64) then decimal KEFIR_AST_TYPE_SCALAR_DECIMAL64
        else if ANY_OF type1 type2 (Scalar KEFIR_AST_TYPE_SCALAR_DECIMAL32) then decimal KEFIR_AST_TYPE_SCALAR_DECIMAL32
        else
          let complex1 = KEFIR_AST_TYPE_IS_COMPLEX_TYPE type1;
              complex2 = KEFIR_AST_TYPE_IS_COMPLEX_TYPE type2
          in case (if complex1 then kefir_ast_type_corresponding_real_type type1 else Some type1,
                   if complex2 then kefir_ast_type_corresponding_real_type type2 else Some type2) of
               (Some type1, Some type2) \<Rightarrow>
                 let imaginary1 = KEFIR_AST_TYPE_IS_IMAGINARY_TYPE type1;
                     imaginary2 = KEFIR_AST_TYPE_IS_IMAGINARY_TYPE type2
                 in (case (if imaginary1 then kefir_ast_type_corresponding_real_type type1 else Some type1,
                           if imaginary2 then kefir_ast_type_corresponding_real_type type2 else Some type2) of
                       (Some type1, Some type2) \<Rightarrow>
                         common_binary tr type1 bitfield1 type2 bitfield2
                           (complex1 \<or> complex2 \<or> (imaginary1 \<noteq> imaginary2)) (imaginary1 \<and> imaginary2)
                     | _ \<Rightarrow> None)
             | _ \<Rightarrow> None)"

definition kefir_ast_type_multiplicative_common_arithmetic ::
    "type_traits \<Rightarrow> ast_type \<Rightarrow> bitfield_properties \<Rightarrow> ast_type \<Rightarrow> bitfield_properties \<Rightarrow> ast_type option" where
  "kefir_ast_type_multiplicative_common_arithmetic tr type1 bitfield1 type2 bitfield2 =
     (let imaginary = (\<lambda>t. Option.bind t kefir_ast_type_corresponding_imaginary_type) in
      if KEFIR_AST_TYPE_IS_COMPLEX_TYPE type1 \<or> KEFIR_AST_TYPE_IS_COMPLEX_TYPE type2 then
        kefir_ast_type_common_arithmetic tr type1 bitfield1 type2 bitfield2
      else case (type1, type2) of
        (ImaginaryFP real1, ImaginaryFP real2) \<Rightarrow> kefir_ast_type_common_arithmetic tr real1 bitfield1 real2 bitfield2
      | (ImaginaryFP real1, _) \<Rightarrow> imaginary (kefir_ast_type_common_arithmetic tr real1 bitfield1 type2 bitfield2)
      | (_, ImaginaryFP real2) \<Rightarrow> imaginary (kefir_ast_type_common_arithmetic tr type1 bitfield1 real2 bitfield2)
      | _ \<Rightarrow> kefir_ast_type_common_arithmetic tr type1 bitfield1 type2 bitfield2)"

section \<open>Decay and adjustment\<close>

definition kefir_ast_type_function_default_argument_promotion :: "type_traits \<Rightarrow> ast_type \<Rightarrow> ast_type option" where
  "kefir_ast_type_function_default_argument_promotion tr t =
     (if KEFIR_AST_TYPE_IS_NONENUM_INTEGRAL_TYPE t then
        kefir_ast_type_int_promotion tr t KEFIR_AST_BITFIELD_PROPERTIES_NONE
      else if t = Scalar KEFIR_AST_TYPE_SCALAR_FLOAT then Some (Scalar KEFIR_AST_TYPE_SCALAR_DOUBLE)
      else Some t)"

definition kefir_ast_type_lvalue_conversion :: "ast_type \<Rightarrow> ast_type" where
  "kefir_ast_type_lvalue_conversion t = kefir_ast_unqualified_type t"

fun kefir_ast_type_array_conversion :: "ast_type \<Rightarrow> ast_type" where
  "kefir_ast_type_array_conversion (Qualified q (Array e b aq)) = Pointer (kefir_ast_type_qualified e q)"
| "kefir_ast_type_array_conversion (Array e b aq) = Pointer e"
| "kefir_ast_type_array_conversion t = t"

fun kefir_ast_type_function_conversion :: "ast_type \<Rightarrow> ast_type" where
  "kefir_ast_type_function_conversion (Function h r ps) = Pointer (Function h r ps)"
| "kefir_ast_type_function_conversion t = t"

definition CONV_LVALUE :: "32 word" where "CONV_LVALUE = 1"
definition CONV_ARRAY :: "32 word" where "CONV_ARRAY = push_bit 1 1"
definition CONV_FUNCTION :: "32 word" where "CONV_FUNCTION = push_bit 2 1"
definition CONV_ALL :: "32 word" where "CONV_ALL = push_bit 3 1 - 1"

definition kefir_ast_type_conv_expression_wrapper :: "ast_type \<Rightarrow> 32 word \<Rightarrow> ast_type" where
  "kefir_ast_type_conv_expression_wrapper t param =
     (let t = (if param AND CONV_ARRAY \<noteq> 0 then kefir_ast_type_array_conversion t else t);
          t = (if param AND CONV_LVALUE \<noteq> 0 then kefir_ast_type_lvalue_conversion t else t)
      in (if param AND CONV_FUNCTION \<noteq> 0 then kefir_ast_type_function_conversion t else t))"

fun kefir_ast_type_conv_unwrap_enumeration :: "ast_type \<Rightarrow> ast_type" where
  "kefir_ast_type_conv_unwrap_enumeration (Enumeration h u es) = kefir_ast_unqualified_type u"
| "kefir_ast_type_conv_unwrap_enumeration t = t"

definition kefir_ast_type_function_default_argument_convertion_promotion ::
    "type_traits \<Rightarrow> ast_type \<Rightarrow> ast_type option" where
  "kefir_ast_type_function_default_argument_convertion_promotion tr original =
     kefir_ast_type_function_default_argument_promotion tr
       (kefir_ast_type_conv_unwrap_enumeration
          (kefir_ast_unqualified_type (kefir_ast_type_conv_expression_wrapper original CONV_ALL)))"

fun is_qualified :: "ast_type \<Rightarrow> bool" where
  "is_qualified (Qualified q t) = True"
| "is_qualified _ = False"

text \<open>The last branch adds qualifiers to a type that lost them, which never happens: \<^verbatim>\<open>adjusted\<close> is \<^verbatim>\<open>type\<close> there.\<close>

definition kefir_ast_type_conv_adjust_function_parameter :: "ast_type \<Rightarrow> ast_type" where
  "kefir_ast_type_conv_adjust_function_parameter t =
     (let unqualified = kefir_ast_unqualified_type t in
      case unqualified of
        Function _ _ _ \<Rightarrow> Pointer unqualified
      | Array e b q \<Rightarrow>
          if \<not> KEFIR_AST_TYPE_IS_ZERO_QUALIFICATION q then kefir_ast_type_qualified (Pointer e) q else Pointer e
      | _ \<Rightarrow> if is_qualified t \<and> \<not> is_qualified t
            then kefir_ast_type_qualified t (kefir_ast_type_retrieve_qualifications t) else t)"

section \<open>Completeness, variable modification, qualification\<close>

fun kefir_ast_type_is_complete :: "ast_type \<Rightarrow> bool" where
  "kefir_ast_type_is_complete (Structure h fs) = st_complete h"
| "kefir_ast_type_is_complete (UnionType h fs) = st_complete h"
| "kefir_ast_type_is_complete (Enumeration h u es) = en_complete h"
| "kefir_ast_type_is_complete t = True"

text \<open>The callback gets the length expression of each variable-length array and may yield to stop the walk.\<close>

fun kefir_ast_type_list_variable_modificators ::
    "(nat option \<Rightarrow> 's \<Rightarrow> kefir_result \<times> 's) \<Rightarrow> ast_type \<Rightarrow> 's \<Rightarrow> kefir_result \<times> 's" where
  "kefir_ast_type_list_variable_modificators callback (Array e b q) s =
     (let visit = (\<lambda>vla_length.
        let (res, s') = callback vla_length s in
        if res = KEFIR_YIELD then (KEFIR_OK, s')
        else if res \<noteq> KEFIR_OK then (res, s')
        else kefir_ast_type_list_variable_modificators callback e s')
      in case b of
           KEFIR_AST_ARRAY_VLA vla_length \<Rightarrow> visit vla_length
         | KEFIR_AST_ARRAY_VLA_STATIC vla_length \<Rightarrow> visit vla_length
         | _ \<Rightarrow> kefir_ast_type_list_variable_modificators callback e s)"
| "kefir_ast_type_list_variable_modificators callback (Pointer t) s =
     kefir_ast_type_list_variable_modificators callback t s"
| "kefir_ast_type_list_variable_modificators callback (Qualified q t) s =
     kefir_ast_type_list_variable_modificators callback t s"
| "kefir_ast_type_list_variable_modificators callback t s = (KEFIR_OK, s)"

definition list_vl_modifiers :: "nat option \<Rightarrow> nat option \<Rightarrow> kefir_result \<times> nat option" where
  "list_vl_modifiers node found =
     (case node of Some n \<Rightarrow> (KEFIR_YIELD, Some n) | None \<Rightarrow> (KEFIR_OK, found))"

definition kefir_ast_type_get_top_variable_modificator :: "ast_type \<Rightarrow> nat option" where
  "kefir_ast_type_get_top_variable_modificator t =
     snd (kefir_ast_type_list_variable_modificators list_vl_modifiers t None)"

definition kefir_ast_type_is_variably_modified :: "ast_type \<Rightarrow> bool" where
  "kefir_ast_type_is_variably_modified t \<longleftrightarrow> kefir_ast_type_get_top_variable_modificator t \<noteq> None"

fun kefir_ast_type_array_with_element_type :: "ast_type \<Rightarrow> ast_type \<Rightarrow> ast_type" where
  "kefir_ast_type_array_with_element_type (Array e b q) element_type = Array element_type b q"
| "kefir_ast_type_array_with_element_type t element_type = t"

text \<open>
  The member \<^verbatim>\<open>array_type.element_type\<close> as the code reads it from an array or from a qualified type:
  \<^verbatim>\<open>array_type\<close> and \<^verbatim>\<open>qualified_type\<close> share a union and both begin with a pointer to a type, so that the
  second read gives the type under the qualifiers.
\<close>

fun array_type_element_type :: "ast_type \<Rightarrow> ast_type" where
  "array_type_element_type (Array e b q) = e"
| "array_type_element_type (Qualified q t) = t"
| "array_type_element_type t = t"

fun is_array :: "ast_type \<Rightarrow> bool" where
  "is_array (Array e b q) = True"
| "is_array _ = False"

definition kefir_ast_type_apply_qualification :: "bool \<Rightarrow> ast_type \<Rightarrow> type_qualification option \<Rightarrow> ast_type" where
  "kefir_ast_type_apply_qualification at_least_c23 original_type qualifications =
     (case qualifications of
        None \<Rightarrow> original_type
      | Some quals \<Rightarrow>
          let unqualified = kefir_ast_unqualified_type original_type;
              merged = kefir_ast_type_merge_qualifications (kefir_ast_type_retrieve_qualifications original_type) quals
          in if is_array unqualified then
               let array = kefir_ast_type_array_with_element_type unqualified
                             (kefir_ast_type_qualified (array_type_element_type original_type) merged)
               in if at_least_c23 then kefir_ast_type_qualified array merged else array
             else kefir_ast_type_qualified original_type merged)"

section \<open>Function specifiers and classifications\<close>

datatype function_specifier =
    KEFIR_AST_FUNCTION_SPECIFIER_NONE
  | KEFIR_AST_FUNCTION_SPECIFIER_NORETURN
  | KEFIR_AST_FUNCTION_SPECIFIER_INLINE
  | KEFIR_AST_FUNCTION_SPECIFIER_INLINE_NORETURN

fun kefir_ast_context_merge_function_specifiers ::
    "function_specifier \<Rightarrow> function_specifier \<Rightarrow> function_specifier" where
  "kefir_ast_context_merge_function_specifiers KEFIR_AST_FUNCTION_SPECIFIER_NONE s2 = s2"
| "kefir_ast_context_merge_function_specifiers KEFIR_AST_FUNCTION_SPECIFIER_INLINE s2 = s2"
| "kefir_ast_context_merge_function_specifiers KEFIR_AST_FUNCTION_SPECIFIER_NORETURN s2 =
     (case s2 of
        KEFIR_AST_FUNCTION_SPECIFIER_NONE \<Rightarrow> KEFIR_AST_FUNCTION_SPECIFIER_NORETURN
      | KEFIR_AST_FUNCTION_SPECIFIER_INLINE \<Rightarrow> KEFIR_AST_FUNCTION_SPECIFIER_INLINE_NORETURN
      | KEFIR_AST_FUNCTION_SPECIFIER_NORETURN \<Rightarrow> KEFIR_AST_FUNCTION_SPECIFIER_NORETURN
      | KEFIR_AST_FUNCTION_SPECIFIER_INLINE_NORETURN \<Rightarrow> KEFIR_AST_FUNCTION_SPECIFIER_INLINE_NORETURN)"
| "kefir_ast_context_merge_function_specifiers KEFIR_AST_FUNCTION_SPECIFIER_INLINE_NORETURN s2 =
     (case s2 of
        KEFIR_AST_FUNCTION_SPECIFIER_NONE \<Rightarrow> KEFIR_AST_FUNCTION_SPECIFIER_NORETURN
      | KEFIR_AST_FUNCTION_SPECIFIER_INLINE \<Rightarrow> KEFIR_AST_FUNCTION_SPECIFIER_INLINE_NORETURN
      | KEFIR_AST_FUNCTION_SPECIFIER_NORETURN \<Rightarrow> KEFIR_AST_FUNCTION_SPECIFIER_NORETURN
      | KEFIR_AST_FUNCTION_SPECIFIER_INLINE_NORETURN \<Rightarrow> KEFIR_AST_FUNCTION_SPECIFIER_INLINE_NORETURN)"

definition kefir_ast_function_specifier_is_inline :: "function_specifier \<Rightarrow> bool" where
  "kefir_ast_function_specifier_is_inline specifier \<longleftrightarrow>
     specifier = KEFIR_AST_FUNCTION_SPECIFIER_INLINE \<or> specifier = KEFIR_AST_FUNCTION_SPECIFIER_INLINE_NORETURN"

datatype typeclass =
    NO_TYPE_CLASS | VOID_TYPE_CLASS | INTEGER_TYPE_CLASS | CHAR_TYPE_CLASS | ENUMERAL_TYPE_CLASS
  | BOOLEAN_TYPE_CLASS | POINTER_TYPE_CLASS | REAL_TYPE_CLASS | FUNCTION_TYPE_CLASS | RECORD_TYPE_CLASS
  | UNION_TYPE_CLASS | ARRAY_TYPE_CLASS

fun is_function :: "ast_type \<Rightarrow> bool" where
  "is_function (Function h r ps) = True"
| "is_function _ = False"

fun is_structure :: "ast_type \<Rightarrow> bool" where
  "is_structure (Structure h fs) = True"
| "is_structure _ = False"

fun is_union :: "ast_type \<Rightarrow> bool" where
  "is_union (UnionType h fs) = True"
| "is_union _ = False"

definition kefir_ast_type_classify :: "ast_type \<Rightarrow> typeclass" where
  "kefir_ast_type_classify t0 =
     (let t = kefir_ast_unqualified_type t0 in
      if t = Scalar KEFIR_AST_TYPE_VOID then VOID_TYPE_CLASS
      else if t = Scalar KEFIR_AST_TYPE_SCALAR_CHAR \<or> t = Scalar KEFIR_AST_TYPE_SCALAR_UNSIGNED_CHAR \<or>
              t = Scalar KEFIR_AST_TYPE_SCALAR_SIGNED_CHAR then CHAR_TYPE_CLASS
      else if t = Scalar KEFIR_AST_TYPE_SCALAR_SIGNED_SHORT \<or> t = Scalar KEFIR_AST_TYPE_SCALAR_UNSIGNED_SHORT \<or>
              t = Scalar KEFIR_AST_TYPE_SCALAR_SIGNED_INT \<or> t = Scalar KEFIR_AST_TYPE_SCALAR_UNSIGNED_INT \<or>
              t = Scalar KEFIR_AST_TYPE_SCALAR_SIGNED_LONG \<or> t = Scalar KEFIR_AST_TYPE_SCALAR_UNSIGNED_LONG \<or>
              t = Scalar KEFIR_AST_TYPE_SCALAR_SIGNED_LONG_LONG \<or>
              t = Scalar KEFIR_AST_TYPE_SCALAR_UNSIGNED_LONG_LONG \<or>
              t = Scalar KEFIR_AST_TYPE_SCALAR_SIGNED_INT128 \<or> t = Scalar KEFIR_AST_TYPE_SCALAR_UNSIGNED_INT128 \<or>
              is_unsigned_bitprecise t \<or> is_signed_bitprecise t then INTEGER_TYPE_CLASS
      else if is_enumeration t then ENUMERAL_TYPE_CLASS
      else if t = Scalar KEFIR_AST_TYPE_SCALAR_BOOL then BOOLEAN_TYPE_CLASS
      else if is_pointer t \<or> t = Scalar KEFIR_AST_TYPE_SCALAR_NULL_POINTER then POINTER_TYPE_CLASS
      else if KEFIR_AST_TYPE_IS_REAL_FLOATING_POINT t then REAL_TYPE_CLASS
      else if is_function t then FUNCTION_TYPE_CLASS
      else if is_structure t then RECORD_TYPE_CLASS
      else if is_union t then UNION_TYPE_CLASS
      else if is_array t then ARRAY_TYPE_CLASS
      else NO_TYPE_CLASS)"

datatype data_model_classification =
    KEFIR_AST_TYPE_DATA_MODEL_VOID
  | KEFIR_AST_TYPE_DATA_MODEL_INT8 | KEFIR_AST_TYPE_DATA_MODEL_INT16 | KEFIR_AST_TYPE_DATA_MODEL_INT32
  | KEFIR_AST_TYPE_DATA_MODEL_INT64 | KEFIR_AST_TYPE_DATA_MODEL_INT128
  | KEFIR_AST_TYPE_DATA_MODEL_FLOAT | KEFIR_AST_TYPE_DATA_MODEL_DOUBLE | KEFIR_AST_TYPE_DATA_MODEL_LONG_DOUBLE
  | KEFIR_AST_TYPE_DATA_MODEL_COMPLEX_FLOAT | KEFIR_AST_TYPE_DATA_MODEL_COMPLEX_DOUBLE
  | KEFIR_AST_TYPE_DATA_MODEL_COMPLEX_LONG_DOUBLE
  | KEFIR_AST_TYPE_DATA_MODEL_DECIMAL32 | KEFIR_AST_TYPE_DATA_MODEL_DECIMAL64 | KEFIR_AST_TYPE_DATA_MODEL_DECIMAL128
  | KEFIR_AST_TYPE_DATA_MODEL_AGGREGATE | KEFIR_AST_TYPE_DATA_MODEL_FUNCTION
  | KEFIR_AST_TYPE_DATA_MODEL_BITINT | KEFIR_AST_TYPE_DATA_MODEL_AUTO

definition MATCH_BITS :: "nat \<Rightarrow> data_model_classification result" where
  "MATCH_BITS bits =
     (if bits = 8 then Inr KEFIR_AST_TYPE_DATA_MODEL_INT8
      else if bits = 16 then Inr KEFIR_AST_TYPE_DATA_MODEL_INT16
      else if bits = 32 then Inr KEFIR_AST_TYPE_DATA_MODEL_INT32
      else if bits = 64 then Inr KEFIR_AST_TYPE_DATA_MODEL_INT64
      else if bits = 128 then Inr KEFIR_AST_TYPE_DATA_MODEL_INT128
      else Inl KEFIR_INVALID_STATE)"

definition classify_integer :: "type_traits \<Rightarrow> basic_tag \<Rightarrow> data_model_classification result" where
  "classify_integer tr tag =
     (let dm = data_model tr in
      case tag of
        KEFIR_AST_TYPE_SCALAR_BOOL \<Rightarrow> MATCH_BITS (bool_bits dm)
      | KEFIR_AST_TYPE_SCALAR_CHAR \<Rightarrow> MATCH_BITS (char_bits dm)
      | KEFIR_AST_TYPE_SCALAR_UNSIGNED_CHAR \<Rightarrow> MATCH_BITS (char_bits dm)
      | KEFIR_AST_TYPE_SCALAR_SIGNED_CHAR \<Rightarrow> MATCH_BITS (char_bits dm)
      | KEFIR_AST_TYPE_SCALAR_UNSIGNED_SHORT \<Rightarrow> MATCH_BITS (short_bits dm)
      | KEFIR_AST_TYPE_SCALAR_SIGNED_SHORT \<Rightarrow> MATCH_BITS (short_bits dm)
      | KEFIR_AST_TYPE_SCALAR_UNSIGNED_INT \<Rightarrow> MATCH_BITS (int_bits dm)
      | KEFIR_AST_TYPE_SCALAR_SIGNED_INT \<Rightarrow> MATCH_BITS (int_bits dm)
      | KEFIR_AST_TYPE_SCALAR_UNSIGNED_LONG \<Rightarrow> MATCH_BITS (long_bits dm)
      | KEFIR_AST_TYPE_SCALAR_SIGNED_LONG \<Rightarrow> MATCH_BITS (long_bits dm)
      | KEFIR_AST_TYPE_SCALAR_UNSIGNED_LONG_LONG \<Rightarrow> MATCH_BITS (long_long_bits dm)
      | KEFIR_AST_TYPE_SCALAR_SIGNED_LONG_LONG \<Rightarrow> MATCH_BITS (long_long_bits dm)
      | KEFIR_AST_TYPE_SCALAR_UNSIGNED_INT128 \<Rightarrow> MATCH_BITS (int128_bits dm)
      | KEFIR_AST_TYPE_SCALAR_SIGNED_INT128 \<Rightarrow> MATCH_BITS (int128_bits dm)
      | _ \<Rightarrow> Inl KEFIR_INVALID_STATE)"

text \<open>
  A pointer is classified like \<^const>\<open>uintptr_type\<close>, which \<^const>\<open>kefir_ast_type_traits_init\<close> makes an
  integer type; the code would not return for traits where it is a pointer.
\<close>

definition classify_uintptr :: "type_traits \<Rightarrow> data_model_classification result" where
  "classify_uintptr tr =
     (case uintptr_type tr of Scalar tag \<Rightarrow> classify_integer tr tag | _ \<Rightarrow> Inl KEFIR_INVALID_STATE)"

definition classify_basic :: "type_traits \<Rightarrow> basic_tag \<Rightarrow> data_model_classification result" where
  "classify_basic tr tag =
     (case tag of
        KEFIR_AST_TYPE_VOID \<Rightarrow> Inr KEFIR_AST_TYPE_DATA_MODEL_VOID
      | KEFIR_AST_TYPE_SCALAR_FLOAT \<Rightarrow> Inr KEFIR_AST_TYPE_DATA_MODEL_FLOAT
      | KEFIR_AST_TYPE_SCALAR_INTERCHANGE_FLOAT32 \<Rightarrow> Inr KEFIR_AST_TYPE_DATA_MODEL_FLOAT
      | KEFIR_AST_TYPE_SCALAR_DOUBLE \<Rightarrow> Inr KEFIR_AST_TYPE_DATA_MODEL_DOUBLE
      | KEFIR_AST_TYPE_SCALAR_INTERCHANGE_FLOAT64 \<Rightarrow> Inr KEFIR_AST_TYPE_DATA_MODEL_DOUBLE
      | KEFIR_AST_TYPE_SCALAR_EXTENDED_FLOAT32 \<Rightarrow> Inr KEFIR_AST_TYPE_DATA_MODEL_DOUBLE
      | KEFIR_AST_TYPE_SCALAR_LONG_DOUBLE \<Rightarrow> Inr KEFIR_AST_TYPE_DATA_MODEL_LONG_DOUBLE
      | KEFIR_AST_TYPE_SCALAR_INTERCHANGE_FLOAT80 \<Rightarrow> Inr KEFIR_AST_TYPE_DATA_MODEL_LONG_DOUBLE
      | KEFIR_AST_TYPE_SCALAR_EXTENDED_FLOAT64 \<Rightarrow> Inr KEFIR_AST_TYPE_DATA_MODEL_LONG_DOUBLE
      | KEFIR_AST_TYPE_SCALAR_DECIMAL32 \<Rightarrow> Inr KEFIR_AST_TYPE_DATA_MODEL_DECIMAL32
      | KEFIR_AST_TYPE_SCALAR_DECIMAL64 \<Rightarrow> Inr KEFIR_AST_TYPE_DATA_MODEL_DECIMAL64
      | KEFIR_AST_TYPE_SCALAR_DECIMAL128 \<Rightarrow> Inr KEFIR_AST_TYPE_DATA_MODEL_DECIMAL128
      | KEFIR_AST_TYPE_SCALAR_EXTENDED_DECIMAL64 \<Rightarrow> Inr KEFIR_AST_TYPE_DATA_MODEL_DECIMAL128
      | KEFIR_AST_TYPE_SCALAR_NULL_POINTER \<Rightarrow> classify_uintptr tr
      | KEFIR_AST_TYPE_AUTO \<Rightarrow> Inr KEFIR_AST_TYPE_DATA_MODEL_AUTO
      | _ \<Rightarrow> classify_integer tr tag)"

fun kefir_ast_type_data_model_classify :: "type_traits \<Rightarrow> ast_type \<Rightarrow> data_model_classification result" where
  "kefir_ast_type_data_model_classify tr (Scalar tag) = classify_basic tr tag"
| "kefir_ast_type_data_model_classify tr (ComplexFP t) =
     bindE (kefir_ast_type_data_model_classify tr t) (\<lambda>real_classification.
       case real_classification of
         KEFIR_AST_TYPE_DATA_MODEL_FLOAT \<Rightarrow> Inr KEFIR_AST_TYPE_DATA_MODEL_COMPLEX_FLOAT
       | KEFIR_AST_TYPE_DATA_MODEL_DOUBLE \<Rightarrow> Inr KEFIR_AST_TYPE_DATA_MODEL_COMPLEX_DOUBLE
       | KEFIR_AST_TYPE_DATA_MODEL_LONG_DOUBLE \<Rightarrow> Inr KEFIR_AST_TYPE_DATA_MODEL_COMPLEX_LONG_DOUBLE
       | _ \<Rightarrow> Inl KEFIR_INVALID_STATE)"
| "kefir_ast_type_data_model_classify tr (ImaginaryFP t) = kefir_ast_type_data_model_classify tr t"
| "kefir_ast_type_data_model_classify tr (Pointer t) = classify_uintptr tr"
| "kefir_ast_type_data_model_classify tr (Enumeration h u es) = kefir_ast_type_data_model_classify tr u"
| "kefir_ast_type_data_model_classify tr (Qualified q t) = kefir_ast_type_data_model_classify tr t"
| "kefir_ast_type_data_model_classify tr (Structure h fs) = Inr KEFIR_AST_TYPE_DATA_MODEL_AGGREGATE"
| "kefir_ast_type_data_model_classify tr (UnionType h fs) = Inr KEFIR_AST_TYPE_DATA_MODEL_AGGREGATE"
| "kefir_ast_type_data_model_classify tr (Array e b q) = Inr KEFIR_AST_TYPE_DATA_MODEL_AGGREGATE"
| "kefir_ast_type_data_model_classify tr (Function h r ps) = Inr KEFIR_AST_TYPE_DATA_MODEL_FUNCTION"
| "kefir_ast_type_data_model_classify tr (SignedBitPrecise w) = Inr KEFIR_AST_TYPE_DATA_MODEL_BITINT"
| "kefir_ast_type_data_model_classify tr (UnsignedBitPrecise w) = Inr KEFIR_AST_TYPE_DATA_MODEL_BITINT"

definition MATCH_WIDTH :: "type_traits \<Rightarrow> bool \<Rightarrow> nat \<Rightarrow> ast_type option" where
  "MATCH_WIDTH tr signed_type width =
     (let dm = data_model tr in
      if char_bits dm = width then
        Some (Scalar (if signed_type then KEFIR_AST_TYPE_SCALAR_SIGNED_CHAR else KEFIR_AST_TYPE_SCALAR_UNSIGNED_CHAR))
      else if short_bits dm = width then
        Some (Scalar (if signed_type then KEFIR_AST_TYPE_SCALAR_SIGNED_SHORT else KEFIR_AST_TYPE_SCALAR_UNSIGNED_SHORT))
      else if int_bits dm = width then
        Some (Scalar (if signed_type then KEFIR_AST_TYPE_SCALAR_SIGNED_INT else KEFIR_AST_TYPE_SCALAR_UNSIGNED_INT))
      else if long_bits dm = width then
        Some (Scalar (if signed_type then KEFIR_AST_TYPE_SCALAR_SIGNED_LONG else KEFIR_AST_TYPE_SCALAR_UNSIGNED_LONG))
      else if long_long_bits dm = width then
        Some (Scalar (if signed_type then KEFIR_AST_TYPE_SCALAR_SIGNED_LONG_LONG
                      else KEFIR_AST_TYPE_SCALAR_UNSIGNED_LONG_LONG))
      else None)"

definition kefir_ast_type_traits_quarter_integer_type :: "type_traits \<Rightarrow> bool \<Rightarrow> ast_type option" where
  "kefir_ast_type_traits_quarter_integer_type tr signed_type = MATCH_WIDTH tr signed_type 8"

definition kefir_ast_type_traits_half_integer_type :: "type_traits \<Rightarrow> bool \<Rightarrow> ast_type option" where
  "kefir_ast_type_traits_half_integer_type tr signed_type = MATCH_WIDTH tr signed_type 16"

definition kefir_ast_type_traits_single_integer_type :: "type_traits \<Rightarrow> bool \<Rightarrow> ast_type option" where
  "kefir_ast_type_traits_single_integer_type tr signed_type = MATCH_WIDTH tr signed_type 32"

definition kefir_ast_type_traits_double_integer_type :: "type_traits \<Rightarrow> bool \<Rightarrow> ast_type option" where
  "kefir_ast_type_traits_double_integer_type tr signed_type = MATCH_WIDTH tr signed_type 64"

end
