(* ===== verification/Kefir_Type_Conv_Correct.thy ===== *)
theory Kefir_Type_Conv_Correct
  imports Kefir_Type_Conv
begin

text \<open>
  Correctness of the conversions: the packed rank orders integer types as C23 6.3.1.1 requires,
  the integer promotions preserve values, the usual arithmetic conversions do not depend on the
  order of the operands, and decay never leaves an array or a function.
\<close>

unbundle bit_operations_syntax

section \<open>The packed rank\<close>

lemma unat_or_word: "unat ((a :: 'a::len word) OR b) = unat a OR unat b"
  by (rule unsigned_or_eq)

lemma or_shift_eq_add:
  fixes x y :: nat
  assumes "y < 2 ^ n"
  shows "push_bit n x OR y = x * 2 ^ n + y"
proof -
  have "\<not> (n \<le> k \<and> bit y k)" for k
    using assms by (metis bit_take_bit_iff take_bit_nat_eq_self leD)
  then have "push_bit n x AND y = 0"
    by (intro bit_eqI) (auto simp only: bit_and_iff bit_push_bit_iff bit_0_eq bot_apply bot_bool_def)
  then show ?thesis
    by (simp add: disjunctive_add_eq_or [symmetric] push_bit_eq_mult)
qed

lemma unat_MAKE_RANK:
  assumes "base < 8" "width < 2 ^ 30"
  shows "unat (MAKE_RANK base width bp) = base * 2 ^ 32 + (2 * width + (if bp then 0 else 1))"
proof -
  have b: "unat (push_bit 32 (of_nat base) :: 64 word) = push_bit 32 base"
    using assms(1) by (simp add: push_bit_eq_mult unat_mult_lem [symmetric] unat_of_nat unat_word_ariths)
  have w: "unat (ucast (of_nat (width * 2) :: 32 word) :: 64 word) = 2 * width"
    using assms(2)
    by (simp add: unsigned_ucast_eq unsigned_of_nat take_bit_nat_eq_self mult.commute del: of_nat_mult)
  have "2 * width OR 1 = 2 * width + 1"
    using or_shift_eq_add [of 1 1 width] by (simp add: push_bit_eq_mult mult.commute)
  then have f: "2 * width OR unat (if bp then 0 else 1 :: 64 word) = 2 * width + (if bp then 0 else 1)" by simp
  have "unat (MAKE_RANK base width bp) = push_bit 32 base OR (2 * width OR unat (if bp then 0 else 1 :: 64 word))"
    unfolding MAKE_RANK_def unat_or_word b w by (simp only: or.assoc)
  also have "\<dots> = base * 2 ^ 32 + (2 * width + (if bp then 0 else 1))"
    unfolding f using assms(2) by (intro or_shift_eq_add) auto
  finally show ?thesis .
qed

section \<open>Integer types of the AMD64 data model\<close>

definition amd64 :: "type_traits \<Rightarrow> bool" where
  "amd64 tr \<longleftrightarrow> data_model tr = AMD64_SYSV_DATA_MODEL_DESCRIPTOR"

text \<open>The integer types that are no enumerations; the width of a bit-precise type is bounded far above \<^verbatim>\<open>BITINT_MAXWIDTH\<close>.\<close>

fun bitint_width_ok :: "ast_type \<Rightarrow> bool" where
  "bitint_width_ok (SignedBitPrecise w) \<longleftrightarrow> 0 < w \<and> w < 2 ^ 30"
| "bitint_width_ok (UnsignedBitPrecise w) \<longleftrightarrow> 0 < w \<and> w < 2 ^ 30"
| "bitint_width_ok _ \<longleftrightarrow> True"

definition integer_type :: "ast_type \<Rightarrow> bool" where
  "integer_type t \<longleftrightarrow> KEFIR_AST_TYPE_IS_NONENUM_INTEGRAL_TYPE t \<and> bitint_width_ok t"

text \<open>The width, signedness and rank that the code computes, as total functions.\<close>

definition type_width :: "type_traits \<Rightarrow> ast_type \<Rightarrow> nat" where
  "type_width tr t = (case default_integral_type_width tr t of Inr w \<Rightarrow> w | Inl _ \<Rightarrow> 0)"

definition type_signed :: "type_traits \<Rightarrow> ast_type \<Rightarrow> bool" where
  "type_signed tr t = (case kefir_ast_type_is_signed tr t of Inr s \<Rightarrow> s | Inl _ \<Rightarrow> False)"

definition type_rank :: "type_traits \<Rightarrow> ast_type \<Rightarrow> nat" where
  "type_rank tr t = (case default_integral_type_rank tr t of Inr r \<Rightarrow> unat r | Inl _ \<Rightarrow> 0)"

definition bitint_base :: "nat \<Rightarrow> nat" where
  "bitint_base w = (if w \<le> 8 then 1 else if w \<le> 16 then 2 else if w \<le> 32 then 3 else if w \<le> 64 then 4
     else if w \<le> 128 then 6 else 7)"

lemma amd64_bits:
  assumes "amd64 tr"
  shows "bool_bits (data_model tr) = 8" "char_bits (data_model tr) = 8" "short_bits (data_model tr) = 16"
    "int_bits (data_model tr) = 32" "long_bits (data_model tr) = 64" "long_long_bits (data_model tr) = 64"
    "int128_bits (data_model tr) = 128"
  using assms by (simp_all add: amd64_def AMD64_SYSV_DATA_MODEL_DESCRIPTOR_def)

lemma unat_bit_precise_rank:
  "amd64 tr \<Longrightarrow> w < 2 ^ 30 \<Longrightarrow> unat (bit_precise_rank (data_model tr) w) = bitint_base w * 2 ^ 32 + 2 * w"
  by (simp add: bit_precise_rank_def amd64_bits bitint_base_def unat_MAKE_RANK)

lemmas integer_ops = default_integral_type_rank_def default_integral_type_width_def Let_def

text \<open>Every operation on an integer type succeeds.\<close>

lemma integer_type_ops:
  assumes "integer_type t"
  shows "default_integral_type_width tr t = Inr (type_width tr t)"
    "kefir_ast_type_is_signed tr t = Inr (type_signed tr t)"
    "\<exists>r. default_integral_type_rank tr t = Inr r"
  using assms
  by (cases t; auto simp: integer_type_def type_macros type_width_def type_signed_def integer_ops
      split: basic_tag.splits)+

lemma integer_type_rank:
  assumes "integer_type t"
  obtains r where "default_integral_type_rank tr t = Inr r" "unat r = type_rank tr t"
  using integer_type_ops(3) [OF assms, of tr] by (auto simp: type_rank_def)

lemma scalar_ranks:
  assumes "amd64 tr"
  shows "type_rank tr (Scalar KEFIR_AST_TYPE_SCALAR_BOOL) = 17"
    "type_rank tr (Scalar KEFIR_AST_TYPE_SCALAR_CHAR) = 1 * 2 ^ 32 + 17"
    "type_rank tr (Scalar KEFIR_AST_TYPE_SCALAR_UNSIGNED_CHAR) = 1 * 2 ^ 32 + 17"
    "type_rank tr (Scalar KEFIR_AST_TYPE_SCALAR_SIGNED_CHAR) = 1 * 2 ^ 32 + 17"
    "type_rank tr (Scalar KEFIR_AST_TYPE_SCALAR_UNSIGNED_SHORT) = 2 * 2 ^ 32 + 33"
    "type_rank tr (Scalar KEFIR_AST_TYPE_SCALAR_SIGNED_SHORT) = 2 * 2 ^ 32 + 33"
    "type_rank tr (Scalar KEFIR_AST_TYPE_SCALAR_UNSIGNED_INT) = 3 * 2 ^ 32 + 65"
    "type_rank tr (Scalar KEFIR_AST_TYPE_SCALAR_SIGNED_INT) = 3 * 2 ^ 32 + 65"
    "type_rank tr (Scalar KEFIR_AST_TYPE_SCALAR_UNSIGNED_LONG) = 4 * 2 ^ 32 + 129"
    "type_rank tr (Scalar KEFIR_AST_TYPE_SCALAR_SIGNED_LONG) = 4 * 2 ^ 32 + 129"
    "type_rank tr (Scalar KEFIR_AST_TYPE_SCALAR_UNSIGNED_LONG_LONG) = 5 * 2 ^ 32 + 129"
    "type_rank tr (Scalar KEFIR_AST_TYPE_SCALAR_SIGNED_LONG_LONG) = 5 * 2 ^ 32 + 129"
    "type_rank tr (Scalar KEFIR_AST_TYPE_SCALAR_UNSIGNED_INT128) = 6 * 2 ^ 32 + 257"
    "type_rank tr (Scalar KEFIR_AST_TYPE_SCALAR_SIGNED_INT128) = 6 * 2 ^ 32 + 257"
    "w < 2 ^ 30 \<Longrightarrow> type_rank tr (SignedBitPrecise w) = bitint_base w * 2 ^ 32 + 2 * w"
    "w < 2 ^ 30 \<Longrightarrow> type_rank tr (UnsignedBitPrecise w) = bitint_base w * 2 ^ 32 + 2 * w"
  using assms
  by (simp_all add: type_rank_def integer_ops amd64_bits unat_MAKE_RANK unat_bit_precise_rank type_macros)

lemma scalar_widths:
  assumes "amd64 tr"
  shows "type_width tr (Scalar KEFIR_AST_TYPE_SCALAR_BOOL) = 8"
    "type_width tr (Scalar KEFIR_AST_TYPE_SCALAR_CHAR) = 8"
    "type_width tr (Scalar KEFIR_AST_TYPE_SCALAR_UNSIGNED_CHAR) = 8"
    "type_width tr (Scalar KEFIR_AST_TYPE_SCALAR_SIGNED_CHAR) = 8"
    "type_width tr (Scalar KEFIR_AST_TYPE_SCALAR_UNSIGNED_SHORT) = 16"
    "type_width tr (Scalar KEFIR_AST_TYPE_SCALAR_SIGNED_SHORT) = 16"
    "type_width tr (Scalar KEFIR_AST_TYPE_SCALAR_UNSIGNED_INT) = 32"
    "type_width tr (Scalar KEFIR_AST_TYPE_SCALAR_SIGNED_INT) = 32"
    "type_width tr (Scalar KEFIR_AST_TYPE_SCALAR_UNSIGNED_LONG) = 64"
    "type_width tr (Scalar KEFIR_AST_TYPE_SCALAR_SIGNED_LONG) = 64"
    "type_width tr (Scalar KEFIR_AST_TYPE_SCALAR_UNSIGNED_LONG_LONG) = 64"
    "type_width tr (Scalar KEFIR_AST_TYPE_SCALAR_SIGNED_LONG_LONG) = 64"
    "type_width tr (Scalar KEFIR_AST_TYPE_SCALAR_UNSIGNED_INT128) = 128"
    "type_width tr (Scalar KEFIR_AST_TYPE_SCALAR_SIGNED_INT128) = 128"
    "type_width tr (SignedBitPrecise w) = w"
    "type_width tr (UnsignedBitPrecise w) = w"
  using assms by (simp_all add: type_width_def integer_ops amd64_bits)

text \<open>The integer types one by one.\<close>

lemma integer_type_cases:
  assumes "integer_type t"
  obtains "t = Scalar KEFIR_AST_TYPE_SCALAR_BOOL"
  | "t = Scalar KEFIR_AST_TYPE_SCALAR_CHAR"
  | "t = Scalar KEFIR_AST_TYPE_SCALAR_UNSIGNED_CHAR"
  | "t = Scalar KEFIR_AST_TYPE_SCALAR_SIGNED_CHAR"
  | "t = Scalar KEFIR_AST_TYPE_SCALAR_UNSIGNED_SHORT"
  | "t = Scalar KEFIR_AST_TYPE_SCALAR_SIGNED_SHORT"
  | "t = Scalar KEFIR_AST_TYPE_SCALAR_UNSIGNED_INT"
  | "t = Scalar KEFIR_AST_TYPE_SCALAR_SIGNED_INT"
  | "t = Scalar KEFIR_AST_TYPE_SCALAR_UNSIGNED_LONG"
  | "t = Scalar KEFIR_AST_TYPE_SCALAR_SIGNED_LONG"
  | "t = Scalar KEFIR_AST_TYPE_SCALAR_UNSIGNED_LONG_LONG"
  | "t = Scalar KEFIR_AST_TYPE_SCALAR_SIGNED_LONG_LONG"
  | "t = Scalar KEFIR_AST_TYPE_SCALAR_UNSIGNED_INT128"
  | "t = Scalar KEFIR_AST_TYPE_SCALAR_SIGNED_INT128"
  | w where "t = SignedBitPrecise w" "0 < w" "w < 2 ^ 30"
  | w where "t = UnsignedBitPrecise w" "0 < w" "w < 2 ^ 30"
  using assms by (cases t) (auto simp: integer_type_def type_macros)


lemma flip_integer:
  assumes "integer_type t" "t \<noteq> Scalar KEFIR_AST_TYPE_SCALAR_BOOL"
  obtains t' where "kefir_ast_type_flip_integer_singedness tr t = Some t'" "integer_type t'"
    "t' \<noteq> Scalar KEFIR_AST_TYPE_SCALAR_BOOL"
    "type_signed tr t' \<longleftrightarrow> \<not> type_signed tr t" "type_width tr t' = type_width tr t" "type_rank tr t' = type_rank tr t"
  using assms(1)
proof (cases rule: integer_type_cases)
qed (use assms(2) that in \<open>simp_all add: kefir_ast_type_flip_integer_singedness_def integer_type_def type_macros type_signed_def
    type_width_def type_rank_def integer_ops\<close>)

text \<open>The rank of an integer type other than \<^verbatim>\<open>_Bool\<close>: the base follows the width.\<close>

definition base_of_width :: "nat \<Rightarrow> nat \<Rightarrow> bool" where
  "base_of_width b w \<longleftrightarrow> b = 1 \<and> w \<le> 8 \<or> b = 2 \<and> 8 < w \<and> w \<le> 16 \<or> b = 3 \<and> 16 < w \<and> w \<le> 32 \<or>
     b = 4 \<and> 32 < w \<and> w \<le> 64 \<or> b = 5 \<and> w = 64 \<or> b = 6 \<and> 64 < w \<and> w \<le> 128 \<or> b = 7 \<and> 128 < w"

lemma rank_shape:
  assumes "amd64 tr" "integer_type t" "t \<noteq> Scalar KEFIR_AST_TYPE_SCALAR_BOOL"
  obtains b where "type_rank tr t =
      b * 2 ^ 32 + (2 * type_width tr t + (if KEFIR_AST_TYPE_IS_BIT_PRECISE_INTEGRAL_TYPE t then 0 else 1))"
    "base_of_width b (type_width tr t)" "type_width tr t < 2 ^ 30"
    "b = 5 \<longrightarrow> \<not> KEFIR_AST_TYPE_IS_BIT_PRECISE_INTEGRAL_TYPE t"
proof -
  let ?b = "type_rank tr t div 2 ^ 32"
  have "type_rank tr t =
      ?b * 2 ^ 32 + (2 * type_width tr t + (if KEFIR_AST_TYPE_IS_BIT_PRECISE_INTEGRAL_TYPE t then 0 else 1)) \<and>
    base_of_width ?b (type_width tr t) \<and> type_width tr t < 2 ^ 30 \<and>
    (?b = 5 \<longrightarrow> \<not> KEFIR_AST_TYPE_IS_BIT_PRECISE_INTEGRAL_TYPE t)"
    using assms(2)
    by (cases rule: integer_type_cases)
      (use assms(3) in \<open>simp_all add: scalar_ranks [OF assms(1)] scalar_widths [OF assms(1)] type_macros bitint_base_def
        base_of_width_def\<close>)
  then show thesis using that by blast
qed


lemma rank_width_mono:
  assumes "amd64 tr" "integer_type t1" "integer_type t2"
    "t1 \<noteq> Scalar KEFIR_AST_TYPE_SCALAR_BOOL" "t2 \<noteq> Scalar KEFIR_AST_TYPE_SCALAR_BOOL"
    "type_width tr t1 < type_width tr t2"
  shows "type_rank tr t1 < type_rank tr t2"
proof -
  obtain b1 where 1: "type_rank tr t1 =
      b1 * 2 ^ 32 + (2 * type_width tr t1 + (if KEFIR_AST_TYPE_IS_BIT_PRECISE_INTEGRAL_TYPE t1 then 0 else 1))"
    "base_of_width b1 (type_width tr t1)" "type_width tr t1 < 2 ^ 30"
    using rank_shape [OF assms(1,2,4)] by metis
  obtain b2 where 2: "type_rank tr t2 =
      b2 * 2 ^ 32 + (2 * type_width tr t2 + (if KEFIR_AST_TYPE_IS_BIT_PRECISE_INTEGRAL_TYPE t2 then 0 else 1))"
    "base_of_width b2 (type_width tr t2)" "type_width tr t2 < 2 ^ 30"
    using rank_shape [OF assms(1,3,5)] by metis
  have "b1 \<le> b2" using 1(2) 2(2) assms(6) by (auto simp: base_of_width_def)
  then have "b1 * 2 ^ 32 \<le> b2 * (2 ^ 32 :: nat)" by simp
  then show ?thesis using 1(1) 2(1) assms(6) by simp
qed

lemma rank_inject:
  assumes "amd64 tr" "integer_type t1" "integer_type t2"
    "t1 \<noteq> Scalar KEFIR_AST_TYPE_SCALAR_BOOL" "t2 \<noteq> Scalar KEFIR_AST_TYPE_SCALAR_BOOL"
    "type_rank tr t1 = type_rank tr t2"
  shows "type_width tr t1 = type_width tr t2"
  using rank_width_mono [OF assms(1,2,3,4,5)] rank_width_mono [OF assms(1,3,2,5,4)] assms(6)
  by (cases "type_width tr t1" "type_width tr t2" rule: linorder_cases) auto


text \<open>
  C20. The rank packed into 64 bits orders the integer types as C23 6.3.1.1 requires: a wider type
  has a greater rank; a bit-precise type ranks below a standard type of the same width; the rank of
  \<^verbatim>\<open>_Bool\<close> is below every other; the standard types ascend from \<^verbatim>\<open>char\<close> to \<^verbatim>\<open>__int128\<close>; and a type and its
  counterpart of the other signedness have the same rank.\<close>

theorem integral_rank_order:
  assumes "amd64 tr" "integer_type t1" "integer_type t2"
    "t1 \<noteq> Scalar KEFIR_AST_TYPE_SCALAR_BOOL" "t2 \<noteq> Scalar KEFIR_AST_TYPE_SCALAR_BOOL"
  shows "(type_width tr t1 < type_width tr t2 \<longrightarrow> type_rank tr t1 < type_rank tr t2) \<and>
    (type_width tr t1 = type_width tr t2 \<longrightarrow> KEFIR_AST_TYPE_IS_BIT_PRECISE_INTEGRAL_TYPE t1 \<longrightarrow>
       \<not> KEFIR_AST_TYPE_IS_BIT_PRECISE_INTEGRAL_TYPE t2 \<longrightarrow> type_rank tr t1 < type_rank tr t2) \<and>
    type_rank tr (Scalar KEFIR_AST_TYPE_SCALAR_BOOL) < type_rank tr t1 \<and>
    sorted_wrt (<) (map (type_rank tr \<circ> Scalar)
      [KEFIR_AST_TYPE_SCALAR_CHAR, KEFIR_AST_TYPE_SCALAR_SIGNED_SHORT, KEFIR_AST_TYPE_SCALAR_SIGNED_INT,
       KEFIR_AST_TYPE_SCALAR_SIGNED_LONG, KEFIR_AST_TYPE_SCALAR_SIGNED_LONG_LONG, KEFIR_AST_TYPE_SCALAR_SIGNED_INT128]) \<and>
    (\<exists>t'. kefir_ast_type_flip_integer_singedness tr t1 = Some t' \<and> type_rank tr t' = type_rank tr t1)"
proof (intro conjI impI)
  show "type_rank tr t1 < type_rank tr t2" if "type_width tr t1 < type_width tr t2"
    using rank_width_mono [OF assms that] .
  obtain b1 where 1: "type_rank tr t1 =
      b1 * 2 ^ 32 + (2 * type_width tr t1 + (if KEFIR_AST_TYPE_IS_BIT_PRECISE_INTEGRAL_TYPE t1 then 0 else 1))"
    "base_of_width b1 (type_width tr t1)" "type_width tr t1 < 2 ^ 30" "b1 = 5 \<longrightarrow> \<not> KEFIR_AST_TYPE_IS_BIT_PRECISE_INTEGRAL_TYPE t1"
    using rank_shape [OF assms(1,2,4)] by metis
  obtain b2 where 2: "type_rank tr t2 =
      b2 * 2 ^ 32 + (2 * type_width tr t2 + (if KEFIR_AST_TYPE_IS_BIT_PRECISE_INTEGRAL_TYPE t2 then 0 else 1))"
    "base_of_width b2 (type_width tr t2)"
    using rank_shape [OF assms(1,3,5)] by metis
  show "type_rank tr t1 < type_rank tr t2"
    if "type_width tr t1 = type_width tr t2" "KEFIR_AST_TYPE_IS_BIT_PRECISE_INTEGRAL_TYPE t1"
      "\<not> KEFIR_AST_TYPE_IS_BIT_PRECISE_INTEGRAL_TYPE t2"
  proof -
    have "b1 \<le> b2" using 1(2,4) 2(2) that by (auto simp: base_of_width_def)
    then have "b1 * 2 ^ 32 \<le> b2 * (2 ^ 32 :: nat)" by simp
    then show ?thesis using 1(1) 2(1) that by simp
  qed
  have "0 < b1" using 1(2) by (auto simp: base_of_width_def)
  then have "1 * 2 ^ 32 \<le> b1 * (2 ^ 32 :: nat)" by (simp only: mult_le_mono1 Suc_le_eq [symmetric] One_nat_def [symmetric])
  then show "type_rank tr (Scalar KEFIR_AST_TYPE_SCALAR_BOOL) < type_rank tr t1"
    using 1(1) by (simp add: scalar_ranks [OF assms(1)])
  show "sorted_wrt (<) (map (type_rank tr \<circ> Scalar)
      [KEFIR_AST_TYPE_SCALAR_CHAR, KEFIR_AST_TYPE_SCALAR_SIGNED_SHORT, KEFIR_AST_TYPE_SCALAR_SIGNED_INT,
       KEFIR_AST_TYPE_SCALAR_SIGNED_LONG, KEFIR_AST_TYPE_SCALAR_SIGNED_LONG_LONG, KEFIR_AST_TYPE_SCALAR_SIGNED_INT128])"
    by (simp add: scalar_ranks [OF assms(1)])
  show "\<exists>t'. kefir_ast_type_flip_integer_singedness tr t1 = Some t' \<and> type_rank tr t' = type_rank tr t1"
    using flip_integer [OF assms(2,4), of tr] by metis
qed

definition example_traits :: type_traits where
  "example_traits = (case kefir_ast_type_traits_init AMD64_SYSV_DATA_MODEL_DESCRIPTOR of Inr tr \<Rightarrow> tr)"

lemma example_traits: "amd64 example_traits" "character_type_signedness example_traits"
  "kefir_ast_type_traits_init AMD64_SYSV_DATA_MODEL_DESCRIPTOR = Inr example_traits"
  by (simp_all add: amd64_def example_traits_def kefir_ast_type_traits_init_def AMD64_SYSV_DATA_MODEL_DESCRIPTOR_def)

lemma integral_rank_order_witness:
  "type_rank example_traits (UnsignedBitPrecise 32) < type_rank example_traits (Scalar KEFIR_AST_TYPE_SCALAR_SIGNED_INT) \<and>
   type_rank example_traits (Scalar KEFIR_AST_TYPE_SCALAR_SIGNED_INT) < type_rank example_traits (UnsignedBitPrecise 33)"
  using integral_rank_order [OF example_traits(1), of "UnsignedBitPrecise 32" "Scalar KEFIR_AST_TYPE_SCALAR_SIGNED_INT"]
    integral_rank_order [OF example_traits(1), of "Scalar KEFIR_AST_TYPE_SCALAR_SIGNED_INT" "UnsignedBitPrecise 33"]
  by (simp add: integer_type_def type_macros scalar_widths [OF example_traits(1)])

section \<open>Integer promotions\<close>

text \<open>The values of an integer type and those an operand can have, which may be a bit-field.\<close>

definition int_range :: "bool \<Rightarrow> nat \<Rightarrow> int set" where
  "int_range sign width = (if sign then {- (2 ^ (width - 1)) ..< 2 ^ (width - 1)} else {0 ..< 2 ^ width})"

definition value_range :: "type_traits \<Rightarrow> ast_type \<Rightarrow> int set" where
  "value_range tr t = (if t = Scalar KEFIR_AST_TYPE_SCALAR_BOOL then {0, 1} else int_range (type_signed tr t) (type_width tr t))"

definition operand_range :: "type_traits \<Rightarrow> ast_type \<Rightarrow> bitfield_properties \<Rightarrow> int set" where
  "operand_range tr t bf =
     (if bf_bitfield bf then int_range (type_signed tr t) (bf_width bf) else value_range tr t)"

definition bitfield_ok :: "type_traits \<Rightarrow> ast_type \<Rightarrow> bitfield_properties \<Rightarrow> bool" where
  "bitfield_ok tr t bf \<longleftrightarrow> (bf_bitfield bf \<longrightarrow>
     0 < bf_width bf \<and> bf_width bf \<le> type_width tr t \<and> \<not> KEFIR_AST_TYPE_IS_BIT_PRECISE_INTEGRAL_TYPE t)"

lemma int_range_mono:
  assumes "0 < w1" "s1 = s2 \<and> w1 \<le> w2 \<or> \<not> s1 \<and> s2 \<and> w1 < w2"
  shows "int_range s1 w1 \<subseteq> int_range s2 w2"
proof -
  have "(2::int) ^ w1 \<le> 2 ^ w2" using assms(2) by (intro power_increasing) auto
  moreover have "(2::int) ^ (w1 - 1) \<le> 2 ^ (w2 - 1)" using assms(2) by (intro power_increasing) auto
  moreover have "(2::int) ^ w1 \<le> 2 ^ (w2 - 1)" if "w1 < w2" using that by (intro power_increasing) auto
  moreover have "0 \<le> (2::int) ^ (w2 - 1)" by simp
  ultimately show ?thesis using assms(2) by (auto simp: int_range_def simp del: zero_le_power)
qed

text \<open>The promoted type in one formula.\<close>

definition promoted_type :: "type_traits \<Rightarrow> ast_type \<Rightarrow> bitfield_properties \<Rightarrow> ast_type" where
  "promoted_type tr t bf =
     (if KEFIR_AST_TYPE_IS_BIT_PRECISE_INTEGRAL_TYPE t then t
      else if bf_bitfield bf then
        (if bf_width bf < 32 \<or> bf_width bf = 32 \<and> type_signed tr t then Scalar KEFIR_AST_TYPE_SCALAR_SIGNED_INT else t)
      else if type_width tr t < 32 then Scalar KEFIR_AST_TYPE_SCALAR_SIGNED_INT
      else t)"


lemma rank_eq:
  assumes "integer_type t"
  shows "default_integral_type_rank tr t = Inr (of_nat (type_rank tr t))"
  using integer_type_ops(3) [OF assms, of tr] by (auto simp: type_rank_def)

lemma rank_less_iff:
  assumes "integer_type t1" "integer_type t2"
  shows "((of_nat (type_rank tr t1) :: 64 word) < of_nat (type_rank tr t2)) = (type_rank tr t1 < type_rank tr t2)"
  using integer_type_ops(3) [OF assms(1), of tr] integer_type_ops(3) [OF assms(2), of tr]
  by (auto simp: type_rank_def word_less_nat_alt)

lemma rank_le_iff:
  assumes "integer_type t1" "integer_type t2"
  shows "((of_nat (type_rank tr t1) :: 64 word) \<le> of_nat (type_rank tr t2)) = (type_rank tr t1 \<le> type_rank tr t2)"
  using rank_less_iff [OF assms(2,1), of tr] by (simp add: linorder_not_less [symmetric])

lemma integer_type_integral: "integer_type t \<Longrightarrow> KEFIR_AST_TYPE_IS_INTEGRAL_TYPE t"
  by (simp add: integer_type_def KEFIR_AST_TYPE_IS_INTEGRAL_TYPE_def)

lemma type_fits_iff:
  assumes "integer_type s" "integer_type d"
  shows "type_fits tr s d \<longleftrightarrow>
    (if \<not> type_signed tr s \<and> type_signed tr d then type_width tr s < type_width tr d else type_width tr s \<le> type_width tr d)"
  by (auto simp: type_fits_def default_integral_type_fits_def integer_type_integral assms integer_type_ops)

lemma int_is_integer [simp]:
  "integer_type (Scalar KEFIR_AST_TYPE_SCALAR_SIGNED_INT)" "integer_type (Scalar KEFIR_AST_TYPE_SCALAR_UNSIGNED_INT)"
  by (simp_all add: integer_type_def type_macros)

lemma int_signed [simp]: "type_signed tr (Scalar KEFIR_AST_TYPE_SCALAR_SIGNED_INT)"
  by (simp add: type_signed_def)

lemma standard_rank_below_int:
  assumes "amd64 tr" "integer_type t" "\<not> KEFIR_AST_TYPE_IS_BIT_PRECISE_INTEGRAL_TYPE t"
  shows "type_rank tr t < type_rank tr (Scalar KEFIR_AST_TYPE_SCALAR_SIGNED_INT) \<longleftrightarrow> type_width tr t < 32"
  using assms(2)
  by (cases rule: integer_type_cases)
    (use assms(3) in \<open>simp_all add: scalar_ranks [OF assms(1)] scalar_widths [OF assms(1)] type_macros\<close>)

lemma bitfield_promotion_eq:
  assumes "amd64 tr" "integer_type t" "bf_width bf \<le> type_width tr t" "\<not> KEFIR_AST_TYPE_IS_BIT_PRECISE_INTEGRAL_TYPE t"
  shows "default_bitfield_promotion tr t (bf_width bf) =
    (if bf_width bf < 32 \<or> bf_width bf = 32 \<and> type_signed tr t then Scalar KEFIR_AST_TYPE_SCALAR_SIGNED_INT else t)"
proof -
  have "KEFIR_INTERNAL_AST_TYPE_IS_SIGNED_INTEGER t = type_signed tr t" if "bf_width bf = 32"
    using assms(2) by (cases rule: integer_type_cases)
      (use assms(3) that in \<open>simp_all add: scalar_widths [OF assms(1)] type_macros type_signed_def\<close>)
  then show ?thesis using assms(4) by (auto simp: default_bitfield_promotion_def amd64_bits [OF assms(1)])
qed

lemma int_promotion_eq:
  assumes "amd64 tr" "KEFIR_AST_TYPE_IS_INTEGRAL_TYPE t0" "integer_type (kefir_ast_enumeration_underlying_type t0)"
    "bitfield_ok tr (kefir_ast_enumeration_underlying_type t0) bf"
  shows "kefir_ast_type_int_promotion tr t0 bf = Some (promoted_type tr (kefir_ast_enumeration_underlying_type t0) bf)"
proof (cases "KEFIR_AST_TYPE_IS_BIT_PRECISE_INTEGRAL_TYPE (kefir_ast_enumeration_underlying_type t0)")
  case True
  then show ?thesis using assms(2) by (simp add: kefir_ast_type_int_promotion_def promoted_type_def)
next
  case False
  define u where "u = kefir_ast_enumeration_underlying_type t0"
  define t where "t = (if bf_bitfield bf then default_bitfield_promotion tr u (bf_width bf) else u)"
  have u: "integer_type u" "\<not> KEFIR_AST_TYPE_IS_BIT_PRECISE_INTEGRAL_TYPE u" "bitfield_ok tr u bf"
    using assms(3,4) False by (simp_all add: u_def)
  have t: "t = (if bf_bitfield bf \<and> (bf_width bf < 32 \<or> bf_width bf = 32 \<and> type_signed tr u)
      then Scalar KEFIR_AST_TYPE_SCALAR_SIGNED_INT else u)"
    using bitfield_promotion_eq [OF assms(1) u(1) _ u(2), of bf] u(3) by (auto simp: t_def bitfield_ok_def)
  then have t': "integer_type t" "\<not> KEFIR_AST_TYPE_IS_BIT_PRECISE_INTEGRAL_TYPE t"
    using u by (auto simp: type_macros)
  have fits: "type_fits tr t (Scalar KEFIR_AST_TYPE_SCALAR_SIGNED_INT)" if "type_width tr t < 32"
    using that t'(1) by (simp add: type_fits_iff scalar_widths [OF assms(1)])
  have "kefir_ast_type_int_promotion tr t0 bf =
      Some (if type_width tr t < 32 then Scalar KEFIR_AST_TYPE_SCALAR_SIGNED_INT else t)"
    using assms(2) u(2) fits
    by (simp add: kefir_ast_type_int_promotion_def u_def [symmetric] t_def [symmetric] Let_def
        rank_eq [OF t'(1)] rank_eq [OF int_is_integer(1)] rank_less_iff [OF t'(1) int_is_integer(1)]
        standard_rank_below_int [OF assms(1) t'])
  also have "\<dots> = Some (promoted_type tr u bf)"
    using u(2,3) by (auto simp: t promoted_type_def bitfield_ok_def)
  finally show ?thesis by (simp add: u_def)
qed

lemma promoted_type_integer:
  "integer_type t \<Longrightarrow> integer_type (promoted_type tr t bf)"
  by (simp add: promoted_type_def)

lemma width_pos: "amd64 tr \<Longrightarrow> integer_type t \<Longrightarrow> 0 < type_width tr t"
  by (elim integer_type_cases) (simp_all add: scalar_widths)

lemma promoted_type_standard:
  assumes "amd64 tr" "integer_type t" "\<not> KEFIR_AST_TYPE_IS_BIT_PRECISE_INTEGRAL_TYPE t" "bitfield_ok tr t bf"
  shows "\<not> KEFIR_AST_TYPE_IS_BIT_PRECISE_INTEGRAL_TYPE (promoted_type tr t bf)" "32 \<le> type_width tr (promoted_type tr t bf)"
  using assms(3,4)
  by (auto simp: promoted_type_def bitfield_ok_def scalar_widths [OF assms(1)] type_macros)

lemma promoted_type_range:
  assumes "amd64 tr" "integer_type t" "bitfield_ok tr t bf"
  shows "operand_range tr t bf \<subseteq> value_range tr (promoted_type tr t bf)"
proof (cases "bf_bitfield bf")
  case True
  have w: "0 < bf_width bf" "bf_width bf \<le> type_width tr t" "\<not> KEFIR_AST_TYPE_IS_BIT_PRECISE_INTEGRAL_TYPE t"
    using True assms(3) by (simp_all add: bitfield_ok_def)
  let ?c = "bf_width bf < 32 \<or> bf_width bf = 32 \<and> type_signed tr t"
  show ?thesis
  proof (cases ?c)
    case c: True
    have "int_range (type_signed tr t) (bf_width bf) \<subseteq> int_range True 32"
      using w(1) c by (intro int_range_mono) auto
    then show ?thesis using True w(3) c
      by (simp add: operand_range_def value_range_def promoted_type_def scalar_widths [OF assms(1)])
  next
    case c: False
    then have "t \<noteq> Scalar KEFIR_AST_TYPE_SCALAR_BOOL" using w(2) by (auto simp: scalar_widths [OF assms(1)])
    moreover have "int_range (type_signed tr t) (bf_width bf) \<subseteq> int_range (type_signed tr t) (type_width tr t)"
      using w(1,2) by (intro int_range_mono) auto
    ultimately show ?thesis using True w(3) c by (auto simp: operand_range_def value_range_def promoted_type_def)
  qed
next
  case False
  show ?thesis
  proof (cases "t = Scalar KEFIR_AST_TYPE_SCALAR_BOOL")
    case True
    then show ?thesis using False
      by (simp add: operand_range_def value_range_def promoted_type_def scalar_widths [OF assms(1)] type_macros int_range_def)
  next
    case nb: False
    have "int_range (type_signed tr t) (type_width tr t) \<subseteq> int_range True 32" if "type_width tr t < 32"
      using width_pos [OF assms(1,2)] that by (intro int_range_mono) auto
    then show ?thesis using False nb
      by (simp add: operand_range_def value_range_def promoted_type_def scalar_widths [OF assms(1)])
  qed
qed

text \<open>
  C19. Integer promotion on the AMD64 data model always succeeds and preserves values: every value an
  operand of integer or enumeration type can have, bit-fields with their width included, is a value
  of the promoted type. A bit-precise type is left alone; every other type is promoted to a type
  that ranks at least as high as \<^verbatim>\<open>int\<close>, and promoting again changes nothing.\<close>

theorem integer_promotion_preserves_values:
  assumes "amd64 tr" "KEFIR_AST_TYPE_IS_INTEGRAL_TYPE t" "u = kefir_ast_enumeration_underlying_type t"
    "integer_type u" "bitfield_ok tr u bf"
  shows "\<exists>t'. kefir_ast_type_int_promotion tr t bf = Some t' \<and> integer_type t' \<and>
    operand_range tr u bf \<subseteq> value_range tr t' \<and>
    (KEFIR_AST_TYPE_IS_BIT_PRECISE_INTEGRAL_TYPE u \<longrightarrow> t' = u) \<and>
    (\<not> KEFIR_AST_TYPE_IS_BIT_PRECISE_INTEGRAL_TYPE u \<longrightarrow>
       type_rank tr (Scalar KEFIR_AST_TYPE_SCALAR_SIGNED_INT) \<le> type_rank tr t') \<and>
    kefir_ast_type_int_promotion tr t' KEFIR_AST_BITFIELD_PROPERTIES_NONE = Some t'"
proof (intro exI conjI impI)
  let ?t' = "promoted_type tr u bf"
  show "kefir_ast_type_int_promotion tr t bf = Some ?t'" using int_promotion_eq [of tr t bf] assms by simp
  show i: "integer_type ?t'" using assms(4) by (rule promoted_type_integer)
  show "operand_range tr u bf \<subseteq> value_range tr ?t'" using assms(1,4,5) by (rule promoted_type_range)
  show "?t' = u" if "KEFIR_AST_TYPE_IS_BIT_PRECISE_INTEGRAL_TYPE u" using that by (simp add: promoted_type_def)
  show "type_rank tr (Scalar KEFIR_AST_TYPE_SCALAR_SIGNED_INT) \<le> type_rank tr ?t'"
    if "\<not> KEFIR_AST_TYPE_IS_BIT_PRECISE_INTEGRAL_TYPE u"
    using promoted_type_standard [OF assms(1,4) that assms(5)] standard_rank_below_int [OF assms(1) i] by linarith
  have e: "kefir_ast_enumeration_underlying_type ?t' = ?t'" using i by (elim integer_type_cases) simp_all
  have "promoted_type tr ?t' KEFIR_AST_BITFIELD_PROPERTIES_NONE = ?t'"
    using promoted_type_standard [OF assms(1,4) _ assms(5)]
    by (cases "KEFIR_AST_TYPE_IS_BIT_PRECISE_INTEGRAL_TYPE u")
      (simp_all add: promoted_type_def KEFIR_AST_BITFIELD_PROPERTIES_NONE_def)
  then show "kefir_ast_type_int_promotion tr ?t' KEFIR_AST_BITFIELD_PROPERTIES_NONE = Some ?t'"
    using int_promotion_eq [OF assms(1), of ?t' KEFIR_AST_BITFIELD_PROPERTIES_NONE] i e
    by (simp add: integer_type_integral bitfield_ok_def KEFIR_AST_BITFIELD_PROPERTIES_NONE_def)
qed

lemma integer_promotion_preserves_values_witness:
  "\<exists>t'. kefir_ast_type_int_promotion example_traits (Scalar KEFIR_AST_TYPE_SCALAR_UNSIGNED_LONG)
          \<lparr>bf_bitfield = True, bf_width = 31\<rparr> = Some t' \<and>
        {0 ..< 2 ^ 31} \<subseteq> value_range example_traits t'"
proof -
  let ?bf = "\<lparr>bf_bitfield = True, bf_width = 31\<rparr>"
  let ?t = "Scalar KEFIR_AST_TYPE_SCALAR_UNSIGNED_LONG"
  have i: "integer_type ?t" by (simp add: integer_type_def type_macros)
  have "operand_range example_traits ?t ?bf = {0 ..< 2 ^ 31}"
    by (simp add: operand_range_def int_range_def type_signed_def)
  moreover have "bitfield_ok example_traits ?t ?bf"
    by (simp add: bitfield_ok_def scalar_widths [OF example_traits(1)] type_macros)
  ultimately show ?thesis
    using integer_promotion_preserves_values [OF example_traits(1) integer_type_integral [OF i] _ _, of ?t ?bf] i by auto
qed


section \<open>Usual arithmetic conversions of integers\<close>

text \<open>What promotion yields.\<close>

definition promoted :: "type_traits \<Rightarrow> ast_type \<Rightarrow> bool" where
  "promoted tr t \<longleftrightarrow> integer_type t \<and> (KEFIR_AST_TYPE_IS_BIT_PRECISE_INTEGRAL_TYPE t \<or> 32 \<le> type_width tr t)"

lemma promoted_promoted_type:
  "amd64 tr \<Longrightarrow> integer_type t \<Longrightarrow> bitfield_ok tr t bf \<Longrightarrow> promoted tr (promoted_type tr t bf)"
  using promoted_type_standard(2) [of tr t bf]
  by (cases "KEFIR_AST_TYPE_IS_BIT_PRECISE_INTEGRAL_TYPE t")
    (auto simp: promoted_def promoted_type_integer, simp add: promoted_type_def)

lemma promotedD:
  assumes "amd64 tr" "promoted tr t"
  shows "integer_type t" "t \<noteq> Scalar KEFIR_AST_TYPE_SCALAR_BOOL"
  using assms by (auto simp: promoted_def scalar_widths type_macros)

text \<open>A promoted type is determined by its rank and signedness.\<close>

lemma promoted_unique:
  assumes "amd64 tr" "promoted tr t1" "promoted tr t2" "type_rank tr t1 = type_rank tr t2" "type_signed tr t1 = type_signed tr t2"
  shows "t1 = t2"
proof -
  note i = promotedD [OF assms(1,2)] promotedD [OF assms(1,3)]
  have w: "type_width tr t1 = type_width tr t2" by (rule rank_inject [OF assms(1) i(1,3,2,4) assms(4)])
  obtain b1 where 1: "type_rank tr t1 =
      b1 * 2 ^ 32 + (2 * type_width tr t1 + (if KEFIR_AST_TYPE_IS_BIT_PRECISE_INTEGRAL_TYPE t1 then 0 else 1))"
    using rank_shape [OF assms(1) i(1,2)] by metis
  obtain b2 where 2: "type_rank tr t2 =
      b2 * 2 ^ 32 + (2 * type_width tr t2 + (if KEFIR_AST_TYPE_IS_BIT_PRECISE_INTEGRAL_TYPE t2 then 0 else 1))"
    using rank_shape [OF assms(1) i(3,4)] by metis
  have "even (type_rank tr t) = KEFIR_AST_TYPE_IS_BIT_PRECISE_INTEGRAL_TYPE t"
    if "type_rank tr t = b * 2 ^ 32 + (2 * type_width tr t + (if KEFIR_AST_TYPE_IS_BIT_PRECISE_INTEGRAL_TYPE t then 0 else 1))"
    for t b unfolding that by simp
  then have bp: "KEFIR_AST_TYPE_IS_BIT_PRECISE_INTEGRAL_TYPE t1 = KEFIR_AST_TYPE_IS_BIT_PRECISE_INTEGRAL_TYPE t2"
    using 1 2 assms(4) by metis
  show ?thesis
  proof (cases "KEFIR_AST_TYPE_IS_BIT_PRECISE_INTEGRAL_TYPE t1")
    case True
    then show ?thesis using bp w assms(5)
      by (cases t1; cases t2) (auto simp: type_macros scalar_widths [OF assms(1)] type_signed_def)
  next
    case False
    have "32 \<le> type_width tr t1" "32 \<le> type_width tr t2" using False bp assms(2,3) by (auto simp: promoted_def)
    with i(1) i(3) False bp assms(4,5) show ?thesis
      by (elim integer_type_cases)
        (simp_all add: scalar_ranks [OF assms(1)] scalar_widths [OF assms(1)] type_signed_def type_macros)
  qed
qed

lemma promoted_rank_width:
  assumes "amd64 tr" "promoted tr t1" "promoted tr t2" "type_rank tr t1 \<le> type_rank tr t2"
  shows "type_width tr t1 \<le> type_width tr t2"
  using rank_width_mono [OF assms(1) promotedD(1) [OF assms(1,3)] promotedD(1) [OF assms(1,2)]
      promotedD(2) [OF assms(1,3)] promotedD(2) [OF assms(1,2)]] assms(4) by (meson not_le)

lemma promoted_flip:
  assumes "amd64 tr" "promoted tr t"
  obtains t' where "kefir_ast_type_flip_integer_singedness tr t = Some t'" "promoted tr t'"
    "type_signed tr t' \<longleftrightarrow> \<not> type_signed tr t" "type_width tr t' = type_width tr t" "type_rank tr t' = type_rank tr t"
proof -
  obtain t' where t': "kefir_ast_type_flip_integer_singedness tr t = Some t'" "integer_type t'"
    "type_signed tr t' \<longleftrightarrow> \<not> type_signed tr t" "type_width tr t' = type_width tr t" "type_rank tr t' = type_rank tr t"
    using flip_integer [OF promotedD [OF assms], of tr] by metis
  moreover have "KEFIR_AST_TYPE_IS_BIT_PRECISE_INTEGRAL_TYPE t' = KEFIR_AST_TYPE_IS_BIT_PRECISE_INTEGRAL_TYPE t"
    using t'(1) by (auto simp: kefir_ast_type_flip_integer_singedness_def type_macros split: ast_type.splits basic_tag.splits if_splits)
  ultimately show thesis using assms(2) that by (auto simp: promoted_def)
qed

text \<open>The conversion of two promoted operands, on the total functions.\<close>

definition usual_integer :: "type_traits \<Rightarrow> ast_type \<Rightarrow> ast_type \<Rightarrow> ast_type option" where
  "usual_integer tr a b =
     (if a = b then Some a
      else if type_signed tr a = type_signed tr b then Some (if type_rank tr b < type_rank tr a then a else b)
      else if \<not> type_signed tr a \<and> type_rank tr b \<le> type_rank tr a then Some a
      else if type_signed tr a \<and> type_rank tr a \<le> type_rank tr b then Some b
      else if type_signed tr a \<and> type_width tr b < type_width tr a then Some a
      else if \<not> type_signed tr a \<and> type_width tr a < type_width tr b then Some b
      else if type_signed tr a then kefir_ast_type_flip_integer_singedness tr a
      else kefir_ast_type_flip_integer_singedness tr b)"

lemma same_integer:
  assumes "integer_type t1"
  shows "KEFIR_AST_TYPE_SAME t1 t2 \<longleftrightarrow> t1 = t2"
  using assms by (elim integer_type_cases) auto

lemma underlying_integer: "integer_type t \<Longrightarrow> kefir_ast_enumeration_underlying_type t = t"
  by (elim integer_type_cases) simp_all

lemma common_integer_eq:
  assumes "amd64 tr" "integer_type t1" "bitfield_ok tr t1 bf1" "integer_type t2" "bitfield_ok tr t2 bf2"
  shows "common_integer tr t1 bf1 t2 bf2 = usual_integer tr (promoted_type tr t1 bf1) (promoted_type tr t2 bf2)"
proof -
  have p: "kefir_ast_type_int_promotion tr t1 bf1 = Some (promoted_type tr t1 bf1)"
    "kefir_ast_type_int_promotion tr t2 bf2 = Some (promoted_type tr t2 bf2)"
    using int_promotion_eq [OF assms(1), of t1 bf1] int_promotion_eq [OF assms(1), of t2 bf2] assms(2-5)
    by (simp_all add: integer_type_integral underlying_integer)
  note i = promoted_type_integer [OF assms(2), of tr bf1] promoted_type_integer [OF assms(4), of tr bf2]
  show ?thesis
    by (simp add: common_integer_def p same_integer [OF i(1)] integer_type_ops(2) [OF i(1)] integer_type_ops(2) [OF i(2)]
        rank_eq [OF i(1)] rank_eq [OF i(2)] rank_less_iff [OF i(2) i(1)] rank_le_iff [OF i(1) i(2)] rank_le_iff [OF i(2) i(1)]
        type_fits_iff [OF i(1) i(2)] type_fits_iff [OF i(2) i(1)] usual_integer_def)
qed

lemma usual_integer_commute:
  assumes "amd64 tr" "promoted tr a" "promoted tr b"
  shows "usual_integer tr a b = usual_integer tr b a"
  using promoted_unique [OF assms(1) assms(2) assms(3)] by (auto simp: usual_integer_def)

lemma usual_integer_result:
  assumes "amd64 tr" "promoted tr a" "promoted tr b"
  obtains r where "usual_integer tr a b = Some r" "promoted tr r" "type_rank tr r = max (type_rank tr a) (type_rank tr b)"
    "type_signed tr r \<longrightarrow> value_range tr a \<union> value_range tr b \<subseteq> value_range tr r"
    "\<not> type_signed tr r \<longrightarrow> \<not> type_signed tr a \<or> \<not> type_signed tr b"
proof -
  have range: "value_range tr x \<subseteq> value_range tr y"
    if "promoted tr x" "promoted tr y" "type_signed tr y" "type_rank tr x \<le> type_rank tr y"
      "\<not> type_signed tr x \<longrightarrow> type_width tr x < type_width tr y" for x y
  proof -
    note x = promotedD [OF assms(1) that(1)] and y = promotedD [OF assms(1) that(2)]
    have "int_range (type_signed tr x) (type_width tr x) \<subseteq> int_range True (type_width tr y)"
      using width_pos [OF assms(1) x(1)] promoted_rank_width [OF assms(1) that(1,2,4)] that(5)
      by (intro int_range_mono) auto
    then show ?thesis using x(2) y(2) that(3) by (simp add: value_range_def)
  qed
  consider "a = b \<or> type_signed tr a = type_signed tr b" | "\<not> type_signed tr a" "type_signed tr b" | "type_signed tr a" "\<not> type_signed tr b"
    by blast
  then show thesis
  proof cases
    case 1
    let ?r = "if type_rank tr b < type_rank tr a then a else b"
    have "usual_integer tr a b = Some ?r" using 1 by (auto simp: usual_integer_def)
    moreover have "value_range tr a \<union> value_range tr b \<subseteq> value_range tr ?r" if "type_signed tr ?r"
      using that 1 assms(2,3) range [of a b] range [of b a] by (auto split: if_splits)
    ultimately show thesis using that [of ?r] assms(2,3) 1 by (auto split: if_splits)
  next
    case 2
    show thesis
    proof (cases "type_rank tr b \<le> type_rank tr a")
      case True
      then show thesis using that [of a] 2 assms(2) by (auto simp: usual_integer_def)
    next
      case r: False
      show thesis
      proof (cases "type_width tr a < type_width tr b")
        case True
        then show thesis using that [of b] 2 assms(2,3) r range [of a b] by (auto simp: usual_integer_def)
      next
        case False
        obtain t' where "kefir_ast_type_flip_integer_singedness tr b = Some t'" "promoted tr t'"
          "type_signed tr t' \<longleftrightarrow> \<not> type_signed tr b" "type_rank tr t' = type_rank tr b"
          using promoted_flip [OF assms(1,3)] by metis
        moreover from this(1) have "usual_integer tr a b = Some t'"
          using 2 r False by (simp add: usual_integer_def) blast
        ultimately show thesis using that [of t'] 2 r by simp
      qed
    qed
  next
    case 3
    show thesis
    proof (cases "type_rank tr a \<le> type_rank tr b")
      case True
      then show thesis using that [of b] 3 assms(3) by (auto simp: usual_integer_def)
    next
      case r: False
      show thesis
      proof (cases "type_width tr b < type_width tr a")
        case True
        then show thesis using that [of a] 3 assms(2,3) r range [of b a] by (auto simp: usual_integer_def)
      next
        case False
        obtain t' where "kefir_ast_type_flip_integer_singedness tr a = Some t'" "promoted tr t'"
          "type_signed tr t' \<longleftrightarrow> \<not> type_signed tr a" "type_rank tr t' = type_rank tr a"
          using promoted_flip [OF assms(1,2)] by metis
        moreover from this(1) have "usual_integer tr a b = Some t'"
          using 3 r False by (simp add: usual_integer_def) blast
        ultimately show thesis using that [of t'] 3 r by simp
      qed
    qed
  qed
qed


section \<open>Usual arithmetic conversions\<close>

text \<open>
  An operand of the usual arithmetic conversions: an integer or enumeration type, a real floating
  type, or the complex or imaginary type of a real floating type that has one.
\<close>

definition arithmetic_operand :: "type_traits \<Rightarrow> ast_type \<Rightarrow> bitfield_properties \<Rightarrow> bool" where
  "arithmetic_operand tr t bf \<longleftrightarrow>
     (KEFIR_AST_TYPE_IS_INTEGRAL_TYPE t \<and> integer_type (kefir_ast_enumeration_underlying_type t) \<and>
        bitfield_ok tr (kefir_ast_enumeration_underlying_type t) bf) \<or>
     KEFIR_AST_TYPE_IS_REAL_FLOATING_POINT t \<or>
     (\<exists>tag. has_complex_type tag \<and> (t = ComplexFP (Scalar tag) \<or> t = ImaginaryFP (Scalar tag)))"

fun real_part :: "ast_type \<Rightarrow> ast_type" where
  "real_part (ComplexFP t) = t"
| "real_part (ImaginaryFP t) = t"
| "real_part t = t"

text \<open>The three kinds of operands after enumerations are replaced by their underlying types.\<close>

lemma arithmetic_operand_cases:
  assumes "arithmetic_operand tr t bf"
  obtains (integer) "integer_type (kefir_ast_enumeration_underlying_type t)"
      "bitfield_ok tr (kefir_ast_enumeration_underlying_type t) bf"
  | (real) "kefir_ast_enumeration_underlying_type t = t" "KEFIR_AST_TYPE_IS_REAL_FLOATING_POINT t"
  | (complex) tag where "kefir_ast_enumeration_underlying_type t = t" "t = ComplexFP (Scalar tag)" "has_complex_type tag"
  | (imaginary) tag where "kefir_ast_enumeration_underlying_type t = t" "t = ImaginaryFP (Scalar tag)" "has_complex_type tag"
proof -
  have "kefir_ast_enumeration_underlying_type t = t" if "KEFIR_AST_TYPE_IS_REAL_FLOATING_POINT t"
    using that by (auto simp: type_macros)
  then show thesis using assms integer real complex imaginary unfolding arithmetic_operand_def by fastforce
qed

lemma has_complex_real: "has_complex_type tag \<Longrightarrow> KEFIR_AST_TYPE_IS_REAL_TYPE (Scalar tag)"
  by (auto simp: has_complex_type_def type_macros)

lemma arithmetic_operandD:
  assumes "arithmetic_operand tr t bf"
  shows "KEFIR_AST_TYPE_IS_ARITHMETIC_TYPE t"
    "let u = kefir_ast_enumeration_underlying_type t;
         c = KEFIR_AST_TYPE_IS_COMPLEX_TYPE u;
         u' = (if c then kefir_ast_type_corresponding_real_type u else Some u)
     in \<exists>v. u' = Some v \<and> KEFIR_AST_TYPE_IS_IMAGINARY_TYPE v = KEFIR_AST_TYPE_IS_IMAGINARY_TYPE u \<and>
          (if KEFIR_AST_TYPE_IS_IMAGINARY_TYPE u then kefir_ast_type_corresponding_real_type v else Some v) = Some (real_part u)"
proof -
  show "KEFIR_AST_TYPE_IS_ARITHMETIC_TYPE t"
    using assms by (auto simp: arithmetic_operand_def KEFIR_AST_TYPE_IS_ARITHMETIC_TYPE_def KEFIR_AST_TYPE_IS_FLOATING_POINT_def)
  have plain: "kefir_ast_type_corresponding_real_type (ComplexFP r) = Some r"
    "kefir_ast_type_corresponding_real_type (ImaginaryFP r) = Some r" for r
    by (simp_all add: kefir_ast_type_corresponding_real_type_def type_macros)
  show "let u = kefir_ast_enumeration_underlying_type t;
         c = KEFIR_AST_TYPE_IS_COMPLEX_TYPE u;
         u' = (if c then kefir_ast_type_corresponding_real_type u else Some u)
     in \<exists>v. u' = Some v \<and> KEFIR_AST_TYPE_IS_IMAGINARY_TYPE v = KEFIR_AST_TYPE_IS_IMAGINARY_TYPE u \<and>
          (if KEFIR_AST_TYPE_IS_IMAGINARY_TYPE u then kefir_ast_type_corresponding_real_type v else Some v) = Some (real_part u)"
    using assms
  proof (cases rule: arithmetic_operand_cases)
    case integer
    then show ?thesis by (elim integer_type_cases) (simp_all add: Let_def)
  next
    case real
    then show ?thesis by (auto simp: Let_def type_macros)
  qed (simp_all add: Let_def plain)
qed

definition mentions_tag :: "ast_type \<Rightarrow> ast_type \<Rightarrow> basic_tag \<Rightarrow> bool" where
  "mentions_tag t1 t2 tag \<longleftrightarrow> t1 = Scalar tag \<or> t2 = Scalar tag"

lemma same_scalar_right: "KEFIR_AST_TYPE_SAME t (Scalar tag) \<longleftrightarrow> t = Scalar tag"
  by (cases t) auto

lemma ANY_OF_scalar: "ANY_OF t1 t2 (Scalar tag) = mentions_tag t1 t2 tag"
  by (simp add: ANY_OF_def mentions_tag_def same_scalar_right)

lemma mentions_tag_commute: "mentions_tag t1 t2 tag = mentions_tag t2 t1 tag"
  by (auto simp: mentions_tag_def)

text \<open>The decimal cases, and the rest on real parts.\<close>

lemma common_arithmetic_eq:
  assumes "arithmetic_operand tr t1 bf1" "arithmetic_operand tr t2 bf2"
    "u1 = kefir_ast_enumeration_underlying_type t1" "u2 = kefir_ast_enumeration_underlying_type t2"
  shows "kefir_ast_type_common_arithmetic tr t1 bf1 t2 bf2 =
    (let decimal = (\<lambda>tag. if allows_decimal u1 \<and> allows_decimal u2 then Some (Scalar tag) else None) in
     if mentions_tag u1 u2 KEFIR_AST_TYPE_SCALAR_DECIMAL128 then decimal KEFIR_AST_TYPE_SCALAR_DECIMAL128
     else if mentions_tag u1 u2 KEFIR_AST_TYPE_SCALAR_EXTENDED_DECIMAL64 then decimal KEFIR_AST_TYPE_SCALAR_EXTENDED_DECIMAL64
     else if mentions_tag u1 u2 KEFIR_AST_TYPE_SCALAR_DECIMAL64 then decimal KEFIR_AST_TYPE_SCALAR_DECIMAL64
     else if mentions_tag u1 u2 KEFIR_AST_TYPE_SCALAR_DECIMAL32 then decimal KEFIR_AST_TYPE_SCALAR_DECIMAL32
     else common_binary tr (real_part u1) bf1 (real_part u2) bf2
       (KEFIR_AST_TYPE_IS_COMPLEX_TYPE u1 \<or> KEFIR_AST_TYPE_IS_COMPLEX_TYPE u2 \<or>
        (KEFIR_AST_TYPE_IS_IMAGINARY_TYPE u1 \<noteq> KEFIR_AST_TYPE_IS_IMAGINARY_TYPE u2))
       (KEFIR_AST_TYPE_IS_IMAGINARY_TYPE u1 \<and> KEFIR_AST_TYPE_IS_IMAGINARY_TYPE u2))"
proof -
  obtain v1 where v1: "(if KEFIR_AST_TYPE_IS_COMPLEX_TYPE u1 then kefir_ast_type_corresponding_real_type u1 else Some u1) = Some v1"
    "KEFIR_AST_TYPE_IS_IMAGINARY_TYPE v1 = KEFIR_AST_TYPE_IS_IMAGINARY_TYPE u1"
    "(if KEFIR_AST_TYPE_IS_IMAGINARY_TYPE u1 then kefir_ast_type_corresponding_real_type v1 else Some v1) = Some (real_part u1)"
    using arithmetic_operandD(2) [OF assms(1)] unfolding Let_def assms(3) [symmetric] by (elim exE conjE) rule
  obtain v2 where v2: "(if KEFIR_AST_TYPE_IS_COMPLEX_TYPE u2 then kefir_ast_type_corresponding_real_type u2 else Some u2) = Some v2"
    "KEFIR_AST_TYPE_IS_IMAGINARY_TYPE v2 = KEFIR_AST_TYPE_IS_IMAGINARY_TYPE u2"
    "(if KEFIR_AST_TYPE_IS_IMAGINARY_TYPE u2 then kefir_ast_type_corresponding_real_type v2 else Some v2) = Some (real_part u2)"
    using arithmetic_operandD(2) [OF assms(2)] unfolding Let_def assms(4) [symmetric] by (elim exE conjE) rule
  show ?thesis
    unfolding kefir_ast_type_common_arithmetic_def Let_def assms(3,4) [symmetric] ANY_OF_scalar v1(1) v2(1) prod.case option.case
      v1(2,3) v2(2,3)
    by (simp add: arithmetic_operandD(1) [OF assms(1)] arithmetic_operandD(1) [OF assms(2)])
qed


lemma common_binary_commute:
  assumes "\<not> c \<Longrightarrow> \<not> i \<Longrightarrow> \<forall>tag. has_complex_type tag \<longrightarrow> \<not> mentions_tag t1 t2 tag \<Longrightarrow>
      common_integer tr t1 bf1 t2 bf2 = common_integer tr t2 bf2 t1 bf1"
  shows "common_binary tr t1 bf1 t2 bf2 c i = common_binary tr t2 bf2 t1 bf1 c i"
proof (cases "c \<or> i \<or> common_integer tr t1 bf1 t2 bf2 = common_integer tr t2 bf2 t1 bf1")
  case True
  then show ?thesis unfolding common_binary_def Let_def ANY_OF_scalar mentions_tag_commute [of t2 t1]
    by (cases "c \<or> i") simp_all
next
  case False
  then have "\<exists>tag. has_complex_type tag \<and> mentions_tag t1 t2 tag" using assms by blast
  then show ?thesis unfolding common_binary_def Let_def ANY_OF_scalar mentions_tag_commute [of t2 t1]
    by (auto simp: has_complex_type_def)
qed

lemma common_binary_float:
  assumes "has_complex_type tag" "mentions_tag t1 t2 tag"
  shows "common_binary tr t1 bf1 t2 bf2 c i \<noteq> None"
  using assms by (auto simp: common_binary_def ANY_OF_scalar has_complex_type_def Let_def)

lemma decimal_tags:
  "KEFIR_AST_TYPE_IS_DECIMAL_FLOATING_POINT u1 \<or> KEFIR_AST_TYPE_IS_DECIMAL_FLOATING_POINT u2 \<longleftrightarrow>
     mentions_tag u1 u2 KEFIR_AST_TYPE_SCALAR_DECIMAL128 \<or> mentions_tag u1 u2 KEFIR_AST_TYPE_SCALAR_EXTENDED_DECIMAL64 \<or>
     mentions_tag u1 u2 KEFIR_AST_TYPE_SCALAR_DECIMAL64 \<or> mentions_tag u1 u2 KEFIR_AST_TYPE_SCALAR_DECIMAL32"
  by (auto simp: KEFIR_AST_TYPE_IS_DECIMAL_FLOATING_POINT_def mentions_tag_def)

lemma operand_integer:
  assumes "arithmetic_operand tr t bf" "u = kefir_ast_enumeration_underlying_type t"
    "\<not> KEFIR_AST_TYPE_IS_DECIMAL_FLOATING_POINT u" "\<And>tag. has_complex_type tag \<Longrightarrow> real_part u \<noteq> Scalar tag"
  shows "integer_type u" "bitfield_ok tr u bf" "real_part u = u"
proof -
  have "integer_type u \<and> bitfield_ok tr u bf"
    using assms(1)
  proof (cases rule: arithmetic_operand_cases)
    case real
    then have "\<not> KEFIR_AST_TYPE_IS_DECIMAL_FLOATING_POINT t" "u = t" using assms(2,3) by auto
    then obtain tag where "t = Scalar tag" "has_complex_type tag"
      using real(2) unfolding KEFIR_AST_TYPE_IS_REAL_FLOATING_POINT_def KEFIR_AST_TYPE_IS_STANDARD_FLOATING_POINT_def
        KEFIR_AST_TYPE_IS_BINARY_FLOATING_POINT_def has_complex_type_def by metis
    then show ?thesis using assms(4) [of tag] \<open>u = t\<close> by simp
  next
    case (complex tag)
    then show ?thesis using assms(2) assms(4) [of tag] by simp
  next
    case (imaginary tag)
    then show ?thesis using assms(2) assms(4) [of tag] by simp
  qed (simp add: assms(2))
  then show i: "integer_type u" "bitfield_ok tr u bf" by blast+
  show "real_part u = u" using i(1) by (elim integer_type_cases) simp_all
qed

lemma operand_complex:
  assumes "arithmetic_operand tr t bf" "u = kefir_ast_enumeration_underlying_type t"
    "KEFIR_AST_TYPE_IS_COMPLEX_TYPE u \<or> KEFIR_AST_TYPE_IS_IMAGINARY_TYPE u"
  obtains tag where "has_complex_type tag" "real_part u = Scalar tag"
  using assms(1)
proof (cases rule: arithmetic_operand_cases)
  case integer
  then show ?thesis using assms(2,3) by (elim integer_type_cases) auto
next
  case real
  then show ?thesis using assms(2,3) by (auto simp: type_macros)
qed (use assms(2) that in auto)

lemma common_integer_commute:
  assumes "amd64 tr" "integer_type t1" "bitfield_ok tr t1 bf1" "integer_type t2" "bitfield_ok tr t2 bf2"
  shows "common_integer tr t1 bf1 t2 bf2 = common_integer tr t2 bf2 t1 bf1"
  using common_integer_eq [OF assms] common_integer_eq [OF assms(1,4,5,2,3)]
    usual_integer_commute [OF assms(1) promoted_promoted_type [OF assms(1-3)] promoted_promoted_type [OF assms(1,4,5)]]
  by simp

lemma common_integer_total:
  assumes "amd64 tr" "integer_type t1" "bitfield_ok tr t1 bf1" "integer_type t2" "bitfield_ok tr t2 bf2"
  shows "common_integer tr t1 bf1 t2 bf2 \<noteq> None"
  using common_integer_eq [OF assms]
    usual_integer_result [OF assms(1) promoted_promoted_type [OF assms(1-3)] promoted_promoted_type [OF assms(1,4,5)]]
  by (metis option.distinct(1))

lemma common_binary_total:
  assumes "c \<or> i \<Longrightarrow> \<exists>tag. has_complex_type tag \<and> mentions_tag t1 t2 tag"
    "\<forall>tag. has_complex_type tag \<longrightarrow> \<not> mentions_tag t1 t2 tag \<Longrightarrow> common_integer tr t1 bf1 t2 bf2 \<noteq> None"
  shows "common_binary tr t1 bf1 t2 bf2 c i \<noteq> None"
proof (cases "\<exists>tag. has_complex_type tag \<and> mentions_tag t1 t2 tag")
  case True
  then show ?thesis using common_binary_float by blast
next
  case False
  then have "\<not> c" "\<not> i" "common_integer tr t1 bf1 t2 bf2 \<noteq> None" using assms by blast+
  then show ?thesis by (auto simp: common_binary_def Let_def)
qed

lemma allows_underlying:
  assumes "arithmetic_operand tr t bf" "u = kefir_ast_enumeration_underlying_type t"
  shows "allows_decimal u = allows_decimal t"
    "KEFIR_AST_TYPE_IS_DECIMAL_FLOATING_POINT u = KEFIR_AST_TYPE_IS_DECIMAL_FLOATING_POINT t"
proof -
  have "integer_type u \<Longrightarrow> allows_decimal u \<and> \<not> KEFIR_AST_TYPE_IS_DECIMAL_FLOATING_POINT u"
    by (elim integer_type_cases) (simp_all add: allows_decimal_def type_macros)
  then have "t = u \<or> (allows_decimal u \<and> \<not> KEFIR_AST_TYPE_IS_DECIMAL_FLOATING_POINT u \<and>
      allows_decimal t \<and> \<not> KEFIR_AST_TYPE_IS_DECIMAL_FLOATING_POINT t)"
    using assms by (cases t) (auto simp: arithmetic_operand_def allows_decimal_def type_macros)
  then show "allows_decimal u = allows_decimal t"
    "KEFIR_AST_TYPE_IS_DECIMAL_FLOATING_POINT u = KEFIR_AST_TYPE_IS_DECIMAL_FLOATING_POINT t" by blast+
qed


lemma common_arithmetic_commute:
  assumes "amd64 tr" "arithmetic_operand tr t1 bf1" "arithmetic_operand tr t2 bf2"
  shows "kefir_ast_type_common_arithmetic tr t1 bf1 t2 bf2 = kefir_ast_type_common_arithmetic tr t2 bf2 t1 bf1"
proof -
  define u1 u2 where u: "u1 = kefir_ast_enumeration_underlying_type t1" "u2 = kefir_ast_enumeration_underlying_type t2"
  let ?c = "KEFIR_AST_TYPE_IS_COMPLEX_TYPE u1 \<or> KEFIR_AST_TYPE_IS_COMPLEX_TYPE u2 \<or>
        (KEFIR_AST_TYPE_IS_IMAGINARY_TYPE u1 \<noteq> KEFIR_AST_TYPE_IS_IMAGINARY_TYPE u2)"
  let ?i = "KEFIR_AST_TYPE_IS_IMAGINARY_TYPE u1 \<and> KEFIR_AST_TYPE_IS_IMAGINARY_TYPE u2"
  have "common_binary tr (real_part u1) bf1 (real_part u2) bf2 ?c ?i = common_binary tr (real_part u2) bf2 (real_part u1) bf1 ?c ?i"
    if dec: "\<not> KEFIR_AST_TYPE_IS_DECIMAL_FLOATING_POINT u1" "\<not> KEFIR_AST_TYPE_IS_DECIMAL_FLOATING_POINT u2"
  proof (rule common_binary_commute)
    assume none: "\<forall>tag. has_complex_type tag \<longrightarrow> \<not> mentions_tag (real_part u1) (real_part u2) tag"
    then have r: "has_complex_type tag \<Longrightarrow> real_part u1 \<noteq> Scalar tag" "has_complex_type tag \<Longrightarrow> real_part u2 \<noteq> Scalar tag" for tag
      by (auto simp: mentions_tag_def)
    note o1 = operand_integer [OF assms(2) u(1) dec(1) r(1)] and o2 = operand_integer [OF assms(3) u(2) dec(2) r(2)]
    show "common_integer tr (real_part u1) bf1 (real_part u2) bf2 = common_integer tr (real_part u2) bf2 (real_part u1) bf1"
      using common_integer_commute [OF assms(1) o1(1,2) o2(1,2)] o1(3) o2(3) by simp
  qed
  note comm = this
  have sym: "(KEFIR_AST_TYPE_IS_COMPLEX_TYPE u2 \<or> KEFIR_AST_TYPE_IS_COMPLEX_TYPE u1 \<or>
        (KEFIR_AST_TYPE_IS_IMAGINARY_TYPE u2 \<noteq> KEFIR_AST_TYPE_IS_IMAGINARY_TYPE u1)) = ?c"
    "(KEFIR_AST_TYPE_IS_IMAGINARY_TYPE u2 \<and> KEFIR_AST_TYPE_IS_IMAGINARY_TYPE u1) = ?i"
    "(allows_decimal u2 \<and> allows_decimal u1) = (allows_decimal u1 \<and> allows_decimal u2)" by auto
  show ?thesis
    unfolding common_arithmetic_eq [OF assms(2,3) u] common_arithmetic_eq [OF assms(3,2) u(2,1)] Let_def
      mentions_tag_commute [of u2 u1] sym
    using decimal_tags [of u1 u2] comm by (intro if_cong refl) auto
qed

lemma common_arithmetic_total:
  assumes "amd64 tr" "arithmetic_operand tr t1 bf1" "arithmetic_operand tr t2 bf2"
    "\<not> KEFIR_AST_TYPE_IS_DECIMAL_FLOATING_POINT t1" "\<not> KEFIR_AST_TYPE_IS_DECIMAL_FLOATING_POINT t2"
  shows "kefir_ast_type_common_arithmetic tr t1 bf1 t2 bf2 \<noteq> None"
proof -
  define u1 u2 where u: "u1 = kefir_ast_enumeration_underlying_type t1" "u2 = kefir_ast_enumeration_underlying_type t2"
  let ?c = "KEFIR_AST_TYPE_IS_COMPLEX_TYPE u1 \<or> KEFIR_AST_TYPE_IS_COMPLEX_TYPE u2 \<or>
        (KEFIR_AST_TYPE_IS_IMAGINARY_TYPE u1 \<noteq> KEFIR_AST_TYPE_IS_IMAGINARY_TYPE u2)"
  let ?i = "KEFIR_AST_TYPE_IS_IMAGINARY_TYPE u1 \<and> KEFIR_AST_TYPE_IS_IMAGINARY_TYPE u2"
  have dec: "\<not> KEFIR_AST_TYPE_IS_DECIMAL_FLOATING_POINT u1" "\<not> KEFIR_AST_TYPE_IS_DECIMAL_FLOATING_POINT u2"
    using allows_underlying(2) [OF assms(2) u(1)] allows_underlying(2) [OF assms(3) u(2)] assms(4,5) by simp_all
  have "common_binary tr (real_part u1) bf1 (real_part u2) bf2 ?c ?i \<noteq> None"
  proof (rule common_binary_total)
    show "\<exists>tag. has_complex_type tag \<and> mentions_tag (real_part u1) (real_part u2) tag" if "?c \<or> ?i"
      using that operand_complex [OF assms(2) u(1)] operand_complex [OF assms(3) u(2)]
      unfolding mentions_tag_def by metis
    assume none: "\<forall>tag. has_complex_type tag \<longrightarrow> \<not> mentions_tag (real_part u1) (real_part u2) tag"
    then have r: "has_complex_type tag \<Longrightarrow> real_part u1 \<noteq> Scalar tag" "has_complex_type tag \<Longrightarrow> real_part u2 \<noteq> Scalar tag" for tag
      by (auto simp: mentions_tag_def)
    note o1 = operand_integer [OF assms(2) u(1) dec(1) r(1)] and o2 = operand_integer [OF assms(3) u(2) dec(2) r(2)]
    show "common_integer tr (real_part u1) bf1 (real_part u2) bf2 \<noteq> None"
      using common_integer_total [OF assms(1) o1(1,2) o2(1,2)] o1(3) o2(3) by simp
  qed
  then show ?thesis
    unfolding common_arithmetic_eq [OF assms(2,3) u] Let_def using decimal_tags [of u1 u2] dec by auto
qed

lemma common_arithmetic_decimal:
  assumes "arithmetic_operand tr t1 bf1" "arithmetic_operand tr t2 bf2"
    "KEFIR_AST_TYPE_IS_DECIMAL_FLOATING_POINT t1 \<or> KEFIR_AST_TYPE_IS_DECIMAL_FLOATING_POINT t2"
  shows "kefir_ast_type_common_arithmetic tr t1 bf1 t2 bf2 = None \<longleftrightarrow> \<not> (allows_decimal t1 \<and> allows_decimal t2)"
proof -
  note u = allows_underlying [OF assms(1) refl] allows_underlying [OF assms(2) refl]
  have "KEFIR_AST_TYPE_IS_DECIMAL_FLOATING_POINT (kefir_ast_enumeration_underlying_type t1) \<or>
      KEFIR_AST_TYPE_IS_DECIMAL_FLOATING_POINT (kefir_ast_enumeration_underlying_type t2)"
    using assms(3) u by simp
  then show ?thesis
    unfolding common_arithmetic_eq [OF assms(1,2) refl refl] Let_def decimal_tags u(1,3) by auto
qed

text \<open>
  C17. The usual arithmetic conversions on the AMD64 data model, over all arithmetic types (integers,
  enumerations, bit-fields, bit-precise, real, complex, imaginary and decimal floating types): the
  common type does not depend on the order of the operands, and there is one unless a decimal type
  meets a standard, binary or complex floating type.\<close>

theorem common_arithmetic_commutative_total:
  assumes "amd64 tr" "arithmetic_operand tr t1 bf1" "arithmetic_operand tr t2 bf2"
  shows "kefir_ast_type_common_arithmetic tr t1 bf1 t2 bf2 = kefir_ast_type_common_arithmetic tr t2 bf2 t1 bf1 \<and>
    (kefir_ast_type_common_arithmetic tr t1 bf1 t2 bf2 = None \<longleftrightarrow>
       KEFIR_AST_TYPE_IS_DECIMAL_FLOATING_POINT t1 \<and> (KEFIR_AST_TYPE_IS_STANDARD_FLOATING_POINT t2 \<or>
         KEFIR_AST_TYPE_IS_BINARY_FLOATING_POINT t2 \<or> KEFIR_AST_TYPE_IS_COMPLEX_TYPE t2) \<or>
       KEFIR_AST_TYPE_IS_DECIMAL_FLOATING_POINT t2 \<and> (KEFIR_AST_TYPE_IS_STANDARD_FLOATING_POINT t1 \<or>
         KEFIR_AST_TYPE_IS_BINARY_FLOATING_POINT t1 \<or> KEFIR_AST_TYPE_IS_COMPLEX_TYPE t1))"
proof -
  have dec: "allows_decimal t" if "KEFIR_AST_TYPE_IS_DECIMAL_FLOATING_POINT t" for t
    using that by (auto simp: allows_decimal_def type_macros)
  show ?thesis
    using common_arithmetic_commute [OF assms] common_arithmetic_total [OF assms] common_arithmetic_decimal [OF assms(2,3)]
      dec [of t1] dec [of t2] unfolding allows_decimal_def by blast
qed

lemma common_arithmetic_commutative_total_witness:
  "kefir_ast_type_common_arithmetic example_traits (ComplexFP (Scalar KEFIR_AST_TYPE_SCALAR_FLOAT))
     KEFIR_AST_BITFIELD_PROPERTIES_NONE (UnsignedBitPrecise 7) KEFIR_AST_BITFIELD_PROPERTIES_NONE \<noteq> None \<and>
   kefir_ast_type_common_arithmetic example_traits (ComplexFP (Scalar KEFIR_AST_TYPE_SCALAR_FLOAT))
     KEFIR_AST_BITFIELD_PROPERTIES_NONE (Scalar KEFIR_AST_TYPE_SCALAR_DECIMAL32) KEFIR_AST_BITFIELD_PROPERTIES_NONE = None"
proof -
  let ?n = KEFIR_AST_BITFIELD_PROPERTIES_NONE
  have o: "arithmetic_operand example_traits (ComplexFP (Scalar KEFIR_AST_TYPE_SCALAR_FLOAT)) ?n"
    "arithmetic_operand example_traits (UnsignedBitPrecise 7) ?n"
    "arithmetic_operand example_traits (Scalar KEFIR_AST_TYPE_SCALAR_DECIMAL32) ?n"
    by (simp_all add: arithmetic_operand_def type_macros has_complex_type_def integer_type_def bitfield_ok_def
        KEFIR_AST_BITFIELD_PROPERTIES_NONE_def)
  show ?thesis
    using common_arithmetic_commutative_total [OF example_traits(1) o(1,2), THEN conjunct2]
      common_arithmetic_commutative_total [OF example_traits(1) o(1,3), THEN conjunct2]
    by (simp add: type_macros)
qed

lemma integer_type_plain:
  assumes "integer_type u"
  shows "real_part u = u" "\<not> KEFIR_AST_TYPE_IS_COMPLEX_TYPE u" "\<not> KEFIR_AST_TYPE_IS_IMAGINARY_TYPE u"
    "\<not> KEFIR_AST_TYPE_IS_DECIMAL_FLOATING_POINT u" "has_complex_type tag \<Longrightarrow> u \<noteq> Scalar tag"
proof -
  show "real_part u = u" "\<not> KEFIR_AST_TYPE_IS_COMPLEX_TYPE u" "\<not> KEFIR_AST_TYPE_IS_IMAGINARY_TYPE u"
    "\<not> KEFIR_AST_TYPE_IS_DECIMAL_FLOATING_POINT u"
    using assms by (elim integer_type_cases; simp add: KEFIR_AST_TYPE_IS_DECIMAL_FLOATING_POINT_def)+
  show "u \<noteq> Scalar tag" if "has_complex_type tag"
    using that assms by (elim integer_type_cases) (auto simp: has_complex_type_def)
qed

text \<open>
  C18. The common type of two operands of integer or enumeration type ranks exactly as high as the
  higher-ranked of the promoted operands; when it is signed, it represents every value of both
  operands, and it is unsigned only if one of the promoted operands is.\<close>

theorem common_arithmetic_integers:
  assumes "amd64 tr" "KEFIR_AST_TYPE_IS_INTEGRAL_TYPE t1" "KEFIR_AST_TYPE_IS_INTEGRAL_TYPE t2"
    "u1 = kefir_ast_enumeration_underlying_type t1" "u2 = kefir_ast_enumeration_underlying_type t2"
    "integer_type u1" "integer_type u2" "bitfield_ok tr u1 bf1" "bitfield_ok tr u2 bf2"
  shows "\<exists>p1 p2 r. kefir_ast_type_int_promotion tr t1 bf1 = Some p1 \<and> kefir_ast_type_int_promotion tr t2 bf2 = Some p2 \<and>
    kefir_ast_type_common_arithmetic tr t1 bf1 t2 bf2 = Some r \<and>
    type_rank tr r = max (type_rank tr p1) (type_rank tr p2) \<and>
    (type_signed tr r \<longrightarrow> operand_range tr u1 bf1 \<union> operand_range tr u2 bf2 \<subseteq> value_range tr r) \<and>
    (\<not> type_signed tr r \<longrightarrow> \<not> type_signed tr p1 \<or> \<not> type_signed tr p2)"
proof -
  let ?p1 = "promoted_type tr u1 bf1" and ?p2 = "promoted_type tr u2 bf2"
  note p1 = promoted_promoted_type [OF assms(1,6,8)] and p2 = promoted_promoted_type [OF assms(1,7,9)]
  obtain r where r: "usual_integer tr ?p1 ?p2 = Some r" "type_rank tr r = max (type_rank tr ?p1) (type_rank tr ?p2)"
    "type_signed tr r \<longrightarrow> value_range tr ?p1 \<union> value_range tr ?p2 \<subseteq> value_range tr r"
    "\<not> type_signed tr r \<longrightarrow> \<not> type_signed tr ?p1 \<or> \<not> type_signed tr ?p2"
    using usual_integer_result [OF assms(1) p1 p2] by metis
  have o: "arithmetic_operand tr t1 bf1" "arithmetic_operand tr t2 bf2"
    using assms by (auto simp: arithmetic_operand_def)
  note u1 = integer_type_plain [OF assms(6)] and u2 = integer_type_plain [OF assms(7)]
  have none: "\<not> mentions_tag u1 u2 tag" if "has_complex_type tag" for tag
    using u1(5) [OF that] u2(5) [OF that] by (simp add: mentions_tag_def)
  have "common_binary tr u1 bf1 u2 bf2 False False = common_integer tr u1 bf1 u2 bf2"
    by (simp add: common_binary_def ANY_OF_scalar none has_complex_type_def)
  then have "kefir_ast_type_common_arithmetic tr t1 bf1 t2 bf2 = Some r"
    using common_arithmetic_eq [OF o assms(4,5)] decimal_tags [of u1 u2] u1 u2
      common_integer_eq [OF assms(1,6,8,7,9)] r(1) by simp
  moreover have "kefir_ast_type_int_promotion tr t1 bf1 = Some ?p1" "kefir_ast_type_int_promotion tr t2 bf2 = Some ?p2"
    using int_promotion_eq [OF assms(1,2)] int_promotion_eq [OF assms(1,3)] assms(4-9) by simp_all
  moreover have "type_signed tr r \<longrightarrow> operand_range tr u1 bf1 \<union> operand_range tr u2 bf2 \<subseteq> value_range tr r"
    using r(3) promoted_type_range [OF assms(1,6,8)] promoted_type_range [OF assms(1,7,9)] by blast
  ultimately show ?thesis using r(2,4) by blast
qed

lemma common_arithmetic_integers_witness:
  "\<exists>r. kefir_ast_type_common_arithmetic example_traits (Scalar KEFIR_AST_TYPE_SCALAR_SIGNED_LONG)
         KEFIR_AST_BITFIELD_PROPERTIES_NONE (Scalar KEFIR_AST_TYPE_SCALAR_UNSIGNED_INT) KEFIR_AST_BITFIELD_PROPERTIES_NONE = Some r \<and>
       (type_signed example_traits r \<longrightarrow>
          value_range example_traits (Scalar KEFIR_AST_TYPE_SCALAR_UNSIGNED_INT) \<subseteq> value_range example_traits r)"
proof -
  let ?n = KEFIR_AST_BITFIELD_PROPERTIES_NONE
  have i: "integer_type (Scalar KEFIR_AST_TYPE_SCALAR_SIGNED_LONG)" by (simp add: integer_type_def type_macros)
  have b: "bitfield_ok example_traits t ?n" "operand_range example_traits t ?n = value_range example_traits t" for t
    by (simp_all add: bitfield_ok_def operand_range_def KEFIR_AST_BITFIELD_PROPERTIES_NONE_def)
  have "kefir_ast_enumeration_underlying_type (Scalar x) = Scalar x" for x by simp
  from common_arithmetic_integers [OF example_traits(1) integer_type_integral [OF i] integer_type_integral [OF int_is_integer(2)]
      this [symmetric] this [symmetric] i int_is_integer(2) b(1) b(1)]
  show ?thesis unfolding b(2) by blast
qed

text \<open>A decimal operand next to an imaginary one is accepted, and the result is the decimal type.\<close>

lemma common_arithmetic_decimal_imaginary:
  "kefir_ast_type_common_arithmetic tr (Scalar KEFIR_AST_TYPE_SCALAR_DECIMAL64) bf1
     (ImaginaryFP (Scalar KEFIR_AST_TYPE_SCALAR_DOUBLE)) bf2 = Some (Scalar KEFIR_AST_TYPE_SCALAR_DECIMAL64)"
  by (simp add: kefir_ast_type_common_arithmetic_def ANY_OF_def allows_decimal_def type_macros)


section \<open>Decay and variable modification\<close>

text \<open>Types as the constructors build them: a qualified type never qualifies a qualified type.\<close>

fun top_qualification_flat :: "ast_type \<Rightarrow> bool" where
  "top_qualification_flat (Qualified q t) = (\<not> is_qualified t)"
| "top_qualification_flat t = True"

lemma qualified_flat: "top_qualification_flat t \<Longrightarrow> top_qualification_flat (kefir_ast_type_qualified t q)"
  by (cases t) simp_all

lemma conv_flags: "CONV_ALL AND CONV_ARRAY \<noteq> 0" "CONV_ALL AND CONV_LVALUE \<noteq> 0" "CONV_ALL AND CONV_FUNCTION \<noteq> 0"
  by (simp_all add: CONV_ALL_def CONV_ARRAY_def CONV_LVALUE_def CONV_FUNCTION_def)

lemma conv_all:
  "kefir_ast_type_conv_expression_wrapper t CONV_ALL =
     kefir_ast_type_function_conversion (kefir_ast_type_lvalue_conversion (kefir_ast_type_array_conversion t))"
  by (simp add: kefir_ast_type_conv_expression_wrapper_def conv_flags)

text \<open>
  C22. Decay and parameter adjustment. The conversion of an expression with all its steps yields a
  type that is unqualified and neither an array nor a function, and converting twice changes
  nothing; a qualified array decays to a pointer to the qualified element. The adjusted type of a
  function parameter is neither an array nor a function, even under qualifiers, adjusting again
  changes nothing, and all other types are left as they are.\<close>

theorem decay_and_adjustment:
  assumes "top_qualification_flat t"
  shows "(let c = kefir_ast_type_conv_expression_wrapper t CONV_ALL in
      \<not> is_qualified c \<and> \<not> is_array c \<and> \<not> is_function c \<and> kefir_ast_type_conv_expression_wrapper c CONV_ALL = c) \<and>
    (\<forall>e b aq q. t = Qualified q (Array e b aq) \<longrightarrow>
       kefir_ast_type_conv_expression_wrapper t CONV_ALL = Pointer (kefir_ast_type_qualified e q)) \<and>
    (let a = kefir_ast_type_conv_adjust_function_parameter t; u = kefir_ast_unqualified_type a in
      \<not> is_array u \<and> \<not> is_function u \<and> kefir_ast_type_conv_adjust_function_parameter a = a \<and>
      (\<not> is_array (kefir_ast_unqualified_type t) \<and> \<not> is_function (kefir_ast_unqualified_type t) \<longrightarrow> a = t))"
proof (cases t)
  case (Qualified q u)
  then show ?thesis using assms
    by (cases u) (simp_all add: conv_all kefir_ast_type_lvalue_conversion_def kefir_ast_type_conv_adjust_function_parameter_def Let_def)
qed (simp_all add: conv_all kefir_ast_type_lvalue_conversion_def kefir_ast_type_conv_adjust_function_parameter_def Let_def)

lemma decay_and_adjustment_witness:
  "kefir_ast_type_conv_expression_wrapper
     (Qualified (no_qualification\<lparr>q_constant := True\<rparr>)
        (Array (Scalar KEFIR_AST_TYPE_SCALAR_CHAR) (KEFIR_AST_ARRAY_BOUNDED 4) no_qualification)) CONV_ALL =
   Pointer (Qualified (no_qualification\<lparr>q_constant := True\<rparr>) (Scalar KEFIR_AST_TYPE_SCALAR_CHAR))"
  using decay_and_adjustment [of "Qualified (no_qualification\<lparr>q_constant := True\<rparr>)
    (Array (Scalar KEFIR_AST_TYPE_SCALAR_CHAR) (KEFIR_AST_ARRAY_BOUNDED 4) no_qualification)"] by simp

text \<open>The length expressions met on the way through arrays, pointers and qualifiers, outermost first.\<close>

fun vla_lengths :: "ast_type \<Rightarrow> nat option list" where
  "vla_lengths (Array e (KEFIR_AST_ARRAY_VLA n) q) = n # vla_lengths e"
| "vla_lengths (Array e (KEFIR_AST_ARRAY_VLA_STATIC n) q) = n # vla_lengths e"
| "vla_lengths (Array e b q) = vla_lengths e"
| "vla_lengths (Pointer t) = vla_lengths t"
| "vla_lengths (Qualified q t) = vla_lengths t"
| "vla_lengths t = []"

text \<open>What a walk with an arbitrary callback does, over that list.\<close>

fun visit_lengths :: "(nat option \<Rightarrow> 's \<Rightarrow> kefir_result \<times> 's) \<Rightarrow> nat option list \<Rightarrow> 's \<Rightarrow> kefir_result \<times> 's" where
  "visit_lengths callback [] s = (KEFIR_OK, s)"
| "visit_lengths callback (n # ns) s =
     (let (res, s') = callback n s in
      if res = KEFIR_YIELD then (KEFIR_OK, s') else if res \<noteq> KEFIR_OK then (res, s') else visit_lengths callback ns s')"

lemma list_variable_modificators_eq:
  "kefir_ast_type_list_variable_modificators callback t s = visit_lengths callback (vla_lengths t) s"
proof (induction t arbitrary: s)
  case (Array e b q)
  then show ?case by (cases b) (auto simp: Let_def split: prod.splits)
qed simp_all

lemma visit_list_vl_modifiers:
  "visit_lengths list_vl_modifiers ns found =
     (KEFIR_OK, case filter (\<lambda>n. n \<noteq> None) ns of [] \<Rightarrow> found | n # _ \<Rightarrow> n)"
  by (induction ns) (auto simp: list_vl_modifiers_def split: option.splits)

text \<open>
  C23. A walk over the variable modifiers of a type calls the callback on the length expressions of
  its variable-length arrays, outermost first, through pointers, qualifiers and arrays of any kind,
  until the callback yields or fails; a type is variably modified exactly when one of these lengths
  is given, and the top modifier is the first that is.\<close>

theorem variable_modification:
  "kefir_ast_type_list_variable_modificators callback t s = visit_lengths callback (vla_lengths t) s \<and>
   (kefir_ast_type_is_variably_modified t \<longleftrightarrow> (\<exists>n. Some n \<in> set (vla_lengths t))) \<and>
   kefir_ast_type_get_top_variable_modificator t =
     (case filter (\<lambda>n. n \<noteq> None) (vla_lengths t) of [] \<Rightarrow> None | n # _ \<Rightarrow> n)"
proof -
  have top: "kefir_ast_type_get_top_variable_modificator t =
      (case filter (\<lambda>n. n \<noteq> None) (vla_lengths t) of [] \<Rightarrow> None | n # _ \<Rightarrow> n)"
    by (simp add: kefir_ast_type_get_top_variable_modificator_def list_variable_modificators_eq visit_list_vl_modifiers)
  have "(case filter (\<lambda>n. n \<noteq> None) ns of [] \<Rightarrow> None | n # _ \<Rightarrow> n) \<noteq> None \<longleftrightarrow> (\<exists>n. Some n \<in> set ns)"
    for ns :: "nat option list"
    by (induction ns) (auto split: list.splits)
  then have "kefir_ast_type_is_variably_modified t \<longleftrightarrow> (\<exists>n. Some n \<in> set (vla_lengths t))"
    unfolding kefir_ast_type_is_variably_modified_def top by blast
  then show ?thesis using top list_variable_modificators_eq [of callback t s] by (intro conjI)
qed

section \<open>Qualification\<close>

text \<open>
  Qualifying an array that is already qualified (which happens from C23 on, where qualifiers
  apply to the array as well as to its elements) yields an array whose elements are the original
  array: the code reads the element type from the wrapper that holds the qualifiers. Qualifying an
  unqualified array qualifies its elements, and any other type gets the merged qualifiers.\<close>

theorem apply_qualification_branches:
  "kefir_ast_type_apply_qualification c23 (Qualified q (Array e b aq)) (Some quals) =
     (let merged = kefir_ast_type_merge_qualifications q quals;
          array = Array (Qualified merged (Array e b aq)) b aq
      in if c23 then Qualified merged array else array) \<and>
   kefir_ast_type_apply_qualification c23 (Array e b aq) (Some quals) =
     (let array = Array (kefir_ast_type_qualified e quals) b aq
      in if c23 then Qualified quals array else array) \<and>
   (\<not> is_array (kefir_ast_unqualified_type t) \<longrightarrow>
      kefir_ast_type_apply_qualification c23 t (Some quals) = kefir_ast_type_qualified t
        (kefir_ast_type_merge_qualifications (kefir_ast_type_retrieve_qualifications t) quals))"
proof -
  have "kefir_ast_type_merge_qualifications no_qualification quals = quals"
    by (simp add: kefir_ast_type_merge_qualifications_def no_qualification_def)
  then show ?thesis by (auto simp: kefir_ast_type_apply_qualification_def Let_def)
qed

lemma apply_qualification_branches_witness:
  "let q = no_qualification\<lparr>q_constant := True\<rparr>; int = Scalar KEFIR_AST_TYPE_SCALAR_SIGNED_INT
   in kefir_ast_type_apply_qualification True int (Some q) = Qualified q int"
proof -
  let ?q = "no_qualification\<lparr>q_constant := True\<rparr>"
  have "kefir_ast_type_merge_qualifications no_qualification ?q = ?q"
    by (simp add: kefir_ast_type_merge_qualifications_def no_qualification_def)
  then show ?thesis
    using apply_qualification_branches [where t = "Scalar KEFIR_AST_TYPE_SCALAR_SIGNED_INT" and quals = ?q and ?c23.0 = True]
    by simp
qed

section \<open>Data model\<close>

fun classification_bits :: "data_model_classification \<Rightarrow> nat" where
  "classification_bits KEFIR_AST_TYPE_DATA_MODEL_INT8 = 8"
| "classification_bits KEFIR_AST_TYPE_DATA_MODEL_INT16 = 16"
| "classification_bits KEFIR_AST_TYPE_DATA_MODEL_INT32 = 32"
| "classification_bits KEFIR_AST_TYPE_DATA_MODEL_INT64 = 64"
| "classification_bits KEFIR_AST_TYPE_DATA_MODEL_INT128 = 128"
| "classification_bits _ = 0"

text \<open>On AMD64 the classification of a standard integer type is the one of its width, and each of the
  widths 8 to 64 has a signed and an unsigned type.\<close>

lemma data_model_classification_width:
  assumes "amd64 tr" "integer_type t" "\<not> KEFIR_AST_TYPE_IS_BIT_PRECISE_INTEGRAL_TYPE t"
  shows "\<exists>c. kefir_ast_type_data_model_classify tr t = Inr c \<and> classification_bits c = type_width tr t"
  using assms(2)
  by (cases rule: integer_type_cases)
    (use assms(3) in \<open>simp_all add: scalar_widths [OF assms(1)] type_macros classify_basic_def classify_integer_def
      amd64_bits [OF assms(1)] MATCH_BITS_def\<close>)

lemma integer_type_of_width:
  assumes "amd64 tr" "width \<in> {8, 16, 32, 64}"
  shows "\<exists>t. MATCH_WIDTH tr signed_type width = Some t \<and> type_width tr t = width \<and> type_signed tr t = signed_type"
  using assms(2)
  by (auto simp: MATCH_WIDTH_def Let_def amd64_bits [OF assms(1)] scalar_widths [OF assms(1)] type_signed_def)

text \<open>Merging specifiers: a declaration adds \<^verbatim>\<open>_Noreturn\<close> for good, and the last declaration decides on \<^verbatim>\<open>inline\<close>.\<close>

definition is_noreturn :: "function_specifier \<Rightarrow> bool" where
  "is_noreturn s \<longleftrightarrow> s = KEFIR_AST_FUNCTION_SPECIFIER_NORETURN \<or> s = KEFIR_AST_FUNCTION_SPECIFIER_INLINE_NORETURN"

lemma merge_function_specifiers:
  "is_noreturn (kefir_ast_context_merge_function_specifiers s1 s2) \<longleftrightarrow> is_noreturn s1 \<or> is_noreturn s2"
  "kefir_ast_function_specifier_is_inline (kefir_ast_context_merge_function_specifiers s1 s2) \<longleftrightarrow>
     kefir_ast_function_specifier_is_inline s2"
  by (cases s1; cases s2; simp add: is_noreturn_def kefir_ast_function_specifier_is_inline_def)+

end
