(* ===== verification/Kefir_Type_Compat.thy ===== *)
theory Kefir_Type_Compat
  imports Kefir_Type_Conv_Correct
begin

text \<open>
  Compatibility of types: the \<^verbatim>\<open>compatible\<close> operation of every kind of type
  (\<^verbatim>\<open>source/ast/type/{basic,pointer,enum,struct,array,function,qualified}.c\<close>), the check of a function
  definition against a declaration, and the members of structures and unions. As for identity, each
  operation takes the comparison of components as a parameter and \<open>KEFIR_AST_TYPE_COMPATIBLE\<close> ties
  the knot; the macro's test for equal pointers is left out, which \<open>compatible_refl\<close> justifies.
\<close>

section \<open>The operations\<close>

datatype tag =
    BASIC_TAG basic_tag
  | KEFIR_AST_TYPE_SCALAR_SIGNED_BIT_PRECISE | KEFIR_AST_TYPE_SCALAR_UNSIGNED_BIT_PRECISE
  | KEFIR_AST_TYPE_COMPLEX_FLOATING_POINT | KEFIR_AST_TYPE_IMAGINARY_FLOATING_POINT
  | KEFIR_AST_TYPE_SCALAR_POINTER | KEFIR_AST_TYPE_ENUMERATION | KEFIR_AST_TYPE_STRUCTURE | KEFIR_AST_TYPE_UNION
  | KEFIR_AST_TYPE_ARRAY | KEFIR_AST_TYPE_FUNCTION | KEFIR_AST_TYPE_QUALIFIED

fun type_tag :: "ast_type \<Rightarrow> tag" where
  "type_tag (Scalar a) = BASIC_TAG a"
| "type_tag (SignedBitPrecise w) = KEFIR_AST_TYPE_SCALAR_SIGNED_BIT_PRECISE"
| "type_tag (UnsignedBitPrecise w) = KEFIR_AST_TYPE_SCALAR_UNSIGNED_BIT_PRECISE"
| "type_tag (ComplexFP t) = KEFIR_AST_TYPE_COMPLEX_FLOATING_POINT"
| "type_tag (ImaginaryFP t) = KEFIR_AST_TYPE_IMAGINARY_FLOATING_POINT"
| "type_tag (Pointer t) = KEFIR_AST_TYPE_SCALAR_POINTER"
| "type_tag (Enumeration h u es) = KEFIR_AST_TYPE_ENUMERATION"
| "type_tag (Structure h fs) = KEFIR_AST_TYPE_STRUCTURE"
| "type_tag (UnionType h fs) = KEFIR_AST_TYPE_UNION"
| "type_tag (Array e b q) = KEFIR_AST_TYPE_ARRAY"
| "type_tag (Function h r ps) = KEFIR_AST_TYPE_FUNCTION"
| "type_tag (Qualified q t) = KEFIR_AST_TYPE_QUALIFIED"

function compatible_basic_types :: "type_relation \<Rightarrow> type_relation" where
  "compatible_basic_types compatible t1 t2 =
     (case t1 of
        Enumeration h u es \<Rightarrow> compatible_basic_types compatible u t2
      | _ \<Rightarrow> (case t2 of
          Enumeration h u es \<Rightarrow> compatible_basic_types compatible t1 u
        | _ \<Rightarrow> type_tag t1 = type_tag t2 \<and>
            (case (t1, t2) of
               (SignedBitPrecise w1, SignedBitPrecise w2) \<Rightarrow> w1 = w2
             | (UnsignedBitPrecise w1, UnsignedBitPrecise w2) \<Rightarrow> w1 = w2
             | (ComplexFP r1, ComplexFP r2) \<Rightarrow> compatible r1 r2
             | (ImaginaryFP r1, ImaginaryFP r2) \<Rightarrow> compatible r1 r2
             | _ \<Rightarrow> True)))"
  by pat_completeness auto
termination by (relation "measure (\<lambda>(_, t1, t2). size t1 + size t2)") auto

declare compatible_basic_types.simps [simp del]

definition compatible_pointer_types :: "type_relation \<Rightarrow> type_relation" where
  "compatible_pointer_types compatible t1 t2 =
     (case (t1, t2) of (Pointer r1, Pointer r2) \<Rightarrow> compatible r1 r2 | _ \<Rightarrow> False)"

text \<open>The enumerator index maps identifiers to enumerators.\<close>

definition compatible_enumerators :: "enumerators \<Rightarrow> enumerators \<Rightarrow> bool" where
  "compatible_enumerators es1 es2 \<longleftrightarrow>
     length es1 = length es2 \<and>
     list_all (\<lambda>(n1, v1). case map_of es2 n1 of
         None \<Rightarrow> False
       | Some v2 \<Rightarrow> (case (v1, v2) of (Some x, Some y) \<Rightarrow> x = y | _ \<Rightarrow> v1 = None \<and> v2 = None)) es1"

definition compatible_enumeration_types :: type_relation where
  "compatible_enumeration_types t1 t2 =
     (if is_enumeration t1 \<and> KEFIR_AST_TYPE_SAME (kefir_ast_enumeration_underlying_type t1) t2 then True
      else if is_enumeration t2 \<and> KEFIR_AST_TYPE_SAME t1 (kefir_ast_enumeration_underlying_type t2) then True
      else case (t1, t2) of
        (Enumeration h1 u1 es1, Enumeration h2 u2 es2) \<Rightarrow>
          en_identifier h1 = en_identifier h2 \<and>
          (en_complete h1 \<and> en_complete h2 \<longrightarrow>
             en_alignment h1 = en_alignment h2 \<and> compatible_enumerators es1 es2)
      | _ \<Rightarrow> False)"

definition compatible_structure_types :: "type_relation \<Rightarrow> type_relation" where
  "compatible_structure_types compatible t1 t2 =
     (case (t1, t2) of
        (Structure h1 fs1, Structure h2 fs2) \<Rightarrow>
          st_identifier h1 = st_identifier h2 \<and>
          (st_complete h1 \<and> st_complete h2 \<longrightarrow>
             length fs1 = length fs2 \<and>
             list_all (\<lambda>(f1, f2).
                 field_identifier f1 = field_identifier f2 \<and> field_alignment f1 = field_alignment f2 \<and>
                 same_bitfield f1 f2 \<and> compatible (field_type f1) (field_type f2)) (zip fs1 fs2))
      | _ \<Rightarrow> False)"

text \<open>A named member is looked up in the index of the first union itself.\<close>

definition compatible_union_types :: "type_relation \<Rightarrow> type_relation" where
  "compatible_union_types compatible t1 t2 =
     (case (t1, t2) of
        (UnionType h1 fs1, UnionType h2 fs2) \<Rightarrow>
          st_identifier h1 = st_identifier h2 \<and> st_packed h1 = st_packed h2 \<and>
          (st_packed h1 = KEFIR_AST_STRUCT_NOPACK \<or> st_packed_member_alignment h1 = st_packed_member_alignment h2) \<and>
          st_aggregate_alignment h1 = st_aggregate_alignment h2 \<and>
          (st_complete h1 \<and> st_complete h2 \<longrightarrow>
             list_all (\<lambda>f1.
                 case field_identifier f1 of
                   Some n \<Rightarrow> (case map_of (field_index fs1) n of
                       None \<Rightarrow> False
                     | Some f2 \<Rightarrow> same_bitfield f1 f2 \<and> compatible (field_type f1) (field_type f2))
                 | None \<Rightarrow> list_ex (\<lambda>f2. field_identifier f2 = None \<and> same_bitfield f1 f2 \<and>
                       compatible (field_type f1) (field_type f2)) fs2) fs1 \<and>
             length fs1 = length fs2)
      | _ \<Rightarrow> False)"

fun is_bounded :: "array_boundary \<Rightarrow> bool" where
  "is_bounded (KEFIR_AST_ARRAY_BOUNDED n) = True"
| "is_bounded (KEFIR_AST_ARRAY_BOUNDED_STATIC n) = True"
| "is_bounded _ = False"

definition compatbile_array_types :: "type_relation \<Rightarrow> type_relation" where
  "compatbile_array_types compatible t1 t2 =
     (case (t1, t2) of
        (Array e1 b1 q1, Array e2 b2 q2) \<Rightarrow>
          compatible e1 e2 \<and>
          (is_bounded b1 \<and> is_bounded b2 \<longrightarrow>
             kefir_ast_type_array_const_length b1 = kefir_ast_type_array_const_length b2)
      | _ \<Rightarrow> False)"

text \<open>
  The adjusted type of a parameter without its qualifiers. A parameter of a prototype always has a
  type (\<^verbatim>\<open>kefir_ast_type_function_named_parameter\<close>); the code does not look at the parameters of an
  identifier list here.
\<close>

definition parameter_type :: "ast_type function_param \<Rightarrow> ast_type option" where
  "parameter_type p =
     map_option (\<lambda>t. kefir_ast_unqualified_type (kefir_ast_type_conv_adjust_function_parameter t)) (param_type p)"

definition parameter_list_unaffected_by_promotions ::
    "type_traits \<Rightarrow> type_relation \<Rightarrow> ast_type function_param list \<Rightarrow> bool" where
  "parameter_list_unaffected_by_promotions tr compatible ps =
     list_all (\<lambda>p. case parameter_type p of
         Some unqualified \<Rightarrow> (case kefir_ast_type_function_default_argument_promotion tr unqualified of
             Some promotion \<Rightarrow> compatible unqualified promotion
           | None \<Rightarrow> False)
       | None \<Rightarrow> False) ps"

definition compatible_function_types :: "type_traits \<Rightarrow> type_relation \<Rightarrow> type_relation" where
  "compatible_function_types tr compatible t1 t2 =
     (case (t1, t2) of
        (Function h1 r1 ps1, Function h2 r2 ps2) \<Rightarrow>
          compatible (kefir_ast_unqualified_type r1) (kefir_ast_unqualified_type r2) \<and>
          fn_returns_twice h1 = fn_returns_twice h2 \<and>
          (if fn_mode h1 = KEFIR_AST_FUNCTION_TYPE_PARAMETERS \<and> fn_mode h2 = KEFIR_AST_FUNCTION_TYPE_PARAMETERS then
             length ps1 = length ps2 \<and> fn_ellipsis h1 = fn_ellipsis h2 \<and>
             list_all (\<lambda>(p1, p2). case (parameter_type p1, parameter_type p2) of
                 (Some u1, Some u2) \<Rightarrow> compatible u1 u2
               | _ \<Rightarrow> False) (zip ps1 ps2)
           else if fn_mode h1 = KEFIR_AST_FUNCTION_TYPE_PARAMETERS then
             \<not> fn_ellipsis h1 \<and> parameter_list_unaffected_by_promotions tr compatible ps1
           else if fn_mode h2 = KEFIR_AST_FUNCTION_TYPE_PARAMETERS then
             \<not> fn_ellipsis h1 \<and> parameter_list_unaffected_by_promotions tr compatible ps2
           else True)
      | _ \<Rightarrow> False)"

definition compatbile_qualified_types :: "type_relation \<Rightarrow> type_relation" where
  "compatbile_qualified_types compatible t1 t2 =
     (case (t1, t2) of
        (Qualified q1 u1, Qualified q2 u2) \<Rightarrow>
          q_constant q1 = q_constant q2 \<and> q_restricted q1 = q_restricted q2 \<and>
          q_volatile_type q1 = q_volatile_type q2 \<and> q_atomic_type q1 = q_atomic_type q2 \<and> compatible u1 u2
      | (Qualified q1 u1, _) \<Rightarrow> KEFIR_AST_TYPE_IS_ZERO_QUALIFICATION q1 \<and> compatible u1 t2
      | _ \<Rightarrow> False)"

definition ops_compatible :: "type_traits \<Rightarrow> type_relation \<Rightarrow> type_relation" where
  "ops_compatible tr compatible t1 t2 =
     (case t1 of
        Pointer _ \<Rightarrow> compatible_pointer_types compatible t1 t2
      | Enumeration _ _ _ \<Rightarrow> compatible_enumeration_types t1 t2
      | Structure _ _ \<Rightarrow> compatible_structure_types compatible t1 t2
      | UnionType _ _ \<Rightarrow> compatible_union_types compatible t1 t2
      | Array _ _ _ \<Rightarrow> compatbile_array_types compatible t1 t2
      | Function _ _ _ \<Rightarrow> compatible_function_types tr compatible t1 t2
      | Qualified _ _ \<Rightarrow> compatbile_qualified_types compatible t1 t2
      | _ \<Rightarrow> compatible_basic_types compatible t1 t2)"

section \<open>Termination\<close>

text \<open>
  The promotion check compares a parameter of the second function with its own promotion, so that
  the first argument does not always shrink; the larger of the two sizes never grows.
\<close>

definition smaller :: "ast_type \<Rightarrow> ast_type \<Rightarrow> ast_type \<Rightarrow> ast_type \<Rightarrow> bool" where
  "smaller a b t1 t2 \<longleftrightarrow> max (size a) (size b) < max (size t1) (size t2) \<or>
     (max (size a) (size b) \<le> max (size t1) (size t2) \<and> size a + size b < size t1 + size t2)"

lemma smaller_both: "size a < size t1 \<Longrightarrow> size b < size t2 \<Longrightarrow> smaller a b t1 t2"
  by (auto simp: smaller_def)

lemma smaller_left: "size a < size t1 \<Longrightarrow> smaller a t2 t1 t2"
  by (auto simp: smaller_def)

lemma smaller_within: "size a < size t1 \<Longrightarrow> size b < size t1 \<Longrightarrow> smaller a b t1 t2"
  "size a < size t2 \<Longrightarrow> size b < size t2 \<Longrightarrow> smaller a b t1 t2"
  by (auto simp: smaller_def)

lemma size_zero_unqualified: "size (kefir_ast_zero_unqualified_type t) \<le> size t"
  by (cases t) auto

lemma size_unqualified: "size (kefir_ast_unqualified_type t) \<le> size t"
  by (cases t) auto

lemma size_adjusted: "size (kefir_ast_unqualified_type (kefir_ast_type_conv_adjust_function_parameter t)) \<le> Suc (size t)"
proof -
  have "size (kefir_ast_unqualified_type (kefir_ast_type_conv_adjust_function_parameter t)) \<le> Suc (size (kefir_ast_unqualified_type t))"
    using size_unqualified [of t]
    by (cases "kefir_ast_unqualified_type t")
      (auto simp: kefir_ast_type_conv_adjust_function_parameter_def Let_def)
  then show ?thesis using size_unqualified [of t] by linarith
qed

lemma size_parameter:
  assumes "p \<in> set ps" "parameter_type p = Some u"
  shows "size u < size (Function h r ps)"
proof -
  obtain t where t: "param_type p = Some t" "u = kefir_ast_unqualified_type (kefir_ast_type_conv_adjust_function_parameter t)"
    using assms(2) by (auto simp: parameter_type_def)
  show ?thesis unfolding t(2) by (rule le_less_trans [OF size_adjusted size_function_params [OF assms(1) t(1)]])
qed

lemma size_promotion:
  assumes "kefir_ast_type_function_default_argument_promotion tr t = Some t'"
  shows "size t' = size t"
proof (cases "KEFIR_AST_TYPE_IS_NONENUM_INTEGRAL_TYPE t")
  case True
  then have "\<not> is_enumeration t" by (cases t) (auto simp: type_macros)
  then have u: "kefir_ast_enumeration_underlying_type t = t" by (cases t) auto
  have "t' = t \<or> (\<exists>a b. t = Scalar a \<and> t' = Scalar b)"
    using assms True u
    by (cases t) (auto simp: kefir_ast_type_function_default_argument_promotion_def kefir_ast_type_int_promotion_def Let_def
        type_macros KEFIR_AST_BITFIELD_PROPERTIES_NONE_def split: if_splits sum.splits)
  then show ?thesis by auto
next
  case False
  then show ?thesis using assms
    by (auto simp: kefir_ast_type_function_default_argument_promotion_def split: if_splits)
qed


text \<open>Stripping the enumerations of both sides and comparing what is left.\<close>

fun strip_enumeration :: "ast_type \<Rightarrow> ast_type" where
  "strip_enumeration (Enumeration h u es) = strip_enumeration u"
| "strip_enumeration t = t"

definition compatible_stripped :: "type_relation \<Rightarrow> type_relation" where
  "compatible_stripped compatible t1 t2 \<longleftrightarrow> type_tag t1 = type_tag t2 \<and>
     (case (t1, t2) of
        (SignedBitPrecise w1, SignedBitPrecise w2) \<Rightarrow> w1 = w2
      | (UnsignedBitPrecise w1, UnsignedBitPrecise w2) \<Rightarrow> w1 = w2
      | (ComplexFP r1, ComplexFP r2) \<Rightarrow> compatible r1 r2
      | (ImaginaryFP r1, ImaginaryFP r2) \<Rightarrow> compatible r1 r2
      | _ \<Rightarrow> True)"

lemma compatible_basic_eq:
  "compatible_basic_types c t1 t2 = compatible_stripped c (strip_enumeration t1) (strip_enumeration t2)"
proof (induction "size t1 + size t2" arbitrary: t1 t2 rule: less_induct)
  case less
  note step = compatible_basic_types.simps [of c t1 t2]
  show ?case
  proof (cases "is_enumeration t1")
    case True
    then obtain h u es where t1: "t1 = Enumeration h u es" by (cases t1) auto
    have "compatible_basic_types c u t2 = compatible_stripped c (strip_enumeration u) (strip_enumeration t2)"
      by (rule less.hyps) (simp add: t1)
    then show ?thesis using step t1 by simp
  next
    case n1: False
    show ?thesis
    proof (cases "is_enumeration t2")
      case True
      then obtain h u es where t2: "t2 = Enumeration h u es" by (cases t2) auto
      have "compatible_basic_types c t1 u = compatible_stripped c (strip_enumeration t1) (strip_enumeration u)"
        by (rule less.hyps) (simp add: t2)
      moreover have "compatible_basic_types c t1 t2 = compatible_basic_types c t1 u"
        using step n1 t2 by (cases t1) simp_all
      ultimately show ?thesis using t2 by simp
    next
      case n2: False
      have "strip_enumeration t1 = t1" using n1 by (cases t1) simp_all
      moreover have "strip_enumeration t2 = t2" using n2 by (cases t2) simp_all
      moreover have "compatible_basic_types c t1 t2 = compatible_stripped c t1 t2"
        using step n1 n2 by (cases t1; cases t2; simp add: compatible_stripped_def; fail)
      ultimately show ?thesis by simp
    qed
  qed
qed

lemma size_strip: "size (strip_enumeration t) \<le> size t"
  by (induction t) auto

lemma smaller_mono: "smaller a b t1 t2 \<Longrightarrow> size t1 \<le> size u1 \<Longrightarrow> size t2 \<le> size u2 \<Longrightarrow> smaller a b u1 u2"
  by (auto simp: smaller_def)

lemma compatible_basic_cong:
  assumes "\<And>a b. smaller a b t1 t2 \<Longrightarrow> c a b = c' a b"
  shows "compatible_basic_types c t1 t2 = compatible_basic_types c' t1 t2"
proof -
  have "c a b = c' a b" if "smaller a b (strip_enumeration t1) (strip_enumeration t2)" for a b
    using assms smaller_mono [OF that size_strip size_strip] .
  moreover have "smaller a b (ComplexFP a) (ComplexFP b)" "smaller a b (ImaginaryFP a) (ImaginaryFP b)" for a b
    by (simp_all add: smaller_both)
  ultimately show ?thesis
    unfolding compatible_basic_eq compatible_stripped_def
    by (cases "strip_enumeration t1"; cases "strip_enumeration t2"; simp; fail)
qed


lemma list_all_zip_cong2:
  assumes "\<And>x y. x \<in> set xs \<Longrightarrow> y \<in> set ys \<Longrightarrow> P x y = Q x y"
  shows "list_all (\<lambda>(x, y). P x y) (zip xs ys) = list_all (\<lambda>(x, y). Q x y) (zip xs ys)"
proof (rule list.pred_cong [OF refl])
  fix z assume "z \<in> set (zip xs ys)"
  then obtain x y where "z = (x, y)" "x \<in> set xs" "y \<in> set ys"
    by (metis prod.exhaust set_zip_leftD set_zip_rightD)
  then show "(case z of (x, y) \<Rightarrow> P x y) = (case z of (x, y) \<Rightarrow> Q x y)" using assms by simp
qed

lemma compatible_structure_cong:
  assumes "\<And>f1 f2. f1 \<in> set fs1 \<Longrightarrow> f2 \<in> set fs2 \<Longrightarrow> c (field_type f1) (field_type f2) = c' (field_type f1) (field_type f2)"
  shows "compatible_structure_types c (Structure h1 fs1) (Structure h2 fs2) =
    compatible_structure_types c' (Structure h1 fs1) (Structure h2 fs2)"
proof -
  have "list_all (\<lambda>(f1, f2). field_identifier f1 = field_identifier f2 \<and> field_alignment f1 = field_alignment f2 \<and>
        same_bitfield f1 f2 \<and> c (field_type f1) (field_type f2)) (zip fs1 fs2) =
      list_all (\<lambda>(f1, f2). field_identifier f1 = field_identifier f2 \<and> field_alignment f1 = field_alignment f2 \<and>
        same_bitfield f1 f2 \<and> c' (field_type f1) (field_type f2)) (zip fs1 fs2)"
    by (rule list_all_zip_cong2) (simp add: assms)
  then show ?thesis by (simp add: compatible_structure_types_def)
qed

lemma compatible_union_cong:
  assumes "\<And>f1 f2. f1 \<in> set fs1 \<Longrightarrow> f2 \<in> set fs1 \<union> set fs2 \<Longrightarrow> c (field_type f1) (field_type f2) = c' (field_type f1) (field_type f2)"
  shows "compatible_union_types c (UnionType h1 fs1) (UnionType h2 fs2) =
    compatible_union_types c' (UnionType h1 fs1) (UnionType h2 fs2)"
proof -
  have idx: "f2 \<in> set fs1" if "map_of (field_index fs1) n = Some f2" for n f2
    using map_of_SomeD [OF that] by (simp add: in_field_index)
  have "(case field_identifier f1 of
           Some n \<Rightarrow> (case map_of (field_index fs1) n of None \<Rightarrow> False
             | Some f2 \<Rightarrow> same_bitfield f1 f2 \<and> c (field_type f1) (field_type f2))
         | None \<Rightarrow> list_ex (\<lambda>f2. field_identifier f2 = None \<and> same_bitfield f1 f2 \<and> c (field_type f1) (field_type f2)) fs2) =
        (case field_identifier f1 of
           Some n \<Rightarrow> (case map_of (field_index fs1) n of None \<Rightarrow> False
             | Some f2 \<Rightarrow> same_bitfield f1 f2 \<and> c' (field_type f1) (field_type f2))
         | None \<Rightarrow> list_ex (\<lambda>f2. field_identifier f2 = None \<and> same_bitfield f1 f2 \<and> c' (field_type f1) (field_type f2)) fs2)"
    if "f1 \<in> set fs1" for f1
    using that idx assms by (auto simp: list_ex_iff split: option.splits)
  then have "list_all (\<lambda>f1. case field_identifier f1 of
           Some n \<Rightarrow> (case map_of (field_index fs1) n of None \<Rightarrow> False
             | Some f2 \<Rightarrow> same_bitfield f1 f2 \<and> c (field_type f1) (field_type f2))
         | None \<Rightarrow> list_ex (\<lambda>f2. field_identifier f2 = None \<and> same_bitfield f1 f2 \<and> c (field_type f1) (field_type f2)) fs2) fs1 =
      list_all (\<lambda>f1. case field_identifier f1 of
           Some n \<Rightarrow> (case map_of (field_index fs1) n of None \<Rightarrow> False
             | Some f2 \<Rightarrow> same_bitfield f1 f2 \<and> c' (field_type f1) (field_type f2))
         | None \<Rightarrow> list_ex (\<lambda>f2. field_identifier f2 = None \<and> same_bitfield f1 f2 \<and> c' (field_type f1) (field_type f2)) fs2) fs1"
    by (rule list.pred_cong [OF refl])
  then show ?thesis by (simp add: compatible_union_types_def)
qed

lemma unaffected_cong:
  assumes "\<And>p u v. p \<in> set ps \<Longrightarrow> parameter_type p = Some u \<Longrightarrow> size v = size u \<Longrightarrow> c u v = c' u v"
  shows "parameter_list_unaffected_by_promotions tr c ps = parameter_list_unaffected_by_promotions tr c' ps"
  unfolding parameter_list_unaffected_by_promotions_def
  by (rule list.pred_cong [OF refl]) (auto simp: assms size_promotion split: option.splits)

lemma compatible_function_cong:
  assumes "\<And>a b. smaller a b (Function h1 r1 ps1) (Function h2 r2 ps2) \<Longrightarrow> c a b = c' a b"
  shows "compatible_function_types tr c (Function h1 r1 ps1) (Function h2 r2 ps2) =
    compatible_function_types tr c' (Function h1 r1 ps1) (Function h2 r2 ps2)"
proof -
  let ?t1 = "Function h1 r1 ps1" and ?t2 = "Function h2 r2 ps2"
  have r: "size (kefir_ast_unqualified_type r1) < size ?t1" "size (kefir_ast_unqualified_type r2) < size ?t2"
    using size_unqualified [of r1] size_unqualified [of r2] by (simp_all add: less_Suc_eq_le trans_le_add1 trans_le_add2)
  have "list_all (\<lambda>(p1, p2). case (parameter_type p1, parameter_type p2) of (Some u1, Some u2) \<Rightarrow> c u1 u2 | _ \<Rightarrow> False) (zip ps1 ps2) =
      list_all (\<lambda>(p1, p2). case (parameter_type p1, parameter_type p2) of (Some u1, Some u2) \<Rightarrow> c' u1 u2 | _ \<Rightarrow> False) (zip ps1 ps2)"
  proof (rule list_all_zip_cong2)
    fix p1 p2 assume p: "p1 \<in> set ps1" "p2 \<in> set ps2"
    have "c u1 u2 = c' u1 u2" if "parameter_type p1 = Some u1" "parameter_type p2 = Some u2" for u1 u2
      using size_parameter [OF p(1) that(1)] size_parameter [OF p(2) that(2)] by (intro assms smaller_both)
    then show "(case (parameter_type p1, parameter_type p2) of (Some u1, Some u2) \<Rightarrow> c u1 u2 | _ \<Rightarrow> False) =
        (case (parameter_type p1, parameter_type p2) of (Some u1, Some u2) \<Rightarrow> c' u1 u2 | _ \<Rightarrow> False)"
      by (auto split: option.splits)
  qed
  moreover have "parameter_list_unaffected_by_promotions tr c ps1 = parameter_list_unaffected_by_promotions tr c' ps1"
    by (rule unaffected_cong, rule assms, rule smaller_within(1)) (metis size_parameter)+
  moreover have "parameter_list_unaffected_by_promotions tr c ps2 = parameter_list_unaffected_by_promotions tr c' ps2"
    by (rule unaffected_cong, rule assms, rule smaller_within(2)) (metis size_parameter)+
  moreover have "c (kefir_ast_unqualified_type r1) (kefir_ast_unqualified_type r2) = c' (kefir_ast_unqualified_type r1) (kefir_ast_unqualified_type r2)"
    using r by (intro assms smaller_both)
  ultimately show ?thesis by (simp add: compatible_function_types_def)
qed

lemma ops_compatible_cong [fundef_cong]:
  assumes "t1 = t1'" and "t2 = t2'" and IH: "\<And>a b. smaller a b t1' t2' \<Longrightarrow> c a b = c' a b"
  shows "ops_compatible tr c t1 t2 = ops_compatible tr c' t1' t2'"
  unfolding assms(1,2)
proof (cases t1')
  case (Structure h1 fs1)
  show "ops_compatible tr c t1' t2' = ops_compatible tr c' t1' t2'"
  proof (cases t2')
    case s2: (Structure h2 fs2)
    have "smaller (field_type f1) (field_type f2) t1' t2'" if "f1 \<in> set fs1" "f2 \<in> set fs2" for f1 f2
      unfolding Structure s2 by (intro smaller_both size_struct_fields(1) that)
    then have "c (field_type f1) (field_type f2) = c' (field_type f1) (field_type f2)" if "f1 \<in> set fs1" "f2 \<in> set fs2" for f1 f2
      using IH that by blast
    then show ?thesis using compatible_structure_cong [of fs1 fs2 c c' h1 h2] Structure s2 by (simp add: ops_compatible_def)
  qed (simp_all add: ops_compatible_def Structure compatible_structure_types_def)
next
  case (UnionType h1 fs1)
  show "ops_compatible tr c t1' t2' = ops_compatible tr c' t1' t2'"
  proof (cases t2')
    case s2: (UnionType h2 fs2)
    have "smaller (field_type f1) (field_type f2) t1' t2'" if "f1 \<in> set fs1" "f2 \<in> set fs1 \<union> set fs2" for f1 f2
      using that size_struct_fields(2) [of f1 fs1 h1] size_struct_fields(2) [of f2 fs1 h1] size_struct_fields(2) [of f2 fs2 h2]
        UnionType s2 by (auto intro: smaller_both smaller_within(1))
    then have "c (field_type f1) (field_type f2) = c' (field_type f1) (field_type f2)"
      if "f1 \<in> set fs1" "f2 \<in> set fs1 \<union> set fs2" for f1 f2
      using that IH by blast
    then show ?thesis using compatible_union_cong [of fs1 fs2 c c' h1 h2] UnionType s2 by (simp add: ops_compatible_def)
  qed (simp_all add: ops_compatible_def UnionType compatible_union_types_def)
next
  case (Function h1 r1 ps1)
  show "ops_compatible tr c t1' t2' = ops_compatible tr c' t1' t2'"
  proof (cases t2')
    case s2: (Function h2 r2 ps2)
    then show ?thesis using compatible_function_cong [of h1 r1 ps1 h2 r2 ps2 c c' tr] IH Function by (simp add: ops_compatible_def)
  qed (simp_all add: ops_compatible_def Function compatible_function_types_def)
next
  case (Array e b q)
  then show "ops_compatible tr c t1' t2' = ops_compatible tr c' t1' t2'"
    using IH by (cases t2') (simp_all add: ops_compatible_def compatbile_array_types_def smaller_both)
next
  case (Qualified q u)
  then show "ops_compatible tr c t1' t2' = ops_compatible tr c' t1' t2'"
    using IH by (cases t2') (simp_all add: ops_compatible_def compatbile_qualified_types_def smaller_both smaller_left)
next
  case (Pointer r)
  then show "ops_compatible tr c t1' t2' = ops_compatible tr c' t1' t2'"
    using IH by (cases t2') (simp_all add: ops_compatible_def compatible_pointer_types_def smaller_both)
qed (use compatible_basic_cong [of t1' t2' c c'] IH in \<open>simp_all add: ops_compatible_def\<close>)

function KEFIR_AST_TYPE_COMPATIBLE :: "type_traits \<Rightarrow> type_relation" where
  "KEFIR_AST_TYPE_COMPATIBLE tr t1 t2 \<longleftrightarrow>
     KEFIR_AST_TYPE_SAME t1 (kefir_ast_zero_unqualified_type t2) \<or>
     ops_compatible tr (KEFIR_AST_TYPE_COMPATIBLE tr) t1 (kefir_ast_zero_unqualified_type t2)"
  by pat_completeness auto
termination
proof (relation "measures [\<lambda>(tr, t1, t2). max (size t1) (size t2), \<lambda>(tr, t1, t2). size t1 + size t2]")
  fix tr :: type_traits and t1 t2 a b
  assume "smaller a b t1 (kefir_ast_zero_unqualified_type t2)"
  then have "smaller a b t1 t2" using smaller_mono size_zero_unqualified by blast
  then show "((tr, a, b), (tr, t1, t2)) \<in> measures [\<lambda>(tr, t1, t2). max (size t1) (size t2), \<lambda>(tr, t1, t2). size t1 + size t2]"
    by (auto simp: smaller_def)
qed simp

declare KEFIR_AST_TYPE_COMPATIBLE.simps [simp del]


section \<open>Definitions against declarations\<close>

fun function_params :: "ast_type \<Rightarrow> ast_type function_param list" where
  "function_params (Function h r ps) = ps"
| "function_params _ = []"

fun function_head_of :: "ast_type \<Rightarrow> function_head option" where
  "function_head_of (Function h r ps) = Some h"
| "function_head_of _ = None"

definition kefir_ast_type_function_defintion_compatible :: "type_traits \<Rightarrow> ast_type \<Rightarrow> ast_type \<Rightarrow> bool" where
  "kefir_ast_type_function_defintion_compatible tr declaration_type definition_type =
     (if \<not> compatible_function_types tr (KEFIR_AST_TYPE_COMPATIBLE tr) declaration_type definition_type then False
      else
        let decl = function_params declaration_type; defn = function_params definition_type in
        if map_option fn_mode (function_head_of declaration_type) = Some KEFIR_AST_FUNCTION_TYPE_PARAMETERS \<and>
           length decl \<noteq> length defn then
          (if length decl = 1 \<and> length defn = 0 then param_type (decl ! 0) = Some (Scalar KEFIR_AST_TYPE_VOID) else False)
        else True)"

section \<open>Members and enumerators\<close>

text \<open>
  A structure under construction is the list of its members; the index is computed from it. Lookups
  are by a name that is not null; the default alignment is 0.
\<close>

definition kefir_ast_struct_type_field_impl ::
    "ast_type struct_field list \<Rightarrow> string option \<Rightarrow> ast_type \<Rightarrow> nat option \<Rightarrow> bool \<Rightarrow> nat \<Rightarrow> ast_type struct_field list result" where
  "kefir_ast_struct_type_field_impl fs identifier t alignment bitfield bitwidth =
     (if identifier = Some [] then Inl KEFIR_INVALID_PARAMETER
      else if (case identifier of None \<Rightarrow> False | Some n \<Rightarrow> map_of (field_index fs) n \<noteq> None) then Inl KEFIR_INVALID_CHANGE
      else Inr (fs @ [StructField identifier t (case alignment of Some a \<Rightarrow> a | None \<Rightarrow> 0) bitfield bitwidth False]))"

definition kefir_ast_struct_type_field ::
    "ast_type struct_field list \<Rightarrow> string option \<Rightarrow> ast_type \<Rightarrow> nat option \<Rightarrow> ast_type struct_field list result" where
  "kefir_ast_struct_type_field fs identifier t alignment = kefir_ast_struct_type_field_impl fs identifier t alignment False 0"

definition kefir_ast_struct_type_bitfield ::
    "ast_type struct_field list \<Rightarrow> string option \<Rightarrow> ast_type \<Rightarrow> nat option \<Rightarrow> nat \<Rightarrow> ast_type struct_field list result" where
  "kefir_ast_struct_type_bitfield fs identifier t alignment bitwidth =
     kefir_ast_struct_type_field_impl fs identifier t alignment True bitwidth"

definition kefir_ast_struct_type_last_field :: "ast_type struct_field list \<Rightarrow> ast_type struct_field option" where
  "kefir_ast_struct_type_last_field fs = (if fs = [] then None else Some (last fs))"

fun struct_parts :: "ast_type \<Rightarrow> (struct_head \<times> ast_type struct_field list) option" where
  "struct_parts (Structure h fs) = Some (h, fs)"
| "struct_parts (UnionType h fs) = Some (h, fs)"
| "struct_parts _ = None"

definition kefir_ast_struct_type_get_field ::
    "struct_head \<Rightarrow> ast_type struct_field list \<Rightarrow> string \<Rightarrow> ast_type struct_field result" where
  "kefir_ast_struct_type_get_field h fs identifier =
     (if identifier = [] \<or> \<not> st_complete h then Inl KEFIR_INVALID_PARAMETER
      else case map_of (field_index fs) identifier of None \<Rightarrow> Inl KEFIR_NOT_FOUND | Some f \<Rightarrow> Inr f)"

lemma size_struct_parts:
  "Some (h, gs) = struct_parts (field_type f) \<Longrightarrow> size_list (size_struct_field size) gs < size_struct_field size f"
  by (cases f; cases "field_type f") auto

text \<open>
  The search for a member descends into the unnamed structures and unions, in order, while the
  answer is that there is none; \<^verbatim>\<open>resolve_fields\<close> is the loop over the members.
\<close>

function kefir_ast_struct_type_resolve_field ::
    "struct_head \<Rightarrow> ast_type struct_field list \<Rightarrow> string \<Rightarrow> ast_type struct_field result"
  and resolve_fields :: "ast_type struct_field list \<Rightarrow> string \<Rightarrow> ast_type struct_field result" where
  "kefir_ast_struct_type_resolve_field h fs identifier =
     (if identifier = [] \<or> \<not> st_complete h then Inl KEFIR_INVALID_PARAMETER
      else case map_of (field_index fs) identifier of
        Some f \<Rightarrow> Inr f
      | None \<Rightarrow> resolve_fields fs identifier)"
| "resolve_fields [] identifier = Inl KEFIR_NOT_FOUND"
| "resolve_fields (f # fs) identifier =
     (case (field_identifier f, struct_parts (field_type f)) of
        (None, Some (h, gs)) \<Rightarrow>
          (case kefir_ast_struct_type_resolve_field h gs identifier of
             Inr g \<Rightarrow> Inr g
           | Inl e \<Rightarrow> if e = KEFIR_NOT_FOUND then resolve_fields fs identifier else Inl e)
      | _ \<Rightarrow> resolve_fields fs identifier)"
  by pat_completeness auto
termination
  by (relation "measure (\<lambda>x. case x of
        Inl (h, fs, _) \<Rightarrow> 2 * size_list (size_struct_field size) fs + 1
      | Inr (fs, _) \<Rightarrow> 2 * size_list (size_struct_field size) fs)")
    (auto dest: size_struct_parts)

declare kefir_ast_struct_type_resolve_field.simps [simp del]

definition kefir_ast_enumeration_type_constant_impl ::
    "enumerators \<Rightarrow> string \<Rightarrow> int option \<Rightarrow> enumerators result" where
  "kefir_ast_enumeration_type_constant_impl es identifier v =
     (if map_of es identifier \<noteq> None then Inl KEFIR_INVALID_CHANGE else Inr (es @ [(identifier, v)]))"

definition kefir_ast_enumeration_type_constant :: "enumerators \<Rightarrow> string \<Rightarrow> int \<Rightarrow> enumerators result" where
  "kefir_ast_enumeration_type_constant es identifier v =
     (if identifier = [] then Inl KEFIR_INVALID_PARAMETER
      else kefir_ast_enumeration_type_constant_impl es identifier (Some v))"

definition kefir_ast_enumeration_type_constant_auto :: "enumerators \<Rightarrow> string \<Rightarrow> enumerators result" where
  "kefir_ast_enumeration_type_constant_auto es identifier =
     (if identifier = [] then Inl KEFIR_INVALID_PARAMETER
      else kefir_ast_enumeration_type_constant_impl es identifier None)"

definition kefir_ast_enumeration_get :: "enumerators \<Rightarrow> string \<Rightarrow> int option result" where
  "kefir_ast_enumeration_get es identifier =
     (if identifier = [] then Inl KEFIR_INVALID_PARAMETER
      else case map_of es identifier of None \<Rightarrow> Inl KEFIR_NOT_FOUND | Some v \<Rightarrow> Inr v)"

text \<open>Parameters of a function under construction, with the mode that the first parameter fixes.\<close>

definition kefir_ast_type_function_named_parameter ::
    "function_head \<Rightarrow> ast_type function_param list \<Rightarrow> ast_type option \<Rightarrow> nat option \<Rightarrow>
       (function_head \<times> ast_type function_param list) result" where
  "kefir_ast_type_function_named_parameter h ps t storage =
     bindE (case fn_mode h of
        KEFIR_AST_FUNCTION_TYPE_PARAMETERS \<Rightarrow>
          (if t \<noteq> None then Inr KEFIR_AST_FUNCTION_TYPE_PARAMETERS else Inl KEFIR_INVALID_PARAMETER)
      | KEFIR_AST_FUNCTION_TYPE_PARAM_IDENTIFIERS \<Rightarrow>
          (if t = None then Inr KEFIR_AST_FUNCTION_TYPE_PARAM_IDENTIFIERS else Inl KEFIR_INVALID_PARAMETER)
      | KEFIR_AST_FUNCTION_TYPE_PARAM_EMPTY \<Rightarrow>
          Inr (if t \<noteq> None then KEFIR_AST_FUNCTION_TYPE_PARAMETERS else KEFIR_AST_FUNCTION_TYPE_PARAM_IDENTIFIERS))
     (\<lambda>mode. Inr (h\<lparr>fn_mode := mode\<rparr>, ps @ [FunctionParam t storage]))"

definition kefir_ast_type_function_get_parameter :: "ast_type function_param list \<Rightarrow> nat \<Rightarrow> ast_type function_param result" where
  "kefir_ast_type_function_get_parameter ps index =
     (if index < length ps then Inr (ps ! index) else Inl KEFIR_OUT_OF_BOUNDS)"

definition kefir_ast_type_function_ellipsis :: "function_head \<Rightarrow> bool \<Rightarrow> function_head" where
  "kefir_ast_type_function_ellipsis h ellipsis = h\<lparr>fn_ellipsis := ellipsis\<rparr>"

end
