(* ===== verification/Kefir_Bigint.thy ===== *)
theory Kefir_Bigint
  imports Kefir_Prelude
begin

text \<open>
  Arithmetic on integers of arbitrary bit width: the digit routines of \<^verbatim>\<open>headers/kefir_bigint/*.h\<close>, which
  the compiler uses for constant evaluation and links into programs for wide \<^verbatim>\<open>_BitInt\<close> types. A number is
  a little-endian array of 8-bit digits (\<^verbatim>\<open>__KEFIR_BIGINT_DIGIT_T\<close>) that may be longer than the width
  asks for; a routine leaves the digits beyond its width alone. Digit sums are computed in 32 bits
  (\<^verbatim>\<open>__KEFIR_BIGINT_UINT_T\<close>), native values have 64 bits. Widths, shifts and indices, 64-bit in the code, are natural
  numbers: a width is bounded by the size of the array. Each loop is a recursion on the number of iterations
  that are left; loops over one index that touch only the digits at that index consume the arrays from the front.
\<close>

unbundle bit_operations_syntax

section \<open>Base (base.h)\<close>

type_synonym digits = "8 word list"

datatype bigint_result = BIGINT_OK | BIGINT_DIVISION_BY_ZERO

definition DIGIT_BIT :: nat where
  "DIGIT_BIT = 8"

definition VALUE_BIT :: nat where
  "VALUE_BIT = 64"

definition BITS_TO_DIGITS :: "nat \<Rightarrow> nat" where
  "BITS_TO_DIGITS bits = (bits + DIGIT_BIT - 1) div DIGIT_BIT"

text \<open>The expression \<^verbatim>\<open>(1ull << offset) - 1\<close>, stored in 32 bits and applied to a digit.\<close>

definition low_mask :: "nat \<Rightarrow> 8 word" where
  "low_mask offset = ucast (ucast (push_bit offset 1 - 1 :: 64 word) :: 32 word)"

text \<open>The expression \<^verbatim>\<open>(digit >> offset) & 1\<close>.\<close>

definition digit_bit :: "8 word \<Rightarrow> nat \<Rightarrow> bool" where
  "digit_bit digit offset \<longleftrightarrow> drop_bit offset digit AND 1 \<noteq> 0"

section \<open>Casts (cast.h)\<close>

text \<open>
  Setting or clearing the bits of a digit from an offset on, as the signed routines do; the mask
  includes the sign bit itself.
\<close>

definition extend_sign_from :: "bool \<Rightarrow> nat \<Rightarrow> 8 word \<Rightarrow> 8 word" where
  "extend_sign_from msb offset digit = (if msb then digit OR NOT (low_mask offset) else digit AND low_mask offset)"

definition fill_digits :: "digits \<Rightarrow> nat \<Rightarrow> nat \<Rightarrow> 8 word \<Rightarrow> digits" where
  "fill_digits digits from to v = fold (\<lambda>i ds. ds[i := v]) [from..<Suc to] digits"

definition bigint_cast_signed :: "digits \<Rightarrow> nat \<Rightarrow> nat \<Rightarrow> digits" where
  "bigint_cast_signed digits current_width desired_width =
     (let desired_msb_location = desired_width - 1;
          desired_msb_digit_index = desired_msb_location div DIGIT_BIT;
          desired_msb_bit_offset = desired_msb_location - desired_msb_digit_index * DIGIT_BIT
      in if desired_width \<le> current_width then
           (let desired_msb = digit_bit (digits ! desired_msb_digit_index) desired_msb_bit_offset
            in digits[desired_msb_digit_index :=
                 extend_sign_from desired_msb desired_msb_bit_offset (digits ! desired_msb_digit_index)])
         else if current_width = 0 then fill_digits digits 0 desired_msb_digit_index 0
         else
           (let current_msb_location = current_width - 1;
                current_msb_digit_index = current_msb_location div DIGIT_BIT;
                current_msb_bit_offset = current_msb_location - current_msb_digit_index * DIGIT_BIT;
                current_msb = digit_bit (digits ! current_msb_digit_index) current_msb_bit_offset;
                extended = (if current_msb_bit_offset + 1 < DIGIT_BIT
                            then digits[current_msb_digit_index :=
                                   extend_sign_from current_msb current_msb_bit_offset (digits ! current_msb_digit_index)]
                            else digits)
            in fill_digits extended (current_msb_digit_index + 1) desired_msb_digit_index
                 (if current_msb then NOT 0 else 0)))"

definition bigint_cast_unsigned :: "digits \<Rightarrow> nat \<Rightarrow> nat \<Rightarrow> digits" where
  "bigint_cast_unsigned digits current_width desired_width =
     (let desired_msb_location = desired_width - 1;
          desired_msb_digit_index = desired_msb_location div DIGIT_BIT;
          desired_msb_bit_offset = desired_width - desired_msb_digit_index * DIGIT_BIT
      in if desired_width \<le> current_width then
           digits[desired_msb_digit_index := digits ! desired_msb_digit_index AND low_mask desired_msb_bit_offset]
         else if current_width = 0 then fill_digits digits 0 desired_msb_digit_index 0
         else
           (let current_msb_location = current_width - 1;
                current_msb_digit_index = current_msb_location div DIGIT_BIT;
                current_msb_bit_offset = current_width - current_msb_digit_index * DIGIT_BIT;
                masked = (if current_msb_bit_offset < DIGIT_BIT
                          then digits[current_msb_digit_index :=
                                 digits ! current_msb_digit_index AND low_mask current_msb_bit_offset]
                          else digits)
            in fill_digits masked (current_msb_digit_index + 1) desired_msb_digit_index 0))"

section \<open>Initialisation (init.h)\<close>

primrec store_digits :: "nat \<Rightarrow> 64 word \<Rightarrow> digits \<Rightarrow> digits" where
  "store_digits 0 value digits = digits"
| "store_digits (Suc n) value digits = ucast value # store_digits n (drop_bit DIGIT_BIT value) (tl digits)"

definition bigint_set_signed_integer :: "digits \<Rightarrow> nat \<Rightarrow> 64 word \<Rightarrow> digits" where
  "bigint_set_signed_integer digits width value =
     (if width = 0 then digits
      else let fit_width = (if width > VALUE_BIT then VALUE_BIT else width);
               stored = store_digits (BITS_TO_DIGITS fit_width) value digits
           in if fit_width < width then bigint_cast_signed stored fit_width width else stored)"

definition bigint_set_unsigned_integer :: "digits \<Rightarrow> nat \<Rightarrow> 64 word \<Rightarrow> digits" where
  "bigint_set_unsigned_integer digits width value =
     (if width = 0 then digits
      else let fit_width = (if width > VALUE_BIT then VALUE_BIT else width);
               stored = store_digits (BITS_TO_DIGITS fit_width) value digits
           in if fit_width < width then bigint_cast_unsigned stored fit_width width else stored)"

definition bigint_zero :: "digits \<Rightarrow> nat \<Rightarrow> digits" where
  "bigint_zero digits width = replicate (BITS_TO_DIGITS width) 0 @ drop (BITS_TO_DIGITS width) digits"

definition bigint_copy :: "digits \<Rightarrow> digits \<Rightarrow> nat \<Rightarrow> digits" where
  "bigint_copy dst_digits src_digits width =
     take (BITS_TO_DIGITS width) src_digits @ drop (BITS_TO_DIGITS width) dst_digits"

text \<open>The end of the chunk of bits that starts at \<open>iter\<close> and lies within one digit.\<close>

definition chunk_end :: "nat \<Rightarrow> nat \<Rightarrow> nat" where
  "chunk_end iter end_bit =
     (let e = (if iter mod DIGIT_BIT \<noteq> 0 then (iter + DIGIT_BIT - 1) div DIGIT_BIT * DIGIT_BIT else iter + DIGIT_BIT)
      in if e > end_bit then end_bit else e)"

lemma chunk_end_greater: "iter < end_bit \<Longrightarrow> iter < chunk_end iter end_bit"
proof -
  assume "iter < end_bit"
  moreover have "iter < (7 + iter) div 8 * 8" if "iter mod 8 \<noteq> 0" using that by presburger
  ultimately show ?thesis by (auto simp: chunk_end_def DIGIT_BIT_def Let_def)
qed

function set_bits_loop :: "digits \<Rightarrow> 64 word \<Rightarrow> nat \<Rightarrow> nat \<Rightarrow> digits" where
  "set_bits_loop digits value iter end_bit =
     (if iter < end_bit then
        (let e = chunk_end iter end_bit;
             chunk_width = e - iter;
             chunk = ucast value AND low_mask chunk_width;
             target_index = iter div DIGIT_BIT;
             target_offset = iter - target_index * DIGIT_BIT;
             digits' = (if chunk_width < DIGIT_BIT
                then digits[target_index := (digits ! target_index AND NOT (push_bit target_offset (low_mask chunk_width)))
                              OR push_bit target_offset chunk]
                else digits[target_index := push_bit target_offset chunk])
         in set_bits_loop digits' (drop_bit chunk_width value) e end_bit)
      else digits)"
  by pat_completeness auto
termination
  by (relation "measure (\<lambda>(digits, value, iter, end_bit). end_bit - iter)")
    (auto dest: chunk_end_greater simp: chunk_end_def Let_def)

declare set_bits_loop.simps [simp del]

definition bigint_set_bits :: "digits \<Rightarrow> 64 word \<Rightarrow> nat \<Rightarrow> nat \<Rightarrow> nat \<Rightarrow> digits" where
  "bigint_set_bits digits value offset len width =
     (if width = 0 \<or> offset \<ge> width then digits
      else set_bits_loop digits value offset (if offset + len > width then width else offset + len))"

section \<open>Reading (get.h)\<close>

primrec native_signed_loop :: "64 word \<Rightarrow> 64 word \<Rightarrow> 64 word \<Rightarrow> nat \<Rightarrow> nat" where
  "native_signed_loop msb_mask msb uvalue 0 = 0"
| "native_signed_loop msb_mask msb uvalue (Suc bits) =
     (if Suc bits > 1 \<and> uvalue AND msb_mask = msb then native_signed_loop msb_mask msb (push_bit 1 uvalue) bits
      else Suc bits)"

definition bigint_native_signed_width :: "64 word \<Rightarrow> nat" where
  "bigint_native_signed_width value =
     (let msb_mask = push_bit (VALUE_BIT - 1) 1
      in native_signed_loop msb_mask (value AND msb_mask) value (VALUE_BIT + 1))"

function native_unsigned_loop :: "64 word \<Rightarrow> nat \<Rightarrow> nat" where
  "native_unsigned_loop value bits =
     (if value \<noteq> 0 then native_unsigned_loop (drop_bit 1 value) (bits + 1) else bits)"
  by pat_completeness auto
termination
proof (relation "measure (\<lambda>(value, bits). unat value)")
  fix v :: "64 word" and b :: nat
  assume "v \<noteq> 0"
  then have "unat v \<noteq> 0" by (simp add: unat_eq_0)
  then have "unat v div 2 < unat v" by simp
  then show "((drop_bit 1 v, b + 1), (v, b)) \<in> measure (\<lambda>(v, b). unat v)"
    by (simp add: drop_bit_eq_div unat_div)
qed simp

declare native_unsigned_loop.simps [simp del]

definition bigint_native_unsigned_width :: "64 word \<Rightarrow> nat" where
  "bigint_native_unsigned_width value =
     (let bits = native_unsigned_loop value 0 in if bits = 0 then 1 else bits)"

primrec load_digits :: "nat \<Rightarrow> 64 word \<Rightarrow> digits \<Rightarrow> 64 word" where
  "load_digits 0 value digits = value"
| "load_digits (Suc i) value digits = load_digits i (push_bit DIGIT_BIT value OR ucast (digits ! i)) digits"

definition bigint_get_signed_value :: "digits \<Rightarrow> nat \<Rightarrow> 64 word" where
  "bigint_get_signed_value digits width0 =
     (let width = (if width0 > VALUE_BIT then VALUE_BIT else width0);
          value = load_digits (BITS_TO_DIGITS width) 0 digits
      in if width < VALUE_BIT then
           (let sign = width > 0 \<and> drop_bit (width - 1) value AND 1 \<noteq> 0
            in if sign then value OR NOT (push_bit width 1 - 1) else value AND (push_bit width 1 - 1))
         else value)"

definition bigint_get_unsigned_value :: "digits \<Rightarrow> nat \<Rightarrow> 64 word" where
  "bigint_get_unsigned_value digits width0 =
     (let width = (if width0 > VALUE_BIT then VALUE_BIT else width0);
          value = load_digits (BITS_TO_DIGITS width) 0 digits
      in if width < VALUE_BIT then value AND (push_bit width 1 - 1) else value)"

definition bigint_get_sign :: "digits \<Rightarrow> nat \<Rightarrow> bool" where
  "bigint_get_sign digits width =
     (if width = 0 then False
      else let msb_index = (width - 1) div DIGIT_BIT;
               msb_offset = width - 1 - msb_index * DIGIT_BIT
           in digit_bit (digits ! msb_index) msb_offset)"

definition bigint_is_zero :: "digits \<Rightarrow> nat \<Rightarrow> bool" where
  "bigint_is_zero digits width =
     (if width = 0 then True
      else let total_digits = BITS_TO_DIGITS width;
               msb_index = (width - 1) div DIGIT_BIT;
               msb_offset = width - 1 - msb_index * DIGIT_BIT
           in list_all (\<lambda>i. (if i + 1 = total_digits then digits ! i AND low_mask (msb_offset + 1) else digits ! i) = 0)
                [0..<total_digits])"

function get_bits_loop :: "digits \<Rightarrow> 64 word \<Rightarrow> nat \<Rightarrow> nat \<Rightarrow> nat \<Rightarrow> 64 word" where
  "get_bits_loop digits value offset iter end_bit =
     (if iter < end_bit then
        (let e = chunk_end iter end_bit;
             chunk_width = e - iter;
             target_index = iter div DIGIT_BIT;
             target_offset = iter - target_index * DIGIT_BIT;
             chunk = ucast (drop_bit target_offset (digits ! target_index) AND low_mask chunk_width)
         in get_bits_loop digits (value OR push_bit (iter - offset) chunk) offset e end_bit)
      else value)"
  by pat_completeness auto
termination
  by (relation "measure (\<lambda>(digits, value, offset, iter, end_bit). end_bit - iter)")
    (auto dest: chunk_end_greater simp: chunk_end_def Let_def)

declare get_bits_loop.simps [simp del]

definition bigint_get_bits :: "digits \<Rightarrow> nat \<Rightarrow> nat \<Rightarrow> nat \<Rightarrow> 64 word" where
  "bigint_get_bits digits offset len width =
     get_bits_loop digits 0 offset offset (if offset + len > width then width else offset + len)"

primrec min_unsigned_width_loop :: "digits \<Rightarrow> nat \<Rightarrow> nat" where
  "min_unsigned_width_loop digits 0 = 0"
| "min_unsigned_width_loop digits (Suc minwidth) =
     (if minwidth > 0 then
        (let index = minwidth div DIGIT_BIT; offset = minwidth - index * DIGIT_BIT
         in if digit_bit (digits ! index) offset then Suc minwidth else min_unsigned_width_loop digits minwidth)
      else Suc minwidth)"

definition bigint_get_min_unsigned_width :: "digits \<Rightarrow> nat \<Rightarrow> nat" where
  "bigint_get_min_unsigned_width digits width = min_unsigned_width_loop digits width"

section \<open>Bit counting (bits.h)\<close>

definition digit_width_up :: "nat \<Rightarrow> nat \<Rightarrow> nat" where
  "digit_width_up width i =
     (let total_digits = BITS_TO_DIGITS width
      in if i + 1 < total_digits then DIGIT_BIT else width - (total_digits - 1) * DIGIT_BIT)"

definition digit_width_down :: "nat \<Rightarrow> nat \<Rightarrow> nat" where
  "digit_width_down width i =
     (if i > 0 then DIGIT_BIT else width - (BITS_TO_DIGITS width - 1) * DIGIT_BIT)"

primrec least_significant_loop :: "digits \<Rightarrow> nat \<Rightarrow> nat \<Rightarrow> nat \<Rightarrow> nat" where
  "least_significant_loop digits width 0 i = 0"
| "least_significant_loop digits width (Suc n) i =
     (if digits ! i = 0 then least_significant_loop digits width n (i + 1)
      else case find (digit_bit (digits ! i)) [0..<digit_width_up width i] of
          Some j \<Rightarrow> i * DIGIT_BIT + j + 1
        | None \<Rightarrow> least_significant_loop digits width n (i + 1))"

definition bigint_least_significant_nonzero :: "digits \<Rightarrow> nat \<Rightarrow> nat" where
  "bigint_least_significant_nonzero digits width =
     (if width = 0 then 0 else least_significant_loop digits width (BITS_TO_DIGITS width) 0)"

text \<open>
  The inner loops that count bits equal to \<open>msb\<close>, towards less significant bits of a digit or towards more
  significant ones: the new count, and whether the loop met a different bit and returned.
\<close>

primrec count_down :: "8 word \<Rightarrow> bool \<Rightarrow> nat \<Rightarrow> nat \<Rightarrow> nat \<times> bool" where
  "count_down digit msb 0 count = (count, False)"
| "count_down digit msb (Suc left) count =
     (if digit_bit digit left = msb then count_down digit msb left (count + 1) else (count, True))"

primrec leading_zeros_loop :: "digits \<Rightarrow> nat \<Rightarrow> nat \<Rightarrow> nat \<Rightarrow> nat \<Rightarrow> nat \<Rightarrow> nat" where
  "leading_zeros_loop digits width default_value 0 i count = default_value"
| "leading_zeros_loop digits width default_value (Suc n) i count =
     (case count_down (digits ! n) False (digit_width_down width i) count of
        (count', returned) \<Rightarrow>
          if returned then count' else leading_zeros_loop digits width default_value n (i + 1) count')"

definition bigint_leading_zeros :: "digits \<Rightarrow> nat \<Rightarrow> nat \<Rightarrow> nat" where
  "bigint_leading_zeros digits width default_value =
     (if width = 0 then default_value
      else leading_zeros_loop digits width default_value (BITS_TO_DIGITS width) 0 0)"

primrec trailing_zeros_loop :: "digits \<Rightarrow> nat \<Rightarrow> nat \<Rightarrow> nat \<Rightarrow> nat \<Rightarrow> nat \<Rightarrow> nat" where
  "trailing_zeros_loop digits width default_value 0 i count = default_value"
| "trailing_zeros_loop digits width default_value (Suc n) i count =
     (if digits ! i = 0 then trailing_zeros_loop digits width default_value n (i + 1) (count + DIGIT_BIT)
      else case find (digit_bit (digits ! i)) [0..<digit_width_up width i] of
          Some j \<Rightarrow> count + j
        | None \<Rightarrow> trailing_zeros_loop digits width default_value n (i + 1) (count + digit_width_up width i))"

definition bigint_trailing_zeros :: "digits \<Rightarrow> nat \<Rightarrow> nat \<Rightarrow> nat" where
  "bigint_trailing_zeros digits width default_value =
     (if width = 0 then default_value
      else trailing_zeros_loop digits width default_value (BITS_TO_DIGITS width) 0 0)"

primrec sign_bits_loop :: "digits \<Rightarrow> nat \<Rightarrow> bool \<Rightarrow> nat \<Rightarrow> nat \<Rightarrow> nat \<Rightarrow> nat" where
  "sign_bits_loop digits width msb 0 i count = count - 1"
| "sign_bits_loop digits width msb (Suc n) i count =
     (case count_down (digits ! n) msb (digit_width_down width i) count of
        (count', returned) \<Rightarrow>
          if returned then count' - 1 else sign_bits_loop digits width msb n (i + 1) count')"

definition bigint_redundant_sign_bits :: "digits \<Rightarrow> nat \<Rightarrow> nat" where
  "bigint_redundant_sign_bits digits width =
     (if width = 0 then 0
      else let total_digits = BITS_TO_DIGITS width;
               msb_digit_index = total_digits - 1;
               msb_offset = width - 1 - msb_digit_index * DIGIT_BIT
           in sign_bits_loop digits width (digit_bit (digits ! msb_digit_index) msb_offset) total_digits 0 0)"

definition bigint_nonzero_count :: "digits \<Rightarrow> nat \<Rightarrow> nat" where
  "bigint_nonzero_count digits width =
     (if width = 0 then 0
      else fold (\<lambda>i count. fold (\<lambda>j count. if digit_bit (digits ! i) j then count + 1 else count)
               [0..<digit_width_up width i] count)
             [0..<BITS_TO_DIGITS width] 0)"

definition bigint_parity :: "digits \<Rightarrow> nat \<Rightarrow> nat" where
  "bigint_parity digits width = bigint_nonzero_count digits width mod 2"

section \<open>Bitwise operations (bitwise.h)\<close>

definition bigint_invert :: "digits \<Rightarrow> nat \<Rightarrow> digits" where
  "bigint_invert digits width =
     map NOT (take (BITS_TO_DIGITS width) digits) @ drop (BITS_TO_DIGITS width) digits"

definition digitwise :: "(8 word \<Rightarrow> 8 word \<Rightarrow> 8 word) \<Rightarrow> digits \<Rightarrow> digits \<Rightarrow> nat \<Rightarrow> digits" where
  "digitwise f lhs_digits rhs_digits total_digits =
     map2 f (take total_digits lhs_digits) (take total_digits rhs_digits) @ drop total_digits lhs_digits"

definition bigint_and :: "digits \<Rightarrow> digits \<Rightarrow> nat \<Rightarrow> digits" where
  "bigint_and lhs_digits rhs_digits width = digitwise (AND) lhs_digits rhs_digits (BITS_TO_DIGITS width)"

definition bigint_or :: "digits \<Rightarrow> digits \<Rightarrow> nat \<Rightarrow> digits" where
  "bigint_or lhs_digits rhs_digits width = digitwise (OR) lhs_digits rhs_digits (BITS_TO_DIGITS width)"

definition bigint_xor :: "digits \<Rightarrow> digits \<Rightarrow> nat \<Rightarrow> digits" where
  "bigint_xor lhs_digits rhs_digits width = digitwise (XOR) lhs_digits rhs_digits (BITS_TO_DIGITS width)"

section \<open>Addition and subtraction (addsub.h)\<close>

text \<open>
  The loops of the five routines differ only in the digit of the second operand that belongs to index \<open>i\<close>,
  which is a parameter here.
\<close>

primrec add_loop :: "(nat \<Rightarrow> 32 word) \<Rightarrow> nat \<Rightarrow> nat \<Rightarrow> 32 word \<Rightarrow> digits \<Rightarrow> digits" where
  "add_loop rhs_digit 0 i carry lhs_digits = lhs_digits"
| "add_loop rhs_digit (Suc n) i carry lhs_digits =
     (let digit_sum = carry + ucast (hd lhs_digits) + rhs_digit i
      in ucast digit_sum # add_loop rhs_digit n (i + 1) (drop_bit DIGIT_BIT digit_sum) (tl lhs_digits))"

primrec sub_loop :: "(nat \<Rightarrow> 32 word) \<Rightarrow> nat \<Rightarrow> nat \<Rightarrow> 32 word \<Rightarrow> digits \<Rightarrow> digits" where
  "sub_loop rhs_digit 0 i carry lhs_digits = lhs_digits"
| "sub_loop rhs_digit (Suc n) i carry lhs_digits =
     (let digit_diff = ucast (hd lhs_digits) - rhs_digit i - carry
      in ucast digit_diff # sub_loop rhs_digit n (i + 1) (drop_bit DIGIT_BIT digit_diff AND 1) (tl lhs_digits))"

definition bigint_util_add_digit_zero_extended :: "digits \<Rightarrow> 8 word \<Rightarrow> nat \<Rightarrow> digits" where
  "bigint_util_add_digit_zero_extended lhs_digits rhs_digit width =
     add_loop (\<lambda>i. if i = 0 then ucast rhs_digit else 0) (BITS_TO_DIGITS width) 0 0 lhs_digits"

definition bigint_negate :: "digits \<Rightarrow> nat \<Rightarrow> digits" where
  "bigint_negate digits width = bigint_util_add_digit_zero_extended (bigint_invert digits width) 1 width"

definition bigint_add :: "digits \<Rightarrow> digits \<Rightarrow> nat \<Rightarrow> digits" where
  "bigint_add lhs_digits rhs_digits width =
     add_loop (\<lambda>i. ucast (rhs_digits ! i)) (BITS_TO_DIGITS width) 0 0 lhs_digits"

definition zero_extended_digit :: "digits \<Rightarrow> nat \<Rightarrow> nat \<Rightarrow> 32 word" where
  "zero_extended_digit rhs_digits rhs_width i =
     (let rhs_total_digits = BITS_TO_DIGITS rhs_width
      in if i + 1 < rhs_total_digits then ucast (rhs_digits ! i)
         else if i + 1 = rhs_total_digits then
           (let mask_offset = rhs_width - (rhs_width - 1) div DIGIT_BIT * DIGIT_BIT
            in ucast (rhs_digits ! i AND low_mask mask_offset))
         else 0)"

definition bigint_add_zero_extend :: "digits \<Rightarrow> digits \<Rightarrow> nat \<Rightarrow> nat \<Rightarrow> digits" where
  "bigint_add_zero_extend lhs_digits rhs_digits lhs_width rhs_width =
     add_loop (zero_extended_digit rhs_digits rhs_width) (BITS_TO_DIGITS lhs_width) 0 0 lhs_digits"

definition bigint_subtract :: "digits \<Rightarrow> digits \<Rightarrow> nat \<Rightarrow> digits" where
  "bigint_subtract lhs_digits rhs_digits width =
     sub_loop (\<lambda>i. ucast (rhs_digits ! i)) (BITS_TO_DIGITS width) 0 0 lhs_digits"

definition bigint_subtract_zero_extend :: "digits \<Rightarrow> digits \<Rightarrow> nat \<Rightarrow> nat \<Rightarrow> digits" where
  "bigint_subtract_zero_extend lhs_digits rhs_digits lhs_width rhs_width =
     sub_loop (zero_extended_digit rhs_digits rhs_width) (BITS_TO_DIGITS lhs_width) 0 0 lhs_digits"

section \<open>Shifts (shift.h)\<close>

primrec left_shift_digits_loop :: "nat \<Rightarrow> nat \<Rightarrow> digits \<Rightarrow> digits" where
  "left_shift_digits_loop shift 0 digits = digits"
| "left_shift_digits_loop shift (Suc n) digits =
     left_shift_digits_loop shift n (digits[n + shift := digits ! n])"

text \<open>The first loop runs from the last digit down to digit \<open>shift\<close>, which is positive.\<close>

definition bigint_left_shift_whole_digits :: "digits \<Rightarrow> nat \<Rightarrow> nat \<Rightarrow> digits" where
  "bigint_left_shift_whole_digits digits shift width =
     fold (\<lambda>i ds. ds[i := 0]) [0..<shift]
       (left_shift_digits_loop shift (BITS_TO_DIGITS width - shift) digits)"

primrec left_shift_bits_loop :: "nat \<Rightarrow> nat \<Rightarrow> digits \<Rightarrow> digits" where
  "left_shift_bits_loop shift 0 digits = digits"
| "left_shift_bits_loop shift (Suc i) digits =
     left_shift_bits_loop shift i
       (digits[Suc i := push_bit shift (digits ! Suc i) OR drop_bit (DIGIT_BIT - shift) (digits ! i)])"

definition bigint_left_shift :: "digits \<Rightarrow> nat \<Rightarrow> nat \<Rightarrow> digits" where
  "bigint_left_shift digits shift0 width =
     (let shift = (if shift0 > width then width else shift0);
          total_digits = BITS_TO_DIGITS width;
          shift_whole_digits = shift div DIGIT_BIT;
          moved = (if shift_whole_digits > 0 then bigint_left_shift_whole_digits digits shift_whole_digits width
                   else digits);
          shift' = (if shift_whole_digits > 0 then shift - shift_whole_digits * DIGIT_BIT else shift)
      in if shift' > 0 then
           (let ds = left_shift_bits_loop shift' (total_digits - 1) moved in ds[0 := push_bit shift' (ds ! 0)])
         else moved)"

primrec right_shift_digits_loop :: "nat \<Rightarrow> nat \<Rightarrow> nat \<Rightarrow> digits \<Rightarrow> digits" where
  "right_shift_digits_loop shift 0 i digits = digits"
| "right_shift_digits_loop shift (Suc n) i digits =
     right_shift_digits_loop shift n (i + 1) (digits[i := digits ! (i + shift)])"

definition bigint_right_shift_whole_digits :: "digits \<Rightarrow> nat \<Rightarrow> bool \<Rightarrow> nat \<Rightarrow> digits" where
  "bigint_right_shift_whole_digits digits shift sign width =
     (let total_digits = BITS_TO_DIGITS width;
          sign_extension = (if sign then NOT 0 else 0)
      in if shift \<ge> total_digits then fold (\<lambda>i ds. ds[i := sign_extension]) [0..<total_digits] digits
         else fold (\<lambda>i ds. ds[i := sign_extension]) [total_digits - shift..<total_digits]
                (right_shift_digits_loop shift (total_digits - shift) 0 digits))"

primrec right_shift_bits_loop :: "nat \<Rightarrow> nat \<Rightarrow> nat \<Rightarrow> digits \<Rightarrow> digits" where
  "right_shift_bits_loop shift 0 i digits = digits"
| "right_shift_bits_loop shift (Suc n) i digits =
     right_shift_bits_loop shift n (i + 1)
       (digits[i := drop_bit shift (digits ! i) OR push_bit (DIGIT_BIT - shift) (digits ! (i + 1))])"

text \<open>The width is positive: the routine masks the digit at \<^verbatim>\<open>total_digits - 1\<close>.\<close>

definition bigint_right_shift :: "digits \<Rightarrow> nat \<Rightarrow> nat \<Rightarrow> digits" where
  "bigint_right_shift digits shift0 width =
     (let shift = (if shift0 > width then width else shift0);
          total_digits = BITS_TO_DIGITS width;
          shift_whole_digits = shift div DIGIT_BIT;
          mask = low_mask (width - (total_digits - 1) * DIGIT_BIT);
          masked = digits[total_digits - 1 := digits ! (total_digits - 1) AND mask];
          moved = (if shift_whole_digits > 0 then bigint_right_shift_whole_digits masked shift_whole_digits False width
                   else masked);
          shift' = (if shift_whole_digits > 0 then shift - shift_whole_digits * DIGIT_BIT else shift)
      in if shift' > 0 then
           (let ds = right_shift_bits_loop shift' (total_digits - 1) 0 moved;
                ds' = ds[total_digits - 1 := ds ! (total_digits - 1) AND mask]
            in ds'[total_digits - 1 := drop_bit shift' (ds' ! (total_digits - 1))])
         else moved)"

definition bigint_arithmetic_right_shift :: "digits \<Rightarrow> nat \<Rightarrow> nat \<Rightarrow> digits" where
  "bigint_arithmetic_right_shift digits shift0 width =
     (if width = 0 then digits
      else
        let shift = (if shift0 > width then width else shift0);
            total_digits = BITS_TO_DIGITS width;
            msb_digit_index = (width - 1) div DIGIT_BIT;
            msb_digit_offset = width - 1 - msb_digit_index * DIGIT_BIT;
            sign = digit_bit (digits ! msb_digit_index) msb_digit_offset;
            extended = digits[total_digits - 1 := extend_sign_from sign msb_digit_offset (digits ! (total_digits - 1))];
            shift_whole_digits = shift div DIGIT_BIT;
            moved = (if shift_whole_digits > 0 then bigint_right_shift_whole_digits extended shift_whole_digits sign width
                     else extended);
            shift' = (if shift_whole_digits > 0 then shift - shift_whole_digits * DIGIT_BIT else shift)
        in if shift' > 0 then
             (let ds = right_shift_bits_loop shift' (total_digits - 1) 0 moved;
                  ds' = ds[total_digits - 1 := drop_bit shift' (ds ! (total_digits - 1))];
                  mask_offset = (if msb_digit_offset \<ge> shift' then msb_digit_offset - shift' + 1 else 0)
              in ds'[total_digits - 1 := extend_sign_from sign mask_offset (ds' ! (total_digits - 1))])
           else moved)"

section \<open>Multiplication (multiply.h)\<close>

definition operand_digit :: "digits \<Rightarrow> nat \<Rightarrow> nat \<Rightarrow> 8 word" where
  "operand_digit digits operand_width i =
     (let total_digits = BITS_TO_DIGITS operand_width;
          operand_mask_offset = operand_width - (total_digits - 1) * DIGIT_BIT
      in if i + 1 = total_digits then digits ! i AND low_mask operand_mask_offset else digits ! i)"

primrec multiply_inner :: "(nat \<Rightarrow> 8 word) \<Rightarrow> 8 word \<Rightarrow> nat \<Rightarrow> nat \<Rightarrow> nat \<Rightarrow> nat \<Rightarrow> 32 word \<Rightarrow> digits \<Rightarrow> 32 word \<times> digits" where
  "multiply_inner lhs_digit rhs_digit result_total_digits j 0 i carry result_digits = (carry, result_digits)"
| "multiply_inner lhs_digit rhs_digit result_total_digits j (Suc n) i carry result_digits =
     (let product_idx = i + j
      in if product_idx \<ge> result_total_digits then (carry, result_digits)
         else
           (let value = ucast (result_digits ! product_idx) + carry + ucast (lhs_digit i) * ucast rhs_digit
            in multiply_inner lhs_digit rhs_digit result_total_digits j n (i + 1) (value div 256)
                 (result_digits[product_idx := ucast (value mod 256)])))"

definition multiply_outer :: "(nat \<Rightarrow> 8 word) \<Rightarrow> (nat \<Rightarrow> 8 word) \<Rightarrow> nat \<Rightarrow> nat \<Rightarrow> nat \<Rightarrow> digits \<Rightarrow> digits" where
  "multiply_outer lhs_digit rhs_digit total_digits result_total_digits j result_digits =
     (case multiply_inner lhs_digit (rhs_digit j) result_total_digits j total_digits 0 0 result_digits of
        (carry, result_digits') \<Rightarrow>
          let product_idx = j + total_digits
          in if product_idx < result_total_digits then result_digits'[product_idx := ucast carry] else result_digits')"

definition bigint_unsigned_multiply :: "digits \<Rightarrow> digits \<Rightarrow> digits \<Rightarrow> nat \<Rightarrow> nat \<Rightarrow> digits" where
  "bigint_unsigned_multiply result_digits lhs_digits rhs_digits result_width operand_width =
     (let zeroed = bigint_zero result_digits result_width
      in if result_width = 0 \<or> operand_width = 0 then zeroed
         else fold (multiply_outer (operand_digit lhs_digits operand_width) (operand_digit rhs_digits operand_width)
                      (BITS_TO_DIGITS operand_width) (BITS_TO_DIGITS result_width))
                [0..<BITS_TO_DIGITS operand_width] zeroed)"

text \<open>
  Booth multiplication: the state is the accumulator, the multiplier, which takes up the product bits that
  leave the accumulator, and the bit of the multiplier that was looked at before.
\<close>

definition booth_step :: "digits \<Rightarrow> nat \<Rightarrow> digits \<times> digits \<times> bool \<Rightarrow> digits \<times> digits \<times> bool" where
  "booth_step rhs_digits operand_width = (\<lambda>(accumulator_digits, lhs_digits, multiplier_lsb_prev_bit).
     let multiplier_msb_index = (operand_width - 1) div DIGIT_BIT;
         multiplier_msb_offset = operand_width - 1 - multiplier_msb_index * DIGIT_BIT;
         multiplier_lsb_bit = lhs_digits ! 0 AND 1 \<noteq> 0;
         acc = (if multiplier_lsb_bit \<and> \<not> multiplier_lsb_prev_bit then
                  bigint_subtract accumulator_digits rhs_digits operand_width
                else if \<not> multiplier_lsb_bit \<and> multiplier_lsb_prev_bit then
                  bigint_add accumulator_digits rhs_digits operand_width
                else accumulator_digits);
         accumulator_lsb = acc ! 0 AND 1;
         acc' = bigint_arithmetic_right_shift acc 1 operand_width;
         lhs' = bigint_right_shift lhs_digits 1 operand_width
     in (acc', lhs'[multiplier_msb_index := lhs' ! multiplier_msb_index OR push_bit multiplier_msb_offset accumulator_lsb],
         multiplier_lsb_bit))"

definition bigint_signed_multiply :: "digits \<Rightarrow> digits \<Rightarrow> digits \<Rightarrow> digits \<Rightarrow> nat \<Rightarrow> nat \<Rightarrow> digits \<times> digits \<times> digits" where
  "bigint_signed_multiply result_digits accumulator_digits lhs_digits rhs_digits result_width operand_width =
     (let zeroed = bigint_zero result_digits result_width
      in if result_width = 0 \<or> operand_width = 0 then (zeroed, accumulator_digits, lhs_digits)
         else case (booth_step rhs_digits operand_width ^^ operand_width)
                     (bigint_zero accumulator_digits operand_width, lhs_digits, False) of
           (acc, lhs, _) \<Rightarrow>
             let r1 = bigint_or zeroed acc operand_width;
                 r2 = bigint_left_shift r1 operand_width result_width;
                 r3 = bigint_or r2 lhs operand_width
             in (bigint_cast_signed r3 (operand_width * 2) result_width, acc, lhs))"

section \<open>Division (divide.h)\<close>

definition divide_step :: "digits \<Rightarrow> nat \<Rightarrow> nat \<Rightarrow> digits \<times> digits \<Rightarrow> digits \<times> digits" where
  "divide_step rhs_digits lhs_width rhs_width = (\<lambda>(lhs_digits, accumulator_digits).
     let msb_digit_index = (lhs_width - 1) div DIGIT_BIT;
         msb_digit_offset = lhs_width - 1 - msb_digit_index * DIGIT_BIT;
         lhs_msb = drop_bit msb_digit_offset (lhs_digits ! msb_digit_index) AND 1;
         acc1 = bigint_left_shift accumulator_digits 1 lhs_width;
         lhs1 = bigint_left_shift lhs_digits 1 lhs_width;
         acc2 = acc1[0 := acc1 ! 0 OR lhs_msb];
         acc3 = bigint_subtract_zero_extend acc2 rhs_digits lhs_width rhs_width;
         acc_msb = digit_bit (acc3 ! msb_digit_index) msb_digit_offset
     in if acc_msb then
          (lhs1[0 := lhs1 ! 0 AND NOT 1], bigint_add_zero_extend acc3 rhs_digits lhs_width rhs_width)
        else (lhs1[0 := lhs1 ! 0 OR 1], acc3))"

text \<open>The quotient replaces the dividend and the accumulator ends as the remainder.\<close>

definition bigint_unsigned_divide :: "digits \<Rightarrow> digits \<Rightarrow> digits \<Rightarrow> nat \<Rightarrow> nat \<Rightarrow> bigint_result \<times> digits \<times> digits" where
  "bigint_unsigned_divide lhs_digits accumulator_digits rhs_digits lhs_width rhs_width =
     (let zeroed = bigint_zero accumulator_digits lhs_width
      in if lhs_width = 0 then (BIGINT_OK, lhs_digits, zeroed)
         else if bigint_is_zero rhs_digits rhs_width then (BIGINT_DIVISION_BY_ZERO, lhs_digits, zeroed)
         else (BIGINT_OK, (divide_step rhs_digits lhs_width rhs_width ^^ lhs_width) (lhs_digits, zeroed)))"

text \<open>The divisor is negated in place when it is negative, so it is part of the result.\<close>

definition bigint_signed_divide ::
    "digits \<Rightarrow> digits \<Rightarrow> digits \<Rightarrow> nat \<Rightarrow> nat \<Rightarrow> bigint_result \<times> digits \<times> digits \<times> digits" where
  "bigint_signed_divide lhs_digits accumulator_digits rhs_digits lhs_width rhs_width =
     (let lhs_sign = bigint_get_sign lhs_digits lhs_width;
          rhs_sign = bigint_get_sign rhs_digits rhs_width
      in if bigint_is_zero rhs_digits rhs_width then (BIGINT_DIVISION_BY_ZERO, lhs_digits, accumulator_digits, rhs_digits)
         else
           (let lhs = (if lhs_sign then bigint_negate lhs_digits lhs_width else lhs_digits);
                rhs = (if rhs_sign then bigint_negate rhs_digits rhs_width else rhs_digits)
            in case bigint_unsigned_divide lhs accumulator_digits rhs lhs_width rhs_width of
                 (_, quot, remain) \<Rightarrow>
                   (BIGINT_OK,
                    if lhs_sign \<noteq> rhs_sign then bigint_negate quot lhs_width else quot,
                    if lhs_sign then bigint_negate remain lhs_width else remain,
                    rhs)))"

section \<open>Comparison (compare.h)\<close>

definition compare_digit :: "digits \<Rightarrow> nat \<Rightarrow> nat \<Rightarrow> 8 word" where
  "compare_digit digits width i =
     (if Suc i = BITS_TO_DIGITS width
      then digits ! i AND low_mask ((width - 1) - (width - 1) div DIGIT_BIT * DIGIT_BIT + 1)
      else digits ! i)"

primrec unsigned_compare_loop :: "digits \<Rightarrow> digits \<Rightarrow> nat \<Rightarrow> nat \<Rightarrow> 32 word" where
  "unsigned_compare_loop lhs_digits rhs_digits width 0 = 0"
| "unsigned_compare_loop lhs_digits rhs_digits width (Suc i) =
     (let lhs_digit = compare_digit lhs_digits width i; rhs_digit = compare_digit rhs_digits width i
      in if lhs_digit > rhs_digit then 1
         else if lhs_digit < rhs_digit then -1
         else unsigned_compare_loop lhs_digits rhs_digits width i)"

definition bigint_unsigned_compare :: "digits \<Rightarrow> digits \<Rightarrow> nat \<Rightarrow> 32 word" where
  "bigint_unsigned_compare lhs_digits rhs_digits width =
     unsigned_compare_loop lhs_digits rhs_digits width (BITS_TO_DIGITS width)"

definition bigint_signed_compare :: "digits \<Rightarrow> digits \<Rightarrow> nat \<Rightarrow> 32 word" where
  "bigint_signed_compare lhs_digits rhs_digits width =
     (let msb_index = (width - 1) div DIGIT_BIT;
          msb_offset = width - 1 - msb_index * DIGIT_BIT;
          lhs_sign = digit_bit (lhs_digits ! msb_index) msb_offset;
          rhs_sign = digit_bit (rhs_digits ! msb_index) msb_offset
      in if lhs_sign \<and> \<not> rhs_sign then -1
         else if \<not> lhs_sign \<and> rhs_sign then 1
         else bigint_unsigned_compare lhs_digits rhs_digits width)"

end
