(* ===== verification/Kefir_Bigint_Value.thy ===== *)
theory Kefir_Bigint_Value
  imports Kefir_Bigint
begin

text \<open>
  The number a digit array stands for, read as an unsigned or a two's complement integer of a given width,
  and the effect of the routines that move bits around: casts, native values, bit fields, bitwise operations
  and shifts. These are proved bit by bit; \<open>bit_dval\<close> relates the bits of the number to the digits.
\<close>

section \<open>Values\<close>

definition dval :: "digits \<Rightarrow> int" where
  "dval digits = horner_sum uint 256 digits"

definition uval :: "nat \<Rightarrow> digits \<Rightarrow> int" where
  "uval width digits = take_bit width (dval digits)"

definition sval :: "nat \<Rightarrow> digits \<Rightarrow> int" where
  "sval width digits = (if width = 0 then 0 else signed_take_bit (width - 1) (dval digits))"

text \<open>The array has room for the width.\<close>

definition holds :: "digits \<Rightarrow> nat \<Rightarrow> bool" where
  "holds digits width \<longleftrightarrow> BITS_TO_DIGITS width \<le> length digits"

lemma dval_simps [simp]:
  "dval [] = 0"
  "dval (d # ds) = uint d + 256 * dval ds"
  by (simp_all add: dval_def)

lemma dval_append: "dval (xs @ ys) = dval xs + 256 ^ length xs * dval ys"
  by (simp add: dval_def horner_sum_append)

lemma dval_concat: "dval (d # ds) = concat_bit 8 (uint d) (dval ds)"
proof -
  have "take_bit 8 (uint d) = uint d" by (rule bit_eqI) (auto simp: bit_simps dest: bit_imp_le_length)
  then show ?thesis by (simp add: concat_bit_eq push_bit_eq_mult)
qed

lemma bit_dval: "bit (dval ds) k \<longleftrightarrow> k div 8 < length ds \<and> bit (ds ! (k div 8)) (k mod 8)"
proof (induction ds arbitrary: k)
  case Nil
  then show ?case by simp
next
  case (Cons d ds)
  show ?case
  proof (cases "k < 8")
    case True
    then show ?thesis by (simp add: dval_concat bit_concat_bit_iff bit_uint_iff del: dval_simps)
  next
    case False
    then have "k div 8 = Suc ((k - 8) div 8)" "k mod 8 = (k - 8) mod 8"
      by (auto simp: le_div_geq le_mod_geq)
    then show ?thesis using False Cons.IH [of "k - 8"]
      by (simp add: dval_concat bit_concat_bit_iff del: dval_simps)
  qed
qed

lemma dval_nonneg: "0 \<le> dval ds"
  by (induction ds) auto

lemma digits_index:
  "w \<le> 8 * BITS_TO_DIGITS w"
  "k < w \<Longrightarrow> k div 8 < BITS_TO_DIGITS w"
  "0 < w \<Longrightarrow> BITS_TO_DIGITS w - 1 = (w - 1) div 8"
  "0 < w \<Longrightarrow> 0 < BITS_TO_DIGITS w"
  "0 < w \<Longrightarrow> 8 * (BITS_TO_DIGITS w - 1) < w"
  by (auto simp: BITS_TO_DIGITS_def DIGIT_BIT_def)

lemma BITS_TO_DIGITS_mono: "v \<le> w \<Longrightarrow> BITS_TO_DIGITS v \<le> BITS_TO_DIGITS w"
  by (simp add: BITS_TO_DIGITS_def DIGIT_BIT_def div_le_mono)

lemma holds_mono: "holds ds w \<Longrightarrow> v \<le> w \<Longrightarrow> holds ds v"
  using BITS_TO_DIGITS_mono by (auto simp: holds_def dest: order_trans)

lemma holds_index: "holds ds w \<Longrightarrow> k < w \<Longrightarrow> k div 8 < length ds"
  using digits_index(2) by (fastforce simp: holds_def)

lemma bit_uval: "bit (uval w ds) k \<longleftrightarrow> k < w \<and> bit (dval ds) k"
  by (simp add: uval_def bit_take_bit_iff)

lemma bit_sval: "0 < w \<Longrightarrow> bit (sval w ds) k \<longleftrightarrow> bit (dval ds) (if k < w then k else w - 1)"
proof -
  assume "0 < w"
  then have "min (w - 1) k = (if k < w then k else w - 1)" by auto
  then show ?thesis using \<open>0 < w\<close> by (simp add: sval_def bit_signed_take_bit_iff)
qed

lemma uval_bounds: "0 \<le> uval w ds" "uval w ds < 2 ^ w"
  by (simp_all add: uval_def)

lemma uval_0 [simp]: "uval 0 ds = 0"
  by (simp add: uval_def)

lemma take_bit_uval [simp]: "take_bit w (uval w ds) = uval w ds"
  by (simp add: uval_def)

lemma uval_eqI:
  assumes "\<And>k. k < w \<Longrightarrow> bit (dval ds) k \<longleftrightarrow> bit x k"
  shows "uval w ds = take_bit w x"
  by (rule bit_eqI) (auto simp: bit_uval bit_take_bit_iff assms)

lemma uval_take: "w \<le> 8 * n \<Longrightarrow> uval w (take n ds) = uval w ds"
  by (rule bit_eqI) (auto simp: bit_uval bit_dval)

lemma uval_sval: "v \<le> w \<Longrightarrow> take_bit v (sval w ds) = uval v ds"
  by (rule bit_eqI) (auto simp: bit_uval bit_take_bit_iff bit_sval)

section \<open>Masks and digits\<close>

lemma bit_low_mask [simp]: "bit (low_mask n) k \<longleftrightarrow> k < 8 \<and> k < n"
  by (auto simp: low_mask_def mask_eq_exp_minus_1 [symmetric] bit_simps)

lemma bit_test: "drop_bit k x AND 1 \<noteq> 0 \<longleftrightarrow> bit (x :: 'a::len word) k"
  by (simp add: bit_iff_and_drop_bit_eq_1 and_one_eq mod_2_eq_odd)

lemma digit_bit_iff [simp]: "digit_bit d k \<longleftrightarrow> bit d k"
  by (simp add: digit_bit_def bit_test)

lemma bit_extend_sign_from:
  "bit (extend_sign_from msb n d) k \<longleftrightarrow> k < 8 \<and> (if k < n then bit d k else msb)"
  by (cases "k < 8") (auto simp: extend_sign_from_def bit_simps dest: bit_imp_le_length)

lemma fold_update:
  "distinct is \<Longrightarrow> length (fold (\<lambda>i ds. ds[i := v]) is ds) = length ds \<and>
     (\<forall>k < length ds. fold (\<lambda>i ds. ds[i := v]) is ds ! k = (if k \<in> set is then v else ds ! k))"
  by (induction "is" arbitrary: ds) (auto simp: nth_list_update)

lemma fold_update_upt:
  "length (fold (\<lambda>i ds. ds[i := v]) [a..<b] ds) = length ds"
  "k < length ds \<Longrightarrow> fold (\<lambda>i ds. ds[i := v]) [a..<b] ds ! k = (if a \<le> k \<and> k < b then v else ds ! k)"
  using fold_update [of "[a..<b]" v ds] by auto

lemma fill_digits:
  "length (fill_digits ds a b v) = length ds"
  "k < length ds \<Longrightarrow> fill_digits ds a b v ! k = (if a \<le> k \<and> k \<le> b then v else ds ! k)"
  unfolding fill_digits_def by (auto simp: fold_update_upt simp del: upt_Suc)

lemma index_offset: "k - k div 8 * 8 = k mod (8 :: nat)"
  by (simp add: minus_div_mult_eq_mod)

lemma mod_less_same_div: "a div 8 = b div 8 \<Longrightarrow> a mod 8 < b mod 8 \<longleftrightarrow> a < (b :: nat)"
  by (metis add_less_cancel_left div_mult_mod_eq)

lemma bit_dval_update:
  "i < length ds \<Longrightarrow> bit (dval (ds[i := d])) k \<longleftrightarrow> (if k div 8 = i then bit d (k mod 8) else bit (dval ds) k)"
  by (auto simp: bit_dval nth_list_update)

lemma bit_dval_fill:
  "b < length ds \<Longrightarrow> bit (dval (fill_digits ds a b v)) k \<longleftrightarrow>
     (if a \<le> k div 8 \<and> k div 8 \<le> b then bit v (k mod 8) else bit (dval ds) k)"
  by (auto simp: bit_dval fill_digits)

section \<open>Casts\<close>

lemma length_cast [simp]:
  "length (bigint_cast_signed ds v w) = length ds"
  "length (bigint_cast_unsigned ds v w) = length ds"
  by (auto simp: bigint_cast_signed_def bigint_cast_unsigned_def Let_def fill_digits)

lemma same_digit:
  assumes "k div 8 = t div 8"
  shows "k mod 8 < t mod 8 \<longleftrightarrow> k < (t :: nat)" "k mod 8 \<le> t mod 8 \<longleftrightarrow> k \<le> t"
  using mod_less_same_div [OF assms] mod_less_same_div [OF assms [symmetric]] by auto

lemma earlier_digit: "k div 8 < t div 8 \<Longrightarrow> k < (t :: nat)"
  using div_le_mono [of t k 8] by (meson not_le)

text \<open>Extending the sign bit at location \<open>t\<close> within its digit.\<close>

lemma bit_extended:
  assumes "t div 8 < length ds"
  shows "bit (dval (ds[t div 8 := extend_sign_from msb (t mod 8) (ds ! (t div 8))])) k \<longleftrightarrow>
    (if k div 8 = t div 8 \<and> t \<le> k then msb else bit (dval ds) k)"
proof (cases "k div 8 = t div 8")
  case True
  have "bit (dval ds) k \<longleftrightarrow> bit (ds ! (t div 8)) (k mod 8)" using True assms by (simp add: bit_dval)
  then show ?thesis unfolding bit_dval_update [OF assms] bit_extend_sign_from
    using True same_digit [OF True] by auto
next
  case False
  then show ?thesis unfolding bit_dval_update [OF assms] by auto
qed

lemma bit_masked:
  assumes "t div 8 < length ds"
  shows "bit (dval (ds[t div 8 := ds ! (t div 8) AND low_mask (t mod 8 + 1)])) k \<longleftrightarrow>
    (k div 8 = t div 8 \<longrightarrow> k \<le> t) \<and> bit (dval ds) k"
proof (cases "k div 8 = t div 8")
  case True
  have "bit (dval ds) k \<longleftrightarrow> bit (ds ! (t div 8)) (k mod 8)" using True assms by (simp add: bit_dval)
  then show ?thesis unfolding bit_dval_update [OF assms] bit_and_iff bit_low_mask
    using True same_digit [OF True] by auto
next
  case False
  then show ?thesis unfolding bit_dval_update [OF assms] by auto
qed

lemma last_bit_of_digit: "\<not> t mod 8 + 1 < 8 \<Longrightarrow> k div 8 = t div 8 \<Longrightarrow> k \<le> (t :: nat)"
proof -
  assume a: "\<not> t mod 8 + 1 < 8" "k div 8 = t div 8"
  have "k mod 8 < 8" "t mod 8 < 8" by simp_all
  then have "k mod 8 \<le> t mod 8" using a by linarith
  then show ?thesis using same_digit(2) [OF a(2)] by simp
qed

lemma bit_cast_signed:
  assumes "holds ds w" "0 < w" "k < w"
  shows "bit (dval (bigint_cast_signed ds v w)) k \<longleftrightarrow> 0 < v \<and> bit (dval ds) (if k < v then k else v - 1)"
proof -
  obtain t where w: "w = Suc t" using assms(2) by (cases w) auto
  have i: "t div 8 < length ds" using holds_index [of ds w t] assms w by simp
  have kt: "k \<le> t" "k div 8 \<le> t div 8" using assms w by (auto intro: div_le_mono)
  consider "w \<le> v" | "v = 0" | u where "v = Suc u" "v < w" by (cases v; cases "w \<le> v") (auto simp: not_le)
  then show ?thesis
  proof cases
    case 1
    have m: "digit_bit (ds ! (t div 8)) (t mod 8) = bit (dval ds) t" using i by (simp add: bit_dval)
    have r: "bigint_cast_signed ds v w = ds[t div 8 := extend_sign_from (bit (dval ds) t) (t mod 8) (ds ! (t div 8))]"
      unfolding m [symmetric] using 1 w by (simp add: bigint_cast_signed_def Let_def DIGIT_BIT_def index_offset)
    show ?thesis unfolding r bit_extended [OF i] using kt 1 w by auto
  next
    case 2
    then show ?thesis using assms w i kt by (simp add: bigint_cast_signed_def Let_def DIGIT_BIT_def bit_dval_fill)
  next
    case 3
    have c: "u div 8 < length ds" using holds_index [of ds w u] assms 3 by simp
    have m: "digit_bit (ds ! (u div 8)) (u mod 8) = bit (dval ds) u" using c by (simp add: bit_dval)
    let ?m = "bit (dval ds) u"
    let ?e = "if u mod 8 + 1 < 8 then ds[u div 8 := extend_sign_from ?m (u mod 8) (ds ! (u div 8))] else ds"
    have r: "bigint_cast_signed ds v w = fill_digits ?e (u div 8 + 1) (t div 8) (if ?m then NOT 0 else 0)"
      unfolding m [symmetric] using 3 w by (simp add: bigint_cast_signed_def Let_def DIGIT_BIT_def index_offset)
    have ext: "bit (dval ?e) k \<longleftrightarrow> (if k div 8 = u div 8 \<and> u \<le> k then ?m else bit (dval ds) k)"
      using last_bit_of_digit [of u k] bit_extended [OF c, of ?m k] by (auto split: if_splits)
    have b: "t div 8 < length ?e" using i by simp
    have lo: "k < u" if "k div 8 < u div 8" by (rule earlier_digit [OF that])
    have hi: "u < k" if "u div 8 < k div 8" by (rule earlier_digit [OF that])
    have "bit (if ?m then NOT 0 else 0 :: 8 word) (k mod 8) = ?m" by (simp add: bit_not_iff)
    then have "bit (dval (bigint_cast_signed ds v w)) k \<longleftrightarrow>
        (if u div 8 + 1 \<le> k div 8 then ?m else if k div 8 = u div 8 \<and> u \<le> k then ?m else bit (dval ds) k)"
      unfolding r bit_dval_fill [OF b] ext using kt(2) by simp
    also have "\<dots> \<longleftrightarrow> bit (dval ds) (if k < v then k else u)"
      using lo hi 3(1) by (cases "k div 8" "u div 8" rule: linorder_cases) (auto simp: less_Suc_eq)
    finally show ?thesis using 3(1) by simp
  qed
qed

lemma uval_cast_signed:
  assumes "holds ds w" "0 < w"
  shows "uval w (bigint_cast_signed ds v w) = take_bit w (sval v ds)"
proof (rule uval_eqI)
  fix k assume "k < w"
  then show "bit (dval (bigint_cast_signed ds v w)) k = bit (sval v ds) k"
    using bit_cast_signed [OF assms, of k] by (cases "v = 0") (simp_all add: bit_sval, simp add: sval_def)
qed

lemma bit_cast_unsigned:
  assumes "holds ds w" "0 < w" "k < w"
  shows "bit (dval (bigint_cast_unsigned ds v w)) k \<longleftrightarrow> k < v \<and> bit (dval ds) k"
proof -
  obtain t where w: "w = Suc t" using assms(2) by (cases w) auto
  have i: "t div 8 < length ds" using holds_index [of ds w t] assms w by simp
  have kt: "k \<le> t" "k div 8 \<le> t div 8" using assms w by (auto intro: div_le_mono)
  have off: "Suc u - u div 8 * 8 = u mod 8 + 1" for u :: nat
    by (metis Suc_diff_le Suc_eq_plus1 div_times_less_eq_dividend index_offset)
  consider "w \<le> v" | "v = 0" | u where "v = Suc u" "v < w" by (cases v; cases "w \<le> v") (auto simp: not_le)
  then show ?thesis
  proof cases
    case 1
    have r: "bigint_cast_unsigned ds v w = ds[t div 8 := ds ! (t div 8) AND low_mask (t mod 8 + 1)]"
      unfolding off [symmetric] using 1 w by (simp add: bigint_cast_unsigned_def Let_def DIGIT_BIT_def)
    show ?thesis unfolding r bit_masked [OF i] using kt 1 w by auto
  next
    case 2
    then show ?thesis using assms w i kt by (simp add: bigint_cast_unsigned_def Let_def DIGIT_BIT_def bit_dval_fill)
  next
    case 3
    have c: "u div 8 < length ds" using holds_index [of ds w u] assms 3 by simp
    let ?e = "if u mod 8 + 1 < 8 then ds[u div 8 := ds ! (u div 8) AND low_mask (u mod 8 + 1)] else ds"
    have r: "bigint_cast_unsigned ds v w = fill_digits ?e (u div 8 + 1) (t div 8) 0"
      unfolding off [symmetric] using 3 w by (simp add: bigint_cast_unsigned_def Let_def DIGIT_BIT_def)
    have ext: "bit (dval ?e) k \<longleftrightarrow> (k div 8 = u div 8 \<longrightarrow> k \<le> u) \<and> bit (dval ds) k"
      using last_bit_of_digit [of u k] bit_masked [OF c, of k] by (auto split: if_splits)
    have b: "t div 8 < length ?e" using i by simp
    have lo: "k < u" if "k div 8 < u div 8" by (rule earlier_digit [OF that])
    have hi: "u < k" if "u div 8 < k div 8" by (rule earlier_digit [OF that])
    have "bit (dval (bigint_cast_unsigned ds v w)) k \<longleftrightarrow>
        \<not> u div 8 + 1 \<le> k div 8 \<and> (k div 8 = u div 8 \<longrightarrow> k \<le> u) \<and> bit (dval ds) k"
      unfolding r bit_dval_fill [OF b] ext using kt(2) by simp
    also have "\<dots> \<longleftrightarrow> k < v \<and> bit (dval ds) k"
      using lo hi 3(1) by (cases "k div 8" "u div 8" rule: linorder_cases) auto
    finally show ?thesis .
  qed
qed

lemma uval_cast_unsigned:
  assumes "holds ds w" "0 < w"
  shows "uval w (bigint_cast_unsigned ds v w) = take_bit w (uval v ds)"
  by (rule uval_eqI) (simp add: bit_cast_unsigned [OF assms] bit_uval)

section \<open>Native values\<close>

lemma bit_dval_Cons: "bit (dval (d # ds)) k \<longleftrightarrow> (if k < 8 then bit d k else bit (dval ds) (k - 8))"
  by (auto simp: dval_concat bit_concat_bit_iff bit_uint_iff simp del: dval_simps dest: bit_imp_le_length)

lemma length_store_digits [simp]: "n \<le> length ds \<Longrightarrow> length (store_digits n v ds) = length ds"
  by (induction n arbitrary: v ds) auto

lemma bit_store_digits:
  "n \<le> length ds \<Longrightarrow> bit (dval (store_digits n v ds)) k \<longleftrightarrow> (if k < 8 * n then bit v k else bit (dval ds) k)"
proof (induction n arbitrary: v ds k)
  case 0
  then show ?case by simp
next
  case (Suc n)
  then obtain d ds' where ds: "ds = d # ds'" by (cases ds) auto
  show ?case using Suc.prems Suc.IH [of ds' "drop_bit 8 v" "k - 8"]
    by (auto simp: ds bit_dval_Cons DIGIT_BIT_def bit_simps simp del: dval_simps)
qed

lemma uval_set_unsigned:
  assumes "holds ds w"
  shows "uval w (bigint_set_unsigned_integer ds w v) = take_bit w (uint v)"
    "length (bigint_set_unsigned_integer ds w v) = length ds"
proof -
  have n: "BITS_TO_DIGITS (min w 64) \<le> length ds" using holds_mono [OF assms, of "min w 64"] by (simp add: holds_def)
  let ?s = "store_digits (BITS_TO_DIGITS (min w 64)) v ds"
  have e: "(if w > VALUE_BIT then VALUE_BIT else w) = min w 64" by (simp add: VALUE_BIT_def)
  have bits: "bit (dval ?s) k \<longleftrightarrow> bit v k" if "k < min w 64" for k
    using bit_store_digits [OF n, of v k] digits_index(1) [of "min w 64"] that by simp
  have hs: "holds ?s w" "0 < w" if "64 < w" using assms n that by (auto simp: holds_def)
  show "length (bigint_set_unsigned_integer ds w v) = length ds"
    using n by (simp add: bigint_set_unsigned_integer_def Let_def e)
  show "uval w (bigint_set_unsigned_integer ds w v) = take_bit w (uint v)"
  proof (cases "64 < w")
    case True
    then have r: "bigint_set_unsigned_integer ds w v = bigint_cast_unsigned ?s 64 w"
      by (simp add: bigint_set_unsigned_integer_def Let_def e)
    have u: "uval 64 ?s = uint v" using True bits by (intro bit_eqI) (auto simp: bit_uval bit_uint_iff)
    show ?thesis unfolding r using uval_cast_unsigned [OF hs [OF True], of 64] True u by simp
  next
    case False
    then have "bigint_set_unsigned_integer ds w v = (if w = 0 then ds else ?s)"
      by (simp add: bigint_set_unsigned_integer_def Let_def e)
    then show ?thesis using bits False by (intro uval_eqI) (auto simp: bit_uint_iff)
  qed
qed

lemma uval_set_signed:
  assumes "holds ds w"
  shows "uval w (bigint_set_signed_integer ds w v) = take_bit w (sint v)"
    "length (bigint_set_signed_integer ds w v) = length ds"
proof -
  have n: "BITS_TO_DIGITS (min w 64) \<le> length ds" using holds_mono [OF assms, of "min w 64"] by (simp add: holds_def)
  let ?s = "store_digits (BITS_TO_DIGITS (min w 64)) v ds"
  have e: "(if w > VALUE_BIT then VALUE_BIT else w) = min w 64" by (simp add: VALUE_BIT_def)
  have bits: "bit (dval ?s) k \<longleftrightarrow> bit v k" if "k < min w 64" for k
    using bit_store_digits [OF n, of v k] digits_index(1) [of "min w 64"] that by simp
  have hs: "holds ?s w" "0 < w" if "64 < w" using assms n that by (auto simp: holds_def)
  show "length (bigint_set_signed_integer ds w v) = length ds"
    using n by (simp add: bigint_set_signed_integer_def Let_def e)
  show "uval w (bigint_set_signed_integer ds w v) = take_bit w (sint v)"
  proof (cases "64 < w")
    case True
    then have r: "bigint_set_signed_integer ds w v = bigint_cast_signed ?s 64 w"
      by (simp add: bigint_set_signed_integer_def Let_def e)
    have u: "sval 64 ?s = sint v" using True bits by (intro bit_eqI) (auto simp: bit_sval bit_sint_iff min_def dest: bit_imp_le_length)
    show ?thesis unfolding r using uval_cast_signed [OF hs [OF True], of 64] True u by simp
  next
    case False
    then have "bigint_set_signed_integer ds w v = (if w = 0 then ds else ?s)"
      by (simp add: bigint_set_signed_integer_def Let_def e)
    then show ?thesis using bits False by (intro uval_eqI) (auto simp: bit_sint_iff)
  qed
qed

lemma bit_load_digits:
  "n \<le> length ds \<Longrightarrow> bit (load_digits n v ds) k \<longleftrightarrow>
     k < 64 \<and> (if k < 8 * n then bit (dval ds) k else bit v (k - 8 * n))"
proof (induction n arbitrary: v)
  case 0
  then show ?case by (auto dest: bit_imp_le_length)
next
  case (Suc n)
  have c: "k div 8 = n" "k mod 8 = k - 8 * n" if "\<not> k < 8 * n" "k < 8 + 8 * n"
  proof -
    show "k div 8 = n" using that by (intro div_nat_eqI) auto
    then show "k mod 8 = k - 8 * n" by (metis minus_mult_div_eq_mod)
  qed
  have ih: "bit (load_digits (Suc n) v ds) k \<longleftrightarrow>
      k < 64 \<and> (if k < 8 * n then bit (dval ds) k else bit (push_bit 8 v OR ucast (ds ! n)) (k - 8 * n))"
    using Suc.prems Suc.IH by (simp add: DIGIT_BIT_def)
  consider "k < 8 * n" | "\<not> k < 8 * n" "k < 8 + 8 * n" | m where "k = 8 + 8 * n + m"
    by (metis le_Suc_ex not_le)
  then show ?case
    using Suc.prems unfolding ih by cases (auto simp: c bit_simps bit_dval dest: bit_imp_le_length)
qed

lemma uint_get_unsigned:
  assumes "holds ds w"
  shows "uint (bigint_get_unsigned_value ds w) = uval (min w 64) ds"
proof -
  let ?w = "min w 64"
  have n: "BITS_TO_DIGITS ?w \<le> length ds" using holds_mono [OF assms, of ?w] by (simp add: holds_def)
  have e: "(if w > VALUE_BIT then VALUE_BIT else w) = ?w" by (simp add: VALUE_BIT_def)
  show ?thesis
  proof (rule bit_eqI)
    fix k
    show "bit (uint (bigint_get_unsigned_value ds w)) k = bit (uval ?w ds) k"
      using bit_load_digits [OF n, of 0 k] digits_index(1) [of ?w]
      by (auto simp: bigint_get_unsigned_value_def Let_def e bit_uint_iff bit_uval mask_eq_exp_minus_1 [symmetric]
          bit_simps VALUE_BIT_def min_def split: if_splits)
  qed
qed

lemma sint_get_signed:
  assumes "holds ds w"
  shows "sint (bigint_get_signed_value ds w) = sval (min w 64) ds"
proof -
  let ?w = "min w 64"
  have n: "BITS_TO_DIGITS ?w \<le> length ds" using holds_mono [OF assms, of ?w] by (simp add: holds_def)
  have e: "(if w > VALUE_BIT then VALUE_BIT else w) = ?w" by (simp add: VALUE_BIT_def)
  let ?l = "load_digits (BITS_TO_DIGITS ?w) 0 ds"
  have b: "bit ?l k \<longleftrightarrow> bit (dval ds) k" if "k < ?w" for k
    using bit_load_digits [OF n, of 0 k] digits_index(1) [of ?w] that by auto
  show ?thesis
  proof (cases "w = 0")
    case True
    then show ?thesis
      by (simp add: bigint_get_signed_value_def Let_def VALUE_BIT_def sval_def BITS_TO_DIGITS_def DIGIT_BIT_def)
  next
    case False
    have s: "0 < ?w \<and> drop_bit (?w - 1) ?l AND 1 \<noteq> 0 \<longleftrightarrow> bit (dval ds) (?w - 1)"
    proof -
      have "?w - 1 < ?w" "0 < ?w" using False by auto
      then show ?thesis using b [of "?w - 1"] by (simp add: bit_test del: min_less_iff_conj)
    qed
    have r: "bit (bigint_get_signed_value ds w) k \<longleftrightarrow> (if k < ?w then bit (dval ds) k else bit (dval ds) (?w - 1))"
      if "k < 64" for k
      using b [of k] that unfolding bigint_get_signed_value_def e Let_def s
      by (auto simp: mask_eq_exp_minus_1 [symmetric] bit_simps VALUE_BIT_def)
    show ?thesis
    proof (rule bit_eqI)
      fix k
      show "bit (sint (bigint_get_signed_value ds w)) k = bit (sval ?w ds) k"
      proof (cases "k < 64")
        case True
        then have "bit (sint (bigint_get_signed_value ds w)) k \<longleftrightarrow> bit (bigint_get_signed_value ds w) k"
          by (auto simp: bit_sint_iff)
        then show ?thesis using r [OF True] False by (simp add: bit_sval)
      next
        case k: False
        then have "bit (sint (bigint_get_signed_value ds w)) k \<longleftrightarrow> bit (bigint_get_signed_value ds w) 63"
          by (auto simp: bit_sint_iff dest: bit_imp_le_length)
        moreover have "?w - 1 = 63" if "63 < ?w" using that by auto
        ultimately show ?thesis using r [of 63] False k by (auto simp: bit_sval split: if_splits)
      qed
    qed
  qed
qed

section \<open>Bit fields\<close>

lemma chunk_end:
  assumes "iter < end_bit"
  shows "iter < chunk_end iter end_bit" "chunk_end iter end_bit \<le> end_bit"
    "chunk_end iter end_bit \<le> iter div 8 * 8 + 8"
    "chunk_end iter end_bit \<noteq> end_bit \<Longrightarrow> chunk_end iter end_bit = iter div 8 * 8 + 8"
proof -
  have e: "(if iter mod 8 \<noteq> 0 then (iter + 8 - 1) div 8 * 8 else iter + 8) = iter div 8 * 8 + 8"
  proof (cases "iter mod 8 = 0")
    case True
    then show ?thesis using div_mult_mod_eq [of iter 8] by simp
  next
    case False
    define q r where qr: "q = iter div 8" "r = iter mod 8"
    have "iter = q * 8 + r" "0 < r" "r < 8" using False by (simp_all add: qr)
    then have "(iter + 8 - 1) div 8 = q + 1" by (intro div_nat_eqI) auto
    then have "(iter + 8 - 1) div 8 = iter div 8 + 1" by (simp add: qr)
    then show ?thesis using False by simp
  qed
  show "iter < chunk_end iter end_bit" by (rule chunk_end_greater [OF assms])
  show "chunk_end iter end_bit \<le> end_bit" "chunk_end iter end_bit \<le> iter div 8 * 8 + 8"
    "chunk_end iter end_bit \<noteq> end_bit \<Longrightarrow> chunk_end iter end_bit = iter div 8 * 8 + 8"
    unfolding chunk_end_def DIGIT_BIT_def e by (auto simp: Let_def split: if_splits)
qed

lemma chunk_position:
  assumes "iter < end_bit" "e = chunk_end iter end_bit"
  shows "iter \<le> k \<and> k < e \<longleftrightarrow> k div 8 = iter div 8 \<and> iter mod 8 \<le> k mod 8 \<and> k mod 8 - iter mod 8 < e - iter"
    "k div 8 = iter div 8 \<Longrightarrow> iter \<le> k \<Longrightarrow> k mod 8 - iter mod 8 = k - iter"
proof -
  note c = chunk_end [OF assms(1), folded assms(2)]
  have d: "k div 8 = iter div 8" if "iter \<le> k" "k < e" using that c by (intro div_nat_eqI) auto
  show diff: "k mod 8 - iter mod 8 = k - iter" if "k div 8 = iter div 8" "iter \<le> k" for k
    using that by (metis diff_diff_left le_add_diff_inverse2 div_mult_mod_eq add.commute diff_cancel2)
  show "iter \<le> k \<and> k < e \<longleftrightarrow> k div 8 = iter div 8 \<and> iter mod 8 \<le> k mod 8 \<and> k mod 8 - iter mod 8 < e - iter"
    using d diff same_digit(2) [of iter k] c(1) by auto
qed

lemma bit_chunk_write:
  assumes "p < 8" "\<not> cw < 8 \<Longrightarrow> n = 0"
  shows "bit (if cw < 8 then (d AND NOT (push_bit n (low_mask cw))) OR push_bit n (ucast v AND low_mask cw)
           else push_bit n (ucast v AND low_mask cw)) p \<longleftrightarrow>
    (if n \<le> p \<and> p - n < cw then bit (v :: 64 word) (p - n) else bit d p)"
  using assms by (cases "cw < 8") (auto simp: bit_simps)

lemma set_bits_loop:
  "end_bit \<le> 8 * length ds \<Longrightarrow> length (set_bits_loop ds v iter end_bit) = length ds \<and>
     (\<forall>k. bit (dval (set_bits_loop ds v iter end_bit)) k \<longleftrightarrow>
        (if iter \<le> k \<and> k < end_bit then bit v (k - iter) else bit (dval ds) k))"
proof (induction ds v iter end_bit rule: set_bits_loop.induct)
  case (1 ds v iter end_bit)
  show ?case
  proof (cases "iter < end_bit")
    case False
    then show ?thesis by (auto simp: set_bits_loop.simps [of ds v iter end_bit])
  next
    case True
    let ?e = "chunk_end iter end_bit" and ?i = "iter div 8" and ?o = "iter mod 8"
    let ?cw = "?e - iter"
    let ?c = "ucast v AND low_mask ?cw"
    let ?d = "if ?cw < 8 then (ds ! ?i AND NOT (push_bit ?o (low_mask ?cw))) OR push_bit ?o ?c else push_bit ?o ?c"
    have i: "?i < length ds" using 1(2) True by simp
    note c = chunk_end [OF True] and pos = chunk_position [OF True refl]
    have step: "set_bits_loop ds v iter end_bit = set_bits_loop (ds[?i := ?d]) (drop_bit ?cw v) ?e end_bit"
      using True by (simp add: set_bits_loop.simps [of ds v iter end_bit] Let_def DIGIT_BIT_def index_offset)
    have ih: "length (set_bits_loop ds v iter end_bit) = length ds"
      "bit (dval (set_bits_loop ds v iter end_bit)) k \<longleftrightarrow>
        (if ?e \<le> k \<and> k < end_bit then bit (drop_bit ?cw v) (k - ?e) else bit (dval (ds[?i := ?d])) k)" for k
    proof -
      have eq: "(if ?cw < 8 then ds[?i := (ds ! ?i AND NOT (push_bit ?o (low_mask ?cw))) OR push_bit ?o ?c]
          else ds[?i := push_bit ?o ?c]) = ds[?i := ?d]" by simp
      have le: "end_bit \<le> 8 * length (ds[?i := ?d])" using 1(2) by simp
      note ih0 = "1.IH" [OF True refl refl refl refl refl refl, unfolded DIGIT_BIT_def index_offset eq, OF le]
      show "length (set_bits_loop ds v iter end_bit) = length ds" using ih0 unfolding step by (simp only: length_list_update)
      show "bit (dval (set_bits_loop ds v iter end_bit)) k \<longleftrightarrow>
          (if ?e \<le> k \<and> k < end_bit then bit (drop_bit ?cw v) (k - ?e) else bit (dval (ds[?i := ?d])) k)" for k
        using ih0 unfolding step by blast
    qed
    have o8: "?o = 0" if "\<not> ?cw < 8" using that c(3) by presburger
    have new: "bit (dval (ds[?i := ?d])) k \<longleftrightarrow> (if iter \<le> k \<and> k < ?e then bit v (k - iter) else bit (dval ds) k)" for k
    proof (cases "k div 8 = ?i")
      case True
      have d: "bit (dval ds) k \<longleftrightarrow> bit (ds ! ?i) (k mod 8)" using True i by (simp add: bit_dval)
      have "bit (dval (ds[?i := ?d])) k \<longleftrightarrow> bit ?d (k mod 8)" unfolding bit_dval_update [OF i] using True by simp
      also have "\<dots> \<longleftrightarrow> (if ?o \<le> k mod 8 \<and> k mod 8 - ?o < ?cw then bit v (k mod 8 - ?o) else bit (ds ! ?i) (k mod 8))"
        by (rule bit_chunk_write) (use o8 in auto)
      also have "\<dots> \<longleftrightarrow> (if iter \<le> k \<and> k < ?e then bit v (k - iter) else bit (dval ds) k)"
        unfolding d pos(1) using True pos(2) [OF True] same_digit(2) [OF True [symmetric]] by auto
      finally show ?thesis .
    next
      case False
      then show ?thesis unfolding bit_dval_update [OF i] using pos [of k] by auto
    qed
    have "?cw + (k - ?e) = k - iter" if "?e \<le> k" for k using that c(1) by simp
    then show ?thesis using ih c unfolding new by (auto simp: bit_drop_bit_eq)
  qed
qed

lemma bit_set_bits:
  assumes "holds ds w"
  shows "length (bigint_set_bits ds v off len w) = length ds"
    "bit (dval (bigint_set_bits ds v off len w)) k \<longleftrightarrow>
      (if off \<le> k \<and> k < off + len \<and> k < w then bit v (k - off) else bit (dval ds) k)"
proof -
  let ?e = "if off + len > w then w else off + len"
  have "?e \<le> 8 * length ds" using digits_index(1) [of w] assms by (auto simp: holds_def)
  note l = set_bits_loop [OF this, of v off]
  show "length (bigint_set_bits ds v off len w) = length ds"
    using l by (simp add: bigint_set_bits_def)
  show "bit (dval (bigint_set_bits ds v off len w)) k \<longleftrightarrow>
      (if off \<le> k \<and> k < off + len \<and> k < w then bit v (k - off) else bit (dval ds) k)"
    using l by (auto simp: bigint_set_bits_def)
qed

lemma get_bits_loop:
  "end_bit \<le> 8 * length ds \<Longrightarrow> off \<le> iter \<Longrightarrow> bit (get_bits_loop ds v off iter end_bit) k \<longleftrightarrow>
     bit v k \<or> k < 64 \<and> iter \<le> k + off \<and> k + off < end_bit \<and> bit (dval ds) (k + off)"
proof (induction ds v off iter end_bit rule: get_bits_loop.induct)
  case (1 ds v off iter end_bit)
  show ?case
  proof (cases "iter < end_bit")
    case False
    then show ?thesis by (auto simp: get_bits_loop.simps [of ds v off iter end_bit])
  next
    case True
    let ?e = "chunk_end iter end_bit" and ?i = "iter div 8" and ?o = "iter mod 8"
    let ?c = "ucast (drop_bit ?o (ds ! ?i) AND low_mask (?e - iter)) :: 64 word"
    have i: "?i < length ds" using 1(2) True by simp
    note c = chunk_end [OF True] and pos = chunk_position [OF True refl]
    have step: "get_bits_loop ds v off iter end_bit = get_bits_loop ds (v OR push_bit (iter - off) ?c) off ?e end_bit"
      using True by (simp add: get_bits_loop.simps [of ds v off iter end_bit] Let_def DIGIT_BIT_def index_offset)
    have ih: "bit (get_bits_loop ds v off iter end_bit) k \<longleftrightarrow> bit (v OR push_bit (iter - off) ?c) k \<or>
        k < 64 \<and> ?e \<le> k + off \<and> k + off < end_bit \<and> bit (dval ds) (k + off)"
      using "1.IH" [OF True refl refl refl refl refl] 1(2,3) c(1) unfolding step
      by (simp add: Let_def DIGIT_BIT_def index_offset)
    have ch: "bit ?c m \<longleftrightarrow> m < ?e - iter \<and> bit (dval ds) (iter + m)" for m
    proof (cases "m < ?e - iter")
      case True
      have p: "(iter + m) div 8 = ?i" "?o \<le> (iter + m) mod 8" using pos(1) [of "iter + m"] True by auto
      have "(iter + m) mod 8 = ?o + m" using pos(2) [OF p(1)] p(2) by simp
      moreover from this have "?o + m < 8" using mod_less_divisor [of 8 "iter + m"] by linarith
      moreover note p(1)
      ultimately show ?thesis using True i by (auto simp: bit_simps bit_dval)
    next
      case False
      then show ?thesis by (auto simp: bit_simps)
    qed
    have "iter + (k - (iter - off)) = k + off" "k - (iter - off) < ?e - iter \<longleftrightarrow> k + off < ?e" if "iter \<le> k + off"
      using that 1(3) c(1) by auto
    moreover have "iter - off \<le> k \<longleftrightarrow> iter \<le> k + off" by auto
    ultimately show ?thesis unfolding ih bit_or_iff bit_push_bit_iff ch using c(1,2) by auto
  qed
qed

lemma bit_get_bits:
  assumes "holds ds w"
  shows "bit (bigint_get_bits ds off len w) k \<longleftrightarrow> k < 64 \<and> k < len \<and> k + off < w \<and> bit (dval ds) (k + off)"
proof -
  have "(if off + len > w then w else off + len) \<le> 8 * length ds"
    using digits_index(1) [of w] assms by (auto simp: holds_def)
  from get_bits_loop [OF this, of off off 0 k] show ?thesis unfolding bigint_get_bits_def by auto
qed

end
