(* ===== verification/Kefir_Bigint_Shift.thy ===== *)
theory Kefir_Bigint_Shift
  imports Kefir_Bigint_Value
begin

text \<open>Signs, tests for zero, bitwise operations and shifts, in terms of the bits of a number.\<close>

section \<open>Signs and zero\<close>

lemma get_sign_bit: "holds ds w \<Longrightarrow> bigint_get_sign ds w \<longleftrightarrow> 0 < w \<and> bit (dval ds) (w - 1)"
  using holds_index [of ds w "w - 1"]
  unfolding bigint_get_sign_def Let_def DIGIT_BIT_def index_offset by (auto simp: bit_dval)

lemma get_sign_sval: "holds ds w \<Longrightarrow> bigint_get_sign ds w \<longleftrightarrow> sval w ds < 0"
  by (auto simp: get_sign_bit sval_def)

lemma bit_digit_below:
  "j < length ds \<Longrightarrow> p < 8 \<Longrightarrow> bit (dval ds) (8 * j + p) \<longleftrightarrow> bit (ds ! j) p"
  by (simp add: bit_dval)

lemma digit_eq_0_iff: "d = (0 :: 8 word) \<longleftrightarrow> (\<forall>p < 8. \<not> bit d p)"
  by (auto simp: bit_eq_iff dest: bit_imp_le_length)

lemma masked_top_digit:
  assumes "0 < (w :: nat)"
  shows "8 * ((w - 1) div 8) + p < w \<longleftrightarrow> p < (w - 1) mod 8 + 1"
proof -
  have "w - 1 = 8 * ((w - 1) div 8) + (w - 1) mod 8" by simp
  then show ?thesis using assms(1) by linarith
qed

lemma is_zero_iff:
  assumes "holds ds w"
  shows "bigint_is_zero ds w \<longleftrightarrow> uval w ds = 0"
proof (cases "w = 0")
  case True
  then show ?thesis by (simp add: bigint_is_zero_def)
next
  case False
  let ?t = "BITS_TO_DIGITS w"
  let ?d = "\<lambda>i. if i + 1 = ?t then ds ! i AND low_mask ((w - 1) mod 8 + 1) else ds ! i"
  have t: "?t - 1 = (w - 1) div 8" "0 < ?t" "?t \<le> length ds"
    using False digits_index(3,4) [of w] assms by (auto simp: holds_def)
  have d: "bit (?d i) p \<longleftrightarrow> bit (uval w ds) (8 * i + p)" if "i < ?t" "p < 8" for i p
  proof (cases "i + 1 = ?t")
    case True
    then have "i = (w - 1) div 8" using t(1) by simp
    then show ?thesis using True that t masked_top_digit [of w p] False bit_digit_below [of i ds p]
      by (auto simp: bit_uval bit_and_iff)
  next
    case i: False
    then have "i + 1 \<le> (w - 1) div 8" using that t(1) by simp
    then have "8 * i + p < w" using that(2) False by linarith
    then show ?thesis using i that t bit_digit_below [of i ds p] by (auto simp: bit_uval)
  qed
  have "bigint_is_zero ds w \<longleftrightarrow> (\<forall>i < ?t. ?d i = 0)"
    using False unfolding bigint_is_zero_def Let_def DIGIT_BIT_def index_offset by (auto simp: list_all_iff)
  also have "\<dots> \<longleftrightarrow> (\<forall>i < ?t. \<forall>p < 8. \<not> bit (uval w ds) (8 * i + p))"
    unfolding digit_eq_0_iff using d by blast
  also have "\<dots> \<longleftrightarrow> (\<forall>k. \<not> bit (uval w ds) k)"
  proof (intro iffI allI impI notI)
    fix k assume a: "\<forall>i < ?t. \<forall>p < 8. \<not> bit (uval w ds) (8 * i + p)" "bit (uval w ds) k"
    then have "k div 8 < ?t" using digits_index(2) [of k w] by (simp add: bit_uval)
    then show False using a(1) [rule_format, of "k div 8" "k mod 8"] a(2) by simp
  qed blast
  finally show ?thesis by (simp add: bit_eq_iff)
qed

section \<open>Bitwise operations\<close>

lemma div_8_less: "k div 8 < n \<longleftrightarrow> k < 8 * (n :: nat)"
  by (simp add: less_mult_imp_div_less div_less_iff_less_mult mult.commute)

lemma bit_invert:
  assumes "holds ds w" "k < 8 * BITS_TO_DIGITS w"
  shows "bit (dval (bigint_invert ds w)) k \<longleftrightarrow> \<not> bit (dval ds) k"
  using assms by (auto simp: bit_dval bigint_invert_def holds_def nth_append div_8_less [symmetric] min_def bit_not_iff)

lemma length_bitwise [simp]:
  "length (bigint_invert ds w) = length ds"
  "holds ds w \<Longrightarrow> holds rs w \<Longrightarrow> length (digitwise f ds rs (BITS_TO_DIGITS w)) = length ds"
  by (auto simp: bigint_invert_def digitwise_def holds_def min_def)

lemma bit_digitwise:
  assumes "holds ds w" "holds rs w" "k < 8 * BITS_TO_DIGITS w"
    "\<And>x y p. p < 8 \<Longrightarrow> bit (f x y) p \<longleftrightarrow> g (bit x p) (bit y p)"
  shows "bit (dval (digitwise f ds rs (BITS_TO_DIGITS w))) k \<longleftrightarrow> g (bit (dval ds) k) (bit (dval rs) k)"
  using assms by (auto simp: bit_dval digitwise_def holds_def nth_append div_8_less [symmetric] min_def)

lemma uval_bitwise:
  assumes "holds ds w" "holds rs w"
  shows "uval w (bigint_and ds rs w) = uval w ds AND uval w rs"
    "uval w (bigint_or ds rs w) = uval w ds OR uval w rs"
    "uval w (bigint_xor ds rs w) = uval w ds XOR uval w rs"
    "uval w (bigint_invert ds w) = take_bit w (NOT (uval w ds))"
proof -
  have k: "k < 8 * BITS_TO_DIGITS w" if "k < w" for k using that digits_index(1) [of w] by simp
  show "uval w (bigint_and ds rs w) = uval w ds AND uval w rs"
    by (rule bit_eqI) (auto simp: bit_uval bit_and_iff bigint_and_def k bit_digitwise [OF assms, where g = "(\<and>)"])
  show "uval w (bigint_or ds rs w) = uval w ds OR uval w rs"
    by (rule bit_eqI) (auto simp: bit_uval bit_or_iff bigint_or_def k bit_digitwise [OF assms, where g = "(\<or>)"])
  show "uval w (bigint_xor ds rs w) = uval w ds XOR uval w rs"
    by (rule bit_eqI) (auto simp: bit_uval bit_xor_iff bigint_xor_def k bit_digitwise [OF assms, where g = "(\<noteq>)"])
  show "uval w (bigint_invert ds w) = take_bit w (NOT (uval w ds))"
    by (rule bit_eqI) (auto simp: bit_uval bit_take_bit_iff bit_not_iff k bit_invert [OF assms(1)])
qed

section \<open>The loops of the shifts\<close>

lemma left_shift_digits_loop:
  "0 < s \<Longrightarrow> n + s \<le> length ds \<Longrightarrow> length (left_shift_digits_loop s n ds) = length ds \<and>
     (\<forall>k. left_shift_digits_loop s n ds ! k = (if s \<le> k \<and> k < n + s then ds ! (k - s) else ds ! k))"
  by (induction n arbitrary: ds) (auto simp: nth_list_update)

lemma left_shift_bits_loop:
  "n < length ds \<Longrightarrow> length (left_shift_bits_loop s n ds) = length ds \<and>
     (\<forall>k. left_shift_bits_loop s n ds ! k =
        (if 0 < k \<and> k \<le> n then push_bit s (ds ! k) OR drop_bit (8 - s) (ds ! (k - 1)) else ds ! k))"
  by (induction n arbitrary: ds) (auto simp: nth_list_update DIGIT_BIT_def le_Suc_eq)

lemma right_shift_digits_loop:
  "0 < s \<Longrightarrow> i + n + s \<le> length ds \<Longrightarrow> length (right_shift_digits_loop s n i ds) = length ds \<and>
     (\<forall>k. right_shift_digits_loop s n i ds ! k = (if i \<le> k \<and> k < i + n then ds ! (k + s) else ds ! k))"
  by (induction n arbitrary: i ds) (auto simp: nth_list_update)

lemma right_shift_bits_loop:
  "i + n < length ds \<Longrightarrow> length (right_shift_bits_loop s n i ds) = length ds \<and>
     (\<forall>k. right_shift_bits_loop s n i ds ! k =
        (if i \<le> k \<and> k < i + n then drop_bit s (ds ! k) OR push_bit (8 - s) (ds ! (k + 1)) else ds ! k))"
  by (induction n arbitrary: i ds) (auto simp: nth_list_update DIGIT_BIT_def)

section \<open>Shifts\<close>

text \<open>
  A shift by \<open>8 * q + r\<close> bits moves whole digits by \<open>q\<close> and then bits by \<open>r\<close>. The lemmas speak of all bits of
  the digits that belong to the width.
\<close>

lemma bit_split_digit:
  assumes "k < 8 * n" "n \<le> length ds"
  shows "bit (dval ds) k \<longleftrightarrow> bit (ds ! (k div 8)) (k mod 8)"
  using assms by (auto simp: bit_dval div_8_less)

lemma bit_left_whole_digits:
  assumes "holds ds w" "0 < q" "q \<le> BITS_TO_DIGITS w" "k < 8 * BITS_TO_DIGITS w"
  shows "length (bigint_left_shift_whole_digits ds q w) = length ds"
    "bit (dval (bigint_left_shift_whole_digits ds q w)) k \<longleftrightarrow> 8 * q \<le> k \<and> bit (dval ds) (k - 8 * q)"
proof -
  let ?t = "BITS_TO_DIGITS w"
  have t: "?t \<le> length ds" using assms(1) by (simp add: holds_def)
  have l: "length (left_shift_digits_loop q (?t - q) ds) = length ds"
    "left_shift_digits_loop q (?t - q) ds ! j = (if q \<le> j \<and> j < ?t then ds ! (j - q) else ds ! j)" for j
    using left_shift_digits_loop [of q "?t - q" ds] assms(2,3) t by auto
  show len: "length (bigint_left_shift_whole_digits ds q w) = length ds"
    by (simp add: bigint_left_shift_whole_digits_def fold_update_upt l)
  have j: "k div 8 < ?t" using assms(4) by (simp add: div_8_less)
  have "bigint_left_shift_whole_digits ds q w ! (k div 8) = (if q \<le> k div 8 then ds ! (k div 8 - q) else 0)"
    using j t by (auto simp: bigint_left_shift_whole_digits_def fold_update_upt l)
  moreover have "q \<le> k div 8 \<longleftrightarrow> 8 * q \<le> k" by (metis div_8_less not_le)
  moreover have "(k - 8 * q) div 8 = k div 8 - q" "(k - 8 * q) mod 8 = k mod 8" if "8 * q \<le> k"
    using that by (auto simp: div_mult_self1 mod_mult_self2 elim!: le_Suc_ex [THEN exE])
  moreover have "k div 8 - q < length ds" using j t by linarith
  ultimately show "bit (dval (bigint_left_shift_whole_digits ds q w)) k \<longleftrightarrow> 8 * q \<le> k \<and> bit (dval ds) (k - 8 * q)"
    using j t len by (auto simp: bit_dval)
qed

lemma bit_left_stage:
  assumes "0 < r" "r < 8" "0 < n" "n \<le> length ds" "k < 8 * n"
  defines "ls \<equiv> left_shift_bits_loop r (n - 1) ds"
  shows "length (ls[0 := push_bit r (ls ! 0)]) = length ds"
    "bit (dval (ls[0 := push_bit r (ls ! 0)])) k \<longleftrightarrow> r \<le> k \<and> bit (dval ds) (k - r)"
proof -
  have l: "length ls = length ds"
    "ls ! j = (if 0 < j \<and> j \<le> n - 1 then push_bit r (ds ! j) OR drop_bit (8 - r) (ds ! (j - 1)) else ds ! j)" for j
    using left_shift_bits_loop [of "n - 1" ds r] assms(3,4) by (auto simp: ls_def)
  show len: "length (ls[0 := push_bit r (ls ! 0)]) = length ds" by (simp add: l)
  have j: "k div 8 < n" "k mod 8 < 8" using assms(5) by (auto simp: div_8_less)
  have d: "ls[0 := push_bit r (ls ! 0)] ! (k div 8) =
      (if 0 < k div 8 then push_bit r (ds ! (k div 8)) OR drop_bit (8 - r) (ds ! (k div 8 - 1)) else push_bit r (ds ! 0))"
  proof -
    have "0 < length ls" using assms(3,4) l(1) by linarith
    then show ?thesis using j by (auto simp: l(2))
  qed
  have b: "bit (dval (ls[0 := push_bit r (ls ! 0)])) k \<longleftrightarrow> bit (ls[0 := push_bit r (ls ! 0)] ! (k div 8)) (k mod 8)"
    using j assms(4) len by (simp add: bit_dval)
  define q p where qp: "q = k div 8" "p = k mod 8"
  have k: "k = 8 * q + p" "p < 8" by (simp_all add: qp)
  show "bit (dval (ls[0 := push_bit r (ls ! 0)])) k \<longleftrightarrow> r \<le> k \<and> bit (dval ds) (k - r)"
  proof (cases "r \<le> p")
    case True
    then have "(k - r) div 8 = q" "(k - r) mod 8 = p - r"
      using k by (auto simp: div_nat_eqI mod_nat_eqI)
    then show ?thesis unfolding b d using True k j assms(1,2,4) unfolding qp [symmetric]
      by (auto simp: bit_simps bit_dval dest: bit_imp_le_length)
  next
    case False
    show ?thesis
    proof (cases q)
      case 0
      then show ?thesis unfolding b d using False k assms(1,2) unfolding qp [symmetric] by (auto simp: bit_simps)
    next
      case (Suc q')
      have "(k - r) div 8 = q'" "(k - r) mod 8 = 8 + p - r"
        using k Suc False assms(2) by (auto simp: div_nat_eqI mod_nat_eqI)
      then show ?thesis unfolding b d using False k j assms(1,2,4) Suc unfolding qp [symmetric]
        by (auto simp: bit_simps bit_dval dest: bit_imp_le_length)
    qed
  qed
qed

lemma bit_left_shift:
  assumes "holds ds w" "k < w"
  shows "length (bigint_left_shift ds s w) = length ds"
    "bit (dval (bigint_left_shift ds s w)) k \<longleftrightarrow> s \<le> k \<and> bit (dval ds) (k - s)"
proof -
  define s' where "s' = min s w"
  define q r where qr: "q = s' div 8" "r = s' mod 8"
  let ?t = "BITS_TO_DIGITS w"
  have s': "s' = 8 * q + r" "r < 8" "s' \<le> w" by (simp_all add: qr s'_def)
  have q: "q \<le> ?t" using s' digits_index(1) [of w] by linarith
  have t: "0 < ?t" "?t \<le> length ds" using assms digits_index(4) [of w] by (auto simp: holds_def)
  let ?m = "if 0 < q then bigint_left_shift_whole_digits ds q w else ds"
  have k8: "j < 8 * ?t" if "j \<le> k" for j using that assms(2) digits_index(1) [of w] by simp
  have m: "length ?m = length ds" "bit (dval ?m) j \<longleftrightarrow> 8 * q \<le> j \<and> bit (dval ds) (j - 8 * q)" if "j \<le> k" for j
    using bit_left_whole_digits [OF assms(1) _ q k8 [OF that]] by auto
  have len: "?t \<le> length ?m" using m(1) [of k] t by simp
  let ?l = "left_shift_bits_loop r (?t - 1) ?m"
  have "(if s > w then w else s) = s'" by (simp add: s'_def)
  then have e: "bigint_left_shift ds s w = (if 0 < r then ?l[0 := push_bit r (?l ! 0)] else ?m)"
    unfolding bigint_left_shift_def DIGIT_BIT_def Let_def qr by (auto simp: minus_div_mult_eq_mod)
  have l: "length (?l[0 := push_bit r (?l ! 0)]) = length ds"
    "bit (dval (?l[0 := push_bit r (?l ! 0)])) k \<longleftrightarrow> r \<le> k \<and> bit (dval ?m) (k - r)" if "0 < r"
    using bit_left_stage [OF that s'(2) t(1) len k8 [OF order_refl]] m(1) [of k] by auto
  show "length (bigint_left_shift ds s w) = length ds" using l(1) m(1) [of k] by (simp add: e)
  have "bit (dval (bigint_left_shift ds s w)) k \<longleftrightarrow> s' \<le> k \<and> bit (dval ds) (k - s')"
  proof (cases "0 < r")
    case True
    then show ?thesis using l(2) m(2) [of "k - r"] s'(1) by (auto simp: e add.commute)
  next
    case False
    then show ?thesis using m(2) [of k] s'(1) by (simp add: e)
  qed
  also have "\<dots> \<longleftrightarrow> s \<le> k \<and> bit (dval ds) (k - s)" using assms(2) by (auto simp: s'_def min_def)
  finally show "bit (dval (bigint_left_shift ds s w)) k \<longleftrightarrow> s \<le> k \<and> bit (dval ds) (k - s)" .
qed

lemma bit_right_whole_digits:
  assumes "holds ds w" "0 < q" "k < 8 * BITS_TO_DIGITS w"
  shows "length (bigint_right_shift_whole_digits ds q sign w) = length ds"
    "bit (dval (bigint_right_shift_whole_digits ds q sign w)) k \<longleftrightarrow>
      (if k + 8 * q < 8 * BITS_TO_DIGITS w then bit (dval ds) (k + 8 * q) else sign)"
proof -
  let ?t = "BITS_TO_DIGITS w" and ?s = "if sign then NOT 0 else 0 :: 8 word"
  have t: "?t \<le> length ds" using assms(1) by (simp add: holds_def)
  have j: "k div 8 < ?t" "k mod 8 < 8" using assms(3) by (auto simp: div_8_less)
  have s: "bit ?s (k mod 8) = sign" using j by (simp add: bit_not_iff)
  let ?r = "bigint_right_shift_whole_digits ds q sign w"
  have "length ?r = length ds \<and> ?r ! (k div 8) = (if k div 8 + q < ?t then ds ! (k div 8 + q) else ?s)"
  proof (cases "q \<ge> ?t")
    case True
    then show ?thesis using j t by (simp add: bigint_right_shift_whole_digits_def Let_def fold_update_upt)
  next
    case False
    have l: "length (right_shift_digits_loop q (?t - q) 0 ds) = length ds"
      "right_shift_digits_loop q (?t - q) 0 ds ! i = (if i < ?t - q then ds ! (i + q) else ds ! i)" for i
      using right_shift_digits_loop [of q 0 "?t - q" ds] assms(2) t False by auto
    show ?thesis using False j t by (auto simp: bigint_right_shift_whole_digits_def Let_def fold_update_upt l)
  qed
  note r = conjunct1 [OF this] conjunct2 [OF this]
  show "length ?r = length ds" by (rule r(1))
  have "(k + 8 * q) div 8 = k div 8 + q" "(k + 8 * q) mod 8 = k mod 8" by simp_all
  moreover have "k div 8 + q < ?t \<longleftrightarrow> k + 8 * q < 8 * ?t" using div_8_less [of "k + 8 * q" ?t] by (simp add: add.commute)
  ultimately show "bit (dval ?r) k \<longleftrightarrow> (if k + 8 * q < 8 * ?t then bit (dval ds) (k + 8 * q) else sign)"
    using j t s r by (auto simp: bit_dval add.commute)
qed

text \<open>
  The bits stage of a right shift, for the digits below the last one and for the last one, whatever the
  routine does with the last digit after it has been shifted.
\<close>

lemma bit_right_stage:
  assumes "0 < r" "r < 8" "0 < n" "n \<le> length ds" "k < 8 * n"
  defines "rs \<equiv> right_shift_bits_loop r (n - 1) 0 ds"
  shows "length (rs[n - 1 := d]) = length ds"
    "rs ! (n - 1) = ds ! (n - 1)"
    "bit (dval (rs[n - 1 := d])) k \<longleftrightarrow>
      (if k div 8 = n - 1 then bit d (k mod 8) else bit (dval ds) (k + r))"
proof -
  have l: "length rs = length ds"
    "rs ! j = (if j < n - 1 then drop_bit r (ds ! j) OR push_bit (8 - r) (ds ! (j + 1)) else ds ! j)" for j
    using right_shift_bits_loop [of 0 "n - 1" ds r] assms(3,4) by (auto simp: rs_def)
  show len: "length (rs[n - 1 := d]) = length ds" by (simp add: l)
  show "rs ! (n - 1) = ds ! (n - 1)" by (simp add: l)
  define q p where qp: "q = k div 8" "p = k mod 8"
  have k: "k = 8 * q + p" "p < 8" "q < n" using assms(5) by (simp_all add: qp div_8_less)
  have "bit (drop_bit r (ds ! q) OR push_bit (8 - r) (ds ! (q + 1))) p \<longleftrightarrow> bit (dval ds) (k + r)" if "q + 1 < n"
  proof (cases "p + r < 8")
    case True
    then have "(k + r) div 8 = q" "(k + r) mod 8 = p + r" using k by (auto simp: div_nat_eqI mod_nat_eqI)
    then show ?thesis using True k that assms(4) by (auto simp: bit_simps bit_dval add.commute)
  next
    case False
    then have "(k + r) div 8 = q + 1" "(k + r) mod 8 = p + r - 8"
      using k assms(2) by (auto simp: div_nat_eqI mod_nat_eqI)
    then show ?thesis using False k that assms(1,2,4)
      by (auto simp: bit_simps bit_dval add.commute dest: bit_imp_le_length)
  qed
  then show "bit (dval (rs[n - 1 := d])) k \<longleftrightarrow>
      (if k div 8 = n - 1 then bit d (k mod 8) else bit (dval ds) (k + r))"
    using k assms(3,4) len unfolding bit_dval [of "rs[n - 1 := d]"] qp [symmetric]
    by (auto simp: l nth_list_update)
qed

text \<open>The part that both right shifts share: whole digits, then bits, then a last digit of the routine's choice.\<close>

lemma bit_right_shift_parts:
  assumes "holds ds w" "0 < w" "s = 8 * q + r" "r < 8" "k < 8 * BITS_TO_DIGITS w"
    and last: "\<And>p. 0 < r \<Longrightarrow> p < 8 \<Longrightarrow> bit d p \<longleftrightarrow>
      (if 8 * (BITS_TO_DIGITS w - 1) + p + s < 8 * BITS_TO_DIGITS w
       then bit (dval ds) (8 * (BITS_TO_DIGITS w - 1) + p + s) else sign)"
  defines "moved \<equiv> (if 0 < q then bigint_right_shift_whole_digits ds q sign w else ds)"
  defines "shifted \<equiv> (if 0 < r then (right_shift_bits_loop r (BITS_TO_DIGITS w - 1) 0 moved)[BITS_TO_DIGITS w - 1 := d] else moved)"
  shows "length shifted = length ds"
    "bit (dval shifted) k \<longleftrightarrow> (if k + s < 8 * BITS_TO_DIGITS w then bit (dval ds) (k + s) else sign)"
proof -
  let ?t = "BITS_TO_DIGITS w"
  have t: "0 < ?t" "?t \<le> length ds" using assms(1,2) digits_index(4) [of w] by (auto simp: holds_def)
  have m: "length moved = length ds"
    "bit (dval moved) j \<longleftrightarrow> (if j + 8 * q < 8 * ?t then bit (dval ds) (j + 8 * q) else sign)" if "j < 8 * ?t" for j
    using bit_right_whole_digits [OF assms(1) _ that, of q sign] that by (auto simp: moved_def)
  have len: "?t \<le> length moved" using m(1) [OF assms(5)] t by simp
  show "length shifted = length ds"
    using bit_right_stage(1) [OF _ assms(4) t(1) len assms(5)] m(1) [OF assms(5)] by (auto simp: shifted_def)
  show "bit (dval shifted) k \<longleftrightarrow> (if k + s < 8 * ?t then bit (dval ds) (k + s) else sign)"
  proof (cases "0 < r")
    case False
    then show ?thesis using m(2) [OF assms(5)] assms(3) by (simp add: shifted_def)
  next
    case True
    note st = bit_right_stage(3) [OF True assms(4) t(1) len assms(5), of d]
    show ?thesis
    proof (cases "k div 8 = ?t - 1")
      case k: True
      have e: "8 * (?t - 1) + k mod 8 = k" using k [symmetric] by simp
      show ?thesis using last [OF True, of "k mod 8"] st True k unfolding e by (simp add: shifted_def)
    next
      case False
      then have "k div 8 < ?t - 1" using assms(5) div_8_less [of k ?t] by simp
      then have "k + r < 8 * ?t" using div_8_less [of k "?t - 1"] assms(4) by simp
      then show ?thesis using st False True m(2) [of "k + r"] assms(3) by (simp add: shifted_def add.assoc add.commute)
    qed
  qed
qed

lemma bit_masked_width:
  assumes "holds ds w" "0 < w" "k < 8 * BITS_TO_DIGITS w"
  shows "bit (dval (ds[BITS_TO_DIGITS w - 1 := ds ! (BITS_TO_DIGITS w - 1) AND low_mask (w - (BITS_TO_DIGITS w - 1) * 8)])) k \<longleftrightarrow>
    k < w \<and> bit (dval ds) k"
proof -
  obtain t where w: "w = Suc t" using assms(2) by (cases w) auto
  have n: "BITS_TO_DIGITS w - 1 = t div 8" using digits_index(3) [OF assms(2)] w by simp
  have i: "t div 8 < length ds" using holds_index [of ds w t] assms w by simp
  have m: "w - t div 8 * 8 = t mod 8 + 1"
    using w by (metis Suc_diff_le Suc_eq_plus1 div_times_less_eq_dividend index_offset)
  have "k div 8 \<le> t div 8" using assms(3) div_8_less [of k "BITS_TO_DIGITS w"] n by simp
  then show ?thesis unfolding n m bit_masked [OF i] using w earlier_digit [of k t] by (auto simp: le_less)
qed

lemma bit_right_shift:
  assumes "holds ds w" "0 < w" "k < 8 * BITS_TO_DIGITS w"
  shows "length (bigint_right_shift ds s w) = length ds"
    "bit (dval (bigint_right_shift ds s w)) k \<longleftrightarrow> k + s < w \<and> bit (dval ds) (k + s)"
proof -
  define s' where "s' = min s w"
  define q r where qr: "q = s' div 8" "r = s' mod 8"
  let ?t = "BITS_TO_DIGITS w"
  let ?mask = "low_mask (w - (?t - 1) * 8)"
  define ms where "ms = ds[?t - 1 := ds ! (?t - 1) AND ?mask]"
  have s': "s' = 8 * q + r" "r < 8" by (simp_all add: qr)
  have h: "holds ms w" "?t \<le> length ms" "0 < ?t" using assms digits_index(4) [of w] by (auto simp: holds_def ms_def)
  have ms: "bit (dval ms) j \<longleftrightarrow> j < w \<and> bit (dval ds) j" if "j < 8 * ?t" for j
    unfolding ms_def by (rule bit_masked_width [OF assms(1,2) that])
  define moved where "moved = (if 0 < q then bigint_right_shift_whole_digits ms q False w else ms)"
  have mv: "length moved = length ms"
    "bit (dval moved) j \<longleftrightarrow> j + 8 * q < w \<and> bit (dval ds) (j + 8 * q)" if "j < 8 * ?t" for j
    using bit_right_whole_digits [OF h(1) _ that, of q False] ms [of "j + 8 * q"] ms [OF that] digits_index(1) [of w]
    by (auto simp: moved_def)
  let ?rs = "right_shift_bits_loop r (?t - 1) 0 moved"
  let ?d = "drop_bit r (moved ! (?t - 1) AND ?mask)"
  have top: "?rs ! (?t - 1) = moved ! (?t - 1)" "?t - 1 < length ?rs" if "0 < r"
  proof -
    have l: "?t \<le> length moved" using mv(1) [OF assms(3)] h by simp
    show "?rs ! (?t - 1) = moved ! (?t - 1)" by (rule bit_right_stage(2) [OF that s'(2) h(3) l assms(3)])
    show "?t - 1 < length ?rs" using bit_right_stage(1) [OF that s'(2) h(3) l assms(3)] l h(3) by simp
  qed
  have "(if s > w then w else s) = s'" by (simp add: s'_def)
  then have e: "bigint_right_shift ds s w = (if 0 < r then ?rs[?t - 1 := ?d] else moved)"
    using top unfolding bigint_right_shift_def DIGIT_BIT_def Let_def ms_def [symmetric] qr [symmetric]
    by (auto simp: moved_def minus_div_mult_eq_mod qr)
  have last: "bit ?d p \<longleftrightarrow> (if 8 * (?t - 1) + p + s' < 8 * ?t then bit (dval ms) (8 * (?t - 1) + p + s') else False)"
    if "p < 8" for p
  proof -
    define b where "b = 8 * (?t - 1)"
    have b: "8 * ?t = b + 8" "b < w" "w - (?t - 1) * 8 = w - b"
      using h(3) digits_index(5) [OF assms(2)] by (auto simp: b_def)
    have "bit ?d p \<longleftrightarrow> p + r < 8 \<and> p + r < w - b \<and> bit (dval moved) (b + (p + r))"
      using h mv(1) [OF assms(3)] bit_digit_below [of "?t - 1" moved "p + r"] unfolding b(3) b_def [symmetric]
      by (auto simp: bit_simps add.commute dest: bit_imp_le_length)
    also have "\<dots> \<longleftrightarrow> p + r < 8 \<and> b + p + s' < w \<and> bit (dval ds) (b + p + s')"
      using mv(2) [of "b + (p + r)"] unfolding b(1) by (auto simp: s'(1) ac_simps)
    also have "\<dots> \<longleftrightarrow> b + p + s' < 8 * ?t \<and> bit (dval ms) (b + p + s')"
      using ms [of "b + p + s'"] digits_index(1) [of w] unfolding b(1) by (auto simp: s'(1))
    also have "\<dots> \<longleftrightarrow> 8 * (?t - 1) + p + s' < 8 * ?t \<and> bit (dval ms) (8 * (?t - 1) + p + s')" unfolding b_def by simp
    finally show ?thesis by simp
  qed
  note parts = bit_right_shift_parts [OF h(1) assms(2) s' assms(3) last, folded moved_def]
  show "length (bigint_right_shift ds s w) = length ds" using parts(1) unfolding e by (simp add: ms_def)
  have "bit (dval (bigint_right_shift ds s w)) k \<longleftrightarrow> k + s' < w \<and> bit (dval ds) (k + s')"
    using parts(2) ms [of "k + s'"] digits_index(1) [of w] unfolding e by auto
  also have "\<dots> \<longleftrightarrow> k + s < w \<and> bit (dval ds) (k + s)" by (auto simp: s'_def min_def)
  finally show "bit (dval (bigint_right_shift ds s w)) k \<longleftrightarrow> k + s < w \<and> bit (dval ds) (k + s)" .
qed

lemma bit_extended_width:
  assumes "holds ds w" "0 < w" "k < 8 * BITS_TO_DIGITS w"
  shows "bit (dval (ds[BITS_TO_DIGITS w - 1 :=
      extend_sign_from (bit (dval ds) (w - 1)) ((w - 1) mod 8) (ds ! (BITS_TO_DIGITS w - 1))])) k \<longleftrightarrow>
    bit (sval w ds) k"
proof -
  obtain t where w: "w = Suc t" using assms(2) by (cases w) auto
  have n: "BITS_TO_DIGITS w - 1 = t div 8" using digits_index(3) [OF assms(2)] w by simp
  have i: "t div 8 < length ds" using holds_index [of ds w t] assms w by simp
  have k: "k div 8 \<le> t div 8" using assms(3) div_8_less [of k "BITS_TO_DIGITS w"] n by simp
  have "k < t" if "k div 8 < t div 8" by (rule earlier_digit [OF that])
  then have "(if k div 8 = t div 8 \<and> t \<le> k then bit (dval ds) t else bit (dval ds) k) \<longleftrightarrow>
      bit (dval ds) (if k < w then k else t)"
    using k w by (auto simp: le_less less_Suc_eq)
  then show ?thesis using w unfolding n bit_sval [OF assms(2)] by (simp add: bit_extended [OF i] del: One_nat_def)
qed

lemma bit_arithmetic_right_shift:
  assumes "holds ds w" "0 < w" "k < 8 * BITS_TO_DIGITS w"
  shows "length (bigint_arithmetic_right_shift ds s w) = length ds"
    "bit (dval (bigint_arithmetic_right_shift ds s w)) k \<longleftrightarrow> bit (sval w ds) (k + s)"
proof -
  define s' where "s' = min s w"
  define q r where qr: "q = s' div 8" "r = s' mod 8"
  let ?t = "BITS_TO_DIGITS w" and ?off = "(w - 1) mod 8"
  define sign where "sign = bit (dval ds) (w - 1)"
  define ex where "ex = ds[?t - 1 := extend_sign_from sign ?off (ds ! (?t - 1))]"
  have s': "s' = 8 * q + r" "r < 8" by (simp_all add: qr)
  have t1: "(w - 1) div 8 = ?t - 1" by (rule digits_index(3) [OF assms(2), symmetric])
  have h: "holds ex w" "?t \<le> length ex" "0 < ?t" using assms digits_index(4) [of w] by (auto simp: holds_def ex_def)
  have ex: "bit (dval ex) j \<longleftrightarrow> bit (sval w ds) j" if "j < 8 * ?t" for j
    unfolding ex_def sign_def by (rule bit_extended_width [OF assms(1,2) that])
  have beyond: "bit (sval w ds) j \<longleftrightarrow> sign" if "w - 1 \<le> j" for j
    using that by (auto simp: bit_sval [OF assms(2)] sign_def less_Suc_eq dest: le_antisym)
  have sg: "digit_bit (ds ! ((w - 1) div 8)) ?off = sign"
    using holds_index [of ds w "w - 1"] assms by (simp add: sign_def bit_dval)
  define moved where "moved = (if 0 < q then bigint_right_shift_whole_digits ex q sign w else ex)"
  have w8: "w - 1 < 8 * ?t" using digits_index(1) [of w] assms(2) by simp
  have mv: "length moved = length ex" "bit (dval moved) j \<longleftrightarrow> bit (sval w ds) (j + 8 * q)" if "j < 8 * ?t" for j
    using bit_right_whole_digits [OF h(1) _ that, of q sign] ex [of "j + 8 * q"] ex [OF that] w8 beyond [of "j + 8 * q"]
    by (auto simp: moved_def)
  let ?rs = "right_shift_bits_loop r (?t - 1) 0 moved"
  let ?mo = "if r \<le> ?off then ?off - r + 1 else 0"
  let ?d = "extend_sign_from sign ?mo (drop_bit r (moved ! (?t - 1)))"
  have top: "?rs ! (?t - 1) = moved ! (?t - 1)" "?t - 1 < length ?rs" if "0 < r"
  proof -
    have l: "?t \<le> length moved" using mv(1) [OF assms(3)] h by simp
    show "?rs ! (?t - 1) = moved ! (?t - 1)" by (rule bit_right_stage(2) [OF that s'(2) h(3) l assms(3)])
    show "?t - 1 < length ?rs" using bit_right_stage(1) [OF that s'(2) h(3) l assms(3)] l h(3) by simp
  qed
  have "(if s > w then w else s) = s'" by (simp add: s'_def)
  then have e: "bigint_arithmetic_right_shift ds s w = (if 0 < r then ?rs[?t - 1 := ?d] else moved)"
    using top assms(2) unfolding bigint_arithmetic_right_shift_def DIGIT_BIT_def Let_def index_offset sg ex_def [symmetric]
    by (auto simp: moved_def minus_div_mult_eq_mod qr)
  define b where "b = 8 * (?t - 1)"
  have b: "8 * ?t = b + 8" "w - 1 = b + ?off"
    using h(3) t1 mult_div_mod_eq [of 8 "w - 1"] by (auto simp: b_def)
  have last: "bit ?d p \<longleftrightarrow> (if 8 * (?t - 1) + p + s' < 8 * ?t then bit (dval ex) (8 * (?t - 1) + p + s') else sign)"
    if "p < 8" for p
  proof -
    have mvp: "bit (moved ! (?t - 1)) (p + r) \<longleftrightarrow> bit (sval w ds) (b + p + s')" if "p + r < 8"
      using mv(2) [of "b + (p + r)"] mv(1) [OF assms(3)] bit_digit_below [of "?t - 1" moved "p + r"] h that
      unfolding b(1) b_def [symmetric] by (simp add: s'(1) ac_simps)
    have "bit ?d p \<longleftrightarrow> bit (sval w ds) (b + p + s')"
    proof (cases "p < ?mo")
      case True
      then have "p + r \<le> ?off" by (auto split: if_splits)
      moreover have "?off < 8" by simp
      ultimately have "p + r < 8" by (rule le_less_trans)
      then show ?thesis using True that mvp by (simp add: bit_extend_sign_from bit_drop_bit_eq add.commute)
    next
      case False
      then have "?off \<le> p + r" by (auto split: if_splits)
      then have "w - 1 \<le> b + p + s'" using b(2) s'(1) by linarith
      then show ?thesis using False that beyond by (simp add: bit_extend_sign_from)
    qed
    also have "\<dots> \<longleftrightarrow> (if b + p + s' < 8 * ?t then bit (dval ex) (b + p + s') else sign)"
      using ex [of "b + p + s'"] beyond [of "b + p + s'"] w8 by auto
    finally show ?thesis by (simp add: b_def)
  qed
  note parts = bit_right_shift_parts [OF h(1) assms(2) s' assms(3) last, folded moved_def]
  show "length (bigint_arithmetic_right_shift ds s w) = length ds" using parts(1) unfolding e by (simp add: ex_def)
  have "bit (dval (bigint_arithmetic_right_shift ds s w)) k \<longleftrightarrow> bit (sval w ds) (k + s')"
    using parts(2) ex [of "k + s'"] beyond [of "k + s'"] w8 unfolding e by auto
  also have "\<dots> \<longleftrightarrow> bit (sval w ds) (k + s)" using beyond by (auto simp: s'_def min_def)
  finally show "bit (dval (bigint_arithmetic_right_shift ds s w)) k \<longleftrightarrow> bit (sval w ds) (k + s)" .
qed

section \<open>Shifts as arithmetic\<close>

lemma uval_left_shift: "holds ds w \<Longrightarrow> uval w (bigint_left_shift ds s w) = take_bit w (push_bit s (uval w ds))"
  by (rule bit_eqI) (auto simp: bit_uval bit_take_bit_iff bit_push_bit_iff bit_left_shift)

lemma uval_right_shift: "holds ds w \<Longrightarrow> 0 < w \<Longrightarrow> uval w (bigint_right_shift ds s w) = drop_bit s (uval w ds)"
proof -
  assume a: "holds ds w" "0 < w"
  have "k < 8 * BITS_TO_DIGITS w" if "k < w" for k using that digits_index(1) [of w] by simp
  then show ?thesis
    by (intro bit_eqI) (auto simp: bit_uval bit_drop_bit_eq bit_right_shift(2) [OF a] add.commute)
qed

lemma sval_arithmetic_right_shift:
  assumes "holds ds w"
  shows "sval w (bigint_arithmetic_right_shift ds s w) = drop_bit s (sval w ds)"
proof (cases "w = 0")
  case True
  then show ?thesis by (simp add: sval_def)
next
  case False
  then have w: "0 < w" by simp
  have b: "k < 8 * BITS_TO_DIGITS w" if "k < w" for k using that digits_index(1) [of w] by simp
  have "bit (sval w ds) (w - 1 + s) \<longleftrightarrow> bit (sval w ds) (k + s)" if "w \<le> k" for k
  proof -
    have "bit (sval w ds) j \<longleftrightarrow> bit (dval ds) (w - 1)" if "w - 1 \<le> j" for j
      using that w by (auto simp: bit_sval dest: le_antisym simp: less_Suc_eq)
    then show ?thesis using that by simp
  qed
  then show ?thesis
    using b w by (intro bit_eqI) (auto simp: bit_sval [OF w, of "bigint_arithmetic_right_shift ds s w"]
        bit_drop_bit_eq bit_arithmetic_right_shift(2) [OF assms w] add.commute)
qed

end
