(* ===== verification/Kefir_Bigint_Arith.thy ===== *)
theory Kefir_Bigint_Arith
  imports Kefir_Bigint_Shift
begin

text \<open>
  Addition, subtraction, negation, unsigned multiplication and comparison compute on the numbers what
  they should modulo a power of two.
\<close>

section \<open>Congruence modulo the width\<close>

lemma take_bit_cong_dvd: "2 ^ w dvd x - y \<Longrightarrow> take_bit w x = take_bit w (y :: int)"
  by (simp add: take_bit_eq_mod mod_eq_dvd_iff)

lemma dvd_take_bit: "2 ^ w dvd x - take_bit w (x :: int)"
  by (simp add: take_bit_eq_mod)

lemma pow_256: "256 ^ n = (2 :: int) ^ (8 * n)"
  by (simp add: power_mult)

lemma take_bit_drop_high: "w \<le> 8 * n \<Longrightarrow> take_bit w (x + 256 ^ n * c) = take_bit w (x :: int)"
  by (rule take_bit_cong_dvd) (simp add: pow_256 le_imp_power_dvd dvd_mult2)

lemma take_bit_reduce:
  "take_bit w (take_bit w x + y) = take_bit w (x + y :: int)"
  "take_bit w (x + take_bit w y) = take_bit w (x + y :: int)"
  "take_bit w (take_bit w x - y) = take_bit w (x - y :: int)"
  "take_bit w (x - take_bit w y) = take_bit w (x - y :: int)"
  by (simp_all add: take_bit_eq_mod mod_simps)

lemma take_bit_arith_cong:
  assumes "take_bit w x = take_bit w x'" "take_bit w y = take_bit w y'"
  shows "take_bit w (x + y :: int) = take_bit w (x' + y')" "take_bit w (x - y :: int) = take_bit w (x' - y')"
  using assms by (metis take_bit_reduce(1,2), metis take_bit_reduce(3,4))

lemma take_bit_mult_cong: "take_bit w (take_bit w x * y) = take_bit w (x * y :: int)"
  by (metis mod_mult_left_eq take_bit_eq_mod)

lemma holds_width: "holds ds w \<Longrightarrow> BITS_TO_DIGITS w \<le> length ds" "w \<le> 8 * BITS_TO_DIGITS w"
  using digits_index(1) by (auto simp: holds_def)

section \<open>Digit sums\<close>

lemma uint_digit_less: "uint (d :: 8 word) < 256"
  using uint_lt2p [of d] by simp

lemma dval_less: "dval ds < 256 ^ length ds"
proof (induction ds)
  case (Cons d ds)
  have "uint d + 256 * dval ds < 256 + 256 * (256 ^ length ds - 1)" using Cons uint_digit_less [of d] by simp
  then show ?case by (simp add: algebra_simps)
qed simp

lemma uint_ucast_digit [simp]: "uint (ucast (d :: 8 word) :: 32 word) = uint d"
  using uint_digit_less [of d] by (simp add: unsigned_ucast_eq take_bit_int_eq_self_iff)

lemma ucast_ucast_digit [simp]: "ucast (ucast (d :: 8 word) :: 32 word) = d"
  by (rule bit_word_eqI) (simp add: bit_ucast_iff)

lemma uint_digit_sum:
  assumes "uint c \<le> 1" "uint g < 256"
  shows "uint (c + ucast (d :: 8 word) + g :: 32 word) = uint c + uint d + uint g"
proof -
  have "0 \<le> uint c + uint d + uint g" "uint c + uint d + uint g < 2 ^ 32"
    using assms uint_digit_less [of d] by auto
  then show ?thesis by (simp add: uint_word_ariths mod_simps)
qed

lemma uint_split_digit:
  fixes x :: "32 word"
  shows "uint (ucast x :: 8 word) = uint x mod 256" "uint (drop_bit 8 x) = uint x div 256"
  by (simp_all add: unsigned_ucast_eq take_bit_eq_mod drop_bit_eq_div uint_div)

definition low_digits :: "(nat \<Rightarrow> 32 word) \<Rightarrow> nat \<Rightarrow> nat \<Rightarrow> digits" where
  "low_digits g i n = map (\<lambda>j. ucast (g j)) [i..<i + n]"

lemma low_digits_simps [simp]:
  "low_digits g i 0 = []"
  "low_digits g i (Suc n) = ucast (g i) # low_digits g (i + 1) n"
  by (simp_all add: low_digits_def upt_conv_Cons del: upt_Suc)

lemma add_loop:
  assumes "\<And>j. uint (g j) < 256"
  shows "n \<le> length ds \<Longrightarrow> uint c \<le> 1 \<Longrightarrow> length (add_loop g n i c ds) = length ds \<and>
    (\<exists>c'. dval (take n (add_loop g n i c ds)) + 256 ^ n * c' = dval (take n ds) + dval (low_digits g i n) + uint c)"
proof (induction n arbitrary: i c ds)
  case 0
  then show ?case by (auto intro: exI [of _ "uint c"])
next
  case (Suc n)
  then obtain d ds' where ds: "ds = d # ds'" by (cases ds) auto
  let ?s = "c + ucast d + g i :: 32 word"
  have s: "uint ?s = uint c + uint d + uint (g i)" by (rule uint_digit_sum [OF Suc.prems(2) assms])
  then have "uint (drop_bit 8 ?s) \<le> 1" using Suc.prems(2) assms [of i] uint_digit_less [of d] by (simp add: uint_split_digit)
  then obtain c' where ih: "length (add_loop g n (i + 1) (drop_bit 8 ?s) ds') = length ds'"
    "dval (take n (add_loop g n (i + 1) (drop_bit 8 ?s) ds')) + 256 ^ n * c' =
      dval (take n ds') + dval (low_digits g (i + 1) n) + uint (drop_bit 8 ?s)"
    using Suc.IH [of ds' "drop_bit 8 ?s" "i + 1"] Suc.prems ds by auto
  have g: "uint (ucast (g i) :: 8 word) = uint (g i)" using assms [of i] by (simp add: uint_split_digit)
  have "uint (ucast ?s :: 8 word) + 256 * uint (drop_bit 8 ?s) = uint c + uint d + uint (g i)"
    unfolding uint_split_digit s by simp
  then have "dval (take (Suc n) (add_loop g (Suc n) i c ds)) + 256 ^ Suc n * c' =
      dval (take (Suc n) ds) + dval (low_digits g i (Suc n)) + uint c"
    using ih(2) by (simp add: ds Let_def DIGIT_BIT_def g algebra_simps)
  then show ?case using ih(1) by (auto simp: ds Let_def DIGIT_BIT_def)
qed

lemma uint_digit_diff:
  fixes d :: "8 word" and g c :: "32 word"
  assumes "uint c \<le> 1" "uint g < 256"
  defines "x \<equiv> ucast d - g - c :: 32 word"
  shows "uint (ucast x :: 8 word) - 256 * uint (drop_bit 8 x AND 1) = uint d - uint g - uint c"
    "uint (drop_bit 8 x AND 1) \<le> 1"
proof -
  let ?v = "uint d - uint g - uint c"
  have x: "uint x = ?v mod 2 ^ 32" by (simp add: x_def uint_word_ariths mod_simps)
  have b: "- 256 \<le> ?v" "?v < 256" using assms(1,2) uint_digit_less [of d] uint_ge_0 [of d] uint_ge_0 [of g] uint_ge_0 [of c] by linarith+
  have o: "uint (drop_bit 8 x AND 1) = uint x div 256 mod 2"
    by (simp add: drop_bit_eq_div and_one_eq uint_div uint_mod)
  show "uint (drop_bit 8 x AND 1) \<le> 1" unfolding o by simp
  show "uint (ucast x :: 8 word) - 256 * uint (drop_bit 8 x AND 1) = ?v"
  proof (cases "0 \<le> ?v")
    case True
    then have "uint x = ?v" using b by (simp add: x)
    then show ?thesis using True b unfolding uint_split_digit o by simp
  next
    case False
    then have "(?v + 2 ^ 32) mod 2 ^ 32 = ?v + 2 ^ 32" using b by (intro mod_pos_pos_trivial) auto
    then have "uint x = ?v + 2 ^ 32" unfolding x by simp
    moreover have "(?v + 2 ^ 32) div 256 = 2 ^ 24 - 1" using False b by (intro int_div_pos_eq [of _ _ _ "?v + 256"]) auto
    moreover have "(?v + 2 ^ 32) mod 256 = ?v + 256"
    proof -
      have "(?v + 2 ^ 32) mod 256 = ?v mod 256" by (simp add: mod_add_eq [symmetric])
      also have "\<dots> = (?v + 256) mod 256" by simp
      also have "\<dots> = ?v + 256" using False b by (intro mod_pos_pos_trivial) auto
      finally show ?thesis .
    qed
    ultimately show ?thesis unfolding uint_split_digit o by simp
  qed
qed

lemma sub_loop:
  assumes "\<And>j. uint (g j) < 256"
  shows "n \<le> length ds \<Longrightarrow> uint c \<le> 1 \<Longrightarrow> length (sub_loop g n i c ds) = length ds \<and>
    (\<exists>c'. dval (take n (sub_loop g n i c ds)) + 256 ^ n * c' = dval (take n ds) - dval (low_digits g i n) - uint c)"
proof (induction n arbitrary: i c ds)
  case 0
  then show ?case by (auto intro: exI [of _ "- uint c"])
next
  case (Suc n)
  then obtain d ds' where ds: "ds = d # ds'" by (cases ds) auto
  let ?x = "ucast d - g i - c :: 32 word"
  note x = uint_digit_diff [OF Suc.prems(2) assms, of d i]
  obtain c' where ih: "length (sub_loop g n (i + 1) (drop_bit 8 ?x AND 1) ds') = length ds'"
    "dval (take n (sub_loop g n (i + 1) (drop_bit 8 ?x AND 1) ds')) + 256 ^ n * c' =
      dval (take n ds') - dval (low_digits g (i + 1) n) - uint (drop_bit 8 ?x AND 1)"
    using Suc.IH [of ds' "drop_bit 8 ?x AND 1" "i + 1"] Suc.prems x(2) ds by auto
  have g: "uint (ucast (g i) :: 8 word) = uint (g i)" using assms [of i] by (simp add: uint_split_digit)
  have "dval (take (Suc n) (sub_loop g (Suc n) i c ds)) + 256 ^ Suc n * c' =
      dval (take (Suc n) ds) - dval (low_digits g i (Suc n)) - uint c"
    using ih(2) x(1) by (simp add: ds Let_def DIGIT_BIT_def g algebra_simps)
  then show ?case using ih(1) by (auto simp: ds Let_def DIGIT_BIT_def)
qed

section \<open>Addition, subtraction and negation\<close>

lemma low_digits_list: "n \<le> length rs \<Longrightarrow> low_digits (\<lambda>i. ucast (rs ! i)) 0 n = take n rs"
  by (rule nth_equalityI) (auto simp: low_digits_def)

text \<open>The digits of a zero-extended operand and of a multiplication operand are those of its unsigned value.\<close>

lemma bit_width_digit:
  assumes "holds rs w" "0 < w" "p < 8" "i < BITS_TO_DIGITS w"
  shows "bit (if i + 1 = BITS_TO_DIGITS w then rs ! i AND low_mask (w - (BITS_TO_DIGITS w - 1) * 8) else rs ! i) p \<longleftrightarrow>
      bit (uval w rs) (8 * i + p)"
proof -
  let ?t = "BITS_TO_DIGITS w"
  let ?m = "rs[?t - 1 := rs ! (?t - 1) AND low_mask (w - (?t - 1) * 8)]"
  have l: "?t \<le> length rs" using assms(1) by (simp add: holds_def)
  have "8 * i + p < 8 * ?t" using assms(4) assms(3) by linarith
  then have "bit (uval w rs) (8 * i + p) \<longleftrightarrow> bit (dval ?m) (8 * i + p)"
    using bit_masked_width [OF assms(1,2)] by (simp add: bit_uval)
  also have "\<dots> \<longleftrightarrow> bit (?m ! i) p" using assms(4) l assms(3) by (simp add: bit_dval)
  also have "?m ! i = (if i + 1 = ?t then rs ! i AND low_mask (w - (?t - 1) * 8) else rs ! i)"
    using assms(4) l by (auto simp: nth_list_update)
  finally show ?thesis by simp
qed

lemma dval_zero_extended:
  assumes "holds rs w" "BITS_TO_DIGITS w \<le> n"
  shows "dval (low_digits (zero_extended_digit rs w) 0 n) = uval w rs"
proof (rule bit_eqI)
  fix k
  let ?t = "BITS_TO_DIGITS w"
  have g: "bit (ucast (zero_extended_digit rs w i) :: 8 word) p \<longleftrightarrow> i < ?t \<and> bit (uval w rs) (8 * i + p)" if "p < 8" for i p
  proof (cases "i < ?t")
    case True
    then have w: "0 < w" by (cases w) (auto simp: BITS_TO_DIGITS_def DIGIT_BIT_def)
    have m: "w - (w - 1) div 8 * 8 = w - (?t - 1) * 8" using digits_index(3) [OF w] by simp
    have "ucast (zero_extended_digit rs w i) =
        (if i + 1 = ?t then rs ! i AND low_mask (w - (?t - 1) * 8) else rs ! i)"
      using True unfolding zero_extended_digit_def Let_def DIGIT_BIT_def m by auto
    then show ?thesis using bit_width_digit [OF assms(1) w that True] True by simp
  next
    case False
    then show ?thesis by (simp add: zero_extended_digit_def Let_def)
  qed
  have "bit (dval (low_digits (zero_extended_digit rs w) 0 n)) k \<longleftrightarrow>
      k div 8 < n \<and> bit (ucast (zero_extended_digit rs w (k div 8)) :: 8 word) (k mod 8)"
    by (auto simp: bit_dval low_digits_def)
  also have "\<dots> \<longleftrightarrow> k div 8 < ?t \<and> bit (uval w rs) k" using g [of "k mod 8" "k div 8"] assms(2) by auto
  also have "\<dots> \<longleftrightarrow> bit (uval w rs) k" using digits_index(2) [of k w] by (auto simp: bit_uval)
  finally show "bit (dval (low_digits (zero_extended_digit rs w) 0 n)) k = bit (uval w rs) k" .
qed

lemma zero_extended_less: "uint (zero_extended_digit rs w i) < 256"
  by (simp add: zero_extended_digit_def Let_def uint_digit_less)

lemma uval_add_loop:
  assumes "holds ds w" "\<And>j. uint (g j) < 256"
  shows "uval w (add_loop g (BITS_TO_DIGITS w) 0 0 ds) = take_bit w (dval ds + dval (low_digits g 0 (BITS_TO_DIGITS w)))"
    "length (add_loop g (BITS_TO_DIGITS w) 0 0 ds) = length ds"
proof -
  let ?n = "BITS_TO_DIGITS w" and ?r = "add_loop g (BITS_TO_DIGITS w) 0 0 ds"
  note n = holds_width(1) [OF assms(1)] refl holds_width(2) [of w]
  obtain c where l: "length ?r = length ds" and
    c: "dval (take ?n ?r) + 256 ^ ?n * c = dval (take ?n ds) + dval (low_digits g 0 ?n) + uint (0 :: 32 word)"
    using add_loop [where g = g, OF assms(2), where n = ?n and ds = ds and c = 0 and i = 0] n by auto
  have "uval w ?r = take_bit w (dval (take ?n ?r) + 256 ^ ?n * c)"
    using uval_take [OF n(3), of ?r] take_bit_drop_high [OF n(3)] by (simp add: uval_def)
  also have "\<dots> = take_bit w (dval (take ?n ds) + dval (low_digits g 0 ?n))" by (simp add: c)
  also have "\<dots> = take_bit w (dval ds + dval (low_digits g 0 ?n))"
    using uval_take [OF n(3), of ds] by (metis take_bit_add uval_def)
  finally show "uval w ?r = take_bit w (dval ds + dval (low_digits g 0 ?n))" .
  show "length ?r = length ds" by (rule l)
qed

lemma uval_sub_loop:
  assumes "holds ds w" "\<And>j. uint (g j) < 256"
  shows "uval w (sub_loop g (BITS_TO_DIGITS w) 0 0 ds) = take_bit w (dval ds - dval (low_digits g 0 (BITS_TO_DIGITS w)))"
    "length (sub_loop g (BITS_TO_DIGITS w) 0 0 ds) = length ds"
proof -
  let ?n = "BITS_TO_DIGITS w" and ?r = "sub_loop g (BITS_TO_DIGITS w) 0 0 ds"
  note n = holds_width(1) [OF assms(1)] refl holds_width(2) [of w]
  obtain c where l: "length ?r = length ds" and
    c: "dval (take ?n ?r) + 256 ^ ?n * c = dval (take ?n ds) - dval (low_digits g 0 ?n) - uint (0 :: 32 word)"
    using sub_loop [where g = g, OF assms(2), where n = ?n and ds = ds and c = 0 and i = 0] n by auto
  have "uval w ?r = take_bit w (dval (take ?n ?r) + 256 ^ ?n * c)"
    using uval_take [OF n(3), of ?r] take_bit_drop_high [OF n(3)] by (simp add: uval_def)
  also have "\<dots> = take_bit w (dval (take ?n ds) - dval (low_digits g 0 ?n))" by (simp add: c)
  also have "\<dots> = take_bit w (dval ds - dval (low_digits g 0 ?n))"
    using uval_take [OF n(3), of ds] by (metis take_bit_diff uval_def)
  finally show "uval w ?r = take_bit w (dval ds - dval (low_digits g 0 ?n))" .
  show "length ?r = length ds" by (rule l)
qed

lemma uval_add:
  assumes "holds ds w" "holds rs w"
  shows "uval w (bigint_add ds rs w) = take_bit w (uval w ds + uval w rs)"
    "length (bigint_add ds rs w) = length ds"
proof -
  note l = uval_add_loop [OF assms(1), of "\<lambda>i. ucast (rs ! i)"]
  have g: "dval (low_digits (\<lambda>i. ucast (rs ! i)) 0 (BITS_TO_DIGITS w)) = dval (take (BITS_TO_DIGITS w) rs)"
    using low_digits_list holds_width(1) [OF assms(2)] by simp
  show "length (bigint_add ds rs w) = length ds" using l(2) uint_digit_less by (simp add: bigint_add_def)
  have "uval w (bigint_add ds rs w) = take_bit w (dval ds + dval (take (BITS_TO_DIGITS w) rs))"
    using l(1) uint_digit_less by (simp add: bigint_add_def g)
  also have "\<dots> = take_bit w (uval w ds + uval w rs)"
    by (rule take_bit_arith_cong(1)) (simp_all add: uval_take [OF holds_width(2)] uval_def [symmetric])
  finally show "uval w (bigint_add ds rs w) = take_bit w (uval w ds + uval w rs)" .
qed

lemma uval_subtract:
  assumes "holds ds w" "holds rs w"
  shows "uval w (bigint_subtract ds rs w) = take_bit w (uval w ds - uval w rs)"
    "length (bigint_subtract ds rs w) = length ds"
proof -
  note l = uval_sub_loop [OF assms(1), of "\<lambda>i. ucast (rs ! i)"]
  have g: "dval (low_digits (\<lambda>i. ucast (rs ! i)) 0 (BITS_TO_DIGITS w)) = dval (take (BITS_TO_DIGITS w) rs)"
    using low_digits_list holds_width(1) [OF assms(2)] by simp
  show "length (bigint_subtract ds rs w) = length ds" using l(2) uint_digit_less by (simp add: bigint_subtract_def)
  have "uval w (bigint_subtract ds rs w) = take_bit w (dval ds - dval (take (BITS_TO_DIGITS w) rs))"
    using l(1) uint_digit_less by (simp add: bigint_subtract_def g)
  also have "\<dots> = take_bit w (uval w ds - uval w rs)"
    by (rule take_bit_arith_cong(2)) (simp_all add: uval_take [OF holds_width(2)] uval_def [symmetric])
  finally show "uval w (bigint_subtract ds rs w) = take_bit w (uval w ds - uval w rs)" .
qed

lemma uval_zero_extend:
  assumes "holds ds w" "holds rs v" "v \<le> w"
  shows "uval w (bigint_add_zero_extend ds rs w v) = take_bit w (uval w ds + uval v rs)"
    "length (bigint_add_zero_extend ds rs w v) = length ds"
    "uval w (bigint_subtract_zero_extend ds rs w v) = take_bit w (uval w ds - uval v rs)"
    "length (bigint_subtract_zero_extend ds rs w v) = length ds"
  using uval_add_loop [OF assms(1), of "zero_extended_digit rs v"] uval_sub_loop [OF assms(1), of "zero_extended_digit rs v"]
    dval_zero_extended [OF assms(2) BITS_TO_DIGITS_mono [OF assms(3)]] zero_extended_less
  by (simp_all add: bigint_add_zero_extend_def bigint_subtract_zero_extend_def uval_def [of w] take_bit_reduce)

lemma dval_one_digit: "0 < n \<Longrightarrow> dval (low_digits (\<lambda>i. if i = 0 then ucast d else 0) 0 n) = uint (d :: 8 word)"
proof -
  have z: "dval (low_digits (\<lambda>i. if i = 0 then ucast d else 0) (Suc i) m) = 0" for i m
    by (induction m arbitrary: i) auto
  show "0 < n \<Longrightarrow> ?thesis" using z [of 0] by (cases n) auto
qed

lemma uval_negate:
  assumes "holds ds w"
  shows "uval w (bigint_negate ds w) = take_bit w (- uval w ds)"
    "length (bigint_negate ds w) = length ds"
proof -
  have h: "holds (bigint_invert ds w) w" using assms by (simp add: holds_def)
  note l = uval_add_loop [OF h, of "\<lambda>i. if i = 0 then ucast (1 :: 8 word) else 0"]
  show "length (bigint_negate ds w) = length ds"
    using l(2) by (simp add: bigint_negate_def bigint_util_add_digit_zero_extended_def)
  show "uval w (bigint_negate ds w) = take_bit w (- uval w ds)"
  proof (cases "w = 0")
    case True
    then show ?thesis by simp
  next
    case False
    have "uval w (bigint_negate ds w) = take_bit w (dval (bigint_invert ds w) + 1)"
      using l(1) dval_one_digit [OF digits_index(4), of w 1] False
      by (simp add: bigint_negate_def bigint_util_add_digit_zero_extended_def)
    also have "\<dots> = take_bit w (NOT (uval w ds) + 1)"
      using uval_bitwise(4) [OF assms assms] by (metis take_bit_add uval_def)
    finally show ?thesis by (simp add: not_eq_complement)
  qed
qed

end
