(* ===== verification/Kefir_Bigint_Mul.thy ===== *)
theory Kefir_Bigint_Mul
  imports Kefir_Bigint_Arith
begin

text \<open>
  Multiplication: the schoolbook routine for unsigned operands yields the product modulo the width of the
  result; Booth's routine yields the signed product when the result is not wider than the operands or the
  multiplicand is not the least number of its width.
\<close>

section \<open>Unsigned multiplication\<close>

lemma dval_update: "p < length ds \<Longrightarrow> dval (ds[p := x]) = dval ds + (uint x - uint (ds ! p)) * 256 ^ p"
proof (induction ds arbitrary: p)
  case (Cons d ds)
  show ?case
  proof (cases p)
    case (Suc q)
    then have "dval (ds[q := x]) = dval ds + (uint x - uint (ds ! q)) * 256 ^ q" using Cons by simp
    then have "dval ((d # ds)[p := x]) = uint d + 256 * (dval ds + (uint x - uint (ds ! q)) * 256 ^ q)" using Suc by simp
    also have "\<dots> = dval (d # ds) + (uint x - uint ((d # ds) ! p)) * 256 ^ p" using Suc by (simp add: algebra_simps)
    finally show ?thesis .
  qed simp
qed simp

lemma uint_multiply_digit:
  fixes r l m :: "8 word" and c :: "32 word"
  assumes "uint c < 256"
  defines "v \<equiv> ucast r + c + ucast l * ucast m :: 32 word"
  shows "uint (ucast (v mod 256) :: 8 word) + 256 * uint (v div 256) = uint r + uint c + uint l * uint m"
    "uint (v div 256) < 256"
proof -
  have p: "0 \<le> uint l * uint m" "uint l * uint m \<le> 255 * 255"
    using uint_digit_less [of l] uint_digit_less [of m] mult_mono [of "uint l" 255 "uint m" 255] by auto
  have b: "0 \<le> uint r + uint c + uint l * uint m" "uint r + uint c + uint l * uint m < 65536"
    using p assms(1) uint_digit_less [of r] by auto
  have v: "uint v = uint r + uint c + uint l * uint m"
    using b by (simp add: v_def uint_word_ariths mod_simps)
  have m: "uint (ucast (v mod 256) :: 8 word) = uint v mod 256" "uint (v div 256) = uint v div 256"
    by (simp_all add: unsigned_ucast_eq take_bit_eq_mod uint_mod uint_div)
  show "uint (ucast (v mod 256) :: 8 word) + 256 * uint (v div 256) = uint r + uint c + uint l * uint m"
    unfolding m by (simp add: v)
  show "uint (v div 256) < 256" unfolding m using b by (simp add: v)
qed

definition digits_of :: "(nat \<Rightarrow> 8 word) \<Rightarrow> nat \<Rightarrow> nat \<Rightarrow> digits" where
  "digits_of f i n = map f [i..<i + n]"

lemma digits_of_simps [simp]:
  "digits_of f i 0 = []"
  "digits_of f i (Suc n) = f i # digits_of f (i + 1) n"
  "length (digits_of f i n) = n"
  by (simp_all add: digits_of_def upt_conv_Cons del: upt_Suc)

text \<open>
  One row: the steps that are executed before the end of the result add the row at its place; the carry
  belongs to the digit after them.
\<close>

lemma multiply_inner:
  assumes "t \<le> length rs" "uint c < 256" "multiply_inner f m t j n i c rs = (c', rs')"
  shows "length rs' = length rs \<and> uint c' < 256 \<and> (\<forall>k. k \<ge> i + j + n \<longrightarrow> rs' ! k = rs ! k) \<and>
    (\<exists>e \<le> n. (e < n \<longrightarrow> i + j + e \<ge> t) \<and>
      dval rs' + 256 ^ (i + j + e) * uint c' = dval rs + 256 ^ (i + j) * (uint c + uint m * dval (digits_of f i e)))"
  using assms
proof (induction n arbitrary: i c rs)
  case 0
  then show ?case by simp
next
  case (Suc n)
  show ?case
  proof (cases "i + j \<ge> t")
    case True
    then have "c' = c" "rs' = rs" using Suc.prems(3) by (simp_all add: Let_def)
    then show ?thesis using True Suc.prems(2) by (auto intro: exI [of _ 0])
  next
    case False
    let ?p = "i + j"
    let ?v = "ucast (rs ! ?p) + c + ucast (f i) * ucast m :: 32 word"
    let ?rs = "rs[?p := ucast (?v mod 256)]"
    note v = uint_multiply_digit [OF Suc.prems(2), of "rs ! ?p" "f i" m]
    have p: "?p < length rs" using False Suc.prems(1) by simp
    have "multiply_inner f m t j n (i + 1) (?v div 256) ?rs = (c', rs')"
      using Suc.prems(3) False by (simp add: Let_def)
    from Suc.IH [OF _ v(2) this] Suc.prems(1) obtain e where e: "e \<le> n" "e < n \<longrightarrow> i + 1 + j + e \<ge> t"
      "length rs' = length rs" "uint c' < 256" "\<forall>k. k \<ge> i + 1 + j + n \<longrightarrow> rs' ! k = ?rs ! k"
      "dval rs' + 256 ^ (i + 1 + j + e) * uint c' =
        dval ?rs + 256 ^ (i + 1 + j) * (uint (?v div 256) + uint m * dval (digits_of f (i + 1) e))"
      by auto
    have "dval ?rs = dval rs + (uint c + uint (f i) * uint m - 256 * uint (?v div 256)) * 256 ^ ?p"
    proof -
      have "uint (ucast (?v mod 256) :: 8 word) - uint (rs ! ?p) = uint c + uint (f i) * uint m - 256 * uint (?v div 256)"
        using v(1) by linarith
      then show ?thesis unfolding dval_update [OF p] by simp
    qed
    then have "dval rs' + 256 ^ (i + j + Suc e) * uint c' =
        dval rs + 256 ^ (i + j) * (uint c + uint m * dval (digits_of f i (Suc e)))"
      using e(6) by (simp add: algebra_simps)
    moreover have "rs' ! k = rs ! k" if "k \<ge> i + j + Suc n" for k using that e(5) by simp
    ultimately show ?thesis using e(1-4) by (intro conjI exI [of _ "Suc e"]) auto
  qed
qed

lemma dval_digits_of_split:
  "e \<le> n \<Longrightarrow> dval (digits_of f 0 n) = dval (digits_of f 0 e) + 256 ^ e * dval (digits_of f e (n - e))"
proof -
  assume "e \<le> n"
  then have "digits_of f 0 n = digits_of f 0 e @ digits_of f e (n - e)"
    using upt_add_eq_append [of 0 e "n - e"] by (simp add: digits_of_def)
  then show ?thesis by (simp add: dval_append)
qed

text \<open>After row \<open>j\<close>, with nothing yet in the digits beyond the rows before it.\<close>

lemma multiply_outer:
  fixes f g :: "nat \<Rightarrow> 8 word" and rs :: digits
  assumes "t \<le> length rs" "\<forall>k. j + n \<le> k \<and> k < t \<longrightarrow> rs ! k = 0"
  defines "rs' \<equiv> multiply_outer f g n t j rs"
  shows "length rs' = length rs" "\<forall>k. Suc j + n \<le> k \<and> k < t \<longrightarrow> rs' ! k = 0"
    "256 ^ t dvd dval rs' - (dval rs + 256 ^ j * (uint (g j) * dval (digits_of f 0 n)))"
proof -
  obtain c r where cr: "multiply_inner f (g j) t j n 0 0 rs = (c, r)" by (cases "multiply_inner f (g j) t j n 0 0 rs")
  have e: "rs' = (if j + n < t then r[j + n := ucast c] else r)" by (simp add: rs'_def multiply_outer_def cr Let_def)
  obtain x where i: "length r = length rs" "uint c < 256" "\<forall>k. k \<ge> j + n \<longrightarrow> r ! k = rs ! k" "x \<le> n" "x < n \<longrightarrow> j + x \<ge> t"
    "dval r + 256 ^ (j + x) * uint c = dval rs + 256 ^ j * (uint (g j) * dval (digits_of f 0 x))"
    using multiply_inner [OF assms(1) _ cr] by auto
  show "length rs' = length rs" "\<forall>k. Suc j + n \<le> k \<and> k < t \<longrightarrow> rs' ! k = 0"
    using i assms(2) by (auto simp: e)
  show "256 ^ t dvd dval rs' - (dval rs + 256 ^ j * (uint (g j) * dval (digits_of f 0 n)))"
  proof (cases "j + n < t")
    case True
    then have x: "x = n" using i(4,5) by simp
    have u: "uint (ucast c :: 8 word) = uint c" using i(2) by (simp add: uint_split_digit)
    have "dval rs' = dval r + uint c * 256 ^ (j + n)"
      using True assms(1,2) i(1,3) by (simp add: e dval_update u)
    then show ?thesis using i(6) by (simp add: x algebra_simps)
  next
    case False
    have d: "256 ^ t dvd (256 :: int) ^ (j + x)" using False i(4,5) by (intro le_imp_power_dvd) (cases "x = n", auto)
    have "dval rs' - (dval rs + 256 ^ j * (uint (g j) * dval (digits_of f 0 n))) =
        - (256 ^ (j + x) * (uint c + uint (g j) * dval (digits_of f x (n - x))))"
      using i(6) False by (simp add: e dval_digits_of_split [OF i(4)] algebra_simps power_add)
    then show ?thesis using d by (simp add: dvd_mult2)
  qed
qed

lemma multiply_rows:
  fixes f g :: "nat \<Rightarrow> 8 word" and rs :: digits and n :: nat
  assumes "t \<le> length rs" "\<forall>k < t. rs ! k = 0"
  defines "row \<equiv> (\<lambda>m. fold (multiply_outer f g n t) [0..<m] rs)"
  shows "length (row m) = length rs \<and> (\<forall>k. m + n \<le> k \<and> k < t \<longrightarrow> row m ! k = 0) \<and>
    256 ^ t dvd dval (row m) - dval (digits_of g 0 m) * dval (digits_of f 0 n)"
proof (induction m)
  case 0
  have "take t rs = replicate t 0" using assms(1,2) by (intro nth_equalityI) auto
  then have "rs = replicate t 0 @ drop t rs" by (metis append_take_drop_id)
  moreover have "dval (replicate t 0) = 0" by (induction t) auto
  ultimately have "dval rs = 256 ^ t * dval (drop t rs)" by (metis dval_append length_replicate add_0)
  then show ?case using assms(2) by (simp add: row_def)
next
  case (Suc m)
  have s: "row (Suc m) = multiply_outer f g n t m (row m)" by (simp add: row_def)
  note o = multiply_outer [of t "row m" m n f g, folded s]
  have o: "length (row (Suc m)) = length rs" "\<forall>k. Suc m + n \<le> k \<and> k < t \<longrightarrow> row (Suc m) ! k = 0"
    "256 ^ t dvd dval (row (Suc m)) - (dval (row m) + 256 ^ m * (uint (g m) * dval (digits_of f 0 n)))"
    using Suc o assms(1) by auto
  have "dval (digits_of g 0 (Suc m)) = dval (digits_of g 0 m) + 256 ^ m * uint (g m)"
    using dval_digits_of_split [of m "Suc m" g] by simp
  then have "dval (row (Suc m)) - dval (digits_of g 0 (Suc m)) * dval (digits_of f 0 n) =
      (dval (row (Suc m)) - (dval (row m) + 256 ^ m * (uint (g m) * dval (digits_of f 0 n)))) +
      (dval (row m) - dval (digits_of g 0 m) * dval (digits_of f 0 n))"
    by (simp add: algebra_simps)
  then show ?case using o Suc by (metis dvd_add)
qed

lemma dval_operand:
  assumes "holds ds w" "0 < w"
  shows "dval (digits_of (operand_digit ds w) 0 (BITS_TO_DIGITS w)) = uval w ds"
proof (rule bit_eqI)
  fix k
  let ?t = "BITS_TO_DIGITS w"
  have "bit (dval (digits_of (operand_digit ds w) 0 ?t)) k \<longleftrightarrow>
      k div 8 < ?t \<and> bit (operand_digit ds w (k div 8)) (k mod 8)"
    by (auto simp: bit_dval digits_of_def)
  also have "\<dots> \<longleftrightarrow> k div 8 < ?t \<and> bit (uval w ds) k"
    using bit_width_digit [OF assms, of "k mod 8" "k div 8"] by (auto simp: operand_digit_def Let_def DIGIT_BIT_def)
  also have "\<dots> \<longleftrightarrow> bit (uval w ds) k" using digits_index(2) [of k w] by (auto simp: bit_uval)
  finally show "bit (dval (digits_of (operand_digit ds w) 0 ?t)) k = bit (uval w ds) k" .
qed

lemma uval_unsigned_multiply:
  assumes "holds rs v" "holds as w" "holds bs w"
  shows "uval v (bigint_unsigned_multiply rs as bs v w) = take_bit v (uval w as * uval w bs)"
    "length (bigint_unsigned_multiply rs as bs v w) = length rs"
proof -
  let ?t = "BITS_TO_DIGITS v" and ?n = "BITS_TO_DIGITS w"
  have z: "length (bigint_zero rs v) = length rs" "k < ?t \<Longrightarrow> bigint_zero rs v ! k = 0" for k
    using assms(1) by (auto simp: bigint_zero_def holds_def nth_append)
  let ?f = "operand_digit as w" and ?g = "operand_digit bs w"
  let ?r = "fold (multiply_outer ?f ?g ?n ?t) [0..<?n] (bigint_zero rs v)"
  have r: "length ?r = length rs \<and> 256 ^ ?t dvd dval ?r - dval (digits_of ?g 0 ?n) * dval (digits_of ?f 0 ?n)"
    using multiply_rows [of ?t "bigint_zero rs v" ?f ?g ?n ?n] z assms(1) by (auto simp: holds_def)
  show "length (bigint_unsigned_multiply rs as bs v w) = length rs"
    using r z(1) by (simp add: bigint_unsigned_multiply_def Let_def)
  show "uval v (bigint_unsigned_multiply rs as bs v w) = take_bit v (uval w as * uval w bs)"
  proof (cases "v = 0 \<or> w = 0")
    case True
    have "uval v (bigint_zero rs v) = 0"
      using z digits_index(2) [of _ v] assms(1)
      by (intro bit_eqI) (auto simp: bit_uval bit_dval)
    then show ?thesis using True by (auto simp: bigint_unsigned_multiply_def Let_def)
  next
    case False
    have "2 ^ v dvd (256 :: int) ^ ?t" unfolding pow_256 by (rule le_imp_power_dvd) (rule digits_index(1))
    then have "2 ^ v dvd dval ?r - uval w bs * uval w as"
    proof -
      have "dval (digits_of ?f 0 ?n) = uval w as" "dval (digits_of ?g 0 ?n) = uval w bs"
        using False assms(2,3) by (simp_all add: dval_operand)
      then have "256 ^ ?t dvd dval ?r - uval w bs * uval w as" using r by simp
      then show ?thesis by (rule dvd_trans [OF \<open>2 ^ v dvd (256 :: int) ^ ?t\<close>])
    qed
    then have "take_bit v (dval ?r) = take_bit v (uval w as * uval w bs)"
      using take_bit_cong_dvd by (metis mult.commute)
    moreover have "bigint_unsigned_multiply rs as bs v w = ?r"
      using False by (simp add: bigint_unsigned_multiply_def Let_def)
    ultimately show ?thesis by (simp only: uval_def [of v])
  qed
qed

end
