(* ===== verification/Kefir_Bigint_Booth.thy ===== *)
theory Kefir_Bigint_Booth
  imports Kefir_Bigint_Mul
begin

text \<open>Booth's signed multiplication.\<close>

section \<open>One step\<close>

lemma sval_uval: "0 < w \<Longrightarrow> sval w ds = signed_take_bit (w - 1) (uval w ds)"
  by (cases w) (simp_all add: sval_def uval_def signed_take_bit_take_bit)

lemma signed_take_bit_cong: "0 < w \<Longrightarrow> take_bit w x = take_bit w (y :: int) \<Longrightarrow> signed_take_bit (w - 1) x = signed_take_bit (w - 1) y"
  by (metis Suc_diff_1 signed_take_bit_eq_iff_take_bit_eq)

lemma take_bit_uval_sval: "0 < w \<Longrightarrow> take_bit w (sval w ds) = uval w ds"
  by (rule uval_sval) simp

lemma sval_range:
  assumes "0 < w"
  shows "- (2 ^ (w - 1)) \<le> sval w ds" "sval w ds < 2 ^ (w - 1)"
  using assms signed_take_bit_int_greater_eq_minus_exp [of "w - 1" "dval ds"] signed_take_bit_int_less_exp [of "w - 1" "dval ds"]
  by (auto simp: sval_def)

lemma sval_of_uval: "0 < w \<Longrightarrow> sval w ds = uval w ds - of_bool (bit (dval ds) (w - 1)) * 2 ^ w"
proof -
  assume w: "0 < w"
  have "signed_take_bit (w - 1) (dval ds) = take_bit (Suc (w - 1)) (dval ds) - 2 ^ Suc (w - 1) * of_bool (bit (dval ds) (w - 1))"
    by (rule signed_take_bit_eq_take_bit_minus)
  then show ?thesis using w by (simp add: sval_def uval_def)
qed

lemma odd_uval: "0 < w \<Longrightarrow> odd (uval w ds) \<longleftrightarrow> bit (dval ds) 0"
  using bit_uval [of w ds 0] by (simp add: bit_0)

lemma first_digit: "0 < w \<Longrightarrow> holds ds w \<Longrightarrow> ds ! 0 AND 1 \<noteq> 0 \<longleftrightarrow> bit (dval ds) 0"
  using holds_index [of ds w 0] bit_test [of 0 "ds ! 0"] by (simp add: bit_dval)

lemma uval_plus_minus_sval:
  assumes "0 < w" "holds a w" "holds r w"
  shows "sval w (bigint_add a r w) = signed_take_bit (w - 1) (sval w a + sval w r)"
    "sval w (bigint_subtract a r w) = signed_take_bit (w - 1) (sval w a - sval w r)"
proof -
  have "take_bit w (uval w a + uval w r) = take_bit w (sval w a + sval w r)"
    "take_bit w (uval w a - uval w r) = take_bit w (sval w a - sval w r)"
    using take_bit_arith_cong [of w "uval w a" "sval w a" "uval w r" "sval w r"] take_bit_uval_sval [OF assms(1)] by simp_all
  then show "sval w (bigint_add a r w) = signed_take_bit (w - 1) (sval w a + sval w r)"
    "sval w (bigint_subtract a r w) = signed_take_bit (w - 1) (sval w a - sval w r)"
    unfolding sval_uval [OF assms(1), of "bigint_add a r w"] sval_uval [OF assms(1), of "bigint_subtract a r w"]
      uval_add(1) [OF assms(2,3)] uval_subtract(1) [OF assms(2,3)]
    by - (rule signed_take_bit_cong [OF assms(1)], simp)+
qed

definition booth_delta :: "bool \<Rightarrow> bool \<Rightarrow> int" where
  "booth_delta prev b = of_bool prev - of_bool b"

text \<open>Shifting the multiplier and placing a bit at its top.\<close>

lemma uval_half_less: "0 < w \<Longrightarrow> uval w l div 2 < 2 ^ (w - 1)"
  using uval_bounds(2) [of w l] by (cases w) (auto simp: div_less_iff_less_mult)

lemma uval_shift_in:
  assumes "0 < w" "holds l w" "\<And>p. bit d p \<longleftrightarrow> p = 0 \<and> x"
  defines "l1 \<equiv> bigint_right_shift l 1 w" and "i \<equiv> (w - 1) div 8"
  defines "l' \<equiv> l1[i := l1 ! i OR push_bit ((w - 1) mod 8) d]"
  shows "length l' = length l" "uval w l' = uval w l div 2 + of_bool x * 2 ^ (w - 1)"
    "w \<le> k \<Longrightarrow> k < 8 * BITS_TO_DIGITS w \<Longrightarrow> \<not> bit (dval l') k"
proof -
  let ?v = "uval w l div 2 + of_bool x * 2 ^ (w - 1)"
  have d: "0 < 8 * BITS_TO_DIGITS w" using digits_index(4) [OF assms(1)] by simp
  have l1: "length l1 = length l" unfolding l1_def by (rule bit_right_shift(1) [OF assms(2,1) d])
  then show "length l' = length l" by (simp add: l'_def)
  have i: "i < length l1" using holds_index [of l w "w - 1"] assms(1,2) l1 by (simp add: i_def)
  note small = uval_half_less [OF assms(1), of l]
  have "take_bit (w - 1) (uval w l div 2) = uval w l div 2"
    using small uval_bounds(1) [of w l] by (simp add: take_bit_int_eq_self_iff)
  then have v: "?v = concat_bit (w - 1) (uval w l div 2) (of_bool x)" by (simp add: concat_bit_eq push_bit_eq_mult)
  have new: "bit (dval l') k \<longleftrightarrow> bit (dval l1) k \<or> (k = w - 1 \<and> x)" for k
  proof -
    have eq: "k div 8 = i \<and> k mod 8 = (w - 1) mod 8 \<longleftrightarrow> k = w - 1" unfolding i_def by (metis div_mult_mod_eq)
    have "bit (dval l') k \<longleftrightarrow> bit (dval l1) k \<or> (k div 8 = i \<and> k mod 8 = (w - 1) mod 8 \<and> x)"
      unfolding l'_def bit_dval_update [OF i] using i by (auto simp: bit_or_iff bit_push_bit_iff assms(3) bit_dval)
    then show ?thesis using eq by auto
  qed
  show "w \<le> k \<Longrightarrow> k < 8 * BITS_TO_DIGITS w \<Longrightarrow> \<not> bit (dval l') k"
    using bit_right_shift(2) [OF assms(2,1), of k 1] assms(1) unfolding new l1_def by auto
  have "uval w l' = take_bit w ?v"
  proof (rule uval_eqI)
    fix k assume k: "k < w"
    have k8: "k < 8 * BITS_TO_DIGITS w" using k digits_index(1) [of w] by simp
    have "bit (dval l') k \<longleftrightarrow> (if k = w - 1 then x else bit (uval w l) (Suc k))"
      using bit_right_shift(2) [OF assms(2,1) k8, of 1] k unfolding new by (auto simp: bit_uval l1_def)
    also have "\<dots> \<longleftrightarrow> bit ?v k"
      unfolding v bit_concat_bit_iff using k by (auto simp: bit_Suc bit_of_bool_iff)
    finally show "bit (dval l') k = bit ?v k" .
  qed
  moreover have "0 \<le> ?v" "?v < 2 ^ w" using small uval_bounds(1) [of w l] assms(1) by (cases w; auto)+
  ultimately show "uval w l' = ?v" by (simp add: take_bit_int_eq_self_iff)
qed

lemma booth_step:
  assumes "0 < w" "holds a w" "holds l w" "holds r w" "booth_step r w (a, l, prev) = (a', l', b)"
  defines "s \<equiv> signed_take_bit (w - 1) (sval w a + booth_delta prev b * sval w r)"
  shows "length a' = length a" "length l' = length l" "b \<longleftrightarrow> odd (uval w l)"
    "sval w a' = s div 2" "uval w l' = uval w l div 2 + of_bool (odd s) * 2 ^ (w - 1)"
    "w \<le> k \<Longrightarrow> k < 8 * BITS_TO_DIGITS w \<Longrightarrow> \<not> bit (dval l') k"
proof -
  define b' where "b' = bit (dval l) 0"
  define a1 where "a1 = (if b' \<and> \<not> prev then bigint_subtract a r w else if \<not> b' \<and> prev then bigint_add a r w else a)"
  let ?i = "(w - 1) div 8" and ?o = "(w - 1) mod 8" and ?l = "bigint_right_shift l 1 w"
  have e: "a' = bigint_arithmetic_right_shift a1 1 w" "b = b'" "l' = ?l[?i := ?l ! ?i OR push_bit ?o (a1 ! 0 AND 1)]"
    using assms(5) first_digit [OF assms(1,3)]
    unfolding booth_step_def Let_def DIGIT_BIT_def index_offset b'_def a1_def by auto
  have la: "length a1 = length a" using uval_add(2) [OF assms(2,4)] uval_subtract(2) [OF assms(2,4)] by (simp add: a1_def)
  then have ha: "holds a1 w" using assms(2) by (simp add: holds_def)
  have d: "0 < 8 * BITS_TO_DIGITS w" using digits_index(4) [OF assms(1)] by simp
  show "length a' = length a" using bit_arithmetic_right_shift(1) [OF ha assms(1) d] la by (simp only: e)
  show b: "b \<longleftrightarrow> odd (uval w l)" using odd_uval [OF assms(1)] by (simp add: e b'_def)
  have "signed_take_bit (w - 1) (sval w a) = sval w a" by (simp add: sval_def)
  then have s: "sval w a1 = s" using uval_plus_minus_sval [OF assms(1,2,4)] by (auto simp: s_def booth_delta_def e a1_def)
  show "sval w a' = s div 2" using sval_arithmetic_right_shift [OF ha, of 1] by (simp add: e s drop_bit_eq_div)
  have odd_s: "odd s \<longleftrightarrow> bit (dval a1) 0"
    using take_bit_uval_sval [OF assms(1), of a1] odd_uval [OF assms(1), of a1] assms(1) s by (metis bit_0 bit_take_bit_iff)
  have a0: "bit (a1 ! 0 AND 1) p \<longleftrightarrow> p = 0 \<and> odd s" for p
    using holds_index [OF ha, of 0] assms(1) by (auto simp: bit_simps bit_dval bit_1_iff odd_s)
  show "length l' = length l" "uval w l' = uval w l div 2 + of_bool (odd s) * 2 ^ (w - 1)"
    "w \<le> k \<Longrightarrow> k < 8 * BITS_TO_DIGITS w \<Longrightarrow> \<not> bit (dval l') k"
    using uval_shift_in [OF assms(1,3) a0] by (simp_all add: e)
qed

section \<open>All steps\<close>

text \<open>
  After \<open>i\<close> steps the top \<open>i\<close> bits of the multiplier hold the low bits of the partial product, the accumulator its
  high part. It is the product with the low bits of the multiplier read as a signed number, up to a multiple
  of \<open>2 ^ w\<close> that vanishes when no addition overflows.
\<close>

definition booth_inv :: "nat \<Rightarrow> int \<Rightarrow> int \<Rightarrow> nat \<Rightarrow> digits \<times> digits \<times> bool \<Rightarrow> bool" where
  "booth_inv w m u i = (\<lambda>(a, l, prev). (\<exists>x e.
     0 \<le> x \<and> x < 2 ^ i \<and> uval w l = u div 2 ^ i + 2 ^ (w - i) * x \<and>
     sval w a * 2 ^ i + x = m * (u mod 2 ^ i - of_bool prev * 2 ^ i) + e * 2 ^ w \<and>
     (m \<noteq> - (2 ^ (w - 1)) \<longrightarrow> e = 0)))"

lemma mod_step: "u mod 2 ^ Suc i = u mod 2 ^ i + of_bool (odd (u div 2 ^ i)) * 2 ^ i" for u :: int
proof -
  have "u mod (2 ^ i * 2) = 2 ^ i * (u div 2 ^ i mod 2) + u mod 2 ^ i" by (rule zmod_zmult2_eq) simp
  then show ?thesis by (simp add: mult.commute mod_2_eq_odd)
qed

text \<open>The sum in the accumulator stays in range unless the multiplicand is the least number.\<close>

lemma booth_in_range:
  fixes m s x t :: int
  assumes "s * 2 ^ i + x = m * t" "0 \<le> x" "x < 2 ^ i" "- (2 ^ i) \<le> t" "t < 2 ^ i" "\<bar>m\<bar> < 2 ^ n"
  shows "- (2 ^ n) \<le> s" "s < 2 ^ n"
proof -
  have t: "\<bar>t\<bar> \<le> 2 ^ i" using assms(4,5) by simp
  have "\<bar>m * t\<bar> \<le> (2 ^ n - 1) * 2 ^ i" unfolding abs_mult using assms(6) t by (intro mult_mono) auto
  then have b: "- (2 ^ n * 2 ^ i - 2 ^ i) \<le> m * t" "m * t \<le> 2 ^ n * 2 ^ i - 2 ^ i"
    by (auto simp: left_diff_distrib)
  have p: "(0 :: int) < 2 ^ i" by simp
  have "s * 2 ^ i < 2 ^ n * 2 ^ i" using assms(1,2) b(2) p by linarith
  then show "s < 2 ^ n" by simp
  have "- (2 ^ n) * 2 ^ i < s * 2 ^ i" using assms(1,3) b(1) by simp
  then show "- (2 ^ n) \<le> s" using mult_less_cancel_right_pos [OF p] less_imp_le by blast
qed

lemma booth_inv_step:
  assumes "0 < w" "i < w" "holds a w" "holds l w" "holds r w" "0 \<le> u" "booth_inv w (sval w r) u i (a, l, prev)"
    "booth_step r w (a, l, prev) = (a', l', b)"
  shows "booth_inv w (sval w r) u (Suc i) (a', l', b)"
proof -
  let ?m = "sval w r" and ?d = "booth_delta prev b"
  define s where "s = signed_take_bit (w - 1) (sval w a + ?d * ?m)"
  note st = booth_step [OF assms(1,3-5,8), folded s_def]
  obtain x e where x: "0 \<le> x" "x < 2 ^ i" "uval w l = u div 2 ^ i + 2 ^ (w - i) * x"
    "sval w a * 2 ^ i + x = ?m * (u mod 2 ^ i - of_bool prev * 2 ^ i) + e * 2 ^ w" "?m \<noteq> - (2 ^ (w - 1)) \<longrightarrow> e = 0"
    using assms(7) by (auto simp: booth_inv_def)
  obtain n where n: "w - i = Suc n" using assms(2) by (metis Suc_diff_Suc)
  have b: "b \<longleftrightarrow> odd (u div 2 ^ i)" using st(3) by (simp add: x(3) n)
  let ?t = "u mod 2 ^ i - of_bool b * 2 ^ i"
  have sum: "(sval w a + ?d * ?m) * 2 ^ i + x = ?m * ?t + e * 2 ^ w"
    using x(4) by (simp add: booth_delta_def algebra_simps)
  obtain q where q: "s = sval w a + ?d * ?m + q * 2 ^ w" "?m \<noteq> - (2 ^ (w - 1)) \<longrightarrow> q = 0"
  proof (cases "?m = - (2 ^ (w - 1))")
    case True
    have "2 ^ w dvd s - (sval w a + ?d * ?m)"
    proof -
      have "take_bit w s = take_bit w (sval w a + ?d * ?m)" using assms(1) by (simp add: s_def take_bit_signed_take_bit)
      then show ?thesis by (simp add: take_bit_eq_mod mod_eq_dvd_iff)
    qed
    then obtain k where "s - (sval w a + ?d * ?m) = 2 ^ w * k" by (rule dvdE)
    then have "s = sval w a + ?d * ?m + k * 2 ^ w" by (simp add: algebra_simps)
    with True show ?thesis using that by blast
  next
    case False
    then have e0: "e = 0" using x(5) by simp
    have m: "\<bar>?m\<bar> < 2 ^ (w - 1)" using sval_range [OF assms(1), of r] False by auto
    have t: "- (2 ^ i) \<le> ?t" "?t < 2 ^ i" 
    proof -
      have "0 \<le> u mod 2 ^ i" "u mod 2 ^ i < 2 ^ i" "(0 :: int) < 2 ^ i" by simp_all
      then show "- (2 ^ i) \<le> ?t" "?t < 2 ^ i" by (auto simp: of_bool_def simp del: pos_mod_bound pos_mod_sign)
    qed
    have "- (2 ^ (w - 1)) \<le> sval w a + ?d * ?m" "sval w a + ?d * ?m < 2 ^ (w - 1)"
      using booth_in_range [OF _ x(1,2) t m, of "sval w a + ?d * ?m"] sum e0 by simp_all
    then have "s = sval w a + ?d * ?m" unfolding s_def by (rule signed_take_bit_int_eq_self)
    then show ?thesis using that [of 0] by simp
  qed
  let ?x = "x + of_bool (odd s) * 2 ^ i"
  have "uval w l' = u div 2 ^ Suc i + 2 ^ (w - Suc i) * ?x"
  proof -
    have "w - 1 = n + i" "w - Suc i = n" using n by auto
    moreover have "(u div 2 ^ i + 2 * (2 ^ n * x)) div 2 = u div 2 ^ i div 2 + 2 ^ n * x" by simp
    moreover have "u div 2 ^ i div 2 = u div 2 ^ Suc i" by (simp add: zdiv_zmult2_eq [symmetric] mult.commute)
    ultimately show ?thesis unfolding st(5) x(3) n by (simp add: algebra_simps power_add)
  qed
  moreover have "sval w a' * 2 ^ Suc i + ?x = ?m * (u mod 2 ^ Suc i - of_bool b * 2 ^ Suc i) + (e + q * 2 ^ i) * 2 ^ w"
  proof -
    have "sval w a' * 2 ^ Suc i + ?x = (2 * (s div 2) + of_bool (odd s)) * 2 ^ i + x"
      unfolding st(4) by (simp add: algebra_simps)
    also have "\<dots> = s * 2 ^ i + x"
    proof -
      have "2 * (s div 2) + of_bool (odd s) = s" by (metis mult_div_mod_eq mod_2_eq_odd)
      then show ?thesis by simp
    qed
    also have "\<dots> = ?m * ?t + e * 2 ^ w + q * 2 ^ i * 2 ^ w" using sum unfolding q(1) by (simp add: algebra_simps)
    finally show ?thesis unfolding mod_step b [symmetric] by (simp add: algebra_simps)
  qed
  moreover have "0 \<le> ?x" "?x < 2 ^ Suc i" using x(1,2) by auto
  ultimately show ?thesis using x(5) q(2) by (auto simp: booth_inv_def)
qed

lemma uval_zero: "holds ds w \<Longrightarrow> uval w (bigint_zero ds w) = 0" "holds ds w \<Longrightarrow> length (bigint_zero ds w) = length ds"
proof -
  assume h: "holds ds w"
  show "length (bigint_zero ds w) = length ds" using h by (simp add: bigint_zero_def holds_def)
  have "bigint_zero ds w ! j = 0" if "j < BITS_TO_DIGITS w" for j using that by (simp add: bigint_zero_def nth_append)
  then show "uval w (bigint_zero ds w) = 0"
    using digits_index(2) [of _ w] by (intro bit_eqI) (auto simp: bit_uval bit_dval)
qed

lemma booth_steps:
  assumes "0 < w" "holds a w" "holds l w" "holds r w" "i \<le> w"
  obtains a' l' b where "(booth_step r w ^^ i) (bigint_zero a w, l, False) = (a', l', b)"
    "length a' = length a" "length l' = length l" "booth_inv w (sval w r) (uval w l) i (a', l', b)"
  using assms(5)
proof (induction i arbitrary: thesis)
  case 0
  have "sval w (bigint_zero a w) = 0" using assms(1,2) by (simp add: sval_uval uval_zero)
  then have "booth_inv w (sval w r) (uval w l) 0 (bigint_zero a w, l, False)"
    by (auto simp: booth_inv_def intro!: exI [of _ 0])
  then show ?case using 0 uval_zero(2) [OF assms(2)] by auto
next
  case (Suc i)
  obtain a' l' b where s: "(booth_step r w ^^ i) (bigint_zero a w, l, False) = (a', l', b)"
    "length a' = length a" "length l' = length l" "booth_inv w (sval w r) (uval w l) i (a', l', b)"
    using Suc.IH Suc.prems(2) by (metis Suc_leD)
  obtain a'' l'' b' where n: "booth_step r w (a', l', b) = (a'', l'', b')" by (rule prod_cases3)
  have h: "holds a' w" "holds l' w" using assms(2,3) s(2,3) by (simp_all add: holds_def)
  have "booth_inv w (sval w r) (uval w l) (Suc i) (a'', l'', b')"
    using booth_inv_step [OF assms(1) _ h assms(4) uval_bounds(1) s(4) n] Suc.prems(2) by simp
  moreover have "(booth_step r w ^^ Suc i) (bigint_zero a w, l, False) = (a'', l'', b')" by (simp add: s(1) n)
  ultimately show ?case
    using Suc.prems(1) booth_step(1,2) [OF assms(1) h assms(4) n] s(2,3) by simp
qed

section \<open>The product\<close>

lemma bit_product:
  fixes s x :: int
  assumes "0 \<le> x" "x < 2 ^ w"
  shows "bit (s * 2 ^ w + x) k \<longleftrightarrow> (if k < w then bit x k else bit s (k - w))"
proof -
  have "s * 2 ^ w + x = concat_bit w x s"
    using take_bit_int_eq_self [OF assms] by (simp add: concat_bit_eq push_bit_eq_mult)
  then show ?thesis by (auto simp: bit_concat_bit_iff)
qed

text \<open>Putting the two halves together and extending the sign.\<close>

lemma uval_assemble:
  assumes "0 < v" "0 < w" "holds rs v" "holds rs w" "holds a w" "holds l w"
    and top: "\<And>k. w \<le> k \<Longrightarrow> k < 8 * BITS_TO_DIGITS w \<Longrightarrow> \<not> bit (dval l) k"
  defines "r2 \<equiv> bigint_left_shift (bigint_or (bigint_zero rs v) a w) w v"
  shows "uval v (bigint_cast_signed (bigint_or r2 l w) (w * 2) v) = take_bit v (sval w a * 2 ^ w + uval w l)"
proof -
  let ?z = "bigint_zero rs v" and ?r1 = "bigint_or (bigint_zero rs v) a w"
  have lz: "length ?z = length rs" by (rule uval_zero(2) [OF assms(3)])
  have hz: "holds ?z v" "holds ?z w" using assms(3,4) lz by (simp_all add: holds_def)
  have l1: "length ?r1 = length rs" unfolding bigint_or_def using length_bitwise(2) [OF hz(2) assms(5)] lz by simp
  have h1: "holds ?r1 v" using assms(3) l1 by (simp add: holds_def)
  have l2: "length r2 = length rs" unfolding r2_def using bit_left_shift(1) [OF h1 assms(1)] l1 by simp
  then have h2: "holds r2 v" "holds r2 w" using assms(3,4) by (simp_all add: holds_def)
  have h3: "holds (bigint_or r2 l w) v"
    unfolding bigint_or_def holds_def length_bitwise(2) [OF h2(2) assms(6)] using h2(1) by (simp add: holds_def)
  have w8: "j < 8 * BITS_TO_DIGITS w" if "j < w" for j using that digits_index(1) [of w] by simp
  have or_bit: "bit (dval (bigint_or x y w)) j \<longleftrightarrow> bit (dval x) j \<or> (j < 8 * BITS_TO_DIGITS w \<and> bit (dval y) j)"
    if "holds x w" "holds y w" for x y j
    using that by (auto simp: bit_dval bigint_or_def digitwise_def holds_def nth_append div_8_less [symmetric] min_def bit_or_iff)
  have z: "\<not> bit (dval ?z) j" if "j < v" for j using uval_zero(1) [OF assms(3)] bit_uval [of v ?z j] that by simp
  have r3: "bit (dval (bigint_or r2 l w)) j \<longleftrightarrow> (if j < w then bit (dval l) j else bit (dval a) (j - w))"
    if "j < v" "j < w * 2" for j
  proof -
    have "bit (dval r2) j \<longleftrightarrow> w \<le> j \<and> bit (dval a) (j - w)"
      unfolding r2_def bit_left_shift(2) [OF h1 that(1)] or_bit [OF hz(2) assms(5)]
      using z [of "j - w"] w8 [of "j - w"] that by auto
    then show ?thesis unfolding or_bit [OF h2(2) assms(6)] using w8 [of j] top [of j] by auto
  qed
  show ?thesis
  proof (rule uval_eqI)
    fix k assume k: "k < v"
    let ?j = "if k < w * 2 then k else w * 2 - 1"
    have j: "?j < v" "?j < w * 2" using k assms(2) by auto
    have "bit (dval (bigint_cast_signed (bigint_or r2 l w) (w * 2) v)) k \<longleftrightarrow> bit (dval (bigint_or r2 l w)) ?j"
      using bit_cast_signed [OF h3 assms(1) k, of "w * 2"] assms(2) by simp
    also have "\<dots> \<longleftrightarrow> (if k < w then bit (uval w l) k else bit (sval w a) (k - w))"
      unfolding r3 [OF j] using assms(2) by (auto simp: bit_uval bit_sval)
    also have "\<dots> \<longleftrightarrow> bit (sval w a * 2 ^ w + uval w l) k"
      unfolding bit_product [OF uval_bounds] by simp
    finally show "bit (dval (bigint_cast_signed (bigint_or r2 l w) (w * 2) v)) k = bit (sval w a * 2 ^ w + uval w l) k" .
  qed
qed

lemma uval_signed_multiply:
  assumes "0 < v" "0 < w" "holds rs v" "holds rs w" "holds a w" "holds l w" "holds r w"
    and exact: "v \<le> w \<or> sval w r \<noteq> - (2 ^ (w - 1))"
  shows "uval v (fst (bigint_signed_multiply rs a l r v w)) = take_bit v (sval w l * sval w r)"
proof -
  obtain n where n: "w = Suc n" using assms(2) by (cases w) auto
  obtain a1 l1 b1 where s1: "(booth_step r w ^^ n) (bigint_zero a w, l, False) = (a1, l1, b1)"
    "length a1 = length a" "length l1 = length l" "booth_inv w (sval w r) (uval w l) n (a1, l1, b1)"
    by (rule booth_steps [OF assms(2,5-7), of n]) (use n in auto)
  obtain a2 l2 b2 where s2: "(booth_step r w ^^ w) (bigint_zero a w, l, False) = (a2, l2, b2)"
    "length a2 = length a" "length l2 = length l" "booth_inv w (sval w r) (uval w l) w (a2, l2, b2)"
    by (rule booth_steps [OF assms(2,5-7), of w]) auto
  have st: "booth_step r w (a1, l1, b1) = (a2, l2, b2)" using s1(1) s2(1) n by simp
  have h1: "holds a1 w" "holds l1 w" and h2: "holds a2 w" "holds l2 w"
    using assms(5,6) s1(2,3) s2(2,3) by (simp_all add: holds_def)
  have b2: "b2 \<longleftrightarrow> bit (dval l) (w - 1)"
  proof -
    obtain x where "uval w l1 = uval w l div 2 ^ n + 2 * x"
      using s1(4) n by (auto simp: booth_inv_def)
    then have "b2 \<longleftrightarrow> odd (uval w l div 2 ^ n)" using booth_step(3) [OF assms(2) h1 assms(7) st] by simp
    then show ?thesis using bit_uval [of w l n] n by (simp add: bit_iff_odd)
  qed
  obtain x e where x: "uval w l2 = uval w l div 2 ^ w + x"
    "sval w a2 * 2 ^ w + x = sval w r * (uval w l mod 2 ^ w - of_bool b2 * 2 ^ w) + e * 2 ^ w"
    "sval w r \<noteq> - (2 ^ (w - 1)) \<longrightarrow> e = 0"
    using s2(4) by (auto simp: booth_inv_def)
  have u: "uval w l div 2 ^ w = 0" "uval w l mod 2 ^ w = uval w l" using uval_bounds [of w l] by simp_all
  have p: "sval w a2 * 2 ^ w + uval w l2 = sval w l * sval w r + e * 2 ^ w"
    using x(1,2) sval_of_uval [OF assms(2), of l] by (simp add: u b2 mult.commute)
  have "uval v (fst (bigint_signed_multiply rs a l r v w)) = take_bit v (sval w l * sval w r + e * 2 ^ w)"
    using uval_assemble [OF assms(1-4) h2 booth_step(6) [OF assms(2) h1 assms(7) st]] assms(1,2)
    by (simp add: bigint_signed_multiply_def Let_def s2(1) p)
  also have "\<dots> = take_bit v (sval w l * sval w r)"
    using exact x(3) by (auto intro!: take_bit_cong_dvd simp: le_imp_power_dvd dvd_mult)
  finally show ?thesis .
qed

end
