(* ===== verification/Kefir_Bigint_Div.thy ===== *)
theory Kefir_Bigint_Div
  imports Kefir_Bigint_Booth "HOL-Library.Signed_Division"
begin

text \<open>Division by shifting and subtracting, and comparison.\<close>

section \<open>Unsigned division\<close>

lemma set_low_bit:
  assumes "0 < w" "holds ds w" "\<And>k. bit d k \<longleftrightarrow> (if k = 0 then x else bit (ds ! 0) k)"
  shows "uval w (ds[0 := d]) = 2 * (uval w ds div 2) + of_bool x"
proof -
  have i: "0 < length ds" using holds_index [OF assms(2,1)] by simp
  have "uval w (ds[0 := d]) = take_bit w (2 * (uval w ds div 2) + of_bool x)"
  proof (rule uval_eqI)
    fix k assume k: "k < w"
    have "bit (dval (ds[0 := d])) k \<longleftrightarrow> (if k = 0 then x else bit (dval ds) k)"
      unfolding bit_dval_update [OF i] using i by (auto simp: assms(3) bit_dval)
    also have "\<dots> \<longleftrightarrow> bit (2 * (uval w ds div 2) + of_bool x) k"
    proof -
      have "bit (dval ds) k \<longleftrightarrow> bit (uval w ds) k" using k by (simp add: bit_uval)
      then show ?thesis by (cases k) (auto simp: bit_0 bit_Suc)
    qed
    finally show "bit (dval (ds[0 := d])) k = bit (2 * (uval w ds div 2) + of_bool x) k" .
  qed
  moreover have "0 \<le> 2 * (uval w ds div 2) + of_bool x" "2 * (uval w ds div 2) + of_bool x < 2 ^ w"
  proof -
    have "uval w ds div 2 + 1 \<le> 2 ^ (w - 1)" using uval_half_less [OF assms(1), of ds] by simp
    moreover have "(2 :: int) ^ w = 2 * 2 ^ (w - 1)" using assms(1) by (cases w) auto
    ultimately show "2 * (uval w ds div 2) + of_bool x < 2 ^ w" by (auto simp: of_bool_def)
    show "0 \<le> 2 * (uval w ds div 2) + of_bool x" using uval_bounds(1) [of w ds] by auto
  qed
  ultimately show ?thesis by (simp add: take_bit_int_eq_self)
qed

lemma double_shift:
  assumes "0 < w" "holds ds w"
  shows "length (bigint_left_shift ds 1 w) = length ds" "uval w (bigint_left_shift ds 1 w) = take_bit w (2 * uval w ds)"
    "even (uval w (bigint_left_shift ds 1 w))"
proof -
  show "length (bigint_left_shift ds 1 w) = length ds" by (rule bit_left_shift(1) [OF assms(2,1)])
  show u: "uval w (bigint_left_shift ds 1 w) = take_bit w (2 * uval w ds)"
    using uval_left_shift [OF assms(2), of 1] by (simp add: push_bit_eq_mult mult.commute)
  show "even (uval w (bigint_left_shift ds 1 w))" unfolding u using assms(1) by (simp add: even_take_bit_eq)
qed

text \<open>One step brings down a bit of the dividend and subtracts the divisor if it fits.\<close>

lemma divide_step:
  assumes "0 < w" "v \<le> w" "holds l w" "holds a w" "holds r v"
    and d: "d = uval v r" "0 < d" "d \<le> 2 ^ (w - 1)" "uval w a < d"
    and step: "divide_step r w v (l, a) = (l', a')"
  defines "n \<equiv> 2 * uval w a + of_bool (bit (uval w l) (w - 1))"
  shows "length l' = length l" "length a' = length a"
    "uval w l' = take_bit w (2 * uval w l) + of_bool (d \<le> n)"
    "uval w a' = (if d \<le> n then n - d else n)"
proof -
  let ?i = "(w - 1) div 8" and ?o = "(w - 1) mod 8"
  define a1 l1 where al: "a1 = bigint_left_shift a 1 w" "l1 = bigint_left_shift l 1 w"
  define m where "m = drop_bit ?o (l ! ?i) AND 1"
  define a2 where "a2 = a1[0 := a1 ! 0 OR m]"
  define a3 where "a3 = bigint_subtract_zero_extend a2 r w v"
  note da = double_shift [OF assms(1,4), folded al(1)] and dl = double_shift [OF assms(1,3), folded al(2)]
  have m: "bit m k \<longleftrightarrow> k = 0 \<and> bit (uval w l) (w - 1)" for k
    using holds_index [OF assms(3), of "w - 1"] assms(1) by (auto simp: m_def bit_simps bit_uval bit_dval)
  have h1: "holds a1 w" "holds l1 w" using da(1) dl(1) assms(3,4) by (simp_all add: holds_def)
  have a10: "\<not> bit (a1 ! 0) 0"
    using da(3) odd_uval [OF assms(1), of a1] holds_index [OF h1(1) assms(1)] by (simp add: bit_dval)
  have la2: "length a2 = length a" by (simp add: a2_def da(1))
  have pow: "(2 :: int) ^ w = 2 * 2 ^ (w - 1)" using assms(1) by (cases w) auto
  have n: "0 \<le> n" "n < 2 ^ w" "n < 2 * d" using d uval_bounds(1) [of w a] pow by (auto simp: n_def of_bool_def)
  have u2: "uval w a2 = n"
  proof -
    have "uval w a2 = 2 * (uval w a1 div 2) + of_bool (bit (uval w l) (w - 1))"
      unfolding a2_def by (rule set_low_bit [OF assms(1) h1(1)]) (auto simp: bit_or_iff m a10)
    moreover have "take_bit w (2 * uval w a) = 2 * uval w a"
      using n uval_bounds(1) [of w a] by (intro take_bit_int_eq_self) (auto simp: n_def of_bool_def split: if_splits)
    ultimately show ?thesis by (simp add: da(2) n_def)
  qed
  have h2: "holds a2 w" using la2 assms(4) by (simp add: holds_def)
  have u3: "uval w a3 = take_bit w (n - d)" "length a3 = length a"
    using uval_zero_extend(3,4) [OF h2 assms(5,2)] la2 by (simp_all add: a3_def u2 d(1))
  have h3: "holds a3 w" using u3(2) assms(4) by (simp add: holds_def)
  have msb: "digit_bit (a3 ! ?i) ?o \<longleftrightarrow> n < d"
  proof -
    have "digit_bit (a3 ! ?i) ?o \<longleftrightarrow> sval w a3 < 0"
      using holds_index [OF h3, of "w - 1"] assms(1) by (simp add: sval_def bit_dval)
    also have "sval w a3 = signed_take_bit (w - 1) (n - d)"
      using sval_uval [OF assms(1), of a3] signed_take_bit_cong [OF assms(1), of "uval w a3" "n - d"] by (simp add: u3(1))
    also have "\<dots> = n - d" using n d by (intro signed_take_bit_int_eq_self) auto
    finally show ?thesis by simp
  qed
  have e: "(l', a') = (if n < d then (l1[0 := l1 ! 0 AND NOT 1], bigint_add_zero_extend a3 r w v) else (l1[0 := l1 ! 0 OR 1], a3))"
    using step msb unfolding divide_step_def Let_def DIGIT_BIT_def index_offset prod.case al [symmetric] m_def [symmetric]
      a2_def [symmetric] a3_def [symmetric] by simp
  have low: "uval w (l1[0 := l1 ! 0 AND NOT 1]) = uval w l1" "uval w (l1[0 := l1 ! 0 OR 1]) = uval w l1 + 1"
  proof -
    have "uval w (l1[0 := l1 ! 0 AND NOT 1]) = 2 * (uval w l1 div 2) + of_bool False"
      by (rule set_low_bit [OF assms(1) h1(2)]) (auto simp: bit_simps bit_1_iff dest: bit_imp_le_length)
    then show "uval w (l1[0 := l1 ! 0 AND NOT 1]) = uval w l1" using dl(3) by simp
    have "uval w (l1[0 := l1 ! 0 OR 1]) = 2 * (uval w l1 div 2) + of_bool True"
      by (rule set_low_bit [OF assms(1) h1(2)]) (auto simp: bit_simps bit_1_iff)
    then show "uval w (l1[0 := l1 ! 0 OR 1]) = uval w l1 + 1" using dl(3) by simp
  qed
  have restored: "uval w (bigint_add_zero_extend a3 r w v) = n" "length (bigint_add_zero_extend a3 r w v) = length a"
    using uval_zero_extend(1,2) [OF h3 assms(5,2)] u3 n by (simp_all add: d(1) take_bit_reduce take_bit_int_eq_self)
  show "length l' = length l" "length a' = length a" using e dl(1) restored(2) u3(2) by (auto split: if_splits)
  show "uval w l' = take_bit w (2 * uval w l) + of_bool (d \<le> n)" using e low by (auto simp: dl(2) split: if_splits)
  show "uval w a' = (if d \<le> n then n - d else n)"
    using e restored(1) u3(1) n by (auto simp: take_bit_int_eq_self split: if_splits)
qed

text \<open>
  After \<open>i\<close> steps the accumulator is the remainder of the top \<open>i\<close> bits of the dividend, and the dividend has been
  replaced by its remaining bits followed by the quotient of the top ones.
\<close>

definition divide_inv :: "nat \<Rightarrow> int \<Rightarrow> int \<Rightarrow> nat \<Rightarrow> int \<Rightarrow> int \<Rightarrow> bool" where
  "divide_inv w x d i ul ua \<longleftrightarrow>
     ua = x div 2 ^ (w - i) mod d \<and> ul = 2 ^ i * (x mod 2 ^ (w - i)) + x div 2 ^ (w - i) div d"

lemma div_step_bits:
  fixes x :: int
  shows "x div 2 ^ n = 2 * (x div 2 ^ Suc n) + of_bool (bit x n)"
    "x mod 2 ^ Suc n = x mod 2 ^ n + of_bool (bit x n) * 2 ^ n"
proof -
  have "x div 2 ^ Suc n = x div 2 ^ n div 2" by (simp add: zdiv_zmult2_eq [symmetric] mult.commute)
  then show "x div 2 ^ n = 2 * (x div 2 ^ Suc n) + of_bool (bit x n)"
    using mult_div_mod_eq [of 2 "x div 2 ^ n"] by (simp add: bit_iff_odd mod_2_eq_odd)
  show "x mod 2 ^ Suc n = x mod 2 ^ n + of_bool (bit x n) * 2 ^ n" unfolding bit_iff_odd by (rule mod_step)
qed

lemma int_div_less_mult:
  fixes x c d :: int
  assumes "0 < d" "x < c * d"
  shows "x div d < c"
proof -
  have "x div d * d \<le> x" using div_mult_mod_eq [of x d] pos_mod_sign [OF assms(1), of x] by linarith
  then have "x div d * d < c * d" using assms(2) by linarith
  then show ?thesis using assms(1) mult_less_cancel_right_pos by blast
qed

lemma div_mod_step:
  fixes m d b :: int
  assumes "0 < d" "0 \<le> b" "b \<le> 1"
  defines "n \<equiv> 2 * (m mod d) + b"
  shows "(2 * m + b) mod d = (if d \<le> n then n - d else n)" "(2 * m + b) div d = 2 * (m div d) + of_bool (d \<le> n)"
proof -
  have eq: "2 * m + b = d * (2 * (m div d)) + n"
  proof -
    have "2 * m = 2 * (d * (m div d) + m mod d)" by (simp only: mult_div_mod_eq)
    then show ?thesis unfolding n_def by (simp only: distrib_left mult.left_commute [of 2 d] add.assoc)
  qed
  have n: "0 \<le> n" "n < 2 * d"
    using assms(1-3) pos_mod_sign [OF assms(1), of m] pos_mod_bound [OF assms(1), of m] unfolding n_def by linarith+
  have "n mod d = (if d \<le> n then n - d else n)" "n div d = of_bool (d \<le> n)"
  proof -
    show "n mod d = (if d \<le> n then n - d else n)"
      using n mod_pos_pos_trivial [of "n - d" d] by (auto simp: mod_pos_pos_trivial minus_mod_self2)
    show "n div d = of_bool (d \<le> n)"
      using n assms(1) by (auto intro: int_div_pos_eq [where r = "n - d"] simp: div_pos_pos_trivial)
  qed
  then show "(2 * m + b) mod d = (if d \<le> n then n - d else n)" "(2 * m + b) div d = 2 * (m div d) + of_bool (d \<le> n)"
    using assms(1) unfolding eq by simp_all
qed

lemma divide_inv_step:
  fixes x d :: int
  assumes "i < w" "0 \<le> x" "x < 2 ^ w" "0 < d" "divide_inv w x d i ul ua"
  defines "n \<equiv> 2 * ua + of_bool (bit ul (w - 1))"
  shows "divide_inv w x d (Suc i) (take_bit w (2 * ul) + of_bool (d \<le> n)) (if d \<le> n then n - d else n)"
proof -
  obtain k where k: "w - i = Suc k" "w - Suc i = k" "w - 1 = i + k" "w = Suc i + k"
    using less_imp_Suc_add [OF assms(1)] by auto
  let ?top = "x div 2 ^ Suc k" and ?b = "of_bool (bit x k) :: int"
  have ua: "ua = ?top mod d" and ul: "ul = 2 ^ i * (x mod 2 ^ Suc k) + ?top div d"
    using assms(5) k by (simp_all add: divide_inv_def)
  have "x < 2 ^ i * 2 ^ Suc k" using assms(3) k by (simp add: power_add algebra_simps)
  then have top: "0 \<le> ?top" "?top < 2 ^ i"
    using assms(2) by (simp_all add: pos_imp_zdiv_nonneg_iff int_div_less_mult del: power_Suc)
  have "(2 :: int) ^ i * 1 \<le> 2 ^ i * d" using assms(4) by (intro mult_left_mono) auto
  then have "?top < 2 ^ i * d" using top(2) by linarith
  then have q: "0 \<le> ?top div d" "?top div d < 2 ^ i"
    using top(1) assms(4) int_div_less_mult [OF assms(4)] by (simp_all add: pos_imp_zdiv_nonneg_iff)
  have "ul = concat_bit i (?top div d) (take_bit (Suc k) x)"
    unfolding ul concat_bit_eq push_bit_eq_mult take_bit_eq_mod mod_pos_pos_trivial [OF q] by simp
  then have b: "bit ul (w - 1) \<longleftrightarrow> bit x k"
    unfolding k(3) by (simp add: bit_concat_bit_iff bit_take_bit_iff)
  have n: "n = 2 * (?top mod d) + ?b" unfolding n_def ua b by (rule refl)
  note dm = div_mod_step [OF assms(4), of ?b ?top, folded n]
  have up: "x div 2 ^ k = 2 * ?top + ?b" by (rule div_step_bits)
  have "2 * ul = 2 ^ Suc i * (x mod 2 ^ k) + 2 * (?top div d) + ?b * 2 ^ w"
    unfolding ul div_step_bits(2) using k(4) by (simp add: algebra_simps power_add)
  then have "take_bit w (2 * ul) = take_bit w (2 ^ Suc i * (x mod 2 ^ k) + 2 * (?top div d))"
    by (intro take_bit_cong_dvd) simp
  also have "\<dots> = 2 ^ Suc i * (x mod 2 ^ k) + 2 * (?top div d)"
  proof (rule take_bit_int_eq_self)
    show "0 \<le> 2 ^ Suc i * (x mod 2 ^ k) + 2 * (?top div d)" using q by simp
    have "2 ^ Suc i * (x mod 2 ^ k) \<le> 2 ^ Suc i * (2 ^ k - 1)" by (intro mult_left_mono) auto
    then show "2 ^ Suc i * (x mod 2 ^ k) + 2 * (?top div d) < 2 ^ w" using q k(4) by (simp add: power_add algebra_simps)
  qed
  finally show ?thesis using dm k(2) by (simp add: divide_inv_def up)
qed

lemma divide_steps:
  assumes "0 < w" "v \<le> w" "holds l w" "holds a w" "holds r v" "0 < uval v r" "uval v r \<le> 2 ^ (w - 1)" "i \<le> w"
  obtains l' a' where "(divide_step r w v ^^ i) (l, bigint_zero a w) = (l', a')" "length l' = length l" "length a' = length a"
    "divide_inv w (uval w l) (uval v r) i (uval w l') (uval w a')"
  using assms(8)
proof (induction i arbitrary: thesis)
  case 0
  have "divide_inv w (uval w l) (uval v r) 0 (uval w l) (uval w (bigint_zero a w))"
    using uval_bounds [of w l] uval_zero(1) [OF assms(4)] by (simp add: divide_inv_def)
  then show ?case using 0 uval_zero(2) [OF assms(4)] by auto
next
  case (Suc i)
  obtain l' a' where s: "(divide_step r w v ^^ i) (l, bigint_zero a w) = (l', a')" "length l' = length l" "length a' = length a"
    "divide_inv w (uval w l) (uval v r) i (uval w l') (uval w a')"
    using Suc.IH Suc.prems(2) by (metis Suc_leD)
  obtain l'' a'' where n: "divide_step r w v (l', a') = (l'', a'')" by fastforce
  have h: "holds l' w" "holds a' w" using assms(3,4) s(2,3) by (simp_all add: holds_def)
  have "uval w a' < uval v r" using s(4) assms(6) by (simp add: divide_inv_def)
  note st = divide_step [OF assms(1,2) h assms(5) refl assms(6,7) this n]
  have "divide_inv w (uval w l) (uval v r) (Suc i) (uval w l'') (uval w a'')"
    unfolding st(3,4) using divide_inv_step [OF _ uval_bounds assms(6) s(4)] Suc.prems(2) by simp
  moreover have "(divide_step r w v ^^ Suc i) (l, bigint_zero a w) = (l'', a'')" by (simp add: s(1) n)
  ultimately show ?case using Suc.prems(1) st(1,2) s(2,3) by simp
qed

lemma unsigned_divide:
  assumes "0 < w" "v \<le> w" "holds l w" "holds a w" "holds r v" "uval v r \<noteq> 0" "uval v r \<le> 2 ^ (w - 1)"
  obtains q m where "bigint_unsigned_divide l a r w v = (BIGINT_OK, q, m)" "length q = length l" "length m = length a"
    "uval w q = uval w l div uval v r" "uval w m = uval w l mod uval v r"
proof -
  have p: "0 < uval v r" using assms(6) uval_bounds(1) [of v r] by simp
  obtain q m where s: "(divide_step r w v ^^ w) (l, bigint_zero a w) = (q, m)" "length q = length l" "length m = length a"
    "divide_inv w (uval w l) (uval v r) w (uval w q) (uval w m)"
    by (rule divide_steps [OF assms(1-5) p assms(7), of w]) auto
  have "bigint_unsigned_divide l a r w v = (BIGINT_OK, q, m)"
    using assms(1,6) is_zero_iff [OF assms(5)] s(1) by (simp add: bigint_unsigned_divide_def Let_def)
  then show ?thesis using that s by (simp add: divide_inv_def)
qed

section \<open>Signed division\<close>

text \<open>The magnitude of a number: the number itself or its negation, according to its sign.\<close>

lemma uval_magnitude:
  assumes "0 < w" "holds ds w"
  defines "m \<equiv> if bigint_get_sign ds w then bigint_negate ds w else ds"
  shows "uval w m = \<bar>sval w ds\<bar>" "length m = length ds" "holds m w"
proof -
  have pow: "(2 :: int) ^ w = 2 * 2 ^ (w - 1)" using assms(1) by (cases w) auto
  have "take_bit w (- sval w ds) = - sval w ds" if "sval w ds < 0"
    using that sval_range [OF assms(1), of ds] pow by (intro take_bit_int_eq_self) auto
  moreover have "uval w ds = sval w ds" if "0 \<le> sval w ds"
    using that sval_of_uval [OF assms(1), of ds] assms(1) by (auto simp: sval_def split: if_splits)
  moreover have "take_bit w (- uval w ds) = take_bit w (- sval w ds)"
    using take_bit_uval_sval [OF assms(1), of ds] by (metis take_bit_minus)
  ultimately show "uval w m = \<bar>sval w ds\<bar>"
    using uval_negate(1) [OF assms(2)] by (auto simp: m_def get_sign_sval [OF assms(2)])
  show "length m = length ds" using uval_negate(2) [OF assms(2)] by (simp add: m_def)
  then show "holds m w" using assms(2) by (simp add: holds_def)
qed

lemma uval_negate_if:
  assumes "holds ds w" "uval w ds = take_bit w x"
  shows "uval w (if s then bigint_negate ds w else ds) = take_bit w (if s then - x else x)"
    "length (if s then bigint_negate ds w else ds) = length ds"
  using uval_negate [OF assms(1)] assms(2) by (simp_all add: take_bit_minus)

lemma signed_divide:
  assumes "0 < v" "v \<le> w" "holds l w" "holds a w" "holds r v" "sval v r \<noteq> 0"
  obtains q m r' where "bigint_signed_divide l a r w v = (BIGINT_OK, q, m, r')"
    "length q = length l" "length m = length a" "length r' = length r"
    "uval w q = take_bit w (sval w l sdiv sval v r)" "uval w m = take_bit w (sval w l smod sval v r)"
proof -
  have w: "0 < w" using assms(1,2) by simp
  define l1 r1 where "l1 = (if bigint_get_sign l w then bigint_negate l w else l)"
    and "r1 = (if bigint_get_sign r v then bigint_negate r v else r)"
  note ml = uval_magnitude [OF w assms(3), folded l1_def] and mr = uval_magnitude [OF assms(1,5), folded r1_def]
  have "\<bar>sval v r\<bar> \<le> 2 ^ (v - 1)" using sval_range [OF assms(1), of r] by auto
  also have "(2 :: int) ^ (v - 1) \<le> 2 ^ (w - 1)" using assms(2) by (intro power_increasing) auto
  finally have d: "uval v r1 \<noteq> 0" "uval v r1 \<le> 2 ^ (w - 1)" using assms(6) mr(1) by simp_all
  obtain q0 m0 where u: "bigint_unsigned_divide l1 a r1 w v = (BIGINT_OK, q0, m0)" "length q0 = length l1"
    "length m0 = length a" "uval w q0 = \<bar>sval w l\<bar> div \<bar>sval v r\<bar>" "uval w m0 = \<bar>sval w l\<bar> mod \<bar>sval v r\<bar>"
    using unsigned_divide [OF w assms(2) ml(3) assms(4) mr(3) d] ml(1) mr(1) by metis
  have h: "holds q0 w" "holds m0 w" using u(2,3) ml(2) assms(3,4) by (simp_all add: holds_def)
  define sq sm where "sq = (bigint_get_sign l w \<noteq> bigint_get_sign r v)" and "sm = bigint_get_sign l w"
  note nq = uval_negate_if [OF h(1) take_bit_uval [symmetric], of sq]
    and nm = uval_negate_if [OF h(2) take_bit_uval [symmetric], of sm]
  have nz: "\<not> bigint_is_zero r v"
    using assms(6) take_bit_uval_sval [OF assms(1), of r] sval_uval [OF assms(1), of r] by (auto simp: is_zero_iff [OF assms(5)])
  have "bigint_signed_divide l a r w v =
      (BIGINT_OK, if sq then bigint_negate q0 w else q0, if sm then bigint_negate m0 w else m0, r1)"
    using nz u(1) by (simp add: bigint_signed_divide_def Let_def l1_def r1_def sq_def sm_def)
  moreover have "(if sq then - uval w q0 else uval w q0) = sval w l sdiv sval v r"
    using assms(6) by (auto simp: u(4) sq_def get_sign_sval assms(3,5) signed_divide_int_def sgn_if)
  moreover have "(if sm then - uval w m0 else uval w m0) = sval w l smod sval v r"
    by (auto simp: u(5) sm_def get_sign_sval assms(3) signed_modulo_int_def sgn_if)
  moreover have "length (if sq then bigint_negate q0 w else q0) = length l"
    "length (if sm then bigint_negate m0 w else m0) = length a"
    using nq(2) nm(2) u(2,3) ml(2) by simp_all
  ultimately show ?thesis using nq(1) nm(1) mr(2) by (intro that [where r' = r1]) simp_all
qed

end
