(* ===== verification/Kefir_Bigint_Scan.thy ===== *)
theory Kefir_Bigint_Scan
  imports Kefir_Bigint_Div
begin

text \<open>
  The routines that only look at a number: comparison, and the searches and counts of \<^verbatim>\<open>bits.h\<close> and
  \<^verbatim>\<open>get.h\<close>. A search is shown to be the search of the bit sequence, in the order in which the digit loops meet
  the bits.
\<close>

section \<open>Comparison\<close>

lemma compare_digit_operand: "0 < w \<Longrightarrow> compare_digit ds w i = operand_digit ds w i"
proof -
  assume w: "0 < w"
  then have "Suc ((w - 1) - (w - 1) div 8 * 8) = w - (BITS_TO_DIGITS w - 1) * 8"
    using digits_index(3,5) [OF w] by linarith
  then show ?thesis by (simp add: compare_digit_def operand_digit_def Let_def DIGIT_BIT_def)
qed

lemma dval_digits_of_Suc: "dval (digits_of f 0 (Suc i)) = dval (digits_of f 0 i) + 256 ^ i * uint (f i)"
  using dval_digits_of_split [of i "Suc i" f] by (simp add: Suc_diff_le del: digits_of_simps(2)) (simp add: digits_of_def)

lemma compare_top_digit:
  fixes a b :: int
  assumes "x < y" "0 \<le> b" "a < 256 ^ i"
  shows "a + 256 ^ i * x < b + 256 ^ i * y"
proof -
  have "256 ^ i * (x + 1) \<le> 256 ^ i * y" using assms(1) by (intro mult_left_mono) auto
  then show ?thesis using assms(2,3) by (simp add: distrib_left)
qed

definition sign_word :: "int \<Rightarrow> 32 word" where
  "sign_word x = (if x > 0 then 1 else if x < 0 then -1 else 0)"

lemma unsigned_compare_loop:
  assumes "0 < w"
  shows "unsigned_compare_loop l r w i =
    sign_word (dval (digits_of (operand_digit l w) 0 i) - dval (digits_of (operand_digit r w) 0 i))"
proof (induction i)
  case 0
  then show ?case by (simp add: sign_word_def)
next
  case (Suc i)
  let ?f = "operand_digit l w" and ?g = "operand_digit r w"
  have b: "0 \<le> dval (digits_of h 0 i)" "dval (digits_of h 0 i) < 256 ^ i" for h
    using dval_nonneg dval_less [of "digits_of h 0 i"] by simp_all
  consider "?f i < ?g i" | "?g i < ?f i" | "?f i = ?g i" by (rule linorder_cases)
  then show ?case
  proof cases
    case 1
    then show ?thesis
      using compare_top_digit [OF _ b, of "uint (?f i)" "uint (?g i)" ?f ?g]
      by (simp add: compare_digit_operand [OF assms] dval_digits_of_Suc sign_word_def word_less_def del: digits_of_simps(2))
  next
    case 2
    then show ?thesis
      using compare_top_digit [OF _ b, of "uint (?g i)" "uint (?f i)" ?g ?f]
      by (simp add: compare_digit_operand [OF assms] dval_digits_of_Suc sign_word_def word_less_def del: digits_of_simps(2))
  next
    case 3
    then show ?thesis
      using Suc by (simp add: compare_digit_operand [OF assms] dval_digits_of_Suc del: digits_of_simps(2))
  qed
qed

lemma unsigned_compare:
  assumes "holds l w" "holds r w"
  shows "bigint_unsigned_compare l r w = sign_word (uval w l - uval w r)"
proof (cases "w = 0")
  case True
  then show ?thesis by (simp add: bigint_unsigned_compare_def BITS_TO_DIGITS_def DIGIT_BIT_def sign_word_def)
next
  case False
  then show ?thesis
    using assms by (simp add: bigint_unsigned_compare_def unsigned_compare_loop dval_operand)
qed

lemma signed_compare:
  assumes "0 < w" "holds l w" "holds r w"
  shows "bigint_signed_compare l r w = sign_word (sval w l - sval w r)"
proof -
  have s: "digit_bit (d ! ((w - 1) div DIGIT_BIT)) (w - 1 - (w - 1) div DIGIT_BIT * DIGIT_BIT) \<longleftrightarrow> bit (dval d) (w - 1)"
    if "holds d w" for d
    using holds_index [OF that, of "w - 1"] assms(1) unfolding DIGIT_BIT_def index_offset by (simp add: bit_dval)
  show ?thesis
    using uval_bounds [of w l] uval_bounds [of w r]
    unfolding bigint_signed_compare_def Let_def s [OF assms(2)] s [OF assms(3)] unsigned_compare [OF assms(2,3)]
      sval_of_uval [OF assms(1)] sign_word_def
    by auto
qed

section \<open>Searches\<close>

lemma find_append: "find P (xs @ ys) = (case find P xs of None \<Rightarrow> find P ys | Some x \<Rightarrow> Some x)"
  by (induction xs) auto

lemma find_cong_None: "(\<And>x. x \<in> set xs \<Longrightarrow> \<not> P x) \<Longrightarrow> find P xs = None"
  by (induction xs) auto

lemma find_map: "find P (map f xs) = map_option f (find (P \<circ> f) xs)"
  by (induction xs) auto

lemma find_cong_set: "(\<And>x. x \<in> set xs \<Longrightarrow> P x = Q x) \<Longrightarrow> find P xs = find Q xs"
  by (induction xs) auto

text \<open>The bits of digit \<open>i\<close>, as bits of the number.\<close>

lemma find_digit:
  assumes "i < length ds" "n \<le> 8"
  shows "find (\<lambda>k. bit (dval ds) k = b) [8 * i..<8 * i + n] = map_option (\<lambda>j. 8 * i + j) (find (\<lambda>j. bit (ds ! i) j = b) [0..<n])"
    "find (\<lambda>k. bit (dval ds) k = b) (rev [8 * i..<8 * i + n]) =
       map_option (\<lambda>j. 8 * i + j) (find (\<lambda>j. bit (ds ! i) j = b) (rev [0..<n]))"
proof -
  have m: "[8 * i..<8 * i + n] = map (\<lambda>j. 8 * i + j) [0..<n]" by (simp add: map_add_upt add.commute)
  have "find ((\<lambda>k. bit (dval ds) k = b) \<circ> (\<lambda>j. 8 * i + j)) xs = find (\<lambda>j. bit (ds ! i) j = b) xs" if "set xs = set [0..<n]" for xs
    using that assms by (intro find_cong_set) (auto simp: bit_digit_below)
  then show "find (\<lambda>k. bit (dval ds) k = b) [8 * i..<8 * i + n] = map_option (\<lambda>j. 8 * i + j) (find (\<lambda>j. bit (ds ! i) j = b) [0..<n])"
    "find (\<lambda>k. bit (dval ds) k = b) (rev [8 * i..<8 * i + n]) =
       map_option (\<lambda>j. 8 * i + j) (find (\<lambda>j. bit (ds ! i) j = b) (rev [0..<n]))"
    unfolding m rev_map find_map by auto
qed

lemma digit_width_up:
  assumes "0 < w" "i < BITS_TO_DIGITS w"
  shows "digit_width_up w i \<le> 8" "8 * i + digit_width_up w i = (if Suc i = BITS_TO_DIGITS w then w else 8 * Suc i)"
  using assms digits_index(1,5) [of w] by (auto simp: digit_width_up_def Let_def DIGIT_BIT_def)

text \<open>One step of the loops towards more significant digits.\<close>

lemma find_bits_up:
  assumes "0 < w" "holds ds w" "i < BITS_TO_DIGITS w"
  shows "find (\<lambda>k. bit (dval ds) k) [8 * i..<w] =
    (case find (bit (ds ! i)) [0..<digit_width_up w i] of
       Some j \<Rightarrow> Some (8 * i + j) | None \<Rightarrow> find (\<lambda>k. bit (dval ds) k) [8 * Suc i..<w])"
proof -
  let ?e = "8 * i + digit_width_up w i"
  have e: "8 * i \<le> ?e" "?e \<le> w" "[?e..<w] = [8 * Suc i..<w]"
    using digit_width_up [OF assms(1,3)] digits_index(1,5) [of w] assms by (auto split: if_splits)
  have "[8 * i..<w] = [8 * i..<?e] @ [?e..<w]" using upt_add_eq_append [of "8 * i" ?e "w - ?e"] e(1,2) by simp
  moreover have "i < length ds" using assms(2,3) by (simp add: holds_def)
  ultimately show ?thesis
    using find_digit(1) [of i ds "digit_width_up w i" True] digit_width_up(1) [OF assms(1,3)] e(3)
    by (simp add: find_append del: upt_Suc split: option.split)
qed

lemma find_bot [simp]: "find bot xs = None"
  by (rule find_cong_None) simp

lemma digit_bit_eq: "digit_bit d = bit d"
  by (rule ext) simp

lemma least_significant_loop:
  assumes "0 < w" "holds ds w" "i + n = BITS_TO_DIGITS w"
  shows "least_significant_loop ds w n i = (case find (bit (dval ds)) [8 * i..<w] of Some k \<Rightarrow> k + 1 | None \<Rightarrow> 0)"
  using assms(3)
proof (induction n arbitrary: i)
  case 0
  then show ?case using digits_index(1) [of w] by simp
next
  case (Suc n)
  then have "i < BITS_TO_DIGITS w" "Suc i + n = BITS_TO_DIGITS w" by simp_all
  note f = find_bits_up [OF assms(1,2) this(1)] and ih = Suc.IH [OF this(2)]
  show ?case unfolding f
    using ih by (cases "find (bit (ds ! i)) [0..<digit_width_up w i]") (auto simp: digit_bit_eq DIGIT_BIT_def)
qed

lemma trailing_zeros_loop:
  assumes "0 < w" "holds ds w" "i + n = BITS_TO_DIGITS w"
  shows "trailing_zeros_loop ds w dflt n i (8 * i) = (case find (bit (dval ds)) [8 * i..<w] of Some k \<Rightarrow> k | None \<Rightarrow> dflt)"
  using assms(3)
proof (induction n arbitrary: i)
  case 0
  then show ?case using digits_index(1) [of w] by simp
next
  case (Suc n)
  then have i: "i < BITS_TO_DIGITS w" "Suc i + n = BITS_TO_DIGITS w" by simp_all
  have c: "trailing_zeros_loop ds w dflt n (i + 1) (8 * i + digit_width_up w i) =
      trailing_zeros_loop ds w dflt n (i + 1) (8 * (i + 1))"
  proof (cases "n = 0")
    case False
    then have "8 * i + digit_width_up w i = 8 * (i + 1)" using digit_width_up(2) [OF assms(1) i(1)] i(2) by simp
    then show ?thesis by (simp only:)
  qed simp
  have z: "8 * i + DIGIT_BIT = 8 * (i + 1)" by (simp add: DIGIT_BIT_def)
  show ?case unfolding find_bits_up [OF assms(1,2) i(1)]
    using Suc.IH [OF i(2)] c
    by (cases "find (bit (ds ! i)) [0..<digit_width_up w i]") (auto simp: digit_bit_eq z simp del: mult_Suc_right add_mult_distrib2 distrib_left_numeral)
qed

text \<open>The loops towards less significant digits start at the top digit, which may have fewer bits.\<close>

lemma digit_width_down:
  assumes "0 < w" "n + Suc i = BITS_TO_DIGITS w"
  shows "digit_width_down w i \<le> 8" "8 * n + digit_width_down w i = (if i = 0 then w else 8 * Suc n)"
proof -
  have "BITS_TO_DIGITS w - 1 = n" if "i = 0" using assms(2) that by simp
  then show "digit_width_down w i \<le> 8" "8 * n + digit_width_down w i = (if i = 0 then w else 8 * Suc n)"
    using assms digits_index(1,5) [of w] by (auto simp: digit_width_down_def DIGIT_BIT_def)
qed

lemma count_down:
  "count_down d msb left count =
     (case find (\<lambda>j. bit d j = (\<not> msb)) (rev [0..<left]) of
        Some j \<Rightarrow> (count + (left - 1 - j), True) | None \<Rightarrow> (count + left, False))"
proof (induction left arbitrary: count)
  case (Suc left)
  have "j < left" if "find (\<lambda>j. bit d j = (\<not> msb)) (rev [0..<left]) = Some j" for j
    using that by (auto simp: find_Some_iff rev_nth)
  then show ?case using Suc by (fastforce split: option.split)
qed simp

lemma find_bits_down:
  assumes "n < length ds" "d \<le> 8"
  shows "find (\<lambda>k. bit (dval ds) k = b) (rev [0..<8 * n + d]) =
    (case find (\<lambda>j. bit (ds ! n) j = b) (rev [0..<d]) of
       Some j \<Rightarrow> Some (8 * n + j) | None \<Rightarrow> find (\<lambda>k. bit (dval ds) k = b) (rev [0..<8 * n]))"
proof -
  have "[0..<8 * n + d] = [0..<8 * n] @ [8 * n..<8 * n + d]" using upt_add_eq_append [of 0 "8 * n" d] by simp
  then show ?thesis using find_digit(2) [OF assms, of b] by (simp add: find_append split: option.split)
qed

lemma count_down_at:
  assumes "0 < w" "holds ds w" "n + Suc i = BITS_TO_DIGITS w"
  defines "d \<equiv> digit_width_down w i"
  shows "count_down (ds ! n) msb d (w - (8 * n + d)) =
      (case find (\<lambda>j. bit (ds ! n) j = (\<not> msb)) (rev [0..<d]) of
         Some j \<Rightarrow> (w - 1 - (8 * n + j), True) | None \<Rightarrow> (w - 8 * n, False))"
    "find (\<lambda>k. bit (dval ds) k = b) (rev [0..<8 * n + d]) =
      (case find (\<lambda>j. bit (ds ! n) j = b) (rev [0..<d]) of
         Some j \<Rightarrow> Some (8 * n + j) | None \<Rightarrow> find (\<lambda>k. bit (dval ds) k = b) (rev [0..<8 * n]))"
proof -
  note d = digit_width_down [OF assms(1,3), folded d_def]
  have le: "8 * n + d \<le> w" using d(2) assms(3) digits_index(5) [OF assms(1)] by (auto split: if_splits)
  have "j < d" if "find (\<lambda>j. bit (ds ! n) j = (\<not> msb)) (rev [0..<d]) = Some j" for j
    using that by (auto simp: find_Some_iff rev_nth)
  then show "count_down (ds ! n) msb d (w - (8 * n + d)) =
      (case find (\<lambda>j. bit (ds ! n) j = (\<not> msb)) (rev [0..<d]) of
         Some j \<Rightarrow> (w - 1 - (8 * n + j), True) | None \<Rightarrow> (w - 8 * n, False))"
    using le by (fastforce simp: count_down split: option.split)
  show "find (\<lambda>k. bit (dval ds) k = b) (rev [0..<8 * n + d]) =
      (case find (\<lambda>j. bit (ds ! n) j = b) (rev [0..<d]) of
         Some j \<Rightarrow> Some (8 * n + j) | None \<Rightarrow> find (\<lambda>k. bit (dval ds) k = b) (rev [0..<8 * n]))"
    using find_bits_down [OF _ d(1)] assms(2,3) by (simp add: holds_def)
qed

lemma leading_zeros_loop:
  assumes "0 < w" "holds ds w" "n + i = BITS_TO_DIGITS w"
  defines "left \<equiv> if i = 0 then w else 8 * n"
  shows "leading_zeros_loop ds w dflt n i (w - left) =
    (case find (\<lambda>k. bit (dval ds) k = (\<not> False)) (rev [0..<left]) of Some k \<Rightarrow> w - 1 - k | None \<Rightarrow> dflt)"
  unfolding left_def using assms(3)
proof (induction n arbitrary: i)
  case 0
  then show ?case using digits_index(4) [OF assms(1)] by simp
next
  case (Suc n)
  then have i: "n + Suc i = BITS_TO_DIGITS w" by simp
  show ?case
    unfolding digit_width_down(2) [OF assms(1) i, symmetric] leading_zeros_loop.simps count_down_at [OF assms(1,2) i]
    using Suc.IH [OF i] by (simp split: option.split)
qed

lemma sign_bits_loop:
  assumes "0 < w" "holds ds w" "n + i = BITS_TO_DIGITS w"
  defines "left \<equiv> if i = 0 then w else 8 * n"
  shows "sign_bits_loop ds w msb n i (w - left) =
    (case find (\<lambda>k. bit (dval ds) k = (\<not> msb)) (rev [0..<left]) of Some k \<Rightarrow> w - 1 - k | None \<Rightarrow> w) - 1"
  unfolding left_def using assms(3)
proof (induction n arbitrary: i)
  case 0
  then show ?case using digits_index(4) [OF assms(1)] by simp
next
  case (Suc n)
  then have i: "n + Suc i = BITS_TO_DIGITS w" by simp
  show ?case
    unfolding digit_width_down(2) [OF assms(1) i, symmetric] sign_bits_loop.simps count_down_at [OF assms(1,2) i]
    using Suc.IH [OF i] by (simp split: option.split)
qed

lemma find_rev_upt: "find P (rev [a..<w]) = Some k \<longleftrightarrow> a \<le> k \<and> k < w \<and> P k \<and> (\<forall>j. k < j \<and> j < w \<longrightarrow> \<not> P j)"
proof (induction w)
  case (Suc w)
  then show ?case by (auto simp: less_Suc_eq)
qed simp

lemma find_upt:
  assumes "find P [a..<w] = Some k"
  shows "a \<le> k" "k < w" "P k" "a \<le> j \<Longrightarrow> j < k \<Longrightarrow> \<not> P j"
proof -
  obtain i where i: "i < w - a" "P (a + i)" "k = a + i" "\<forall>j<i. \<not> P (a + j)"
    using assms by (auto simp: find_Some_iff)
  then show "a \<le> k" "k < w" "P k" by auto
  show "a \<le> j \<Longrightarrow> j < k \<Longrightarrow> \<not> P j" using i(3,4) by (auto simp: le_iff_add)
qed

lemma nonneg_less_pow_iff: "0 \<le> x \<Longrightarrow> x < 2 ^ n \<longleftrightarrow> (\<forall>j\<ge>n. \<not> bit (x :: int) j)"
proof -
  assume x: "0 \<le> x"
  have "x < 2 ^ n \<longleftrightarrow> take_bit n x = x" using x by (simp add: take_bit_int_eq_self_iff)
  also have "\<dots> \<longleftrightarrow> (\<forall>j\<ge>n. \<not> bit x j)" by (simp add: bit_eq_iff bit_take_bit_iff) (meson not_le)
  finally show ?thesis .
qed

lemma signed_fits_iff: "- (2 ^ n) \<le> x \<and> x < 2 ^ n \<longleftrightarrow> (\<forall>j\<ge>n. bit (x :: int) j = bit x n)"
proof -
  have "- (2 ^ n) \<le> x \<and> x < 2 ^ n \<longleftrightarrow> signed_take_bit n x = x" by (simp add: signed_take_bit_int_eq_self_iff)
  also have "\<dots> \<longleftrightarrow> (\<forall>j\<ge>n. bit x j = bit x n)"
    by (auto simp: bit_eq_iff bit_signed_take_bit_iff min_def)
  finally show ?thesis .
qed

lemma dvd_pow_iff: "2 ^ n dvd (x :: int) \<longleftrightarrow> (\<forall>j<n. \<not> bit x j)"
proof -
  have "2 ^ n dvd x \<longleftrightarrow> take_bit n x = 0" by (simp add: take_bit_eq_0_iff)
  also have "\<dots> \<longleftrightarrow> (\<forall>j<n. \<not> bit x j)" by (auto simp: bit_eq_iff bit_take_bit_iff)
  finally show ?thesis .
qed

lemma uval_eq_0_iff: "uval w ds = 0 \<longleftrightarrow> (\<forall>k<w. \<not> bit (dval ds) k)"
  by (auto simp: bit_eq_iff bit_uval)

lemma bit_searches:
  assumes "holds ds w"
  shows "bigint_least_significant_nonzero ds w = (case find (bit (dval ds)) [0..<w] of Some k \<Rightarrow> k + 1 | None \<Rightarrow> 0)"
    "bigint_trailing_zeros ds w dflt = (case find (bit (dval ds)) [0..<w] of Some k \<Rightarrow> k | None \<Rightarrow> dflt)"
    "bigint_leading_zeros ds w dflt = (case find (bit (dval ds)) (rev [0..<w]) of Some k \<Rightarrow> w - 1 - k | None \<Rightarrow> dflt)"
    "bigint_redundant_sign_bits ds w =
       (case find (\<lambda>k. bit (dval ds) k \<noteq> bit (dval ds) (w - 1)) (rev [0..<w]) of Some k \<Rightarrow> w - 1 - k | None \<Rightarrow> w) - 1"
proof -
  have msb: "digit_bit (ds ! (BITS_TO_DIGITS w - 1)) (w - 1 - (BITS_TO_DIGITS w - 1) * DIGIT_BIT) = bit (dval ds) (w - 1)" if "0 < w"
    using holds_index [OF assms, of "w - 1"] that unfolding digits_index(3) [OF that] DIGIT_BIT_def index_offset by (simp add: bit_dval)
  show "bigint_least_significant_nonzero ds w = (case find (bit (dval ds)) [0..<w] of Some k \<Rightarrow> k + 1 | None \<Rightarrow> 0)"
    using least_significant_loop [OF _ assms, of 0 "BITS_TO_DIGITS w"] by (simp add: bigint_least_significant_nonzero_def)
  show "bigint_trailing_zeros ds w dflt = (case find (bit (dval ds)) [0..<w] of Some k \<Rightarrow> k | None \<Rightarrow> dflt)"
    using trailing_zeros_loop [OF _ assms, of 0 "BITS_TO_DIGITS w"] by (simp add: bigint_trailing_zeros_def)
  show "bigint_leading_zeros ds w dflt = (case find (bit (dval ds)) (rev [0..<w]) of Some k \<Rightarrow> w - 1 - k | None \<Rightarrow> dflt)"
    using leading_zeros_loop [OF _ assms, of "BITS_TO_DIGITS w" 0] by (simp add: bigint_leading_zeros_def)
  show "bigint_redundant_sign_bits ds w =
       (case find (\<lambda>k. bit (dval ds) k \<noteq> bit (dval ds) (w - 1)) (rev [0..<w]) of Some k \<Rightarrow> w - 1 - k | None \<Rightarrow> w) - 1"
    using sign_bits_loop [OF _ assms, of "BITS_TO_DIGITS w" 0 "bit (dval ds) (w - 1)"] msb
    unfolding bigint_redundant_sign_bits_def Let_def by (simp del: One_nat_def)
qed

lemma fold_count: "fold (\<lambda>j count. if P j then count + 1 else count) xs c = c + length (filter P xs)"
  by (induction xs arbitrary: c) auto

lemma nonzero_count:
  assumes "holds ds w"
  shows "bigint_nonzero_count ds w = card {k. bit (uval w ds) k}"
proof (cases "w = 0")
  case False
  then have w: "0 < w" by simp
  have "fold (\<lambda>i count. fold (\<lambda>j count. if digit_bit (ds ! i) j then count + 1 else count) [0..<digit_width_up w i] count)
      [0..<m] 0 = length (filter (bit (dval ds)) [0..<min w (8 * m)])" if "m \<le> BITS_TO_DIGITS w" for m
    using that
  proof (induction m)
    case (Suc m)
    note u = digit_width_up [OF w, of m]
    have e: "min w (8 * Suc m) = 8 * m + digit_width_up w m" "min w (8 * m) = 8 * m"
      using u(2) Suc.prems digits_index(1,5) [of w] w by (auto split: if_splits)
    have m: "m < length ds" using Suc.prems assms by (simp add: holds_def)
    have "length (filter (bit (ds ! m)) [0..<digit_width_up w m]) = length (filter (bit (dval ds)) (map (\<lambda>j. 8 * m + j) [0..<digit_width_up w m]))"
      using u(1) Suc.prems m by (auto simp: filter_map bit_digit_below intro!: arg_cong [where f = length] filter_cong)
    moreover have "[0..<8 * m + digit_width_up w m] = [0..<8 * m] @ map (\<lambda>j. 8 * m + j) [0..<digit_width_up w m]"
      using upt_add_eq_append [of 0 "8 * m" "digit_width_up w m"] by (simp add: map_add_upt add.commute)
    ultimately show ?case using Suc e by (simp add: fold_count digit_bit_eq)
  qed simp
  from this [of "BITS_TO_DIGITS w"] have "bigint_nonzero_count ds w = length (filter (bit (dval ds)) [0..<w])"
    using False digits_index(1) [of w] by (simp add: bigint_nonzero_count_def min_def)
  also have "\<dots> = card {k. bit (uval w ds) k}"
    by (subst distinct_card [symmetric]) (auto simp: bit_uval intro: arg_cong [where f = card])
  finally show ?thesis .
qed (simp add: bigint_nonzero_count_def)


section \<open>What the searches find\<close>

text \<open>A width is characterised by the widths that are enough for the number.\<close>

lemma top_bit_width:
  assumes "0 \<le> x" "bit (x :: int) k" "\<And>j. k < j \<Longrightarrow> \<not> bit x j"
  shows "x < 2 ^ n \<longleftrightarrow> k < n"
  using assms by (auto simp: nonneg_less_pow_iff) (meson not_le)

lemma trailing_zeros:
  assumes "holds ds w" "uval w ds \<noteq> 0"
  shows "2 ^ bigint_trailing_zeros ds w dflt dvd uval w ds" "odd (uval w ds div 2 ^ bigint_trailing_zeros ds w dflt)"
    "bigint_least_significant_nonzero ds w = bigint_trailing_zeros ds w dflt + 1"
proof -
  obtain k where k: "find (bit (dval ds)) [0..<w] = Some k"
    using assms(2) by (cases "find (bit (dval ds)) [0..<w]") (auto simp: find_None_iff uval_eq_0_iff)
  note f = find_upt [OF k]
  have r: "bigint_trailing_zeros ds w dflt = k" "bigint_least_significant_nonzero ds w = k + 1"
    by (simp_all add: bit_searches [OF assms(1)] k)
  have "bit (uval w ds) k" "\<forall>j<k. \<not> bit (uval w ds) j" using f by (auto simp: bit_uval)
  then have "2 ^ k dvd uval w ds" "odd (uval w ds div 2 ^ k)" by (simp_all only: dvd_pow_iff bit_iff_odd) simp
  then show "2 ^ bigint_trailing_zeros ds w dflt dvd uval w ds" "odd (uval w ds div 2 ^ bigint_trailing_zeros ds w dflt)"
    "bigint_least_significant_nonzero ds w = bigint_trailing_zeros ds w dflt + 1"
    unfolding r by auto
qed

lemma leading_zeros:
  assumes "holds ds w" "uval w ds \<noteq> 0"
  shows "bigint_leading_zeros ds w dflt < w" "uval w ds < 2 ^ n \<longleftrightarrow> w - bigint_leading_zeros ds w dflt \<le> n"
proof -
  obtain k where k: "find (bit (dval ds)) (rev [0..<w]) = Some k"
    using assms(2) by (cases "find (bit (dval ds)) (rev [0..<w])") (auto simp: find_None_iff uval_eq_0_iff)
  have r: "bigint_leading_zeros ds w dflt = w - 1 - k" by (simp add: bit_searches(3) [OF assms(1)] k)
  have kw: "k < w" using k by (simp add: find_rev_upt)
  have "bit (uval w ds) k" "\<And>j. k < j \<Longrightarrow> \<not> bit (uval w ds) j" using k by (auto simp: find_rev_upt bit_uval)
  then have "uval w ds < 2 ^ n \<longleftrightarrow> k < n" by (rule top_bit_width [OF uval_bounds(1)])
  moreover have "w - (w - 1 - k) = Suc k" using kw by simp
  ultimately show "bigint_leading_zeros ds w dflt < w" "uval w ds < 2 ^ n \<longleftrightarrow> w - bigint_leading_zeros ds w dflt \<le> n"
    using kw unfolding r by (auto simp: Suc_le_eq)
qed

lemma searches_zero:
  assumes "holds ds w" "uval w ds = 0"
  shows "bigint_trailing_zeros ds w dflt = dflt" "bigint_leading_zeros ds w dflt = dflt"
    "bigint_least_significant_nonzero ds w = 0"
proof -
  have "find (bit (dval ds)) [0..<w] = None" "find (bit (dval ds)) (rev [0..<w]) = None"
    using assms(2) by (auto simp: find_None_iff uval_eq_0_iff)
  then show "bigint_trailing_zeros ds w dflt = dflt" "bigint_leading_zeros ds w dflt = dflt"
    "bigint_least_significant_nonzero ds w = 0" by (simp_all add: bit_searches [OF assms(1)])
qed

lemma redundant_sign_bits:
  assumes "holds ds w" "0 < w"
  shows "bigint_redundant_sign_bits ds w < w"
    "- (2 ^ n) \<le> sval w ds \<and> sval w ds < 2 ^ n \<longleftrightarrow> w - 1 - bigint_redundant_sign_bits ds w \<le> n"
proof -
  let ?x = "sval w ds"
  define s where "s = bit (dval ds) (w - 1)"
  have top: "bit (dval ds) (w - Suc 0) = s" by (simp add: s_def)
  let ?f = "find (\<lambda>k. bit (dval ds) k \<noteq> s) (rev [0..<w])"
  have fits: "- (2 ^ n) \<le> ?x \<and> ?x < 2 ^ n \<longleftrightarrow> (\<forall>j. n \<le> j \<and> j < w \<longrightarrow> bit (dval ds) j = s)"
  proof -
    have "- (2 ^ n) \<le> ?x \<and> ?x < 2 ^ n \<longleftrightarrow> (\<forall>j\<ge>n. bit ?x j = bit ?x n)" by (rule signed_fits_iff)
    also have "\<dots> \<longleftrightarrow> (\<forall>j\<ge>n. bit ?x j = s)"
    proof -
      have "bit ?x (n + w) = s" using assms(2) by (simp add: bit_sval s_def)
      then show ?thesis by (metis le_add1 order_refl)
    qed
    also have "\<dots> \<longleftrightarrow> (\<forall>j. n \<le> j \<and> j < w \<longrightarrow> bit (dval ds) j = s)"
      by (auto simp: bit_sval [OF assms(2)] top)
    finally show ?thesis .
  qed
  have r: "bigint_redundant_sign_bits ds w = (case ?f of Some k \<Rightarrow> w - 1 - k | None \<Rightarrow> w) - 1"
    unfolding s_def by (rule bit_searches(4) [OF assms(1)])
  show "bigint_redundant_sign_bits ds w < w" using assms(2) by (auto simp: r split: option.split)
  show "- (2 ^ n) \<le> ?x \<and> ?x < 2 ^ n \<longleftrightarrow> w - 1 - bigint_redundant_sign_bits ds w \<le> n"
  proof (cases ?f)
    case None
    then have "bit (dval ds) j = s" if "j < w" for j using that by (auto simp: find_None_iff)
    then show ?thesis using fits r None by simp
  next
    case (Some k)
    then have k: "k < w" "bit (dval ds) k \<noteq> s" "\<And>j. k < j \<Longrightarrow> j < w \<Longrightarrow> bit (dval ds) j = s"
      by (auto simp: find_rev_upt)
    moreover from k have "k \<noteq> w - 1" by (auto simp: s_def)
    ultimately have "w - 1 - bigint_redundant_sign_bits ds w = Suc k" using Some r by simp
    moreover have "(\<forall>j. n \<le> j \<and> j < w \<longrightarrow> bit (dval ds) j = s) \<longleftrightarrow> k < n"
      using k by (meson leI less_le_trans)
    ultimately show ?thesis using fits by (simp add: Suc_le_eq)
  qed
qed

lemma min_unsigned_width_loop:
  "holds ds w \<Longrightarrow> min_unsigned_width_loop ds w = (case find (bit (dval ds)) (rev [1..<w]) of Some k \<Rightarrow> k + 1 | None \<Rightarrow> min 1 w)"
proof (induction w)
  case (Suc w)
  have h: "holds ds w" using holds_mono [OF Suc.prems] by simp
  have "digit_bit (ds ! (w div DIGIT_BIT)) (w - w div DIGIT_BIT * DIGIT_BIT) = bit (dval ds) w"
    using holds_index [OF Suc.prems, of w] unfolding DIGIT_BIT_def index_offset by (simp add: bit_dval)
  moreover have "min 1 w = min 1 (Suc w)" if "0 < w" using that by simp
  ultimately show ?case using Suc.IH [OF h] by (cases "w = 0") (simp_all add: Let_def min_def split: option.split)
qed simp

lemma min_unsigned_width:
  assumes "holds ds w" "0 < w" "0 < n"
  shows "uval w ds < 2 ^ n \<longleftrightarrow> bigint_get_min_unsigned_width ds w \<le> n"
proof (cases "find (bit (dval ds)) (rev [1..<w])")
  case None
  then have "\<not> bit (uval w ds) j" if "0 < j" for j using that by (auto simp: find_None_iff bit_uval)
  then have "uval w ds < 2 ^ n" using assms(3) by (simp add: nonneg_less_pow_iff uval_bounds)
  then show ?thesis
    using None assms by (simp add: bigint_get_min_unsigned_width_def min_unsigned_width_loop)
next
  case (Some k)
  then have "bit (uval w ds) k" "\<And>j. k < j \<Longrightarrow> \<not> bit (uval w ds) j" by (auto simp: find_rev_upt bit_uval)
  from top_bit_width [OF uval_bounds(1) this] show ?thesis
    using Some assms by (simp add: bigint_get_min_unsigned_width_def min_unsigned_width_loop Suc_le_eq)
qed

section \<open>Widths of native values\<close>

lemma native_unsigned_loop_ge: "b \<le> native_unsigned_loop v b"
  by (induction v b rule: native_unsigned_loop.induct) (subst native_unsigned_loop.simps, auto)

lemma native_unsigned_loop: "native_unsigned_loop v b \<le> b + n \<longleftrightarrow> uint v < 2 ^ n"
proof (induction v b arbitrary: n rule: native_unsigned_loop.induct)
  case (1 v b)
  show ?case
  proof (cases "v = 0")
    case False
    then have e: "native_unsigned_loop v b = native_unsigned_loop (drop_bit 1 v) (b + 1)"
      by (subst native_unsigned_loop.simps) simp
    show ?thesis
    proof (cases n)
      case 0
      have "0 < uint v" using False by (simp add: word_neq_0_conv word_less_def)
      then show ?thesis using e native_unsigned_loop_ge [of "b + 1" "drop_bit 1 v"] 0 by simp
    next
      case (Suc m)
      have "uint (drop_bit 1 v) < 2 ^ m \<longleftrightarrow> uint v < 2 ^ n"
        unfolding Suc by (simp add: drop_bit_eq_div uint_div) linarith
      then show ?thesis using 1 [of m] False Suc e by simp
    qed
  qed (simp add: native_unsigned_loop.simps)
qed

lemma native_unsigned_width: "0 < n \<Longrightarrow> uint v < 2 ^ n \<longleftrightarrow> bigint_native_unsigned_width v \<le> n"
  using native_unsigned_loop [of v 0 n] by (auto simp: bigint_native_unsigned_width_def Let_def)

lemma native_signed_loop:
  fixes v top :: "64 word"
  defines "top \<equiv> push_bit 63 1"
  assumes "b \<le> 64" "\<And>j. b \<le> j \<Longrightarrow> j < 64 \<Longrightarrow> bit v j = bit v 63"
  shows "native_signed_loop top (v AND top) (push_bit (64 - b) v) (Suc b) \<le> Suc n \<longleftrightarrow>
    (\<forall>j. n \<le> j \<and> j < 64 \<longrightarrow> bit v j = bit v 63)"
  using assms(2,3)
proof (induction b)
  case 0
  then have "\<forall>j. n \<le> j \<and> j < 64 \<longrightarrow> bit v j = bit v 63" by blast
  moreover have "native_signed_loop top (v AND top) u (Suc 0) = Suc 0" for u by simp
  ultimately show ?case by (metis Suc_le_mono le0)
next
  case (Suc c)
  have test: "push_bit (64 - Suc c) v AND top = v AND top \<longleftrightarrow> bit v c = bit v 63"
  proof -
    have "bit top k \<longleftrightarrow> k = 63" for k unfolding top_def bit_push_bit_iff by (auto simp: bit_1_iff)
    then have "x AND top = y AND top \<longleftrightarrow> bit x 63 = bit y 63" for x y :: "64 word"
      by (auto simp: bit_eq_iff [of "x AND top"] bit_and_iff dest: spec [of _ 63])
    then show ?thesis using Suc.prems(1) by (simp add: bit_push_bit_iff)
  qed
  have shift: "push_bit 1 (push_bit (64 - Suc c) v) = push_bit (64 - c) v"
    using Suc.prems(1) unfolding push_bit_push_bit by (intro arg_cong2 [where f = push_bit]) auto
  show ?case
  proof (cases "bit v c = bit v 63")
    case True
    then have "bit v j = bit v 63" if "c \<le> j" "j < 64" for j using Suc.prems(2) [of j] that by (cases "j = c") auto
    note ih = Suc.IH [OF _ this]
    have "native_signed_loop top (v AND top) (push_bit (64 - Suc c) v) (Suc (Suc c)) =
        native_signed_loop top (v AND top) (push_bit (64 - c) v) (Suc c)"
      unfolding native_signed_loop.simps(2) [of _ _ _ "Suc c"] shift using test True by simp
    then show ?thesis using ih Suc.prems(1) by simp
  next
    case False
    have "(\<forall>j. n \<le> j \<and> j < 64 \<longrightarrow> bit v j = bit v 63) \<longleftrightarrow> c < n"
    proof
      assume "\<forall>j. n \<le> j \<and> j < 64 \<longrightarrow> bit v j = bit v 63"
      then show "c < n" using False Suc.prems(1) by (metis Suc_le_eq not_le)
    next
      assume "c < n"
      then show "\<forall>j. n \<le> j \<and> j < 64 \<longrightarrow> bit v j = bit v 63" using Suc.prems(2) by (meson Suc_le_eq order_trans)
    qed
    then show ?thesis using False test by auto
  qed
qed

lemma native_signed_width: "- (2 ^ n) \<le> sint v \<and> sint v < 2 ^ n \<longleftrightarrow> bigint_native_signed_width v \<le> n + 1"
proof -
  have "bigint_native_signed_width v \<le> n + 1 \<longleftrightarrow> (\<forall>j. n \<le> j \<and> j < 64 \<longrightarrow> bit v j = bit v 63)"
    using native_signed_loop [of 64 v n] by (simp add: bigint_native_signed_width_def VALUE_BIT_def)
  also have "\<dots> \<longleftrightarrow> (\<forall>j\<ge>n. bit (sint v) j = bit v 63)"
  proof -
    have "bit (sint v) j = (if j < 64 then bit v j else bit v 63)" for j by (auto simp: bit_sint_iff dest: bit_imp_le_length)
    then show ?thesis by metis
  qed
  also have "\<dots> \<longleftrightarrow> (\<forall>j\<ge>n. bit (sint v) j = bit (sint v) n)"
  proof -
    have "bit (sint v) (n + 64) = bit v 63" by (auto simp: bit_sint_iff dest: bit_imp_le_length)
    then show ?thesis by (metis le_add1 order_refl)
  qed
  finally show ?thesis using signed_fits_iff [of n "sint v"] by blast
qed

end
