(* ===== verification/Kefir_Bigint_Object.thy ===== *)
theory Kefir_Bigint_Object
  imports Kefir_Bigint_Scan
begin

text \<open>
  The big integer objects of \<^verbatim>\<open>source/util/bigint.c\<close>: a digit array with a capacity and a bit width, resized on
  demand, with the operations that check widths before they call the digit routines, and parsing and
  formatting in the bases 2, 8, 10 and 16. Memory that a reallocation adds holds arbitrary digits, which the
  allocator parameter provides (\<^const>\<open>None\<close> when it refuses). Pointers are valid; a width passed to a cast is positive.
\<close>

unbundle bit_operations_syntax

section \<open>Objects\<close>

record bigint =
  bi_digits :: digits
  bi_bitwidth :: nat
  bi_capacity :: nat

type_synonym bigint_mem = "nat \<Rightarrow> (nat \<Rightarrow> 8 word) option"

text \<open>\<^verbatim>\<open>REQUIRE_OK\<close> on a step that changes an object: a failed step ends the sequence with the state it left.\<close>

definition requireOK :: "kefir_result \<times> 's \<Rightarrow> ('s \<Rightarrow> kefir_result \<times> 's) \<Rightarrow> kefir_result \<times> 's" where
  "requireOK m f = (case m of (res, s) \<Rightarrow> if res = KEFIR_OK then f s else (res, s))"

lemma requireOK_simps [simp]: "requireOK (KEFIR_OK, s) f = f s"
  by (simp add: requireOK_def)

definition kefir_bigint_init :: bigint where
  "kefir_bigint_init = \<lparr>bi_digits = [], bi_bitwidth = 0, bi_capacity = 0\<rparr>"

definition kefir_bigint_free :: "bigint \<Rightarrow> kefir_result \<times> bigint" where
  "kefir_bigint_free b = (KEFIR_OK, \<lparr>bi_digits = [], bi_bitwidth = 0, bi_capacity = 0\<rparr>)"

definition kefir_bigint_copy :: "bigint \<Rightarrow> bigint \<Rightarrow> kefir_result \<times> bigint" where
  "kefir_bigint_copy dest src =
     (let required_capacity = (bi_bitwidth src + 8 - 1) div 8
      in if bi_capacity dest \<ge> required_capacity
         then (KEFIR_OK, dest\<lparr>bi_digits := bigint_copy (bi_digits dest) (bi_digits src) (bi_bitwidth src),
                              bi_bitwidth := bi_bitwidth src\<rparr>)
         else (KEFIR_OUT_OF_SPACE, dest))"

definition bigint_ensure_width :: "bigint_mem \<Rightarrow> bigint \<Rightarrow> nat \<Rightarrow> kefir_result \<times> bigint" where
  "bigint_ensure_width mem b width =
     (let required_capacity = (width + 8 * 8 - 1) div 8
      in if bi_capacity b < required_capacity then
           (case mem required_capacity of
              None \<Rightarrow> (KEFIR_MEMALLOC_FAILURE, b)
            | Some fresh \<Rightarrow>
                (KEFIR_OK, b\<lparr>bi_digits := bi_digits b @ map fresh [bi_capacity b..<required_capacity],
                             bi_capacity := required_capacity\<rparr>))
         else (KEFIR_OK, b))"

definition kefir_bigint_copy_resize :: "bigint_mem \<Rightarrow> bigint \<Rightarrow> bigint \<Rightarrow> kefir_result \<times> bigint" where
  "kefir_bigint_copy_resize mem dest src =
     requireOK (bigint_ensure_width mem dest (bi_bitwidth src)) (\<lambda>dest.
       (KEFIR_OK, dest\<lparr>bi_digits := bigint_copy (bi_digits dest) (bi_digits src) (bi_bitwidth src),
                       bi_bitwidth := bi_bitwidth src\<rparr>))"

text \<open>The new destination and the new source.\<close>

definition kefir_bigint_move :: "bigint \<Rightarrow> bigint \<Rightarrow> kefir_result \<times> bigint \<times> bigint" where
  "kefir_bigint_move dest src = (KEFIR_OK, src, \<lparr>bi_digits = [], bi_bitwidth = 0, bi_capacity = 0\<rparr>)"

definition kefir_bigint_min_unsigned_width :: "bigint \<Rightarrow> nat" where
  "kefir_bigint_min_unsigned_width b = bigint_get_min_unsigned_width (bi_digits b) (bi_bitwidth b)"

definition kefir_bigint_resize_nocast :: "bigint_mem \<Rightarrow> bigint \<Rightarrow> nat \<Rightarrow> kefir_result \<times> bigint" where
  "kefir_bigint_resize_nocast mem b width =
     (if width > 0 then requireOK (bigint_ensure_width mem b width) (\<lambda>b. (KEFIR_OK, b\<lparr>bi_bitwidth := width\<rparr>))
      else (KEFIR_INVALID_PARAMETER, b))"

definition kefir_bigint_cast_signed :: "bigint \<Rightarrow> nat \<Rightarrow> nat \<Rightarrow> kefir_result \<times> bigint" where
  "kefir_bigint_cast_signed b from_width to_width =
     (if from_width \<le> bi_bitwidth b then
        if to_width \<le> bi_bitwidth b
        then (KEFIR_OK, b\<lparr>bi_digits := bigint_cast_signed (bi_digits b) from_width to_width\<rparr>)
        else (KEFIR_OUT_OF_BOUNDS, b)
      else (KEFIR_OUT_OF_BOUNDS, b))"

definition kefir_bigint_cast_unsigned :: "bigint \<Rightarrow> nat \<Rightarrow> nat \<Rightarrow> kefir_result \<times> bigint" where
  "kefir_bigint_cast_unsigned b from_width to_width =
     (if from_width \<le> bi_bitwidth b then
        if to_width \<le> bi_bitwidth b
        then (KEFIR_OK, b\<lparr>bi_digits := bigint_cast_unsigned (bi_digits b) from_width to_width\<rparr>)
        else (KEFIR_OUT_OF_BOUNDS, b)
      else (KEFIR_OUT_OF_BOUNDS, b))"

definition kefir_bigint_resize_cast_signed :: "bigint_mem \<Rightarrow> bigint \<Rightarrow> nat \<Rightarrow> kefir_result \<times> bigint" where
  "kefir_bigint_resize_cast_signed mem b width =
     (if width > bi_bitwidth b then
        (let old_width = bi_bitwidth b
         in requireOK (kefir_bigint_resize_nocast mem b width) (\<lambda>b.
              kefir_bigint_cast_signed b old_width (bi_bitwidth b)))
      else if width \<noteq> bi_bitwidth b then
        requireOK (kefir_bigint_cast_signed b (bi_bitwidth b) width) (\<lambda>b. kefir_bigint_resize_nocast mem b width)
      else (KEFIR_OK, b))"

definition kefir_bigint_resize_cast_unsigned :: "bigint_mem \<Rightarrow> bigint \<Rightarrow> nat \<Rightarrow> kefir_result \<times> bigint" where
  "kefir_bigint_resize_cast_unsigned mem b width =
     (if width > bi_bitwidth b then
        (let old_width = bi_bitwidth b
         in requireOK (kefir_bigint_resize_nocast mem b width) (\<lambda>b.
              kefir_bigint_cast_unsigned b old_width (bi_bitwidth b)))
      else if width \<noteq> bi_bitwidth b then
        requireOK (kefir_bigint_cast_unsigned b (bi_bitwidth b) width) (\<lambda>b. kefir_bigint_resize_nocast mem b width)
      else (KEFIR_OK, b))"

definition kefir_bigint_set_signed_value :: "bigint \<Rightarrow> 64 word \<Rightarrow> kefir_result \<times> bigint" where
  "kefir_bigint_set_signed_value b v =
     (KEFIR_OK, b\<lparr>bi_digits := bigint_set_signed_integer (bi_digits b) (bi_bitwidth b) v\<rparr>)"

definition kefir_bigint_set_unsigned_value :: "bigint \<Rightarrow> 64 word \<Rightarrow> kefir_result \<times> bigint" where
  "kefir_bigint_set_unsigned_value b v =
     (KEFIR_OK, b\<lparr>bi_digits := bigint_set_unsigned_integer (bi_digits b) (bi_bitwidth b) v\<rparr>)"

definition kefir_bigint_get_signed :: "bigint \<Rightarrow> 64 word result" where
  "kefir_bigint_get_signed b = Inr (bigint_get_signed_value (bi_digits b) (bi_bitwidth b))"

definition kefir_bigint_get_unsigned :: "bigint \<Rightarrow> 64 word result" where
  "kefir_bigint_get_unsigned b = Inr (bigint_get_unsigned_value (bi_digits b) (bi_bitwidth b))"

definition kefir_bigint_get_bits :: "bigint \<Rightarrow> nat \<Rightarrow> nat \<Rightarrow> 64 word result" where
  "kefir_bigint_get_bits b offset len = Inr (bigint_get_bits (bi_digits b) offset len (bi_bitwidth b))"

definition kefir_bigint_set_bits :: "bigint \<Rightarrow> 64 word \<Rightarrow> nat \<Rightarrow> nat \<Rightarrow> kefir_result \<times> bigint" where
  "kefir_bigint_set_bits b v offset len =
     (KEFIR_OK, b\<lparr>bi_digits := bigint_set_bits (bi_digits b) v offset len (bi_bitwidth b)\<rparr>)"

definition kefir_bigint_is_zero :: "bigint \<Rightarrow> bool result" where
  "kefir_bigint_is_zero b = Inr (bigint_is_zero (bi_digits b) (bi_bitwidth b))"

section \<open>Arithmetic with width checks\<close>

definition kefir_bigint_add :: "bigint \<Rightarrow> bigint \<Rightarrow> kefir_result \<times> bigint" where
  "kefir_bigint_add lhs rhs =
     (if bi_bitwidth lhs = bi_bitwidth rhs
      then (KEFIR_OK, lhs\<lparr>bi_digits := bigint_add (bi_digits lhs) (bi_digits rhs) (bi_bitwidth lhs)\<rparr>)
      else (KEFIR_INVALID_PARAMETER, lhs))"

definition kefir_bigint_invert :: "bigint \<Rightarrow> kefir_result \<times> bigint" where
  "kefir_bigint_invert b = (KEFIR_OK, b\<lparr>bi_digits := bigint_invert (bi_digits b) (bi_bitwidth b)\<rparr>)"

definition kefir_bigint_and :: "bigint \<Rightarrow> bigint \<Rightarrow> kefir_result \<times> bigint" where
  "kefir_bigint_and lhs rhs =
     (if bi_bitwidth lhs = bi_bitwidth rhs
      then (KEFIR_OK, lhs\<lparr>bi_digits := bigint_and (bi_digits lhs) (bi_digits rhs) (bi_bitwidth lhs)\<rparr>)
      else (KEFIR_INVALID_PARAMETER, lhs))"

definition kefir_bigint_or :: "bigint \<Rightarrow> bigint \<Rightarrow> kefir_result \<times> bigint" where
  "kefir_bigint_or lhs rhs =
     (if bi_bitwidth lhs = bi_bitwidth rhs
      then (KEFIR_OK, lhs\<lparr>bi_digits := bigint_or (bi_digits lhs) (bi_digits rhs) (bi_bitwidth lhs)\<rparr>)
      else (KEFIR_INVALID_PARAMETER, lhs))"

definition kefir_bigint_xor :: "bigint \<Rightarrow> bigint \<Rightarrow> kefir_result \<times> bigint" where
  "kefir_bigint_xor lhs rhs =
     (if bi_bitwidth lhs = bi_bitwidth rhs
      then (KEFIR_OK, lhs\<lparr>bi_digits := bigint_xor (bi_digits lhs) (bi_digits rhs) (bi_bitwidth lhs)\<rparr>)
      else (KEFIR_INVALID_PARAMETER, lhs))"

definition kefir_bigint_negate :: "bigint \<Rightarrow> kefir_result \<times> bigint" where
  "kefir_bigint_negate b = (KEFIR_OK, b\<lparr>bi_digits := bigint_negate (bi_digits b) (bi_bitwidth b)\<rparr>)"

definition kefir_bigint_subtract :: "bigint \<Rightarrow> bigint \<Rightarrow> kefir_result \<times> bigint" where
  "kefir_bigint_subtract lhs rhs =
     (if bi_bitwidth lhs = bi_bitwidth rhs
      then (KEFIR_OK, lhs\<lparr>bi_digits := bigint_subtract (bi_digits lhs) (bi_digits rhs) (bi_bitwidth lhs)\<rparr>)
      else (KEFIR_INVALID_PARAMETER, lhs))"

definition kefir_bigint_left_shift :: "bigint \<Rightarrow> nat \<Rightarrow> kefir_result \<times> bigint" where
  "kefir_bigint_left_shift lhs shift =
     (KEFIR_OK, lhs\<lparr>bi_digits := bigint_left_shift (bi_digits lhs) shift (bi_bitwidth lhs)\<rparr>)"

definition kefir_bigint_right_shift :: "bigint \<Rightarrow> nat \<Rightarrow> kefir_result \<times> bigint" where
  "kefir_bigint_right_shift lhs shift =
     (KEFIR_OK, lhs\<lparr>bi_digits := bigint_right_shift (bi_digits lhs) shift (bi_bitwidth lhs)\<rparr>)"

definition kefir_bigint_arithmetic_right_shift :: "bigint \<Rightarrow> nat \<Rightarrow> kefir_result \<times> bigint" where
  "kefir_bigint_arithmetic_right_shift lhs shift =
     (KEFIR_OK, lhs\<lparr>bi_digits := bigint_arithmetic_right_shift (bi_digits lhs) shift (bi_bitwidth lhs)\<rparr>)"

definition kefir_bigint_unsigned_multiply :: "bigint \<Rightarrow> bigint \<Rightarrow> bigint \<Rightarrow> kefir_result \<times> bigint" where
  "kefir_bigint_unsigned_multiply res lhs rhs =
     (if bi_bitwidth lhs = bi_bitwidth rhs
      then (KEFIR_OK, res\<lparr>bi_digits := bigint_unsigned_multiply (bi_digits res) (bi_digits lhs) (bi_digits rhs)
                                        (bi_bitwidth res) (bi_bitwidth lhs)\<rparr>)
      else (KEFIR_INVALID_PARAMETER, res))"

text \<open>The product, and the first operand and the accumulator, which the routine overwrites.\<close>

definition kefir_bigint_signed_multiply ::
    "bigint \<Rightarrow> bigint \<Rightarrow> bigint \<Rightarrow> bigint \<Rightarrow> kefir_result \<times> bigint \<times> bigint \<times> bigint" where
  "kefir_bigint_signed_multiply res lhs rhs acc =
     (if bi_bitwidth lhs = bi_bitwidth rhs then
        if bi_bitwidth acc \<ge> bi_bitwidth lhs then
          (case bigint_signed_multiply (bi_digits res) (bi_digits acc) (bi_digits lhs) (bi_digits rhs)
                  (bi_bitwidth res) (bi_bitwidth lhs) of
             (res_digits, acc_digits, lhs_digits) \<Rightarrow>
               (KEFIR_OK, res\<lparr>bi_digits := res_digits\<rparr>, lhs\<lparr>bi_digits := lhs_digits\<rparr>, acc\<lparr>bi_digits := acc_digits\<rparr>))
        else (KEFIR_INVALID_PARAMETER, res, lhs, acc)
      else (KEFIR_INVALID_PARAMETER, res, lhs, acc))"

text \<open>The quotient in the place of the dividend, and the remainder.\<close>

definition kefir_bigint_unsigned_divide :: "bigint \<Rightarrow> bigint \<Rightarrow> bigint \<Rightarrow> kefir_result \<times> bigint \<times> bigint" where
  "kefir_bigint_unsigned_divide lhs remain rhs =
     (if bi_bitwidth lhs \<ge> bi_bitwidth rhs then
        if bi_bitwidth lhs = bi_bitwidth remain then
          (case bigint_unsigned_divide (bi_digits lhs) (bi_digits remain) (bi_digits rhs) (bi_bitwidth lhs) (bi_bitwidth rhs) of
             (res, lhs_digits, remain_digits) \<Rightarrow>
               (if res = BIGINT_DIVISION_BY_ZERO then KEFIR_INVALID_REQUEST else KEFIR_OK,
                lhs\<lparr>bi_digits := lhs_digits\<rparr>, remain\<lparr>bi_digits := remain_digits\<rparr>))
        else (KEFIR_INVALID_PARAMETER, lhs, remain)
      else (KEFIR_INVALID_PARAMETER, lhs, remain))"

definition kefir_bigint_signed_divide :: "bigint \<Rightarrow> bigint \<Rightarrow> bigint \<Rightarrow> kefir_result \<times> bigint \<times> bigint \<times> bigint" where
  "kefir_bigint_signed_divide lhs remain rhs =
     (if bi_bitwidth lhs \<ge> bi_bitwidth rhs then
        if bi_bitwidth lhs = bi_bitwidth remain then
          (case bigint_signed_divide (bi_digits lhs) (bi_digits remain) (bi_digits rhs) (bi_bitwidth lhs) (bi_bitwidth rhs) of
             (res, lhs_digits, remain_digits, rhs_digits) \<Rightarrow>
               (if res = BIGINT_DIVISION_BY_ZERO then KEFIR_INVALID_REQUEST else KEFIR_OK,
                lhs\<lparr>bi_digits := lhs_digits\<rparr>, remain\<lparr>bi_digits := remain_digits\<rparr>, rhs\<lparr>bi_digits := rhs_digits\<rparr>))
        else (KEFIR_INVALID_PARAMETER, lhs, remain, rhs)
      else (KEFIR_INVALID_PARAMETER, lhs, remain, rhs))"

definition kefir_bigint_unsigned_compare :: "bigint \<Rightarrow> bigint \<Rightarrow> int result" where
  "kefir_bigint_unsigned_compare lhs rhs =
     (if bi_bitwidth lhs = bi_bitwidth rhs
      then Inr (sint (bigint_unsigned_compare (bi_digits lhs) (bi_digits rhs) (bi_bitwidth lhs)))
      else Inl KEFIR_INVALID_PARAMETER)"

definition kefir_bigint_signed_compare :: "bigint \<Rightarrow> bigint \<Rightarrow> int result" where
  "kefir_bigint_signed_compare lhs rhs =
     (if bi_bitwidth lhs = bi_bitwidth rhs
      then Inr (sint (bigint_signed_compare (bi_digits lhs) (bi_digits rhs) (bi_bitwidth lhs)))
      else Inl KEFIR_INVALID_PARAMETER)"

section \<open>Bit counting\<close>

definition kefir_bigint_least_significant_nonzero :: "bigint \<Rightarrow> nat result" where
  "kefir_bigint_least_significant_nonzero b = Inr (bigint_least_significant_nonzero (bi_digits b) (bi_bitwidth b))"

definition kefir_bigint_leading_zeros :: "bigint \<Rightarrow> nat \<Rightarrow> nat result" where
  "kefir_bigint_leading_zeros b default_value = Inr (bigint_leading_zeros (bi_digits b) (bi_bitwidth b) default_value)"

definition kefir_bigint_trailing_zeros :: "bigint \<Rightarrow> nat \<Rightarrow> nat result" where
  "kefir_bigint_trailing_zeros b default_value = Inr (bigint_trailing_zeros (bi_digits b) (bi_bitwidth b) default_value)"

definition kefir_bigint_redundant_sign_bits :: "bigint \<Rightarrow> nat result" where
  "kefir_bigint_redundant_sign_bits b = Inr (bigint_redundant_sign_bits (bi_digits b) (bi_bitwidth b))"

definition kefir_bigint_nonzero_count :: "bigint \<Rightarrow> nat result" where
  "kefir_bigint_nonzero_count b = Inr (bigint_nonzero_count (bi_digits b) (bi_bitwidth b))"

definition kefir_bigint_parity :: "bigint \<Rightarrow> nat result" where
  "kefir_bigint_parity b = Inr (bigint_parity (bi_digits b) (bi_bitwidth b))"

end
