(* ===== verification/Kefir_Bigint_Text.thy ===== *)
theory Kefir_Bigint_Text
  imports Kefir_Bigint_Object "HOL-Library.Char_ord"
begin

text \<open>
  Parsing and formatting of big integers, the second half of \<^verbatim>\<open>source/util/bigint.c\<close>. An input is a
  terminated string: \<open>input_at\<close> yields the terminator at its end, and no loop reads beyond it. The loops of the
  bases 2, 8 and 16 differ in the characters they accept and the number of bits per character, which are
  parameters of the shared loops. A formatted number is the list of characters written to the output
  buffer, including the terminator.
\<close>

unbundle bit_operations_syntax

definition NUL :: char where
  "NUL = CHR 0x00"

definition input_at :: "string \<Rightarrow> nat \<Rightarrow> char" where
  "input_at input i = (if i < length input then input ! i else NUL)"

definition strlen :: "string \<Rightarrow> nat" where
  "strlen input = length (takeWhile (\<lambda>c. c \<noteq> NUL) input)"

section \<open>Parsing\<close>

text \<open>
  The inner loop of \<^verbatim>\<open>parse10_impl\<close>: with \<open>n\<close> characters left in the chunk, the number of characters read, the value
  of the chunk, the power of ten that belongs to it and whether the terminator was met.
\<close>

primrec parse10_chunk ::
    "string \<Rightarrow> nat \<Rightarrow> nat \<Rightarrow> nat \<Rightarrow> nat \<Rightarrow> 64 word \<Rightarrow> 64 word \<Rightarrow> (nat \<times> 64 word \<times> 64 word \<times> bool) result" where
  "parse10_chunk input input_length i 0 j chunk chunk_base = Inr (j, chunk, chunk_base, False)"
| "parse10_chunk input input_length i (Suc n) j chunk chunk_base =
     (if i + j < input_length then
        (let chr = input_at input (i + j)
         in if CHR ''0'' \<le> chr \<and> chr \<le> CHR ''9'' then
              parse10_chunk input input_length i n (j + 1) (chunk * 10 + (of_char chr - of_char (CHR ''0''))) (chunk_base * 10)
            else if chr = NUL then Inr (j, chunk, chunk_base, True)
            else Inl KEFIR_INVALID_STATE)
      else Inr (j, chunk, chunk_base, False))"

definition MAX_CHUNK_SIZE :: nat where
  "MAX_CHUNK_SIZE = 15"

lemma parse10_chunk_progress:
  "parse10_chunk input input_length i n j chunk chunk_base = Inr (j', chunk', chunk_base', e) \<Longrightarrow>
     j \<le> j' \<and> (0 < n \<and> i + j < input_length \<and> \<not> e \<longrightarrow> j < j')"
  by (induction n arbitrary: j chunk chunk_base) (fastforce simp: Let_def split: if_splits)+

text \<open>One round of the outer loop, on the number and the two temporary numbers.\<close>

definition parse10_round ::
    "64 word \<Rightarrow> 64 word \<Rightarrow> bigint \<times> bigint \<times> bigint \<Rightarrow> kefir_result \<times> bigint \<times> bigint \<times> bigint" where
  "parse10_round chunk chunk_base = (\<lambda>(b, tmp0, tmp1).
     requireOK (case kefir_bigint_copy tmp0 b of (res, tmp0) \<Rightarrow> (res, b, tmp0, tmp1)) (\<lambda>(b, tmp0, tmp1).
     requireOK (case kefir_bigint_set_unsigned_value tmp1 chunk_base of (res, tmp1) \<Rightarrow> (res, b, tmp0, tmp1)) (\<lambda>(b, tmp0, tmp1).
     requireOK (case kefir_bigint_unsigned_multiply b tmp0 tmp1 of (res, b) \<Rightarrow> (res, b, tmp0, tmp1)) (\<lambda>(b, tmp0, tmp1).
     requireOK (case kefir_bigint_set_unsigned_value tmp0 chunk of (res, tmp0) \<Rightarrow> (res, b, tmp0, tmp1)) (\<lambda>(b, tmp0, tmp1).
     case kefir_bigint_add b tmp0 of (res, b) \<Rightarrow> (res, b, tmp0, tmp1))))))"

function parse10_loop ::
    "string \<Rightarrow> nat \<Rightarrow> nat \<Rightarrow> bigint \<times> bigint \<times> bigint \<Rightarrow> kefir_result \<times> bigint \<times> bigint \<times> bigint" where
  "parse10_loop input input_length i s =
     (if i < input_length then
        case parse10_chunk input input_length i MAX_CHUNK_SIZE 0 0 1 of
          Inl e \<Rightarrow> (e, s)
        | Inr (j, chunk, chunk_base, exited) \<Rightarrow>
            requireOK (parse10_round chunk chunk_base s)
              (\<lambda>s. if exited then (KEFIR_OK, s) else parse10_loop input input_length (i + j) s)
      else (KEFIR_OK, s))"
  by pat_completeness auto
termination
proof (relation "measure (\<lambda>(input, input_length, i, s). input_length - i)", goal_cases)
  case (2 input input_length i s a j p chunk q chunk_base exited s')
  then have "0 < j" using parse10_chunk_progress [of input input_length i MAX_CHUNK_SIZE 0 0 1] by (force simp: MAX_CHUNK_SIZE_def)
  then show ?case using 2(1) by auto
qed simp

declare parse10_loop.simps [simp del]

definition parse10_impl :: "bigint \<Rightarrow> string \<Rightarrow> nat \<Rightarrow> bigint \<Rightarrow> bigint \<Rightarrow> kefir_result \<times> bigint" where
  "parse10_impl b input input_length tmp0 tmp1 =
     requireOK (kefir_bigint_set_unsigned_value b 0) (\<lambda>b.
       case parse10_loop input input_length 0 (b, tmp0, tmp1) of (res, b, _) \<Rightarrow> (res, b))"

definition kefir_bigint_unsigned_parse10_into :: "bigint_mem \<Rightarrow> bigint \<Rightarrow> string \<Rightarrow> nat \<Rightarrow> kefir_result \<times> bigint" where
  "kefir_bigint_unsigned_parse10_into mem b input input_length =
     (case kefir_bigint_resize_cast_unsigned mem kefir_bigint_init (bi_bitwidth b) of (res0, tmp0) \<Rightarrow>
        if res0 \<noteq> KEFIR_OK then (res0, b)
        else case kefir_bigint_resize_cast_unsigned mem kefir_bigint_init (bi_bitwidth b) of (res1, tmp1) \<Rightarrow>
          if res1 \<noteq> KEFIR_OK then (res1, b) else parse10_impl b input input_length tmp0 tmp1)"

definition kefir_bigint_unsigned_parse10 :: "bigint_mem \<Rightarrow> bigint \<Rightarrow> string \<Rightarrow> nat \<Rightarrow> kefir_result \<times> bigint" where
  "kefir_bigint_unsigned_parse10 mem b input input_length0 =
     (let input_strlen = strlen input;
          input_length = (if input_strlen < input_length0 then input_strlen else input_length0);
          num_of_bits = 1 + (input_length * 3322 + 999) div 1000
      in requireOK (kefir_bigint_resize_cast_unsigned mem b num_of_bits) (\<lambda>b.
           kefir_bigint_unsigned_parse10_into mem b input input_length))"

text \<open>The loop of the other bases; \<^verbatim>\<open>index\<close> is the position of the character from the end of the input.\<close>

primrec parse_bits_loop ::
    "(char \<Rightarrow> 8 word option) \<Rightarrow> nat \<Rightarrow> string \<Rightarrow> nat \<Rightarrow> nat \<Rightarrow> bigint \<Rightarrow> kefir_result \<times> bigint" where
  "parse_bits_loop digit_of digit_bits input input_length 0 b = (KEFIR_OK, b)"
| "parse_bits_loop digit_of digit_bits input input_length (Suc index) b =
     (let chr = input_at input (input_length - index - 1)
      in case digit_of chr of
           Some digit \<Rightarrow>
             parse_bits_loop digit_of digit_bits input input_length index
               (b\<lparr>bi_digits := bigint_set_bits (bi_digits b) (ucast digit) (index * digit_bits) digit_bits (bi_bitwidth b)\<rparr>)
         | None \<Rightarrow> if chr = NUL then (KEFIR_OK, b) else (KEFIR_INVALID_STATE, b))"

definition digit_of2 :: "char \<Rightarrow> 8 word option" where
  "digit_of2 chr = (if chr = CHR ''0'' \<or> chr = CHR ''1'' then Some (of_char chr - of_char (CHR ''0'')) else None)"

definition digit_of8 :: "char \<Rightarrow> 8 word option" where
  "digit_of8 chr = (if chr \<in> set ''01234567'' then Some (of_char chr - of_char (CHR ''0'')) else None)"

definition digit_of16 :: "char \<Rightarrow> 8 word option" where
  "digit_of16 chr =
     (if chr \<in> set ''0123456789'' then Some (of_char chr - of_char (CHR ''0''))
      else if chr = CHR ''a'' \<or> chr = CHR ''A'' then Some 0xa
      else if chr = CHR ''b'' \<or> chr = CHR ''B'' then Some 0xb
      else if chr = CHR ''c'' \<or> chr = CHR ''C'' then Some 0xc
      else if chr = CHR ''d'' \<or> chr = CHR ''D'' then Some 0xd
      else if chr = CHR ''e'' \<or> chr = CHR ''E'' then Some 0xe
      else if chr = CHR ''f'' \<or> chr = CHR ''F'' then Some 0xf
      else None)"

definition kefir_bigint_unsigned_parse16_into :: "bigint \<Rightarrow> string \<Rightarrow> nat \<Rightarrow> kefir_result \<times> bigint" where
  "kefir_bigint_unsigned_parse16_into b input input_length =
     requireOK (kefir_bigint_set_unsigned_value b 0) (parse_bits_loop digit_of16 4 input input_length input_length)"

definition kefir_bigint_unsigned_parse8_into :: "bigint \<Rightarrow> string \<Rightarrow> nat \<Rightarrow> kefir_result \<times> bigint" where
  "kefir_bigint_unsigned_parse8_into b input input_length =
     requireOK (kefir_bigint_set_unsigned_value b 0) (parse_bits_loop digit_of8 3 input input_length input_length)"

definition kefir_bigint_unsigned_parse2_into :: "bigint \<Rightarrow> string \<Rightarrow> nat \<Rightarrow> kefir_result \<times> bigint" where
  "kefir_bigint_unsigned_parse2_into b input input_length =
     requireOK (kefir_bigint_set_unsigned_value b 0) (parse_bits_loop digit_of2 1 input input_length input_length)"

definition kefir_bigint_unsigned_parse16 :: "bigint_mem \<Rightarrow> bigint \<Rightarrow> string \<Rightarrow> nat \<Rightarrow> kefir_result \<times> bigint" where
  "kefir_bigint_unsigned_parse16 mem b input input_length0 =
     (let input_strlen = strlen input;
          input_length = (if input_strlen < input_length0 then input_strlen else input_length0);
          num_of_bits = input_length * 4
      in requireOK (kefir_bigint_resize_cast_unsigned mem b num_of_bits) (\<lambda>b.
           kefir_bigint_unsigned_parse16_into b input input_length))"

definition kefir_bigint_unsigned_parse8 :: "bigint_mem \<Rightarrow> bigint \<Rightarrow> string \<Rightarrow> nat \<Rightarrow> kefir_result \<times> bigint" where
  "kefir_bigint_unsigned_parse8 mem b input input_length0 =
     (let input_strlen = strlen input;
          input_length = (if input_strlen < input_length0 then input_strlen else input_length0);
          num_of_bits = input_length * 3
      in requireOK (kefir_bigint_resize_cast_unsigned mem b num_of_bits) (\<lambda>b.
           kefir_bigint_unsigned_parse8_into b input input_length))"

definition kefir_bigint_unsigned_parse2 :: "bigint_mem \<Rightarrow> bigint \<Rightarrow> string \<Rightarrow> nat \<Rightarrow> kefir_result \<times> bigint" where
  "kefir_bigint_unsigned_parse2 mem b input input_length0 =
     (let input_strlen = strlen input;
          input_length = (if input_strlen < input_length0 then input_strlen else input_length0);
          num_of_bits = input_length
      in requireOK (kefir_bigint_resize_cast_unsigned mem b num_of_bits) (\<lambda>b.
           kefir_bigint_unsigned_parse2_into b input input_length))"

definition kefir_bigint_signed_parse :: "bigint_mem \<Rightarrow> bigint \<Rightarrow> string \<Rightarrow> nat \<Rightarrow> nat \<Rightarrow> kefir_result \<times> bigint" where
  "kefir_bigint_signed_parse mem b input0 input_length0 base =
     (let input_length = min input_length0 (strlen input0);
          negate = (input_length > 0 \<and> input_at input0 0 = CHR ''-'');
          input = (if negate then drop 1 input0 else input0);
          input_length' = (if negate then input_length - 1 else input_length)
      in requireOK
           (if base = 2 then kefir_bigint_unsigned_parse2 mem b input input_length'
            else if base = 8 then kefir_bigint_unsigned_parse8 mem b input input_length'
            else if base = 10 then kefir_bigint_unsigned_parse10 mem b input input_length'
            else if base = 16 then kefir_bigint_unsigned_parse16 mem b input input_length'
            else (KEFIR_INVALID_PARAMETER, b))
           (\<lambda>b. requireOK
              (if bigint_get_sign (bi_digits b) (bi_bitwidth b)
               then kefir_bigint_resize_cast_unsigned mem b (bi_bitwidth b + 1) else (KEFIR_OK, b))
              (\<lambda>b. if negate then kefir_bigint_negate b else (KEFIR_OK, b))))"

section \<open>Formatting\<close>

text \<open>The characters written so far are the prefix \<open>output\<close> of the buffer.\<close>

primrec trim_zeros :: "string \<Rightarrow> nat \<Rightarrow> nat" where
  "trim_zeros output 0 = 0"
| "trim_zeros output (Suc i) = (if Suc i > 1 \<and> output ! i = CHR ''0'' then trim_zeros output i else Suc i)"

definition reverse_output :: "string \<Rightarrow> nat \<Rightarrow> string" where
  "reverse_output output i =
     fold (\<lambda>j output. output[j := output ! (i - j - 1), i - j - 1 := output ! j]) [0..<i div 2] output"

primrec format_bits_loop ::
    "(nat \<Rightarrow> char) \<Rightarrow> nat \<Rightarrow> bigint \<Rightarrow> nat \<Rightarrow> string \<Rightarrow> string result" where
  "format_bits_loop char_of_digit digit_bits b 0 output = Inr output"
| "format_bits_loop char_of_digit digit_bits b (Suc n) output =
     (if bigint_is_zero (bi_digits b) (bi_bitwidth b) then Inr (if output = [] then ''0'' else output)
      else
        (let digit_value = bigint_get_bits (bi_digits b) (length output * digit_bits) digit_bits (bi_bitwidth b)
         in if unat digit_value < 2 ^ digit_bits
            then format_bits_loop char_of_digit digit_bits b n (output @ [char_of_digit (unat digit_value)])
            else Inl KEFIR_INVALID_STATE))"

definition format_bits_into_impl :: "(nat \<Rightarrow> char) \<Rightarrow> nat \<Rightarrow> bigint \<Rightarrow> nat \<Rightarrow> string result" where
  "format_bits_into_impl char_of_digit digit_bits b output_length =
     bindE (format_bits_loop char_of_digit digit_bits b (output_length - 1) []) (\<lambda>output.
       let i = trim_zeros output (length output) in Inr (reverse_output (take i output) i @ [NUL]))"

definition digit_char :: "nat \<Rightarrow> char" where
  "digit_char v = char_of (of_char (CHR ''0'') + v)"

definition hex_digit_char :: "nat \<Rightarrow> char" where
  "hex_digit_char v = (if v \<le> 9 then char_of (of_char (CHR ''0'') + v) else ''abcdef'' ! (v - 10))"

definition kefir_bigint_unsigned_format16_into :: "bigint \<Rightarrow> nat \<Rightarrow> string result" where
  "kefir_bigint_unsigned_format16_into b output_length =
     (if output_length > 0 then format_bits_into_impl hex_digit_char 4 b output_length else Inl KEFIR_INVALID_PARAMETER)"

definition kefir_bigint_unsigned_format8_into :: "bigint \<Rightarrow> nat \<Rightarrow> string result" where
  "kefir_bigint_unsigned_format8_into b output_length =
     (if output_length > 0 then format_bits_into_impl digit_char 3 b output_length else Inl KEFIR_INVALID_PARAMETER)"

definition kefir_bigint_unsigned_format2_into :: "bigint \<Rightarrow> nat \<Rightarrow> string result" where
  "kefir_bigint_unsigned_format2_into b output_length =
     (if output_length > 0 then format_bits_into_impl digit_char 1 b output_length else Inl KEFIR_INVALID_PARAMETER)"

text \<open>The allocation of an output buffer of the given length may fail.\<close>

definition kefir_bigint_unsigned_format16 :: "bigint_mem \<Rightarrow> bigint \<Rightarrow> string result" where
  "kefir_bigint_unsigned_format16 mem b =
     (let output_length = 1 + (bi_bitwidth b + 3) div 4
      in if mem output_length = None then Inl KEFIR_MEMALLOC_FAILURE else kefir_bigint_unsigned_format16_into b output_length)"

definition kefir_bigint_unsigned_format8 :: "bigint_mem \<Rightarrow> bigint \<Rightarrow> string result" where
  "kefir_bigint_unsigned_format8 mem b =
     (let output_length = 1 + (bi_bitwidth b + 2) div 3
      in if mem output_length = None then Inl KEFIR_MEMALLOC_FAILURE else kefir_bigint_unsigned_format8_into b output_length)"

definition kefir_bigint_unsigned_format2 :: "bigint_mem \<Rightarrow> bigint \<Rightarrow> string result" where
  "kefir_bigint_unsigned_format2 mem b =
     (let output_length = 1 + bi_bitwidth b
      in if mem output_length = None then Inl KEFIR_MEMALLOC_FAILURE else kefir_bigint_unsigned_format2_into b output_length)"

text \<open>
  Decimal formatting divides the number by ten until it is zero: the state is the number, the digit and the
  characters written.
\<close>

primrec format10_loop :: "nat \<Rightarrow> bigint \<Rightarrow> bigint \<Rightarrow> bigint \<Rightarrow> string \<Rightarrow> kefir_result \<times> bigint \<times> string" where
  "format10_loop 0 b digit base10 output = (KEFIR_OK, b, output)"
| "format10_loop (Suc n) b digit base10 output =
     (if bigint_is_zero (bi_digits b) (bi_bitwidth b) then (KEFIR_OK, b, if output = [] then ''0'' else output)
      else
        case kefir_bigint_unsigned_divide b digit base10 of (res, b', digit') \<Rightarrow>
          if res \<noteq> KEFIR_OK then (res, b', output)
          else case kefir_bigint_get_unsigned digit' of
              Inl e \<Rightarrow> (e, b', output)
            | Inr digit_value \<Rightarrow>
                if digit_value \<le> 9 then format10_loop n b' digit' base10 (output @ [digit_char (unat digit_value)])
                else (KEFIR_INVALID_STATE, b', output))"

definition unsigned_format10_into_impl ::
    "bigint_mem \<Rightarrow> bigint \<Rightarrow> nat \<Rightarrow> bigint \<Rightarrow> bigint \<Rightarrow> kefir_result \<times> bigint \<times> string" where
  "unsigned_format10_into_impl mem b0 output_length base10 digit =
     (let old_bitwidth = bi_bitwidth b0
      in case (if bi_bitwidth b0 < 8 then kefir_bigint_resize_cast_unsigned mem b0 8 else (KEFIR_OK, b0)) of (res, b) \<Rightarrow>
        if res \<noteq> KEFIR_OK then (res, b, [])
        else case kefir_bigint_resize_nocast mem base10 (bi_bitwidth b) of (res, base10) \<Rightarrow>
        if res \<noteq> KEFIR_OK then (res, b, [])
        else case kefir_bigint_resize_nocast mem digit (bi_bitwidth b) of (res, digit) \<Rightarrow>
        if res \<noteq> KEFIR_OK then (res, b, [])
        else case kefir_bigint_set_unsigned_value base10 10 of (res, base10) \<Rightarrow>
        if res \<noteq> KEFIR_OK then (res, b, [])
        else case format10_loop (output_length - 1) b digit base10 [] of (res, b, output) \<Rightarrow>
        if res \<noteq> KEFIR_OK then (res, b, output)
        else
          let output' = reverse_output output (length output) @ [NUL]
          in if bi_bitwidth b \<noteq> old_bitwidth
             then case kefir_bigint_resize_nocast mem b old_bitwidth of (res, b) \<Rightarrow> (res, b, output')
             else (KEFIR_OK, b, output'))"

definition kefir_bigint_unsigned_format10_into :: "bigint_mem \<Rightarrow> bigint \<Rightarrow> nat \<Rightarrow> kefir_result \<times> bigint \<times> string" where
  "kefir_bigint_unsigned_format10_into mem b output_length =
     (if output_length > 0 then unsigned_format10_into_impl mem b output_length kefir_bigint_init kefir_bigint_init
      else (KEFIR_INVALID_PARAMETER, b, []))"

definition kefir_bigint_unsigned_format10 :: "bigint_mem \<Rightarrow> bigint \<Rightarrow> kefir_result \<times> bigint \<times> string" where
  "kefir_bigint_unsigned_format10 mem b =
     (let output_length = 1 + (bi_bitwidth b * 302 + 999) div 1000
      in if mem output_length = None then (KEFIR_MEMALLOC_FAILURE, b, [])
         else kefir_bigint_unsigned_format10_into mem b output_length)"

end
