(* ===== verification/Kefir_Bigint_Object_Correct.thy ===== *)
theory Kefir_Bigint_Object_Correct
  imports Kefir_Bigint_Text
begin

text \<open>
  The big integer objects: an object is well formed when its array has the length its capacity says and is long enough
  for its width. Every operation keeps that, and acts on the number as the digit routines do.
\<close>

definition bi_wf :: "bigint \<Rightarrow> bool" where
  "bi_wf b \<longleftrightarrow> length (bi_digits b) = bi_capacity b \<and> holds (bi_digits b) (bi_bitwidth b)"

definition uvalue :: "bigint \<Rightarrow> int" where
  "uvalue b = uval (bi_bitwidth b) (bi_digits b)"

definition svalue :: "bigint \<Rightarrow> int" where
  "svalue b = sval (bi_bitwidth b) (bi_digits b)"

lemma bi_wf_init [simp]: "bi_wf kefir_bigint_init" "uvalue kefir_bigint_init = 0" "bi_bitwidth kefir_bigint_init = 0"
  by (simp_all add: bi_wf_def kefir_bigint_init_def holds_def uvalue_def BITS_TO_DIGITS_def DIGIT_BIT_def)

lemma bi_wf_holds: "bi_wf b \<Longrightarrow> holds (bi_digits b) (bi_bitwidth b)"
  by (simp add: bi_wf_def)

lemma bi_wf_update: "bi_wf b \<Longrightarrow> length ds = length (bi_digits b) \<Longrightarrow> bi_wf (b\<lparr>bi_digits := ds\<rparr>)"
  by (simp add: bi_wf_def holds_def)

section \<open>Resizing\<close>

lemma bit_dval_append: "k div 8 < length ds \<Longrightarrow> bit (dval (ds @ es)) k = bit (dval ds) k"
  by (simp add: bit_dval nth_append)

lemma uval_append: "holds ds w \<Longrightarrow> uval w (ds @ es) = uval w ds"
  by (rule bit_eqI) (auto simp: bit_uval bit_dval_append holds_index)

lemma sval_append: "holds ds w \<Longrightarrow> sval w (ds @ es) = sval w ds"
  using uval_append [of ds w es] by (cases "w = 0") (auto simp: sval_def [of 0] sval_uval)

lemma ensure_width:
  assumes "bi_wf b"
  obtains (failed) "bigint_ensure_width mem b w = (KEFIR_MEMALLOC_FAILURE, b)" "mem ((w + 63) div 8) = None"
  | (ok) es where "bigint_ensure_width mem b w =
      (KEFIR_OK, b\<lparr>bi_digits := bi_digits b @ es, bi_capacity := length (bi_digits b @ es)\<rparr>)" "holds (bi_digits b @ es) w"
proof -
  let ?r = "(w + 63) div 8"
  have r: "BITS_TO_DIGITS w \<le> ?r" by (simp add: BITS_TO_DIGITS_def DIGIT_BIT_def div_le_mono)
  show ?thesis
  proof (cases "bi_capacity b < ?r")
    case True
    show ?thesis
    proof (cases "mem ?r")
      case None
      then show ?thesis using failed True by (simp add: bigint_ensure_width_def Let_def add.commute [of 63])
    next
      case (Some fresh)
      then show ?thesis using ok [of "map fresh [bi_capacity b..<?r]"] True r assms
        by (simp add: bigint_ensure_width_def Let_def bi_wf_def holds_def add.commute [of 63])
    qed
  next
    case False
    then have "bigint_ensure_width mem b w = (KEFIR_OK, b)" by (simp add: bigint_ensure_width_def Let_def add.commute [of 63])
    then show ?thesis using ok [of "[]"] False r assms by (simp add: bi_wf_def holds_def)
  qed
qed

lemma resize_nocast:
  assumes "bi_wf b" "0 < w"
  obtains (failed) "kefir_bigint_resize_nocast mem b w = (KEFIR_MEMALLOC_FAILURE, b)" "mem ((w + 63) div 8) = None"
  | (ok) b' es where "kefir_bigint_resize_nocast mem b w = (KEFIR_OK, b')" "bi_wf b'" "bi_bitwidth b' = w"
      "bi_digits b' = bi_digits b @ es"
  using assms(1)
proof (cases rule: ensure_width [where mem = mem and w = w])
  case failed: failed
  then show ?thesis using that(1) assms(2) by (simp add: kefir_bigint_resize_nocast_def requireOK_def)
next
  case (ok es)
  then show ?thesis using that(2) [of "b\<lparr>bi_digits := bi_digits b @ es, bi_capacity := length (bi_digits b @ es), bi_bitwidth := w\<rparr>"]
      assms(2) by (simp add: kefir_bigint_resize_nocast_def bi_wf_def)
qed

definition mem_total :: "bigint_mem \<Rightarrow> bool" where
  "mem_total mem \<longleftrightarrow> (\<forall>n. mem n \<noteq> None)"

lemma resize_nocast_total:
  assumes "mem_total mem" "bi_wf b" "0 < w"
  obtains b' es where "kefir_bigint_resize_nocast mem b w = (KEFIR_OK, b')" "bi_wf b'" "bi_bitwidth b' = w"
    "bi_digits b' = bi_digits b @ es"
  using assms(2,3)
proof (cases rule: resize_nocast [where mem = mem])
  case failed
  then show ?thesis using assms(1) unfolding mem_total_def by blast
qed (use that in auto)

text \<open>The two resizing casts differ in how they read the old number; the reading is the contract of the cast.\<close>

locale resize_cast =
  fixes cast_digits :: "digits \<Rightarrow> nat \<Rightarrow> nat \<Rightarrow> digits"
    and read :: "nat \<Rightarrow> digits \<Rightarrow> int"
    and cast_op :: "bigint \<Rightarrow> nat \<Rightarrow> nat \<Rightarrow> kefir_result \<times> bigint"
    and resize :: "bigint_mem \<Rightarrow> bigint \<Rightarrow> nat \<Rightarrow> kefir_result \<times> bigint"
  assumes cast_op: "v \<le> bi_bitwidth b \<Longrightarrow> w \<le> bi_bitwidth b \<Longrightarrow>
      cast_op b v w = (KEFIR_OK, b\<lparr>bi_digits := cast_digits (bi_digits b) v w\<rparr>)"
    and resize: "resize mem b w =
      (if bi_bitwidth b < w then
         requireOK (kefir_bigint_resize_nocast mem b w) (\<lambda>b'. cast_op b' (bi_bitwidth b) (bi_bitwidth b'))
       else if w \<noteq> bi_bitwidth b then
         requireOK (cast_op b (bi_bitwidth b) w) (\<lambda>b. kefir_bigint_resize_nocast mem b w)
       else (KEFIR_OK, b))"
    and length_cast_digits: "length (cast_digits ds v w) = length ds"
    and uval_cast: "holds ds w \<Longrightarrow> 0 < w \<Longrightarrow> uval w (cast_digits ds v w) = take_bit w (read v ds)"
    and read_append: "holds ds v \<Longrightarrow> read v (ds @ es) = read v ds"
    and read_self: "0 < w \<Longrightarrow> take_bit w (read w ds) = uval w ds"
begin

lemma resize_value:
  assumes "bi_wf b" "0 < w" "mem_total mem"
  obtains b' where "resize mem b w = (KEFIR_OK, b')" "bi_wf b'" "bi_bitwidth b' = w"
    "uvalue b' = take_bit w (read (bi_bitwidth b) (bi_digits b))"
proof -
  let ?v = "bi_bitwidth b"
  have h: "holds (bi_digits b) ?v" using assms(1) by (rule bi_wf_holds)
  consider "?v < w" | "w = ?v" | "w < ?v" by (rule linorder_cases) auto
  then show ?thesis
  proof cases
    case 1
    obtain b1 es where r: "kefir_bigint_resize_nocast mem b w = (KEFIR_OK, b1)" "bi_wf b1" "bi_bitwidth b1 = w"
      "bi_digits b1 = bi_digits b @ es" by (rule resize_nocast_total [OF assms(3,1,2)])
    let ?b = "b1\<lparr>bi_digits := cast_digits (bi_digits b1) ?v w\<rparr>"
    have "resize mem b w = (KEFIR_OK, ?b)" using 1 r(1,3) cast_op [of ?v b1 w] by (simp add: resize)
    moreover have "bi_wf ?b" using r(2) by (rule bi_wf_update) (simp add: length_cast_digits)
    moreover have "uvalue ?b = take_bit w (read ?v (bi_digits b))"
      using uval_cast [of "bi_digits b1" w ?v] bi_wf_holds [OF r(2)] assms(2) r(3,4) read_append [OF h]
      by (simp add: uvalue_def)
    ultimately show ?thesis using r(3) by (intro that) auto
  next
    case 2
    have "resize mem b w = (KEFIR_OK, b)" unfolding resize using 2 by simp
    moreover have "uvalue b = take_bit w (read ?v (bi_digits b))"
      using read_self [OF assms(2), of "bi_digits b"] unfolding 2 uvalue_def by simp
    ultimately show ?thesis using assms(1) 2 by (intro that) auto
  next
    case 3
    let ?b = "b\<lparr>bi_digits := cast_digits (bi_digits b) ?v w\<rparr>"
    have hw: "holds (bi_digits b) w" using holds_mono [OF h] 3 by simp
    have wf: "bi_wf ?b" using assms(1) by (rule bi_wf_update) (simp add: length_cast_digits)
    obtain b1 es where r: "kefir_bigint_resize_nocast mem ?b w = (KEFIR_OK, b1)" "bi_wf b1" "bi_bitwidth b1 = w"
      "bi_digits b1 = bi_digits ?b @ es" by (rule resize_nocast_total [OF assms(3) wf assms(2)])
    have "resize mem b w = (KEFIR_OK, b1)" using 3 r(1) cast_op [of ?v b w] by (simp add: resize)
    moreover have "uvalue b1 = take_bit w (read ?v (bi_digits b))"
      using uval_cast [OF hw assms(2), of ?v] r(3,4) hw uval_append [of "bi_digits ?b" w es]
      by (simp add: uvalue_def holds_def length_cast_digits)
    ultimately show ?thesis using r(2,3) by (intro that) auto
  qed
qed

end

interpretation ru: resize_cast bigint_cast_unsigned uval kefir_bigint_cast_unsigned kefir_bigint_resize_cast_unsigned
  by unfold_locales
    (simp_all add: kefir_bigint_cast_unsigned_def kefir_bigint_resize_cast_unsigned_def Let_def uval_cast_unsigned uval_append)

interpretation rs: resize_cast bigint_cast_signed sval kefir_bigint_cast_signed kefir_bigint_resize_cast_signed
  by unfold_locales
    (simp_all add: kefir_bigint_cast_signed_def kefir_bigint_resize_cast_signed_def Let_def uval_cast_signed sval_append
      take_bit_uval_sval)

lemmas resize_cast_unsigned = ru.resize_value [folded uvalue_def]
  and resize_cast_signed = rs.resize_value [folded svalue_def]

end
