(* ===== verification/Kefir_Bigint_Text_Correct.thy ===== *)
theory Kefir_Bigint_Text_Correct
  imports Kefir_Bigint_Object_Correct
begin

text \<open>
  Parsing and formatting of big integers: a parsed number is the number the characters denote, and a formatted
  number is read back as itself.
\<close>

text \<open>The number a string of digits denotes.\<close>

definition number :: "int \<Rightarrow> (char \<Rightarrow> int) \<Rightarrow> string \<Rightarrow> int" where
  "number base digit s = foldl (\<lambda>v c. v * base + digit c) 0 s"

lemma number_simps [simp]:
  "number base digit [] = 0"
  "number base digit (s @ [c]) = number base digit s * base + digit c"
  by (simp_all add: number_def)

lemma bit_shift_add: "0 \<le> b \<Longrightarrow> b < 2 ^ d \<Longrightarrow> bit (a * 2 ^ d + b :: int) k = (if k < d then bit b k else bit a (k - d))"
proof -
  assume "0 \<le> b" "b < 2 ^ d"
  then have "a * 2 ^ d + b = concat_bit d b a"
    by (simp add: concat_bit_eq push_bit_eq_mult take_bit_int_eq_self)
  then show ?thesis by (auto simp: bit_concat_bit_iff not_less)
qed

lemma bit_number:
  assumes "0 < d" "\<And>c. c \<in> set s \<Longrightarrow> 0 \<le> digit c \<and> digit c < 2 ^ d"
  shows "bit (number (2 ^ d) digit s) k \<longleftrightarrow> k < length s * d \<and> bit (digit (s ! (length s - 1 - k div d))) (k mod d)"
  using assms(2)
proof (induction s arbitrary: k rule: rev_induct)
  case (snoc c s)
  show ?case
  proof (cases "k < d")
    case True
    then show ?thesis using snoc.prems by (simp add: bit_shift_add)
  next
    case False
    then have "k div d = Suc ((k - d) div d)" "k mod d = (k - d) mod d"
      using assms(1) le_div_geq [of d k] le_mod_geq [of d k] by (simp_all add: not_less)
    moreover have "k < length (s @ [c]) * d \<longleftrightarrow> k - d < length s * d" using False by auto
    moreover have "(s @ [c]) ! (length (s @ [c]) - 1 - Suc ((k - d) div d)) = s ! (length s - 1 - (k - d) div d)" if "k - d < length s * d"
    proof -
      have "(k - d) div d < length s" using that assms(1) by (simp add: div_less_iff_less_mult)
      then have "length s - Suc ((k - d) div d) < length s" by (intro diff_less) auto
      then show ?thesis by (simp add: nth_append)
    qed
    moreover have "bit (number (2 ^ d) digit (s @ [c])) k = bit (number (2 ^ d) digit s) (k - d)"
      using False snoc.prems [of c] by (simp add: bit_shift_add)
    ultimately show ?thesis using snoc.IH [of "k - d"] snoc.prems by auto
  qed
qed simp

section \<open>Reversal of the output\<close>

lemma nth_reverse_output:
  assumes "length s = i" "m \<le> i div 2" "k < i"
  shows "length (fold (\<lambda>j s. s[j := s ! (i - j - 1), i - j - 1 := s ! j]) [0..<m] s) = i"
    "fold (\<lambda>j s. s[j := s ! (i - j - 1), i - j - 1 := s ! j]) [0..<m] s ! k = (if k < m \<or> i - m \<le> k then s ! (i - 1 - k) else s ! k)"
proof -
  have "length (fold (\<lambda>j s. s[j := s ! (i - j - 1), i - j - 1 := s ! j]) [0..<m] s) = i \<and>
    (\<forall>k<i. fold (\<lambda>j s. s[j := s ! (i - j - 1), i - j - 1 := s ! j]) [0..<m] s ! k = (if k < m \<or> i - m \<le> k then s ! (i - 1 - k) else s ! k))"
    using assms(1,2)
  proof (induction m)
    case (Suc m)
    define t where "t = fold (\<lambda>j s. s[j := s ! (i - j - 1), i - j - 1 := s ! j]) [0..<m] s"
    from Suc have t: "length t = i" "\<And>k. k < i \<Longrightarrow> t ! k = (if k < m \<or> i - m \<le> k then s ! (i - 1 - k) else s ! k)"
      by (auto simp: t_def)
    obtain a where a: "i = Suc (m + a)" "m \<le> a" using Suc.prems less_imp_Suc_add [of m i] by fastforce
    have tm: "t ! m = s ! m" "t ! a = s ! a" using t(2) [of m] t(2) [of a] a by auto
    have "t[m := t ! (i - m - 1), i - m - 1 := t ! m] ! k = (if k < Suc m \<or> i - Suc m \<le> k then s ! (i - 1 - k) else s ! k)"
      if "k < i" for k
    proof -
      have e: "i - m - 1 = a" "i - Suc m = a" "i - m = Suc a" "i - 1 = m + a" using a by auto
      have "t[m := t ! a, a := t ! m] ! k = (if k = a then s ! m else if k = m then s ! a else t ! k)"
        using that t(1) a tm by (simp add: nth_list_update)
      moreover have "t ! k = (if k < m \<or> Suc a \<le> k then s ! (m + a - k) else s ! k)" using t(2) [OF that] by (simp only: e)
      ultimately show ?thesis unfolding e using a(2) by auto
    qed
    then show ?case using t(1) by (simp add: t_def)
  qed auto
  then show "length (fold (\<lambda>j s. s[j := s ! (i - j - 1), i - j - 1 := s ! j]) [0..<m] s) = i"
    "fold (\<lambda>j s. s[j := s ! (i - j - 1), i - j - 1 := s ! j]) [0..<m] s ! k = (if k < m \<or> i - m \<le> k then s ! (i - 1 - k) else s ! k)"
    using assms(3) by auto
qed

lemma reverse_output: "reverse_output s (length s) = rev s"
proof (cases s)
  case (Cons c cs)
  show ?thesis
  proof (rule nth_equalityI)
    show "length (reverse_output s (length s)) = length (rev s)"
      using nth_reverse_output(1) [of s "length s" "length s div 2" 0] Cons by (simp add: reverse_output_def)
    fix k assume "k < length (reverse_output s (length s))"
    then have k: "k < length s" using nth_reverse_output(1) [of s "length s" "length s div 2" 0] Cons by (simp add: reverse_output_def)
    have "length s - 1 - k = k" if "\<not> k < length s div 2" "\<not> length s - length s div 2 \<le> k" using that k by linarith
    then show "reverse_output s (length s) ! k = rev s ! k"
      using nth_reverse_output(2) [of s "length s" "length s div 2" k] k by (auto simp: reverse_output_def rev_nth)
  qed
qed (simp add: reverse_output_def)

section \<open>Trimming\<close>

lemma trim_zeros:
  "trim_zeros s i \<le> i" "trim_zeros s i = 0 \<longleftrightarrow> i = 0" "trim_zeros s i \<le> j \<Longrightarrow> j < i \<Longrightarrow> s ! j = CHR ''0''"
  "1 < trim_zeros s i \<Longrightarrow> s ! (trim_zeros s i - 1) \<noteq> CHR ''0''"
proof -
  show "trim_zeros s i \<le> i" by (induction i) auto
  show "trim_zeros s i = 0 \<longleftrightarrow> i = 0" by (induction i) auto
  show "trim_zeros s i \<le> j \<Longrightarrow> j < i \<Longrightarrow> s ! j = CHR ''0''" by (induction i) (auto simp: less_Suc_eq split: if_splits)
  show "1 < trim_zeros s i \<Longrightarrow> s ! (trim_zeros s i - 1) \<noteq> CHR ''0''" by (induction i) (auto split: if_splits)
qed

section \<open>The bases 2, 8 and 16\<close>

lemma input_at_append [simp]: "i < length s \<Longrightarrow> input_at (s @ t) i = s ! i"
  by (simp add: input_at_def nth_append)

lemma strlen_terminated: "NUL \<notin> set s \<Longrightarrow> strlen (s @ NUL # t) = length s"
  by (induction s) (auto simp: strlen_def)

lemma set_value:
  assumes "bi_wf b"
  shows "fst (kefir_bigint_set_unsigned_value b v) = KEFIR_OK" "bi_wf (snd (kefir_bigint_set_unsigned_value b v))"
    "bi_bitwidth (snd (kefir_bigint_set_unsigned_value b v)) = bi_bitwidth b"
    "uvalue (snd (kefir_bigint_set_unsigned_value b v)) = take_bit (bi_bitwidth b) (uint v)"
  using uval_set_unsigned [OF bi_wf_holds [OF assms]] bi_wf_update [OF assms]
  by (simp_all add: kefir_bigint_set_unsigned_value_def uvalue_def)

definition digit_value :: "(char \<Rightarrow> 8 word option) \<Rightarrow> char \<Rightarrow> int" where
  "digit_value digit_of c = (case digit_of c of Some v \<Rightarrow> uint v | None \<Rightarrow> 0)"

text \<open>A digit set of a base that is a power of two: how characters are read and written.\<close>

locale digit_set =
  fixes digit_of :: "char \<Rightarrow> 8 word option" and char_of_digit :: "nat \<Rightarrow> char" and d :: nat
  assumes width: "0 < d" "d < 8"
    and digit_less: "digit_of c = Some v \<Longrightarrow> uint v < 2 ^ d"
    and digit_NUL: "digit_of NUL = None"
    and written: "x < 2 ^ d \<Longrightarrow> digit_of (char_of_digit x) = Some (of_nat x)"
    and written_zero: "x < 2 ^ d \<Longrightarrow> char_of_digit x = CHR ''0'' \<longleftrightarrow> x = 0"
begin

lemma digit_value_bounds: "0 \<le> digit_value digit_of c \<and> digit_value digit_of c < 2 ^ d"
  using digit_less by (auto simp: digit_value_def split: option.split)

lemma bit_digit_value: "digit_of c = Some v \<Longrightarrow> bit (digit_value digit_of c) k = bit v k"
  by (auto simp: digit_value_def bit_uint_iff dest: bit_imp_le_length)

lemma parse_loop:
  assumes "\<And>c. c \<in> set s \<Longrightarrow> digit_of c \<noteq> None" "n \<le> length s" "bi_wf b"
  shows "\<exists>b'. parse_bits_loop digit_of d (s @ t) (length s) n b = (KEFIR_OK, b') \<and> bi_wf b' \<and> bi_bitwidth b' = bi_bitwidth b \<and>
    (\<forall>k < bi_bitwidth b. bit (dval (bi_digits b')) k =
       (if k < n * d then bit (digit_value digit_of (s ! (length s - 1 - k div d))) (k mod d) else bit (dval (bi_digits b)) k))"
  using assms(2,3)
proof (induction n arbitrary: b)
  case (Suc n)
  let ?c = "s ! (length s - 1 - n)"
  have i: "length s - n - 1 = length s - 1 - n" "length s - 1 - n < length s" using Suc.prems(1) by auto
  then obtain v where v: "digit_of ?c = Some v" using assms(1) [of ?c] by auto
  let ?b = "b\<lparr>bi_digits := bigint_set_bits (bi_digits b) (ucast v) (n * d) d (bi_bitwidth b)\<rparr>"
  note sb = bit_set_bits [OF bi_wf_holds [OF Suc.prems(2)], of "ucast v" "n * d" d]
  have wf: "bi_wf ?b" using Suc.prems(2) by (rule bi_wf_update) (rule sb(1))
  from Suc.IH [OF _ wf] Suc.prems(1) obtain b' where ih: "parse_bits_loop digit_of d (s @ t) (length s) n ?b = (KEFIR_OK, b')"
    "bi_wf b'" "bi_bitwidth b' = bi_bitwidth b"
    "\<And>k. k < bi_bitwidth b \<Longrightarrow> bit (dval (bi_digits b')) k =
       (if k < n * d then bit (digit_value digit_of (s ! (length s - 1 - k div d))) (k mod d) else bit (dval (bi_digits ?b)) k)" by auto
  have "parse_bits_loop digit_of d (s @ t) (length s) (Suc n) b = (KEFIR_OK, b')"
    using v i ih(1) by (simp add: Let_def)
  moreover have "bit (dval (bi_digits ?b)) k = (if k < Suc n * d then bit (digit_value digit_of (s ! (length s - 1 - k div d))) (k mod d) else bit (dval (bi_digits b)) k)"
    if "\<not> k < n * d" "k < bi_bitwidth b" for k
  proof (cases "k < Suc n * d")
    case True
    then have q: "k div d = n" using that(1) width(1) by (simp add: div_nat_eqI mult.commute)
    then have "k mod d = k - n * d" by (simp add: modulo_nat_def mult.commute)
    with q show ?thesis using sb(2) [of k] that True bit_digit_value [OF v, of "k - n * d"]
      by (auto simp: bit_ucast_iff dest: bit_imp_le_length)
  next
    case False
    then show ?thesis using sb(2) [of k] by simp
  qed
  ultimately show ?case using ih(2-4) by (intro exI [of _ b']) auto
qed auto

lemma parse_value:
  assumes "\<And>c. c \<in> set s \<Longrightarrow> digit_of c \<noteq> None" "bi_wf b" "uvalue b = 0"
  shows "\<exists>b'. parse_bits_loop digit_of d (s @ t) (length s) (length s) b = (KEFIR_OK, b') \<and> bi_wf b' \<and>
    bi_bitwidth b' = bi_bitwidth b \<and> uvalue b' = take_bit (bi_bitwidth b) (number (2 ^ d) (digit_value digit_of) s)"
proof -
  from parse_loop [OF assms(1) order_refl assms(2), where t = t] obtain b' where
    p: "parse_bits_loop digit_of d (s @ t) (length s) (length s) b = (KEFIR_OK, b')" "bi_wf b'" "bi_bitwidth b' = bi_bitwidth b"
    "\<And>k. k < bi_bitwidth b \<Longrightarrow> bit (dval (bi_digits b')) k =
       (if k < length s * d then bit (digit_value digit_of (s ! (length s - 1 - k div d))) (k mod d) else bit (dval (bi_digits b)) k)" by auto
  have z: "\<not> bit (dval (bi_digits b)) k" if "k < bi_bitwidth b" for k
    using assms(3) that by (simp add: uvalue_def uval_eq_0_iff)
  have "uvalue b' = take_bit (bi_bitwidth b) (number (2 ^ d) (digit_value digit_of) s)"
    unfolding uvalue_def p(3) by (rule uval_eqI) (simp add: p(4) z bit_number [OF width(1) digit_value_bounds])
  then show ?thesis using p by blast
qed

lemma parse_text:
  assumes "\<forall>c \<in> set s. digit_of c \<noteq> None" "s \<noteq> []" "bi_wf b" "mem_total mem"
  shows "\<exists>b'. requireOK (kefir_bigint_resize_cast_unsigned mem b (length s * d)) (\<lambda>b.
      requireOK (kefir_bigint_set_unsigned_value b 0) (parse_bits_loop digit_of d (s @ t) (length s) (length s))) = (KEFIR_OK, b') \<and>
    bi_wf b' \<and> uvalue b' = number (2 ^ d) (digit_value digit_of) s"
proof -
  have "0 < length s * d" using assms(2) width(1) by simp
  then obtain b1 where b1: "kefir_bigint_resize_cast_unsigned mem b (length s * d) = (KEFIR_OK, b1)" "bi_wf b1" "bi_bitwidth b1 = length s * d"
    by (rule resize_cast_unsigned [OF assms(3) _ assms(4)])
  obtain b2 where b2: "kefir_bigint_set_unsigned_value b1 0 = (KEFIR_OK, b2)" by (simp add: kefir_bigint_set_unsigned_value_def)
  have "bi_wf b2" "uvalue b2 = 0" "bi_bitwidth b2 = length s * d" using set_value [OF b1(2), of 0] b1(3) b2 by simp_all
  with parse_value [of s b2 t] assms(1) obtain b' where
    "parse_bits_loop digit_of d (s @ t) (length s) (length s) b2 = (KEFIR_OK, b')" "bi_wf b'"
    "uvalue b' = take_bit (length s * d) (number (2 ^ d) (digit_value digit_of) s)" by auto
  moreover have "take_bit (length s * d) (number (2 ^ d) (digit_value digit_of) s) = number (2 ^ d) (digit_value digit_of) s"
    by (rule bit_eqI) (auto simp: bit_take_bit_iff bit_number [OF width(1) digit_value_bounds])
  ultimately show ?thesis using b1(1) b2 by simp
qed

lemma digits_terminated: "\<forall>c \<in> set s. digit_of c \<noteq> None \<Longrightarrow> strlen (s @ NUL # t) = length s"
  using digit_NUL by (intro strlen_terminated notI) fastforce

definition digit_at :: "bigint \<Rightarrow> nat \<Rightarrow> nat" where
  "digit_at b j = unat (bigint_get_bits (bi_digits b) (j * d) d (bi_bitwidth b))"

lemma bit_digit_at:
  assumes "bi_wf b"
  shows "bit (digit_at b j) p \<longleftrightarrow> p < d \<and> bit (uvalue b) (j * d + p)"
  using bit_get_bits [OF bi_wf_holds [OF assms], of "j * d" d p] width(2)
  by (auto simp: digit_at_def bit_unsigned_iff uvalue_def bit_uval add.commute)

lemma digit_at_less: "bi_wf b \<Longrightarrow> digit_at b j < 2 ^ d"
proof -
  assume "bi_wf b"
  then have "take_bit d (digit_at b j) = digit_at b j" by (intro bit_eqI) (auto simp: bit_take_bit_iff bit_digit_at)
  then show ?thesis by (metis take_bit_nat_less_exp)
qed

lemma format_loop:
  assumes "bi_wf b" "uvalue b \<noteq> 0"
  shows "format_bits_loop char_of_digit d b n out = Inr (out @ map (\<lambda>j. char_of_digit (digit_at b j)) [length out..<length out + n])"
proof (induction n arbitrary: out)
  case (Suc n)
  have "\<not> bigint_is_zero (bi_digits b) (bi_bitwidth b)"
    using assms by (simp add: is_zero_iff bi_wf_holds uvalue_def)
  moreover have "[length out..<length out + Suc n] = length out # [Suc (length out)..<Suc (length out) + n]"
    by (simp add: upt_conv_Cons del: upt_Suc)
  ultimately show ?case using Suc digit_at_less [OF assms(1), of "length out"] by (simp add: Let_def digit_at_def del: upt_Suc)
qed simp

lemma format_digits:
  assumes "bi_wf b" "\<forall>j < n. \<not> j < i \<longrightarrow> digit_at b j = 0" "i \<le> n" "bi_bitwidth b \<le> n * d"
  shows "number (2 ^ d) (digit_value digit_of) (rev (map (\<lambda>j. char_of_digit (digit_at b j)) [0..<i])) = uvalue b"
proof (rule bit_eqI)
  fix k
  let ?s = "rev (map (\<lambda>j. char_of_digit (digit_at b j)) [0..<i])"
  have k: "k div d * d + k mod d = k" by simp
  have "bit (number (2 ^ d) (digit_value digit_of) ?s) k \<longleftrightarrow>
      k < i * d \<and> bit (digit_value digit_of (?s ! (i - 1 - k div d))) (k mod d)"
    using bit_number [OF width(1), of ?s "digit_value digit_of" k] digit_value_bounds by simp
  also have "\<dots> \<longleftrightarrow> k < i * d \<and> bit (uvalue b) k"
  proof (cases "k < i * d")
    case True
    then have q: "k div d < i" using width(1) by (simp add: div_less_iff_less_mult)
    then have "?s ! (i - 1 - k div d) = char_of_digit (digit_at b (k div d))" by (simp add: rev_nth)
    moreover have "bit (digit_value digit_of (char_of_digit (digit_at b (k div d)))) (k mod d) = bit (uvalue b) k"
      using bit_digit_value [OF written [OF digit_at_less [OF assms(1)]], of "k div d" "k mod d"] bit_digit_at [OF assms(1), of "k div d" "k mod d"]
        width mod_less_divisor [OF width(1), of k] by (simp add: bit_of_nat_iff possible_bit_word k)
    ultimately show ?thesis by simp
  qed simp
  also have "\<dots> \<longleftrightarrow> bit (uvalue b) k"
  proof -
    have "k < i * d" if "bit (uvalue b) k"
    proof (rule ccontr)
      assume "\<not> k < i * d"
      then have "\<not> k div d < i" using width(1) by (simp add: div_less_iff_less_mult)
      moreover have "k div d < n"
        using that assms(4) width(1) by (auto simp: uvalue_def bit_uval div_less_iff_less_mult)
      ultimately have "digit_at b (k div d) = 0" using assms(2) by simp
      then show False using bit_digit_at [OF assms(1), of "k div d" "k mod d"] that k width(1) by simp
    qed
    then show ?thesis by auto
  qed
  finally show "bit (number (2 ^ d) (digit_value digit_of) ?s) k = bit (uvalue b) k" .
qed

lemma format_value:
  assumes "bi_wf b" "0 < bi_bitwidth b" "bi_bitwidth b \<le> n * d"
  obtains s where "format_bits_into_impl char_of_digit d b (Suc n) = Inr (s @ [NUL])" "s \<noteq> []" "length s \<le> n"
    "\<And>c. c \<in> set s \<Longrightarrow> digit_of c \<noteq> None" "number (2 ^ d) (digit_value digit_of) s = uvalue b"
    "hd s = CHR ''0'' \<Longrightarrow> s = ''0''"
proof (cases "uvalue b = 0")
  case True
  obtain m where n: "n = Suc m" using assms(2,3) by (cases n) auto
  have "format_bits_loop char_of_digit d b n [] = Inr ''0''"
    using True bi_wf_holds [OF assms(1)] by (simp add: n is_zero_iff uvalue_def)
  moreover have "digit_of (CHR ''0'') = Some 0" using written [of 0] written_zero [of 0] by simp
  ultimately show ?thesis
    using True reverse_output [of "''0''"] by (intro that [of "''0''"]) (auto simp: format_bits_into_impl_def n digit_value_def number_def)
next
  case False
  let ?f = "\<lambda>j. char_of_digit (digit_at b j)"
  define i where "i = trim_zeros (map ?f [0..<n]) n"
  note t = trim_zeros [of "map ?f [0..<n]" n, folded i_def]
  have n: "0 < n" using assms(2,3) by (cases n) auto
  have i: "0 < i" "i \<le> n" using t(1,2) n by auto
  have tk: "take i (map ?f [0..<n]) = map ?f [0..<i]" using i(2) by (simp add: take_map)
  have f1: "format_bits_into_impl char_of_digit d b (Suc n) = Inr (rev (map ?f [0..<i]) @ [NUL])"
    using format_loop [OF assms(1) False, of n "[]"] reverse_output [of "map ?f [0..<i]"]
    by (simp add: format_bits_into_impl_def Let_def i_def [symmetric] tk)
  have f2: "number (2 ^ d) (digit_value digit_of) (rev (map ?f [0..<i])) = uvalue b"
    by (rule format_digits [OF assms(1) _ i(2) assms(3)]) (use t(3) digit_at_less [OF assms(1)] written_zero in auto)
  have f3: "rev (map ?f [0..<i]) = ''0''" if "hd (rev (map ?f [0..<i])) = CHR ''0''"
  proof (cases "1 < i")
    case True
    then have "?f (i - 1) \<noteq> CHR ''0''" using t(4) i(2) by simp
    then show ?thesis using that i(1) by (simp add: hd_rev last_map)
  next
    case False
    then have "i = 1" using i(1) by simp
    then show ?thesis using that by simp
  qed
  have f4: "digit_of c \<noteq> None" if "c \<in> set (rev (map ?f [0..<i]))" for c
    using that written [OF digit_at_less [OF assms(1)]] by auto
  have f5: "rev (map ?f [0..<i]) \<noteq> []" "length (rev (map ?f [0..<i])) \<le> n" using i by auto
  show ?thesis by (rule that [OF f1 f5 f4 f2 f3])
qed

end

lemma digit_char_2:
  "list_all (\<lambda>x. digit_of2 (digit_char x) = Some (of_nat x) \<and> (digit_char x = CHR ''0'' \<longleftrightarrow> x = 0)) [0..<2 ^ 1]"
  by code_simp

lemma digit_of_2: "digit_of2 c = Some v \<Longrightarrow> uint v < 2 ^ 1" "digit_of2 NUL = None"
  by (auto simp: digit_of2_def NUL_def of_char_def split: if_splits)

interpretation b2: digit_set digit_of2 digit_char 1
  using digit_char_2 by unfold_locales (simp_all only: list_all_iff digit_of_2 set_upt atLeastLessThan_iff, auto)

lemma digit_char_8:
  "list_all (\<lambda>x. digit_of8 (digit_char x) = Some (of_nat x) \<and> (digit_char x = CHR ''0'' \<longleftrightarrow> x = 0)) [0..<2 ^ 3]"
  by code_simp

lemma digit_of_8: "digit_of8 c = Some v \<Longrightarrow> uint v < 2 ^ 3" "digit_of8 NUL = None"
  by (auto simp: digit_of8_def NUL_def of_char_def split: if_splits)

interpretation b8: digit_set digit_of8 digit_char 3
  using digit_char_8 by unfold_locales (simp_all only: list_all_iff digit_of_8 set_upt atLeastLessThan_iff, auto)

lemma digit_char_16:
  "list_all (\<lambda>x. digit_of16 (hex_digit_char x) = Some (of_nat x) \<and> (hex_digit_char x = CHR ''0'' \<longleftrightarrow> x = 0)) [0..<2 ^ 4]"
  by code_simp

lemma digit_of_16: "digit_of16 c = Some v \<Longrightarrow> uint v < 2 ^ 4" "digit_of16 NUL = None"
  by (auto simp: digit_of16_def NUL_def of_char_def split: if_splits)

interpretation b16: digit_set digit_of16 hex_digit_char 4
  using digit_char_16 by unfold_locales (simp_all only: list_all_iff digit_of_16 set_upt atLeastLessThan_iff, auto)

lemma parse_2_8_16:
  assumes "bi_wf b" "mem_total mem" "s \<noteq> []" "length s \<le> n"
  shows "\<forall>c \<in> set s. digit_of2 c \<noteq> None \<Longrightarrow> \<exists>b'. kefir_bigint_unsigned_parse2 mem b (s @ NUL # t) n = (KEFIR_OK, b') \<and>
      bi_wf b' \<and> uvalue b' = number 2 (digit_value digit_of2) s"
    "\<forall>c \<in> set s. digit_of8 c \<noteq> None \<Longrightarrow> \<exists>b'. kefir_bigint_unsigned_parse8 mem b (s @ NUL # t) n = (KEFIR_OK, b') \<and>
      bi_wf b' \<and> uvalue b' = number 8 (digit_value digit_of8) s"
    "\<forall>c \<in> set s. digit_of16 c \<noteq> None \<Longrightarrow> \<exists>b'. kefir_bigint_unsigned_parse16 mem b (s @ NUL # t) n = (KEFIR_OK, b') \<and>
      bi_wf b' \<and> uvalue b' = number 16 (digit_value digit_of16) s"
proof -
  have l: "(if strlen (s @ NUL # t) < n then strlen (s @ NUL # t) else n) = length s" if "strlen (s @ NUL # t) = length s"
    using that assms(4) by simp
  show "\<exists>b'. kefir_bigint_unsigned_parse2 mem b (s @ NUL # t) n = (KEFIR_OK, b') \<and> bi_wf b' \<and> uvalue b' = number 2 (digit_value digit_of2) s"
    if d: "\<forall>c \<in> set s. digit_of2 c \<noteq> None"
    using b2.parse_text [OF d assms(3,1,2), where t = "NUL # t"]
    unfolding kefir_bigint_unsigned_parse2_def kefir_bigint_unsigned_parse2_into_def Let_def
      l [OF b2.digits_terminated [OF d]] by simp
  show "\<exists>b'. kefir_bigint_unsigned_parse8 mem b (s @ NUL # t) n = (KEFIR_OK, b') \<and> bi_wf b' \<and> uvalue b' = number 8 (digit_value digit_of8) s"
    if d: "\<forall>c \<in> set s. digit_of8 c \<noteq> None"
    using b8.parse_text [OF d assms(3,1,2), where t = "NUL # t"]
    unfolding kefir_bigint_unsigned_parse8_def kefir_bigint_unsigned_parse8_into_def Let_def
      l [OF b8.digits_terminated [OF d]] by simp
  show "\<exists>b'. kefir_bigint_unsigned_parse16 mem b (s @ NUL # t) n = (KEFIR_OK, b') \<and> bi_wf b' \<and> uvalue b' = number 16 (digit_value digit_of16) s"
    if d: "\<forall>c \<in> set s. digit_of16 c \<noteq> None"
    using b16.parse_text [OF d assms(3,1,2), where t = "NUL # t"]
    unfolding kefir_bigint_unsigned_parse16_def kefir_bigint_unsigned_parse16_into_def Let_def
      l [OF b16.digits_terminated [OF d]] by simp
qed

lemma format_2_8_16:
  assumes "bi_wf b" "0 < bi_bitwidth b" "mem_total mem"
  shows "\<exists>s. kefir_bigint_unsigned_format2 mem b = Inr (s @ [NUL]) \<and> s \<noteq> [] \<and> (\<forall>c \<in> set s. digit_of2 c \<noteq> None) \<and>
      number 2 (digit_value digit_of2) s = uvalue b \<and> (hd s = CHR ''0'' \<longrightarrow> s = ''0'')"
    "\<exists>s. kefir_bigint_unsigned_format8 mem b = Inr (s @ [NUL]) \<and> s \<noteq> [] \<and> (\<forall>c \<in> set s. digit_of8 c \<noteq> None) \<and>
      number 8 (digit_value digit_of8) s = uvalue b \<and> (hd s = CHR ''0'' \<longrightarrow> s = ''0'')"
    "\<exists>s. kefir_bigint_unsigned_format16 mem b = Inr (s @ [NUL]) \<and> s \<noteq> [] \<and> (\<forall>c \<in> set s. digit_of16 c \<noteq> None) \<and>
      number 16 (digit_value digit_of16) s = uvalue b \<and> (hd s = CHR ''0'' \<longrightarrow> s = ''0'')"
proof -
  have m: "mem n \<noteq> None" for n using assms(3) by (simp add: mem_total_def)
  show "\<exists>s. kefir_bigint_unsigned_format2 mem b = Inr (s @ [NUL]) \<and> s \<noteq> [] \<and> (\<forall>c \<in> set s. digit_of2 c \<noteq> None) \<and>
      number 2 (digit_value digit_of2) s = uvalue b \<and> (hd s = CHR ''0'' \<longrightarrow> s = ''0'')"
    by (rule b2.format_value [OF assms(1,2), of "bi_bitwidth b"])
      (auto simp: kefir_bigint_unsigned_format2_def kefir_bigint_unsigned_format2_into_def Let_def m)
  have "bi_bitwidth b \<le> (bi_bitwidth b + 2) div 3 * 3" by linarith
  then show "\<exists>s. kefir_bigint_unsigned_format8 mem b = Inr (s @ [NUL]) \<and> s \<noteq> [] \<and> (\<forall>c \<in> set s. digit_of8 c \<noteq> None) \<and>
      number 8 (digit_value digit_of8) s = uvalue b \<and> (hd s = CHR ''0'' \<longrightarrow> s = ''0'')"
    by (rule b8.format_value [OF assms(1,2)])
      (auto simp: kefir_bigint_unsigned_format8_def kefir_bigint_unsigned_format8_into_def Let_def m)
  have "bi_bitwidth b \<le> (bi_bitwidth b + 3) div 4 * 4" by linarith
  then show "\<exists>s. kefir_bigint_unsigned_format16 mem b = Inr (s @ [NUL]) \<and> s \<noteq> [] \<and> (\<forall>c \<in> set s. digit_of16 c \<noteq> None) \<and>
      number 16 (digit_value digit_of16) s = uvalue b \<and> (hd s = CHR ''0'' \<longrightarrow> s = ''0'')"
    by (rule b16.format_value [OF assms(1,2)])
      (auto simp: kefir_bigint_unsigned_format16_def kefir_bigint_unsigned_format16_into_def Let_def m)
qed

end
