(* ===== verification/Kefir_Bigint_Decimal.thy ===== *)
theory Kefir_Bigint_Decimal
  imports Kefir_Bigint_Text_Correct
begin

text \<open>
  Decimal parsing and formatting of big integers. Parsing works through the input in chunks of fifteen characters,
  formatting divides by ten.
\<close>

section \<open>Base 10\<close>

definition decimal_value :: "char \<Rightarrow> int" where
  "decimal_value c = of_char c - of_char (CHR ''0'')"

definition decimal_digit :: "char \<Rightarrow> bool" where
  "decimal_digit c \<longleftrightarrow> CHR ''0'' \<le> c \<and> c \<le> CHR ''9''"

lemma decimal_value_bounds: "decimal_digit c \<Longrightarrow> 0 \<le> decimal_value c \<and> decimal_value c < 10"
proof -
  assume "decimal_digit c"
  then have "of_char (CHR ''0'') \<le> (of_char c :: nat)" "of_char c \<le> (of_char (CHR ''9'') :: nat)"
    by (simp_all add: decimal_digit_def less_eq_char_def)
  then have "int (of_char (CHR ''0'')) \<le> int (of_char c)" "int (of_char c) \<le> int (of_char (CHR ''9''))"
    by (simp_all only: of_nat_le_iff)
  then show ?thesis unfolding decimal_value_def of_nat_of_char by simp
qed

lemma number_append: "number base digit (s @ t) = number base digit s * base ^ length t + number base digit t"
  by (induction t rule: rev_induct) (simp_all add: algebra_simps flip: append_assoc)

lemma number_less:
  "(\<And>c. c \<in> set s \<Longrightarrow> decimal_digit c) \<Longrightarrow> 0 \<le> number 10 decimal_value s \<and> number 10 decimal_value s < 10 ^ length s"
proof (induction s rule: rev_induct)
  case (snoc c s)
  then show ?case using decimal_value_bounds [of c] by auto
qed simp

lemma parse10_chunk:
  assumes "\<And>c. c \<in> set s \<Longrightarrow> decimal_digit c" "i + j \<le> length s"
  defines "piece \<equiv> \<lambda>j. take j (drop i s)"
  shows "parse10_chunk (s @ t) (length s) i n j (word_of_int (number 10 decimal_value (piece j))) (word_of_int (10 ^ j)) =
    (let j' = min (j + n) (length s - i) in
     Inr (j', word_of_int (number 10 decimal_value (piece j')), word_of_int (10 ^ j'), False))"
  using assms(2)
proof (induction n arbitrary: j)
  case 0
  then show ?case by (simp add: min_def)
next
  case (Suc n)
  show ?case
  proof (cases "i + j < length s")
    case True
    let ?c = "s ! (i + j)"
    have d: "decimal_digit ?c" using assms(1) True by simp
    have "piece (Suc j) = piece j @ [?c]" using True by (simp add: piece_def take_Suc_conv_app_nth)
    then have "number 10 decimal_value (piece (Suc j)) = number 10 decimal_value (piece j) * 10 + decimal_value ?c" by simp
    then have "10 * word_of_int (number 10 decimal_value (piece j)) + (of_char ?c - of_char (CHR ''0'')) =
        (word_of_int (number 10 decimal_value (piece (Suc j))) :: 64 word)"
      by (simp add: decimal_value_def of_int_of_char)
    moreover have "word_of_int (10 ^ j) * 10 = (word_of_int (10 ^ Suc j) :: 64 word)" by simp
    ultimately show ?thesis
      using Suc.IH [of "Suc j"] True d by (simp add: decimal_digit_def Let_def mult.commute [of _ 10])
  next
    case False
    then have "min (j + Suc n) (length s - i) = j" using Suc.prems by simp
    then show ?thesis using False by simp
  qed
qed

lemma uval_copy:
  assumes "holds a w" "holds b w"
  shows "uval w (bigint_copy a b w) = uval w b" "length (bigint_copy a b w) = length a"
proof -
  have "bit (dval (bigint_copy a b w)) k = bit (dval b) k" if "k < w" for k
    using that digits_index(2) [OF that] assms by (auto simp: bit_dval bigint_copy_def holds_def nth_append)
  then have "uval w (bigint_copy a b w) = take_bit w (dval b)" by (intro uval_eqI) simp
  then show "uval w (bigint_copy a b w) = uval w b" by (simp add: uval_def)
  show "length (bigint_copy a b w) = length a" using assms by (simp add: bigint_copy_def holds_def)
qed

text \<open>The numbers of the decimal loops are well formed and have one width.\<close>

definition same_width :: "nat \<Rightarrow> bigint \<times> bigint \<times> bigint \<Rightarrow> bool" where
  "same_width w = (\<lambda>(b, t0, t1). bi_wf b \<and> bi_wf t0 \<and> bi_wf t1 \<and> bi_bitwidth b = w \<and> bi_bitwidth t0 = w \<and> bi_bitwidth t1 = w)"

lemma bigint_op_ok:
  assumes "bi_wf b" "length ds = length (bi_digits b)"
  shows "bi_wf (b\<lparr>bi_digits := ds\<rparr>)" "bi_bitwidth (b\<lparr>bi_digits := ds\<rparr>) = bi_bitwidth b"
    "uvalue (b\<lparr>bi_digits := ds\<rparr>) = uval (bi_bitwidth b) ds"
  using bi_wf_update [OF assms] by (simp_all add: uvalue_def)

lemma parse10_round:
  assumes "same_width w (b, t0, t1)"
  obtains b' t0' t1' where "parse10_round chunk base (b, t0, t1) = (KEFIR_OK, b', t0', t1')" "same_width w (b', t0', t1')"
    "uvalue b' = take_bit w (uvalue b * uint base + uint chunk)"
proof -
  have wf: "bi_wf b" "bi_wf t0" "bi_wf t1" and w: "bi_bitwidth b = w" "bi_bitwidth t0 = w" "bi_bitwidth t1 = w"
    using assms by (simp_all add: same_width_def)
  note h = bi_wf_holds [OF wf(1)] bi_wf_holds [OF wf(2)] bi_wf_holds [OF wf(3)]
  define c0 where "c0 = bigint_copy (bi_digits t0) (bi_digits b) w"
  define s1 where "s1 = bigint_set_unsigned_integer (bi_digits t1) w base"
  define m where "m = bigint_unsigned_multiply (bi_digits b) c0 s1 w w"
  define s0 where "s0 = bigint_set_unsigned_integer c0 w chunk"
  define r where "r = bigint_add m s0 w"
  note hw = h [unfolded w]
  have c0: "uval w c0 = uvalue b" "length c0 = length (bi_digits t0)" using uval_copy [OF hw(2,1)] by (simp_all add: c0_def uvalue_def w)
  have hc: "holds c0 w" using hw(2) c0(2) by (simp add: holds_def)
  have s1: "uval w s1 = take_bit w (uint base)" "length s1 = length (bi_digits t1)" using uval_set_unsigned [OF hw(3)] by (simp_all add: s1_def)
  have hs1: "holds s1 w" using hw(3) s1(2) by (simp add: holds_def)
  have m: "uval w m = take_bit w (uvalue b * uint base)" "length m = length (bi_digits b)"
    using uval_unsigned_multiply [OF hw(1) hc hs1] take_bit_mult_cong [of w "uint base" "uvalue b"]
    by (simp_all add: m_def c0(1) s1(1) mult.commute)
  have s0: "uval w s0 = take_bit w (uint chunk)" "length s0 = length c0" using uval_set_unsigned [OF hc] by (simp_all add: s0_def)
  have hm: "holds m w" "holds s0 w" using hw(1) hc m(2) s0(2) by (simp_all add: holds_def)
  have r: "uval w r = take_bit w (uvalue b * uint base + uint chunk)" "length r = length (bi_digits b)"
    using uval_add [OF hm] m s0 by (simp_all add: r_def take_bit_reduce)
  have cap: "(w + 8 - 1) div 8 \<le> bi_capacity t0" using hw(2) wf(2) by (simp add: bi_wf_def holds_def BITS_TO_DIGITS_def DIGIT_BIT_def)
  have "parse10_round chunk base (b, t0, t1) =
      (KEFIR_OK, b\<lparr>bi_digits := r\<rparr>, t0\<lparr>bi_digits := s0, bi_bitwidth := w\<rparr>, t1\<lparr>bi_digits := s1\<rparr>)"
    using cap w by (simp add: parse10_round_def kefir_bigint_copy_def kefir_bigint_set_unsigned_value_def
        kefir_bigint_unsigned_multiply_def kefir_bigint_add_def c0_def s1_def m_def s0_def r_def)
  moreover have "same_width w (b\<lparr>bi_digits := r\<rparr>, t0\<lparr>bi_digits := s0, bi_bitwidth := w\<rparr>, t1\<lparr>bi_digits := s1\<rparr>)"
    using wf w r(2) s0(2) c0(2) s1(2) by (simp add: same_width_def bi_wf_def holds_def)
  ultimately show ?thesis using that r(1) w by (simp add: uvalue_def)
qed

lemma parse10_loop:
  assumes "\<And>c. c \<in> set s \<Longrightarrow> decimal_digit c" "i \<le> length s" "same_width w x"
    "uvalue (fst x) = take_bit w (number 10 decimal_value (take i s))"
  shows "\<exists>b' r. parse10_loop (s @ t) (length s) i x = (KEFIR_OK, b', r) \<and> same_width w (b', r) \<and>
    uvalue b' = take_bit w (number 10 decimal_value s)"
  using assms(2-4)
proof (induction "length s - i" arbitrary: i x rule: less_induct)
  case less
  obtain b t0 t1 where x: "x = (b, t0, t1)" by (cases x)
  show ?case
  proof (cases "i < length s")
    case False
    then show ?thesis using less.prems x by (subst parse10_loop.simps) simp
  next
    case True
    define j where "j = min 15 (length s - i)"
    let ?p = "take j (drop i s)"
    have j: "0 < j" "j \<le> 15" "i + j \<le> length s" using True by (auto simp: j_def)
    have c: "parse10_chunk (s @ t) (length s) i MAX_CHUNK_SIZE 0 0 1 =
        Inr (j, word_of_int (number 10 decimal_value ?p), word_of_int (10 ^ j), False)"
      using parse10_chunk [of s i 0 t MAX_CHUNK_SIZE] assms(1) True by (simp add: MAX_CHUNK_SIZE_def Let_def j_def)
    have "(10 :: int) ^ j \<le> 10 ^ 15" using j(2) by (intro power_increasing) auto
    then have small: "10 ^ j < (2 :: int) ^ 64" by simp
    have p: "set ?p \<subseteq> set s" using set_take_subset set_drop_subset by (metis subset_trans)
    then have "0 \<le> number 10 decimal_value ?p" "number 10 decimal_value ?p < 10 ^ length ?p"
      using number_less [of ?p] assms(1) by blast+
    moreover have lp: "length ?p = j" using j by simp
    ultimately have u: "uint (word_of_int (number 10 decimal_value ?p) :: 64 word) = number 10 decimal_value ?p"
      "uint (word_of_int (10 ^ j) :: 64 word) = 10 ^ j"
      using small by (simp_all add: unsigned_of_int take_bit_int_eq_self del: of_int_power)
    obtain b' t0' t1' where r: "parse10_round (word_of_int (number 10 decimal_value ?p)) (word_of_int (10 ^ j)) (b, t0, t1) = (KEFIR_OK, b', t0', t1')"
      "same_width w (b', t0', t1')" "uvalue b' = take_bit w (uvalue b * 10 ^ j + number 10 decimal_value ?p)"
      by (rule parse10_round [OF less.prems(2) [unfolded x], where chunk = "word_of_int (number 10 decimal_value ?p)" and base = "word_of_int (10 ^ j)", unfolded u])
    have "uvalue b' = take_bit w (number 10 decimal_value (take i s) * 10 ^ j + number 10 decimal_value ?p)"
      unfolding r(3) using less.prems(3) take_bit_mult_cong [of w "number 10 decimal_value (take i s)" "10 ^ j"]
      by (intro take_bit_arith_cong) (simp_all add: x)
    also have "\<dots> = take_bit w (number 10 decimal_value (take (i + j) s))"
      by (simp only: take_add number_append lp)
    finally have "\<exists>b'' r. parse10_loop (s @ t) (length s) (i + j) (b', t0', t1') = (KEFIR_OK, b'', r) \<and> same_width w (b'', r) \<and>
      uvalue b'' = take_bit w (number 10 decimal_value s)"
      using less.hyps [of "i + j" "(b', t0', t1')"] j r(2) by auto
    moreover have "parse10_loop (s @ t) (length s) i x = parse10_loop (s @ t) (length s) (i + j) (b', t0', t1')"
      using True r(1) by (subst parse10_loop.simps) (simp add: c x del: of_int_power)
    ultimately show ?thesis by simp
  qed
qed

lemma set_unsigned:
  assumes "bi_wf b"
  obtains b' where "kefir_bigint_set_unsigned_value b v = (KEFIR_OK, b')" "bi_wf b'" "bi_bitwidth b' = bi_bitwidth b"
    "uvalue b' = take_bit (bi_bitwidth b) (uint v)"
  using set_value [OF assms, of v] by (cases "kefir_bigint_set_unsigned_value b v") auto

lemma parse10_into:
  assumes "\<And>c. c \<in> set s \<Longrightarrow> decimal_digit c" "bi_wf b" "0 < bi_bitwidth b" "mem_total mem"
  obtains b' where "kefir_bigint_unsigned_parse10_into mem b (s @ t) (length s) = (KEFIR_OK, b')" "bi_wf b'"
    "bi_bitwidth b' = bi_bitwidth b" "uvalue b' = take_bit (bi_bitwidth b) (number 10 decimal_value s)"
proof -
  let ?w = "bi_bitwidth b"
  obtain t0 where t0: "kefir_bigint_resize_cast_unsigned mem kefir_bigint_init ?w = (KEFIR_OK, t0)" "bi_wf t0" "bi_bitwidth t0 = ?w"
    by (rule resize_cast_unsigned [OF bi_wf_init(1) assms(3,4)])
  obtain z where z: "kefir_bigint_set_unsigned_value b 0 = (KEFIR_OK, z)" "bi_wf z" "bi_bitwidth z = ?w" "uvalue z = take_bit ?w (uint (0 :: 64 word))"
    by (rule set_unsigned [OF assms(2)])
  have "same_width ?w (z, t0, t0)" using z(2,3) t0(2,3) by (simp add: same_width_def)
  from parse10_loop [of s 0 ?w "(z, t0, t0)" t] this assms(1) z(4) obtain b' r where
    "parse10_loop (s @ t) (length s) 0 (z, t0, t0) = (KEFIR_OK, b', r)" "same_width ?w (b', r)" "uvalue b' = take_bit ?w (number 10 decimal_value s)"
    by auto
  then show ?thesis using that [of b'] t0(1) z(1)
    by (cases r) (simp add: kefir_bigint_unsigned_parse10_into_def parse10_impl_def same_width_def)
qed

text \<open>The widths that the conversions reserve are enough: 3322/1000 exceeds the binary logarithm of ten, 302/1000 the decimal logarithm of two.\<close>

lemma pow_root: "(x :: int) ^ 500 \<le> y ^ 500 \<Longrightarrow> 0 \<le> y \<Longrightarrow> x \<le> y"
  using power_less_imp_less_base [of y 500 x] power_strict_mono [of y x 500] by (meson not_le zero_less_numeral)

lemma ten_pow_le: "(10 :: int) ^ n \<le> 2 ^ ((n * 3322 + 999) div 1000)"
proof (rule pow_root)
  let ?m = "(n * 3322 + 999) div 1000"
  have m: "1661 * n \<le> 500 * ?m" by linarith
  have "((10 :: int) ^ n) ^ 500 = (10 ^ 500) ^ n" by (simp only: power_mult [symmetric] mult.commute)
  also have "\<dots> \<le> (2 ^ 1661) ^ n" by (rule power_mono) simp_all
  also have "\<dots> = 2 ^ (1661 * n)" by (simp only: power_mult)
  also have "\<dots> \<le> 2 ^ (500 * ?m)" using m by (intro power_increasing) auto
  also have "\<dots> = (2 ^ ?m) ^ 500" by (simp only: power_mult [symmetric] mult.commute)
  finally show "((10 :: int) ^ n) ^ 500 \<le> (2 ^ ?m) ^ 500" .
qed simp

lemma two_pow_le: "(2 :: int) ^ n \<le> 10 ^ ((n * 302 + 999) div 1000)"
proof (rule pow_root)
  let ?m = "(n * 302 + 999) div 1000"
  have m: "151 * n \<le> 500 * ?m" by linarith
  have "((2 :: int) ^ n) ^ 500 = (2 ^ 500) ^ n" by (simp only: power_mult [symmetric] mult.commute)
  also have "\<dots> \<le> (10 ^ 151) ^ n" by (rule power_mono) simp_all
  also have "\<dots> = 10 ^ (151 * n)" by (simp only: power_mult)
  also have "\<dots> \<le> 10 ^ (500 * ?m)" using m by (intro power_increasing) auto
  also have "\<dots> = (10 ^ ?m) ^ 500" by (simp only: power_mult [symmetric] mult.commute)
  finally show "((2 :: int) ^ n) ^ 500 \<le> (10 ^ ?m) ^ 500" .
qed simp

lemma parse10:
  assumes "\<And>c. c \<in> set s \<Longrightarrow> decimal_digit c" "bi_wf b" "mem_total mem" "length s \<le> n"
  obtains b' where "kefir_bigint_unsigned_parse10 mem b (s @ NUL # t) n = (KEFIR_OK, b')" "bi_wf b'"
    "uvalue b' = number 10 decimal_value s"
proof -
  let ?w = "1 + (length s * 3322 + 999) div 1000"
  have nul: "NUL \<notin> set s" using assms(1) by (fastforce simp: decimal_digit_def NUL_def less_eq_char_def)
  have len: "(if strlen (s @ NUL # t) < n then strlen (s @ NUL # t) else n) = length s"
    using strlen_terminated [OF nul] assms(4) by simp
  obtain b1 where b1: "kefir_bigint_resize_cast_unsigned mem b ?w = (KEFIR_OK, b1)" "bi_wf b1" "bi_bitwidth b1 = ?w"
    by (rule resize_cast_unsigned [OF assms(2) _ assms(3), where w = ?w]) auto
  obtain b' where b': "kefir_bigint_unsigned_parse10_into mem b1 (s @ NUL # t) (length s) = (KEFIR_OK, b')" "bi_wf b'"
    "uvalue b' = take_bit ?w (number 10 decimal_value s)"
    by (rule parse10_into [OF assms(1) b1(2) _ assms(3), where s = s and t = "NUL # t"]) (use b1(3) in auto)
  have "(10 :: int) ^ length s \<le> 2 ^ ?w"
    by (rule order_trans [OF ten_pow_le]) (intro power_increasing, auto)
  then have "uvalue b' = number 10 decimal_value s"
    using number_less [of s] assms(1) b'(3) by (simp add: take_bit_int_eq_self)
  then show ?thesis
    using that [of b'] b1(1) b'(1,2) unfolding kefir_bigint_unsigned_parse10_def Let_def len by simp
qed

lemma digit_char_10:
  "list_all (\<lambda>x. decimal_digit (digit_char x) \<and> decimal_value (digit_char x) = int x \<and> (digit_char x = CHR ''0'' \<longleftrightarrow> x = 0)) [0..<10]"
  by code_simp

lemma digit_char_10_facts:
  "x < 10 \<Longrightarrow> decimal_digit (digit_char x)" "x < 10 \<Longrightarrow> decimal_value (digit_char x) = int x"
  "x < 10 \<Longrightarrow> digit_char x = CHR ''0'' \<longleftrightarrow> x = 0"
  using digit_char_10 by (simp_all only: list_all_iff set_upt atLeastLessThan_iff) auto

lemma divide_by_ten:
  assumes "bi_wf b" "bi_wf digit" "bi_wf base10" "bi_bitwidth digit = bi_bitwidth b" "bi_bitwidth base10 = bi_bitwidth b"
    "8 \<le> bi_bitwidth b" "uvalue base10 = 10"
  obtains b' digit' v where "kefir_bigint_unsigned_divide b digit base10 = (KEFIR_OK, b', digit')"
    "bi_wf b'" "bi_wf digit'" "bi_bitwidth b' = bi_bitwidth b" "bi_bitwidth digit' = bi_bitwidth b"
    "uvalue b' = uvalue b div 10" "kefir_bigint_get_unsigned digit' = Inr v" "int (unat v) = uvalue b mod 10"
proof -
  let ?w = "bi_bitwidth b"
  note h = bi_wf_holds [OF assms(1)] bi_wf_holds [OF assms(2), unfolded assms(4)] bi_wf_holds [OF assms(3), unfolded assms(5)]
  have u10: "uval ?w (bi_digits base10) = 10" using assms(5,7) by (simp add: uvalue_def)
  have "(2 :: int) ^ 7 \<le> 2 ^ (?w - 1)" using assms(6) by (intro power_increasing) auto
  then have le: "(10 :: int) \<le> 2 ^ (?w - 1)" by simp
  obtain q m where d: "bigint_unsigned_divide (bi_digits b) (bi_digits digit) (bi_digits base10) ?w ?w = (BIGINT_OK, q, m)"
    "length q = length (bi_digits b)" "length m = length (bi_digits digit)"
    "uval ?w q = uval ?w (bi_digits b) div uval ?w (bi_digits base10)" "uval ?w m = uval ?w (bi_digits b) mod uval ?w (bi_digits base10)"
    by (rule unsigned_divide [OF _ order_refl h]) (use assms(6) u10 le in auto)
  have hm: "holds m ?w" using h(2) d(3) by (simp add: holds_def)
  have "uval ?w m < 2 ^ min ?w 64"
  proof -
    have "(2 :: int) ^ 7 \<le> 2 ^ min ?w 64" using assms(6) by (intro power_increasing) auto
    then show ?thesis using d(5) u10 by (simp add: pos_mod_bound [THEN less_le_trans])
  qed
  then have "uint (bigint_get_unsigned_value m ?w) = uval ?w (bi_digits b) mod 10"
  proof -
    assume "uval ?w m < 2 ^ min ?w 64"
    then have "take_bit (min ?w 64) (uval ?w m) = uval ?w m" using uval_bounds(1) by (intro take_bit_int_eq_self)
    then have "uval (min ?w 64) m = uval ?w m" by (simp add: uval_def)
    then show ?thesis using uint_get_unsigned [OF hm] u10 d(5) by simp
  qed
  then have v: "int (unat (bigint_get_unsigned_value m ?w)) = uvalue b mod 10" by (simp add: uvalue_def)
  show ?thesis
    by (rule that [of "b\<lparr>bi_digits := q\<rparr>" "digit\<lparr>bi_digits := m\<rparr>" "bigint_get_unsigned_value m ?w"])
      (use d u10 v assms(1,2,4,5) in \<open>simp_all add: kefir_bigint_unsigned_divide_def bi_wf_update uvalue_def kefir_bigint_get_unsigned_def\<close>)
qed

lemma format10_loop:
  assumes "bi_wf b" "bi_wf digit" "bi_wf base10" "bi_bitwidth digit = bi_bitwidth b" "bi_bitwidth base10 = bi_bitwidth b"
    "8 \<le> bi_bitwidth b" "uvalue base10 = 10" "uvalue b < 10 ^ n" "out \<noteq> [] \<or> uvalue b \<noteq> 0"
  shows "\<exists>b' ds. format10_loop n b digit base10 out = (KEFIR_OK, b', out @ ds) \<and> bi_wf b' \<and> bi_bitwidth b' = bi_bitwidth b \<and>
    length ds \<le> n \<and> (\<forall>c \<in> set ds. decimal_digit c) \<and> number 10 decimal_value (rev ds) = uvalue b \<and>
    (if uvalue b = 0 then ds = [] else ds \<noteq> [] \<and> last ds \<noteq> CHR ''0'')"
  using assms
proof (induction n arbitrary: b digit out)
  case 0
  then have "uvalue b = 0" using uval_bounds(1) by (auto simp: uvalue_def intro: antisym)
  then show ?case using 0 by auto
next
  case (Suc n)
  show ?case
  proof (cases "uvalue b = 0")
    case True
    then have "bigint_is_zero (bi_digits b) (bi_bitwidth b)" using Suc.prems(1) by (simp add: is_zero_iff bi_wf_holds uvalue_def)
    then show ?thesis using Suc.prems True by auto
  next
    case False
    then have nz: "\<not> bigint_is_zero (bi_digits b) (bi_bitwidth b)" using Suc.prems(1) by (simp add: is_zero_iff bi_wf_holds uvalue_def)
    obtain b1 d1 v where d: "kefir_bigint_unsigned_divide b digit base10 = (KEFIR_OK, b1, d1)"
      "bi_wf b1" "bi_wf d1" "bi_bitwidth b1 = bi_bitwidth b" "bi_bitwidth d1 = bi_bitwidth b"
      "uvalue b1 = uvalue b div 10" "kefir_bigint_get_unsigned d1 = Inr v" "int (unat v) = uvalue b mod 10"
      by (rule divide_by_ten [OF Suc.prems(1-7)])
    have v: "unat v < 10" using d(8) pos_mod_bound [of 10 "uvalue b"] by linarith
    then have v9: "v \<le> 9" by (simp add: word_le_nat_alt)
    have u0: "0 \<le> uvalue b" using uval_bounds(1) by (simp add: uvalue_def)
    have "uvalue b1 < 10 ^ n" using Suc.prems(8) int_div_less_mult [of 10 "uvalue b" "10 ^ n"] by (simp add: d(6) mult.commute)
    from Suc.IH [OF d(2,3) Suc.prems(3) _ _ _ Suc.prems(7) this, of "out @ [digit_char (unat v)]"] d(4,5) Suc.prems(5,6)
    obtain b' ds where ih: "format10_loop n b1 d1 base10 (out @ [digit_char (unat v)]) = (KEFIR_OK, b', (out @ [digit_char (unat v)]) @ ds)"
      "bi_wf b'" "bi_bitwidth b' = bi_bitwidth b" "length ds \<le> n" "\<forall>c \<in> set ds. decimal_digit c"
      "number 10 decimal_value (rev ds) = uvalue b1" "if uvalue b1 = 0 then ds = [] else ds \<noteq> [] \<and> last ds \<noteq> CHR ''0''" by auto
    let ?ds = "digit_char (unat v) # ds"
    have "format10_loop (Suc n) b digit base10 out = (KEFIR_OK, b', out @ ?ds)"
      using nz d(1,7) v9 ih(1) by simp
    moreover have "number 10 decimal_value (rev ?ds) = uvalue b"
      using ih(6) d(6,8) digit_char_10_facts(2) [OF v] div_mult_mod_eq [of "uvalue b" 10] by simp
    moreover have "last ?ds \<noteq> CHR ''0''"
    proof (cases "uvalue b1 = 0")
      case True
      then have "uvalue b mod 10 \<noteq> 0" using False d(6) div_mult_mod_eq [of "uvalue b" 10] by auto
      then have "digit_char (unat v) \<noteq> CHR ''0''" using digit_char_10_facts(3) [OF v] d(8) by auto
      moreover have "ds = []" using ih(7) True by simp
      ultimately show ?thesis by simp
    qed (use ih(7) in auto)
    ultimately show ?thesis
      using ih(2-5) False digit_char_10_facts(1) [OF v] by (intro exI [of _ b'] exI [of _ ?ds]) auto
  qed
qed

lemma uvalue_bounds: "0 \<le> uvalue b" "uvalue b < 2 ^ bi_bitwidth b"
  using uval_bounds by (simp_all add: uvalue_def)

lemma format10_impl:
  assumes "bi_wf b" "0 < bi_bitwidth b" "mem_total mem" "uvalue b < 10 ^ n" "0 < n"
  obtains b' s where "unsigned_format10_into_impl mem b (Suc n) kefir_bigint_init kefir_bigint_init = (KEFIR_OK, b', s @ [NUL])"
    "bi_wf b'" "bi_bitwidth b' = bi_bitwidth b" "s \<noteq> []" "length s \<le> n" "\<And>c. c \<in> set s \<Longrightarrow> decimal_digit c"
    "number 10 decimal_value s = uvalue b" "hd s = CHR ''0'' \<Longrightarrow> s = ''0''"
proof -
  let ?v = "bi_bitwidth b"
  have "\<exists>b1. (if ?v < 8 then kefir_bigint_resize_cast_unsigned mem b 8 else (KEFIR_OK, b)) = (KEFIR_OK, b1) \<and> bi_wf b1 \<and>
      bi_bitwidth b1 = max ?v 8 \<and> uvalue b1 = uvalue b"
  proof (cases "?v < 8")
    case True
    have "(2 :: int) ^ ?v \<le> 2 ^ 8" using True by (intro power_increasing) auto
    then have "take_bit 8 (uvalue b) = uvalue b" using uvalue_bounds [of b] by (intro take_bit_int_eq_self) auto
    moreover obtain b1 where "kefir_bigint_resize_cast_unsigned mem b 8 = (KEFIR_OK, b1)" "bi_wf b1" "bi_bitwidth b1 = 8"
      "uvalue b1 = take_bit 8 (uvalue b)" by (rule resize_cast_unsigned [OF assms(1) _ assms(3), of 8]) auto
    ultimately show ?thesis using True by auto
  qed (use assms(1) in auto)
  then obtain b1 where b1: "(if ?v < 8 then kefir_bigint_resize_cast_unsigned mem b 8 else (KEFIR_OK, b)) = (KEFIR_OK, b1)"
    "bi_wf b1" "bi_bitwidth b1 = max ?v 8" "uvalue b1 = uvalue b" by blast
  obtain d es where d: "kefir_bigint_resize_nocast mem kefir_bigint_init (bi_bitwidth b1) = (KEFIR_OK, d)" "bi_wf d"
    "bi_bitwidth d = bi_bitwidth b1" by (rule resize_nocast_total [OF assms(3) bi_wf_init(1), of "bi_bitwidth b1"]) (use b1(3) in auto)
  obtain t where t: "kefir_bigint_set_unsigned_value d 10 = (KEFIR_OK, t)" "bi_wf t" "bi_bitwidth t = bi_bitwidth d"
    "uvalue t = take_bit (bi_bitwidth d) (uint (10 :: 64 word))" by (rule set_unsigned [OF d(2)])
  have "(2 :: int) ^ 8 \<le> 2 ^ bi_bitwidth d" using b1(3) d(3) by (intro power_increasing) auto
  then have t10: "uvalue t = 10" using t(4) by (simp add: take_bit_int_eq_self)
  obtain b2 s where l: "format10_loop n b1 d t [] = (KEFIR_OK, b2, s)" "bi_wf b2" "bi_bitwidth b2 = bi_bitwidth b1"
    "s \<noteq> []" "length s \<le> n" "\<forall>c \<in> set s. decimal_digit c" "number 10 decimal_value (rev s) = uvalue b"
    "last s = CHR ''0'' \<Longrightarrow> s = ''0''"
  proof (cases "uvalue b = 0")
    case True
    obtain m where "n = Suc m" using assms(5) by (cases n) auto
    moreover have "bigint_is_zero (bi_digits b1) (bi_bitwidth b1)" using True b1(2,4) by (simp add: is_zero_iff bi_wf_holds uvalue_def)
    moreover have "decimal_value (CHR ''0'') = 0" "decimal_digit (CHR ''0'')" by (simp_all add: decimal_value_def decimal_digit_def less_eq_char_def)
    ultimately show ?thesis using that [of b1 "''0''"] b1(2) True by (simp add: number_def)
  next
    case False
    then show ?thesis using format10_loop [OF b1(2) d(2) t(2) d(3) _ _ t10, of n "[]"] t(3) d(3) b1(3,4) assms(4) that by force
  qed
  have "\<exists>b3. (if bi_bitwidth b2 \<noteq> ?v then kefir_bigint_resize_nocast mem b2 ?v else (KEFIR_OK, b2)) = (KEFIR_OK, b3) \<and> bi_wf b3 \<and> bi_bitwidth b3 = ?v"
    using l(2) by (cases "bi_bitwidth b2 = ?v") (auto intro: resize_nocast_total [OF assms(3) l(2) assms(2)])
  then obtain b3 where b3: "(if bi_bitwidth b2 \<noteq> ?v then kefir_bigint_resize_nocast mem b2 ?v else (KEFIR_OK, b2)) = (KEFIR_OK, b3)"
    "bi_wf b3" "bi_bitwidth b3 = ?v" by blast
  have "unsigned_format10_into_impl mem b (Suc n) kefir_bigint_init kefir_bigint_init = (KEFIR_OK, b3, rev s @ [NUL])"
    using b3(1) unfolding unsigned_format10_into_impl_def Let_def b1(1) prod.case
    by (auto simp: d(1) t(1) l(1) reverse_output split: if_splits)
  then show ?thesis using that [of b3 "rev s"] b3(2,3) l(4-8) by (auto simp: hd_rev)
qed

lemma format10:
  assumes "bi_wf b" "0 < bi_bitwidth b" "mem_total mem"
  obtains b' s where "kefir_bigint_unsigned_format10 mem b = (KEFIR_OK, b', s @ [NUL])"
    "bi_wf b'" "bi_bitwidth b' = bi_bitwidth b" "s \<noteq> []" "\<And>c. c \<in> set s \<Longrightarrow> decimal_digit c"
    "number 10 decimal_value s = uvalue b" "hd s = CHR ''0'' \<Longrightarrow> s = ''0''"
proof -
  let ?n = "(bi_bitwidth b * 302 + 999) div 1000"
  have u: "uvalue b < 10 ^ ?n" using uvalue_bounds(2) [of b] two_pow_le [of "bi_bitwidth b"] by linarith
  have n: "0 < ?n" using assms(2) by linarith
  obtain b' s where f: "unsigned_format10_into_impl mem b (Suc ?n) kefir_bigint_init kefir_bigint_init = (KEFIR_OK, b', s @ [NUL])"
    "bi_wf b'" "bi_bitwidth b' = bi_bitwidth b" "s \<noteq> []" "length s \<le> ?n" "\<And>c. c \<in> set s \<Longrightarrow> decimal_digit c"
    "number 10 decimal_value s = uvalue b" "hd s = CHR ''0'' \<Longrightarrow> s = ''0''"
    by (rule format10_impl [OF assms u n]) blast
  have "kefir_bigint_unsigned_format10 mem b = (KEFIR_OK, b', s @ [NUL])"
    using assms(3) f(1) by (simp add: kefir_bigint_unsigned_format10_def kefir_bigint_unsigned_format10_into_def Let_def mem_total_def del: mult_Suc)
  then show ?thesis using that f(2-4,6-8) by blast
qed

end
