(* ===== verification/Kefir_Bigint_Props.thy ===== *)
theory Kefir_Bigint_Props
  imports Kefir_Bigint_Decimal
begin

text \<open>The properties of big integer objects, over the lemmas on the digit routines.\<close>

unbundle bit_operations_syntax

text \<open>An operation succeeds and leaves a well-formed number of the given width and value.\<close>

definition computes :: "kefir_result \<times> bigint \<Rightarrow> nat \<Rightarrow> int \<Rightarrow> bool" where
  "computes r w x \<longleftrightarrow> (case r of (res, b) \<Rightarrow> res = KEFIR_OK \<and> bi_wf b \<and> bi_bitwidth b = w \<and> uvalue b = x mod 2 ^ w)"

lemma computes_update:
  "bi_wf b \<Longrightarrow> length ds = length (bi_digits b) \<Longrightarrow> uval (bi_bitwidth b) ds = take_bit (bi_bitwidth b) x \<Longrightarrow>
     computes (KEFIR_OK, b\<lparr>bi_digits := ds\<rparr>) (bi_bitwidth b) x"
  by (simp add: computes_def bi_wf_update uvalue_def take_bit_eq_mod)

lemma computes_exact:
  "bi_wf b \<Longrightarrow> length ds = length (bi_digits b) \<Longrightarrow> uval (bi_bitwidth b) ds = x \<Longrightarrow>
     computes (KEFIR_OK, b\<lparr>bi_digits := ds\<rparr>) (bi_bitwidth b) x"
  by (rule computes_update) auto

text \<open>Concrete numbers of one digit, for the examples.\<close>

definition byte :: "8 word \<Rightarrow> bigint" where
  "byte d = \<lparr>bi_digits = [d], bi_bitwidth = 8, bi_capacity = 1\<rparr>"

lemma byte [simp]: "bi_wf (byte d)" "bi_bitwidth (byte d) = 8" "bi_digits (byte d) = [d]" "uvalue (byte d) = uint d"
proof -
  have "uint d < 2 ^ 8" using uint_lt2p [of d] by simp
  then show "uvalue (byte d) = uint d" by (simp add: uvalue_def uval_def byte_def take_bit_int_eq_self)
qed (simp_all add: byte_def bi_wf_def holds_def BITS_TO_DIGITS_def DIGIT_BIT_def)

text \<open>
  C24. The arithmetic operations are those of the integers modulo a power of two: on well-formed numbers of one
  width \<open>w\<close>, addition, subtraction and negation yield a well-formed number of width \<open>w\<close> with the exact result modulo
  \<open>2 ^ w\<close>, unsigned multiplication yields the product modulo the width of the result, whatever that is, and the Booth
  multiplication of two's complement numbers yields the signed product.
\<close>

theorem bigint_ring_operations:
  assumes "bi_wf a" "bi_wf b" "bi_wf r" "bi_wf acc" "bi_bitwidth a = w" "bi_bitwidth b = w" "bi_bitwidth acc = w" "0 < w"
  shows "computes (kefir_bigint_add a b) w (uvalue a + uvalue b) \<and>
    computes (kefir_bigint_subtract a b) w (uvalue a - uvalue b) \<and>
    computes (kefir_bigint_negate a) w (- uvalue a) \<and>
    computes (kefir_bigint_unsigned_multiply r a b) (bi_bitwidth r) (uvalue a * uvalue b) \<and>
    (bi_bitwidth r = w \<longrightarrow>
      (case kefir_bigint_signed_multiply r a b acc of (res, p, _) \<Rightarrow>
         res = KEFIR_OK \<and> uvalue p = (svalue a * svalue b) mod 2 ^ w))"
proof -
  note h = bi_wf_holds [OF assms(1), unfolded assms(5)] bi_wf_holds [OF assms(2), unfolded assms(6)]
    bi_wf_holds [OF assms(3)] bi_wf_holds [OF assms(4), unfolded assms(7)]
  have s: "case kefir_bigint_signed_multiply r a b acc of (res, p, _) \<Rightarrow> res = KEFIR_OK \<and> uvalue p = (svalue a * svalue b) mod 2 ^ w"
    if r: "bi_bitwidth r = w"
    using uval_signed_multiply [OF assms(8,8) h(3) [unfolded r] h(3) [unfolded r] h(4,1,2)] assms(5-7) r
    by (auto simp: kefir_bigint_signed_multiply_def uvalue_def svalue_def take_bit_eq_mod split: prod.split)
  show ?thesis
    using computes_update [OF assms(1), of "bigint_add (bi_digits a) (bi_digits b) w" "uvalue a + uvalue b"]
      computes_update [OF assms(1), of "bigint_subtract (bi_digits a) (bi_digits b) w" "uvalue a - uvalue b"]
      computes_update [OF assms(1), of "bigint_negate (bi_digits a) w" "- uvalue a"]
      computes_update [OF assms(3), of "bigint_unsigned_multiply (bi_digits r) (bi_digits a) (bi_digits b) (bi_bitwidth r) w" "uvalue a * uvalue b"]
      uval_add [OF h(1,2)] uval_subtract [OF h(1,2)] uval_negate [OF h(1)] uval_unsigned_multiply [OF h(3,1,2)] s assms(5,6)
    by (simp add: kefir_bigint_add_def kefir_bigint_subtract_def kefir_bigint_negate_def kefir_bigint_unsigned_multiply_def uvalue_def)
qed

theorem bigint_ring_operations_witness:
  "computes (kefir_bigint_add (byte 200) (byte 100)) 8 300 \<and> computes (kefir_bigint_subtract (byte 100) (byte 200)) 8 156"
  using bigint_ring_operations [of "byte 200" "byte 100" "byte 0" "byte 0" 8]
    bigint_ring_operations [of "byte 100" "byte 200" "byte 0" "byte 0" 8] by (simp add: computes_def split: prod.splits)

text \<open>
  C28. The digit-wise operations and the shifts implement the bitwise operations of the integers: conjunction, disjunction,
  exclusive disjunction and complement, the left shift modulo the width, the logical right shift of the unsigned number and
  the arithmetic right shift of the two's complement number, for every shift distance.
\<close>

theorem bigint_bitwise_operations:
  assumes "bi_wf a" "bi_wf b" "bi_bitwidth a = w" "bi_bitwidth b = w" "0 < w"
  shows "computes (kefir_bigint_and a b) w (uvalue a AND uvalue b) \<and>
    computes (kefir_bigint_or a b) w (uvalue a OR uvalue b) \<and>
    computes (kefir_bigint_xor a b) w (uvalue a XOR uvalue b) \<and>
    computes (kefir_bigint_invert a) w (NOT (uvalue a)) \<and>
    computes (kefir_bigint_left_shift a n) w (push_bit n (uvalue a)) \<and>
    computes (kefir_bigint_right_shift a n) w (drop_bit n (uvalue a)) \<and>
    computes (kefir_bigint_arithmetic_right_shift a n) w (drop_bit n (svalue a)) \<and>
    svalue (snd (kefir_bigint_arithmetic_right_shift a n)) = drop_bit n (svalue a)"
proof -
  note h = bi_wf_holds [OF assms(1), unfolded assms(3)] bi_wf_holds [OF assms(2), unfolded assms(4)]
  have d0: "0 < 8 * BITS_TO_DIGITS w" using digits_index(4) [OF assms(5)] by simp
  note c = computes_exact [OF assms(1), unfolded assms(3)] and m = computes_update [OF assms(1), unfolded assms(3)]
  have u: "uval w (bi_digits a) = uvalue a" "uval w (bi_digits b) = uvalue b" using assms(3,4) by (simp_all add: uvalue_def)
  have s: "sval w (bigint_arithmetic_right_shift (bi_digits a) n w) = drop_bit n (svalue a)"
    using sval_arithmetic_right_shift [OF h(1), of n] assms(3) by (simp add: svalue_def)
  have l: "length (bigint_and (bi_digits a) (bi_digits b) w) = length (bi_digits a)"
    "length (bigint_or (bi_digits a) (bi_digits b) w) = length (bi_digits a)"
    "length (bigint_xor (bi_digits a) (bi_digits b) w) = length (bi_digits a)"
    using h by (simp_all add: bigint_and_def bigint_or_def bigint_xor_def)
  have "computes (kefir_bigint_and a b) w (uvalue a AND uvalue b)" "computes (kefir_bigint_or a b) w (uvalue a OR uvalue b)"
    "computes (kefir_bigint_xor a b) w (uvalue a XOR uvalue b)" "computes (kefir_bigint_invert a) w (NOT (uvalue a))"
    using c m uval_bitwise [OF h] l assms(3,4)
    by (simp_all add: kefir_bigint_and_def kefir_bigint_or_def kefir_bigint_xor_def kefir_bigint_invert_def u)
  moreover have "computes (kefir_bigint_left_shift a n) w (push_bit n (uvalue a))"
    using m bit_left_shift(1) [OF h(1) assms(5), of n] uval_left_shift [OF h(1), of n] assms(3) by (simp add: kefir_bigint_left_shift_def u)
  moreover have "computes (kefir_bigint_right_shift a n) w (drop_bit n (uvalue a))"
    using c bit_right_shift(1) [OF h(1) assms(5) d0, of n] uval_right_shift [OF h(1) assms(5), of n] assms(3) by (simp add: kefir_bigint_right_shift_def u)
  moreover have "computes (kefir_bigint_arithmetic_right_shift a n) w (drop_bit n (svalue a))"
    using m bit_arithmetic_right_shift(1) [OF h(1) assms(5) d0, of n] take_bit_uval_sval [OF assms(5)] assms(3)
    by (simp add: kefir_bigint_arithmetic_right_shift_def s [symmetric])
  ultimately show ?thesis using s assms(3) by (simp add: kefir_bigint_arithmetic_right_shift_def svalue_def)
qed

theorem bigint_bitwise_operations_witness:
  "computes (kefir_bigint_xor (byte 0xF0) (byte 0xFF)) 8 0x0F \<and>
   svalue (snd (kefir_bigint_arithmetic_right_shift (byte 0xF0) 2)) = -4"
  using bigint_bitwise_operations [of "byte 0xF0" "byte 0xFF" 8 2]
  by (simp add: svalue_def sval_def signed_take_bit_def mask_eq_exp_minus_1)

text \<open>
  C25. Division. Unsigned division of a number of width \<open>w\<close> by a divisor other than zero and of at most
  \<open>2 ^ (w - 1)\<close> leaves quotient and remainder; for the larger divisors of the width the restoring
  division is not exact, nothing is stated of them, and the callers widen their operands. Signed division, which needs no such bound,
  truncates towards zero and gives the remainder the sign of the dividend, modulo the width. A zero divisor is
  rejected and the dividend kept.
\<close>

theorem bigint_division:
  assumes "bi_wf l" "bi_wf m" "bi_wf r" "bi_bitwidth l = w" "bi_bitwidth m = w" "bi_bitwidth r \<le> w" "0 < bi_bitwidth r"
  shows "if uvalue r = 0 then
      (case kefir_bigint_unsigned_divide l m r of (res, q, _) \<Rightarrow> res = KEFIR_INVALID_REQUEST \<and> q = l) \<and>
      kefir_bigint_signed_divide l m r = (KEFIR_INVALID_REQUEST, l, m, r)
    else
      (uvalue r \<le> 2 ^ (w - 1) \<longrightarrow>
         (case kefir_bigint_unsigned_divide l m r of (res, q, m') \<Rightarrow>
            computes (res, q) w (uvalue l div uvalue r) \<and> computes (res, m') w (uvalue l mod uvalue r) \<and>
            uvalue q = uvalue l div uvalue r \<and> uvalue m' = uvalue l mod uvalue r)) \<and>
      (case kefir_bigint_signed_divide l m r of (res, q, m', r') \<Rightarrow>
         computes (res, q) w (svalue l sdiv svalue r) \<and> computes (res, m') w (svalue l smod svalue r) \<and> bi_wf r')"
proof -
  let ?v = "bi_bitwidth r"
  note h = bi_wf_holds [OF assms(1), unfolded assms(4)] bi_wf_holds [OF assms(2), unfolded assms(5)] bi_wf_holds [OF assms(3)]
  have w: "0 < w" using assms(6,7) by simp
  show ?thesis
  proof (cases "uvalue r = 0")
    case True
    then have z: "bigint_is_zero (bi_digits r) ?v" by (simp add: is_zero_iff [OF h(3)] uvalue_def)
    then show ?thesis using True assms(4-6) w
      by (simp add: kefir_bigint_unsigned_divide_def kefir_bigint_signed_divide_def bigint_unsigned_divide_def bigint_signed_divide_def Let_def)
  next
    case False
    note lens = computes_update [OF assms(1), unfolded assms(4)] computes_update [OF assms(2), unfolded assms(5)]
    note exact = computes_exact [OF assms(1), unfolded assms(4)] computes_exact [OF assms(2), unfolded assms(5)]
    have "case kefir_bigint_unsigned_divide l m r of (res, q, m') \<Rightarrow>
        computes (res, q) w (uvalue l div uvalue r) \<and> computes (res, m') w (uvalue l mod uvalue r) \<and>
        uvalue q = uvalue l div uvalue r \<and> uvalue m' = uvalue l mod uvalue r" if "uvalue r \<le> 2 ^ (w - 1)"
      by (rule unsigned_divide [OF w assms(6) h])
        (use False that exact assms(4-6) in \<open>auto simp: kefir_bigint_unsigned_divide_def uvalue_def\<close>)
    moreover have "svalue r \<noteq> 0" using False take_bit_uval_sval [OF assms(7), of "bi_digits r"] by (auto simp: uvalue_def svalue_def)
    then have "case kefir_bigint_signed_divide l m r of (res, q, m', r') \<Rightarrow>
         computes (res, q) w (svalue l sdiv svalue r) \<and> computes (res, m') w (svalue l smod svalue r) \<and> bi_wf r'"
      unfolding svalue_def by (rule signed_divide [OF assms(7,6) h])
        (use lens assms(1-6) in \<open>auto simp: kefir_bigint_signed_divide_def bi_wf_update svalue_def\<close>)
    ultimately show ?thesis using False by simp
  qed
qed

theorem bigint_division_witness:
  "case kefir_bigint_unsigned_divide (byte 200) (byte 0) (byte 7) of (res, q, m) \<Rightarrow> uvalue q = 28 \<and> uvalue m = 4"
  using bigint_division [of "byte 200" "byte 0" "byte 7" 8] by (simp split: prod.splits)

text \<open>
  C29. Resizing a number with a cast, whatever the new memory holds: the result is a well-formed number of the requested
  width that is congruent to the number as the cast reads it, and widening keeps the number, unsigned or signed.
\<close>

theorem bigint_resize_casts:
  assumes "bi_wf b" "0 < w" "mem_total mem"
  shows "computes (kefir_bigint_resize_cast_unsigned mem b w) w (uvalue b) \<and>
    computes (kefir_bigint_resize_cast_signed mem b w) w (svalue b) \<and>
    (bi_bitwidth b \<le> w \<longrightarrow>
       uvalue (snd (kefir_bigint_resize_cast_unsigned mem b w)) = uvalue b \<and>
       svalue (snd (kefir_bigint_resize_cast_signed mem b w)) = svalue b)"
proof -
  obtain u where u: "kefir_bigint_resize_cast_unsigned mem b w = (KEFIR_OK, u)" "bi_wf u" "bi_bitwidth u = w"
    "uvalue u = take_bit w (uvalue b)" by (rule resize_cast_unsigned [OF assms])
  obtain s where s: "kefir_bigint_resize_cast_signed mem b w = (KEFIR_OK, s)" "bi_wf s" "bi_bitwidth s = w"
    "uvalue s = take_bit w (svalue b)" by (rule resize_cast_signed [OF assms])
  have "uvalue u = uvalue b" "svalue s = svalue b" if le: "bi_bitwidth b \<le> w"
  proof -
    have "(2 :: int) ^ bi_bitwidth b \<le> 2 ^ w" using le by (intro power_increasing) auto
    then have "uvalue b < 2 ^ w" using uvalue_bounds(2) [of b] by linarith
    then show "uvalue u = uvalue b" using u(4) uvalue_bounds(1) [of b] by (simp add: take_bit_int_eq_self)
    have "svalue s = signed_take_bit (w - 1) (svalue b)"
      using s(3,4) sval_uval [OF assms(2), of "bi_digits s"] signed_take_bit_cong [OF assms(2), of "uvalue s" "svalue b"]
      by (simp add: svalue_def uvalue_def)
    also have "\<dots> = svalue b"
    proof (cases "bi_bitwidth b = 0")
      case False
      have "(2 :: int) ^ (bi_bitwidth b - 1) \<le> 2 ^ (w - 1)" using le by (intro power_increasing) auto
      moreover have "- (2 ^ (bi_bitwidth b - 1)) \<le> svalue b" "svalue b < 2 ^ (bi_bitwidth b - 1)"
        using sval_range [of "bi_bitwidth b" "bi_digits b"] False by (simp_all add: svalue_def)
      ultimately show ?thesis by (intro signed_take_bit_int_eq_self) linarith+
    qed (simp add: svalue_def sval_def)
    finally show "svalue s = svalue b" .
  qed
  then show ?thesis using u s by (simp add: computes_def take_bit_eq_mod)
qed

theorem bigint_resize_casts_witness:
  "let mem = (\<lambda>_. Some (\<lambda>_. 0xAA)) in
   uvalue (snd (kefir_bigint_resize_cast_unsigned mem (byte 0xF0) 100)) = 0xF0 \<and>
   svalue (snd (kefir_bigint_resize_cast_signed mem (byte 0xF0) 100)) = -16"
proof -
  have "svalue (byte 0xF0) = -16" by (simp add: svalue_def sval_def signed_take_bit_def mask_eq_exp_minus_1)
  then show ?thesis
    using bigint_resize_casts [of "byte 0xF0" 100 "\<lambda>_. Some (\<lambda>_. 0xAA)"] by (simp add: mem_total_def)
qed

text \<open>
  C27. Native values survive the conversion: a number that is as wide as the minimal width computed for a signed or an unsigned 64-bit
  value returns that value after it has been set to it, and a bit field returns what was written to it
  without disturbing the bits around it.
\<close>

theorem bigint_native_roundtrip:
  assumes "bi_wf b" "0 < bi_bitwidth b" "off + len \<le> bi_bitwidth b"
  shows "(bigint_native_unsigned_width v \<le> bi_bitwidth b \<longrightarrow>
      kefir_bigint_get_unsigned (snd (kefir_bigint_set_unsigned_value b v)) = Inr v) \<and>
    (bigint_native_signed_width v \<le> bi_bitwidth b \<longrightarrow>
      kefir_bigint_get_signed (snd (kefir_bigint_set_signed_value b v)) = Inr v) \<and>
    kefir_bigint_get_bits (snd (kefir_bigint_set_bits b v off len)) off len = Inr (take_bit len v) \<and>
    (\<forall>k < bi_bitwidth b. \<not> (off \<le> k \<and> k < off + len) \<longrightarrow>
      bit (uvalue (snd (kefir_bigint_set_bits b v off len))) k = bit (uvalue b) k)"
proof -
  let ?w = "bi_bitwidth b" and ?ds = "bi_digits b"
  note h = bi_wf_holds [OF assms(1)]
  have keep: "holds ds ?w" if "length ds = length ?ds" for ds using h that by (simp add: holds_def)
  have mw: "uval (min ?w 64) ds = take_bit (min ?w 64) (uval ?w ds)" for ds by (simp add: uval_def)
  have u: "bigint_get_unsigned_value (bigint_set_unsigned_integer ?ds ?w v) ?w = v" if "bigint_native_unsigned_width v \<le> ?w"
  proof -
    have "uint v < 2 ^ ?w" using that native_unsigned_width [OF assms(2), of v] by simp
    moreover have "uint v < 2 ^ 64" using uint_lt2p [of v] by simp
    ultimately have "uint v < 2 ^ min ?w 64" by (simp add: min_def)
    then have "uint (bigint_get_unsigned_value (bigint_set_unsigned_integer ?ds ?w v) ?w) = uint v"
      using uint_get_unsigned [OF keep [OF uval_set_unsigned(2) [OF h]]] uval_set_unsigned(1) [OF h, of v]
      by (simp add: mw take_bit_int_eq_self)
    then show ?thesis by (simp only: word_uint_eq_iff)
  qed
  have s: "bigint_get_signed_value (bigint_set_signed_integer ?ds ?w v) ?w = v" if "bigint_native_signed_width v \<le> ?w"
  proof -
    let ?m = "min ?w 64"
    have m: "0 < ?m" using assms(2) by simp
    have "- (2 ^ (?w - 1)) \<le> sint v \<and> sint v < 2 ^ (?w - 1)"
      using that native_signed_width [of "?w - 1" v] assms(2) by simp
    moreover have "- (2 ^ 63) \<le> sint v \<and> sint v < 2 ^ 63" using sint_range_size [of v] by (simp add: word_size)
    ultimately have "- (2 ^ (?m - 1)) \<le> sint v \<and> sint v < 2 ^ (?m - 1)" by (cases "?w \<le> 64") (simp_all add: min_def)
    then have e: "signed_take_bit (?m - 1) (sint v) = sint v" by (intro signed_take_bit_int_eq_self) auto
    have "sint (bigint_get_signed_value (bigint_set_signed_integer ?ds ?w v) ?w) = sval ?m (bigint_set_signed_integer ?ds ?w v)"
      by (rule sint_get_signed [OF keep [OF uval_set_signed(2) [OF h]]])
    also have "\<dots> = signed_take_bit (?m - 1) (uval ?m (bigint_set_signed_integer ?ds ?w v))" by (rule sval_uval [OF m])
    also have "\<dots> = signed_take_bit (?m - 1) (sint v)"
      by (rule signed_take_bit_cong [OF m]) (simp add: mw uval_set_signed(1) [OF h])
    finally show ?thesis unfolding e by (rule signed_word_eqI)
  qed
  note sb = bit_set_bits [OF h, of v off len]
  have "bigint_get_bits (bigint_set_bits ?ds v off len ?w) off len ?w = take_bit len v"
    using assms(3) by (intro bit_word_eqI) (auto simp: bit_get_bits [OF keep [OF sb(1)]] sb(2) bit_take_bit_iff)
  then show ?thesis using u s sb(2)
    by (auto simp: kefir_bigint_get_unsigned_def kefir_bigint_set_unsigned_value_def kefir_bigint_get_signed_def
        kefir_bigint_set_signed_value_def kefir_bigint_get_bits_def kefir_bigint_set_bits_def uvalue_def bit_uval)
qed

theorem bigint_native_roundtrip_witness:
  "kefir_bigint_get_signed (snd (kefir_bigint_set_signed_value (byte 0) (-5))) = Inr (-5)"
proof -
  have "bigint_native_signed_width (-5) \<le> 7 + 1" using native_signed_width [of 7 "-5"] by simp
  then show ?thesis using bigint_native_roundtrip [of "byte 0" 0 0 "-5"] by simp
qed

text \<open>
  C30. Comparison and searches: the comparisons yield the sign of the difference of the unsigned and the signed numbers;
  of a nonzero number, the trailing zeros are the exponent of the largest power of two that divides it, the
  leading zeros tell the least width it fits; the redundant sign bits tell the least width a signed number fits, and the
  population count and the parity are those of the set bits.
\<close>

theorem bigint_comparison_and_searches:
  assumes "bi_wf a" "bi_wf b" "bi_bitwidth a = w" "bi_bitwidth b = w" "0 < w"
  shows "kefir_bigint_unsigned_compare a b = Inr (sgn (uvalue a - uvalue b)) \<and>
    kefir_bigint_signed_compare a b = Inr (sgn (svalue a - svalue b)) \<and>
    (uvalue a \<noteq> 0 \<longrightarrow>
      (\<exists>t z. kefir_bigint_trailing_zeros a d = Inr t \<and> kefir_bigint_least_significant_nonzero a = Inr (t + 1) \<and>
         2 ^ t dvd uvalue a \<and> odd (uvalue a div 2 ^ t) \<and>
         kefir_bigint_leading_zeros a d = Inr z \<and> z < w \<and> (\<forall>n. uvalue a < 2 ^ n \<longleftrightarrow> w - z \<le> n))) \<and>
    (uvalue a = 0 \<longrightarrow>
      kefir_bigint_trailing_zeros a d = Inr d \<and> kefir_bigint_leading_zeros a d = Inr d \<and>
      kefir_bigint_least_significant_nonzero a = Inr 0) \<and>
    (\<forall>n>0. uvalue a < 2 ^ n \<longleftrightarrow> kefir_bigint_min_unsigned_width a \<le> n) \<and>
    (\<exists>s. kefir_bigint_redundant_sign_bits a = Inr s \<and> s < w \<and>
       (\<forall>n. - (2 ^ n) \<le> svalue a \<and> svalue a < 2 ^ n \<longleftrightarrow> w - 1 - s \<le> n)) \<and>
    kefir_bigint_nonzero_count a = Inr (card {k. bit (uvalue a) k}) \<and>
    kefir_bigint_parity a = Inr (card {k. bit (uvalue a) k} mod 2)"
proof -
  note h = bi_wf_holds [OF assms(1), unfolded assms(3)] bi_wf_holds [OF assms(2), unfolded assms(4)]
  have u: "uvalue a = uval w (bi_digits a)" "svalue a = sval w (bi_digits a)" "uvalue b = uval w (bi_digits b)" "svalue b = sval w (bi_digits b)"
    using assms(3,4) by (simp_all add: uvalue_def svalue_def)
  have sg: "sint (sign_word x) = sgn x" for x by (simp add: sign_word_def sgn_if)
  have "kefir_bigint_unsigned_compare a b = Inr (sgn (uvalue a - uvalue b))" "kefir_bigint_signed_compare a b = Inr (sgn (svalue a - svalue b))"
    using assms(3,4) unsigned_compare [OF h] signed_compare [OF assms(5) h]
    by (simp_all add: kefir_bigint_unsigned_compare_def kefir_bigint_signed_compare_def u sg)
  moreover have "\<exists>t z. kefir_bigint_trailing_zeros a d = Inr t \<and> kefir_bigint_least_significant_nonzero a = Inr (t + 1) \<and>
      2 ^ t dvd uvalue a \<and> odd (uvalue a div 2 ^ t) \<and>
      kefir_bigint_leading_zeros a d = Inr z \<and> z < w \<and> (\<forall>n. uvalue a < 2 ^ n \<longleftrightarrow> w - z \<le> n)" if "uvalue a \<noteq> 0"
    using trailing_zeros [OF h(1), of d] leading_zeros [OF h(1), where dflt = d] that unfolding u(1)
    by (intro exI conjI allI) (auto simp: kefir_bigint_trailing_zeros_def kefir_bigint_least_significant_nonzero_def
        kefir_bigint_leading_zeros_def assms(3))
  moreover have "kefir_bigint_trailing_zeros a d = Inr d \<and> kefir_bigint_leading_zeros a d = Inr d \<and>
      kefir_bigint_least_significant_nonzero a = Inr 0" if "uvalue a = 0"
    using searches_zero(1,2) [OF h(1), where dflt = d] searches_zero(3) [OF h(1)] that unfolding u(1)
    by (simp add: kefir_bigint_trailing_zeros_def kefir_bigint_least_significant_nonzero_def kefir_bigint_leading_zeros_def assms(3))
  moreover have "\<forall>n>0. uvalue a < 2 ^ n \<longleftrightarrow> kefir_bigint_min_unsigned_width a \<le> n"
    using min_unsigned_width [OF h(1) assms(5)] by (simp add: kefir_bigint_min_unsigned_width_def u assms(3))
  moreover have "\<exists>s. kefir_bigint_redundant_sign_bits a = Inr s \<and> s < w \<and>
      (\<forall>n. - (2 ^ n) \<le> svalue a \<and> svalue a < 2 ^ n \<longleftrightarrow> w - 1 - s \<le> n)"
    using redundant_sign_bits [OF h(1) assms(5)] by (simp add: kefir_bigint_redundant_sign_bits_def u assms(3))
  moreover have "kefir_bigint_nonzero_count a = Inr (card {k. bit (uvalue a) k})" "kefir_bigint_parity a = Inr (card {k. bit (uvalue a) k} mod 2)"
    using nonzero_count [OF h(1)] by (simp_all add: kefir_bigint_nonzero_count_def kefir_bigint_parity_def bigint_parity_def u assms(3))
  ultimately show ?thesis by blast
qed

theorem bigint_comparison_and_searches_witness:
  "kefir_bigint_unsigned_compare (byte 200) (byte 100) = Inr 1 \<and>
   (\<exists>t. kefir_bigint_trailing_zeros (byte 200) 0 = Inr t \<and> 2 ^ t dvd (200 :: int) \<and> odd (200 div 2 ^ t :: int))"
  using bigint_comparison_and_searches [of "byte 200" "byte 100" 8 0] by auto

text \<open>
  C26. Printing and reading back: every number of positive width is formatted, in the bases 2, 8, 10 and 16, as a
  terminated string without leading zeros that fits the buffer allocated for it, and parsing that string
  into any number yields the formatted number again.
\<close>

definition canonical :: "string \<Rightarrow> bool" where
  "canonical s \<longleftrightarrow> s \<noteq> [] \<and> last s = NUL \<and> butlast s \<noteq> [] \<and> (hd s = CHR ''0'' \<longrightarrow> s = [CHR ''0'', NUL])"

definition reads :: "kefir_result \<times> bigint \<Rightarrow> int \<Rightarrow> bool" where
  "reads r x \<longleftrightarrow> (case r of (res, b) \<Rightarrow> res = KEFIR_OK \<and> bi_wf b \<and> uvalue b = x)"

lemma canonicalI: "s \<noteq> [] \<Longrightarrow> (hd s = CHR ''0'' \<longrightarrow> s = ''0'') \<Longrightarrow> canonical (s @ [NUL])"
  by (cases s) (auto simp: canonical_def)

theorem bigint_text_roundtrip:
  assumes "bi_wf b" "0 < bi_bitwidth b" "bi_wf c" "mem_total mem"
  shows "(\<exists>s. kefir_bigint_unsigned_format2 mem b = Inr s \<and> canonical s \<and> reads (kefir_bigint_unsigned_parse2 mem c s (length s)) (uvalue b)) \<and>
    (\<exists>s. kefir_bigint_unsigned_format8 mem b = Inr s \<and> canonical s \<and> reads (kefir_bigint_unsigned_parse8 mem c s (length s)) (uvalue b)) \<and>
    (\<exists>s. kefir_bigint_unsigned_format16 mem b = Inr s \<and> canonical s \<and> reads (kefir_bigint_unsigned_parse16 mem c s (length s)) (uvalue b)) \<and>
    (\<exists>b' s. kefir_bigint_unsigned_format10 mem b = (KEFIR_OK, b', s) \<and> bi_wf b' \<and> bi_bitwidth b' = bi_bitwidth b \<and> canonical s \<and>
       reads (kefir_bigint_unsigned_parse10 mem c s (length s)) (uvalue b))"
proof -
  obtain b' s where f: "kefir_bigint_unsigned_format10 mem b = (KEFIR_OK, b', s @ [NUL])"
    "bi_wf b'" "bi_bitwidth b' = bi_bitwidth b" "s \<noteq> []" "\<And>c. c \<in> set s \<Longrightarrow> decimal_digit c"
    "number 10 decimal_value s = uvalue b" "hd s = CHR ''0'' \<Longrightarrow> s = ''0''"
    by (rule format10 [OF assms(1,2,4)]) blast
  have "reads (kefir_bigint_unsigned_parse10 mem c (s @ [NUL]) (length (s @ [NUL]))) (uvalue b)"
    by (rule parse10 [OF f(5) assms(3,4), where n = "length (s @ [NUL])" and t = "[]"]) (auto simp: reads_def f(6))
  then have ten: "\<exists>b' s. kefir_bigint_unsigned_format10 mem b = (KEFIR_OK, b', s) \<and> bi_wf b' \<and> bi_bitwidth b' = bi_bitwidth b \<and>
      canonical s \<and> reads (kefir_bigint_unsigned_parse10 mem c s (length s)) (uvalue b)"
    using f(1-4,7) canonicalI by blast
  note p = parse_2_8_16 [OF assms(3,4), where t = "[]"] and g = format_2_8_16 [OF assms(1,2,4)]
  have "\<exists>s. kefir_bigint_unsigned_format2 mem b = Inr s \<and> canonical s \<and> reads (kefir_bigint_unsigned_parse2 mem c s (length s)) (uvalue b)"
  proof -
    obtain s where s: "kefir_bigint_unsigned_format2 mem b = Inr (s @ [NUL])" "s \<noteq> []" "\<forall>c \<in> set s. digit_of2 c \<noteq> None"
      "number 2 (digit_value digit_of2) s = uvalue b" "hd s = CHR ''0'' \<longrightarrow> s = ''0''" using g(1) by blast
    then show ?thesis using p(1) [OF s(2) _ s(3), of "length (s @ [NUL])"] canonicalI [OF s(2,5)]
      by (intro exI [of _ "s @ [NUL]"]) (auto simp: reads_def)
  qed
  moreover have "\<exists>s. kefir_bigint_unsigned_format8 mem b = Inr s \<and> canonical s \<and> reads (kefir_bigint_unsigned_parse8 mem c s (length s)) (uvalue b)"
  proof -
    obtain s where s: "kefir_bigint_unsigned_format8 mem b = Inr (s @ [NUL])" "s \<noteq> []" "\<forall>c \<in> set s. digit_of8 c \<noteq> None"
      "number 8 (digit_value digit_of8) s = uvalue b" "hd s = CHR ''0'' \<longrightarrow> s = ''0''" using g(2) by blast
    then show ?thesis using p(2) [OF s(2) _ s(3), of "length (s @ [NUL])"] canonicalI [OF s(2,5)]
      by (intro exI [of _ "s @ [NUL]"]) (auto simp: reads_def)
  qed
  moreover have "\<exists>s. kefir_bigint_unsigned_format16 mem b = Inr s \<and> canonical s \<and> reads (kefir_bigint_unsigned_parse16 mem c s (length s)) (uvalue b)"
  proof -
    obtain s where s: "kefir_bigint_unsigned_format16 mem b = Inr (s @ [NUL])" "s \<noteq> []" "\<forall>c \<in> set s. digit_of16 c \<noteq> None"
      "number 16 (digit_value digit_of16) s = uvalue b" "hd s = CHR ''0'' \<longrightarrow> s = ''0''" using g(3) by blast
    then show ?thesis using p(3) [OF s(2) _ s(3), of "length (s @ [NUL])"] canonicalI [OF s(2,5)]
      by (intro exI [of _ "s @ [NUL]"]) (auto simp: reads_def)
  qed
  ultimately show ?thesis using ten by blast
qed

theorem bigint_text_roundtrip_witness:
  "\<exists>s. kefir_bigint_unsigned_format16 (\<lambda>_. Some (\<lambda>_. 0)) (byte 0xAB) = Inr s \<and>
     reads (kefir_bigint_unsigned_parse16 (\<lambda>_. Some (\<lambda>_. 0)) kefir_bigint_init s (length s)) 0xAB"
  using bigint_text_roundtrip [of "byte 0xAB" kefir_bigint_init "\<lambda>_. Some (\<lambda>_. 0)"] by (auto simp: mem_total_def)

end
