(* ===== verification/Kefir_Opt_Lists.thy ===== *)
theory Kefir_Opt_Lists
  imports Kefir_Prelude
begin

text \<open>
  Doubly linked lists that run through an array of nodes, as the optimizer keeps them for the
  instructions, the control flow, the phi, the call and the inline assembly nodes of a block: a
  head and a tail in the block, a previous and a next reference in every node. The predicate
  \<open>chain\<close> relates the links to the list of the nodes they string together; the locale
  \<open>sibling_list\<close> is the contract of unlinking a node, with the list operation it implements.
\<close>

section \<open>Chains\<close>

fun linked :: "(nat \<Rightarrow> nat option) \<Rightarrow> (nat \<Rightarrow> nat option) \<Rightarrow> nat option \<Rightarrow> nat list \<Rightarrow> nat option \<Rightarrow> bool" where
  "linked prv nxt p [] n = True"
| "linked prv nxt p (x # xs) n \<longleftrightarrow>
     prv x = p \<and> nxt x = (case xs of [] \<Rightarrow> n | y # _ \<Rightarrow> Some y) \<and> linked prv nxt (Some x) xs n"

definition first :: "nat option \<Rightarrow> nat list \<Rightarrow> nat option" where
  "first d xs = (case xs of [] \<Rightarrow> d | x # _ \<Rightarrow> Some x)"

definition final :: "nat option \<Rightarrow> nat list \<Rightarrow> nat option" where
  "final d xs = (if xs = [] then d else Some (last xs))"

lemma first_simps [simp]: "first d [] = d" "first d (x # xs) = Some x" "first d (xs @ ys) = first (first d ys) xs"
  by (auto simp: first_def split: list.splits)

lemma final_simps [simp]: "final d [] = d" "final d (x # xs) = final (Some x) xs"
  "final d (xs @ ys) = final (final d xs) ys"
  by (auto simp: final_def)

lemma first_None_iff [simp]: "first None xs = None \<longleftrightarrow> xs = []"
  by (cases xs) auto

lemma final_None_iff [simp]: "final None xs = None \<longleftrightarrow> xs = []"
  by (simp add: final_def)

lemma first_in_set: "first None xs = Some i \<Longrightarrow> i \<in> set xs"
  by (cases xs) auto

lemma final_in_set: "final None xs = Some i \<Longrightarrow> i \<in> set xs"
  by (auto simp: final_def split: if_splits)

lemma linked_Cons: "linked prv nxt p (x # xs) n \<longleftrightarrow>
    prv x = p \<and> nxt x = first n xs \<and> linked prv nxt (Some x) xs n"
  by (simp add: first_def)

declare linked.simps(2) [simp del]
declare linked_Cons [simp]

lemma linked_append [simp]:
  "linked prv nxt p (xs @ ys) n \<longleftrightarrow> linked prv nxt p xs (first n ys) \<and> linked prv nxt (final p xs) ys n"
  by (induction xs arbitrary: p) auto

lemma linked_cong:
  assumes "\<And>x. x \<in> set xs \<Longrightarrow> prv x = prv' x" "\<And>x. x \<in> set xs \<Longrightarrow> nxt x = nxt' x"
  shows "linked prv nxt p xs n \<longleftrightarrow> linked prv' nxt' p xs n"
  using assms by (induction xs arbitrary: p) auto

definition chain :: "(nat \<Rightarrow> nat option) \<Rightarrow> (nat \<Rightarrow> nat option) \<Rightarrow> nat option \<Rightarrow> nat option \<Rightarrow> nat list \<Rightarrow> bool" where
  "chain prv nxt h t xs \<longleftrightarrow>
     distinct xs \<and> h = first None xs \<and> t = final None xs \<and> linked prv nxt None xs None"

lemma chain_Nil [simp]: "chain prv nxt h t [] \<longleftrightarrow> h = None \<and> t = None"
  by (simp add: chain_def)

lemma chain_cong:
  assumes "\<And>x. x \<in> set xs \<Longrightarrow> prv x = prv' x" "\<And>x. x \<in> set xs \<Longrightarrow> nxt x = nxt' x"
  shows "chain prv nxt h t xs \<longleftrightarrow> chain prv' nxt' h t xs"
  unfolding chain_def using linked_cong [of xs prv prv' nxt nxt', OF assms] by blast

text \<open>The neighbours of a node are nodes of the list.\<close>

lemma chain_split:
  assumes "chain prv nxt h t xs" "i \<in> set xs"
  obtains ys zs where "xs = ys @ i # zs" "i \<notin> set ys" "i \<notin> set zs" "set ys \<inter> set zs = {}"
    "distinct ys" "distinct zs" "prv i = final None ys" "nxt i = first None zs"
proof -
  obtain ys zs where "xs = ys @ i # zs"
    using assms(2) by (meson split_list)
  with assms(1) that show ?thesis
    by (auto simp: chain_def)
qed

lemma chain_prv_in: "chain prv nxt h t xs \<Longrightarrow> i \<in> set xs \<Longrightarrow> prv i = Some j \<Longrightarrow> j \<in> set xs"
  by (erule (1) chain_split) (auto dest: final_in_set)

lemma chain_nxt_in: "chain prv nxt h t xs \<Longrightarrow> i \<in> set xs \<Longrightarrow> nxt i = Some j \<Longrightarrow> j \<in> set xs"
  by (erule (1) chain_split) (auto dest: first_in_set)

text \<open>A node with no neighbour is the only one.\<close>

lemma chain_isolated:
  assumes "chain prv nxt h t xs" "i \<in> set xs" "prv i = None" "nxt i = None"
  shows "xs = [i]"
  using assms by (elim chain_split) auto

lemma chain_tail_nxt: "chain prv nxt h (Some t) xs \<Longrightarrow> nxt t = None"
  by (cases xs rule: rev_cases) (auto simp: chain_def)

lemma chain_head_prv: "chain prv nxt (Some h) t xs \<Longrightarrow> prv h = None"
  by (cases xs) (auto simp: chain_def)

lemma linked_nxt_final:
  assumes "linked prv nxt p xs n" "distinct xs" "xs \<noteq> []"
  shows "linked prv (nxt(last xs := m)) p xs m"
proof -
  have x: "xs = butlast xs @ [last xs]"
    using assms(3) by simp
  have d: "last xs \<notin> set (butlast xs)"
    by (metis assms(2) distinct_append distinct.simps(2) list.set_intros(1) not_distinct_conv_prefix x)
  have "linked prv nxt p (butlast xs @ [last xs]) n"
    using assms(1) x by simp
  moreover have "linked prv (nxt(last xs := m)) p (butlast xs) q = linked prv nxt p (butlast xs) q" for q
    by (rule linked_cong) (use d in auto)
  ultimately have "linked prv (nxt(last xs := m)) p (butlast xs @ [last xs]) m"
    by auto
  then show ?thesis
    using x by simp
qed

text \<open>Appending a node, as the code does for a new instruction or node.\<close>

lemma chain_append:
  assumes c: "chain prv nxt h t xs" and i: "i \<notin> set xs"
    and p: "prv' i = t" "nxt' i = None"
    and prv': "\<And>j. j \<in> set xs \<Longrightarrow> prv' j = prv j"
    and nxt': "\<And>j. j \<in> set xs \<Longrightarrow> nxt' j = (if t = Some j then Some i else nxt j)"
    and h': "h' = (if t = None then Some i else h)"
  shows "chain prv' nxt' h' (Some i) (xs @ [i])"
proof (cases "xs = []")
  case True
  then show ?thesis
    using assms by (simp add: chain_def)
next
  case False
  have t: "t = Some (last xs)"
    using c False by (simp add: chain_def final_def)
  have "linked prv (nxt(last xs := Some i)) None xs (Some i)"
    using c False by (intro linked_nxt_final) (auto simp: chain_def)
  moreover have "linked prv' nxt' None xs (Some i) \<longleftrightarrow> linked prv (nxt(last xs := Some i)) None xs (Some i)"
    by (rule linked_cong) (use prv' nxt' t in auto)
  ultimately show ?thesis
    using c i p h' t False by (auto simp: chain_def final_def first_def split: list.splits)
qed

text \<open>Inserting a node after another one, or in front of all.\<close>

lemma chain_insert_after:
  assumes c: "chain prv nxt h t (ys @ a # zs)" and i: "i \<notin> set (ys @ a # zs)"
    and p: "prv' i = Some a" "nxt' i = nxt a" "nxt' a = Some i" "prv' a = prv a"
    and prv': "\<And>j. j \<in> set (ys @ zs) \<Longrightarrow> prv' j = (if nxt a = Some j then Some i else prv j)"
    and nxt': "\<And>j. j \<in> set (ys @ zs) \<Longrightarrow> nxt' j = nxt j"
    and t': "t' = (if t = Some a then Some i else t)"
  shows "chain prv' nxt' h t' (ys @ a # i # zs)"
proof -
  have d: "distinct (ys @ a # zs)" and nz: "nxt a = first None zs"
    using c by (auto simp: chain_def)
  have y: "linked prv' nxt' None ys (Some a) \<longleftrightarrow> linked prv nxt None ys (Some a)"
    by (rule linked_cong) (use prv' nxt' nz d in \<open>auto dest: first_in_set\<close>)
  have z: "linked prv' nxt' (Some i) zs None" if "linked prv nxt (Some a) zs None"
  proof (cases zs)
    case (Cons z zs')
    have "linked prv' nxt' (Some z) zs' None \<longleftrightarrow> linked prv nxt (Some z) zs' None"
      by (rule linked_cong) (use prv' nxt' nz d Cons in auto)
    then show ?thesis
      using that Cons prv' nxt' nz by auto
  qed simp
  show ?thesis
    using c i p y z t' d by (auto simp: chain_def final_def)
qed

lemma chain_insert_head:
  assumes c: "chain prv nxt h t xs" and i: "i \<notin> set xs"
    and p: "prv' i = None" "nxt' i = h"
    and prv': "\<And>j. j \<in> set xs \<Longrightarrow> prv' j = (if h = Some j then Some i else prv j)"
    and nxt': "\<And>j. j \<in> set xs \<Longrightarrow> nxt' j = nxt j"
    and t': "t' = (if t = None then Some i else t)"
  shows "chain prv' nxt' (Some i) t' (i # xs)"
proof (cases xs)
  case Nil
  then show ?thesis
    using assms by (simp add: chain_def)
next
  case (Cons x xs')
  have "linked prv' nxt' (Some x) xs' None \<longleftrightarrow> linked prv nxt (Some x) xs' None"
    by (rule linked_cong) (use prv' nxt' c Cons in \<open>auto simp: chain_def\<close>)
  then show ?thesis
    using c i p prv' nxt' t' Cons by (auto simp: chain_def final_def)
qed

text \<open>Removing a node.\<close>

lemma chain_remove:
  assumes c: "chain prv nxt h t xs" and i: "i \<in> set xs"
    and prv': "\<And>j. j \<in> set xs \<Longrightarrow> j \<noteq> i \<Longrightarrow> prv' j = (if nxt i = Some j then prv i else prv j)"
    and nxt': "\<And>j. j \<in> set xs \<Longrightarrow> j \<noteq> i \<Longrightarrow> nxt' j = (if prv i = Some j then nxt i else nxt j)"
    and h': "h' = (if h = Some i then nxt i else h)" and t': "t' = (if t = Some i then prv i else t)"
  shows "chain prv' nxt' h' t' (removeAll i xs)"
proof -
  obtain ys zs where x: "xs = ys @ i # zs" "i \<notin> set ys" "i \<notin> set zs" "set ys \<inter> set zs = {}"
      "distinct ys" "distinct zs" "prv i = final None ys" "nxt i = first None zs"
    using c i by (rule chain_split)
  have l: "linked prv nxt None ys (Some i)" "linked prv nxt (Some i) zs None"
    using c x by (auto simp: chain_def)
  have y: "linked prv' nxt' None ys (first None zs)"
  proof (cases "ys = []")
    case False
    have "linked prv (nxt(last ys := first None zs)) None ys (first None zs)"
      using l(1) x(5) False by (rule linked_nxt_final)
    moreover have "prv' j = prv j" "nxt' j = (nxt(last ys := first None zs)) j" if "j \<in> set ys" for j
    proof -
      have j: "j \<in> set xs" "j \<noteq> i" "nxt i \<noteq> Some j"
        using that x first_in_set by auto
      then show "prv' j = prv j"
        using prv' by simp
      show "nxt' j = (nxt(last ys := first None zs)) j"
        using nxt' [OF j(1,2)] x(7,8) False by (auto simp: final_def)
    qed
    then have "linked prv' nxt' None ys (first None zs) \<longleftrightarrow>
        linked prv (nxt(last ys := first None zs)) None ys (first None zs)"
      by (intro linked_cong) auto
    ultimately show ?thesis by blast
  qed simp
  have z: "linked prv' nxt' (final None ys) zs None"
  proof (cases zs)
    case (Cons z zs')
    have nz: "final None ys \<noteq> Some j" if "j \<in> set zs" for j
      using that x(4) final_in_set by blast
    have ji: "j \<in> set xs" "j \<noteq> i" if "j \<in> set zs" for j
      using that x(1,3) by auto
    have nx: "nxt' j = nxt j" if "j \<in> set zs" for j
      using nxt' [OF ji [OF that]] nz [OF that] x(7) by simp
    have pz: "prv' j = (if j = z then final None ys else prv j)" if "j \<in> set zs" for j
      using prv' [OF ji [OF that]] x(7,8) Cons by auto
    have "prv' j = prv j" "nxt' j = nxt j" if "j \<in> set zs'" for j
      using that nx [of j] pz [of j] x(6) Cons by auto
    then have "linked prv' nxt' (Some z) zs' None \<longleftrightarrow> linked prv nxt (Some z) zs' None"
      by (intro linked_cong) auto
    then show ?thesis
      using l(2) Cons nx [of z] pz [of z] by simp
  qed simp
  have r: "removeAll i xs = ys @ zs"
    using x by simp
  have "h = first (Some i) ys" "t = final (Some i) zs"
    using c x(1) by (auto simp: chain_def)
  then have "h' = first (first None zs) ys" "t' = final (final None ys) zs"
    using h' t' x by (auto simp: final_def first_def split: list.splits dest: last_in_set)
  then show ?thesis
    using x y z unfolding r chain_def by auto
qed

section \<open>Unlinking\<close>

text \<open>
  What unlinking a node does to the links, when the node and its neighbours are alive: the
  contract that every list of the optimizer meets.
\<close>

locale sibling_list =
  fixes head tail prv nxt :: "'c \<Rightarrow> nat \<Rightarrow> nat option"
    and block_exists alive :: "'c \<Rightarrow> nat \<Rightarrow> bool"
    and unlink :: "'c \<Rightarrow> nat \<Rightarrow> nat \<Rightarrow> 'c result"
  assumes unlink_links:
    "block_exists c b \<Longrightarrow> alive c i \<Longrightarrow>
     (\<forall>j. prv c i = Some j \<or> nxt c i = Some j \<longrightarrow> alive c j \<and> j \<noteq> i) \<Longrightarrow>
     \<exists>c'. unlink c b i = Inr c' \<and>
       head c' = (head c)(b := if head c b = Some i then nxt c i else head c b) \<and>
       tail c' = (tail c)(b := if tail c b = Some i then prv c i else tail c b) \<and>
       (\<forall>j. prv c' j = (if j = i then None else if nxt c i = Some j then prv c i else prv c j)) \<and>
       (\<forall>j. nxt c' j = (if j = i then None else if prv c i = Some j then nxt c i else nxt c j))"
begin

definition chained :: "'c \<Rightarrow> nat \<Rightarrow> nat list \<Rightarrow> bool" where
  "chained c b xs \<longleftrightarrow> chain (prv c) (nxt c) (head c b) (tail c b) xs"

lemma chained_neighbours:
  assumes "chained c b xs" "i \<in> set xs" "prv c i = Some j \<or> nxt c i = Some j"
  shows "j \<in> set xs \<and> j \<noteq> i"
proof -
  from assms(1,2) have "chain (prv c) (nxt c) (head c b) (tail c b) xs" "i \<in> set xs"
    by (auto simp: chained_def)
  then obtain ys zs where "xs = ys @ i # zs" "i \<notin> set ys" "i \<notin> set zs"
      "prv c i = final None ys" "nxt c i = first None zs"
    by (rule chain_split)
  with assms(3) show ?thesis
    by (auto dest: first_in_set final_in_set)
qed

lemma unlink_chained:
  assumes "chained c b xs" "i \<in> set xs" "block_exists c b" "\<forall>j\<in>set xs. alive c j"
  shows "\<exists>c'. unlink c b i = Inr c' \<and> chained c' b (removeAll i xs) \<and> prv c' i = None \<and> nxt c' i = None \<and>
    (\<forall>b' ys. b' \<noteq> b \<longrightarrow> set ys \<inter> set xs = {} \<longrightarrow> chained c b' ys \<longrightarrow> chained c' b' ys) \<and>
    (\<forall>j. j \<notin> set xs \<longrightarrow> prv c' j = prv c j \<and> nxt c' j = nxt c j) \<and>
    (\<forall>b'. b' \<noteq> b \<longrightarrow> head c' b' = head c b' \<and> tail c' b' = tail c b')"
proof -
  have nb: "\<forall>j. prv c i = Some j \<or> nxt c i = Some j \<longrightarrow> alive c j \<and> j \<noteq> i"
    using chained_neighbours [OF assms(1,2)] assms(4) by blast
  obtain c' where c': "unlink c b i = Inr c'"
      "head c' = (head c)(b := if head c b = Some i then nxt c i else head c b)"
      "tail c' = (tail c)(b := if tail c b = Some i then prv c i else tail c b)"
      and p: "\<And>j. prv c' j = (if j = i then None else if nxt c i = Some j then prv c i else prv c j)"
      and n: "\<And>j. nxt c' j = (if j = i then None else if prv c i = Some j then nxt c i else nxt c j)"
    using unlink_links [OF assms(3) _ nb] assms(2,4) by blast
  have "chained c' b (removeAll i xs)"
    using assms(1,2) unfolding chained_def by (rule chain_remove) (auto simp: c' p n)
  moreover have out: "prv c' j = prv c j \<and> nxt c' j = nxt c j" if "j \<notin> set xs" for j
    using that assms(2) chained_neighbours [OF assms(1,2), of j] by (auto simp: p n)
  moreover have "chained c' b' ys" if "b' \<noteq> b" "set ys \<inter> set xs = {}" "chained c b' ys" for b' ys
  proof -
    have "chain (prv c') (nxt c') h t ys \<longleftrightarrow> chain (prv c) (nxt c) h t ys" for h t
      using that(2) out by (intro chain_cong) blast+
    then show ?thesis
      using that by (simp add: chained_def c')
  qed
  ultimately show ?thesis
    using c' by (intro exI [of _ c']) (auto simp: p n)
qed

end

end
