(* ===== verification/Kefir_Opt_Code.thy ===== *)
theory Kefir_Opt_Code
  imports Kefir_Prelude
begin

text \<open>
  The code of a function in the optimizer, \<^verbatim>\<open>source/optimizer/code.c\<close>: an array of instructions in
  static single assignment form, an array of blocks, and the tables of phi, call and inline
  assembly nodes. An instruction is a member of up to two doubly linked lists that run through
  the array: the contents of its block (\<^verbatim>\<open>siblings\<close>) and, when its evaluation is ordered, the
  control flow of the block. Every instruction keeps the set of the instructions that use it.

  References are indices, with \<open>None\<close> for \<^verbatim>\<open>KEFIR_ID_NONE\<close>. The sets of users, the links of a phi
  node and the jump targets are the lists of the keys of the trees that hold them, in ascending
  order, which is the order of the iterators. Opcodes that differ only in their width share a
  constructor; the opcodes that no modelled pass looks at are \<open>OPC_OTHER\<close>, with their operand
  class and their name. Allocation does not fail, there is no event listener, and the container
  is not used after an operation on it failed.
\<close>

section \<open>Opcodes and operations\<close>

datatype opt_width = W8 | W16 | W32 | W64

fun width_bits :: "opt_width \<Rightarrow> nat" where
  "width_bits W8 = 8"
| "width_bits W16 = 16"
| "width_bits W32 = 32"
| "width_bits W64 = 64"

datatype int_relation =
    CMP_EQUALS | CMP_NOT_EQUALS
  | CMP_GREATER | CMP_GREATER_OR_EQUALS | CMP_LESSER | CMP_LESSER_OR_EQUALS
  | CMP_ABOVE | CMP_ABOVE_OR_EQUALS | CMP_BELOW | CMP_BELOW_OR_EQUALS

datatype float_relation =
    CMP_FLOAT_EQUAL | CMP_FLOAT_NOT_EQUAL
  | CMP_FLOAT_GREATER | CMP_FLOAT_GREATER_OR_EQUAL | CMP_FLOAT_LESSER | CMP_FLOAT_LESSER_OR_EQUAL
  | CMP_FLOAT_NOT_GREATER | CMP_FLOAT_NOT_GREATER_OR_EQUAL
  | CMP_FLOAT_NOT_LESSER | CMP_FLOAT_NOT_LESSER_OR_EQUAL

datatype float_format = FLOAT32 | FLOAT64

datatype opt_comparison = COMPARISON_INT opt_width int_relation | COMPARISON_FLOAT float_format float_relation

datatype int_binary =
    INT_ADD | INT_SUB | INT_MUL | UINT_MUL | INT_DIV | INT_MOD | UINT_DIV | UINT_MOD
  | INT_AND | INT_OR | INT_XOR | INT_LSHIFT | INT_RSHIFT | INT_ARSHIFT
  | INT_BOOL_OR | INT_BOOL_AND

datatype int_unary = INT_NOT | INT_NEG | INT_BOOL_NOT | INT_TO_BOOL

datatype opcode_class =
    Class_none | Class_ref1 | Class_ref2 | Class_ref3_cond | Class_ref4_compare | Class_compare_ref2
  | Class_typed_ref2 | Class_branch | Class_branch_compare | Class_immediate | Class_index
  | Class_variable | Class_localvar | Class_load_mem | Class_store_mem | Class_bitfield
  | Class_stack_alloc | Class_tmpobj | Class_call_ref | Class_phi_ref | Class_inline_asm
  | Class_overflow_arith | Class_atomic_op | Class_ref_offset | Class_ref_index2
  | Class_bitint_ref1 | Class_bitint_ref2 | Class_bitint2_ref1 | Class_bitint_load
  | Class_bitint_store | Class_bitint_atomic | Class_bitint_bitfield

datatype opt_opcode =
    OPC_PHI | OPC_INLINE_ASSEMBLY
  | OPC_JUMP | OPC_IJUMP | OPC_BRANCH | OPC_BRANCH_COMPARE | OPC_RETURN | OPC_UNREACHABLE
  | OPC_INVOKE | OPC_INVOKE_VIRTUAL | OPC_TAIL_INVOKE | OPC_TAIL_INVOKE_VIRTUAL
  | OPC_SELECT | OPC_SELECT_COMPARE
  | OPC_INT_CONST | OPC_UINT_CONST | OPC_BLOCK_LABEL | OPC_INT_PLACEHOLDER
  | OPC_INT int_binary opt_width
  | OPC_INT_UNARY int_unary opt_width
  | OPC_INT64_ZERO_EXTEND opt_width
  | OPC_INT64_SIGN_EXTEND opt_width
  | OPC_SCALAR_COMPARE
  | OPC_BITS_EXTRACT_SIGNED | OPC_BITS_EXTRACT_UNSIGNED | OPC_BITS_INSERT
  | OPC_BITINT_ATOMIC_LOAD | OPC_BITINT_ATOMIC_STORE | OPC_BITINT_ATOMIC_COMPARE_EXCHANGE
  | OPC_BITINT_INSERT
  | OPC_OTHER opcode_class string

fun opcode_class_of :: "opt_opcode \<Rightarrow> opcode_class" where
  "opcode_class_of OPC_PHI = Class_phi_ref"
| "opcode_class_of OPC_INLINE_ASSEMBLY = Class_inline_asm"
| "opcode_class_of OPC_JUMP = Class_branch"
| "opcode_class_of OPC_IJUMP = Class_branch"
| "opcode_class_of OPC_BRANCH = Class_branch"
| "opcode_class_of OPC_BRANCH_COMPARE = Class_branch_compare"
| "opcode_class_of OPC_RETURN = Class_ref1"
| "opcode_class_of OPC_UNREACHABLE = Class_none"
| "opcode_class_of OPC_INVOKE = Class_call_ref"
| "opcode_class_of OPC_INVOKE_VIRTUAL = Class_call_ref"
| "opcode_class_of OPC_TAIL_INVOKE = Class_call_ref"
| "opcode_class_of OPC_TAIL_INVOKE_VIRTUAL = Class_call_ref"
| "opcode_class_of OPC_SELECT = Class_ref3_cond"
| "opcode_class_of OPC_SELECT_COMPARE = Class_ref4_compare"
| "opcode_class_of OPC_INT_CONST = Class_immediate"
| "opcode_class_of OPC_UINT_CONST = Class_immediate"
| "opcode_class_of OPC_BLOCK_LABEL = Class_immediate"
| "opcode_class_of OPC_INT_PLACEHOLDER = Class_none"
| "opcode_class_of (OPC_INT _ _) = Class_ref2"
| "opcode_class_of (OPC_INT_UNARY _ _) = Class_ref1"
| "opcode_class_of (OPC_INT64_ZERO_EXTEND _) = Class_ref1"
| "opcode_class_of (OPC_INT64_SIGN_EXTEND _) = Class_ref1"
| "opcode_class_of OPC_SCALAR_COMPARE = Class_compare_ref2"
| "opcode_class_of OPC_BITS_EXTRACT_SIGNED = Class_bitfield"
| "opcode_class_of OPC_BITS_EXTRACT_UNSIGNED = Class_bitfield"
| "opcode_class_of OPC_BITS_INSERT = Class_bitfield"
| "opcode_class_of OPC_BITINT_ATOMIC_LOAD = Class_bitint_atomic"
| "opcode_class_of OPC_BITINT_ATOMIC_STORE = Class_bitint_atomic"
| "opcode_class_of OPC_BITINT_ATOMIC_COMPARE_EXCHANGE = Class_bitint_atomic"
| "opcode_class_of OPC_BITINT_INSERT = Class_bitint_bitfield"
| "opcode_class_of (OPC_OTHER cls _) = cls"

type_synonym ref = "nat option"

abbreviation KEFIR_ID_NONE :: ref where
  "KEFIR_ID_NONE \<equiv> None"

text \<open>The number a reference is as an entry of a set: \<^verbatim>\<open>KEFIR_ID_NONE\<close> is the largest identifier.\<close>

definition ref_id :: "ref \<Rightarrow> nat" where
  "ref_id r = (case r of None \<Rightarrow> 2 ^ 64 - 1 | Some i \<Rightarrow> i)"

lemma ref_id_Some [simp]: "ref_id (Some i) = i"
  by (simp add: ref_id_def)

datatype branch_condition_variant =
    CONDITION opt_width | CONDITION_NEGATED opt_width

record opt_operation =
  opcode :: opt_opcode
  refs :: "ref list"
  phi_ref :: ref
  inline_asm_ref :: ref
  call_ref :: ref
  indirect_ref :: ref
  target_block :: ref
  alternative_block :: ref
  condition_variant :: branch_condition_variant
  condition_ref :: ref
  comparison :: opt_comparison
  imm :: "64 word"
  block_ref :: ref
  bitfield_offset :: nat
  bitfield_length :: nat

text \<open>The members a designated initialiser leaves out are zero.\<close>

definition op_init :: "opt_opcode \<Rightarrow> opt_operation" where
  "op_init opc = \<lparr>opcode = opc, refs = replicate 4 (Some 0), phi_ref = Some 0, inline_asm_ref = Some 0,
     call_ref = Some 0, indirect_ref = Some 0, target_block = Some 0, alternative_block = Some 0,
     condition_variant = CONDITION W8, condition_ref = Some 0,
     comparison = COMPARISON_INT W8 CMP_EQUALS, imm = 0, block_ref = Some 0,
     bitfield_offset = 0, bitfield_length = 0\<rparr>"

section \<open>Comparisons\<close>

fun int_relation_inverse :: "int_relation \<Rightarrow> int_relation" where
  "int_relation_inverse CMP_EQUALS = CMP_NOT_EQUALS"
| "int_relation_inverse CMP_NOT_EQUALS = CMP_EQUALS"
| "int_relation_inverse CMP_GREATER = CMP_LESSER_OR_EQUALS"
| "int_relation_inverse CMP_GREATER_OR_EQUALS = CMP_LESSER"
| "int_relation_inverse CMP_LESSER = CMP_GREATER_OR_EQUALS"
| "int_relation_inverse CMP_LESSER_OR_EQUALS = CMP_GREATER"
| "int_relation_inverse CMP_ABOVE = CMP_BELOW_OR_EQUALS"
| "int_relation_inverse CMP_ABOVE_OR_EQUALS = CMP_BELOW"
| "int_relation_inverse CMP_BELOW = CMP_ABOVE_OR_EQUALS"
| "int_relation_inverse CMP_BELOW_OR_EQUALS = CMP_ABOVE"

fun float_relation_inverse :: "float_relation \<Rightarrow> float_relation" where
  "float_relation_inverse CMP_FLOAT_EQUAL = CMP_FLOAT_NOT_EQUAL"
| "float_relation_inverse CMP_FLOAT_NOT_EQUAL = CMP_FLOAT_EQUAL"
| "float_relation_inverse CMP_FLOAT_GREATER = CMP_FLOAT_NOT_GREATER"
| "float_relation_inverse CMP_FLOAT_GREATER_OR_EQUAL = CMP_FLOAT_NOT_GREATER_OR_EQUAL"
| "float_relation_inverse CMP_FLOAT_LESSER = CMP_FLOAT_NOT_LESSER"
| "float_relation_inverse CMP_FLOAT_LESSER_OR_EQUAL = CMP_FLOAT_NOT_LESSER_OR_EQUAL"
| "float_relation_inverse CMP_FLOAT_NOT_GREATER = CMP_FLOAT_GREATER"
| "float_relation_inverse CMP_FLOAT_NOT_GREATER_OR_EQUAL = CMP_FLOAT_GREATER_OR_EQUAL"
| "float_relation_inverse CMP_FLOAT_NOT_LESSER = CMP_FLOAT_LESSER"
| "float_relation_inverse CMP_FLOAT_NOT_LESSER_OR_EQUAL = CMP_FLOAT_LESSER_OR_EQUAL"

fun kefir_opt_comparison_operation_inverse :: "opt_comparison \<Rightarrow> opt_comparison" where
  "kefir_opt_comparison_operation_inverse (COMPARISON_INT w r) = COMPARISON_INT w (int_relation_inverse r)"
| "kefir_opt_comparison_operation_inverse (COMPARISON_FLOAT f r) = COMPARISON_FLOAT f (float_relation_inverse r)"

fun int_relation_reciprocal :: "int_relation \<Rightarrow> int_relation" where
  "int_relation_reciprocal CMP_EQUALS = CMP_EQUALS"
| "int_relation_reciprocal CMP_NOT_EQUALS = CMP_NOT_EQUALS"
| "int_relation_reciprocal CMP_GREATER = CMP_LESSER"
| "int_relation_reciprocal CMP_GREATER_OR_EQUALS = CMP_LESSER_OR_EQUALS"
| "int_relation_reciprocal CMP_LESSER = CMP_GREATER"
| "int_relation_reciprocal CMP_LESSER_OR_EQUALS = CMP_GREATER_OR_EQUALS"
| "int_relation_reciprocal CMP_ABOVE = CMP_BELOW"
| "int_relation_reciprocal CMP_ABOVE_OR_EQUALS = CMP_BELOW_OR_EQUALS"
| "int_relation_reciprocal CMP_BELOW = CMP_ABOVE"
| "int_relation_reciprocal CMP_BELOW_OR_EQUALS = CMP_ABOVE_OR_EQUALS"

fun kefir_opt_comparison_operation_reciprocal :: "opt_comparison \<Rightarrow> opt_comparison result" where
  "kefir_opt_comparison_operation_reciprocal (COMPARISON_INT w r) =
     Inr (COMPARISON_INT w (int_relation_reciprocal r))"
| "kefir_opt_comparison_operation_reciprocal (COMPARISON_FLOAT f r) = Inl KEFIR_INVALID_PARAMETER"

section \<open>The container\<close>

record opt_instruction =
  instr_id :: nat
  instr_block :: ref
  operation :: opt_operation
  sib_prev :: ref
  sib_next :: ref
  cf_prev :: ref
  cf_next :: ref
  uses :: "nat list"

record opt_block =
  block_key :: nat
  content_head :: ref
  content_tail :: ref
  control_head :: ref
  control_tail :: ref
  phi_head :: ref
  phi_tail :: ref
  call_head :: ref
  call_tail :: ref
  asm_head :: ref
  asm_tail :: ref
  public_labels :: "string list"

record opt_phi_node =
  phi_block :: ref
  phi_node_id :: nat
  number_of_links :: nat
  links :: "(nat \<times> ref) list"
  phi_output :: ref
  phi_prev :: ref
  phi_next :: ref

record opt_call_node =
  call_block :: ref
  call_node_id :: nat
  function_declaration_id :: nat
  call_output :: ref
  arguments :: "ref list"
  return_space :: ref
  call_prev :: ref
  call_next :: ref

record opt_asm_parameter =
  value_ref :: ref
  location_ref :: ref
  location_slot :: bool

record opt_asm_node =
  asm_block :: ref
  asm_node_id :: nat
  inline_asm_id :: nat
  asm_output :: ref
  asm_parameters :: "opt_asm_parameter list"
  default_jump_target :: ref
  jump_targets :: "(nat \<times> ref) list"
  asm_prev :: ref
  asm_next :: ref

record opt_code =
  code :: "opt_instruction list"
  blocks :: "opt_block list"
  phi_nodes :: "opt_phi_node list"
  call_nodes :: "opt_call_node list"
  inline_assembly :: "opt_asm_node list"
  entry_point :: ref
  gate_block :: ref

text \<open>Writing through a pointer to an element of one of the arrays.\<close>

definition upd_instr :: "nat \<Rightarrow> (opt_instruction \<Rightarrow> opt_instruction) \<Rightarrow> opt_code \<Rightarrow> opt_code" where
  "upd_instr i f c = c\<lparr>code := (code c)[i := f (code c ! i)]\<rparr>"

definition upd_block :: "nat \<Rightarrow> (opt_block \<Rightarrow> opt_block) \<Rightarrow> opt_code \<Rightarrow> opt_code" where
  "upd_block b f c = c\<lparr>blocks := (blocks c)[b := f (blocks c ! b)]\<rparr>"

definition upd_phi :: "nat \<Rightarrow> (opt_phi_node \<Rightarrow> opt_phi_node) \<Rightarrow> opt_code \<Rightarrow> opt_code" where
  "upd_phi k f c = c\<lparr>phi_nodes := (phi_nodes c)[k := f (phi_nodes c ! k)]\<rparr>"

definition upd_call :: "nat \<Rightarrow> (opt_call_node \<Rightarrow> opt_call_node) \<Rightarrow> opt_code \<Rightarrow> opt_code" where
  "upd_call k f c = c\<lparr>call_nodes := (call_nodes c)[k := f (call_nodes c ! k)]\<rparr>"

definition upd_asm :: "nat \<Rightarrow> (opt_asm_node \<Rightarrow> opt_asm_node) \<Rightarrow> opt_code \<Rightarrow> opt_code" where
  "upd_asm k f c = c\<lparr>inline_assembly := (inline_assembly c)[k := f (inline_assembly c ! k)]\<rparr>"

text \<open>The set of users, \<^verbatim>\<open>kefir_hashtreeset\<close> over identifiers.\<close>

definition uses_add :: "nat \<Rightarrow> nat list \<Rightarrow> nat list" where
  "uses_add u us = (if u \<in> set us then us else insort u us)"

definition uses_delete :: "nat \<Rightarrow> nat list \<Rightarrow> nat list" where
  "uses_delete u us = filter (\<lambda>x. x \<noteq> u) us"

section \<open>Lookups\<close>

definition kefir_opt_code_container_init :: opt_code where
  "kefir_opt_code_container_init = \<lparr>code = [], blocks = [], phi_nodes = [], call_nodes = [],
     inline_assembly = [], entry_point = KEFIR_ID_NONE, gate_block = KEFIR_ID_NONE\<rparr>"

definition kefir_opt_code_container_is_empty :: "opt_code \<Rightarrow> bool" where
  "kefir_opt_code_container_is_empty c \<longleftrightarrow>
     blocks c = [] \<and> code c = [] \<and> entry_point c = KEFIR_ID_NONE"

definition code_container_block_mutable :: "opt_code \<Rightarrow> ref \<Rightarrow> nat result" where
  "code_container_block_mutable c r = (case r of
     None \<Rightarrow> Inl KEFIR_NOT_FOUND
   | Some b \<Rightarrow> if b < length (blocks c) then Inr b else Inl KEFIR_NOT_FOUND)"

definition code_container_instr_mutable :: "opt_code \<Rightarrow> ref \<Rightarrow> nat result" where
  "code_container_instr_mutable c r = (case r of
     None \<Rightarrow> Inl KEFIR_OUT_OF_BOUNDS
   | Some i \<Rightarrow>
       if i < length (code c) then
         if instr_block (code c ! i) \<noteq> KEFIR_ID_NONE then Inr i else Inl KEFIR_NOT_FOUND
       else Inl KEFIR_OUT_OF_BOUNDS)"

definition kefir_opt_code_container_instr :: "opt_code \<Rightarrow> ref \<Rightarrow> opt_instruction result" where
  "kefir_opt_code_container_instr c r =
     bindE (code_container_instr_mutable c r) (\<lambda>i. Inr (code c ! i))"

definition kefir_opt_code_container_block :: "opt_code \<Rightarrow> ref \<Rightarrow> opt_block result" where
  "kefir_opt_code_container_block c r =
     bindE (code_container_block_mutable c r) (\<lambda>b. Inr (blocks c ! b))"

definition code_container_phi_mutable :: "opt_code \<Rightarrow> ref \<Rightarrow> nat result" where
  "code_container_phi_mutable c r = (case r of
     None \<Rightarrow> Inl KEFIR_NOT_FOUND
   | Some k \<Rightarrow>
       if k < length (phi_nodes c) \<and> phi_block (phi_nodes c ! k) \<noteq> KEFIR_ID_NONE then Inr k
       else Inl KEFIR_NOT_FOUND)"

definition code_container_call_mutable :: "opt_code \<Rightarrow> ref \<Rightarrow> nat result" where
  "code_container_call_mutable c r = (case r of
     None \<Rightarrow> Inl KEFIR_NOT_FOUND
   | Some k \<Rightarrow> if k < length (call_nodes c) then Inr k else Inl KEFIR_NOT_FOUND)"

definition code_container_inline_assembly_mutable :: "opt_code \<Rightarrow> ref \<Rightarrow> nat result" where
  "code_container_inline_assembly_mutable c r = (case r of
     None \<Rightarrow> Inl KEFIR_NOT_FOUND
   | Some k \<Rightarrow> if k < length (inline_assembly c) then Inr k else Inl KEFIR_NOT_FOUND)"

definition kefir_opt_code_instruction_is_control_flow :: "opt_code \<Rightarrow> ref \<Rightarrow> bool result" where
  "kefir_opt_code_instruction_is_control_flow c r =
     bindE (kefir_opt_code_container_instr c r) (\<lambda>instr.
     bindE (kefir_opt_code_container_block c (instr_block instr)) (\<lambda>block.
     Inr (control_head block = r \<or> cf_prev instr \<noteq> KEFIR_ID_NONE \<or> cf_next instr \<noteq> KEFIR_ID_NONE)))"

section \<open>Inputs of an instruction\<close>

text \<open>
  \<^verbatim>\<open>kefir_opt_instruction_extract_inputs\<close> calls a function on every operand that is not
  \<^verbatim>\<open>KEFIR_ID_NONE\<close>; here it yields these operands in the order of the calls.
\<close>

definition extract_inputs_bitint_atomic :: "opt_operation \<Rightarrow> ref list result" where
  "extract_inputs_bitint_atomic op =
     (if opcode op = OPC_BITINT_ATOMIC_LOAD then Inr [refs op ! 0]
      else if opcode op = OPC_BITINT_ATOMIC_STORE then Inr [refs op ! 0, refs op ! 1]
      else if opcode op = OPC_BITINT_ATOMIC_COMPARE_EXCHANGE then Inr [refs op ! 0, refs op ! 1, refs op ! 2]
      else Inl KEFIR_INVALID_PARAMETER)"

definition extract_inputs_bitint_bitfield :: "opt_operation \<Rightarrow> ref list" where
  "extract_inputs_bitint_bitfield op =
     (if opcode op = OPC_BITINT_INSERT then [refs op ! 0, refs op ! 1] else [refs op ! 0])"

definition extract_inputs_branch :: "opt_operation \<Rightarrow> ref list" where
  "extract_inputs_branch op = (if opcode op = OPC_IJUMP then [refs op ! 0] else [condition_ref op])"

definition extract_inputs_call_ref :: "opt_code \<Rightarrow> opt_operation \<Rightarrow> ref list result" where
  "extract_inputs_call_ref c op =
     bindE (code_container_call_mutable c (call_ref op)) (\<lambda>k.
     Inr (indirect_ref op # arguments (call_nodes c ! k) @ [return_space (call_nodes c ! k)]))"

definition phi_link_values :: "opt_code \<Rightarrow> ref \<Rightarrow> ref list result" where
  "phi_link_values c r =
     bindE (code_container_instr_mutable c r) (\<lambda>i.
     bindE (requireE (opcode (operation (code c ! i)) = OPC_PHI) KEFIR_INVALID_PARAMETER) (\<lambda>_.
     bindE (code_container_phi_mutable c (phi_ref (operation (code c ! i)))) (\<lambda>k.
     Inr (map snd (links (phi_nodes c ! k))))))"

definition extract_inputs_phi_ref :: "opt_code \<Rightarrow> opt_instruction \<Rightarrow> bool \<Rightarrow> ref list result" where
  "extract_inputs_phi_ref c instr resolve_phi =
     (if resolve_phi then Inr [] else phi_link_values c (Some (instr_id instr)))"

definition extract_inputs_inline_asm :: "opt_code \<Rightarrow> opt_operation \<Rightarrow> ref list result" where
  "extract_inputs_inline_asm c op =
     bindE (code_container_inline_assembly_mutable c (inline_asm_ref op)) (\<lambda>k.
     Inr (concat (map (\<lambda>p. [value_ref p, location_ref p]) (asm_parameters (inline_assembly c ! k)))))"

fun extract_inputs_class :: "opcode_class \<Rightarrow> opt_code \<Rightarrow> opt_instruction \<Rightarrow> bool \<Rightarrow> ref list result" where
  "extract_inputs_class Class_none c instr rp = Inr []"
| "extract_inputs_class Class_tmpobj c instr rp = Inr []"
| "extract_inputs_class Class_variable c instr rp = Inr []"
| "extract_inputs_class Class_immediate c instr rp = Inr []"
| "extract_inputs_class Class_index c instr rp = Inr []"
| "extract_inputs_class Class_ref1 c instr rp = Inr [refs (operation instr) ! 0]"
| "extract_inputs_class Class_localvar c instr rp = Inr [refs (operation instr) ! 0]"
| "extract_inputs_class Class_ref_offset c instr rp = Inr [refs (operation instr) ! 0]"
| "extract_inputs_class Class_ref_index2 c instr rp = Inr [refs (operation instr) ! 0]"
| "extract_inputs_class Class_load_mem c instr rp = Inr [refs (operation instr) ! 0]"
| "extract_inputs_class Class_bitint_load c instr rp = Inr [refs (operation instr) ! 0]"
| "extract_inputs_class Class_bitint_ref1 c instr rp = Inr [refs (operation instr) ! 0]"
| "extract_inputs_class Class_bitint2_ref1 c instr rp = Inr [refs (operation instr) ! 0]"
| "extract_inputs_class Class_ref2 c instr rp = Inr [refs (operation instr) ! 0, refs (operation instr) ! 1]"
| "extract_inputs_class Class_store_mem c instr rp = Inr [refs (operation instr) ! 0, refs (operation instr) ! 1]"
| "extract_inputs_class Class_bitint_store c instr rp = Inr [refs (operation instr) ! 0, refs (operation instr) ! 1]"
| "extract_inputs_class Class_bitfield c instr rp = Inr [refs (operation instr) ! 0, refs (operation instr) ! 1]"
| "extract_inputs_class Class_branch_compare c instr rp = Inr [refs (operation instr) ! 0, refs (operation instr) ! 1]"
| "extract_inputs_class Class_typed_ref2 c instr rp = Inr [refs (operation instr) ! 0, refs (operation instr) ! 1]"
| "extract_inputs_class Class_compare_ref2 c instr rp = Inr [refs (operation instr) ! 0, refs (operation instr) ! 1]"
| "extract_inputs_class Class_bitint_ref2 c instr rp = Inr [refs (operation instr) ! 0, refs (operation instr) ! 1]"
| "extract_inputs_class Class_stack_alloc c instr rp = Inr [refs (operation instr) ! 1, refs (operation instr) ! 0]"
| "extract_inputs_class Class_ref3_cond c instr rp =
     Inr [refs (operation instr) ! 0, refs (operation instr) ! 1, refs (operation instr) ! 2]"
| "extract_inputs_class Class_overflow_arith c instr rp =
     Inr [refs (operation instr) ! 0, refs (operation instr) ! 1, refs (operation instr) ! 2]"
| "extract_inputs_class Class_atomic_op c instr rp =
     Inr [refs (operation instr) ! 0, refs (operation instr) ! 1, refs (operation instr) ! 2]"
| "extract_inputs_class Class_ref4_compare c instr rp =
     Inr [refs (operation instr) ! 0, refs (operation instr) ! 1, refs (operation instr) ! 2,
          refs (operation instr) ! 3]"
| "extract_inputs_class Class_bitint_atomic c instr rp = extract_inputs_bitint_atomic (operation instr)"
| "extract_inputs_class Class_bitint_bitfield c instr rp = Inr (extract_inputs_bitint_bitfield (operation instr))"
| "extract_inputs_class Class_branch c instr rp = Inr (extract_inputs_branch (operation instr))"
| "extract_inputs_class Class_call_ref c instr rp = extract_inputs_call_ref c (operation instr)"
| "extract_inputs_class Class_phi_ref c instr rp = extract_inputs_phi_ref c instr rp"
| "extract_inputs_class Class_inline_asm c instr rp = extract_inputs_inline_asm c (operation instr)"

definition kefir_opt_instruction_extract_inputs :: "opt_code \<Rightarrow> opt_instruction \<Rightarrow> bool \<Rightarrow> ref list result" where
  "kefir_opt_instruction_extract_inputs c instr resolve_phi =
     bindE (extract_inputs_class (opcode_class_of (opcode (operation instr))) c instr resolve_phi)
       (\<lambda>rs. Inr (filter (\<lambda>r. r \<noteq> KEFIR_ID_NONE) rs))"

section \<open>Users\<close>

definition add_used_instructions :: "opt_code \<Rightarrow> nat \<Rightarrow> ref \<Rightarrow> opt_code result" where
  "add_used_instructions c user r =
     bindE (code_container_instr_mutable c r) (\<lambda>i.
     Inr (upd_instr i (\<lambda>x. x\<lparr>uses := uses_add user (uses x)\<rparr>) c))"

definition remove_used_instructions :: "opt_code \<Rightarrow> nat \<Rightarrow> ref \<Rightarrow> opt_code result" where
  "remove_used_instructions c user r =
     bindE (code_container_instr_mutable c r) (\<lambda>i.
     Inr (upd_instr i (\<lambda>x. x\<lparr>uses := uses_delete user (uses x)\<rparr>) c))"

text \<open>A user that is already gone is skipped when uses are dropped.\<close>

definition drop_uses_callback :: "opt_code \<Rightarrow> nat \<Rightarrow> ref \<Rightarrow> opt_code result" where
  "drop_uses_callback c user r = (case remove_used_instructions c user r of
     Inl e \<Rightarrow> if e = KEFIR_NOT_FOUND then Inr c else Inl e
   | Inr c' \<Rightarrow> Inr c')"

fun for_each_ref :: "(opt_code \<Rightarrow> ref \<Rightarrow> opt_code result) \<Rightarrow> opt_code \<Rightarrow> ref list \<Rightarrow> opt_code result" where
  "for_each_ref f c [] = Inr c"
| "for_each_ref f c (r # rs) = bindE (f c r) (\<lambda>c'. for_each_ref f c' rs)"

definition update_used_instructions :: "opt_code \<Rightarrow> nat \<Rightarrow> opt_code result" where
  "update_used_instructions c user =
     bindE (code_container_instr_mutable c (Some user)) (\<lambda>i.
     bindE (kefir_opt_instruction_extract_inputs c (code c ! i) True) (\<lambda>rs.
     for_each_ref (\<lambda>c' r. add_used_instructions c' user r) c rs))"

definition drop_used_instructions :: "opt_code \<Rightarrow> nat \<Rightarrow> opt_code result" where
  "drop_used_instructions c user =
     bindE (code_container_instr_mutable c (Some user)) (\<lambda>i.
     bindE (kefir_opt_instruction_extract_inputs c (code c ! i) True) (\<lambda>rs.
     for_each_ref (\<lambda>c' r. drop_uses_callback c' user r) c rs))"

section \<open>Blocks\<close>

definition kefir_opt_code_container_new_block :: "opt_code \<Rightarrow> bool \<Rightarrow> (opt_code \<times> nat) result" where
  "kefir_opt_code_container_new_block c entry =
     bindE (requireE (\<not> entry \<or> entry_point c = KEFIR_ID_NONE) KEFIR_ALREADY_EXISTS) (\<lambda>_.
     let b = length (blocks c);
         block = \<lparr>block_key = b, content_head = KEFIR_ID_NONE, content_tail = KEFIR_ID_NONE,
           control_head = KEFIR_ID_NONE, control_tail = KEFIR_ID_NONE,
           phi_head = KEFIR_ID_NONE, phi_tail = KEFIR_ID_NONE, call_head = KEFIR_ID_NONE,
           call_tail = KEFIR_ID_NONE, asm_head = KEFIR_ID_NONE, asm_tail = KEFIR_ID_NONE,
           public_labels = []\<rparr>;
         c' = c\<lparr>blocks := blocks c @ [block]\<rparr>
     in Inr (if entry then c'\<lparr>entry_point := Some b\<rparr> else c', b))"

definition kefir_opt_code_container_gate_block :: "opt_code \<Rightarrow> (opt_code \<times> nat) result" where
  "kefir_opt_code_container_gate_block c = (case gate_block c of
     None \<Rightarrow> bindE (kefir_opt_code_container_new_block c False) (\<lambda>(c', b).
               Inr (c'\<lparr>gate_block := Some b\<rparr>, b))
   | Some b \<Rightarrow> Inr (c, b))"

definition kefir_opt_code_container_add_block_public_label :: "opt_code \<Rightarrow> ref \<Rightarrow> string \<Rightarrow> opt_code result" where
  "kefir_opt_code_container_add_block_public_label c r label =
     bindE (code_container_block_mutable c r) (\<lambda>b.
     Inr (upd_block b (\<lambda>x. x\<lparr>public_labels :=
       (if label \<in> set (public_labels x) then public_labels x else public_labels x @ [label])\<rparr>) c))"

section \<open>Instructions\<close>

definition link_instr :: "opt_code \<Rightarrow> nat \<Rightarrow> nat \<Rightarrow> opt_code result" where
  "link_instr c b i = (case content_tail (blocks c ! b) of
     Some t \<Rightarrow>
       bindE (requireE (sib_next (code c ! t) = KEFIR_ID_NONE) KEFIR_INVALID_STATE) (\<lambda>_.
       Inr (upd_block b (\<lambda>x. x\<lparr>content_tail := Some i\<rparr>)
            (upd_instr t (\<lambda>x. x\<lparr>sib_next := Some i\<rparr>) c)))
   | None \<Rightarrow> Inr (upd_block b (\<lambda>x. x\<lparr>content_head := Some i, content_tail := Some i\<rparr>) c))"

definition kefir_opt_code_container_new_instruction ::
    "opt_code \<Rightarrow> ref \<Rightarrow> opt_operation \<Rightarrow> (opt_code \<times> nat) result" where
  "kefir_opt_code_container_new_instruction c r op =
     bindE (code_container_block_mutable c r) (\<lambda>b.
     let i = length (code c);
         instr = \<lparr>instr_id = i, instr_block = Some (block_key (blocks c ! b)), operation = op,
                  sib_prev = content_tail (blocks c ! b), sib_next = KEFIR_ID_NONE,
                  cf_prev = KEFIR_ID_NONE, cf_next = KEFIR_ID_NONE, uses = []\<rparr>
     in bindE (link_instr (c\<lparr>code := code c @ [instr]\<rparr>) b i) (\<lambda>c.
        bindE (update_used_instructions c i) (\<lambda>c.
        Inr (c, i))))"

text \<open>Taking an instruction out of the list of its block.\<close>

definition unlink_instr :: "opt_code \<Rightarrow> nat \<Rightarrow> nat \<Rightarrow> opt_code result" where
  "unlink_instr c b i =
    (let p = sib_prev (code c ! i); n = sib_next (code c ! i);
         c = upd_block b (\<lambda>x. x\<lparr>content_head := (if content_head x = Some i then n else content_head x)\<rparr>) c;
         c = upd_block b (\<lambda>x. x\<lparr>content_tail := (if content_tail x = Some i then p else content_tail x)\<rparr>) c
     in bindE (if p = KEFIR_ID_NONE then Inr c
               else bindE (code_container_instr_mutable c p) (\<lambda>j. Inr (upd_instr j (\<lambda>x. x\<lparr>sib_next := n\<rparr>) c))) (\<lambda>c.
        bindE (if n = KEFIR_ID_NONE then Inr c
               else bindE (code_container_instr_mutable c n) (\<lambda>j. Inr (upd_instr j (\<lambda>x. x\<lparr>sib_prev := p\<rparr>) c))) (\<lambda>c.
        Inr (upd_instr i (\<lambda>x. x\<lparr>sib_prev := KEFIR_ID_NONE, sib_next := KEFIR_ID_NONE,
                               instr_block := KEFIR_ID_NONE\<rparr>) c))))"

definition is_call :: "opt_opcode \<Rightarrow> bool" where
  "is_call opc \<longleftrightarrow> opc = OPC_INVOKE \<or> opc = OPC_INVOKE_VIRTUAL \<or> opc = OPC_TAIL_INVOKE \<or>
     opc = OPC_TAIL_INVOKE_VIRTUAL"

section \<open>Dropping the node of an instruction\<close>

definition unlink_phi :: "opt_code \<Rightarrow> nat \<Rightarrow> nat \<Rightarrow> opt_code result" where
  "unlink_phi c b k =
    (let p = phi_prev (phi_nodes c ! k); n = phi_next (phi_nodes c ! k);
         c = upd_block b (\<lambda>x. x\<lparr>phi_head := (if phi_head x = Some k then n else phi_head x)\<rparr>) c;
         c = upd_block b (\<lambda>x. x\<lparr>phi_tail := (if phi_tail x = Some k then p else phi_tail x)\<rparr>) c
     in bindE (if p = KEFIR_ID_NONE then Inr c
               else bindE (code_container_phi_mutable c p) (\<lambda>j. Inr (upd_phi j (\<lambda>x. x\<lparr>phi_next := n\<rparr>) c))) (\<lambda>c.
        bindE (if n = KEFIR_ID_NONE then Inr c
               else bindE (code_container_phi_mutable c n) (\<lambda>j. Inr (upd_phi j (\<lambda>x. x\<lparr>phi_prev := p\<rparr>) c))) (\<lambda>c.
        Inr (upd_phi k (\<lambda>x. x\<lparr>phi_prev := KEFIR_ID_NONE, phi_next := KEFIR_ID_NONE,
                             phi_block := KEFIR_ID_NONE\<rparr>) c))))"

definition output_dropped :: "opt_code \<Rightarrow> ref \<Rightarrow> bool" where
  "output_dropped c r \<longleftrightarrow> (case r of None \<Rightarrow> True | Some i \<Rightarrow> instr_block (code c ! i) = KEFIR_ID_NONE)"

definition kefir_opt_code_container_drop_phi :: "opt_code \<Rightarrow> ref \<Rightarrow> opt_code result" where
  "kefir_opt_code_container_drop_phi c r =
     bindE (code_container_phi_mutable c r) (\<lambda>k.
     bindE (requireE (output_dropped c (phi_output (phi_nodes c ! k))) KEFIR_INVALID_REQUEST) (\<lambda>_.
     bindE (code_container_block_mutable c (phi_block (phi_nodes c ! k))) (\<lambda>b.
     bindE (unlink_phi c b k) (\<lambda>c.
     for_each_ref (\<lambda>c' r. drop_uses_callback c' (ref_id (phi_output (phi_nodes c ! k))) r) c
       (map snd (links (phi_nodes c ! k)))))))"

definition unlink_call :: "opt_code \<Rightarrow> nat \<Rightarrow> nat \<Rightarrow> opt_code result" where
  "unlink_call c b k =
    (let p = call_prev (call_nodes c ! k); n = call_next (call_nodes c ! k);
         c = upd_block b (\<lambda>x. x\<lparr>call_head := (if call_head x = Some k then n else call_head x)\<rparr>) c;
         c = upd_block b (\<lambda>x. x\<lparr>call_tail := (if call_tail x = Some k then p else call_tail x)\<rparr>) c
     in bindE (if p = KEFIR_ID_NONE then Inr c
               else bindE (code_container_call_mutable c p) (\<lambda>j. Inr (upd_call j (\<lambda>x. x\<lparr>call_next := n\<rparr>) c))) (\<lambda>c.
        bindE (if n = KEFIR_ID_NONE then Inr c
               else bindE (code_container_call_mutable c n) (\<lambda>j. Inr (upd_call j (\<lambda>x. x\<lparr>call_prev := p\<rparr>) c))) (\<lambda>c.
        Inr (upd_call k (\<lambda>x. x\<lparr>call_prev := KEFIR_ID_NONE, call_next := KEFIR_ID_NONE,
                             call_block := KEFIR_ID_NONE\<rparr>) c))))"

definition kefir_opt_code_container_drop_call :: "opt_code \<Rightarrow> ref \<Rightarrow> opt_code result" where
  "kefir_opt_code_container_drop_call c r =
     bindE (code_container_call_mutable c r) (\<lambda>k.
     bindE (requireE (call_block (call_nodes c ! k) \<noteq> KEFIR_ID_NONE) KEFIR_INVALID_REQUEST) (\<lambda>_.
     bindE (requireE (output_dropped c (call_output (call_nodes c ! k))) KEFIR_INVALID_REQUEST) (\<lambda>_.
     bindE (code_container_block_mutable c (call_block (call_nodes c ! k))) (\<lambda>b.
     bindE (unlink_call c b k) (\<lambda>c.
     bindE (for_each_ref (\<lambda>c' r. drop_uses_callback c' (ref_id (call_output (call_nodes c ! k))) r) c
       (arguments (call_nodes c ! k))) (\<lambda>c.
     for_each_ref (\<lambda>c' r. drop_uses_callback c' (ref_id (call_output (call_nodes c ! k))) r) c
       (filter (\<lambda>r. r \<noteq> KEFIR_ID_NONE) [return_space (call_nodes c ! k)])))))))"

definition unlink_asm :: "opt_code \<Rightarrow> nat \<Rightarrow> nat \<Rightarrow> opt_code result" where
  "unlink_asm c b k =
    (let p = asm_prev (inline_assembly c ! k); n = asm_next (inline_assembly c ! k);
         c = upd_block b (\<lambda>x. x\<lparr>asm_head := (if asm_head x = Some k then n else asm_head x)\<rparr>) c;
         c = upd_block b (\<lambda>x. x\<lparr>asm_tail := (if asm_tail x = Some k then p else asm_tail x)\<rparr>) c
     in bindE (if p = KEFIR_ID_NONE then Inr c
               else bindE (code_container_inline_assembly_mutable c p) (\<lambda>j. Inr (upd_asm j (\<lambda>x. x\<lparr>asm_next := n\<rparr>) c))) (\<lambda>c.
        bindE (if n = KEFIR_ID_NONE then Inr c
               else bindE (code_container_inline_assembly_mutable c n) (\<lambda>j. Inr (upd_asm j (\<lambda>x. x\<lparr>asm_prev := p\<rparr>) c))) (\<lambda>c.
        Inr (upd_asm k (\<lambda>x. x\<lparr>asm_prev := KEFIR_ID_NONE, asm_next := KEFIR_ID_NONE,
                             asm_block := KEFIR_ID_NONE\<rparr>) c))))"

definition kefir_opt_code_container_drop_inline_asm :: "opt_code \<Rightarrow> ref \<Rightarrow> opt_code result" where
  "kefir_opt_code_container_drop_inline_asm c r =
     bindE (code_container_inline_assembly_mutable c r) (\<lambda>k.
     bindE (requireE (asm_block (inline_assembly c ! k) \<noteq> KEFIR_ID_NONE) KEFIR_INVALID_REQUEST) (\<lambda>_.
     bindE (requireE (output_dropped c (asm_output (inline_assembly c ! k))) KEFIR_INVALID_REQUEST) (\<lambda>_.
     bindE (code_container_block_mutable c (asm_block (inline_assembly c ! k))) (\<lambda>b.
     bindE (unlink_asm c b k) (\<lambda>c.
     for_each_ref (\<lambda>c' r. drop_uses_callback c' (ref_id (asm_output (inline_assembly c ! k))) r) c
       (filter (\<lambda>r. r \<noteq> KEFIR_ID_NONE)
         (concat (map (\<lambda>p. [location_ref p, value_ref p]) (asm_parameters (inline_assembly c ! k))))))))))"

definition drop_node :: "opt_code \<Rightarrow> opt_operation \<Rightarrow> opt_code result" where
  "drop_node c op =
     (if opcode op = OPC_PHI then kefir_opt_code_container_drop_phi c (phi_ref op)
      else if is_call (opcode op) then kefir_opt_code_container_drop_call c (call_ref op)
      else if opcode op = OPC_INLINE_ASSEMBLY then kefir_opt_code_container_drop_inline_asm c (inline_asm_ref op)
      else Inr c)"

definition drop_instr_impl :: "opt_code \<Rightarrow> ref \<Rightarrow> bool \<Rightarrow> opt_code result" where
  "drop_instr_impl c r verify_uses =
     bindE (code_container_instr_mutable c r) (\<lambda>i.
     bindE (requireE (\<not> verify_uses \<or> uses (code c ! i) = []) KEFIR_INVALID_REQUEST) (\<lambda>_.
     bindE (code_container_block_mutable c (instr_block (code c ! i))) (\<lambda>b.
     bindE (requireE (cf_prev (code c ! i) = KEFIR_ID_NONE \<and> cf_next (code c ! i) = KEFIR_ID_NONE \<and>
                      control_head (blocks c ! b) \<noteq> Some (instr_id (code c ! i))) KEFIR_INVALID_REQUEST) (\<lambda>_.
     bindE (drop_used_instructions c (instr_id (code c ! i))) (\<lambda>c.
     bindE (unlink_instr c b i) (\<lambda>c.
     drop_node c (operation (code c ! i))))))))"

definition kefir_opt_code_container_drop_instr :: "opt_code \<Rightarrow> ref \<Rightarrow> opt_code result" where
  "kefir_opt_code_container_drop_instr c r = drop_instr_impl c r True"

section \<open>Control flow\<close>

definition insert_control_after :: "opt_code \<Rightarrow> nat \<Rightarrow> nat \<Rightarrow> nat \<Rightarrow> opt_code result" where
  "insert_control_after c b a i =
     bindE (case cf_next (code c ! a) of
              None \<Rightarrow> Inr c
            | Some n \<Rightarrow> bindE (code_container_instr_mutable c (Some n)) (\<lambda>j.
                Inr (upd_instr j (\<lambda>x. x\<lparr>cf_prev := Some i\<rparr>) c))) (\<lambda>c.
     let c = upd_instr i (\<lambda>x. x\<lparr>cf_prev := Some a\<rparr>) c;
         c = upd_instr i (\<lambda>x. x\<lparr>cf_next := cf_next (code c ! a)\<rparr>) c;
         c = upd_instr a (\<lambda>x. x\<lparr>cf_next := Some i\<rparr>) c
     in Inr (upd_block b (\<lambda>x. x\<lparr>control_tail := (if control_tail x = Some a then Some i else control_tail x)\<rparr>) c))"

definition insert_control_head :: "opt_code \<Rightarrow> nat \<Rightarrow> nat \<Rightarrow> opt_code result" where
  "insert_control_head c b i =
     bindE (case control_head (blocks c ! b) of
              None \<Rightarrow> Inr c
            | Some h \<Rightarrow> bindE (code_container_instr_mutable c (Some h)) (\<lambda>j.
                Inr (upd_instr j (\<lambda>x. x\<lparr>cf_prev := Some i\<rparr>) c))) (\<lambda>c.
     let c = upd_instr i (\<lambda>x. x\<lparr>cf_next := control_head (blocks c ! b)\<rparr>) c
     in Inr (upd_block b (\<lambda>x. x\<lparr>control_head := Some i,
          control_tail := (if control_tail x = KEFIR_ID_NONE then Some i else control_tail x)\<rparr>) c))"

definition kefir_opt_code_container_insert_control :: "opt_code \<Rightarrow> ref \<Rightarrow> ref \<Rightarrow> ref \<Rightarrow> opt_code result" where
  "kefir_opt_code_container_insert_control c block_id after_instr_id r =
     bindE (code_container_block_mutable c block_id) (\<lambda>b.
     bindE (case after_instr_id of
              None \<Rightarrow> Inr None
            | Some _ \<Rightarrow>
                bindE (code_container_instr_mutable c after_instr_id) (\<lambda>a.
                bindE (requireE (instr_block (code c ! a) = Some (block_key (blocks c ! b))) KEFIR_INVALID_REQUEST) (\<lambda>_.
                Inr (Some a)))) (\<lambda>after.
     bindE (code_container_instr_mutable c r) (\<lambda>i.
     bindE (requireE (instr_block (code c ! i) = Some (block_key (blocks c ! b))) KEFIR_INVALID_REQUEST) (\<lambda>_.
     bindE (requireE (cf_prev (code c ! i) = KEFIR_ID_NONE \<and> cf_next (code c ! i) = KEFIR_ID_NONE)
              KEFIR_INVALID_REQUEST) (\<lambda>_.
     case after of
       None \<Rightarrow> insert_control_head c b i
     | Some a \<Rightarrow> insert_control_after c b a i)))))"

definition kefir_opt_code_container_add_control :: "opt_code \<Rightarrow> ref \<Rightarrow> ref \<Rightarrow> opt_code result" where
  "kefir_opt_code_container_add_control c block_id r =
     bindE (code_container_block_mutable c block_id) (\<lambda>b.
     kefir_opt_code_container_insert_control c block_id (control_tail (blocks c ! b)) r)"

definition control_flow_remove :: "opt_code \<Rightarrow> nat \<Rightarrow> nat \<Rightarrow> opt_code result" where
  "control_flow_remove c b i =
    (let p = cf_prev (code c ! i); n = cf_next (code c ! i);
         c = upd_block b (\<lambda>x. x\<lparr>control_head := (if control_head x = Some i then n else control_head x)\<rparr>) c;
         c = upd_block b (\<lambda>x. x\<lparr>control_tail := (if control_tail x = Some i then p else control_tail x)\<rparr>) c
     in bindE (if p = KEFIR_ID_NONE then Inr c
               else bindE (code_container_instr_mutable c p) (\<lambda>j. Inr (upd_instr j (\<lambda>x. x\<lparr>cf_next := n\<rparr>) c))) (\<lambda>c.
        bindE (if n = KEFIR_ID_NONE then Inr c
               else bindE (code_container_instr_mutable c n) (\<lambda>j. Inr (upd_instr j (\<lambda>x. x\<lparr>cf_prev := p\<rparr>) c))) (\<lambda>c.
        Inr (upd_instr i (\<lambda>x. x\<lparr>cf_prev := KEFIR_ID_NONE, cf_next := KEFIR_ID_NONE\<rparr>) c))))"

definition kefir_opt_code_container_drop_control :: "opt_code \<Rightarrow> ref \<Rightarrow> opt_code result" where
  "kefir_opt_code_container_drop_control c r =
     bindE (code_container_instr_mutable c r) (\<lambda>i.
     bindE (code_container_block_mutable c (instr_block (code c ! i))) (\<lambda>b.
     control_flow_remove c b i))"

end
