(* ===== verification/Kefir_Opt_Code_Ops.thy ===== *)
theory Kefir_Opt_Code_Ops
  imports Kefir_Opt_Code
begin

text \<open>
  The operations on phi, call and inline assembly nodes, iteration over the lists of a block, and the
  replacement of one instruction by another in all its users (\<^verbatim>\<open>source/optimizer/code.c\<close>,
  \<^verbatim>\<open>source/optimizer/code_util.c\<close>).
\<close>

section \<open>Phi nodes\<close>

definition kefir_opt_code_container_new_phi :: "opt_code \<Rightarrow> ref \<Rightarrow> (opt_code \<times> nat) result" where
  "kefir_opt_code_container_new_phi c r =
     bindE (code_container_block_mutable c r) (\<lambda>b.
     let k = length (phi_nodes c);
         t = phi_tail (blocks c ! b);
         node = \<lparr>phi_block = Some b, phi_node_id = k, number_of_links = 0, links = [],
                 phi_output = KEFIR_ID_NONE, phi_prev = t, phi_next = KEFIR_ID_NONE\<rparr>
     in bindE (if t = KEFIR_ID_NONE then Inr c
               else bindE (code_container_phi_mutable c t) (\<lambda>j.
                    bindE (requireE (phi_next (phi_nodes c ! j) = KEFIR_ID_NONE) KEFIR_INVALID_STATE) (\<lambda>_.
                    Inr (upd_phi j (\<lambda>x. x\<lparr>phi_next := Some k\<rparr>) c)))) (\<lambda>c.
        let c = c\<lparr>phi_nodes := phi_nodes c @ [node]\<rparr>;
            c = upd_block b (\<lambda>x. x\<lparr>phi_tail := Some k,
                  phi_head := (if phi_head x = KEFIR_ID_NONE then Some k else phi_head x)\<rparr>) c
        in bindE (kefir_opt_code_container_new_instruction c (Some b)
                    ((op_init OPC_PHI)\<lparr>phi_ref := Some k\<rparr>)) (\<lambda>(c, i).
           Inr (upd_phi k (\<lambda>x. x\<lparr>phi_output := Some i\<rparr>) c, i))))"

definition phi_of_instr :: "opt_code \<Rightarrow> ref \<Rightarrow> nat result" where
  "phi_of_instr c r =
     bindE (code_container_instr_mutable c r) (\<lambda>i.
     bindE (requireE (opcode (operation (code c ! i)) = OPC_PHI) KEFIR_INVALID_PARAMETER) (\<lambda>_.
     code_container_phi_mutable c (phi_ref (operation (code c ! i)))))"

definition kefir_opt_code_container_phi_attach :: "opt_code \<Rightarrow> ref \<Rightarrow> nat \<Rightarrow> ref \<Rightarrow> opt_code result" where
  "kefir_opt_code_container_phi_attach c phi_instr_ref block_id r =
     bindE (phi_of_instr c phi_instr_ref) (\<lambda>k.
     bindE (requireE (block_id \<notin> fst ` set (links (phi_nodes c ! k))) KEFIR_INVALID_REQUEST) (\<lambda>_.
     add_used_instructions
       (upd_phi k (\<lambda>x. x\<lparr>links := insort_key fst (block_id, r) (links x),
                       number_of_links := number_of_links x + 1\<rparr>) c)
       (ref_id (phi_output (phi_nodes c ! k))) r))"

definition kefir_opt_code_container_phi_link_for :: "opt_code \<Rightarrow> ref \<Rightarrow> nat \<Rightarrow> ref result" where
  "kefir_opt_code_container_phi_link_for c phi_instr_ref block_id =
     bindE (phi_of_instr c phi_instr_ref) (\<lambda>k.
     case map_of (links (phi_nodes c ! k)) block_id of
       None \<Rightarrow> Inl KEFIR_NOT_FOUND
     | Some r \<Rightarrow> Inr r)"

definition kefir_opt_code_container_phi_drop_link :: "opt_code \<Rightarrow> ref \<Rightarrow> nat \<Rightarrow> opt_code result" where
  "kefir_opt_code_container_phi_drop_link c phi_instr_ref block_id =
     bindE (phi_of_instr c phi_instr_ref) (\<lambda>k.
     case map_of (links (phi_nodes c ! k)) block_id of
       None \<Rightarrow> Inr c
     | Some link \<Rightarrow>
         let rest = filter (\<lambda>(b, _). b \<noteq> block_id) (links (phi_nodes c ! k));
             c = upd_phi k (\<lambda>x. x\<lparr>links := rest, number_of_links := number_of_links x - 1\<rparr>) c
         in if link \<in> snd ` set rest then Inr c
            else remove_used_instructions c (ref_id phi_instr_ref) link)"

section \<open>Call nodes\<close>

definition new_call_impl :: "opt_code \<Rightarrow> ref \<Rightarrow> nat \<Rightarrow> nat \<Rightarrow> ref \<Rightarrow> opt_opcode \<Rightarrow> (opt_code \<times> nat) result" where
  "new_call_impl c r func_decl_id argc function_ref opc =
     bindE (code_container_block_mutable c r) (\<lambda>b.
     let k = length (call_nodes c);
         t = call_tail (blocks c ! b);
         node = \<lparr>call_block = Some b, call_node_id = k, function_declaration_id = func_decl_id,
                 call_output = KEFIR_ID_NONE, arguments = replicate argc KEFIR_ID_NONE,
                 return_space = KEFIR_ID_NONE, call_prev = t, call_next = KEFIR_ID_NONE\<rparr>;
         c = c\<lparr>call_nodes := call_nodes c @ [node]\<rparr>
     in bindE (if t = KEFIR_ID_NONE then Inr c
               else bindE (code_container_call_mutable c t) (\<lambda>j.
                    bindE (requireE (call_next (call_nodes c ! j) = KEFIR_ID_NONE) KEFIR_INVALID_STATE) (\<lambda>_.
                    Inr (upd_call j (\<lambda>x. x\<lparr>call_next := Some k\<rparr>) c)))) (\<lambda>c.
        let c = upd_block b (\<lambda>x. x\<lparr>call_tail := Some k,
                  call_head := (if call_head x = KEFIR_ID_NONE then Some k else call_head x)\<rparr>) c
        in bindE (kefir_opt_code_container_new_instruction c (Some b)
                    ((op_init opc)\<lparr>call_ref := Some k, indirect_ref := function_ref\<rparr>)) (\<lambda>(c, i).
           Inr (upd_call k (\<lambda>x. x\<lparr>call_output := Some i\<rparr>) c, i))))"

definition function_ref_valid :: "opt_code \<Rightarrow> ref \<Rightarrow> bool" where
  "function_ref_valid c r \<longleftrightarrow> (case r of None \<Rightarrow> True | Some i \<Rightarrow> i < length (code c))"

definition kefir_opt_code_container_new_call ::
    "opt_code \<Rightarrow> ref \<Rightarrow> nat \<Rightarrow> nat \<Rightarrow> ref \<Rightarrow> (opt_code \<times> nat) result" where
  "kefir_opt_code_container_new_call c r func_decl_id argc function_ref =
     bindE (requireE (function_ref_valid c function_ref) KEFIR_INVALID_PARAMETER) (\<lambda>_.
     new_call_impl c r func_decl_id argc function_ref
       (if function_ref \<noteq> KEFIR_ID_NONE then OPC_INVOKE_VIRTUAL else OPC_INVOKE))"

definition kefir_opt_code_container_new_tail_call ::
    "opt_code \<Rightarrow> ref \<Rightarrow> nat \<Rightarrow> nat \<Rightarrow> ref \<Rightarrow> (opt_code \<times> nat) result" where
  "kefir_opt_code_container_new_tail_call c r func_decl_id argc function_ref =
     bindE (requireE (function_ref_valid c function_ref) KEFIR_INVALID_PARAMETER) (\<lambda>_.
     new_call_impl c r func_decl_id argc function_ref
       (if function_ref \<noteq> KEFIR_ID_NONE then OPC_TAIL_INVOKE_VIRTUAL else OPC_TAIL_INVOKE))"

definition call_of_instr :: "opt_code \<Rightarrow> ref \<Rightarrow> nat result" where
  "call_of_instr c r =
     bindE (code_container_instr_mutable c r) (\<lambda>i.
     bindE (requireE (is_call (opcode (operation (code c ! i)))) KEFIR_INVALID_PARAMETER) (\<lambda>_.
     code_container_call_mutable c (call_ref (operation (code c ! i)))))"

definition kefir_opt_code_container_call_set_argument :: "opt_code \<Rightarrow> ref \<Rightarrow> nat \<Rightarrow> ref \<Rightarrow> opt_code result" where
  "kefir_opt_code_container_call_set_argument c call_instr_ref index r =
     bindE (call_of_instr c call_instr_ref) (\<lambda>k.
     bindE (code_container_instr_mutable c r) (\<lambda>_.
     bindE (requireE (index < length (arguments (call_nodes c ! k))) KEFIR_OUT_OF_BOUNDS) (\<lambda>_.
     let output = ref_id (call_output (call_nodes c ! k)) in
     bindE (if arguments (call_nodes c ! k) ! index = KEFIR_ID_NONE then Inr c
            else remove_used_instructions c output (arguments (call_nodes c ! k) ! index)) (\<lambda>c.
     add_used_instructions (upd_call k (\<lambda>x. x\<lparr>arguments := (arguments x)[index := r]\<rparr>) c) output r))))"

definition kefir_opt_code_container_call_get_argument :: "opt_code \<Rightarrow> ref \<Rightarrow> nat \<Rightarrow> ref result" where
  "kefir_opt_code_container_call_get_argument c call_instr_ref index =
     bindE (call_of_instr c call_instr_ref) (\<lambda>k.
     bindE (requireE (index < length (arguments (call_nodes c ! k))) KEFIR_OUT_OF_BOUNDS) (\<lambda>_.
     Inr (arguments (call_nodes c ! k) ! index)))"

definition kefir_opt_code_container_call_set_return_space :: "opt_code \<Rightarrow> ref \<Rightarrow> ref \<Rightarrow> opt_code result" where
  "kefir_opt_code_container_call_set_return_space c call_instr_ref r =
     bindE (call_of_instr c call_instr_ref) (\<lambda>k.
     add_used_instructions (upd_call k (\<lambda>x. x\<lparr>return_space := r\<rparr>) c)
       (ref_id (call_output (call_nodes c ! k))) r)"

section \<open>Inline assembly nodes\<close>

definition kefir_opt_code_container_new_inline_assembly ::
    "opt_code \<Rightarrow> ref \<Rightarrow> nat \<Rightarrow> nat \<Rightarrow> (opt_code \<times> nat) result" where
  "kefir_opt_code_container_new_inline_assembly c r asm_id param_count =
     bindE (code_container_block_mutable c r) (\<lambda>b.
     let k = length (inline_assembly c);
         t = asm_tail (blocks c ! b);
         node = \<lparr>asm_block = Some b, asm_node_id = k, inline_asm_id = asm_id, asm_output = KEFIR_ID_NONE,
                 asm_parameters = replicate param_count
                   \<lparr>value_ref = KEFIR_ID_NONE, location_ref = KEFIR_ID_NONE, location_slot = False\<rparr>,
                 default_jump_target = KEFIR_ID_NONE, jump_targets = [],
                 asm_prev = t, asm_next = KEFIR_ID_NONE\<rparr>;
         c = c\<lparr>inline_assembly := inline_assembly c @ [node]\<rparr>
     in bindE (if t = KEFIR_ID_NONE then Inr c
               else bindE (code_container_inline_assembly_mutable c t) (\<lambda>j.
                    bindE (requireE (asm_next (inline_assembly c ! j) = KEFIR_ID_NONE) KEFIR_INVALID_STATE) (\<lambda>_.
                    Inr (upd_asm j (\<lambda>x. x\<lparr>asm_next := Some k\<rparr>) c)))) (\<lambda>c.
        let c = upd_block b (\<lambda>x. x\<lparr>asm_tail := Some k,
                  asm_head := (if asm_head x = KEFIR_ID_NONE then Some k else asm_head x)\<rparr>) c
        in bindE (kefir_opt_code_container_new_instruction c (Some b)
                    ((op_init OPC_INLINE_ASSEMBLY)\<lparr>inline_asm_ref := Some k\<rparr>)) (\<lambda>(c, i).
           Inr (upd_asm k (\<lambda>x. x\<lparr>asm_output := Some i\<rparr>) c, i))))"

definition asm_of_instr :: "opt_code \<Rightarrow> ref \<Rightarrow> nat result" where
  "asm_of_instr c r =
     bindE (code_container_instr_mutable c r) (\<lambda>i.
     bindE (requireE (opcode (operation (code c ! i)) = OPC_INLINE_ASSEMBLY) KEFIR_INVALID_PARAMETER) (\<lambda>_.
     code_container_inline_assembly_mutable c (inline_asm_ref (operation (code c ! i)))))"

definition inline_asm_update_used_instructions :: "opt_code \<Rightarrow> nat \<Rightarrow> opt_asm_parameter \<Rightarrow> opt_code result" where
  "inline_asm_update_used_instructions c user p =
     for_each_ref (\<lambda>c' r. add_used_instructions c' user r) c
       (filter (\<lambda>r. r \<noteq> KEFIR_ID_NONE) [location_ref p, value_ref p])"

definition param_used_elsewhere :: "opt_asm_parameter list \<Rightarrow> nat \<Rightarrow> ref \<Rightarrow> bool" where
  "param_used_elsewhere ps index r =
     list_ex (\<lambda>j. j \<noteq> index \<and> (location_ref (ps ! j) = r \<or> value_ref (ps ! j) = r)) [0..<length ps]"

definition inline_asm_drop_used_instructions :: "opt_code \<Rightarrow> nat \<Rightarrow> nat \<Rightarrow> opt_code result" where
  "inline_asm_drop_used_instructions c k index =
    (let node = inline_assembly c ! k; p = asm_parameters node ! index in
     for_each_ref (\<lambda>c' r. remove_used_instructions c' (ref_id (asm_output node)) r) c
       (filter (\<lambda>r. r \<noteq> KEFIR_ID_NONE \<and> \<not> param_used_elsewhere (asm_parameters node) index r)
         [location_ref p, value_ref p]))"

definition kefir_opt_code_container_inline_assembly_set_parameter ::
    "opt_code \<Rightarrow> ref \<Rightarrow> nat \<Rightarrow> opt_asm_parameter \<Rightarrow> opt_code result" where
  "kefir_opt_code_container_inline_assembly_set_parameter c r index p =
     bindE (asm_of_instr c r) (\<lambda>k.
     bindE (requireE (index < length (asm_parameters (inline_assembly c ! k))) KEFIR_OUT_OF_BOUNDS) (\<lambda>_.
     bindE (inline_asm_drop_used_instructions c k index) (\<lambda>c.
     inline_asm_update_used_instructions
       (upd_asm k (\<lambda>x. x\<lparr>asm_parameters := (asm_parameters x)[index := p]\<rparr>) c)
       (ref_id (asm_output (inline_assembly c ! k))) p)))"

definition kefir_opt_code_container_inline_assembly_set_default_jump_target ::
    "opt_code \<Rightarrow> ref \<Rightarrow> ref \<Rightarrow> opt_code result" where
  "kefir_opt_code_container_inline_assembly_set_default_jump_target c r target =
     bindE (asm_of_instr c r) (\<lambda>k.
     bindE (requireE (default_jump_target (inline_assembly c ! k) = KEFIR_ID_NONE) KEFIR_INVALID_REQUEST) (\<lambda>_.
     Inr (upd_asm k (\<lambda>x. x\<lparr>default_jump_target := target\<rparr>) c)))"

definition kefir_opt_code_container_inline_assembly_add_jump_target ::
    "opt_code \<Rightarrow> ref \<Rightarrow> nat \<Rightarrow> ref \<Rightarrow> opt_code result" where
  "kefir_opt_code_container_inline_assembly_add_jump_target c r target_id target =
     bindE (asm_of_instr c r) (\<lambda>k.
     bindE (requireE (default_jump_target (inline_assembly c ! k) \<noteq> KEFIR_ID_NONE) KEFIR_INVALID_REQUEST) (\<lambda>_.
     bindE (requireE (target_id \<notin> fst ` set (jump_targets (inline_assembly c ! k))) KEFIR_ALREADY_EXISTS) (\<lambda>_.
     Inr (upd_asm k (\<lambda>x. x\<lparr>jump_targets := insort_key fst (target_id, target) (jump_targets x)\<rparr>) c))))"

definition kefir_opt_code_container_inline_assembly_jump_target :: "opt_code \<Rightarrow> ref \<Rightarrow> nat \<Rightarrow> ref result" where
  "kefir_opt_code_container_inline_assembly_jump_target c r target_id =
     bindE (asm_of_instr c r) (\<lambda>k.
     case map_of (jump_targets (inline_assembly c ! k)) target_id of
       None \<Rightarrow> Inl KEFIR_NOT_FOUND
     | Some b \<Rightarrow> Inr b)"

section \<open>Walking the lists of a block\<close>

definition kefir_opt_code_block_instr_head :: "opt_code \<Rightarrow> ref \<Rightarrow> ref result" where
  "kefir_opt_code_block_instr_head c r =
     bindE (code_container_block_mutable c r) (\<lambda>b. Inr (content_head (blocks c ! b)))"

definition kefir_opt_code_block_instr_tail :: "opt_code \<Rightarrow> ref \<Rightarrow> ref result" where
  "kefir_opt_code_block_instr_tail c r =
     bindE (code_container_block_mutable c r) (\<lambda>b. Inr (content_tail (blocks c ! b)))"

definition kefir_opt_code_block_instr_control_head :: "opt_code \<Rightarrow> ref \<Rightarrow> ref result" where
  "kefir_opt_code_block_instr_control_head c r =
     bindE (code_container_block_mutable c r) (\<lambda>b. Inr (control_head (blocks c ! b)))"

definition kefir_opt_code_block_instr_control_tail :: "opt_code \<Rightarrow> ref \<Rightarrow> ref result" where
  "kefir_opt_code_block_instr_control_tail c r =
     bindE (code_container_block_mutable c r) (\<lambda>b. Inr (control_tail (blocks c ! b)))"

definition kefir_opt_instruction_prev_sibling :: "opt_code \<Rightarrow> ref \<Rightarrow> ref result" where
  "kefir_opt_instruction_prev_sibling c r =
     bindE (requireE (r \<noteq> KEFIR_ID_NONE) KEFIR_INVALID_PARAMETER) (\<lambda>_.
     bindE (code_container_instr_mutable c r) (\<lambda>i. Inr (sib_prev (code c ! i))))"

definition kefir_opt_instruction_next_sibling :: "opt_code \<Rightarrow> ref \<Rightarrow> ref result" where
  "kefir_opt_instruction_next_sibling c r =
     bindE (requireE (r \<noteq> KEFIR_ID_NONE) KEFIR_INVALID_PARAMETER) (\<lambda>_.
     bindE (code_container_instr_mutable c r) (\<lambda>i. Inr (sib_next (code c ! i))))"

definition kefir_opt_instruction_prev_control :: "opt_code \<Rightarrow> ref \<Rightarrow> ref result" where
  "kefir_opt_instruction_prev_control c r =
     bindE (requireE (r \<noteq> KEFIR_ID_NONE) KEFIR_INVALID_PARAMETER) (\<lambda>_.
     bindE (code_container_instr_mutable c r) (\<lambda>i. Inr (cf_prev (code c ! i))))"

definition kefir_opt_instruction_next_control :: "opt_code \<Rightarrow> ref \<Rightarrow> ref result" where
  "kefir_opt_instruction_next_control c r =
     bindE (requireE (r \<noteq> KEFIR_ID_NONE) KEFIR_INVALID_PARAMETER) (\<lambda>_.
     bindE (code_container_instr_mutable c r) (\<lambda>i. Inr (cf_next (code c ! i))))"

definition kefir_opt_code_block_phi_head :: "opt_code \<Rightarrow> ref \<Rightarrow> ref result" where
  "kefir_opt_code_block_phi_head c r =
     bindE (code_container_block_mutable c r) (\<lambda>b.
     if phi_head (blocks c ! b) \<noteq> KEFIR_ID_NONE then
       bindE (code_container_phi_mutable c (phi_head (blocks c ! b))) (\<lambda>k. Inr (phi_output (phi_nodes c ! k)))
     else Inr KEFIR_ID_NONE)"

definition kefir_opt_code_block_phi_tail :: "opt_code \<Rightarrow> ref \<Rightarrow> ref result" where
  "kefir_opt_code_block_phi_tail c r =
     bindE (code_container_block_mutable c r) (\<lambda>b.
     if phi_head (blocks c ! b) \<noteq> KEFIR_ID_NONE then
       bindE (code_container_phi_mutable c (phi_tail (blocks c ! b))) (\<lambda>k. Inr (phi_output (phi_nodes c ! k)))
     else Inr KEFIR_ID_NONE)"

definition kefir_opt_phi_prev_sibling :: "opt_code \<Rightarrow> ref \<Rightarrow> ref result" where
  "kefir_opt_phi_prev_sibling c r =
     bindE (requireE (r \<noteq> KEFIR_ID_NONE) KEFIR_INVALID_PARAMETER) (\<lambda>_.
     bindE (code_container_instr_mutable c r) (\<lambda>i.
     bindE (code_container_phi_mutable c (phi_ref (operation (code c ! i)))) (\<lambda>k.
     if phi_prev (phi_nodes c ! k) \<noteq> KEFIR_ID_NONE then
       bindE (code_container_phi_mutable c (phi_prev (phi_nodes c ! k))) (\<lambda>j. Inr (phi_output (phi_nodes c ! j)))
     else Inr KEFIR_ID_NONE)))"

definition kefir_opt_phi_next_sibling :: "opt_code \<Rightarrow> ref \<Rightarrow> ref result" where
  "kefir_opt_phi_next_sibling c r =
     bindE (requireE (r \<noteq> KEFIR_ID_NONE) KEFIR_INVALID_PARAMETER) (\<lambda>_.
     bindE (code_container_instr_mutable c r) (\<lambda>i.
     bindE (code_container_phi_mutable c (phi_ref (operation (code c ! i)))) (\<lambda>k.
     if phi_next (phi_nodes c ! k) \<noteq> KEFIR_ID_NONE then
       bindE (code_container_phi_mutable c (phi_next (phi_nodes c ! k))) (\<lambda>j. Inr (phi_output (phi_nodes c ! j)))
     else Inr KEFIR_ID_NONE)))"

definition kefir_opt_code_block_call_head :: "opt_code \<Rightarrow> ref \<Rightarrow> ref result" where
  "kefir_opt_code_block_call_head c r =
     bindE (code_container_block_mutable c r) (\<lambda>b.
     if call_head (blocks c ! b) \<noteq> KEFIR_ID_NONE then
       bindE (code_container_call_mutable c (call_head (blocks c ! b))) (\<lambda>k. Inr (call_output (call_nodes c ! k)))
     else Inr KEFIR_ID_NONE)"

definition kefir_opt_code_block_call_tail :: "opt_code \<Rightarrow> ref \<Rightarrow> ref result" where
  "kefir_opt_code_block_call_tail c r =
     bindE (code_container_block_mutable c r) (\<lambda>b.
     if call_head (blocks c ! b) \<noteq> KEFIR_ID_NONE then
       bindE (code_container_call_mutable c (call_tail (blocks c ! b))) (\<lambda>k. Inr (call_output (call_nodes c ! k)))
     else Inr KEFIR_ID_NONE)"

definition kefir_opt_call_prev_sibling :: "opt_code \<Rightarrow> ref \<Rightarrow> ref result" where
  "kefir_opt_call_prev_sibling c r =
     bindE (requireE (r \<noteq> KEFIR_ID_NONE) KEFIR_INVALID_PARAMETER) (\<lambda>_.
     bindE (call_of_instr c r) (\<lambda>k.
     if call_prev (call_nodes c ! k) \<noteq> KEFIR_ID_NONE then
       bindE (code_container_call_mutable c (call_prev (call_nodes c ! k))) (\<lambda>j. Inr (call_output (call_nodes c ! j)))
     else Inr KEFIR_ID_NONE))"

definition kefir_opt_call_next_sibling :: "opt_code \<Rightarrow> ref \<Rightarrow> ref result" where
  "kefir_opt_call_next_sibling c r =
     bindE (requireE (r \<noteq> KEFIR_ID_NONE) KEFIR_INVALID_PARAMETER) (\<lambda>_.
     bindE (call_of_instr c r) (\<lambda>k.
     if call_next (call_nodes c ! k) \<noteq> KEFIR_ID_NONE then
       bindE (code_container_call_mutable c (call_next (call_nodes c ! k))) (\<lambda>j. Inr (call_output (call_nodes c ! j)))
     else Inr KEFIR_ID_NONE))"

definition kefir_opt_code_block_inline_assembly_head :: "opt_code \<Rightarrow> ref \<Rightarrow> ref result" where
  "kefir_opt_code_block_inline_assembly_head c r =
     bindE (code_container_block_mutable c r) (\<lambda>b.
     if asm_head (blocks c ! b) \<noteq> KEFIR_ID_NONE then
       bindE (code_container_inline_assembly_mutable c (asm_head (blocks c ! b))) (\<lambda>k. Inr (asm_output (inline_assembly c ! k)))
     else Inr KEFIR_ID_NONE)"

definition kefir_opt_code_block_inline_assembly_tail :: "opt_code \<Rightarrow> ref \<Rightarrow> ref result" where
  "kefir_opt_code_block_inline_assembly_tail c r =
     bindE (code_container_block_mutable c r) (\<lambda>b.
     if asm_head (blocks c ! b) \<noteq> KEFIR_ID_NONE then
       bindE (code_container_inline_assembly_mutable c (asm_tail (blocks c ! b))) (\<lambda>k. Inr (asm_output (inline_assembly c ! k)))
     else Inr KEFIR_ID_NONE)"

definition kefir_opt_inline_assembly_prev_sibling :: "opt_code \<Rightarrow> ref \<Rightarrow> ref result" where
  "kefir_opt_inline_assembly_prev_sibling c r =
     bindE (requireE (r \<noteq> KEFIR_ID_NONE) KEFIR_INVALID_PARAMETER) (\<lambda>_.
     bindE (asm_of_instr c r) (\<lambda>k.
     if asm_prev (inline_assembly c ! k) \<noteq> KEFIR_ID_NONE then
       bindE (code_container_inline_assembly_mutable c (asm_prev (inline_assembly c ! k))) (\<lambda>j. Inr (asm_output (inline_assembly c ! j)))
     else Inr KEFIR_ID_NONE))"

definition kefir_opt_inline_assembly_next_sibling :: "opt_code \<Rightarrow> ref \<Rightarrow> ref result" where
  "kefir_opt_inline_assembly_next_sibling c r =
     bindE (requireE (r \<noteq> KEFIR_ID_NONE) KEFIR_INVALID_PARAMETER) (\<lambda>_.
     bindE (asm_of_instr c r) (\<lambda>k.
     if asm_next (inline_assembly c ! k) \<noteq> KEFIR_ID_NONE then
       bindE (code_container_inline_assembly_mutable c (asm_next (inline_assembly c ! k))) (\<lambda>j. Inr (asm_output (inline_assembly c ! j)))
     else Inr KEFIR_ID_NONE))"

section \<open>Replacing references\<close>

definition REPLACE_REF :: "ref \<Rightarrow> ref \<Rightarrow> ref \<Rightarrow> ref" where
  "REPLACE_REF to_ref from_ref r = (if r = from_ref then to_ref else r)"

fun replace_at :: "nat list \<Rightarrow> ref \<Rightarrow> ref \<Rightarrow> ref list \<Rightarrow> ref list" where
  "replace_at [] t f rs = rs"
| "replace_at (k # ks) t f rs = replace_at ks t f (rs[k := REPLACE_REF t f (rs ! k)])"

definition replace_references_branch :: "ref \<Rightarrow> ref \<Rightarrow> opt_operation \<Rightarrow> opt_operation" where
  "replace_references_branch t f op =
     (if opcode op = OPC_BRANCH then op\<lparr>condition_ref := REPLACE_REF t f (condition_ref op)\<rparr>
      else if opcode op = OPC_IJUMP then op\<lparr>refs := replace_at [0] t f (refs op)\<rparr>
      else op)"

definition replace_references_bitint_atomic :: "ref \<Rightarrow> ref \<Rightarrow> opt_operation \<Rightarrow> opt_operation result" where
  "replace_references_bitint_atomic t f op =
     (if opcode op = OPC_BITINT_ATOMIC_LOAD then Inr (op\<lparr>refs := replace_at [0] t f (refs op)\<rparr>)
      else if opcode op = OPC_BITINT_ATOMIC_STORE then Inr (op\<lparr>refs := replace_at [0, 1] t f (refs op)\<rparr>)
      else if opcode op = OPC_BITINT_ATOMIC_COMPARE_EXCHANGE then
        Inr (op\<lparr>refs := replace_at [0, 1, 2] t f (refs op)\<rparr>)
      else Inl KEFIR_INVALID_PARAMETER)"

definition replace_references_bitint_bitfield :: "ref \<Rightarrow> ref \<Rightarrow> opt_operation \<Rightarrow> opt_operation" where
  "replace_references_bitint_bitfield t f op =
     op\<lparr>refs := (if opcode op = OPC_BITINT_INSERT then replace_at [0, 1] t f (refs op)
                  else replace_at [0] t f (refs op))\<rparr>"

definition replace_references_call_ref :: "ref \<Rightarrow> ref \<Rightarrow> opt_operation \<Rightarrow> opt_operation" where
  "replace_references_call_ref t f op =
     (if opcode op = OPC_INVOKE_VIRTUAL \<or> opcode op = OPC_TAIL_INVOKE_VIRTUAL
      then op\<lparr>indirect_ref := REPLACE_REF t f (indirect_ref op)\<rparr> else op)"

fun replace_references_class :: "opcode_class \<Rightarrow> ref \<Rightarrow> ref \<Rightarrow> opt_operation \<Rightarrow> opt_operation result" where
  "replace_references_class Class_none t f op = Inr op"
| "replace_references_class Class_tmpobj t f op = Inr op"
| "replace_references_class Class_variable t f op = Inr op"
| "replace_references_class Class_immediate t f op = Inr op"
| "replace_references_class Class_index t f op = Inr op"
| "replace_references_class Class_phi_ref t f op = Inr op"
| "replace_references_class Class_inline_asm t f op = Inr op"
| "replace_references_class Class_ref1 t f op = Inr (op\<lparr>refs := replace_at [0] t f (refs op)\<rparr>)"
| "replace_references_class Class_localvar t f op = Inr (op\<lparr>refs := replace_at [0] t f (refs op)\<rparr>)"
| "replace_references_class Class_ref_offset t f op = Inr (op\<lparr>refs := replace_at [0] t f (refs op)\<rparr>)"
| "replace_references_class Class_ref_index2 t f op = Inr (op\<lparr>refs := replace_at [0] t f (refs op)\<rparr>)"
| "replace_references_class Class_load_mem t f op = Inr (op\<lparr>refs := replace_at [0] t f (refs op)\<rparr>)"
| "replace_references_class Class_bitint_load t f op = Inr (op\<lparr>refs := replace_at [0] t f (refs op)\<rparr>)"
| "replace_references_class Class_bitint_ref1 t f op = Inr (op\<lparr>refs := replace_at [0] t f (refs op)\<rparr>)"
| "replace_references_class Class_bitint2_ref1 t f op = Inr (op\<lparr>refs := replace_at [0] t f (refs op)\<rparr>)"
| "replace_references_class Class_ref2 t f op = Inr (op\<lparr>refs := replace_at [0, 1] t f (refs op)\<rparr>)"
| "replace_references_class Class_store_mem t f op = Inr (op\<lparr>refs := replace_at [0, 1] t f (refs op)\<rparr>)"
| "replace_references_class Class_bitint_store t f op = Inr (op\<lparr>refs := replace_at [0, 1] t f (refs op)\<rparr>)"
| "replace_references_class Class_bitfield t f op = Inr (op\<lparr>refs := replace_at [0, 1] t f (refs op)\<rparr>)"
| "replace_references_class Class_branch_compare t f op = Inr (op\<lparr>refs := replace_at [0, 1] t f (refs op)\<rparr>)"
| "replace_references_class Class_typed_ref2 t f op = Inr (op\<lparr>refs := replace_at [0, 1] t f (refs op)\<rparr>)"
| "replace_references_class Class_compare_ref2 t f op = Inr (op\<lparr>refs := replace_at [0, 1] t f (refs op)\<rparr>)"
| "replace_references_class Class_bitint_ref2 t f op = Inr (op\<lparr>refs := replace_at [0, 1] t f (refs op)\<rparr>)"
| "replace_references_class Class_stack_alloc t f op = Inr (op\<lparr>refs := replace_at [0, 1] t f (refs op)\<rparr>)"
| "replace_references_class Class_ref3_cond t f op = Inr (op\<lparr>refs := replace_at [0, 1, 2] t f (refs op)\<rparr>)"
| "replace_references_class Class_overflow_arith t f op = Inr (op\<lparr>refs := replace_at [0, 1, 2] t f (refs op)\<rparr>)"
| "replace_references_class Class_atomic_op t f op = Inr (op\<lparr>refs := replace_at [0, 1, 2] t f (refs op)\<rparr>)"
| "replace_references_class Class_ref4_compare t f op = Inr (op\<lparr>refs := replace_at [0, 1, 2, 3] t f (refs op)\<rparr>)"
| "replace_references_class Class_bitint_atomic t f op = replace_references_bitint_atomic t f op"
| "replace_references_class Class_bitint_bitfield t f op = Inr (replace_references_bitint_bitfield t f op)"
| "replace_references_class Class_branch t f op = Inr (replace_references_branch t f op)"
| "replace_references_class Class_call_ref t f op = Inr (replace_references_call_ref t f op)"

text \<open>The operands that the node of a phi, a call or an inline assembly holds.\<close>

definition replace_in_node :: "ref \<Rightarrow> ref \<Rightarrow> opt_operation \<Rightarrow> opt_code \<Rightarrow> opt_code result" where
  "replace_in_node t f op c =
     (if opcode op = OPC_PHI then
        (case phi_ref op of
           None \<Rightarrow> Inl KEFIR_INVALID_STATE
         | Some k \<Rightarrow>
             bindE (requireE (phi_block (phi_nodes c ! k) \<noteq> KEFIR_ID_NONE) KEFIR_INVALID_STATE) (\<lambda>_.
             Inr (upd_phi k (\<lambda>x. x\<lparr>links := map (\<lambda>(b, r). (b, REPLACE_REF t f r)) (links x)\<rparr>) c)))
      else if is_call (opcode op) then
        bindE (code_container_call_mutable c (call_ref op)) (\<lambda>k.
        Inr (upd_call k (\<lambda>x. x\<lparr>arguments := map (REPLACE_REF t f) (arguments x),
                             return_space := REPLACE_REF t f (return_space x)\<rparr>) c))
      else if opcode op = OPC_INLINE_ASSEMBLY then
        bindE (code_container_inline_assembly_mutable c (inline_asm_ref op)) (\<lambda>k.
        Inr (upd_asm k (\<lambda>x. x\<lparr>asm_parameters :=
          map (\<lambda>p. p\<lparr>location_ref := REPLACE_REF t f (location_ref p),
                      value_ref := REPLACE_REF t f (value_ref p)\<rparr>) (asm_parameters x)\<rparr>) c))
      else Inr c)"

definition kefir_opt_code_container_replace_references_in :: "opt_code \<Rightarrow> nat \<Rightarrow> ref \<Rightarrow> ref \<Rightarrow> opt_code result" where
  "kefir_opt_code_container_replace_references_in c user t f =
     bindE (requireE (instr_block (code c ! user) \<noteq> KEFIR_ID_NONE) KEFIR_INVALID_STATE) (\<lambda>_.
     bindE (replace_in_node t f (operation (code c ! user)) c) (\<lambda>c.
     bindE (replace_references_class (opcode_class_of (opcode (operation (code c ! user)))) t f
              (operation (code c ! user))) (\<lambda>op.
     bindE (remove_used_instructions (upd_instr user (\<lambda>x. x\<lparr>operation := op\<rparr>) c) user f) (\<lambda>c.
     add_used_instructions c user t))))"

fun replace_references_users :: "opt_code \<Rightarrow> nat list \<Rightarrow> ref \<Rightarrow> ref \<Rightarrow> opt_code result" where
  "replace_references_users c [] t f = Inr c"
| "replace_references_users c (u # us) t f =
     bindE (kefir_opt_code_container_replace_references_in c u t f) (\<lambda>c. replace_references_users c us t f)"

definition kefir_opt_code_container_replace_references :: "opt_code \<Rightarrow> ref \<Rightarrow> ref \<Rightarrow> opt_code result" where
  "kefir_opt_code_container_replace_references c t f =
     bindE (code_container_instr_mutable c f) (\<lambda>i.
     replace_references_users c (uses (code c ! i)) t f)"

definition kefir_opt_code_container_instruction_replace_control_flow_target ::
    "opt_code \<Rightarrow> ref \<Rightarrow> ref \<Rightarrow> ref \<Rightarrow> opt_code result" where
  "kefir_opt_code_container_instruction_replace_control_flow_target c r current desired =
     bindE (code_container_instr_mutable c r) (\<lambda>i.
     let op = operation (code c ! i);
         alt = (\<lambda>x. x\<lparr>alternative_block := REPLACE_REF desired current (alternative_block x)\<rparr>);
         target = (\<lambda>x. x\<lparr>target_block := REPLACE_REF desired current (target_block x)\<rparr>);
         set_op = (\<lambda>op. Inr (upd_instr i (\<lambda>x. x\<lparr>operation := op\<rparr>) c))
     in if opcode op = OPC_BRANCH \<or> opcode op = OPC_BRANCH_COMPARE then set_op (target (alt op))
        else if opcode op = OPC_JUMP \<or> opcode op = OPC_IJUMP then set_op (target op)
        else if opcode op = OPC_INLINE_ASSEMBLY then
          bindE (code_container_inline_assembly_mutable c (inline_asm_ref op)) (\<lambda>k.
          Inr (upd_asm k (\<lambda>x. x\<lparr>default_jump_target := REPLACE_REF desired current (default_jump_target x),
            jump_targets := map (\<lambda>(t, b). (t, REPLACE_REF desired current b)) (jump_targets x)\<rparr>) c))
        else if opcode op = OPC_BLOCK_LABEL then
          set_op (op\<lparr>block_ref := REPLACE_REF desired current (block_ref op)\<rparr>)
        else Inl KEFIR_INVALID_REQUEST)"

end
