(* ===== verification/Kefir_Opt_Code_Inv.thy ===== *)
theory Kefir_Opt_Code_Inv
  imports Kefir_Opt_Lists Kefir_Opt_Code_Ops
begin

text \<open>
  The invariant of the optimizer code: the links of every block string together the instructions
  of the block, its control flow and its nodes, and the users of an instruction are exactly the
  instructions that have it as an input. The five lists of a block are interpretations of
  \<open>sibling_list\<close>.
\<close>

section \<open>Field access after a write\<close>

lemma upd_instr_simps [simp]:
  "code (upd_instr i f c) = (code c)[i := f (code c ! i)]" "blocks (upd_instr i f c) = blocks c"
  "phi_nodes (upd_instr i f c) = phi_nodes c" "call_nodes (upd_instr i f c) = call_nodes c"
  "inline_assembly (upd_instr i f c) = inline_assembly c"
  "entry_point (upd_instr i f c) = entry_point c" "gate_block (upd_instr i f c) = gate_block c"
  by (simp_all add: upd_instr_def)

lemma upd_block_simps [simp]:
  "blocks (upd_block b g c) = (blocks c)[b := g (blocks c ! b)]" "code (upd_block b g c) = code c"
  "phi_nodes (upd_block b g c) = phi_nodes c" "call_nodes (upd_block b g c) = call_nodes c"
  "inline_assembly (upd_block b g c) = inline_assembly c"
  "entry_point (upd_block b g c) = entry_point c" "gate_block (upd_block b g c) = gate_block c"
  by (simp_all add: upd_block_def)

lemma upd_phi_simps [simp]:
  "phi_nodes (upd_phi k f c) = (phi_nodes c)[k := f (phi_nodes c ! k)]" "code (upd_phi k f c) = code c"
  "blocks (upd_phi k f c) = blocks c" "call_nodes (upd_phi k f c) = call_nodes c"
  "inline_assembly (upd_phi k f c) = inline_assembly c"
  "entry_point (upd_phi k f c) = entry_point c" "gate_block (upd_phi k f c) = gate_block c"
  by (simp_all add: upd_phi_def)

lemma upd_call_simps [simp]:
  "call_nodes (upd_call k f c) = (call_nodes c)[k := f (call_nodes c ! k)]" "code (upd_call k f c) = code c"
  "blocks (upd_call k f c) = blocks c" "phi_nodes (upd_call k f c) = phi_nodes c"
  "inline_assembly (upd_call k f c) = inline_assembly c"
  "entry_point (upd_call k f c) = entry_point c" "gate_block (upd_call k f c) = gate_block c"
  by (simp_all add: upd_call_def)

lemma upd_asm_simps [simp]:
  "inline_assembly (upd_asm k f c) = (inline_assembly c)[k := f (inline_assembly c ! k)]"
  "code (upd_asm k f c) = code c"
  "blocks (upd_asm k f c) = blocks c" "phi_nodes (upd_asm k f c) = phi_nodes c"
  "call_nodes (upd_asm k f c) = call_nodes c"
  "entry_point (upd_asm k f c) = entry_point c" "gate_block (upd_asm k f c) = gate_block c"
  by (simp_all add: upd_asm_def)

definition upd_opt :: "nat option \<Rightarrow> ('a \<Rightarrow> 'a) \<Rightarrow> 'a list \<Rightarrow> 'a list" where
  "upd_opt r f xs = (case r of None \<Rightarrow> xs | Some i \<Rightarrow> xs[i := f (xs ! i)])"

lemma length_upd_opt [simp]: "length (upd_opt r f xs) = length xs"
  by (simp add: upd_opt_def split: option.splits)

lemma nth_update: "xs[i := v] ! j = (if i = j \<and> j < length xs then v else xs ! j)"
  by (cases "i = j"; cases "j < length xs") (auto simp: list_update_beyond)

lemma nth_upd_opt: "upd_opt r f xs ! j = (if r = Some j \<and> j < length xs then f (xs ! j) else xs ! j)"
  by (auto simp: upd_opt_def nth_update split: option.splits)

section \<open>Lookups that succeed\<close>

definition live :: "opt_code \<Rightarrow> nat \<Rightarrow> bool" where
  "live c i \<longleftrightarrow> i < length (code c) \<and> instr_block (code c ! i) \<noteq> None"

definition has_block :: "opt_code \<Rightarrow> nat \<Rightarrow> bool" where
  "has_block c b \<longleftrightarrow> b < length (blocks c)"

definition live_phi :: "opt_code \<Rightarrow> nat \<Rightarrow> bool" where
  "live_phi c k \<longleftrightarrow> k < length (phi_nodes c) \<and> phi_block (phi_nodes c ! k) \<noteq> None"

definition has_call :: "opt_code \<Rightarrow> nat \<Rightarrow> bool" where
  "has_call c k \<longleftrightarrow> k < length (call_nodes c)"

definition has_asm :: "opt_code \<Rightarrow> nat \<Rightarrow> bool" where
  "has_asm c k \<longleftrightarrow> k < length (inline_assembly c)"

lemma instr_mutable_eq [simp]: "code_container_instr_mutable c r = Inr i \<longleftrightarrow> r = Some i \<and> live c i"
  by (auto simp: code_container_instr_mutable_def live_def split: option.splits)

lemma block_mutable_eq [simp]: "code_container_block_mutable c r = Inr b \<longleftrightarrow> r = Some b \<and> has_block c b"
  by (auto simp: code_container_block_mutable_def has_block_def split: option.splits)

lemma phi_mutable_eq [simp]: "code_container_phi_mutable c r = Inr k \<longleftrightarrow> r = Some k \<and> live_phi c k"
  by (auto simp: code_container_phi_mutable_def live_phi_def split: option.splits)

lemma call_mutable_eq [simp]: "code_container_call_mutable c r = Inr k \<longleftrightarrow> r = Some k \<and> has_call c k"
  by (auto simp: code_container_call_mutable_def has_call_def split: option.splits)

lemma asm_mutable_eq [simp]: "code_container_inline_assembly_mutable c r = Inr k \<longleftrightarrow> r = Some k \<and> has_asm c k"
  by (auto simp: code_container_inline_assembly_mutable_def has_asm_def split: option.splits)

lemma mutable_ok [simp]:
  "live c i \<Longrightarrow> code_container_instr_mutable c (Some i) = Inr i"
  "has_block c b \<Longrightarrow> code_container_block_mutable c (Some b) = Inr b"
  "live_phi c k \<Longrightarrow> code_container_phi_mutable c (Some k) = Inr k"
  "has_call c k \<Longrightarrow> code_container_call_mutable c (Some k) = Inr k"
  "has_asm c k \<Longrightarrow> code_container_inline_assembly_mutable c (Some k) = Inr k"
  by simp_all

section \<open>The five lists of a block\<close>

lemma unlink_instr_links:
  assumes "has_block c b" "live c i"
    "\<forall>j. sib_prev (code c ! i) = Some j \<or> sib_next (code c ! i) = Some j \<longrightarrow> live c j \<and> j \<noteq> i"
  shows "\<exists>c'. unlink_instr c b i = Inr c' \<and>
    (\<lambda>b'. content_head (blocks c' ! b')) = (\<lambda>b'. content_head (blocks c ! b'))(b :=
        if content_head (blocks c ! b) = Some i then sib_next (code c ! i) else content_head (blocks c ! b)) \<and>
    (\<lambda>b'. content_tail (blocks c' ! b')) = (\<lambda>b'. content_tail (blocks c ! b'))(b :=
        if content_tail (blocks c ! b) = Some i then sib_prev (code c ! i) else content_tail (blocks c ! b)) \<and>
    (\<forall>j. sib_prev (code c' ! j) = (if j = i then None else
        if sib_next (code c ! i) = Some j then sib_prev (code c ! i) else sib_prev (code c ! j))) \<and>
    (\<forall>j. sib_next (code c' ! j) = (if j = i then None else
        if sib_prev (code c ! i) = Some j then sib_next (code c ! i) else sib_next (code c ! j)))"
  using assms
  by (cases "sib_prev (code c ! i)"; cases "sib_next (code c ! i)")
     (simp_all add: unlink_instr_def Let_def live_def has_block_def code_container_instr_mutable_def nth_list_update fun_eq_iff split: if_splits)

lemma unlink_instr_form:
  assumes "unlink_instr c b i = Inr c'" "has_block c b"
  shows "blocks c' = (blocks c)[b := (blocks c ! b)\<lparr>
      content_head := (if content_head (blocks c ! b) = Some i then sib_next (code c ! i) else content_head (blocks c ! b)),
      content_tail := (if content_tail (blocks c ! b) = Some i then sib_prev (code c ! i) else content_tail (blocks c ! b))\<rparr>]"
    "code c' = upd_opt (Some i) (\<lambda>x. x\<lparr>sib_prev := None, sib_next := None, instr_block := None\<rparr>)
      (upd_opt (sib_next (code c ! i)) (\<lambda>x. x\<lparr>sib_prev := sib_prev (code c ! i)\<rparr>)
        (upd_opt (sib_prev (code c ! i)) (\<lambda>x. x\<lparr>sib_next := sib_next (code c ! i)\<rparr>) (code c)))"
    "phi_nodes c' = phi_nodes c"
    "call_nodes c' = call_nodes c"
    "inline_assembly c' = inline_assembly c"
    "entry_point c' = entry_point c"
    "gate_block c' = gate_block c"
  using assms
  by (cases "sib_prev (code c ! i)"; cases "sib_next (code c ! i)";
      auto simp: unlink_instr_def Let_def bindE_iffs upd_opt_def has_block_def)+

interpretation content: sibling_list "\<lambda>c b. content_head (blocks c ! b)" "\<lambda>c b. content_tail (blocks c ! b)"
    "\<lambda>c i. sib_prev (code c ! i)" "\<lambda>c i. sib_next (code c ! i)" has_block live unlink_instr
  by unfold_locales (rule unlink_instr_links)

lemma control_flow_remove_links:
  assumes "has_block c b" "live c i"
    "\<forall>j. cf_prev (code c ! i) = Some j \<or> cf_next (code c ! i) = Some j \<longrightarrow> live c j \<and> j \<noteq> i"
  shows "\<exists>c'. control_flow_remove c b i = Inr c' \<and>
    (\<lambda>b'. control_head (blocks c' ! b')) = (\<lambda>b'. control_head (blocks c ! b'))(b :=
        if control_head (blocks c ! b) = Some i then cf_next (code c ! i) else control_head (blocks c ! b)) \<and>
    (\<lambda>b'. control_tail (blocks c' ! b')) = (\<lambda>b'. control_tail (blocks c ! b'))(b :=
        if control_tail (blocks c ! b) = Some i then cf_prev (code c ! i) else control_tail (blocks c ! b)) \<and>
    (\<forall>j. cf_prev (code c' ! j) = (if j = i then None else
        if cf_next (code c ! i) = Some j then cf_prev (code c ! i) else cf_prev (code c ! j))) \<and>
    (\<forall>j. cf_next (code c' ! j) = (if j = i then None else
        if cf_prev (code c ! i) = Some j then cf_next (code c ! i) else cf_next (code c ! j)))"
  using assms
  by (cases "cf_prev (code c ! i)"; cases "cf_next (code c ! i)")
     (simp_all add: control_flow_remove_def Let_def live_def has_block_def code_container_instr_mutable_def nth_list_update fun_eq_iff split: if_splits)

lemma control_flow_remove_form:
  assumes "control_flow_remove c b i = Inr c'" "has_block c b"
  shows "blocks c' = (blocks c)[b := (blocks c ! b)\<lparr>
      control_head := (if control_head (blocks c ! b) = Some i then cf_next (code c ! i) else control_head (blocks c ! b)),
      control_tail := (if control_tail (blocks c ! b) = Some i then cf_prev (code c ! i) else control_tail (blocks c ! b))\<rparr>]"
    "code c' = upd_opt (Some i) (\<lambda>x. x\<lparr>cf_prev := None, cf_next := None\<rparr>)
      (upd_opt (cf_next (code c ! i)) (\<lambda>x. x\<lparr>cf_prev := cf_prev (code c ! i)\<rparr>)
        (upd_opt (cf_prev (code c ! i)) (\<lambda>x. x\<lparr>cf_next := cf_next (code c ! i)\<rparr>) (code c)))"
    "phi_nodes c' = phi_nodes c"
    "call_nodes c' = call_nodes c"
    "inline_assembly c' = inline_assembly c"
    "entry_point c' = entry_point c"
    "gate_block c' = gate_block c"
  using assms
  by (cases "cf_prev (code c ! i)"; cases "cf_next (code c ! i)";
      auto simp: control_flow_remove_def Let_def bindE_iffs upd_opt_def has_block_def)+

interpretation control: sibling_list "\<lambda>c b. control_head (blocks c ! b)" "\<lambda>c b. control_tail (blocks c ! b)"
    "\<lambda>c i. cf_prev (code c ! i)" "\<lambda>c i. cf_next (code c ! i)" has_block live control_flow_remove
  by unfold_locales (rule control_flow_remove_links)

lemma unlink_phi_links:
  assumes "has_block c b" "live_phi c i"
    "\<forall>j. phi_prev (phi_nodes c ! i) = Some j \<or> phi_next (phi_nodes c ! i) = Some j \<longrightarrow> live_phi c j \<and> j \<noteq> i"
  shows "\<exists>c'. unlink_phi c b i = Inr c' \<and>
    (\<lambda>b'. phi_head (blocks c' ! b')) = (\<lambda>b'. phi_head (blocks c ! b'))(b :=
        if phi_head (blocks c ! b) = Some i then phi_next (phi_nodes c ! i) else phi_head (blocks c ! b)) \<and>
    (\<lambda>b'. phi_tail (blocks c' ! b')) = (\<lambda>b'. phi_tail (blocks c ! b'))(b :=
        if phi_tail (blocks c ! b) = Some i then phi_prev (phi_nodes c ! i) else phi_tail (blocks c ! b)) \<and>
    (\<forall>j. phi_prev (phi_nodes c' ! j) = (if j = i then None else
        if phi_next (phi_nodes c ! i) = Some j then phi_prev (phi_nodes c ! i) else phi_prev (phi_nodes c ! j))) \<and>
    (\<forall>j. phi_next (phi_nodes c' ! j) = (if j = i then None else
        if phi_prev (phi_nodes c ! i) = Some j then phi_next (phi_nodes c ! i) else phi_next (phi_nodes c ! j)))"
  using assms
  by (cases "phi_prev (phi_nodes c ! i)"; cases "phi_next (phi_nodes c ! i)")
     (simp_all add: unlink_phi_def Let_def live_phi_def has_block_def code_container_phi_mutable_def nth_list_update fun_eq_iff split: if_splits)

lemma unlink_phi_form:
  assumes "unlink_phi c b i = Inr c'" "has_block c b"
  shows "blocks c' = (blocks c)[b := (blocks c ! b)\<lparr>
      phi_head := (if phi_head (blocks c ! b) = Some i then phi_next (phi_nodes c ! i) else phi_head (blocks c ! b)),
      phi_tail := (if phi_tail (blocks c ! b) = Some i then phi_prev (phi_nodes c ! i) else phi_tail (blocks c ! b))\<rparr>]"
    "phi_nodes c' = upd_opt (Some i) (\<lambda>x. x\<lparr>phi_prev := None, phi_next := None, phi_block := None\<rparr>)
      (upd_opt (phi_next (phi_nodes c ! i)) (\<lambda>x. x\<lparr>phi_prev := phi_prev (phi_nodes c ! i)\<rparr>)
        (upd_opt (phi_prev (phi_nodes c ! i)) (\<lambda>x. x\<lparr>phi_next := phi_next (phi_nodes c ! i)\<rparr>) (phi_nodes c)))"
    "code c' = code c"
    "call_nodes c' = call_nodes c"
    "inline_assembly c' = inline_assembly c"
    "entry_point c' = entry_point c"
    "gate_block c' = gate_block c"
  using assms
  by (cases "phi_prev (phi_nodes c ! i)"; cases "phi_next (phi_nodes c ! i)";
      auto simp: unlink_phi_def Let_def bindE_iffs upd_opt_def has_block_def)+

interpretation phi: sibling_list "\<lambda>c b. phi_head (blocks c ! b)" "\<lambda>c b. phi_tail (blocks c ! b)"
    "\<lambda>c i. phi_prev (phi_nodes c ! i)" "\<lambda>c i. phi_next (phi_nodes c ! i)" has_block live_phi unlink_phi
  by unfold_locales (rule unlink_phi_links)

lemma unlink_call_links:
  assumes "has_block c b" "has_call c i"
    "\<forall>j. call_prev (call_nodes c ! i) = Some j \<or> call_next (call_nodes c ! i) = Some j \<longrightarrow> has_call c j \<and> j \<noteq> i"
  shows "\<exists>c'. unlink_call c b i = Inr c' \<and>
    (\<lambda>b'. call_head (blocks c' ! b')) = (\<lambda>b'. call_head (blocks c ! b'))(b :=
        if call_head (blocks c ! b) = Some i then call_next (call_nodes c ! i) else call_head (blocks c ! b)) \<and>
    (\<lambda>b'. call_tail (blocks c' ! b')) = (\<lambda>b'. call_tail (blocks c ! b'))(b :=
        if call_tail (blocks c ! b) = Some i then call_prev (call_nodes c ! i) else call_tail (blocks c ! b)) \<and>
    (\<forall>j. call_prev (call_nodes c' ! j) = (if j = i then None else
        if call_next (call_nodes c ! i) = Some j then call_prev (call_nodes c ! i) else call_prev (call_nodes c ! j))) \<and>
    (\<forall>j. call_next (call_nodes c' ! j) = (if j = i then None else
        if call_prev (call_nodes c ! i) = Some j then call_next (call_nodes c ! i) else call_next (call_nodes c ! j)))"
  using assms
  by (cases "call_prev (call_nodes c ! i)"; cases "call_next (call_nodes c ! i)")
     (simp_all add: unlink_call_def Let_def has_call_def has_block_def code_container_call_mutable_def nth_list_update fun_eq_iff split: if_splits)

lemma unlink_call_form:
  assumes "unlink_call c b i = Inr c'" "has_block c b"
  shows "blocks c' = (blocks c)[b := (blocks c ! b)\<lparr>
      call_head := (if call_head (blocks c ! b) = Some i then call_next (call_nodes c ! i) else call_head (blocks c ! b)),
      call_tail := (if call_tail (blocks c ! b) = Some i then call_prev (call_nodes c ! i) else call_tail (blocks c ! b))\<rparr>]"
    "call_nodes c' = upd_opt (Some i) (\<lambda>x. x\<lparr>call_prev := None, call_next := None, call_block := None\<rparr>)
      (upd_opt (call_next (call_nodes c ! i)) (\<lambda>x. x\<lparr>call_prev := call_prev (call_nodes c ! i)\<rparr>)
        (upd_opt (call_prev (call_nodes c ! i)) (\<lambda>x. x\<lparr>call_next := call_next (call_nodes c ! i)\<rparr>) (call_nodes c)))"
    "code c' = code c"
    "phi_nodes c' = phi_nodes c"
    "inline_assembly c' = inline_assembly c"
    "entry_point c' = entry_point c"
    "gate_block c' = gate_block c"
  using assms
  by (cases "call_prev (call_nodes c ! i)"; cases "call_next (call_nodes c ! i)";
      auto simp: unlink_call_def Let_def bindE_iffs upd_opt_def has_block_def)+

interpretation call: sibling_list "\<lambda>c b. call_head (blocks c ! b)" "\<lambda>c b. call_tail (blocks c ! b)"
    "\<lambda>c i. call_prev (call_nodes c ! i)" "\<lambda>c i. call_next (call_nodes c ! i)" has_block has_call unlink_call
  by unfold_locales (rule unlink_call_links)

lemma unlink_asm_links:
  assumes "has_block c b" "has_asm c i"
    "\<forall>j. asm_prev (inline_assembly c ! i) = Some j \<or> asm_next (inline_assembly c ! i) = Some j \<longrightarrow> has_asm c j \<and> j \<noteq> i"
  shows "\<exists>c'. unlink_asm c b i = Inr c' \<and>
    (\<lambda>b'. asm_head (blocks c' ! b')) = (\<lambda>b'. asm_head (blocks c ! b'))(b :=
        if asm_head (blocks c ! b) = Some i then asm_next (inline_assembly c ! i) else asm_head (blocks c ! b)) \<and>
    (\<lambda>b'. asm_tail (blocks c' ! b')) = (\<lambda>b'. asm_tail (blocks c ! b'))(b :=
        if asm_tail (blocks c ! b) = Some i then asm_prev (inline_assembly c ! i) else asm_tail (blocks c ! b)) \<and>
    (\<forall>j. asm_prev (inline_assembly c' ! j) = (if j = i then None else
        if asm_next (inline_assembly c ! i) = Some j then asm_prev (inline_assembly c ! i) else asm_prev (inline_assembly c ! j))) \<and>
    (\<forall>j. asm_next (inline_assembly c' ! j) = (if j = i then None else
        if asm_prev (inline_assembly c ! i) = Some j then asm_next (inline_assembly c ! i) else asm_next (inline_assembly c ! j)))"
  using assms
  by (cases "asm_prev (inline_assembly c ! i)"; cases "asm_next (inline_assembly c ! i)")
     (simp_all add: unlink_asm_def Let_def has_asm_def has_block_def code_container_inline_assembly_mutable_def nth_list_update fun_eq_iff split: if_splits)

lemma unlink_asm_form:
  assumes "unlink_asm c b i = Inr c'" "has_block c b"
  shows "blocks c' = (blocks c)[b := (blocks c ! b)\<lparr>
      asm_head := (if asm_head (blocks c ! b) = Some i then asm_next (inline_assembly c ! i) else asm_head (blocks c ! b)),
      asm_tail := (if asm_tail (blocks c ! b) = Some i then asm_prev (inline_assembly c ! i) else asm_tail (blocks c ! b))\<rparr>]"
    "inline_assembly c' = upd_opt (Some i) (\<lambda>x. x\<lparr>asm_prev := None, asm_next := None, asm_block := None\<rparr>)
      (upd_opt (asm_next (inline_assembly c ! i)) (\<lambda>x. x\<lparr>asm_prev := asm_prev (inline_assembly c ! i)\<rparr>)
        (upd_opt (asm_prev (inline_assembly c ! i)) (\<lambda>x. x\<lparr>asm_next := asm_next (inline_assembly c ! i)\<rparr>) (inline_assembly c)))"
    "code c' = code c"
    "phi_nodes c' = phi_nodes c"
    "call_nodes c' = call_nodes c"
    "entry_point c' = entry_point c"
    "gate_block c' = gate_block c"
  using assms
  by (cases "asm_prev (inline_assembly c ! i)"; cases "asm_next (inline_assembly c ! i)";
      auto simp: unlink_asm_def Let_def bindE_iffs upd_opt_def has_block_def)+

interpretation asm: sibling_list "\<lambda>c b. asm_head (blocks c ! b)" "\<lambda>c b. asm_tail (blocks c ! b)"
    "\<lambda>c i. asm_prev (inline_assembly c ! i)" "\<lambda>c i. asm_next (inline_assembly c ! i)" has_block has_asm unlink_asm
  by unfold_locales (rule unlink_asm_links)

section \<open>The invariant\<close>

text \<open>
  \<open>lists_ok c L C\<close>: block \<open>b\<close> holds the instructions \<open>L b\<close>, those that are not dropped and name the
  block, and orders the instructions \<open>C b\<close> among them.
\<close>

definition lists_ok :: "opt_code \<Rightarrow> (nat \<Rightarrow> nat list) \<Rightarrow> (nat \<Rightarrow> nat list) \<Rightarrow> bool" where
  "lists_ok c L C \<longleftrightarrow>
     (\<forall>i < length (code c). instr_id (code c ! i) = i) \<and>
     (\<forall>b < length (blocks c). block_key (blocks c ! b) = b) \<and>
     (\<forall>i b. i < length (code c) \<longrightarrow> instr_block (code c ! i) = Some b \<longrightarrow> has_block c b) \<and>
     (\<forall>b. has_block c b \<longrightarrow> content.chained c b (L b) \<and>
        set (L b) = {i. i < length (code c) \<and> instr_block (code c ! i) = Some b}) \<and>
     (\<forall>b. has_block c b \<longrightarrow> control.chained c b (C b) \<and> set (C b) \<subseteq> set (L b)) \<and>
     (\<forall>b i. has_block c b \<longrightarrow> i \<in> set (L b) - set (C b) \<longrightarrow>
        cf_prev (code c ! i) = None \<and> cf_next (code c ! i) = None)"

text \<open>An operation as the optimizer builds it.\<close>

definition op_ok :: "opt_operation \<Rightarrow> bool" where
  "op_ok op \<longleftrightarrow> length (refs op) = 4 \<and>
     (opcode op = OPC_JUMP \<longrightarrow> condition_ref op = None) \<and>
     (opcode op = OPC_INVOKE \<or> opcode op = OPC_TAIL_INVOKE \<longrightarrow> indirect_ref op = None) \<and>
     (\<forall>cls s. opcode op = OPC_OTHER cls s \<longrightarrow>
        cls \<notin> {Class_phi_ref, Class_call_ref, Class_inline_asm, Class_branch, Class_bitint_atomic})"

text \<open>The node of a phi, a call or an inline assembly belongs to its instruction and to its block.\<close>

definition phis_ok :: "opt_code \<Rightarrow> bool" where
  "phis_ok c \<longleftrightarrow>
     (\<forall>i. live c i \<longrightarrow> opcode (operation (code c ! i)) = OPC_PHI \<longrightarrow>
        (\<exists>k. phi_ref (operation (code c ! i)) = Some k \<and> live_phi c k \<and>
             phi_output (phi_nodes c ! k) = Some i \<and> phi_block (phi_nodes c ! k) = instr_block (code c ! i))) \<and>
     (\<forall>k b. k < length (phi_nodes c) \<longrightarrow> phi_block (phi_nodes c ! k) = Some b \<longrightarrow>
        (\<exists>i. phi_output (phi_nodes c ! k) = Some i \<and> live c i \<and> opcode (operation (code c ! i)) = OPC_PHI \<and>
             phi_ref (operation (code c ! i)) = Some k \<and> instr_block (code c ! i) = Some b)) \<and>
     (\<forall>k < length (phi_nodes c). distinct (map fst (links (phi_nodes c ! k)))) \<and>
     (\<forall>b. has_block c b \<longrightarrow> (\<exists>ks. phi.chained c b ks \<and>
        set ks = {k. k < length (phi_nodes c) \<and> phi_block (phi_nodes c ! k) = Some b}))"

definition calls_ok :: "opt_code \<Rightarrow> bool" where
  "calls_ok c \<longleftrightarrow>
     (\<forall>i. live c i \<longrightarrow> is_call (opcode (operation (code c ! i))) \<longrightarrow>
        (\<exists>k. call_ref (operation (code c ! i)) = Some k \<and> has_call c k \<and>
             call_output (call_nodes c ! k) = Some i \<and> call_block (call_nodes c ! k) = instr_block (code c ! i))) \<and>
     (\<forall>k b. has_call c k \<longrightarrow> call_block (call_nodes c ! k) = Some b \<longrightarrow>
        (\<exists>i. call_output (call_nodes c ! k) = Some i \<and> live c i \<and> is_call (opcode (operation (code c ! i))) \<and>
             call_ref (operation (code c ! i)) = Some k \<and> instr_block (code c ! i) = Some b)) \<and>
     (\<forall>b. has_block c b \<longrightarrow> (\<exists>ks. call.chained c b ks \<and>
        set ks = {k. has_call c k \<and> call_block (call_nodes c ! k) = Some b}))"

definition asms_ok :: "opt_code \<Rightarrow> bool" where
  "asms_ok c \<longleftrightarrow>
     (\<forall>i. live c i \<longrightarrow> opcode (operation (code c ! i)) = OPC_INLINE_ASSEMBLY \<longrightarrow>
        (\<exists>k. inline_asm_ref (operation (code c ! i)) = Some k \<and> has_asm c k \<and>
             asm_output (inline_assembly c ! k) = Some i \<and>
             asm_block (inline_assembly c ! k) = instr_block (code c ! i))) \<and>
     (\<forall>k b. has_asm c k \<longrightarrow> asm_block (inline_assembly c ! k) = Some b \<longrightarrow>
        (\<exists>i. asm_output (inline_assembly c ! k) = Some i \<and> live c i \<and>
             opcode (operation (code c ! i)) = OPC_INLINE_ASSEMBLY \<and>
             inline_asm_ref (operation (code c ! i)) = Some k \<and> instr_block (code c ! i) = Some b)) \<and>
     (\<forall>b. has_block c b \<longrightarrow> (\<exists>ks. asm.chained c b ks \<and>
        set ks = {k. has_asm c k \<and> asm_block (inline_assembly c ! k) = Some b}))"

text \<open>The users of an instruction are the instructions with it as an input, and no input is dropped.\<close>

definition inputs :: "opt_code \<Rightarrow> nat \<Rightarrow> ref list result" where
  "inputs c u = kefir_opt_instruction_extract_inputs c (code c ! u) False"

definition has_input :: "opt_code \<Rightarrow> nat \<Rightarrow> nat \<Rightarrow> bool" where
  "has_input c u i \<longleftrightarrow> (\<exists>rs. inputs c u = Inr rs \<and> Some i \<in> set rs)"

definition inputs_ok :: "opt_code \<Rightarrow> bool" where
  "inputs_ok c \<longleftrightarrow> (\<forall>u. live c u \<longrightarrow> op_ok (operation (code c ! u)) \<and>
     (\<exists>rs. inputs c u = Inr rs \<and> (\<forall>i. Some i \<in> set rs \<longrightarrow> live c i)))"

text \<open>Weaker: the inputs are instructions of the array, and only those of the instructions in \<open>A\<close> are not dropped.\<close>

definition inputs_defined :: "opt_code \<Rightarrow> bool" where
  "inputs_defined c \<longleftrightarrow> (\<forall>u. live c u \<longrightarrow> op_ok (operation (code c ! u)) \<and>
     (\<exists>rs. inputs c u = Inr rs \<and> (\<forall>i. Some i \<in> set rs \<longrightarrow> i < length (code c))))"

definition inputs_upto :: "nat set \<Rightarrow> opt_code \<Rightarrow> bool" where
  "inputs_upto A c \<longleftrightarrow> inputs_defined c \<and> (\<forall>u j. u \<in> A \<longrightarrow> live c u \<longrightarrow> has_input c u j \<longrightarrow> live c j)"

definition uses_ok :: "opt_code \<Rightarrow> bool" where
  "uses_ok c \<longleftrightarrow> (\<forall>i. live c i \<longrightarrow> sorted (uses (code c ! i)) \<and> distinct (uses (code c ! i)) \<and>
     (\<forall>u. u \<in> set (uses (code c ! i)) \<longleftrightarrow> live c u \<and> has_input c u i))"

text \<open>The users of all instructions but one are right.\<close>

definition users_but :: "nat \<Rightarrow> opt_code \<Rightarrow> bool" where
  "users_but x c \<longleftrightarrow> (\<forall>i. live c i \<longrightarrow> i \<noteq> x \<longrightarrow> sorted (uses (code c ! i)) \<and> distinct (uses (code c ! i)) \<and>
     (\<forall>u. u \<in> set (uses (code c ! i)) \<longleftrightarrow> live c u \<and> has_input c u i))"

definition code_ok :: "opt_code \<Rightarrow> (nat \<Rightarrow> nat list) \<Rightarrow> (nat \<Rightarrow> nat list) \<Rightarrow> bool" where
  "code_ok c L C \<longleftrightarrow> lists_ok c L C \<and> phis_ok c \<and> calls_ok c \<and> asms_ok c \<and> inputs_ok c \<and> uses_ok c"

section \<open>Changes that keep the inputs\<close>

lemma extract_inputs_cong:
  assumes "operation x' = operation x"
    and "opcode_class_of (opcode (operation x)) = Class_phi_ref \<Longrightarrow>
         extract_inputs_phi_ref c' x' rp = extract_inputs_phi_ref c x rp"
    and "opcode_class_of (opcode (operation x)) = Class_call_ref \<Longrightarrow>
         extract_inputs_call_ref c' (operation x) = extract_inputs_call_ref c (operation x)"
    and "opcode_class_of (opcode (operation x)) = Class_inline_asm \<Longrightarrow>
         extract_inputs_inline_asm c' (operation x) = extract_inputs_inline_asm c (operation x)"
  shows "kefir_opt_instruction_extract_inputs c' x' rp = kefir_opt_instruction_extract_inputs c x rp"
  using assms
  by (cases "opcode_class_of (opcode (operation x))") (auto simp: kefir_opt_instruction_extract_inputs_def)

text \<open>Two containers that differ in links and users only.\<close>

definition same_ops :: "opt_code \<Rightarrow> opt_code \<Rightarrow> bool" where
  "same_ops c c' \<longleftrightarrow> length (code c') = length (code c) \<and>
     (\<forall>i < length (code c). operation (code c' ! i) = operation (code c ! i) \<and>
        instr_id (code c' ! i) = instr_id (code c ! i) \<and>
        instr_block (code c' ! i) = instr_block (code c ! i)) \<and>
     phi_nodes c' = phi_nodes c \<and> call_nodes c' = call_nodes c \<and> inline_assembly c' = inline_assembly c"

lemma same_ops_refl [simp]: "same_ops c c"
  by (simp add: same_ops_def)

lemma same_ops_trans: "same_ops c c' \<Longrightarrow> same_ops c' c'' \<Longrightarrow> same_ops c c''"
  by (auto simp: same_ops_def)

lemma same_ops_live: "same_ops c c' \<Longrightarrow> live c' = live c"
  by (auto simp: same_ops_def live_def fun_eq_iff)

lemma same_ops_inputs:
  assumes "same_ops c c'" "u < length (code c)"
  shows "inputs c' u = inputs c u"
  unfolding inputs_def
proof (rule extract_inputs_cong)
  have o: "operation (code c' ! u) = operation (code c ! u)" "instr_id (code c' ! u) = instr_id (code c ! u)"
    "phi_nodes c' = phi_nodes c" "call_nodes c' = call_nodes c" "inline_assembly c' = inline_assembly c"
    using assms by (auto simp: same_ops_def)
  then show "operation (code c' ! u) = operation (code c ! u)" by simp
  have m: "code_container_instr_mutable c' r = code_container_instr_mutable c r" for r
    using assms(1) by (auto simp: code_container_instr_mutable_def same_ops_def split: option.splits)
  have k: "code_container_phi_mutable c' r = code_container_phi_mutable c r" for r
    by (simp add: code_container_phi_mutable_def o(3) split: option.split)
  have "phi_link_values c' r = phi_link_values c r" for r
    using assms(1) by (auto simp: phi_link_values_def m k o(3) same_ops_def live_def intro!: bindE_cong)
  then show "extract_inputs_phi_ref c' (code c' ! u) False = extract_inputs_phi_ref c (code c ! u) False"
    by (simp add: extract_inputs_phi_ref_def o)
  show "extract_inputs_call_ref c' (operation (code c ! u)) = extract_inputs_call_ref c (operation (code c ! u))"
    by (simp add: extract_inputs_call_ref_def code_container_call_mutable_def o split: option.split)
  show "extract_inputs_inline_asm c' (operation (code c ! u)) = extract_inputs_inline_asm c (operation (code c ! u))"
    by (simp add: extract_inputs_inline_asm_def code_container_inline_assembly_mutable_def o split: option.split)
qed

lemma same_ops_has_input: "same_ops c c' \<Longrightarrow> u < length (code c) \<Longrightarrow> has_input c' u i = has_input c u i"
  by (simp add: has_input_def same_ops_inputs)

lemma same_ops_inputs_ok: "same_ops c c' \<Longrightarrow> inputs_ok c' = inputs_ok c"
  unfolding inputs_ok_def
  by (metis (no_types, lifting) live_def same_ops_def same_ops_inputs same_ops_live)

lemma same_ops_inputs_defined: "same_ops c c' \<Longrightarrow> inputs_defined c' = inputs_defined c"
  unfolding inputs_defined_def
  by (intro iff_allI) (auto simp: same_ops_live same_ops_inputs same_ops_def live_def)

lemma inputs_definedD:
  assumes "inputs_defined c" "live c u"
  shows "op_ok (operation (code c ! u))" "\<exists>rs. inputs c u = Inr rs"
  using assms unfolding inputs_defined_def by auto

lemma inputs_upto_UNIV: "inputs_upto UNIV c \<longleftrightarrow> inputs_ok c"
proof -
  have "live c i \<Longrightarrow> i < length (code c)" for i by (simp add: live_def)
  then show ?thesis
    unfolding inputs_upto_def inputs_defined_def inputs_ok_def has_input_def by (metis UNIV_I sum.inject(2))
qed

lemma same_ops_uses_ok:
  assumes "same_ops c c'" "\<And>i. i < length (code c) \<Longrightarrow> uses (code c' ! i) = uses (code c ! i)"
  shows "uses_ok c' = uses_ok c"
  unfolding uses_ok_def same_ops_live [OF assms(1)]
  using assms same_ops_has_input [OF assms(1)] by (metis live_def)

section \<open>Changes of the users\<close>

definition uses_only :: "opt_code \<Rightarrow> opt_code \<Rightarrow> bool" where
  "uses_only c c' \<longleftrightarrow> length (code c') = length (code c) \<and>
     (\<forall>i. (code c' ! i)\<lparr>uses := []\<rparr> = (code c ! i)\<lparr>uses := []\<rparr>) \<and> blocks c' = blocks c \<and>
     phi_nodes c' = phi_nodes c \<and> call_nodes c' = call_nodes c \<and> inline_assembly c' = inline_assembly c \<and>
     entry_point c' = entry_point c \<and> gate_block c' = gate_block c"

lemma uses_only_refl [simp]: "uses_only c c"
  by (simp add: uses_only_def)

lemma uses_only_length: "uses_only c c' \<Longrightarrow> length (code c') = length (code c)"
  by (simp add: uses_only_def)

lemma uses_only_trans: "uses_only c c' \<Longrightarrow> uses_only c' c'' \<Longrightarrow> uses_only c c''"
  by (simp add: uses_only_def)

lemma uses_only_fields:
  assumes "uses_only c c'"
  shows "instr_id (code c' ! i) = instr_id (code c ! i)" "instr_block (code c' ! i) = instr_block (code c ! i)"
    "operation (code c' ! i) = operation (code c ! i)"
    "sib_prev (code c' ! i) = sib_prev (code c ! i)" "sib_next (code c' ! i) = sib_next (code c ! i)"
    "cf_prev (code c' ! i) = cf_prev (code c ! i)" "cf_next (code c' ! i) = cf_next (code c ! i)"
proof -
  have e: "(code c' ! i)\<lparr>uses := []\<rparr> = (code c ! i)\<lparr>uses := []\<rparr>"
    using assms by (simp add: uses_only_def)
  show "instr_id (code c' ! i) = instr_id (code c ! i)" using arg_cong [OF e, of instr_id] by simp
  show "instr_block (code c' ! i) = instr_block (code c ! i)" using arg_cong [OF e, of instr_block] by simp
  show "operation (code c' ! i) = operation (code c ! i)" using arg_cong [OF e, of operation] by simp
  show "sib_prev (code c' ! i) = sib_prev (code c ! i)" using arg_cong [OF e, of sib_prev] by simp
  show "sib_next (code c' ! i) = sib_next (code c ! i)" using arg_cong [OF e, of sib_next] by simp
  show "cf_prev (code c' ! i) = cf_prev (code c ! i)" using arg_cong [OF e, of cf_prev] by simp
  show "cf_next (code c' ! i) = cf_next (code c ! i)" using arg_cong [OF e, of cf_next] by simp
qed

lemma uses_only_same_ops: "uses_only c c' \<Longrightarrow> same_ops c c'"
  using uses_only_fields [of c c'] by (auto simp: same_ops_def uses_only_def)

lemmas uses_only_live = same_ops_live [OF uses_only_same_ops]

lemma uses_only_structure:
  assumes "uses_only c c'"
  shows "lists_ok c' L C = lists_ok c L C" "phis_ok c' = phis_ok c" "calls_ok c' = calls_ok c"
    "asms_ok c' = asms_ok c"
  using uses_only_live [OF assms] uses_only_fields [OF assms] assms
  by (simp_all add: lists_ok_def phis_ok_def calls_ok_def asms_ok_def uses_only_def has_block_def live_phi_def
      has_call_def has_asm_def content.chained_def control.chained_def phi.chained_def call.chained_def
      asm.chained_def)

lemma uses_update [simp]:
  "uses_only c (upd_instr i (\<lambda>x. x\<lparr>uses := f x\<rparr>) c)"
  by (auto simp: uses_only_def nth_update)

lemma set_uses_add [simp]: "set (uses_add u us) = insert u (set us)"
  by (auto simp: uses_add_def set_insort_key)

lemma set_uses_delete [simp]: "set (uses_delete u us) = set us - {u}"
  by (auto simp: uses_delete_def)

lemma uses_add_order: "sorted us \<Longrightarrow> distinct us \<Longrightarrow> sorted (uses_add u us) \<and> distinct (uses_add u us)"
  by (auto simp: uses_add_def sorted_insort distinct_insort)

lemma uses_delete_order: "sorted us \<Longrightarrow> distinct us \<Longrightarrow> sorted (uses_delete u us) \<and> distinct (uses_delete u us)"
  by (auto simp: uses_delete_def sorted_wrt_filter)

lemma uses_add_twice [simp]: "uses_add u (uses_add u us) = uses_add u us"
  unfolding uses_add_def by (simp add: set_insort_key)

lemma uses_delete_twice [simp]: "uses_delete u (uses_delete u us) = uses_delete u us"
  by (simp add: uses_delete_def)

lemma add_used_eq:
  assumes "live c i"
  shows "\<exists>c'. add_used_instructions c u (Some i) = Inr c' \<and> uses_only c c' \<and>
    (\<forall>j. uses (code c' ! j) = (if j = i then uses_add u (uses (code c ! j)) else uses (code c ! j)))"
  using assms by (auto simp: add_used_instructions_def nth_update live_def)

lemma remove_used_eq:
  assumes "live c i"
  shows "\<exists>c'. remove_used_instructions c u (Some i) = Inr c' \<and> uses_only c c' \<and>
    (\<forall>j. uses (code c' ! j) = (if j = i then uses_delete u (uses (code c ! j)) else uses (code c ! j)))"
  using assms by (auto simp: remove_used_instructions_def nth_update live_def)

lemma drop_uses_callback_eq:
  assumes "i < length (code c)"
  shows "\<exists>c'. drop_uses_callback c u (Some i) = Inr c' \<and> uses_only c c' \<and>
    (\<forall>j. uses (code c' ! j) = (if j = i \<and> live c i then uses_delete u (uses (code c ! j)) else uses (code c ! j)))"
proof (cases "live c i")
  case True
  then show ?thesis
    using remove_used_eq [OF True, of u] by (auto simp: drop_uses_callback_def)
next
  case False
  then have "code_container_instr_mutable c (Some i) = Inl KEFIR_NOT_FOUND"
    using assms by (auto simp: live_def code_container_instr_mutable_def)
  then show ?thesis
    using False by (simp add: drop_uses_callback_def remove_used_instructions_def)
qed

text \<open>A step that changes the users of one live instruction, repeated over a list of references.\<close>

lemma for_each_uses:
  assumes step: "\<And>c i. P c i \<Longrightarrow> \<exists>c'. f c (Some i) = Inr c' \<and> uses_only c c' \<and>
      (\<forall>j. uses (code c' ! j) = (if j = i \<and> Q c i then g (uses (code c ! j)) else uses (code c ! j)))"
    and stable: "\<And>c c' i. uses_only c c' \<Longrightarrow> P c' i = P c i \<and> Q c' i = Q c i"
    and twice: "\<And>us. g (g us) = g us"
    and rs: "\<forall>r \<in> set rs. \<exists>i. r = Some i \<and> P c i"
  shows "\<exists>c'. for_each_ref f c rs = Inr c' \<and> uses_only c c' \<and>
    (\<forall>j. uses (code c' ! j) = (if Some j \<in> set rs \<and> Q c j then g (uses (code c ! j)) else uses (code c ! j)))"
  using rs
proof (induction rs arbitrary: c)
  case (Cons r rs)
  then obtain i where i: "r = Some i" "P c i" by auto
  obtain c1 where c1: "f c (Some i) = Inr c1" "uses_only c c1"
      "\<And>j. uses (code c1 ! j) = (if j = i \<and> Q c i then g (uses (code c ! j)) else uses (code c ! j))"
    using step [OF i(2)] by blast
  have "\<forall>r \<in> set rs. \<exists>i. r = Some i \<and> P c1 i"
    using Cons.prems stable [OF c1(2)] by fastforce
  from Cons.IH [OF this] obtain c2 where "for_each_ref f c1 rs = Inr c2" "uses_only c1 c2"
      "\<And>j. uses (code c2 ! j) = (if Some j \<in> set rs \<and> Q c1 j then g (uses (code c1 ! j)) else uses (code c1 ! j))"
    by blast
  moreover have "Q c1 j = Q c j" for j
    using stable [OF c1(2)] by blast
  ultimately show ?case
    using c1 i(1) twice by (auto intro: uses_only_trans)
qed simp

lemma for_each_add:
  assumes "\<forall>r \<in> set rs. \<exists>i. r = Some i \<and> live c i"
  shows "\<exists>c'. for_each_ref (\<lambda>c r. add_used_instructions c u r) c rs = Inr c' \<and> uses_only c c' \<and>
    (\<forall>j. uses (code c' ! j) = (if Some j \<in> set rs then uses_add u (uses (code c ! j)) else uses (code c ! j)))"
  using for_each_uses [of live "\<lambda>c r. add_used_instructions c u r" "\<lambda>_ _. True" "uses_add u" rs c]
    add_used_eq [of _ _ u] assms uses_only_live by simp

lemma for_each_remove:
  assumes "\<forall>r \<in> set rs. \<exists>i. r = Some i \<and> live c i"
  shows "\<exists>c'. for_each_ref (\<lambda>c r. remove_used_instructions c u r) c rs = Inr c' \<and> uses_only c c' \<and>
    (\<forall>j. uses (code c' ! j) = (if Some j \<in> set rs then uses_delete u (uses (code c ! j)) else uses (code c ! j)))"
  using for_each_uses [of live "\<lambda>c r. remove_used_instructions c u r" "\<lambda>_ _. True" "uses_delete u" rs c]
    remove_used_eq [of _ _ u] assms uses_only_live by simp

lemma for_each_drop:
  assumes "\<forall>r \<in> set rs. \<exists>i. r = Some i \<and> i < length (code c)"
  shows "\<exists>c'. for_each_ref (\<lambda>c r. drop_uses_callback c u r) c rs = Inr c' \<and> uses_only c c' \<and>
    (\<forall>j. uses (code c' ! j) =
       (if Some j \<in> set rs \<and> live c j then uses_delete u (uses (code c ! j)) else uses (code c ! j)))"
proof (rule for_each_uses [where P = "\<lambda>c i. i < length (code c)" and Q = live])
  show "\<And>c c' i. uses_only c c' \<Longrightarrow> (i < length (code c')) = (i < length (code c)) \<and> live c' i = live c i"
    using uses_only_live uses_only_length by simp
qed (use drop_uses_callback_eq assms in auto)

end
