(* ===== verification/Kefir_Opt_Code_Control.thy ===== *)
theory Kefir_Opt_Code_Control
  imports Kefir_Opt_Code_Inv
begin

text \<open>
  The operations on the control flow of a block insert and remove an instruction of the list
  \<open>C b\<close> and keep the rest of the invariant.
\<close>

definition cf_only :: "opt_code \<Rightarrow> opt_code \<Rightarrow> bool" where
  "cf_only c c' \<longleftrightarrow> length (code c') = length (code c) \<and> length (blocks c') = length (blocks c) \<and>
     (\<forall>i. (code c' ! i)\<lparr>cf_prev := None, cf_next := None\<rparr> = (code c ! i)\<lparr>cf_prev := None, cf_next := None\<rparr>) \<and>
     (\<forall>b. (blocks c' ! b)\<lparr>control_head := None, control_tail := None\<rparr> =
          (blocks c ! b)\<lparr>control_head := None, control_tail := None\<rparr>) \<and>
     phi_nodes c' = phi_nodes c \<and> call_nodes c' = call_nodes c \<and> inline_assembly c' = inline_assembly c"

lemma cf_only_instr:
  assumes "cf_only c c'"
  shows "instr_id (code c' ! i) = instr_id (code c ! i)" "instr_block (code c' ! i) = instr_block (code c ! i)"
    "operation (code c' ! i) = operation (code c ! i)" "uses (code c' ! i) = uses (code c ! i)"
    "sib_prev (code c' ! i) = sib_prev (code c ! i)" "sib_next (code c' ! i) = sib_next (code c ! i)"
proof -
  have e: "(code c' ! i)\<lparr>cf_prev := None, cf_next := None\<rparr> = (code c ! i)\<lparr>cf_prev := None, cf_next := None\<rparr>"
    using assms by (simp add: cf_only_def)
  show "instr_id (code c' ! i) = instr_id (code c ! i)" using arg_cong [OF e, of instr_id] by simp
  show "instr_block (code c' ! i) = instr_block (code c ! i)" using arg_cong [OF e, of instr_block] by simp
  show "operation (code c' ! i) = operation (code c ! i)" using arg_cong [OF e, of operation] by simp
  show "uses (code c' ! i) = uses (code c ! i)" using arg_cong [OF e, of uses] by simp
  show "sib_prev (code c' ! i) = sib_prev (code c ! i)" using arg_cong [OF e, of sib_prev] by simp
  show "sib_next (code c' ! i) = sib_next (code c ! i)" using arg_cong [OF e, of sib_next] by simp
qed

lemma cf_only_block:
  assumes "cf_only c c'"
  shows "block_key (blocks c' ! b) = block_key (blocks c ! b)"
    "content_head (blocks c' ! b) = content_head (blocks c ! b)"
    "content_tail (blocks c' ! b) = content_tail (blocks c ! b)"
    "phi_head (blocks c' ! b) = phi_head (blocks c ! b)" "phi_tail (blocks c' ! b) = phi_tail (blocks c ! b)"
    "call_head (blocks c' ! b) = call_head (blocks c ! b)" "call_tail (blocks c' ! b) = call_tail (blocks c ! b)"
    "asm_head (blocks c' ! b) = asm_head (blocks c ! b)" "asm_tail (blocks c' ! b) = asm_tail (blocks c ! b)"
proof -
  have e: "(blocks c' ! b)\<lparr>control_head := None, control_tail := None\<rparr> =
      (blocks c ! b)\<lparr>control_head := None, control_tail := None\<rparr>"
    using assms by (simp add: cf_only_def)
  show "block_key (blocks c' ! b) = block_key (blocks c ! b)" using arg_cong [OF e, of block_key] by simp
  show "content_head (blocks c' ! b) = content_head (blocks c ! b)" using arg_cong [OF e, of content_head] by simp
  show "content_tail (blocks c' ! b) = content_tail (blocks c ! b)" using arg_cong [OF e, of content_tail] by simp
  show "phi_head (blocks c' ! b) = phi_head (blocks c ! b)" using arg_cong [OF e, of phi_head] by simp
  show "phi_tail (blocks c' ! b) = phi_tail (blocks c ! b)" using arg_cong [OF e, of phi_tail] by simp
  show "call_head (blocks c' ! b) = call_head (blocks c ! b)" using arg_cong [OF e, of call_head] by simp
  show "call_tail (blocks c' ! b) = call_tail (blocks c ! b)" using arg_cong [OF e, of call_tail] by simp
  show "asm_head (blocks c' ! b) = asm_head (blocks c ! b)" using arg_cong [OF e, of asm_head] by simp
  show "asm_tail (blocks c' ! b) = asm_tail (blocks c ! b)" using arg_cong [OF e, of asm_tail] by simp
qed

lemma cf_only_has_block: "cf_only c c' \<Longrightarrow> has_block c' = has_block c"
  by (simp add: cf_only_def has_block_def fun_eq_iff)

lemma cf_only_same_ops: "cf_only c c' \<Longrightarrow> same_ops c c'"
  using cf_only_instr [of c c'] by (auto simp: same_ops_def cf_only_def)

lemma control_change_lists:
  assumes ls: "lists_ok c L C" and cf: "cf_only c c'"
    and chains: "\<And>b. has_block c b \<Longrightarrow> control.chained c' b (C' b) \<and> set (C' b) \<subseteq> set (L b)"
    and rest: "\<And>b i. has_block c b \<Longrightarrow> i \<in> set (L b) - set (C' b) \<Longrightarrow>
        cf_prev (code c' ! i) = None \<and> cf_next (code c' ! i) = None"
  shows "lists_ok c' L C'"
proof -
  have len: "length (code c') = length (code c)" "length (blocks c') = length (blocks c)"
    using cf by (auto simp: cf_only_def)
  note f = cf_only_instr [OF cf] cf_only_block [OF cf] cf_only_has_block [OF cf] len
  show ?thesis using ls chains rest by (simp add: lists_ok_def f content.chained_def)
qed

lemma cf_only_rest:
  assumes cf: "cf_only c c'"
  shows "phis_ok c' = phis_ok c" "calls_ok c' = calls_ok c" "asms_ok c' = asms_ok c" "inputs_ok c' = inputs_ok c"
    "uses_ok c' = uses_ok c" "live c' = live c"
proof -
  have len: "length (code c') = length (code c)" "length (blocks c') = length (blocks c)"
    "phi_nodes c' = phi_nodes c" "call_nodes c' = call_nodes c" "inline_assembly c' = inline_assembly c"
    using cf by (auto simp: cf_only_def)
  note f = cf_only_instr [OF cf] cf_only_block [OF cf] cf_only_has_block [OF cf] len
  show lv: "live c' = live c" using cf cf_only_same_ops same_ops_live by blast
  show "phis_ok c' = phis_ok c" "calls_ok c' = calls_ok c" "asms_ok c' = asms_ok c"
    by (simp_all add: phis_ok_def calls_ok_def asms_ok_def f lv live_phi_def has_call_def
        has_asm_def phi.chained_def call.chained_def asm.chained_def)
  show "inputs_ok c' = inputs_ok c" "uses_ok c' = uses_ok c"
    using same_ops_inputs_ok [OF cf_only_same_ops [OF cf]] same_ops_uses_ok [OF cf_only_same_ops [OF cf]]
    by (simp_all add: f)
qed

lemma control_change:
  assumes ok: "code_ok c L C" and cf: "cf_only c c'"
    and chains: "\<And>b. has_block c b \<Longrightarrow> control.chained c' b (C' b) \<and> set (C' b) \<subseteq> set (L b)"
    and rest: "\<And>b i. has_block c b \<Longrightarrow> i \<in> set (L b) - set (C' b) \<Longrightarrow>
        cf_prev (code c' ! i) = None \<and> cf_next (code c' ! i) = None"
  shows "code_ok c' L C'"
proof -
  have ls: "lists_ok c L C" using ok by (simp add: code_ok_def)
  have "lists_ok c' L C'"
    by (rule control_change_lists [OF ls cf]) (use chains rest in blast)+
  then show ?thesis using ok cf_only_rest [OF cf] by (simp add: code_ok_def)
qed

lemma lists_ok_facts:
  assumes ls: "lists_ok c L C"
  shows "\<And>b. has_block c b \<Longrightarrow> content.chained c b (L b)" "\<And>b. has_block c b \<Longrightarrow> control.chained c b (C b)"
    "\<And>b i. has_block c b \<Longrightarrow> i \<in> set (L b) \<longleftrightarrow> i < length (code c) \<and> instr_block (code c ! i) = Some b"
    "\<And>b. has_block c b \<Longrightarrow> set (C b) \<subseteq> set (L b)"
    "\<And>b i. has_block c b \<Longrightarrow> i \<in> set (L b) \<Longrightarrow> i \<notin> set (C b) \<Longrightarrow>
      cf_prev (code c ! i) = None \<and> cf_next (code c ! i) = None"
    "\<And>i. i < length (code c) \<Longrightarrow> instr_id (code c ! i) = i"
    "\<And>b. has_block c b \<Longrightarrow> block_key (blocks c ! b) = b"
    "\<And>i b. i < length (code c) \<Longrightarrow> instr_block (code c ! i) = Some b \<Longrightarrow> has_block c b"
proof -
  show "content.chained c b (L b)" if "has_block c b" for b
    using ls that unfolding lists_ok_def by blast
  show "control.chained c b (C b)" if "has_block c b" for b
    using ls that unfolding lists_ok_def by blast
  have "set (L b) = {i. i < length (code c) \<and> instr_block (code c ! i) = Some b}" if "has_block c b" for b
    using ls that unfolding lists_ok_def by blast
  then show "i \<in> set (L b) \<longleftrightarrow> i < length (code c) \<and> instr_block (code c ! i) = Some b" if "has_block c b" for b i
    using that by blast
  show "set (C b) \<subseteq> set (L b)" if "has_block c b" for b
    using ls that unfolding lists_ok_def by blast
  show "cf_prev (code c ! i) = None \<and> cf_next (code c ! i) = None"
    if "has_block c b" "i \<in> set (L b)" "i \<notin> set (C b)" for b i
    using ls that unfolding lists_ok_def by blast
  show "instr_id (code c ! i) = i" if "i < length (code c)" for i
    using ls that unfolding lists_ok_def by blast
  show "block_key (blocks c ! b) = b" if "has_block c b" for b
    using ls that unfolding lists_ok_def has_block_def by blast
  show "has_block c b" if "i < length (code c)" "instr_block (code c ! i) = Some b" for i b
    using ls that unfolding lists_ok_def by blast
qed

lemma lists_ok_disjoint:
  assumes "lists_ok c L C" "has_block c b" "has_block c b'" "b \<noteq> b'"
  shows "set (L b) \<inter> set (L b') = {}"
proof -
  have "False" if "i \<in> set (L b)" "i \<in> set (L b')" for i
    using lists_ok_facts(3) [OF assms(1,2), of i] lists_ok_facts(3) [OF assms(1,3), of i] assms(4) that by simp
  then show ?thesis by blast
qed

lemma lists_ok_live: "lists_ok c L C \<Longrightarrow> has_block c b \<Longrightarrow> i \<in> set (L b) \<Longrightarrow> live c i"
  by (auto simp: lists_ok_facts(3) live_def)

lemma code_ok_lists: "code_ok c L C \<Longrightarrow> lists_ok c L C"
  by (simp add: code_ok_def)

lemmas code_ok_listsD = lists_ok_facts [OF code_ok_lists]
lemmas code_ok_disjoint = lists_ok_disjoint [OF code_ok_lists]
lemmas code_ok_live = lists_ok_live [OF code_ok_lists]

lemma code_ok_liveE:
  assumes "code_ok c L C" "live c i"
  obtains b where "instr_block (code c ! i) = Some b" "has_block c b" "i \<in> set (L b)"
  using assms code_ok_listsD(3,8) [OF assms(1)] by (auto simp: live_def)

text \<open>Removal.\<close>

lemma drop_control_lists:
  assumes ok: "lists_ok c L C" and b: "has_block c b" and i: "i \<in> set (C b)"
  shows "\<exists>c'. kefir_opt_code_container_drop_control c (Some i) = Inr c' \<and>
    lists_ok c' L (C(b := removeAll i (C b))) \<and> cf_only c c'"
proof -
  have iL: "i \<in> set (L b)"
    using i lists_ok_facts(4) [OF ok b] by blast
  have lv: "live c i" and ib: "instr_block (code c ! i) = Some b"
    using lists_ok_live [OF ok b iL] iL lists_ok_facts(3) [OF ok b] by auto
  have "\<forall>j \<in> set (C b). live c j"
    using lists_ok_facts(4) [OF ok b] lists_ok_live [OF ok b] by blast
  from control.unlink_chained [OF lists_ok_facts(2) [OF ok b] i b this]
  obtain c' where c': "control_flow_remove c b i = Inr c'" "control.chained c' b (removeAll i (C b))"
      "cf_prev (code c' ! i) = None" "cf_next (code c' ! i) = None"
      and other: "\<And>b' ys. b' \<noteq> b \<Longrightarrow> set ys \<inter> set (C b) = {} \<Longrightarrow> control.chained c b' ys \<Longrightarrow> control.chained c' b' ys"
      and out: "\<And>j. j \<notin> set (C b) \<Longrightarrow> cf_prev (code c' ! j) = cf_prev (code c ! j) \<and>
        cf_next (code c' ! j) = cf_next (code c ! j)"
    by blast
  have cf: "cf_only c c'"
    using control_flow_remove_form [OF c'(1) b] by (auto simp: cf_only_def nth_upd_opt nth_update)
  have "lists_ok c' L (C(b := removeAll i (C b)))"
  proof (rule control_change_lists [OF ok cf])
    fix b' assume b': "has_block c b'"
    have "set (C b') \<inter> set (C b) = {}" if "b' \<noteq> b"
      using lists_ok_disjoint [OF ok b' b that] lists_ok_facts(4) [OF ok b'] lists_ok_facts(4) [OF ok b] by blast
    then show "control.chained c' b' ((C(b := removeAll i (C b))) b') \<and> set ((C(b := removeAll i (C b))) b') \<subseteq> set (L b')"
      using c'(2) other lists_ok_facts(2,4) [OF ok b'] by (auto simp: fun_upd_def)
  next
    fix b' j assume b': "has_block c b'" and j: "j \<in> set (L b') - set ((C(b := removeAll i (C b))) b')"
    have nj: "j = i \<or> j \<notin> set (C b)"
      using j lists_ok_disjoint [OF ok b' b] lists_ok_facts(4) [OF ok b] by (auto split: if_splits)
    then show "cf_prev (code c' ! j) = None \<and> cf_next (code c' ! j) = None"
      using c'(3,4) out [of j] lists_ok_facts(5) [OF ok b', of j] j by (auto split: if_splits)
  qed
  then show ?thesis
    using c'(1) cf lv ib b by (simp add: kefir_opt_code_container_drop_control_def)
qed

lemma drop_control_ok:
  assumes ok: "code_ok c L C" and b: "has_block c b" and i: "i \<in> set (C b)"
  shows "\<exists>c'. kefir_opt_code_container_drop_control c (Some i) = Inr c' \<and>
    code_ok c' L (C(b := removeAll i (C b))) \<and> cf_only c c'"
  using drop_control_lists [OF code_ok_lists [OF ok] b i] ok cf_only_rest unfolding code_ok_def by blast

text \<open>Insertion of an instruction that is not yet ordered.\<close>

fun insert_after :: "nat option \<Rightarrow> nat \<Rightarrow> nat list \<Rightarrow> nat list" where
  "insert_after None i xs = i # xs"
| "insert_after (Some a) i [] = []"
| "insert_after (Some a) i (x # xs) = (if x = a then x # i # xs else x # insert_after (Some a) i xs)"

lemma insert_after_split: "a \<notin> set ys \<Longrightarrow> insert_after (Some a) i (ys @ a # zs) = ys @ a # i # zs"
  by (induction ys) auto

lemma insert_after_final: "distinct xs \<Longrightarrow> insert_after (final None xs) i xs = xs @ [i]"
  by (cases xs rule: rev_cases) (auto simp: insert_after_split)

lemma insert_control_ok:
  assumes ok: "code_ok c L C" and b: "has_block c b" and i: "i \<in> set (L b)" "i \<notin> set (C b)"
    and a: "\<And>x. a = Some x \<Longrightarrow> x \<in> set (C b)"
  shows "\<exists>c'. kefir_opt_code_container_insert_control c (Some b) a (Some i) = Inr c' \<and>
    code_ok c' L (C(b := insert_after a i (C b))) \<and> cf_only c c'"
proof -
  have lv: "live c i" and ib: "instr_block (code c ! i) = Some b" and il: "i < length (code c)"
    using code_ok_live [OF ok b i(1)] i(1) code_ok_listsD(3) [OF ok b] by (auto simp: live_def)
  have key: "block_key (blocks c ! b) = b"
    using code_ok_listsD(7) [OF ok b] .
  have bl: "b < length (blocks c)" using b by (simp add: has_block_def)
  have free: "cf_prev (code c ! i) = None" "cf_next (code c ! i) = None"
    using code_ok_listsD(5) [OF ok b i] by auto
  have ch: "control.chained c b (C b)" by (rule code_ok_listsD(2) [OF ok b])
  have Cl: "x < length (code c) \<and> live c x \<and> instr_block (code c ! x) = Some b" if "x \<in> set (C b)" for x
    using that code_ok_listsD(3,4) [OF ok b] code_ok_live [OF ok b] by blast
  have "\<exists>c'. kefir_opt_code_container_insert_control c (Some b) a (Some i) = Inr c' \<and> cf_only c c' \<and>
      control.chained c' b (insert_after a i (C b)) \<and>
      (\<forall>j. j \<noteq> i \<longrightarrow> j \<notin> set (C b) \<longrightarrow> cf_prev (code c' ! j) = cf_prev (code c ! j) \<and>
         cf_next (code c' ! j) = cf_next (code c ! j)) \<and>
      (\<forall>b'. b' \<noteq> b \<longrightarrow> control_head (blocks c' ! b') = control_head (blocks c ! b') \<and>
         control_tail (blocks c' ! b') = control_tail (blocks c ! b'))"
  proof (cases a)
    case None
    have hd_in: "h \<in> set (C b)" if "control_head (blocks c ! b) = Some h" for h
      using ch that first_in_set [of "C b" h] by (simp add: control.chained_def chain_def)
    then have neq: "control_head (blocks c ! b) \<noteq> Some i" using i(2) by blast
    define h where "h = control_head (blocks c ! b)"
    have "\<exists>c'. insert_control_head c b i = Inr c' \<and> cf_only c c' \<and>
       (\<forall>j. cf_prev (code c' ! j) = (if h = Some j then Some i else cf_prev (code c ! j))) \<and>
       (\<forall>j. cf_next (code c' ! j) = (if j = i then h else cf_next (code c ! j))) \<and>
       (\<forall>b'. control_head (blocks c' ! b') = (if b' = b then Some i else control_head (blocks c ! b'))) \<and>
       (\<forall>b'. control_tail (blocks c' ! b') = (if b' = b \<and> control_tail (blocks c ! b) = None then Some i
           else control_tail (blocks c ! b')))"
      using il bl neq Cl hd_in
      by (cases "control_head (blocks c ! b)")
         (auto simp: insert_control_head_def h_def cf_only_def nth_update Let_def)
    then obtain c' where c': "insert_control_head c b i = Inr c'" "cf_only c c'"
       "\<And>j. cf_prev (code c' ! j) = (if h = Some j then Some i else cf_prev (code c ! j))"
       "\<And>j. cf_next (code c' ! j) = (if j = i then h else cf_next (code c ! j))"
       "\<And>b'. control_head (blocks c' ! b') = (if b' = b then Some i else control_head (blocks c ! b'))"
       "\<And>b'. control_tail (blocks c' ! b') = (if b' = b \<and> control_tail (blocks c ! b) = None then Some i
           else control_tail (blocks c ! b'))"
      by blast
    have "control.chained c' b (i # C b)"
      unfolding control.chained_def c'(5) c'(6) if_True simp_thms
      by (rule chain_insert_head [OF ch [unfolded control.chained_def] i(2)])
         (use c' free neq i(2) in \<open>auto simp: h_def\<close>)
    moreover have "h \<noteq> Some j" if "j \<notin> set (C b)" for j
      using that hd_in h_def by auto
    ultimately show ?thesis
      using None c' b lv ib key free by (auto simp: kefir_opt_code_container_insert_control_def)
  next
    case (Some x)
    have x: "x \<in> set (C b)" using a Some by simp
    have ch': "chain (\<lambda>i. cf_prev (code c ! i)) (\<lambda>i. cf_next (code c ! i)) (control_head (blocks c ! b))
        (control_tail (blocks c ! b)) (C b)"
      using ch by (simp add: control.chained_def)
    obtain ys zs where xs: "C b = ys @ x # zs" "x \<notin> set ys" "cf_next (code c ! x) = first None zs"
      using chain_split [OF ch' x] by metis
    define n where "n = cf_next (code c ! x)"
    have n_in: "j \<in> set (C b) \<and> j \<noteq> x" if "n = Some j" for j
      using control.chained_neighbours [OF ch x, of j] that by (simp add: n_def)
    have xi: "x \<noteq> i" using x i(2) by blast
    have ni: "n \<noteq> Some i" using n_in i(2) by blast
    have "\<exists>c'. insert_control_after c b x i = Inr c' \<and> cf_only c c' \<and>
       (\<forall>j. cf_prev (code c' ! j) = (if j = i then Some x else if n = Some j then Some i else cf_prev (code c ! j))) \<and>
       (\<forall>j. cf_next (code c' ! j) = (if j = i then n else if j = x then Some i else cf_next (code c ! j))) \<and>
       (\<forall>b'. control_head (blocks c' ! b') = control_head (blocks c ! b')) \<and>
       (\<forall>b'. control_tail (blocks c' ! b') = (if b' = b \<and> control_tail (blocks c ! b) = Some x then Some i
           else control_tail (blocks c ! b')))"
      using il bl xi ni Cl [OF x] Cl n_in
      by (cases "cf_next (code c ! x)")
         (auto simp: insert_control_after_def n_def cf_only_def nth_update Let_def)
    then obtain c' where c': "insert_control_after c b x i = Inr c'" "cf_only c c'"
       "\<And>j. cf_prev (code c' ! j) = (if j = i then Some x else if n = Some j then Some i else cf_prev (code c ! j))"
       "\<And>j. cf_next (code c' ! j) = (if j = i then n else if j = x then Some i else cf_next (code c ! j))"
       "\<And>b'. control_head (blocks c' ! b') = control_head (blocks c ! b')"
       "\<And>b'. control_tail (blocks c' ! b') = (if b' = b \<and> control_tail (blocks c ! b) = Some x then Some i
           else control_tail (blocks c ! b'))"
      by blast
    have "chain (\<lambda>i. cf_prev (code c' ! i)) (\<lambda>i. cf_next (code c' ! i)) (control_head (blocks c ! b))
        (if control_tail (blocks c ! b) = Some x then Some i else control_tail (blocks c ! b)) (ys @ x # i # zs)"
      using ch' i(2) n_in xs(2) unfolding xs(1)
      by (intro chain_insert_after [of "\<lambda>i. cf_prev (code c ! i)" "\<lambda>i. cf_next (code c ! i)"])
         (auto simp: c' n_def chain_def)
    then have "control.chained c' b (insert_after a i (C b))"
      by (simp add: control.chained_def c' Some xs insert_after_split)
    moreover have "n \<noteq> Some j" "j \<noteq> x" if "j \<notin> set (C b)" for j
      using that n_in x by auto
    ultimately show ?thesis
      using Some c' b lv ib key free Cl [OF x] by (auto simp: kefir_opt_code_container_insert_control_def)
  qed
  then obtain c' where c': "kefir_opt_code_container_insert_control c (Some b) a (Some i) = Inr c'" "cf_only c c'"
      "control.chained c' b (insert_after a i (C b))"
      "\<And>j. j \<noteq> i \<Longrightarrow> j \<notin> set (C b) \<Longrightarrow> cf_prev (code c' ! j) = cf_prev (code c ! j) \<and>
         cf_next (code c' ! j) = cf_next (code c ! j)"
      "\<And>b'. b' \<noteq> b \<Longrightarrow> control_head (blocks c' ! b') = control_head (blocks c ! b') \<and>
         control_tail (blocks c' ! b') = control_tail (blocks c ! b')"
    by blast
  have si: "set (insert_after a i (C b)) = insert i (set (C b))"
  proof (cases a)
    case (Some x)
    then obtain ys zs where "C b = ys @ x # zs" "x \<notin> set ys"
      using a split_list_first by metis
    then show ?thesis using Some insert_after_split by auto
  qed simp
  have "code_ok c' L (C(b := insert_after a i (C b)))"
  proof (rule control_change [OF ok c'(2)])
    fix b' assume b': "has_block c b'"
    have dj: "set (L b') \<inter> set (L b) = {}" if "b' \<noteq> b"
      using code_ok_disjoint [OF ok b' b that] .
    have "control.chained c' b' (C b')" if "b' \<noteq> b"
    proof -
      have e: "cf_prev (code c' ! j) = cf_prev (code c ! j) \<and> cf_next (code c' ! j) = cf_next (code c ! j)"
        if "j \<in> set (C b')" for j
      proof (rule c'(4))
        have "j \<notin> set (L b)"
          using that \<open>b' \<noteq> b\<close> dj code_ok_listsD(4) [OF ok b'] by blast
        then show "j \<noteq> i" "j \<notin> set (C b)"
          using i(1) code_ok_listsD(4) [OF ok b] by auto
      qed
      have "chain (\<lambda>i. cf_prev (code c' ! i)) (\<lambda>i. cf_next (code c' ! i)) h t (C b') \<longleftrightarrow>
          chain (\<lambda>i. cf_prev (code c ! i)) (\<lambda>i. cf_next (code c ! i)) h t (C b')" for h t
        by (intro chain_cong) (simp_all add: e)
      then show ?thesis
        using code_ok_listsD(2) [OF ok b'] c'(5) [OF that] by (simp add: control.chained_def)
    qed
    then show "control.chained c' b' ((C(b := insert_after a i (C b))) b') \<and>
        set ((C(b := insert_after a i (C b))) b') \<subseteq> set (L b')"
      using c'(3) si i code_ok_listsD(4) [OF ok b'] by auto
  next
    fix b' j assume b': "has_block c b'" and j: "j \<in> set (L b') - set ((C(b := insert_after a i (C b))) b')"
    have nj: "j \<noteq> i" "j \<notin> set (C b)"
      using j si i code_ok_disjoint [OF ok b' b] code_ok_listsD(4) [OF ok b] by (auto split: if_splits)
    then show "cf_prev (code c' ! j) = None \<and> cf_next (code c' ! j) = None"
      using c'(4) [OF nj] code_ok_listsD(5) [OF ok b', of j] j by (auto split: if_splits)
  qed
  then show ?thesis
    using c'(1,2) by blast
qed

lemma add_control_ok:
  assumes ok: "code_ok c L C" and b: "has_block c b" and i: "i \<in> set (L b)" "i \<notin> set (C b)"
  shows "\<exists>c'. kefir_opt_code_container_add_control c (Some b) (Some i) = Inr c' \<and>
    code_ok c' L (C(b := C b @ [i]))"
proof -
  have ch: "distinct (C b)" "control_tail (blocks c ! b) = final None (C b)"
    using code_ok_listsD(2) [OF ok b] by (auto simp: control.chained_def chain_def)
  have "\<And>x. control_tail (blocks c ! b) = Some x \<Longrightarrow> x \<in> set (C b)"
    using ch final_in_set by auto
  from insert_control_ok [OF ok b i, of "control_tail (blocks c ! b)", OF this] show ?thesis
    using b ch by (auto simp: kefir_opt_code_container_add_control_def insert_after_final)
qed

end
