(* ===== verification/Kefir_Opt_Code_New.thy ===== *)
theory Kefir_Opt_Code_New
  imports Kefir_Opt_Code_Control
begin

text \<open>
  New blocks and new instructions keep the invariant: an instruction is appended to its block
  and enters the users of its inputs.
\<close>

section \<open>Inputs of one instruction\<close>

lemma op_ok_class:
  assumes "op_ok op"
  shows "opcode_class_of (opcode op) = Class_phi_ref \<longleftrightarrow> opcode op = OPC_PHI"
    "opcode_class_of (opcode op) = Class_call_ref \<longleftrightarrow> is_call (opcode op)"
    "opcode_class_of (opcode op) = Class_inline_asm \<longleftrightarrow> opcode op = OPC_INLINE_ASSEMBLY"
  using assms by (cases "opcode op"; auto simp: op_ok_def is_call_def)+

text \<open>The inputs of an instruction depend on its operation and on its node.\<close>

lemma inputs_at:
  assumes "op_ok (operation (code c ! u))" "operation (code c' ! u) = operation (code c ! u)"
    and "instr_id (code c ! u) = u" "instr_id (code c' ! u) = u" "live c u" "live c' u"
    and phi: "opcode (operation (code c ! u)) = OPC_PHI \<Longrightarrow> \<exists>k. phi_ref (operation (code c ! u)) = Some k \<and>
        live_phi c k \<and> live_phi c' k \<and> map snd (links (phi_nodes c' ! k)) = map snd (links (phi_nodes c ! k))"
    and call: "is_call (opcode (operation (code c ! u))) \<Longrightarrow> \<exists>k. call_ref (operation (code c ! u)) = Some k \<and>
        has_call c k \<and> has_call c' k \<and> arguments (call_nodes c' ! k) = arguments (call_nodes c ! k) \<and>
        return_space (call_nodes c' ! k) = return_space (call_nodes c ! k)"
    and asm: "opcode (operation (code c ! u)) = OPC_INLINE_ASSEMBLY \<Longrightarrow>
        \<exists>k. inline_asm_ref (operation (code c ! u)) = Some k \<and> has_asm c k \<and> has_asm c' k \<and>
        asm_parameters (inline_assembly c' ! k) = asm_parameters (inline_assembly c ! k)"
  shows "inputs c' u = inputs c u"
  unfolding inputs_def
proof (rule extract_inputs_cong)
  note cls = op_ok_class [OF assms(1)]
  show "extract_inputs_phi_ref c' (code c' ! u) False = extract_inputs_phi_ref c (code c ! u) False"
    if "opcode_class_of (opcode (operation (code c ! u))) = Class_phi_ref"
  proof -
    have o: "opcode (operation (code c ! u)) = OPC_PHI" using that cls by simp
    with phi obtain k where "phi_ref (operation (code c ! u)) = Some k" "live_phi c k" "live_phi c' k"
        "map snd (links (phi_nodes c' ! k)) = map snd (links (phi_nodes c ! k))" by blast
    then show ?thesis
      using assms o by (simp add: extract_inputs_phi_ref_def phi_link_values_def)
  qed
  show "extract_inputs_call_ref c' (operation (code c ! u)) = extract_inputs_call_ref c (operation (code c ! u))"
    if "opcode_class_of (opcode (operation (code c ! u))) = Class_call_ref"
    using call that cls by (auto simp: extract_inputs_call_ref_def)
  show "extract_inputs_inline_asm c' (operation (code c ! u)) = extract_inputs_inline_asm c (operation (code c ! u))"
    if "opcode_class_of (opcode (operation (code c ! u))) = Class_inline_asm"
    using asm that cls by (auto simp: extract_inputs_inline_asm_def)
qed (use assms in simp)

lemma phis_okD:
  assumes "phis_ok c"
  shows "live c i \<Longrightarrow> opcode (operation (code c ! i)) = OPC_PHI \<Longrightarrow>
      \<exists>k. phi_ref (operation (code c ! i)) = Some k \<and> live_phi c k \<and>
         phi_output (phi_nodes c ! k) = Some i \<and> phi_block (phi_nodes c ! k) = instr_block (code c ! i)"
    "k < length (phi_nodes c) \<Longrightarrow> phi_block (phi_nodes c ! k) = Some b \<Longrightarrow>
      \<exists>i. phi_output (phi_nodes c ! k) = Some i \<and> live c i \<and> opcode (operation (code c ! i)) = OPC_PHI \<and>
         phi_ref (operation (code c ! i)) = Some k \<and> instr_block (code c ! i) = Some b"
    "k < length (phi_nodes c) \<Longrightarrow> distinct (map fst (links (phi_nodes c ! k)))"
    "has_block c b \<Longrightarrow> \<exists>ks. phi.chained c b ks \<and>
      set ks = {k. k < length (phi_nodes c) \<and> phi_block (phi_nodes c ! k) = Some b}"
  using assms unfolding phis_ok_def by blast+

lemma calls_okD:
  assumes "calls_ok c"
  shows "live c i \<Longrightarrow> is_call (opcode (operation (code c ! i))) \<Longrightarrow>
      \<exists>k. call_ref (operation (code c ! i)) = Some k \<and> has_call c k \<and>
         call_output (call_nodes c ! k) = Some i \<and> call_block (call_nodes c ! k) = instr_block (code c ! i)"
    "has_call c k \<Longrightarrow> call_block (call_nodes c ! k) = Some b \<Longrightarrow>
      \<exists>i. call_output (call_nodes c ! k) = Some i \<and> live c i \<and> is_call (opcode (operation (code c ! i))) \<and>
         call_ref (operation (code c ! i)) = Some k \<and> instr_block (code c ! i) = Some b"
    "has_block c b \<Longrightarrow> \<exists>ks. call.chained c b ks \<and> set ks = {k. has_call c k \<and> call_block (call_nodes c ! k) = Some b}"
  using assms unfolding calls_ok_def by blast+

lemma asms_okD:
  assumes "asms_ok c"
  shows "live c i \<Longrightarrow> opcode (operation (code c ! i)) = OPC_INLINE_ASSEMBLY \<Longrightarrow>
      \<exists>k. inline_asm_ref (operation (code c ! i)) = Some k \<and> has_asm c k \<and>
         asm_output (inline_assembly c ! k) = Some i \<and> asm_block (inline_assembly c ! k) = instr_block (code c ! i)"
    "has_asm c k \<Longrightarrow> asm_block (inline_assembly c ! k) = Some b \<Longrightarrow>
      \<exists>i. asm_output (inline_assembly c ! k) = Some i \<and> live c i \<and>
         opcode (operation (code c ! i)) = OPC_INLINE_ASSEMBLY \<and>
         inline_asm_ref (operation (code c ! i)) = Some k \<and> instr_block (code c ! i) = Some b"
    "has_block c b \<Longrightarrow> \<exists>ks. asm.chained c b ks \<and> set ks = {k. has_asm c k \<and> asm_block (inline_assembly c ! k) = Some b}"
  using assms unfolding asms_ok_def by blast+

lemma inputs_okD:
  assumes "inputs_ok c" "live c u"
  shows "op_ok (operation (code c ! u))" "\<exists>rs. inputs c u = Inr rs" "has_input c u i \<Longrightarrow> live c i"
  using assms unfolding inputs_ok_def has_input_def by auto

section \<open>Blocks\<close>

lemma code_ok_init: "code_ok kefir_opt_code_container_init L C"
  by (simp add: code_ok_def lists_ok_def phis_ok_def calls_ok_def asms_ok_def inputs_ok_def uses_ok_def
      kefir_opt_code_container_init_def live_def has_block_def has_call_def has_asm_def)

lemma new_block_ok:
  assumes ok: "code_ok c L C" and e: "e \<Longrightarrow> entry_point c = None"
  defines "n \<equiv> length (blocks c)"
  shows "\<exists>c'. kefir_opt_code_container_new_block c e = Inr (c', n) \<and> code_ok c' (L(n := [])) (C(n := [])) \<and>
    entry_point c' = (if e then Some n else entry_point c) \<and> has_block c' n"
proof -
  obtain c' where c': "kefir_opt_code_container_new_block c e = Inr (c', n)"
      and f: "code c' = code c" "phi_nodes c' = phi_nodes c" "call_nodes c' = call_nodes c"
        "inline_assembly c' = inline_assembly c" "length (blocks c') = Suc n"
        "entry_point c' = (if e then Some n else entry_point c)"
      and old: "\<And>b. b < n \<Longrightarrow> blocks c' ! b = blocks c ! b"
      and new: "block_key (blocks c' ! n) = n"
        "content_head (blocks c' ! n) = None" "content_tail (blocks c' ! n) = None"
        "control_head (blocks c' ! n) = None" "control_tail (blocks c' ! n) = None"
        "phi_head (blocks c' ! n) = None" "phi_tail (blocks c' ! n) = None"
        "call_head (blocks c' ! n) = None" "call_tail (blocks c' ! n) = None"
        "asm_head (blocks c' ! n) = None" "asm_tail (blocks c' ! n) = None"
    using e by (auto simp: kefir_opt_code_container_new_block_def n_def Let_def nth_append)
  have so: "same_ops c c'" and lv: "live c' = live c"
    using f by (auto simp: same_ops_def live_def fun_eq_iff)
  have hb: "has_block c' b \<longleftrightarrow> b = n \<or> has_block c b" for b
    by (auto simp: has_block_def f n_def)
  have oldb: "blocks c' ! b = blocks c ! b" "b \<noteq> n" if "has_block c b" for b
    using that old by (auto simp: has_block_def n_def)
  have nob: "instr_block (code c ! i) \<noteq> Some n" if "i < length (code c)" for i
    using that code_ok_listsD(8) [OF ok that, of n] by (auto simp: has_block_def n_def)
  have "lists_ok c' (L(n := [])) (C(n := []))"
    unfolding lists_ok_def hb f
    using code_ok_listsD [OF ok] nob oldb new
    by (auto simp: content.chained_def control.chained_def f has_block_def less_Suc_eq)
       (auto simp: n_def)
  moreover have "phis_ok c'"
  proof -
    have "phi_block (phi_nodes c ! k) \<noteq> Some n" if "k < length (phi_nodes c)" for k
      using phis_okD(2) [of c k n] ok that nob by (auto simp: code_ok_def live_def)
    then have ks: "\<exists>ks. phi.chained c' b ks \<and> set ks = {k. k < length (phi_nodes c) \<and> phi_block (phi_nodes c ! k) = Some b}"
      if "has_block c' b" for b
      using that oldb new phis_okD(4) [of c b] ok
      by (cases "b = n") (auto simp: phi.chained_def f hb code_ok_def intro!: exI [of _ "[]"])
    then show ?thesis
      using ok unfolding code_ok_def phis_ok_def lv f live_phi_def by (auto simp: f live_phi_def)
  qed
  moreover have "calls_ok c'"
  proof -
    have "call_block (call_nodes c ! k) \<noteq> Some n" if "has_call c k" for k
      using calls_okD(2) [of c k n] ok that nob by (auto simp: code_ok_def live_def)
    then have ks: "\<exists>ks. call.chained c' b ks \<and> set ks = {k. has_call c k \<and> call_block (call_nodes c ! k) = Some b}"
      if "has_block c' b" for b
      using that oldb new calls_okD(3) [of c b] ok
      by (cases "b = n") (auto simp: call.chained_def f hb code_ok_def intro!: exI [of _ "[]"])
    then show ?thesis
      using ok unfolding code_ok_def calls_ok_def lv f has_call_def by (auto simp: f has_call_def)
  qed
  moreover have "asms_ok c'"
  proof -
    have "asm_block (inline_assembly c ! k) \<noteq> Some n" if "has_asm c k" for k
      using asms_okD(2) [of c k n] ok that nob by (auto simp: code_ok_def live_def)
    then have ks: "\<exists>ks. asm.chained c' b ks \<and> set ks = {k. has_asm c k \<and> asm_block (inline_assembly c ! k) = Some b}"
      if "has_block c' b" for b
      using that oldb new asms_okD(3) [of c b] ok
      by (cases "b = n") (auto simp: asm.chained_def f hb code_ok_def intro!: exI [of _ "[]"])
    then show ?thesis
      using ok unfolding code_ok_def asms_ok_def lv f has_asm_def by (auto simp: f has_asm_def)
  qed
  moreover have "inputs_ok c'" "uses_ok c'"
    using ok same_ops_inputs_ok [OF so] same_ops_uses_ok [OF so] f by (auto simp: code_ok_def)
  ultimately show ?thesis
    using c' f hb by (auto simp: code_ok_def)
qed

section \<open>Instructions\<close>

text \<open>What appending an instruction to block \<open>b\<close> changes, apart from the users.\<close>

definition extended :: "opt_code \<Rightarrow> opt_code \<Rightarrow> nat \<Rightarrow> opt_operation \<Rightarrow> bool" where
  "extended c c' b op \<longleftrightarrow> length (code c') = Suc (length (code c)) \<and> length (blocks c') = length (blocks c) \<and>
     (\<forall>j < length (code c). (code c' ! j)\<lparr>sib_next := None, uses := []\<rparr> = (code c ! j)\<lparr>sib_next := None, uses := []\<rparr>) \<and>
     (let x = code c' ! length (code c) in instr_id x = length (code c) \<and> instr_block x = Some b \<and>
        operation x = op \<and> cf_prev x = None \<and> cf_next x = None) \<and>
     (\<forall>b'. (blocks c' ! b')\<lparr>content_head := None, content_tail := None\<rparr> =
          (blocks c ! b')\<lparr>content_head := None, content_tail := None\<rparr>) \<and>
     phi_nodes c' = phi_nodes c \<and> call_nodes c' = call_nodes c \<and> inline_assembly c' = inline_assembly c \<and>
     entry_point c' = entry_point c \<and> gate_block c' = gate_block c"

lemma extended_old:
  assumes "extended c c' b op" "j < length (code c)"
  shows "instr_id (code c' ! j) = instr_id (code c ! j)" "instr_block (code c' ! j) = instr_block (code c ! j)"
    "operation (code c' ! j) = operation (code c ! j)"
    "cf_prev (code c' ! j) = cf_prev (code c ! j)" "cf_next (code c' ! j) = cf_next (code c ! j)"
proof -
  have e: "(code c' ! j)\<lparr>sib_next := None, uses := []\<rparr> = (code c ! j)\<lparr>sib_next := None, uses := []\<rparr>"
    using assms by (simp add: extended_def)
  show "instr_id (code c' ! j) = instr_id (code c ! j)" using arg_cong [OF e, of instr_id] by simp
  show "instr_block (code c' ! j) = instr_block (code c ! j)" using arg_cong [OF e, of instr_block] by simp
  show "operation (code c' ! j) = operation (code c ! j)" using arg_cong [OF e, of operation] by simp
  show "cf_prev (code c' ! j) = cf_prev (code c ! j)" using arg_cong [OF e, of cf_prev] by simp
  show "cf_next (code c' ! j) = cf_next (code c ! j)" using arg_cong [OF e, of cf_next] by simp
qed

lemma extended_block:
  assumes "extended c c' b op"
  shows "block_key (blocks c' ! b') = block_key (blocks c ! b')"
    "control_head (blocks c' ! b') = control_head (blocks c ! b')" "control_tail (blocks c' ! b') = control_tail (blocks c ! b')"
    "phi_head (blocks c' ! b') = phi_head (blocks c ! b')" "phi_tail (blocks c' ! b') = phi_tail (blocks c ! b')"
    "call_head (blocks c' ! b') = call_head (blocks c ! b')" "call_tail (blocks c' ! b') = call_tail (blocks c ! b')"
    "asm_head (blocks c' ! b') = asm_head (blocks c ! b')" "asm_tail (blocks c' ! b') = asm_tail (blocks c ! b')"
proof -
  have e: "(blocks c' ! b')\<lparr>content_head := None, content_tail := None\<rparr> =
      (blocks c ! b')\<lparr>content_head := None, content_tail := None\<rparr>"
    using assms by (simp add: extended_def)
  show "block_key (blocks c' ! b') = block_key (blocks c ! b')" using arg_cong [OF e, of block_key] by simp
  show "control_head (blocks c' ! b') = control_head (blocks c ! b')" using arg_cong [OF e, of control_head] by simp
  show "control_tail (blocks c' ! b') = control_tail (blocks c ! b')" using arg_cong [OF e, of control_tail] by simp
  show "phi_head (blocks c' ! b') = phi_head (blocks c ! b')" using arg_cong [OF e, of phi_head] by simp
  show "phi_tail (blocks c' ! b') = phi_tail (blocks c ! b')" using arg_cong [OF e, of phi_tail] by simp
  show "call_head (blocks c' ! b') = call_head (blocks c ! b')" using arg_cong [OF e, of call_head] by simp
  show "call_tail (blocks c' ! b') = call_tail (blocks c ! b')" using arg_cong [OF e, of call_tail] by simp
  show "asm_head (blocks c' ! b') = asm_head (blocks c ! b')" using arg_cong [OF e, of asm_head] by simp
  show "asm_tail (blocks c' ! b') = asm_tail (blocks c ! b')" using arg_cong [OF e, of asm_tail] by simp
qed

lemma extended_rest:
  assumes "extended c c' b op"
  shows "length (code c') = Suc (length (code c))" "length (blocks c') = length (blocks c)"
    "phi_nodes c' = phi_nodes c" "call_nodes c' = call_nodes c" "inline_assembly c' = inline_assembly c"
    "has_block c' = has_block c" "has_call c' = has_call c" "has_asm c' = has_asm c" "live_phi c' = live_phi c"
    "instr_id (code c' ! length (code c)) = length (code c)" "instr_block (code c' ! length (code c)) = Some b"
    "operation (code c' ! length (code c)) = op" "cf_prev (code c' ! length (code c)) = None"
    "cf_next (code c' ! length (code c)) = None"
  using assms by (auto simp: extended_def Let_def has_block_def has_call_def has_asm_def live_phi_def fun_eq_iff)

lemma extended_live: "extended c c' b op \<Longrightarrow> live c' j \<longleftrightarrow> j = length (code c) \<or> live c j"
  by (cases "j < length (code c)"; cases "j = length (code c)")
     (simp_all add: live_def extended_old(2) extended_rest(1,11))

text \<open>The steps of the operation: the array, the links of the block, the users.\<close>

lemma lists_okD:
  assumes "lists_ok c L C"
  shows "has_block c b \<Longrightarrow> content.chained c b (L b)"
    "has_block c b \<Longrightarrow> set (L b) = {i. i < length (code c) \<and> instr_block (code c ! i) = Some b}"
    "has_block c b \<Longrightarrow> control.chained c b (C b)" "has_block c b \<Longrightarrow> set (C b) \<subseteq> set (L b)"
    "has_block c b \<Longrightarrow> i \<in> set (L b) - set (C b) \<Longrightarrow> cf_prev (code c ! i) = None \<and> cf_next (code c ! i) = None"
    "i < length (code c) \<Longrightarrow> instr_id (code c ! i) = i" "has_block c b \<Longrightarrow> block_key (blocks c ! b) = b"
    "i < length (code c) \<Longrightarrow> instr_block (code c ! i) = Some b \<Longrightarrow> has_block c b"
  using assms unfolding lists_ok_def has_block_def by blast+

lemma link_new:
  fixes op :: opt_operation
  assumes ls: "lists_ok c L C" and b: "has_block c b"
  defines "n \<equiv> length (code c)"
  defines "x \<equiv> \<lparr>instr_id = n, instr_block = Some (block_key (blocks c ! b)), operation = op,
      sib_prev = content_tail (blocks c ! b), sib_next = None, cf_prev = None, cf_next = None, uses = []\<rparr>"
  shows "\<exists>c'. link_instr (c\<lparr>code := code c @ [x]\<rparr>) b n = Inr c' \<and> extended c c' b op \<and>
    lists_ok c' (L(b := L b @ [n])) C \<and> (\<forall>j < n. uses (code c' ! j) = uses (code c ! j)) \<and> uses (code c' ! n) = []"
proof -
  define t where "t = content_tail (blocks c ! b)"
  have ch: "chain (\<lambda>i. sib_prev (code c ! i)) (\<lambda>i. sib_next (code c ! i)) (content_head (blocks c ! b)) t (L b)"
    using lists_okD(1) [OF ls b] by (simp add: content.chained_def t_def)
  have bl: "b < length (blocks c)" and key: "block_key (blocks c ! b) = b"
    using b lists_okD(7) [OF ls b] by (auto simp: has_block_def)
  have Ln: "j < n" if "j \<in> set (L b')" "has_block c b'" for j b'
    using that lists_okD(2) [OF ls that(2)] by (auto simp: n_def)
  have tn: "j < n \<and> sib_next (code c ! j) = None" if "t = Some j" for j
    using that ch chain_tail_nxt [of _ "\<lambda>i. sib_next (code c ! i)" _ j "L b"] Ln [OF _ b] final_in_set [of "L b" j]
    by (auto simp: chain_def)
  have "\<exists>c'. link_instr (c\<lparr>code := code c @ [x]\<rparr>) b n = Inr c' \<and> extended c c' b op \<and>
     (\<forall>j < n. uses (code c' ! j) = uses (code c ! j)) \<and> uses (code c' ! n) = [] \<and>
     (\<forall>j < n. sib_prev (code c' ! j) = sib_prev (code c ! j)) \<and> sib_prev (code c' ! n) = t \<and>
     (\<forall>j < n. sib_next (code c' ! j) = (if t = Some j then Some n else sib_next (code c ! j))) \<and>
     sib_next (code c' ! n) = None \<and>
     (\<forall>b'. content_head (blocks c' ! b') = (if b' = b \<and> t = None then Some n else content_head (blocks c ! b'))) \<and>
     (\<forall>b'. content_tail (blocks c' ! b') = (if b' = b then Some n else content_tail (blocks c ! b')))"
    using bl tn key
    by (cases t) (auto simp: link_instr_def t_def n_def x_def extended_def Let_def nth_append nth_update)
  then obtain c' where c': "link_instr (c\<lparr>code := code c @ [x]\<rparr>) b n = Inr c'" and ex: "extended c c' b op"
     and u: "\<forall>j < n. uses (code c' ! j) = uses (code c ! j)" "uses (code c' ! n) = []"
     and p: "\<And>j. j < n \<Longrightarrow> sib_prev (code c' ! j) = sib_prev (code c ! j)" "sib_prev (code c' ! n) = t"
     and nx: "\<And>j. j < n \<Longrightarrow> sib_next (code c' ! j) = (if t = Some j then Some n else sib_next (code c ! j))"
       "sib_next (code c' ! n) = None"
     and hd: "\<And>b'. content_head (blocks c' ! b') = (if b' = b \<and> t = None then Some n else content_head (blocks c ! b'))"
     and tl: "\<And>b'. content_tail (blocks c' ! b') = (if b' = b then Some n else content_tail (blocks c ! b'))"
    by blast
  note r = extended_rest [OF ex, folded n_def] and old = extended_old [OF ex, folded n_def]
  have chb: "content.chained c' b (L b @ [n])"
    unfolding content.chained_def tl
    using ch by (simp, intro chain_append) (use Ln [OF _ b] p nx hd in auto)
  have Cn: "j < n" if "j \<in> set (C b')" "has_block c b'" for j b'
    using that lists_okD(4) [OF ls that(2)] Ln by blast
  have other: "content.chained c' b' (L b')" if "has_block c b'" "b' \<noteq> b" for b'
  proof -
    have t': "t \<noteq> Some j" if "j \<in> set (L b')" for j
    proof
      assume "t = Some j"
      then have "j \<in> set (L b)" using ch final_in_set by (simp add: chain_def)
      then show False
        using that lists_okD(2) [OF ls \<open>has_block c b'\<close>] lists_okD(2) [OF ls b] \<open>b' \<noteq> b\<close> by auto
    qed
    have "chain (\<lambda>i. sib_prev (code c' ! i)) (\<lambda>i. sib_next (code c' ! i)) h t'' (L b') \<longleftrightarrow>
        chain (\<lambda>i. sib_prev (code c ! i)) (\<lambda>i. sib_next (code c ! i)) h t'' (L b')" for h t''
      by (intro chain_cong) (use Ln [OF _ that(1)] p nx t' in auto)
    then show ?thesis
      using lists_okD(1) [OF ls that(1)] that(2) by (simp add: content.chained_def hd tl)
  qed
  have ctl: "control.chained c' b' (C b')" if "has_block c b'" for b'
  proof -
    have "chain (\<lambda>i. cf_prev (code c' ! i)) (\<lambda>i. cf_next (code c' ! i)) h t'' (C b') \<longleftrightarrow>
        chain (\<lambda>i. cf_prev (code c ! i)) (\<lambda>i. cf_next (code c ! i)) h t'' (C b')" for h t''
      by (intro chain_cong) (use Cn [OF _ that] old in auto)
    then show ?thesis
      using lists_okD(3) [OF ls that] by (simp add: control.chained_def extended_block [OF ex])
  qed
  have "lists_ok c' (L(b := L b @ [n])) C"
    unfolding lists_ok_def r(6) r(1)
  proof (intro conjI allI impI)
    fix b' assume b': "has_block c b'"
    show "content.chained c' b' ((L(b := L b @ [n])) b')"
      using chb other [OF b'] by simp
    have "set (L b') = {i. i < n \<and> instr_block (code c ! i) = Some b'}"
      using lists_okD(2) [OF ls b'] by (simp add: n_def)
    then show "set ((L(b := L b @ [n])) b') = {i. i < Suc n \<and> instr_block (code c' ! i) = Some b'}"
      using r(11) old(2) by (auto simp: less_Suc_eq)
    show "control.chained c' b' (C b')" by (rule ctl [OF b'])
    show "set (C b') \<subseteq> set ((L(b := L b @ [n])) b')" using lists_okD(4) [OF ls b'] by auto
  next
    fix b' i assume b': "has_block c b'" and i: "i \<in> set ((L(b := L b @ [n])) b') - set (C b')"
    then have "i = n \<or> i \<in> set (L b') - set (C b')" by (auto split: if_splits)
    then show "cf_prev (code c' ! i) = None" "cf_next (code c' ! i) = None"
      using r(13,14) old(4,5) lists_okD(5) [OF ls b', of i] Ln [OF _ b'] by auto
  next
    fix i assume "i < Suc n"
    then show "instr_id (code c' ! i) = i"
      using r(10) old(1) lists_okD(6) [OF ls] by (auto simp: less_Suc_eq n_def)
    fix b' assume "instr_block (code c' ! i) = Some b'"
    then show "has_block c b'"
      using \<open>i < Suc n\<close> r(11) old(2) lists_okD(8) [OF ls] b by (auto simp: less_Suc_eq n_def)
  next
    fix b' assume "b' < length (blocks c')"
    then show "block_key (blocks c' ! b') = b'"
      using lists_okD(7) [OF ls, of b'] r(2) by (simp add: extended_block [OF ex] has_block_def)
  qed
  then show ?thesis
    using c' ex u by blast
qed

lemma extended_uses_only:
  assumes ex: "extended c c1 b op" and u: "uses_only c1 c2"
  shows "extended c c2 b op"
proof -
  have e: "(code c2 ! j)\<lparr>sib_next := None, uses := []\<rparr> = (code c1 ! j)\<lparr>sib_next := None, uses := []\<rparr>" for j
    by (rule opt_instruction.equality) (simp_all add: uses_only_fields [OF u])
  show ?thesis
    using ex u by (simp add: extended_def Let_def e uses_only_fields [OF u]) (simp add: uses_only_def)
qed

lemma new_instruction_effect:
  assumes ls: "lists_ok c L C" and b: "has_block c b"
    and rs: "\<And>x. operation x = op \<Longrightarrow> kefir_opt_instruction_extract_inputs c x True = Inr rs"
    and lv: "\<forall>r \<in> set rs. \<exists>i. r = Some i \<and> live c i"
  defines "n \<equiv> length (code c)"
  shows "\<exists>c'. kefir_opt_code_container_new_instruction c (Some b) op = Inr (c', n) \<and> extended c c' b op \<and>
    lists_ok c' (L(b := L b @ [n])) C \<and>
    (\<forall>j < n. uses (code c' ! j) =
       (if Some j \<in> set rs then uses_add n (uses (code c ! j)) else uses (code c ! j))) \<and>
    uses (code c' ! n) = []"
proof -
  define x where "x = \<lparr>instr_id = n, instr_block = Some (block_key (blocks c ! b)), operation = op,
      sib_prev = content_tail (blocks c ! b), sib_next = None, cf_prev = None, cf_next = None, uses = []\<rparr>"
  obtain c1 where c1: "link_instr (c\<lparr>code := code c @ [x]\<rparr>) b n = Inr c1" "extended c c1 b op"
      "lists_ok c1 (L(b := L b @ [n])) C" "\<forall>j < n. uses (code c1 ! j) = uses (code c ! j)" "uses (code c1 ! n) = []"
    using link_new [OF ls b, of op] by (auto simp: n_def x_def)
  note r = extended_rest [OF c1(2), folded n_def]
  have e: "kefir_opt_instruction_extract_inputs c1 (code c1 ! n) True = Inr rs"
    unfolding rs [OF r(12), symmetric]
    by (rule extract_inputs_cong)
       (simp_all add: extract_inputs_phi_ref_def extract_inputs_call_ref_def extract_inputs_inline_asm_def
          code_container_call_mutable_def code_container_inline_assembly_mutable_def r split: option.split)
  have "\<forall>r \<in> set rs. \<exists>i. r = Some i \<and> live c1 i"
    using lv extended_live [OF c1(2)] by blast
  from for_each_add [OF this, of n] obtain c2 where
      c2: "for_each_ref (\<lambda>c r. add_used_instructions c n r) c1 rs = Inr c2" "uses_only c1 c2"
      "\<And>j. uses (code c2 ! j) = (if Some j \<in> set rs then uses_add n (uses (code c1 ! j)) else uses (code c1 ! j))"
    by blast
  have "update_used_instructions c1 n = Inr c2"
    using e c2(1) extended_live [OF c1(2), of n] by (simp add: update_used_instructions_def n_def)
  then have "kefir_opt_code_container_new_instruction c (Some b) op = Inr (c2, n)"
    using c1(1) b by (simp add: kefir_opt_code_container_new_instruction_def n_def x_def Let_def)
  moreover have "Some n \<notin> set rs"
    using lv by (auto simp: live_def n_def)
  ultimately show ?thesis
    using c1 c2 extended_uses_only [OF c1(2) c2(2)] uses_only_structure(1) [OF c2(2)] by auto
qed

section \<open>The invariant after an instruction was appended\<close>

definition nodes_present :: "opt_code \<Rightarrow> bool" where
  "nodes_present c \<longleftrightarrow> (\<forall>u. live c u \<longrightarrow>
     (opcode (operation (code c ! u)) = OPC_PHI \<longrightarrow> (\<exists>k. phi_ref (operation (code c ! u)) = Some k \<and> live_phi c k)) \<and>
     (is_call (opcode (operation (code c ! u))) \<longrightarrow> (\<exists>k. call_ref (operation (code c ! u)) = Some k \<and> has_call c k)) \<and>
     (opcode (operation (code c ! u)) = OPC_INLINE_ASSEMBLY \<longrightarrow>
        (\<exists>k. inline_asm_ref (operation (code c ! u)) = Some k \<and> has_asm c k)))"

lemma code_ok_nodes_present: "code_ok c L C \<Longrightarrow> nodes_present c"
  unfolding nodes_present_def code_ok_def
  using phis_okD(1) [of c] calls_okD(1) [of c] asms_okD(1) [of c] by meson

lemma extended_inputs:
  assumes ex: "extended c c' b op" and u: "live c u" "op_ok (operation (code c ! u))"
    and id: "instr_id (code c ! u) = u" and np: "nodes_present c"
  shows "inputs c' u = inputs c u"
proof (rule inputs_at)
  have ul: "u < length (code c)" using u by (simp add: live_def)
  show "operation (code c' ! u) = operation (code c ! u)" "instr_id (code c' ! u) = u"
    using extended_old [OF ex ul] id by simp_all
  show "live c' u" using u extended_live [OF ex] by blast
qed (use np u id extended_rest [OF ex] in \<open>auto simp: nodes_present_def\<close>)

text \<open>The users and inputs once the new instruction has been given its inputs.\<close>

lemma new_instruction_uses:
  assumes ex: "extended c c' b op" and io: "inputs_ok c" and uo: "uses_ok c" and np: "nodes_present c"
    and id: "\<And>i. i < length (code c) \<Longrightarrow> instr_id (code c ! i) = i"
    and op: "op_ok op" and inp: "inputs c' (length (code c)) = Inr rs"
    and lv: "\<forall>r \<in> set rs. \<exists>i. r = Some i \<and> live c i"
    and us: "\<And>j. j < length (code c) \<Longrightarrow> uses (code c' ! j) =
       (if Some j \<in> set rs then uses_add (length (code c)) (uses (code c ! j)) else uses (code c ! j))"
    and un: "uses (code c' ! length (code c)) = []"
  shows "inputs_ok c'" "uses_ok c'"
proof -
  define n where "n = length (code c)"
  note r = extended_rest [OF ex, folded n_def]
  have live': "live c' j \<longleftrightarrow> j = n \<or> live c j" for j
    using extended_live [OF ex] by (simp add: n_def)
  have ln: "j < n" if "live c j" for j using that by (simp add: live_def n_def)
  have old: "inputs c' u = inputs c u" "op_ok (operation (code c' ! u))" if "live c u" for u
    using extended_inputs [OF ex that inputs_okD(1) [OF io that] id np] inputs_okD(1) [OF io that]
      extended_old(3) [OF ex] ln [OF that] that by (auto simp: n_def live_def)
  have hi: "has_input c' u i \<longleftrightarrow> (if u = n then Some i \<in> set rs else has_input c u i)" if "live c' u" for u i
    using that live' inp old ln by (auto simp: has_input_def n_def)
  show "inputs_ok c'"
    unfolding inputs_ok_def
  proof (intro allI impI)
    fix u assume "live c' u"
    then show "op_ok (operation (code c' ! u)) \<and> (\<exists>rs. inputs c' u = Inr rs \<and> (\<forall>i. Some i \<in> set rs \<longrightarrow> live c' i))"
      using live' old inp op r(12) lv io unfolding n_def inputs_ok_def by (metis option.inject)
  qed
  have nin: "\<not> has_input c' u n" if "live c' u" for u
  proof (cases "u = n")
    case True
    then show ?thesis using hi [OF that] lv ln by fastforce
  next
    case False
    then have "live c u" using that live' by blast
    then show ?thesis using hi [OF that, of n] False inputs_okD(3) [OF io, of u n] ln [of n] by auto
  qed
  show "uses_ok c'"
    unfolding uses_ok_def
  proof (intro allI impI)
    fix i assume i: "live c' i"
    show "sorted (uses (code c' ! i)) \<and> distinct (uses (code c' ! i)) \<and>
      (\<forall>u. u \<in> set (uses (code c' ! i)) \<longleftrightarrow> live c' u \<and> has_input c' u i)"
    proof (cases "i = n")
      case True
      then show ?thesis using un nin by (auto simp: n_def)
    next
      case False
      then have il: "live c i" using i live' by blast
      have u: "sorted (uses (code c ! i))" "distinct (uses (code c ! i))"
          "\<And>u. u \<in> set (uses (code c ! i)) \<longleftrightarrow> live c u \<and> has_input c u i"
        using uo il unfolding uses_ok_def by blast+
      have "u \<in> set (uses (code c' ! i)) \<longleftrightarrow> live c' u \<and> has_input c' u i" for u
      proof (cases "u = n")
        case True
        then show ?thesis
          using us [of i] ln [OF il] u(3) [of n] hi [of n i] live' ln by (auto simp: n_def)
      next
        case False
        then show ?thesis
          using us [of i] ln [OF il] u(3) [of u] hi [of u i] live' by (auto simp: n_def)
      qed
      then show ?thesis
        using us [of i] ln [OF il] u uses_add_order by (auto simp: n_def)
    qed
  qed
qed

lemma extended_phis:
  assumes ex: "extended c c' b op" and ok: "phis_ok c" and op: "opcode op \<noteq> OPC_PHI"
  shows "phis_ok c'"
proof -
  note r = extended_rest [OF ex] and bl = extended_block [OF ex]
  have l: "live c' j \<longleftrightarrow> j = length (code c) \<or> live c j" for j by (rule extended_live [OF ex])
  have o: "operation (code c' ! j) = operation (code c ! j) \<and> instr_block (code c' ! j) = instr_block (code c ! j)"
    if "live c j" for j using extended_old [OF ex] that by (simp add: live_def)
  show ?thesis
    unfolding phis_ok_def r(3,6,9)
  proof (intro conjI allI impI)
    fix i assume "live c' i" "opcode (operation (code c' ! i)) = OPC_PHI"
    then show "\<exists>k. phi_ref (operation (code c' ! i)) = Some k \<and> live_phi c k \<and>
        phi_output (phi_nodes c ! k) = Some i \<and> phi_block (phi_nodes c ! k) = instr_block (code c' ! i)"
      using l r(12) op o phis_okD(1) [OF ok] by metis
  next
    fix k b assume "k < length (phi_nodes c)" "phi_block (phi_nodes c ! k) = Some b"
    then obtain i where "phi_output (phi_nodes c ! k) = Some i" "live c i" "opcode (operation (code c ! i)) = OPC_PHI"
        "phi_ref (operation (code c ! i)) = Some k" "instr_block (code c ! i) = Some b"
      using phis_okD(2) [OF ok] by blast
    then show "\<exists>i. phi_output (phi_nodes c ! k) = Some i \<and> live c' i \<and> opcode (operation (code c' ! i)) = OPC_PHI \<and>
        phi_ref (operation (code c' ! i)) = Some k \<and> instr_block (code c' ! i) = Some b"
      using l [of i] o [of i] by (intro exI [of _ i]) simp
  qed (use phis_okD(3,4) [OF ok] in \<open>auto simp: phi.chained_def bl r\<close>)
qed

lemma extended_calls:
  assumes ex: "extended c c' b op" and ok: "calls_ok c" and op: "\<not> is_call (opcode op)"
  shows "calls_ok c'"
proof -
  note r = extended_rest [OF ex] and bl = extended_block [OF ex]
  have l: "live c' j \<longleftrightarrow> j = length (code c) \<or> live c j" for j by (rule extended_live [OF ex])
  have o: "operation (code c' ! j) = operation (code c ! j) \<and> instr_block (code c' ! j) = instr_block (code c ! j)"
    if "live c j" for j using extended_old [OF ex] that by (simp add: live_def)
  show ?thesis
    unfolding calls_ok_def r(4,6,7)
  proof (intro conjI allI impI)
    fix i assume "live c' i" "is_call (opcode (operation (code c' ! i)))"
    then show "\<exists>k. call_ref (operation (code c' ! i)) = Some k \<and> has_call c k \<and>
        call_output (call_nodes c ! k) = Some i \<and> call_block (call_nodes c ! k) = instr_block (code c' ! i)"
      using l r(12) op o calls_okD(1) [OF ok] by metis
  next
    fix k b assume "has_call c k" "call_block (call_nodes c ! k) = Some b"
    then obtain i where "call_output (call_nodes c ! k) = Some i" "live c i" "is_call (opcode (operation (code c ! i)))"
        "call_ref (operation (code c ! i)) = Some k" "instr_block (code c ! i) = Some b"
      using calls_okD(2) [OF ok] by blast
    then show "\<exists>i. call_output (call_nodes c ! k) = Some i \<and> live c' i \<and> is_call (opcode (operation (code c' ! i))) \<and>
        call_ref (operation (code c' ! i)) = Some k \<and> instr_block (code c' ! i) = Some b"
      using l [of i] o [of i] by (intro exI [of _ i]) simp
  qed (use calls_okD(3) [OF ok] in \<open>auto simp: call.chained_def bl r\<close>)
qed

lemma extended_asms:
  assumes ex: "extended c c' b op" and ok: "asms_ok c" and op: "opcode op \<noteq> OPC_INLINE_ASSEMBLY"
  shows "asms_ok c'"
proof -
  note r = extended_rest [OF ex] and bl = extended_block [OF ex]
  have l: "live c' j \<longleftrightarrow> j = length (code c) \<or> live c j" for j by (rule extended_live [OF ex])
  have o: "operation (code c' ! j) = operation (code c ! j) \<and> instr_block (code c' ! j) = instr_block (code c ! j)"
    if "live c j" for j using extended_old [OF ex] that by (simp add: live_def)
  show ?thesis
    unfolding asms_ok_def r(5,6,8)
  proof (intro conjI allI impI)
    fix i assume "live c' i" "opcode (operation (code c' ! i)) = OPC_INLINE_ASSEMBLY"
    then show "\<exists>k. inline_asm_ref (operation (code c' ! i)) = Some k \<and> has_asm c k \<and>
        asm_output (inline_assembly c ! k) = Some i \<and> asm_block (inline_assembly c ! k) = instr_block (code c' ! i)"
      using l r(12) op o asms_okD(1) [OF ok] by metis
  next
    fix k b assume "has_asm c k" "asm_block (inline_assembly c ! k) = Some b"
    then obtain i where "asm_output (inline_assembly c ! k) = Some i" "live c i"
        "opcode (operation (code c ! i)) = OPC_INLINE_ASSEMBLY"
        "inline_asm_ref (operation (code c ! i)) = Some k" "instr_block (code c ! i) = Some b"
      using asms_okD(2) [OF ok] by blast
    then show "\<exists>i. asm_output (inline_assembly c ! k) = Some i \<and> live c' i \<and>
        opcode (operation (code c' ! i)) = OPC_INLINE_ASSEMBLY \<and>
        inline_asm_ref (operation (code c' ! i)) = Some k \<and> instr_block (code c' ! i) = Some b"
      using l [of i] o [of i] by (intro exI [of _ i]) simp
  qed (use asms_okD(3) [OF ok] in \<open>auto simp: asm.chained_def bl r\<close>)
qed

text \<open>The inputs of an operation without a node.\<close>

definition is_plain :: "opt_operation \<Rightarrow> bool" where
  "is_plain op \<longleftrightarrow> op_ok op \<and> opcode op \<noteq> OPC_PHI \<and> \<not> is_call (opcode op) \<and> opcode op \<noteq> OPC_INLINE_ASSEMBLY"

definition op_inputs :: "opt_operation \<Rightarrow> ref list result" where
  "op_inputs op = kefir_opt_instruction_extract_inputs kefir_opt_code_container_init
     \<lparr>instr_id = 0, instr_block = None, operation = op, sib_prev = None, sib_next = None,
      cf_prev = None, cf_next = None, uses = []\<rparr> True"

lemma plain_inputs:
  assumes "is_plain op" "operation x = op"
  shows "kefir_opt_instruction_extract_inputs c x rp = op_inputs op"
  unfolding op_inputs_def
proof -
  have o: "op_ok op" using assms by (simp add: is_plain_def)
  have cls: "opcode_class_of (opcode op) \<notin> {Class_phi_ref, Class_call_ref, Class_inline_asm}"
    using assms(1) op_ok_class [OF o] by (auto simp: is_plain_def)
  show "kefir_opt_instruction_extract_inputs c x rp = kefir_opt_instruction_extract_inputs
      kefir_opt_code_container_init \<lparr>instr_id = 0, instr_block = None, operation = op, sib_prev = None,
      sib_next = None, cf_prev = None, cf_next = None, uses = []\<rparr> True"
    using cls assms(2)
    by (cases "opcode_class_of (opcode op)") (simp_all add: kefir_opt_instruction_extract_inputs_def)
qed

lemma new_instruction_ok:
  assumes ok: "code_ok c L C" and b: "has_block c b" and op: "is_plain op"
    and rs: "op_inputs op = Inr rs" and lv: "\<forall>i. Some i \<in> set rs \<longrightarrow> live c i"
  defines "n \<equiv> length (code c)"
  shows "\<exists>c'. kefir_opt_code_container_new_instruction c (Some b) op = Inr (c', n) \<and> extended c c' b op \<and>
    code_ok c' (L(b := L b @ [n])) C \<and>
    (\<forall>j < n. uses (code c' ! j) =
       (if Some j \<in> set rs then uses_add n (uses (code c ! j)) else uses (code c ! j)))"
proof -
  have nn: "None \<notin> set rs"
    using rs by (auto simp: op_inputs_def kefir_opt_instruction_extract_inputs_def bindE_iffs)
  have lv': "\<forall>r \<in> set rs. \<exists>i. r = Some i \<and> live c i"
    using lv nn by (metis option.exhaust)
  have parts: "lists_ok c L C" "phis_ok c" "calls_ok c" "asms_ok c" "inputs_ok c" "uses_ok c"
    using ok by (auto simp: code_ok_def)
  have ex_in: "kefir_opt_instruction_extract_inputs c x True = Inr rs" if "operation x = op" for x
    using plain_inputs [OF op that] rs by simp
  from new_instruction_effect [OF parts(1) b ex_in lv', folded n_def] obtain c' where
    c': "kefir_opt_code_container_new_instruction c (Some b) op = Inr (c', n)" "extended c c' b op"
      "lists_ok c' (L(b := L b @ [n])) C"
      "\<And>j. j < n \<Longrightarrow> uses (code c' ! j) =
         (if Some j \<in> set rs then uses_add n (uses (code c ! j)) else uses (code c ! j))"
      "uses (code c' ! n) = []" by blast
  have opo: "op_ok op" using op by (simp add: is_plain_def)
  have inp: "inputs c' (length (code c)) = Inr rs"
    unfolding inputs_def using plain_inputs [OF op extended_rest(12) [OF c'(2)]] rs by simp
  have "inputs_ok c'" "uses_ok c'"
    using new_instruction_uses [OF c'(2) parts(5,6) code_ok_nodes_present [OF ok] code_ok_listsD(6) [OF ok]
        opo inp lv'] c'(4,5) by (simp_all add: n_def)
  then show ?thesis
    using c' extended_phis [OF c'(2) parts(2)] extended_calls [OF c'(2) parts(3)] extended_asms [OF c'(2) parts(4)] op
    by (auto simp: code_ok_def is_plain_def)
qed

end
