(* ===== verification/Kefir_Opt_Code_Drop.thy ===== *)
theory Kefir_Opt_Code_Drop
  imports Kefir_Opt_Code_New
begin

text \<open>
  Dropping an instruction without users that is not ordered in the control flow: it leaves its
  block, its node leaves the list of nodes, and it leaves the users of its inputs.
\<close>

section \<open>Users after a removal\<close>

lemma drop_uses_final:
  assumes io: "inputs_upto A c" and uo: "users_but i c" and i: "live c i"
    and ni: "\<And>u. u \<in> A \<Longrightarrow> live c u \<Longrightarrow> \<not> has_input c u i" and len: "length (code c') = length (code c)"
    and live': "\<And>j. live c' j \<longleftrightarrow> live c j \<and> j \<noteq> i"
    and inp: "\<And>u. live c u \<Longrightarrow> u \<noteq> i \<Longrightarrow> inputs c' u = inputs c u \<and> operation (code c' ! u) = operation (code c ! u)"
    and us: "\<And>j. live c j \<Longrightarrow> j \<noteq> i \<Longrightarrow> uses (code c' ! j) =
        (if Some j \<in> set rs then uses_delete i (uses (code c ! j)) else uses (code c ! j))"
    and rs: "\<And>j. has_input c i j \<Longrightarrow> Some j \<in> set rs"
  shows "inputs_upto A c'" "uses_ok c'"
proof -
  have uses: "sorted (uses (code c ! j))" "distinct (uses (code c ! j))"
      "u \<in> set (uses (code c ! j)) \<longleftrightarrow> live c u \<and> has_input c u j" if "live c j" "j \<noteq> i" for j u
    using uo that unfolding users_but_def by blast+
  have hi: "has_input c' u j = has_input c u j" if "live c u" "u \<noteq> i" for u j
    using inp [OF that] by (simp add: has_input_def)
  have "inputs_defined c'"
    unfolding inputs_defined_def
  proof (intro allI impI)
    fix u assume "live c' u"
    then have u: "live c u" "u \<noteq> i" using live' by auto
    then show "op_ok (operation (code c' ! u)) \<and> (\<exists>rs. inputs c' u = Inr rs \<and> (\<forall>i. Some i \<in> set rs \<longrightarrow> i < length (code c')))"
      using inp [OF u] io len unfolding inputs_upto_def inputs_defined_def by metis
  qed
  moreover have "live c' j" if u: "u \<in> A" "live c' u" "has_input c' u j" for u j
  proof -
    have v: "live c u" "u \<noteq> i" "has_input c u j" using u live' hi by auto
    then have "live c j" "j \<noteq> i" using io u(1) ni by (auto simp: inputs_upto_def)
    then show ?thesis using live' by blast
  qed
  ultimately show "inputs_upto A c'" by (simp add: inputs_upto_def)
  show "uses_ok c'"
    unfolding uses_ok_def
  proof (intro allI impI)
    fix j assume "live c' j"
    then have j: "live c j" "j \<noteq> i" using live' by auto
    have "u \<in> set (uses (code c' ! j)) \<longleftrightarrow> live c' u \<and> has_input c' u j" for u
    proof (cases "u = i")
      case True
      then show ?thesis
        using us [OF j] uses(3) [OF j, of i] rs [of j] live' by auto
    next
      case False
      then show ?thesis
        using us [OF j] uses(3) [OF j, of u] live' hi [of u j] by auto
    qed
    then show "sorted (uses (code c' ! j)) \<and> distinct (uses (code c' ! j)) \<and>
        (\<forall>u. u \<in> set (uses (code c' ! j)) \<longleftrightarrow> live c' u \<and> has_input c' u j)"
      using us [OF j] uses(1,2) [OF j] uses_delete_order by auto
  qed
qed

section \<open>Leaving the block\<close>

definition minus_instr :: "opt_code \<Rightarrow> opt_code \<Rightarrow> nat \<Rightarrow> bool" where
  "minus_instr c c' i \<longleftrightarrow> length (code c') = length (code c) \<and> length (blocks c') = length (blocks c) \<and>
     (\<forall>j. operation (code c' ! j) = operation (code c ! j) \<and> instr_id (code c' ! j) = instr_id (code c ! j) \<and>
          cf_prev (code c' ! j) = cf_prev (code c ! j) \<and> cf_next (code c' ! j) = cf_next (code c ! j) \<and>
          instr_block (code c' ! j) = (if j = i then None else instr_block (code c ! j))) \<and>
     (\<forall>b. (blocks c' ! b)\<lparr>content_head := None, content_tail := None\<rparr> =
          (blocks c ! b)\<lparr>content_head := None, content_tail := None\<rparr>) \<and>
     phi_nodes c' = phi_nodes c \<and> call_nodes c' = call_nodes c \<and> inline_assembly c' = inline_assembly c"

lemma minus_instr_fields:
  assumes "minus_instr c c' i"
  shows "length (code c') = length (code c)" "length (blocks c') = length (blocks c)"
    "operation (code c' ! j) = operation (code c ! j)" "instr_id (code c' ! j) = instr_id (code c ! j)"
    "instr_block (code c' ! j) = (if j = i then None else instr_block (code c ! j))"
    "phi_nodes c' = phi_nodes c" "call_nodes c' = call_nodes c" "inline_assembly c' = inline_assembly c"
    "has_block c' = has_block c" "has_call c' = has_call c" "has_asm c' = has_asm c" "live_phi c' = live_phi c"
    "live c' j \<longleftrightarrow> live c j \<and> j \<noteq> i"
  using assms by (auto simp: minus_instr_def has_block_def has_call_def has_asm_def live_phi_def live_def fun_eq_iff)

lemma minus_instr_block:
  assumes "minus_instr c c' i"
  shows "phi_head (blocks c' ! b) = phi_head (blocks c ! b)" "phi_tail (blocks c' ! b) = phi_tail (blocks c ! b)"
    "call_head (blocks c' ! b) = call_head (blocks c ! b)" "call_tail (blocks c' ! b) = call_tail (blocks c ! b)"
    "asm_head (blocks c' ! b) = asm_head (blocks c ! b)" "asm_tail (blocks c' ! b) = asm_tail (blocks c ! b)"
proof -
  have e: "(blocks c' ! b)\<lparr>content_head := None, content_tail := None\<rparr> =
      (blocks c ! b)\<lparr>content_head := None, content_tail := None\<rparr>"
    using assms by (simp add: minus_instr_def)
  show "phi_head (blocks c' ! b) = phi_head (blocks c ! b)" using arg_cong [OF e, of phi_head] by simp
  show "phi_tail (blocks c' ! b) = phi_tail (blocks c ! b)" using arg_cong [OF e, of phi_tail] by simp
  show "call_head (blocks c' ! b) = call_head (blocks c ! b)" using arg_cong [OF e, of call_head] by simp
  show "call_tail (blocks c' ! b) = call_tail (blocks c ! b)" using arg_cong [OF e, of call_tail] by simp
  show "asm_head (blocks c' ! b) = asm_head (blocks c ! b)" using arg_cong [OF e, of asm_head] by simp
  show "asm_tail (blocks c' ! b) = asm_tail (blocks c ! b)" using arg_cong [OF e, of asm_tail] by simp
qed

lemma block_update_content:
  "(xs[b := (xs ! b)\<lparr>content_head := h, content_tail := t\<rparr>] ! b')\<lparr>content_head := None, content_tail := None\<rparr> =
   (xs ! b')\<lparr>content_head := None, content_tail := None\<rparr>"
proof (cases "b = b' \<and> b < length xs")
  case True
  then have "xs[b := (xs ! b)\<lparr>content_head := h, content_tail := t\<rparr>] ! b' = (xs ! b)\<lparr>content_head := h, content_tail := t\<rparr>"
    by auto
  then show ?thesis using True by simp
next
  case False
  then have "xs[b := (xs ! b)\<lparr>content_head := h, content_tail := t\<rparr>] ! b' = xs ! b'"
    by (simp only: nth_update if_False) auto
  then show ?thesis by simp
qed

lemma unlink_instr_ok:
  assumes ls: "lists_ok c L C" and b: "has_block c b" and i: "i \<in> set (L b)" "i \<notin> set (C b)"
  shows "\<exists>c'. unlink_instr c b i = Inr c' \<and> minus_instr c c' i \<and> lists_ok c' (L(b := removeAll i (L b))) C \<and>
    (\<forall>j. uses (code c' ! j) = uses (code c ! j))"
proof -
  have Ll: "live c j" if "j \<in> set (L b)" for j
    using that lists_okD(2) [OF ls b] by (auto simp: live_def)
  have il: "i < length (code c)" using Ll [OF i(1)] by (simp add: live_def)
  from content.unlink_chained [OF lists_okD(1) [OF ls b] i(1) b] Ll
  obtain c' where c': "unlink_instr c b i = Inr c'" "content.chained c' b (removeAll i (L b))"
      and other: "\<And>b' ys. b' \<noteq> b \<Longrightarrow> set ys \<inter> set (L b) = {} \<Longrightarrow> content.chained c b' ys \<Longrightarrow> content.chained c' b' ys"
    by blast
  note form = unlink_instr_form [OF c'(1) b]
  have m: "minus_instr c c' i"
    unfolding minus_instr_def
  proof (intro conjI allI)
    show "operation (code c' ! j) = operation (code c ! j)" "instr_id (code c' ! j) = instr_id (code c ! j)"
        "cf_prev (code c' ! j) = cf_prev (code c ! j)" "cf_next (code c' ! j) = cf_next (code c ! j)" for j
      by (simp_all add: form nth_upd_opt)
    show "instr_block (code c' ! j) = (if j = i then None else instr_block (code c ! j))" for j
      using il by (simp add: form nth_upd_opt)
    show "(blocks c' ! b')\<lparr>content_head := None, content_tail := None\<rparr> =
        (blocks c ! b')\<lparr>content_head := None, content_tail := None\<rparr>" for b'
      unfolding form(1) by (rule block_update_content)
  qed (simp_all add: form)
  have us: "uses (code c' ! j) = uses (code c ! j)" for j
    by (simp add: form nth_upd_opt)
  note f = minus_instr_fields [OF m]
  have cf: "cf_prev (code c' ! j) = cf_prev (code c ! j)" "cf_next (code c' ! j) = cf_next (code c ! j)" for j
    using m by (auto simp: minus_instr_def)
  have ctl: "control_head (blocks c' ! b') = control_head (blocks c ! b')"
      "control_tail (blocks c' ! b') = control_tail (blocks c ! b')"
      "block_key (blocks c' ! b') = block_key (blocks c ! b')" for b'
    by (simp_all add: form nth_update)
  have dj: "set (L b') \<inter> set (L b) = {}" if "has_block c b'" "b' \<noteq> b" for b'
    unfolding lists_okD(2) [OF ls that(1)] lists_okD(2) [OF ls b] using that(2) by (simp add: disjoint_iff)
  have "lists_ok c' (L(b := removeAll i (L b))) C"
    unfolding lists_ok_def f(9,1)
  proof (intro conjI allI impI)
    fix b' assume b': "has_block c b'"
    show "content.chained c' b' ((L(b := removeAll i (L b))) b')"
      using c'(2) other lists_okD(1) [OF ls b'] dj [OF b'] by simp
    show "set ((L(b := removeAll i (L b))) b') = {j. j < length (code c) \<and> instr_block (code c' ! j) = Some b'}"
      using lists_okD(2) [OF ls b'] lists_okD(2) [OF ls b] dj [OF b'] i(1) by (auto simp: f(5))
    show "control.chained c' b' (C b')"
      using lists_okD(3) [OF ls b'] by (simp add: control.chained_def cf ctl)
    show "set (C b') \<subseteq> set ((L(b := removeAll i (L b))) b')"
      using lists_okD(4) [OF ls b'] i(2) by auto
  next
    fix b' j assume b': "has_block c b'" and "j \<in> set ((L(b := removeAll i (L b))) b') - set (C b')"
    then have "j \<in> set (L b') - set (C b')" by (auto split: if_splits)
    then show "cf_prev (code c' ! j) = None" "cf_next (code c' ! j) = None"
      using lists_okD(5) [OF ls b'] cf by auto
  next
    fix j assume "j < length (code c)"
    then show "instr_id (code c' ! j) = j" using lists_okD(6) [OF ls] f(4) by simp
    fix b' assume "instr_block (code c' ! j) = Some b'"
    then show "has_block c b'"
      using \<open>j < length (code c)\<close> lists_okD(8) [OF ls] by (auto simp: f(5) split: if_splits)
  next
    fix b' assume "b' < length (blocks c')"
    then show "block_key (blocks c' ! b') = b'"
      using lists_okD(7) [OF ls, of b'] by (simp add: ctl has_block_def f(2))
  qed
  then show ?thesis using c'(1) m us by blast
qed

section \<open>Nodes\<close>

lemma minus_phis:
  assumes m: "minus_instr c c' i" and ok: "phis_ok c" and op: "opcode (operation (code c ! i)) \<noteq> OPC_PHI"
  shows "phis_ok c'"
proof -
  note f = minus_instr_fields [OF m] and bl = minus_instr_block [OF m]
  show ?thesis
    unfolding phis_ok_def f(6,9,12,13) f(3)
  proof (intro conjI allI impI)
    fix j assume "live c j \<and> j \<noteq> i" "opcode (operation (code c ! j)) = OPC_PHI"
    then show "\<exists>k. phi_ref (operation (code c ! j)) = Some k \<and> live_phi c k \<and>
        phi_output (phi_nodes c ! k) = Some j \<and> phi_block (phi_nodes c ! k) = instr_block (code c' ! j)"
      using phis_okD(1) [OF ok, of j] by (simp add: f(5))
  next
    fix k b assume "k < length (phi_nodes c)" "phi_block (phi_nodes c ! k) = Some b"
    then obtain j where j: "phi_output (phi_nodes c ! k) = Some j" "live c j" "opcode (operation (code c ! j)) = OPC_PHI"
        "phi_ref (operation (code c ! j)) = Some k" "instr_block (code c ! j) = Some b"
      using phis_okD(2) [OF ok] by blast
    then have "j \<noteq> i" using op by auto
    then show "\<exists>j. phi_output (phi_nodes c ! k) = Some j \<and> (live c j \<and> j \<noteq> i) \<and>
        opcode (operation (code c ! j)) = OPC_PHI \<and> phi_ref (operation (code c ! j)) = Some k \<and>
        instr_block (code c' ! j) = Some b"
      using j by (intro exI [of _ j]) (simp add: f(5))
  qed (use phis_okD(3,4) [OF ok] in \<open>auto simp: phi.chained_def bl f(6)\<close>)
qed

lemma minus_calls:
  assumes m: "minus_instr c c' i" and ok: "calls_ok c" and op: "\<not> is_call (opcode (operation (code c ! i)))"
  shows "calls_ok c'"
proof -
  note f = minus_instr_fields [OF m] and bl = minus_instr_block [OF m]
  show ?thesis
    unfolding calls_ok_def f(7,9,10,13) f(3)
  proof (intro conjI allI impI)
    fix j assume "live c j \<and> j \<noteq> i" "is_call (opcode (operation (code c ! j)))"
    then show "\<exists>k. call_ref (operation (code c ! j)) = Some k \<and> has_call c k \<and>
        call_output (call_nodes c ! k) = Some j \<and> call_block (call_nodes c ! k) = instr_block (code c' ! j)"
      using calls_okD(1) [OF ok, of j] by (simp add: f(5))
  next
    fix k b assume "has_call c k" "call_block (call_nodes c ! k) = Some b"
    then obtain j where j: "call_output (call_nodes c ! k) = Some j" "live c j" "is_call (opcode (operation (code c ! j)))"
        "call_ref (operation (code c ! j)) = Some k" "instr_block (code c ! j) = Some b"
      using calls_okD(2) [OF ok] by blast
    then have "j \<noteq> i" using op by auto
    then show "\<exists>j. call_output (call_nodes c ! k) = Some j \<and> (live c j \<and> j \<noteq> i) \<and>
        is_call (opcode (operation (code c ! j))) \<and> call_ref (operation (code c ! j)) = Some k \<and>
        instr_block (code c' ! j) = Some b"
      using j by (intro exI [of _ j]) (simp add: f(5))
  qed (use calls_okD(3) [OF ok] in \<open>auto simp: call.chained_def bl f(7)\<close>)
qed

lemma minus_asms:
  assumes m: "minus_instr c c' i" and ok: "asms_ok c" and op: "opcode (operation (code c ! i)) \<noteq> OPC_INLINE_ASSEMBLY"
  shows "asms_ok c'"
proof -
  note f = minus_instr_fields [OF m] and bl = minus_instr_block [OF m]
  show ?thesis
    unfolding asms_ok_def f(8,9,11,13) f(3)
  proof (intro conjI allI impI)
    fix j assume "live c j \<and> j \<noteq> i" "opcode (operation (code c ! j)) = OPC_INLINE_ASSEMBLY"
    then show "\<exists>k. inline_asm_ref (operation (code c ! j)) = Some k \<and> has_asm c k \<and>
        asm_output (inline_assembly c ! k) = Some j \<and> asm_block (inline_assembly c ! k) = instr_block (code c' ! j)"
      using asms_okD(1) [OF ok, of j] by (simp add: f(5))
  next
    fix k b assume "has_asm c k" "asm_block (inline_assembly c ! k) = Some b"
    then obtain j where j: "asm_output (inline_assembly c ! k) = Some j" "live c j"
        "opcode (operation (code c ! j)) = OPC_INLINE_ASSEMBLY"
        "inline_asm_ref (operation (code c ! j)) = Some k" "instr_block (code c ! j) = Some b"
      using asms_okD(2) [OF ok] by blast
    then have "j \<noteq> i" using op by auto
    then show "\<exists>j. asm_output (inline_assembly c ! k) = Some j \<and> (live c j \<and> j \<noteq> i) \<and>
        opcode (operation (code c ! j)) = OPC_INLINE_ASSEMBLY \<and> inline_asm_ref (operation (code c ! j)) = Some k \<and>
        instr_block (code c' ! j) = Some b"
      using j by (intro exI [of _ j]) (simp add: f(5))
  qed (use asms_okD(3) [OF ok] in \<open>auto simp: asm.chained_def bl f(8)\<close>)
qed

end
