(* ===== verification/Kefir_Opt_Code_Nodes.thy ===== *)
theory Kefir_Opt_Code_Nodes
  imports Kefir_Opt_Code_Drop
begin

text \<open>
  Dropping the phi, call or inline assembly node of an instruction that has left its block, and
  with it the whole of \<^verbatim>\<open>kefir_opt_code_container_drop_instr\<close>.
\<close>

section \<open>Removing one node of a table\<close>

text \<open>
  What \<open>phis_ok\<close>, \<open>calls_ok\<close> and \<open>asms_ok\<close> say of their table: \<open>lv\<close>, \<open>opn\<close>, \<open>nref\<close> and \<open>ib\<close> describe
  the instructions, \<open>ex\<close>, \<open>outp\<close> and \<open>nb\<close> the nodes, \<open>ch\<close> the lists of the blocks.
\<close>

definition nodes_ok :: "(nat \<Rightarrow> bool) \<Rightarrow> (nat \<Rightarrow> bool) \<Rightarrow> (nat \<Rightarrow> ref) \<Rightarrow> (nat \<Rightarrow> ref) \<Rightarrow> (nat \<Rightarrow> bool) \<Rightarrow>
    (nat \<Rightarrow> ref) \<Rightarrow> (nat \<Rightarrow> ref) \<Rightarrow> (nat \<Rightarrow> bool) \<Rightarrow> (nat \<Rightarrow> nat list \<Rightarrow> bool) \<Rightarrow> bool" where
  "nodes_ok lv opn nref ib ex outp nb hb ch \<longleftrightarrow>
     (\<forall>i. lv i \<longrightarrow> opn i \<longrightarrow> (\<exists>k. nref i = Some k \<and> ex k \<and> outp k = Some i \<and> nb k = ib i)) \<and>
     (\<forall>k b. ex k \<longrightarrow> nb k = Some b \<longrightarrow> (\<exists>i. outp k = Some i \<and> lv i \<and> opn i \<and> nref i = Some k \<and> ib i = Some b)) \<and>
     (\<forall>b. hb b \<longrightarrow> (\<exists>ks. ch b ks \<and> set ks = {k. ex k \<and> nb k = Some b}))"

lemma nodes_ok_remove:
  assumes ok: "nodes_ok lv opn nref ib ex outp nb hb ch"
    and i: "lv i" "opn i" "nref i = Some k"
    and lv': "\<And>j. lv' j \<longleftrightarrow> lv j \<and> j \<noteq> i" and ib': "\<And>j. j \<noteq> i \<Longrightarrow> ib' j = ib j"
    and outp': "\<And>j. outp' j = outp j" and nb': "\<And>j. nb' j = (if j = k then None else nb j)"
    and ch: "\<And>b ks. hb b \<Longrightarrow> ch b ks \<Longrightarrow> set ks = {k. ex k \<and> nb k = Some b} \<Longrightarrow> ch' b (removeAll k ks)"
  shows "nodes_ok lv' opn nref ib' ex outp' nb' hb ch'"
  unfolding nodes_ok_def
proof (intro conjI allI impI)
  have ki: "outp k = Some i"
    using ok i unfolding nodes_ok_def by (metis option.inject)
  show "\<exists>m. nref j = Some m \<and> ex m \<and> outp' m = Some j \<and> nb' m = ib' j" if a: "lv' j" "opn j" for j
  proof -
    have j: "lv j" "j \<noteq> i" using a lv' by auto
    then obtain m where m: "nref j = Some m" "ex m" "outp m = Some j" "nb m = ib j"
      using ok a(2) unfolding nodes_ok_def by blast
    then have "m \<noteq> k" using ki j(2) by auto
    then show ?thesis using m j ib' outp' nb' by auto
  qed
  show "\<exists>j. outp' m = Some j \<and> lv' j \<and> opn j \<and> nref j = Some m \<and> ib' j = Some b" if a: "ex m" "nb' m = Some b" for m b
  proof -
    have m: "m \<noteq> k" "nb m = Some b" using a(2) nb' by (auto split: if_splits)
    then obtain j where j: "outp m = Some j" "lv j" "opn j" "nref j = Some m" "ib j = Some b"
      using ok a(1) unfolding nodes_ok_def by blast
    then have "j \<noteq> i" using i(3) m(1) by auto
    then show ?thesis using j lv' ib' outp' by auto
  qed
  show "\<exists>ks. ch' b ks \<and> set ks = {k. ex k \<and> nb' k = Some b}" if b: "hb b" for b
  proof -
    obtain ks where ks: "ch b ks" "set ks = {k. ex k \<and> nb k = Some b}"
      using ok b unfolding nodes_ok_def by blast
    then have "set (removeAll k ks) = {k. ex k \<and> nb' k = Some b}" by (auto simp: nb')
    then show ?thesis using ch [OF b ks] by blast
  qed
qed

lemma phis_ok_nodes:
  "phis_ok c \<longleftrightarrow> nodes_ok (live c) (\<lambda>i. opcode (operation (code c ! i)) = OPC_PHI) (\<lambda>i. phi_ref (operation (code c ! i)))
      (\<lambda>i. instr_block (code c ! i)) (\<lambda>k. k < length (phi_nodes c)) (\<lambda>k. phi_output (phi_nodes c ! k))
      (\<lambda>k. phi_block (phi_nodes c ! k)) (has_block c) (phi.chained c) \<and>
    (\<forall>k < length (phi_nodes c). distinct (map fst (links (phi_nodes c ! k))))"
proof -
  have "live c i \<Longrightarrow> live_phi c k \<and> q \<and> phi_block (phi_nodes c ! k) = instr_block (code c ! i) \<longleftrightarrow>
      k < length (phi_nodes c) \<and> q \<and> phi_block (phi_nodes c ! k) = instr_block (code c ! i)" for i k q
    by (auto simp: live_phi_def live_def)
  then show ?thesis unfolding phis_ok_def nodes_ok_def by (simp cong: conj_cong) blast
qed

lemma calls_ok_nodes:
  "calls_ok c \<longleftrightarrow> nodes_ok (live c) (\<lambda>i. is_call (opcode (operation (code c ! i)))) (\<lambda>i. call_ref (operation (code c ! i)))
      (\<lambda>i. instr_block (code c ! i)) (has_call c) (\<lambda>k. call_output (call_nodes c ! k))
      (\<lambda>k. call_block (call_nodes c ! k)) (has_block c) (call.chained c)"
  unfolding calls_ok_def nodes_ok_def by simp

lemma asms_ok_nodes:
  "asms_ok c \<longleftrightarrow> nodes_ok (live c) (\<lambda>i. opcode (operation (code c ! i)) = OPC_INLINE_ASSEMBLY)
      (\<lambda>i. inline_asm_ref (operation (code c ! i)))
      (\<lambda>i. instr_block (code c ! i)) (has_asm c) (\<lambda>k. asm_output (inline_assembly c ! k))
      (\<lambda>k. asm_block (inline_assembly c ! k)) (has_block c) (asm.chained c)"
  unfolding asms_ok_def nodes_ok_def by simp

lemma unlink_phi_nodes:
  assumes ok: "phis_ok c" and m: "minus_instr c c' i" and i: "live c i" "opcode (operation (code c ! i)) = OPC_PHI"
    "phi_ref (operation (code c ! i)) = Some k" "instr_block (code c ! i) = Some b" and b: "has_block c b"
  shows "\<exists>c''. unlink_phi c' b k = Inr c'' \<and> phis_ok c''"
proof -
  note f = minus_instr_fields [OF m] and bl = minus_instr_block [OF m]
  have k: "live_phi c k" "phi_output (phi_nodes c ! k) = Some i" "phi_block (phi_nodes c ! k) = Some b"
    using phis_okD(1) [OF ok i(1,2)] i(3,4) by auto
  then have kl: "k < length (phi_nodes c)" by (simp add: live_phi_def)
  have ch: "phi.chained c' b' ks = phi.chained c b' ks" for b' ks
    by (simp add: phi.chained_def bl f)
  have un: "\<exists>c''. unlink_phi c' b k = Inr c'' \<and> phi.chained c'' b (removeAll k ks) \<and>
      (\<forall>b' ys. b' \<noteq> b \<longrightarrow> set ys \<inter> set ks = {} \<longrightarrow> phi.chained c b' ys \<longrightarrow> phi.chained c'' b' ys)"
    if ks: "phi.chained c b ks" "set ks = {k. k < length (phi_nodes c) \<and> phi_block (phi_nodes c ! k) = Some b}" for ks
  proof -
    have "\<forall>j\<in>set ks. live_phi c' j" using ks(2) by (auto simp: f live_phi_def)
    moreover have "k \<in> set ks" using ks(2) k kl by (auto simp: live_phi_def)
    ultimately show ?thesis
      using phi.unlink_chained [of c' b ks k] ks(1) b f(9) unfolding ch by auto
  qed
  obtain ks where ks: "phi.chained c b ks" "set ks = {k. k < length (phi_nodes c) \<and> phi_block (phi_nodes c ! k) = Some b}"
    using phis_okD(4) [OF ok b] by blast
  then obtain c'' where c'': "unlink_phi c' b k = Inr c''" using un by blast
  have b': "has_block c' b" using b f(9) by simp
  note form = unlink_phi_form [OF c'' b']
  have hb: "has_block c'' = has_block c" "live c'' = live c'"
    using f(9) by (auto simp: has_block_def live_def form fun_eq_iff)
  have ln: "length (phi_nodes c'') = length (phi_nodes c)" by (simp add: form f)
  have chain: "phi.chained c'' b' (removeAll k ks')" if a: "has_block c b'" "phi.chained c b' ks'"
      "set ks' = {k. k < length (phi_nodes c) \<and> phi_block (phi_nodes c ! k) = Some b'}" for b' ks'
  proof (cases "b' = b")
    case True
    then show ?thesis using un [of ks'] a c'' by auto
  next
    case False
    then have "k \<notin> set ks'" "set ks' \<inter> set ks = {}" unfolding a(3) ks(2) using k(3) by auto
    then show ?thesis using un [OF ks] a(2) c'' False by auto
  qed
  have "nodes_ok (live c'') (\<lambda>i. opcode (operation (code c ! i)) = OPC_PHI) (\<lambda>i. phi_ref (operation (code c ! i)))
      (\<lambda>i. instr_block (code c' ! i)) (\<lambda>k. k < length (phi_nodes c)) (\<lambda>k. phi_output (phi_nodes c'' ! k))
      (\<lambda>k. phi_block (phi_nodes c'' ! k)) (has_block c) (phi.chained c'')"
  proof (rule nodes_ok_remove [where i = i and k = k and lv = "live c" and ib = "\<lambda>i. instr_block (code c ! i)" and
        ch = "phi.chained c" and outp = "\<lambda>k. phi_output (phi_nodes c ! k)" and nb = "\<lambda>k. phi_block (phi_nodes c ! k)"])
    show "phi_block (phi_nodes c'' ! j) = (if j = k then None else phi_block (phi_nodes c ! j))" for j
      using kl by (simp add: form f nth_upd_opt)
    show "phi_output (phi_nodes c'' ! j) = phi_output (phi_nodes c ! j)" for j
      by (simp add: form f nth_upd_opt)
    show "live c'' j \<longleftrightarrow> live c j \<and> j \<noteq> i" for j using hb f(13) by simp
  qed (use ok phis_ok_nodes i chain f(5) in auto)
  then show ?thesis
    using c'' ok by (intro exI [of _ c'']) (simp add: phis_ok_nodes form f hb ln nth_upd_opt)
qed

lemma unlink_call_nodes:
  assumes ok: "calls_ok c" and m: "minus_instr c c' i" and i: "live c i" "is_call (opcode (operation (code c ! i)))"
    "call_ref (operation (code c ! i)) = Some k" "instr_block (code c ! i) = Some b" and b: "has_block c b"
  shows "\<exists>c''. unlink_call c' b k = Inr c'' \<and> calls_ok c''"
proof -
  note f = minus_instr_fields [OF m] and bl = minus_instr_block [OF m]
  have k: "has_call c k" "call_output (call_nodes c ! k) = Some i" "call_block (call_nodes c ! k) = Some b"
    using calls_okD(1) [OF ok i(1,2)] i(3,4) by auto
  then have kl: "k < length (call_nodes c)" by (simp add: has_call_def)
  have ch: "call.chained c' b' ks = call.chained c b' ks" for b' ks
    by (simp add: call.chained_def bl f)
  have un: "\<exists>c''. unlink_call c' b k = Inr c'' \<and> call.chained c'' b (removeAll k ks) \<and>
      (\<forall>b' ys. b' \<noteq> b \<longrightarrow> set ys \<inter> set ks = {} \<longrightarrow> call.chained c b' ys \<longrightarrow> call.chained c'' b' ys)"
    if ks: "call.chained c b ks" "set ks = {k. has_call c k \<and> call_block (call_nodes c ! k) = Some b}" for ks
  proof -
    have "\<forall>j\<in>set ks. has_call c' j" using ks(2) by (auto simp: f has_call_def)
    moreover have "k \<in> set ks" using ks(2) k kl by (auto simp: has_call_def)
    ultimately show ?thesis
      using call.unlink_chained [of c' b ks k] ks(1) b f(9) unfolding ch by auto
  qed
  obtain ks where ks: "call.chained c b ks" "set ks = {k. has_call c k \<and> call_block (call_nodes c ! k) = Some b}"
    using calls_okD(3) [OF ok b] by blast
  then obtain c'' where c'': "unlink_call c' b k = Inr c''" using un by blast
  have b': "has_block c' b" using b f(9) by simp
  note form = unlink_call_form [OF c'' b']
  have hb: "has_block c'' = has_block c" "live c'' = live c'"
    using f(9) by (auto simp: has_block_def live_def form fun_eq_iff)
  have hn: "has_call c'' = has_call c" by (simp add: has_call_def form f fun_eq_iff)
  have chain: "call.chained c'' b' (removeAll k ks')" if a: "has_block c b'" "call.chained c b' ks'"
      "set ks' = {k. has_call c k \<and> call_block (call_nodes c ! k) = Some b'}" for b' ks'
  proof (cases "b' = b")
    case True
    then show ?thesis using un [of ks'] a c'' by auto
  next
    case False
    then have "k \<notin> set ks'" "set ks' \<inter> set ks = {}" unfolding a(3) ks(2) using k(3) by auto
    then show ?thesis using un [OF ks] a(2) c'' False by auto
  qed
  have "nodes_ok (live c'') (\<lambda>i. is_call (opcode (operation (code c ! i)))) (\<lambda>i. call_ref (operation (code c ! i)))
      (\<lambda>i. instr_block (code c' ! i)) (\<lambda>k. has_call c k) (\<lambda>k. call_output (call_nodes c'' ! k))
      (\<lambda>k. call_block (call_nodes c'' ! k)) (has_block c) (call.chained c'')"
  proof (rule nodes_ok_remove [where i = i and k = k and lv = "live c" and ib = "\<lambda>i. instr_block (code c ! i)" and
        ch = "call.chained c" and outp = "\<lambda>k. call_output (call_nodes c ! k)" and nb = "\<lambda>k. call_block (call_nodes c ! k)"])
    show "call_block (call_nodes c'' ! j) = (if j = k then None else call_block (call_nodes c ! j))" for j
      using kl by (simp add: form f nth_upd_opt)
    show "call_output (call_nodes c'' ! j) = call_output (call_nodes c ! j)" for j
      by (simp add: form f nth_upd_opt)
    show "live c'' j \<longleftrightarrow> live c j \<and> j \<noteq> i" for j using hb f(13) by simp
  qed (use ok calls_ok_nodes i chain f(5) in auto)
  then show ?thesis
    using c'' ok by (intro exI [of _ c'']) (simp add: calls_ok_nodes form f hb hn)
qed

lemma unlink_asm_nodes:
  assumes ok: "asms_ok c" and m: "minus_instr c c' i" and i: "live c i" "opcode (operation (code c ! i)) = OPC_INLINE_ASSEMBLY"
    "inline_asm_ref (operation (code c ! i)) = Some k" "instr_block (code c ! i) = Some b" and b: "has_block c b"
  shows "\<exists>c''. unlink_asm c' b k = Inr c'' \<and> asms_ok c''"
proof -
  note f = minus_instr_fields [OF m] and bl = minus_instr_block [OF m]
  have k: "has_asm c k" "asm_output (inline_assembly c ! k) = Some i" "asm_block (inline_assembly c ! k) = Some b"
    using asms_okD(1) [OF ok i(1,2)] i(3,4) by auto
  then have kl: "k < length (inline_assembly c)" by (simp add: has_asm_def)
  have ch: "asm.chained c' b' ks = asm.chained c b' ks" for b' ks
    by (simp add: asm.chained_def bl f)
  have un: "\<exists>c''. unlink_asm c' b k = Inr c'' \<and> asm.chained c'' b (removeAll k ks) \<and>
      (\<forall>b' ys. b' \<noteq> b \<longrightarrow> set ys \<inter> set ks = {} \<longrightarrow> asm.chained c b' ys \<longrightarrow> asm.chained c'' b' ys)"
    if ks: "asm.chained c b ks" "set ks = {k. has_asm c k \<and> asm_block (inline_assembly c ! k) = Some b}" for ks
  proof -
    have "\<forall>j\<in>set ks. has_asm c' j" using ks(2) by (auto simp: f has_asm_def)
    moreover have "k \<in> set ks" using ks(2) k kl by (auto simp: has_asm_def)
    ultimately show ?thesis
      using asm.unlink_chained [of c' b ks k] ks(1) b f(9) unfolding ch by auto
  qed
  obtain ks where ks: "asm.chained c b ks" "set ks = {k. has_asm c k \<and> asm_block (inline_assembly c ! k) = Some b}"
    using asms_okD(3) [OF ok b] by blast
  then obtain c'' where c'': "unlink_asm c' b k = Inr c''" using un by blast
  have b': "has_block c' b" using b f(9) by simp
  note form = unlink_asm_form [OF c'' b']
  have hb: "has_block c'' = has_block c" "live c'' = live c'"
    using f(9) by (auto simp: has_block_def live_def form fun_eq_iff)
  have hn: "has_asm c'' = has_asm c" by (simp add: has_asm_def form f fun_eq_iff)
  have chain: "asm.chained c'' b' (removeAll k ks')" if a: "has_block c b'" "asm.chained c b' ks'"
      "set ks' = {k. has_asm c k \<and> asm_block (inline_assembly c ! k) = Some b'}" for b' ks'
  proof (cases "b' = b")
    case True
    then show ?thesis using un [of ks'] a c'' by auto
  next
    case False
    then have "k \<notin> set ks'" "set ks' \<inter> set ks = {}" unfolding a(3) ks(2) using k(3) by auto
    then show ?thesis using un [OF ks] a(2) c'' False by auto
  qed
  have "nodes_ok (live c'') (\<lambda>i. opcode (operation (code c ! i)) = OPC_INLINE_ASSEMBLY) (\<lambda>i. inline_asm_ref (operation (code c ! i)))
      (\<lambda>i. instr_block (code c' ! i)) (\<lambda>k. has_asm c k) (\<lambda>k. asm_output (inline_assembly c'' ! k))
      (\<lambda>k. asm_block (inline_assembly c'' ! k)) (has_block c) (asm.chained c'')"
  proof (rule nodes_ok_remove [where i = i and k = k and lv = "live c" and ib = "\<lambda>i. instr_block (code c ! i)" and
        ch = "asm.chained c" and outp = "\<lambda>k. asm_output (inline_assembly c ! k)" and nb = "\<lambda>k. asm_block (inline_assembly c ! k)"])
    show "asm_block (inline_assembly c'' ! j) = (if j = k then None else asm_block (inline_assembly c ! j))" for j
      using kl by (simp add: form f nth_upd_opt)
    show "asm_output (inline_assembly c'' ! j) = asm_output (inline_assembly c ! j)" for j
      by (simp add: form f nth_upd_opt)
    show "live c'' j \<longleftrightarrow> live c j \<and> j \<noteq> i" for j using hb f(13) by simp
  qed (use ok asms_ok_nodes i chain f(5) in auto)
  then show ?thesis
    using c'' ok by (intro exI [of _ c'']) (simp add: asms_ok_nodes form f hb hn)
qed

section \<open>What unlinking a node leaves alone\<close>

lemma lists_ok_frame:
  assumes "code c' = code c" "length (blocks c') = length (blocks c)"
    and "\<And>b. content_head (blocks c' ! b) = content_head (blocks c ! b)" "\<And>b. content_tail (blocks c' ! b) = content_tail (blocks c ! b)"
    and "\<And>b. control_head (blocks c' ! b) = control_head (blocks c ! b)" "\<And>b. control_tail (blocks c' ! b) = control_tail (blocks c ! b)"
    and "\<And>b. block_key (blocks c' ! b) = block_key (blocks c ! b)"
  shows "lists_ok c' L C = lists_ok c L C"
  by (simp add: lists_ok_def has_block_def content.chained_def control.chained_def assms)

lemma phis_ok_frame:
  assumes "code c' = code c" "length (blocks c') = length (blocks c)" "phi_nodes c' = phi_nodes c"
    and "\<And>b. phi_head (blocks c' ! b) = phi_head (blocks c ! b)" "\<And>b. phi_tail (blocks c' ! b) = phi_tail (blocks c ! b)"
  shows "phis_ok c' = phis_ok c"
  by (simp add: phis_ok_def has_block_def live_def live_phi_def phi.chained_def assms)

lemma calls_ok_frame:
  assumes "code c' = code c" "length (blocks c') = length (blocks c)" "call_nodes c' = call_nodes c"
    and "\<And>b. call_head (blocks c' ! b) = call_head (blocks c ! b)" "\<And>b. call_tail (blocks c' ! b) = call_tail (blocks c ! b)"
  shows "calls_ok c' = calls_ok c"
  by (simp add: calls_ok_def has_block_def live_def has_call_def call.chained_def assms)

lemma asms_ok_frame:
  assumes "code c' = code c" "length (blocks c') = length (blocks c)" "inline_assembly c' = inline_assembly c"
    and "\<And>b. asm_head (blocks c' ! b) = asm_head (blocks c ! b)" "\<And>b. asm_tail (blocks c' ! b) = asm_tail (blocks c ! b)"
  shows "asms_ok c' = asms_ok c"
  by (simp add: asms_ok_def has_block_def live_def has_asm_def asm.chained_def assms)

lemma unlink_phi_frame:
  assumes "unlink_phi c b k = Inr c'" "has_block c b"
  shows "lists_ok c' L C = lists_ok c L C" "calls_ok c' = calls_ok c" "asms_ok c' = asms_ok c"
proof -
  note form = unlink_phi_form [OF assms]
  show "lists_ok c' L C = lists_ok c L C" by (rule lists_ok_frame) (simp_all add: form nth_update)
  show "calls_ok c' = calls_ok c" by (rule calls_ok_frame) (simp_all add: form nth_update)
  show "asms_ok c' = asms_ok c" by (rule asms_ok_frame) (simp_all add: form nth_update)
qed

lemma unlink_call_frame:
  assumes "unlink_call c b k = Inr c'" "has_block c b"
  shows "lists_ok c' L C = lists_ok c L C" "phis_ok c' = phis_ok c" "asms_ok c' = asms_ok c"
proof -
  note form = unlink_call_form [OF assms]
  show "lists_ok c' L C = lists_ok c L C" by (rule lists_ok_frame) (simp_all add: form nth_update)
  show "phis_ok c' = phis_ok c" by (rule phis_ok_frame) (simp_all add: form nth_update)
  show "asms_ok c' = asms_ok c" by (rule asms_ok_frame) (simp_all add: form nth_update)
qed

lemma unlink_asm_frame:
  assumes "unlink_asm c b k = Inr c'" "has_block c b"
  shows "lists_ok c' L C = lists_ok c L C" "phis_ok c' = phis_ok c" "calls_ok c' = calls_ok c"
proof -
  note form = unlink_asm_form [OF assms]
  show "lists_ok c' L C = lists_ok c L C" by (rule lists_ok_frame) (simp_all add: form nth_update)
  show "phis_ok c' = phis_ok c" by (rule phis_ok_frame) (simp_all add: form nth_update)
  show "calls_ok c' = calls_ok c" by (rule calls_ok_frame) (simp_all add: form nth_update)
qed

section \<open>Dropping the node\<close>

text \<open>All operands of the node of an instruction are set.\<close>

definition node_complete :: "opt_code \<Rightarrow> nat \<Rightarrow> bool" where
  "node_complete c i \<longleftrightarrow> (let op = operation (code c ! i) in
     (opcode op = OPC_PHI \<longrightarrow> None \<notin> set (map snd (links (phi_nodes c ! the (phi_ref op))))) \<and>
     (is_call (opcode op) \<longrightarrow> None \<notin> set (arguments (call_nodes c ! the (call_ref op)))))"

text \<open>The outcome of \<open>drop_node\<close> on a container that the instruction has left.\<close>

definition node_dropped :: "opt_code \<Rightarrow> opt_code \<Rightarrow> opt_code \<Rightarrow> nat \<Rightarrow> ref list \<Rightarrow> bool" where
  "node_dropped c c' c'' i rs \<longleftrightarrow> live c'' = live c' \<and>
     (\<forall>j. operation (code c'' ! j) = operation (code c ! j)) \<and>
     (\<forall>u. live c u \<longrightarrow> u \<noteq> i \<longrightarrow> inputs c'' u = inputs c u \<and> node_complete c'' u = node_complete c u) \<and>
     (\<forall>j. live c j \<longrightarrow> j \<noteq> i \<longrightarrow> uses (code c'' ! j) =
        (if Some j \<in> set rs then uses_delete i (uses (code c' ! j)) else uses (code c' ! j)))"

lemma node_droppedI:
  assumes m: "minus_instr c c' i" and ls: "lists_ok c L C" and parts: "phis_ok c" "calls_ok c" "asms_ok c" "inputs_defined c"
    and c1: "code c1 = code c'" and uo: "uses_only c1 c''"
    and us: "\<And>j. uses (code c'' ! j) = (if Some j \<in> set rs \<and> live c1 j then uses_delete i (uses (code c1 ! j)) else uses (code c1 ! j))"
    and ph: "\<And>k. phi_output (phi_nodes c ! k) \<noteq> Some i \<Longrightarrow> live_phi c k \<Longrightarrow> live_phi c1 k \<and> links (phi_nodes c1 ! k) = links (phi_nodes c ! k)"
    and ca: "\<And>k. has_call c k \<Longrightarrow> has_call c1 k \<and> arguments (call_nodes c1 ! k) = arguments (call_nodes c ! k) \<and>
        return_space (call_nodes c1 ! k) = return_space (call_nodes c ! k)"
    and as: "\<And>k. has_asm c k \<Longrightarrow> has_asm c1 k \<and> asm_parameters (inline_assembly c1 ! k) = asm_parameters (inline_assembly c ! k)"
  shows "node_dropped c c' c'' i rs"
proof -
  note f = minus_instr_fields [OF m] and u = uses_only_fields [OF uo]
  have lv: "live c1 = live c'" "live c'' = live c'"
    using uses_only_live [OF uo] c1 by (simp_all add: live_def fun_eq_iff)
  have op: "operation (code c'' ! j) = operation (code c ! j)" for j by (simp add: u c1 f(3))
  have nd: "live_phi c'' = live_phi c1" "has_call c'' = has_call c1" "has_asm c'' = has_asm c1"
      "phi_nodes c'' = phi_nodes c1" "call_nodes c'' = call_nodes c1" "inline_assembly c'' = inline_assembly c1"
    using uo by (simp_all add: uses_only_def live_phi_def has_call_def has_asm_def fun_eq_iff)
  have "inputs c'' v = inputs c v" if v: "live c v" "v \<noteq> i" for v
  proof (rule inputs_at)
    have vl: "v < length (code c)" using v by (simp add: live_def)
    show "op_ok (operation (code c ! v))" using inputs_definedD(1) [OF parts(4) v(1)] .
    show "instr_id (code c ! v) = v" "instr_id (code c'' ! v) = v"
      using lists_okD(6) [OF ls vl] by (simp_all add: u c1 f(4))
    show "live c v" "live c'' v" using v f(13) lv by auto
    show "operation (code c'' ! v) = operation (code c ! v)" by (rule op)
    show "\<exists>k. phi_ref (operation (code c ! v)) = Some k \<and> live_phi c k \<and> live_phi c'' k \<and>
        map snd (links (phi_nodes c'' ! k)) = map snd (links (phi_nodes c ! k))"
      if a: "opcode (operation (code c ! v)) = OPC_PHI"
    proof -
      obtain k where k: "phi_ref (operation (code c ! v)) = Some k" "live_phi c k" "phi_output (phi_nodes c ! k) = Some v"
        using phis_okD(1) [OF parts(1) v(1) a] by blast
      then show ?thesis using ph [of k] v(2) nd by (intro exI [of _ k]) simp
    qed
    show "\<exists>k. call_ref (operation (code c ! v)) = Some k \<and> has_call c k \<and> has_call c'' k \<and>
        arguments (call_nodes c'' ! k) = arguments (call_nodes c ! k) \<and>
        return_space (call_nodes c'' ! k) = return_space (call_nodes c ! k)"
      if "is_call (opcode (operation (code c ! v)))"
      using calls_okD(1) [OF parts(2) v(1) that] ca nd by auto
    show "\<exists>k. inline_asm_ref (operation (code c ! v)) = Some k \<and> has_asm c k \<and> has_asm c'' k \<and>
        asm_parameters (inline_assembly c'' ! k) = asm_parameters (inline_assembly c ! k)"
      if "opcode (operation (code c ! v)) = OPC_INLINE_ASSEMBLY"
      using asms_okD(1) [OF parts(3) v(1) that] as nd by auto
  qed
  moreover have "node_complete c'' v = node_complete c v" if v: "live c v" "v \<noteq> i" for v
  proof -
    have "links (phi_nodes c'' ! the (phi_ref (operation (code c ! v)))) = links (phi_nodes c ! the (phi_ref (operation (code c ! v))))"
      if a: "opcode (operation (code c ! v)) = OPC_PHI"
      using phis_okD(1) [OF parts(1) v(1) a] ph v(2) nd by auto
    moreover have "arguments (call_nodes c'' ! the (call_ref (operation (code c ! v)))) =
        arguments (call_nodes c ! the (call_ref (operation (code c ! v))))" if a: "is_call (opcode (operation (code c ! v)))"
      using calls_okD(1) [OF parts(2) v(1) a] ca nd by auto
    ultimately show ?thesis by (auto simp: node_complete_def op)
  qed
  ultimately show ?thesis
    using lv op us c1 f(13) by (auto simp: node_dropped_def)
qed

lemma for_each_ref_append:
  "for_each_ref f c (xs @ ys) = bindE (for_each_ref f c xs) (\<lambda>c. for_each_ref f c ys)"
proof (induction xs arbitrary: c)
  case (Cons x xs)
  then show ?case by (cases "f c x") auto
qed simp

text \<open>The operands a node holds, in the order in which dropping the node visits them.\<close>

abbreviation phi_operands :: "opt_code \<Rightarrow> nat \<Rightarrow> ref list" where
  "phi_operands c k \<equiv> map snd (links (phi_nodes c ! k))"

abbreviation call_operands :: "opt_code \<Rightarrow> nat \<Rightarrow> ref list" where
  "call_operands c k \<equiv> arguments (call_nodes c ! k) @ filter (\<lambda>r. r \<noteq> None) [return_space (call_nodes c ! k)]"

abbreviation asm_operands :: "opt_code \<Rightarrow> nat \<Rightarrow> ref list" where
  "asm_operands c k \<equiv>
     filter (\<lambda>r. r \<noteq> None) (concat (map (\<lambda>p. [location_ref p, value_ref p]) (asm_parameters (inline_assembly c ! k))))"

lemma drop_phi_effect:
  assumes m: "minus_instr c c' i" and ls: "lists_ok c L C" "lists_ok c' L' C"
    and parts: "phis_ok c" "calls_ok c" "asms_ok c" "inputs_defined c"
    and i: "live c i" "opcode (operation (code c ! i)) = OPC_PHI" "phi_ref (operation (code c ! i)) = Some k"
    and rs: "\<forall>r \<in> set (phi_operands c k). \<exists>j. r = Some j \<and> j < length (code c)"
  shows "\<exists>c''. drop_node c' (operation (code c ! i)) = Inr c'' \<and> lists_ok c'' L' C \<and> phis_ok c'' \<and> calls_ok c'' \<and>
    asms_ok c'' \<and> node_dropped c c' c'' i (phi_operands c k)"
proof -
  note f = minus_instr_fields [OF m]
  obtain b where b: "instr_block (code c ! i) = Some b" "has_block c b"
    using i(1) lists_okD(8) [OF ls(1)] by (auto simp: live_def)
  have k: "live_phi c k" "phi_output (phi_nodes c ! k) = Some i" "phi_block (phi_nodes c ! k) = Some b"
    using phis_okD(1) [OF parts(1) i(1,2)] i(3) b(1) by auto
  have b': "has_block c' b" using b(2) f(9) by simp
  obtain c1 where c1: "unlink_phi c' b k = Inr c1" "phis_ok c1"
    using unlink_phi_nodes [OF parts(1) m i b] by blast
  note form = unlink_phi_form [OF c1(1) b'] and fr = unlink_phi_frame [OF c1(1) b']
  have node: "links (phi_nodes c1 ! k) = links (phi_nodes c ! k)" "phi_output (phi_nodes c1 ! k) = phi_output (phi_nodes c ! k)"
    by (simp_all add: form f nth_upd_opt)
  have "\<forall>r \<in> set (phi_operands c k). \<exists>j. r = Some j \<and> j < length (code c1)"
    using rs by (simp add: form f)
  from for_each_drop [OF this, of i] obtain c'' where
    c'': "for_each_ref (\<lambda>c r. drop_uses_callback c i r) c1 (phi_operands c k) = Inr c''" "uses_only c1 c''"
      "\<And>j. uses (code c'' ! j) = (if Some j \<in> set (phi_operands c k) \<and> live c1 j
          then uses_delete i (uses (code c1 ! j)) else uses (code c1 ! j))"
    by blast
  have d: "output_dropped c' (Some i)" using i(1) by (simp add: output_dropped_def f)
  have "drop_node c' (operation (code c ! i)) = Inr c''"
    using i c1 c'' k b' d by (simp add: drop_node_def kefir_opt_code_container_drop_phi_def f node)
  moreover have "node_dropped c c' c'' i (phi_operands c k)"
  proof (rule node_droppedI [OF m ls(1) parts _ c''(2,3)])
    show "live_phi c1 j \<and> links (phi_nodes c1 ! j) = links (phi_nodes c ! j)"
      if "phi_output (phi_nodes c ! j) \<noteq> Some i" "live_phi c j" for j
      using that k by (auto simp: live_phi_def form f nth_upd_opt)
  qed (auto simp: form f has_call_def has_asm_def nth_upd_opt)
  ultimately show ?thesis
    using uses_only_structure [OF c''(2)] c1(2) fr ls(2) minus_calls [OF m parts(2)] minus_asms [OF m parts(3)] i(2) by (auto simp: is_call_def)
qed

lemma drop_call_effect:
  assumes m: "minus_instr c c' i" and ls: "lists_ok c L C" "lists_ok c' L' C"
    and parts: "phis_ok c" "calls_ok c" "asms_ok c" "inputs_defined c"
    and i: "live c i" "is_call (opcode (operation (code c ! i)))" "call_ref (operation (code c ! i)) = Some k"
    and rs: "\<forall>r \<in> set (call_operands c k). \<exists>j. r = Some j \<and> j < length (code c)"
  shows "\<exists>c''. drop_node c' (operation (code c ! i)) = Inr c'' \<and> lists_ok c'' L' C \<and> phis_ok c'' \<and> calls_ok c'' \<and>
    asms_ok c'' \<and> node_dropped c c' c'' i (call_operands c k)"
proof -
  note f = minus_instr_fields [OF m]
  obtain b where b: "instr_block (code c ! i) = Some b" "has_block c b"
    using i(1) lists_okD(8) [OF ls(1)] by (auto simp: live_def)
  have k: "has_call c k" "call_output (call_nodes c ! k) = Some i" "call_block (call_nodes c ! k) = Some b"
    using calls_okD(1) [OF parts(2) i(1,2)] i(3) b(1) by auto
  have b': "has_block c' b" using b(2) f(9) by simp
  obtain c1 where c1: "unlink_call c' b k = Inr c1" "calls_ok c1"
    using unlink_call_nodes [OF parts(2) m i b] by blast
  note form = unlink_call_form [OF c1(1) b'] and fr = unlink_call_frame [OF c1(1) b']
  have node: "arguments (call_nodes c1 ! k) = arguments (call_nodes c ! k)"
      "call_output (call_nodes c1 ! k) = call_output (call_nodes c ! k)"
      "return_space (call_nodes c1 ! k) = return_space (call_nodes c ! k)"
    by (simp_all add: form f nth_upd_opt)
  have "\<forall>r \<in> set (call_operands c k). \<exists>j. r = Some j \<and> j < length (code c1)"
    using rs by (simp add: form f)
  from for_each_drop [OF this, of i] obtain c'' where
    c'': "for_each_ref (\<lambda>c r. drop_uses_callback c i r) c1 (call_operands c k) = Inr c''" "uses_only c1 c''"
      "\<And>j. uses (code c'' ! j) = (if Some j \<in> set (call_operands c k) \<and> live c1 j
          then uses_delete i (uses (code c1 ! j)) else uses (code c1 ! j))"
    by blast
  have d: "output_dropped c' (Some i)" using i(1) by (simp add: output_dropped_def f)
  have "\<forall>r \<in> set (arguments (call_nodes c ! k)). \<exists>j. r = Some j \<and> j < length (code c1)"
    using rs by (auto simp: form f)
  from for_each_drop [OF this, of i] obtain c2 where
    c2: "for_each_ref (\<lambda>c r. drop_uses_callback c i r) c1 (arguments (call_nodes c ! k)) = Inr c2" "uses_only c1 c2"
    by blast
  have n2: "call_nodes c2 = call_nodes c1" using c2(2) by (simp add: uses_only_def)
  have np: "opcode (operation (code c ! i)) \<noteq> OPC_PHI" "opcode (operation (code c ! i)) \<noteq> OPC_INLINE_ASSEMBLY"
    using i(2) by (auto simp: is_call_def)
  have "drop_node c' (operation (code c ! i)) = Inr c''"
    using i c1 c''(1) c2(1) k b' d np
    by (simp add: drop_node_def kefir_opt_code_container_drop_call_def f node n2 for_each_ref_append split: if_splits)
  moreover have "node_dropped c c' c'' i (call_operands c k)"
  proof (rule node_droppedI [OF m ls(1) parts _ c''(2,3)])
    show "live_phi c1 j \<and> links (phi_nodes c1 ! j) = links (phi_nodes c ! j)"
      if "phi_output (phi_nodes c ! j) \<noteq> Some i" "live_phi c j" for j
      using that k by (auto simp: live_phi_def form f nth_upd_opt)
  qed (auto simp: form f has_call_def has_asm_def nth_upd_opt)
  ultimately show ?thesis
    using np uses_only_structure [OF c''(2)] c1(2) fr ls(2) minus_phis [OF m parts(1)] minus_asms [OF m parts(3)] i(2) by (auto simp: is_call_def)
qed

lemma drop_asm_effect:
  assumes m: "minus_instr c c' i" and ls: "lists_ok c L C" "lists_ok c' L' C"
    and parts: "phis_ok c" "calls_ok c" "asms_ok c" "inputs_defined c"
    and i: "live c i" "opcode (operation (code c ! i)) = OPC_INLINE_ASSEMBLY" "inline_asm_ref (operation (code c ! i)) = Some k"
    and rs: "\<forall>r \<in> set (asm_operands c k). \<exists>j. r = Some j \<and> j < length (code c)"
  shows "\<exists>c''. drop_node c' (operation (code c ! i)) = Inr c'' \<and> lists_ok c'' L' C \<and> phis_ok c'' \<and> calls_ok c'' \<and>
    asms_ok c'' \<and> node_dropped c c' c'' i (asm_operands c k)"
proof -
  note f = minus_instr_fields [OF m]
  obtain b where b: "instr_block (code c ! i) = Some b" "has_block c b"
    using i(1) lists_okD(8) [OF ls(1)] by (auto simp: live_def)
  have k: "has_asm c k" "asm_output (inline_assembly c ! k) = Some i" "asm_block (inline_assembly c ! k) = Some b"
    using asms_okD(1) [OF parts(3) i(1,2)] i(3) b(1) by auto
  have b': "has_block c' b" using b(2) f(9) by simp
  obtain c1 where c1: "unlink_asm c' b k = Inr c1" "asms_ok c1"
    using unlink_asm_nodes [OF parts(3) m i b] by blast
  note form = unlink_asm_form [OF c1(1) b'] and fr = unlink_asm_frame [OF c1(1) b']
  have node: "asm_parameters (inline_assembly c1 ! k) = asm_parameters (inline_assembly c ! k)"
      "asm_output (inline_assembly c1 ! k) = asm_output (inline_assembly c ! k)"
    by (simp_all add: form f nth_upd_opt)
  have "\<forall>r \<in> set (asm_operands c k). \<exists>j. r = Some j \<and> j < length (code c1)"
    using rs by (simp add: form f)
  from for_each_drop [OF this, of i] obtain c'' where
    c'': "for_each_ref (\<lambda>c r. drop_uses_callback c i r) c1 (asm_operands c k) = Inr c''" "uses_only c1 c''"
      "\<And>j. uses (code c'' ! j) = (if Some j \<in> set (asm_operands c k) \<and> live c1 j
          then uses_delete i (uses (code c1 ! j)) else uses (code c1 ! j))"
    by blast
  have d: "output_dropped c' (Some i)" using i(1) by (simp add: output_dropped_def f)
  have "drop_node c' (operation (code c ! i)) = Inr c''"
    using i c1 c'' k b' d by (simp add: drop_node_def kefir_opt_code_container_drop_inline_asm_def f node is_call_def)
  moreover have "node_dropped c c' c'' i (asm_operands c k)"
  proof (rule node_droppedI [OF m ls(1) parts _ c''(2,3)])
    show "live_phi c1 j \<and> links (phi_nodes c1 ! j) = links (phi_nodes c ! j)"
      if "phi_output (phi_nodes c ! j) \<noteq> Some i" "live_phi c j" for j
      using that k by (auto simp: live_phi_def form f nth_upd_opt)
  qed (auto simp: form f has_call_def has_asm_def nth_upd_opt)
  ultimately show ?thesis
    using uses_only_structure [OF c''(2)] c1(2) fr ls(2) minus_phis [OF m parts(1)] minus_calls [OF m parts(2)] i(2) by (auto simp: is_call_def)
qed

section \<open>Dropping the instruction\<close>

lemma inputs_phi:
  assumes "live c i" "instr_id (code c ! i) = i" "opcode (operation (code c ! i)) = OPC_PHI"
    "phi_ref (operation (code c ! i)) = Some k" "live_phi c k"
  shows "inputs c i = Inr (filter (\<lambda>r. r \<noteq> None) (phi_operands c k))"
  using assms by (simp add: inputs_def kefir_opt_instruction_extract_inputs_def extract_inputs_phi_ref_def phi_link_values_def)

lemma is_call_class: "is_call opc \<Longrightarrow> opcode_class_of opc = Class_call_ref"
  by (auto simp: is_call_def)

lemma inputs_call:
  assumes "is_call (opcode (operation (code c ! i)))" "call_ref (operation (code c ! i)) = Some k" "has_call c k"
  shows "inputs c i = Inr (filter (\<lambda>r. r \<noteq> None)
    (indirect_ref (operation (code c ! i)) # arguments (call_nodes c ! k) @ [return_space (call_nodes c ! k)]))"
  using assms by (simp add: inputs_def kefir_opt_instruction_extract_inputs_def extract_inputs_call_ref_def is_call_class)

lemma inputs_asm:
  assumes "opcode (operation (code c ! i)) = OPC_INLINE_ASSEMBLY" "inline_asm_ref (operation (code c ! i)) = Some k" "has_asm c k"
  shows "inputs c i = Inr (filter (\<lambda>r. r \<noteq> None)
    (concat (map (\<lambda>p. [value_ref p, location_ref p]) (asm_parameters (inline_assembly c ! k)))))"
  using assms by (simp add: inputs_def kefir_opt_instruction_extract_inputs_def extract_inputs_inline_asm_def)

lemma inputs_in_range:
  assumes "inputs_defined c" "live c i" "inputs c i = Inr rs" "r \<in> set rs" "r \<noteq> None"
  shows "\<exists>j. r = Some j \<and> j < length (code c)"
  using assms unfolding inputs_defined_def by fastforce

lemma drop_node_effect:
  assumes m: "minus_instr c c' i" and ls: "lists_ok c L C" "lists_ok c' L' C"
    and parts: "phis_ok c" "calls_ok c" "asms_ok c" "inputs_defined c"
    and i: "live c i" "node_complete c i"
  shows "\<exists>c'' rs. drop_node c' (operation (code c ! i)) = Inr c'' \<and> lists_ok c'' L' C \<and> phis_ok c'' \<and> calls_ok c'' \<and>
    asms_ok c'' \<and> node_dropped c c' c'' i rs \<and> (\<forall>j. Some j \<in> set rs \<longrightarrow> has_input c i j) \<and>
    (opcode (operation (code c ! i)) = OPC_PHI \<longrightarrow> (\<forall>j. has_input c i j \<longrightarrow> Some j \<in> set rs))"
proof -
  let ?op = "operation (code c ! i)"
  have il: "i < length (code c)" using i(1) by (simp add: live_def)
  note rng = inputs_in_range [OF parts(4) i(1)]
  consider (phi) "opcode ?op = OPC_PHI" | (call) "is_call (opcode ?op)" | (asm) "opcode ?op = OPC_INLINE_ASSEMBLY"
    | (plain) "opcode ?op \<noteq> OPC_PHI" "\<not> is_call (opcode ?op)" "opcode ?op \<noteq> OPC_INLINE_ASSEMBLY" by blast
  then show ?thesis
  proof cases
    case phi
    then obtain k where k: "phi_ref ?op = Some k" "live_phi c k" using phis_okD(1) [OF parts(1) i(1)] by blast
    have inp: "inputs c i = Inr (filter (\<lambda>r. r \<noteq> None) (phi_operands c k))"
      using inputs_phi [OF i(1) lists_okD(6) [OF ls(1) il] phi k] .
    have nn: "None \<notin> set (phi_operands c k)" using i(2) phi k(1) by (auto simp: node_complete_def Let_def)
    have "\<forall>r \<in> set (phi_operands c k). \<exists>j. r = Some j \<and> j < length (code c)"
    proof
      fix r assume r: "r \<in> set (phi_operands c k)"
      then have "r \<noteq> None" using nn by metis
      with r show "\<exists>j. r = Some j \<and> j < length (code c)" using rng [OF inp, of r] by (auto simp del: set_map)
    qed
    from drop_phi_effect [OF m ls parts i(1) phi k(1) this] show ?thesis
      using inp by (fastforce simp: has_input_def simp del: set_map)
  next
    case call
    then obtain k where k: "call_ref ?op = Some k" "has_call c k" using calls_okD(1) [OF parts(2) i(1)] by blast
    note inp = inputs_call [OF call k]
    have nn: "None \<notin> set (call_operands c k)" using i(2) call k(1) by (auto simp: node_complete_def Let_def)
    have "\<forall>r \<in> set (call_operands c k). \<exists>j. r = Some j \<and> j < length (code c)"
    proof
      fix r assume r: "r \<in> set (call_operands c k)"
      then have "r \<noteq> None" using nn by metis
      with r show "\<exists>j. r = Some j \<and> j < length (code c)" using rng [OF inp, of r] by (auto simp del: set_map)
    qed
    from drop_call_effect [OF m ls parts i(1) call k(1) this] show ?thesis
      using inp call by (fastforce simp: has_input_def is_call_def)
  next
    case asm
    then obtain k where k: "inline_asm_ref ?op = Some k" "has_asm c k" using asms_okD(1) [OF parts(3) i(1)] by blast
    note inp = inputs_asm [OF asm k]
    have "\<forall>r \<in> set (asm_operands c k). \<exists>j. r = Some j \<and> j < length (code c)"
      using rng [OF inp] by auto
    from drop_asm_effect [OF m ls parts i(1) asm k(1) this] show ?thesis
      using inp asm by (fastforce simp: has_input_def)
  next
    case plain
    have "node_dropped c c' c' i []"
      by (rule node_droppedI [OF m ls(1) parts refl uses_only_refl]) (auto simp: minus_instr_fields [OF m])
    then show ?thesis
      using plain ls(2) minus_phis [OF m parts(1)] minus_calls [OF m parts(2)] minus_asms [OF m parts(3)]
      by (intro exI [of _ c'] exI [of _ "[]"]) (simp add: drop_node_def)
  qed
qed

lemma inputs_resolve_phi:
  assumes "inputs c i = Inr rs" "op_ok (operation (code c ! i))"
  shows "kefir_opt_instruction_extract_inputs c (code c ! i) True =
    Inr (if opcode (operation (code c ! i)) = OPC_PHI then [] else rs)"
proof (cases "opcode (operation (code c ! i)) = OPC_PHI")
  case True
  then show ?thesis by (simp add: kefir_opt_instruction_extract_inputs_def extract_inputs_phi_ref_def)
next
  case False
  then have "opcode_class_of (opcode (operation (code c ! i))) \<noteq> Class_phi_ref"
    using op_ok_class [OF assms(2)] by simp
  then have "extract_inputs_class (opcode_class_of (opcode (operation (code c ! i)))) c (code c ! i) True =
      extract_inputs_class (opcode_class_of (opcode (operation (code c ! i)))) c (code c ! i) False"
    by (cases "opcode_class_of (opcode (operation (code c ! i)))") simp_all
  then show ?thesis using assms(1) False by (simp add: inputs_def kefir_opt_instruction_extract_inputs_def)
qed

lemma drop_used_effect:
  assumes ls: "lists_ok c L C" and io: "inputs_defined c" and i: "live c i"
  shows "\<exists>c' rs. drop_used_instructions c i = Inr c' \<and> uses_only c c' \<and>
    (\<forall>j. live c j \<longrightarrow> uses (code c' ! j) = (if Some j \<in> set rs then uses_delete i (uses (code c ! j)) else uses (code c ! j))) \<and>
    (\<forall>j. Some j \<in> set rs \<longrightarrow> has_input c i j) \<and>
    (opcode (operation (code c ! i)) \<noteq> OPC_PHI \<longrightarrow> (\<forall>j. has_input c i j \<longrightarrow> Some j \<in> set rs))"
proof -
  obtain rs where rs: "inputs c i = Inr rs" using inputs_definedD(2) [OF io i] by blast
  have nn: "None \<notin> set rs"
    using rs by (auto simp: inputs_def kefir_opt_instruction_extract_inputs_def bindE_iffs)
  define rs' where "rs' = (if opcode (operation (code c ! i)) = OPC_PHI then [] else rs)"
  have ex: "kefir_opt_instruction_extract_inputs c (code c ! i) True = Inr rs'"
    using inputs_resolve_phi [OF rs inputs_definedD(1) [OF io i]] by (simp add: rs'_def)
  have "\<forall>r \<in> set rs'. \<exists>j. r = Some j \<and> j < length (code c)"
    using inputs_in_range [OF io i rs] nn unfolding rs'_def by (metis empty_iff list.set(1))
  from for_each_drop [OF this, of i] obtain c' where
    c': "for_each_ref (\<lambda>c r. drop_uses_callback c i r) c rs' = Inr c'" "uses_only c c'"
      "\<And>j. uses (code c' ! j) = (if Some j \<in> set rs' \<and> live c j then uses_delete i (uses (code c ! j)) else uses (code c ! j))"
    by blast
  have "drop_used_instructions c i = Inr c'"
    using i ex c'(1) by (simp add: drop_used_instructions_def)
  then show ?thesis
    using c' rs by (intro exI [of _ c'] exI [of _ rs']) (auto simp: rs'_def has_input_def)
qed

section \<open>The sizes of the arrays\<close>

definition same_size :: "opt_code \<Rightarrow> opt_code \<Rightarrow> bool" where
  "same_size c c' \<longleftrightarrow> length (code c') = length (code c) \<and> length (blocks c') = length (blocks c)"

lemma same_size_for_each:
  assumes "\<And>c r c'. f c r = Inr c' \<Longrightarrow> same_size c c'"
  shows "for_each_ref f c rs = Inr c' \<Longrightarrow> same_size c c'"
proof (induction rs arbitrary: c)
  case (Cons r rs)
  then obtain d where "f c r = Inr d" "for_each_ref f d rs = Inr c'" by (auto simp: bindE_iffs)
  then show ?case using assms [of c r d] Cons.IH [of d] by (simp add: same_size_def)
qed (simp add: same_size_def)

lemma same_size_drop_uses: "drop_uses_callback c u r = Inr c' \<Longrightarrow> same_size c c'"
  by (auto simp: drop_uses_callback_def remove_used_instructions_def same_size_def bindE_iffs split: sum.splits if_splits)

lemma same_size_drops: "for_each_ref (\<lambda>c'. drop_uses_callback c' u) c rs = Inr c' \<Longrightarrow> same_size c c'"
  using same_size_for_each [of "\<lambda>c'. drop_uses_callback c' u" c rs c'] same_size_drop_uses by blast

lemma same_size_trans: "same_size c d \<Longrightarrow> same_size d e \<Longrightarrow> same_size c e"
  by (simp add: same_size_def)

lemma same_size_unlink:
  "unlink_phi c b k = Inr d \<Longrightarrow> has_block c b \<Longrightarrow> same_size c d"
  "unlink_call c b k = Inr d \<Longrightarrow> has_block c b \<Longrightarrow> same_size c d"
  "unlink_asm c b k = Inr d \<Longrightarrow> has_block c b \<Longrightarrow> same_size c d"
  using unlink_phi_form(1,3) unlink_call_form(1,3) unlink_asm_form(1,3) by (simp_all add: same_size_def)

lemma same_size_drop_phi:
  assumes "kefir_opt_code_container_drop_phi c r = Inr c'" shows "same_size c c'"
proof -
  obtain b k d where "unlink_phi c b k = Inr d" "has_block c b"
      "for_each_ref (\<lambda>c'. drop_uses_callback c' (ref_id (phi_output (phi_nodes d ! k)))) d (map snd (links (phi_nodes d ! k))) = Inr c'"
    using assms by (auto simp: kefir_opt_code_container_drop_phi_def bindE_iffs)
  then show ?thesis using same_size_unlink(1) same_size_drops same_size_trans by blast
qed

lemma same_size_drop_call:
  assumes "kefir_opt_code_container_drop_call c r = Inr c'" shows "same_size c c'"
  using assms
  by (auto simp: kefir_opt_code_container_drop_call_def bindE_iffs dest!: same_size_drops same_size_unlink(2))
     (auto simp: same_size_def)

lemma same_size_drop_asm:
  assumes "kefir_opt_code_container_drop_inline_asm c r = Inr c'" shows "same_size c c'"
  using assms
  by (auto simp: kefir_opt_code_container_drop_inline_asm_def bindE_iffs dest!: same_size_drops same_size_unlink(3))
     (auto simp: same_size_def)

lemma same_size_drop_node: "drop_node c op = Inr c' \<Longrightarrow> same_size c c'"
  using same_size_drop_phi same_size_drop_call same_size_drop_asm
  by (auto simp: drop_node_def same_size_def split: if_splits)

text \<open>
  The general form, for a container in which only the inputs of the instructions in \<open>A\<close> are known to be present: none
  of these may have the dropped instruction as an input, whose own set of users is not looked at.
\<close>

lemma drop_instr_upto:
  assumes parts: "lists_ok c L C" "phis_ok c" "calls_ok c" "asms_ok c" "inputs_upto A c" "users_but i c"
    and b: "has_block c b" and i: "i \<in> set (L b)" "i \<notin> set (C b)"
    and u: "verify \<Longrightarrow> uses (code c ! i) = []" and ni: "\<And>u. u \<in> A \<Longrightarrow> live c u \<Longrightarrow> \<not> has_input c u i"
    and nc: "node_complete c i"
  shows "\<exists>c'. drop_instr_impl c (Some i) verify = Inr c' \<and>
    lists_ok c' (L(b := removeAll i (L b))) C \<and> phis_ok c' \<and> calls_ok c' \<and> asms_ok c' \<and> inputs_upto A c' \<and> uses_ok c' \<and>
    (\<forall>j. live c' j \<longleftrightarrow> live c j \<and> j \<noteq> i) \<and>
    (\<forall>j. live c j \<longrightarrow> j \<noteq> i \<longrightarrow> inputs c' j = inputs c j \<and> operation (code c' ! j) = operation (code c ! j)) \<and>
    (\<forall>j. live c j \<longrightarrow> j \<noteq> i \<longrightarrow> node_complete c' j = node_complete c j)"
proof -
  have id: "inputs_defined c" using parts(5) by (simp add: inputs_upto_def)
  have il: "i < length (code c)" "instr_block (code c ! i) = Some b"
    using lists_okD(2) [OF parts(1) b] i(1) by auto
  then have lv: "live c i" by (simp add: live_def)
  obtain c1 rs0 where c1: "drop_used_instructions c i = Inr c1" "uses_only c c1"
      and us0: "\<And>j. live c j \<Longrightarrow> uses (code c1 ! j) = (if Some j \<in> set rs0 then uses_delete i (uses (code c ! j)) else uses (code c ! j))"
      and rs0: "opcode (operation (code c ! i)) \<noteq> OPC_PHI \<Longrightarrow> has_input c i j \<Longrightarrow> Some j \<in> set rs0" for j
    using drop_used_effect [OF parts(1) id lv] by blast
  note uf = uses_only_fields [OF c1(2)] and so = uses_only_same_ops [OF c1(2)]
  have parts1: "lists_ok c1 L C" "phis_ok c1" "calls_ok c1" "asms_ok c1" "inputs_defined c1"
    using uses_only_structure [OF c1(2)] same_ops_inputs_defined [OF so] parts id by simp_all
  have lv1: "live c1 = live c" and b1: "has_block c1 b"
    using uses_only_live [OF c1(2)] c1(2) b by (auto simp: has_block_def uses_only_def)
  obtain c2 where c2: "unlink_instr c1 b i = Inr c2" "minus_instr c1 c2 i" "lists_ok c2 (L(b := removeAll i (L b))) C"
      "\<And>j. uses (code c2 ! j) = uses (code c1 ! j)"
    using unlink_instr_ok [OF parts1(1) b1 i] by blast
  have nc1: "node_complete c1 i"
    using nc uf(3) c1(2) by (simp add: node_complete_def uses_only_def)
  obtain c3 rs1 where c3: "drop_node c2 (operation (code c1 ! i)) = Inr c3"
      "lists_ok c3 (L(b := removeAll i (L b))) C" "phis_ok c3" "calls_ok c3" "asms_ok c3" "node_dropped c1 c2 c3 i rs1"
      and rs1: "opcode (operation (code c1 ! i)) = OPC_PHI \<Longrightarrow> has_input c1 i j \<Longrightarrow> Some j \<in> set rs1" for j
    using drop_node_effect [OF c2(2) parts1(1) c2(3) parts1(2-5) _ nc1] lv lv1 by metis
  have cf: "cf_prev (code c ! i) = None" "cf_next (code c ! i) = None"
    using lists_okD(5) [OF parts(1) b] i by auto
  have ch: "control_head (blocks c ! b) \<noteq> Some i"
    using lists_okD(3) [OF parts(1) b] i(2) first_in_set by (auto simp: control.chained_def chain_def)
  have run: "drop_instr_impl c (Some i) verify = Inr c3"
    using lv u b il cf ch c1(1) c2(1) c3(1) lists_okD(6) [OF parts(1) il(1)] minus_instr_fields(3) [OF c2(2)]
    by (simp add: drop_instr_impl_def)
  have lv3: "live c3 j \<longleftrightarrow> live c j \<and> j \<noteq> i" for j
    using c3(6) minus_instr_fields(13) [OF c2(2)] lv1 by (simp add: node_dropped_def)
  have inp: "inputs c3 j = inputs c j \<and> operation (code c3 ! j) = operation (code c ! j)" if "live c j" "j \<noteq> i" for j
    using c3(6) that lv1 same_ops_inputs [OF so, of j] uf(3) by (simp add: node_dropped_def live_def)
  have us: "uses (code c3 ! j) = (if Some j \<in> set (rs0 @ rs1) then uses_delete i (uses (code c ! j)) else uses (code c ! j))"
    if "live c j" "j \<noteq> i" for j
    using c3(6) that lv1 c2(4) us0 [OF that(1)] by (simp add: node_dropped_def)
  have rs: "Some j \<in> set (rs0 @ rs1)" if "has_input c i j" for j
    using rs0 [of j] rs1 [of j] that same_ops_has_input [OF so il(1)] uf(3) by auto
  have len: "length (code c3) = length (code c)"
    using same_size_drop_node [OF c3(1)] minus_instr_fields(1) [OF c2(2)] uses_only_length [OF c1(2)] by (simp add: same_size_def)
  note fin = drop_uses_final [OF parts(5,6) lv ni len lv3 inp us rs]
  have "node_complete c1 j = node_complete c j" for j
    using uf(3) c1(2) by (simp add: node_complete_def uses_only_def)
  then have "node_complete c3 j = node_complete c j" if "live c j" "j \<noteq> i" for j
    using c3(6) that lv1 by (simp add: node_dropped_def)
  then show ?thesis using run c3(2-5) fin lv3 inp by blast
qed

lemma drop_instr_ok:
  assumes ok: "code_ok c L C" and b: "has_block c b" and i: "i \<in> set (L b)" "i \<notin> set (C b)"
    and u: "uses (code c ! i) = []" and nc: "node_complete c i"
  shows "\<exists>c'. kefir_opt_code_container_drop_instr c (Some i) = Inr c' \<and>
    code_ok c' (L(b := removeAll i (L b))) C \<and> (\<forall>j. live c' j \<longleftrightarrow> live c j \<and> j \<noteq> i) \<and>
    (\<forall>j. live c j \<longrightarrow> j \<noteq> i \<longrightarrow> inputs c' j = inputs c j \<and> operation (code c' ! j) = operation (code c ! j))"
proof -
  have parts: "lists_ok c L C" "phis_ok c" "calls_ok c" "asms_ok c" "inputs_upto UNIV c" "users_but i c"
    using ok by (auto simp: code_ok_def inputs_upto_UNIV uses_ok_def users_but_def)
  have "live c i" using lists_okD(2) [OF parts(1) b] i(1) by (auto simp: live_def)
  then have "\<not> has_input c v i" if "live c v" for v using ok u that by (auto simp: code_ok_def uses_ok_def)
  from drop_instr_upto [OF parts b i u this nc, of True] show ?thesis
    unfolding kefir_opt_code_container_drop_instr_def code_ok_def inputs_upto_UNIV by blast
qed

end
