(* ===== verification/Kefir_Opt_Code_Replace.thy ===== *)
theory Kefir_Opt_Code_Replace
  imports Kefir_Opt_Code_Nodes
begin

text \<open>
  Replacing an instruction by another one in all its users, the step every rewriting pass ends
  with: the operands are substituted, the users move, and the invariant is kept.
\<close>

section \<open>Operations\<close>

abbreviation subst_ref :: "nat \<Rightarrow> nat \<Rightarrow> ref \<Rightarrow> ref" where
  "subst_ref t f \<equiv> REPLACE_REF (Some t) (Some f)"

lemma subst_ref_None [simp]: "subst_ref t f None = None" "subst_ref t f r = None \<longleftrightarrow> r = None"
  by (auto simp: REPLACE_REF_def)

lemma filter_subst [simp]:
  "filter (\<lambda>r. \<exists>y. r = Some y) (map (subst_ref t f) rs) = map (subst_ref t f) (filter (\<lambda>r. \<exists>y. r = Some y) rs)"
  "filter (\<lambda>r. r \<noteq> None) (map (subst_ref t f) rs) = map (subst_ref t f) (filter (\<lambda>r. r \<noteq> None) rs)"
  by (induction rs) (auto simp: REPLACE_REF_def)

lemma subst_ref_id: "Some f \<notin> set rs \<Longrightarrow> map (subst_ref t f) rs = rs"
  by (induction rs) (auto simp: REPLACE_REF_def)

lemma replace_at_length [simp]: "length (replace_at ks t f rs) = length rs"
  by (induction ks arbitrary: rs) auto

lemma replace_at_nth:
  "distinct ks \<Longrightarrow> j < length rs \<Longrightarrow>
   replace_at ks t f rs ! j = (if j \<in> set ks then REPLACE_REF t f (rs ! j) else rs ! j)"
  by (induction ks arbitrary: rs) (auto simp: nth_update)

text \<open>Which references of an operation are set.\<close>

definition set_refs :: "opt_operation \<Rightarrow> bool list" where
  "set_refs op = map (\<lambda>r. r \<noteq> None) (refs op)"

lemma replace_at_set: "map (\<lambda>r. r \<noteq> None) (replace_at ks (Some t) (Some f) rs) = map (\<lambda>r. r \<noteq> None) rs"
proof (induction ks arbitrary: rs)
  case (Cons k ks)
  have "map (\<lambda>r. r \<noteq> None) (rs[k := subst_ref t f (rs ! k)]) = map (\<lambda>r. r \<noteq> None) rs"
    by (intro nth_equalityI) (auto simp: nth_update REPLACE_REF_def split: if_splits)
  then show ?case using Cons.IH by simp
qed simp

lemma set_refs_replace [simp]: "set_refs (op\<lparr>refs := replace_at ks (Some t) (Some f) rs\<rparr>) = map (\<lambda>r. r \<noteq> None) rs"
  using replace_at_set [of ks t f rs] by (simp add: set_refs_def)

lemma set_refs_other [simp]:
  "set_refs (op\<lparr>condition_ref := r\<rparr>) = set_refs op" "set_refs (op\<lparr>indirect_ref := r\<rparr>) = set_refs op"
  by (simp_all add: set_refs_def)

definition op_skeleton :: "opt_operation \<Rightarrow> opt_operation \<Rightarrow> bool" where
  "op_skeleton op op' \<longleftrightarrow> opcode op' = opcode op \<and> phi_ref op' = phi_ref op \<and> call_ref op' = call_ref op \<and>
     inline_asm_ref op' = inline_asm_ref op \<and> length (refs op') = length (refs op) \<and> set_refs op' = set_refs op \<and>
     comparison op' = comparison op \<and> imm op' = imm op \<and>
     bitfield_offset op' = bitfield_offset op \<and> bitfield_length op' = bitfield_length op"

lemma replace_class_skeleton:
  assumes "op_ok op"
  shows "\<exists>op'. replace_references_class (opcode_class_of (opcode op)) (Some t) (Some f) op = Inr op' \<and>
    op_skeleton op op' \<and> op_ok op' \<and>
    (is_call (opcode op) \<longrightarrow> indirect_ref op' = subst_ref t f (indirect_ref op))"
  using assms
  by (cases "opcode op"; (cases "opcode_class_of (opcode op)")?)
     (auto simp: op_skeleton_def op_ok_def is_call_def replace_references_branch_def replace_references_call_ref_def
        replace_references_bitint_atomic_def replace_references_bitint_bitfield_def set_refs_def [of op]
        simp del: replace_at.simps)

lemma replace_class_raw:
  assumes op: "is_plain (operation x)" and refs: "refs (operation x) = [r0, r1, r2, r3]"
    and r: "replace_references_class (opcode_class_of (opcode (operation x))) (Some t) (Some f) (operation x) = Inr (operation x')"
    and e: "extract_inputs_class (opcode_class_of (opcode (operation x))) c x rp = Inr rs"
  shows "extract_inputs_class (opcode_class_of (opcode (operation x))) c x' rp = Inr (map (subst_ref t f) rs)"
proof -
  define cls where "cls = opcode_class_of (opcode (operation x))"
  have op': "opcode (operation x') = opcode (operation x)"
    using replace_class_skeleton [of "operation x" t f] op r by (auto simp: is_plain_def op_skeleton_def)
  have n: "cls \<notin> {Class_phi_ref, Class_call_ref, Class_inline_asm}"
    using op op_ok_class [of "operation x"] by (auto simp: is_plain_def cls_def)
  show ?thesis
  proof (cases "cls = Class_branch")
    case True
    then have "opcode (operation x) \<in> {OPC_JUMP, OPC_IJUMP, OPC_BRANCH}"
      using op by (cases "opcode (operation x)") (auto simp: cls_def is_plain_def op_ok_def)
    then show ?thesis
      using True r e refs op' op [unfolded is_plain_def op_ok_def]
      by (auto simp: cls_def replace_references_branch_def extract_inputs_branch_def dest: sym)
  next
    case False
    from r [symmetric] e show ?thesis
      using n False refs op' unfolding cls_def [symmetric]
      by (cases cls) (auto simp: replace_references_bitint_atomic_def extract_inputs_bitint_atomic_def
        replace_references_bitint_bitfield_def extract_inputs_bitint_bitfield_def split: if_splits)
  qed
qed

lemma replace_class_inputs:
  assumes op: "is_plain (operation x)"
    and r: "replace_references_class (opcode_class_of (opcode (operation x))) (Some t) (Some f) (operation x) = Inr (operation x')"
    and e: "kefir_opt_instruction_extract_inputs c x rp = Inr rs"
  shows "kefir_opt_instruction_extract_inputs c' x' rp' = Inr (map (subst_ref t f) rs)"
proof -
  obtain op' where op': "operation x' = op'" "op_skeleton (operation x) op'" "op_ok op'"
    using replace_class_skeleton [of "operation x" t f] op r by (auto simp: is_plain_def)
  then have p': "is_plain (operation x')" using op by (simp add: is_plain_def op_skeleton_def)
  have "length (refs (operation x)) = 4" using op by (simp add: is_plain_def op_ok_def)
  then obtain r0 r1 r2 r3 where l: "refs (operation x) = [r0, r1, r2, r3]"
    by (auto simp: eval_nat_numeral length_Suc_conv)
  obtain raw where raw: "extract_inputs_class (opcode_class_of (opcode (operation x))) c x rp = Inr raw"
      "rs = filter (\<lambda>r. r \<noteq> None) raw"
    using e by (auto simp: kefir_opt_instruction_extract_inputs_def bindE_iffs)
  have "kefir_opt_instruction_extract_inputs c x' rp = Inr (map (subst_ref t f) rs)"
    using replace_class_raw [OF op l r raw(1)] op' raw(2)
    by (simp add: kefir_opt_instruction_extract_inputs_def op_skeleton_def)
  then show ?thesis using plain_inputs [OF p' refl] by simp
qed

section \<open>What a replacement keeps\<close>

definition skeleton :: "opt_code \<Rightarrow> opt_code \<Rightarrow> bool" where
  "skeleton c c' \<longleftrightarrow> length (code c') = length (code c) \<and> blocks c' = blocks c \<and>
     length (phi_nodes c') = length (phi_nodes c) \<and> length (call_nodes c') = length (call_nodes c) \<and>
     length (inline_assembly c') = length (inline_assembly c) \<and>
     (\<forall>i. instr_id (code c' ! i) = instr_id (code c ! i) \<and> instr_block (code c' ! i) = instr_block (code c ! i) \<and>
          sib_prev (code c' ! i) = sib_prev (code c ! i) \<and> sib_next (code c' ! i) = sib_next (code c ! i) \<and>
          cf_prev (code c' ! i) = cf_prev (code c ! i) \<and> cf_next (code c' ! i) = cf_next (code c ! i) \<and>
          op_skeleton (operation (code c ! i)) (operation (code c' ! i))) \<and>
     (\<forall>k. phi_block (phi_nodes c' ! k) = phi_block (phi_nodes c ! k) \<and> phi_output (phi_nodes c' ! k) = phi_output (phi_nodes c ! k) \<and>
          phi_prev (phi_nodes c' ! k) = phi_prev (phi_nodes c ! k) \<and> phi_next (phi_nodes c' ! k) = phi_next (phi_nodes c ! k) \<and>
          map fst (links (phi_nodes c' ! k)) = map fst (links (phi_nodes c ! k))) \<and>
     (\<forall>k. call_block (call_nodes c' ! k) = call_block (call_nodes c ! k) \<and> call_output (call_nodes c' ! k) = call_output (call_nodes c ! k) \<and>
          call_prev (call_nodes c' ! k) = call_prev (call_nodes c ! k) \<and> call_next (call_nodes c' ! k) = call_next (call_nodes c ! k)) \<and>
     (\<forall>k. asm_block (inline_assembly c' ! k) = asm_block (inline_assembly c ! k) \<and>
          asm_output (inline_assembly c' ! k) = asm_output (inline_assembly c ! k) \<and>
          asm_prev (inline_assembly c' ! k) = asm_prev (inline_assembly c ! k) \<and>
          asm_next (inline_assembly c' ! k) = asm_next (inline_assembly c ! k))"

lemma skeleton_live: "skeleton c c' \<Longrightarrow> live c' = live c"
  by (simp add: skeleton_def live_def fun_eq_iff)

lemma skeleton_present:
  "skeleton c c' \<Longrightarrow> has_block c' = has_block c" "skeleton c c' \<Longrightarrow> live_phi c' = live_phi c"
  "skeleton c c' \<Longrightarrow> has_call c' = has_call c" "skeleton c c' \<Longrightarrow> has_asm c' = has_asm c"
  by (simp_all add: skeleton_def has_block_def live_phi_def has_call_def has_asm_def fun_eq_iff)

lemma skeleton_lists:
  assumes "skeleton c c'" shows "lists_ok c' L C = lists_ok c L C"
  unfolding lists_ok_def content.chained_def control.chained_def skeleton_present [OF assms]
  using assms by (simp add: skeleton_def)

lemma skeleton_nodes:
  assumes "skeleton c c'"
  shows "phis_ok c' = phis_ok c" "calls_ok c' = calls_ok c" "asms_ok c' = asms_ok c"
  unfolding phis_ok_def calls_ok_def asms_ok_def phi.chained_def call.chained_def asm.chained_def
    skeleton_present [OF assms] skeleton_live [OF assms]
  using assms by (simp_all add: skeleton_def op_skeleton_def)

lemma uses_only_skeleton:
  assumes "uses_only c c'" shows "skeleton c c'"
proof -
  have e: "blocks c' = blocks c" "phi_nodes c' = phi_nodes c" "call_nodes c' = call_nodes c" "inline_assembly c' = inline_assembly c"
    using assms by (simp_all add: uses_only_def)
  show ?thesis
    unfolding skeleton_def e using uses_only_fields [OF assms] uses_only_length [OF assms] by (simp add: op_skeleton_def)
qed

lemma skeleton_trans:
  assumes "skeleton c c'" "skeleton c' c''" shows "skeleton c c''"
  using assms unfolding skeleton_def op_skeleton_def by metis

section \<open>The operands in a node\<close>

lemma replace_in_node_effect:
  assumes parts: "phis_ok c" "calls_ok c" "asms_ok c" and u: "live c u"
  shows "\<exists>c'. replace_in_node (Some t) (Some f) (operation (code c ! u)) c = Inr c' \<and> skeleton c c' \<and> code c' = code c \<and>
    (\<forall>k. phi_output (phi_nodes c ! k) \<noteq> Some u \<longrightarrow> links (phi_nodes c' ! k) = links (phi_nodes c ! k)) \<and>
    (\<forall>k. call_output (call_nodes c ! k) \<noteq> Some u \<longrightarrow> arguments (call_nodes c' ! k) = arguments (call_nodes c ! k) \<and>
        return_space (call_nodes c' ! k) = return_space (call_nodes c ! k)) \<and>
    (\<forall>k. asm_output (inline_assembly c ! k) \<noteq> Some u \<longrightarrow>
        asm_parameters (inline_assembly c' ! k) = asm_parameters (inline_assembly c ! k)) \<and>
    (\<forall>k. opcode (operation (code c ! u)) = OPC_PHI \<longrightarrow> phi_ref (operation (code c ! u)) = Some k \<longrightarrow>
        phi_operands c' k = map (subst_ref t f) (phi_operands c k)) \<and>
    (\<forall>k. is_call (opcode (operation (code c ! u))) \<longrightarrow> call_ref (operation (code c ! u)) = Some k \<longrightarrow>
        arguments (call_nodes c' ! k) = map (subst_ref t f) (arguments (call_nodes c ! k)) \<and>
        return_space (call_nodes c' ! k) = subst_ref t f (return_space (call_nodes c ! k))) \<and>
    (\<forall>k. opcode (operation (code c ! u)) = OPC_INLINE_ASSEMBLY \<longrightarrow> inline_asm_ref (operation (code c ! u)) = Some k \<longrightarrow>
        concat (map (\<lambda>p. [value_ref p, location_ref p]) (asm_parameters (inline_assembly c' ! k))) =
        map (subst_ref t f) (concat (map (\<lambda>p. [value_ref p, location_ref p]) (asm_parameters (inline_assembly c ! k)))))"
proof -
  let ?op = "operation (code c ! u)"
  consider (phi) "opcode ?op = OPC_PHI" | (call) "is_call (opcode ?op)" | (asm) "opcode ?op = OPC_INLINE_ASSEMBLY"
    | (plain) "opcode ?op \<noteq> OPC_PHI" "\<not> is_call (opcode ?op)" "opcode ?op \<noteq> OPC_INLINE_ASSEMBLY" by blast
  then show ?thesis
  proof cases
    case phi
    then obtain k where k: "phi_ref ?op = Some k" "live_phi c k" "phi_output (phi_nodes c ! k) = Some u"
      using phis_okD(1) [OF parts(1) u] by blast
    let ?c = "upd_phi k (\<lambda>x. x\<lparr>links := map (\<lambda>(b, r). (b, subst_ref t f r)) (links x)\<rparr>) c"
    have "replace_in_node (Some t) (Some f) ?op c = Inr ?c"
      using phi k by (simp add: replace_in_node_def live_phi_def)
    moreover have "skeleton c ?c"
      by (simp add: skeleton_def op_skeleton_def nth_update case_prod_beta comp_def)
    ultimately show ?thesis
      using phi k by (intro exI [of _ ?c]) (auto simp: nth_update is_call_def live_phi_def comp_def case_prod_beta)
  next
    case call
    then obtain k where k: "call_ref ?op = Some k" "has_call c k" "call_output (call_nodes c ! k) = Some u"
      using calls_okD(1) [OF parts(2) u] by blast
    let ?c = "upd_call k (\<lambda>x. x\<lparr>arguments := map (subst_ref t f) (arguments x), return_space := subst_ref t f (return_space x)\<rparr>) c"
    have "replace_in_node (Some t) (Some f) ?op c = Inr ?c"
      using call k by (auto simp: replace_in_node_def is_call_def)
    moreover have "skeleton c ?c"
      by (simp add: skeleton_def op_skeleton_def nth_update)
    ultimately show ?thesis
      using call k by (intro exI [of _ ?c]) (auto simp: nth_update is_call_def has_call_def)
  next
    case asm
    then obtain k where k: "inline_asm_ref ?op = Some k" "has_asm c k" "asm_output (inline_assembly c ! k) = Some u"
      using asms_okD(1) [OF parts(3) u] by blast
    let ?c = "upd_asm k (\<lambda>x. x\<lparr>asm_parameters := map (\<lambda>p. p\<lparr>location_ref := subst_ref t f (location_ref p),
                      value_ref := subst_ref t f (value_ref p)\<rparr>) (asm_parameters x)\<rparr>) c"
    have "replace_in_node (Some t) (Some f) ?op c = Inr ?c"
      using asm k by (simp add: replace_in_node_def is_call_def)
    moreover have "skeleton c ?c"
      by (simp add: skeleton_def op_skeleton_def nth_update)
    ultimately show ?thesis
      using asm k by (intro exI [of _ ?c]) (auto simp: nth_update is_call_def has_asm_def map_concat comp_def)
  next
    case plain
    then show ?thesis
      by (intro exI [of _ c]) (auto simp: replace_in_node_def skeleton_def op_skeleton_def)
  qed
qed

section \<open>One user\<close>

lemma replace_inputs_user:
  assumes sk: "skeleton c c'" and u: "live c u" "instr_id (code c ! u) = u"
    and parts: "phis_ok c" "calls_ok c" "asms_ok c" and op: "op_ok (operation (code c ! u))"
    and r: "replace_references_class (opcode_class_of (opcode (operation (code c ! u)))) (Some t) (Some f)
        (operation (code c ! u)) = Inr (operation (code c' ! u))"
    and ind: "is_call (opcode (operation (code c ! u))) \<Longrightarrow>
        indirect_ref (operation (code c' ! u)) = subst_ref t f (indirect_ref (operation (code c ! u)))"
    and sp: "\<And>k. opcode (operation (code c ! u)) = OPC_PHI \<Longrightarrow> phi_ref (operation (code c ! u)) = Some k \<Longrightarrow>
        phi_operands c' k = map (subst_ref t f) (phi_operands c k)"
    and sc: "\<And>k. is_call (opcode (operation (code c ! u))) \<Longrightarrow> call_ref (operation (code c ! u)) = Some k \<Longrightarrow>
        arguments (call_nodes c' ! k) = map (subst_ref t f) (arguments (call_nodes c ! k)) \<and>
        return_space (call_nodes c' ! k) = subst_ref t f (return_space (call_nodes c ! k))"
    and sa: "\<And>k. opcode (operation (code c ! u)) = OPC_INLINE_ASSEMBLY \<Longrightarrow> inline_asm_ref (operation (code c ! u)) = Some k \<Longrightarrow>
        concat (map (\<lambda>p. [value_ref p, location_ref p]) (asm_parameters (inline_assembly c' ! k))) =
        map (subst_ref t f) (concat (map (\<lambda>p. [value_ref p, location_ref p]) (asm_parameters (inline_assembly c ! k))))"
    and rs: "inputs c u = Inr rs"
  shows "inputs c' u = Inr (map (subst_ref t f) rs)"
proof -
  let ?op = "operation (code c ! u)"
  have os: "op_skeleton ?op (operation (code c' ! u))" "instr_id (code c' ! u) = u"
    using sk u(2) by (simp_all add: skeleton_def)
  have o: "opcode (operation (code c' ! u)) = opcode ?op" "phi_ref (operation (code c' ! u)) = phi_ref ?op"
      "call_ref (operation (code c' ! u)) = call_ref ?op" "inline_asm_ref (operation (code c' ! u)) = inline_asm_ref ?op"
    using os(1) by (simp_all add: op_skeleton_def)
  have u': "live c' u" using u(1) skeleton_live [OF sk] by simp
  consider (phi) "opcode ?op = OPC_PHI" | (call) "is_call (opcode ?op)" | (asm) "opcode ?op = OPC_INLINE_ASSEMBLY"
    | (plain) "is_plain ?op" using op by (auto simp: is_plain_def)
  then show ?thesis
  proof cases
    case phi
    then obtain k where k: "phi_ref ?op = Some k" "live_phi c k" using phis_okD(1) [OF parts(1) u(1)] by blast
    have "inputs c u = Inr (filter (\<lambda>r. r \<noteq> None) (phi_operands c k))"
      using inputs_phi [OF u phi k] .
    moreover have "inputs c' u = Inr (filter (\<lambda>r. r \<noteq> None) (phi_operands c' k))"
      by (rule inputs_phi) (use phi k o os u' skeleton_present [OF sk] in auto)
    ultimately show ?thesis
      using rs sp [OF phi k(1)] by (simp del: map_map)
  next
    case call
    then obtain k where k: "call_ref ?op = Some k" "has_call c k" using calls_okD(1) [OF parts(2) u(1)] by blast
    have "inputs c' u = Inr (filter (\<lambda>r. r \<noteq> None) (indirect_ref (operation (code c' ! u)) #
        arguments (call_nodes c' ! k) @ [return_space (call_nodes c' ! k)]))"
      by (rule inputs_call) (use call k o skeleton_present [OF sk] in auto)
    moreover have "indirect_ref (operation (code c' ! u)) # arguments (call_nodes c' ! k) @ [return_space (call_nodes c' ! k)] =
        map (subst_ref t f) (indirect_ref ?op # arguments (call_nodes c ! k) @ [return_space (call_nodes c ! k)])"
      using sc [OF call k(1)] ind [OF call] by simp
    ultimately have "inputs c' u = Inr (map (subst_ref t f) (filter (\<lambda>r. r \<noteq> None)
        (indirect_ref ?op # arguments (call_nodes c ! k) @ [return_space (call_nodes c ! k)])))"
      by (simp only: filter_subst)
    then show ?thesis
      using rs inputs_call [OF call k] by simp
  next
    case asm
    then obtain k where k: "inline_asm_ref ?op = Some k" "has_asm c k" using asms_okD(1) [OF parts(3) u(1)] by blast
    have "inputs c' u = Inr (filter (\<lambda>r. r \<noteq> None)
        (concat (map (\<lambda>p. [value_ref p, location_ref p]) (asm_parameters (inline_assembly c' ! k)))))"
      by (rule inputs_asm) (use asm k o skeleton_present [OF sk] in auto)
    then show ?thesis
      using rs inputs_asm [OF asm k] sa [OF asm k(1)] by simp
  next
    case plain
    then show ?thesis
      using replace_class_inputs [OF plain r] rs unfolding inputs_def by blast
  qed
qed

lemma replace_inputs_other:
  assumes sk: "skeleton c c'" and v: "live c v" "v \<noteq> u" "instr_id (code c ! v) = v" "op_ok (operation (code c ! v))"
    and parts: "phis_ok c" "calls_ok c" "asms_ok c" and op: "operation (code c' ! v) = operation (code c ! v)"
    and phi: "\<And>k. phi_output (phi_nodes c ! k) \<noteq> Some u \<Longrightarrow> links (phi_nodes c' ! k) = links (phi_nodes c ! k)"
    and call: "\<And>k. call_output (call_nodes c ! k) \<noteq> Some u \<Longrightarrow> arguments (call_nodes c' ! k) = arguments (call_nodes c ! k) \<and>
        return_space (call_nodes c' ! k) = return_space (call_nodes c ! k)"
    and asm: "\<And>k. asm_output (inline_assembly c ! k) \<noteq> Some u \<Longrightarrow>
        asm_parameters (inline_assembly c' ! k) = asm_parameters (inline_assembly c ! k)"
  shows "inputs c' v = inputs c v"
proof (rule inputs_at)
  show "instr_id (code c' ! v) = v" "live c' v"
    using sk v skeleton_live [OF sk] by (simp_all add: skeleton_def)
  show "\<exists>k. phi_ref (operation (code c ! v)) = Some k \<and> live_phi c k \<and> live_phi c' k \<and>
      map snd (links (phi_nodes c' ! k)) = map snd (links (phi_nodes c ! k))"
    if "opcode (operation (code c ! v)) = OPC_PHI"
    using phis_okD(1) [OF parts(1) v(1) that] phi v(2) skeleton_present [OF sk] by force
  show "\<exists>k. call_ref (operation (code c ! v)) = Some k \<and> has_call c k \<and> has_call c' k \<and>
      arguments (call_nodes c' ! k) = arguments (call_nodes c ! k) \<and>
      return_space (call_nodes c' ! k) = return_space (call_nodes c ! k)"
    if "is_call (opcode (operation (code c ! v)))"
    using calls_okD(1) [OF parts(2) v(1) that] call v(2) skeleton_present [OF sk] by force
  show "\<exists>k. inline_asm_ref (operation (code c ! v)) = Some k \<and> has_asm c k \<and> has_asm c' k \<and>
      asm_parameters (inline_assembly c' ! k) = asm_parameters (inline_assembly c ! k)"
    if "opcode (operation (code c ! v)) = OPC_INLINE_ASSEMBLY"
    using asms_okD(1) [OF parts(3) v(1) that] asm v(2) skeleton_present [OF sk] by force
qed (use v op in auto)

lemma replace_in_effect:
  assumes ok: "code_ok c L C" and t: "live c t" and f: "live c f" and u: "live c u"
  shows "\<exists>c'. kefir_opt_code_container_replace_references_in c u (Some t) (Some f) = Inr c' \<and> skeleton c c' \<and>
    (\<forall>v. live c v \<longrightarrow> op_ok (operation (code c' ! v))) \<and>
    (\<forall>v rs. live c v \<longrightarrow> inputs c v = Inr rs \<longrightarrow> inputs c' v = Inr (if v = u then map (subst_ref t f) rs else rs)) \<and>
    (\<forall>j. live c j \<longrightarrow> uses (code c' ! j) = (if j = t then uses_add u else id) ((if j = f then uses_delete u else id) (uses (code c ! j))))"
proof -
  have parts: "lists_ok c L C" "phis_ok c" "calls_ok c" "asms_ok c" "inputs_ok c"
    using ok by (auto simp: code_ok_def)
  let ?op = "operation (code c ! u)"
  have ul: "u < length (code c)" "instr_block (code c ! u) \<noteq> None" using u by (auto simp: live_def)
  have idv: "instr_id (code c ! v) = v" if "live c v" for v
    using lists_okD(6) [OF parts(1)] that by (simp add: live_def)
  note opok = inputs_okD(1) [OF parts(5)]
  from replace_in_node_effect [OF parts(2-4) u, of t f] obtain c1 where
    c1: "replace_in_node (Some t) (Some f) ?op c = Inr c1" "skeleton c c1" "code c1 = code c"
      and other: "\<And>k. phi_output (phi_nodes c ! k) \<noteq> Some u \<Longrightarrow> links (phi_nodes c1 ! k) = links (phi_nodes c ! k)"
        "\<And>k. call_output (call_nodes c ! k) \<noteq> Some u \<Longrightarrow> arguments (call_nodes c1 ! k) = arguments (call_nodes c ! k) \<and>
          return_space (call_nodes c1 ! k) = return_space (call_nodes c ! k)"
        "\<And>k. asm_output (inline_assembly c ! k) \<noteq> Some u \<Longrightarrow>
          asm_parameters (inline_assembly c1 ! k) = asm_parameters (inline_assembly c ! k)"
      and user: "\<And>k. opcode ?op = OPC_PHI \<Longrightarrow> phi_ref ?op = Some k \<Longrightarrow> phi_operands c1 k = map (subst_ref t f) (phi_operands c k)"
        "\<And>k. is_call (opcode ?op) \<Longrightarrow> call_ref ?op = Some k \<Longrightarrow>
          arguments (call_nodes c1 ! k) = map (subst_ref t f) (arguments (call_nodes c ! k)) \<and>
          return_space (call_nodes c1 ! k) = subst_ref t f (return_space (call_nodes c ! k))"
        "\<And>k. opcode ?op = OPC_INLINE_ASSEMBLY \<Longrightarrow> inline_asm_ref ?op = Some k \<Longrightarrow>
          concat (map (\<lambda>p. [value_ref p, location_ref p]) (asm_parameters (inline_assembly c1 ! k))) =
          map (subst_ref t f) (concat (map (\<lambda>p. [value_ref p, location_ref p]) (asm_parameters (inline_assembly c ! k))))"
    by blast
  obtain op' where op': "replace_references_class (opcode_class_of (opcode ?op)) (Some t) (Some f) ?op = Inr op'"
      "op_skeleton ?op op'" "op_ok op'" "is_call (opcode ?op) \<Longrightarrow> indirect_ref op' = subst_ref t f (indirect_ref ?op)"
    using replace_class_skeleton [OF opok [OF u], of t f] by blast
  define c2 where "c2 = upd_instr u (\<lambda>x. x\<lparr>operation := op'\<rparr>) c1"
  have sk2: "skeleton c1 c2"
    using op'(2) c1(3) by (simp add: c2_def skeleton_def op_skeleton_def nth_update)
  have lv2: "live c2 = live c" using skeleton_live [OF sk2] skeleton_live [OF c1(2)] by simp
  obtain c3 where c3: "remove_used_instructions c2 u (Some f) = Inr c3" "uses_only c2 c3"
      "\<And>j. uses (code c3 ! j) = (if j = f then uses_delete u (uses (code c2 ! j)) else uses (code c2 ! j))"
    using remove_used_eq [of c2 f u] f lv2 by auto
  obtain c4 where c4: "add_used_instructions c3 u (Some t) = Inr c4" "uses_only c3 c4"
      "\<And>j. uses (code c4 ! j) = (if j = t then uses_add u (uses (code c3 ! j)) else uses (code c3 ! j))"
    using add_used_eq [of c3 t u] t lv2 uses_only_live [OF c3(2)] by auto
  have uo: "uses_only c2 c4" using c3(2) c4(2) by (rule uses_only_trans)
  have sk: "skeleton c c4"
    using c1(2) sk2 uses_only_skeleton [OF uo] skeleton_trans by blast
  have run: "kefir_opt_code_container_replace_references_in c u (Some t) (Some f) = Inr c4"
    using ul c1 op'(1) c3(1) c4(1)
    by (simp add: kefir_opt_code_container_replace_references_in_def c2_def)
  have nodes: "phi_nodes c4 = phi_nodes c1" "call_nodes c4 = call_nodes c1" "inline_assembly c4 = inline_assembly c1"
    using uo by (simp_all add: uses_only_def c2_def)
  have op4: "operation (code c4 ! v) = (if v = u then op' else operation (code c ! v))" for v
    using uses_only_fields(3) [OF uo] ul(1) c1(3) by (auto simp: c2_def nth_update)
  have "inputs c4 v = Inr (if v = u then map (subst_ref t f) rs else rs)" if v: "live c v" "inputs c v = Inr rs" for v rs
  proof (cases "v = u")
    case True
    show ?thesis
      using replace_inputs_user [OF sk u idv [OF u] parts(2-4) opok [OF u], of t f rs] op' user v True op4 [of u] nodes
      by simp
  next
    case False
    have "inputs c4 v = inputs c v"
      by (rule replace_inputs_other [OF sk v(1) False idv [OF v(1)] opok [OF v(1)] parts(2-4)])
         (use False op4 other nodes in auto)
    then show ?thesis using v False by simp
  qed
  moreover have "op_ok (operation (code c4 ! v))" if "live c v" for v
    using op4 [of v] op'(3) opok [OF that] by simp
  moreover have "uses (code c4 ! j) = (if j = t then uses_add u else id) ((if j = f then uses_delete u else id) (uses (code c ! j)))" for j
    using c3(3) c4(3) c1(3) by (simp add: c2_def nth_update)
  ultimately show ?thesis using run sk by blast
qed

lemma replace_in_ok:
  assumes ok: "code_ok c L C" and t: "live c t" and f: "live c f" and tf: "t \<noteq> f" and u: "u \<in> set (uses (code c ! f))"
  shows "\<exists>c'. kefir_opt_code_container_replace_references_in c u (Some t) (Some f) = Inr c' \<and> code_ok c' L C \<and>
    skeleton c c' \<and> uses (code c' ! f) = uses_delete u (uses (code c ! f)) \<and>
    (\<forall>v rs. live c v \<longrightarrow> inputs c v = Inr rs \<longrightarrow> inputs c' v = Inr (if v = u then map (subst_ref t f) rs else rs))"
proof -
  have parts: "lists_ok c L C" "phis_ok c" "calls_ok c" "asms_ok c" "inputs_ok c" "uses_ok c"
    using ok by (auto simp: code_ok_def)
  have uses: "sorted (uses (code c ! j))" "distinct (uses (code c ! j))"
      "v \<in> set (uses (code c ! j)) \<longleftrightarrow> live c v \<and> has_input c v j" if "live c j" for j v
    using parts(6) that unfolding uses_ok_def by blast+
  have lu: "live c u" "has_input c u f" using uses(3) [OF f, of u] u by auto
  from replace_in_effect [OF ok t f lu(1)] obtain c' where
    c': "kefir_opt_code_container_replace_references_in c u (Some t) (Some f) = Inr c'" "skeleton c c'"
      "\<And>v. live c v \<Longrightarrow> op_ok (operation (code c' ! v))"
      and inp: "\<And>v rs. live c v \<Longrightarrow> inputs c v = Inr rs \<Longrightarrow> inputs c' v = Inr (if v = u then map (subst_ref t f) rs else rs)"
      and us: "\<And>j. live c j \<Longrightarrow> uses (code c' ! j) = (if j = t then uses_add u else id) ((if j = f then uses_delete u else id) (uses (code c ! j)))"
    by blast
  note lv = skeleton_live [OF c'(2)]
  have io: "inputs_ok c'"
    unfolding inputs_ok_def lv
  proof (intro allI impI)
    fix v assume v: "live c v"
    then obtain rs where rs: "inputs c v = Inr rs" "\<forall>i. Some i \<in> set rs \<longrightarrow> live c i"
      using parts(5) unfolding inputs_ok_def by blast
    have "\<forall>i. Some i \<in> set (map (subst_ref t f) rs) \<longrightarrow> live c i"
      using rs(2) t by (auto simp: REPLACE_REF_def split: if_splits)
    then show "op_ok (operation (code c' ! v)) \<and> (\<exists>rs. inputs c' v = Inr rs \<and> (\<forall>i. Some i \<in> set rs \<longrightarrow> live c i))"
      using inp [OF v rs(1)] rs(2) c'(3) [OF v] by auto
  qed
  have hi: "has_input c' v j \<longleftrightarrow> (if v = u then j \<noteq> f \<and> (j = t \<or> has_input c u j) else has_input c v j)" if v: "live c v" for v j
  proof -
    obtain rs where rs: "inputs c v = Inr rs" using inputs_okD(2) [OF parts(5) v] by blast
    have "Some j \<in> set (map (subst_ref t f) rs) \<longleftrightarrow> j \<noteq> f \<and> (j = t \<or> Some j \<in> set rs)" if "Some f \<in> set rs"
      using that tf by (force simp: REPLACE_REF_def image_iff)
    then show ?thesis
      using inp [OF v rs] rs lu(2) by (auto simp: has_input_def)
  qed
  have "uses_ok c'"
    unfolding uses_ok_def lv
  proof (intro allI impI conjI)
    fix j assume j: "live c j"
    have "sorted (uses (code c' ! j)) \<and> distinct (uses (code c' ! j))"
      using us [OF j] tf uses_add_order [OF uses(1,2) [OF j]] uses_delete_order [OF uses(1,2) [OF j]] uses(1,2) [OF j]
      by (cases "j = f"; cases "j = t") auto
    then show "sorted (uses (code c' ! j))" "distinct (uses (code c' ! j))" by auto
    fix v show "v \<in> set (uses (code c' ! j)) \<longleftrightarrow> live c v \<and> has_input c' v j"
      using us [OF j] uses(3) [OF j, of v] hi [of v j] lu(1) tf by (cases "v = u") auto
  qed
  then have "code_ok c' L C"
    using parts io skeleton_lists [OF c'(2)] skeleton_nodes [OF c'(2)] by (simp add: code_ok_def)
  then show ?thesis
    using c'(1,2) us [OF f] tf inp by auto
qed

section \<open>All users\<close>

lemma replace_references_users_ok:
  assumes "code_ok c L C" "live c t" "live c f" "t \<noteq> f" "uses (code c ! f) = us"
  shows "\<exists>c'. replace_references_users c us (Some t) (Some f) = Inr c' \<and> code_ok c' L C \<and> skeleton c c' \<and>
    uses (code c' ! f) = [] \<and>
    (\<forall>v rs. live c v \<longrightarrow> inputs c v = Inr rs \<longrightarrow> inputs c' v = Inr (map (subst_ref t f) rs))"
  using assms
proof (induction us arbitrary: c)
  case Nil
  have "Some f \<notin> set rs" if "live c v" "inputs c v = Inr rs" for v rs
    using Nil.prems(1,3,5) that by (force simp: code_ok_def uses_ok_def has_input_def)
  then show ?case
    using Nil.prems subst_ref_id uses_only_skeleton [OF uses_only_refl] by auto
next
  case (Cons u us)
  have d: "u \<notin> set us" using Cons.prems(1,3,5) by (auto simp: code_ok_def uses_ok_def)
  obtain c1 where c1: "kefir_opt_code_container_replace_references_in c u (Some t) (Some f) = Inr c1" "code_ok c1 L C"
      "skeleton c c1" "uses (code c1 ! f) = uses_delete u (u # us)"
      and inp: "\<And>v rs. live c v \<Longrightarrow> inputs c v = Inr rs \<Longrightarrow> inputs c1 v = Inr (if v = u then map (subst_ref t f) rs else rs)"
    using replace_in_ok [OF Cons.prems(1-4), of u] Cons.prems(5) by auto
  have us: "uses (code c1 ! f) = us"
    using c1(4) d by (simp add: uses_delete_def filter_id_conv) blast
  note lv = skeleton_live [OF c1(3)]
  obtain c2 where c2: "replace_references_users c1 us (Some t) (Some f) = Inr c2" "code_ok c2 L C" "skeleton c1 c2"
      "uses (code c2 ! f) = []" "\<And>v rs. live c v \<Longrightarrow> inputs c1 v = Inr rs \<Longrightarrow> inputs c2 v = Inr (map (subst_ref t f) rs)"
    using Cons.IH [OF c1(2) _ _ Cons.prems(4) us] Cons.prems(2,3) lv by auto
  have twice: "map (subst_ref t f) (map (subst_ref t f) rs) = map (subst_ref t f) rs" for rs
    using Cons.prems(4) by (auto simp: REPLACE_REF_def)
  have "inputs c2 v = Inr (map (subst_ref t f) rs)" if "live c v" "inputs c v = Inr rs" for v rs
    using c2(5) [OF that(1) inp [OF that]] twice [of rs] by (cases "v = u") auto
  then show ?case
    using c1(1) c2(1,2,4) skeleton_trans [OF c1(3) c2(3)] by auto
qed

lemma replace_references_ok:
  assumes "code_ok c L C" "live c t" "live c f" "t \<noteq> f"
  shows "\<exists>c'. kefir_opt_code_container_replace_references c (Some t) (Some f) = Inr c' \<and> code_ok c' L C \<and>
    skeleton c c' \<and> uses (code c' ! f) = [] \<and>
    (\<forall>v rs. live c v \<longrightarrow> inputs c v = Inr rs \<longrightarrow> inputs c' v = Inr (map (subst_ref t f) rs))"
  using replace_references_users_ok [OF assms refl] assms(3)
  by (auto simp: kefir_opt_code_container_replace_references_def)

end
