(* ===== verification/Kefir_Opt_Code_Props.thy ===== *)
theory Kefir_Opt_Code_Props
  imports Kefir_Opt_Code_Replace
begin

text \<open>
  The code container as a whole: every sequence of edits refines operations on the lists of the
  blocks, read back with the iteration functions of the container, and keeps the users exact.
\<close>

section \<open>Reading a block\<close>

text \<open>
  The loops over a block that the passes write: start at the head, follow the next sibling or the
  next control instruction. The fuel is the number of instructions.
\<close>

fun walk :: "nat \<Rightarrow> (ref \<Rightarrow> ref result) \<Rightarrow> ref \<Rightarrow> nat list result" where
  "walk n nxt None = Inr []"
| "walk 0 nxt (Some i) = Inl KEFIR_INVALID_STATE"
| "walk (Suc n) nxt (Some i) = bindE (nxt (Some i)) (\<lambda>r. bindE (walk n nxt r) (\<lambda>is. Inr (i # is)))"

definition block_listing :: "opt_code \<Rightarrow> nat \<Rightarrow> nat list result" where
  "block_listing c b = bindE (kefir_opt_code_block_instr_head c (Some b))
     (walk (length (code c)) (kefir_opt_instruction_next_sibling c))"

definition control_listing :: "opt_code \<Rightarrow> nat \<Rightarrow> nat list result" where
  "control_listing c b = bindE (kefir_opt_code_block_instr_control_head c (Some b))
     (walk (length (code c)) (kefir_opt_instruction_next_control c))"

lemma walk_linked:
  assumes "linked prv nxt p xs None" "length xs \<le> n" "\<And>i. i \<in> set xs \<Longrightarrow> step (Some i) = Inr (nxt i)"
  shows "walk n step (first None xs) = Inr xs"
  using assms
proof (induction xs arbitrary: n p)
  case (Cons x xs)
  then obtain m where "n = Suc m" by (cases n) auto
  then show ?case using Cons by auto
qed simp

lemma listing_ok:
  assumes ok: "code_ok c L C" and b: "has_block c b"
  shows "block_listing c b = Inr (L b)" "control_listing c b = Inr (C b)"
proof -
  have sub: "set (L b) \<subseteq> {..<length (code c)}" "set (C b) \<subseteq> set (L b)"
    using code_ok_listsD(3,4) [OF ok b] by auto
  have ch: "chain (\<lambda>i. sib_prev (code c ! i)) (\<lambda>i. sib_next (code c ! i)) (content_head (blocks c ! b)) (content_tail (blocks c ! b)) (L b)"
      "chain (\<lambda>i. cf_prev (code c ! i)) (\<lambda>i. cf_next (code c ! i)) (control_head (blocks c ! b)) (control_tail (blocks c ! b)) (C b)"
    using code_ok_listsD(1,2) [OF ok b] by (simp_all add: content.chained_def control.chained_def)
  have "length xs \<le> length (code c)" if "distinct xs" "set xs \<subseteq> {..<length (code c)}" for xs :: "nat list"
    using that card_mono [of "{..<length (code c)}" "set xs"] distinct_card [of xs] by simp
  then have len: "length (L b) \<le> length (code c)" "length (C b) \<le> length (code c)"
    using sub ch by (auto simp: chain_def)
  have lv: "live c i" if "i \<in> set (L b)" for i using code_ok_live [OF ok b that] .
  show "block_listing c b = Inr (L b)"
    using walk_linked [of "\<lambda>i. sib_prev (code c ! i)" "\<lambda>i. sib_next (code c ! i)" None "L b" "length (code c)"
        "kefir_opt_instruction_next_sibling c"] ch(1) len(1) b lv
    by (simp add: block_listing_def kefir_opt_code_block_instr_head_def kefir_opt_instruction_next_sibling_def chain_def)
  show "control_listing c b = Inr (C b)"
    using walk_linked [of "\<lambda>i. cf_prev (code c ! i)" "\<lambda>i. cf_next (code c ! i)" None "C b" "length (code c)"
        "kefir_opt_instruction_next_control c"] ch(2) len(2) b lv sub(2)
    by (simp add: control_listing_def kefir_opt_code_block_instr_control_head_def kefir_opt_instruction_next_control_def
        chain_def subset_iff)
qed

section \<open>Edits\<close>

datatype edit =
    Edit_block bool | Edit_instr nat opt_operation
  | Edit_add_control nat nat | Edit_insert_control nat ref nat | Edit_drop_control nat nat
  | Edit_drop_instr nat nat | Edit_replace nat nat

text \<open>The call of the container that performs the edit.\<close>

fun perform :: "edit \<Rightarrow> opt_code \<Rightarrow> opt_code result" where
  "perform (Edit_block entry) c = bindE (kefir_opt_code_container_new_block c entry) (\<lambda>(c, _). Inr c)"
| "perform (Edit_instr b op) c = bindE (kefir_opt_code_container_new_instruction c (Some b) op) (\<lambda>(c, _). Inr c)"
| "perform (Edit_add_control b i) c = kefir_opt_code_container_add_control c (Some b) (Some i)"
| "perform (Edit_insert_control b a i) c = kefir_opt_code_container_insert_control c (Some b) a (Some i)"
| "perform (Edit_drop_control b i) c = kefir_opt_code_container_drop_control c (Some i)"
| "perform (Edit_drop_instr b i) c = kefir_opt_code_container_drop_instr c (Some i)"
| "perform (Edit_replace t f) c = kefir_opt_code_container_replace_references c (Some t) (Some f)"

text \<open>The specification: the contents of every block and its control flow, as lists.\<close>

record listing =
  n_blocks :: nat
  n_instrs :: nat
  contents :: "nat \<Rightarrow> nat list"
  ordered :: "nat \<Rightarrow> nat list"

definition no_listing :: listing where
  "no_listing = \<lparr>n_blocks = 0, n_instrs = 0, contents = (\<lambda>_. []), ordered = (\<lambda>_. [])\<rparr>"

fun spec_edit :: "edit \<Rightarrow> listing \<Rightarrow> listing" where
  "spec_edit (Edit_block entry) s = s\<lparr>n_blocks := Suc (n_blocks s),
     contents := (contents s)(n_blocks s := []), ordered := (ordered s)(n_blocks s := [])\<rparr>"
| "spec_edit (Edit_instr b op) s = s\<lparr>n_instrs := Suc (n_instrs s),
     contents := (contents s)(b := contents s b @ [n_instrs s])\<rparr>"
| "spec_edit (Edit_add_control b i) s = s\<lparr>ordered := (ordered s)(b := ordered s b @ [i])\<rparr>"
| "spec_edit (Edit_insert_control b a i) s = s\<lparr>ordered := (ordered s)(b := insert_after a i (ordered s b))\<rparr>"
| "spec_edit (Edit_drop_control b i) s = s\<lparr>ordered := (ordered s)(b := removeAll i (ordered s b))\<rparr>"
| "spec_edit (Edit_drop_instr b i) s = s\<lparr>contents := (contents s)(b := removeAll i (contents s b))\<rparr>"
| "spec_edit (Edit_replace t f) s = s"

text \<open>When the passes may perform an edit.\<close>

fun legal_edit :: "opt_code \<Rightarrow> listing \<Rightarrow> edit \<Rightarrow> bool" where
  "legal_edit c s (Edit_block entry) \<longleftrightarrow> (entry \<longrightarrow> entry_point c = None)"
| "legal_edit c s (Edit_instr b op) \<longleftrightarrow> b < n_blocks s \<and> is_plain op \<and>
     (case op_inputs op of Inl _ \<Rightarrow> False | Inr rs \<Rightarrow> list_all (\<lambda>r. case r of None \<Rightarrow> True | Some i \<Rightarrow> live c i) rs)"
| "legal_edit c s (Edit_add_control b i) \<longleftrightarrow> b < n_blocks s \<and> i \<in> set (contents s b) \<and> i \<notin> set (ordered s b)"
| "legal_edit c s (Edit_insert_control b a i) \<longleftrightarrow> b < n_blocks s \<and> i \<in> set (contents s b) \<and> i \<notin> set (ordered s b) \<and>
     (case a of None \<Rightarrow> True | Some x \<Rightarrow> x \<in> set (ordered s b))"
| "legal_edit c s (Edit_drop_control b i) \<longleftrightarrow> b < n_blocks s \<and> i \<in> set (ordered s b)"
| "legal_edit c s (Edit_drop_instr b i) \<longleftrightarrow> b < n_blocks s \<and> i \<in> set (contents s b) \<and> i \<notin> set (ordered s b) \<and>
     uses (code c ! i) = [] \<and> node_complete c i"
| "legal_edit c s (Edit_replace t f) \<longleftrightarrow> live c t \<and> live c f \<and> t \<noteq> f"

fun perform_all :: "edit list \<Rightarrow> opt_code \<Rightarrow> opt_code result" where
  "perform_all [] c = Inr c"
| "perform_all (e # es) c = bindE (perform e c) (perform_all es)"

fun legal :: "edit list \<Rightarrow> opt_code \<Rightarrow> listing \<Rightarrow> bool" where
  "legal [] c s \<longleftrightarrow> True"
| "legal (e # es) c s \<longleftrightarrow> legal_edit c s e \<and>
     (case perform e c of Inl _ \<Rightarrow> True | Inr c' \<Rightarrow> legal es c' (spec_edit e s))"

definition represents :: "opt_code \<Rightarrow> listing \<Rightarrow> bool" where
  "represents c s \<longleftrightarrow> code_ok c (contents s) (ordered s) \<and>
     length (blocks c) = n_blocks s \<and> length (code c) = n_instrs s"

section \<open>The sizes of the arrays\<close>

lemma same_size_drop_impl:
  assumes "drop_instr_impl c r verify = Inr c'" shows "same_size c c'"
proof -
  obtain i b c1 c2 where c: "has_block c b" "drop_used_instructions c (instr_id (code c ! i)) = Inr c1"
      "unlink_instr c1 b i = Inr c2" "drop_node c2 (operation (code c2 ! i)) = Inr c'"
    using assms by (auto simp: drop_instr_impl_def bindE_iffs split: if_splits)
  have 1: "same_size c c1"
    using c(2) by (auto simp: drop_used_instructions_def bindE_iffs intro: same_size_drops)
  then have "has_block c1 b" using c(1) by (simp add: has_block_def same_size_def)
  then have "same_size c1 c2" using unlink_instr_form [OF c(3)] by (simp add: same_size_def)
  then show ?thesis using 1 same_size_drop_node [OF c(4)] by (simp add: same_size_def)
qed

lemma same_size_drop_instr: "kefir_opt_code_container_drop_instr c r = Inr c' \<Longrightarrow> same_size c c'"
  unfolding kefir_opt_code_container_drop_instr_def by (rule same_size_drop_impl)

lemma same_size_insert_head: "insert_control_head c b i = Inr c' \<Longrightarrow> same_size c c'"
  by (cases "control_head (blocks c ! b)") (auto simp: insert_control_head_def bindE_iffs same_size_def Let_def)

lemma same_size_insert_after: "insert_control_after c b a i = Inr c' \<Longrightarrow> same_size c c'"
  by (cases "cf_next (code c ! a)") (auto simp: insert_control_after_def bindE_iffs same_size_def Let_def)

lemma same_size_control:
  "kefir_opt_code_container_insert_control c b a r = Inr c' \<Longrightarrow> same_size c c'"
  "kefir_opt_code_container_add_control c b r = Inr c' \<Longrightarrow> same_size c c'"
  "kefir_opt_code_container_drop_control c r = Inr c' \<Longrightarrow> same_size c c'"
proof -
  show ins: "same_size c c'" if "kefir_opt_code_container_insert_control c b a r = Inr c'" for b a r
    using that by (auto simp: kefir_opt_code_container_insert_control_def bindE_iffs split: option.splits
        dest: same_size_insert_head same_size_insert_after)
  show "kefir_opt_code_container_add_control c b r = Inr c' \<Longrightarrow> same_size c c'"
    using ins by (auto simp: kefir_opt_code_container_add_control_def bindE_iffs)
  show "kefir_opt_code_container_drop_control c r = Inr c' \<Longrightarrow> same_size c c'"
    using control_flow_remove_form by (force simp: kefir_opt_code_container_drop_control_def bindE_iffs same_size_def)
qed

section \<open>Edits refine the specification\<close>

lemma perform_ok:
  assumes r: "represents c s" and l: "legal_edit c s e"
  shows "\<exists>c'. perform e c = Inr c' \<and> represents c' (spec_edit e s)"
proof -
  have ok: "code_ok c (contents s) (ordered s)" and n: "length (blocks c) = n_blocks s" "length (code c) = n_instrs s"
    using r by (auto simp: represents_def)
  have hb: "has_block c b \<longleftrightarrow> b < n_blocks s" for b by (simp add: has_block_def n)
  show ?thesis
  proof (cases e)
    case (Edit_block entry)
    then obtain c' where c': "kefir_opt_code_container_new_block c entry = Inr (c', n_blocks s)"
        "code_ok c' ((contents s)(n_blocks s := [])) ((ordered s)(n_blocks s := []))"
      using new_block_ok [OF ok, of entry] l n by auto
    moreover have "length (blocks c') = Suc (n_blocks s)" "length (code c') = n_instrs s"
      using c'(1) n by (auto simp: kefir_opt_code_container_new_block_def bindE_iffs Let_def)
    ultimately show ?thesis using Edit_block by (auto simp: represents_def)
  next
    case (Edit_instr b op)
    then obtain rs where rs: "op_inputs op = Inr rs" "\<forall>i. Some i \<in> set rs \<longrightarrow> live c i" "b < n_blocks s" "is_plain op"
      using l by (fastforce simp: list_all_iff split: sum.splits)
    have "has_block c b" using rs(3) hb by simp
    from new_instruction_ok [OF ok this rs(4,1,2)] obtain c' where
        "kefir_opt_code_container_new_instruction c (Some b) op = Inr (c', n_instrs s)"
        "extended c c' b op" "code_ok c' ((contents s)(b := contents s b @ [n_instrs s])) (ordered s)"
      unfolding n by blast
    then show ?thesis using Edit_instr n extended_rest [of c c' b op] by (auto simp: represents_def)
  next
    case (Edit_add_control b i)
    then show ?thesis
      using add_control_ok [OF ok, of b i] l hb n same_size_control(2) by (fastforce simp: represents_def same_size_def)
  next
    case (Edit_insert_control b a i)
    then show ?thesis
      using insert_control_ok [OF ok, of b i a] l hb n same_size_control(1)
      by (fastforce simp: represents_def same_size_def split: option.splits)
  next
    case (Edit_drop_control b i)
    then show ?thesis
      using drop_control_ok [OF ok, of b i] l hb n same_size_control(3) by (fastforce simp: represents_def same_size_def)
  next
    case (Edit_drop_instr b i)
    then show ?thesis
      using drop_instr_ok [OF ok, of b i] l hb n same_size_drop_instr by (fastforce simp: represents_def same_size_def)
  next
    case (Edit_replace t f)
    then have "live c t" "live c f" "t \<noteq> f" using l by auto
    from replace_references_users_ok [OF ok this refl] show ?thesis
      using Edit_replace n \<open>live c f\<close>
      by (auto simp: represents_def skeleton_def kefir_opt_code_container_replace_references_def)
  qed
qed

lemma perform_all_ok:
  assumes "represents c s" "legal es c s"
  shows "\<exists>c'. perform_all es c = Inr c' \<and> represents c' (fold spec_edit es s)"
  using assms
proof (induction es arbitrary: c s)
  case (Cons e es)
  then obtain c1 where c1: "perform e c = Inr c1" "represents c1 (spec_edit e s)"
    using perform_ok [of c s e] by auto
  then show ?case using Cons.IH [of c1 "spec_edit e s"] Cons.prems(2) by auto
qed simp

lemma represents_init: "represents kefir_opt_code_container_init no_listing"
  using code_ok_init by (simp add: represents_def no_listing_def kefir_opt_code_container_init_def)

section \<open>Properties\<close>

lemma op_ok_code [code]:
  "op_ok op \<longleftrightarrow> length (refs op) = 4 \<and> (opcode op = OPC_JUMP \<longrightarrow> condition_ref op = None) \<and>
     (opcode op = OPC_INVOKE \<or> opcode op = OPC_TAIL_INVOKE \<longrightarrow> indirect_ref op = None) \<and>
     (case opcode op of OPC_OTHER cls s \<Rightarrow>
        cls \<notin> set [Class_phi_ref, Class_call_ref, Class_inline_asm, Class_branch, Class_bitint_atomic]
      | _ \<Rightarrow> True)"
  by (cases "opcode op") (auto simp: op_ok_def)

text \<open>The witnesses build a block that returns the sum of two constants.\<close>

definition sum_edits :: "edit list" where
  "sum_edits =
    [Edit_block True,
     Edit_instr 0 ((op_init OPC_INT_CONST)\<lparr>imm := 2\<rparr>),
     Edit_instr 0 ((op_init OPC_INT_CONST)\<lparr>imm := 3\<rparr>),
     Edit_instr 0 ((op_init (OPC_INT INT_ADD W64))\<lparr>refs := [Some 0, Some 1, None, None]\<rparr>),
     Edit_instr 0 ((op_init OPC_INT_CONST)\<lparr>imm := 5\<rparr>),
     Edit_instr 0 ((op_init OPC_RETURN)\<lparr>refs := [Some 2, None, None, None]\<rparr>),
     Edit_add_control 0 4, Edit_insert_control 0 None 3, Edit_drop_control 0 3]"

definition sum_code :: opt_code where
  "sum_code = (case perform_all sum_edits kefir_opt_code_container_init of
     Inl _ \<Rightarrow> kefir_opt_code_container_init | Inr c \<Rightarrow> c)"

definition sum_listing :: listing where
  "sum_listing = fold spec_edit sum_edits no_listing"

lemma sum_edits_legal: "legal sum_edits kefir_opt_code_container_init no_listing"
  by code_simp

lemma sum_edits_run: "perform_all sum_edits kefir_opt_code_container_init = Inr sum_code"
  using perform_all_ok [OF represents_init sum_edits_legal] by (auto simp: sum_code_def)

lemma sum_represents: "represents sum_code sum_listing"
  using perform_all_ok [OF represents_init sum_edits_legal] sum_edits_run by (simp add: sum_listing_def)

text \<open>
  C31. Every legal sequence of edits of an empty container succeeds, and walking a block of the result
  from its head, along the siblings or along the control flow, yields the instructions in the order the
  specification on lists gives: new instructions and control instructions at the end, an inserted one
  after its predecessor, a dropped one gone.
\<close>

theorem opt_edits_refine_listing:
  assumes "legal es kefir_opt_code_container_init no_listing"
  defines "s \<equiv> fold spec_edit es no_listing"
  shows "\<exists>c. perform_all es kefir_opt_code_container_init = Inr c \<and> length (blocks c) = n_blocks s \<and>
    (\<forall>b < n_blocks s. block_listing c b = Inr (contents s b) \<and> control_listing c b = Inr (ordered s b))"
proof -
  obtain c where c: "perform_all es kefir_opt_code_container_init = Inr c" "represents c s"
    using perform_all_ok [OF represents_init assms(1)] by (auto simp: s_def)
  then show ?thesis
    using listing_ok [of c "contents s" "ordered s"] by (auto simp: represents_def has_block_def)
qed

theorem opt_edits_refine_listing_witness:
  "\<exists>c. perform_all sum_edits kefir_opt_code_container_init = Inr c \<and>
     block_listing c 0 = Inr [0, 1, 2, 3, 4] \<and> control_listing c 0 = Inr [4]"
proof -
  have "n_blocks (fold spec_edit sum_edits no_listing) = 1"
      "contents (fold spec_edit sum_edits no_listing) 0 = [0, 1, 2, 3, 4]"
      "ordered (fold spec_edit sum_edits no_listing) 0 = [4]"
    by code_simp+
  then show ?thesis
    using opt_edits_refine_listing [OF sum_edits_legal] by fastforce
qed

text \<open>
  C32. After every legal sequence of edits the set of users of an instruction holds exactly the
  instructions of the code that have it as an input, in ascending order, and no instruction has a
  dropped input.
\<close>

theorem opt_edits_users_exact:
  assumes "legal es kefir_opt_code_container_init no_listing"
    and "perform_all es kefir_opt_code_container_init = Inr c" and "live c i"
  shows "sorted (uses (code c ! i)) \<and> distinct (uses (code c ! i)) \<and>
    (\<forall>u. u \<in> set (uses (code c ! i)) \<longleftrightarrow> live c u \<and>
       (\<exists>rs. kefir_opt_instruction_extract_inputs c (code c ! u) False = Inr rs \<and> Some i \<in> set rs)) \<and>
    (\<exists>rs. kefir_opt_instruction_extract_inputs c (code c ! i) False = Inr rs \<and> (\<forall>j. Some j \<in> set rs \<longrightarrow> live c j))"
proof -
  have "inputs_ok c" "uses_ok c"
    using perform_all_ok [OF represents_init assms(1)] assms(2) by (auto simp: represents_def code_ok_def)
  then show ?thesis
    using assms(3) unfolding inputs_ok_def uses_ok_def has_input_def inputs_def by blast
qed

theorem opt_edits_users_exact_witness:
  "uses (code sum_code ! 0) = [2] \<and> live sum_code 2 \<and>
     (\<exists>rs. kefir_opt_instruction_extract_inputs sum_code (code sum_code ! 2) False = Inr rs \<and> Some 0 \<in> set rs)"
proof -
  have l: "live sum_code 0" and u: "uses (code sum_code ! 0) = [2]" by code_simp+
  show ?thesis
    using opt_edits_users_exact [OF sum_edits_legal sum_edits_run l] u by auto
qed

text \<open>
  C33. Replacing an instruction by another one in a well-formed container succeeds, substitutes the
  operand in every instruction and changes nothing else in the operands, leaves the replaced
  instruction without users, and keeps the container well-formed with the same blocks.
\<close>

theorem opt_replace_references_substitutes:
  assumes "represents c s" and "live c t" "live c f" "t \<noteq> f"
  shows "\<exists>c'. kefir_opt_code_container_replace_references c (Some t) (Some f) = Inr c' \<and> represents c' s \<and>
    uses (code c' ! f) = [] \<and>
    (\<forall>u rs. live c u \<longrightarrow> kefir_opt_instruction_extract_inputs c (code c ! u) False = Inr rs \<longrightarrow>
       live c' u \<and> kefir_opt_instruction_extract_inputs c' (code c' ! u) False = Inr (map (REPLACE_REF (Some t) (Some f)) rs))"
proof -
  have ok: "code_ok c (contents s) (ordered s)" using assms(1) by (simp add: represents_def)
  obtain c' where "kefir_opt_code_container_replace_references c (Some t) (Some f) = Inr c'" "represents c' s"
    using perform_ok [of c s "Edit_replace t f"] assms by auto
  then show ?thesis
    using replace_references_ok [OF ok assms(2-4)] skeleton_live unfolding inputs_def by auto
qed

theorem opt_replace_references_substitutes_witness:
  "\<exists>c'. kefir_opt_code_container_replace_references sum_code (Some 3) (Some 2) = Inr c' \<and> uses (code c' ! 2) = [] \<and>
     kefir_opt_instruction_extract_inputs c' (code c' ! 4) False = Inr [Some 3]"
proof -
  have l: "live sum_code 3" "live sum_code 2" "live sum_code 4"
    and i: "kefir_opt_instruction_extract_inputs sum_code (code sum_code ! 4) False = Inr [Some 2]"
    by code_simp+
  show ?thesis
    using opt_replace_references_substitutes [OF sum_represents l(1,2)] l(3) i by (fastforce simp: REPLACE_REF_def)
qed

text \<open>
  C34. An instruction of a well-formed container whose node is complete: if it is a call, all its arguments are
  set, if it is a phi, all its links have a value. While it has users or is ordered in the control flow of
  its block it is not dropped: the operation fails with an invalid request. Otherwise it is dropped, and the container
  stays well-formed without it.
\<close>

theorem opt_drop_instr_outcome:
  assumes "represents c s" and "b < n_blocks s" "i \<in> set (contents s b)" and "node_complete c i"
  shows "if uses (code c ! i) \<noteq> [] \<or> i \<in> set (ordered s b)
    then kefir_opt_code_container_drop_instr c (Some i) = Inl KEFIR_INVALID_REQUEST
    else \<exists>c'. kefir_opt_code_container_drop_instr c (Some i) = Inr c' \<and>
      represents c' (s\<lparr>contents := (contents s)(b := removeAll i (contents s b))\<rparr>) \<and>
      (\<forall>j. live c' j \<longleftrightarrow> live c j \<and> j \<noteq> i)"
proof (cases "uses (code c ! i) \<noteq> [] \<or> i \<in> set (ordered s b)")
  case False
  have ok: "code_ok c (contents s) (ordered s)" and n: "length (blocks c) = n_blocks s"
    using assms(1) by (auto simp: represents_def)
  have b: "has_block c b" using assms(2) n by (simp add: has_block_def)
  obtain c' where "kefir_opt_code_container_drop_instr c (Some i) = Inr c'" "\<forall>j. live c' j \<longleftrightarrow> live c j \<and> j \<noteq> i"
    using drop_instr_ok [OF ok b assms(3)] False assms(4) by auto
  then show ?thesis
    using perform_ok [OF assms(1), of "Edit_drop_instr b i"] False assms by auto
next
  case True
  have ok: "code_ok c (contents s) (ordered s)" and n: "length (blocks c) = n_blocks s"
    using assms(1) by (auto simp: represents_def)
  have b: "has_block c b" using assms(2) n by (simp add: has_block_def)
  have lv: "live c i" and ib: "instr_block (code c ! i) = Some b" and id: "instr_id (code c ! i) = i"
    using code_ok_listsD(3,6) [OF ok] b assms(3) by (auto simp: live_def)
  have "control_head (blocks c ! b) = Some i" if "i \<in> set (ordered s b)" "cf_prev (code c ! i) = None" "cf_next (code c ! i) = None"
  proof -
    have ch: "chain (\<lambda>i. cf_prev (code c ! i)) (\<lambda>i. cf_next (code c ! i)) (control_head (blocks c ! b)) (control_tail (blocks c ! b)) (ordered s b)"
      using code_ok_listsD(2) [OF ok b] by (simp add: control.chained_def)
    show ?thesis using chain_isolated [OF ch that] ch by (simp add: chain_def)
  qed
  then show ?thesis
    using True lv b ib id
    by (auto simp: kefir_opt_code_container_drop_instr_def drop_instr_impl_def requireE_def)
qed

theorem opt_drop_instr_outcome_witness:
  "kefir_opt_code_container_drop_instr sum_code (Some 2) = Inl KEFIR_INVALID_REQUEST \<and>
   kefir_opt_code_container_drop_instr sum_code (Some 4) = Inl KEFIR_INVALID_REQUEST \<and>
   (\<exists>c'. kefir_opt_code_container_drop_instr sum_code (Some 3) = Inr c' \<and> \<not> live c' 3)"
proof -
  have s: "n_blocks sum_listing = 1" "contents sum_listing 0 = [0, 1, 2, 3, 4]" "ordered sum_listing 0 = [4]"
    by code_simp+
  have u: "uses (code sum_code ! 2) = [4]" "uses (code sum_code ! 3) = []"
      "node_complete sum_code 2" "node_complete sum_code 3" "node_complete sum_code 4"
    by code_simp+
  show ?thesis
    using opt_drop_instr_outcome [OF sum_represents, of 0 2] opt_drop_instr_outcome [OF sum_represents, of 0 3]
      opt_drop_instr_outcome [OF sum_represents, of 0 4] s u by (auto split: if_splits)
qed

end
