(* ===== verification/Kefir_Opt_Dead.thy ===== *)
theory Kefir_Opt_Dead
  imports Kefir_Opt_Code_Ops
begin

text \<open>
  Dropping a whole block and dropping dead code (\<^verbatim>\<open>source/optimizer/code.c\<close>,
  \<^verbatim>\<open>kefir_opt_code_container_drop_block\<close> and \<^verbatim>\<open>kefir_opt_code_container_drop_dead_code\<close>). Which blocks
  and instructions are dead is told by the functions of a dead code index; they may look at the
  container as it is when they are called.

  The loops along the phi nodes and along the contents of a block follow links that the loop
  itself changes. They carry a bound, the size of the table the links run through, and would
  return \<open>KEFIR_INTERNAL_ERROR\<close>, which none of these functions returns, beyond it.
\<close>

section \<open>Dropping a block\<close>

text \<open>
  The guard of \<^verbatim>\<open>kefir_opt_code_container_drop_block\<close> refuses the users inside the block, although its
  message is about references from outside of it.
\<close>

fun verify_block_uses :: "opt_code \<Rightarrow> nat \<Rightarrow> nat list \<Rightarrow> unit result" where
  "verify_block_uses c b [] = Inr ()"
| "verify_block_uses c b (u # us) =
     bindE (code_container_instr_mutable c (Some u)) (\<lambda>j.
     bindE (requireE (instr_block (code c ! j) \<noteq> Some b) KEFIR_INVALID_REQUEST) (\<lambda>_.
     verify_block_uses c b us))"

fun drop_block_instrs :: "nat \<Rightarrow> nat \<Rightarrow> bool \<Rightarrow> ref \<Rightarrow> opt_code \<Rightarrow> opt_code result" where
  "drop_block_instrs n b verify_uses None c = Inr c"
| "drop_block_instrs 0 b verify_uses (Some i) c = Inl KEFIR_INTERNAL_ERROR"
| "drop_block_instrs (Suc n) b verify_uses (Some i) c =
     bindE (kefir_opt_instruction_next_sibling c (Some i)) (\<lambda>next_ref.
     bindE (code_container_instr_mutable c (Some i)) (\<lambda>j.
     bindE (if verify_uses then verify_block_uses c b (uses (code c ! j)) else Inr ()) (\<lambda>_.
     let c = upd_instr j (\<lambda>x. x\<lparr>uses := []\<rparr>) c in
     bindE (kefir_opt_code_instruction_is_control_flow c (Some i)) (\<lambda>is_control_flow.
     bindE (if is_control_flow then kefir_opt_code_container_drop_control c (Some i) else Inr c) (\<lambda>c.
     bindE (kefir_opt_code_container_drop_instr c (Some i)) (\<lambda>c.
     drop_block_instrs n b verify_uses next_ref c))))))"

definition drop_block_impl :: "opt_code \<Rightarrow> nat \<Rightarrow> bool \<Rightarrow> opt_code result" where
  "drop_block_impl c b verify_uses =
     bindE (code_container_block_mutable c (Some b)) (\<lambda>_.
     bindE (kefir_opt_code_block_instr_head c (Some b)) (\<lambda>r.
     drop_block_instrs (length (code c)) b verify_uses r c))"

definition kefir_opt_code_container_drop_block :: "opt_code \<Rightarrow> nat \<Rightarrow> opt_code result" where
  "kefir_opt_code_container_drop_block c b = drop_block_impl c b True"

section \<open>Dead code\<close>

record dead_code_index =
  is_block_alive :: "opt_code \<Rightarrow> nat \<Rightarrow> bool result"
  is_instruction_alive :: "opt_code \<Rightarrow> nat \<Rightarrow> bool result"
  is_block_predecessor :: "opt_code \<Rightarrow> nat \<Rightarrow> nat \<Rightarrow> bool result"

definition kefir_opt_code_container_phi :: "opt_code \<Rightarrow> ref \<Rightarrow> opt_phi_node result" where
  "kefir_opt_code_container_phi c r = bindE (code_container_phi_mutable c r) (\<lambda>k. Inr (phi_nodes c ! k))"

text \<open>
  First loop: the links of a phi from a block that is dead or not a predecessor of the block of the
  phi are dropped. The next node of the tree of links is taken before the link is dropped, so the
  keys are those of the tree at the start.
\<close>

fun drop_dead_links :: "dead_code_index \<Rightarrow> nat \<Rightarrow> ref \<Rightarrow> nat list \<Rightarrow> opt_code \<Rightarrow> opt_code result" where
  "drop_dead_links index b phi_instr_ref [] c = Inr c"
| "drop_dead_links index b phi_instr_ref (l # ls) c =
     bindE (is_block_alive index c l) (\<lambda>reachable.
     bindE (is_block_predecessor index c l b) (\<lambda>predecessor.
     bindE (if \<not> reachable \<or> \<not> predecessor
            then kefir_opt_code_container_phi_drop_link c phi_instr_ref l else Inr c) (\<lambda>c.
     drop_dead_links index b phi_instr_ref ls c)))"

fun drop_dead_phi_links :: "nat \<Rightarrow> dead_code_index \<Rightarrow> nat \<Rightarrow> ref \<Rightarrow> opt_code \<Rightarrow> opt_code result" where
  "drop_dead_phi_links n index b None c = Inr c"
| "drop_dead_phi_links 0 index b (Some i) c = Inl KEFIR_INTERNAL_ERROR"
| "drop_dead_phi_links (Suc n) index b (Some i) c =
     bindE (kefir_opt_code_container_instr c (Some i)) (\<lambda>phi_instr.
     bindE (kefir_opt_code_container_phi c (phi_ref (operation phi_instr))) (\<lambda>phi_node.
     bindE (drop_dead_links index b (Some i) (map fst (links phi_node)) c) (\<lambda>c.
     bindE (kefir_opt_phi_next_sibling c (Some i)) (\<lambda>next_ref.
     drop_dead_phi_links n index b next_ref c))))"

fun drop_dead_block_links :: "dead_code_index \<Rightarrow> nat list \<Rightarrow> opt_code \<Rightarrow> opt_code result" where
  "drop_dead_block_links index [] c = Inr c"
| "drop_dead_block_links index (b # bs) c =
     bindE (code_container_block_mutable c (Some b)) (\<lambda>_.
     bindE (kefir_opt_code_block_phi_head c (Some b)) (\<lambda>r.
     bindE (drop_dead_phi_links (length (phi_nodes c)) index b r c) (\<lambda>c.
     drop_dead_block_links index bs c)))"

text \<open>Second loop: the dead blocks, none of whose instructions may have a user that is alive.\<close>

fun verify_dead_users :: "dead_code_index \<Rightarrow> opt_code \<Rightarrow> nat list \<Rightarrow> unit result" where
  "verify_dead_users index c [] = Inr ()"
| "verify_dead_users index c (u # us) =
     bindE (is_instruction_alive index c u) (\<lambda>use_alive.
     bindE (requireE (\<not> use_alive) KEFIR_INVALID_STATE) (\<lambda>_.
     verify_dead_users index c us))"

definition verify_dead_uses :: "opt_code \<Rightarrow> dead_code_index \<Rightarrow> ref \<Rightarrow> unit result" where
  "verify_dead_uses c index r =
     bindE (code_container_instr_mutable c r) (\<lambda>i. verify_dead_users index c (uses (code c ! i)))"

fun verify_dead_instrs :: "nat \<Rightarrow> opt_code \<Rightarrow> dead_code_index \<Rightarrow> ref \<Rightarrow> unit result" where
  "verify_dead_instrs n c index None = Inr ()"
| "verify_dead_instrs 0 c index (Some i) = Inl KEFIR_INTERNAL_ERROR"
| "verify_dead_instrs (Suc n) c index (Some i) =
     bindE (verify_dead_uses c index (Some i)) (\<lambda>_.
     bindE (kefir_opt_instruction_next_sibling c (Some i)) (\<lambda>r.
     verify_dead_instrs n c index r))"

definition verify_dead_block :: "opt_code \<Rightarrow> dead_code_index \<Rightarrow> nat \<Rightarrow> unit result" where
  "verify_dead_block c index b =
     bindE (kefir_opt_code_block_instr_head c (Some (block_key (blocks c ! b)))) (\<lambda>r.
     verify_dead_instrs (length (code c)) c index r)"

fun drop_dead_blocks :: "dead_code_index \<Rightarrow> nat list \<Rightarrow> opt_code \<Rightarrow> opt_code result" where
  "drop_dead_blocks index [] c = Inr c"
| "drop_dead_blocks index (b # bs) c =
     bindE (code_container_block_mutable c (Some b)) (\<lambda>b'.
     bindE (is_block_alive index c b) (\<lambda>is_alive.
     bindE (if is_alive then Inr c
            else bindE (verify_dead_block c index b') (\<lambda>_. drop_block_impl c b False)) (\<lambda>c.
     drop_dead_blocks index bs c)))"

text \<open>Third loop: the dead instructions of the blocks that are left.\<close>

definition drop_dead_instr :: "dead_code_index \<Rightarrow> nat \<Rightarrow> opt_code \<Rightarrow> opt_code result" where
  "drop_dead_instr index i c =
     (if instr_block (code c ! i) = KEFIR_ID_NONE then Inr c
      else bindE (is_instruction_alive index c i) (\<lambda>is_alive.
           if is_alive then Inr c
           else bindE (verify_dead_uses c index (Some i)) (\<lambda>_.
                bindE (kefir_opt_code_instruction_is_control_flow c (Some i)) (\<lambda>is_control_flow.
                bindE (if is_control_flow then kefir_opt_code_container_drop_control c (Some i) else Inr c) (\<lambda>c.
                drop_instr_impl c (Some i) False)))))"

fun drop_dead_instrs :: "dead_code_index \<Rightarrow> nat list \<Rightarrow> opt_code \<Rightarrow> opt_code result" where
  "drop_dead_instrs index [] c = Inr c"
| "drop_dead_instrs index (i # is) c = bindE (drop_dead_instr index i c) (\<lambda>c. drop_dead_instrs index is c)"

definition kefir_opt_code_container_drop_dead_code :: "opt_code \<Rightarrow> dead_code_index \<Rightarrow> opt_code result" where
  "kefir_opt_code_container_drop_dead_code c index =
     bindE (drop_dead_block_links index [0..<length (blocks c)] c) (\<lambda>c.
     bindE (drop_dead_blocks index [0..<length (blocks c)] c) (\<lambda>c.
     drop_dead_instrs index [0..<length (code c)] c))"

end
