(* ===== verification/Kefir_Opt_Dead_Links.thy ===== *)
theory Kefir_Opt_Dead_Links
  imports Kefir_Opt_Code_Props Kefir_Opt_Dead
begin

text \<open>
  The first loop of \<^verbatim>\<open>kefir_opt_code_container_drop_dead_code\<close>: dropping links of phi nodes keeps the
  container well-formed, the users of the values that are no longer linked included.
\<close>

section \<open>Containers that differ in links of phi nodes\<close>

definition relinked :: "opt_code \<Rightarrow> opt_code \<Rightarrow> (nat \<Rightarrow> nat \<Rightarrow> bool) \<Rightarrow> bool" where
  "relinked c c' keep \<longleftrightarrow> length (code c') = length (code c) \<and>
     (\<forall>i. (code c' ! i)\<lparr>uses := []\<rparr> = (code c ! i)\<lparr>uses := []\<rparr>) \<and> blocks c' = blocks c \<and>
     length (phi_nodes c') = length (phi_nodes c) \<and>
     (\<forall>k. (phi_nodes c' ! k)\<lparr>links := [], number_of_links := 0\<rparr> =
          (phi_nodes c ! k)\<lparr>links := [], number_of_links := 0\<rparr>) \<and>
     (\<forall>k < length (phi_nodes c). links (phi_nodes c' ! k) = filter (\<lambda>(b, _). keep k b) (links (phi_nodes c ! k))) \<and>
     call_nodes c' = call_nodes c \<and> inline_assembly c' = inline_assembly c \<and>
     entry_point c' = entry_point c \<and> gate_block c' = gate_block c"

lemma relinked_code:
  assumes "relinked c c' keep"
  shows "instr_id (code c' ! i) = instr_id (code c ! i)" "instr_block (code c' ! i) = instr_block (code c ! i)"
    "operation (code c' ! i) = operation (code c ! i)"
    "sib_prev (code c' ! i) = sib_prev (code c ! i)" "sib_next (code c' ! i) = sib_next (code c ! i)"
    "cf_prev (code c' ! i) = cf_prev (code c ! i)" "cf_next (code c' ! i) = cf_next (code c ! i)"
proof -
  have e: "(code c' ! i)\<lparr>uses := []\<rparr> = (code c ! i)\<lparr>uses := []\<rparr>"
    using assms by (simp add: relinked_def)
  show "instr_id (code c' ! i) = instr_id (code c ! i)" using arg_cong [OF e, of instr_id] by simp
  show "instr_block (code c' ! i) = instr_block (code c ! i)" using arg_cong [OF e, of instr_block] by simp
  show "operation (code c' ! i) = operation (code c ! i)" using arg_cong [OF e, of operation] by simp
  show "sib_prev (code c' ! i) = sib_prev (code c ! i)" using arg_cong [OF e, of sib_prev] by simp
  show "sib_next (code c' ! i) = sib_next (code c ! i)" using arg_cong [OF e, of sib_next] by simp
  show "cf_prev (code c' ! i) = cf_prev (code c ! i)" using arg_cong [OF e, of cf_prev] by simp
  show "cf_next (code c' ! i) = cf_next (code c ! i)" using arg_cong [OF e, of cf_next] by simp
qed

lemma relinked_phi:
  assumes "relinked c c' keep"
  shows "phi_block (phi_nodes c' ! k) = phi_block (phi_nodes c ! k)"
    "phi_output (phi_nodes c' ! k) = phi_output (phi_nodes c ! k)"
    "phi_prev (phi_nodes c' ! k) = phi_prev (phi_nodes c ! k)"
    "phi_next (phi_nodes c' ! k) = phi_next (phi_nodes c ! k)"
proof -
  have e: "(phi_nodes c' ! k)\<lparr>links := [], number_of_links := 0\<rparr> = (phi_nodes c ! k)\<lparr>links := [], number_of_links := 0\<rparr>"
    using assms by (simp add: relinked_def)
  show "phi_block (phi_nodes c' ! k) = phi_block (phi_nodes c ! k)" using arg_cong [OF e, of phi_block] by simp
  show "phi_output (phi_nodes c' ! k) = phi_output (phi_nodes c ! k)" using arg_cong [OF e, of phi_output] by simp
  show "phi_prev (phi_nodes c' ! k) = phi_prev (phi_nodes c ! k)" using arg_cong [OF e, of phi_prev] by simp
  show "phi_next (phi_nodes c' ! k) = phi_next (phi_nodes c ! k)" using arg_cong [OF e, of phi_next] by simp
qed

lemma relinked_rest:
  assumes "relinked c c' keep"
  shows "length (code c') = length (code c)" "blocks c' = blocks c" "length (phi_nodes c') = length (phi_nodes c)"
    "k < length (phi_nodes c) \<Longrightarrow> links (phi_nodes c' ! k) = filter (\<lambda>(b, _). keep k b) (links (phi_nodes c ! k))"
    "call_nodes c' = call_nodes c" "inline_assembly c' = inline_assembly c"
    "live c' = live c" "has_block c' = has_block c" "live_phi c' = live_phi c" "has_call c' = has_call c" "has_asm c' = has_asm c"
proof -
  show "length (code c') = length (code c)" "blocks c' = blocks c" "length (phi_nodes c') = length (phi_nodes c)"
    "k < length (phi_nodes c) \<Longrightarrow> links (phi_nodes c' ! k) = filter (\<lambda>(b, _). keep k b) (links (phi_nodes c ! k))"
    "call_nodes c' = call_nodes c" "inline_assembly c' = inline_assembly c"
    using assms by (simp_all add: relinked_def)
  then show "live c' = live c" "has_block c' = has_block c" "live_phi c' = live_phi c" "has_call c' = has_call c" "has_asm c' = has_asm c"
    by (simp_all add: live_def has_block_def live_phi_def has_call_def has_asm_def fun_eq_iff relinked_code [OF assms] relinked_phi [OF assms])
qed

lemma relinked_refl: "(\<And>k b. k < length (phi_nodes c) \<Longrightarrow> b \<in> fst ` set (links (phi_nodes c ! k)) \<Longrightarrow> keep k b) \<Longrightarrow> relinked c c keep"
  unfolding relinked_def by (fastforce intro!: filter_True [symmetric])

lemma relinked_trans:
  assumes 1: "relinked c d P" and 2: "relinked d e Q"
  shows "relinked c e (\<lambda>k b. P k b \<and> Q k b)"
proof -
  have "filter (\<lambda>(b, _). Q k b) (filter (\<lambda>(b, _). P k b) xs) = filter (\<lambda>(b, _). P k b \<and> Q k b) xs"
    for k and xs :: "(nat \<times> ref) list"
    by (auto intro!: filter_cong)
  then show ?thesis using 1 2 by (simp add: relinked_def)
qed

lemma relinked_cong:
  assumes r: "relinked c d P"
    and eq: "\<And>k b. k < length (phi_nodes c) \<Longrightarrow> b \<in> fst ` set (links (phi_nodes c ! k)) \<Longrightarrow> P k b = Q k b"
  shows "relinked c d Q"
proof -
  have "filter (\<lambda>(b, _). P k b) (links (phi_nodes c ! k)) = filter (\<lambda>(b, _). Q k b) (links (phi_nodes c ! k))"
    if "k < length (phi_nodes c)" for k
    using eq [OF that] by (intro filter_cong) force+
  then show ?thesis using r by (simp add: relinked_def)
qed

lemma relinked_structure:
  assumes r: "relinked c c' keep"
  shows "lists_ok c' L C = lists_ok c L C" "phis_ok c \<Longrightarrow> phis_ok c'" "calls_ok c' = calls_ok c" "asms_ok c' = asms_ok c"
proof -
  note f = relinked_code [OF r] relinked_phi [OF r] relinked_rest [OF r]
  show "lists_ok c' L C = lists_ok c L C" "calls_ok c' = calls_ok c" "asms_ok c' = asms_ok c"
    by (simp_all add: lists_ok_def calls_ok_def asms_ok_def f content.chained_def control.chained_def call.chained_def asm.chained_def)
  have "distinct (map fst (filter (\<lambda>(b, _). keep k b) xs))" if "distinct (map fst xs)" for k and xs :: "(nat \<times> ref) list"
    using that by (induction xs) (auto simp: image_iff)
  then show "phis_ok c'" if "phis_ok c"
    using that by (simp add: phis_ok_def f phi.chained_def)
qed

lemma relinked_complete:
  assumes r: "relinked c c' keep" and ok: "phis_ok c" and i: "live c i" "node_complete c i"
  shows "node_complete c' i"
proof -
  have "links (phi_nodes c' ! k) = filter (\<lambda>(b, _). keep k b) (links (phi_nodes c ! k))" if "live_phi c k" for k
    using relinked_rest(4) [OF r] that by (simp add: live_phi_def)
  then show ?thesis
    using i phis_okD(1) [OF ok i(1)] unfolding node_complete_def relinked_code(3) [OF r] relinked_rest(5) [OF r]
    by (auto simp: Let_def; force)
qed

section \<open>Inputs\<close>

lemma relinked_inputs:
  assumes r: "relinked c c' keep" and ok: "code_ok c L C" and u: "live c u"
  shows "opcode (operation (code c ! u)) \<noteq> OPC_PHI \<Longrightarrow> inputs c' u = inputs c u"
    "opcode (operation (code c ! u)) = OPC_PHI \<Longrightarrow> phi_ref (operation (code c ! u)) = Some k \<Longrightarrow>
      inputs c' u = Inr (filter (\<lambda>r. r \<noteq> None) (map snd (filter (\<lambda>(b, _). keep k b) (links (phi_nodes c ! k)))))"
proof -
  note f = relinked_code [OF r] relinked_rest [OF r]
  have parts: "phis_ok c" "calls_ok c" "asms_ok c" "inputs_ok c" using ok by (auto simp: code_ok_def)
  have id: "instr_id (code c ! u) = u" using code_ok_listsD(6) [OF ok] u by (simp add: live_def)
  show "inputs c' u = inputs c u" if "opcode (operation (code c ! u)) \<noteq> OPC_PHI"
    by (rule inputs_at) (use that u id parts inputs_okD(1) [OF parts(4) u] calls_okD(1) [OF parts(2) u] asms_okD(1) [OF parts(3) u] in \<open>auto simp: f\<close>)
  show "inputs c' u = Inr (filter (\<lambda>r. r \<noteq> None) (map snd (filter (\<lambda>(b, _). keep k b) (links (phi_nodes c ! k)))))"
    if o: "opcode (operation (code c ! u)) = OPC_PHI" "phi_ref (operation (code c ! u)) = Some k"
  proof -
    have "live_phi c k" using phis_okD(1) [OF parts(1) u o(1)] o(2) by auto
    then show ?thesis
      using inputs_phi [of c' u k] u id o relinked_rest(4) [OF r, of k] by (simp add: f live_phi_def)
  qed
qed

lemma relinked_inputs_ok:
  assumes r: "relinked c c' keep" and ok: "code_ok c L C"
  shows "inputs_ok c'"
  unfolding inputs_ok_def
proof (intro allI impI)
  have parts: "phis_ok c" "inputs_ok c" using ok by (auto simp: code_ok_def)
  fix u assume "live c' u"
  then have u: "live c u" using relinked_rest(7) [OF r] by simp
  have "\<exists>rs. inputs c' u = Inr rs \<and> (\<forall>i. Some i \<in> set rs \<longrightarrow> live c' i)"
  proof (cases "opcode (operation (code c ! u)) = OPC_PHI")
    case False
    then show ?thesis
      using relinked_inputs(1) [OF r ok u] parts(2) u relinked_rest(7) [OF r] by (auto simp: inputs_ok_def)
  next
    case True
    then obtain k where k: "phi_ref (operation (code c ! u)) = Some k" "live_phi c k"
      using phis_okD(1) [OF parts(1) u] by blast
    have id: "instr_id (code c ! u) = u" using code_ok_listsD(6) [OF ok] u by (simp add: live_def)
    have "live c i" if "Some i \<in> snd ` set (links (phi_nodes c ! k))" for i
      using inputs_okD(3) [OF parts(2) u, of i] inputs_phi [OF u id True k] that by (auto simp: has_input_def)
    then show ?thesis
      using relinked_inputs(2) [OF r ok u True k(1)] relinked_rest(7) [OF r] by force
  qed
  then show "op_ok (operation (code c' ! u)) \<and> (\<exists>rs. inputs c' u = Inr rs \<and> (\<forall>i. Some i \<in> set rs \<longrightarrow> live c' i))"
    using inputs_okD(1) [OF parts(2) u] relinked_code(3) [OF r] by simp
qed

section \<open>Dropping one link\<close>

lemma map_of_filter_out:
  assumes "distinct (map fst xs)" "map_of xs b = Some v"
  shows "set xs = insert (b, v) (set (filter (\<lambda>(b', _). b' \<noteq> b) xs))"
proof -
  have u: "(b, v') \<in> set xs \<longleftrightarrow> v' = v" for v'
    using map_of_is_SomeI [OF assms(1), of b v'] assms(2) map_of_SomeD [OF assms(2)] by auto
  show ?thesis
  proof (rule set_eqI)
    fix p show "p \<in> set xs \<longleftrightarrow> p \<in> insert (b, v) (set (filter (\<lambda>(b', _). b' \<noteq> b) xs))"
      using u by (cases p; cases "fst p = b") simp_all
  qed
qed

lemma drop_link_uses:
  assumes ok: "code_ok c L C" and r: "relinked c c' keep"
    and i: "live c i" "opcode (operation (code c ! i)) = OPC_PHI" "phi_ref (operation (code c ! i)) = Some k"
    and keep: "\<And>m b'. m \<noteq> k \<Longrightarrow> keep m b'"
    and us: "\<And>m. live c m \<Longrightarrow> uses (code c' ! m) =
      (if has_input c i m \<and> Some m \<notin> snd ` set (links (phi_nodes c' ! k)) then uses_delete i (uses (code c ! m)) else uses (code c ! m))"
  shows "uses_ok c'"
proof -
  have parts: "phis_ok c" "uses_ok c" "inputs_ok c" using ok by (auto simp: code_ok_def)
  have k: "live_phi c k" "phi_output (phi_nodes c ! k) = Some i" using phis_okD(1) [OF parts(1) i(1,2)] i(3) by auto
  then have kl: "k < length (phi_nodes c)" by (simp add: live_phi_def)
  have id: "instr_id (code c ! u) = u" if "live c u" for u using code_ok_listsD(6) [OF ok] that by (simp add: live_def)
  have other: "has_input c' u m = has_input c u m" if u: "live c u" "u \<noteq> i" for u m
  proof (cases "opcode (operation (code c ! u)) = OPC_PHI")
    case False
    then show ?thesis using relinked_inputs(1) [OF r ok u(1)] by (simp add: has_input_def)
  next
    case True
    then obtain n where n: "phi_ref (operation (code c ! u)) = Some n" "live_phi c n" "phi_output (phi_nodes c ! n) = Some u"
      using phis_okD(1) [OF parts(1) u(1)] by blast
    then have "n \<noteq> k" using k(2) u(2) by auto
    then have "filter (\<lambda>(b, _). keep n b) (links (phi_nodes c ! n)) = links (phi_nodes c ! n)"
      using keep by (intro filter_True) auto
    then show ?thesis
      using relinked_inputs(2) [OF r ok u(1) True n(1)] inputs_phi [OF u(1) id [OF u(1)] True n(1,2)] by (simp add: has_input_def)
  qed
  have own: "has_input c' i m \<longleftrightarrow> Some m \<in> snd ` set (links (phi_nodes c' ! k))"
      "has_input c i m \<longleftrightarrow> Some m \<in> snd ` set (links (phi_nodes c ! k))" for m
    using relinked_inputs(2) [OF r ok i] inputs_phi [OF i(1) id [OF i(1)] i(2,3) k(1)] relinked_rest(4) [OF r kl]
    by (auto simp: has_input_def)
  have sub: "has_input c' i m \<Longrightarrow> has_input c i m" for m
    using relinked_rest(4) [OF r kl] by (auto simp: own)
  show ?thesis
    unfolding uses_ok_def relinked_rest(7) [OF r]
  proof (intro allI impI)
    fix m assume m: "live c m"
    have um: "sorted (uses (code c ! m))" "distinct (uses (code c ! m))"
        "\<And>u. u \<in> set (uses (code c ! m)) \<longleftrightarrow> live c u \<and> has_input c u m"
      using parts(2) m by (auto simp: uses_ok_def)
    have "u \<in> set (uses (code c' ! m)) \<longleftrightarrow> live c u \<and> has_input c' u m" for u
      using us [OF m] um(3) [of u] other [of u m] i(1) sub [of m] own(1) [of m] by (cases "u = i") auto
    then show "sorted (uses (code c' ! m)) \<and> distinct (uses (code c' ! m)) \<and>
        (\<forall>u. (u \<in> set (uses (code c' ! m))) = (live c u \<and> has_input c' u m))"
      using us [OF m] um uses_delete_order by auto
  qed
qed

lemma phi_drop_link_ok:
  assumes ok: "code_ok c L C" and i: "live c i" "opcode (operation (code c ! i)) = OPC_PHI"
    "phi_ref (operation (code c ! i)) = Some k" and nc: "node_complete c i"
  shows "\<exists>c'. kefir_opt_code_container_phi_drop_link c (Some i) b = Inr c' \<and> code_ok c' L C \<and>
    relinked c c' (\<lambda>m b'. m = k \<longrightarrow> b' \<noteq> b)"
proof -
  let ?keep = "\<lambda>m b'. m = k \<longrightarrow> b' \<noteq> b"
  let ?rest = "filter (\<lambda>(b', _). b' \<noteq> b) (links (phi_nodes c ! k))"
  have parts: "phis_ok c" "inputs_ok c" using ok by (auto simp: code_ok_def)
  have k: "live_phi c k" using phis_okD(1) [OF parts(1) i(1,2)] i(3) by auto
  then have kl: "k < length (phi_nodes c)" by (simp add: live_phi_def)
  have id: "instr_id (code c ! i) = i" using code_ok_listsD(6) [OF ok] i(1) by (simp add: live_def)
  have own: "has_input c i m \<longleftrightarrow> Some m \<in> snd ` set (links (phi_nodes c ! k))" for m
    using inputs_phi [OF i(1) id i(2,3) k] by (auto simp: has_input_def)
  have fin: "code_ok c' L C" if r: "relinked c c' ?keep"
      and us: "\<And>m. live c m \<Longrightarrow> uses (code c' ! m) =
        (if has_input c i m \<and> Some m \<notin> snd ` set ?rest then uses_delete i (uses (code c ! m)) else uses (code c ! m))" for c'
  proof -
    have "links (phi_nodes c' ! k) = ?rest" using relinked_rest(4) [OF r kl] by simp
    then have "uses_ok c'" using us by (intro drop_link_uses [OF ok r i]) auto
    then show ?thesis
      using ok relinked_structure [OF r] relinked_inputs_ok [OF r ok] by (simp add: code_ok_def)
  qed
  have at: "phi_of_instr c (Some i) = Inr k" using i k by (simp add: phi_of_instr_def)
  show ?thesis
  proof (cases "map_of (links (phi_nodes c ! k)) b")
    case None
    then have "relinked c c ?keep"
      by (intro relinked_refl) (auto simp: map_of_eq_None_iff)
    moreover have "kefir_opt_code_container_phi_drop_link c (Some i) b = Inr c"
      using at None by (simp add: kefir_opt_code_container_phi_drop_link_def)
    ultimately show ?thesis using ok by blast
  next
    case (Some link)
    note lk = map_of_filter_out [OF phis_okD(3) [OF parts(1) kl] Some]
    have "link \<noteq> None" using nc i(2,3) map_of_SomeD [OF Some] by (force simp: node_complete_def)
    then obtain j where j: "link = Some j" by blast
    have "Some j \<in> snd ` set (links (phi_nodes c ! k))" using map_of_SomeD [OF Some] j by force
    then have lj: "live c j" using own inputs_okD(3) [OF parts(2) i(1)] by blast
    have hi: "has_input c i m \<longleftrightarrow> m = j \<or> Some m \<in> snd ` set ?rest" for m
      unfolding own lk j by auto
    define c1 where "c1 = upd_phi k (\<lambda>x. x\<lparr>links := ?rest, number_of_links := number_of_links x - 1\<rparr>) c"
    have r1: "relinked c c1 ?keep"
      unfolding relinked_def c1_def
      by (auto simp: nth_update intro!: filter_True [symmetric] filter_cong)
    have run: "kefir_opt_code_container_phi_drop_link c (Some i) b =
        (if Some j \<in> snd ` set ?rest then Inr c1 else remove_used_instructions c1 i (Some j))"
      using at Some j by (simp add: kefir_opt_code_container_phi_drop_link_def c1_def Let_def)
    show ?thesis
    proof (cases "Some j \<in> snd ` set ?rest")
      case True
      then have "code_ok c1 L C" using hi by (intro fin [OF r1]) (auto simp: c1_def)
      then show ?thesis using run r1 True by auto
    next
      case False
      have "live c1 j" using lj relinked_rest(7) [OF r1] by simp
      from remove_used_eq [OF this, of i] obtain c' where c': "remove_used_instructions c1 i (Some j) = Inr c'" "uses_only c1 c'"
          "\<And>m. uses (code c' ! m) = (if m = j then uses_delete i (uses (code c1 ! m)) else uses (code c1 ! m))"
        by blast
      have r': "relinked c c' ?keep"
        using r1 c'(2) by (simp add: relinked_def uses_only_def)
      have "code_ok c' L C" using hi False by (intro fin [OF r']) (auto simp: c'(3) c1_def)
      then show ?thesis using run r' c'(1) False by auto
    qed
  qed
qed

section \<open>The loop\<close>

text \<open>
  What the code relies on: the nodes are complete, and links name blocks. The index answers for
  the blocks of the container and for the instructions that are still in their block.
\<close>

definition dead_ready :: "opt_code \<Rightarrow> bool" where
  "dead_ready c \<longleftrightarrow> (\<forall>i. live c i \<longrightarrow> node_complete c i) \<and>
     (\<forall>k. live_phi c k \<longrightarrow> (\<forall>b \<in> fst ` set (links (phi_nodes c ! k)). has_block c b))"

definition index_reads ::
    "dead_code_index \<Rightarrow> opt_code \<Rightarrow> (nat \<Rightarrow> bool) \<Rightarrow> (nat \<Rightarrow> bool) \<Rightarrow> (nat \<Rightarrow> nat \<Rightarrow> bool) \<Rightarrow> bool" where
  "index_reads index c block_alive alive pred \<longleftrightarrow> (\<forall>d. length (blocks d) = length (blocks c) \<longrightarrow>
     (\<forall>b. has_block c b \<longrightarrow> is_block_alive index d b = Inr (block_alive b)) \<and>
     (\<forall>b b'. has_block c b \<longrightarrow> has_block c b' \<longrightarrow> is_block_predecessor index d b b' = Inr (pred b b')) \<and>
     (\<forall>i. live d i \<longrightarrow> live c i \<longrightarrow> instr_block (code d ! i) = instr_block (code c ! i) \<longrightarrow>
        is_instruction_alive index d i = Inr (alive i)))"

lemma relinked_ready:
  assumes r: "relinked c c' keep" and ok: "code_ok c L C" and d: "dead_ready c"
  shows "dead_ready c'"
proof -
  have p: "phis_ok c" using ok by (simp add: code_ok_def)
  have "has_block c b" if "live_phi c k" "b \<in> fst ` set (links (phi_nodes c' ! k))" for k b
  proof -
    have "fst ` set (links (phi_nodes c' ! k)) \<subseteq> fst ` set (links (phi_nodes c ! k))"
      using that(1) relinked_rest(4) [OF r, of k] by (auto simp: live_phi_def)
    then show ?thesis using that d unfolding dead_ready_def by blast
  qed
  then show ?thesis
    using relinked_complete [OF r p] d unfolding dead_ready_def relinked_rest(7-9) [OF r] by blast
qed

lemma index_reads_relinked:
  assumes "index_reads index c BA IA PR" "relinked c c' keep"
  shows "index_reads index c' BA IA PR"
  using assms unfolding index_reads_def
  by (simp add: relinked_rest(2,7,8) [OF assms(2)] relinked_code(2) [OF assms(2)])

lemma drop_dead_links_ok:
  assumes "code_ok c L C" "dead_ready c" "index_reads index c BA IA PR" "has_block c b"
    "live c i" "opcode (operation (code c ! i)) = OPC_PHI" "phi_ref (operation (code c ! i)) = Some k"
    "\<forall>l \<in> set ls. has_block c l"
  shows "\<exists>c'. drop_dead_links index b (Some i) ls c = Inr c' \<and> code_ok c' L C \<and>
    relinked c c' (\<lambda>m l. m = k \<longrightarrow> l \<in> set ls \<longrightarrow> BA l \<and> PR l b)"
  using assms
proof (induction ls arbitrary: c)
  case Nil
  then show ?case by (auto intro: relinked_refl)
next
  case (Cons l ls)
  have read: "is_block_alive index c l = Inr (BA l)" "is_block_predecessor index c l b = Inr (PR l b)"
    using Cons.prems(3,4,8) by (auto simp: index_reads_def)
  have "\<exists>d. (if \<not> BA l \<or> \<not> PR l b then kefir_opt_code_container_phi_drop_link c (Some i) l else Inr c) = Inr d \<and>
      code_ok d L C \<and> relinked c d (\<lambda>m l'. m = k \<longrightarrow> l' = l \<longrightarrow> BA l \<and> PR l b)"
  proof (cases "BA l \<and> PR l b")
    case True
    then show ?thesis using Cons.prems(1) by (auto intro: relinked_refl)
  next
    case False
    have "node_complete c i" using Cons.prems(2,5) by (simp add: dead_ready_def)
    from phi_drop_link_ok [OF Cons.prems(1,5-7) this, of l] show ?thesis
      using False by (auto intro: relinked_cong)
  qed
  then obtain d where d: "(if \<not> BA l \<or> \<not> PR l b then kefir_opt_code_container_phi_drop_link c (Some i) l else Inr c) = Inr d"
      "code_ok d L C" "relinked c d (\<lambda>m l'. m = k \<longrightarrow> l' = l \<longrightarrow> BA l \<and> PR l b)" by blast
  note f = relinked_rest(7,8) [OF d(3)] relinked_code(3) [OF d(3)]
  have "\<exists>c'. drop_dead_links index b (Some i) ls d = Inr c' \<and> code_ok c' L C \<and>
      relinked d c' (\<lambda>m l. m = k \<longrightarrow> l \<in> set ls \<longrightarrow> BA l \<and> PR l b)"
    by (rule Cons.IH [OF d(2) relinked_ready [OF d(3) Cons.prems(1,2)] index_reads_relinked [OF Cons.prems(3) d(3)]])
       (use Cons.prems in \<open>simp_all add: f\<close>)
  then obtain c' where c': "drop_dead_links index b (Some i) ls d = Inr c'" "code_ok c' L C"
      "relinked d c' (\<lambda>m l. m = k \<longrightarrow> l \<in> set ls \<longrightarrow> BA l \<and> PR l b)" by blast
  have "relinked c c' (\<lambda>m l'. m = k \<longrightarrow> l' \<in> set (l # ls) \<longrightarrow> BA l' \<and> PR l' b)"
    using relinked_trans [OF d(3) c'(3)] by (rule relinked_cong) auto
  then show ?case using c' d(1) read by auto
qed

lemma drop_dead_phi_links_ok:
  assumes "code_ok c L C" "dead_ready c" "index_reads index c BA IA PR" "has_block c b"
    "linked (\<lambda>k. phi_prev (phi_nodes c ! k)) (\<lambda>k. phi_next (phi_nodes c ! k)) p ks None"
    "length ks \<le> n" "\<forall>k \<in> set ks. k < length (phi_nodes c) \<and> phi_block (phi_nodes c ! k) = Some b"
  shows "\<exists>c'. drop_dead_phi_links n index b (case ks of [] \<Rightarrow> None | k # _ \<Rightarrow> phi_output (phi_nodes c ! k)) c = Inr c' \<and>
    code_ok c' L C \<and> relinked c c' (\<lambda>m l. m \<in> set ks \<longrightarrow> BA l \<and> PR l b)"
  using assms
proof (induction ks arbitrary: c n p)
  case Nil
  then show ?case by (auto intro: relinked_refl)
next
  case (Cons k ks)
  obtain m where n: "n = Suc m" using Cons.prems(6) by (cases n) auto
  have phis: "phis_ok c" using Cons.prems(1) by (simp add: code_ok_def)
  have k: "k < length (phi_nodes c)" "phi_block (phi_nodes c ! k) = Some b" using Cons.prems(7) by auto
  obtain i where i: "phi_output (phi_nodes c ! k) = Some i" "live c i" "opcode (operation (code c ! i)) = OPC_PHI"
      "phi_ref (operation (code c ! i)) = Some k"
    using phis_okD(2) [OF phis k] by blast
  have lp: "live_phi c k" using k by (simp add: live_phi_def)
  have "\<forall>l \<in> set (map fst (links (phi_nodes c ! k))). has_block c l"
    using Cons.prems(2) lp by (simp add: dead_ready_def)
  from drop_dead_links_ok [OF Cons.prems(1-4) i(2-4) this]
  obtain d where d: "drop_dead_links index b (Some i) (map fst (links (phi_nodes c ! k))) c = Inr d" "code_ok d L C"
      and r: "relinked c d (\<lambda>m l. m = k \<longrightarrow> l \<in> set (map fst (links (phi_nodes c ! k))) \<longrightarrow> BA l \<and> PR l b)" by blast
  note f = relinked_rest(3,7-9) [OF r] relinked_code(3) [OF r] relinked_phi [OF r]
  have nx: "phi_next (phi_nodes c ! k) = first None ks" using Cons.prems(5) by simp
  have sib: "kefir_opt_phi_next_sibling d (Some i) = Inr (case ks of [] \<Rightarrow> None | k # _ \<Rightarrow> phi_output (phi_nodes d ! k))"
    using i lp nx Cons.prems(7)
    by (cases ks) (auto simp: kefir_opt_phi_next_sibling_def f live_phi_def code_container_phi_mutable_def)
  have "\<exists>c'. drop_dead_phi_links m index b (case ks of [] \<Rightarrow> None | k # _ \<Rightarrow> phi_output (phi_nodes d ! k)) d = Inr c' \<and>
      code_ok c' L C \<and> relinked d c' (\<lambda>m l. m \<in> set ks \<longrightarrow> BA l \<and> PR l b)"
    by (rule Cons.IH [OF d(2) relinked_ready [OF r Cons.prems(1,2)] index_reads_relinked [OF Cons.prems(3) r]])
       (use Cons.prems n in \<open>auto simp: f\<close>)
  then obtain c' where c': "drop_dead_phi_links m index b (case ks of [] \<Rightarrow> None | k # _ \<Rightarrow> phi_output (phi_nodes d ! k)) d = Inr c'"
      "code_ok c' L C" "relinked d c' (\<lambda>m l. m \<in> set ks \<longrightarrow> BA l \<and> PR l b)" by blast
  have "relinked c c' (\<lambda>m l. m \<in> set (k # ks) \<longrightarrow> BA l \<and> PR l b)"
    using relinked_trans [OF r c'(3)] by (rule relinked_cong) auto
  then show ?case
    using c' d(1) sib i lp n by (auto simp: kefir_opt_code_container_instr_def kefir_opt_code_container_phi_def)
qed

lemma drop_dead_block_links_ok:
  assumes "code_ok c L C" "dead_ready c" "index_reads index c BA IA PR" "\<forall>b \<in> set bs. has_block c b"
  shows "\<exists>c'. drop_dead_block_links index bs c = Inr c' \<and> code_ok c' L C \<and>
    relinked c c' (\<lambda>m l. \<forall>b \<in> set bs. phi_block (phi_nodes c ! m) = Some b \<longrightarrow> BA l \<and> PR l b)"
  using assms
proof (induction bs arbitrary: c)
  case Nil
  then show ?case by (auto intro: relinked_refl)
next
  case (Cons b bs)
  have b: "has_block c b" using Cons.prems(4) by simp
  have phis: "phis_ok c" using Cons.prems(1) by (simp add: code_ok_def)
  obtain ks where ks: "phi.chained c b ks" "set ks = {k. k < length (phi_nodes c) \<and> phi_block (phi_nodes c ! k) = Some b}"
    using phis_okD(4) [OF phis b] by blast
  then have ch: "linked (\<lambda>k. phi_prev (phi_nodes c ! k)) (\<lambda>k. phi_next (phi_nodes c ! k)) None ks None"
      "phi_head (blocks c ! b) = first None ks" "distinct ks"
    by (auto simp: phi.chained_def chain_def)
  have "set ks \<subseteq> {..<length (phi_nodes c)}" using ks(2) by auto
  then have len: "length ks \<le> length (phi_nodes c)"
    using ch(3) card_mono [of "{..<length (phi_nodes c)}" "set ks"] distinct_card [of ks] by simp
  have hd: "kefir_opt_code_block_phi_head c (Some b) = Inr (case ks of [] \<Rightarrow> None | k # _ \<Rightarrow> phi_output (phi_nodes c ! k))"
    using b ch(2) ks(2) by (cases ks) (auto simp: kefir_opt_code_block_phi_head_def live_phi_def code_container_phi_mutable_def)
  have "\<forall>k \<in> set ks. k < length (phi_nodes c) \<and> phi_block (phi_nodes c ! k) = Some b" using ks(2) by auto
  from drop_dead_phi_links_ok [OF Cons.prems(1-3) b ch(1) len this]
  obtain d where d: "drop_dead_phi_links (length (phi_nodes c)) index b (case ks of [] \<Rightarrow> None | k # _ \<Rightarrow> phi_output (phi_nodes c ! k)) c = Inr d"
      "code_ok d L C" and r: "relinked c d (\<lambda>m l. m \<in> set ks \<longrightarrow> BA l \<and> PR l b)" by blast
  have "\<exists>c'. drop_dead_block_links index bs d = Inr c' \<and> code_ok c' L C \<and>
      relinked d c' (\<lambda>m l. \<forall>b \<in> set bs. phi_block (phi_nodes d ! m) = Some b \<longrightarrow> BA l \<and> PR l b)"
    by (rule Cons.IH [OF d(2) relinked_ready [OF r Cons.prems(1,2)] index_reads_relinked [OF Cons.prems(3) r]])
       (use Cons.prems in \<open>simp add: relinked_rest [OF r]\<close>)
  then obtain c' where c': "drop_dead_block_links index bs d = Inr c'" "code_ok c' L C"
      "relinked d c' (\<lambda>m l. \<forall>b \<in> set bs. phi_block (phi_nodes c ! m) = Some b \<longrightarrow> BA l \<and> PR l b)"
    unfolding relinked_phi(1) [OF r] by blast
  have "relinked c c' (\<lambda>m l. \<forall>b \<in> set (b # bs). phi_block (phi_nodes c ! m) = Some b \<longrightarrow> BA l \<and> PR l b)"
    using relinked_trans [OF r c'(3)] by (rule relinked_cong) (auto simp: ks(2))
  then show ?case using c' d(1) hd b by auto
qed

end
