(* ===== verification/Kefir_Opt_Dead_Drop.thy ===== *)
theory Kefir_Opt_Dead_Drop
  imports Kefir_Opt_Dead_Links
begin

text \<open>
  The second and the third loop of \<^verbatim>\<open>kefir_opt_code_container_drop_dead_code\<close>. While instructions are
  dropped, an instruction that is dead and not yet dropped may have an input that is gone; the
  instructions that are alive have all of theirs, because the loops refuse to drop an instruction
  with a user that is alive.
\<close>

section \<open>The invariant of the loops\<close>

definition partial_ok :: "nat set \<Rightarrow> opt_code \<Rightarrow> (nat \<Rightarrow> nat list) \<Rightarrow> (nat \<Rightarrow> nat list) \<Rightarrow> bool" where
  "partial_ok A c L C \<longleftrightarrow> lists_ok c L C \<and> phis_ok c \<and> calls_ok c \<and> asms_ok c \<and> inputs_upto A c \<and> uses_ok c \<and>
     (\<forall>i. live c i \<longrightarrow> node_complete c i)"

text \<open>The container has lost the instructions \<open>S\<close>.\<close>

definition culled :: "nat set \<Rightarrow> opt_code \<Rightarrow> opt_code \<Rightarrow> bool" where
  "culled S c c' \<longleftrightarrow> same_size c c' \<and> (\<forall>j. live c' j \<longleftrightarrow> live c j \<and> j \<notin> S) \<and>
     (\<forall>j. live c' j \<longrightarrow> inputs c' j = inputs c j \<and> operation (code c' ! j) = operation (code c ! j) \<and>
        instr_block (code c' ! j) = instr_block (code c ! j))"

definition without :: "nat set \<Rightarrow> (nat \<Rightarrow> nat list) \<Rightarrow> nat \<Rightarrow> nat list" where
  "without S L b = filter (\<lambda>i. i \<notin> S) (L b)"

lemma culled_refl [simp]: "culled {} c c"
  by (simp add: culled_def same_size_def)

lemma culled_trans: "culled S c d \<Longrightarrow> culled T d e \<Longrightarrow> culled (S \<union> T) c e"
  by (auto simp: culled_def same_size_def)

lemma without_without [simp]: "without T (without S L) = without (S \<union> T) L"
  by (auto simp: without_def fun_eq_iff intro: filter_cong)

lemma without_empty [simp]: "without {} L = L"
  by (simp add: without_def fun_eq_iff)

lemma filter_not_in: "filter (\<lambda>j. j \<noteq> i) xs = removeAll i xs"
  by (induction xs) auto

lemma culled_has_block: "culled S c c' \<Longrightarrow> has_block c' = has_block c"
  by (simp add: culled_def same_size_def has_block_def fun_eq_iff)

lemma culled_has_input: "culled S c c' \<Longrightarrow> live c' u \<Longrightarrow> has_input c' u i = has_input c u i"
  by (simp add: culled_def has_input_def)

lemma lists_ok_cong:
  assumes "\<And>b. has_block c b \<Longrightarrow> L b = L' b" "\<And>b. has_block c b \<Longrightarrow> C b = C' b"
  shows "lists_ok c L C = lists_ok c L' C'"
  unfolding lists_ok_def using assms by (simp cong: imp_cong)

lemma same_ops_upto: "same_ops c c' \<Longrightarrow> inputs_upto A c' = inputs_upto A c"
  unfolding inputs_upto_def using same_ops_inputs_defined [of c c'] same_ops_live [of c c'] same_ops_has_input [of c c']
  by (auto simp: live_def)

lemma same_ops_users_but:
  assumes "same_ops c c'" "\<And>j. j < length (code c) \<Longrightarrow> j \<noteq> i \<Longrightarrow> uses (code c' ! j) = uses (code c ! j)"
  shows "users_but i c' = users_but i c"
  unfolding users_but_def same_ops_live [OF assms(1)]
  using assms same_ops_has_input [OF assms(1)] by (metis live_def)

lemma same_ops_complete: "same_ops c c' \<Longrightarrow> i < length (code c) \<Longrightarrow> node_complete c' i = node_complete c i"
  by (simp add: same_ops_def node_complete_def)

section \<open>Dropping one dead instruction\<close>

lemma is_control_flow_eq:
  assumes ls: "lists_ok c L C" and b: "has_block c b" and i: "i \<in> set (L b)"
  shows "kefir_opt_code_instruction_is_control_flow c (Some i) = Inr (i \<in> set (C b))"
proof -
  have lv: "live c i" and ib: "instr_block (code c ! i) = Some b"
    using lists_ok_live [OF ls b i] lists_ok_facts(3) [OF ls b, of i] i by auto
  have ch: "chain (\<lambda>i. cf_prev (code c ! i)) (\<lambda>i. cf_next (code c ! i)) (control_head (blocks c ! b)) (control_tail (blocks c ! b)) (C b)"
    using lists_ok_facts(2) [OF ls b] by (simp add: control.chained_def)
  have "control_head (blocks c ! b) = Some i" if "i \<in> set (C b)" "cf_prev (code c ! i) = None" "cf_next (code c ! i) = None"
    using chain_isolated [OF ch that] ch by (simp add: chain_def)
  moreover have "control_head (blocks c ! b) \<noteq> Some i" if "i \<notin> set (C b)"
    using ch that first_in_set [of "C b" i] by (auto simp: chain_def)
  ultimately have "(control_head (blocks c ! b) = Some i \<or> cf_prev (code c ! i) \<noteq> None \<or> cf_next (code c ! i) \<noteq> None) = (i \<in> set (C b))"
    using lists_ok_facts(5) [OF ls b i] by metis
  then show ?thesis
    using lv ib b unfolding kefir_opt_code_instruction_is_control_flow_def kefir_opt_code_container_instr_def kefir_opt_code_container_block_def
    by simp
qed

text \<open>An instruction of no user that is alive, with its control flow first.\<close>

lemma drop_ordered:
  assumes parts: "lists_ok c L C" "phis_ok c" "calls_ok c" "asms_ok c" "inputs_upto A c" "users_but i c"
    and nc: "\<And>j. live c j \<Longrightarrow> node_complete c j" and i: "live c i"
    and u: "verify \<Longrightarrow> uses (code c ! i) = []" and ni: "\<And>u. u \<in> A \<Longrightarrow> live c u \<Longrightarrow> \<not> has_input c u i"
  shows "\<exists>c'. bindE (kefir_opt_code_instruction_is_control_flow c (Some i)) (\<lambda>cf.
      bindE (if cf then kefir_opt_code_container_drop_control c (Some i) else Inr c) (\<lambda>c.
      drop_instr_impl c (Some i) verify)) = Inr c' \<and>
    partial_ok A c' (without {i} L) (without {i} C) \<and> culled {i} c c'"
proof -
  obtain b where b: "instr_block (code c ! i) = Some b" "has_block c b" "i \<in> set (L b)"
    using i lists_ok_facts(3,8) [OF parts(1)] by (auto simp: live_def)
  note cf = is_control_flow_eq [OF parts(1) b(2,3)]
  obtain d where d: "(if i \<in> set (C b) then kefir_opt_code_container_drop_control c (Some i) else Inr c) = Inr d"
      "lists_ok d L (C(b := removeAll i (C b)))" "cf_only c d"
  proof (cases "i \<in> set (C b)")
    case True
    then show ?thesis using drop_control_lists [OF parts(1) b(2) True] that by auto
  next
    case False
    then have "C(b := removeAll i (C b)) = C" by simp
    moreover have "cf_only c c" by (simp add: cf_only_def)
    ultimately show ?thesis using False parts(1) that by auto
  qed
  note so = cf_only_same_ops [OF d(3)] and fr = cf_only_rest [OF d(3)] and ci = cf_only_instr [OF d(3)]
  have ps: "phis_ok d" "calls_ok d" "asms_ok d" "inputs_upto A d" "users_but i d"
    using parts fr same_ops_upto [OF so] same_ops_users_but [OF so, of i] ci by auto
  have il: "i \<in> set (L b)" "i \<notin> set ((C(b := removeAll i (C b))) b)" "has_block d b"
    using b cf_only_has_block [OF d(3)] by auto
  have ud: "verify \<Longrightarrow> uses (code d ! i) = []" using u ci by simp
  have nid: "\<not> has_input d v i" if "v \<in> A" "live d v" for v
    using ni [OF that(1)] that(2) fr(6) same_ops_has_input [OF so, of v i] by (simp add: live_def)
  have ncd: "node_complete d j" if "live d j" for j
    using nc [of j] that fr(6) same_ops_complete [OF so, of j] by (simp add: live_def)
  have ld: "live d i" using i fr(6) by simp
  from drop_instr_upto [OF d(2) ps il(3,1,2) ud nid ncd [OF ld]]
  obtain c' where c': "drop_instr_impl d (Some i) verify = Inr c'"
      "lists_ok c' (L(b := removeAll i (L b))) (C(b := removeAll i (C b)))" "phis_ok c'" "calls_ok c'" "asms_ok c'"
      "inputs_upto A c'" "uses_ok c'"
      and lv: "\<And>j. live c' j \<longleftrightarrow> live d j \<and> j \<noteq> i"
      and inp: "\<And>j. live d j \<Longrightarrow> j \<noteq> i \<Longrightarrow> inputs c' j = inputs d j \<and> operation (code c' ! j) = operation (code d ! j)"
      and ncc: "\<And>j. live d j \<Longrightarrow> j \<noteq> i \<Longrightarrow> node_complete c' j = node_complete d j"
    by metis
  have sz: "same_size c c'"
    using same_size_drop_impl [OF c'(1)] d(3) by (simp add: same_size_def cf_only_def)
  have hb: "has_block c' = has_block c" using sz by (simp add: same_size_def has_block_def fun_eq_iff)
  have oth: "i \<notin> set (L b')" "i \<notin> set (C b')" if "has_block c b'" "b' \<noteq> b" for b'
    using lists_ok_disjoint [OF parts(1) that(1) b(2) that(2)] b(3) lists_ok_facts(4) [OF parts(1) that(1)] by auto
  have e: "(L(b := removeAll i (L b))) b' = without {i} L b'" "(C(b := removeAll i (C b))) b' = without {i} C b'" if "has_block c' b'" for b'
    using oth [of b'] that unfolding hb by (auto simp: without_def filter_not_in)
  have ls': "lists_ok c' (without {i} L) (without {i} C)"
    using c'(2) lists_ok_cong [of c' "L(b := removeAll i (L b))" "without {i} L" "C(b := removeAll i (C b))" "without {i} C"] e by simp
  have ib: "instr_block (code c' ! j) = instr_block (code c ! j)" if lj: "live c' j" for j
  proof -
    obtain b' where b': "instr_block (code c' ! j) = Some b'" "has_block c' b'" "j \<in> set (without {i} L b')"
      using lj lists_ok_facts(3,8) [OF ls'] by (auto simp: live_def)
    then have "j \<in> set (L b')" by (simp add: without_def)
    then show ?thesis using b' lists_ok_facts(3) [OF parts(1), of b' j] hb by simp
  qed
  have "culled {i} c c'"
    using sz lv inp ib fr(6) same_ops_inputs [OF so] ci by (auto simp: culled_def live_def)
  moreover have "partial_ok A c' (without {i} L) (without {i} C)"
    using ls' c'(3-7) lv ncc ncd by (auto simp: partial_ok_def)
  ultimately show ?thesis using cf d(1) c'(1) by auto
qed

lemma partial_users_but: "uses_ok c \<Longrightarrow> users_but i c"
  by (simp add: uses_ok_def users_but_def)

section \<open>Dropping a dead block\<close>

lemma uses_only_upto: "uses_only c c' \<Longrightarrow> inputs_upto A c' = inputs_upto A c"
  using same_ops_upto uses_only_same_ops by blast

lemma uses_only_culled:
  assumes "uses_only c c'" shows "culled {} c c'"
proof -
  note so = uses_only_same_ops [OF assms]
  have "inputs c' j = inputs c j" if "live c j" for j using same_ops_inputs [OF so] that by (simp add: live_def)
  then show ?thesis
    using uses_only_live [OF assms] uses_only_fields [OF assms] assms by (simp add: culled_def same_size_def uses_only_def)
qed

lemma drop_block_instrs_ok:
  assumes "partial_ok A c L C" "has_block c b" "L b = xs" "length xs \<le> n"
    and "\<And>u i. u \<in> A \<Longrightarrow> live c u \<Longrightarrow> i \<in> set xs \<Longrightarrow> \<not> has_input c u i"
  shows "\<exists>c'. drop_block_instrs n b False (first None xs) c = Inr c' \<and>
    partial_ok A c' (without (set xs) L) (without (set xs) C) \<and> culled (set xs) c c'"
  using assms
proof (induction xs arbitrary: c L C n)
  case Nil
  then show ?case by auto
next
  case (Cons i xs)
  obtain m where n: "n = Suc m" using Cons.prems(4) by (cases n) auto
  note b = Cons.prems(2)
  have parts: "lists_ok c L C" "phis_ok c" "calls_ok c" "asms_ok c" "inputs_upto A c" "uses_ok c"
      and nc: "\<And>j. live c j \<Longrightarrow> node_complete c j"
    using Cons.prems(1) by (auto simp: partial_ok_def)
  have iL: "i \<in> set (L b)" using Cons.prems(3) by simp
  have lv: "live c i" using lists_ok_live [OF parts(1) b iL] .
  have "linked (\<lambda>i. sib_prev (code c ! i)) (\<lambda>i. sib_next (code c ! i)) None (L b) None" "distinct (L b)"
    using lists_ok_facts(1) [OF parts(1) b] by (auto simp: content.chained_def chain_def)
  then have nx: "sib_next (code c ! i) = first None xs" and dist: "i \<notin> set xs" using Cons.prems(3) by auto
  define c0 where "c0 = upd_instr i (\<lambda>x. x\<lparr>uses := []\<rparr>) c"
  have uo: "uses_only c c0" unfolding c0_def by (rule uses_update)
  have u0: "uses (code c0 ! j) = (if j = i then [] else uses (code c ! j))" for j
    using lv by (auto simp: c0_def nth_update live_def)
  note so = uses_only_same_ops [OF uo] and st = uses_only_structure [OF uo]
  have ps: "lists_ok c0 L C" "phis_ok c0" "calls_ok c0" "asms_ok c0" "inputs_upto A c0" "users_but i c0"
    using parts st uses_only_upto [OF uo] same_ops_users_but [OF so, of i] u0 partial_users_but by auto
  have l0: "live c0 = live c" using uses_only_live [OF uo] .
  have nc0: "node_complete c0 j" if "live c0 j" for j
    using nc [of j] that l0 same_ops_complete [OF so, of j] by (simp add: live_def)
  have ni0: "\<not> has_input c0 u i" if "u \<in> A" "live c0 u" for u
    using Cons.prems(5) [of u i] that l0 same_ops_has_input [OF so, of u i] by (simp add: live_def)
  have "live c0 i" "uses (code c0 ! i) = []" using lv l0 u0 by simp_all
  from drop_ordered [OF ps nc0 this ni0, of True]
  obtain d where d: "bindE (kefir_opt_code_instruction_is_control_flow c0 (Some i)) (\<lambda>cf.
      bindE (if cf then kefir_opt_code_container_drop_control c0 (Some i) else Inr c0) (\<lambda>c.
      kefir_opt_code_container_drop_instr c (Some i))) = Inr d"
      "partial_ok A d (without {i} L) (without {i} C)" "culled {i} c0 d"
    unfolding kefir_opt_code_container_drop_instr_def by blast
  have cd: "culled {i} c d" using culled_trans [OF uses_only_culled [OF uo] d(3)] by simp
  have Lb: "without {i} L b = xs" using Cons.prems(3) dist by (simp add: without_def filter_not_in)
  have "\<exists>c'. drop_block_instrs m b False (first None xs) d = Inr c' \<and>
      partial_ok A c' (without (set xs) (without {i} L)) (without (set xs) (without {i} C)) \<and> culled (set xs) d c'"
  proof (rule Cons.IH [OF d(2) _ Lb])
    show "has_block d b" using b culled_has_block [OF cd] by simp
    show "length xs \<le> m" using Cons.prems(4) n by simp
    show "\<not> has_input d u j" if "u \<in> A" "live d u" "j \<in> set xs" for u j
      using that Cons.prems(5) [of u j] culled_has_input [OF cd that(2)] cd by (simp add: culled_def)
  qed
  then obtain c' where c': "drop_block_instrs m b False (first None xs) d = Inr c'"
      "partial_ok A c' (without (set (i # xs)) L) (without (set (i # xs)) C)" "culled (set xs) d c'"
    by auto
  have "culled (set (i # xs)) c c'" using culled_trans [OF cd c'(3)] by simp
  moreover have "drop_block_instrs n b False (first None (i # xs)) c = Inr c'"
  proof -
    obtain cf e where e: "kefir_opt_code_instruction_is_control_flow c0 (Some i) = Inr cf"
        "(if cf then kefir_opt_code_container_drop_control c0 (Some i) else Inr c0) = Inr e"
        "kefir_opt_code_container_drop_instr e (Some i) = Inr d"
      using d(1) unfolding bindE_iffs by blast
    have "kefir_opt_instruction_next_sibling c (Some i) = Inr (first None xs)"
      using lv nx by (simp add: kefir_opt_instruction_next_sibling_def)
    then show ?thesis using e c'(1) lv n by (cases cf) (simp_all add: c0_def [symmetric] Let_def)
  qed
  ultimately show ?case using c'(2) by blast
qed

lemma partial_length:
  assumes "partial_ok A c L C" "has_block c b"
  shows "length (L b) \<le> length (code c)" "content_head (blocks c ! b) = first None (L b)"
    "linked (\<lambda>i. sib_prev (code c ! i)) (\<lambda>i. sib_next (code c ! i)) None (L b) None"
proof -
  have ls: "lists_ok c L C" using assms(1) by (simp add: partial_ok_def)
  then have ch: "chain (\<lambda>i. sib_prev (code c ! i)) (\<lambda>i. sib_next (code c ! i)) (content_head (blocks c ! b)) (content_tail (blocks c ! b)) (L b)"
    using lists_ok_facts(1) [OF ls assms(2)] by (simp add: content.chained_def)
  then show "content_head (blocks c ! b) = first None (L b)"
      "linked (\<lambda>i. sib_prev (code c ! i)) (\<lambda>i. sib_next (code c ! i)) None (L b) None"
    by (auto simp: chain_def)
  have "set (L b) \<subseteq> {..<length (code c)}" using lists_ok_facts(3) [OF ls assms(2)] by auto
  then show "length (L b) \<le> length (code c)"
    using ch card_mono [of "{..<length (code c)}" "set (L b)"] distinct_card [of "L b"] by (simp add: chain_def)
qed

lemma drop_block_impl_ok:
  assumes ok: "partial_ok A c L C" and b: "has_block c b"
    and ni: "\<And>u i. u \<in> A \<Longrightarrow> live c u \<Longrightarrow> i \<in> set (L b) \<Longrightarrow> \<not> has_input c u i"
  shows "\<exists>c'. drop_block_impl c b False = Inr c' \<and>
    partial_ok A c' (without (set (L b)) L) (without (set (L b)) C) \<and> culled (set (L b)) c c'"
  using drop_block_instrs_ok [OF ok b refl partial_length(1) [OF ok b] ni] partial_length(2) [OF ok b] b
  by (simp add: drop_block_impl_def kefir_opt_code_block_instr_head_def)

section \<open>The checks\<close>

text \<open>An instruction that is alive has \<open>i\<close> as an input.\<close>

definition needed :: "(nat \<Rightarrow> bool) \<Rightarrow> opt_code \<Rightarrow> nat \<Rightarrow> bool" where
  "needed alive c i \<longleftrightarrow> (\<exists>u. live c u \<and> alive u \<and> has_input c u i)"

lemma culled_needed:
  assumes "culled S c c'" "\<And>u. live c u \<Longrightarrow> alive u \<Longrightarrow> u \<notin> S"
  shows "needed alive c' i = needed alive c i"
  using assms culled_has_input [OF assms(1)] unfolding needed_def culled_def by blast

lemma verify_dead_users_eq:
  assumes "\<And>u. u \<in> set us \<Longrightarrow> is_instruction_alive index c u = Inr (alive u)"
  shows "verify_dead_users index c us = (if \<exists>u \<in> set us. alive u then Inl KEFIR_INVALID_STATE else Inr ())"
  using assms by (induction us) (auto simp: requireE_def)

lemma verify_dead_uses_eq:
  assumes ok: "partial_ok A c L C" and i: "live c i"
    and read: "\<And>u. live c u \<Longrightarrow> is_instruction_alive index c u = Inr (alive u)"
  shows "verify_dead_uses c index (Some i) = (if needed alive c i then Inl KEFIR_INVALID_STATE else Inr ())"
proof -
  have us: "u \<in> set (uses (code c ! i)) \<longleftrightarrow> live c u \<and> has_input c u i" for u
    using ok i by (auto simp: partial_ok_def uses_ok_def)
  then have "verify_dead_users index c (uses (code c ! i)) =
      (if \<exists>u \<in> set (uses (code c ! i)). alive u then Inl KEFIR_INVALID_STATE else Inr ())"
    using read by (intro verify_dead_users_eq) blast
  moreover have "(\<exists>u \<in> set (uses (code c ! i)). alive u) = needed alive c i"
    using us by (auto simp: needed_def)
  ultimately show ?thesis using i by (simp add: verify_dead_uses_def)
qed

lemma verify_dead_instrs_eq:
  assumes "linked prv (\<lambda>i. sib_next (code c ! i)) p xs None" "length xs \<le> n" "\<And>i. i \<in> set xs \<Longrightarrow> live c i"
    and "\<And>i. i \<in> set xs \<Longrightarrow> verify_dead_uses c index (Some i) = (if P i then Inl KEFIR_INVALID_STATE else Inr ())"
  shows "verify_dead_instrs n c index (first None xs) = (if \<exists>i \<in> set xs. P i then Inl KEFIR_INVALID_STATE else Inr ())"
  using assms
proof (induction xs arbitrary: n p)
  case (Cons x xs)
  then obtain m where n: "n = Suc m" by (cases n) auto
  have "kefir_opt_instruction_next_sibling c (Some x) = Inr (first None xs)"
    using Cons.prems(1,3) by (simp add: kefir_opt_instruction_next_sibling_def)
  moreover have "verify_dead_instrs m c index (first None xs) = (if \<exists>i \<in> set xs. P i then Inl KEFIR_INVALID_STATE else Inr ())"
    using Cons.prems n by (intro Cons.IH [of "Some x"]) auto
  ultimately show ?case using Cons.prems(4) [of x] n by simp
qed simp

lemma verify_dead_block_eq:
  assumes ok: "partial_ok A c L C" and b: "has_block c b"
    and read: "\<And>u. live c u \<Longrightarrow> is_instruction_alive index c u = Inr (alive u)"
  shows "verify_dead_block c index b = (if \<exists>i \<in> set (L b). needed alive c i then Inl KEFIR_INVALID_STATE else Inr ())"
proof -
  have ls: "lists_ok c L C" using ok by (simp add: partial_ok_def)
  have lv: "live c i" if "i \<in> set (L b)" for i using lists_ok_live [OF ls b that] .
  have "verify_dead_instrs (length (code c)) c index (first None (L b)) =
      (if \<exists>i \<in> set (L b). needed alive c i then Inl KEFIR_INVALID_STATE else Inr ())"
    by (rule verify_dead_instrs_eq [OF partial_length(3,1) [OF ok b]])
       (use lv verify_dead_uses_eq [OF ok _ read] in auto)
  then show ?thesis
    using b partial_length(2) [OF ok b] lists_ok_facts(7) [OF ls b]
    by (simp add: verify_dead_block_def kefir_opt_code_block_instr_head_def)
qed

section \<open>The loops\<close>

lemma index_reads_culled:
  assumes "index_reads index c BA alive PR" "culled S c d"
  shows "\<And>b. has_block d b \<Longrightarrow> is_block_alive index d b = Inr (BA b)"
    "\<And>u. live d u \<Longrightarrow> is_instruction_alive index d u = Inr (alive u)" "index_reads index d BA alive PR"
proof -
  have sz: "length (blocks d) = length (blocks c)" "has_block d = has_block c"
    using assms(2) culled_has_block [OF assms(2)] by (auto simp: culled_def same_size_def)
  then show "is_block_alive index d b = Inr (BA b)" if "has_block d b" for b
    using assms(1) that unfolding index_reads_def by simp
  show "is_instruction_alive index d u = Inr (alive u)" if "live d u" for u
    using assms that sz(1) unfolding index_reads_def culled_def by blast
  show "index_reads index d BA alive PR"
    using assms(1) unfolding index_reads_def sz using assms(2) unfolding culled_def by metis
qed

lemma drop_dead_blocks_outcome:
  assumes "partial_ok {u. alive u} c L C" "index_reads index c BA alive PR" "\<forall>b \<in> set bs. has_block c b"
    and "\<And>b i. has_block c b \<Longrightarrow> i \<in> set (L b) \<Longrightarrow> alive i \<Longrightarrow> BA b"
  defines "S \<equiv> {i. \<exists>b \<in> set bs. \<not> BA b \<and> i \<in> set (L b)}"
  shows "if \<exists>i \<in> S. needed alive c i then drop_dead_blocks index bs c = Inl KEFIR_INVALID_STATE
    else \<exists>c'. drop_dead_blocks index bs c = Inr c' \<and> partial_ok {u. alive u} c' (without S L) (without S C) \<and> culled S c c'"
  using assms(1-4) unfolding S_def
proof (induction bs arbitrary: c L C)
  case Nil
  then show ?case by simp
next
  case (Cons b bs)
  have b: "has_block c b" using Cons.prems(3) by simp
  note read = index_reads_culled [OF Cons.prems(2) culled_refl]
  show ?case
  proof (cases "BA b")
    case True
    then have "drop_dead_blocks index (b # bs) c = drop_dead_blocks index bs c" using b read(1) by simp
    then show ?thesis using Cons.IH [OF Cons.prems(1,2)] Cons.prems(3,4) True by simp
  next
    case False
    note vf = verify_dead_block_eq [OF Cons.prems(1) b read(2)]
    show ?thesis
    proof (cases "\<exists>i \<in> set (L b). needed alive c i")
      case True
      then show ?thesis using b read(1) False vf by auto
    next
      case ni: False
      then have "\<not> has_input c u i" if "u \<in> {u. alive u}" "live c u" "i \<in> set (L b)" for u i
        using that by (auto simp: needed_def)
      from drop_block_impl_ok [OF Cons.prems(1) b this]
      obtain d where d: "drop_block_impl c b False = Inr d" and
          ok: "partial_ok {u. alive u} d (without (set (L b)) L) (without (set (L b)) C)" and cd: "culled (set (L b)) c d" by blast
      let ?S = "{i. \<exists>b' \<in> set bs. \<not> BA b' \<and> i \<in> set (without (set (L b)) L b')}"
      let ?T = "{i. \<exists>b' \<in> set (b # bs). \<not> BA b' \<and> i \<in> set (L b')}"
      have hb: "has_block d = has_block c" using culled_has_block [OF cd] .
      have run: "drop_dead_blocks index (b # bs) c = drop_dead_blocks index bs d"
        using b read(1) False vf ni d by simp
      have nd: "needed alive d i = needed alive c i" for i
        using Cons.prems(4) [OF b] False by (intro culled_needed [OF cd]) blast
      have T: "?T = set (L b) \<union> ?S" using False by (auto simp: without_def)
      have IH: "if \<exists>i \<in> ?S. needed alive d i then drop_dead_blocks index bs d = Inl KEFIR_INVALID_STATE
        else \<exists>c'. drop_dead_blocks index bs d = Inr c' \<and>
          partial_ok {u. alive u} c' (without ?S (without (set (L b)) L)) (without ?S (without (set (L b)) C)) \<and> culled ?S d c'"
        by (rule Cons.IH [OF ok index_reads_culled(3) [OF Cons.prems(2) cd]])
           (use Cons.prems(3,4) hb in \<open>auto simp: without_def\<close>)
      show ?thesis
      proof (cases "\<exists>i \<in> ?S. needed alive c i")
        case True
        then have "\<exists>i \<in> ?T. needed alive c i" unfolding T by blast
        moreover have "drop_dead_blocks index bs d = Inl KEFIR_INVALID_STATE" using IH True unfolding nd by simp
        ultimately show ?thesis using run by simp
      next
        case nS: False
        from IH obtain c' where c': "drop_dead_blocks index bs d = Inr c'"
            "partial_ok {u. alive u} c' (without ?T L) (without ?T C)" "culled ?S d c'"
          unfolding nd if_not_P [OF nS] without_without T by blast
        have "culled ?T c c'" using culled_trans [OF cd c'(3)] unfolding T .
        moreover have "\<not> (\<exists>i \<in> ?T. needed alive c i)" using ni nS unfolding T by blast
        ultimately show ?thesis using c'(1,2) run by (simp only: if_False) blast
      qed
    qed
  qed
qed

lemma drop_dead_instr_outcome:
  assumes ok: "partial_ok {u. alive u} c L C" and ix: "index_reads index c BA alive PR" and i: "i < length (code c)"
  defines "S \<equiv> {j. j = i \<and> \<not> alive i}"
  shows "if live c i \<and> \<not> alive i \<and> needed alive c i then drop_dead_instr index i c = Inl KEFIR_INVALID_STATE
    else \<exists>c'. drop_dead_instr index i c = Inr c' \<and> partial_ok {u. alive u} c' (without S L) (without S C) \<and> culled S c c'"
proof (cases "live c i")
  case False
  have ls: "lists_ok c L C" using ok by (simp add: partial_ok_def)
  have "i \<notin> set (L b)" "i \<notin> set (C b)" if "has_block c b" for b
    using lists_ok_live [OF ls that, of i] lists_ok_facts(4) [OF ls that] False by auto
  then have e: "L b = without S L b" "C b = without S C b" if "has_block c b" for b
    using that unfolding without_def S_def by (metis (mono_tags, lifting) filter_True mem_Collect_eq)+
  have "partial_ok {u. alive u} c (without S L) (without S C)"
    using ok lists_ok_cong [of c L "without S L" C "without S C", OF e] by (simp add: partial_ok_def)
  moreover have "culled S c c" using False by (auto simp: culled_def same_size_def S_def)
  moreover have "drop_dead_instr index i c = Inr c"
    using False i by (simp add: drop_dead_instr_def live_def)
  ultimately show ?thesis using False by auto
next
  case True
  note read = index_reads_culled [OF ix culled_refl]
  have nb: "instr_block (code c ! i) \<noteq> None" using True by (simp add: live_def)
  show ?thesis
  proof (cases "alive i")
    case True
    then have "S = {}" by (simp add: S_def)
    then show ?thesis using ok nb read(2) [OF \<open>live c i\<close>] True by (simp add: drop_dead_instr_def)
  next
    case False
    then have S: "S = {i}" by (auto simp: S_def)
    note vf = verify_dead_uses_eq [OF ok True read(2)]
    show ?thesis
    proof (cases "needed alive c i")
      case needed: True
      then show ?thesis using vf nb False read(2) [OF True] True by (simp add: drop_dead_instr_def)
    next
      case ni: False
      have parts: "lists_ok c L C" "phis_ok c" "calls_ok c" "asms_ok c" "inputs_upto {u. alive u} c" "users_but i c"
        and nc: "\<And>j. live c j \<Longrightarrow> node_complete c j"
        using ok partial_users_but by (auto simp: partial_ok_def)
      have "\<not> has_input c u i" if "u \<in> {u. alive u}" "live c u" for u
        using ni that by (auto simp: needed_def)
      from drop_ordered [OF parts nc True _ this, of False]
      obtain c' where c': "bindE (kefir_opt_code_instruction_is_control_flow c (Some i)) (\<lambda>cf.
          bindE (if cf then kefir_opt_code_container_drop_control c (Some i) else Inr c) (\<lambda>c.
          drop_instr_impl c (Some i) False)) = Inr c'"
          "partial_ok {u. alive u} c' (without {i} L) (without {i} C)" "culled {i} c c'" by blast
      have "drop_dead_instr index i c = Inr c'"
        using c'(1) vf ni nb False read(2) [OF True] by (simp add: drop_dead_instr_def del: not_None_eq)
      then show ?thesis using c' ni unfolding S by simp
    qed
  qed
qed

lemma drop_dead_instrs_outcome:
  assumes "partial_ok {u. alive u} c L C" "index_reads index c BA alive PR" "\<forall>i \<in> set is. i < length (code c)" "distinct is"
  defines "S \<equiv> {i \<in> set is. \<not> alive i}"
  shows "if \<exists>i \<in> S. live c i \<and> needed alive c i then drop_dead_instrs index is c = Inl KEFIR_INVALID_STATE
    else \<exists>c'. drop_dead_instrs index is c = Inr c' \<and> partial_ok {u. alive u} c' (without S L) (without S C) \<and> culled S c c'"
  using assms(1-4) unfolding S_def
proof (induction "is" arbitrary: c L C)
  case Nil
  then show ?case by simp
next
  case (Cons i js)
  let ?I = "{j. j = i \<and> \<not> alive i}" and ?S = "{i \<in> set js. \<not> alive i}" and ?T = "{j \<in> set (i # js). \<not> alive j}"
  have T: "?T = ?I \<union> ?S" by auto
  have il: "i < length (code c)" using Cons.prems(3) by simp
  note one = drop_dead_instr_outcome [OF Cons.prems(1,2) il]
  show ?case
  proof (cases "live c i \<and> \<not> alive i \<and> needed alive c i")
    case True
    then have "\<exists>i \<in> ?T. live c i \<and> needed alive c i" by auto
    moreover have "drop_dead_instr index i c = Inl KEFIR_INVALID_STATE" using one True by simp
    ultimately show ?thesis by simp
  next
    case ni: False
    from one obtain d where d: "drop_dead_instr index i c = Inr d"
        and ok: "partial_ok {u. alive u} d (without ?I L) (without ?I C)" and cd: "culled ?I c d"
      unfolding if_not_P [OF ni] by blast
    have nd: "needed alive d j = needed alive c j" for j by (rule culled_needed [OF cd]) auto
    have ld: "live d j = live c j" if "j \<in> ?S" for j
      using cd that Cons.prems(4) by (auto simp: culled_def)
    have ex: "(\<exists>j \<in> ?S. live d j \<and> needed alive d j) = (\<exists>j \<in> ?S. live c j \<and> needed alive c j)"
      using ld nd by (intro bex_cong) auto
    have len: "\<forall>j \<in> set js. j < length (code d)" using Cons.prems(3) cd by (simp add: culled_def same_size_def)
    have dj: "distinct js" using Cons.prems(4) by simp
    note IH = Cons.IH [OF ok index_reads_culled(3) [OF Cons.prems(2) cd] len dj]
    show ?thesis
    proof (cases "\<exists>j \<in> ?S. live c j \<and> needed alive c j")
      case True
      then have "\<exists>j \<in> ?T. live c j \<and> needed alive c j" by auto
      moreover have "drop_dead_instrs index js d = Inl KEFIR_INVALID_STATE" using IH True unfolding ex by simp
      ultimately show ?thesis using d by simp
    next
      case nS: False
      from IH obtain c' where c': "drop_dead_instrs index js d = Inr c'"
          "partial_ok {u. alive u} c' (without ?T L) (without ?T C)" "culled ?S d c'"
        unfolding ex if_not_P [OF nS] without_without T by blast
      have "culled ?T c c'" using culled_trans [OF cd c'(3)] unfolding T .
      moreover have "\<not> (\<exists>j \<in> ?T. live c j \<and> needed alive c j)" using ni nS by auto
      ultimately show ?thesis using c'(1,2) d by (simp only: if_False drop_dead_instrs.simps bindE.simps) blast
    qed
  qed
qed

end
