(* ===== verification/Kefir_Opt_Dead_Props.thy ===== *)
theory Kefir_Opt_Dead_Props
  imports Kefir_Opt_Dead_Drop
begin

text \<open>
  The outcome of \<^verbatim>\<open>kefir_opt_code_container_drop_dead_code\<close>: the dead instructions are gone, and nothing
  else of the code changes but the links of phi nodes from dead blocks.
\<close>

section \<open>What an instruction needs\<close>

text \<open>The inputs that the first loop leaves to an instruction.\<close>

definition needs :: "opt_code \<Rightarrow> (nat \<Rightarrow> bool) \<Rightarrow> (nat \<Rightarrow> nat \<Rightarrow> bool) \<Rightarrow> nat \<Rightarrow> nat \<Rightarrow> bool" where
  "needs c block_alive pred u i \<longleftrightarrow> (let op = operation (code c ! u) in
     if opcode op = OPC_PHI then
       (\<exists>l. (l, Some i) \<in> set (links (phi_nodes c ! the (phi_ref op))) \<and> block_alive l \<and>
          (\<forall>b. instr_block (code c ! u) = Some b \<longrightarrow> pred l b))
     else has_input c u i)"

lemma relinked_needs:
  assumes ok: "code_ok c L C" and u: "live c u" and n: "length (blocks c) = n"
    and r: "relinked c c' (\<lambda>m l. \<forall>b \<in> set [0..<n]. phi_block (phi_nodes c ! m) = Some b \<longrightarrow> BA l \<and> PR l b)"
  shows "has_input c' u i \<longleftrightarrow> needs c BA PR u i"
proof (cases "opcode (operation (code c ! u)) = OPC_PHI")
  case False
  then show ?thesis using relinked_inputs(1) [OF r ok u] by (simp add: needs_def has_input_def Let_def)
next
  case True
  have "phis_ok c" using ok by (simp add: code_ok_def)
  from phis_okD(1) [OF this u True] obtain k where k: "phi_ref (operation (code c ! u)) = Some k" "phi_block (phi_nodes c ! k) = instr_block (code c ! u)"
    by blast
  obtain b where b: "instr_block (code c ! u) = Some b" "has_block c b"
    using code_ok_liveE [OF ok u] by metis
  then have "b \<in> set [0..<n]" using n by (simp add: has_block_def)
  then have "(\<forall>b \<in> set [0..<n]. phi_block (phi_nodes c ! k) = Some b \<longrightarrow> BA l \<and> PR l b) \<longleftrightarrow> BA l \<and> PR l b" for l
    using k(2) b(1) by auto
  then have "inputs c' u = Inr (filter (\<lambda>r. r \<noteq> None) (map snd (filter (\<lambda>(l, _). BA l \<and> PR l b) (links (phi_nodes c ! k)))))"
    using relinked_inputs(2) [OF r ok u True k(1)] by simp
  then have "has_input c' u i \<longleftrightarrow> (\<exists>l. (l, Some i) \<in> set (links (phi_nodes c ! k)) \<and> BA l \<and> PR l b)"
    by (auto simp: has_input_def image_iff)
  then show ?thesis using True k(1) b(1) by (simp add: needs_def Let_def)
qed

section \<open>The whole operation\<close>

lemma code_ok_partial:
  assumes "code_ok c L C" "dead_ready c" shows "partial_ok A c L C"
proof -
  have "inputs_upto UNIV c" using assms(1) by (simp add: code_ok_def inputs_upto_UNIV)
  then have "inputs_upto A c" by (simp add: inputs_upto_def)
  then show ?thesis using assms by (simp add: partial_ok_def code_ok_def dead_ready_def)
qed

lemma partial_code_ok:
  assumes ok: "partial_ok {u. alive u} c L C" and all: "\<And>u. live c u \<Longrightarrow> alive u"
  shows "code_ok c L C"
proof -
  have "inputs_upto UNIV c" using ok all by (auto simp: partial_ok_def inputs_upto_def)
  then show ?thesis using ok by (simp add: partial_ok_def code_ok_def inputs_upto_UNIV)
qed

lemma drop_dead_code_effect:
  assumes ok: "code_ok c L C" and rd: "dead_ready c" and ix: "index_reads index c BA alive PR"
    and closed: "\<forall>b i. has_block c b \<longrightarrow> i \<in> set (L b) \<longrightarrow> alive i \<longrightarrow> BA b"
  defines "S \<equiv> {i. \<not> alive i}"
  shows "if \<exists>u i. live c u \<and> alive u \<and> needs c BA PR u i \<and> \<not> alive i
    then kefir_opt_code_container_drop_dead_code c index = Inl KEFIR_INVALID_STATE
    else \<exists>c'. kefir_opt_code_container_drop_dead_code c index = Inr c' \<and> code_ok c' (without S L) (without S C) \<and>
      same_size c c' \<and> (\<forall>u. live c' u \<longleftrightarrow> live c u \<and> alive u) \<and>
      (\<forall>u i. live c' u \<longrightarrow> operation (code c' ! u) = operation (code c ! u) \<and> has_input c' u i = needs c BA PR u i)"
proof -
  note dead = closed [rule_format]
  let ?bs = "[0..<length (blocks c)]"
  obtain c1 where c1: "drop_dead_block_links index ?bs c = Inr c1" "code_ok c1 L C"
      and r: "relinked c c1 (\<lambda>m l. \<forall>b \<in> set ?bs. phi_block (phi_nodes c ! m) = Some b \<longrightarrow> BA l \<and> PR l b)"
    using drop_dead_block_links_ok [OF ok rd ix, of ?bs] by (auto simp: has_block_def)
  note f = relinked_rest [OF r] relinked_code [OF r]
  have p1: "partial_ok {u. alive u} c1 L C" by (rule code_ok_partial [OF c1(2) relinked_ready [OF r ok rd]])
  have ls1: "lists_ok c1 L C" using c1(2) by (simp add: code_ok_def)
  note ix1 = index_reads_relinked [OF ix r]
  have hi: "has_input c1 u i = needs c BA PR u i" if "live c u" for u i using relinked_needs [OF ok that refl r] .
  have nd: "needed alive c1 i \<longleftrightarrow> (\<exists>u. live c u \<and> alive u \<and> needs c BA PR u i)" for i
    using hi by (auto simp: needed_def f)
  have in_live: "live c1 i" if "needed alive c1 i" for i
    using that c1(2) by (auto simp: needed_def code_ok_def dest: inputs_okD(3))
  let ?S = "{i. \<exists>b \<in> set ?bs. \<not> BA b \<and> i \<in> set (L b)}"
  have dS: "i \<in> ?S \<Longrightarrow> \<not> alive i" for i using dead by (auto simp: has_block_def)
  have out2: "if \<exists>i \<in> ?S. needed alive c1 i then drop_dead_blocks index ?bs c1 = Inl KEFIR_INVALID_STATE
    else \<exists>c'. drop_dead_blocks index ?bs c1 = Inr c' \<and> partial_ok {u. alive u} c' (without ?S L) (without ?S C) \<and> culled ?S c1 c'"
    by (rule drop_dead_blocks_outcome [OF p1 ix1]) (use dead in \<open>auto simp: f has_block_def\<close>)
  have len1: "length (blocks c1) = length (blocks c)" by (simp add: f)
  let ?bad = "\<exists>u i. live c u \<and> alive u \<and> needs c BA PR u i \<and> \<not> alive i"
  have bad: "?bad \<longleftrightarrow> (\<exists>i. \<not> alive i \<and> needed alive c1 i)" unfolding nd by blast
  show ?thesis
  proof (cases "\<exists>i \<in> ?S. needed alive c1 i")
    case True
    then have ?bad using dS unfolding bad by blast
    moreover have "kefir_opt_code_container_drop_dead_code c index = Inl KEFIR_INVALID_STATE"
      using c1(1) out2 unfolding if_P [OF True] by (simp add: kefir_opt_code_container_drop_dead_code_def len1)
    ultimately show ?thesis unfolding if_P [OF \<open>?bad\<close>] by simp
  next
    case False
    from out2 obtain c2 where c2: "drop_dead_blocks index ?bs c1 = Inr c2"
        and p2: "partial_ok {u. alive u} c2 (without ?S L) (without ?S C)" and cu: "culled ?S c1 c2"
      unfolding if_not_P [OF False] by blast
    have nd2: "needed alive c2 i = needed alive c1 i" for i using dS by (intro culled_needed [OF cu]) blast
    have len2: "length (code c2) = length (code c)" using cu f(1) by (simp add: culled_def same_size_def)
    let ?T = "{i \<in> set [0..<length (code c2)]. \<not> alive i}"
    have run: "kefir_opt_code_container_drop_dead_code c index = drop_dead_instrs index [0..<length (code c2)] c2"
      using c1(1) c2 by (simp add: kefir_opt_code_container_drop_dead_code_def len1)
    have out3: "if \<exists>i \<in> ?T. live c2 i \<and> needed alive c2 i then drop_dead_instrs index [0..<length (code c2)] c2 = Inl KEFIR_INVALID_STATE
      else \<exists>c'. drop_dead_instrs index [0..<length (code c2)] c2 = Inr c' \<and>
        partial_ok {u. alive u} c' (without ?T (without ?S L)) (without ?T (without ?S C)) \<and> culled ?T c2 c'"
      by (rule drop_dead_instrs_outcome [OF p2 index_reads_culled(3) [OF ix1 cu]]) auto
    have live2: "live c2 i" if "needed alive c1 i" for i
      using in_live [OF that] False that cu by (auto simp: culled_def)
    moreover have "i < length (code c2)" if "live c2 i" for i using that by (simp add: live_def)
    ultimately have bad2: "?bad \<longleftrightarrow> (\<exists>i \<in> ?T. live c2 i \<and> needed alive c2 i)"
      unfolding bad nd2 by auto
    show ?thesis
    proof (cases ?bad)
      case True
      have "drop_dead_instrs index [0..<length (code c2)] c2 = Inl KEFIR_INVALID_STATE"
        using out3 unfolding bad2 [symmetric] if_P [OF True] .
      then show ?thesis using run unfolding if_P [OF True] by simp
    next
      case nb: False
      from out3 obtain c' where c': "drop_dead_instrs index [0..<length (code c2)] c2 = Inr c'"
          and p3: "partial_ok {u. alive u} c' (without (?S \<union> ?T) L) (without (?S \<union> ?T) C)" and cu3: "culled ?T c2 c'"
        unfolding bad2 [symmetric] if_not_P [OF nb] without_without by blast
      note cc = culled_trans [OF cu cu3]
      have lv: "live c' u \<longleftrightarrow> live c u \<and> alive u" for u
        using cc dS len2 by (auto simp: culled_def f live_def)
      have sz: "same_size c c'" using cc f(1,2) by (simp add: culled_def same_size_def)
      have "has_block c' = has_block c" using sz by (simp add: same_size_def has_block_def fun_eq_iff)
      moreover have "without (?S \<union> ?T) L b = without S L b" "without (?S \<union> ?T) C b = without S C b" if "has_block c b" for b
      proof -
        have "i < length (code c2)" if "i \<in> set (L b)" for i
          using code_ok_listsD(3) [OF ok \<open>has_block c b\<close>] that len2 by auto
        then have "i \<in> ?S \<union> ?T \<longleftrightarrow> i \<in> S" if "i \<in> set (L b)" for i using dS that unfolding S_def by auto
        then show "without (?S \<union> ?T) L b = without S L b" "without (?S \<union> ?T) C b = without S C b"
          using code_ok_listsD(4) [OF ok that] unfolding without_def by (auto intro!: filter_cong)
      qed
      ultimately have "code_ok c' (without S L) (without S C)"
        using partial_code_ok [OF p3] lv lists_ok_cong [of c' "without (?S \<union> ?T) L" "without S L" "without (?S \<union> ?T) C" "without S C"]
        unfolding code_ok_def by simp
      moreover have "operation (code c' ! u) = operation (code c ! u) \<and> has_input c' u i = needs c BA PR u i" if u: "live c' u" for u i
      proof -
        have "operation (code c' ! u) = operation (code c1 ! u)" using cc u unfolding culled_def by blast
        moreover have "live c u" using lv u by blast
        ultimately show ?thesis using culled_has_input [OF cc u] hi relinked_code(3) [OF r] by simp
      qed
      ultimately show ?thesis using c' run lv sz unfolding if_not_P [OF nb] by auto
    qed
  qed
qed

section \<open>Properties\<close>

text \<open>
  C35. Given a container that is well-formed, in which every argument of a call is set and every phi has
  values for its links, which name blocks of the container, and an index that answers consistently and calls no instruction
  of a dead block alive, dropping dead code has one of two outcomes. When every operand of an instruction that is alive is alive,
  it succeeds: the blocks list the instructions that are alive in the order they had, the container stays
  well-formed, and every instruction left has the operation it had and exactly the operands it needs, where a phi
  needs the values that are linked from live predecessors only. Otherwise it fails with an invalid state.
\<close>

theorem drop_dead_code_outcome:
  assumes "represents c s" "dead_ready c" "index_reads index c block_alive alive pred"
    and "\<And>b i. b < n_blocks s \<Longrightarrow> i \<in> set (contents s b) \<Longrightarrow> alive i \<Longrightarrow> block_alive b"
  shows "if \<forall>u i. live c u \<and> alive u \<and> needs c block_alive pred u i \<longrightarrow> alive i
    then \<exists>c'. kefir_opt_code_container_drop_dead_code c index = Inr c' \<and>
      represents c' (s\<lparr>contents := (\<lambda>b. filter alive (contents s b)), ordered := (\<lambda>b. filter alive (ordered s b))\<rparr>) \<and>
      (\<forall>u. live c' u \<longleftrightarrow> live c u \<and> alive u) \<and>
      (\<forall>u i. live c' u \<longrightarrow> operation (code c' ! u) = operation (code c ! u) \<and>
         (has_input c' u i \<longleftrightarrow> needs c block_alive pred u i))
    else kefir_opt_code_container_drop_dead_code c index = Inl KEFIR_INVALID_STATE"
proof -
  have ok: "code_ok c (contents s) (ordered s)" and n: "length (blocks c) = n_blocks s" "length (code c) = n_instrs s"
    using assms(1) by (auto simp: represents_def)
  have e: "without {i. \<not> alive i} L = (\<lambda>b. filter alive (L b))" for L
    by (simp add: without_def fun_eq_iff)
  have d: "\<forall>b i. has_block c b \<longrightarrow> i \<in> set (contents s b) \<longrightarrow> alive i \<longrightarrow> block_alive b"
    using assms(4) n(1) by (auto simp: has_block_def)
  note out = drop_dead_code_effect [OF ok assms(2,3) d, unfolded e]
  show ?thesis
  proof (cases "\<forall>u i. live c u \<and> alive u \<and> needs c block_alive pred u i \<longrightarrow> alive i")
    case True
    then have "\<not> (\<exists>u i. live c u \<and> alive u \<and> needs c block_alive pred u i \<and> \<not> alive i)" by blast
    from out [unfolded if_not_P [OF this]] show ?thesis
      using n unfolding if_P [OF True] by (auto simp: represents_def same_size_def)
  next
    case False
    then have "\<exists>u i. live c u \<and> alive u \<and> needs c block_alive pred u i \<and> \<not> alive i" by blast
    from out [unfolded if_P [OF this]] show ?thesis unfolding if_not_P [OF False] .
  qed
qed

text \<open>In the block that returns the sum of two constants, a third constant is dead.\<close>

definition list_index :: "nat list \<Rightarrow> dead_code_index" where
  "list_index is = \<lparr>is_block_alive = (\<lambda>_ _. Inr True), is_instruction_alive = (\<lambda>_ i. Inr (i \<in> set is)),
     is_block_predecessor = (\<lambda>_ _ _. Inr True)\<rparr>"

lemma list_index_reads: "index_reads (list_index is) c (\<lambda>_. True) (\<lambda>i. i \<in> set is) (\<lambda>_ _. True)"
  by (simp add: index_reads_def list_index_def)

lemma dead_ready_code:
  "dead_ready c \<longleftrightarrow> list_all (\<lambda>i. live c i \<longrightarrow> node_complete c i) [0..<length (code c)] \<and>
     list_all (\<lambda>k. live_phi c k \<longrightarrow> list_all (\<lambda>(b, _). has_block c b) (links (phi_nodes c ! k))) [0..<length (phi_nodes c)]"
  by (fastforce simp: dead_ready_def list_all_iff live_def live_phi_def)

lemma sum_code_ready: "dead_ready sum_code"
  unfolding dead_ready_code by code_simp

lemma sum_code_inputs:
  "list_all (\<lambda>u. inputs sum_code u = Inr ([[], [], [Some 0, Some 1], [], [Some 2]] ! u)) [0..<5]"
  "length (code sum_code) = 5"
  "list_all (\<lambda>u. opcode (operation (code sum_code ! u)) \<noteq> OPC_PHI) [0..<5]"
  by code_simp+

lemma sum_code_needs: "live sum_code u \<Longrightarrow> needs sum_code ba pr u i \<longleftrightarrow> u = 2 \<and> i \<in> {0, 1} \<or> u = 4 \<and> i = 2"
proof -
  assume "live sum_code u"
  then have "u < 5" using sum_code_inputs(2) by (simp add: live_def)
  then have "u \<in> {0, 1, 2, 3, 4}" by auto
  then show ?thesis
    using sum_code_inputs(1,3) by (auto simp: needs_def has_input_def upt_rec list_all_iff numeral_eq_Suc)
qed

theorem drop_dead_code_outcome_witness:
  "(\<exists>c'. kefir_opt_code_container_drop_dead_code sum_code (list_index [0, 1, 2, 4]) = Inr c' \<and> block_listing c' 0 = Inr [0, 1, 2, 4] \<and>
      \<not> live c' 3) \<and>
   kefir_opt_code_container_drop_dead_code sum_code (list_index [2, 4]) = Inl KEFIR_INVALID_STATE"
proof -
  have s: "n_blocks sum_listing = 1" "contents sum_listing 0 = [0, 1, 2, 3, 4]" "ordered sum_listing 0 = [4]"
    by code_simp+
  have l: "live sum_code 2" "live sum_code 4" by code_simp+
  note out = drop_dead_code_outcome [OF sum_represents sum_code_ready list_index_reads]
  have 1: "\<forall>u i. live sum_code u \<and> u \<in> set [0, 1, 2, 4] \<and> needs sum_code (\<lambda>_. True) (\<lambda>_ _. True) u i \<longrightarrow> i \<in> set [0, 1, 2, 4]"
    using sum_code_needs by auto
  have 2: "\<not> (\<forall>u i. live sum_code u \<and> u \<in> set [2, 4] \<and> needs sum_code (\<lambda>_. True) (\<lambda>_ _. True) u i \<longrightarrow> i \<in> set [2, 4])"
    using sum_code_needs [of 2 _ _ 0] l by force
  have "kefir_opt_code_container_drop_dead_code sum_code (list_index [2, 4]) = Inl KEFIR_INVALID_STATE"
    using out [of "[2, 4]"] 2 by (simp only: if_False)
  moreover obtain c' where c': "kefir_opt_code_container_drop_dead_code sum_code (list_index [0, 1, 2, 4]) = Inr c'"
      "represents c' (sum_listing\<lparr>contents := (\<lambda>b. filter (\<lambda>i. i \<in> set [0, 1, 2, 4]) (contents sum_listing b)),
         ordered := (\<lambda>b. filter (\<lambda>i. i \<in> set [0, 1, 2, 4]) (ordered sum_listing b))\<rparr>)" "\<not> live c' 3"
    using out [of "[0, 1, 2, 4]", unfolded if_P [OF 1]] by auto
  moreover have "blocks c' \<noteq> []" using c'(2) s(1) by (auto simp: represents_def)
  then have "block_listing c' 0 = Inr [0, 1, 2, 4]"
    using listing_ok(1) [OF c'(2) [unfolded represents_def, THEN conjunct1], of 0] c'(2) s
    by (auto simp: represents_def has_block_def)
  ultimately show ?thesis by blast
qed

text \<open>
  Dropping a block from outside refuses an instruction with a user in the block, and drops an instruction
  with a user in another block: the test on the block of the user is the wrong way round.
\<close>

definition two_block_edits :: "edit list" where
  "two_block_edits = [Edit_block True, Edit_block False,
     Edit_instr 0 ((op_init OPC_INT_CONST)\<lparr>imm := 2\<rparr>),
     Edit_instr 1 ((op_init OPC_RETURN)\<lparr>refs := [Some 0, None, None, None]\<rparr>), Edit_add_control 1 1]"

lemma drop_block_refuses_inner_users:
  "(case perform_all sum_edits kefir_opt_code_container_init of Inl e \<Rightarrow> Inl e
    | Inr c \<Rightarrow> kefir_opt_code_container_drop_block c 0) = Inl KEFIR_INVALID_REQUEST"
  by code_simp

lemma drop_block_leaves_outer_users:
  "(case perform_all two_block_edits kefir_opt_code_container_init of Inl e \<Rightarrow> Inl e
    | Inr c \<Rightarrow> bindE (kefir_opt_code_container_drop_block c 0) (\<lambda>c'. Inr (map (\<lambda>i. instr_block (code c' ! i)) [0, 1],
        kefir_opt_instruction_extract_inputs c' (code c' ! 1) False))) = Inr ([None, Some 1], Inr [Some 0])"
  by code_simp

end
