(* ===== verification/Kefir_Opt_Fold.thy ===== *)
theory Kefir_Opt_Fold
  imports Kefir_Opt_Code_Ops "HOL-Library.Signed_Division"
begin

text \<open>
  Folding of integer constants, \<^verbatim>\<open>source/optimizer/pipeline/const_fold.c\<close>, with the part of the
  code builder (\<^verbatim>\<open>source/optimizer/builder.c\<close>) it calls. A constant is the 64-bit word of the union
  \<^verbatim>\<open>constant\<close>; conversions to \<^verbatim>\<open>kefir_uint8_t\<close> and the like are truncations of it, and operands narrower
  than \<^verbatim>\<open>int\<close> are computed on as the language promotes them. Where the host's arithmetic is
  undefined (an oversized shift, a signed overflow) the model stops with \<open>Undefined_behaviour\<close>.
  The pass also folds bit-precise, 128-bit, floating point and decimal operations; an instruction of
  these kinds stops the model with \<open>Not_modelled\<close>.
\<close>

unbundle bit_operations_syntax

section \<open>The code builder\<close>

definition is_terminator :: "opt_opcode \<Rightarrow> bool" where
  "is_terminator opc \<longleftrightarrow> opc = OPC_JUMP \<or> opc = OPC_IJUMP \<or> opc = OPC_BRANCH \<or> opc = OPC_RETURN \<or>
     opc = OPC_UNREACHABLE \<or> opc = OPC_TAIL_INVOKE \<or> opc = OPC_TAIL_INVOKE_VIRTUAL"

text \<open>The flag is not written when the block has no control instruction; \<open>flag\<close> is its value before the call.\<close>

definition kefir_opt_code_builder_is_finalized :: "opt_code \<Rightarrow> ref \<Rightarrow> bool \<Rightarrow> bool result" where
  "kefir_opt_code_builder_is_finalized c block_id flag =
     bindE (kefir_opt_code_container_block c block_id) (\<lambda>_.
     bindE (kefir_opt_code_block_instr_control_tail c block_id) (\<lambda>prev.
     if prev = KEFIR_ID_NONE then Inr flag
     else
       bindE (kefir_opt_code_container_instr c prev) (\<lambda>instr.
       if is_terminator (opcode (operation instr)) then Inr True
       else if opcode (operation instr) = OPC_INLINE_ASSEMBLY then
         bindE (code_container_inline_assembly_mutable c (inline_asm_ref (operation instr))) (\<lambda>k.
         Inr (jump_targets (inline_assembly c ! k) \<noteq> []))
       else Inr False)))"

definition kefir_opt_code_builder_add_instruction ::
    "opt_code \<Rightarrow> ref \<Rightarrow> opt_operation \<Rightarrow> bool \<Rightarrow> (opt_code \<times> nat) result" where
  "kefir_opt_code_builder_add_instruction c block_id op control =
     bindE (kefir_opt_code_container_block c block_id) (\<lambda>_.
     bindE (kefir_opt_code_builder_is_finalized c block_id False) (\<lambda>finalized.
     bindE (requireE (\<not> control \<or> \<not> finalized) KEFIR_INVALID_REQUEST) (\<lambda>_.
     bindE (kefir_opt_code_container_new_instruction c block_id op) (\<lambda>(c, i).
     if control then bindE (kefir_opt_code_container_add_control c block_id (Some i)) (\<lambda>c. Inr (c, i))
     else Inr (c, i)))))"

definition kefir_opt_code_builder_int_constant :: "opt_code \<Rightarrow> ref \<Rightarrow> 64 word \<Rightarrow> (opt_code \<times> nat) result" where
  "kefir_opt_code_builder_int_constant c block_id v =
     kefir_opt_code_builder_add_instruction c block_id ((op_init OPC_INT_CONST)\<lparr>imm := v\<rparr>) False"

definition kefir_opt_code_builder_uint_constant :: "opt_code \<Rightarrow> ref \<Rightarrow> 64 word \<Rightarrow> (opt_code \<times> nat) result" where
  "kefir_opt_code_builder_uint_constant c block_id v =
     kefir_opt_code_builder_add_instruction c block_id ((op_init OPC_UINT_CONST)\<lparr>imm := v\<rparr>) False"

definition kefir_opt_code_builder_int_placeholder :: "opt_code \<Rightarrow> ref \<Rightarrow> (opt_code \<times> nat) result" where
  "kefir_opt_code_builder_int_placeholder c block_id =
     kefir_opt_code_builder_add_instruction c block_id (op_init OPC_INT_PLACEHOLDER) False"

definition instr_exists :: "opt_code \<Rightarrow> ref \<Rightarrow> bool \<Rightarrow> unit result" where
  "instr_exists c r permit_none =
     bindE (requireE (permit_none \<or> r \<noteq> KEFIR_ID_NONE) KEFIR_NOT_FOUND) (\<lambda>_.
     if permit_none then Inr () else bindE (kefir_opt_code_container_instr c r) (\<lambda>_. Inr ()))"

definition kefir_opt_code_builder_finalize_jump :: "opt_code \<Rightarrow> ref \<Rightarrow> ref \<Rightarrow> (opt_code \<times> nat) result" where
  "kefir_opt_code_builder_finalize_jump c block_id target =
     bindE (kefir_opt_code_container_block c target) (\<lambda>_.
     kefir_opt_code_builder_add_instruction c block_id
       ((op_init OPC_JUMP)\<lparr>target_block := target, alternative_block := KEFIR_ID_NONE, condition_ref := KEFIR_ID_NONE\<rparr>) True)"

definition kefir_opt_code_builder_finalize_indirect_jump :: "opt_code \<Rightarrow> ref \<Rightarrow> ref \<Rightarrow> (opt_code \<times> nat) result" where
  "kefir_opt_code_builder_finalize_indirect_jump c block_id r =
     bindE (instr_exists c r False) (\<lambda>_.
     bindE (kefir_opt_code_container_gate_block c) (\<lambda>(c, gate).
     kefir_opt_code_builder_add_instruction c block_id
       ((op_init OPC_IJUMP)\<lparr>refs := [r, KEFIR_ID_NONE, KEFIR_ID_NONE, KEFIR_ID_NONE], target_block := Some gate\<rparr>) True))"

definition kefir_opt_code_builder_finalize_branch ::
    "opt_code \<Rightarrow> ref \<Rightarrow> branch_condition_variant \<Rightarrow> ref \<Rightarrow> ref \<Rightarrow> ref \<Rightarrow> (opt_code \<times> nat) result" where
  "kefir_opt_code_builder_finalize_branch c block_id variant condition target alternative =
     bindE (instr_exists c condition False) (\<lambda>_.
     bindE (kefir_opt_code_container_block c target) (\<lambda>_.
     bindE (kefir_opt_code_container_block c alternative) (\<lambda>_.
     kefir_opt_code_builder_add_instruction c block_id
       ((op_init OPC_BRANCH)\<lparr>target_block := target, alternative_block := alternative,
          condition_variant := variant, condition_ref := condition\<rparr>) True)))"

text \<open>The fourth reference is left out of the initialiser, so it is instruction 0 and not \<^verbatim>\<open>KEFIR_ID_NONE\<close>.\<close>

definition kefir_opt_code_builder_finalize_branch_compare ::
    "opt_code \<Rightarrow> ref \<Rightarrow> opt_comparison \<Rightarrow> ref \<Rightarrow> ref \<Rightarrow> ref \<Rightarrow> ref \<Rightarrow> (opt_code \<times> nat) result" where
  "kefir_opt_code_builder_finalize_branch_compare c block_id cmp r1 r2 target alternative =
     bindE (instr_exists c r1 False) (\<lambda>_.
     bindE (instr_exists c r2 False) (\<lambda>_.
     bindE (kefir_opt_code_container_block c target) (\<lambda>_.
     bindE (kefir_opt_code_container_block c alternative) (\<lambda>_.
     kefir_opt_code_builder_add_instruction c block_id
       ((op_init OPC_BRANCH_COMPARE)\<lparr>target_block := target, alternative_block := alternative,
          comparison := cmp, refs := [r1, r2, KEFIR_ID_NONE, Some 0]\<rparr>) True))))"

definition kefir_opt_code_builder_finalize_return :: "opt_code \<Rightarrow> ref \<Rightarrow> ref \<Rightarrow> (opt_code \<times> nat) result" where
  "kefir_opt_code_builder_finalize_return c block_id r =
     bindE (instr_exists c r True) (\<lambda>_.
     kefir_opt_code_builder_add_instruction c block_id
       ((op_init OPC_RETURN)\<lparr>refs := [r, Some 0, Some 0, Some 0]\<rparr>) True)"

definition kefir_opt_code_builder_finalize_unreachable :: "opt_code \<Rightarrow> ref \<Rightarrow> (opt_code \<times> nat) result" where
  "kefir_opt_code_builder_finalize_unreachable c block_id =
     kefir_opt_code_builder_add_instruction c block_id (op_init OPC_UNREACHABLE) True"

section \<open>Integer arithmetic of the host\<close>

datatype fold_result = Folded "64 word" | Unfolded | Undefined

text \<open>Conversion to the unsigned and to the signed type of a width.\<close>

definition uint_cast :: "opt_width \<Rightarrow> 64 word \<Rightarrow> 64 word" where
  "uint_cast w x = take_bit (width_bits w) x"

definition int_cast :: "opt_width \<Rightarrow> 64 word \<Rightarrow> int" where
  "int_cast w x = signed_take_bit (width_bits w - 1) (uint x)"

definition int_min :: "opt_width \<Rightarrow> int" where
  "int_min w = - (2 ^ (width_bits w - 1))"

text \<open>The width of the type of the operands after the integer promotions.\<close>

fun promoted_bits :: "opt_width \<Rightarrow> nat" where
  "promoted_bits W64 = 64"
| "promoted_bits _ = 32"

definition of_bool_word :: "bool \<Rightarrow> 64 word" where
  "of_bool_word b = (if b then 1 else 0)"

fun wrap32 :: "opt_width \<Rightarrow> 64 word \<Rightarrow> 64 word" where
  "wrap32 W32 x = take_bit 32 x"
| "wrap32 _ x = x"

section \<open>Unary operations\<close>

fun int_unary_fold :: "opt_opcode \<Rightarrow> 64 word \<Rightarrow> fold_result" where
  "int_unary_fold (OPC_INT_UNARY INT_TO_BOOL w) x = Folded (of_bool_word (uint_cast w x \<noteq> 0))"
| "int_unary_fold (OPC_INT_UNARY INT_NEG W64) x = (if x = 2 ^ 63 then Undefined else Folded (- x))"
| "int_unary_fold (OPC_INT_UNARY INT_NEG w) x = Folded (- uint_cast w x)"
| "int_unary_fold (OPC_INT_UNARY INT_NOT w) x = Folded (NOT x)"
| "int_unary_fold (OPC_INT_UNARY INT_BOOL_NOT w) x = Folded (of_bool_word (uint_cast w x = 0))"
| "int_unary_fold (OPC_INT64_ZERO_EXTEND W64) x = Unfolded"
| "int_unary_fold (OPC_INT64_ZERO_EXTEND w) x = Folded (uint_cast w x)"
| "int_unary_fold (OPC_INT64_SIGN_EXTEND W64) x = Unfolded"
| "int_unary_fold (OPC_INT64_SIGN_EXTEND w) x = Folded (word_of_int (int_cast w x))"
| "int_unary_fold _ x = Unfolded"

section \<open>Binary operations\<close>

definition int_mul_fold :: "opt_width \<Rightarrow> 64 word \<Rightarrow> 64 word \<Rightarrow> fold_result" where
  "int_mul_fold w l r =
     (if w = W16 \<and> uint (uint_cast w l) * uint (uint_cast w r) \<ge> 2 ^ 31 then Undefined
      else Folded (wrap32 w (uint_cast w l * uint_cast w r)))"

definition div_mod_preconditions :: "opt_width \<Rightarrow> 64 word \<Rightarrow> 64 word \<Rightarrow> bool" where
  "div_mod_preconditions w l r \<longleftrightarrow> int_cast w r \<noteq> 0 \<and> (int_cast w l \<noteq> int_min w \<or> int_cast w r \<noteq> -1)"

definition int_lshift_fold :: "opt_width \<Rightarrow> 64 word \<Rightarrow> 64 word \<Rightarrow> fold_result" where
  "int_lshift_fold w l r =
     (if unat r \<ge> promoted_bits w then Undefined
      else if (w = W8 \<or> w = W16) \<and> uint (uint_cast w l) * 2 ^ unat r \<ge> 2 ^ 31 then Undefined
      else Folded (wrap32 w (push_bit (unat r) (uint_cast w l))))"

definition int_rshift_fold :: "opt_width \<Rightarrow> 64 word \<Rightarrow> 64 word \<Rightarrow> fold_result" where
  "int_rshift_fold w l r =
     (if unat r \<ge> promoted_bits w then Undefined else Folded (drop_bit (unat r) (uint_cast w l)))"

definition int_arshift_fold :: "opt_width \<Rightarrow> 64 word \<Rightarrow> 64 word \<Rightarrow> fold_result" where
  "int_arshift_fold w l r =
     (if sint r < 0 \<or> sint r \<ge> int (promoted_bits w) then Undefined
      else Folded (word_of_int (drop_bit (nat (sint r)) (int_cast w l))))"

fun int_binary_fold :: "int_binary \<Rightarrow> opt_width \<Rightarrow> 64 word \<Rightarrow> 64 word \<Rightarrow> fold_result" where
  "int_binary_fold INT_ADD w l r = Folded (wrap32 w (uint_cast w l + uint_cast w r))"
| "int_binary_fold INT_SUB w l r = Folded (wrap32 w (uint_cast w l - uint_cast w r))"
| "int_binary_fold INT_MUL w l r = int_mul_fold w l r"
| "int_binary_fold UINT_MUL w l r = int_mul_fold w l r"
| "int_binary_fold INT_DIV w l r =
     (if div_mod_preconditions w l r then Folded (word_of_int (int_cast w l sdiv int_cast w r)) else Unfolded)"
| "int_binary_fold INT_MOD w l r =
     (if div_mod_preconditions w l r then Folded (word_of_int (int_cast w l smod int_cast w r)) else Unfolded)"
| "int_binary_fold UINT_DIV w l r =
     (if uint_cast w r \<noteq> 0 then Folded (uint_cast w l div uint_cast w r) else Unfolded)"
| "int_binary_fold UINT_MOD w l r =
     (if uint_cast w r \<noteq> 0 then Folded (uint_cast w l mod uint_cast w r) else Unfolded)"
| "int_binary_fold INT_AND w l r = Folded (l AND r)"
| "int_binary_fold INT_OR w l r = Folded (l OR r)"
| "int_binary_fold INT_XOR w l r = Folded (l XOR r)"
| "int_binary_fold INT_LSHIFT w l r = int_lshift_fold w l r"
| "int_binary_fold INT_RSHIFT w l r = int_rshift_fold w l r"
| "int_binary_fold INT_ARSHIFT w l r = int_arshift_fold w l r"
| "int_binary_fold INT_BOOL_OR w l r = Folded (of_bool_word (uint_cast w l \<noteq> 0 \<or> uint_cast w r \<noteq> 0))"
| "int_binary_fold INT_BOOL_AND w l r = Folded (of_bool_word (uint_cast w l \<noteq> 0 \<and> uint_cast w r \<noteq> 0))"

fun int_compare_fold :: "int_relation \<Rightarrow> opt_width \<Rightarrow> 64 word \<Rightarrow> 64 word \<Rightarrow> bool" where
  "int_compare_fold CMP_EQUALS w l r \<longleftrightarrow> uint_cast w l = uint_cast w r"
| "int_compare_fold CMP_NOT_EQUALS w l r \<longleftrightarrow> uint_cast w l \<noteq> uint_cast w r"
| "int_compare_fold CMP_GREATER w l r \<longleftrightarrow> int_cast w l > int_cast w r"
| "int_compare_fold CMP_GREATER_OR_EQUALS w l r \<longleftrightarrow> int_cast w l \<ge> int_cast w r"
| "int_compare_fold CMP_LESSER w l r \<longleftrightarrow> int_cast w l < int_cast w r"
| "int_compare_fold CMP_LESSER_OR_EQUALS w l r \<longleftrightarrow> int_cast w l \<le> int_cast w r"
| "int_compare_fold CMP_ABOVE w l r \<longleftrightarrow> uint_cast w l > uint_cast w r"
| "int_compare_fold CMP_ABOVE_OR_EQUALS w l r \<longleftrightarrow> uint_cast w l \<ge> uint_cast w r"
| "int_compare_fold CMP_BELOW w l r \<longleftrightarrow> uint_cast w l < uint_cast w r"
| "int_compare_fold CMP_BELOW_OR_EQUALS w l r \<longleftrightarrow> uint_cast w l \<le> uint_cast w r"

definition extract_bits_fold :: "bool \<Rightarrow> nat \<Rightarrow> nat \<Rightarrow> 64 word \<Rightarrow> fold_result" where
  "extract_bits_fold is_signed offset len x =
     (if offset \<ge> 64 \<or> (is_signed \<and> len > 64) then Undefined
      else
        let v = drop_bit offset x;
            sign_extend = is_signed \<and> len > 0 \<and> drop_bit (len - 1) v AND 1 \<noteq> 0
        in Folded (if len < 64 then
                     (if sign_extend then v OR NOT (push_bit len 1 - 1) else v AND (push_bit len 1 - 1))
                   else v))"

section \<open>Folding one instruction\<close>

datatype stop = Failed kefir_result | Undefined_behaviour | Not_modelled | Out_of_fuel

definition attempt :: "'a result \<Rightarrow> stop + 'a" where
  "attempt m = (case m of Inl e \<Rightarrow> Inl (Failed e) | Inr x \<Rightarrow> Inr x)"

definition is_int_const :: "opt_opcode \<Rightarrow> bool" where
  "is_int_const opc \<longleftrightarrow> opc = OPC_INT_CONST \<or> opc = OPC_UINT_CONST"

text \<open>The constant that a fold leaves behind, signed unless an operand was unsigned.\<close>

definition emit_constant :: "opt_code \<Rightarrow> ref \<Rightarrow> bool \<Rightarrow> fold_result \<Rightarrow> stop + (opt_code \<times> ref)" where
  "emit_constant c block_id unsigned_arg res = (case res of
     Undefined \<Rightarrow> Inl Undefined_behaviour
   | Unfolded \<Rightarrow> Inr (c, KEFIR_ID_NONE)
   | Folded v \<Rightarrow>
       bindE (attempt (if unsigned_arg then kefir_opt_code_builder_uint_constant c block_id v
                       else kefir_opt_code_builder_int_constant c block_id v)) (\<lambda>(c, i).
       Inr (c, Some i)))"

definition int_unary_const_fold :: "opt_code \<Rightarrow> opt_instruction \<Rightarrow> stop + (opt_code \<times> ref)" where
  "int_unary_const_fold c instr =
     bindE (attempt (kefir_opt_code_container_instr c (refs (operation instr) ! 0))) (\<lambda>arg1.
     if is_int_const (opcode (operation arg1)) then
       emit_constant c (instr_block instr) (opcode (operation arg1) = OPC_UINT_CONST)
         (int_unary_fold (opcode (operation instr)) (imm (operation arg1)))
     else if opcode (operation arg1) = OPC_INT_PLACEHOLDER then
       bindE (attempt (kefir_opt_code_builder_int_placeholder c (instr_block instr))) (\<lambda>(c, i). Inr (c, Some i))
     else Inr (c, KEFIR_ID_NONE))"

definition int_extract_bits_const_fold :: "opt_code \<Rightarrow> opt_instruction \<Rightarrow> stop + (opt_code \<times> ref)" where
  "int_extract_bits_const_fold c instr =
     bindE (attempt (kefir_opt_code_container_instr c (refs (operation instr) ! 0))) (\<lambda>arg1.
     if is_int_const (opcode (operation arg1)) then
       emit_constant c (instr_block instr) True
         (extract_bits_fold (opcode (operation instr) = OPC_BITS_EXTRACT_SIGNED) (bitfield_offset (operation instr))
           (bitfield_length (operation instr)) (imm (operation arg1)))
     else Inr (c, KEFIR_ID_NONE))"

text \<open>The result of the operation of an instruction on two constants.\<close>

definition fold_operation :: "opt_operation \<Rightarrow> 64 word \<Rightarrow> 64 word \<Rightarrow> stop + fold_result" where
  "fold_operation op l r = (case opcode op of
     OPC_INT f w \<Rightarrow> Inr (int_binary_fold f w l r)
   | OPC_SCALAR_COMPARE \<Rightarrow>
       (case comparison op of
          COMPARISON_INT w rel \<Rightarrow> Inr (Folded (of_bool_word (int_compare_fold rel w l r)))
        | COMPARISON_FLOAT _ _ \<Rightarrow> Inl (Failed KEFIR_INVALID_STATE))
   | _ \<Rightarrow> Inr Unfolded)"

definition int_binary_const_fold :: "opt_code \<Rightarrow> opt_instruction \<Rightarrow> stop + (opt_code \<times> ref)" where
  "int_binary_const_fold c instr =
     bindE (attempt (kefir_opt_code_container_instr c (refs (operation instr) ! 0))) (\<lambda>arg1.
     bindE (attempt (kefir_opt_code_container_instr c (refs (operation instr) ! 1))) (\<lambda>arg2.
     let opc1 = opcode (operation arg1); opc2 = opcode (operation arg2) in
     if opc1 = OPC_INT_PLACEHOLDER then
       bindE (attempt (kefir_opt_code_builder_int_placeholder c (instr_block instr))) (\<lambda>(c, i). Inr (c, Some i))
     else if is_int_const opc1 \<and> (is_int_const opc2 \<or> opc2 = OPC_INT_PLACEHOLDER) then
       bindE (fold_operation (operation instr) (imm (operation arg1))
                (if opc2 = OPC_INT_PLACEHOLDER then 0 else imm (operation arg2))) (\<lambda>res.
       emit_constant c (instr_block instr) (opc1 = OPC_UINT_CONST \<or> opc2 = OPC_UINT_CONST) res)
     else Inr (c, KEFIR_ID_NONE)))"

text \<open>
  The opcodes of the other families that the pass folds. Their folding is not translated: the list bounds the scope of
  the model, which stops with \<open>Not_modelled\<close> on them.
\<close>

definition other_folded :: "string list" where
  "other_folded = [
    ''bitint_from_signed'', ''bitint_from_unsigned'', ''bitint_get_signed'', ''bitint_get_unsigned'',
    ''bitint_cast_signed'', ''bitint_cast_unsigned'', ''float_to_bitint_signed'',
    ''float_to_bitint_unsigned'', ''double_to_bitint_signed'', ''double_to_bitint_unsigned'',
    ''long_double_to_bitint_signed'', ''long_double_to_bitint_unsigned'', ''bitint_signed_to_float'',
    ''bitint_unsigned_to_float'', ''bitint_signed_to_double'', ''bitint_unsigned_to_double'',
    ''bitint_signed_to_long_double'', ''bitint_unsigned_to_long_double'', ''bitint_to_bool'',
    ''bitint_invert'', ''bitint_negate'', ''bitint_bool_not'', ''bitint_add'', ''bitint_sub'',
    ''bitint_imul'', ''bitint_umul'', ''bitint_idiv'', ''bitint_udiv'', ''bitint_imod'',
    ''bitint_umod'', ''bitint_and'', ''bitint_or'', ''bitint_xor'', ''bitint_lshift'',
    ''bitint_rshift'', ''bitint_arshift'', ''bitint_equal'', ''bitint_greater'', ''bitint_less'',
    ''bitint_above'', ''bitint_below'', ''float32_neg'', ''float64_neg'', ''long_double_neg'',
    ''float32_add'', ''float32_sub'', ''float32_mul'', ''float32_div'', ''float64_add'',
    ''float64_sub'', ''float64_mul'', ''float64_div'', ''long_double_add'', ''long_double_sub'',
    ''long_double_mul'', ''long_double_div'', ''float32_to_int'', ''float32_to_uint'',
    ''float64_to_int'', ''float64_to_uint'', ''long_double_to_int'', ''long_double_to_uint'',
    ''int_to_float32'', ''uint_to_float32'', ''int_to_float64'', ''uint_to_float64'',
    ''int_to_long_double'', ''uint_to_long_double'', ''float32_to_float64'', ''float32_to_long_double'',
    ''float64_to_float32'', ''float64_to_long_double'', ''long_double_to_float32'',
    ''long_double_to_float64'', ''long_double_equals'', ''long_double_greater'', ''long_double_lesser'',
    ''complex_float32_neg'', ''complex_float64_neg'', ''complex_long_double_neg'',
    ''complex_float32_add'', ''complex_float64_add'', ''complex_long_double_add'',
    ''complex_float32_sub'', ''complex_float64_sub'', ''complex_long_double_sub'',
    ''complex_float32_mul'', ''complex_float64_mul'', ''complex_long_double_mul'',
    ''complex_float32_div'', ''complex_float64_div'', ''complex_long_double_div'', ''decimal32_add'',
    ''decimal32_sub'', ''decimal32_mul'', ''decimal32_div'', ''decimal64_add'', ''decimal64_sub'',
    ''decimal64_mul'', ''decimal64_div'', ''decimal128_add'', ''decimal128_sub'', ''decimal128_mul'',
    ''decimal128_div'', ''decimal32_equal'', ''decimal64_equal'', ''decimal128_equal'',
    ''decimal32_greater'', ''decimal64_greater'', ''decimal128_greater'', ''decimal32_less'',
    ''decimal64_less'', ''decimal128_less'', ''decimal32_neg'', ''decimal64_neg'', ''decimal128_neg'',
    ''decimal32_isnan'', ''decimal64_isnan'', ''decimal128_isnan'', ''decimal32_to_float32'',
    ''decimal32_to_float64'', ''decimal32_to_long_double'', ''decimal32_to_int'', ''decimal32_to_uint'',
    ''decimal32_to_decimal64'', ''decimal32_to_decimal128'', ''decimal64_to_float32'',
    ''decimal64_to_float64'', ''decimal64_to_long_double'', ''decimal64_to_int'', ''decimal64_to_uint'',
    ''decimal64_to_decimal32'', ''decimal64_to_decimal128'', ''decimal128_to_float32'',
    ''decimal128_to_float64'', ''decimal128_to_long_double'', ''decimal128_to_int'',
    ''decimal128_to_uint'', ''decimal128_to_decimal32'', ''decimal128_to_decimal64'',
    ''int_to_decimal32'', ''uint_to_decimal32'', ''float32_to_decimal32'', ''float64_to_decimal32'',
    ''long_double_to_decimal32'', ''int_to_decimal64'', ''uint_to_decimal64'', ''float32_to_decimal64'',
    ''float64_to_decimal64'', ''long_double_to_decimal64'', ''int_to_decimal128'',
    ''uint_to_decimal128'', ''float32_to_decimal128'', ''float64_to_decimal128'',
    ''long_double_to_decimal128'', ''decimal32_to_bitint_signed'', ''decimal32_to_bitint_unsigned'',
    ''decimal64_to_bitint_signed'', ''decimal64_to_bitint_unsigned'', ''decimal128_to_bitint_signed'',
    ''decimal128_to_bitint_unsigned'', ''bitint_signed_to_decimal32'', ''bitint_unsigned_to_decimal32'',
    ''bitint_signed_to_decimal64'', ''bitint_unsigned_to_decimal64'', ''bitint_signed_to_decimal128'',
    ''bitint_unsigned_to_decimal128'', ''int128_zero_extend_64bits'', ''int128_sign_extend_64bits'',
    ''int128_trunacate_int64'', ''int128_to_bool'', ''int128_bool_not'', ''int128_neg'', ''int128_not'',
    ''int128_signed_to_bitint'', ''int128_unsigned_to_bitint'', ''int128_from_bitint_signed'',
    ''int128_from_bitint_unsigned'', ''int128_signed_to_float32'', ''int128_usigned_to_float32'',
    ''int128_signed_to_float64'', ''int128_unsigned_to_float64'', ''int128_signed_to_long_double'',
    ''int128_unsigned_to_long_double'', ''int128_signed_from_float32'', ''int128_usigned_from_float32'',
    ''int128_signed_from_float64'', ''int128_unsigned_from_float64'',
    ''int128_signed_from_long_double'', ''int128_unsigned_from_long_double'',
    ''int128_signed_to_decimal32'', ''int128_unsigned_to_decimal32'', ''int128_signed_to_decimal64'',
    ''int128_unsigned_to_decimal64'', ''int128_signed_to_decimal128'',
    ''int128_unsigned_to_decimal128'', ''int128_signed_from_decimal32'',
    ''int128_unsigned_from_decimal32'', ''int128_signed_from_decimal64'',
    ''int128_unsigned_from_decimal64'', ''int128_signed_from_decimal128'',
    ''int128_unsigned_from_decimal128'']"

fun const_fold_instr :: "opt_code \<Rightarrow> opt_instruction \<Rightarrow> opt_opcode \<Rightarrow> stop + (opt_code \<times> ref)" where
  "const_fold_instr c instr (OPC_INT INT_BOOL_OR w) = Inr (c, KEFIR_ID_NONE)"
| "const_fold_instr c instr (OPC_INT INT_BOOL_AND w) = Inr (c, KEFIR_ID_NONE)"
| "const_fold_instr c instr (OPC_INT f w) = int_binary_const_fold c instr"
| "const_fold_instr c instr OPC_SCALAR_COMPARE = (case comparison (operation instr) of
     COMPARISON_INT _ _ \<Rightarrow> int_binary_const_fold c instr
   | COMPARISON_FLOAT _ _ \<Rightarrow> Inl Not_modelled)"
| "const_fold_instr c instr (OPC_INT_UNARY f w) = int_unary_const_fold c instr"
| "const_fold_instr c instr (OPC_INT64_ZERO_EXTEND w) = int_unary_const_fold c instr"
| "const_fold_instr c instr (OPC_INT64_SIGN_EXTEND w) = int_unary_const_fold c instr"
| "const_fold_instr c instr OPC_BITS_EXTRACT_SIGNED = int_extract_bits_const_fold c instr"
| "const_fold_instr c instr OPC_BITS_EXTRACT_UNSIGNED = int_extract_bits_const_fold c instr"
| "const_fold_instr c instr (OPC_OTHER cls name) =
     (if name \<in> set other_folded then Inl Not_modelled else Inr (c, KEFIR_ID_NONE))"
| "const_fold_instr c instr _ = Inr (c, KEFIR_ID_NONE)"

section \<open>The pass\<close>

text \<open>Putting the replacement in the place of the folded instruction; yields the next instruction of the block.\<close>

definition const_fold_replace :: "opt_code \<Rightarrow> nat \<Rightarrow> nat \<Rightarrow> ref \<Rightarrow> (opt_code \<times> ref) result" where
  "const_fold_replace c b i replacement_ref =
     bindE (kefir_opt_code_container_instr c (Some i)) (\<lambda>instr.
     bindE (kefir_opt_code_container_replace_references c replacement_ref (Some (instr_id instr))) (\<lambda>c.
     bindE (if cf_prev (code c ! i) \<noteq> KEFIR_ID_NONE \<or> cf_next (code c ! i) \<noteq> KEFIR_ID_NONE then
              bindE (kefir_opt_code_container_instr c replacement_ref) (\<lambda>replacement.
              bindE (if cf_prev replacement = KEFIR_ID_NONE \<and> cf_next replacement = KEFIR_ID_NONE
                     then kefir_opt_code_container_insert_control c (Some b) (Some i) replacement_ref
                     else Inr c) (\<lambda>c.
              kefir_opt_code_container_drop_control c (Some i)))
            else Inr c) (\<lambda>c.
     bindE (kefir_opt_instruction_next_sibling c (Some i)) (\<lambda>next_id.
     bindE (kefir_opt_code_container_drop_instr c (Some i)) (\<lambda>c.
     Inr (c, next_id))))))"

text \<open>The loop over a block; the fuel is a bound on its iterations.\<close>

fun const_fold_block :: "nat \<Rightarrow> opt_code \<Rightarrow> nat \<Rightarrow> ref \<Rightarrow> stop + opt_code" where
  "const_fold_block fuel c b None = Inr c"
| "const_fold_block 0 c b (Some i) = Inl Out_of_fuel"
| "const_fold_block (Suc fuel) c b (Some i) =
     bindE (attempt (kefir_opt_code_container_instr c (Some i))) (\<lambda>instr.
     bindE (const_fold_instr c instr (opcode (operation instr))) (\<lambda>(c, replacement_ref).
     if replacement_ref \<noteq> KEFIR_ID_NONE then
       bindE (attempt (const_fold_replace c b i replacement_ref)) (\<lambda>(c, next_id). const_fold_block fuel c b next_id)
     else
       bindE (attempt (kefir_opt_instruction_next_sibling c (Some i))) (\<lambda>next_id. const_fold_block fuel c b next_id)))"

fun const_fold_blocks :: "opt_code \<Rightarrow> nat list \<Rightarrow> stop + opt_code" where
  "const_fold_blocks c [] = Inr c"
| "const_fold_blocks c (b # bs) =
     bindE (attempt (kefir_opt_code_block_instr_head c (Some b))) (\<lambda>head.
     bindE (const_fold_block (2 * length (code c)) c b head) (\<lambda>c.
     const_fold_blocks c bs))"

definition const_fold_apply :: "opt_code \<Rightarrow> stop + opt_code" where
  "const_fold_apply c = const_fold_blocks c [0..<length (blocks c)]"

end
