(* ===== verification/Kefir_Opt_Fold_Int.thy ===== *)
theory Kefir_Opt_Fold_Int
  imports Kefir_Opt_Fold
begin

text \<open>
  What the integer folds compute, against operations on integers of the width of the opcode. The
  upper bits of the result of a narrow operation are not specified.
\<close>

unbundle bit_operations_syntax

section \<open>Reference operations\<close>

definition wuval :: "opt_width \<Rightarrow> 64 word \<Rightarrow> int" where
  "wuval w x = take_bit (width_bits w) (uint x)"

definition wsval :: "opt_width \<Rightarrow> 64 word \<Rightarrow> int" where
  "wsval w x = signed_take_bit (width_bits w - 1) (uint x)"

definition agrees :: "opt_width \<Rightarrow> 64 word \<Rightarrow> int \<Rightarrow> bool" where
  "agrees w v z \<longleftrightarrow> wuval w v = take_bit (width_bits w) z"

text \<open>The result of an operation, \<open>None\<close> where C leaves it undefined.\<close>

fun int_spec :: "int_binary \<Rightarrow> opt_width \<Rightarrow> 64 word \<Rightarrow> 64 word \<Rightarrow> int option" where
  "int_spec INT_ADD w l r = Some (wuval w l + wuval w r)"
| "int_spec INT_SUB w l r = Some (wuval w l - wuval w r)"
| "int_spec INT_MUL w l r = Some (wsval w l * wsval w r)"
| "int_spec UINT_MUL w l r = Some (wuval w l * wuval w r)"
| "int_spec INT_DIV w l r =
     (if wsval w r = 0 \<or> wsval w l = - (2 ^ (width_bits w - 1)) \<and> wsval w r = - 1 then None else Some (wsval w l sdiv wsval w r))"
| "int_spec INT_MOD w l r =
     (if wsval w r = 0 \<or> wsval w l = - (2 ^ (width_bits w - 1)) \<and> wsval w r = - 1 then None else Some (wsval w l smod wsval w r))"
| "int_spec UINT_DIV w l r = (if wuval w r = 0 then None else Some (wuval w l div wuval w r))"
| "int_spec UINT_MOD w l r = (if wuval w r = 0 then None else Some (wuval w l mod wuval w r))"
| "int_spec INT_AND w l r = Some (wuval w l AND wuval w r)"
| "int_spec INT_OR w l r = Some (wuval w l OR wuval w r)"
| "int_spec INT_XOR w l r = Some (wuval w l XOR wuval w r)"
| "int_spec INT_LSHIFT w l r = (if unat r < width_bits w then Some (wuval w l * 2 ^ unat r) else None)"
| "int_spec INT_RSHIFT w l r = (if unat r < width_bits w then Some (wuval w l div 2 ^ unat r) else None)"
| "int_spec INT_ARSHIFT w l r = (if unat r < width_bits w then Some (wsval w l div 2 ^ unat r) else None)"
| "int_spec INT_BOOL_OR w l r = Some (if wuval w l \<noteq> 0 \<or> wuval w r \<noteq> 0 then 1 else 0)"
| "int_spec INT_BOOL_AND w l r = Some (if wuval w l \<noteq> 0 \<and> wuval w r \<noteq> 0 then 1 else 0)"

section \<open>Conversions\<close>

lemma width_bits_le [simp]: "width_bits w \<le> 64" "0 < width_bits w"
  by (cases w; simp)+

lemma uint_uint_cast: "uint (uint_cast w x) = wuval w x"
  by (simp add: uint_cast_def wuval_def unsigned_take_bit_eq)

lemma uint_cast_64 [simp]: "uint_cast W64 x = x"
  by (simp add: uint_cast_def take_bit_word_eq_self)

lemma int_cast_eq: "int_cast w x = wsval w x"
  by (simp add: int_cast_def wsval_def)

lemma uint_cast_eq_iff: "uint_cast w x = uint_cast w y \<longleftrightarrow> wuval w x = wuval w y"
  by (metis uint_uint_cast word_uint_eqI)

lemma uint_cast_0_iff: "uint_cast w x = 0 \<longleftrightarrow> wuval w x = 0"
  by (metis uint_uint_cast unsigned_0 word_uint_eqI)

lemma uint_cast_less_iff: "uint_cast w x < uint_cast w y \<longleftrightarrow> wuval w x < wuval w y"
    "uint_cast w x \<le> uint_cast w y \<longleftrightarrow> wuval w x \<le> wuval w y"
  by (simp_all add: word_less_alt word_le_def uint_uint_cast)

lemma wuval_bounds: "0 \<le> wuval w x" "wuval w x < 2 ^ width_bits w"
  by (simp_all add: wuval_def)

lemma wuval_64 [simp]: "wuval W64 x = uint x"
  using unsigned_less [of x, where 'a = int] by (simp add: wuval_def take_bit_int_eq_self_iff)

lemma take_bit_wsval: "take_bit (width_bits w) (wsval w x) = wuval w x"
  unfolding wsval_def wuval_def by (cases w) (simp_all add: take_bit_signed_take_bit)

lemma wsval_bounds: "- (2 ^ (width_bits w - 1)) \<le> wsval w x" "wsval w x < 2 ^ (width_bits w - 1)"
  unfolding wsval_def by (simp_all add: signed_take_bit_int_greater_eq_minus_exp signed_take_bit_int_less_exp)

lemma agrees_word_of_int: "agrees w (word_of_int z) z"
  by (simp add: agrees_def wuval_def unsigned_of_int min_absorb1)

lemma agrees_cong: "take_bit (width_bits w) y = take_bit (width_bits w) z \<Longrightarrow> agrees w v y = agrees w v z"
  by (simp add: agrees_def)

lemma agrees_wrap32: "agrees w (wrap32 w v) z = agrees w v z"
  by (cases w) (simp_all add: agrees_def wuval_def unsigned_take_bit_eq)

lemma agrees_self: "agrees w v (uint v)"
  by (simp add: agrees_def wuval_def)

lemma agrees_exact: "uint v = z \<Longrightarrow> agrees w v z"
  using agrees_self by blast

lemma agrees_word:
  "uint v = take_bit 64 z \<Longrightarrow> agrees w v z"
  by (simp add: agrees_def wuval_def min_absorb1)

section \<open>The folds\<close>

lemma fold_add: "agrees w (uint_cast w l + uint_cast w r) (wuval w l + wuval w r)"
  by (rule agrees_word) (simp add: uint_word_ariths uint_uint_cast take_bit_eq_mod)

lemma fold_sub: "agrees w (uint_cast w l - uint_cast w r) (wuval w l - wuval w r)"
  by (rule agrees_word) (simp add: uint_word_ariths uint_uint_cast take_bit_eq_mod)

lemma fold_mul: "agrees w (uint_cast w l * uint_cast w r) (wuval w l * wuval w r)"
  by (rule agrees_word) (simp add: uint_word_ariths uint_uint_cast take_bit_eq_mod)

lemma take_bit_mul_wsval: "take_bit (width_bits w) (wsval w l * wsval w r) = take_bit (width_bits w) (wuval w l * wuval w r)"
  by (metis take_bit_mult take_bit_wsval)

lemma fold_shl: "agrees w (push_bit n (uint_cast w l)) (wuval w l * 2 ^ n)"
proof (rule agrees_word)
  have "uint (push_bit n (uint_cast w l)) = take_bit 64 (push_bit n (uint (uint_cast w l)))"
    using unsigned_push_bit_eq [of n "uint_cast w l", where 'a = int] by simp
  then show "uint (push_bit n (uint_cast w l)) = take_bit 64 (wuval w l * 2 ^ n)"
    by (simp only: uint_uint_cast push_bit_eq_mult)
qed

lemma fold_bitwise:
  "agrees w (l AND r) (wuval w l AND wuval w r)" "agrees w (l OR r) (wuval w l OR wuval w r)"
  "agrees w (l XOR r) (wuval w l XOR wuval w r)"
  by (simp_all add: agrees_def wuval_def unsigned_and_eq unsigned_or_eq unsigned_xor_eq)

lemma sint_cases: "sint (r :: 64 word) = (if uint r < 2 ^ 63 then uint r else uint r - 2 ^ 64)"
proof -
  define x where "x = uint r"
  have b: "0 \<le> x" "x < 2 ^ 64" using unsigned_less [of r, where 'a = int] by (simp_all add: x_def)
  have "sint r = (x + 2 ^ 63) mod 2 ^ 64 - 2 ^ 63"
    by (simp add: sint_uint signed_take_bit_eq_take_bit_shift take_bit_eq_mod x_def)
  also have "(x + 2 ^ 63) mod 2 ^ 64 = (if x < 2 ^ 63 then x + 2 ^ 63 else x + 2 ^ 63 - 2 ^ 64)"
  proof (cases "x < 2 ^ 63")
    case True
    then show ?thesis using b by (simp add: mod_pos_pos_trivial)
  next
    case False
    have "(x + 2 ^ 63) mod 2 ^ 64 = (x + 2 ^ 63 - 2 ^ 64) mod 2 ^ 64"
      by (rule minus_mod_self2 [symmetric])
    then show ?thesis using False b by (simp add: mod_pos_pos_trivial)
  qed
  finally show ?thesis by (simp add: x_def)
qed

lemma arshift_amount:
  assumes "p \<le> 64"
  shows "sint r < 0 \<or> sint (r :: 64 word) \<ge> int p \<longleftrightarrow> unat r \<ge> p"
proof -
  define n where "n = unat r"
  have u: "uint r = int n" by (simp add: n_def)
  have "n < 2 ^ 64" using unsigned_less [of r, where 'a = nat] by (simp add: n_def)
  then show ?thesis
    unfolding sint_cases u n_def [symmetric] using assms by (cases "n < 2 ^ 63") auto
qed

lemma nat_sint_small: "unat r < 64 \<Longrightarrow> nat (sint (r :: 64 word)) = unat r"
proof -
  define n where "n = unat r"
  have u: "uint r = int n" by (simp add: n_def)
  assume "unat r < 64"
  then show ?thesis unfolding sint_cases u n_def [symmetric] by simp
qed

lemma narrow_shift_bound:
  assumes "w = W8 \<or> w = W16" "unat r < width_bits w"
  shows "wuval w l * 2 ^ unat r < 2 ^ 31"
proof -
  have "wuval w l * 2 ^ unat r < 2 ^ width_bits w * 2 ^ unat r"
    using wuval_bounds(2) [of w l] by (intro mult_strict_right_mono) simp_all
  also have "\<dots> \<le> 2 ^ width_bits w * 2 ^ (width_bits w - 1)"
    using assms(2) by (intro mult_left_mono power_increasing) auto
  also have "\<dots> \<le> (2 :: int) ^ 31"
    using assms(1) by auto
  finally show ?thesis .
qed

lemma promoted_bits_ge: "width_bits w \<le> promoted_bits w" "promoted_bits w \<le> 64"
  by (cases w; simp)+

lemma fold_shifts:
  assumes "unat r < width_bits w"
  shows "int_lshift_fold w l r = Folded (wrap32 w (push_bit (unat r) (uint_cast w l)))"
    "int_rshift_fold w l r = Folded (drop_bit (unat r) (uint_cast w l))"
    "int_arshift_fold w l r = Folded (word_of_int (drop_bit (unat r) (wsval w l)))"
proof -
  have p: "\<not> promoted_bits w \<le> unat r" using assms promoted_bits_ge(1) [of w] by linarith
  then have n: "nat (sint r) = unat r"
    using nat_sint_small [of r] promoted_bits_ge(2) [of w] by linarith
  show "int_lshift_fold w l r = Folded (wrap32 w (push_bit (unat r) (uint_cast w l)))"
    using p narrow_shift_bound [of w r l] assms by (auto simp: int_lshift_fold_def uint_uint_cast not_le)
  show "int_rshift_fold w l r = Folded (drop_bit (unat r) (uint_cast w l))"
    using p by (simp add: int_rshift_fold_def)
  have "\<not> (sint r < 0 \<or> sint r \<ge> int (promoted_bits w))"
    using arshift_amount [OF promoted_bits_ge(2)] p by blast
  then show "int_arshift_fold w l r = Folded (word_of_int (drop_bit (unat r) (wsval w l)))"
    unfolding int_arshift_fold_def n int_cast_eq by (rule if_not_P)
qed

lemma div_mod_eq: "div_mod_preconditions w l r \<longleftrightarrow>
    \<not> (wsval w r = 0 \<or> wsval w l = - (2 ^ (width_bits w - 1)) \<and> wsval w r = - 1)"
  by (auto simp: div_mod_preconditions_def int_cast_eq int_min_def)

lemma fold_udiv:
  "agrees w (uint_cast w l div uint_cast w r) (wuval w l div wuval w r)"
  "agrees w (uint_cast w l mod uint_cast w r) (wuval w l mod wuval w r)"
  by (rule agrees_exact, simp add: uint_div uint_mod uint_uint_cast)+

lemma fold_rshift: "agrees w (drop_bit n (uint_cast w l)) (wuval w l div 2 ^ n)"
proof (rule agrees_exact)
  have "uint (drop_bit n (uint_cast w l)) = drop_bit n (take_bit 64 (uint (uint_cast w l)))"
    using unsigned_drop_bit_eq [of n "uint_cast w l", where 'a = int] by simp
  also have "take_bit 64 (uint (uint_cast w l)) = wuval w l"
    by (simp add: uint_uint_cast wuval_def min_absorb1 min_absorb2)
  finally show "uint (drop_bit n (uint_cast w l)) = wuval w l div 2 ^ n" by (simp only: drop_bit_eq_div)
qed

lemma fold_arshift: "agrees w (word_of_int (drop_bit n z)) (z div 2 ^ n)"
  using agrees_word_of_int [of w "drop_bit n z"] by (simp only: drop_bit_eq_div)

lemma agrees_bool [simp]: "agrees w (of_bool_word True) 1" "agrees w (of_bool_word False) 0"
  by (rule agrees_exact, simp add: of_bool_word_def)+

definition mul_undefined :: "int_binary \<Rightarrow> opt_width \<Rightarrow> 64 word \<Rightarrow> 64 word \<Rightarrow> bool" where
  "mul_undefined f w l r \<longleftrightarrow> (f = INT_MUL \<or> f = UINT_MUL) \<and> w = W16 \<and> wuval w l * wuval w r \<ge> 2 ^ 31"

lemma int_mul_fold_eq:
  "int_mul_fold w l r = (if w = W16 \<and> wuval w l * wuval w r \<ge> 2 ^ 31 then Undefined
     else Folded (wrap32 w (uint_cast w l * uint_cast w r)))"
  by (simp add: int_mul_fold_def uint_uint_cast)

lemma int_binary_fold_total:
  assumes "int_spec f w l r = Some z"
  shows "if mul_undefined f w l r then int_binary_fold f w l r = Undefined
    else \<exists>v. int_binary_fold f w l r = Folded v \<and> agrees w v z"
proof (cases f)
  case INT_MUL
  then show ?thesis
    using assms fold_mul [of w l r] agrees_cong [OF take_bit_mul_wsval, of w]
    by (auto simp: mul_undefined_def int_mul_fold_eq agrees_wrap32)
next
  case UINT_MUL
  then show ?thesis
    using assms fold_mul [of w l r] by (auto simp: mul_undefined_def int_mul_fold_eq agrees_wrap32)
next
  case INT_LSHIFT
  then show ?thesis
    using assms fold_shifts(1) [of r w l] fold_shl [of w "unat r" l]
    by (auto simp: mul_undefined_def agrees_wrap32 split: if_splits)
next
  case INT_RSHIFT
  then show ?thesis
    using assms fold_shifts(2) [of r w l] fold_rshift [of w "unat r" l]
    by (auto simp: mul_undefined_def split: if_splits)
next
  case INT_ARSHIFT
  then show ?thesis
    using assms fold_shifts(3) [of r w l] fold_arshift [of w "unat r" "wsval w l"]
    by (auto simp: mul_undefined_def split: if_splits)
qed (use assms fold_add [of w l r] fold_sub [of w l r] fold_bitwise [of w l r] fold_udiv [of w l r]
      agrees_word_of_int [of w] in
    \<open>auto simp: mul_undefined_def agrees_wrap32 div_mod_eq int_cast_eq uint_cast_0_iff split: if_splits\<close>)

lemma int_binary_fold_unfolded:
  "int_binary_fold f w l r = Unfolded \<longleftrightarrow>
     (f = INT_DIV \<or> f = INT_MOD \<or> f = UINT_DIV \<or> f = UINT_MOD) \<and> int_spec f w l r = None"
  by (cases f) (auto simp: int_mul_fold_def int_lshift_fold_def int_rshift_fold_def int_arshift_fold_def
      div_mod_eq uint_cast_0_iff)

lemma int_binary_fold_allowed:
  assumes "int_binary_fold f w l r = Folded v" "int_spec f w l r = Some z"
  shows "agrees w v z"
  using int_binary_fold_total [OF assms(2)] assms(1) by (auto split: if_splits)

section \<open>Unary operations and bit fields\<close>

fun unary_spec :: "opt_opcode \<Rightarrow> 64 word \<Rightarrow> (opt_width \<times> int) option" where
  "unary_spec (OPC_INT_UNARY INT_TO_BOOL w) x = Some (W64, if wuval w x \<noteq> 0 then 1 else 0)"
| "unary_spec (OPC_INT_UNARY INT_NEG w) x = Some (w, - wsval w x)"
| "unary_spec (OPC_INT_UNARY INT_NOT w) x = Some (w, NOT (wuval w x))"
| "unary_spec (OPC_INT_UNARY INT_BOOL_NOT w) x = Some (W64, if wuval w x = 0 then 1 else 0)"
| "unary_spec (OPC_INT64_ZERO_EXTEND w) x = Some (W64, wuval w x)"
| "unary_spec (OPC_INT64_SIGN_EXTEND w) x = Some (W64, wsval w x)"
| "unary_spec _ x = None"

lemma agrees_neg: "agrees w (- uint_cast w x) (- wsval w x)"
proof -
  have "uint (- uint_cast w x) = take_bit 64 (- wuval w x)"
    by (simp add: uint_word_ariths uint_uint_cast take_bit_eq_mod)
  then have "agrees w (- uint_cast w x) (- wuval w x)" by (rule agrees_word)
  moreover have "take_bit (width_bits w) (- wuval w x) = take_bit (width_bits w) (- wsval w x)"
    by (metis take_bit_minus take_bit_wsval)
  ultimately show ?thesis using agrees_cong by blast
qed

lemma agrees_not: "agrees w (NOT x) (NOT (wuval w x))"
  by (simp add: agrees_def wuval_def unsigned_not_eq take_bit_not_take_bit min_absorb1)

lemma int_unary_fold_allowed:
  assumes "int_unary_fold opc x = Folded v" "unary_spec opc x = Some (w, z)"
  shows "agrees w v z"
  using assms agrees_neg agrees_neg [of W64 x] agrees_not agrees_word_of_int
  by (cases "(opc, x)" rule: int_unary_fold.cases)
     (auto simp: uint_cast_0_iff int_cast_eq uint_uint_cast
       intro: agrees_exact split: if_splits)

lemma int_unary_fold_undefined:
  "int_unary_fold opc x = Undefined \<longleftrightarrow> opc = OPC_INT_UNARY INT_NEG W64 \<and> x = 2 ^ 63"
  by (cases "(opc, x)" rule: int_unary_fold.cases) auto

end
