(* ===== verification/Kefir_Opt_Fold_Sem.thy ===== *)
theory Kefir_Opt_Fold_Sem
  imports Kefir_Opt_Fold_Int Kefir_Opt_Code_Replace
begin

text \<open>
  The values an instruction may have. An integer operation determines the bits of its width, the
  upper bits are free; where C leaves an operation undefined every value is allowed. A
  placeholder stands for an indeterminate value, and so does an integer operation on it. The value of
  any other instruction is a function of the values of its inputs, and that of a phi a parameter.
\<close>

unbundle bit_operations_syntax

section \<open>Integer operations\<close>

fun int_relation_holds :: "int_relation \<Rightarrow> opt_width \<Rightarrow> 64 word \<Rightarrow> 64 word \<Rightarrow> bool" where
  "int_relation_holds CMP_EQUALS w x y \<longleftrightarrow> wuval w x = wuval w y"
| "int_relation_holds CMP_NOT_EQUALS w x y \<longleftrightarrow> wuval w x \<noteq> wuval w y"
| "int_relation_holds CMP_GREATER w x y \<longleftrightarrow> wsval w x > wsval w y"
| "int_relation_holds CMP_GREATER_OR_EQUALS w x y \<longleftrightarrow> wsval w x \<ge> wsval w y"
| "int_relation_holds CMP_LESSER w x y \<longleftrightarrow> wsval w x < wsval w y"
| "int_relation_holds CMP_LESSER_OR_EQUALS w x y \<longleftrightarrow> wsval w x \<le> wsval w y"
| "int_relation_holds CMP_ABOVE w x y \<longleftrightarrow> wuval w x > wuval w y"
| "int_relation_holds CMP_ABOVE_OR_EQUALS w x y \<longleftrightarrow> wuval w x \<ge> wuval w y"
| "int_relation_holds CMP_BELOW w x y \<longleftrightarrow> wuval w x < wuval w y"
| "int_relation_holds CMP_BELOW_OR_EQUALS w x y \<longleftrightarrow> wuval w x \<le> wuval w y"

definition field_value :: "bool \<Rightarrow> nat \<Rightarrow> nat \<Rightarrow> 64 word \<Rightarrow> 64 word" where
  "field_value is_signed offset len x =
     (if is_signed then signed_take_bit (len - 1) (drop_bit offset x) else take_bit len (drop_bit offset x))"

lemma int_compare_fold_eq: "int_compare_fold rel w x y \<longleftrightarrow> int_relation_holds rel w x y"
  by (cases rel) (simp_all add: uint_cast_eq_iff uint_cast_less_iff int_cast_eq)

lemma extract_bits_fold_eq:
  assumes "0 < len" "offset + len \<le> 64"
  shows "extract_bits_fold is_signed offset len x = Folded (field_value is_signed offset len x)"
proof -
  obtain l where l: "len = Suc l" using assms(1) by (cases len) auto
  define v where "v = drop_bit offset x"
  have low_bit: "y AND 1 \<noteq> 0 \<longleftrightarrow> odd y" for y :: "64 word" by (simp add: and_one_eq mod_2_eq_odd)
  have m: "push_bit len (1 :: 64 word) - 1 = mask len" by (simp add: mask_eq_exp_minus_1)
  have "(if len < 64 then (if is_signed \<and> len > 0 \<and> odd (drop_bit (len - 1) v) then v OR NOT (push_bit len 1 - 1)
      else v AND (push_bit len 1 - 1)) else v) = field_value is_signed offset len x"
    unfolding m
  proof (rule bit_word_eqI)
    fix n assume "n < LENGTH(64)"
    then have "n < 64" "n < Suc l \<longleftrightarrow> n < l \<or> n = l" by auto
    then show "bit (if len < 64 then (if is_signed \<and> len > 0 \<and> odd (drop_bit (len - 1) v) then v OR NOT (mask len)
      else v AND mask len) else v) n = bit (field_value is_signed offset len x) n"
      using assms(2) unfolding l
      by (cases "l < n"; cases "n = l")
         (auto simp: field_value_def v_def [symmetric] bit_simps even_drop_bit_iff_not_bit)
  qed
  then have "(if len < 64 then (if is_signed \<and> len > 0 \<and> drop_bit (len - 1) v AND 1 \<noteq> 0 then v OR NOT (push_bit len 1 - 1)
      else v AND (push_bit len 1 - 1)) else v) = field_value is_signed offset len x"
    unfolding low_bit .
  moreover have "\<not> (offset \<ge> 64 \<or> (is_signed \<and> len > 64))" using assms by auto
  ultimately show ?thesis
    unfolding extract_bits_fold_def Let_def v_def [symmetric] by (simp only: if_False)
qed

section \<open>Values\<close>

definition op_allows :: "opt_operation \<Rightarrow> 64 word list \<Rightarrow> 64 word \<Rightarrow> bool" where
  "op_allows op xs v \<longleftrightarrow> (case opcode op of
     OPC_INT f w \<Rightarrow> length xs = 2 \<and> (case int_spec f w (xs ! 0) (xs ! 1) of None \<Rightarrow> True | Some z \<Rightarrow> agrees w v z)
   | OPC_SCALAR_COMPARE \<Rightarrow> length xs = 2 \<and> (case comparison op of
       COMPARISON_INT w rel \<Rightarrow> v = of_bool_word (int_relation_holds rel w (xs ! 0) (xs ! 1)) | _ \<Rightarrow> False)
   | OPC_BITS_EXTRACT_SIGNED \<Rightarrow> length xs = 1 \<and>
       (0 < bitfield_length op \<and> bitfield_offset op + bitfield_length op \<le> 64 \<longrightarrow>
        v = field_value True (bitfield_offset op) (bitfield_length op) (xs ! 0))
   | OPC_BITS_EXTRACT_UNSIGNED \<Rightarrow> length xs = 1 \<and>
       (0 < bitfield_length op \<and> bitfield_offset op + bitfield_length op \<le> 64 \<longrightarrow>
        v = field_value False (bitfield_offset op) (bitfield_length op) (xs ! 0))
   | opc \<Rightarrow> length xs = 1 \<and> (case unary_spec opc (xs ! 0) of None \<Rightarrow> False | Some (w, z) \<Rightarrow> agrees w v z))"

definition is_int_op :: "opt_operation \<Rightarrow> bool" where
  "is_int_op op \<longleftrightarrow> (case opcode op of
     OPC_INT f w \<Rightarrow> True | OPC_INT_UNARY f w \<Rightarrow> True
   | OPC_INT64_ZERO_EXTEND w \<Rightarrow> True | OPC_INT64_SIGN_EXTEND w \<Rightarrow> True
   | OPC_BITS_EXTRACT_SIGNED \<Rightarrow> True | OPC_BITS_EXTRACT_UNSIGNED \<Rightarrow> True
   | OPC_SCALAR_COMPARE \<Rightarrow> (case comparison op of COMPARISON_INT w rel \<Rightarrow> True | _ \<Rightarrow> False)
   | _ \<Rightarrow> False)"

definition is_opaque :: "opt_operation \<Rightarrow> bool" where
  "is_opaque op \<longleftrightarrow> \<not> is_int_op op \<and> \<not> is_int_const (opcode op) \<and> opcode op \<noteq> OPC_INT_PLACEHOLDER \<and> opcode op \<noteq> OPC_PHI"

inductive indeterminate :: "opt_code \<Rightarrow> nat \<Rightarrow> bool" for c where
  indeterminate_placeholder: "live c i \<Longrightarrow> opcode (operation (code c ! i)) = OPC_INT_PLACEHOLDER \<Longrightarrow> indeterminate c i"
| indeterminate_operand: "live c i \<Longrightarrow> is_int_op (operation (code c ! i)) \<Longrightarrow> inputs c i = Inr rs \<Longrightarrow> Some j \<in> set rs \<Longrightarrow>
    indeterminate c j \<Longrightarrow> indeterminate c i"

inductive evaluates :: "(nat \<Rightarrow> 64 word list \<Rightarrow> 64 word) \<Rightarrow> opt_code \<Rightarrow> nat \<Rightarrow> 64 word \<Rightarrow> bool" for env c where
  evaluates_const: "live c i \<Longrightarrow> is_int_const (opcode (operation (code c ! i))) \<Longrightarrow> evaluates env c i (imm (operation (code c ! i)))"
| evaluates_indeterminate: "indeterminate c i \<Longrightarrow> evaluates env c i v"
| evaluates_int: "live c i \<Longrightarrow> is_int_op (operation (code c ! i)) \<Longrightarrow> inputs c i = Inr (map Some js) \<Longrightarrow>
    list_all2 (evaluates env c) js xs \<Longrightarrow> op_allows (operation (code c ! i)) xs v \<Longrightarrow>
    evaluates env c i v"
| evaluates_phi: "live c i \<Longrightarrow> opcode (operation (code c ! i)) = OPC_PHI \<Longrightarrow> evaluates env c i (env i [])"
| evaluates_opaque: "live c i \<Longrightarrow> is_opaque (operation (code c ! i)) \<Longrightarrow> inputs c i = Inr (map Some js) \<Longrightarrow>
    list_all2 (evaluates env c) js xs \<Longrightarrow> evaluates env c i (env i xs)"
  monos list_all2_mono

lemma indeterminate_live: "indeterminate c i \<Longrightarrow> live c i"
  by (induction rule: indeterminate.induct) auto

lemma evaluates_live: "evaluates env c i v \<Longrightarrow> live c i"
  by (cases rule: evaluates.cases) (auto dest: indeterminate_live)

text \<open>The part of an operation that a value depends on, besides the inputs.\<close>

definition same_view :: "opt_operation \<Rightarrow> opt_operation \<Rightarrow> bool" where
  "same_view op op' \<longleftrightarrow> opcode op' = opcode op \<and> comparison op' = comparison op \<and> imm op' = imm op \<and>
     bitfield_offset op' = bitfield_offset op \<and> bitfield_length op' = bitfield_length op"

lemma same_view_refl [simp]: "same_view op op"
  by (simp add: same_view_def)

lemma same_view_trans: "same_view op op' \<Longrightarrow> same_view op' op'' \<Longrightarrow> same_view op op''"
  by (simp add: same_view_def)

lemma same_view_kind:
  assumes "same_view op op'"
  shows "is_int_op op' = is_int_op op" "is_opaque op' = is_opaque op" "op_allows op' xs v = op_allows op xs v"
proof -
  have e: "opcode op' = opcode op" "comparison op' = comparison op" "imm op' = imm op"
      "bitfield_offset op' = bitfield_offset op" "bitfield_length op' = bitfield_length op"
    using assms by (simp_all add: same_view_def)
  show i: "is_int_op op' = is_int_op op" unfolding is_int_op_def e ..
  show "is_opaque op' = is_opaque op" unfolding is_opaque_def e i ..
  show "op_allows op' xs v = op_allows op xs v" unfolding op_allows_def e ..
qed

section \<open>Replacing an instruction by one of its values\<close>

text \<open>
  \<open>replaces c c' i r\<close>: in \<open>c'\<close> the instruction \<open>i\<close> is gone and the new instruction \<open>r\<close>, which has no inputs,
  stands in its place.
\<close>

definition replaces :: "opt_code \<Rightarrow> opt_code \<Rightarrow> nat \<Rightarrow> nat \<Rightarrow> bool" where
  "replaces c c' i r \<longleftrightarrow> \<not> live c r \<and> inputs c' r = Inr [] \<and>
     (\<forall>u rs. live c u \<longrightarrow> inputs c u = Inr rs \<longrightarrow> (\<forall>j. Some j \<in> set rs \<longrightarrow> live c j)) \<and>
     (\<forall>u. live c' u \<longrightarrow> u \<noteq> r \<longrightarrow> live c u \<and> same_view (operation (code c ! u)) (operation (code c' ! u)) \<and>
        (\<exists>rs. inputs c u = Inr rs \<and> inputs c' u = Inr (map (subst_ref r i) rs)))"

lemma replacesD:
  assumes "replaces c c' i r" "live c' u" "u \<noteq> r"
  shows "live c u" "same_view (operation (code c ! u)) (operation (code c' ! u))"
    "\<exists>rs. inputs c u = Inr rs \<and> inputs c' u = Inr (map (subst_ref r i) rs) \<and> (\<forall>j. Some j \<in> set rs \<longrightarrow> live c j)"
  using assms unfolding replaces_def by blast+

definition origin :: "nat \<Rightarrow> nat \<Rightarrow> nat \<Rightarrow> nat" where
  "origin i r j = (if j = r then i else j)"

lemma replaced_operands:
  assumes "map (subst_ref r i) rs = map Some js'" "\<forall>j. Some j \<in> set rs \<longrightarrow> j \<noteq> r"
  shows "rs = map Some (map (origin i r) js')"
  using assms
proof (induction rs arbitrary: js')
  case (Cons x rs)
  then obtain j' ks where js: "js' = j' # ks" "subst_ref r i x = Some j'" "map (subst_ref r i) rs = map Some ks"
    by (cases js') auto
  have "x = Some (origin i r j')"
    using js(2) Cons.prems(2) by (auto simp: REPLACE_REF_def origin_def split: if_splits)
  then show ?case using Cons.IH [OF js(3)] Cons.prems(2) js(1) by auto
qed simp

lemma replaces_indeterminate:
  assumes rp: "replaces c c' i r"
    and r: "opcode (operation (code c' ! r)) = OPC_INT_PLACEHOLDER \<Longrightarrow> indeterminate c i"
  shows "indeterminate c' u \<Longrightarrow> indeterminate c (origin i r u)"
proof (induction rule: indeterminate.induct)
  case (indeterminate_placeholder u)
  show ?case
  proof (cases "u = r")
    case True
    then show ?thesis using r indeterminate_placeholder by (simp add: origin_def)
  next
    case False
    note d = replacesD [OF rp indeterminate_placeholder(1) False]
    show ?thesis
      using d(1,2) indeterminate_placeholder(2) False
      by (auto simp: origin_def same_view_def intro: indeterminate.indeterminate_placeholder)
  qed
next
  case (indeterminate_operand u rs' j)
  have "u \<noteq> r" using indeterminate_operand(3,4) rp by (auto simp: replaces_def)
  note d = replacesD [OF rp indeterminate_operand(1) this]
  obtain rs where rs: "inputs c u = Inr rs" "rs' = map (subst_ref r i) rs" "\<forall>j. Some j \<in> set rs \<longrightarrow> live c j"
    using d(3) indeterminate_operand(3) by auto
  obtain x where x: "x \<in> set rs" "subst_ref r i x = Some j"
    using indeterminate_operand(4) rs(2) by auto
  have "x \<noteq> Some r" using x(1) rs(3) rp by (auto simp: replaces_def)
  then have "x = Some (origin i r j)"
    using x(2) by (auto simp: REPLACE_REF_def origin_def split: if_splits)
  then have "Some (origin i r j) \<in> set rs" using x(1) by simp
  then show ?case
    using indeterminate.indeterminate_operand [OF d(1) _ rs(1) _ indeterminate_operand.IH]
      indeterminate_operand(2) same_view_kind(1) [OF d(2)] \<open>u \<noteq> r\<close> by (simp add: origin_def)
qed

lemma replaces_evaluates:
  assumes rp: "replaces c c' i r"
    and ph: "opcode (operation (code c' ! r)) = OPC_INT_PLACEHOLDER \<Longrightarrow> indeterminate c i"
    and k: "is_int_const (opcode (operation (code c' ! r))) \<Longrightarrow> evaluates env c i (imm (operation (code c' ! r)))"
    and kind: "is_int_const (opcode (operation (code c' ! r))) \<or> opcode (operation (code c' ! r)) = OPC_INT_PLACEHOLDER"
  shows "evaluates env c' u v \<Longrightarrow> evaluates env c (origin i r u) v"
proof (induction rule: evaluates.induct)
  case (evaluates_const u)
  show ?case
  proof (cases "u = r")
    case False
    note d = replacesD [OF rp evaluates_const(1) False]
    have "imm (operation (code c' ! u)) = imm (operation (code c ! u))" using d(2) by (simp add: same_view_def)
    then show ?thesis
      using evaluates.evaluates_const [OF d(1)] d(2) evaluates_const(2) False by (simp add: origin_def same_view_def)
  qed (use k evaluates_const in \<open>simp add: origin_def\<close>)
next
  case (evaluates_indeterminate u v)
  then show ?case using replaces_indeterminate [OF rp ph] by (blast intro: evaluates.evaluates_indeterminate)
next
  case (evaluates_int u js' xs v)
  have "u \<noteq> r" using evaluates_int(2) kind by (auto simp: is_int_op_def is_int_const_def)
  note d = replacesD [OF rp evaluates_int(1) this]
  obtain rs where rs: "inputs c u = Inr rs" "map Some js' = map (subst_ref r i) rs" "\<forall>j. Some j \<in> set rs \<longrightarrow> live c j"
    using d(3) evaluates_int(3) by auto
  have "rs = map Some (map (origin i r) js')"
    by (rule replaced_operands) (use rs rp in \<open>auto simp: replaces_def\<close>)
  moreover have "list_all2 (evaluates env c) (map (origin i r) js') xs"
    using evaluates_int.IH by (auto simp: list_all2_map1 elim: list_all2_mono)
  ultimately show ?case
    using evaluates.evaluates_int [OF d(1), where js = "map (origin i r) js'" and xs = xs and v = v] evaluates_int.hyps same_view_kind [OF d(2)] rs(1) \<open>u \<noteq> r\<close>
    by (simp add: origin_def)
next
  case (evaluates_phi u)
  have "u \<noteq> r" using evaluates_phi(2) kind by (auto simp: is_int_const_def)
  note d = replacesD [OF rp evaluates_phi(1) this]
  show ?case
    using evaluates.evaluates_phi [OF d(1)] d(2) evaluates_phi(2) \<open>u \<noteq> r\<close> by (simp add: origin_def same_view_def)
next
  case (evaluates_opaque u js' xs)
  have "u \<noteq> r" using evaluates_opaque(2) kind by (auto simp: is_opaque_def)
  note d = replacesD [OF rp evaluates_opaque(1) this]
  obtain rs where rs: "inputs c u = Inr rs" "map Some js' = map (subst_ref r i) rs" "\<forall>j. Some j \<in> set rs \<longrightarrow> live c j"
    using d(3) evaluates_opaque(3) by auto
  have "rs = map Some (map (origin i r) js')"
    by (rule replaced_operands) (use rs rp in \<open>auto simp: replaces_def\<close>)
  moreover have "list_all2 (evaluates env c) (map (origin i r) js') xs"
    using evaluates_opaque.IH by (auto simp: list_all2_map1 elim: list_all2_mono)
  ultimately show ?case
    using evaluates.evaluates_opaque [OF d(1), where js = "map (origin i r) js'" and xs = xs] evaluates_opaque(2) same_view_kind [OF d(2)] rs(1) \<open>u \<noteq> r\<close>
    by (simp add: origin_def)
qed

end
