(* ===== verification/Kefir_Opt_Fold_Pass.thy ===== *)
theory Kefir_Opt_Fold_Pass
  imports Kefir_Opt_Fold_Sem Kefir_Opt_Code_Props
begin

text \<open>
  The pass over a well-formed container: what a fold adds, what replacing the folded instruction
  does, and that the loops end, keep the container well-formed and never give an instruction a
  value it could not have before.
\<close>

section \<open>The constant a fold adds\<close>

lemma attempt_simps [simp]: "attempt (Inr x) = Inr x" "attempt (Inl e) = Inl (Failed e)"
    "attempt m = Inr x \<longleftrightarrow> m = Inr x"
  by (auto simp: attempt_def split: sum.splits)

lemma is_finalized_total:
  assumes ok: "code_ok c L C" and b: "has_block c b"
  shows "\<exists>f. kefir_opt_code_builder_is_finalized c (Some b) flag = Inr f"
proof (cases "control_tail (blocks c ! b)")
  case None
  then show ?thesis
    using b by (simp add: kefir_opt_code_builder_is_finalized_def kefir_opt_code_container_block_def
        kefir_opt_code_block_instr_control_tail_def)
next
  case (Some t)
  have "final None (C b) = Some t"
    using code_ok_listsD(2) [OF ok b] Some by (simp add: control.chained_def chain_def)
  then have "t \<in> set (C b)" by (rule final_in_set)
  then have t: "live c t" using code_ok_listsD(4) [OF ok b] code_ok_live [OF ok b] by blast
  have "\<exists>k. inline_asm_ref (operation (code c ! t)) = Some k \<and> has_asm c k"
    if "opcode (operation (code c ! t)) = OPC_INLINE_ASSEMBLY"
    using ok asms_okD(1) [OF _ t that] by (auto simp: code_ok_def)
  then show ?thesis
    using b Some t by (auto simp: kefir_opt_code_builder_is_finalized_def kefir_opt_code_container_block_def
        kefir_opt_code_block_instr_control_tail_def kefir_opt_code_container_instr_def)
qed

lemma builder_add_ok:
  assumes ok: "code_ok c L C" and b: "has_block c b" and op: "is_plain op" "op_inputs op = Inr []"
  defines "n \<equiv> length (code c)"
  shows "\<exists>c'. kefir_opt_code_builder_add_instruction c (Some b) op False = Inr (c', n) \<and> extended c c' b op \<and>
    code_ok c' (L(b := L b @ [n])) C"
proof -
  obtain c' where "kefir_opt_code_container_new_instruction c (Some b) op = Inr (c', n)" "extended c c' b op"
      "code_ok c' (L(b := L b @ [n])) C"
    using new_instruction_ok [OF ok b op] by (auto simp: n_def)
  then show ?thesis
    using is_finalized_total [OF ok b, of False] b
    by (auto simp: kefir_opt_code_builder_add_instruction_def kefir_opt_code_container_block_def)
qed

definition is_result :: "opt_operation \<Rightarrow> bool" where
  "is_result op \<longleftrightarrow> is_int_const (opcode op) \<or> opcode op = OPC_INT_PLACEHOLDER"

lemma result_op:
  "is_plain ((op_init OPC_INT_CONST)\<lparr>imm := v\<rparr>)" "op_inputs ((op_init OPC_INT_CONST)\<lparr>imm := v\<rparr>) = Inr []"
  "is_plain ((op_init OPC_UINT_CONST)\<lparr>imm := v\<rparr>)" "op_inputs ((op_init OPC_UINT_CONST)\<lparr>imm := v\<rparr>) = Inr []"
  "is_plain (op_init OPC_INT_PLACEHOLDER)" "op_inputs (op_init OPC_INT_PLACEHOLDER) = Inr []"
  by (simp_all add: is_plain_def op_ok_def op_init_def is_call_def op_inputs_def kefir_opt_instruction_extract_inputs_def)

text \<open>The operations whose folding may run into undefined behaviour of the host.\<close>

definition hazard :: "opt_operation \<Rightarrow> bool" where
  "hazard op \<longleftrightarrow> (case opcode op of
     OPC_INT f w \<Rightarrow> f = INT_LSHIFT \<or> f = INT_RSHIFT \<or> f = INT_ARSHIFT \<or> (f = INT_MUL \<or> f = UINT_MUL) \<and> w = W16
   | OPC_INT_UNARY f w \<Rightarrow> f = INT_NEG \<and> w = W64
   | OPC_BITS_EXTRACT_SIGNED \<Rightarrow> bitfield_offset op \<ge> 64 \<or> bitfield_length op > 64
   | OPC_BITS_EXTRACT_UNSIGNED \<Rightarrow> bitfield_offset op \<ge> 64
   | _ \<Rightarrow> False)"

lemma int_binary_fold_hazard: "int_binary_fold f w l r = Undefined \<Longrightarrow> opcode op = OPC_INT f w \<Longrightarrow> hazard op"
  by (cases f) (auto simp: hazard_def int_mul_fold_def split: if_splits)

text \<open>The outcome of folding instruction \<open>i\<close> of block \<open>b\<close>.\<close>

definition fold_adds :: "opt_code \<Rightarrow> nat \<Rightarrow> nat \<Rightarrow> (nat \<Rightarrow> nat list) \<Rightarrow> (nat \<Rightarrow> nat list) \<Rightarrow> opt_code \<Rightarrow> opt_operation \<Rightarrow> bool" where
  "fold_adds c i b L C c' op \<longleftrightarrow> extended c c' b op \<and> code_ok c' (L(b := L b @ [length (code c)])) C \<and>
     is_int_op (operation (code c ! i)) \<and>
     (is_int_const (opcode op) \<and> (\<forall>env. evaluates env c i (imm op)) \<or>
      opcode op = OPC_INT_PLACEHOLDER \<and> indeterminate c i) \<and> op_inputs op = Inr [] \<and> is_plain op"

definition fold_outcome :: "opt_code \<Rightarrow> nat \<Rightarrow> nat \<Rightarrow> (nat \<Rightarrow> nat list) \<Rightarrow> (nat \<Rightarrow> nat list) \<Rightarrow> stop + (opt_code \<times> ref) \<Rightarrow> bool" where
  "fold_outcome c i b L C m \<longleftrightarrow> m = Inl Undefined_behaviour \<and> hazard (operation (code c ! i)) \<or> m = Inr (c, None) \<or>
     (\<exists>c' op. m = Inr (c', Some (length (code c))) \<and> fold_adds c i b L C c' op)"

lemma op_init_fields [simp]: "opcode (op_init opc) = opc" "imm (op_init opc) = 0"
  by (simp_all add: op_init_def)

lemma builder_outcome:
  assumes ok: "code_ok c L C" and b: "has_block c b" and int: "is_int_op (operation (code c ! i))"
    and op: "is_plain op" "op_inputs op = Inr []"
    and v: "is_int_const (opcode op) \<and> (\<forall>env. evaluates env c i (imm op)) \<or> opcode op = OPC_INT_PLACEHOLDER \<and> indeterminate c i"
  shows "fold_outcome c i b L C
    (bindE (attempt (kefir_opt_code_builder_add_instruction c (Some b) op False)) (\<lambda>(c, i). Inr (c, Some i)))"
proof -
  obtain c' where c': "kefir_opt_code_builder_add_instruction c (Some b) op False = Inr (c', length (code c))"
      "extended c c' b op" "code_ok c' (L(b := L b @ [length (code c)])) C"
    using builder_add_ok [OF ok b op] by blast
  then have "fold_adds c i b L C c' op" using int v op by (simp add: fold_adds_def)
  then show ?thesis using c'(1) unfolding fold_outcome_def by auto
qed

lemma emit_constant_outcome:
  assumes ok: "code_ok c L C" and b: "has_block c b" and int: "is_int_op (operation (code c ! i))"
    and v: "\<And>v env. res = Folded v \<Longrightarrow> evaluates env c i v" and hz: "res = Undefined \<Longrightarrow> hazard (operation (code c ! i))"
  shows "fold_outcome c i b L C (emit_constant c (Some b) u res)"
proof (cases res)
  case (Folded v)
  have "fold_outcome c i b L C (bindE (attempt (kefir_opt_code_builder_uint_constant c (Some b) v)) (\<lambda>(c, i). Inr (c, Some i)))"
    unfolding kefir_opt_code_builder_uint_constant_def
    by (rule builder_outcome [OF ok b int result_op(3,4)]) (simp add: is_int_const_def v [OF Folded])
  moreover have "fold_outcome c i b L C (bindE (attempt (kefir_opt_code_builder_int_constant c (Some b) v)) (\<lambda>(c, i). Inr (c, Some i)))"
    unfolding kefir_opt_code_builder_int_constant_def
    by (rule builder_outcome [OF ok b int result_op(1,2)]) (simp add: is_int_const_def v [OF Folded])
  ultimately show ?thesis using Folded by (simp add: emit_constant_def)
qed (simp_all add: emit_constant_def fold_outcome_def hz)

lemma emit_placeholder_outcome:
  assumes ok: "code_ok c L C" and b: "has_block c b" and int: "is_int_op (operation (code c ! i))" and i: "indeterminate c i"
  shows "fold_outcome c i b L C
    (bindE (attempt (kefir_opt_code_builder_int_placeholder c (Some b))) (\<lambda>(c, i). Inr (c, Some i)))"
  unfolding kefir_opt_code_builder_int_placeholder_def
  by (rule builder_outcome [OF ok b int result_op(5,6)]) (simp add: i)

section \<open>Folding one instruction\<close>

lemma instr_lookup: "live c i \<Longrightarrow> kefir_opt_code_container_instr c (Some i) = Inr (code c ! i)"
  by (simp add: kefir_opt_code_container_instr_def)

lemma operand_lookup:
  assumes ok: "code_ok c L C" and i: "live c i" and r: "Some j \<in> set rs" "inputs c i = Inr rs"
  shows "live c j"
  using ok i r by (auto simp: code_ok_def inputs_ok_def)

lemma inputs_ref2:
  assumes "opcode_class_of (opcode (operation (code c ! i))) \<in> {Class_ref2, Class_compare_ref2}"
  shows "inputs c i = Inr (filter (\<lambda>r. r \<noteq> None) [refs (operation (code c ! i)) ! 0, refs (operation (code c ! i)) ! 1])"
  using assms by (auto simp: inputs_def kefir_opt_instruction_extract_inputs_def)

lemma inputs_ref1:
  assumes "opcode_class_of (opcode (operation (code c ! i))) = Class_ref1"
  shows "inputs c i = Inr (filter (\<lambda>r. r \<noteq> None) [refs (operation (code c ! i)) ! 0])"
  using assms by (auto simp: inputs_def kefir_opt_instruction_extract_inputs_def)

text \<open>An operand that is a constant or a placeholder has the value the fold reads.\<close>

lemma operand_value:
  assumes "live c j" "is_int_const (opcode (operation (code c ! j))) \<or> opcode (operation (code c ! j)) = OPC_INT_PLACEHOLDER"
  shows "evaluates env c j (if opcode (operation (code c ! j)) = OPC_INT_PLACEHOLDER then 0 else imm (operation (code c ! j)))"
  using assms by (auto intro: evaluates.intros indeterminate.intros)

lemma fold_operation_allowed:
  assumes "fold_operation op l r = Inr (Folded v)" "is_int_op op" "opcode_class_of (opcode op) \<in> {Class_ref2, Class_compare_ref2}"
  shows "op_allows op [l, r] v"
  using assms
  by (cases "opcode op"; cases "comparison op")
     (auto simp: fold_operation_def op_allows_def is_int_op_def int_compare_fold_eq int_binary_fold_allowed split: option.split)

lemma int_binary_outcome:
  assumes ok: "code_ok c L C" and b: "has_block c b" and i: "live c i" "instr_block (code c ! i) = Some b"
    and int: "is_int_op (operation (code c ! i))"
    and cls: "opcode_class_of (opcode (operation (code c ! i))) \<in> {Class_ref2, Class_compare_ref2}"
    and set: "refs (operation (code c ! i)) ! 0 \<noteq> None" "refs (operation (code c ! i)) ! 1 \<noteq> None"
  shows "fold_outcome c i b L C (int_binary_const_fold c (code c ! i))"
proof -
  let ?op = "operation (code c ! i)"
  obtain j k where jk: "refs ?op ! 0 = Some j" "refs ?op ! 1 = Some k" using set by auto
  have inp: "inputs c i = Inr [Some j, Some k]" using inputs_ref2 [OF cls] jk by simp
  have l: "live c j" "live c k" using operand_lookup [OF ok i(1) _ inp] by auto
  let ?oj = "opcode (operation (code c ! j))" and ?ok = "opcode (operation (code c ! k))"
  have ph: "indeterminate c i" if "?oj = OPC_INT_PLACEHOLDER"
    using indeterminate_operand [OF i(1) int inp, of j] indeterminate_placeholder [OF l(1) that] by simp
  let ?x = "imm (operation (code c ! j))" and ?y = "if ?ok = OPC_INT_PLACEHOLDER then 0 else imm (operation (code c ! k))"
  have ev: "evaluates env c i v"
    if "fold_operation ?op ?x ?y = Inr (Folded v)" "is_int_const ?oj" "is_int_const ?ok \<or> ?ok = OPC_INT_PLACEHOLDER" for env v
  proof (rule evaluates_int [OF i(1) int, where js = "[j, k]" and xs = "[?x, ?y]"])
    show "list_all2 (evaluates env c) [j, k] [?x, ?y]"
      using evaluates_const [OF l(1) that(2)] operand_value [OF l(2) that(3)] by simp
  qed (use inp fold_operation_allowed [OF that(1) int cls] in auto)
  have hz: "hazard ?op" if "fold_operation ?op ?x ?y = Inr Undefined"
    using that by (auto simp: fold_operation_def intro: int_binary_fold_hazard split: opt_opcode.splits opt_comparison.splits)
  have fo: "\<exists>res. fold_operation ?op ?x ?y = Inr res"
    using int cls by (cases "opcode ?op"; cases "comparison ?op") (auto simp: fold_operation_def is_int_op_def)
  show ?thesis
  proof (cases "is_int_const ?oj \<and> (is_int_const ?ok \<or> ?ok = OPC_INT_PLACEHOLDER)")
    case True
    obtain res where res: "fold_operation ?op ?x ?y = Inr res" using fo by blast
    have "fold_outcome c i b L C (emit_constant c (Some b) (?oj = OPC_UINT_CONST \<or> ?ok = OPC_UINT_CONST) res)"
      by (rule emit_constant_outcome [OF ok b int]) (use ev hz res True in auto)
    moreover have "?oj \<noteq> OPC_INT_PLACEHOLDER" using True by (auto simp: is_int_const_def)
    ultimately show ?thesis
      using True res i(2) by (simp add: int_binary_const_fold_def jk jk(2) [simplified] instr_lookup l Let_def)
  next
    case False
    then show ?thesis
      using emit_placeholder_outcome [OF ok b int ph] i(2)
      by (auto simp: int_binary_const_fold_def jk jk(2) [simplified] instr_lookup l Let_def fold_outcome_def)
  qed
qed

definition operands_set :: "opt_operation \<Rightarrow> bool" where
  "operands_set op \<longleftrightarrow> (is_int_op op \<longrightarrow> refs op ! 0 \<noteq> None \<and>
     (opcode_class_of (opcode op) \<in> {Class_ref2, Class_compare_ref2} \<longrightarrow> refs op ! 1 \<noteq> None) \<and>
     (opcode_class_of (opcode op) = Class_bitfield \<longrightarrow> refs op ! 1 = None))"

lemma inputs_one:
  assumes "opcode_class_of (opcode (operation (code c ! i))) = Class_ref1 \<or>
      opcode_class_of (opcode (operation (code c ! i))) = Class_bitfield \<and> refs (operation (code c ! i)) ! 1 = None"
    and "refs (operation (code c ! i)) ! 0 = Some j"
  shows "inputs c i = Inr [Some j]"
  using assms by (auto simp: inputs_def kefir_opt_instruction_extract_inputs_def)

text \<open>An operation with one operand, given what it folds a constant to.\<close>

lemma one_operand_value:
  assumes ok: "code_ok c L C" and i: "live c i" and int: "is_int_op (operation (code c ! i))"
    and inp: "inputs c i = Inr [Some j]" and k: "is_int_const (opcode (operation (code c ! j)))"
    and v: "op_allows (operation (code c ! i)) [imm (operation (code c ! j))] v"
  shows "evaluates env c i v"
proof (rule evaluates_int [OF i int, where js = "[j]" and xs = "[imm (operation (code c ! j))]"])
  have "live c j" using operand_lookup [OF ok i _ inp] by simp
  then show "list_all2 (evaluates env c) [j] [imm (operation (code c ! j))]" using evaluates_const [OF _ k] by simp
qed (use inp v in auto)

lemma int_unary_outcome:
  assumes ok: "code_ok c L C" and b: "has_block c b" and i: "live c i" "instr_block (code c ! i) = Some b"
    and opc: "(\<exists>f w. opcode (operation (code c ! i)) = OPC_INT_UNARY f w) \<or>
      (\<exists>w. opcode (operation (code c ! i)) = OPC_INT64_ZERO_EXTEND w \<or> opcode (operation (code c ! i)) = OPC_INT64_SIGN_EXTEND w)"
    and set: "refs (operation (code c ! i)) ! 0 \<noteq> None"
  shows "fold_outcome c i b L C (int_unary_const_fold c (code c ! i))"
proof -
  let ?op = "operation (code c ! i)"
  obtain j where j: "refs ?op ! 0 = Some j" using set by auto
  have int: "is_int_op ?op" and cls: "opcode_class_of (opcode ?op) = Class_ref1" using opc by (auto simp: is_int_op_def)
  have inp: "inputs c i = Inr [Some j]" using inputs_one [OF _ j] cls by simp
  have l: "live c j" using operand_lookup [OF ok i(1) _ inp] by auto
  let ?oj = "opcode (operation (code c ! j))" and ?x = "imm (operation (code c ! j))"
  have ph: "indeterminate c i" if "?oj = OPC_INT_PLACEHOLDER"
    using indeterminate_operand [OF i(1) int inp, of j] indeterminate_placeholder [OF l(1) that] by simp
  have "\<exists>w z. unary_spec (opcode ?op) ?x = Some (w, z)"
    using opc by (cases "(opcode ?op, ?x)" rule: unary_spec.cases) auto
  then obtain w z where wz: "unary_spec (opcode ?op) ?x = Some (w, z)" by blast
  have al: "op_allows ?op [?x] v" if "int_unary_fold (opcode ?op) ?x = Folded v" for v
    using opc int_unary_fold_allowed [OF that wz] wz by (auto simp: op_allows_def)
  have "evaluates env c i v" if "int_unary_fold (opcode ?op) ?x = Folded v" "is_int_const ?oj" for env v
    using one_operand_value [OF ok i(1) int inp that(2) al [OF that(1)]] .
  moreover have "hazard ?op" if "int_unary_fold (opcode ?op) ?x = Undefined"
    using that int_unary_fold_undefined by (simp add: hazard_def)
  ultimately have "fold_outcome c i b L C (emit_constant c (Some b) u (int_unary_fold (opcode ?op) ?x))" if "is_int_const ?oj" for u
    using emit_constant_outcome [OF ok b int] that by blast
  then show ?thesis
    using emit_placeholder_outcome [OF ok b int ph] i(2) j l
    by (auto simp: int_unary_const_fold_def instr_lookup fold_outcome_def [of _ _ _ _ _ "Inr (c, None)"])
qed

lemma int_extract_outcome:
  assumes ok: "code_ok c L C" and b: "has_block c b" and i: "live c i" "instr_block (code c ! i) = Some b"
    and opc: "opcode (operation (code c ! i)) = OPC_BITS_EXTRACT_SIGNED \<or> opcode (operation (code c ! i)) = OPC_BITS_EXTRACT_UNSIGNED"
    and set: "refs (operation (code c ! i)) ! 0 \<noteq> None" "refs (operation (code c ! i)) ! 1 = None"
  shows "fold_outcome c i b L C (int_extract_bits_const_fold c (code c ! i))"
proof -
  let ?op = "operation (code c ! i)"
  obtain j where j: "refs ?op ! 0 = Some j" using set by auto
  have int: "is_int_op ?op" and cls: "opcode_class_of (opcode ?op) = Class_bitfield" using opc by (auto simp: is_int_op_def)
  have inp: "inputs c i = Inr [Some j]" using inputs_one [OF _ j] cls set(2) by simp
  have l: "live c j" using operand_lookup [OF ok i(1) _ inp] by auto
  let ?x = "imm (operation (code c ! j))"
  let ?f = "extract_bits_fold (opcode ?op = OPC_BITS_EXTRACT_SIGNED) (bitfield_offset ?op) (bitfield_length ?op) ?x"
  have al: "op_allows ?op [?x] v" if "?f = Folded v" for v
    using opc that by (auto simp: op_allows_def extract_bits_fold_eq)
  have hz: "hazard ?op" if "?f = Undefined"
    using opc that by (auto simp: extract_bits_fold_def hazard_def Let_def split: if_splits)
  have "fold_outcome c i b L C (emit_constant c (Some b) True ?f)" if "is_int_const (opcode (operation (code c ! j)))"
    using emit_constant_outcome [OF ok b int] one_operand_value [OF ok i(1) int inp that] al hz by blast
  then show ?thesis
    using i(2) j l by (auto simp: int_extract_bits_const_fold_def instr_lookup fold_outcome_def [of _ _ _ _ _ "Inr (c, None)"])
qed

text \<open>Instructions whose folding is part of the model.\<close>

definition in_scope :: "opt_operation \<Rightarrow> bool" where
  "in_scope op \<longleftrightarrow> (case opcode op of
     OPC_OTHER cls name \<Rightarrow> name \<notin> set other_folded
   | OPC_SCALAR_COMPARE \<Rightarrow> (case comparison op of COMPARISON_INT w rel \<Rightarrow> True | COMPARISON_FLOAT w rel \<Rightarrow> False)
   | _ \<Rightarrow> True)"

lemma const_fold_instr_outcome:
  assumes ok: "code_ok c L C" and b: "has_block c b" and i: "live c i" "instr_block (code c ! i) = Some b"
    and set: "operands_set (operation (code c ! i))" and scope: "in_scope (operation (code c ! i))"
  shows "fold_outcome c i b L C (const_fold_instr c (code c ! i) (opcode (operation (code c ! i))))"
proof (cases "(c, code c ! i, opcode (operation (code c ! i)))" rule: const_fold_instr.cases)
qed (use int_unary_outcome [OF ok b i] int_binary_outcome [OF ok b i] int_extract_outcome [OF ok b i] set scope in
      \<open>auto simp: fold_outcome_def [of _ _ _ _ _ "Inr (c, None)"] operands_set_def is_int_op_def in_scope_def
         split: opt_comparison.splits\<close>)

end
