(* ===== verification/Kefir_Opt_Fold_Loop.thy ===== *)
theory Kefir_Opt_Fold_Loop
  imports Kefir_Opt_Fold_Pass
begin

text \<open>
  The loops of constant folding over a well-formed container: putting the constant in the place of the
  folded instruction, the walk over a block, whose number of iterations is bounded by the
  instructions still ahead and those still to be folded, and the walk over the blocks.
\<close>

section \<open>Replacing the folded instruction\<close>

lemma cf_only_trans: "cf_only c d \<Longrightarrow> cf_only d e \<Longrightarrow> cf_only c e"
  by (simp add: cf_only_def)

lemma map_origin: "i \<notin> set ys \<Longrightarrow> map (origin r i) ys = ys"
  by (auto simp: origin_def intro: map_idI)

lemma removeAll_insert_after:
  assumes "distinct xs" "i \<in> set xs" "r \<notin> set xs"
  shows "removeAll i (insert_after (Some i) r xs) = map (origin r i) xs"
proof -
  obtain ys zs where s: "xs = ys @ i # zs" using assms(2) by (meson split_list)
  then have "i \<notin> set ys" "i \<notin> set zs" "r \<noteq> i" using assms by auto
  then show ?thesis
    unfolding s by (simp add: insert_after_split map_origin) (simp add: origin_def)
qed

definition replace_control :: "opt_code \<Rightarrow> nat \<Rightarrow> nat \<Rightarrow> ref \<Rightarrow> opt_code result" where
  "replace_control c b i replacement_ref =
     (if cf_prev (code c ! i) \<noteq> KEFIR_ID_NONE \<or> cf_next (code c ! i) \<noteq> KEFIR_ID_NONE then
        bindE (kefir_opt_code_container_instr c replacement_ref) (\<lambda>replacement.
        bindE (if cf_prev replacement = KEFIR_ID_NONE \<and> cf_next replacement = KEFIR_ID_NONE
               then kefir_opt_code_container_insert_control c (Some b) (Some i) replacement_ref
               else Inr c) (\<lambda>c.
        kefir_opt_code_container_drop_control c (Some i)))
      else Inr c)"

lemma replace_control_ok:
  assumes ok: "code_ok c L C" and b: "has_block c b" and i: "i \<in> set (L b)"
    and r: "r \<in> set (L b)" "r \<notin> set (C b)" and last: "final None (C b) \<noteq> Some i"
  shows "\<exists>c'. replace_control c b i (Some r) = Inr c' \<and> code_ok c' L (C(b := map (origin r i) (C b))) \<and> cf_only c c'"
proof (cases "i \<in> set (C b)")
  case False
  have "C(b := map (origin r i) (C b)) = C" using map_origin [OF False] by simp
  then show ?thesis
    using code_ok_listsD(5) [OF ok b i False] ok by (auto simp: replace_control_def cf_only_def)
next
  case True
  have ch: "chain (\<lambda>i. cf_prev (code c ! i)) (\<lambda>i. cf_next (code c ! i)) (control_head (blocks c ! b)) (control_tail (blocks c ! b)) (C b)"
    using code_ok_listsD(2) [OF ok b] by (simp add: control.chained_def)
  obtain ys zs where s: "C b = ys @ i # zs" "cf_next (code c ! i) = first None zs" using chain_split [OF ch True] by metis
  have "zs \<noteq> []" using last s(1) by auto
  then have nxt: "cf_next (code c ! i) \<noteq> None" using s(2) by simp
  have free: "cf_prev (code c ! r) = None" "cf_next (code c ! r) = None" "live c r"
    using code_ok_listsD(5) [OF ok b r] code_ok_live [OF ok b r(1)] by simp_all
  obtain c1 where c1: "kefir_opt_code_container_insert_control c (Some b) (Some i) (Some r) = Inr c1"
      "code_ok c1 L (C(b := insert_after (Some i) r (C b)))" "cf_only c c1"
    using insert_control_ok [OF ok b r, of "Some i"] True by auto
  have b1: "has_block c1 b" using b cf_only_has_block [OF c1(3)] by simp
  have "i \<in> set (insert_after (Some i) r (C b))"
    using s(1) ch by (simp add: chain_def insert_after_split)
  then obtain c2 where c2: "kefir_opt_code_container_drop_control c1 (Some i) = Inr c2"
      "code_ok c2 L (C(b := removeAll i (insert_after (Some i) r (C b))))" "cf_only c1 c2"
    using drop_control_ok [OF c1(2) b1, of i] by auto
  have "removeAll i (insert_after (Some i) r (C b)) = map (origin r i) (C b)"
    by (rule removeAll_insert_after) (use ch True r in \<open>auto simp: chain_def\<close>)
  then show ?thesis
    using c1(1) c2 nxt free cf_only_trans [OF c1(3) c2(3)] by (auto simp: replace_control_def instr_lookup)
qed

text \<open>What the step changes in the code.\<close>

definition replaced_by :: "opt_code \<Rightarrow> opt_code \<Rightarrow> nat \<Rightarrow> nat \<Rightarrow> bool" where
  "replaced_by c c' i r \<longleftrightarrow> same_size c c' \<and> (\<forall>j. live c' j \<longleftrightarrow> live c j \<and> j \<noteq> i) \<and>
     (\<forall>j. live c j \<longrightarrow> j \<noteq> i \<longrightarrow> op_skeleton (operation (code c ! j)) (operation (code c' ! j)) \<and>
        (\<exists>rs. inputs c j = Inr rs \<and> inputs c' j = Inr (map (subst_ref r i) rs)))"

lemma const_fold_replace_control:
  "const_fold_replace c b i replacement_ref =
     bindE (kefir_opt_code_container_instr c (Some i)) (\<lambda>instr.
     bindE (kefir_opt_code_container_replace_references c replacement_ref (Some (instr_id instr))) (\<lambda>c.
     bindE (replace_control c b i replacement_ref) (\<lambda>c.
     bindE (kefir_opt_instruction_next_sibling c (Some i)) (\<lambda>next_id.
     bindE (kefir_opt_code_container_drop_instr c (Some i)) (\<lambda>c.
     Inr (c, next_id))))))"
  by (simp add: const_fold_replace_def replace_control_def)

lemma const_fold_replace_ok:
  assumes ok: "code_ok c L C" and b: "has_block c b" and l: "L b = ys @ i # zs"
    and r: "r \<in> set (L b)" "r \<notin> set (C b)" "r \<noteq> i" and last: "final None (C b) \<noteq> Some i"
    and int: "is_int_op (operation (code c ! i))"
  shows "\<exists>c'. const_fold_replace c b i (Some r) = Inr (c', first None zs) \<and>
    code_ok c' (L(b := ys @ zs)) (C(b := map (origin r i) (C b))) \<and> replaced_by c c' i r"
proof -
  have i: "i \<in> set (L b)" using l by simp
  have lv: "live c i" "live c r" using code_ok_live [OF ok b] i r(1) by auto
  have il: "i < length (code c)" using lv by (simp add: live_def)
  have ch: "distinct (L b)" "sib_next (code c ! i) = first None zs"
    using code_ok_listsD(1) [OF ok b] l by (auto simp: content.chained_def chain_def)
  obtain c1 where c1: "kefir_opt_code_container_replace_references c (Some r) (Some i) = Inr c1" "code_ok c1 L C"
      "skeleton c c1" "uses (code c1 ! i) = []"
      and in1: "\<And>v rs. live c v \<Longrightarrow> inputs c v = Inr rs \<Longrightarrow> inputs c1 v = Inr (map (subst_ref r i) rs)"
    using replace_references_ok [OF ok lv(2,1) r(3)] by blast
  have b1: "has_block c1 b" and lv1: "live c1 = live c"
    using b skeleton_present(1) [OF c1(3)] skeleton_live [OF c1(3)] by simp_all
  obtain c2 where c2: "replace_control c1 b i (Some r) = Inr c2" "code_ok c2 L (C(b := map (origin r i) (C b)))" "cf_only c1 c2"
    using replace_control_ok [OF c1(2) b1 i r(1,2) last] by blast
  note cf = cf_only_instr [OF c2(3)] and so = cf_only_same_ops [OF c2(3)]
  have lv2: "live c2 = live c" and b2: "has_block c2 b"
    using same_ops_live [OF so] lv1 cf_only_has_block [OF c2(3)] b1 by simp_all
  have sk: "op_skeleton (operation (code c ! j)) (operation (code c2 ! j))" for j
    using c1(3) cf(3) by (simp add: skeleton_def)
  have "opcode (operation (code c2 ! i)) = opcode (operation (code c ! i))" using sk by (simp add: op_skeleton_def)
  then have nc: "node_complete c2 i"
    using int by (auto simp: node_complete_def is_int_op_def is_call_def Let_def)
  have ni: "i \<notin> set (map (origin r i) (C b))" using r(3) by (auto simp: origin_def)
  obtain c3 where c3: "kefir_opt_code_container_drop_instr c2 (Some i) = Inr c3"
      "code_ok c3 (L(b := removeAll i (L b))) (C(b := map (origin r i) (C b)))"
      "\<And>j. live c3 j \<longleftrightarrow> live c2 j \<and> j \<noteq> i"
      "\<And>j. live c2 j \<Longrightarrow> j \<noteq> i \<Longrightarrow> inputs c3 j = inputs c2 j \<and> operation (code c3 ! j) = operation (code c2 ! j)"
    using drop_instr_ok [OF c2(2) b2 i _ _ nc] ni c1(4) cf(4) by auto
  have "removeAll i (L b) = ys @ zs" using ch(1) l by simp
  then have ok3: "code_ok c3 (L(b := ys @ zs)) (C(b := map (origin r i) (C b)))" using c3(2) by simp
  have run: "const_fold_replace c b i (Some r) = Inr (c3, first None zs)"
    unfolding const_fold_replace_control
    using lv(1) lv2 c1(1,3) c2(1) c3(1) ch(2) cf(6) code_ok_listsD(6) [OF ok il]
    by (simp add: instr_lookup kefir_opt_instruction_next_sibling_def skeleton_def)
  have sz: "same_size c c3"
    using same_size_drop_instr [OF c3(1)] c1(3) c2(3) by (simp add: same_size_def skeleton_def cf_only_def)
  have "op_skeleton (operation (code c ! j)) (operation (code c3 ! j)) \<and>
      (\<exists>rs. inputs c j = Inr rs \<and> inputs c3 j = Inr (map (subst_ref r i) rs))" if j: "live c j" "j \<noteq> i" for j
  proof -
    obtain rs where rs: "inputs c j = Inr rs" using ok j(1) by (auto simp: code_ok_def inputs_ok_def)
    have "inputs c2 j = inputs c1 j" using same_ops_inputs [OF so, of j] j(1) c1(3) by (simp add: live_def skeleton_def)
    then show ?thesis using rs in1 [OF j(1) rs] c3(4) [of j] lv2 j sk [of j] by simp
  qed
  then have "replaced_by c c3 i r" using sz c3(3) lv2 by (simp add: replaced_by_def)
  then show ?thesis using run ok3 by blast
qed

section \<open>Simulation\<close>

text \<open>The instructions whose operands bottom out, phis being parameters.\<close>

inductive computable :: "opt_code \<Rightarrow> nat \<Rightarrow> bool" for c where
  computable_phi: "live c u \<Longrightarrow> opcode (operation (code c ! u)) = OPC_PHI \<Longrightarrow> computable c u"
| computable_inputs: "live c u \<Longrightarrow> opcode (operation (code c ! u)) \<noteq> OPC_PHI \<Longrightarrow> inputs c u = Inr (map Some js) \<Longrightarrow>
    (\<And>j. j \<in> set js \<Longrightarrow> computable c j) \<Longrightarrow> computable c u"

text \<open>
  \<open>simulates \<rho> c C c' C'\<close>: the instruction \<open>u\<close> of \<open>c'\<close> stands for \<open>\<rho> u\<close> of \<open>c\<close>. It has no value that \<open>\<rho> u\<close> could
  not have, and bottoms out when that does; every instruction that is not an integer operation is kept, on
  operands that stand for its old ones, the order of the control flow is the same, and there is no new integer operation.
\<close>

definition simulates :: "(nat \<Rightarrow> nat) \<Rightarrow> opt_code \<Rightarrow> (nat \<Rightarrow> nat list) \<Rightarrow> opt_code \<Rightarrow> (nat \<Rightarrow> nat list) \<Rightarrow> bool" where
  "simulates \<rho> c C c' C' \<longleftrightarrow> length (code c) \<le> length (code c') \<and> length (blocks c') = length (blocks c) \<and>
     (\<forall>u < length (code c). \<rho> u = u) \<and>
     (\<forall>u. live c' u \<longrightarrow> live c (\<rho> u)) \<and>
     (\<forall>env u v. evaluates env c' u v \<longrightarrow> evaluates env c (\<rho> u) v) \<and>
     (\<forall>u. live c' u \<longrightarrow> computable c (\<rho> u) \<longrightarrow> computable c' u) \<and>
     (\<forall>u. live c u \<longrightarrow> \<not> is_int_op (operation (code c ! u)) \<longrightarrow> live c' u \<and>
        same_view (operation (code c ! u)) (operation (code c' ! u)) \<and>
        (\<exists>rs. inputs c' u = Inr rs \<and> inputs c u = Inr (map (map_option \<rho>) rs))) \<and>
     (\<forall>b. has_block c b \<longrightarrow> C b = map \<rho> (C' b)) \<and>
     (\<forall>u. live c' u \<longrightarrow> is_int_op (operation (code c' ! u)) \<longrightarrow> live c u \<and>
        same_view (operation (code c ! u)) (operation (code c' ! u)))"

lemma simulatesD:
  assumes "simulates \<rho> c C c' C'"
  shows "length (code c) \<le> length (code c')" "length (blocks c') = length (blocks c)"
    "\<And>u. u < length (code c) \<Longrightarrow> \<rho> u = u" "\<And>u. live c' u \<Longrightarrow> live c (\<rho> u)"
    "\<And>env u v. evaluates env c' u v \<Longrightarrow> evaluates env c (\<rho> u) v"
    "\<And>u. live c' u \<Longrightarrow> computable c (\<rho> u) \<Longrightarrow> computable c' u"
    "\<And>u. live c u \<Longrightarrow> \<not> is_int_op (operation (code c ! u)) \<Longrightarrow> live c' u"
    "\<And>u. live c u \<Longrightarrow> \<not> is_int_op (operation (code c ! u)) \<Longrightarrow> same_view (operation (code c ! u)) (operation (code c' ! u))"
    "\<And>u. live c u \<Longrightarrow> \<not> is_int_op (operation (code c ! u)) \<Longrightarrow>
      \<exists>rs. inputs c' u = Inr rs \<and> inputs c u = Inr (map (map_option \<rho>) rs)"
    "\<And>b. has_block c b \<Longrightarrow> C b = map \<rho> (C' b)"
    "\<And>u. live c' u \<Longrightarrow> is_int_op (operation (code c' ! u)) \<Longrightarrow> live c u \<and> same_view (operation (code c ! u)) (operation (code c' ! u))"
  using assms unfolding simulates_def by blast+

lemma simulates_refl: "code_ok c L C \<Longrightarrow> simulates id c C c C"
  unfolding simulates_def by (auto simp: code_ok_def inputs_ok_def option.map_id0 list.map_id0)

lemma simulates_trans:
  assumes s1: "simulates \<rho> c C c' C'" and s2: "simulates \<sigma> c' C' c'' C''"
  shows "simulates (\<rho> \<circ> \<sigma>) c C c'' C''"
proof -
  note d1 = simulatesD [OF s1] and d2 = simulatesD [OF s2]
  have keep: "live c'' u \<and> same_view (operation (code c ! u)) (operation (code c'' ! u)) \<and>
      (\<exists>rs. inputs c'' u = Inr rs \<and> inputs c u = Inr (map (map_option (\<rho> \<circ> \<sigma>)) rs))"
    if u: "live c u" "\<not> is_int_op (operation (code c ! u))" for u
  proof -
    note l = d1(7) [OF u] and w = d1(8) [OF u]
    have ni: "\<not> is_int_op (operation (code c' ! u))" using same_view_kind(1) [OF w] u(2) by simp
    obtain rs' where rs': "inputs c' u = Inr rs'" "inputs c u = Inr (map (map_option \<rho>) rs')" using d1(9) [OF u] by blast
    obtain rs where rs: "inputs c'' u = Inr rs" "inputs c' u = Inr (map (map_option \<sigma>) rs)" using d2(9) [OF l ni] by blast
    have "map (map_option \<rho>) rs' = map (map_option (\<rho> \<circ> \<sigma>)) rs" using rs rs' by (simp add: option.map_comp o_def)
    then show ?thesis using d2(7) [OF l ni] same_view_trans [OF w d2(8) [OF l ni]] rs(1) rs'(2) by simp
  qed
  have hb: "has_block c' b" if "has_block c b" for b using that d1(2) by (simp add: has_block_def)
  have C: "C b = map (\<rho> \<circ> \<sigma>) (C'' b)" if "has_block c b" for b
    using d1(10) [OF that] d2(10) [OF hb [OF that]] by simp
  have id: "(\<rho> \<circ> \<sigma>) u = u" if "u < length (code c)" for u
    using d1(3) [OF that] d2(3) [of u] that d1(1) by simp
  have "computable c'' u" if "live c'' u" "computable c ((\<rho> \<circ> \<sigma>) u)" for u
    using d2(6) [OF that(1)] d1(6) [OF d2(4) [OF that(1)]] that(2) by simp
  moreover have "live c ((\<rho> \<circ> \<sigma>) u)" if "live c'' u" for u using d1(4) [OF d2(4) [OF that]] by simp
  moreover have "evaluates env c ((\<rho> \<circ> \<sigma>) u) v" if "evaluates env c'' u v" for env u v using d1(5) [OF d2(5) [OF that]] by simp
  moreover have "live c u \<and> same_view (operation (code c ! u)) (operation (code c'' ! u))"
    if u: "live c'' u" "is_int_op (operation (code c'' ! u))" for u
    using d1(11) [of u] d2(11) [OF u] same_view_kind(1) [of "operation (code c' ! u)" "operation (code c'' ! u)"] u(2) same_view_trans by blast
  ultimately show ?thesis unfolding simulates_def using keep C id d1(1,2) d2(1,2) by simp
qed

section \<open>One fold\<close>

lemma op_skeleton_view: "op_skeleton op op' \<Longrightarrow> same_view op op'"
  by (simp add: op_skeleton_def same_view_def)

text \<open>Adding the constant and putting it in the place of instruction \<open>i\<close>, seen from the container before both.\<close>

lemma fold_kept:
  assumes ok: "code_ok c L C" and ad: "fold_adds c i b L C c1 op" and rb: "replaced_by c1 c2 i (length (code c))"
    and u: "live c u" "u \<noteq> i"
  shows "live c2 u" "op_skeleton (operation (code c ! u)) (operation (code c2 ! u))"
    "\<exists>rs. inputs c u = Inr rs \<and> inputs c2 u = Inr (map (subst_ref (length (code c)) i) rs)"
proof -
  have ex: "extended c c1 b op" using ad by (simp add: fold_adds_def)
  have ul: "u < length (code c)" using u(1) by (simp add: live_def)
  have l1: "live c1 u" using extended_live [OF ex] u(1) by blast
  have "inputs c1 u = inputs c u"
    by (rule extended_inputs [OF ex u(1)])
       (use ok u(1) ul code_ok_nodes_present code_ok_listsD(6) [OF ok] in \<open>auto simp: code_ok_def inputs_ok_def\<close>)
  then show "live c2 u" "op_skeleton (operation (code c ! u)) (operation (code c2 ! u))"
      "\<exists>rs. inputs c u = Inr rs \<and> inputs c2 u = Inr (map (subst_ref (length (code c)) i) rs)"
    using rb l1 u(2) extended_old(3) [OF ex ul] unfolding replaced_by_def by metis+
qed

lemma fold_new:
  assumes i: "live c i" and ad: "fold_adds c i b L C c1 op" and rb: "replaced_by c1 c2 i (length (code c))"
  defines "n \<equiv> length (code c)"
  shows "live c2 n" "op_skeleton op (operation (code c2 ! n))" "inputs c2 n = Inr []" "\<not> live c n"
    "\<And>u. live c2 u \<Longrightarrow> u \<noteq> n \<Longrightarrow> live c u \<and> u \<noteq> i"
proof -
  have ex: "extended c c1 b op" and p: "is_plain op" "op_inputs op = Inr []" using ad by (simp_all add: fold_adds_def)
  show "\<not> live c n" by (simp add: live_def n_def)
  have ni: "n \<noteq> i" using i by (auto simp: live_def n_def)
  have l1: "live c1 n" using extended_live [OF ex] by (simp add: n_def)
  have "inputs c1 n = Inr []"
    unfolding inputs_def n_def using plain_inputs [OF p(1) extended_rest(12) [OF ex]] p(2) by simp
  then show "live c2 n" "op_skeleton op (operation (code c2 ! n))" "inputs c2 n = Inr []"
    using rb l1 ni extended_rest(12) [OF ex] unfolding replaced_by_def n_def by force+
  show "live c u \<and> u \<noteq> i" if "live c2 u" "u \<noteq> n" for u
    using that rb extended_live [OF ex] by (auto simp: replaced_by_def n_def)
qed

lemma fold_replaces:
  assumes ok: "code_ok c L C" and i: "live c i" and ad: "fold_adds c i b L C c1 op" and rb: "replaced_by c1 c2 i (length (code c))"
  shows "replaces c c2 i (length (code c))"
  unfolding replaces_def
proof (intro conjI allI impI)
  show "live c j" if "live c u" "inputs c u = Inr rs" "Some j \<in> set rs" for u rs j
    using operand_lookup [OF ok that(1,3,2)] .
  fix u assume u: "live c2 u" "u \<noteq> length (code c)"
  then have l: "live c u" "u \<noteq> i" using fold_new(5) [OF i ad rb] by auto
  then show "live c u" "same_view (operation (code c ! u)) (operation (code c2 ! u))"
      "\<exists>rs. inputs c u = Inr rs \<and> inputs c2 u = Inr (map (subst_ref (length (code c)) i) rs)"
    using fold_kept [OF ok ad rb l] op_skeleton_view by auto
qed (use fold_new [OF i ad rb] in auto)

lemma fold_computable:
  assumes ok: "code_ok c L C" and i: "live c i" and ad: "fold_adds c i b L C c1 op" and rb: "replaced_by c1 c2 i (length (code c))"
  shows "computable c u \<Longrightarrow> computable c2 (origin (length (code c)) i u)"
proof (induction rule: computable.induct)
  case (computable_phi u)
  have "u \<noteq> i" using ad computable_phi(2) by (auto simp: fold_adds_def is_int_op_def)
  then show ?case
    using fold_kept(1,2) [OF ok ad rb computable_phi(1)] computable_phi(2)
    by (auto simp: origin_def op_skeleton_def intro: computable.computable_phi)
next
  case (computable_inputs u js)
  let ?n = "length (code c)"
  show ?case
  proof (cases "u = i")
    case True
    note f = fold_new [OF i ad rb]
    have "opcode op \<noteq> OPC_PHI" using ad by (auto simp: fold_adds_def is_int_const_def)
    then have "opcode (operation (code c2 ! ?n)) \<noteq> OPC_PHI" using f(2) by (simp add: op_skeleton_def)
    then have "computable c2 ?n" using computable.computable_inputs [OF f(1), of "[]"] f(3) by simp
    then show ?thesis using True by (simp add: origin_def)
  next
    case False
    note k = fold_kept [OF ok ad rb computable_inputs(1) False]
    have "inputs c2 u = Inr (map (subst_ref ?n i) (map Some js))" using k(3) computable_inputs(3) by auto
    also have "map (subst_ref ?n i) (map Some js) = map Some (map (origin ?n i) js)"
      by (auto simp: REPLACE_REF_def origin_def)
    finally have "computable c2 u"
      using computable.computable_inputs [OF k(1), of "map (origin ?n i) js"] computable_inputs.IH computable_inputs(2) k(2)
      by (auto simp: op_skeleton_def)
    then show ?thesis using False by (simp add: origin_def)
  qed
qed

lemma fold_simulates:
  assumes ok: "code_ok c L C" and b: "has_block c b" and i: "live c i" and ad: "fold_adds c i b L C c1 op"
    and rb: "replaced_by c1 c2 i (length (code c))"
  defines "n \<equiv> length (code c)"
  shows "simulates (origin i n) c C c2 (C(b := map (origin n i) (C b)))"
proof -
  note fn = fold_new [OF i ad rb, folded n_def] and rp = fold_replaces [OF ok i ad rb, folded n_def]
  have ex: "extended c c1 b op" using ad by (simp add: fold_adds_def)
  have ni: "n \<noteq> i" using i fn(4) by auto
  have size: "length (code c) \<le> length (code c2)" "length (blocks c2) = length (blocks c)"
    using rb extended_rest(1,2) [OF ex] by (simp_all add: replaced_by_def same_size_def)
  have kn: "opcode (operation (code c2 ! n)) = opcode op" "imm (operation (code c2 ! n)) = imm op"
    using fn(2) by (simp_all add: op_skeleton_def)
  have val: "evaluates env c (origin i n u) v" if "evaluates env c2 u v" for env u v
    by (rule replaces_evaluates [OF rp _ _ _ that]) (use ad in \<open>auto simp: kn fold_adds_def is_int_const_def\<close>)
  have nC: "n \<notin> set (C b')" if "has_block c b'" for b'
    using code_ok_listsD(3,4) [OF ok that] by (auto simp: n_def)
  have "map (origin i n \<circ> origin n i) (C b) = C b"
    by (rule map_idI) (use nC [OF b] in \<open>auto simp: origin_def\<close>)
  then have C: "C b' = map (origin i n) ((C(b := map (origin n i) (C b))) b')" if "has_block c b'" for b'
    using nC [OF that] by (auto simp: map_origin)
  have cmp: "computable c2 u" if u: "live c2 u" "computable c (origin i n u)" for u
    using fold_computable [OF ok i ad rb u(2), folded n_def] fn(5) [OF u(1)] by (auto simp: origin_def split: if_splits)
  have keep: "live c2 u \<and> same_view (operation (code c ! u)) (operation (code c2 ! u)) \<and>
      (\<exists>rs. inputs c2 u = Inr rs \<and> inputs c u = Inr (map (map_option (origin i n)) rs))"
    if u: "live c u" "\<not> is_int_op (operation (code c ! u))" for u
  proof -
    have "u \<noteq> i" using u(2) ad by (auto simp: fold_adds_def)
    note k = fold_kept [OF ok ad rb u(1) this, folded n_def]
    obtain rs where rs: "inputs c u = Inr rs" "inputs c2 u = Inr (map (subst_ref n i) rs)" using k(3) by blast
    have "map_option (origin i n) (subst_ref n i x) = x" if "x \<in> set rs" for x
      using operand_lookup [OF ok u(1) _ rs(1)] fn(4) that by (cases x) (auto simp: REPLACE_REF_def origin_def)
    then have "map (map_option (origin i n)) (map (subst_ref n i) rs) = rs" by (auto intro: map_idI)
    then show ?thesis using k(1,2) op_skeleton_view rs by auto
  qed
  have "live c (origin i n u)" if "live c2 u" for u using fn(5) [OF that] i by (auto simp: origin_def)
  moreover have "origin i n u = u" if "u < length (code c)" for u using that by (simp add: origin_def n_def)
  moreover have "live c u \<and> same_view (operation (code c ! u)) (operation (code c2 ! u))"
    if u: "live c2 u" "is_int_op (operation (code c2 ! u))" for u
  proof -
    have "u \<noteq> n" using u(2) kn(1) ad by (auto simp: fold_adds_def is_int_op_def is_int_const_def)
    then show ?thesis using fn(5) [OF u(1)] fold_kept(2) [OF ok ad rb] op_skeleton_view by blast
  qed
  ultimately show ?thesis unfolding simulates_def using size val cmp keep C by blast
qed

section \<open>The loops\<close>

text \<open>
  The invariant: the container is well-formed, integer operations have their operands, folding them is part of the
  model, and no block ends its control flow with one.
\<close>

definition fold_ready :: "opt_code \<Rightarrow> bool" where
  "fold_ready c \<longleftrightarrow> (\<forall>u. live c u \<longrightarrow> operands_set (operation (code c ! u)) \<and> in_scope (operation (code c ! u))) \<and>
     (\<forall>b t. has_block c b \<longrightarrow> control_tail (blocks c ! b) = Some t \<longrightarrow> \<not> is_int_op (operation (code c ! t)))"

definition hazardous :: "opt_code \<Rightarrow> bool" where
  "hazardous c \<longleftrightarrow> (\<exists>u. live c u \<and> hazard (operation (code c ! u)))"

lemma hazard_int: "hazard op \<Longrightarrow> is_int_op op"
  by (auto simp: hazard_def is_int_op_def split: opt_opcode.splits)

lemma same_view_hazard: assumes "same_view op op'" shows "hazard op' = hazard op"
proof -
  have e: "opcode op' = opcode op" "bitfield_offset op' = bitfield_offset op" "bitfield_length op' = bitfield_length op"
    using assms by (simp_all add: same_view_def)
  show ?thesis unfolding hazard_def e ..
qed

lemma simulates_hazardous: "simulates \<rho> c C c' C' \<Longrightarrow> hazardous c' \<Longrightarrow> hazardous c"
  unfolding hazardous_def using simulatesD(11) [of \<rho> c C c' C'] hazard_int same_view_hazard by metis

lemma skeleton_ready:
  assumes "op_skeleton op op'" "op_ok op"
  shows "operands_set op' = operands_set op" "in_scope op' = in_scope op" "is_int_op op' = is_int_op op"
proof -
  have e: "opcode op' = opcode op" "comparison op' = comparison op" "set_refs op' = set_refs op" "length (refs op') = length (refs op)"
    using assms(1) by (simp_all add: op_skeleton_def)
  show int: "is_int_op op' = is_int_op op" unfolding is_int_op_def e ..
  show "in_scope op' = in_scope op" unfolding in_scope_def e ..
  have "refs op' ! k = None \<longleftrightarrow> refs op ! k = None" if "k < 4" for k
    using arg_cong [OF e(3), of "\<lambda>xs. xs ! k"] that assms(2) e(4) by (simp add: set_refs_def op_ok_def del: not_None_eq)
  then show "operands_set op' = operands_set op" unfolding operands_set_def int e by simp
qed

lemma control_tail_final: "code_ok c L C \<Longrightarrow> has_block c b \<Longrightarrow> control_tail (blocks c ! b) = final None (C b)"
  using code_ok_listsD(2) by (simp add: control.chained_def chain_def)

lemma fold_ready_step:
  assumes ok: "code_ok c L C" and b: "has_block c b" and i: "live c i" and ad: "fold_adds c i b L C c1 op"
    and rb: "replaced_by c1 c2 i (length (code c))" and ready: "fold_ready c"
    and ok2: "code_ok c2 L2 (C(b := map (origin (length (code c)) i) (C b)))"
  shows "fold_ready c2"
proof -
  let ?n = "length (code c)"
  note fn = fold_new [OF i ad rb]
  have int: "is_int_op (operation (code c ! i))" using ad by (simp add: fold_adds_def)
  have opo: "op_ok (operation (code c ! u))" if "live c u" for u using ok that by (auto simp: code_ok_def inputs_ok_def)
  have old: "operands_set (operation (code c2 ! u)) \<and> in_scope (operation (code c2 ! u))" if "live c2 u" for u
  proof (cases "u = ?n")
    case True
    have "opcode (operation (code c2 ! u)) \<in> {OPC_INT_CONST, OPC_UINT_CONST, OPC_INT_PLACEHOLDER}"
      using True fn(2) ad by (auto simp: op_skeleton_def fold_adds_def is_int_const_def)
    then show ?thesis by (auto simp: operands_set_def in_scope_def is_int_op_def)
  next
    case False
    then have u: "live c u" "u \<noteq> i" using fn(5) [OF that] by auto
    show ?thesis using skeleton_ready [OF fold_kept(2) [OF ok ad rb u] opo [OF u(1)]] ready u(1) by (simp add: fold_ready_def)
  qed
  have "\<not> is_int_op (operation (code c2 ! t))" if h: "has_block c2 b'" and t: "control_tail (blocks c2 ! b') = Some t" for b' t
  proof -
    have h': "has_block c b'"
      using h rb ad extended_rest(2) by (fastforce simp: has_block_def replaced_by_def same_size_def fold_adds_def)
    have f: "final None ((C(b := map (origin ?n i) (C b))) b') = Some t" using control_tail_final [OF ok2 h] t by simp
    then have ne: "C b' \<noteq> []" by (auto simp: final_def split: if_splits)
    define t0 where "t0 = last (C b')"
    have t0: "\<not> is_int_op (operation (code c ! t0))"
      using ready h' control_tail_final [OF ok h'] ne by (simp add: fold_ready_def final_def t0_def)
    then have "t0 \<noteq> i" using int by auto
    then have "t = t0" using f ne by (auto simp: final_def last_map origin_def t0_def split: if_splits)
    have "live c t0"
      using last_in_set [OF ne] code_ok_listsD(4) [OF ok h'] code_ok_live [OF ok h'] by (auto simp: t0_def)
    then show ?thesis
      using skeleton_ready(3) [OF fold_kept(2) [OF ok ad rb _ \<open>t0 \<noteq> i\<close>] opo] t0 \<open>t = t0\<close> by simp
  qed
  then show ?thesis using old by (simp add: fold_ready_def)
qed

text \<open>One iteration of the loop over a block.\<close>

lemma const_fold_step:
  assumes ok: "code_ok c L C" and ready: "fold_ready c" and b: "has_block c b" and l: "L b = ys @ i # zs"
  defines "n \<equiv> length (code c)" and "m \<equiv> const_fold_instr c (code c ! i) (opcode (operation (code c ! i)))"
  shows "m = Inl Undefined_behaviour \<and> hazardous c \<or> m = Inr (c, None) \<or>
    (\<exists>c1 c2 C2. m = Inr (c1, Some n) \<and> const_fold_replace c1 b i (Some n) = Inr (c2, first None (zs @ [n])) \<and>
       code_ok c2 (L(b := ys @ zs @ [n])) C2 \<and> fold_ready c2 \<and> simulates (origin i n) c C c2 C2 \<and>
       is_int_op (operation (code c ! i)) \<and> \<not> is_int_op (operation (code c2 ! n)) \<and>
       (\<forall>u \<in> set zs. is_int_op (operation (code c2 ! u)) = is_int_op (operation (code c ! u))))"
proof -
  have il: "i \<in> set (L b)" using l by simp
  have i: "live c i" "instr_block (code c ! i) = Some b"
    using code_ok_live [OF ok b il] code_ok_listsD(3) [OF ok b] il by auto
  have out: "fold_outcome c i b L C m"
    unfolding m_def by (rule const_fold_instr_outcome [OF ok b i]) (use ready i(1) in \<open>auto simp: fold_ready_def\<close>)
  show ?thesis
  proof (cases "\<exists>c1 op. m = Inr (c1, Some n) \<and> fold_adds c i b L C c1 op")
    case False
    then show ?thesis using out i(1) by (auto simp: fold_outcome_def n_def hazardous_def)
  next
    case True
    then obtain c1 op where m: "m = Inr (c1, Some n)" and ad: "fold_adds c i b L C c1 op" by blast
    have ex: "extended c c1 b op" and ok1: "code_ok c1 (L(b := L b @ [n])) C" and int: "is_int_op (operation (code c ! i))"
      using ad by (auto simp: fold_adds_def n_def)
    have b1: "has_block c1 b" using b extended_rest(6) [OF ex] by simp
    have nC: "n \<notin> set (C b)" using code_ok_listsD(3,4) [OF ok b] by (auto simp: n_def)
    have ni: "n \<noteq> i" using i(1) by (auto simp: n_def live_def)
    have "\<not> (final None (C b) = Some i)"
      using ready b control_tail_final [OF ok b] int by (auto simp: fold_ready_def)
    moreover have "is_int_op (operation (code c1 ! i))" using int extended_old(3) [OF ex] i(1) by (simp add: live_def)
    moreover have "(L(b := L b @ [n])) b = ys @ i # (zs @ [n])" using l by simp
    ultimately obtain c2 where c2: "const_fold_replace c1 b i (Some n) = Inr (c2, first None (zs @ [n]))"
        "code_ok c2 ((L(b := L b @ [n]))(b := ys @ zs @ [n])) (C(b := map (origin n i) (C b)))" "replaced_by c1 c2 i n"
      using const_fold_replace_ok [OF ok1 b1, of ys i "zs @ [n]" n] nC ni by auto
    have rb: "replaced_by c1 c2 i (length (code c))" and ok2: "code_ok c2 (L(b := ys @ zs @ [n])) (C(b := map (origin (length (code c)) i) (C b)))"
      using c2(2,3) by (simp_all add: n_def)
    note sim = fold_simulates [OF ok b i(1) ad rb, folded n_def]
    note rdy = fold_ready_step [OF ok b i(1) ad rb ready ok2]
    have "\<not> is_int_op (operation (code c2 ! n))"
      using fold_new(2) [OF i(1) ad rb] ad by (auto simp: n_def op_skeleton_def fold_adds_def is_int_const_def is_int_op_def)
    moreover have "is_int_op (operation (code c2 ! u)) = is_int_op (operation (code c ! u))" if "u \<in> set zs" for u
    proof -
      have "distinct (L b)" using code_ok_listsD(1) [OF ok b] by (simp add: content.chained_def chain_def)
      then have "live c u" "u \<noteq> i" using that l code_ok_live [OF ok b] by auto
      then show ?thesis using same_view_kind(1) [OF op_skeleton_view [OF fold_kept(2) [OF ok ad rb]]] by simp
    qed
    ultimately show ?thesis using m c2(1) ok2 rdy sim int unfolding n_def by blast
  qed
qed

definition pass_outcome :: "opt_code \<Rightarrow> (nat \<Rightarrow> nat list) \<Rightarrow> stop + opt_code \<Rightarrow> bool" where
  "pass_outcome c C m \<longleftrightarrow> m = Inl Undefined_behaviour \<and> hazardous c \<or>
     (\<exists>c' L' C' \<rho>. m = Inr c' \<and> code_ok c' L' C' \<and> fold_ready c' \<and> simulates \<rho> c C c' C')"

lemma pass_outcome_trans:
  assumes "simulates \<rho> c C c' C'" "pass_outcome c' C' m"
  shows "pass_outcome c C m"
  using assms simulates_trans [OF assms(1)] simulates_hazardous [OF assms(1)] unfolding pass_outcome_def by blast

text \<open>The instructions still ahead, and the integer operations among them, bound the iterations.\<close>

definition ahead :: "opt_code \<Rightarrow> nat list \<Rightarrow> nat" where
  "ahead c zs = length zs + length (filter (\<lambda>u. is_int_op (operation (code c ! u))) zs)"

lemma ahead_folded:
  assumes "is_int_op (operation (code c ! i))" "\<not> is_int_op (operation (code c' ! n))"
    "\<forall>u \<in> set zs. is_int_op (operation (code c' ! u)) = is_int_op (operation (code c ! u))"
  shows "ahead c' (zs @ [n]) < ahead c (i # zs)"
proof -
  have "filter (\<lambda>u. is_int_op (operation (code c' ! u))) zs = filter (\<lambda>u. is_int_op (operation (code c ! u))) zs"
    using assms(3) by (intro filter_cong) auto
  then show ?thesis using assms(1,2) by (simp add: ahead_def)
qed

lemma const_fold_block_ok:
  assumes "code_ok c L C" "fold_ready c" "has_block c b" "L b = ys @ zs" "ahead c zs \<le> fuel"
  shows "pass_outcome c C (const_fold_block fuel c b (first None zs))"
  using assms
proof (induction fuel arbitrary: c L C ys zs)
  case 0
  then have "zs = []" by (simp add: ahead_def)
  then show ?case using 0 simulates_refl [OF 0(1)] by (auto simp: pass_outcome_def)
next
  case (Suc fuel)
  note ok = Suc.prems(1) and ready = Suc.prems(2) and b = Suc.prems(3)
  show ?case
  proof (cases zs)
    case Nil
    then show ?thesis using ok ready simulates_refl [OF ok] by (auto simp: pass_outcome_def)
  next
    case (Cons i zs')
    have l: "L b = ys @ i # zs'" using Suc.prems(4) Cons by simp
    have lv: "live c i" using code_ok_live [OF ok b, of i] l by simp
    have nxt: "sib_next (code c ! i) = first None zs'"
      using code_ok_listsD(1) [OF ok b] l by (auto simp: content.chained_def chain_def)
    let ?m = "const_fold_instr c (code c ! i) (opcode (operation (code c ! i)))" and ?n = "length (code c)"
    consider (ub) "?m = Inl Undefined_behaviour" "hazardous c" | (skip) "?m = Inr (c, None)"
      | (fold) c1 c2 C2 where "?m = Inr (c1, Some ?n)" "const_fold_replace c1 b i (Some ?n) = Inr (c2, first None (zs' @ [?n]))"
         "code_ok c2 (L(b := ys @ zs' @ [?n])) C2" "fold_ready c2" "simulates (origin i ?n) c C c2 C2"
         "ahead c2 (zs' @ [?n]) < ahead c zs"
      using const_fold_step [OF ok ready b l] ahead_folded [of c i _ ?n zs'] Cons by blast
    then show ?thesis
    proof cases
      case ub
      then show ?thesis using Cons lv by (simp add: pass_outcome_def instr_lookup)
    next
      case skip
      have "ahead c zs' \<le> fuel" using Suc.prems(5) Cons by (auto simp: ahead_def split: if_splits)
      then show ?thesis
        using Suc.IH [OF ok ready b, of "ys @ [i]" zs'] l skip Cons lv nxt
        by (simp add: instr_lookup kefir_opt_instruction_next_sibling_def)
    next
      case fold
      have b2: "has_block c2 b" using b simulatesD(2) [OF fold(5)] by (simp add: has_block_def)
      have "ahead c2 (zs' @ [?n]) \<le> fuel" using fold(6) Suc.prems(5) by simp
      then have "pass_outcome c2 C2 (const_fold_block fuel c2 b (first None (zs' @ [?n])))"
        using Suc.IH [OF fold(3,4) b2, of ys "zs' @ [?n]"] by simp
      then have "pass_outcome c C (const_fold_block fuel c2 b (first None (zs' @ [?n])))"
        using pass_outcome_trans [OF fold(5)] by blast
      then show ?thesis using fold(1,2) Cons lv by (simp add: instr_lookup)
    qed
  qed
qed

lemma const_fold_blocks_ok:
  assumes "code_ok c L C" "fold_ready c" "\<forall>b \<in> set bs. has_block c b"
  shows "pass_outcome c C (const_fold_blocks c bs)"
  using assms
proof (induction bs arbitrary: c L C)
  case Nil
  then show ?case using simulates_refl [OF Nil(1)] by (auto simp: pass_outcome_def)
next
  case (Cons b bs)
  note ok = Cons.prems(1)
  have b: "has_block c b" using Cons.prems(3) by simp
  have ch: "chain (\<lambda>i. sib_prev (code c ! i)) (\<lambda>i. sib_next (code c ! i)) (content_head (blocks c ! b)) (content_tail (blocks c ! b)) (L b)"
    using code_ok_listsD(1) [OF ok b] by (simp add: content.chained_def)
  have head: "kefir_opt_code_block_instr_head c (Some b) = Inr (first None (L b))"
    using b ch by (simp add: kefir_opt_code_block_instr_head_def chain_def)
  have "set (L b) \<subseteq> {..<length (code c)}" "distinct (L b)" using code_ok_listsD(3) [OF ok b] ch by (auto simp: chain_def)
  then have "length (L b) \<le> length (code c)"
    using card_mono [of "{..<length (code c)}" "set (L b)"] distinct_card [of "L b"] by simp
  then have "ahead c (L b) \<le> 2 * length (code c)"
    using length_filter_le [of "\<lambda>u. is_int_op (operation (code c ! u))" "L b"] unfolding ahead_def by linarith
  then have out: "pass_outcome c C (const_fold_block (2 * length (code c)) c b (first None (L b)))"
    using const_fold_block_ok [OF ok Cons.prems(2) b, of "[]" "L b"] by simp
  show ?case
  proof (cases "const_fold_block (2 * length (code c)) c b (first None (L b))")
    case (Inl e)
    then show ?thesis using out head by (simp add: pass_outcome_def)
  next
    case (Inr c')
    obtain L' C' \<rho> where c': "code_ok c' L' C'" "fold_ready c'" "simulates \<rho> c C c' C'"
      using out Inr by (auto simp: pass_outcome_def)
    have "\<forall>b \<in> set bs. has_block c' b" using Cons.prems(3) simulatesD(2) [OF c'(3)] by (simp add: has_block_def)
    then show ?thesis using pass_outcome_trans [OF c'(3) Cons.IH [OF c'(1,2)]] head Inr by simp
  qed
qed

lemma const_fold_apply_ok:
  assumes "code_ok c L C" "fold_ready c"
  shows "pass_outcome c C (const_fold_apply c)"
  unfolding const_fold_apply_def
  by (rule const_fold_blocks_ok [OF assms]) (simp add: has_block_def)

end
