(* ===== verification/Kefir_Opt_Fold_Props.thy ===== *)
theory Kefir_Opt_Fold_Props
  imports Kefir_Opt_Fold_Loop
begin

text \<open>
  The properties of constant folding, with a concrete block on which they are applied: the operations
  themselves, the pass on a well-formed container, and the comparisons of the optimizer.
\<close>

section \<open>Values exist\<close>

lemma int_op_arity:
  assumes "operands_set (operation (code c ! u))" "is_int_op (operation (code c ! u))" "inputs c u = Inr rs"
  shows "length rs = (if opcode_class_of (opcode (operation (code c ! u))) \<in> {Class_ref2, Class_compare_ref2} then 2 else 1)"
proof -
  let ?op = "operation (code c ! u)"
  have "opcode_class_of (opcode ?op) \<in> {Class_ref1, Class_ref2, Class_compare_ref2, Class_bitfield}"
    using assms(2) by (auto simp: is_int_op_def split: opt_opcode.splits)
  then show ?thesis
    using assms by (auto simp: operands_set_def inputs_def kefir_opt_instruction_extract_inputs_def)
qed

lemma op_allows_some:
  assumes "is_int_op op" "length xs = (if opcode_class_of (opcode op) \<in> {Class_ref2, Class_compare_ref2} then 2 else 1)"
  shows "\<exists>v. op_allows op xs v"
proof -
  have bin: "\<exists>v. case int_spec f w x y of None \<Rightarrow> True | Some z \<Rightarrow> agrees w v z" for f w x y
    using agrees_word_of_int [of w] by (cases "int_spec f w x y") auto
  have un: "\<exists>v. case unary_spec (opcode op) x of None \<Rightarrow> False | Some (w, z) \<Rightarrow> agrees w v z"
    if "unary_spec (opcode op) x \<noteq> None" for x
    using that agrees_word_of_int by fastforce
  show ?thesis
  proof (cases "opcode op")
    case (OPC_INT_UNARY f w)
    then show ?thesis using assms(2) un [of "xs ! 0"] by (cases f) (simp_all add: op_allows_def)
  next
    case OPC_SCALAR_COMPARE
    then show ?thesis using assms by (cases "comparison op") (simp_all add: op_allows_def is_int_op_def)
  qed (use assms bin un [of "xs ! 0"] in \<open>auto simp: op_allows_def is_int_op_def\<close>)
qed

lemma computable_evaluates:
  assumes ready: "\<And>u. live c u \<Longrightarrow> operands_set (operation (code c ! u))"
  shows "computable c u \<Longrightarrow> \<exists>v. evaluates env c u v"
proof (induction rule: computable.induct)
  case (computable_phi u)
  then show ?case using evaluates_phi by blast
next
  case (computable_inputs u js)
  let ?op = "operation (code c ! u)"
  obtain f where f: "\<And>j. j \<in> set js \<Longrightarrow> evaluates env c j (f j)" using computable_inputs.IH by metis
  have xs: "list_all2 (evaluates env c) js (map f js)" using f by (simp add: list_all2_conv_all_nth)
  consider "is_int_const (opcode ?op)" | "opcode ?op = OPC_INT_PLACEHOLDER" | "is_int_op ?op" | "is_opaque ?op"
    using computable_inputs(2) by (auto simp: is_opaque_def)
  then show ?case
  proof cases
    case 3
    have "length (map f js) = (if opcode_class_of (opcode ?op) \<in> {Class_ref2, Class_compare_ref2} then 2 else 1)"
      using int_op_arity [OF ready [OF computable_inputs(1)] 3 computable_inputs(3)] by simp
    then obtain v where "op_allows ?op (map f js) v" using op_allows_some [OF 3] by blast
    then show ?thesis using evaluates_int [OF computable_inputs(1) 3 computable_inputs(3) xs] by blast
  qed (use computable_inputs xs in \<open>blast intro: evaluates.intros indeterminate.intros\<close>)+
qed

section \<open>The pass\<close>

lemma const_fold_represents:
  assumes "represents c s" "fold_ready c" "const_fold_apply c = Inr c'"
  shows "\<exists>s' \<rho>. represents c' s' \<and> fold_ready c' \<and> simulates \<rho> c (ordered s) c' (ordered s')"
proof -
  obtain L' C' \<rho> where "code_ok c' L' C'" "fold_ready c'" "simulates \<rho> c (ordered s) c' C'"
    using const_fold_apply_ok [of c "contents s" "ordered s"] assms by (auto simp: represents_def pass_outcome_def)
  then show ?thesis
    by (intro exI [of _ "\<lparr>n_blocks = length (blocks c'), n_instrs = length (code c'), contents = L', ordered = C'\<rparr>"]
        exI [of _ \<rho>]) (simp add: represents_def)
qed

lemma fold_ready_code [code]:
  "fold_ready c \<longleftrightarrow>
     list_all (\<lambda>u. live c u \<longrightarrow> operands_set (operation (code c ! u)) \<and> in_scope (operation (code c ! u))) [0..<length (code c)] \<and>
     list_all (\<lambda>b. case control_tail (blocks c ! b) of None \<Rightarrow> True | Some t \<Rightarrow> \<not> is_int_op (operation (code c ! t))) [0..<length (blocks c)]"
  unfolding fold_ready_def list_all_iff by (auto simp: has_block_def live_def split: option.splits)

lemma hazardous_code [code]:
  "hazardous c \<longleftrightarrow> list_ex (\<lambda>u. live c u \<and> hazard (operation (code c ! u))) [0..<length (code c)]"
  by (auto simp: hazardous_def list_ex_iff live_def)

lemma sum_ready: "fold_ready sum_code"
  by code_simp

definition folded_sum :: opt_code where
  "folded_sum = (case const_fold_apply sum_code of Inl _ \<Rightarrow> sum_code | Inr c \<Rightarrow> c)"

lemma sum_folds: "const_fold_apply sum_code = Inr folded_sum"
proof -
  have "\<not> hazardous sum_code" by code_simp
  then show ?thesis
    using const_fold_apply_ok [of sum_code "contents sum_listing" "ordered sum_listing"] sum_represents sum_ready
    by (auto simp: represents_def pass_outcome_def folded_sum_def)
qed

text \<open>
  C36. When constant folding returns on a well-formed container that is ready for it (\<open>fold_ready\<close>), the result is well-formed with the same blocks,
  and it refines the code before: every instruction of it stands for one of the code before, the kept ones for themselves, and
  has only values that one could have, whatever the phis and the operations outside integer arithmetic compute;
  every instruction that is not an integer operation is still there with the same operation on operands that stand for
  its old ones, and the instructions of the control flow of each block stand for the old ones in the same order.
\<close>

theorem const_fold_refines:
  assumes "represents c s" and "fold_ready c" and "const_fold_apply c = Inr c'"
  shows "\<exists>s' \<rho>. represents c' s' \<and> n_blocks s' = n_blocks s \<and> (\<forall>u < length (code c). \<rho> u = u) \<and>
    (\<forall>u. live c' u \<longrightarrow> live c (\<rho> u)) \<and>
    (\<forall>env u v. evaluates env c' u v \<longrightarrow> evaluates env c (\<rho> u) v) \<and>
    (\<forall>u. live c u \<longrightarrow> \<not> is_int_op (operation (code c ! u)) \<longrightarrow> live c' u \<and>
       same_view (operation (code c ! u)) (operation (code c' ! u)) \<and>
       (\<exists>rs. inputs c' u = Inr rs \<and> inputs c u = Inr (map (map_option \<rho>) rs))) \<and>
    (\<forall>b < n_blocks s. ordered s b = map \<rho> (ordered s' b))"
proof -
  obtain s' \<rho> where s': "represents c' s'" and sim: "simulates \<rho> c (ordered s) c' (ordered s')"
    using const_fold_represents [OF assms] by blast
  note d = simulatesD [OF sim]
  have "n_blocks s' = n_blocks s" using s' assms(1) d(2) by (simp add: represents_def)
  moreover have "ordered s b = map \<rho> (ordered s' b)" if "b < n_blocks s" for b
    using d(10) [of b] that assms(1) by (simp add: represents_def has_block_def)
  ultimately show ?thesis using s' d(3-5,7-9) by blast
qed

theorem const_fold_refines_witness:
  "kefir_opt_instruction_extract_inputs folded_sum (code folded_sum ! 4) False = Inr [Some 5] \<and>
   (\<forall>env. evaluates env folded_sum 5 5 \<and> evaluates env sum_code 2 5)"
proof -
  have f: "kefir_opt_instruction_extract_inputs folded_sum (code folded_sum ! 4) False = Inr [Some 5]" by code_simp
  have g: "kefir_opt_instruction_extract_inputs sum_code (code sum_code ! 4) False = Inr [Some 2]" by code_simp
  have l: "live sum_code 4" "\<not> is_int_op (operation (code sum_code ! 4))" by code_simp+
  have k: "live folded_sum 5" "is_int_const (opcode (operation (code folded_sum ! 5)))" "imm (operation (code folded_sum ! 5)) = 5"
    by code_simp+
  have e: "evaluates env folded_sum 5 5" for env using evaluates_const [OF k(1,2), of env] k(3) by simp
  obtain \<rho> where "\<forall>env. evaluates env sum_code (\<rho> 5) 5" "\<exists>rs. inputs folded_sum 4 = Inr rs \<and> inputs sum_code 4 = Inr (map (map_option \<rho>) rs)"
    using const_fold_refines [OF sum_represents sum_ready sum_folds] l e by blast
  then show ?thesis using f g e by (simp add: inputs_def)
qed

text \<open>
  C37. Constant folding of a well-formed container that is ready for it: the operands of its integer operations are
  set, it has none of the bit-precise, 128-bit and floating point operations whose folding is not modelled, and no block
  ends its control flow with an integer operation. The pass returns a well-formed container that is ready for it again: the loops
  end within the bound on their iterations and no operation on the container fails. The one exception among these
  containers is one with an operation whose folding may overflow in the host (a shift, a
  16-bit multiplication, a 64-bit negation, a bit field out of range), where the computation of the constant may be undefined.
\<close>

theorem const_fold_total:
  assumes "represents c s" and "fold_ready c"
  shows "(\<exists>c' s'. const_fold_apply c = Inr c' \<and> represents c' s' \<and> fold_ready c') \<or>
    const_fold_apply c = Inl Undefined_behaviour \<and> hazardous c"
proof (cases "const_fold_apply c")
  case (Inl e)
  then show ?thesis
    using const_fold_apply_ok [of c "contents s" "ordered s"] assms by (auto simp: represents_def pass_outcome_def)
next
  case (Inr c')
  then show ?thesis using const_fold_represents [OF assms] by blast
qed

theorem const_fold_total_witness:
  "\<exists>c' s'. const_fold_apply sum_code = Inr c' \<and> represents c' s' \<and> fold_ready c'"
proof -
  have "\<not> hazardous sum_code" by code_simp
  then show ?thesis using const_fold_total [OF sum_represents sum_ready] by blast
qed

text \<open>
  C38. Folding a well-formed container that is ready for it leaves no instruction without a value: when the operands of every instruction bottom out in
  the code before (in constants, placeholders, phis or operations without operands), they do in the folded
  code, and every instruction of it has a value.
\<close>

theorem const_fold_progress:
  assumes "represents c s" and "fold_ready c" and "const_fold_apply c = Inr c'"
    and "\<forall>u. live c u \<longrightarrow> computable c u" and "live c' u"
  shows "computable c' u \<and> (\<exists>v. evaluates env c' u v)"
proof -
  obtain s' \<rho> where r: "represents c' s'" "fold_ready c'" and sim: "simulates \<rho> c (ordered s) c' (ordered s')"
    using const_fold_represents [OF assms(1-3)] by blast
  have "computable c' u" using simulatesD(4,6) [OF sim assms(5)] assms(4) by blast
  then show ?thesis using computable_evaluates [of c' u env] r by (auto simp: fold_ready_def)
qed

theorem const_fold_progress_witness: "\<exists>v. evaluates (\<lambda>i xs. 0) folded_sum 4 v"
proof -
  have l: "live folded_sum 4" by code_simp
  have i: "live sum_code 0" "live sum_code 1" "live sum_code 2" "live sum_code 3" "live sum_code 4"
      "opcode (operation (code sum_code ! 0)) \<noteq> OPC_PHI" "opcode (operation (code sum_code ! 1)) \<noteq> OPC_PHI"
      "opcode (operation (code sum_code ! 2)) \<noteq> OPC_PHI" "opcode (operation (code sum_code ! 3)) \<noteq> OPC_PHI"
      "opcode (operation (code sum_code ! 4)) \<noteq> OPC_PHI"
      "inputs sum_code 0 = Inr (map Some [])" "inputs sum_code 1 = Inr (map Some [])" "inputs sum_code 3 = Inr (map Some [])"
      "inputs sum_code 2 = Inr (map Some [0, 1])" "inputs sum_code 4 = Inr (map Some [2])" "length (code sum_code) = 5"
    by code_simp+
  have k: "computable sum_code 0" "computable sum_code 1" "computable sum_code 3"
    using computable_inputs i by fastforce+
  have k2: "computable sum_code 2" by (rule computable_inputs [OF i(3,8,14)]) (use k in auto)
  have k4: "computable sum_code 4" by (rule computable_inputs [OF i(5,10,15)]) (use k2 in auto)
  have "computable sum_code u" if "live sum_code u" for u
  proof -
    have "u < 5" using that i(16) by (simp add: live_def)
    then have "u = 0 \<or> u = 1 \<or> u = 2 \<or> u = 3 \<or> u = 4" by linarith
    then show ?thesis using k k2 k4 by blast
  qed
  then show ?thesis using const_fold_progress [OF sum_represents sum_ready sum_folds _ l] by blast
qed

section \<open>Operations\<close>

text \<open>
  C39. Folding an integer operation on two constants. Where C defines the operation on the operands at its
  width, the fold yields a constant that agrees with the exact result on the bits of the width, except that a
  16-bit product of 2^31 or more is undefined in the host. Of the operations that C leaves undefined on the operands,
  exactly the divisions and remainders are not folded; a shift by the width or more is, to an unspecified constant or with
  undefined behaviour of the host.
\<close>

theorem int_binary_fold_correct:
  "(case int_spec f w l r of
      Some z \<Rightarrow> if (f = INT_MUL \<or> f = UINT_MUL) \<and> w = W16 \<and> wuval w l * wuval w r \<ge> 2 ^ 31
        then int_binary_fold f w l r = Undefined
        else \<exists>v. int_binary_fold f w l r = Folded v \<and> take_bit (width_bits w) (uint v) = take_bit (width_bits w) z
    | None \<Rightarrow> int_binary_fold f w l r = Unfolded \<longleftrightarrow> f = INT_DIV \<or> f = INT_MOD \<or> f = UINT_DIV \<or> f = UINT_MOD)"
proof (cases "int_spec f w l r")
  case None
  then show ?thesis using int_binary_fold_unfolded [of f w l r] by simp
next
  case (Some z)
  then show ?thesis
    using int_binary_fold_total [OF Some] by (auto simp: mul_undefined_def agrees_def wuval_def split: if_splits)
qed

text \<open>
  C40. The fold of a comparison decides the relation on the signed or unsigned values at its width; the inverse of
  a comparison holds exactly when the comparison does not, and its reciprocal is the comparison with the operands
  swapped. Both are involutions.
\<close>

theorem int_comparison_correct:
  "int_compare_fold rel w x y = int_relation_holds rel w x y \<and>
   kefir_opt_comparison_operation_inverse (COMPARISON_INT w rel) = COMPARISON_INT w (int_relation_inverse rel) \<and>
   int_compare_fold (int_relation_inverse rel) w x y = (\<not> int_compare_fold rel w x y) \<and>
   kefir_opt_comparison_operation_reciprocal (COMPARISON_INT w rel) = Inr (COMPARISON_INT w (int_relation_reciprocal rel)) \<and>
   int_compare_fold (int_relation_reciprocal rel) w x y = int_compare_fold rel w y x \<and>
   int_relation_inverse (int_relation_inverse rel) = rel \<and> int_relation_reciprocal (int_relation_reciprocal rel) = rel"
  unfolding int_compare_fold_eq by (cases rel) auto

end
