(* ===== verification/Spec2Isabelle.thy ===== *)
theory Spec2Isabelle
  imports Kefir_Sets Kefir_Bitset Kefir_Sort Kefir_Type_Compat Kefir_Bigint_Props Kefir_Opt_Dead_Props Kefir_Opt_Fold_Props
begin

text \<open>
  Kefir is a C17/C23 compiler written in C. Sources run through a preprocessor and lexer
  (\<^verbatim>\<open>source/preprocessor\<close>, \<^verbatim>\<open>source/lexer\<close>), a parser (\<^verbatim>\<open>source/parser\<close>), semantic analysis over
  a syntax tree with C types (\<^verbatim>\<open>source/ast\<close>), a translation to a stack-based intermediate
  representation (\<^verbatim>\<open>source/ast-translator\<close>, \<^verbatim>\<open>source/ir\<close>), an SSA optimiser
  (\<^verbatim>\<open>source/optimizer\<close>) and a code generator (\<^verbatim>\<open>source/codegen\<close>, \<^verbatim>\<open>source/target\<close>). All of them
  rest on the containers of \<^verbatim>\<open>source/core\<close>. This development models, bottom up, the containers
  that carry the compiler's indices, the part of semantic analysis that decides questions about types, the
  integers of any width, the code on which the optimizer works and one of its passes.

  \<^bold>\<open>Conventions.\<close> A fallible operation returns a result code (\<open>kefir_result\<close> of
  \<^verbatim>\<open>Kefir_Prelude\<close>, the constants of \<^verbatim>\<open>headers/kefir/core/error.h\<close>) together with the changed
  object, or \<open>'a result\<close> when it yields a value; every \<^verbatim>\<open>REQUIRE\<close> is a branch. Tests of
  arguments for \<^verbatim>\<open>NULL\<close> disappear where the model has no null pointer. Hashes, ranks and bit vectors are
  64-bit words; sizes and counters that cannot overflow before memory runs out are natural numbers.
  An allocator is an argument (\<open>mem\<close>, \<open>bitset_mem\<close>): a predicate on the requested number of bytes, for
  the bit vector with the arbitrary contents of the new block, so that theorems quantify over
  refused allocations and garbage.

  \<^bold>\<open>Containers.\<close>
  \<^item> \<^verbatim>\<open>Kefir_Map\<close>: the abstract finite map with the result codes of the C interface, as a locale
    whose client lemmas (replaying a sequence of operations) are proved once.
  \<^item> \<^verbatim>\<open>Kefir_Hashtree\<close>, \<^verbatim>\<open>Kefir_Hashtree_Correct\<close>: \<^verbatim>\<open>source/core/hashtree.c\<close>, a balanced search tree
    ordered by hash and key. Sortedness and balance are invariants; the tree refines the map, has
    logarithmic height, iterates in order, and reports removed entries once.
  \<^item> \<^verbatim>\<open>Kefir_Hashtable\<close>, \<^verbatim>\<open>Kefir_Hashtable_Correct\<close>: \<^verbatim>\<open>source/core/hashtable.c\<close>, open addressing
    with double hashing and tombstones. Probing loops run at most capacity steps, as their
    C bound says; that every slot is reached (odd step, power-of-two capacity) is proved, not
    assumed. The table refines the same map across rehashes.
  \<^item> \<^verbatim>\<open>Kefir_Sets\<close>: \<^verbatim>\<open>source/core/hashset.c\<close> and \<^verbatim>\<open>source/core/hashtreeset.c\<close> over the two maps. The loop of
    \<^verbatim>\<open>kefir_hashtreeset_merge\<close> carries fuel, shown sufficient in the theorem on merging.
  \<^item> \<^verbatim>\<open>Kefir_Bitset\<close>: \<^verbatim>\<open>source/core/bitset.c\<close> as a vector of booleans; the search for a run of clear
    bits, resizing and cloning.
  \<^item> \<^verbatim>\<open>Kefir_Sort\<close>: the merge sort of \<^verbatim>\<open>source/core/sort.c\<close> on the list of the elements of an array, with a
    comparator and an allocator that may fail. The merge loop equals a merge of lists, so that the sort is
    ascending, stable and a permutation; a failure comes with the array it leaves behind.

  \<^bold>\<open>Types.\<close>
  \<^item> \<^verbatim>\<open>Kefir_Ast_Type\<close>: \<^verbatim>\<open>headers/kefir/ast/type*.h\<close>: types as finite trees, the classification macros,
    qualification and array constructors.
  \<^item> \<^verbatim>\<open>Kefir_Type_Same\<close>: identity of types (the \<^verbatim>\<open>same\<close> operations), an equivalence on well-formed
    types.
  \<^item> \<^verbatim>\<open>Kefir_Type_Conv\<close>, \<^verbatim>\<open>Kefir_Type_Conv_Correct\<close>: \<^verbatim>\<open>source/ast/type.c\<close> and \<^verbatim>\<open>source/ast/type_conv.c\<close>: ranks,
    integer promotion, usual arithmetic conversions, decay, variable modification, qualification.
  \<^item> \<^verbatim>\<open>Kefir_Type_Compat\<close>: compatibility of types, members, enumerators and parameters; the
    recursion is shown to terminate although a function parameter is also compared with its own promotion.

  \<^bold>\<open>Big integers.\<close> Constant evaluation and wide \<^verbatim>\<open>_BitInt\<close> types rest on integers of any width.
  \<^item> \<^verbatim>\<open>Kefir_Bigint\<close>: the digit routines of \<^verbatim>\<open>headers/kefir_bigint/*.h\<close> on little-endian lists of 8-bit digits.
    A loop is a recursion on its remaining iterations, so no fuel is needed; widths are natural numbers.
  \<^item> \<^verbatim>\<open>Kefir_Bigint_Value\<close>, \<^verbatim>\<open>_Shift\<close>, \<^verbatim>\<open>_Arith\<close>, \<^verbatim>\<open>_Mul\<close>, \<^verbatim>\<open>_Booth\<close>, \<^verbatim>\<open>_Div\<close>, \<^verbatim>\<open>_Scan\<close>: the number an array stands for
    (\<open>uval\<close>, \<open>sval\<close>) and the effect of each routine on it, under the precondition \<open>holds\<close> that the array has room
    for the width: bit by bit for casts, bit fields and shifts, by carry and partial product
    invariants for the arithmetic, as searches of the bit sequence for the counting routines.
  \<^item> \<^verbatim>\<open>Kefir_Bigint_Object\<close>, \<^verbatim>\<open>Kefir_Bigint_Text\<close>: the objects of \<^verbatim>\<open>source/util/bigint.c\<close> with capacity, reallocation and
    width checks, and parsing and formatting in the bases 2, 8, 10 and 16; \<^verbatim>\<open>_Object_Correct\<close>,
    \<^verbatim>\<open>_Text_Correct\<close> and \<^verbatim>\<open>_Decimal\<close> prove them, the two resizing casts and the three digit sets through
    locales; \<^verbatim>\<open>Kefir_Bigint_Props\<close> states the properties.

  \<^bold>\<open>Optimizer code.\<close> Every pass of the optimizer edits one container, \<^verbatim>\<open>source/optimizer/code.c\<close>.
  \<^item> \<^verbatim>\<open>Kefir_Opt_Lists\<close>: doubly linked lists threaded through an array, and the locale \<open>sibling_list\<close> for unlinking,
    which the five lists of a block interpret.
  \<^item> \<^verbatim>\<open>Kefir_Opt_Code\<close>, \<^verbatim>\<open>Kefir_Opt_Code_Ops\<close>: operations, instructions, blocks, phi, call and inline assembly nodes, users,
    control flow, iteration and the replacement of references, with the operands of every class of opcode from
    \<^verbatim>\<open>source/optimizer/code_util.c\<close>.
  \<^item> \<^verbatim>\<open>Kefir_Opt_Code_Inv\<close>: the invariant \<open>code_ok\<close>: lists, nodes, operands and users agree. \<^verbatim>\<open>_New\<close>, \<^verbatim>\<open>_Control\<close>, \<^verbatim>\<open>_Drop\<close>,
    \<^verbatim>\<open>_Nodes\<close> and \<^verbatim>\<open>_Replace\<close> show that the operations succeed and keep it; \<^verbatim>\<open>Kefir_Opt_Code_Props\<close> lifts them to sequences of
    edits that refine operations on lists. Its walks over a block carry the number of instructions as fuel, which is
    enough because the instructions of a list are distinct.
  \<^item> \<^verbatim>\<open>Kefir_Opt_Dead\<close>: dropping a block and dropping dead code, over an index of functions that tell what is
    alive. \<^verbatim>\<open>Kefir_Opt_Dead_Links\<close> shows that the first loop drops the links of phi nodes from dead blocks and keeps
    \<open>code_ok\<close>; \<^verbatim>\<open>Kefir_Opt_Dead_Drop\<close> that the other loops drop the dead instructions or find one that is needed, under an
    invariant in which only the instructions that are alive keep all operands; \<^verbatim>\<open>Kefir_Opt_Dead_Props\<close> states the
    outcome. The loops along links carry the size of the table as fuel.

  \<^bold>\<open>Constant folding.\<close> The pass \<^verbatim>\<open>source/optimizer/pipeline/const_fold.c\<close> with the builder it uses (\<^verbatim>\<open>source/optimizer/builder.c\<close>).
  \<^item> \<^verbatim>\<open>Kefir_Opt_Fold\<close>: the builder, the integer arithmetic of the host on 64-bit constants, and the pass. Undefined
    behaviour of the host is an outcome of its own. \<^verbatim>\<open>Kefir_Opt_Fold_Int\<close> compares the arithmetic with the
    integers: the folded constant agrees with the exact result on the bits of the operation's width.
  \<^item> \<^verbatim>\<open>Kefir_Opt_Fold_Sem\<close>: the values an instruction may have, as an inductive relation over the operands, with
    phis and operations outside integer arithmetic as parameters, and that replacing an instruction by one of
    its values gives no instruction a new value.
  \<^item> \<^verbatim>\<open>Kefir_Opt_Fold_Pass\<close>, \<^verbatim>\<open>Kefir_Opt_Fold_Loop\<close>: what one fold adds to the container, the replacement of the folded
    instruction, and the loops with their invariant and the simulation they compose. The loop over a block appends the
    constants it will still visit; its fuel, twice the number of instructions, is enough because every
    iteration either passes an instruction or turns an integer operation into a constant.
    \<^verbatim>\<open>Kefir_Opt_Fold_Props\<close> states the properties. Containers with bit-precise, 128-bit or floating point
    operations that the pass folds too are excluded by \<open>in_scope\<close>.

  \<^bold>\<open>Bounds on sizes.\<close> Sums of sizes are taken modulo \<open>2 ^ 64\<close> where arguments in range can exceed it (the
  end of a run in \<^verbatim>\<open>Kefir_Bitset\<close>). Elsewhere natural numbers differ from the code only for sizes that no memory
  holds: a width within 63 of \<open>2 ^ 64\<close> in \<open>bigint_ensure_width\<close>, and more than \<open>2 ^ 32\<close> digits in the shifts by whole
  digits, whose index is a 32-bit number in \<^verbatim>\<open>shift.h\<close> (the compiler's widths end at 65535). Reading a field of more than 64 bits
  shifts by 64 or more in \<^verbatim>\<open>__kefir_bigint_get_bits\<close>, which C leaves undefined and \<open>get_bits_loop\<close> takes for zero; the callers ask
  for at most 64.

  \<^bold>\<open>Not modelled.\<close> Conversions between big integers and floating point numbers; memory release; callbacks with side effects outside the container; the type
  bundle that owns type objects; cyclic types through pointers to an enclosing structure (types are
  trees, an incomplete structure stands for the back reference); composite types; and the parts of the compiler
  listed above other than these, among them code that only formats output or talks to the operating system.
\<close>

end
